(* ===== verification/Prelude.thy ===== *)
theory Prelude
  imports Main "HOL-Library.Word" "HOL-Library.Multiset" "HOL-Library.Product_Lexorder"
begin

text \<open>
  What every component theory shares.

  \<^item> The result type of fallible Rust code: \<open>Ok\<close>, \<open>Err\<close> and, where the code indexes or slices,
    an explicit \<open>Panic\<close>.
  \<^item> The arithmetic of \<open>u64\<close> and of the 64-bit \<open>usize\<close> on natural numbers, with the saturation,
    the overflow check or the wrap-around of each operator written out. The release profile of
    the workspace leaves overflow checks off, so a plain \<open>+= 1\<close> wraps.
  \<^item> Slices (\<open>copy_from_slice\<close> into a range, reading a range), which panic out of range.
  \<^item> Iteration over hash maps and hash sets: the order is unspecified, so the operations that
    iterate take an enumeration function as an argument, and theorems hold for every function
    that \<open>enumerates\<close>.
  \<^item> Transition systems, their reachable states and the induction principle that the state
    machines of the development share, as a locale.
\<close>

section \<open>Results\<close>

datatype ('e, 'a) outcome = Ok 'a | Err 'e | Panic

fun ok_of :: "('e, 'a) outcome \<Rightarrow> 'a option" where
  "ok_of (Ok a) = Some a"
| "ok_of (Err e) = None"
| "ok_of Panic = None"

definition is_panic :: "('e, 'a) outcome \<Rightarrow> bool" where
  "is_panic r \<longleftrightarrow> r = Panic"

lemma is_panic_simps [simp]:
  "\<not> is_panic (Ok a)" "\<not> is_panic (Err e)" "is_panic Panic"
  by (simp_all add: is_panic_def)

text \<open>A sequence of checks, each ended by \<open>?\<close>: the first failure is the result.\<close>

fun checks :: "('e, unit) outcome list \<Rightarrow> ('e, unit) outcome" where
  "checks [] = Ok ()"
| "checks (c # cs) =
     (case c of
        Ok _ \<Rightarrow> checks cs
      | Err e \<Rightarrow> Err e
      | Panic \<Rightarrow> Panic)"

lemma checks_Ok_iff [simp]: "checks cs = Ok () \<longleftrightarrow> (\<forall>c \<in> set cs. c = Ok ())"
  by (induction cs) (auto split: outcome.splits)

lemma checks_Err: "checks cs = Err e \<Longrightarrow> Err e \<in> set cs"
  by (induction cs) (auto split: outcome.splits)

lemma checks_no_Panic: "(\<And>c. c \<in> set cs \<Longrightarrow> c \<noteq> Panic) \<Longrightarrow> checks cs \<noteq> Panic"
  by (induction cs) (auto split: outcome.splits)

text \<open>\<open>m?\<close> followed by the rest of the function, and \<open>map_err\<close>.\<close>

fun and_ok :: "('e, 'a) outcome \<Rightarrow> ('a \<Rightarrow> ('e, 'b) outcome) \<Rightarrow> ('e, 'b) outcome" where
  "and_ok (Ok a) k = k a"
| "and_ok (Err e) k = Err e"
| "and_ok Panic k = Panic"

fun map_err :: "('e \<Rightarrow> 'f) \<Rightarrow> ('e, 'a) outcome \<Rightarrow> ('f, 'a) outcome" where
  "map_err f (Ok a) = Ok a"
| "map_err f (Err e) = Err (f e)"
| "map_err f Panic = Panic"

lemma and_ok_Ok: "and_ok m k = Ok b \<longleftrightarrow> (\<exists>a. m = Ok a \<and> k a = Ok b)"
  by (cases m) auto

lemma and_ok_Panic: "and_ok m k = Panic \<longleftrightarrow> m = Panic \<or> (\<exists>a. m = Ok a \<and> k a = Panic)"
  by (cases m) auto

lemma map_err_iff [simp]: "map_err f m = Ok a \<longleftrightarrow> m = Ok a" "map_err f m = Panic \<longleftrightarrow> m = Panic"
  by (cases m; simp)+

section \<open>64-bit arithmetic\<close>

type_synonym u8 = "8 word"
type_synonym f32 = "32 word"

definition u64_max :: nat where
  "u64_max = 2 ^ 64 - 1"

definition sat_add :: "nat \<Rightarrow> nat \<Rightarrow> nat" where
  "sat_add a b = min (a + b) u64_max"

definition sat_sub :: "nat \<Rightarrow> nat \<Rightarrow> nat" where
  "sat_sub a b = a - b"

definition sat_mul :: "nat \<Rightarrow> nat \<Rightarrow> nat" where
  "sat_mul a b = min (a * b) u64_max"

definition checked_add :: "nat \<Rightarrow> nat \<Rightarrow> nat option" where
  "checked_add a b = (if a + b \<le> u64_max then Some (a + b) else None)"

definition checked_mul :: "nat \<Rightarrow> nat \<Rightarrow> nat option" where
  "checked_mul a b = (if a * b \<le> u64_max then Some (a * b) else None)"

definition wrap_add :: "nat \<Rightarrow> nat \<Rightarrow> nat" where
  "wrap_add a b = (a + b) mod 2 ^ 64"

definition wrap_sub :: "nat \<Rightarrow> nat \<Rightarrow> nat" where
  "wrap_sub a b = (a + 2 ^ 64 - b) mod 2 ^ 64"

definition wrap_mul :: "nat \<Rightarrow> nat \<Rightarrow> nat" where
  "wrap_mul a b = (a * b) mod 2 ^ 64"

named_theorems u64_arith "unfoldings of the saturating, checked and wrapping operators"

lemmas [u64_arith] = sat_add_def sat_sub_def sat_mul_def checked_add_def checked_mul_def

lemma u64_max_pos [simp]: "0 < u64_max"
  by (simp add: u64_max_def)

lemma u64_max_ge_1 [simp]: "Suc 0 \<le> u64_max"
  by (simp add: u64_max_def)

lemma sat_add_le [simp]: "sat_add a b \<le> u64_max"
  by (simp add: sat_add_def)

lemma sat_add_mono: "a \<le> u64_max \<Longrightarrow> a \<le> sat_add a b"
  by (simp add: sat_add_def)

lemma sat_add_small: "a + b \<le> u64_max \<Longrightarrow> sat_add a b = a + b"
  by (simp add: sat_add_def)

lemma wrap_add_small: "a + b \<le> u64_max \<Longrightarrow> wrap_add a b = a + b"
  by (simp add: wrap_add_def u64_max_def)

lemma wrap_add_Suc [simp]: "a < u64_max \<Longrightarrow> wrap_add a (Suc 0) = Suc a"
  using wrap_add_small [of a 1] by simp

lemma wrap_mul_small: "a * b \<le> u64_max \<Longrightarrow> wrap_mul a b = a * b"
  by (simp add: wrap_mul_def u64_max_def)

lemma wrap_sub_small:
  assumes "b \<le> a" and "a \<le> u64_max"
  shows "wrap_sub a b = a - b"
proof -
  have "wrap_sub a b = (a - b + 2 ^ 64) mod 2 ^ 64"
    using assms(1) by (simp add: wrap_sub_def)
  also have "\<dots> = (a - b) mod 2 ^ 64" by (rule mod_add_self2)
  also have "\<dots> = a - b" using assms(2) by (simp add: u64_max_def)
  finally show ?thesis .
qed

lemma wrap_add_le [simp]: "wrap_add a b \<le> u64_max"
proof -
  have "wrap_add a b < 2 ^ 64" unfolding wrap_add_def by (rule mod_less_divisor) simp
  then show ?thesis by (simp add: u64_max_def)
qed

lemma checked_add_Some_iff:
  "checked_add a b = Some c \<longleftrightarrow> c = a + b \<and> a + b \<le> u64_max"
  by (auto simp: checked_add_def)

section \<open>Slices\<close>

text \<open>\<open>xs[start..stop]\<close>: \<open>None\<close> is the panic of a range that is reversed or out of bounds.\<close>

definition slice_range :: "nat \<Rightarrow> nat \<Rightarrow> 'a list \<Rightarrow> 'a list option" where
  "slice_range start stop xs =
     (if start \<le> stop \<and> stop \<le> length xs then Some (take (stop - start) (drop start xs)) else None)"

text \<open>\<open>xs[start..stop].copy_from_slice(src)\<close>: panics when the range is reversed or out of bounds,
  or when the lengths differ.\<close>

definition copy_range :: "nat \<Rightarrow> nat \<Rightarrow> 'a list \<Rightarrow> 'a list \<Rightarrow> 'a list option" where
  "copy_range start stop src xs =
     (if start \<le> stop \<and> stop \<le> length xs \<and> length src = stop - start
      then Some (take start xs @ src @ drop stop xs) else None)"

lemma copy_range_length: "copy_range s e src xs = Some ys \<Longrightarrow> length ys = length xs"
  by (auto simp: copy_range_def split: if_splits)

lemma slice_copy_same:
  "copy_range s e src xs = Some ys \<Longrightarrow> slice_range s e ys = Some src"
  by (auto simp: copy_range_def slice_range_def split: if_splits)

lemma nth_copy_range:
  assumes "copy_range s e src xs = Some ys" and "i < s \<or> e \<le> i" and "i < length xs"
  shows "ys ! i = xs ! i"
proof (cases "i < s")
  case True
  with assms show ?thesis by (auto simp: copy_range_def nth_append split: if_splits)
next
  case False
  with assms have "e \<le> i" by simp
  with assms False show ?thesis
    by (auto simp: copy_range_def nth_append split: if_splits)
qed

lemma slice_copy_other:
  assumes "copy_range s e src xs = Some ys" and "e' \<le> s \<or> e \<le> s'"
  shows "slice_range s' e' ys = slice_range s' e' xs"
proof (cases "s' \<le> e' \<and> e' \<le> length xs")
  case True
  have len: "length ys = length xs" using assms(1) by (rule copy_range_length)
  have "ys ! (s' + i) = xs ! (s' + i)" if "i < e' - s'" for i
    by (rule nth_copy_range [OF assms(1)]) (use True assms(2) that in auto)
  then have "take (e' - s') (drop s' ys) = take (e' - s') (drop s' xs)"
    by (intro nth_equalityI) (use True len in auto)
  with len True show ?thesis by (simp add: slice_range_def)
next
  case False
  with copy_range_length [OF assms(1)] show ?thesis by (auto simp: slice_range_def)
qed

lemma copy_range_defined:
  "s \<le> e \<Longrightarrow> e \<le> length xs \<Longrightarrow> length src = e - s \<Longrightarrow>
   copy_range s e src xs = Some (take s xs @ src @ drop e xs)"
  by (simp add: copy_range_def)

text \<open>\<open>slice::chunks_exact\<close>, whose chunk length the callers check to be positive.\<close>

function chunks_exact :: "nat \<Rightarrow> 'a list \<Rightarrow> 'a list list" where
  "chunks_exact n xs = (if n = 0 \<or> length xs < n then [] else take n xs # chunks_exact n (drop n xs))"
  by pat_completeness auto
termination by (relation "measure (\<lambda>(n, xs). length xs)") auto

declare chunks_exact.simps [simp del]

lemma chunks_exact_short [simp]: "length xs < n \<Longrightarrow> chunks_exact n xs = []"
  by (subst chunks_exact.simps) simp

lemma chunks_exact_append [simp]: "0 < n \<Longrightarrow> length c = n \<Longrightarrow> chunks_exact n (c @ xs) = c # chunks_exact n xs"
  by (subst chunks_exact.simps) simp

lemma chunks_exact_concat:
  "0 < n \<Longrightarrow> (\<And>r. r \<in> set rs \<Longrightarrow> length r = n) \<Longrightarrow> chunks_exact n (concat rs) = rs"
  by (induction rs) auto

lemma chunks_exact_rows:
  assumes "0 < n" and "n dvd length xs"
  shows "concat (chunks_exact n xs) = xs \<and> (\<forall>r \<in> set (chunks_exact n xs). length r = n) \<and>
    length (chunks_exact n xs) = length xs div n"
  using assms
proof (induction n xs rule: chunks_exact.induct)
  case (1 n xs)
  show ?case
  proof (cases "length xs < n")
    case True
    with 1(3) have "xs = []" by (metis dvd_imp_le length_0_conv not_less neq0_conv)
    with True show ?thesis by simp
  next
    case False
    then have len: "length (take n xs) = n" by simp
    have dvd: "n dvd length (drop n xs)" using 1(3) False by (simp add: dvd_diff_nat)
    have step: "chunks_exact n xs = take n xs # chunks_exact n (drop n xs)"
      using 1(2) False by (subst chunks_exact.simps) simp
    note ih = 1(1) [OF _ 1(2) dvd]
    have tl: "\<not> (n = 0 \<or> length xs < n)" using 1(2) False by simp
    have "length xs div n = Suc (length (drop n xs) div n)"
      using le_div_geq [OF 1(2), of "length xs"] False by (simp only: length_drop not_less)
    then show ?thesis
      unfolding step concat.simps list.set length_Cons using ih [OF tl] len
      by (metis append_take_drop_id insertE)
  qed
qed

section \<open>Iterating hash maps and hash sets\<close>

definition enumerates :: "('a set \<Rightarrow> 'a list) \<Rightarrow> bool" where
  "enumerates it \<longleftrightarrow> (\<forall>S. finite S \<longrightarrow> distinct (it S) \<and> set (it S) = S)"

lemma enumerates_distinct: "enumerates it \<Longrightarrow> finite S \<Longrightarrow> distinct (it S)"
  by (simp add: enumerates_def)

lemma enumerates_set: "enumerates it \<Longrightarrow> finite S \<Longrightarrow> set (it S) = S"
  by (simp add: enumerates_def)

lemma enumerates_sorted: "enumerates (sorted_list_of_set :: 'a::linorder set \<Rightarrow> 'a list)"
  by (simp add: enumerates_def)

text \<open>\<open>Iterator::min_by_key\<close> returns the first element with the least key.\<close>

fun min_by_key :: "('a \<Rightarrow> 'k::linorder) \<Rightarrow> 'a list \<Rightarrow> 'a option" where
  "min_by_key k [] = None"
| "min_by_key k (x # xs) =
     (case min_by_key k xs of
        None \<Rightarrow> Some x
      | Some y \<Rightarrow> if k y < k x then Some y else Some x)"

lemma min_by_key_None [simp]: "min_by_key k xs = None \<longleftrightarrow> xs = []"
  by (cases xs) (auto split: option.splits)

lemma min_by_key_in: "min_by_key k xs = Some x \<Longrightarrow> x \<in> set xs"
  by (induction xs arbitrary: x) (auto split: option.splits if_splits)

lemma min_by_key_least: "min_by_key k xs = Some x \<Longrightarrow> y \<in> set xs \<Longrightarrow> k x \<le> k y"
proof (induction xs arbitrary: x y)
  case Nil
  then show ?case by simp
next
  case (Cons a xs)
  then show ?case
    by (cases "min_by_key k xs") (fastforce split: if_splits)+
qed

section \<open>Transition systems\<close>

text \<open>
  \<open>reach_in init step n s\<close>: some initial state leads to \<open>s\<close> in exactly \<open>n\<close> steps. The step
  count bounds the counters that would wrap only after \<open>2 ^ 64\<close> operations.
\<close>

inductive reach_in :: "('s \<Rightarrow> bool) \<Rightarrow> ('s \<Rightarrow> 's \<Rightarrow> bool) \<Rightarrow> nat \<Rightarrow> 's \<Rightarrow> bool"
  for init :: "'s \<Rightarrow> bool" and step :: "'s \<Rightarrow> 's \<Rightarrow> bool" where
  reach_start: "init s \<Longrightarrow> reach_in init step 0 s"
| reach_step: "reach_in init step n s \<Longrightarrow> step s t \<Longrightarrow> reach_in init step (Suc n) t"

locale counted_invariant =
  fixes init :: "'s \<Rightarrow> bool"
    and step :: "'s \<Rightarrow> 's \<Rightarrow> bool"
    and inv :: "nat \<Rightarrow> 's \<Rightarrow> bool"
    and bound :: nat
  assumes inv_init: "init s \<Longrightarrow> inv 0 s"
    and inv_step: "inv n s \<Longrightarrow> n < bound \<Longrightarrow> step s t \<Longrightarrow> inv (Suc n) t"
begin

lemma reach_inv: "reach_in init step n s \<Longrightarrow> n \<le> bound \<Longrightarrow> inv n s"
proof (induction rule: reach_in.induct)
  case (reach_start s)
  then show ?case by (simp add: inv_init)
next
  case (reach_step n s t)
  then show ?case by (simp add: inv_step)
qed

lemma reach_consequence:
  "reach_in init step n s \<Longrightarrow> n \<le> bound \<Longrightarrow> (\<And>n s. inv n s \<Longrightarrow> P s) \<Longrightarrow> P s"
  using reach_inv by blast

end

section \<open>Simulations\<close>

text \<open>
  A component as a function from an input and a state to the next state and an output, run over a
  list of inputs. A forward simulation shows that a detailed component answers every permitted
  sequence of inputs exactly as its specification does.
\<close>

fun run_outputs :: "('i \<Rightarrow> 's \<Rightarrow> 's \<times> 'o) \<Rightarrow> 'i list \<Rightarrow> 's \<Rightarrow> 's \<times> 'o list" where
  "run_outputs step [] s = (s, [])"
| "run_outputs step (i # is) s =
     (case step i s of (s', out) \<Rightarrow> case run_outputs step is s' of (s'', outs) \<Rightarrow> (s'', out # outs))"

lemma run_outputs_Cons [simp]:
  "fst (run_outputs step (i # is) s) = fst (run_outputs step is (fst (step i s)))"
  "snd (run_outputs step (i # is) s) = snd (step i s) # snd (run_outputs step is (fst (step i s)))"
  by (simp_all split: prod.splits)

declare run_outputs.simps(2) [simp del]

fun permitted_inputs :: "('i \<Rightarrow> 's \<Rightarrow> 's \<times> 'o) \<Rightarrow> ('i \<Rightarrow> 's \<Rightarrow> bool) \<Rightarrow> 'i list \<Rightarrow> 's \<Rightarrow> bool" where
  "permitted_inputs step may [] s \<longleftrightarrow> True"
| "permitted_inputs step may (i # is) s \<longleftrightarrow> may i s \<and> permitted_inputs step may is (fst (step i s))"

locale output_simulation =
  fixes impl :: "'i \<Rightarrow> 'c \<Rightarrow> 'c \<times> 'o"
    and spec :: "'i \<Rightarrow> 'a \<Rightarrow> 'a \<times> 'o"
    and may :: "'i \<Rightarrow> 'a \<Rightarrow> bool"
    and related :: "'c \<Rightarrow> 'a \<Rightarrow> bool"
  assumes simulates: "related c a \<Longrightarrow> may i a \<Longrightarrow>
    related (fst (impl i c)) (fst (spec i a)) \<and> snd (impl i c) = snd (spec i a)"
begin

lemma run_simulates:
  "related c a \<Longrightarrow> permitted_inputs spec may is a \<Longrightarrow>
   related (fst (run_outputs impl is c)) (fst (run_outputs spec is a)) \<and>
   snd (run_outputs impl is c) = snd (run_outputs spec is a)"
proof (induction "is" arbitrary: c a)
  case Nil
  then show ?case by simp
next
  case (Cons i "is")
  then have step: "related (fst (impl i c)) (fst (spec i a))" "snd (impl i c) = snd (spec i a)"
    using simulates [of c a i] by simp_all
  with Cons have "related (fst (run_outputs impl is (fst (impl i c)))) (fst (run_outputs spec is (fst (spec i a)))) \<and>
    snd (run_outputs impl is (fst (impl i c))) = snd (run_outputs spec is (fst (spec i a)))"
    by simp
  with step show ?case by simp
qed

end

section \<open>Lists\<close>

lemma count_list_remove1 [simp]:
  "count_list (remove1 x xs) y = (if x = y then count_list xs y - 1 else count_list xs y)"
  by (induction xs) auto

lemma distinct_butlast_last:
  "distinct xs \<Longrightarrow> xs \<noteq> [] \<Longrightarrow> last xs \<notin> set (butlast xs)"
  by (metis append_butlast_last_id distinct_append disjoint_iff list.set_intros(1))

lemma set_butlast_distinct:
  "distinct xs \<Longrightarrow> xs \<noteq> [] \<Longrightarrow> set (butlast xs) = set xs - {last xs}"
  by (metis Diff_insert_absorb append_butlast_last_id distinct_butlast_last
      list.simps(15) rotate1.simps(2) set_rotate1)

end
