(* ===== verification/Kv_Base.thy ===== *)
theory Kv_Base
  imports Prelude
begin

text \<open>
  The shared vocabulary of crates/llm-kv-cache: storage formats (format.rs), errors and the token
  budget (lib.rs), block identifiers (block_id.rs), and the byte framing of the block chain hash
  (block.rs). SHA-256 itself is a third-party digest and stays a parameter.
\<close>

type_synonym block_id = nat
type_synonym session_id = nat
type_synonym cache_block_hash = "u8 list"

section \<open>Formats and errors\<close>

datatype kv_cache_format = F32 | F16 | Int8 | AsymmetricVq

datatype kv_cache_value_quantization_bits = Three | Four | Eight

fun bit_width :: "kv_cache_value_quantization_bits \<Rightarrow> nat" where
  "bit_width Three = 3"
| "bit_width Four = 4"
| "bit_width Eight = 8"

definition level_count :: "kv_cache_value_quantization_bits \<Rightarrow> nat" where
  "level_count b = 2 ^ bit_width b"

datatype kv_cache_error =
    CapacityExceeded nat nat
  | ShapeMismatch nat nat
  | UnsupportedFormat kv_cache_format
  | NonFiniteValue
  | InvalidShape

definition quantization_payload_bytes ::
  "kv_cache_value_quantization_bits \<Rightarrow> nat \<Rightarrow> (kv_cache_error, nat) outcome" where
  "quantization_payload_bytes b value_count =
     (case Option.bind (checked_mul value_count (bit_width b)) (\<lambda>bits. checked_add bits 7) of
        None \<Rightarrow> Err InvalidShape
      | Some bits \<Rightarrow> Ok (bits div 8))"

record kv_cache_config =
  cfg_format :: kv_cache_format
  cfg_asymmetric_vq :: "kv_cache_value_quantization_bits option"

definition kv_cache_config_f32 :: kv_cache_config where
  "kv_cache_config_f32 = \<lparr>cfg_format = F32, cfg_asymmetric_vq = None\<rparr>"

definition kv_cache_config_f16 :: kv_cache_config where
  "kv_cache_config_f16 = \<lparr>cfg_format = F16, cfg_asymmetric_vq = None\<rparr>"

definition kv_cache_config_int8 :: kv_cache_config where
  "kv_cache_config_int8 = \<lparr>cfg_format = Int8, cfg_asymmetric_vq = None\<rparr>"

definition kv_cache_config_asymmetric_vq ::
  "kv_cache_value_quantization_bits \<Rightarrow> kv_cache_config" where
  "kv_cache_config_asymmetric_vq b = \<lparr>cfg_format = AsymmetricVq, cfg_asymmetric_vq = Some b\<rparr>"

section \<open>Token budget\<close>

record kv_cache_budget =
  bud_max_tokens :: nat
  bud_used_tokens :: nat

definition budget_new :: "nat \<Rightarrow> kv_cache_budget" where
  "budget_new m = \<lparr>bud_max_tokens = m, bud_used_tokens = 0\<rparr>"

definition budget_remaining_tokens :: "kv_cache_budget \<Rightarrow> nat" where
  "budget_remaining_tokens b = wrap_sub (bud_max_tokens b) (bud_used_tokens b)"

definition budget_reserve ::
  "nat \<Rightarrow> kv_cache_budget \<Rightarrow> kv_cache_budget \<times> (kv_cache_error, unit) outcome" where
  "budget_reserve tokens b =
     (case checked_add (bud_used_tokens b) tokens of
        None \<Rightarrow> (b, Err (CapacityExceeded tokens (budget_remaining_tokens b)))
      | Some nxt \<Rightarrow>
          if nxt > bud_max_tokens b
          then (b, Err (CapacityExceeded tokens (budget_remaining_tokens b)))
          else (b\<lparr>bud_used_tokens := nxt\<rparr>, Ok ()))"

definition budget_release :: "nat \<Rightarrow> kv_cache_budget \<Rightarrow> kv_cache_budget" where
  "budget_release tokens b = b\<lparr>bud_used_tokens := sat_sub (bud_used_tokens b) tokens\<rparr>"

definition budget_wf :: "kv_cache_budget \<Rightarrow> bool" where
  "budget_wf b \<longleftrightarrow> bud_used_tokens b \<le> bud_max_tokens b \<and> bud_max_tokens b \<le> u64_max"

section \<open>Block identifiers\<close>

definition INVALID_block_id :: block_id where
  "INVALID_block_id = 0"

definition block_id_new :: "nat \<Rightarrow> block_id option" where
  "block_id_new raw = (if raw = 0 then None else Some raw)"

definition block_id_is_invalid :: "block_id \<Rightarrow> bool" where
  "block_id_is_invalid b \<longleftrightarrow> b = 0"

text \<open>\<open>NEXT_BLOCK_ID.fetch_update\<close> installs the successor and returns the previous value; the
  counter is the explicit argument.\<close>

definition block_id_next :: "nat \<Rightarrow> nat \<times> (kv_cache_error, block_id) outcome" where
  "block_id_next current =
     (case checked_add current 1 of
        None \<Rightarrow> (current, Err InvalidShape)
      | Some nxt \<Rightarrow>
          if nxt = INVALID_block_id then (current, Err InvalidShape) else (nxt, Ok current))"

section \<open>Byte framing of the chain hash\<close>

fun le_bytes :: "nat \<Rightarrow> nat \<Rightarrow> u8 list" where
  "le_bytes 0 n = []"
| "le_bytes (Suc k) n = word_of_nat (n mod 256) # le_bytes k (n div 256)"

definition hash_domain_tag :: "u8 list" where
  "hash_domain_tag = map (\<lambda>c. word_of_nat (of_char c)) ''kir-ai-kv-block-chain/v1''"

definition frame_bytes :: "u8 list \<Rightarrow> u8 list" where
  "frame_bytes value = le_bytes 8 (length value) @ value"

definition cache_block_chain_preimage ::
  "u8 list \<Rightarrow> u8 list \<Rightarrow> cache_block_hash \<Rightarrow> nat list \<Rightarrow> u8 list" where
  "cache_block_chain_preimage model_id cache_context previous_hash token_ids =
     hash_domain_tag @ frame_bytes model_id @ frame_bytes cache_context @ previous_hash @
     le_bytes 8 (length token_ids) @ concat (map (le_bytes 4) token_ids)"

definition cache_block_chain_hash ::
  "(u8 list \<Rightarrow> cache_block_hash) \<Rightarrow> u8 list \<Rightarrow> u8 list \<Rightarrow> cache_block_hash \<Rightarrow> nat list
     \<Rightarrow> cache_block_hash" where
  "cache_block_chain_hash sha256 model_id cache_context previous_hash token_ids =
     sha256 (cache_block_chain_preimage model_id cache_context previous_hash token_ids)"

section \<open>Facts\<close>

lemma level_count_values:
  "level_count Three = 8" "level_count Four = 16" "level_count Eight = 256"
  by (simp_all add: level_count_def)

lemma budget_remaining_wf:
  "budget_wf b \<Longrightarrow> budget_remaining_tokens b = bud_max_tokens b - bud_used_tokens b"
  by (simp add: budget_wf_def budget_remaining_tokens_def wrap_sub_small)

lemma budget_reserve_wf:
  "budget_wf b \<Longrightarrow> budget_wf (fst (budget_reserve n b))"
  by (auto simp: budget_reserve_def budget_wf_def split: option.splits)

lemma budget_reserve_outcome:
  assumes "budget_wf b"
  shows "budget_reserve n b =
     (if n \<le> bud_max_tokens b - bud_used_tokens b
      then (b\<lparr>bud_used_tokens := bud_used_tokens b + n\<rparr>, Ok ())
      else (b, Err (CapacityExceeded n (bud_max_tokens b - bud_used_tokens b))))"
  using assms budget_remaining_wf [OF assms]
  by (auto simp: budget_reserve_def checked_add_def budget_wf_def)

lemma budget_release_wf: "budget_wf b \<Longrightarrow> budget_wf (budget_release n b)"
  by (auto simp: budget_wf_def budget_release_def sat_sub_def)

lemma block_id_next_cases:
  "0 < current \<Longrightarrow> block_id_next current =
     (if current < u64_max then (Suc current, Ok current) else (current, Err InvalidShape))"
  by (auto simp: block_id_next_def checked_add_def INVALID_block_id_def)

lemma length_le_bytes [simp]: "length (le_bytes k n) = k"
  by (induction k arbitrary: n) auto

lemma le_bytes_inj:
  assumes "le_bytes k m = le_bytes k n" and "m < 256 ^ k" and "n < 256 ^ k"
  shows "m = n"
  using assms
proof (induction k arbitrary: m n)
  case 0
  then show ?case by simp
next
  case (Suc k)
  have "unat (word_of_nat (m mod 256) :: u8) = unat (word_of_nat (n mod 256) :: u8)"
    using Suc.prems(1) by simp
  then have lo: "m mod 256 = n mod 256"
    by (simp add: unat_of_nat)
  have "m div 256 < 256 ^ k" "n div 256 < 256 ^ k"
    using Suc.prems(2,3) by (simp_all add: less_mult_imp_div_less mult.commute)
  then have hi: "m div 256 = n div 256"
    using Suc by simp
  show ?case using lo hi by (metis div_mult_mod_eq)
qed

lemma concat_le_bytes_inj:
  assumes "concat (map (le_bytes k) xs) @ r = concat (map (le_bytes k) ys) @ s"
    and "length xs = length ys"
    and "\<forall>x \<in> set xs. x < 256 ^ k" and "\<forall>y \<in> set ys. y < 256 ^ k"
  shows "xs = ys"
  using assms(2,1,3,4)
proof (induction xs ys rule: list_induct2)
  case Nil
  then show ?case by simp
next
  case (Cons x xs y ys)
  then show ?case using le_bytes_inj [of k x y] by simp
qed

lemma frame_bytes_inj:
  assumes "frame_bytes a @ r = frame_bytes b @ s"
    and "length a \<le> u64_max" and "length b \<le> u64_max"
  shows "a = b \<and> r = s"
proof -
  have "le_bytes 8 (length a) = le_bytes 8 (length b)"
    using assms(1) by (simp add: frame_bytes_def)
  then have "length a = length b"
    by (rule le_bytes_inj) (use assms(2,3) in \<open>simp_all add: u64_max_def\<close>)
  with assms(1) show ?thesis by (simp add: frame_bytes_def)
qed

lemma chain_preimage_split:
  assumes "cache_block_chain_preimage m1 c1 h1 t1 = cache_block_chain_preimage m2 c2 h2 t2"
    and "length m1 \<le> u64_max" "length m2 \<le> u64_max"
    and "length c1 \<le> u64_max" "length c2 \<le> u64_max"
    and "length h1 = 32" "length h2 = 32"
  shows "m1 = m2 \<and> c1 = c2 \<and> h1 = h2 \<and>
    le_bytes 8 (length t1) @ concat (map (le_bytes 4) t1) =
    le_bytes 8 (length t2) @ concat (map (le_bytes 4) t2)"
proof -
  have m: "m1 = m2" and r: "frame_bytes c1 @ h1 @ le_bytes 8 (length t1) @ concat (map (le_bytes 4) t1) =
      frame_bytes c2 @ h2 @ le_bytes 8 (length t2) @ concat (map (le_bytes 4) t2)"
    using assms(1) frame_bytes_inj [OF _ assms(2,3)]
    by (auto simp: cache_block_chain_preimage_def)
  have "c1 = c2" "h1 @ le_bytes 8 (length t1) @ concat (map (le_bytes 4) t1) =
      h2 @ le_bytes 8 (length t2) @ concat (map (le_bytes 4) t2)"
    using frame_bytes_inj [OF r assms(4,5)] by auto
  with m assms(6,7) show ?thesis by simp
qed

section \<open>Properties\<close>

text \<open>The bytes hashed for a link of the block chain determine the model, the cache context,
  the previous hash and the token ids, and nothing else: two links have the same preimage exactly
  when all four agree, so a collision of chain hashes is a collision of SHA-256 and never one of
  the framing.\<close>

theorem chain_preimage_injective:
  assumes "length m1 \<le> u64_max" "length m2 \<le> u64_max"
    and "length c1 \<le> u64_max" "length c2 \<le> u64_max"
    and "length t1 \<le> u64_max" "length t2 \<le> u64_max"
    and "length h1 = 32" "length h2 = 32"
    and "\<forall>t \<in> set t1. t < 2 ^ 32" "\<forall>t \<in> set t2. t < 2 ^ 32"
  shows "cache_block_chain_preimage m1 c1 h1 t1 = cache_block_chain_preimage m2 c2 h2 t2 \<longleftrightarrow>
    m1 = m2 \<and> c1 = c2 \<and> h1 = h2 \<and> t1 = t2"
proof (intro iffI)
  assume eq: "cache_block_chain_preimage m1 c1 h1 t1 = cache_block_chain_preimage m2 c2 h2 t2"
  note s = chain_preimage_split [OF eq assms(1-4) assms(7,8)]
  have "le_bytes 8 (length t1) = le_bytes 8 (length t2)"
    and c: "concat (map (le_bytes 4) t1) = concat (map (le_bytes 4) t2)"
    using s by simp_all
  then have len: "length t1 = length t2"
    by (intro le_bytes_inj [of 8]) (use assms(5,6) in \<open>simp_all add: u64_max_def\<close>)
  have "t1 = t2"
    by (rule concat_le_bytes_inj [of 4 t1 "[]" t2 "[]"]) (use c len assms(9,10) in simp_all)
  with s show "m1 = m2 \<and> c1 = c2 \<and> h1 = h2 \<and> t1 = t2" by simp
qed simp

theorem chain_preimage_injective_witness:
  "cache_block_chain_preimage [1] [2, 3] (replicate 32 0) [4] \<noteq>
   cache_block_chain_preimage [1, 2] [3] (replicate 32 0) [4]"
  using chain_preimage_injective [of "[1]" "[1, 2]" "[2, 3]" "[3]" "[4]" "[4]"
      "replicate 32 0" "replicate 32 0"]
  by (simp add: u64_max_def)

text \<open>The token budget never over-commits. From a fresh budget, \<open>reserve\<close> succeeds exactly when
  the request fits the remaining tokens and otherwise reports the request and the remaining
  tokens and leaves the budget alone, \<open>release\<close> gives tokens back saturating at zero, and after
  any sequence of both the used tokens stay within the maximum.\<close>

theorem budget_never_overcommits:
  assumes "budget_wf b"
  shows "budget_reserve n b =
      (if n \<le> bud_max_tokens b - bud_used_tokens b
       then (b\<lparr>bud_used_tokens := bud_used_tokens b + n\<rparr>, Ok ())
       else (b, Err (CapacityExceeded n (bud_max_tokens b - bud_used_tokens b)))) \<and>
    budget_wf (fst (budget_reserve n b)) \<and> budget_wf (budget_release n b) \<and>
    bud_used_tokens (budget_release n b) = bud_used_tokens b - n \<and>
    (n \<le> bud_max_tokens b - bud_used_tokens b \<longrightarrow>
       budget_release n (fst (budget_reserve n b)) = b)"
proof -
  note eq = budget_reserve_outcome [OF assms, of n]
  have "budget_wf (fst (budget_reserve n b))" "budget_wf (budget_release n b)"
    using assms budget_reserve_wf budget_release_wf by blast+
  moreover have "bud_used_tokens (budget_release n b) = bud_used_tokens b - n"
    by (simp add: budget_release_def sat_sub_def)
  moreover have "n \<le> bud_max_tokens b - bud_used_tokens b \<Longrightarrow>
      budget_release n (fst (budget_reserve n b)) = b"
    unfolding eq by (simp add: budget_release_def sat_sub_def)
  ultimately show ?thesis using eq by blast
qed

theorem budget_never_overcommits_witness:
  "budget_wf (budget_new 8) \<and>
   budget_reserve 3 (budget_new 8) = (\<lparr>bud_max_tokens = 8, bud_used_tokens = 3\<rparr>, Ok ())"
proof -
  have wf: "budget_wf (budget_new 8)" by (simp add: budget_wf_def budget_new_def u64_max_def)
  show ?thesis using wf budget_never_overcommits [OF wf, of 3] by (simp add: budget_new_def)
qed

end
