(* ===== verification/Arc_Store.thy ===== *)
theory Arc_Store
  imports Prelude
begin

text \<open>
  \<open>std::sync::Arc\<close> as an explicit store: a map from addresses to a value and its strong count.
  \<open>Arc::make_mut\<close> is the only way the code writes through an \<open>Arc\<close>; it writes in place when
  the count is one and detaches a copy otherwise. The locale \<open>shared_cells\<close> is the contract
  the cache blocks rely on, stated over the multiset of live handles: a write through one handle
  never changes what another handle reads. It is interpreted on the store below.
\<close>

record 'a arc_heap =
  cells :: "nat \<rightharpoonup> 'a \<times> nat"
  next_addr :: nat

definition empty_heap :: "'a arc_heap" where
  "empty_heap = \<lparr>cells = Map.empty, next_addr = 0\<rparr>"

definition arc_get :: "'a arc_heap \<Rightarrow> nat \<Rightarrow> 'a option" where
  "arc_get h a = map_option fst (cells h a)"

definition strong_count :: "'a arc_heap \<Rightarrow> nat \<Rightarrow> nat" where
  "strong_count h a = (case cells h a of None \<Rightarrow> 0 | Some (v, n) \<Rightarrow> n)"

definition arc_new :: "'a \<Rightarrow> 'a arc_heap \<Rightarrow> nat \<times> 'a arc_heap" where
  "arc_new v h =
     (next_addr h,
      h\<lparr>cells := (cells h)(next_addr h \<mapsto> (v, 1)), next_addr := Suc (next_addr h)\<rparr>)"

definition arc_clone :: "nat \<Rightarrow> 'a arc_heap \<Rightarrow> 'a arc_heap" where
  "arc_clone a h =
     (case cells h a of
        None \<Rightarrow> h
      | Some (v, n) \<Rightarrow> h\<lparr>cells := (cells h)(a \<mapsto> (v, Suc n))\<rparr>)"

definition arc_drop :: "nat \<Rightarrow> 'a arc_heap \<Rightarrow> 'a arc_heap" where
  "arc_drop a h =
     (case cells h a of
        None \<Rightarrow> h
      | Some (v, n) \<Rightarrow>
          if n \<le> 1 then h\<lparr>cells := (cells h)(a := None)\<rparr>
          else h\<lparr>cells := (cells h)(a \<mapsto> (v, n - 1))\<rparr>)"

text \<open>\<open>*Arc::make_mut(&mut a) = f(*a)\<close>: the handle's address afterwards and the new store.\<close>

definition arc_make_mut :: "('a \<Rightarrow> 'a) \<Rightarrow> nat \<Rightarrow> 'a arc_heap \<Rightarrow> nat \<times> 'a arc_heap" where
  "arc_make_mut f a h =
     (case cells h a of
        None \<Rightarrow> (a, h)
      | Some (v, n) \<Rightarrow>
          if n = 1 then (a, h\<lparr>cells := (cells h)(a \<mapsto> (f v, 1))\<rparr>)
          else arc_new (f v) (arc_drop a h))"

text \<open>Every address is counted exactly as often as it is held, and fresh addresses are unused.\<close>

definition arc_ok :: "'a arc_heap \<Rightarrow> nat multiset \<Rightarrow> bool" where
  "arc_ok h R \<longleftrightarrow>
     (\<forall>a. strong_count h a = count R a) \<and>
     (\<forall>a v n. cells h a = Some (v, n) \<longrightarrow> 0 < n \<and> a < next_addr h)"

lemma arc_ok_empty: "arc_ok empty_heap {#}"
  by (simp add: arc_ok_def empty_heap_def strong_count_def)

lemma arc_ok_held:
  assumes "arc_ok h R" and "a \<in># R"
  obtains v where "cells h a = Some (v, count R a)" and "arc_get h a = Some v"
proof -
  from assms have n: "strong_count h a = count R a" "count R a \<noteq> 0"
    by (auto simp: arc_ok_def)
  show thesis
  proof (cases "cells h a")
    case None
    with n show thesis by (simp add: strong_count_def)
  next
    case (Some c)
    with n that show thesis by (cases c) (simp add: strong_count_def arc_get_def)
  qed
qed

lemma arc_ok_fresh: "arc_ok h R \<Longrightarrow> cells h (next_addr h) = None"
  by (cases "cells h (next_addr h)") (auto simp: arc_ok_def)

lemma arc_ok_fresh_count: "arc_ok h R \<Longrightarrow> next_addr h \<notin># R"
  using arc_ok_fresh [of h R] by (auto elim: arc_ok_held)

lemma arc_new_ok:
  assumes "arc_ok h R" and "arc_new v h = (a, h')"
  shows "arc_ok h' (add_mset a R)" and "arc_get h' a = Some v" and "a \<notin># R"
    and "\<And>b. b \<noteq> a \<Longrightarrow> arc_get h' b = arc_get h b"
proof -
  have a: "a = next_addr h" and h': "h' = h\<lparr>cells := (cells h)(a \<mapsto> (v, 1)), next_addr := Suc a\<rparr>"
    using assms(2) by (auto simp: arc_new_def)
  show "a \<notin># R" using arc_ok_fresh_count [OF assms(1)] a by simp
  then show "arc_ok h' (add_mset a R)"
    using assms(1) a h'
    by (fastforce simp: arc_ok_def strong_count_def not_in_iff less_SucI)
  show "arc_get h' a = Some v" "\<And>b. b \<noteq> a \<Longrightarrow> arc_get h' b = arc_get h b"
    by (auto simp: h' arc_get_def)
qed

lemma arc_clone_ok:
  assumes "arc_ok h R" and "a \<in># R"
  shows "arc_ok (arc_clone a h) (add_mset a R)" and "arc_get (arc_clone a h) b = arc_get h b"
proof -
  from assms obtain v where v: "cells h a = Some (v, count R a)" by (rule arc_ok_held)
  show "arc_ok (arc_clone a h) (add_mset a R)"
    using assms(1) v by (fastforce simp: arc_ok_def arc_clone_def strong_count_def)
  show "arc_get (arc_clone a h) b = arc_get h b"
    using v by (simp add: arc_clone_def arc_get_def)
qed

lemma arc_drop_ok:
  assumes "arc_ok h R" and "a \<in># R"
  shows "arc_ok (arc_drop a h) (R - {#a#})"
    and "b \<in># R - {#a#} \<Longrightarrow> arc_get (arc_drop a h) b = arc_get h b"
proof -
  from assms obtain v where v: "cells h a = Some (v, count R a)" by (rule arc_ok_held)
  show "arc_ok (arc_drop a h) (R - {#a#})"
    using assms(1) v by (fastforce simp: arc_ok_def arc_drop_def strong_count_def split: if_splits)
  show "b \<in># R - {#a#} \<Longrightarrow> arc_get (arc_drop a h) b = arc_get h b"
    using v by (auto simp: arc_drop_def arc_get_def in_diff_count split: if_splits)
qed

lemma arc_make_mut_ok:
  assumes ok: "arc_ok h R" and held: "a \<in># R" and get: "arc_get h a = Some v"
    and mk: "arc_make_mut f a h = (a', h')"
  shows "arc_ok h' (add_mset a' (R - {#a#}))" and "arc_get h' a' = Some (f v)"
    and "b \<in># R - {#a#} \<Longrightarrow> arc_get h' b = arc_get h b"
proof -
  from ok held get have v: "cells h a = Some (v, count R a)"
    by (metis arc_ok_held option.inject)
  have *: "arc_ok h' (add_mset a' (R - {#a#})) \<and> arc_get h' a' = Some (f v) \<and>
      (\<forall>b \<in># R - {#a#}. arc_get h' b = arc_get h b)"
  proof (cases "count R a = 1")
    case True
    then have "a' = a" and h': "h' = h\<lparr>cells := (cells h)(a \<mapsto> (f v, 1))\<rparr>"
      using mk v by (auto simp: arc_make_mut_def)
    moreover have "a \<notin># R - {#a#}" using True by (simp add: not_in_iff)
    moreover have "arc_ok h' R"
      using ok True v by (fastforce simp: arc_ok_def strong_count_def h')
    ultimately show ?thesis using held by (auto simp: arc_get_def)
  next
    case False
    then have mk': "arc_new (f v) (arc_drop a h) = (a', h')"
      using mk v by (simp add: arc_make_mut_def)
    note d = arc_drop_ok [OF ok held]
    note n = arc_new_ok [OF d(1) mk']
    show ?thesis
    proof (intro conjI ballI)
      show "arc_ok h' (add_mset a' (R - {#a#}))" "arc_get h' a' = Some (f v)"
        using n by simp_all
      fix b assume b: "b \<in># R - {#a#}"
      then have "b \<noteq> a'" using n(3) by auto
      with n(4) d(2) [OF b] show "arc_get h' b = arc_get h b" by simp
    qed
  qed
  then show "arc_ok h' (add_mset a' (R - {#a#}))" "arc_get h' a' = Some (f v)"
    "b \<in># R - {#a#} \<Longrightarrow> arc_get h' b = arc_get h b"
    by simp_all
qed

section \<open>The contract of shared cells\<close>

locale shared_cells =
  fixes get :: "'h \<Rightarrow> nat \<Rightarrow> 'a option"
    and new :: "'a \<Rightarrow> 'h \<Rightarrow> nat \<times> 'h"
    and clone :: "nat \<Rightarrow> 'h \<Rightarrow> 'h"
    and drop_handle :: "nat \<Rightarrow> 'h \<Rightarrow> 'h"
    and make_mut :: "('a \<Rightarrow> 'a) \<Rightarrow> nat \<Rightarrow> 'h \<Rightarrow> nat \<times> 'h"
    and ok :: "'h \<Rightarrow> nat multiset \<Rightarrow> bool"
  assumes held_defined: "ok h R \<Longrightarrow> a \<in># R \<Longrightarrow> \<exists>v. get h a = Some v"
    and new_ok: "ok h R \<Longrightarrow> new v h = (a, h') \<Longrightarrow>
        ok h' (add_mset a R) \<and> get h' a = Some v \<and> a \<notin># R \<and>
        (\<forall>b. b \<noteq> a \<longrightarrow> get h' b = get h b)"
    and clone_ok: "ok h R \<Longrightarrow> a \<in># R \<Longrightarrow>
        ok (clone a h) (add_mset a R) \<and> get (clone a h) b = get h b"
    and drop_ok: "ok h R \<Longrightarrow> a \<in># R \<Longrightarrow>
        ok (drop_handle a h) (R - {#a#}) \<and>
        (b \<in># R - {#a#} \<longrightarrow> get (drop_handle a h) b = get h b)"
    and make_mut_ok: "ok h R \<Longrightarrow> a \<in># R \<Longrightarrow> get h a = Some v \<Longrightarrow>
        make_mut f a h = (a', h') \<Longrightarrow>
        ok h' (add_mset a' (R - {#a#})) \<and> get h' a' = Some (f v) \<and>
        (b \<in># R - {#a#} \<longrightarrow> get h' b = get h b)"
begin

text \<open>The client's view: with two live handles, possibly to the same cell, a write through the
  first is read back through the first and is invisible through the second.\<close>

lemma write_isolated:
  assumes "ok h (add_mset a (add_mset b R))" and "get h a = Some v"
    and "make_mut f a h = (a', h')"
  shows "ok h' (add_mset a' (add_mset b R)) \<and> get h' a' = Some (f v) \<and> get h' b = get h b"
  using make_mut_ok [OF assms(1) _ assms(2,3), of b] by simp

lemma new_other: "ok h R \<Longrightarrow> new v h = (a, h') \<Longrightarrow> b \<in># R \<Longrightarrow> get h' b = get h b"
  using new_ok [of h R v a h'] by auto

lemma clone_then_write:
  assumes "ok h (add_mset a R)" and "get h a = Some v"
    and "make_mut f a (clone a h) = (a', h')"
  shows "ok h' (add_mset a' (add_mset a R)) \<and> get h' a' = Some (f v) \<and> get h' a = Some v"
proof -
  have c: "ok (clone a h) (add_mset a (add_mset a R))" "get (clone a h) a = Some v"
    using clone_ok [OF assms(1), of a a] assms(2) by simp_all
  from write_isolated [OF c assms(3)] c(2) show ?thesis by simp
qed

end

interpretation arcs: shared_cells arc_get arc_new arc_clone arc_drop arc_make_mut arc_ok
proof (unfold_locales, goal_cases)
  case (1 h R a)
  then show ?case by (meson arc_ok_held)
next
  case (2 h R v a h')
  show ?case using arc_new_ok [OF 2] by simp
next
  case (3 h R a b)
  then show ?case using arc_clone_ok by blast
next
  case (4 h R a b)
  then show ?case using arc_drop_ok by blast
next
  case (5 h R a v f a' h' b)
  show ?case using arc_make_mut_ok [OF 5] by simp
qed

end
