(* ===== verification/Cache_Block.thy ===== *)
theory Cache_Block
  imports Kv_Base Arc_Store
begin

text \<open>
  Cache blocks, crates/llm-kv-cache/src/block.rs. A block's key and value rows live in an
  \<open>Arc\<close>-shared storage, so every operation that reads or writes rows takes the process state
  \<open>kv_world\<close>: the store of shared storages and the two process-wide counters
  (\<open>NEXT_BLOCK_ID\<close>, \<open>NEXT_CACHE_ID\<close>). Slicing panics are an explicit result; the well-formedness
  invariant \<open>cache_block_wf\<close> rules them out. The abstraction of a block is the list of its token
  rows (\<open>block_rows\<close>), and the operations refine append, update and clear on that list.
\<close>

section \<open>State\<close>

record cache_block_storage =
  st_keys :: "f32 list"
  st_values :: "f32 list"

definition cache_block_storage_new :: "nat \<Rightarrow> cache_block_storage" where
  "cache_block_storage_new storage_len =
     \<lparr>st_keys = replicate storage_len 0, st_values = replicate storage_len 0\<rparr>"

definition storage_fill_zero :: "cache_block_storage \<Rightarrow> cache_block_storage" where
  "storage_fill_zero s =
     \<lparr>st_keys = replicate (length (st_keys s)) 0, st_values = replicate (length (st_values s)) 0\<rparr>"

record kv_world =
  kw_heap :: "cache_block_storage arc_heap"
  kw_next_block_id :: nat
  kw_next_cache_id :: nat

definition kv_world_init :: kv_world where
  "kv_world_init = \<lparr>kw_heap = empty_heap, kw_next_block_id = 1, kw_next_cache_id = 1\<rparr>"

record cache_block =
  cb_id :: block_id
  cb_revision :: nat
  cb_shared :: bool
  cb_capacity_tokens :: nat
  cb_vector_len :: nat
  cb_token_count :: nat
  cb_ref_count :: nat
  cb_content_hash :: "cache_block_hash option"
  cb_last_access :: nat
  cb_storage :: nat

record retained_cache_block =
  rb_id :: block_id
  rb_revision :: nat
  rb_capacity_tokens :: nat
  rb_vector_len :: nat
  rb_token_count :: nat
  rb_content_hash :: "cache_block_hash option"
  rb_storage :: nat

definition block_storage :: "kv_world \<Rightarrow> cache_block \<Rightarrow> cache_block_storage option" where
  "block_storage w b = arc_get (kw_heap w) (cb_storage b)"

definition f32_bytes :: "f32 list \<Rightarrow> nat" where
  "f32_bytes vs = sat_mul (length vs) 4"

definition storage_payload_bytes :: "cache_block_storage option \<Rightarrow> nat" where
  "storage_payload_bytes s =
     (case s of
        None \<Rightarrow> 0
      | Some st \<Rightarrow> sat_add (f32_bytes (st_keys st)) (f32_bytes (st_values st)))"

section \<open>Construction\<close>

definition cache_block_new ::
  "nat \<Rightarrow> nat \<Rightarrow> kv_world \<Rightarrow> kv_world \<times> (kv_cache_error, cache_block) outcome" where
  "cache_block_new capacity_tokens vector_len w =
     (if capacity_tokens = 0 \<or> vector_len = 0 then (w, Err InvalidShape)
      else case checked_mul capacity_tokens vector_len of
        None \<Rightarrow> (w, Err InvalidShape)
      | Some storage_len \<Rightarrow>
          (case block_id_next (kw_next_block_id w) of
             (n, Ok bid) \<Rightarrow>
               (let (a, h) = arc_new (cache_block_storage_new storage_len) (kw_heap w)
                in (w\<lparr>kw_heap := h, kw_next_block_id := n\<rparr>,
                    Ok \<lparr>cb_id = bid, cb_revision = 0, cb_shared = False,
                        cb_capacity_tokens = capacity_tokens, cb_vector_len = vector_len,
                        cb_token_count = 0, cb_ref_count = 0, cb_content_hash = None,
                        cb_last_access = 0, cb_storage = a\<rparr>))
           | (n, Err e) \<Rightarrow> (w\<lparr>kw_next_block_id := n\<rparr>, Err e)
           | (n, Panic) \<Rightarrow> (w\<lparr>kw_next_block_id := n\<rparr>, Panic)))"

definition ensure_exclusive_identity ::
  "cache_block \<Rightarrow> kv_world \<Rightarrow> cache_block \<times> kv_world \<times> (kv_cache_error, unit) outcome" where
  "ensure_exclusive_identity b w =
     (if cb_shared b \<or> strong_count (kw_heap w) (cb_storage b) > 1
      then case block_id_next (kw_next_block_id w) of
             (n, Ok bid) \<Rightarrow> (b\<lparr>cb_id := bid, cb_shared := False\<rparr>, w\<lparr>kw_next_block_id := n\<rparr>, Ok ())
           | (n, Err e) \<Rightarrow> (b, w\<lparr>kw_next_block_id := n\<rparr>, Err e)
           | (n, Panic) \<Rightarrow> (b, w\<lparr>kw_next_block_id := n\<rparr>, Panic)
      else (b, w, Ok ()))"

definition cache_block_from_retained ::
  "retained_cache_block \<Rightarrow> kv_world \<Rightarrow> kv_world \<times> (kv_cache_error, cache_block) outcome" where
  "cache_block_from_retained r w =
     (if rb_capacity_tokens r = 0 \<or> rb_vector_len r = 0 \<or> rb_token_count r > rb_capacity_tokens r
      then (w, Err InvalidShape)
      else case checked_mul (rb_capacity_tokens r) (rb_vector_len r) of
        None \<Rightarrow> (w, Err InvalidShape)
      | Some expected_len \<Rightarrow>
          (case arc_get (kw_heap w) (rb_storage r) of
             None \<Rightarrow> (w, Panic)
           | Some st \<Rightarrow>
               if length (st_keys st) \<noteq> expected_len \<or> length (st_values st) \<noteq> expected_len
               then (w, Err InvalidShape)
               else (w\<lparr>kw_heap := arc_clone (rb_storage r) (kw_heap w)\<rparr>,
                     Ok \<lparr>cb_id = rb_id r, cb_revision = rb_revision r, cb_shared = True,
                         cb_capacity_tokens = rb_capacity_tokens r,
                         cb_vector_len = rb_vector_len r, cb_token_count = rb_token_count r,
                         cb_ref_count = 0, cb_content_hash = rb_content_hash r,
                         cb_last_access = 0, cb_storage = rb_storage r\<rparr>)))"

definition retain_storage :: "cache_block \<Rightarrow> kv_world \<Rightarrow> kv_world \<times> retained_cache_block" where
  "retain_storage b w =
     (w\<lparr>kw_heap := arc_clone (cb_storage b) (kw_heap w)\<rparr>,
      \<lparr>rb_id = cb_id b, rb_revision = cb_revision b, rb_capacity_tokens = cb_capacity_tokens b,
       rb_vector_len = cb_vector_len b, rb_token_count = cb_token_count b,
       rb_content_hash = cb_content_hash b, rb_storage = cb_storage b\<rparr>)"

definition cache_block_clone :: "cache_block \<Rightarrow> kv_world \<Rightarrow> kv_world \<times> cache_block" where
  "cache_block_clone b w =
     (w\<lparr>kw_heap := arc_clone (cb_storage b) (kw_heap w)\<rparr>, b\<lparr>cb_shared := True\<rparr>)"

section \<open>Accessors and counters\<close>

definition cb_remaining_tokens :: "cache_block \<Rightarrow> nat" where
  "cb_remaining_tokens b = wrap_sub (cb_capacity_tokens b) (cb_token_count b)"

definition cb_is_full :: "cache_block \<Rightarrow> bool" where
  "cb_is_full b \<longleftrightarrow> cb_token_count b = cb_capacity_tokens b"

definition cb_retained_storage_ref_count :: "kv_world \<Rightarrow> cache_block \<Rightarrow> nat" where
  "cb_retained_storage_ref_count w b = strong_count (kw_heap w) (cb_storage b)"

definition cb_payload_bytes :: "kv_world \<Rightarrow> cache_block \<Rightarrow> nat" where
  "cb_payload_bytes w b = storage_payload_bytes (block_storage w b)"

definition rb_payload_bytes :: "kv_world \<Rightarrow> retained_cache_block \<Rightarrow> nat" where
  "rb_payload_bytes w r = storage_payload_bytes (arc_get (kw_heap w) (rb_storage r))"

definition increment_ref_count :: "cache_block \<Rightarrow> cache_block" where
  "increment_ref_count b = b\<lparr>cb_ref_count := sat_add (cb_ref_count b) 1\<rparr>"

definition decrement_ref_count :: "cache_block \<Rightarrow> cache_block" where
  "decrement_ref_count b = b\<lparr>cb_ref_count := sat_sub (cb_ref_count b) 1\<rparr>"

definition set_content_hash :: "cache_block_hash option \<Rightarrow> cache_block \<Rightarrow> cache_block" where
  "set_content_hash h b = b\<lparr>cb_content_hash := h\<rparr>"

definition cb_touch :: "nat \<Rightarrow> cache_block \<Rightarrow> cache_block" where
  "cb_touch last_access b = b\<lparr>cb_last_access := last_access\<rparr>"

definition cb_used_len :: "cache_block \<Rightarrow> nat" where
  "cb_used_len b = wrap_mul (cb_token_count b) (cb_vector_len b)"

section \<open>Reading and writing rows\<close>

definition validate_token_shape ::
  "cache_block \<Rightarrow> f32 list \<Rightarrow> f32 list \<Rightarrow> (kv_cache_error, unit) outcome" where
  "validate_token_shape b key value =
     (if length key \<noteq> cb_vector_len b then Err (ShapeMismatch (cb_vector_len b) (length key))
      else if length value \<noteq> cb_vector_len b
      then Err (ShapeMismatch (cb_vector_len b) (length value))
      else Ok ())"

text \<open>The two \<open>copy_from_slice\<close> calls of \<open>append\<close> and \<open>write_at\<close>, through \<open>Arc::make_mut\<close>.\<close>

definition write_token_rows ::
  "nat \<Rightarrow> f32 list \<Rightarrow> f32 list \<Rightarrow> cache_block \<Rightarrow> kv_world \<Rightarrow> (cache_block \<times> kv_world) option" where
  "write_token_rows token_index key value b w =
     (let start = wrap_mul token_index (cb_vector_len b);
          stop = wrap_add start (cb_vector_len b)
      in case block_storage w b of
           None \<Rightarrow> None
         | Some st \<Rightarrow>
             (case (copy_range start stop key (st_keys st), copy_range start stop value (st_values st)) of
                (Some ks, Some vs) \<Rightarrow>
                  (let (a, h) = arc_make_mut (\<lambda>_. \<lparr>st_keys = ks, st_values = vs\<rparr>)
                                  (cb_storage b) (kw_heap w)
                   in Some (b\<lparr>cb_storage := a\<rparr>, w\<lparr>kw_heap := h\<rparr>))
              | _ \<Rightarrow> None))"

definition cache_block_append ::
  "f32 list \<Rightarrow> f32 list \<Rightarrow> cache_block \<Rightarrow> kv_world
     \<Rightarrow> cache_block \<times> kv_world \<times> (kv_cache_error, nat) outcome" where
  "cache_block_append key value b w =
     (case validate_token_shape b key value of
        Err e \<Rightarrow> (b, w, Err e)
      | Panic \<Rightarrow> (b, w, Panic)
      | Ok _ \<Rightarrow>
          if cb_is_full b then (b, w, Err (CapacityExceeded 1 0))
          else case write_token_rows (cb_token_count b) key value b w of
                 None \<Rightarrow> (b, w, Panic)
               | Some (b', w') \<Rightarrow>
                   (b'\<lparr>cb_token_count := wrap_add (cb_token_count b) 1,
                       cb_content_hash := None,
                       cb_revision := sat_add (cb_revision b) 1\<rparr>,
                    w', Ok (cb_token_count b)))"

definition cache_block_write_at ::
  "nat \<Rightarrow> f32 list \<Rightarrow> f32 list \<Rightarrow> cache_block \<Rightarrow> kv_world
     \<Rightarrow> cache_block \<times> kv_world \<times> (kv_cache_error, unit) outcome" where
  "cache_block_write_at token_index key value b w =
     (case validate_token_shape b key value of
        Err e \<Rightarrow> (b, w, Err e)
      | Panic \<Rightarrow> (b, w, Panic)
      | Ok _ \<Rightarrow>
          if token_index \<ge> cb_token_count b then (b, w, Err InvalidShape)
          else case write_token_rows token_index key value b w of
                 None \<Rightarrow> (b, w, Panic)
               | Some (b', w') \<Rightarrow>
                   (b'\<lparr>cb_content_hash := None, cb_revision := sat_add (cb_revision b) 1\<rparr>,
                    w', Ok ()))"

text \<open>\<open>Ok None\<close> is the code's \<open>None\<close>; a slice out of range is \<open>Panic\<close>.\<close>

definition token_slice ::
  "cache_block \<Rightarrow> f32 list \<Rightarrow> nat \<Rightarrow> (kv_cache_error, f32 list option) outcome" where
  "token_slice b storage token_index =
     (if token_index \<ge> cb_token_count b then Ok None
      else let start = wrap_mul token_index (cb_vector_len b)
           in case slice_range start (wrap_add start (cb_vector_len b)) storage of
                None \<Rightarrow> Panic
              | Some row \<Rightarrow> Ok (Some row))"

definition cache_block_key ::
  "kv_world \<Rightarrow> cache_block \<Rightarrow> nat \<Rightarrow> (kv_cache_error, f32 list option) outcome" where
  "cache_block_key w b token_index =
     (case block_storage w b of None \<Rightarrow> Panic | Some st \<Rightarrow> token_slice b (st_keys st) token_index)"

definition cache_block_value ::
  "kv_world \<Rightarrow> cache_block \<Rightarrow> nat \<Rightarrow> (kv_cache_error, f32 list option) outcome" where
  "cache_block_value w b token_index =
     (case block_storage w b of None \<Rightarrow> Panic | Some st \<Rightarrow> token_slice b (st_values st) token_index)"

definition cache_block_keys :: "kv_world \<Rightarrow> cache_block \<Rightarrow> (kv_cache_error, f32 list) outcome" where
  "cache_block_keys w b =
     (case Option.bind (block_storage w b) (\<lambda>st. slice_range 0 (cb_used_len b) (st_keys st)) of
        None \<Rightarrow> Panic | Some ks \<Rightarrow> Ok ks)"

definition cache_block_values :: "kv_world \<Rightarrow> cache_block \<Rightarrow> (kv_cache_error, f32 list) outcome" where
  "cache_block_values w b =
     (case Option.bind (block_storage w b) (\<lambda>st. slice_range 0 (cb_used_len b) (st_values st)) of
        None \<Rightarrow> Panic | Some vs \<Rightarrow> Ok vs)"

text \<open>\<open>clear\<close> replaces a storage that is still shared and zeroes an exclusive one in place.\<close>

definition cache_block_clear :: "cache_block \<Rightarrow> kv_world \<Rightarrow> cache_block \<times> kv_world" where
  "cache_block_clear b w =
     (let b0 = b\<lparr>cb_token_count := 0, cb_ref_count := 0, cb_content_hash := None,
                 cb_last_access := 0\<rparr>;
          (a, h, sh) =
            (if strong_count (kw_heap w) (cb_storage b) > 1
             then let n = (case block_storage w b of None \<Rightarrow> 0 | Some st \<Rightarrow> length (st_keys st));
                      (a, h) = arc_new (cache_block_storage_new n) (kw_heap w)
                  in (a, arc_drop (cb_storage b) h, True)
             else let (a, h) = arc_make_mut storage_fill_zero (cb_storage b) (kw_heap w)
                  in (a, h, False))
      in (b0\<lparr>cb_storage := a, cb_shared := sh, cb_revision := sat_add (cb_revision b) 1\<rparr>,
          w\<lparr>kw_heap := h\<rparr>))"

definition reset_for_allocation :: "nat \<Rightarrow> cache_block \<Rightarrow> kv_world \<Rightarrow> cache_block \<times> kv_world" where
  "reset_for_allocation last_access b w =
     (let (b', w') = cache_block_clear b w
      in (b'\<lparr>cb_ref_count := 1, cb_last_access := last_access\<rparr>, w'))"

definition copy_contents_from ::
  "cache_block \<Rightarrow> nat \<Rightarrow> cache_block \<Rightarrow> kv_world
     \<Rightarrow> cache_block \<times> kv_world \<times> (kv_cache_error, unit) outcome" where
  "copy_contents_from source last_access b w =
     (if cb_capacity_tokens b \<noteq> cb_capacity_tokens source \<or> cb_vector_len b \<noteq> cb_vector_len source
      then (b, w, Err InvalidShape)
      else let b1 = b\<lparr>cb_token_count := cb_token_count source, cb_ref_count := 1,
                      cb_content_hash := cb_content_hash source, cb_last_access := last_access\<rparr>
           in case (block_storage w b, block_storage w source) of
                (Some st, Some src) \<Rightarrow>
                  if length (st_keys src) = length (st_keys st) \<and>
                     length (st_values src) = length (st_values st)
                  then let (a, h) = arc_make_mut (\<lambda>_. src) (cb_storage b) (kw_heap w)
                       in (b1\<lparr>cb_storage := a, cb_revision := sat_add (cb_revision b) 1\<rparr>,
                           w\<lparr>kw_heap := h\<rparr>, Ok ())
                  else (b1, w, Panic)
              | _ \<Rightarrow> (b1, w, Panic))"

section \<open>Well-formedness and abstraction\<close>

definition storage_shape :: "nat \<Rightarrow> cache_block_storage \<Rightarrow> bool" where
  "storage_shape n st \<longleftrightarrow> length (st_keys st) = n \<and> length (st_values st) = n"

definition cache_block_shape :: "cache_block \<Rightarrow> bool" where
  "cache_block_shape b \<longleftrightarrow>
     0 < cb_capacity_tokens b \<and> 0 < cb_vector_len b \<and>
     cb_capacity_tokens b * cb_vector_len b \<le> u64_max \<and>
     cb_token_count b \<le> cb_capacity_tokens b"

definition cache_block_wf :: "kv_world \<Rightarrow> cache_block \<Rightarrow> bool" where
  "cache_block_wf w b \<longleftrightarrow>
     cache_block_shape b \<and>
     (\<exists>st. block_storage w b = Some st \<and>
        storage_shape (cb_capacity_tokens b * cb_vector_len b) st)"

text \<open>Row \<open>i\<close> of a flat buffer of rows of length \<open>v\<close>, and the rows a block holds.\<close>

definition row :: "nat \<Rightarrow> f32 list \<Rightarrow> nat \<Rightarrow> f32 list" where
  "row v xs i = take v (drop (i * v) xs)"

definition block_rows :: "kv_world \<Rightarrow> cache_block \<Rightarrow> (f32 list \<times> f32 list) list" where
  "block_rows w b =
     (case block_storage w b of
        None \<Rightarrow> []
      | Some st \<Rightarrow>
          map (\<lambda>i. (row (cb_vector_len b) (st_keys st) i, row (cb_vector_len b) (st_values st) i))
            [0..<cb_token_count b])"

text \<open>A sequence of mutations of one block through its own handle.\<close>

datatype block_op =
    OpAppend "f32 list" "f32 list"
  | OpWriteAt nat "f32 list" "f32 list"
  | OpClear
  | OpReset nat
  | OpTouch nat
  | OpSetHash "cache_block_hash option"

fun apply_block_op :: "block_op \<Rightarrow> cache_block \<Rightarrow> kv_world \<Rightarrow> cache_block \<times> kv_world" where
  "apply_block_op (OpAppend k v) b w = (case cache_block_append k v b w of (b', w', _) \<Rightarrow> (b', w'))"
| "apply_block_op (OpWriteAt i k v) b w =
     (case cache_block_write_at i k v b w of (b', w', _) \<Rightarrow> (b', w'))"
| "apply_block_op OpClear b w = cache_block_clear b w"
| "apply_block_op (OpReset t) b w = reset_for_allocation t b w"
| "apply_block_op (OpTouch t) b w = (cb_touch t b, w)"
| "apply_block_op (OpSetHash h) b w = (set_content_hash h b, w)"

fun apply_block_ops :: "block_op list \<Rightarrow> cache_block \<Rightarrow> kv_world \<Rightarrow> cache_block \<times> kv_world" where
  "apply_block_ops [] b w = (b, w)"
| "apply_block_ops (x # xs) b w = (case apply_block_op x b w of (b', w') \<Rightarrow> apply_block_ops xs b' w')"

section \<open>Rows\<close>

lemma slice_row:
  "i * v + v \<le> length xs \<Longrightarrow> slice_range (i * v) (i * v + v) xs = Some (row v xs i)"
  by (simp add: slice_range_def row_def)

lemma row_disjoint: "(i::nat) < j \<Longrightarrow> i * v + v \<le> j * v"
  by (metis Suc_leI add.commute mult_Suc mult_le_mono1)

lemma row_copy_range:
  assumes "copy_range (i * v) (i * v + v) r xs = Some ys" and "j * v + v \<le> length xs"
  shows "row v ys j = (if j = i then r else row v xs j)"
proof -
  have len: "length ys = length xs" using assms(1) by (rule copy_range_length)
  have "slice_range (j * v) (j * v + v) ys =
        (if j = i then Some r else slice_range (j * v) (j * v + v) xs)"
  proof (cases "j = i")
    case True
    with slice_copy_same [OF assms(1)] show ?thesis by simp
  next
    case False
    then have "j < i \<or> i < j" by auto
    with False slice_copy_other [OF assms(1)] row_disjoint show ?thesis by auto
  qed
  with assms(2) len show ?thesis by (auto simp: slice_row split: if_splits)
qed

lemma row_in_range: "i < c \<Longrightarrow> i * v + v \<le> c * (v::nat)"
  using row_disjoint [of i c v] by simp

lemma row_start_stop:
  assumes "i < c" and "c * v \<le> u64_max"
  shows "wrap_mul i v = i * v" and "wrap_add (i * v) v = i * v + v"
proof -
  have "i * v + v \<le> u64_max" using row_in_range [OF assms(1), of v] assms(2) by simp
  then show "wrap_mul i v = i * v" "wrap_add (i * v) v = i * v + v"
    by (simp_all add: wrap_mul_small wrap_add_small)
qed

lemma cache_block_wf_storage:
  assumes "cache_block_wf w b"
  obtains st where "block_storage w b = Some st"
    and "storage_shape (cb_capacity_tokens b * cb_vector_len b) st"
  using assms by (auto simp: cache_block_wf_def)

lemma write_token_rows_spec:
  assumes wf: "cache_block_wf w b" and ok: "arc_ok (kw_heap w) (add_mset (cb_storage b) R)"
    and i: "i < cb_capacity_tokens b"
    and len: "length key = cb_vector_len b" "length value = cb_vector_len b"
  obtains a h st st' where
    "write_token_rows i key value b w = Some (b\<lparr>cb_storage := a\<rparr>, w\<lparr>kw_heap := h\<rparr>)"
    "block_storage w b = Some st" "arc_get h a = Some st'"
    "storage_shape (cb_capacity_tokens b * cb_vector_len b) st'"
    "arc_ok h (add_mset a R)" "\<forall>c \<in># R. arc_get h c = arc_get (kw_heap w) c"
    "\<forall>j < cb_capacity_tokens b. row (cb_vector_len b) (st_keys st') j =
        (if j = i then key else row (cb_vector_len b) (st_keys st) j)"
    "\<forall>j < cb_capacity_tokens b. row (cb_vector_len b) (st_values st') j =
        (if j = i then value else row (cb_vector_len b) (st_values st) j)"
proof -
  let ?v = "cb_vector_len b" and ?c = "cb_capacity_tokens b"
  obtain st where st: "block_storage w b = Some st" "storage_shape (?c * ?v) st"
    using wf by (rule cache_block_wf_storage)
  have le: "?c * ?v \<le> u64_max" using wf by (simp add: cache_block_wf_def cache_block_shape_def)
  have in_range: "i * ?v + ?v \<le> length (st_keys st)" "i * ?v + ?v \<le> length (st_values st)"
    using row_in_range [OF i] st(2) by (simp_all add: storage_shape_def)
  obtain ks where ks: "copy_range (i * ?v) (i * ?v + ?v) key (st_keys st) = Some ks"
    using copy_range_defined [of "i * ?v" "i * ?v + ?v"] in_range(1) len(1) by auto
  obtain vs where vs: "copy_range (i * ?v) (i * ?v + ?v) value (st_values st) = Some vs"
    using copy_range_defined [of "i * ?v" "i * ?v + ?v"] in_range(2) len(2) by auto
  let ?st' = "\<lparr>st_keys = ks, st_values = vs\<rparr>"
  obtain a h where mk: "arc_make_mut (\<lambda>_. ?st') (cb_storage b) (kw_heap w) = (a, h)"
    by fastforce
  have get: "arc_get (kw_heap w) (cb_storage b) = Some st"
    using st(1) by (simp add: block_storage_def)
  note m = arcs.make_mut_ok [OF ok _ get mk]
  show thesis
  proof (rule that [of a h st ?st'])
    show "write_token_rows i key value b w = Some (b\<lparr>cb_storage := a\<rparr>, w\<lparr>kw_heap := h\<rparr>)"
      using ks vs mk st(1) row_start_stop [OF i le] by (simp add: write_token_rows_def)
    show "storage_shape (?c * ?v) ?st'"
      using copy_range_length [OF ks] copy_range_length [OF vs] st(2) by (simp add: storage_shape_def)
    show "\<forall>j < ?c. row ?v (st_keys ?st') j = (if j = i then key else row ?v (st_keys st) j)"
      using row_copy_range [OF ks] row_in_range st(2) by (auto simp: storage_shape_def)
    show "\<forall>j < ?c. row ?v (st_values ?st') j = (if j = i then value else row ?v (st_values st) j)"
      using row_copy_range [OF vs] row_in_range st(2) by (auto simp: storage_shape_def)
  qed (use m st(1) in auto)
qed

section \<open>Appending, writing, clearing\<close>

lemma block_rows_storage:
  "block_storage w b = Some st \<Longrightarrow> block_rows w b =
     map (\<lambda>i. (row (cb_vector_len b) (st_keys st) i, row (cb_vector_len b) (st_values st) i))
       [0..<cb_token_count b]"
  by (simp add: block_rows_def)

lemma length_block_rows: "cache_block_wf w b \<Longrightarrow> length (block_rows w b) = cb_token_count b"
  by (auto simp: block_rows_def elim: cache_block_wf_storage)

lemma cache_block_append_ok:
  assumes wf: "cache_block_wf w b" and ok: "arc_ok (kw_heap w) (add_mset (cb_storage b) R)"
    and room: "cb_token_count b < cb_capacity_tokens b"
    and len: "length key = cb_vector_len b" "length value = cb_vector_len b"
    and res: "cache_block_append key value b w = (b', w', r)"
  shows "r = Ok (cb_token_count b)" and "cache_block_wf w' b'"
    and "block_rows w' b' = block_rows w b @ [(key, value)]"
    and "arc_ok (kw_heap w') (add_mset (cb_storage b') R)"
    and "\<forall>c \<in># R. arc_get (kw_heap w') c = arc_get (kw_heap w) c"
    and "cb_content_hash b' = None" and "cb_ref_count b' = cb_ref_count b" and "cb_id b' = cb_id b"
proof -
  have sh: "cache_block_shape b" using wf by (simp add: cache_block_wf_def)
  obtain a h st st' where w1:
    "write_token_rows (cb_token_count b) key value b w = Some (b\<lparr>cb_storage := a\<rparr>, w\<lparr>kw_heap := h\<rparr>)"
    "block_storage w b = Some st" "arc_get h a = Some st'"
    "storage_shape (cb_capacity_tokens b * cb_vector_len b) st'"
    "arc_ok h (add_mset a R)" "\<forall>c \<in># R. arc_get h c = arc_get (kw_heap w) c"
    "\<forall>j < cb_capacity_tokens b. row (cb_vector_len b) (st_keys st') j =
        (if j = cb_token_count b then key else row (cb_vector_len b) (st_keys st) j)"
    "\<forall>j < cb_capacity_tokens b. row (cb_vector_len b) (st_values st') j =
        (if j = cb_token_count b then value else row (cb_vector_len b) (st_values st) j)"
    using write_token_rows_spec [OF wf ok room len] by blast
  have cap: "cb_capacity_tokens b \<le> u64_max"
    using sh unfolding cache_block_shape_def
    by (metis One_nat_def Suc_leI dual_order.trans mult.right_neutral mult_le_mono2)
  have "wrap_add (cb_token_count b) 1 = Suc (cb_token_count b)"
    using room cap by (subst wrap_add_small) auto
  with w1(1) res room len have
    b': "b' = b\<lparr>cb_storage := a, cb_token_count := Suc (cb_token_count b), cb_content_hash := None,
              cb_revision := sat_add (cb_revision b) 1\<rparr>"
    and w': "w' = w\<lparr>kw_heap := h\<rparr>" and r: "r = Ok (cb_token_count b)"
    by (auto simp: cache_block_append_def validate_token_shape_def cb_is_full_def)
  have st': "block_storage w' b' = Some st'" using w1(3) by (simp add: b' w' block_storage_def)
  show "r = Ok (cb_token_count b)" by fact
  show "cache_block_wf w' b'"
    using w1(4) st' sh room by (simp add: cache_block_wf_def cache_block_shape_def b')
  show "block_rows w' b' = block_rows w b @ [(key, value)]"
    using w1(7,8) room unfolding block_rows_storage [OF st'] block_rows_storage [OF w1(2)]
    by (simp add: b')
  show "arc_ok (kw_heap w') (add_mset (cb_storage b') R)"
    "\<forall>c \<in># R. arc_get (kw_heap w') c = arc_get (kw_heap w) c"
    using w1(5,6) by (simp_all add: b' w')
  show "cb_content_hash b' = None" "cb_ref_count b' = cb_ref_count b" "cb_id b' = cb_id b"
    by (simp_all add: b')
qed

lemma cache_block_append_err:
  assumes "\<not> (cb_token_count b < cb_capacity_tokens b \<and>
             length key = cb_vector_len b \<and> length value = cb_vector_len b)"
    and "cache_block_shape b"
  shows "cache_block_append key value b w =
     (b, w, Err (if length key \<noteq> cb_vector_len b then ShapeMismatch (cb_vector_len b) (length key)
                 else if length value \<noteq> cb_vector_len b
                 then ShapeMismatch (cb_vector_len b) (length value)
                 else CapacityExceeded 1 0))"
  using assms
  by (auto simp: cache_block_append_def validate_token_shape_def cb_is_full_def cache_block_shape_def)

lemma cache_block_write_at_ok:
  assumes wf: "cache_block_wf w b" and ok: "arc_ok (kw_heap w) (add_mset (cb_storage b) R)"
    and i: "i < cb_token_count b"
    and len: "length key = cb_vector_len b" "length value = cb_vector_len b"
    and res: "cache_block_write_at i key value b w = (b', w', r)"
  shows "r = Ok ()" and "cache_block_wf w' b'"
    and "block_rows w' b' = (block_rows w b)[i := (key, value)]"
    and "arc_ok (kw_heap w') (add_mset (cb_storage b') R)"
    and "\<forall>c \<in># R. arc_get (kw_heap w') c = arc_get (kw_heap w) c"
    and "cb_content_hash b' = None"
proof -
  have sh: "cache_block_shape b" using wf by (simp add: cache_block_wf_def)
  then have i': "i < cb_capacity_tokens b" using i by (simp add: cache_block_shape_def)
  obtain a h st st' where w1:
    "write_token_rows i key value b w = Some (b\<lparr>cb_storage := a\<rparr>, w\<lparr>kw_heap := h\<rparr>)"
    "block_storage w b = Some st" "arc_get h a = Some st'"
    "storage_shape (cb_capacity_tokens b * cb_vector_len b) st'"
    "arc_ok h (add_mset a R)" "\<forall>c \<in># R. arc_get h c = arc_get (kw_heap w) c"
    "\<forall>j < cb_capacity_tokens b. row (cb_vector_len b) (st_keys st') j =
        (if j = i then key else row (cb_vector_len b) (st_keys st) j)"
    "\<forall>j < cb_capacity_tokens b. row (cb_vector_len b) (st_values st') j =
        (if j = i then value else row (cb_vector_len b) (st_values st) j)"
    using write_token_rows_spec [OF wf ok i' len] by blast
  from w1(1) res i len have
    b': "b' = b\<lparr>cb_storage := a, cb_content_hash := None, cb_revision := sat_add (cb_revision b) 1\<rparr>"
    and w': "w' = w\<lparr>kw_heap := h\<rparr>" and r: "r = Ok ()"
    by (auto simp: cache_block_write_at_def validate_token_shape_def)
  have st': "block_storage w' b' = Some st'" using w1(3) by (simp add: b' w' block_storage_def)
  show "r = Ok ()" by fact
  show "cache_block_wf w' b'"
    using w1(4) st' sh by (simp add: cache_block_wf_def cache_block_shape_def b')
  show "block_rows w' b' = (block_rows w b)[i := (key, value)]"
  proof (rule nth_equalityI)
    show "length (block_rows w' b') = length ((block_rows w b)[i := (key, value)])"
      unfolding block_rows_storage [OF st'] block_rows_storage [OF w1(2)] by (simp add: b')
    fix j assume "j < length (block_rows w' b')"
    then have "j < cb_token_count b" unfolding block_rows_storage [OF st'] by (simp add: b')
    moreover from this have "j < cb_capacity_tokens b" using sh by (simp add: cache_block_shape_def)
    ultimately show "block_rows w' b' ! j = (block_rows w b)[i := (key, value)] ! j"
      using w1(7,8) unfolding block_rows_storage [OF st'] block_rows_storage [OF w1(2)]
      by (simp add: b' nth_list_update)
  qed
  show "arc_ok (kw_heap w') (add_mset (cb_storage b') R)"
    "\<forall>c \<in># R. arc_get (kw_heap w') c = arc_get (kw_heap w) c"
    using w1(5,6) by (simp_all add: b' w')
  show "cb_content_hash b' = None" by (simp add: b')
qed

lemma cache_block_clear_ok:
  assumes wf: "cache_block_wf w b" and ok: "arc_ok (kw_heap w) (add_mset (cb_storage b) R)"
    and res: "cache_block_clear b w = (b', w')"
  shows "cache_block_wf w' b'"
    and "block_storage w' b' =
      Some (cache_block_storage_new (cb_capacity_tokens b * cb_vector_len b))"
    and "arc_ok (kw_heap w') (add_mset (cb_storage b') R)"
    and "\<forall>c \<in># R. arc_get (kw_heap w') c = arc_get (kw_heap w) c"
    and "b' = b\<lparr>cb_token_count := 0, cb_ref_count := 0, cb_content_hash := None, cb_last_access := 0,
             cb_storage := cb_storage b', cb_shared := cb_shared b',
             cb_revision := sat_add (cb_revision b) 1\<rparr>"
    and "w' = w\<lparr>kw_heap := kw_heap w'\<rparr>"
proof -
  let ?n = "cb_capacity_tokens b * cb_vector_len b" and ?s = "cb_storage b"
  obtain st where st: "block_storage w b = Some st" "storage_shape ?n st"
    using wf by (rule cache_block_wf_storage)
  have get: "arc_get (kw_heap w) ?s = Some st" using st(1) by (simp add: block_storage_def)
  have zero: "storage_fill_zero st = cache_block_storage_new ?n"
    using st(2) by (simp add: storage_fill_zero_def cache_block_storage_new_def storage_shape_def)
  have *: "arc_get (kw_heap w') (cb_storage b') = Some (cache_block_storage_new ?n) \<and>
     arc_ok (kw_heap w') (add_mset (cb_storage b') R) \<and>
     (\<forall>c \<in># R. arc_get (kw_heap w') c = arc_get (kw_heap w) c)"
  proof (cases "strong_count (kw_heap w) ?s > 1")
    case True
    obtain a h where n: "arc_new (cache_block_storage_new ?n) (kw_heap w) = (a, h)" by fastforce
    from True st n res have bw: "cb_storage b' = a" "kw_heap w' = arc_drop ?s h"
      by (auto simp: cache_block_clear_def storage_shape_def)
    note nk = arcs.new_ok [OF ok n]
    then have hd: "arc_ok h (add_mset a (add_mset ?s R))" "?s \<in># add_mset a (add_mset ?s R)" by auto
    have a: "a \<noteq> ?s" "a \<notin># R" using nk by auto
    note d = arcs.drop_ok [OF hd]
    have "add_mset a (add_mset ?s R) - {#?s#} = add_mset a R" by simp
    moreover have "\<forall>c \<in># R. c \<noteq> a" using a by auto
    ultimately show ?thesis using d nk by (simp add: bw)
  next
    case False
    obtain a h where mk: "arc_make_mut storage_fill_zero ?s (kw_heap w) = (a, h)" by fastforce
    from False mk res have bw: "cb_storage b' = a" "kw_heap w' = h"
      by (auto simp: cache_block_clear_def)
    show ?thesis using arcs.make_mut_ok [OF ok _ get mk] zero by (simp add: bw)
  qed
  show shape: "b' = b\<lparr>cb_token_count := 0, cb_ref_count := 0, cb_content_hash := None,
       cb_last_access := 0, cb_storage := cb_storage b', cb_shared := cb_shared b',
       cb_revision := sat_add (cb_revision b) 1\<rparr>" and "w' = w\<lparr>kw_heap := kw_heap w'\<rparr>"
    using res by (auto simp: cache_block_clear_def split: prod.splits)
  show "block_storage w' b' = Some (cache_block_storage_new ?n)"
    "arc_ok (kw_heap w') (add_mset (cb_storage b') R)"
    "\<forall>c \<in># R. arc_get (kw_heap w') c = arc_get (kw_heap w) c"
    using * by (simp_all add: block_storage_def)
  have "cb_capacity_tokens b' = cb_capacity_tokens b" "cb_vector_len b' = cb_vector_len b"
    "cb_token_count b' = 0"
    by (subst shape, simp)+
  then show "cache_block_wf w' b'"
    using wf * by (simp add: cache_block_wf_def cache_block_shape_def block_storage_def
        storage_shape_def cache_block_storage_new_def)
qed

lemma reset_for_allocation_ok:
  assumes wf: "cache_block_wf w b" and ok: "arc_ok (kw_heap w) (add_mset (cb_storage b) R)"
    and res: "reset_for_allocation t b w = (b', w')"
  shows "cache_block_wf w' b'" and "block_rows w' b' = []"
    and "block_storage w' b' =
      Some (cache_block_storage_new (cb_capacity_tokens b * cb_vector_len b))"
    and "arc_ok (kw_heap w') (add_mset (cb_storage b') R)"
    and "\<forall>c \<in># R. arc_get (kw_heap w') c = arc_get (kw_heap w) c"
    and "cb_ref_count b' = 1" and "cb_id b' = cb_id b" and "cb_content_hash b' = None"
    and "cb_capacity_tokens b' = cb_capacity_tokens b" and "cb_vector_len b' = cb_vector_len b"
    and "cb_token_count b' = 0" and "w' = w\<lparr>kw_heap := kw_heap w'\<rparr>"
proof -
  obtain c v where c: "cache_block_clear b w = (c, v)" by fastforce
  note k = cache_block_clear_ok [OF wf ok c]
  have b': "b' = c\<lparr>cb_ref_count := 1, cb_last_access := t\<rparr>" "w' = v"
    using res c by (auto simp: reset_for_allocation_def)
  have f: "cb_id c = cb_id b" "cb_content_hash c = None" "cb_token_count c = 0"
    "cb_capacity_tokens c = cb_capacity_tokens b" "cb_vector_len c = cb_vector_len b"
    by (subst k(5), simp)+
  show "cache_block_wf w' b'" "block_rows w' b' = []"
    "block_storage w' b' = Some (cache_block_storage_new (cb_capacity_tokens b * cb_vector_len b))"
    "arc_ok (kw_heap w') (add_mset (cb_storage b') R)"
    "\<forall>c \<in># R. arc_get (kw_heap w') c = arc_get (kw_heap w) c"
    using k f b' by (simp_all add: cache_block_wf_def cache_block_shape_def block_storage_def block_rows_def)
  show "cb_ref_count b' = 1" "cb_id b' = cb_id b" "cb_content_hash b' = None"
    "cb_capacity_tokens b' = cb_capacity_tokens b" "cb_vector_len b' = cb_vector_len b"
    "cb_token_count b' = 0"
    using f by (simp_all add: b')
  show "w' = w\<lparr>kw_heap := kw_heap w'\<rparr>" using k(6) b' by simp
qed

lemma copy_contents_from_ok:
  assumes wf: "cache_block_wf w b" and src: "cache_block_wf w s"
    and ok: "arc_ok (kw_heap w) (add_mset (cb_storage b) R)" and held: "cb_storage s \<in># R"
    and same: "cb_capacity_tokens b = cb_capacity_tokens s" "cb_vector_len b = cb_vector_len s"
    and res: "copy_contents_from s t b w = (b', w', r)"
  shows "r = Ok ()" and "cache_block_wf w' b'" and "block_rows w' b' = block_rows w s"
    and "block_rows w' s = block_rows w s"
    and "arc_ok (kw_heap w') (add_mset (cb_storage b') R)"
    and "\<forall>c \<in># R. arc_get (kw_heap w') c = arc_get (kw_heap w) c"
    and "b' = b\<lparr>cb_token_count := cb_token_count s, cb_ref_count := 1,
             cb_content_hash := cb_content_hash s, cb_last_access := t,
             cb_storage := cb_storage b', cb_revision := sat_add (cb_revision b) 1\<rparr>"
    and "w' = w\<lparr>kw_heap := kw_heap w'\<rparr>"
proof -
  obtain st where st: "block_storage w b = Some st"
    "storage_shape (cb_capacity_tokens b * cb_vector_len b) st"
    using wf by (rule cache_block_wf_storage)
  obtain ss where ss: "block_storage w s = Some ss"
    "storage_shape (cb_capacity_tokens s * cb_vector_len s) ss"
    using src by (rule cache_block_wf_storage)
  have get: "arc_get (kw_heap w) (cb_storage b) = Some st" using st(1) by (simp add: block_storage_def)
  obtain a h where mk: "arc_make_mut (\<lambda>_. ss) (cb_storage b) (kw_heap w) = (a, h)" by fastforce
  note m = arcs.make_mut_ok [OF ok _ get mk]
  from res st ss same mk have
    b': "b' = b\<lparr>cb_token_count := cb_token_count s, cb_ref_count := 1,
             cb_content_hash := cb_content_hash s, cb_last_access := t,
             cb_storage := a, cb_revision := sat_add (cb_revision b) 1\<rparr>"
    and w': "w' = w\<lparr>kw_heap := h\<rparr>" and r: "r = Ok ()"
    by (auto simp: copy_contents_from_def storage_shape_def)
  show "r = Ok ()" by fact
  have new: "block_storage w' b' = Some ss" using m by (simp add: b' w' block_storage_def)
  show "cache_block_wf w' b'"
    using src ss(2) new same by (simp add: cache_block_wf_def cache_block_shape_def b')
  show "block_rows w' b' = block_rows w s"
    unfolding block_rows_storage [OF new] block_rows_storage [OF ss(1)] by (simp add: b' same)
  show g: "\<forall>c \<in># R. arc_get (kw_heap w') c = arc_get (kw_heap w) c"
    using m by (simp add: w')
  then show "block_rows w' s = block_rows w s"
    using held by (simp add: block_rows_def block_storage_def)
  show "arc_ok (kw_heap w') (add_mset (cb_storage b') R)" using m by (simp add: b' w')
  show "b' = b\<lparr>cb_token_count := cb_token_count s, cb_ref_count := 1,
             cb_content_hash := cb_content_hash s, cb_last_access := t,
             cb_storage := cb_storage b', cb_revision := sat_add (cb_revision b) 1\<rparr>"
    "w' = w\<lparr>kw_heap := kw_heap w'\<rparr>"
    by (simp_all add: b' w')
qed

section \<open>Whole histories of a block\<close>

lemma cache_block_write_at_err:
  assumes "\<not> (i < cb_token_count b \<and> length key = cb_vector_len b \<and> length value = cb_vector_len b)"
  shows "\<exists>e. cache_block_write_at i key value b w = (b, w, Err e)"
  using assms by (auto simp: cache_block_write_at_def validate_token_shape_def)

lemma apply_block_op_frame:
  assumes wf: "cache_block_wf w b" and ok: "arc_ok (kw_heap w) (add_mset (cb_storage b) R)"
    and res: "apply_block_op x b w = (b', w')"
  shows "cache_block_wf w' b' \<and> arc_ok (kw_heap w') (add_mset (cb_storage b') R) \<and>
    (\<forall>c \<in># R. arc_get (kw_heap w') c = arc_get (kw_heap w) c)"
proof (cases x)
  case (OpAppend k v)
  obtain r where r: "cache_block_append k v b w = (b', w', r)"
    using res OpAppend by (auto split: prod.splits)
  show ?thesis
  proof (cases "cb_token_count b < cb_capacity_tokens b \<and>
      length k = cb_vector_len b \<and> length v = cb_vector_len b")
    case True
    with cache_block_append_ok [OF wf ok _ _ _ r] show ?thesis by simp
  next
    case False
    with cache_block_append_err [OF False] wf r have "b' = b" "w' = w"
      by (auto simp: cache_block_wf_def)
    with wf ok show ?thesis by simp
  qed
next
  case (OpWriteAt i k v)
  obtain r where r: "cache_block_write_at i k v b w = (b', w', r)"
    using res OpWriteAt by (auto split: prod.splits)
  show ?thesis
  proof (cases "i < cb_token_count b \<and> length k = cb_vector_len b \<and> length v = cb_vector_len b")
    case True
    with cache_block_write_at_ok [OF wf ok _ _ _ r] show ?thesis by simp
  next
    case False
    with cache_block_write_at_err [OF False, of w] r have "b' = b" "w' = w" by auto
    with wf ok show ?thesis by simp
  qed
next
  case OpClear
  with res have "cache_block_clear b w = (b', w')" by simp
  from cache_block_clear_ok [OF wf ok this] show ?thesis by simp
next
  case (OpReset t)
  with res have "reset_for_allocation t b w = (b', w')" by simp
  from reset_for_allocation_ok [OF wf ok this] show ?thesis by simp
next
  case (OpTouch t)
  with res wf ok show ?thesis
    by (auto simp: cb_touch_def cache_block_wf_def cache_block_shape_def block_storage_def)
next
  case (OpSetHash h)
  with res wf ok show ?thesis
    by (auto simp: set_content_hash_def cache_block_wf_def cache_block_shape_def block_storage_def)
qed

lemma apply_block_ops_frame:
  assumes "cache_block_wf w b" and "arc_ok (kw_heap w) (add_mset (cb_storage b) R)"
    and "apply_block_ops xs b w = (b', w')"
  shows "cache_block_wf w' b' \<and> arc_ok (kw_heap w') (add_mset (cb_storage b') R) \<and>
    (\<forall>c \<in># R. arc_get (kw_heap w') c = arc_get (kw_heap w) c)"
  using assms
proof (induction xs arbitrary: b w)
  case Nil
  then show ?case by simp
next
  case (Cons x xs)
  obtain b1 w1 where 1: "apply_block_op x b w = (b1, w1)" by fastforce
  note f = apply_block_op_frame [OF Cons.prems(1,2) 1]
  have "apply_block_ops xs b1 w1 = (b', w')" using Cons.prems(3) 1 by simp
  then show ?case using f Cons.IH [of w1 b1] by auto
qed

section \<open>Properties\<close>

text \<open>\<open>CacheBlock::append\<close> refines appending one (key, value) row to the block's rows: on a
  well-formed block it returns the row's index and the block holds the old rows followed by the
  new one, with the content hash invalidated; on a row of the wrong length or a full block it
  returns the documented error and changes nothing. It never panics, keeps the block
  well-formed, and no other handle of any shared storage sees a difference.\<close>

theorem cache_block_append_refines:
  assumes "cache_block_wf w b" and "arc_ok (kw_heap w) (add_mset (cb_storage b) R)"
    and "cache_block_append key value b w = (b', w', r)"
  shows "cache_block_wf w' b' \<and> \<not> is_panic r \<and>
    (\<forall>c \<in># R. arc_get (kw_heap w') c = arc_get (kw_heap w) c) \<and>
    (if length key = cb_vector_len b \<and> length value = cb_vector_len b \<and>
        cb_token_count b < cb_capacity_tokens b
     then r = Ok (cb_token_count b) \<and> block_rows w' b' = block_rows w b @ [(key, value)] \<and>
          cb_content_hash b' = None
     else b' = b \<and> w' = w \<and>
       r = Err (if length key \<noteq> cb_vector_len b then ShapeMismatch (cb_vector_len b) (length key)
                else if length value \<noteq> cb_vector_len b
                then ShapeMismatch (cb_vector_len b) (length value)
                else CapacityExceeded 1 0))"
proof (cases "cb_token_count b < cb_capacity_tokens b \<and>
    length key = cb_vector_len b \<and> length value = cb_vector_len b")
  case True
  with cache_block_append_ok [OF assms(1,2) _ _ _ assms(3)] show ?thesis by simp
next
  case False
  have "cache_block_shape b" using assms(1) by (simp add: cache_block_wf_def)
  from cache_block_append_err [OF False this, of w] assms False show ?thesis by auto
qed

definition demo_block :: cache_block where
  "demo_block = \<lparr>cb_id = 1, cb_revision = 0, cb_shared = False, cb_capacity_tokens = 2,
     cb_vector_len = 1, cb_token_count = 0, cb_ref_count = 0, cb_content_hash = None,
     cb_last_access = 0, cb_storage = 0\<rparr>"

definition demo_world :: kv_world where
  "demo_world = fst (cache_block_new 2 1 kv_world_init)"

lemma demo_world_eq:
  "demo_world = \<lparr>kw_heap = \<lparr>cells = [0 \<mapsto> (cache_block_storage_new 2, 1)], next_addr = 1\<rparr>,
     kw_next_block_id = 2, kw_next_cache_id = 1\<rparr>"
  by (simp add: demo_world_def cache_block_new_def kv_world_init_def empty_heap_def arc_new_def
      block_id_next_def checked_mul_def checked_add_def u64_max_def INVALID_block_id_def)

lemma demo_block_ok:
  "snd (cache_block_new 2 1 kv_world_init) = Ok demo_block"
  "cache_block_wf demo_world demo_block"
  "arc_ok (kw_heap demo_world) (add_mset (cb_storage demo_block) {#})"
proof -
  show "snd (cache_block_new 2 1 kv_world_init) = Ok demo_block"
    by (simp add: demo_block_def cache_block_new_def kv_world_init_def empty_heap_def arc_new_def
        block_id_next_def checked_mul_def checked_add_def u64_max_def INVALID_block_id_def)
  show "cache_block_wf demo_world demo_block"
    by (simp add: demo_world_eq demo_block_def cache_block_wf_def cache_block_shape_def
        block_storage_def arc_get_def storage_shape_def cache_block_storage_new_def u64_max_def)
  show "arc_ok (kw_heap demo_world) (add_mset (cb_storage demo_block) {#})"
    by (auto simp: demo_world_eq demo_block_def arc_ok_def strong_count_def)
qed

theorem cache_block_append_refines_witness:
  "\<exists>b' w' r. cache_block_append [5] [7] demo_block demo_world = (b', w', r) \<and>
     r = Ok 0 \<and> block_rows w' b' = [([5], [7])]"
proof -
  obtain b' w' r where res: "cache_block_append [5] [7] demo_block demo_world = (b', w', r)"
    by (metis prod_cases3)
  show ?thesis
    using cache_block_append_refines [OF demo_block_ok(2,3) res] res
    by (simp add: demo_block_def block_rows_def split: option.splits)
qed

text \<open>A retained snapshot of a block is immutable. Whatever sequence of appends, overwrites,
  clears, reallocations, touches and rehashes the live block goes through afterwards, restoring
  the snapshot yields a block with exactly the rows and the content hash the block had when it
  was retained: copy-on-write through \<open>Arc::make_mut\<close> and the replacement in \<open>clear\<close> never leak
  a later write into it.\<close>

theorem retained_snapshot_immutable:
  assumes wf: "cache_block_wf w b" and ok: "arc_ok (kw_heap w) (add_mset (cb_storage b) R)"
    and ret: "retain_storage b w = (w1, r)" and ops: "apply_block_ops xs b w1 = (b2, w2)"
    and rest: "cache_block_from_retained r w2 = (w3, res)"
  shows "\<exists>b3. res = Ok b3 \<and> block_rows w3 b3 = block_rows w b \<and> cache_block_wf w3 b3 \<and>
    cb_content_hash b3 = cb_content_hash b \<and> cb_id b3 = cb_id b \<and> cb_shared b3"
proof -
  let ?s = "cb_storage b"
  have w1: "w1 = w\<lparr>kw_heap := arc_clone ?s (kw_heap w)\<rparr>" and rs: "rb_storage r = ?s"
    using ret by (auto simp: retain_storage_def)
  have ok1: "arc_ok (kw_heap w1) (add_mset ?s (add_mset ?s R))"
    using arcs.clone_ok [OF ok, of ?s] by (simp add: w1)
  obtain st where st: "block_storage w b = Some st"
    "storage_shape (cb_capacity_tokens b * cb_vector_len b) st"
    using wf by (rule cache_block_wf_storage)
  have get1: "arc_get (kw_heap w1) ?s = Some st"
    using arcs.clone_ok [OF ok, of ?s] st(1) by (simp add: w1 block_storage_def)
  have wf1: "cache_block_wf w1 b"
    using wf get1 st by (simp add: cache_block_wf_def block_storage_def)
  note f = apply_block_ops_frame [OF wf1 ok1 ops]
  have get2: "arc_get (kw_heap w2) ?s = Some st" using f get1 by simp
  let ?b3 = "b\<lparr>cb_shared := True, cb_ref_count := 0, cb_last_access := 0\<rparr>"
  have b3: "w3 = w2\<lparr>kw_heap := arc_clone ?s (kw_heap w2)\<rparr>" "res = Ok ?b3"
    using rest ret wf st(2) get2
    by (auto simp: cache_block_from_retained_def retain_storage_def cache_block_wf_def
        cache_block_shape_def checked_mul_def storage_shape_def)
  have s3: "block_storage w3 ?b3 = Some st"
    using f get2 arcs.clone_ok [of "kw_heap w2" "add_mset (cb_storage b2) (add_mset ?s R)" ?s ?s]
    by (simp add: b3(1) block_storage_def)
  have "block_rows w3 ?b3 = block_rows w b"
    unfolding block_rows_storage [OF s3] block_rows_storage [OF st(1)] by simp
  with b3(2) s3 st wf show ?thesis
    by (auto simp: cache_block_wf_def cache_block_shape_def)
qed

theorem retained_snapshot_immutable_witness:
  "\<exists>w1 r b2 w2 w3 res. retain_storage demo_block demo_world = (w1, r) \<and>
     apply_block_ops [OpAppend [5] [7], OpWriteAt 0 [6] [8], OpClear] demo_block w1 = (b2, w2) \<and>
     cache_block_from_retained r w2 = (w3, res) \<and>
     (\<exists>b3. res = Ok b3 \<and> block_rows w3 b3 = block_rows demo_world demo_block)"
proof -
  obtain w1 r where ret: "retain_storage demo_block demo_world = (w1, r)" by fastforce
  obtain b2 w2 where ops:
    "apply_block_ops [OpAppend [5] [7], OpWriteAt 0 [6] [8], OpClear] demo_block w1 = (b2, w2)"
    by (metis prod.exhaust)
  obtain w3 res where rest: "cache_block_from_retained r w2 = (w3, res)" by fastforce
  show ?thesis
    using retained_snapshot_immutable [OF demo_block_ok(2,3) ret ops rest] ret ops rest by blast
qed

end
