(* ===== verification/Block_Table.thy ===== *)
theory Block_Table
  imports Kv_Base
begin

text \<open>
  Block tables and session tables, crates/llm-kv-cache/src/block_table.rs. A session lists the
  blocks it reads, in order and possibly with repetitions, and owns each listed block once; the
  invariant \<open>session_wf\<close> says that the owned blocks are exactly the listed ones.
\<close>

record block_table =
  bt_blocks :: "block_id list"

definition block_table_new :: block_table where
  "block_table_new = \<lparr>bt_blocks = []\<rparr>"

definition block_table_append ::
  "block_id \<Rightarrow> block_table \<Rightarrow> block_table \<times> (kv_cache_error, unit) outcome" where
  "block_table_append block_id t =
     (if block_id_is_invalid block_id then (t, Err InvalidShape)
      else (t\<lparr>bt_blocks := bt_blocks t @ [block_id]\<rparr>, Ok ()))"

definition block_table_block_count :: "block_table \<Rightarrow> nat" where
  "block_table_block_count t = length (bt_blocks t)"

definition block_table_is_empty :: "block_table \<Rightarrow> bool" where
  "block_table_is_empty t \<longleftrightarrow> bt_blocks t = []"

definition block_table_get :: "block_table \<Rightarrow> nat \<Rightarrow> block_id option" where
  "block_table_get t index = (if index < length (bt_blocks t) then Some (bt_blocks t ! index) else None)"

definition block_table_replace ::
  "nat \<Rightarrow> block_id \<Rightarrow> block_table \<Rightarrow> block_table \<times> (kv_cache_error, block_id) outcome" where
  "block_table_replace index block_id t =
     (if block_id_is_invalid block_id then (t, Err InvalidShape)
      else case block_table_get t index of
             None \<Rightarrow> (t, Err InvalidShape)
           | Some previous \<Rightarrow> (t\<lparr>bt_blocks := (bt_blocks t)[index := block_id]\<rparr>, Ok previous))"

definition block_table_contains :: "block_table \<Rightarrow> block_id \<Rightarrow> bool" where
  "block_table_contains t block_id \<longleftrightarrow> block_id \<in> set (bt_blocks t)"

definition block_table_remove_last :: "block_table \<Rightarrow> block_table \<times> block_id option" where
  "block_table_remove_last t =
     (if bt_blocks t = [] then (t, None)
      else (t\<lparr>bt_blocks := butlast (bt_blocks t)\<rparr>, Some (last (bt_blocks t))))"

definition block_table_clear :: "block_table \<Rightarrow> block_table" where
  "block_table_clear t = t\<lparr>bt_blocks := []\<rparr>"

record session_block_table =
  sb_session_id :: session_id
  sb_created_at :: nat
  sb_last_access :: nat
  sb_block_table :: block_table
  sb_owned_blocks :: "block_id set"

definition session_block_table_new ::
  "session_id \<Rightarrow> nat \<Rightarrow> (kv_cache_error, session_block_table) outcome" where
  "session_block_table_new session_id created_at =
     (if session_id = 0 then Err InvalidShape
      else Ok \<lparr>sb_session_id = session_id, sb_created_at = created_at, sb_last_access = created_at,
               sb_block_table = block_table_new, sb_owned_blocks = {}\<rparr>)"

definition session_block_count :: "session_block_table \<Rightarrow> nat" where
  "session_block_count s = block_table_block_count (sb_block_table s)"

definition session_owned_block_count :: "session_block_table \<Rightarrow> nat" where
  "session_owned_block_count s = card (sb_owned_blocks s)"

definition session_is_empty :: "session_block_table \<Rightarrow> bool" where
  "session_is_empty s \<longleftrightarrow> block_table_is_empty (sb_block_table s)"

text \<open>The result says whether the block is newly owned (\<open>HashSet::insert\<close>).\<close>

definition append_owned_block ::
  "block_id \<Rightarrow> session_block_table \<Rightarrow> session_block_table \<times> (kv_cache_error, bool) outcome" where
  "append_owned_block block_id s =
     (if block_id_is_invalid block_id then (s, Err InvalidShape)
      else case block_table_append block_id (sb_block_table s) of
             (t, Ok _) \<Rightarrow>
               (s\<lparr>sb_block_table := t, sb_owned_blocks := insert block_id (sb_owned_blocks s)\<rparr>,
                Ok (block_id \<notin> sb_owned_blocks s))
           | (t, Err e) \<Rightarrow> (s\<lparr>sb_block_table := t\<rparr>, Err e)
           | (t, Panic) \<Rightarrow> (s\<lparr>sb_block_table := t\<rparr>, Panic))"

definition session_append_block ::
  "block_id \<Rightarrow> session_block_table \<Rightarrow> session_block_table \<times> (kv_cache_error, unit) outcome" where
  "session_append_block block_id s =
     (case append_owned_block block_id s of
        (s', Ok _) \<Rightarrow> (s', Ok ())
      | (s', Err e) \<Rightarrow> (s', Err e)
      | (s', Panic) \<Rightarrow> (s', Panic))"

definition session_read_block :: "session_block_table \<Rightarrow> nat \<Rightarrow> block_id option" where
  "session_read_block s index = block_table_get (sb_block_table s) index"

definition session_owns_block :: "session_block_table \<Rightarrow> block_id \<Rightarrow> bool" where
  "session_owns_block s block_id \<longleftrightarrow> block_id \<in> sb_owned_blocks s"

definition replace_owned_block ::
  "nat \<Rightarrow> block_id \<Rightarrow> session_block_table
     \<Rightarrow> session_block_table \<times> (kv_cache_error, block_id \<times> bool) outcome" where
  "replace_owned_block index block_id s =
     (case block_table_replace index block_id (sb_block_table s) of
        (t, Ok previous) \<Rightarrow>
          (let owned = insert block_id (sb_owned_blocks s);
               should_release_previous = (\<not> block_table_contains t previous)
           in (s\<lparr>sb_block_table := t,
                 sb_owned_blocks := (if should_release_previous then owned - {previous} else owned)\<rparr>,
               Ok (previous, should_release_previous)))
      | (t, Err e) \<Rightarrow> (s\<lparr>sb_block_table := t\<rparr>, Err e)
      | (t, Panic) \<Rightarrow> (s\<lparr>sb_block_table := t\<rparr>, Panic))"

definition session_touch :: "nat \<Rightarrow> session_block_table \<Rightarrow> session_block_table" where
  "session_touch last_access s = s\<lparr>sb_last_access := last_access\<rparr>"

section \<open>The invariant of a session\<close>

definition session_wf :: "session_block_table \<Rightarrow> bool" where
  "session_wf s \<longleftrightarrow>
     0 < sb_session_id s \<and> 0 \<notin> set (bt_blocks (sb_block_table s)) \<and>
     sb_owned_blocks s = set (bt_blocks (sb_block_table s))"

named_theorems session_simps "unfoldings of the session operations"

lemmas [session_simps] =
  block_table_append_def block_table_get_def block_table_replace_def block_table_contains_def
  append_owned_block_def replace_owned_block_def session_touch_def session_read_block_def
  session_is_empty_def block_table_is_empty_def block_id_is_invalid_def block_table_new_def

lemma session_wf_finite [simp]: "session_wf s \<Longrightarrow> finite (sb_owned_blocks s)"
  by (simp add: session_wf_def)

lemma session_new_wf: "session_block_table_new i c = Ok s \<Longrightarrow> session_wf s"
  by (auto simp: session_block_table_new_def session_wf_def block_table_new_def split: if_splits)

lemma session_touch_wf [simp]: "session_wf (session_touch t s) = session_wf s"
  by (simp add: session_wf_def session_touch_def)

lemma append_owned_block_valid:
  "0 < b \<Longrightarrow> append_owned_block b s =
     (s\<lparr>sb_block_table := \<lparr>bt_blocks = bt_blocks (sb_block_table s) @ [b]\<rparr>,
        sb_owned_blocks := insert b (sb_owned_blocks s)\<rparr>,
      Ok (b \<notin> sb_owned_blocks s))"
  by (cases "sb_block_table s") (simp add: session_simps)

lemma append_owned_block_wf:
  "session_wf s \<Longrightarrow> session_wf (fst (append_owned_block b s))"
  by (auto simp: session_wf_def session_simps)

lemma replace_owned_block_valid:
  assumes "0 < b" and "index < length (bt_blocks (sb_block_table s))"
  shows "replace_owned_block index b s =
     (let prev = bt_blocks (sb_block_table s) ! index;
          ids = (bt_blocks (sb_block_table s))[index := b]
      in (s\<lparr>sb_block_table := \<lparr>bt_blocks = ids\<rparr>,
            sb_owned_blocks := (if prev \<notin> set ids then insert b (sb_owned_blocks s) - {prev}
                                else insert b (sb_owned_blocks s))\<rparr>,
          Ok (prev, prev \<notin> set ids)))"
  using assms by (cases "sb_block_table s") (simp add: session_simps Let_def)

lemma set_update_replaced:
  assumes "i < length xs"
  shows "set (xs[i := y]) =
    (if xs ! i \<notin> set (xs[i := y]) then insert y (set xs) - {xs ! i} else insert y (set xs))"
proof -
  have sub: "set (xs[i := y]) \<subseteq> insert y (set xs)" by (rule set_update_subset_insert)
  have y: "y \<in> set (xs[i := y])" using assms by (rule set_update_memI)
  have rest: "x \<in> set (xs[i := y])" if "x \<in> set xs" "x \<noteq> xs ! i" for x
  proof -
    obtain j where j: "j < length xs" "xs ! j = x" using \<open>x \<in> set xs\<close> by (auto simp: in_set_conv_nth)
    with that have "j \<noteq> i" by auto
    with j show ?thesis by (metis length_list_update nth_list_update_neq nth_mem)
  qed
  show ?thesis using sub y rest by auto
qed

lemma replace_owned_block_wf:
  assumes "session_wf s" and "replace_owned_block index b s = (s', Ok r)"
  shows "session_wf s'"
proof -
  have v: "0 < b" "index < length (bt_blocks (sb_block_table s))"
    using assms(2) by (auto simp: session_simps Let_def split: if_splits)
  have s': "s' = fst (replace_owned_block index b s)" using assms(2) by simp
  have "set ((bt_blocks (sb_block_table s))[index := b]) \<subseteq> insert b (set (bt_blocks (sb_block_table s)))"
    by (rule set_update_subset_insert)
  then show ?thesis
    using assms(1) v(1) set_update_replaced [OF v(2), of b]
    unfolding s' replace_owned_block_valid [OF v] Let_def
    by (auto simp: session_wf_def)
qed

end
