(* ===== verification/Block_Pool.thy ===== *)
theory Block_Pool
  imports Cache_Block Block_Table
begin

text \<open>
  The paged KV block allocator, crates/llm-kv-cache/src/block_pool.rs: \<open>BlockPoolInner\<close> and the
  operations that \<open>BlockPool\<close> runs under its mutex. Every operation is one function on the pool
  and the process state, written branch for branch; because each runs under the lock, the
  interleavings of several threads are the sequences of these functions. Iteration over hash
  maps takes the enumeration as the argument \<open>it\<close>. The two floating-point ratios of the
  metrics snapshot are left out.
\<close>

section \<open>State\<close>

record prefix_block_snapshot =
  ps_block_id :: block_id
  ps_content_hash :: cache_block_hash

record prefix_entry =
  pe_blocks :: "prefix_block_snapshot list"

definition prefix_block_ids :: "prefix_entry \<Rightarrow> block_id list" where
  "prefix_block_ids e = map ps_block_id (pe_blocks e)"

definition prefix_terminal_hash :: "prefix_entry \<Rightarrow> cache_block_hash option" where
  "prefix_terminal_hash e =
     (if pe_blocks e = [] then None else Some (ps_content_hash (last (pe_blocks e))))"

record paged_kv_cache_metrics =
  pm_total_refcount_increments :: nat
  pm_total_cow_clones :: nat
  pm_cow_bytes_saved :: nat
  pm_blocks_evicted_lru :: nat
  pm_sessions_evicted_lru :: nat
  pm_eviction_high_water_mark :: nat
  pm_pool_high_water_blocks :: nat
  pm_max_refcount_seen :: nat

definition metrics_default :: paged_kv_cache_metrics where
  "metrics_default = \<lparr>pm_total_refcount_increments = 0, pm_total_cow_clones = 0,
     pm_cow_bytes_saved = 0, pm_blocks_evicted_lru = 0, pm_sessions_evicted_lru = 0,
     pm_eviction_high_water_mark = 0, pm_pool_high_water_blocks = 0, pm_max_refcount_seen = 0\<rparr>"

definition record_refcount :: "nat \<Rightarrow> paged_kv_cache_metrics \<Rightarrow> paged_kv_cache_metrics" where
  "record_refcount ref_count m =
     m\<lparr>pm_max_refcount_seen := max (pm_max_refcount_seen m) ref_count\<rparr>"

definition record_shared_refcount_increment ::
  "nat \<Rightarrow> nat \<Rightarrow> paged_kv_cache_metrics \<Rightarrow> paged_kv_cache_metrics" where
  "record_shared_refcount_increment ref_count bytes_saved m =
     record_refcount ref_count
       (m\<lparr>pm_total_refcount_increments := sat_add (pm_total_refcount_increments m) 1,
          pm_cow_bytes_saved := sat_add (pm_cow_bytes_saved m) bytes_saved\<rparr>)"

definition record_cow_clone :: "paged_kv_cache_metrics \<Rightarrow> paged_kv_cache_metrics" where
  "record_cow_clone m = m\<lparr>pm_total_cow_clones := sat_add (pm_total_cow_clones m) 1\<rparr>"

definition record_eviction ::
  "nat \<Rightarrow> nat \<Rightarrow> paged_kv_cache_metrics \<Rightarrow> paged_kv_cache_metrics" where
  "record_eviction evicted_blocks high_water_blocks m =
     m\<lparr>pm_sessions_evicted_lru := sat_add (pm_sessions_evicted_lru m) 1,
       pm_blocks_evicted_lru := sat_add (pm_blocks_evicted_lru m) evicted_blocks,
       pm_eviction_high_water_mark := max (pm_eviction_high_water_mark m) high_water_blocks\<rparr>"

definition metrics_record_pool_residency ::
  "nat \<Rightarrow> paged_kv_cache_metrics \<Rightarrow> paged_kv_cache_metrics" where
  "metrics_record_pool_residency resident_blocks m =
     m\<lparr>pm_pool_high_water_blocks := max (pm_pool_high_water_blocks m) resident_blocks\<rparr>"

record block_pool =
  bp_blocks :: "block_id \<rightharpoonup> cache_block"
  bp_free_list :: "block_id list"
  bp_prefixes :: "cache_block_hash \<rightharpoonup> prefix_entry"
  bp_sessions :: "session_id \<rightharpoonup> session_block_table"
  bp_next_session_id :: session_id
  bp_access_clock :: nat
  bp_metrics :: paged_kv_cache_metrics

type_synonym id_order = "nat set \<Rightarrow> nat list"

section \<open>Construction and counters\<close>

fun block_pool_new_loop ::
  "nat \<Rightarrow> nat \<Rightarrow> nat \<Rightarrow> (block_id \<rightharpoonup> cache_block) \<Rightarrow> block_id list \<Rightarrow> kv_world
     \<Rightarrow> kv_world \<times> (kv_cache_error, (block_id \<rightharpoonup> cache_block) \<times> block_id list) outcome" where
  "block_pool_new_loop 0 cap vl blocks free w = (w, Ok (blocks, free))"
| "block_pool_new_loop (Suc n) cap vl blocks free w =
     (case cache_block_new cap vl w of
        (w', Ok b) \<Rightarrow> block_pool_new_loop n cap vl (blocks(cb_id b \<mapsto> b)) (free @ [cb_id b]) w'
      | (w', Err e) \<Rightarrow> (w', Err e)
      | (w', Panic) \<Rightarrow> (w', Panic))"

definition block_pool_new ::
  "nat \<Rightarrow> nat \<Rightarrow> nat \<Rightarrow> kv_world \<Rightarrow> kv_world \<times> (kv_cache_error, block_pool) outcome" where
  "block_pool_new block_count block_capacity_tokens vector_len w =
     (if block_count = 0 then (w, Err InvalidShape)
      else case block_pool_new_loop block_count block_capacity_tokens vector_len Map.empty [] w of
             (w', Ok (blocks, free)) \<Rightarrow>
               (w', Ok \<lparr>bp_blocks = blocks, bp_free_list = free, bp_prefixes = Map.empty,
                        bp_sessions = Map.empty, bp_next_session_id = 1, bp_access_clock = 0,
                        bp_metrics = metrics_default\<rparr>)
           | (w', Err e) \<Rightarrow> (w', Err e)
           | (w', Panic) \<Rightarrow> (w', Panic))"

definition total_blocks :: "block_pool \<Rightarrow> nat" where
  "total_blocks p = card (dom (bp_blocks p))"

definition free_blocks :: "block_pool \<Rightarrow> nat" where
  "free_blocks p = length (bp_free_list p)"

definition ref_count_of :: "block_pool \<Rightarrow> block_id \<Rightarrow> nat" where
  "ref_count_of p b = (case bp_blocks p b of None \<Rightarrow> 0 | Some blk \<Rightarrow> cb_ref_count blk)"

definition allocated_blocks :: "id_order \<Rightarrow> block_pool \<Rightarrow> nat" where
  "allocated_blocks it p = length (filter (\<lambda>b. ref_count_of p b > 0) (it (dom (bp_blocks p))))"

definition session_count :: "block_pool \<Rightarrow> nat" where
  "session_count p = card (dom (bp_sessions p))"

definition next_access :: "block_pool \<Rightarrow> block_pool \<times> nat" where
  "next_access p =
     (let c = sat_add (bp_access_clock p) 1 in (p\<lparr>bp_access_clock := c\<rparr>, c))"

definition next_session_id ::
  "block_pool \<Rightarrow> block_pool \<times> (kv_cache_error, session_id) outcome" where
  "next_session_id p =
     (let session_id = bp_next_session_id p
      in case checked_add session_id 1 of
           None \<Rightarrow> (p, Err InvalidShape)
         | Some nxt \<Rightarrow>
             if nxt = 0 then (p, Err InvalidShape)
             else (p\<lparr>bp_next_session_id := nxt\<rparr>, Ok session_id))"

definition resident_blocks_from_free_list :: "block_pool \<Rightarrow> nat" where
  "resident_blocks_from_free_list p = sat_sub (card (dom (bp_blocks p))) (length (bp_free_list p))"

definition record_pool_residency :: "block_pool \<Rightarrow> block_pool" where
  "record_pool_residency p =
     p\<lparr>bp_metrics :=
         metrics_record_pool_residency (resident_blocks_from_free_list p) (bp_metrics p)\<rparr>"

section \<open>Block reference counting\<close>

definition pool_allocate :: "block_pool \<Rightarrow> kv_world \<Rightarrow> block_pool \<times> kv_world \<times> block_id option" where
  "pool_allocate p w =
     (if bp_free_list p = [] then (p, w, None)
      else let block_id = last (bp_free_list p);
               p1 = p\<lparr>bp_free_list := butlast (bp_free_list p)\<rparr>;
               (p2, access) = next_access p1
           in case bp_blocks p2 block_id of
                None \<Rightarrow> (p2, w, None)
              | Some blk \<Rightarrow>
                  (let (blk', w') = reset_for_allocation access blk w;
                       p3 = p2\<lparr>bp_blocks := (bp_blocks p2)(block_id \<mapsto> blk'),
                               bp_metrics := record_refcount (cb_ref_count blk') (bp_metrics p2)\<rparr>
                   in (record_pool_residency p3, w', Some block_id)))"

definition pool_retain :: "block_id \<Rightarrow> block_pool \<Rightarrow> kv_world \<Rightarrow> block_pool \<times> bool" where
  "pool_retain block_id p w =
     (case bp_blocks p block_id of
        None \<Rightarrow> (p, False)
      | Some blk \<Rightarrow>
          if cb_ref_count blk = 0 then (p, False)
          else let bytes_saved = cb_payload_bytes w blk;
                   blk' = increment_ref_count blk
               in (p\<lparr>bp_blocks := (bp_blocks p)(block_id \<mapsto> blk'),
                     bp_metrics := record_shared_refcount_increment (cb_ref_count blk') bytes_saved
                                     (bp_metrics p)\<rparr>, True))"

definition pool_release :: "block_id \<Rightarrow> block_pool \<Rightarrow> kv_world \<Rightarrow> block_pool \<times> kv_world \<times> bool" where
  "pool_release block_id p w =
     (case bp_blocks p block_id of
        None \<Rightarrow> (p, w, False)
      | Some blk \<Rightarrow>
          if cb_ref_count blk = 0 then (p, w, False)
          else let blk1 = decrement_ref_count blk
               in if cb_ref_count blk1 = 0
                  then let (blk2, w') = cache_block_clear blk1 w
                       in (p\<lparr>bp_blocks := (bp_blocks p)(block_id \<mapsto> blk2),
                             bp_free_list := bp_free_list p @ [block_id]\<rparr>, w', True)
                  else (p\<lparr>bp_blocks := (bp_blocks p)(block_id \<mapsto> blk1)\<rparr>, w, True))"

definition pool_deallocate :: "block_id \<Rightarrow> block_pool \<Rightarrow> kv_world \<Rightarrow> block_pool \<times> kv_world \<times> bool" where
  "pool_deallocate block_id p w = pool_release block_id p w"

definition pool_touch :: "block_id \<Rightarrow> block_pool \<Rightarrow> block_pool \<times> unit option" where
  "pool_touch block_id p =
     (let (p1, access) = next_access p
      in case bp_blocks p1 block_id of
           None \<Rightarrow> (p1, None)
         | Some blk \<Rightarrow>
             if cb_ref_count blk = 0 then (p1, None)
             else (p1\<lparr>bp_blocks := (bp_blocks p1)(block_id \<mapsto> cb_touch access blk)\<rparr>, Some ()))"

definition lru_block :: "id_order \<Rightarrow> block_pool \<Rightarrow> block_id option" where
  "lru_block it p =
     map_option cb_id
       (min_by_key cb_last_access
         (filter (\<lambda>blk. cb_ref_count blk > 0)
           (map (\<lambda>b. the (bp_blocks p b)) (it (dom (bp_blocks p))))))"

definition pool_block :: "block_pool \<Rightarrow> block_id \<Rightarrow> cache_block option" where
  "pool_block p block_id = bp_blocks p block_id"

text \<open>\<open>BlockPool::block\<close> hands out a clone, which shares the storage.\<close>

definition pool_block_cloned ::
  "block_id \<Rightarrow> block_pool \<Rightarrow> kv_world \<Rightarrow> kv_world \<times> cache_block option" where
  "pool_block_cloned block_id p w =
     (case pool_block p block_id of
        None \<Rightarrow> (w, None)
      | Some blk \<Rightarrow> (case cache_block_clone blk w of (w', c) \<Rightarrow> (w', Some c)))"

definition pool_block_mut :: "block_pool \<Rightarrow> block_id \<Rightarrow> cache_block option" where
  "pool_block_mut p block_id =
     (case bp_blocks p block_id of
        None \<Rightarrow> None
      | Some blk \<Rightarrow> if cb_ref_count blk = 1 then Some blk else None)"

definition with_block_mut ::
  "block_id \<Rightarrow> (cache_block \<Rightarrow> kv_world \<Rightarrow> cache_block \<times> kv_world) \<Rightarrow> block_pool \<Rightarrow> kv_world
     \<Rightarrow> block_pool \<times> kv_world \<times> bool" where
  "with_block_mut block_id f p w =
     (case pool_block_mut p block_id of
        None \<Rightarrow> (p, w, False)
      | Some blk \<Rightarrow>
          (case f blk w of
             (blk', w') \<Rightarrow> (p\<lparr>bp_blocks := (bp_blocks p)(block_id \<mapsto> blk')\<rparr>, w', True)))"

section \<open>Sessions\<close>

definition create_session :: "block_pool \<Rightarrow> block_pool \<times> (kv_cache_error, session_id) outcome" where
  "create_session p =
     (case next_session_id p of
        (p1, Ok session_id) \<Rightarrow>
          (let (p2, access) = next_access p1
           in case session_block_table_new session_id access of
                Ok session \<Rightarrow>
                  (p2\<lparr>bp_sessions := (bp_sessions p2)(session_id \<mapsto> session)\<rparr>, Ok session_id)
              | Err e \<Rightarrow> (p2, Err e)
              | Panic \<Rightarrow> (p2, Panic))
      | (p1, Err e) \<Rightarrow> (p1, Err e)
      | (p1, Panic) \<Rightarrow> (p1, Panic))"

definition append_block_to_session_inner ::
  "session_id \<Rightarrow> block_id \<Rightarrow> bool \<Rightarrow> block_pool \<Rightarrow> kv_world
     \<Rightarrow> block_pool \<times> (kv_cache_error, unit) outcome" where
  "append_block_to_session_inner session_id block_id retain_new_owner p w =
     (case bp_blocks p block_id of
        None \<Rightarrow> (p, Err InvalidShape)
      | Some blk \<Rightarrow>
          if cb_ref_count blk = 0 then (p, Err InvalidShape)
          else let (p1, access) = next_access p
               in case bp_sessions p1 session_id of
                    None \<Rightarrow> (p1, Err InvalidShape)
                  | Some session \<Rightarrow>
                      (case append_owned_block block_id session of
                         (session', Ok newly_owned) \<Rightarrow>
                           (let p2 = p1\<lparr>bp_sessions :=
                                  (bp_sessions p1)(session_id \<mapsto> session_touch access session')\<rparr>
                            in if retain_new_owner \<and> newly_owned
                               then let bytes_saved = cb_payload_bytes w blk;
                                        blk' = increment_ref_count blk
                                    in (p2\<lparr>bp_blocks := (bp_blocks p2)(block_id \<mapsto> cb_touch access blk'),
                                          bp_metrics := record_shared_refcount_increment
                                            (cb_ref_count blk') bytes_saved (bp_metrics p2)\<rparr>, Ok ())
                               else (p2\<lparr>bp_blocks := (bp_blocks p2)(block_id \<mapsto> cb_touch access blk)\<rparr>,
                                     Ok ()))
                       | (session', Err e) \<Rightarrow>
                           (p1\<lparr>bp_sessions := (bp_sessions p1)(session_id \<mapsto> session')\<rparr>, Err e)
                       | (session', Panic) \<Rightarrow>
                           (p1\<lparr>bp_sessions := (bp_sessions p1)(session_id \<mapsto> session')\<rparr>, Panic)))"

definition append_block_to_session ::
  "session_id \<Rightarrow> block_id \<Rightarrow> block_pool \<Rightarrow> kv_world
     \<Rightarrow> block_pool \<times> (kv_cache_error, unit) outcome" where
  "append_block_to_session session_id block_id p w =
     append_block_to_session_inner session_id block_id True p w"

fun release_owned_loop ::
  "block_id list \<Rightarrow> block_pool \<Rightarrow> kv_world \<Rightarrow> nat \<Rightarrow> block_pool \<times> kv_world \<times> nat" where
  "release_owned_loop [] p w released = (p, w, released)"
| "release_owned_loop (b # bs) p w released =
     (let was_resident = (ref_count_of p b > 0);
          (p', w', ok) = pool_release b p w;
          now_free = (case bp_blocks p' b of None \<Rightarrow> False | Some blk \<Rightarrow> cb_ref_count blk = 0)
      in release_owned_loop bs p' w'
           (if ok \<and> was_resident \<and> now_free then sat_add released 1 else released))"

definition release_session_inner ::
  "id_order \<Rightarrow> session_id \<Rightarrow> block_pool \<Rightarrow> kv_world \<Rightarrow> block_pool \<times> kv_world \<times> nat option" where
  "release_session_inner it session_id p w =
     (case bp_sessions p session_id of
        None \<Rightarrow> (p, w, None)
      | Some session \<Rightarrow>
          (case release_owned_loop (it (sb_owned_blocks session))
                  (p\<lparr>bp_sessions := (bp_sessions p)(session_id := None)\<rparr>) w 0 of
             (p', w', released) \<Rightarrow> (p', w', Some released)))"

definition release_session ::
  "id_order \<Rightarrow> session_id \<Rightarrow> block_pool \<Rightarrow> kv_world \<Rightarrow> block_pool \<times> kv_world \<times> bool" where
  "release_session it session_id p w =
     (case release_session_inner it session_id p w of (p', w', r) \<Rightarrow> (p', w', r \<noteq> None))"

definition session_lru_key :: "session_block_table \<Rightarrow> nat \<times> nat \<times> nat" where
  "session_lru_key s = (sb_last_access s, sb_created_at s, sb_session_id s)"

definition lru_session_except :: "id_order \<Rightarrow> session_id option \<Rightarrow> block_pool \<Rightarrow> session_id option" where
  "lru_session_except it excluded_session_id p =
     map_option sb_session_id
       (min_by_key session_lru_key
         (filter (\<lambda>s. \<not> session_is_empty s)
           (filter (\<lambda>s. Some (sb_session_id s) \<noteq> excluded_session_id)
             (map (\<lambda>i. the (bp_sessions p i)) (it (dom (bp_sessions p)))))))"

definition lru_session :: "id_order \<Rightarrow> block_pool \<Rightarrow> session_id option" where
  "lru_session it p = lru_session_except it None p"

text \<open>The eviction loop. Each pass removes a session, so the number of sessions bounds the passes;
  \<open>evict_loop_enough_fuel\<close> shows that the fuel below is never used up.\<close>

fun evict_loop :: "nat \<Rightarrow> id_order \<Rightarrow> session_id \<Rightarrow> block_pool \<Rightarrow> kv_world \<Rightarrow> block_pool \<times> kv_world" where
  "evict_loop 0 it excluded p w = (p, w)"
| "evict_loop (Suc fuel) it excluded p w =
     (if bp_free_list p \<noteq> [] then (p, w)
      else case lru_session_except it (Some excluded) p of
             None \<Rightarrow> (p, w)
           | Some session_id \<Rightarrow>
               (let high_water_blocks = resident_blocks_from_free_list p
                in case release_session_inner it session_id p w of
                     (p', w', None) \<Rightarrow> (p', w')
                   | (p', w', Some evicted_blocks) \<Rightarrow>
                       evict_loop fuel it excluded
                         (p'\<lparr>bp_metrics := record_eviction evicted_blocks high_water_blocks
                                (bp_metrics p')\<rparr>) w'))"

definition evict_sessions_until_free ::
  "id_order \<Rightarrow> session_id \<Rightarrow> block_pool \<Rightarrow> kv_world \<Rightarrow> block_pool \<times> kv_world" where
  "evict_sessions_until_free it excluded p w =
     evict_loop (card (dom (bp_sessions p))) it excluded p w"

definition allocate_for_session ::
  "id_order \<Rightarrow> session_id \<Rightarrow> block_pool \<Rightarrow> kv_world \<Rightarrow> block_pool \<times> kv_world \<times> block_id option" where
  "allocate_for_session it session_id p w =
     (if bp_sessions p session_id = None then (p, w, None)
      else let (p1, w1) = (if bp_free_list p = [] then evict_sessions_until_free it session_id p w
                           else (p, w))
           in case pool_allocate p1 w1 of
                (p2, w2, None) \<Rightarrow> (p2, w2, None)
              | (p2, w2, Some block_id) \<Rightarrow>
                  (case append_block_to_session_inner session_id block_id False p2 w2 of
                     (p3, Ok _) \<Rightarrow> (p3, w2, Some block_id)
                   | (p3, _) \<Rightarrow> (p3, w2, None)))"

definition read_session_block :: "session_id \<Rightarrow> nat \<Rightarrow> block_pool \<Rightarrow> block_pool \<times> block_id option" where
  "read_session_block session_id index p =
     (let (p1, access) = next_access p
      in case bp_sessions p1 session_id of
           None \<Rightarrow> (p1, None)
         | Some session \<Rightarrow>
             (case session_read_block session index of
                None \<Rightarrow> (p1, None)
              | Some block_id \<Rightarrow>
                  (let p2 = p1\<lparr>bp_sessions := (bp_sessions p1)(session_id \<mapsto> session_touch access session)\<rparr>
                   in case bp_blocks p2 block_id of
                        None \<Rightarrow> (p2, None)
                      | Some blk \<Rightarrow>
                          if cb_ref_count blk = 0 then (p2, None)
                          else (p2\<lparr>bp_blocks := (bp_blocks p2)(block_id \<mapsto> cb_touch access blk)\<rparr>,
                                Some block_id))))"

definition touch_session_block ::
  "session_id \<Rightarrow> block_id \<Rightarrow> block_pool \<Rightarrow> block_pool \<times> (kv_cache_error, unit) outcome" where
  "touch_session_block session_id block_id p =
     (let (p1, access) = next_access p
      in case bp_sessions p1 session_id of
           None \<Rightarrow> (p1, Err InvalidShape)
         | Some session \<Rightarrow>
             (let p2 = p1\<lparr>bp_sessions := (bp_sessions p1)(session_id \<mapsto> session_touch access session)\<rparr>
              in case bp_blocks p2 block_id of
                   None \<Rightarrow> (p2, Err InvalidShape)
                 | Some blk \<Rightarrow>
                     if cb_ref_count blk = 0 then (p2, Err InvalidShape)
                     else (p2\<lparr>bp_blocks := (bp_blocks p2)(block_id \<mapsto> cb_touch access blk)\<rparr>, Ok ())))"

section \<open>Prefixes\<close>

fun prefix_snapshots_for :: "block_pool \<Rightarrow> block_id list \<Rightarrow> prefix_block_snapshot list option" where
  "prefix_snapshots_for p [] = Some []"
| "prefix_snapshots_for p (b # bs) =
     (case bp_blocks p b of
        None \<Rightarrow> None
      | Some blk \<Rightarrow>
          if cb_ref_count blk = 0 then None
          else case cb_content_hash blk of
                 None \<Rightarrow> None
               | Some h \<Rightarrow>
                   map_option (\<lambda>rest. \<lparr>ps_block_id = b, ps_content_hash = h\<rparr> # rest)
                     (prefix_snapshots_for p bs))"

definition prefix_entry_for :: "block_pool \<Rightarrow> block_id list \<Rightarrow> prefix_entry option" where
  "prefix_entry_for p block_ids =
     map_option (\<lambda>bs. \<lparr>pe_blocks = bs\<rparr>) (prefix_snapshots_for p block_ids)"

definition prefix_snapshot_live :: "block_pool \<Rightarrow> prefix_block_snapshot \<Rightarrow> bool" where
  "prefix_snapshot_live p snap =
     (case bp_blocks p (ps_block_id snap) of
        None \<Rightarrow> False
      | Some blk \<Rightarrow> cb_ref_count blk > 0 \<and> cb_content_hash blk = Some (ps_content_hash snap))"

definition prefix_blocks_match :: "block_pool \<Rightarrow> cache_block_hash \<Rightarrow> prefix_entry \<Rightarrow> bool" where
  "prefix_blocks_match p prefix_hash e \<longleftrightarrow>
     prefix_terminal_hash e = Some prefix_hash \<and> list_all (prefix_snapshot_live p) (pe_blocks e)"

definition register_prefix :: "cache_block_hash \<Rightarrow> block_id list \<Rightarrow> block_pool \<Rightarrow> block_pool" where
  "register_prefix prefix_hash block_ids p =
     (case prefix_entry_for p block_ids of
        Some e \<Rightarrow>
          if prefix_terminal_hash e = Some prefix_hash
          then p\<lparr>bp_prefixes := (bp_prefixes p)(prefix_hash \<mapsto> e)\<rparr>
          else p\<lparr>bp_prefixes := (bp_prefixes p)(prefix_hash := None)\<rparr>
      | None \<Rightarrow> p\<lparr>bp_prefixes := (bp_prefixes p)(prefix_hash := None)\<rparr>)"

definition lookup_prefix :: "block_pool \<Rightarrow> cache_block_hash \<Rightarrow> block_id list option" where
  "lookup_prefix p prefix_hash =
     (case bp_prefixes p prefix_hash of
        None \<Rightarrow> None
      | Some e \<Rightarrow> if prefix_blocks_match p prefix_hash e then Some (prefix_block_ids e) else None)"

fun attach_loop ::
  "session_id \<Rightarrow> block_id list \<Rightarrow> block_pool \<Rightarrow> kv_world \<Rightarrow> block_pool \<times> bool" where
  "attach_loop session_id [] p w = (p, True)"
| "attach_loop session_id (b # bs) p w =
     (case append_block_to_session_inner session_id b True p w of
        (p', Ok _) \<Rightarrow> attach_loop session_id bs p' w
      | (p', _) \<Rightarrow> (p', False))"

definition attach_prefix_to_session ::
  "session_id \<Rightarrow> cache_block_hash \<Rightarrow> block_pool \<Rightarrow> kv_world \<Rightarrow> block_pool \<times> block_id list option" where
  "attach_prefix_to_session session_id prefix_hash p w =
     (if bp_sessions p session_id = None then (p, None)
      else case lookup_prefix p prefix_hash of
             None \<Rightarrow> (p, None)
           | Some block_ids \<Rightarrow>
               (case attach_loop session_id block_ids p w of
                  (p', True) \<Rightarrow> (p', Some block_ids)
                | (p', False) \<Rightarrow> (p', None)))"

section \<open>Copy on write\<close>

definition live_ref_count :: "block_pool \<Rightarrow> block_id \<Rightarrow> nat option" where
  "live_ref_count p b =
     (case bp_blocks p b of
        None \<Rightarrow> None
      | Some blk \<Rightarrow> if cb_ref_count blk > 0 then Some (cb_ref_count blk) else None)"

definition cow_finish ::
  "session_id \<Rightarrow> nat \<Rightarrow> block_id \<Rightarrow> block_id \<Rightarrow> nat \<Rightarrow> block_pool \<Rightarrow> kv_world
     \<Rightarrow> block_pool \<times> kv_world \<times> (kv_cache_error, block_id) outcome" where
  "cow_finish session_id index block_id new_block_id access p w =
     (case bp_sessions p session_id of
        None \<Rightarrow> (p, w, Err InvalidShape)
      | Some session \<Rightarrow>
          (case replace_owned_block index new_block_id session of
             (session', result) \<Rightarrow>
               (let p1 = p\<lparr>bp_sessions := (bp_sessions p)(session_id \<mapsto> session_touch access session')\<rparr>
                in case result of
                     Ok (_, should_release_previous) \<Rightarrow>
                       (let (p2, w2) =
                              (if should_release_previous
                               then case pool_release block_id p1 w of (q, v, _) \<Rightarrow> (q, v)
                               else (p1, w))
                        in (p2\<lparr>bp_metrics := record_cow_clone (bp_metrics p2)\<rparr>, w2, Ok new_block_id))
                   | Err e \<Rightarrow> (case pool_release new_block_id p1 w of (q, v, _) \<Rightarrow> (q, v, Err e))
                   | Panic \<Rightarrow> (p1, w, Panic))))"

definition cow_copy ::
  "session_id \<Rightarrow> nat \<Rightarrow> block_id \<Rightarrow> block_pool \<Rightarrow> kv_world
     \<Rightarrow> block_pool \<times> kv_world \<times> (kv_cache_error, block_id) outcome" where
  "cow_copy session_id index block_id p w =
     (case pool_allocate p w of
        (p1, w1, None) \<Rightarrow> (p1, w1, Err (CapacityExceeded 1 0))
      | (p1, w1, Some new_block_id) \<Rightarrow>
          (let (p2, access) = next_access p1
           in if block_id = new_block_id then (p2, w1, Panic)
              else case (bp_blocks p2 block_id, bp_blocks p2 new_block_id) of
                (Some source, Some destination) \<Rightarrow>
                  (case copy_contents_from source access destination w1 of
                     (destination', w2, copy_result) \<Rightarrow>
                       (let p3 = p2\<lparr>bp_blocks := (bp_blocks p2)(new_block_id \<mapsto> destination')\<rparr>
                        in case copy_result of
                             Ok _ \<Rightarrow> cow_finish session_id index block_id new_block_id access p3 w2
                           | Err e \<Rightarrow>
                               (case pool_release new_block_id p3 w2 of (q, v, _) \<Rightarrow> (q, v, Err e))
                           | Panic \<Rightarrow> (p3, w2, Panic)))
              | _ \<Rightarrow> (case pool_release new_block_id p2 w1 of (q, v, _) \<Rightarrow> (q, v, Err InvalidShape))))"

definition copy_on_write_session_block ::
  "id_order \<Rightarrow> session_id \<Rightarrow> nat \<Rightarrow> block_pool \<Rightarrow> kv_world
     \<Rightarrow> block_pool \<times> kv_world \<times> (kv_cache_error, block_id) outcome" where
  "copy_on_write_session_block it session_id index p w =
     (case Option.bind (bp_sessions p session_id) (\<lambda>s. session_read_block s index) of
        None \<Rightarrow> (p, w, Err InvalidShape)
      | Some block_id \<Rightarrow>
          (case live_ref_count p block_id of
             None \<Rightarrow> (p, w, Err InvalidShape)
           | Some ref_count \<Rightarrow>
               if ref_count = 1
               then case touch_session_block session_id block_id p of
                      (p1, Ok _) \<Rightarrow> (p1, w, Ok block_id)
                    | (p1, Err e) \<Rightarrow> (p1, w, Err e)
                    | (p1, Panic) \<Rightarrow> (p1, w, Panic)
               else let (p1, w1) = (if bp_free_list p = []
                                    then evict_sessions_until_free it session_id p w else (p, w))
                    in case live_ref_count p1 block_id of
                         None \<Rightarrow> (p1, w1, Err InvalidShape)
                       | Some ref_count' \<Rightarrow>
                           if ref_count' = 1
                           then case touch_session_block session_id block_id p1 of
                                  (p2, Ok _) \<Rightarrow> (p2, w1, Ok block_id)
                                | (p2, Err e) \<Rightarrow> (p2, w1, Err e)
                                | (p2, Panic) \<Rightarrow> (p2, w1, Panic)
                           else cow_copy session_id index block_id p1 w1))"

end
