(* ===== verification/Block_Pool_Inv.thy ===== *)
theory Block_Pool_Inv
  imports Block_Pool
begin

text \<open>
  The invariant of the block pool and its preservation by every operation. Two ghost components
  make reference counting exact: \<open>ext b\<close> is the number of references to block \<open>b\<close> held outside
  the sessions (by callers of \<open>allocate\<close> and \<open>retain\<close>, or in flight inside an operation), and
  \<open>H\<close> is the multiset of storage handles held outside the pool (clones handed out by
  \<open>BlockPool::block\<close>). A block's reference count is the number of sessions owning it plus \<open>ext\<close>.
\<close>

section \<open>The invariant\<close>

definition owners :: "(session_id \<rightharpoonup> session_block_table) \<Rightarrow> block_id \<Rightarrow> nat" where
  "owners m b = card {s. \<exists>t. m s = Some t \<and> b \<in> sb_owned_blocks t}"

definition pool_handles :: "(block_id \<rightharpoonup> cache_block) \<Rightarrow> nat multiset" where
  "pool_handles blocks = image_mset (\<lambda>b. cb_storage (the (blocks b))) (mset_set (dom blocks))"

definition blocks_ok :: "block_pool \<Rightarrow> bool" where
  "blocks_ok p \<longleftrightarrow>
     finite (dom (bp_blocks p)) \<and>
     (\<forall>b blk. bp_blocks p b = Some blk \<longrightarrow> cb_id blk = b \<and> 0 < b) \<and>
     distinct (bp_free_list p) \<and>
     set (bp_free_list p) = {b. \<exists>blk. bp_blocks p b = Some blk \<and> cb_ref_count blk = 0}"

definition sessions_ok :: "block_pool \<Rightarrow> bool" where
  "sessions_ok p \<longleftrightarrow>
     finite (dom (bp_sessions p)) \<and>
     (\<forall>s t. bp_sessions p s = Some t \<longrightarrow>
        sb_session_id t = s \<and> session_wf t \<and> s < bp_next_session_id p) \<and>
     0 < bp_next_session_id p \<and> bp_next_session_id p \<le> u64_max"

definition refs_exact :: "(block_id \<Rightarrow> nat) \<Rightarrow> block_pool \<Rightarrow> bool" where
  "refs_exact ext p \<longleftrightarrow> (\<forall>b. ref_count_of p b = owners (bp_sessions p) b + ext b)"

definition storage_ok :: "nat multiset \<Rightarrow> block_pool \<Rightarrow> kv_world \<Rightarrow> bool" where
  "storage_ok H p w \<longleftrightarrow>
     arc_ok (kw_heap w) (pool_handles (bp_blocks p) + H) \<and>
     (\<forall>b blk. bp_blocks p b = Some blk \<longrightarrow> cache_block_wf w blk) \<and>
     (\<exists>c v. \<forall>b blk. bp_blocks p b = Some blk \<longrightarrow>
        cb_capacity_tokens blk = c \<and> cb_vector_len blk = v)"

definition pool_inv ::
  "(block_id \<Rightarrow> nat) \<Rightarrow> nat multiset \<Rightarrow> block_pool \<Rightarrow> kv_world \<Rightarrow> bool" where
  "pool_inv ext H p w \<longleftrightarrow> blocks_ok p \<and> sessions_ok p \<and> refs_exact ext p \<and> storage_ok H p w"

definition unsaturated :: "block_pool \<Rightarrow> bool" where
  "unsaturated p \<longleftrightarrow> (\<forall>b. ref_count_of p b < u64_max)"

section \<open>What the invariant does not look at\<close>

lemma pool_inv_frame [simp]:
  "pool_inv ext H (p\<lparr>bp_metrics := m\<rparr>) w = pool_inv ext H p w"
  "pool_inv ext H (p\<lparr>bp_access_clock := c\<rparr>) w = pool_inv ext H p w"
  "pool_inv ext H (p\<lparr>bp_prefixes := f\<rparr>) w = pool_inv ext H p w"
  by (simp_all add: pool_inv_def blocks_ok_def sessions_ok_def refs_exact_def storage_ok_def
      ref_count_of_def)

lemma pool_inv_cong:
  assumes "bp_blocks p = bp_blocks q" and "bp_free_list p = bp_free_list q"
    and "bp_sessions p = bp_sessions q" and "bp_next_session_id p = bp_next_session_id q"
  shows "pool_inv ext H p w = pool_inv ext H q w"
  using assms by (simp add: pool_inv_def blocks_ok_def sessions_ok_def refs_exact_def storage_ok_def
      ref_count_of_def)

lemma ref_count_of_frame [simp]:
  "ref_count_of (p\<lparr>bp_metrics := m\<rparr>) = ref_count_of p"
  "ref_count_of (p\<lparr>bp_access_clock := c\<rparr>) = ref_count_of p"
  "ref_count_of (p\<lparr>bp_prefixes := f\<rparr>) = ref_count_of p"
  "ref_count_of (p\<lparr>bp_sessions := s\<rparr>) = ref_count_of p"
  "ref_count_of (p\<lparr>bp_free_list := l\<rparr>) = ref_count_of p"
  by (simp_all add: fun_eq_iff ref_count_of_def)

lemma inv_parts_frame [simp]:
  "blocks_ok (p\<lparr>bp_sessions := s\<rparr>) = blocks_ok p"
  "storage_ok H (p\<lparr>bp_sessions := s\<rparr>) w = storage_ok H p w"
  "sessions_ok (p\<lparr>bp_blocks := m\<rparr>) = sessions_ok p"
  "sessions_ok (p\<lparr>bp_free_list := l\<rparr>) = sessions_ok p"
  "storage_ok H (p\<lparr>bp_free_list := l\<rparr>) w = storage_ok H p w"
  by (simp_all add: blocks_ok_def storage_ok_def sessions_ok_def)

lemma sessions_ok_update:
  assumes "sessions_ok p" and "\<And>t. x = Some t \<Longrightarrow>
    session_wf t \<and> sb_session_id t = s \<and> s < bp_next_session_id p"
  shows "sessions_ok (p\<lparr>bp_sessions := (bp_sessions p)(s := x)\<rparr>)"
  using assms by (cases x) (auto simp: sessions_ok_def)

lemma next_access_eq: "next_access p = (p\<lparr>bp_access_clock := sat_add (bp_access_clock p) 1\<rparr>,
    sat_add (bp_access_clock p) 1)"
  by (simp add: next_access_def Let_def)

lemma record_pool_residency_frame [simp]:
  "pool_inv ext H (record_pool_residency p) w = pool_inv ext H p w"
  "ref_count_of (record_pool_residency p) = ref_count_of p"
  "bp_sessions (record_pool_residency p) = bp_sessions p"
  "bp_blocks (record_pool_residency p) = bp_blocks p"
  "bp_free_list (record_pool_residency p) = bp_free_list p"
  "bp_prefixes (record_pool_residency p) = bp_prefixes p"
  "bp_next_session_id (record_pool_residency p) = bp_next_session_id p"
  by (simp_all add: record_pool_residency_def)

lemma pool_invD:
  assumes "pool_inv ext H p w"
  shows "finite (dom (bp_blocks p))" and "finite (dom (bp_sessions p))"
    and "distinct (bp_free_list p)"
    and "bp_blocks p b = Some blk \<Longrightarrow> cb_id blk = b \<and> 0 < b"
    and "bp_blocks p b = Some blk \<Longrightarrow> cache_block_wf w blk"
    and "b \<in> set (bp_free_list p) \<longleftrightarrow> (\<exists>blk. bp_blocks p b = Some blk \<and> cb_ref_count blk = 0)"
    and "bp_sessions p s = Some t \<Longrightarrow> sb_session_id t = s \<and> session_wf t \<and> 0 < s"
    and "ref_count_of p b = owners (bp_sessions p) b + ext b"
  using assms
  by (auto simp: pool_inv_def blocks_ok_def sessions_ok_def storage_ok_def refs_exact_def session_wf_def)

section \<open>Owners\<close>

lemma owners_fun_upd:
  assumes "finite (dom m)"
  shows "owners (m(s := x)) b =
    card {s'. s' \<noteq> s \<and> (\<exists>t. m s' = Some t \<and> b \<in> sb_owned_blocks t)} +
    (case x of None \<Rightarrow> 0 | Some t \<Rightarrow> of_bool (b \<in> sb_owned_blocks t))"
proof -
  let ?S = "{s'. s' \<noteq> s \<and> (\<exists>t. m s' = Some t \<and> b \<in> sb_owned_blocks t)}"
  have fin: "finite ?S" by (rule finite_subset [OF _ assms]) auto
  have "{s'. \<exists>t. (m(s := x)) s' = Some t \<and> b \<in> sb_owned_blocks t} =
      (if \<exists>t. x = Some t \<and> b \<in> sb_owned_blocks t then insert s ?S else ?S)"
    by auto
  with fin show ?thesis by (auto simp: owners_def split: option.splits)
qed

lemma owners_split:
  assumes "finite (dom m)"
  shows "owners m b =
    card {s'. s' \<noteq> s \<and> (\<exists>t. m s' = Some t \<and> b \<in> sb_owned_blocks t)} +
    (case m s of None \<Rightarrow> 0 | Some t \<Rightarrow> of_bool (b \<in> sb_owned_blocks t))"
  using owners_fun_upd [OF assms, of s "m s" b] by simp

lemma owner_pos:
  assumes "finite (dom m)" and "m s = Some t" and "b \<in> sb_owned_blocks t"
  shows "0 < owners m b"
  using owners_split [OF assms(1), of b s] assms(2,3) by simp

lemma session_update_inv:
  assumes inv: "pool_inv ext H p w" and t': "session_wf t'" "sb_session_id t' = s"
    and s: "s < bp_next_session_id p"
    and ext': "\<And>b. ext' b + of_bool (b \<in> sb_owned_blocks t') =
      ext b + (case bp_sessions p s of None \<Rightarrow> 0 | Some t \<Rightarrow> of_bool (b \<in> sb_owned_blocks t))"
  shows "pool_inv ext' H (p\<lparr>bp_sessions := (bp_sessions p)(s \<mapsto> t')\<rparr>) w"
proof -
  have fin: "finite (dom (bp_sessions p))" using inv by (rule pool_invD)
  have "ref_count_of p b = owners ((bp_sessions p)(s \<mapsto> t')) b + ext' b" for b
    using inv ext' [of b] owners_fun_upd [OF fin, of s "Some t'" b] owners_split [OF fin, of b s]
    by (simp add: pool_inv_def refs_exact_def)
  moreover have "sessions_ok (p\<lparr>bp_sessions := (bp_sessions p)(s \<mapsto> t')\<rparr>)"
    by (rule sessions_ok_update) (use inv t' s in \<open>simp_all add: pool_inv_def\<close>)
  ultimately show ?thesis using inv by (simp add: pool_inv_def refs_exact_def)
qed

lemma session_remove_inv:
  assumes inv: "pool_inv ext H p w"
    and ext': "\<And>b. ext' b =
      ext b + (case bp_sessions p s of None \<Rightarrow> 0 | Some t \<Rightarrow> of_bool (b \<in> sb_owned_blocks t))"
  shows "pool_inv ext' H (p\<lparr>bp_sessions := (bp_sessions p)(s := None)\<rparr>) w"
proof -
  have fin: "finite (dom (bp_sessions p))" using inv by (rule pool_invD)
  have "ref_count_of p b = owners ((bp_sessions p)(s := None)) b + ext' b" for b
    using inv ext' [of b] owners_fun_upd [OF fin, of s None b] owners_split [OF fin, of b s]
    by (simp add: pool_inv_def refs_exact_def)
  moreover have "sessions_ok (p\<lparr>bp_sessions := (bp_sessions p)(s := None)\<rparr>)"
    by (rule sessions_ok_update) (use inv in \<open>simp_all add: pool_inv_def\<close>)
  ultimately show ?thesis using inv by (simp add: pool_inv_def refs_exact_def)
qed

lemma session_touch_inv:
  assumes "pool_inv ext H p w" and "bp_sessions p s = Some t"
  shows "pool_inv ext H (p\<lparr>bp_sessions := (bp_sessions p)(s \<mapsto> session_touch a t)\<rparr>) w"
  by (rule session_update_inv [OF assms(1)])
     (use assms in \<open>auto simp: pool_inv_def sessions_ok_def session_touch_def session_wf_def\<close>)

section \<open>Updating one block\<close>

lemma pool_handles_split:
  assumes "finite (dom m)" and "m b = Some blk"
  shows "pool_handles m = add_mset (cb_storage blk) (pool_handles (m(b := None)))"
    and "pool_handles (m(b \<mapsto> blk')) = add_mset (cb_storage blk') (pool_handles (m(b := None)))"
proof -
  let ?D = "dom m - {b}"
  have D: "finite ?D" "b \<notin> ?D" using assms(1) by auto
  have dom: "dom m = insert b ?D" "dom (m(b \<mapsto> blk')) = insert b ?D" "dom (m(b := None)) = ?D"
    using assms(2) by auto
  have eq: "image_mset (\<lambda>c. cb_storage (the ((m(b := x)) c))) (mset_set ?D) =
      image_mset (\<lambda>c. cb_storage (the (m c))) (mset_set ?D)" for x
    using D(1) by (intro image_mset_cong) auto
  show "pool_handles m = add_mset (cb_storage blk) (pool_handles (m(b := None)))"
  proof -
    have "mset_set (dom m) = add_mset b (mset_set ?D)"
      using D dom(1) by (metis mset_set.insert)
    then show ?thesis using assms(2) eq [of None] unfolding pool_handles_def dom(3) by simp
  qed
  show "pool_handles (m(b \<mapsto> blk')) = add_mset (cb_storage blk') (pool_handles (m(b := None)))"
  proof -
    have "mset_set (dom (m(b \<mapsto> blk'))) = add_mset b (mset_set ?D)"
      using D dom(2) by (metis mset_set.insert)
    then show ?thesis
      using eq [of None] eq [of "Some blk'"] unfolding pool_handles_def dom(3) by simp
  qed
qed

lemma pool_handles_member:
  "finite (dom m) \<Longrightarrow> m b = Some blk \<Longrightarrow> cb_storage blk \<in># pool_handles m"
  using pool_handles_split(1) by fastforce

lemma other_handle:
  assumes "finite (dom m)" and "m c = Some blk" and "c \<noteq> b"
  shows "cb_storage blk \<in># pool_handles (m(b := None))"
  using assms by (intro pool_handles_member [of _ c]) auto

lemma wf_same_get:
  assumes "arc_get (kw_heap w') (cb_storage blk) = arc_get (kw_heap w) (cb_storage blk)"
  shows "cache_block_wf w' blk = cache_block_wf w blk" and "block_rows w' blk = block_rows w blk"
  using assms by (simp_all add: cache_block_wf_def block_storage_def block_rows_def)

text \<open>The storage part of the invariant for an operation that rewrites one block through its own
  handle and leaves every other handle's view alone.\<close>

lemma storage_ok_update:
  assumes st: "storage_ok H p w" and fin: "finite (dom (bp_blocks p))"
    and b: "bp_blocks p b = Some blk"
    and wf: "cache_block_wf w' blk'"
    and cap: "cb_capacity_tokens blk' = cb_capacity_tokens blk" "cb_vector_len blk' = cb_vector_len blk"
    and ok: "arc_ok (kw_heap w')
      (add_mset (cb_storage blk') (pool_handles ((bp_blocks p)(b := None)) + H))"
    and get: "\<forall>c \<in># pool_handles ((bp_blocks p)(b := None)) + H.
      arc_get (kw_heap w') c = arc_get (kw_heap w) c"
  shows "storage_ok H (p\<lparr>bp_blocks := (bp_blocks p)(b \<mapsto> blk')\<rparr>) w'"
proof -
  have others: "cache_block_wf w' c" if "bp_blocks p x = Some c" "x \<noteq> b" for x c
  proof -
    have "cb_storage c \<in># pool_handles ((bp_blocks p)(b := None))"
      using fin that by (rule other_handle)
    with get have eq: "arc_get (kw_heap w') (cb_storage c) = arc_get (kw_heap w) (cb_storage c)" by simp
    have "cache_block_wf w c" using st that(1) unfolding storage_ok_def by blast
    then show ?thesis using wf_same_get(1) [OF eq] by blast
  qed
  have "\<forall>x c. ((bp_blocks p)(b \<mapsto> blk')) x = Some c \<longrightarrow> cache_block_wf w' c"
    using wf others by (metis fun_upd_other fun_upd_same option.inject)
  moreover have "\<exists>c v. \<forall>x blk. ((bp_blocks p)(b \<mapsto> blk')) x = Some blk \<longrightarrow>
      cb_capacity_tokens blk = c \<and> cb_vector_len blk = v"
  proof -
    obtain c v where u: "\<And>x blk. bp_blocks p x = Some blk \<Longrightarrow>
        cb_capacity_tokens blk = c \<and> cb_vector_len blk = v"
      using st unfolding storage_ok_def by blast
    have "cb_capacity_tokens d = c \<and> cb_vector_len d = v"
      if "((bp_blocks p)(b \<mapsto> blk')) x = Some d" for x d
      using that u [OF b] u [of x d] cap by (cases "x = b") auto
    then show ?thesis by blast
  qed
  moreover have "arc_ok (kw_heap w') (pool_handles ((bp_blocks p)(b \<mapsto> blk')) + H)"
    using ok by (simp add: pool_handles_split(2) [OF fin b])
  ultimately show ?thesis by (simp add: storage_ok_def)
qed

text \<open>The handle multiset as the block operations want it.\<close>

lemma pool_arc_ok:
  assumes "pool_inv ext H p w" and "bp_blocks p b = Some blk"
  shows "arc_ok (kw_heap w) (add_mset (cb_storage blk) (pool_handles ((bp_blocks p)(b := None)) + H))"
  using assms pool_handles_split(1) [OF pool_invD(1) [OF assms(1)] assms(2)]
  by (simp add: pool_inv_def storage_ok_def)

text \<open>A change of a block that keeps its identity, storage and count.\<close>

lemma block_meta_inv:
  assumes inv: "pool_inv ext H p w" and b: "bp_blocks p b = Some blk"
    and same: "cb_id blk' = cb_id blk" "cb_ref_count blk' = cb_ref_count blk"
      "cb_storage blk' = cb_storage blk" "cb_capacity_tokens blk' = cb_capacity_tokens blk"
      "cb_vector_len blk' = cb_vector_len blk" "cb_token_count blk' = cb_token_count blk"
  shows "pool_inv ext H (p\<lparr>bp_blocks := (bp_blocks p)(b \<mapsto> blk')\<rparr>) w"
proof -
  note D = pool_invD [OF inv]
  have wf: "cache_block_wf w blk'"
    using D(5) [OF b] same by (simp add: cache_block_wf_def cache_block_shape_def block_storage_def)
  have "storage_ok H (p\<lparr>bp_blocks := (bp_blocks p)(b \<mapsto> blk')\<rparr>) w"
    by (rule storage_ok_update [OF _ D(1) b wf])
       (use inv same pool_arc_ok [OF inv b] in \<open>auto simp: pool_inv_def\<close>)
  moreover have "ref_count_of (p\<lparr>bp_blocks := (bp_blocks p)(b \<mapsto> blk')\<rparr>) = ref_count_of p"
    using b same by (auto simp: fun_eq_iff ref_count_of_def)
  ultimately show ?thesis
    using inv b same by (auto simp: pool_inv_def blocks_ok_def sessions_ok_def refs_exact_def)
qed

lemma touch_block_inv:
  "pool_inv ext H p w \<Longrightarrow> bp_blocks p b = Some blk \<Longrightarrow>
   pool_inv ext H (p\<lparr>bp_blocks := (bp_blocks p)(b \<mapsto> cb_touch a blk)\<rparr>) w"
  by (rule block_meta_inv) (simp_all add: cb_touch_def)

lemma increment_inv:
  assumes inv: "pool_inv ext H p w" and b: "bp_blocks p b = Some blk"
    and live: "0 < cb_ref_count blk" and unsat: "unsaturated p"
  shows "pool_inv (ext(b := Suc (ext b))) H
    (p\<lparr>bp_blocks := (bp_blocks p)(b \<mapsto> increment_ref_count blk)\<rparr>) w"
proof -
  let ?blk = "increment_ref_count blk" and ?p = "p\<lparr>bp_blocks := (bp_blocks p)(b \<mapsto> increment_ref_count blk)\<rparr>"
  note D = pool_invD [OF inv]
  have "cb_ref_count blk < u64_max" using unsat b unfolding unsaturated_def ref_count_of_def
    by (metis option.simps(5))
  then have rc: "cb_ref_count ?blk = Suc (cb_ref_count blk)"
    by (simp add: increment_ref_count_def sat_add_def)
  have wf: "cache_block_wf w ?blk"
    using D(5) [OF b] by (simp add: increment_ref_count_def cache_block_wf_def cache_block_shape_def
        block_storage_def)
  have "storage_ok H ?p w"
    by (rule storage_ok_update [OF _ D(1) b wf])
       (use inv pool_arc_ok [OF inv b] in \<open>auto simp: pool_inv_def increment_ref_count_def\<close>)
  moreover have "blocks_ok ?p"
    using inv b rc live by (auto simp: pool_inv_def blocks_ok_def increment_ref_count_def)
  moreover have "refs_exact (ext(b := Suc (ext b))) ?p"
  proof -
    have "ref_count_of ?p c = (if c = b then Suc (ref_count_of p b) else ref_count_of p c)" for c
      using b rc by (simp add: ref_count_of_def)
    with D(8) show ?thesis by (simp add: refs_exact_def)
  qed
  ultimately show ?thesis using inv by (simp add: pool_inv_def sessions_ok_def)
qed

section \<open>Frames\<close>

text \<open>An operation that changes no block outside \<open>B\<close>, neither its record nor the rows it reads,
  and nothing an outside handle reads.\<close>

definition touches_only ::
  "block_id set \<Rightarrow> nat multiset \<Rightarrow> block_pool \<Rightarrow> kv_world \<Rightarrow> block_pool \<Rightarrow> kv_world \<Rightarrow> bool" where
  "touches_only B H p w p' w' \<longleftrightarrow>
     dom (bp_blocks p') = dom (bp_blocks p) \<and>
     (\<forall>c. c \<notin> B \<longrightarrow> bp_blocks p' c = bp_blocks p c \<and>
        (\<forall>blk. bp_blocks p c = Some blk \<longrightarrow> block_rows w' blk = block_rows w blk)) \<and>
     (\<forall>a \<in># H. arc_get (kw_heap w') a = arc_get (kw_heap w) a)"

lemma touches_only_refl [simp]: "touches_only B H p w p w"
  by (simp add: touches_only_def)

lemma touches_only_trans:
  assumes "touches_only B H p w q v" and "touches_only C H q v r u"
  shows "touches_only (B \<union> C) H p w r u"
  using assms unfolding touches_only_def by (simp) metis

lemma touches_only_mono: "touches_only B H p w q v \<Longrightarrow> B \<subseteq> C \<Longrightarrow> touches_only C H p w q v"
  unfolding touches_only_def by blast

lemma touches_only_frame [simp]:
  "touches_only B H p w (q\<lparr>bp_metrics := m\<rparr>) v = touches_only B H p w q v"
  "touches_only B H p w (q\<lparr>bp_sessions := s\<rparr>) v = touches_only B H p w q v"
  "touches_only B H (p\<lparr>bp_metrics := m\<rparr>) w q v = touches_only B H p w q v"
  "touches_only B H (p\<lparr>bp_sessions := s\<rparr>) w q v = touches_only B H p w q v"
  "touches_only B H (p\<lparr>bp_access_clock := k\<rparr>) w q v = touches_only B H p w q v"
  "touches_only B H p w (q\<lparr>bp_access_clock := k\<rparr>) v = touches_only B H p w q v"
  by (simp_all add: touches_only_def)

lemma touches_only_block:
  assumes fin: "finite (dom (bp_blocks p))" and b: "bp_blocks p b = Some blk"
    and get: "\<forall>c \<in># pool_handles ((bp_blocks p)(b := None)) + H.
      arc_get (kw_heap w') c = arc_get (kw_heap w) c"
    and p': "bp_blocks p' = (bp_blocks p)(b \<mapsto> blk')"
  shows "touches_only {b} H p w p' w'"
proof -
  have "block_rows w' c = block_rows w c" if "x \<noteq> b" "bp_blocks p x = Some c" for x c
  proof -
    have "cb_storage c \<in># pool_handles ((bp_blocks p)(b := None))"
      using fin that(2,1) by (rule other_handle)
    with get have "arc_get (kw_heap w') (cb_storage c) = arc_get (kw_heap w) (cb_storage c)" by simp
    then show ?thesis by (rule wf_same_get(2))
  qed
  with b get show ?thesis by (auto simp: touches_only_def p')
qed

section \<open>Allocate, retain, release\<close>

lemma pool_allocate_empty: "bp_free_list p = [] \<Longrightarrow> pool_allocate p w = (p, w, None)"
  by (simp add: pool_allocate_def)

lemma free_block_unreferenced:
  assumes "pool_inv ext H p w" and "b \<in> set (bp_free_list p)"
  shows "ref_count_of p b = 0" and "ext b = 0"
    and "bp_sessions p s = Some t \<Longrightarrow> b \<notin> sb_owned_blocks t"
proof -
  note D = pool_invD [OF assms(1)]
  show z: "ref_count_of p b = 0" using D(6) assms(2) by (auto simp: ref_count_of_def)
  with D(8) [of b] show "ext b = 0" by simp
  show "b \<notin> sb_owned_blocks t" if t: "bp_sessions p s = Some t"
  proof
    assume "b \<in> sb_owned_blocks t"
    with D(2) t have "0 < owners (bp_sessions p) b" by (rule owner_pos)
    with z D(8) [of b] show False by simp
  qed
qed

lemma pool_allocate_inv:
  assumes inv: "pool_inv ext H p w" and ne: "bp_free_list p \<noteq> []"
    and res: "pool_allocate p w = (p', w', r)"
  obtains b blk where "r = Some b" and "b = last (bp_free_list p)"
    and "pool_inv (ext(b := 1)) H p' w'" and "touches_only {b} H p w p' w'"
    and "bp_blocks p' b = Some blk" and "cb_ref_count blk = 1" and "block_rows w' blk = []"
    and "cb_content_hash blk = None" and "cb_token_count blk = 0"
    and "bp_sessions p' = bp_sessions p" and "bp_next_session_id p' = bp_next_session_id p"
    and "bp_free_list p' = butlast (bp_free_list p)" and "bp_prefixes p' = bp_prefixes p"
proof -
  let ?b = "last (bp_free_list p)" and ?t = "sat_add (bp_access_clock p) 1"
  note D = pool_invD [OF inv]
  have mem: "?b \<in> set (bp_free_list p)" using ne by simp
  then obtain blk where blk: "bp_blocks p ?b = Some blk" "cb_ref_count blk = 0"
    using D(6) by blast
  obtain blk' v where rs: "reset_for_allocation ?t blk w = (blk', v)" by fastforce
  note R = reset_for_allocation_ok [OF D(5) [OF blk(1)] pool_arc_ok [OF inv blk(1)] rs]
  from res blk(1) rs ne have p': "p' = record_pool_residency
      (p\<lparr>bp_free_list := butlast (bp_free_list p), bp_access_clock := ?t,
         bp_blocks := (bp_blocks p)(?b \<mapsto> blk'),
         bp_metrics := record_refcount (cb_ref_count blk') (bp_metrics p)\<rparr>)"
    and r: "r = Some ?b" and w': "w' = v"
    by (auto simp: pool_allocate_def next_access_eq Let_def)
  let ?q = "p\<lparr>bp_blocks := (bp_blocks p)(?b \<mapsto> blk'), bp_free_list := butlast (bp_free_list p)\<rparr>"
  have inv_eq: "pool_inv e H p' w' = pool_inv e H ?q v" for e
    unfolding w' by (rule pool_inv_cong) (simp_all add: p')
  have zero: "ext ?b = 0" using free_block_unreferenced [OF inv mem] by simp
  have own0: "owners (bp_sessions p) ?b = 0"
    using free_block_unreferenced [OF inv mem] D(8) [of ?b] by simp
  have st: "storage_ok H ?q v"
    using storage_ok_update [OF _ D(1) blk(1) R(1) R(9,10) R(4,5)] inv by (simp add: pool_inv_def)
  have bl: "blocks_ok ?q"
    using inv blk R(6,7) set_butlast_distinct [OF D(3) ne] D(3) D(4) [OF blk(1)]
    by (auto simp: pool_inv_def blocks_ok_def distinct_butlast)
  have rc: "ref_count_of ?q c = (if c = ?b then 1 else ref_count_of p c)" for c
    using R(6) by (simp add: ref_count_of_def)
  have re: "refs_exact (ext(?b := 1)) ?q"
  proof -
    have "ref_count_of ?q c = owners (bp_sessions p) c + (ext(?b := 1)) c" for c
      unfolding rc using D(8) [of c] own0 by simp
    then show ?thesis by (simp add: refs_exact_def)
  qed
  show thesis
  proof (rule that [of ?b blk'])
    show "pool_inv (ext(?b := 1)) H p' w'"
      unfolding inv_eq using inv st bl re by (simp add: pool_inv_def)
    show "touches_only {?b} H p w p' w'"
      by (rule touches_only_block [OF D(1) blk(1)]) (use R(5) in \<open>simp_all add: p' w'\<close>)
  qed (use R r in \<open>simp_all add: p' w' record_pool_residency_def\<close>)
qed

lemma live_block:
  assumes "0 < ref_count_of p b"
  obtains blk where "bp_blocks p b = Some blk" and "ref_count_of p b = cb_ref_count blk"
  using assms by (auto simp: ref_count_of_def split: option.splits)

lemma pool_release_inv:
  assumes inv: "pool_inv ext H p w" and held: "0 < ext b"
    and res: "pool_release b p w = (p', w', r)"
  shows "r" and "pool_inv (ext(b := ext b - 1)) H p' w'" and "touches_only {b} H p w p' w'"
    and "bp_sessions p' = bp_sessions p" and "bp_next_session_id p' = bp_next_session_id p"
    and "bp_prefixes p' = bp_prefixes p"
    and "bp_free_list p' = bp_free_list p @ (if ref_count_of p b = 1 then [b] else [])"
    and "ref_count_of p' = (ref_count_of p)(b := ref_count_of p b - 1)"
proof -
  note D = pool_invD [OF inv]
  have "0 < ref_count_of p b" using D(8) [of b] held by simp
  then obtain blk where blk: "bp_blocks p b = Some blk" "ref_count_of p b = cb_ref_count blk"
    by (rule live_block)
  have pos: "0 < cb_ref_count blk" using blk \<open>0 < ref_count_of p b\<close> by simp
  let ?d = "decrement_ref_count blk"
  have d: "cb_ref_count ?d = cb_ref_count blk - 1" "cb_storage ?d = cb_storage blk"
    "cb_id ?d = cb_id blk" "cb_capacity_tokens ?d = cb_capacity_tokens blk"
    "cb_vector_len ?d = cb_vector_len blk"
    by (simp_all add: decrement_ref_count_def sat_sub_def)
  have dwf: "cache_block_wf w ?d"
    using D(5) [OF blk(1)] by (simp add: decrement_ref_count_def cache_block_wf_def
        cache_block_shape_def block_storage_def)
  have aok: "arc_ok (kw_heap w) (add_mset (cb_storage ?d) (pool_handles ((bp_blocks p)(b := None)) + H))"
    using pool_arc_ok [OF inv blk(1)] by (simp add: d)
  obtain blk' where k: "p' = p\<lparr>bp_blocks := (bp_blocks p)(b \<mapsto> blk'),
        bp_free_list := bp_free_list p @ (if ref_count_of p b = 1 then [b] else [])\<rparr>"
      "cb_ref_count blk' = cb_ref_count blk - 1" "cb_id blk' = cb_id blk" "r"
      "cache_block_wf w' blk'" "cb_capacity_tokens blk' = cb_capacity_tokens blk"
      "cb_vector_len blk' = cb_vector_len blk"
      "arc_ok (kw_heap w') (add_mset (cb_storage blk') (pool_handles ((bp_blocks p)(b := None)) + H))"
      "\<forall>c \<in># pool_handles ((bp_blocks p)(b := None)) + H.
         arc_get (kw_heap w') c = arc_get (kw_heap w) c"
  proof (cases "cb_ref_count ?d = 0")
    case True
    obtain blk2 v where c: "cache_block_clear ?d w = (blk2, v)" by fastforce
    note C = cache_block_clear_ok [OF dwf aok c]
    have f: "cb_ref_count blk2 = 0" "cb_id blk2 = cb_id ?d"
      "cb_capacity_tokens blk2 = cb_capacity_tokens ?d" "cb_vector_len blk2 = cb_vector_len ?d"
      by (subst C(5), simp)+
    from True res blk pos c d(1) show thesis
      by (intro that [of blk2]) (use C f d in \<open>auto simp: pool_release_def Let_def\<close>)
  next
    case False
    from False res blk pos d(1) show thesis
      by (intro that [of ?d]) (use dwf aok d in \<open>auto simp: pool_release_def Let_def\<close>)
  qed
  have st: "storage_ok H p' w'"
    using storage_ok_update [OF _ D(1) blk(1) k(5,6,7,8,9)] inv by (simp add: k(1) pool_inv_def)
  have rc: "ref_count_of p' c = (if c = b then ref_count_of p b - 1 else ref_count_of p c)" for c
    using k(2) blk unfolding k(1) by (simp add: ref_count_of_def)
  have bl: "blocks_ok p'"
    using inv blk pos k(2,3) by (auto simp: k(1) pool_inv_def blocks_ok_def)
  have re: "refs_exact (ext(b := ext b - 1)) p'"
  proof -
    have "bp_sessions p' = bp_sessions p" by (simp add: k(1))
    then show ?thesis using D(8) held unfolding refs_exact_def rc by simp
  qed
  show "pool_inv (ext(b := ext b - 1)) H p' w'"
    using inv st bl re by (simp add: pool_inv_def k(1) sessions_ok_def)
  show "touches_only {b} H p w p' w'"
    by (rule touches_only_block [OF D(1) blk(1) k(9)]) (simp add: k(1))
  show "r" by fact
  show "bp_sessions p' = bp_sessions p" "bp_next_session_id p' = bp_next_session_id p"
    "bp_prefixes p' = bp_prefixes p"
    "bp_free_list p' = bp_free_list p @ (if ref_count_of p b = 1 then [b] else [])"
    by (simp_all add: k(1))
  show "ref_count_of p' = (ref_count_of p)(b := ref_count_of p b - 1)"
    by (simp add: fun_eq_iff rc)
qed

lemma pool_retain_inv:
  assumes inv: "pool_inv ext H p w" and unsat: "unsaturated p"
    and res: "pool_retain b p w = (p', r)"
  shows "pool_inv (if r then ext(b := Suc (ext b)) else ext) H p' w"
    and "r \<longleftrightarrow> 0 < ref_count_of p b"
    and "r \<Longrightarrow> ref_count_of p' = (ref_count_of p)(b := Suc (ref_count_of p b))"
    and "\<not> r \<Longrightarrow> p' = p"
proof -
  have *: "pool_inv (if r then ext(b := Suc (ext b)) else ext) H p' w \<and>
      (r \<longleftrightarrow> 0 < ref_count_of p b) \<and>
      (r \<longrightarrow> ref_count_of p' = (ref_count_of p)(b := Suc (ref_count_of p b))) \<and> (\<not> r \<longrightarrow> p' = p)"
  proof (cases "0 < ref_count_of p b")
    case True
    then obtain blk where blk: "bp_blocks p b = Some blk" "ref_count_of p b = cb_ref_count blk"
      by (rule live_block)
    have "ref_count_of p b < u64_max" using unsat by (simp add: unsaturated_def)
    then have "cb_ref_count (increment_ref_count blk) = Suc (ref_count_of p b)"
      using blk(2) by (simp add: increment_ref_count_def sat_add_def)
    then have rc: "ref_count_of (p\<lparr>bp_blocks := (bp_blocks p)(b \<mapsto> increment_ref_count blk)\<rparr>) =
        (ref_count_of p)(b := Suc (ref_count_of p b))"
      by (auto simp: ref_count_of_def fun_eq_iff)
    have p': "p' = p\<lparr>bp_blocks := (bp_blocks p)(b \<mapsto> increment_ref_count blk),
        bp_metrics := bp_metrics p'\<rparr>" and r: "r"
      using res blk True by (auto simp: pool_retain_def Let_def)
    have live: "0 < cb_ref_count blk" using blk True by simp
    have "pool_inv (ext(b := Suc (ext b))) H p' w"
      using increment_inv [OF inv blk(1) live unsat] by (subst p') simp
    moreover have "ref_count_of p' = (ref_count_of p)(b := Suc (ref_count_of p b))"
      using rc by (subst p') simp
    ultimately show ?thesis using r True by simp
  next
    case False
    then show ?thesis using res inv
      by (auto simp: pool_retain_def ref_count_of_def split: option.splits if_splits)
  qed
  then show "pool_inv (if r then ext(b := Suc (ext b)) else ext) H p' w"
    "r \<longleftrightarrow> 0 < ref_count_of p b"
    "r \<Longrightarrow> ref_count_of p' = (ref_count_of p)(b := Suc (ref_count_of p b))" "\<not> r \<Longrightarrow> p' = p"
    by blast+
qed

section \<open>Sessions\<close>

lemma bound_session:
  assumes "pool_inv ext H p w" and "bp_sessions p s = Some t"
  shows "s < bp_next_session_id p"
  using assms by (auto simp: pool_inv_def sessions_ok_def)

lemma create_session_inv:
  assumes inv: "pool_inv ext H p w" and res: "create_session p = (p', r)"
  shows "pool_inv ext H p' w" and "ref_count_of p' = ref_count_of p" and "bp_blocks p' = bp_blocks p"
    and "bp_next_session_id p < u64_max \<Longrightarrow> r = Ok (bp_next_session_id p) \<and>
      bp_sessions p (bp_next_session_id p) = None \<and>
      (\<exists>t. bp_sessions p' = (bp_sessions p)(bp_next_session_id p \<mapsto> t) \<and> session_is_empty t)"
    and "\<not> bp_next_session_id p < u64_max \<Longrightarrow> r = Err InvalidShape \<and> bp_sessions p' = bp_sessions p"
proof -
  let ?n = "bp_next_session_id p" and ?c = "sat_add (bp_access_clock p) 1"
  have n: "0 < ?n" "?n \<le> u64_max" using inv by (simp_all add: pool_inv_def sessions_ok_def)
  have fresh: "bp_sessions p ?n = None"
    using bound_session [OF inv, of ?n] by (cases "bp_sessions p ?n") auto
  have *: "pool_inv ext H p' w \<and> ref_count_of p' = ref_count_of p \<and> bp_blocks p' = bp_blocks p \<and>
      (?n < u64_max \<longrightarrow> r = Ok ?n \<and>
        (\<exists>t. bp_sessions p' = (bp_sessions p)(?n \<mapsto> t) \<and> session_is_empty t)) \<and>
      (\<not> ?n < u64_max \<longrightarrow> r = Err InvalidShape \<and> bp_sessions p' = bp_sessions p)"
  proof (cases "?n < u64_max")
    case True
    let ?t = "\<lparr>sb_session_id = ?n, sb_created_at = ?c, sb_last_access = ?c,
               sb_block_table = block_table_new, sb_owned_blocks = {}\<rparr>"
    from True n res have p': "p' = p\<lparr>bp_next_session_id := Suc ?n, bp_access_clock := ?c,
        bp_sessions := (bp_sessions p)(?n \<mapsto> ?t)\<rparr>" and r: "r = Ok ?n"
      by (auto simp: create_session_def next_session_id_def checked_add_def next_access_eq
          session_block_table_new_def Let_def)
    have inv1: "pool_inv ext H (p\<lparr>bp_next_session_id := Suc ?n\<rparr>) w"
      using inv True by (auto simp: pool_inv_def blocks_ok_def sessions_ok_def refs_exact_def
          storage_ok_def ref_count_of_def less_SucI)
    have "pool_inv ext H (p\<lparr>bp_next_session_id := Suc ?n,
        bp_sessions := (bp_sessions (p\<lparr>bp_next_session_id := Suc ?n\<rparr>))(?n \<mapsto> ?t)\<rparr>) w"
      by (rule session_update_inv [OF inv1])
         (use n fresh in \<open>simp_all add: session_wf_def block_table_new_def\<close>)
    then have "pool_inv ext H p' w"
      by (rule pool_inv_cong [THEN iffD1, rotated -1]) (simp_all add: p')
    then show ?thesis using r True
      by (auto simp: p' ref_count_of_def fun_eq_iff session_simps)
  next
    case False
    with n res inv show ?thesis
      by (auto simp: create_session_def next_session_id_def checked_add_def Let_def)
  qed
  with fresh show "pool_inv ext H p' w" "ref_count_of p' = ref_count_of p"
    "bp_blocks p' = bp_blocks p"
    "?n < u64_max \<Longrightarrow> r = Ok ?n \<and> bp_sessions p ?n = None \<and>
      (\<exists>t. bp_sessions p' = (bp_sessions p)(?n \<mapsto> t) \<and> session_is_empty t)"
    "\<not> ?n < u64_max \<Longrightarrow> r = Err InvalidShape \<and> bp_sessions p' = bp_sessions p"
    by blast+
qed

text \<open>Appending a live block to an existing session, with the reference that the session takes
  either counted anew (\<open>retain\<close>) or handed over by the caller (\<open>ext\<close>).\<close>

definition appended_session :: "nat \<Rightarrow> block_id \<Rightarrow> session_block_table \<Rightarrow> session_block_table" where
  "appended_session access b t = t\<lparr>sb_block_table := \<lparr>bt_blocks = bt_blocks (sb_block_table t) @ [b]\<rparr>,
     sb_owned_blocks := insert b (sb_owned_blocks t), sb_last_access := access\<rparr>"

lemma appended_session_wf:
  "session_wf t \<Longrightarrow> 0 < b \<Longrightarrow> session_wf (appended_session a b t)"
  by (auto simp: appended_session_def session_wf_def)

lemma append_retained_inv:
  assumes inv: "pool_inv ext H p w" and unsat: "unsaturated p"
    and t: "bp_sessions p s = Some t" and live: "0 < ref_count_of p b"
    and res: "append_block_to_session_inner s b True p w = (p', r)"
  shows "r = Ok ()" and "pool_inv ext H p' w"
    and "bp_sessions p' = (bp_sessions p)(s \<mapsto> appended_session (bp_access_clock p') b t)"
    and "ref_count_of p' =
      (ref_count_of p)(b := ref_count_of p b + of_bool (b \<notin> sb_owned_blocks t))"
    and "bp_next_session_id p' = bp_next_session_id p" and "bp_free_list p' = bp_free_list p"
    and "bp_prefixes p' = bp_prefixes p" and "dom (bp_blocks p') = dom (bp_blocks p)"
proof -
  obtain blk where blk: "bp_blocks p b = Some blk" "ref_count_of p b = cb_ref_count blk"
    using live by (rule live_block)
  note D = pool_invD [OF inv]
  have b0: "0 < b" using D(4) [OF blk(1)] by simp
  let ?a = "sat_add (bp_access_clock p) 1"
  let ?new = "b \<notin> sb_owned_blocks t"
  let ?blk = "if ?new then increment_ref_count blk else blk"
  let ?t = "appended_session ?a b t"
  have pos: "0 < cb_ref_count blk" using live blk(2) by simp
  have p': "p' = p\<lparr>bp_access_clock := ?a, bp_sessions := (bp_sessions p)(s \<mapsto> ?t),
      bp_blocks := (bp_blocks p)(b \<mapsto> cb_touch ?a ?blk), bp_metrics := bp_metrics p'\<rparr>"
    and r: "r = Ok ()"
    using res blk(1) pos t b0
    by (auto simp: append_block_to_session_inner_def next_access_eq append_owned_block_valid
        Let_def appended_session_def session_touch_def split: if_splits)
  have rcb: "cb_ref_count ?blk = cb_ref_count blk + of_bool ?new"
    using unsat blk(2) by (simp add: unsaturated_def increment_ref_count_def sat_add_def)
      (metis Suc_leI min.absorb1)
  let ?ext1 = "\<lambda>c. ext c + of_bool (c = b \<and> ?new)"
  let ?q1 = "p\<lparr>bp_blocks := (bp_blocks p)(b \<mapsto> ?blk)\<rparr>"
  have i1: "pool_inv ?ext1 H ?q1 w"
  proof (cases ?new)
    case True
    then have "?ext1 = ext(b := Suc (ext b))" by auto
    with True increment_inv [OF inv blk(1) pos unsat] show ?thesis by simp
  next
    case False
    then have "?ext1 = ext" by auto
    with False block_meta_inv [OF inv blk(1), of blk] show ?thesis by simp
  qed
  let ?q2 = "?q1\<lparr>bp_sessions := (bp_sessions ?q1)(s \<mapsto> ?t)\<rparr>"
  have i2: "pool_inv ext H ?q2 w"
  proof (rule session_update_inv [OF i1])
    show "session_wf ?t" using D(7) [OF t] b0 by (simp add: appended_session_wf)
    show "sb_session_id ?t = s" using D(7) [OF t] by (simp add: appended_session_def)
    show "s < bp_next_session_id ?q1" using bound_session [OF inv t] by simp
  qed (use t in \<open>auto simp: appended_session_def\<close>)
  have "bp_blocks ?q2 b = Some ?blk" by simp
  from touch_block_inv [OF i2 this, of ?a] show "pool_inv ext H p' w"
    by (rule pool_inv_cong [THEN iffD1, rotated -1]) (subst p', simp)+
  show "r = Ok ()" by fact
  show "bp_sessions p' = (bp_sessions p)(s \<mapsto> appended_session (bp_access_clock p') b t)"
  proof -
    have "bp_access_clock p' = ?a" by (subst p') simp
    moreover have "bp_sessions p' = (bp_sessions p)(s \<mapsto> ?t)" by (subst p') simp
    ultimately show ?thesis by simp
  qed
  show "ref_count_of p' = (ref_count_of p)(b := ref_count_of p b + of_bool ?new)"
    using rcb blk(2) by (subst p') (auto simp: fun_eq_iff ref_count_of_def cb_touch_def)
  show "bp_next_session_id p' = bp_next_session_id p" "bp_free_list p' = bp_free_list p"
    "bp_prefixes p' = bp_prefixes p"
    by (subst p', simp)+
  show "dom (bp_blocks p') = dom (bp_blocks p)" using blk(1) by (subst p') auto
qed

lemma append_handover_inv:
  assumes inv: "pool_inv ext H p w" and t: "bp_sessions p s = Some t"
    and ext: "0 < ext b" and new: "b \<notin> sb_owned_blocks t"
    and res: "append_block_to_session_inner s b False p w = (p', r)"
  shows "r = Ok ()" and "pool_inv (ext(b := ext b - 1)) H p' w"
    and "bp_sessions p' = (bp_sessions p)(s \<mapsto> appended_session (bp_access_clock p') b t)"
    and "ref_count_of p' = ref_count_of p" and "touches_only {b} H p w p' w"
    and "bp_free_list p' = bp_free_list p"
    and "\<exists>blk. bp_blocks p b = Some blk \<and> bp_blocks p' b = Some (cb_touch (bp_access_clock p') blk)"
proof -
  note D = pool_invD [OF inv]
  have "0 < ref_count_of p b" using D(8) [of b] ext by simp
  then obtain blk where blk: "bp_blocks p b = Some blk" "ref_count_of p b = cb_ref_count blk"
    by (rule live_block)
  have b0: "0 < b" using D(4) [OF blk(1)] by simp
  let ?a = "sat_add (bp_access_clock p) 1"
  let ?t = "appended_session ?a b t"
  have pos: "0 < cb_ref_count blk" using \<open>0 < ref_count_of p b\<close> blk(2) by simp
  have p': "p' = p\<lparr>bp_access_clock := ?a, bp_sessions := (bp_sessions p)(s \<mapsto> ?t),
      bp_blocks := (bp_blocks p)(b \<mapsto> cb_touch ?a blk)\<rparr>"
    and r: "r = Ok ()"
    using res blk(1) pos t b0
    by (auto simp: append_block_to_session_inner_def next_access_eq append_owned_block_valid
        Let_def appended_session_def session_touch_def)
  let ?q = "p\<lparr>bp_sessions := (bp_sessions p)(s \<mapsto> ?t)\<rparr>"
  have i1: "pool_inv (ext(b := ext b - 1)) H ?q w"
  proof (rule session_update_inv [OF inv])
    show "session_wf ?t" using D(7) [OF t] b0 by (simp add: appended_session_wf)
    show "sb_session_id ?t = s" using D(7) [OF t] by (simp add: appended_session_def)
    show "s < bp_next_session_id p" using inv t by (rule bound_session)
  qed (use t new ext in \<open>auto simp: appended_session_def\<close>)
  have "bp_blocks ?q b = Some blk" using blk(1) by simp
  from touch_block_inv [OF i1 this, of ?a] show "pool_inv (ext(b := ext b - 1)) H p' w"
    by (rule pool_inv_cong [THEN iffD1, rotated -1]) (simp_all add: p')
  show "r = Ok ()" by fact
  show "bp_sessions p' = (bp_sessions p)(s \<mapsto> appended_session (bp_access_clock p') b t)"
    "bp_free_list p' = bp_free_list p"
    by (simp_all add: p')
  show "ref_count_of p' = ref_count_of p"
    using blk by (auto simp: p' fun_eq_iff ref_count_of_def cb_touch_def)
  show "touches_only {b} H p w p' w" using blk(1) by (auto simp: p' touches_only_def)
  show "\<exists>blk. bp_blocks p b = Some blk \<and> bp_blocks p' b = Some (cb_touch (bp_access_clock p') blk)"
    using blk(1) by (simp add: p')
qed

lemma append_error_inv:
  assumes inv: "pool_inv ext H p w" and bad: "bp_sessions p s = None \<or> ref_count_of p b = 0"
    and res: "append_block_to_session_inner s b ret p w = (p', r)"
  shows "r = Err InvalidShape" and "pool_inv ext H p' w" and "ref_count_of p' = ref_count_of p"
    and "bp_sessions p' = bp_sessions p" and "bp_blocks p' = bp_blocks p"
  using assms
  by (auto simp: append_block_to_session_inner_def next_access_eq ref_count_of_def Let_def
      split: option.splits if_splits)

end
