(* ===== verification/Block_Pool_Ops.thy ===== *)
theory Block_Pool_Ops
  imports Block_Pool_Inv
begin

text \<open>
  The compound operations of the block pool: releasing a session, evicting least recently used
  sessions, allocating for a session, attaching a registered prefix and the copy-on-write split.
  Each is shown to keep the invariant of \<open>Block_Pool_Inv\<close>, with what it returns on every branch
  and which blocks it may change.
\<close>

section \<open>Releasing a session\<close>

lemma block_bookkeeping_rows [simp]:
  "block_rows w (cb_touch a b) = block_rows w b"
  "block_rows w (increment_ref_count b) = block_rows w b"
  "block_rows w (decrement_ref_count b) = block_rows w b"
  "cb_content_hash (cb_touch a b) = cb_content_hash b"
  "cb_content_hash (increment_ref_count b) = cb_content_hash b"
  by (auto simp: cb_touch_def increment_ref_count_def decrement_ref_count_def block_rows_def
      block_storage_def split: option.split)

text \<open>Releasing references leaves every block that is still referenced as it was, but for the
  count itself.\<close>

definition keeps_live :: "block_pool \<Rightarrow> kv_world \<Rightarrow> block_pool \<Rightarrow> kv_world \<Rightarrow> bool" where
  "keeps_live p w p' w' \<longleftrightarrow>
     (\<forall>b blk'. bp_blocks p' b = Some blk' \<and> 0 < cb_ref_count blk' \<longrightarrow>
        (\<exists>blk. bp_blocks p b = Some blk \<and> cb_ref_count blk' \<le> cb_ref_count blk \<and>
           blk' = blk\<lparr>cb_ref_count := cb_ref_count blk'\<rparr> \<and> block_rows w' blk' = block_rows w blk))"

lemma keeps_live_refl [simp]: "keeps_live p w p w"
  by (simp add: keeps_live_def)

lemma keeps_live_trans:
  assumes "keeps_live p w q v" and "keeps_live q v r u"
  shows "keeps_live p w r u"
  unfolding keeps_live_def
proof (intro allI impI)
  fix b blk'
  assume b: "bp_blocks r b = Some blk' \<and> 0 < cb_ref_count blk'"
  then obtain m where m: "bp_blocks q b = Some m" "cb_ref_count blk' \<le> cb_ref_count m"
    "blk' = m\<lparr>cb_ref_count := cb_ref_count blk'\<rparr>" "block_rows u blk' = block_rows v m"
    using assms(2) unfolding keeps_live_def by blast
  then have "0 < cb_ref_count m" using b by simp
  then obtain k where k: "bp_blocks p b = Some k" "cb_ref_count m \<le> cb_ref_count k"
    "m = k\<lparr>cb_ref_count := cb_ref_count m\<rparr>" "block_rows v m = block_rows w k"
    using assms(1) m(1) unfolding keeps_live_def by blast
  have "blk' = k\<lparr>cb_ref_count := cb_ref_count blk'\<rparr>"
    by (subst m(3), subst k(3)) simp
  with m k show "\<exists>blk. bp_blocks p b = Some blk \<and> cb_ref_count blk' \<le> cb_ref_count blk \<and>
      blk' = blk\<lparr>cb_ref_count := cb_ref_count blk'\<rparr> \<and> block_rows u blk' = block_rows w blk"
    by (metis le_trans)
qed

lemma keeps_live_frame [simp]:
  "keeps_live p w (q\<lparr>bp_metrics := m\<rparr>) v = keeps_live p w q v"
  "keeps_live (p\<lparr>bp_sessions := s\<rparr>) w q v = keeps_live p w q v"
  by (simp_all add: keeps_live_def)

lemma pool_release_keeps_live:
  assumes t: "touches_only {b} H p w p' w'" and res: "pool_release b p w = (p', w', r)"
  shows "keeps_live p w p' w'"
  unfolding keeps_live_def
proof (intro allI impI)
  fix c blk'
  assume c: "bp_blocks p' c = Some blk' \<and> 0 < cb_ref_count blk'"
  show "\<exists>blk. bp_blocks p c = Some blk \<and> cb_ref_count blk' \<le> cb_ref_count blk \<and>
      blk' = blk\<lparr>cb_ref_count := cb_ref_count blk'\<rparr> \<and> block_rows w' blk' = block_rows w blk"
  proof (cases "c = b")
    case True
    then obtain blk where blk: "bp_blocks p b = Some blk" "cb_ref_count blk \<noteq> 0"
      "cb_ref_count (decrement_ref_count blk) \<noteq> 0" "p' = p\<lparr>bp_blocks :=
         (bp_blocks p)(b \<mapsto> decrement_ref_count blk)\<rparr>" "w' = w"
      using c res
      by (auto simp: pool_release_def Let_def cache_block_clear_def
          split: option.splits if_splits prod.splits)
    with blk block_bookkeeping_rows(3) [of w blk] c True show ?thesis
      by (intro exI [of _ blk]) (auto simp: decrement_ref_count_def sat_sub_def)
  next
    case False
    with t c show ?thesis unfolding touches_only_def by auto
  qed
qed

lemma release_owned_loop_inv:
  assumes "pool_inv ext H p w" and "distinct bs" and "\<forall>b \<in> set bs. 0 < ext b" and "n \<le> u64_max"
    and "release_owned_loop bs p w n = (p', w', n')"
  shows "pool_inv (\<lambda>b. ext b - of_bool (b \<in> set bs)) H p' w' \<and> touches_only (set bs) H p w p' w' \<and>
    bp_sessions p' = bp_sessions p \<and> bp_next_session_id p' = bp_next_session_id p \<and>
    bp_prefixes p' = bp_prefixes p \<and>
    ref_count_of p' = (\<lambda>b. ref_count_of p b - of_bool (b \<in> set bs)) \<and>
    bp_free_list p' = bp_free_list p @ filter (\<lambda>b. ref_count_of p b = 1) bs \<and>
    n' = min (n + length (filter (\<lambda>b. ref_count_of p b = 1) bs)) u64_max \<and>
    keeps_live p w p' w'"
  using assms
proof (induction bs arbitrary: ext p w n)
  case Nil
  then show ?case by simp
next
  case (Cons b bs)
  obtain q v ok where rel: "pool_release b p w = (q, v, ok)" by (metis prod_cases3)
  note R = pool_release_inv [OF Cons.prems(1) _ rel]
  have ext_b: "0 < ext b" using Cons.prems(3) by simp
  note R = R [OF ext_b]
  have pos: "0 < ref_count_of p b" using pool_invD(8) [OF Cons.prems(1), of b] ext_b by simp
  have dom_q: "(case bp_blocks q b of None \<Rightarrow> False | Some blk \<Rightarrow> cb_ref_count blk = 0)
      \<longleftrightarrow> ref_count_of p b = 1"
  proof -
    have "bp_blocks q b \<noteq> None"
      using R(3) pos by (auto simp: touches_only_def dom_def ref_count_of_def split: option.splits)
    moreover have "ref_count_of q b = ref_count_of p b - 1" using R(8) by simp
    ultimately show ?thesis using pos by (auto simp: ref_count_of_def split: option.splits)
  qed
  let ?n = "if ref_count_of p b = 1 then sat_add n 1 else n"
  have loop: "release_owned_loop bs q v ?n = (p', w', n')"
    using Cons.prems(5) rel R(1) pos dom_q by (simp add: Let_def)
  let ?e = "ext(b := ext b - 1)"
  have bnot: "b \<notin> set bs" using Cons.prems(2) by simp
  have IH: "pool_inv (\<lambda>c. ?e c - of_bool (c \<in> set bs)) H p' w' \<and> touches_only (set bs) H q v p' w' \<and>
    bp_sessions p' = bp_sessions q \<and> bp_next_session_id p' = bp_next_session_id q \<and>
    bp_prefixes p' = bp_prefixes q \<and>
    ref_count_of p' = (\<lambda>c. ref_count_of q c - of_bool (c \<in> set bs)) \<and>
    bp_free_list p' = bp_free_list q @ filter (\<lambda>c. ref_count_of q c = 1) bs \<and>
    n' = min (?n + length (filter (\<lambda>c. ref_count_of q c = 1) bs)) u64_max \<and>
    keeps_live q v p' w'"
    by (rule Cons.IH [OF R(2) _ _ _ loop]) (use Cons.prems(2,3,4) bnot in auto)
  have e: "(\<lambda>c. ?e c - of_bool (c \<in> set bs)) = (\<lambda>c. ext c - of_bool (c \<in> set (b # bs)))"
    using bnot by (auto simp: fun_eq_iff)
  have rc: "(\<lambda>c. ref_count_of q c - of_bool (c \<in> set bs)) =
      (\<lambda>c. ref_count_of p c - of_bool (c \<in> set (b # bs)))"
    using bnot R(8) by (auto simp: fun_eq_iff)
  have filt: "filter (\<lambda>c. ref_count_of q c = 1) bs = filter (\<lambda>c. ref_count_of p c = 1) bs"
    by (rule filter_cong) (use bnot R(8) in auto)
  have t: "touches_only (set (b # bs)) H p w p' w'"
    using touches_only_trans [OF R(3), of "set bs" p' w'] IH by simp
  have n': "n' = min (n + length (filter (\<lambda>c. ref_count_of p c = 1) (b # bs))) u64_max"
    using IH Cons.prems(4) unfolding filt by (auto simp: sat_add_def)
  have "keeps_live p w p' w'"
    using pool_release_keeps_live [OF R(3) rel] IH keeps_live_trans by blast
  then show ?case
    using IH t n' R(4,5,6,7) unfolding e rc filt by simp
qed

lemma release_session_inner_inv:
  assumes inv: "pool_inv ext H p w" and it: "enumerates it" and t: "bp_sessions p s = Some t"
    and res: "release_session_inner it s p w = (p', w', r)"
  shows "r = Some (min (card {b \<in> sb_owned_blocks t. ref_count_of p b = 1}) u64_max)"
    and "pool_inv ext H p' w'" and "touches_only (sb_owned_blocks t) H p w p' w'"
    and "bp_sessions p' = (bp_sessions p)(s := None)"
    and "bp_next_session_id p' = bp_next_session_id p" and "bp_prefixes p' = bp_prefixes p"
    and "ref_count_of p' = (\<lambda>b. ref_count_of p b - of_bool (b \<in> sb_owned_blocks t))"
    and "set (bp_free_list p') =
      set (bp_free_list p) \<union> {b \<in> sb_owned_blocks t. ref_count_of p b = 1}"
    and "keeps_live p w p' w'"
proof -
  let ?bs = "it (sb_owned_blocks t)" and ?p = "p\<lparr>bp_sessions := (bp_sessions p)(s := None)\<rparr>"
  let ?e = "\<lambda>b. ext b + of_bool (b \<in> sb_owned_blocks t)"
  have fin: "finite (sb_owned_blocks t)"
    using pool_invD(7) [OF inv t] by (simp add: session_wf_def)
  have bs: "distinct ?bs" "set ?bs = sb_owned_blocks t"
    using enumerates_distinct [OF it fin] enumerates_set [OF it fin] .
  obtain n where loop: "release_owned_loop ?bs ?p w 0 = (p', w', n)" and r: "r = Some n"
    using res t by (auto simp: release_session_inner_def split: prod.splits)
  have inv0: "pool_inv ?e H ?p w"
    by (rule session_remove_inv [OF inv]) (simp add: t)
  have L: "pool_inv (\<lambda>b. ?e b - of_bool (b \<in> set ?bs)) H p' w' \<and> touches_only (set ?bs) H ?p w p' w' \<and>
    bp_sessions p' = bp_sessions ?p \<and> bp_next_session_id p' = bp_next_session_id ?p \<and>
    bp_prefixes p' = bp_prefixes ?p \<and>
    ref_count_of p' = (\<lambda>b. ref_count_of ?p b - of_bool (b \<in> set ?bs)) \<and>
    bp_free_list p' = bp_free_list ?p @ filter (\<lambda>b. ref_count_of ?p b = 1) ?bs \<and>
    n = min (0 + length (filter (\<lambda>b. ref_count_of ?p b = 1) ?bs)) u64_max \<and> keeps_live ?p w p' w'"
    by (rule release_owned_loop_inv [OF inv0 bs(1) _ _ loop]) (simp_all add: bs)
  have len: "length (filter (\<lambda>b. ref_count_of p b = 1) ?bs) =
      card {b \<in> sb_owned_blocks t. ref_count_of p b = 1}"
    using bs by (metis distinct_card distinct_filter set_filter)
  show "r = Some (min (card {b \<in> sb_owned_blocks t. ref_count_of p b = 1}) u64_max)"
    using L r len by simp
  show "pool_inv ext H p' w'" "touches_only (sb_owned_blocks t) H p w p' w'"
    "bp_sessions p' = (bp_sessions p)(s := None)"
    "bp_next_session_id p' = bp_next_session_id p" "bp_prefixes p' = bp_prefixes p"
    "ref_count_of p' = (\<lambda>b. ref_count_of p b - of_bool (b \<in> sb_owned_blocks t))"
    using L by (simp_all add: bs)
  show "set (bp_free_list p') =
      set (bp_free_list p) \<union> {b \<in> sb_owned_blocks t. ref_count_of p b = 1}"
    using L bs by auto
  show "keeps_live p w p' w'" using L by simp
qed

lemma release_session_inner_missing:
  "bp_sessions p s = None \<Longrightarrow> release_session_inner it s p w = (p, w, None)"
  by (simp add: release_session_inner_def)

section \<open>Eviction\<close>

definition eviction_candidates :: "id_order \<Rightarrow> session_id \<Rightarrow> block_pool \<Rightarrow> session_block_table list" where
  "eviction_candidates it x p =
     filter (\<lambda>s. \<not> session_is_empty s) (filter (\<lambda>s. Some (sb_session_id s) \<noteq> Some x)
       (map (\<lambda>i. the (bp_sessions p i)) (it (dom (bp_sessions p)))))"

lemma eviction_candidates_iff:
  assumes inv: "pool_inv ext H p w" and it: "enumerates it"
  shows "t \<in> set (eviction_candidates it x p) \<longleftrightarrow>
    (\<exists>s. bp_sessions p s = Some t \<and> s \<noteq> x \<and> \<not> session_is_empty t)"
proof -
  note D = pool_invD [OF inv]
  have dom: "set (it (dom (bp_sessions p))) = dom (bp_sessions p)" using enumerates_set [OF it D(2)] .
  have "t \<in> (\<lambda>i. the (bp_sessions p i)) ` dom (bp_sessions p) \<longleftrightarrow> (\<exists>s. bp_sessions p s = Some t)"
    by force
  with D(7) show ?thesis by (auto simp: eviction_candidates_def dom)
qed

lemma lru_session_except_candidates:
  "lru_session_except it (Some x) p =
     map_option sb_session_id (min_by_key session_lru_key (eviction_candidates it x p))"
  by (simp add: lru_session_except_def eviction_candidates_def)

lemma lru_session_except_None:
  assumes inv: "pool_inv ext H p w" and it: "enumerates it"
    and none: "lru_session_except it (Some x) p = None" and "bp_sessions p s = Some t"
  shows "s = x \<or> session_is_empty t"
proof -
  have "eviction_candidates it x p = []"
    using none by (simp add: lru_session_except_candidates)
  then show ?thesis using eviction_candidates_iff [OF inv it, of t x] assms(4) by auto
qed

lemma lru_session_except_Some:
  assumes inv: "pool_inv ext H p w" and it: "enumerates it"
    and lru: "lru_session_except it (Some x) p = Some s"
  obtains t where "bp_sessions p s = Some t" and "s \<noteq> x" and "\<not> session_is_empty t"
    and "\<And>s' t'. bp_sessions p s' = Some t' \<Longrightarrow> s' \<noteq> x \<Longrightarrow> \<not> session_is_empty t' \<Longrightarrow>
      session_lru_key t \<le> session_lru_key t'"
proof -
  obtain t where m: "min_by_key session_lru_key (eviction_candidates it x p) = Some t"
    and s: "s = sb_session_id t"
    using lru by (auto simp: lru_session_except_candidates)
  obtain s0 where t: "bp_sessions p s0 = Some t" "s0 \<noteq> x" "\<not> session_is_empty t"
    using min_by_key_in [OF m] eviction_candidates_iff [OF inv it] by blast
  moreover have "s0 = s" using pool_invD(7) [OF inv t(1)] s by simp
  moreover have "session_lru_key t \<le> session_lru_key t'"
    if "bp_sessions p s' = Some t'" "s' \<noteq> x" "\<not> session_is_empty t'" for s' t'
    by (rule min_by_key_least [OF m]) (use that eviction_candidates_iff [OF inv it] in blast)
  ultimately show thesis using that by blast
qed

text \<open>What eviction on behalf of session \<open>x\<close> may do.\<close>

definition eviction_for ::
  "session_id \<Rightarrow> nat multiset \<Rightarrow> block_pool \<Rightarrow> kv_world \<Rightarrow> block_pool \<Rightarrow> kv_world \<Rightarrow> bool" where
  "eviction_for x H p w p' w' \<longleftrightarrow>
     bp_sessions p' x = bp_sessions p x \<and> bp_sessions p' \<subseteq>\<^sub>m bp_sessions p \<and>
     (\<forall>s t s' t'. bp_sessions p s = Some t \<and> bp_sessions p' s = None \<and>
        bp_sessions p' s' = Some t' \<and> s' \<noteq> x \<and> \<not> session_is_empty t' \<longrightarrow>
        session_lru_key t \<le> session_lru_key t') \<and>
     bp_next_session_id p' = bp_next_session_id p \<and> bp_prefixes p' = bp_prefixes p \<and>
     bp_access_clock p' = bp_access_clock p \<and>
     (\<forall>b. ref_count_of p' b \<le> ref_count_of p b) \<and>
     keeps_live p w p' w' \<and> touches_only UNIV H p w p' w'"

lemma eviction_for_refl [simp]: "eviction_for x H p w p w"
  by (auto simp: eviction_for_def)

lemma eviction_for_step:
  assumes sess: "bp_sessions q = (bp_sessions p)(s := None)" and t: "bp_sessions p s = Some t"
    and sx: "s \<noteq> x"
    and least: "\<And>s' t'. bp_sessions p s' = Some t' \<Longrightarrow> s' \<noteq> x \<Longrightarrow> \<not> session_is_empty t' \<Longrightarrow>
      session_lru_key t \<le> session_lru_key t'"
    and q: "bp_next_session_id q = bp_next_session_id p" "bp_prefixes q = bp_prefixes p"
      "bp_access_clock q = bp_access_clock p"
      "\<And>b. ref_count_of q b \<le> ref_count_of p b" "keeps_live p w q v" "touches_only UNIV H p w q v"
    and rest: "eviction_for x H q v r u"
  shows "eviction_for x H p w r u"
proof -
  note E = rest [unfolded eviction_for_def sess]
  have sub: "bp_sessions r \<subseteq>\<^sub>m (bp_sessions p)(s := None)" using E by blast
  then have sub': "bp_sessions r \<subseteq>\<^sub>m bp_sessions p"
    by (auto simp: map_le_def dom_def split: if_splits) (metis option.distinct(1))
  have lru: "session_lru_key t1 \<le> session_lru_key t2"
    if "bp_sessions p s1 = Some t1" "bp_sessions r s1 = None" "bp_sessions r s2 = Some t2"
      "s2 \<noteq> x" "\<not> session_is_empty t2" for s1 t1 s2 t2
  proof (cases "s1 = s")
    case True
    have "bp_sessions p s2 = Some t2" using sub' that(3) by (metis domI map_le_def)
    with True t that least show ?thesis by auto
  next
    case False
    then have "((bp_sessions p)(s := None)) s1 = Some t1" using that(1) by simp
    with E that show ?thesis by blast
  qed
  have "ref_count_of r b \<le> ref_count_of p b" for b using E q(4) le_trans by blast
  moreover have "keeps_live p w r u" using E q(5) keeps_live_trans by blast
  moreover have "touches_only UNIV H p w r u" using E q(6) touches_only_trans [of UNIV H p w q v UNIV r u]
    by simp
  ultimately show ?thesis using E sub' lru sx q(1,2,3) unfolding eviction_for_def
    by (metis fun_upd_other)
qed

lemma release_clock:
  "pool_release b p w = (p', w', r) \<Longrightarrow> bp_access_clock p' = bp_access_clock p"
  by (auto simp: pool_release_def Let_def split: option.splits if_splits prod.splits)

lemma release_loop_clock:
  "release_owned_loop bs p w n = (p', w', m) \<Longrightarrow> bp_access_clock p' = bp_access_clock p"
  by (induction bs p w n rule: release_owned_loop.induct)
     (auto simp: Let_def release_clock split: prod.splits)

lemma release_session_clock:
  "release_session_inner it s p w = (p', w', r) \<Longrightarrow> bp_access_clock p' = bp_access_clock p"
  by (auto simp: release_session_inner_def split: option.splits prod.splits dest!: release_loop_clock)

lemma evict_loop_enough_fuel:
  assumes "pool_inv ext H p w" and it: "enumerates it" and "card (dom (bp_sessions p)) \<le> fuel"
    and "evict_loop fuel it x p w = (p', w')"
  shows "pool_inv ext H p' w' \<and> eviction_for x H p w p' w' \<and>
    (bp_free_list p' \<noteq> [] \<or> (\<forall>s t. bp_sessions p' s = Some t \<longrightarrow> s = x \<or> session_is_empty t))"
  using assms(1,3,4)
proof (induction fuel arbitrary: p w)
  case 0
  then have "bp_sessions p = Map.empty" using pool_invD(2) [OF 0(1)] by simp
  with 0 show ?case by simp
next
  case (Suc fuel)
  note inv = Suc.prems(1)
  show ?case
  proof (cases "bp_free_list p = [] \<and> lru_session_except it (Some x) p \<noteq> None")
    case False
    then have "p' = p" "w' = w" using Suc.prems(3) by (auto split: if_splits)
    with False lru_session_except_None [OF inv it] inv show ?thesis by auto
  next
    case True
    then obtain s where lru: "lru_session_except it (Some x) p = Some s" by auto
    then obtain t where t: "bp_sessions p s = Some t" "s \<noteq> x"
      and least: "\<And>s' t'. bp_sessions p s' = Some t' \<Longrightarrow> s' \<noteq> x \<Longrightarrow> \<not> session_is_empty t' \<Longrightarrow>
        session_lru_key t \<le> session_lru_key t'"
      using lru_session_except_Some [OF inv it lru] by metis
    obtain q v r where rel: "release_session_inner it s p w = (q, v, r)" by (metis prod_cases3)
    note R = release_session_inner_inv [OF inv it t(1) rel]
    obtain m where loop: "evict_loop fuel it x (q\<lparr>bp_metrics := m\<rparr>) v = (p', w')"
      using Suc.prems(3) True lru rel R(1) by (auto simp: Let_def)
    let ?q = "q\<lparr>bp_metrics := m\<rparr>"
    have card: "card (dom (bp_sessions ?q)) \<le> fuel"
      using Suc.prems(2) t(1) pool_invD(2) [OF inv] R(4) by (auto simp: card_Diff_singleton_if)
    have IH: "pool_inv ext H p' w' \<and> eviction_for x H ?q v p' w' \<and>
      (bp_free_list p' \<noteq> [] \<or> (\<forall>s t. bp_sessions p' s = Some t \<longrightarrow> s = x \<or> session_is_empty t))"
      by (rule Suc.IH [OF _ card loop]) (simp add: R(2))
    have "eviction_for x H p w p' w'"
      by (rule eviction_for_step [of ?q p s t x w v H])
         (use R t least release_session_clock [OF rel] IH touches_only_mono [OF R(3)]
           in \<open>simp_all\<close>)
    with IH show ?thesis by blast
  qed
qed

lemmas evict_sessions_inv =
  evict_loop_enough_fuel [OF _ _ order_refl, folded evict_sessions_until_free_def]

section \<open>Allocating for a session\<close>

lemma make_room_inv:
  assumes inv: "pool_inv ext H p w" and it: "enumerates it"
    and res: "(if bp_free_list p = [] then evict_sessions_until_free it s p w else (p, w)) = (p1, w1)"
  shows "pool_inv ext H p1 w1" and "eviction_for s H p w p1 w1"
    and "bp_free_list p1 = [] \<Longrightarrow> bp_sessions p1 s' = Some t' \<Longrightarrow> s' = s \<or> session_is_empty t'"
    and "bp_free_list p \<noteq> [] \<Longrightarrow> p1 = p \<and> w1 = w"
proof -
  have "pool_inv ext H p1 w1 \<and> eviction_for s H p w p1 w1 \<and>
    (bp_free_list p1 \<noteq> [] \<or> (\<forall>s' t'. bp_sessions p1 s' = Some t' \<longrightarrow> s' = s \<or> session_is_empty t'))"
    using res inv evict_sessions_inv [OF inv it, of s p1 w1] by (simp split: if_splits)
  then show "pool_inv ext H p1 w1" "eviction_for s H p w p1 w1"
    "bp_free_list p1 = [] \<Longrightarrow> bp_sessions p1 s' = Some t' \<Longrightarrow> s' = s \<or> session_is_empty t'"
    by blast+
  show "bp_free_list p \<noteq> [] \<Longrightarrow> p1 = p \<and> w1 = w" using res by simp
qed

lemma allocate_ref_counts:
  assumes inv: "pool_inv ext H p w" and ne: "bp_free_list p \<noteq> []"
    and res: "pool_allocate p w = (p', w', Some b)"
  shows "ref_count_of p' = (ref_count_of p)(b := 1)" and "ref_count_of p b = 0" and "ext b = 0"
proof -
  obtain blk where b: "b = last (bp_free_list p)" "touches_only {b} H p w p' w'"
    "bp_blocks p' b = Some blk" "cb_ref_count blk = 1"
    using pool_allocate_inv [OF inv ne res] by (metis option.inject)
  have "ref_count_of p' c = ref_count_of p c" if "c \<noteq> b" for c
    using b(2) that by (simp add: touches_only_def ref_count_of_def)
  with b(3,4) show "ref_count_of p' = (ref_count_of p)(b := 1)"
    by (auto simp: fun_eq_iff ref_count_of_def)
  have "b \<in> set (bp_free_list p)" using b(1) ne by simp
  then show "ref_count_of p b = 0" "ext b = 0" using free_block_unreferenced [OF inv] by auto
qed

lemma allocate_for_session_inv:
  assumes inv: "pool_inv ext H p w" and it: "enumerates it" and t: "bp_sessions p s = Some t"
    and res: "allocate_for_session it s p w = (p', w', r)"
  obtains (Full) "r = None" and "pool_inv ext H p' w'" and "bp_free_list p' = []"
      and "eviction_for s H p w p' w'"
      and "\<And>s' t'. bp_sessions p' s' = Some t' \<Longrightarrow> s' = s \<or> session_is_empty t'"
  | (Allocated) b q v blk where "r = Some b" and "pool_inv ext H p' w'"
      and "pool_inv ext H q v"
      and "eviction_for s H p w q v" and "bp_free_list p \<noteq> [] \<Longrightarrow> q = p \<and> v = w"
      and "touches_only {b} H q v p' w'" and "ref_count_of q b = 0"
      and "ref_count_of p' = (ref_count_of q)(b := 1)"
      and "bp_sessions p' = (bp_sessions q)(s \<mapsto> appended_session (bp_access_clock p') b t)"
      and "bp_blocks p' b = Some blk" and "block_rows w' blk = []" and "cb_content_hash blk = None"
proof -
  obtain q v where room: "(if bp_free_list p = [] then evict_sessions_until_free it s p w else (p, w)) = (q, v)"
    by fastforce
  note M = make_room_inv [OF inv it room]
  have tq: "bp_sessions q s = Some t" using M(2) t by (simp add: eviction_for_def)
  show thesis
  proof (cases "bp_free_list q = []")
    case True
    then have "p' = q" "w' = v" "r = None"
      using res room t by (auto simp: allocate_for_session_def pool_allocate_empty Let_def)
    with True M show thesis by (intro Full) auto
  next
    case False
    obtain p2 w2 r2 where al: "pool_allocate q v = (p2, w2, r2)" by (metis prod_cases3)
    obtain b blk where A: "r2 = Some b" "pool_inv (ext(b := 1)) H p2 w2"
        "touches_only {b} H q v p2 w2" "bp_blocks p2 b = Some blk" "block_rows w2 blk = []"
        "cb_content_hash blk = None" "bp_sessions p2 = bp_sessions q"
      using pool_allocate_inv [OF M(1) False al] by metis
    note C = allocate_ref_counts [OF M(1) False al [unfolded A(1)]]
    have owned: "b \<notin> sb_owned_blocks t"
      using C(2) pool_invD(8) [OF M(1), of b] owner_pos [OF pool_invD(2) [OF M(1)] tq] by fastforce
    obtain p3 r3 where ap: "append_block_to_session_inner s b False p2 w2 = (p3, r3)" by fastforce
    have tp2: "bp_sessions p2 s = Some t" using A(7) tq by simp
    have e1: "0 < (ext(b := 1)) b" by simp
    note B = append_handover_inv [OF A(2) tp2 e1 owned ap]
    have ext: "(ext(b := 1))(b := (ext(b := 1)) b - 1) = ext" using C(3) by (simp add: fun_eq_iff)
    have r: "p' = p3" "w' = w2" "r = Some b"
      using res room t al A(1) ap B(1) by (auto simp: allocate_for_session_def Let_def)
    obtain blk' where blk': "bp_blocks p3 b = Some blk'" "block_rows w2 blk' = []"
      "cb_content_hash blk' = None"
      using B(7) A(4,5,6)
      by (auto simp: cb_touch_def block_rows_def block_storage_def split: option.splits)
    show thesis
    proof (rule Allocated [of b q v blk'])
      show "pool_inv ext H p' w'" using B(2) unfolding ext r(1,2) .
      show "touches_only {b} H q v p' w'"
        using touches_only_trans [OF A(3) B(5)] by (simp add: r)
      show "ref_count_of p' = (ref_count_of q)(b := 1)" using B(4) C(1) by (simp add: r)
      show "bp_sessions p' = (bp_sessions q)(s \<mapsto> appended_session (bp_access_clock p') b t)"
        using B(3) A(7) by (simp add: r)
    qed (use r M(1,2,4) C(2) blk' in auto)
  qed
qed

section \<open>Touching\<close>

lemma ref_count_of_touch:
  "bp_blocks p b = Some blk \<Longrightarrow>
   ref_count_of (p\<lparr>bp_blocks := (bp_blocks p)(b \<mapsto> cb_touch a blk)\<rparr>) = ref_count_of p"
  by (auto simp: fun_eq_iff ref_count_of_def cb_touch_def)

lemma pool_touch_inv:
  assumes inv: "pool_inv ext H p w" and res: "pool_touch b p = (p', r)"
  shows "pool_inv ext H p' w" and "ref_count_of p' = ref_count_of p"
    and "r = (if 0 < ref_count_of p b then Some () else None)"
proof -
  let ?q = "p\<lparr>bp_access_clock := sat_add (bp_access_clock p) 1\<rparr>"
  have inv1: "pool_inv ext H ?q w" using inv by simp
  have *: "(p' = ?q \<and> r = None \<and> ref_count_of p b = 0) \<or>
    (\<exists>blk. bp_blocks p b = Some blk \<and> r = Some () \<and> 0 < ref_count_of p b \<and>
      p' = ?q\<lparr>bp_blocks := (bp_blocks ?q)(b \<mapsto> cb_touch (sat_add (bp_access_clock p) 1) blk)\<rparr>)"
    using res by (auto simp: pool_touch_def next_access_eq Let_def ref_count_of_def
        split: option.splits if_splits)
  then show "pool_inv ext H p' w" "ref_count_of p' = ref_count_of p"
    "r = (if 0 < ref_count_of p b then Some () else None)"
    using inv touch_block_inv [OF inv1, of b] ref_count_of_touch [of ?q b] by auto
qed

lemma touch_both_inv:
  fixes a c :: nat
  assumes inv: "pool_inv ext H p w" and t: "bp_sessions p s = Some t" and b: "bp_blocks p b = Some blk"
  defines "q \<equiv> p\<lparr>bp_access_clock := c, bp_sessions := (bp_sessions p)(s \<mapsto> session_touch a t),
      bp_blocks := (bp_blocks p)(b \<mapsto> cb_touch a blk)\<rparr>"
  shows "pool_inv ext H q w" and "ref_count_of q = ref_count_of p" and "touches_only {b} H p w q w"
proof -
  let ?q1 = "p\<lparr>bp_access_clock := c, bp_sessions := (bp_sessions p)(s \<mapsto> session_touch a t)\<rparr>"
  have "pool_inv ext H (p\<lparr>bp_access_clock := c\<rparr>) w" using inv by simp
  from session_touch_inv [OF this, of s t a] have i1: "pool_inv ext H ?q1 w" using t by simp
  have "bp_blocks ?q1 b = Some blk" using b by simp
  from touch_block_inv [OF i1 this, of a] ref_count_of_touch [OF this, of a]
  show "pool_inv ext H q w" "ref_count_of q = ref_count_of p" by (simp_all add: q_def)
  show "touches_only {b} H p w q w" using b by (auto simp: q_def touches_only_def)
qed

lemma touch_session_block_inv:
  assumes inv: "pool_inv ext H p w" and t: "bp_sessions p s = Some t" and live: "0 < ref_count_of p b"
    and res: "touch_session_block s b p = (p', r)"
  obtains blk where "r = Ok ()" and "bp_blocks p b = Some blk"
    and "p' = p\<lparr>bp_access_clock := sat_add (bp_access_clock p) 1,
      bp_sessions := (bp_sessions p)(s \<mapsto> session_touch (sat_add (bp_access_clock p) 1) t),
      bp_blocks := (bp_blocks p)(b \<mapsto> cb_touch (sat_add (bp_access_clock p) 1) blk)\<rparr>"
    and "pool_inv ext H p' w" and "ref_count_of p' = ref_count_of p"
proof -
  obtain blk where blk: "bp_blocks p b = Some blk" "ref_count_of p b = cb_ref_count blk"
    using live by (rule live_block)
  have p': "p' = p\<lparr>bp_access_clock := sat_add (bp_access_clock p) 1,
      bp_sessions := (bp_sessions p)(s \<mapsto> session_touch (sat_add (bp_access_clock p) 1) t),
      bp_blocks := (bp_blocks p)(b \<mapsto> cb_touch (sat_add (bp_access_clock p) 1) blk)\<rparr>"
    and r: "r = Ok ()"
    using res t blk live by (auto simp: touch_session_block_def next_access_eq Let_def)
  note T = touch_both_inv [OF inv t blk(1), of "sat_add (bp_access_clock p) 1"
      "sat_add (bp_access_clock p) 1", folded p']
  show thesis using that [OF r blk(1) p' T(1,2)] .
qed

lemma session_block_live:
  assumes inv: "pool_inv ext H p w" and t: "bp_sessions p s = Some t" and b: "b \<in> sb_owned_blocks t"
  shows "0 < ref_count_of p b"
  using pool_invD(8) [OF inv, of b] owner_pos [OF pool_invD(2) [OF inv] t b] by simp

lemma session_read_owned:
  assumes "session_wf t" and "session_read_block t i = Some b"
  shows "b \<in> sb_owned_blocks t" and "i < length (bt_blocks (sb_block_table t))"
    and "bt_blocks (sb_block_table t) ! i = b"
proof -
  show i: "i < length (bt_blocks (sb_block_table t))" "bt_blocks (sb_block_table t) ! i = b"
    using assms(2) by (simp_all add: session_simps split: if_splits)
  have "sb_owned_blocks t = set (bt_blocks (sb_block_table t))"
    using assms(1) by (simp add: session_wf_def)
  with nth_mem [OF i(1)] i(2) show "b \<in> sb_owned_blocks t" by simp
qed

lemma read_session_block_inv:
  assumes inv: "pool_inv ext H p w" and res: "read_session_block s i p = (p', r)"
  shows "pool_inv ext H p' w" and "ref_count_of p' = ref_count_of p"
    and "r = Option.bind (bp_sessions p s) (\<lambda>t. session_read_block t i)"
proof -
  have *: "pool_inv ext H p' w \<and> ref_count_of p' = ref_count_of p \<and>
    r = Option.bind (bp_sessions p s) (\<lambda>t. session_read_block t i)"
  proof (cases "Option.bind (bp_sessions p s) (\<lambda>t. session_read_block t i)")
    case None
    then have "p' = p\<lparr>bp_access_clock := sat_add (bp_access_clock p) 1\<rparr>" "r = None"
      using res by (auto simp: read_session_block_def next_access_eq Let_def bind_eq_None_conv
          split: option.splits)
    with inv None show ?thesis by simp
  next
    case (Some b)
    then obtain t where t: "bp_sessions p s = Some t" "session_read_block t i = Some b"
      by (auto simp: bind_eq_Some_conv)
    have wf: "session_wf t" using pool_invD(7) [OF inv t(1)] by simp
    have live: "0 < ref_count_of p b"
      using inv t(1) session_read_owned(1) [OF wf t(2)] by (rule session_block_live)
    obtain blk where blk: "bp_blocks p b = Some blk" "ref_count_of p b = cb_ref_count blk"
      using live by (rule live_block)
    have "p' = p\<lparr>bp_access_clock := sat_add (bp_access_clock p) 1,
        bp_sessions := (bp_sessions p)(s \<mapsto> session_touch (sat_add (bp_access_clock p) 1) t),
        bp_blocks := (bp_blocks p)(b \<mapsto> cb_touch (sat_add (bp_access_clock p) 1) blk)\<rparr>" "r = Some b"
      using res t blk live by (auto simp: read_session_block_def next_access_eq Let_def)
    with Some touch_both_inv [OF inv t(1) blk(1)] show ?thesis by simp
  qed
  then show "pool_inv ext H p' w" "ref_count_of p' = ref_count_of p"
    "r = Option.bind (bp_sessions p s) (\<lambda>t. session_read_block t i)" by blast+
qed

section \<open>Prefixes\<close>

lemma register_prefix_frame:
  "bp_blocks (register_prefix h ids p) = bp_blocks p"
  "bp_free_list (register_prefix h ids p) = bp_free_list p"
  "bp_sessions (register_prefix h ids p) = bp_sessions p"
  "bp_next_session_id (register_prefix h ids p) = bp_next_session_id p"
  by (auto simp: register_prefix_def split: option.split)

lemma register_prefix_inv:
  "pool_inv ext H (register_prefix h ids p) w = pool_inv ext H p w"
  "ref_count_of (register_prefix h ids p) = ref_count_of p"
  by (rule pool_inv_cong) (simp_all add: register_prefix_frame fun_eq_iff ref_count_of_def)

lemma prefix_snapshots_for_Some:
  "prefix_snapshots_for p ids = Some snaps \<Longrightarrow>
   map ps_block_id snaps = ids \<and> list_all (prefix_snapshot_live p) snaps"
  by (induction ids arbitrary: snaps)
     (auto simp: prefix_snapshot_live_def split: option.splits if_splits)

lemma lookup_after_register:
  assumes "prefix_entry_for p ids = Some e" and "prefix_terminal_hash e = Some h"
  shows "lookup_prefix (register_prefix h ids p) h = Some ids"
proof -
  obtain snaps where e: "e = \<lparr>pe_blocks = snaps\<rparr>" "prefix_snapshots_for p ids = Some snaps"
    using assms(1) by (auto simp: prefix_entry_for_def)
  let ?q = "p\<lparr>bp_prefixes := (bp_prefixes p)(h \<mapsto> e)\<rparr>"
  have q: "register_prefix h ids p = ?q" using assms by (simp add: register_prefix_def)
  have "prefix_snapshot_live ?q = prefix_snapshot_live p"
    by (simp add: fun_eq_iff prefix_snapshot_live_def)
  with prefix_snapshots_for_Some [OF e(2)] assms(2) e(1) show ?thesis
    by (simp add: q lookup_prefix_def prefix_blocks_match_def prefix_block_ids_def)
qed

lemma lookup_prefix_sound:
  assumes "lookup_prefix p h = Some ids"
  shows "ids \<noteq> []" and "b \<in> set ids \<Longrightarrow> 0 < ref_count_of p b"
    and "\<exists>blk. bp_blocks p (last ids) = Some blk \<and> cb_content_hash blk = Some h"
proof -
  obtain e where e: "bp_prefixes p h = Some e" "prefix_blocks_match p h e" "ids = prefix_block_ids e"
    using assms by (auto simp: lookup_prefix_def split: option.splits if_splits)
  have ne: "pe_blocks e \<noteq> []" and last: "ps_content_hash (last (pe_blocks e)) = h"
    and live: "\<And>snap. snap \<in> set (pe_blocks e) \<Longrightarrow> prefix_snapshot_live p snap"
    using e(2) by (auto simp: prefix_blocks_match_def prefix_terminal_hash_def list_all_iff
        split: if_splits)
  show "ids \<noteq> []" using ne e(3) by (simp add: prefix_block_ids_def)
  show "0 < ref_count_of p b" if "b \<in> set ids"
    using that live e(3)
    by (fastforce simp: prefix_block_ids_def prefix_snapshot_live_def ref_count_of_def split: option.splits)
  have "prefix_snapshot_live p (last (pe_blocks e))" using live ne by simp
  with last ne e(3) show "\<exists>blk. bp_blocks p (last ids) = Some blk \<and> cb_content_hash blk = Some h"
    by (auto simp: prefix_block_ids_def last_map prefix_snapshot_live_def split: option.splits)
qed

lemma attach_loop_inv:
  assumes "pool_inv ext H p w" and "bp_sessions p s = Some t"
    and "\<forall>b \<in> set bs. 0 < ref_count_of p b"
    and "\<forall>b. ref_count_of p b + of_bool (b \<notin> sb_owned_blocks t) < u64_max"
    and "attach_loop s bs p w = (p', ok)"
  shows "ok \<and> pool_inv ext H p' w \<and>
    (\<exists>t'. bp_sessions p' = (bp_sessions p)(s \<mapsto> t') \<and>
      bt_blocks (sb_block_table t') = bt_blocks (sb_block_table t) @ bs \<and>
      sb_owned_blocks t' = sb_owned_blocks t \<union> set bs) \<and>
    ref_count_of p' = (\<lambda>b. ref_count_of p b + of_bool (b \<in> set bs \<and> b \<notin> sb_owned_blocks t))"
  using assms
proof (induction bs arbitrary: p t)
  case Nil
  then show ?case by (auto intro!: exI [of _ t])
next
  case (Cons b bs)
  have live: "0 < ref_count_of p b" using Cons.prems(3) by simp
  have unsat: "unsaturated p" unfolding unsaturated_def using Cons.prems(4) add_lessD1 by blast
  obtain q r where ap: "append_block_to_session_inner s b True p w = (q, r)" by fastforce
  note A = append_retained_inv [OF Cons.prems(1) unsat Cons.prems(2) live ap]
  let ?t = "appended_session (bp_access_clock q) b t"
  have loop: "attach_loop s bs q w = (p', ok)" using Cons.prems(5) ap A(1) by simp
  have tq: "bp_sessions q s = Some ?t" using A(3) by simp
  have lq: "\<forall>c \<in> set bs. 0 < ref_count_of q c" using Cons.prems(3) A(4) by simp
  have uq: "\<forall>c. ref_count_of q c + of_bool (c \<notin> sb_owned_blocks ?t) < u64_max"
  proof
    fix c
    show "ref_count_of q c + of_bool (c \<notin> sb_owned_blocks ?t) < u64_max"
      using Cons.prems(4) [rule_format, of c] by (auto simp: A(4) appended_session_def)
  qed
  have rc: "ref_count_of q c + of_bool (c \<in> set bs \<and> c \<notin> sb_owned_blocks ?t) =
      ref_count_of p c + of_bool (c \<in> set (b # bs) \<and> c \<notin> sb_owned_blocks t)" for c
    by (simp add: A(4) appended_session_def)
  note I = Cons.IH [OF A(2) tq lq uq loop, unfolded rc]
  then obtain t' where t': "bp_sessions p' = (bp_sessions q)(s \<mapsto> t')"
    "bt_blocks (sb_block_table t') = bt_blocks (sb_block_table ?t) @ bs"
    "sb_owned_blocks t' = sb_owned_blocks ?t \<union> set bs" by blast
  have "bp_sessions p' = (bp_sessions p)(s \<mapsto> t')" unfolding t'(1) A(3) by (rule fun_upd_upd)
  moreover have "bt_blocks (sb_block_table t') = bt_blocks (sb_block_table t) @ b # bs"
    "sb_owned_blocks t' = sb_owned_blocks t \<union> set (b # bs)"
    using t'(2,3) by (auto simp: appended_session_def)
  ultimately show ?case using I by blast
qed

lemma attach_prefix_inv:
  assumes inv: "pool_inv ext H p w" and room: "\<forall>b. Suc (ref_count_of p b) < u64_max"
    and res: "attach_prefix_to_session s h p w = (p', r)"
  shows "pool_inv ext H p' w" and "ref_count_of p' b \<le> Suc (ref_count_of p b)"
    and "r = (if bp_sessions p s = None then None else lookup_prefix p h)"
    and "r = None \<Longrightarrow> p' = p"
    and "r = Some ids \<Longrightarrow> bp_sessions p s = Some t \<Longrightarrow>
      \<exists>t'. bp_sessions p' = (bp_sessions p)(s \<mapsto> t') \<and>
        bt_blocks (sb_block_table t') = bt_blocks (sb_block_table t) @ ids"
proof -
  have *: "pool_inv ext H p' w \<and> (\<forall>b. ref_count_of p' b \<le> Suc (ref_count_of p b)) \<and>
    r = (if bp_sessions p s = None then None else lookup_prefix p h) \<and> (r = None \<longrightarrow> p' = p) \<and>
    (\<forall>ids t. r = Some ids \<longrightarrow> bp_sessions p s = Some t \<longrightarrow>
      (\<exists>t'. bp_sessions p' = (bp_sessions p)(s \<mapsto> t') \<and>
        bt_blocks (sb_block_table t') = bt_blocks (sb_block_table t) @ ids))"
  proof (cases "bp_sessions p s = None \<or> lookup_prefix p h = None")
    case True
    with res inv show ?thesis by (auto simp: attach_prefix_to_session_def)
  next
    case False
    then obtain t ids where t: "bp_sessions p s = Some t" and ids: "lookup_prefix p h = Some ids"
      by auto
    have live: "\<forall>b \<in> set ids. 0 < ref_count_of p b" using lookup_prefix_sound(2) [OF ids] by blast
    have u: "\<forall>b. ref_count_of p b + of_bool (b \<notin> sb_owned_blocks t) < u64_max"
      using room by (simp add: of_bool_def Suc_lessD)
    obtain q ok where loop: "attach_loop s ids p w = (q, ok)" by fastforce
    note L = attach_loop_inv [OF inv t live u loop]
    have "p' = q" "r = Some ids"
      using res t ids loop L by (auto simp: attach_prefix_to_session_def)
    with L t ids show ?thesis by auto
  qed
  then show "pool_inv ext H p' w" "ref_count_of p' b \<le> Suc (ref_count_of p b)"
    "r = (if bp_sessions p s = None then None else lookup_prefix p h)"
    "r = None \<Longrightarrow> p' = p"
    "r = Some ids \<Longrightarrow> bp_sessions p s = Some t \<Longrightarrow>
      \<exists>t'. bp_sessions p' = (bp_sessions p)(s \<mapsto> t') \<and>
        bt_blocks (sb_block_table t') = bt_blocks (sb_block_table t) @ ids"
    by blast+
qed

section \<open>Contents\<close>

text \<open>Every referenced block outside \<open>B\<close> was referenced before, with the same rows and hash.\<close>

definition contents_kept ::
  "block_id set \<Rightarrow> block_pool \<Rightarrow> kv_world \<Rightarrow> block_pool \<Rightarrow> kv_world \<Rightarrow> bool" where
  "contents_kept B p w p' w' \<longleftrightarrow>
     (\<forall>b blk'. b \<notin> B \<and> bp_blocks p' b = Some blk' \<and> 0 < cb_ref_count blk' \<longrightarrow>
        (\<exists>blk. bp_blocks p b = Some blk \<and> 0 < cb_ref_count blk \<and>
           block_rows w' blk' = block_rows w blk \<and> cb_content_hash blk' = cb_content_hash blk))"

lemma contents_kept_refl [simp]: "contents_kept B p w p w"
  by (simp add: contents_kept_def)

lemma contents_kept_trans:
  "contents_kept B p w q v \<Longrightarrow> contents_kept C q v r u \<Longrightarrow> contents_kept (B \<union> C) p w r u"
  unfolding contents_kept_def by (metis UnCI)

lemma contents_kept_mono: "contents_kept B p w q v \<Longrightarrow> B \<subseteq> C \<Longrightarrow> contents_kept C p w q v"
  unfolding contents_kept_def by blast

lemma touches_only_contents: "touches_only B H p w q v \<Longrightarrow> contents_kept B p w q v"
  unfolding touches_only_def contents_kept_def by metis

lemma keeps_live_contents:
  assumes "keeps_live p w q v"
  shows "contents_kept {} p w q v"
  unfolding contents_kept_def
proof (intro allI impI)
  fix b blk'
  assume b: "b \<notin> {} \<and> bp_blocks q b = Some blk' \<and> 0 < cb_ref_count blk'"
  then obtain blk where blk: "bp_blocks p b = Some blk" "cb_ref_count blk' \<le> cb_ref_count blk"
    "blk' = blk\<lparr>cb_ref_count := cb_ref_count blk'\<rparr>" "block_rows v blk' = block_rows w blk"
    using assms unfolding keeps_live_def by blast
  have "cb_content_hash blk' = cb_content_hash blk" by (subst blk(3)) simp
  moreover have "0 < cb_ref_count blk" using b blk(2) by simp
  ultimately show "\<exists>blk. bp_blocks p b = Some blk \<and> 0 < cb_ref_count blk \<and>
      block_rows v blk' = block_rows w blk \<and> cb_content_hash blk' = cb_content_hash blk"
    using blk(1,4) by blast
qed

lemma contents_kept_frame [simp]:
  "contents_kept B p w (q\<lparr>bp_metrics := m\<rparr>) v = contents_kept B p w q v"
  "contents_kept B p w (q\<lparr>bp_sessions := s\<rparr>) v = contents_kept B p w q v"
  "contents_kept B p w (q\<lparr>bp_access_clock := k\<rparr>) v = contents_kept B p w q v"
  by (simp_all add: contents_kept_def)

lemma touch_contents:
  assumes "bp_blocks p b = Some blk" and "bp_blocks q = (bp_blocks p)(b \<mapsto> cb_touch a blk)"
  shows "contents_kept {} p w q w"
  using assms by (auto simp: contents_kept_def) (simp_all add: cb_touch_def)

lemma append_contents:
  assumes "append_block_to_session_inner s b keep p w = (p', r)"
  shows "contents_kept {} p w p' w"
  using assms
  by (auto simp: append_block_to_session_inner_def next_access_eq Let_def contents_kept_def
      split: option.splits if_splits prod.splits outcome.splits)

lemma attach_loop_contents:
  "attach_loop s bs p w = (p', ok) \<Longrightarrow> contents_kept {} p w p' w"
proof (induction bs arbitrary: p)
  case Nil
  then show ?case by simp
next
  case (Cons b bs)
  obtain q r where ap: "append_block_to_session_inner s b True p w = (q, r)" by fastforce
  note A = append_contents [OF ap]
  show ?case
  proof (cases r)
    case (Ok u)
    with Cons.prems ap have "attach_loop s bs q w = (p', ok)" by simp
    from contents_kept_trans [OF A Cons.IH [OF this]] show ?thesis by simp
  qed (use Cons.prems ap A in auto)
qed

lemma retain_contents: "pool_retain b p w = (p', r) \<Longrightarrow> contents_kept {} p w p' w"
  by (auto simp: pool_retain_def Let_def contents_kept_def split: option.splits if_splits)

section \<open>Copy on write\<close>

text \<open>Rewriting the contents of one block through its own handle.\<close>

lemma block_rewrite_inv:
  assumes inv: "pool_inv ext H p w" and b: "bp_blocks p b = Some blk"
    and same: "cb_id blk' = cb_id blk" "cb_ref_count blk' = cb_ref_count blk"
      "cb_capacity_tokens blk' = cb_capacity_tokens blk" "cb_vector_len blk' = cb_vector_len blk"
    and wf: "cache_block_wf w' blk'"
    and ok: "arc_ok (kw_heap w')
      (add_mset (cb_storage blk') (pool_handles ((bp_blocks p)(b := None)) + H))"
    and get: "\<forall>c \<in># pool_handles ((bp_blocks p)(b := None)) + H.
      arc_get (kw_heap w') c = arc_get (kw_heap w) c"
  defines "q \<equiv> p\<lparr>bp_blocks := (bp_blocks p)(b \<mapsto> blk')\<rparr>"
  shows "pool_inv ext H q w'" and "touches_only {b} H p w q w'" and "ref_count_of q = ref_count_of p"
proof -
  note D = pool_invD [OF inv]
  have st: "storage_ok H q w'"
    unfolding q_def by (rule storage_ok_update [OF _ D(1) b wf same(3,4) ok get])
      (use inv in \<open>simp add: pool_inv_def\<close>)
  show rc: "ref_count_of q = ref_count_of p"
    using b same(2) by (auto simp: q_def fun_eq_iff ref_count_of_def)
  have "blocks_ok q" using inv b same(1,2) by (auto simp: q_def pool_inv_def blocks_ok_def)
  moreover have "sessions_ok q" using inv by (simp add: q_def pool_inv_def)
  moreover have "refs_exact ext q" using D(8) unfolding refs_exact_def rc by (simp add: q_def)
  ultimately show "pool_inv ext H q w'" using st by (simp add: pool_inv_def)
  show "touches_only {b} H p w q w'"
    by (rule touches_only_block [OF D(1) b get]) (simp add: q_def)
qed

lemma pool_uniform:
  assumes "pool_inv ext H p w" and "bp_blocks p b = Some x" and "bp_blocks p c = Some y"
  shows "cb_capacity_tokens x = cb_capacity_tokens y" and "cb_vector_len x = cb_vector_len y"
  using assms unfolding pool_inv_def storage_ok_def by metis+

text \<open>The entry \<open>i\<close> of a session's table replaced by a block the caller holds.\<close>

definition replaced_session :: "nat \<Rightarrow> nat \<Rightarrow> block_id \<Rightarrow> session_block_table \<Rightarrow> session_block_table" where
  "replaced_session access i b t =
     t\<lparr>sb_block_table := \<lparr>bt_blocks = (bt_blocks (sb_block_table t))[i := b]\<rparr>,
       sb_owned_blocks := set ((bt_blocks (sb_block_table t))[i := b]), sb_last_access := access\<rparr>"

lemma replace_owned_block_touch:
  assumes wf: "session_wf t" and b: "0 < b" and read: "session_read_block t i = Some a"
  shows "\<exists>t'. replace_owned_block i b t =
      (t', Ok (a, a \<notin> set ((bt_blocks (sb_block_table t))[i := b]))) \<and>
    session_touch access t' = replaced_session access i b t"
    and "session_wf (replaced_session access i b t)"
proof -
  note R = session_read_owned [OF wf read]
  have own: "sb_owned_blocks t = set (bt_blocks (sb_block_table t))" using wf by (simp add: session_wf_def)
  show "\<exists>t'. replace_owned_block i b t =
      (t', Ok (a, a \<notin> set ((bt_blocks (sb_block_table t))[i := b]))) \<and>
    session_touch access t' = replaced_session access i b t"
    using set_update_replaced [OF R(2), of b]
    unfolding replace_owned_block_valid [OF b R(2)] Let_def R(3) own replaced_session_def
    by (simp add: session_touch_def)
  have "0 \<notin> set ((bt_blocks (sb_block_table t))[i := b])"
    using wf b set_update_subset_insert [of "bt_blocks (sb_block_table t)" i b]
    by (auto simp: session_wf_def)
  with wf show "session_wf (replaced_session access i b t)"
    by (simp add: session_wf_def replaced_session_def)
qed

lemma cow_finish_inv:
  assumes inv: "pool_inv ext H p w" and t: "bp_sessions p s = Some t"
    and read: "session_read_block t i = Some a" and b: "ext b = 1" "b \<notin> sb_owned_blocks t"
    and res: "cow_finish s i a b c p w = (p', w', r)"
  shows "r = Ok b" and "pool_inv (ext(b := 0)) H p' w'" and "touches_only {a} H p w p' w'"
    and "bp_sessions p' = (bp_sessions p)(s \<mapsto> replaced_session c i b t)"
    and "ref_count_of p' = (ref_count_of p)
      (a := ref_count_of p a - of_bool (a \<notin> set ((bt_blocks (sb_block_table t))[i := b])))"
    and "keeps_live p w p' w'"
proof -
  note D = pool_invD [OF inv]
  have wf: "session_wf t" using D(7) [OF t] by simp
  note R = session_read_owned [OF wf read]
  have "0 < ref_count_of p b" using D(8) [of b] b(1) by simp
  then obtain blk where "bp_blocks p b = Some blk" by (rule live_block)
  then have b0: "0 < b" using D(4) by blast
  let ?ids = "(bt_blocks (sb_block_table t))[i := b]" and ?t = "replaced_session c i b t"
  let ?q = "p\<lparr>bp_sessions := (bp_sessions p)(s \<mapsto> ?t)\<rparr>"
  let ?gone = "a \<notin> set ?ids"
  obtain t' where rp: "replace_owned_block i b t = (t', Ok (a, ?gone))" "session_touch c t' = ?t"
    using replace_owned_block_touch(1) [OF wf b0 read] by blast
  have ab: "a \<noteq> b" using R(1) b(2) by auto
  let ?e = "(ext(b := 0))(a := ext a + of_bool ?gone)"
  have own: "sb_owned_blocks ?t = (if ?gone then insert b (sb_owned_blocks t) - {a} else insert b (sb_owned_blocks t))"
  proof -
    have "sb_owned_blocks ?t = set ?ids" by (simp add: replaced_session_def)
    moreover have "sb_owned_blocks t = set (bt_blocks (sb_block_table t))"
      using wf by (simp add: session_wf_def)
    ultimately show ?thesis using set_update_replaced [OF R(2), of b, unfolded R(3)] by metis
  qed
  have i1: "pool_inv ?e H ?q w"
  proof (rule session_update_inv [OF inv])
    show "session_wf ?t" using replace_owned_block_touch(2) [OF wf b0 read] .
    show "sb_session_id ?t = s" using D(7) [OF t] by (simp add: replaced_session_def)
    show "s < bp_next_session_id p" using inv t by (rule bound_session)
    show "?e x + of_bool (x \<in> sb_owned_blocks ?t) =
        ext x + (case bp_sessions p s of None \<Rightarrow> 0 | Some t \<Rightarrow> of_bool (x \<in> sb_owned_blocks t))" for x
      unfolding own using t ab b R(1) by auto
  qed
  have *: "r = Ok b \<and> pool_inv (ext(b := 0)) H p' w' \<and> touches_only {a} H p w p' w' \<and>
    bp_sessions p' = (bp_sessions p)(s \<mapsto> ?t) \<and>
    ref_count_of p' = (ref_count_of p)(a := ref_count_of p a - of_bool ?gone) \<and> keeps_live p w p' w'"
  proof (cases ?gone)
    case True
    obtain q v ok where rel: "pool_release a ?q w = (q, v, ok)" by (metis prod_cases3)
    have held: "0 < ?e a" using True by simp
    note P = pool_release_inv [OF i1 held rel]
    have e: "?e(a := ?e a - 1) = ext(b := 0)" using True ab by (simp add: fun_eq_iff)
    have r: "r = Ok b" "p' = q\<lparr>bp_metrics := record_cow_clone (bp_metrics q)\<rparr>" "w' = v"
      using res t rp True rel by (auto simp: cow_finish_def Let_def)
    have "keeps_live p w q v" using pool_release_keeps_live [OF P(3) rel] by simp
    moreover have "pool_inv (ext(b := 0)) H q v" using P(2) unfolding e .
    ultimately show ?thesis using True P(3,4,8) r by simp
  next
    case False
    then have "r = Ok b" "p' = ?q\<lparr>bp_metrics := record_cow_clone (bp_metrics p)\<rparr>" "w' = w"
      using res t rp by (auto simp: cow_finish_def Let_def)
    moreover have "?e = ext(b := 0)" using False ab by (simp add: fun_eq_iff)
    ultimately show ?thesis using False i1 by (simp add: keeps_live_def)
  qed
  then show "r = Ok b" "pool_inv (ext(b := 0)) H p' w'" "touches_only {a} H p w p' w'"
    "bp_sessions p' = (bp_sessions p)(s \<mapsto> replaced_session c i b t)"
    "ref_count_of p' = (ref_count_of p)(a := ref_count_of p a - of_bool ?gone)"
    "keeps_live p w p' w'"
    by blast+
qed

lemma cow_copy_inv:
  assumes inv: "pool_inv ext H p w" and t: "bp_sessions p s = Some t"
    and read: "session_read_block t i = Some a" and ne: "bp_free_list p \<noteq> []"
    and res: "cow_copy s i a p w = (p', w', r)"
  obtains b c src blk where "r = Ok b" and "pool_inv ext H p' w'"
    and "bp_sessions p' = (bp_sessions p)(s \<mapsto> replaced_session c i b t)"
    and "ref_count_of p b = 0"
    and "ref_count_of p' = (ref_count_of p)(b := 1,
      a := ref_count_of p a - of_bool (a \<notin> set ((bt_blocks (sb_block_table t))[i := b])))"
    and "bp_blocks p a = Some src" and "bp_blocks p' b = Some blk"
    and "block_rows w' blk = block_rows w src" and "cb_content_hash blk = cb_content_hash src"
    and "touches_only {a, b} H p w p' w'" and "a \<noteq> b" and "contents_kept {b} p w p' w'"
    and "b \<notin> sb_owned_blocks t"
proof -
  obtain p1 w1 r1 where al: "pool_allocate p w = (p1, w1, r1)" by (metis prod_cases3)
  obtain b d where A: "r1 = Some b" "pool_inv (ext(b := 1)) H p1 w1" "touches_only {b} H p w p1 w1"
      "bp_blocks p1 b = Some d" "cb_ref_count d = 1" "bp_sessions p1 = bp_sessions p"
    using pool_allocate_inv [OF inv ne al] by metis
  note C = allocate_ref_counts [OF inv ne al [unfolded A(1)]]
  have wf: "session_wf t" using pool_invD(7) [OF inv t] by simp
  have ref_a: "0 < ref_count_of p a"
    using inv t session_read_owned(1) [OF wf read] by (rule session_block_live)
  then have ab: "a \<noteq> b" using C(2) by auto
  obtain src where src: "bp_blocks p a = Some src" using ref_a by (rule live_block)
  let ?c = "sat_add (bp_access_clock p1) 1" and ?q = "p1\<lparr>bp_access_clock := sat_add (bp_access_clock p1) 1\<rparr>"
  have inv2: "pool_inv (ext(b := 1)) H ?q w1" using A(2) by simp
  have src1: "bp_blocks ?q a = Some src" and rows1: "block_rows w1 src = block_rows w src"
    using A(3) src ab by (auto simp: touches_only_def)
  have d2: "bp_blocks ?q b = Some d" using A(4) by simp
  note D2 = pool_invD [OF inv2]
  obtain e v rc where cp: "copy_contents_from src ?c d w1 = (e, v, rc)" by (metis prod_cases3)
  note K = copy_contents_from_ok [OF D2(5) [OF d2] D2(5) [OF src1] pool_arc_ok [OF inv2 d2] _
      pool_uniform [OF inv2 d2 src1] cp]
  have held: "cb_storage src \<in># pool_handles ((bp_blocks ?q)(b := None)) + H"
    using other_handle [OF D2(1) src1 ab] by simp
  note K = K [OF held]
  have f: "cb_id e = cb_id d" "cb_ref_count e = cb_ref_count d"
    "cb_capacity_tokens e = cb_capacity_tokens d" "cb_vector_len e = cb_vector_len d"
    "cb_content_hash e = cb_content_hash src"
    by (subst K(7), simp add: A(5))+
  let ?p3 = "?q\<lparr>bp_blocks := (bp_blocks ?q)(b \<mapsto> e)\<rparr>"
  note B = block_rewrite_inv [OF inv2 d2 f(1,2,3,4) K(2,5,6)]
  have fin: "cow_finish s i a b ?c ?p3 v = (p', w', r)"
    using res al A(1) ab src1 d2 cp K(1) by (simp add: cow_copy_def next_access_eq Let_def)
  have t3: "bp_sessions ?p3 s = Some t" using A(6) t by simp
  have nb: "b \<notin> sb_owned_blocks t"
    using C(2) session_block_live [OF inv t, of b] by auto
  have e1: "(ext(b := 1)) b = 1" by simp
  note F = cow_finish_inv [OF B(1) t3 read e1 nb fin]
  have ext: "(ext(b := 1))(b := 0) = ext" using C(3) by (simp add: fun_eq_iff)
  have rc3: "ref_count_of ?p3 = (ref_count_of p)(b := 1)"
    using B(3) C(1) by simp
  have e3: "bp_blocks ?p3 b = Some e" by simp
  have e': "bp_blocks p' b = Some e" "block_rows w' e = block_rows v e"
    using F(3) e3 ab unfolding touches_only_def by auto
  show thesis
  proof (rule that [of b ?c src e])
    show "pool_inv ext H p' w'" using F(2) unfolding ext .
    show "bp_sessions p' = (bp_sessions p)(s \<mapsto> replaced_session ?c i b t)"
      using F(4) A(6) by simp
    show "ref_count_of p' = (ref_count_of p)(b := 1,
      a := ref_count_of p a - of_bool (a \<notin> set ((bt_blocks (sb_block_table t))[i := b])))"
      using F(5) ab unfolding rc3 by simp
    show "block_rows w' e = block_rows w src" using e'(2) K(3) rows1 by simp
    have "touches_only {b} H p w ?p3 v"
      using touches_only_trans [OF A(3), of "{b}" ?p3 v] B(2) by simp
    then show "contents_kept {b} p w p' w'"
      using contents_kept_trans [OF touches_only_contents keeps_live_contents [OF F(6)]] by fastforce
    from touches_only_trans [OF \<open>touches_only {b} H p w ?p3 v\<close> F(3)] show "touches_only {a, b} H p w p' w'"
      by (simp add: insert_commute)
  qed (use F(1) C(2) src e' f(5) ab nb in auto)
qed

lemma live_ref_count_iff:
  "live_ref_count p b = (if 0 < ref_count_of p b then Some (ref_count_of p b) else None)"
  by (auto simp: live_ref_count_def ref_count_of_def split: option.split)

lemma replaced_session_same:
  assumes "session_wf t" and "session_read_block t i = Some a"
  shows "session_touch c t = replaced_session c i a t"
proof -
  note R = session_read_owned [OF assms]
  have "(bt_blocks (sb_block_table t))[i := a] = bt_blocks (sb_block_table t)"
    using R(3) by (metis list_update_id)
  with assms(1) show ?thesis
    by (cases "sb_block_table t") (simp add: replaced_session_def session_touch_def session_wf_def)
qed

text \<open>What a successful copy-on-write of entry \<open>i\<close> of session \<open>s\<close> achieves: the entry now names a
  block that nobody else references and that reads as the old one did.\<close>

definition cow_result ::
  "session_id \<Rightarrow> nat \<Rightarrow> block_id \<Rightarrow> session_block_table \<Rightarrow> block_pool \<Rightarrow> kv_world
     \<Rightarrow> block_id \<Rightarrow> block_pool \<Rightarrow> kv_world \<Rightarrow> bool" where
  "cow_result s i a t p w b p' w' \<longleftrightarrow>
     ref_count_of p' b = 1 \<and>
     (\<exists>c. bp_sessions p' s = Some (replaced_session c i b t)) \<and>
     (\<forall>s'. s' \<noteq> s \<longrightarrow> bp_sessions p' s' = bp_sessions p s' \<or> bp_sessions p' s' = None) \<and>
     (\<exists>src blk. bp_blocks p a = Some src \<and> bp_blocks p' b = Some blk \<and>
        block_rows w' blk = block_rows w src \<and> cb_content_hash blk = cb_content_hash src) \<and>
     contents_kept {b} p w p' w' \<and>
     (\<forall>x. ref_count_of p' x \<le> max (ref_count_of p x) 1) \<and>
     (b = a \<or> b \<notin> sb_owned_blocks t)"

lemma cow_touch_result:
  assumes inv: "pool_inv ext H p w" and t: "bp_sessions p s = Some t"
    and read: "session_read_block t i = Some a" and one: "ref_count_of p a = 1"
    and res: "touch_session_block s a p = (p', r)"
  shows "r = Ok ()" and "pool_inv ext H p' w" and "cow_result s i a t p w a p' w"
proof -
  have wf: "session_wf t" using pool_invD(7) [OF inv t] by simp
  have live: "0 < ref_count_of p a" using one by simp
  obtain blk where B: "r = Ok ()" "bp_blocks p a = Some blk"
    "p' = p\<lparr>bp_access_clock := sat_add (bp_access_clock p) 1,
      bp_sessions := (bp_sessions p)(s \<mapsto> session_touch (sat_add (bp_access_clock p) 1) t),
      bp_blocks := (bp_blocks p)(a \<mapsto> cb_touch (sat_add (bp_access_clock p) 1) blk)\<rparr>"
    "pool_inv ext H p' w" "ref_count_of p' = ref_count_of p"
    using inv t live res by (rule touch_session_block_inv)
  have blocks: "bp_blocks p' = (bp_blocks p)(a \<mapsto> cb_touch (sat_add (bp_access_clock p) 1) blk)"
    and sess: "bp_sessions p' = (bp_sessions p)(s \<mapsto> replaced_session (sat_add (bp_access_clock p) 1) i a t)"
    using replaced_session_same [OF wf read] by (simp_all add: B(3))
  have "contents_kept {a} p w p' w"
    using touch_contents [OF B(2) blocks] by (rule contents_kept_mono) simp
  moreover have "\<exists>src blk. bp_blocks p a = Some src \<and> bp_blocks p' a = Some blk \<and>
        block_rows w blk = block_rows w src \<and> cb_content_hash blk = cb_content_hash src"
    using B(2) unfolding blocks by simp
  ultimately show "cow_result s i a t p w a p' w"
    unfolding cow_result_def B(5) using one sess by auto
  show "r = Ok ()" "pool_inv ext H p' w" by (fact B)+
qed

lemma cow_result_after_eviction:
  assumes inv: "pool_inv ext H p w" and ev: "eviction_for s H p w q v"
    and live: "0 < ref_count_of q a" and res: "cow_result s i a t q v b p' w'"
  shows "cow_result s i a t p w b p' w'"
proof -
  have kept: "contents_kept {} p w q v"
    using ev keeps_live_contents unfolding eviction_for_def by blast
  obtain src where src: "bp_blocks q a = Some src" "ref_count_of q a = cb_ref_count src"
    using live by (rule live_block)
  obtain src0 where src0: "bp_blocks p a = Some src0" "block_rows v src = block_rows w src0"
    "cb_content_hash src = cb_content_hash src0"
    using kept src live unfolding contents_kept_def by fastforce
  note C = res [unfolded cow_result_def]
  have "\<exists>src blk. bp_blocks p a = Some src \<and> bp_blocks p' b = Some blk \<and>
        block_rows w' blk = block_rows w src \<and> cb_content_hash blk = cb_content_hash src"
    using C src(1) src0 by auto
  moreover have "contents_kept {b} p w p' w'"
    using C contents_kept_trans [OF kept] by fastforce
  moreover have "ref_count_of p' x \<le> max (ref_count_of p x) 1" for x
    using C ev unfolding eviction_for_def by (metis max.mono order_refl order_trans)
  moreover have "bp_sessions p' s' = bp_sessions p s' \<or> bp_sessions p' s' = None" if "s' \<noteq> s" for s'
  proof -
    have "bp_sessions q s' = bp_sessions p s' \<or> bp_sessions q s' = None"
      using ev unfolding eviction_for_def map_le_def by (metis domIff)
    then show ?thesis using C that by metis
  qed
  ultimately show ?thesis using C unfolding cow_result_def by blast
qed

lemma copy_on_write_inv:
  assumes inv: "pool_inv ext H p w" and it: "enumerates it" and t: "bp_sessions p s = Some t"
    and read: "session_read_block t i = Some a"
    and res: "copy_on_write_session_block it s i p w = (p', w', r)"
  obtains (Exclusive) b where "r = Ok b" and "pool_inv ext H p' w'" and "cow_result s i a t p w b p' w'"
      and "\<forall>x \<in># H. arc_get (kw_heap w') x = arc_get (kw_heap w) x"
  | (Full) "r = Err (CapacityExceeded 1 0)" and "pool_inv ext H p' w'" and "bp_free_list p' = []"
      and "eviction_for s H p w p' w'" and "1 < ref_count_of p' a"
      and "\<And>s' t'. bp_sessions p' s' = Some t' \<Longrightarrow> s' = s \<or> session_is_empty t'"
proof -
  have wf: "session_wf t" using pool_invD(7) [OF inv t] by simp
  have live: "0 < ref_count_of p a"
    using inv t session_read_owned(1) [OF wf read] by (rule session_block_live)
  show thesis
  proof (cases "ref_count_of p a = 1")
    case True
    obtain q r1 where tch: "touch_session_block s a p = (q, r1)" by fastforce
    note T = cow_touch_result [OF inv t read True tch]
    have "p' = q" "w' = w" "r = Ok a"
      using res t read True tch T(1) by (auto simp: copy_on_write_session_block_def live_ref_count_iff)
    with T show thesis by (intro Exclusive) auto
  next
    case False
    obtain q v where room: "(if bp_free_list p = [] then evict_sessions_until_free it s p w else (p, w)) = (q, v)"
      by fastforce
    note M = make_room_inv [OF inv it room]
    have views: "\<forall>x \<in># H. arc_get (kw_heap v) x = arc_get (kw_heap w) x"
      using M(2) unfolding eviction_for_def touches_only_def by blast
    have tq: "bp_sessions q s = Some t" using M(2) t by (simp add: eviction_for_def)
    have liveq: "0 < ref_count_of q a"
      using M(1) tq session_read_owned(1) [OF wf read] by (rule session_block_live)
    have res1: "(if ref_count_of q a = 1
        then case touch_session_block s a q of
               (p2, Ok _) \<Rightarrow> (p2, v, Ok a) | (p2, Err e) \<Rightarrow> (p2, v, Err e) | (p2, Panic) \<Rightarrow> (p2, v, Panic)
        else cow_copy s i a q v) = (p', w', r)"
      using res t read False live room liveq
      unfolding copy_on_write_session_block_def live_ref_count_iff by simp
    show thesis
    proof (cases "ref_count_of q a = 1")
      case True
      obtain q2 r1 where tch: "touch_session_block s a q = (q2, r1)" by fastforce
      note T = cow_touch_result [OF M(1) tq read True tch]
      have "p' = q2" "w' = v" "r = Ok a" using res1 True tch T(1) by auto
      with T views cow_result_after_eviction [OF inv M(2) liveq] show thesis by (intro Exclusive) auto
    next
      case shared: False
      then have copy: "cow_copy s i a q v = (p', w', r)" using res1 by simp
      show thesis
      proof (cases "bp_free_list q = []")
        case True
        then have "p' = q" "w' = v" "r = Err (CapacityExceeded 1 0)"
          using copy by (auto simp: cow_copy_def pool_allocate_empty)
        with True M shared liveq show thesis by (intro Full) auto
      next
        case free: False
        obtain b c src blk where K: "r = Ok b" "pool_inv ext H p' w'"
          "bp_sessions p' = (bp_sessions q)(s \<mapsto> replaced_session c i b t)"
          "ref_count_of p' = (ref_count_of q)(b := 1,
             a := ref_count_of q a - of_bool (a \<notin> set ((bt_blocks (sb_block_table t))[i := b])))"
          "bp_blocks q a = Some src" "bp_blocks p' b = Some blk"
          "block_rows w' blk = block_rows v src" "cb_content_hash blk = cb_content_hash src"
          "a \<noteq> b" "contents_kept {b} q v p' w'" "touches_only {a, b} H q v p' w'"
          "b \<notin> sb_owned_blocks t"
          using cow_copy_inv [OF M(1) tq read free copy] by metis
        have "cow_result s i a t q v b p' w'"
          unfolding cow_result_def using K(3,5,6,7,8,9,10,12) by (auto simp: K(4))
        moreover have "\<forall>x \<in># H. arc_get (kw_heap w') x = arc_get (kw_heap w) x"
          using K(11) views unfolding touches_only_def by simp
        ultimately show thesis
          using K(1,2) cow_result_after_eviction [OF inv M(2) liveq] by (intro Exclusive) auto
      qed
    qed
  qed
qed

lemma copy_on_write_missing:
  assumes "Option.bind (bp_sessions p s) (\<lambda>t. session_read_block t i) = None"
  shows "copy_on_write_session_block it s i p w = (p, w, Err InvalidShape)"
  using assms by (simp add: copy_on_write_session_block_def)

end
