(* ===== verification/Block_Pool_System.thy ===== *)
theory Block_Pool_System
  imports Block_Pool_Ops
begin

text \<open>
  The block pool as its clients drive it: a transition system whose steps are the public
  operations of \<open>BlockPool\<close>, in any order and with any arguments, together with the clients'
  use of what they were handed (references to release, cloned blocks to write into or drop).
  A client releases only references it holds, and through \<open>with_block_mut\<close> it uses the writing
  operations of a block, not the public counter operations. The invariant of \<open>Block_Pool_Inv\<close>
  holds in every reachable state, and the pool's properties follow from it.
\<close>

section \<open>Construction\<close>

definition fresh_blocks ::
  "nat \<Rightarrow> nat \<Rightarrow> (block_id \<rightharpoonup> cache_block) \<Rightarrow> block_id list \<Rightarrow> kv_world \<Rightarrow> bool" where
  "fresh_blocks cap vl blocks free w \<longleftrightarrow>
     finite (dom blocks) \<and> distinct free \<and> set free = dom blocks \<and> 0 < kw_next_block_id w \<and>
     arc_ok (kw_heap w) (pool_handles blocks) \<and>
     (\<forall>b blk. blocks b = Some blk \<longrightarrow> cb_id blk = b \<and> 0 < b \<and> b < kw_next_block_id w \<and>
        cb_ref_count blk = 0 \<and> cb_capacity_tokens blk = cap \<and> cb_vector_len blk = vl \<and>
        cache_block_wf w blk)"

lemma cache_block_new_fresh:
  assumes fr: "fresh_blocks cap vl blocks free w" and new: "cache_block_new cap vl w = (w', Ok b)"
  shows "fresh_blocks cap vl (blocks(cb_id b \<mapsto> b)) (free @ [cb_id b]) w'"
proof -
  note F = fr [unfolded fresh_blocks_def]
  let ?n = "kw_next_block_id w"
  obtain a h where ar: "arc_new (cache_block_storage_new (cap * vl)) (kw_heap w) = (a, h)" by fastforce
  have pre: "0 < cap" "0 < vl" "cap * vl \<le> u64_max" "?n < u64_max"
    and w': "w' = w\<lparr>kw_heap := h, kw_next_block_id := Suc ?n\<rparr>"
    and b: "b = \<lparr>cb_id = ?n, cb_revision = 0, cb_shared = False, cb_capacity_tokens = cap,
      cb_vector_len = vl, cb_token_count = 0, cb_ref_count = 0, cb_content_hash = None,
      cb_last_access = 0, cb_storage = a\<rparr>"
    using new ar F
    by (auto simp: cache_block_new_def checked_mul_def block_id_next_cases split: if_splits)
  have fresh: "blocks ?n = None" using F by (cases "blocks ?n") auto
  note N = arcs.new_ok [OF _ ar, of "pool_handles blocks"]
  have dom: "dom blocks = dom (blocks(?n := None))" using fresh by auto
  have h: "pool_handles (blocks(?n \<mapsto> b)) = add_mset a (pool_handles blocks)"
    using pool_handles_split(2) [of "blocks(?n \<mapsto> b)" ?n b b] pool_handles_split(1) [of "blocks(?n \<mapsto> b)" ?n b]
      F fresh by (simp add: b fun_upd_idem)
  have old: "cache_block_wf w' blk" if "blocks c = Some blk" for c blk
  proof -
    have "cb_storage blk \<in># pool_handles blocks" using F that by (simp add: pool_handles_member)
    then have "arc_get (kw_heap w') (cb_storage blk) = arc_get (kw_heap w) (cb_storage blk)"
      using N F by (auto simp: w')
    from wf_same_get(1) [OF this] show ?thesis using F that by blast
  qed
  have wfb: "cache_block_wf w' b"
    using pre N F by (simp add: b w' cache_block_wf_def cache_block_shape_def block_storage_def
        storage_shape_def cache_block_storage_new_def)
  have "arc_ok (kw_heap w') (pool_handles (blocks(cb_id b \<mapsto> b)))"
    using N F h by (simp add: b w')
  moreover have "?n \<notin> dom blocks" using fresh by auto
  ultimately show ?thesis
    using F old wfb unfolding fresh_blocks_def
    by (auto simp: b w' less_SucI)
qed

lemma block_pool_new_loop_fresh:
  assumes "fresh_blocks cap vl blocks free w"
    and "block_pool_new_loop n cap vl blocks free w = (w', Ok (blocks', free'))"
  shows "fresh_blocks cap vl blocks' free' w' \<and> length free' = length free + n"
  using assms
proof (induction n arbitrary: blocks free w)
  case 0
  then show ?case by simp
next
  case (Suc n)
  then obtain b v where new: "cache_block_new cap vl w = (v, Ok b)"
    and rest: "block_pool_new_loop n cap vl (blocks(cb_id b \<mapsto> b)) (free @ [cb_id b]) v = (w', Ok (blocks', free'))"
    by (auto split: prod.splits outcome.splits)
  from Suc.IH [OF cache_block_new_fresh [OF Suc.prems(1) new] rest] show ?case by simp
qed

lemma block_pool_new_inv:
  assumes w: "kw_heap w = empty_heap" "0 < kw_next_block_id w"
    and new: "block_pool_new n cap vl w = (w', Ok p)"
  shows "pool_inv (\<lambda>_. 0) {#} p w'" and "total_blocks p = n" and "free_blocks p = n"
    and "ref_count_of p = (\<lambda>_. 0)"
proof -
  obtain blocks free where loop: "block_pool_new_loop n cap vl Map.empty [] w = (w', Ok (blocks, free))"
    and p: "p = \<lparr>bp_blocks = blocks, bp_free_list = free, bp_prefixes = Map.empty,
      bp_sessions = Map.empty, bp_next_session_id = 1, bp_access_clock = 0, bp_metrics = metrics_default\<rparr>"
    using new by (auto simp: block_pool_new_def split: if_splits prod.splits outcome.splits)
  have "fresh_blocks cap vl Map.empty [] w"
    using w arc_ok_empty by (simp add: fresh_blocks_def pool_handles_def)
  note L = block_pool_new_loop_fresh [OF this loop]
  then have F: "fresh_blocks cap vl blocks free w'" and len: "length free = n" by auto
  show rc: "ref_count_of p = (\<lambda>_. 0)"
    using F by (auto simp: fun_eq_iff ref_count_of_def p fresh_blocks_def split: option.split)
  have "blocks_ok p" using F by (auto simp: blocks_ok_def fresh_blocks_def p)
  moreover have "sessions_ok p" by (simp add: sessions_ok_def p)
  moreover have "refs_exact (\<lambda>_. 0) p" unfolding refs_exact_def rc by (simp add: p owners_def)
  moreover have "storage_ok {#} p w'" using F unfolding storage_ok_def fresh_blocks_def by (auto simp: p)
  ultimately show "pool_inv (\<lambda>_. 0) {#} p w'" by (simp add: pool_inv_def)
  show "free_blocks p = n" using len by (simp add: free_blocks_def p)
  show "total_blocks p = n"
    using F len distinct_card [of free] by (simp add: total_blocks_def p fresh_blocks_def)
qed

section \<open>The system\<close>

record pool_system =
  sys_pool :: block_pool
  sys_world :: kv_world
  sys_ext :: "block_id \<Rightarrow> nat"
  sys_clones :: "cache_block list"

datatype pool_action =
    ActAllocate
  | ActRetain block_id
  | ActRelease block_id
  | ActTouch block_id
  | ActWrite block_id "block_op list"
  | ActCreateSession
  | ActReleaseSession session_id
  | ActAllocateFor session_id
  | ActAppendTo session_id block_id
  | ActReadBlock session_id nat
  | ActRegisterPrefix cache_block_hash "block_id list"
  | ActAttachPrefix session_id cache_block_hash
  | ActCopyOnWrite session_id nat
  | ActClone block_id
  | ActWriteClone nat "block_op list"
  | ActDropClone nat

fun writing_op :: "block_op \<Rightarrow> bool" where
  "writing_op (OpAppend _ _) = True"
| "writing_op (OpWriteAt _ _ _) = True"
| "writing_op OpClear = False"
| "writing_op (OpReset _) = False"
| "writing_op (OpTouch _) = True"
| "writing_op (OpSetHash _) = True"

fun permitted :: "pool_action \<Rightarrow> pool_system \<Rightarrow> bool" where
  "permitted (ActRelease b) y = (0 < sys_ext y b)"
| "permitted (ActWrite b ops) y = list_all writing_op ops"
| "permitted (ActWriteClone i ops) y = (i < length (sys_clones y))"
| "permitted (ActDropClone i) y = (i < length (sys_clones y))"
| "permitted _ y = True"

fun exec :: "id_order \<Rightarrow> pool_action \<Rightarrow> pool_system \<Rightarrow> pool_system" where
  "exec it ActAllocate y =
     (case pool_allocate (sys_pool y) (sys_world y) of
        (p, w, None) \<Rightarrow> y\<lparr>sys_pool := p, sys_world := w\<rparr>
      | (p, w, Some b) \<Rightarrow>
          y\<lparr>sys_pool := p, sys_world := w, sys_ext := (sys_ext y)(b := Suc (sys_ext y b))\<rparr>)"
| "exec it (ActRetain b) y =
     (case pool_retain b (sys_pool y) (sys_world y) of
        (p, ok) \<Rightarrow> y\<lparr>sys_pool := p,
          sys_ext := (if ok then (sys_ext y)(b := Suc (sys_ext y b)) else sys_ext y)\<rparr>)"
| "exec it (ActRelease b) y =
     (case pool_release b (sys_pool y) (sys_world y) of
        (p, w, _) \<Rightarrow> y\<lparr>sys_pool := p, sys_world := w, sys_ext := (sys_ext y)(b := sys_ext y b - 1)\<rparr>)"
| "exec it (ActTouch b) y = y\<lparr>sys_pool := fst (pool_touch b (sys_pool y))\<rparr>"
| "exec it (ActWrite b ops) y =
     (case with_block_mut b (apply_block_ops ops) (sys_pool y) (sys_world y) of
        (p, w, _) \<Rightarrow> y\<lparr>sys_pool := p, sys_world := w\<rparr>)"
| "exec it ActCreateSession y = y\<lparr>sys_pool := fst (create_session (sys_pool y))\<rparr>"
| "exec it (ActReleaseSession s) y =
     (case release_session it s (sys_pool y) (sys_world y) of
        (p, w, _) \<Rightarrow> y\<lparr>sys_pool := p, sys_world := w\<rparr>)"
| "exec it (ActAllocateFor s) y =
     (case allocate_for_session it s (sys_pool y) (sys_world y) of
        (p, w, _) \<Rightarrow> y\<lparr>sys_pool := p, sys_world := w\<rparr>)"
| "exec it (ActAppendTo s b) y =
     y\<lparr>sys_pool := fst (append_block_to_session s b (sys_pool y) (sys_world y))\<rparr>"
| "exec it (ActReadBlock s i) y = y\<lparr>sys_pool := fst (read_session_block s i (sys_pool y))\<rparr>"
| "exec it (ActRegisterPrefix h ids) y = y\<lparr>sys_pool := register_prefix h ids (sys_pool y)\<rparr>"
| "exec it (ActAttachPrefix s h) y =
     y\<lparr>sys_pool := fst (attach_prefix_to_session s h (sys_pool y) (sys_world y))\<rparr>"
| "exec it (ActCopyOnWrite s i) y =
     (case copy_on_write_session_block it s i (sys_pool y) (sys_world y) of
        (p, w, _) \<Rightarrow> y\<lparr>sys_pool := p, sys_world := w\<rparr>)"
| "exec it (ActClone b) y =
     (case pool_block_cloned b (sys_pool y) (sys_world y) of
        (w, None) \<Rightarrow> y\<lparr>sys_world := w\<rparr>
      | (w, Some c) \<Rightarrow> y\<lparr>sys_world := w, sys_clones := c # sys_clones y\<rparr>)"
| "exec it (ActWriteClone i ops) y =
     (case apply_block_ops ops (sys_clones y ! i) (sys_world y) of
        (c, w) \<Rightarrow> y\<lparr>sys_world := w, sys_clones := (sys_clones y)[i := c]\<rparr>)"
| "exec it (ActDropClone i) y =
     y\<lparr>sys_world := (sys_world y)\<lparr>kw_heap := arc_drop (cb_storage (sys_clones y ! i)) (kw_heap (sys_world y))\<rparr>,
       sys_clones := take i (sys_clones y) @ drop (Suc i) (sys_clones y)\<rparr>"

inductive pool_step :: "pool_system \<Rightarrow> pool_system \<Rightarrow> bool" where
  pool_act: "enumerates it \<Longrightarrow> permitted a y \<Longrightarrow> pool_step y (exec it a y)"

definition pool_start :: "pool_system \<Rightarrow> bool" where
  "pool_start y \<longleftrightarrow>
     (\<exists>n cap vl w0. kw_heap w0 = empty_heap \<and> 0 < kw_next_block_id w0 \<and>
        block_pool_new n cap vl w0 = (sys_world y, Ok (sys_pool y)) \<and>
        sys_ext y = (\<lambda>_. 0) \<and> sys_clones y = [])"

definition clone_handles :: "cache_block list \<Rightarrow> nat multiset" where
  "clone_handles cs = mset (map cb_storage cs)"

definition sys_inv :: "nat \<Rightarrow> pool_system \<Rightarrow> bool" where
  "sys_inv n y \<longleftrightarrow>
     pool_inv (sys_ext y) (clone_handles (sys_clones y)) (sys_pool y) (sys_world y) \<and>
     (\<forall>b. ref_count_of (sys_pool y) b \<le> n) \<and>
     (\<forall>c \<in> set (sys_clones y). cache_block_wf (sys_world y) c)"

section \<open>Every step keeps the invariant\<close>

lemma sys_inv_pool_step:
  assumes y: "sys_inv n y"
    and inv: "pool_inv ext' (clone_handles (sys_clones y)) p' w'"
    and refs: "\<And>b. ref_count_of p' b \<le> Suc n"
    and views: "\<forall>x \<in># clone_handles (sys_clones y). arc_get (kw_heap w') x = arc_get (kw_heap (sys_world y)) x"
  shows "sys_inv (Suc n) (y\<lparr>sys_pool := p', sys_world := w', sys_ext := ext'\<rparr>)"
proof -
  have "cache_block_wf w' c" if c: "c \<in> set (sys_clones y)" for c
  proof -
    have "cb_storage c \<in># clone_handles (sys_clones y)" using c by (simp add: clone_handles_def)
    then have "arc_get (kw_heap w') (cb_storage c) = arc_get (kw_heap (sys_world y)) (cb_storage c)"
      using views by blast
    from wf_same_get(1) [OF this] show ?thesis using y c by (simp add: sys_inv_def)
  qed
  with inv refs show ?thesis by (simp add: sys_inv_def)
qed

lemma sys_inv_same_ext:
  assumes y: "sys_inv n y" and inv: "pool_inv (sys_ext y) (clone_handles (sys_clones y)) p' w'"
    and refs: "\<And>b. ref_count_of p' b \<le> Suc n"
    and views: "\<forall>x \<in># clone_handles (sys_clones y). arc_get (kw_heap w') x = arc_get (kw_heap (sys_world y)) x"
  shows "sys_inv (Suc n) (y\<lparr>sys_pool := p', sys_world := w'\<rparr>)"
  using sys_inv_pool_step [OF assms] by simp

lemma sys_inv_same_world:
  assumes y: "sys_inv n y"
    and inv: "pool_inv (sys_ext y) (clone_handles (sys_clones y)) p' (sys_world y)"
    and refs: "\<And>b. ref_count_of p' b \<le> Suc n"
  shows "sys_inv (Suc n) (y\<lparr>sys_pool := p'\<rparr>)"
  using sys_inv_same_ext [OF y inv refs] by simp

lemma sys_invD:
  assumes "sys_inv n y"
  shows "pool_inv (sys_ext y) (clone_handles (sys_clones y)) (sys_pool y) (sys_world y)"
    and "ref_count_of (sys_pool y) b \<le> n" and "ref_count_of (sys_pool y) b \<le> Suc n"
    and "c \<in> set (sys_clones y) \<Longrightarrow> cache_block_wf (sys_world y) c"
  using assms by (auto simp: sys_inv_def le_SucI)

lemma touches_only_views:
  "touches_only B H p w p' w' \<Longrightarrow> \<forall>x \<in># H. arc_get (kw_heap w') x = arc_get (kw_heap w) x"
  by (simp add: touches_only_def)

lemma world_change_inv:
  assumes inv: "pool_inv ext H p w" and ok: "arc_ok (kw_heap w') (pool_handles (bp_blocks p) + H')"
    and get: "\<forall>x \<in># pool_handles (bp_blocks p). arc_get (kw_heap w') x = arc_get (kw_heap w) x"
  shows "pool_inv ext H' p w'"
proof -
  have "cache_block_wf w' blk" if b: "bp_blocks p b = Some blk" for b blk
  proof -
    have "cb_storage blk \<in># pool_handles (bp_blocks p)"
      using pool_invD(1) [OF inv] b by (rule pool_handles_member)
    with get have "arc_get (kw_heap w') (cb_storage blk) = arc_get (kw_heap w) (cb_storage blk)" by blast
    from wf_same_get(1) [OF this] pool_invD(5) [OF inv b] show ?thesis by simp
  qed
  with inv ok show ?thesis unfolding pool_inv_def storage_ok_def by blast
qed

lemma exec_allocate_inv:
  assumes y: "sys_inv n y"
  shows "sys_inv (Suc n) (exec it ActAllocate y)"
proof (cases "bp_free_list (sys_pool y) = []")
  case True
  then show ?thesis
    using sys_inv_same_ext [OF y sys_invD(1) [OF y] sys_invD(3) [OF y]] by (simp add: pool_allocate_empty)
next
  case False
  note inv = sys_invD(1) [OF y]
  obtain p w r where al: "pool_allocate (sys_pool y) (sys_world y) = (p, w, r)" by (metis prod_cases3)
  obtain b where A: "r = Some b" "pool_inv ((sys_ext y)(b := 1)) (clone_handles (sys_clones y)) p w"
    "touches_only {b} (clone_handles (sys_clones y)) (sys_pool y) (sys_world y) p w"
    using pool_allocate_inv [OF inv False al] by metis
  note C = allocate_ref_counts [OF inv False al [unfolded A(1)]]
  have "ref_count_of p c \<le> Suc n" for c using sys_invD(3) [OF y] by (simp add: C(1))
  from sys_inv_pool_step [OF y A(2) this touches_only_views [OF A(3)]] show ?thesis
    using al A(1) C(3) by simp
qed

lemma exec_retain_inv:
  assumes y: "sys_inv n y" and n: "n < u64_max"
  shows "sys_inv (Suc n) (exec it (ActRetain b) y)"
proof -
  obtain p ok where r: "pool_retain b (sys_pool y) (sys_world y) = (p, ok)" by fastforce
  have u: "unsaturated (sys_pool y)"
    using sys_invD(2) [OF y] n unfolding unsaturated_def by (meson le_less_trans)
  note R = pool_retain_inv [OF sys_invD(1) [OF y] u r]
  have "ref_count_of p c \<le> Suc n" for c
    using R(3,4) sys_invD(2,3) [OF y] by (cases ok) auto
  from sys_inv_pool_step [OF y R(1) this] show ?thesis using r by simp
qed

lemma exec_release_inv:
  assumes y: "sys_inv n y" and held: "0 < sys_ext y b"
  shows "sys_inv (Suc n) (exec it (ActRelease b) y)"
proof -
  obtain p w ok where r: "pool_release b (sys_pool y) (sys_world y) = (p, w, ok)" by (metis prod_cases3)
  note R = pool_release_inv [OF sys_invD(1) [OF y] held r]
  have "ref_count_of p c \<le> Suc n" for c
    using sys_invD(3) [OF y, of c] R(8) by (auto simp: le_diff_conv)
  from sys_inv_pool_step [OF y R(2) this touches_only_views [OF R(3)]] show ?thesis using r by simp
qed

lemma writing_ops_frame:
  assumes "list_all writing_op ops" and "apply_block_ops ops b w = (b', w')"
  shows "cb_id b' = cb_id b \<and> cb_ref_count b' = cb_ref_count b \<and>
    cb_capacity_tokens b' = cb_capacity_tokens b \<and> cb_vector_len b' = cb_vector_len b"
  using assms
proof (induction ops arbitrary: b w)
  case Nil
  then show ?case by simp
next
  case (Cons x xs)
  obtain b1 w1 where 1: "apply_block_op x b w = (b1, w1)" by fastforce
  have "cb_id b1 = cb_id b \<and> cb_ref_count b1 = cb_ref_count b \<and>
      cb_capacity_tokens b1 = cb_capacity_tokens b \<and> cb_vector_len b1 = cb_vector_len b"
    using 1 Cons.prems(1)
    by (cases x) (auto simp: cache_block_append_def cache_block_write_at_def write_token_rows_def
        cb_touch_def set_content_hash_def Let_def
        split: prod.splits outcome.splits option.splits if_splits)
  with Cons 1 show ?case by simp
qed

lemma with_block_mut_inv:
  assumes inv: "pool_inv ext H p w" and ops: "list_all writing_op ops"
    and res: "with_block_mut b (apply_block_ops ops) p w = (p', w', r)"
  shows "pool_inv ext H p' w'" and "ref_count_of p' = ref_count_of p"
    and "touches_only {b} H p w p' w'" and "r \<longleftrightarrow> ref_count_of p b = 1"
    and "\<not> r \<Longrightarrow> p' = p \<and> w' = w"
proof -
  have *: "pool_inv ext H p' w' \<and> ref_count_of p' = ref_count_of p \<and> touches_only {b} H p w p' w' \<and>
    (r \<longleftrightarrow> ref_count_of p b = 1) \<and> (\<not> r \<longrightarrow> p' = p \<and> w' = w)"
  proof (cases "ref_count_of p b = 1")
    case False
    then have "p' = p" "w' = w" "\<not> r"
      using res by (auto simp: with_block_mut_def pool_block_mut_def ref_count_of_def
          split: option.splits if_splits)
    with False inv show ?thesis by simp
  next
    case True
    then have "0 < ref_count_of p b" by simp
    then obtain blk where blk: "bp_blocks p b = Some blk" "ref_count_of p b = cb_ref_count blk"
      by (rule live_block)
    obtain blk' v where ap: "apply_block_ops ops blk w = (blk', v)" by fastforce
    have r: "p' = p\<lparr>bp_blocks := (bp_blocks p)(b \<mapsto> blk')\<rparr>" "w' = v" "r"
      using res True blk ap by (auto simp: with_block_mut_def pool_block_mut_def)
    note F = apply_block_ops_frame [OF pool_invD(5) [OF inv blk(1)] pool_arc_ok [OF inv blk(1)] ap]
    note W = writing_ops_frame [OF ops ap]
    have B: "pool_inv ext H p' w'" "touches_only {b} H p w p' w'" "ref_count_of p' = ref_count_of p"
      unfolding r(1,2) by (rule block_rewrite_inv [OF inv blk(1), where w' = v]; use W F in simp)+
    with r(3) True show ?thesis by simp
  qed
  then show "pool_inv ext H p' w'" "ref_count_of p' = ref_count_of p"
    "touches_only {b} H p w p' w'" "r \<longleftrightarrow> ref_count_of p b = 1"
    "\<not> r \<Longrightarrow> p' = p \<and> w' = w" by blast+
qed

lemma exec_write_inv:
  assumes y: "sys_inv n y" and ops: "list_all writing_op ops"
  shows "sys_inv (Suc n) (exec it (ActWrite b ops) y)"
proof -
  obtain p w ok where r: "with_block_mut b (apply_block_ops ops) (sys_pool y) (sys_world y) = (p, w, ok)"
    by (metis prod_cases3)
  note R = with_block_mut_inv [OF sys_invD(1) [OF y] ops r]
  have "ref_count_of p c \<le> Suc n" for c using sys_invD(3) [OF y] by (simp add: R(2))
  from sys_inv_same_ext [OF y R(1) this touches_only_views [OF R(3)]] show ?thesis using r by simp
qed

lemma exec_create_session_inv:
  assumes y: "sys_inv n y"
  shows "sys_inv (Suc n) (exec it ActCreateSession y)"
proof -
  obtain p r where c: "create_session (sys_pool y) = (p, r)" by fastforce
  note R = create_session_inv [OF sys_invD(1) [OF y] c]
  have "ref_count_of p b \<le> Suc n" for b using sys_invD(3) [OF y] by (simp add: R(2))
  from sys_inv_same_world [OF y R(1) this] show ?thesis using c by simp
qed

lemma exec_release_session_inv:
  assumes y: "sys_inv n y" and it: "enumerates it"
  shows "sys_inv (Suc n) (exec it (ActReleaseSession s) y)"
proof (cases "bp_sessions (sys_pool y) s")
  case None
  then show ?thesis
    using sys_inv_same_ext [OF y sys_invD(1) [OF y] sys_invD(3) [OF y]]
    by (simp add: release_session_def release_session_inner_missing)
next
  case (Some t)
  obtain p w r where r: "release_session_inner it s (sys_pool y) (sys_world y) = (p, w, r)"
    by (metis prod_cases3)
  note R = release_session_inner_inv [OF sys_invD(1) [OF y] it Some r]
  have "ref_count_of p b \<le> Suc n" for b
    using sys_invD(3) [OF y, of b] by (simp add: R(7) le_diff_conv)
  from sys_inv_same_ext [OF y R(2) this touches_only_views [OF R(3)]] show ?thesis
    using r by (simp add: release_session_def)
qed

lemma exec_allocate_for_inv:
  assumes y: "sys_inv n y" and it: "enumerates it"
  shows "sys_inv (Suc n) (exec it (ActAllocateFor s) y)"
proof (cases "bp_sessions (sys_pool y) s")
  case None
  then show ?thesis
    using sys_inv_same_ext [OF y sys_invD(1) [OF y] sys_invD(3) [OF y]]
    by (simp add: allocate_for_session_def)
next
  case (Some t)
  let ?H = "clone_handles (sys_clones y)"
  obtain p w r where r: "allocate_for_session it s (sys_pool y) (sys_world y) = (p, w, r)"
    by (metis prod_cases3)
  have "pool_inv (sys_ext y) ?H p w \<and> (\<forall>b. ref_count_of p b \<le> Suc n) \<and>
    (\<forall>x \<in># ?H. arc_get (kw_heap w) x = arc_get (kw_heap (sys_world y)) x)"
  proof (rule allocate_for_session_inv [OF sys_invD(1) [OF y] it Some r])
    assume a: "pool_inv (sys_ext y) ?H p w" "eviction_for s ?H (sys_pool y) (sys_world y) p w"
    have "ref_count_of p b \<le> Suc n" for b
      using a(2) sys_invD(3) [OF y, of b] unfolding eviction_for_def by (meson le_trans)
    with a show ?thesis using touches_only_views unfolding eviction_for_def by blast
  next
    fix b q v blk
    assume a: "pool_inv (sys_ext y) ?H p w" "eviction_for s ?H (sys_pool y) (sys_world y) q v"
      "touches_only {b} ?H q v p w" "ref_count_of p = (ref_count_of q)(b := 1)"
    have "ref_count_of q c \<le> Suc n" for c
      using a(2) sys_invD(3) [OF y, of c] unfolding eviction_for_def by (meson le_trans)
    then have "ref_count_of p c \<le> Suc n" for c by (simp add: a(4))
    moreover have "\<forall>x \<in># ?H. arc_get (kw_heap w) x = arc_get (kw_heap (sys_world y)) x"
      using touches_only_views [OF a(3)] a(2) unfolding eviction_for_def touches_only_def by simp
    ultimately show ?thesis using a(1) by blast
  qed
  then show ?thesis using sys_inv_same_ext [OF y, of p w] r by simp
qed

lemma exec_append_inv:
  assumes y: "sys_inv n y" and n: "n < u64_max"
  shows "sys_inv (Suc n) (exec it (ActAppendTo s b) y)"
proof -
  let ?p = "sys_pool y" and ?w = "sys_world y"
  note inv = sys_invD(1) [OF y]
  obtain p r where ap: "append_block_to_session_inner s b True ?p ?w = (p, r)" by fastforce
  have "pool_inv (sys_ext y) (clone_handles (sys_clones y)) p ?w \<and> (\<forall>c. ref_count_of p c \<le> Suc n)"
  proof (cases "bp_sessions ?p s = None \<or> ref_count_of ?p b = 0")
    case True
    with append_error_inv [OF inv True ap] sys_invD(3) [OF y] show ?thesis by simp
  next
    case False
    then obtain t where t: "bp_sessions ?p s = Some t" and live: "0 < ref_count_of ?p b" by auto
    have u: "unsaturated ?p" using sys_invD(2) [OF y] n unfolding unsaturated_def by (meson le_less_trans)
    note A = append_retained_inv [OF inv u t live ap]
    have "ref_count_of p c \<le> Suc n" for c
      using sys_invD(2,3) [OF y] by (auto simp: A(4) of_bool_def)
    with A(2) show ?thesis by blast
  qed
  then show ?thesis using sys_inv_same_world [OF y, of p] ap by (simp add: append_block_to_session_def)
qed

lemma exec_cow_inv:
  assumes y: "sys_inv n y" and it: "enumerates it"
  shows "sys_inv (Suc n) (exec it (ActCopyOnWrite s i) y)"
proof (cases "Option.bind (bp_sessions (sys_pool y) s) (\<lambda>t. session_read_block t i)")
  case None
  then show ?thesis
    using sys_inv_same_ext [OF y sys_invD(1) [OF y] sys_invD(3) [OF y]]
    by (simp add: copy_on_write_missing)
next
  case (Some a)
  then obtain t where t: "bp_sessions (sys_pool y) s = Some t" and rd: "session_read_block t i = Some a"
    by (auto simp: bind_eq_Some_conv)
  let ?H = "clone_handles (sys_clones y)"
  obtain p w r where r: "copy_on_write_session_block it s i (sys_pool y) (sys_world y) = (p, w, r)"
    by (metis prod_cases3)
  have "pool_inv (sys_ext y) ?H p w \<and> (\<forall>b. ref_count_of p b \<le> Suc n) \<and>
    (\<forall>x \<in># ?H. arc_get (kw_heap w) x = arc_get (kw_heap (sys_world y)) x)"
  proof (rule copy_on_write_inv [OF sys_invD(1) [OF y] it t rd r])
    fix b
    assume a: "pool_inv (sys_ext y) ?H p w" "cow_result s i a t (sys_pool y) (sys_world y) b p w"
      "\<forall>x \<in># ?H. arc_get (kw_heap w) x = arc_get (kw_heap (sys_world y)) x"
    have "ref_count_of p x \<le> Suc n" for x
    proof -
      have "ref_count_of p x \<le> max (ref_count_of (sys_pool y) x) 1"
        using a(2) unfolding cow_result_def by blast
      also have "\<dots> \<le> Suc n" using sys_invD(3) [OF y, of x] by simp
      finally show ?thesis .
    qed
    with a show ?thesis by blast
  next
    assume a: "pool_inv (sys_ext y) ?H p w" "eviction_for s ?H (sys_pool y) (sys_world y) p w"
    have "ref_count_of p b \<le> Suc n" for b
      using a(2) sys_invD(3) [OF y, of b] unfolding eviction_for_def by (meson le_trans)
    with a show ?thesis using touches_only_views unfolding eviction_for_def by blast
  qed
  then show ?thesis using sys_inv_same_ext [OF y, of p w] r by simp
qed

text \<open>Cloned blocks.\<close>

lemma clone_handles_Cons: "clone_handles (c # cs) = add_mset (cb_storage c) (clone_handles cs)"
  by (simp add: clone_handles_def)

lemma clone_handles_update:
  "i < length cs \<Longrightarrow> clone_handles (cs[i := c]) =
     add_mset (cb_storage c) (clone_handles (take i cs @ drop (Suc i) cs))"
  by (simp add: clone_handles_def upd_conv_take_nth_drop)

lemma clone_handles_remove:
  "i < length cs \<Longrightarrow> clone_handles cs =
     add_mset (cb_storage (cs ! i)) (clone_handles (take i cs @ drop (Suc i) cs))"
  using clone_handles_update [of i cs "cs ! i"] by simp

lemma exec_clone_inv:
  assumes y: "sys_inv n y"
  shows "sys_inv (Suc n) (exec it (ActClone b) y)"
proof (cases "bp_blocks (sys_pool y) b")
  case None
  then show ?thesis
    using sys_inv_same_ext [OF y sys_invD(1) [OF y] sys_invD(3) [OF y]]
    by (simp add: pool_block_cloned_def pool_block_def)
next
  case (Some blk)
  note inv = sys_invD(1) [OF y]
  let ?P = "pool_handles (bp_blocks (sys_pool y))" and ?H = "clone_handles (sys_clones y)"
  let ?w = "(sys_world y)\<lparr>kw_heap := arc_clone (cb_storage blk) (kw_heap (sys_world y))\<rparr>"
  have ok: "arc_ok (kw_heap (sys_world y)) (?P + ?H)" using inv by (simp add: pool_inv_def storage_ok_def)
  have held: "cb_storage blk \<in># ?P + ?H" using pool_handles_member [OF pool_invD(1) [OF inv] Some] by simp
  note C = arcs.clone_ok [OF ok held]
  have wf: "cache_block_wf ?w c = cache_block_wf (sys_world y) c" for c
    by (rule wf_same_get(1)) (simp add: C)
  have "pool_inv (sys_ext y) (add_mset (cb_storage blk) ?H) (sys_pool y) ?w"
    by (rule world_change_inv [OF inv]) (use C in simp_all)
  moreover have "cache_block_wf ?w (blk\<lparr>cb_shared := True\<rparr>)"
    using pool_invD(5) [OF inv Some] wf [of blk]
    by (simp add: cache_block_wf_def cache_block_shape_def block_storage_def)
  ultimately show ?thesis
    using Some sys_invD(3,4) [OF y] wf
    by (simp add: sys_inv_def pool_block_cloned_def pool_block_def cache_block_clone_def clone_handles_Cons)
qed

lemma remove_clone_inv:
  assumes y: "sys_inv n y" and i: "i < length (sys_clones y)"
  defines "rest \<equiv> take i (sys_clones y) @ drop (Suc i) (sys_clones y)"
  assumes ok: "arc_ok (kw_heap w) (pool_handles (bp_blocks (sys_pool y)) + (clone_handles rest + K))"
    and get: "\<And>x. x \<in># pool_handles (bp_blocks (sys_pool y)) + clone_handles rest \<Longrightarrow>
      arc_get (kw_heap w) x = arc_get (kw_heap (sys_world y)) x"
  shows "pool_inv (sys_ext y) (clone_handles rest + K) (sys_pool y) w"
    and "c \<in> set rest \<Longrightarrow> cache_block_wf w c"
proof -
  show "pool_inv (sys_ext y) (clone_handles rest + K) (sys_pool y) w"
    by (rule world_change_inv [OF sys_invD(1) [OF y] ok]) (use get in simp)
  show "cache_block_wf w c" if c: "c \<in> set rest"
  proof -
    have "cb_storage c \<in># clone_handles rest" using c by (simp add: clone_handles_def)
    then have "arc_get (kw_heap w) (cb_storage c) = arc_get (kw_heap (sys_world y)) (cb_storage c)"
      using get by simp
    from wf_same_get(1) [OF this] show ?thesis
      using sys_invD(4) [OF y, of c] c by (auto simp: rest_def dest: in_set_takeD in_set_dropD)
  qed
qed

lemma exec_drop_clone_inv:
  assumes y: "sys_inv n y" and i: "i < length (sys_clones y)"
  shows "sys_inv (Suc n) (exec it (ActDropClone i) y)"
proof -
  let ?c = "sys_clones y ! i" and ?rest = "take i (sys_clones y) @ drop (Suc i) (sys_clones y)"
  let ?P = "pool_handles (bp_blocks (sys_pool y))"
  let ?w = "(sys_world y)\<lparr>kw_heap := arc_drop (cb_storage ?c) (kw_heap (sys_world y))\<rparr>"
  have ok: "arc_ok (kw_heap (sys_world y)) (add_mset (cb_storage ?c) (?P + clone_handles ?rest))"
    using sys_invD(1) [OF y] clone_handles_remove [OF i] by (simp add: pool_inv_def storage_ok_def)
  note D = arcs.drop_ok [OF ok, of "cb_storage ?c"]
  have dok: "arc_ok (kw_heap ?w) (?P + (clone_handles ?rest + {#}))" using D by simp
  have dget: "arc_get (kw_heap ?w) x = arc_get (kw_heap (sys_world y)) x"
    if "x \<in># ?P + clone_handles ?rest" for x using D [of x] that by auto
  note R = remove_clone_inv [OF y i dok dget]
  show ?thesis using R sys_invD(3) [OF y] by (simp add: sys_inv_def)
qed

lemma exec_write_clone_inv:
  assumes y: "sys_inv n y" and i: "i < length (sys_clones y)"
  shows "sys_inv (Suc n) (exec it (ActWriteClone i ops) y)"
proof -
  let ?c = "sys_clones y ! i" and ?rest = "take i (sys_clones y) @ drop (Suc i) (sys_clones y)"
  let ?P = "pool_handles (bp_blocks (sys_pool y))"
  have ok: "arc_ok (kw_heap (sys_world y)) (add_mset (cb_storage ?c) (?P + clone_handles ?rest))"
    using sys_invD(1) [OF y] clone_handles_remove [OF i] by (simp add: pool_inv_def storage_ok_def)
  obtain c w where ap: "apply_block_ops ops ?c (sys_world y) = (c, w)" by fastforce
  have "cache_block_wf (sys_world y) ?c" using sys_invD(4) [OF y] i by simp
  note F = apply_block_ops_frame [OF this ok ap]
  have wok: "arc_ok (kw_heap w) (?P + (clone_handles ?rest + {#cb_storage c#}))" using F by simp
  have wget: "arc_get (kw_heap w) x = arc_get (kw_heap (sys_world y)) x"
    if "x \<in># ?P + clone_handles ?rest" for x using F that by auto
  note inv = remove_clone_inv(1) [OF y i wok wget] and wf = remove_clone_inv(2) [OF y i wok wget]
  have "set ((sys_clones y)[i := c]) = insert c (set ?rest)"
    using i by (simp add: upd_conv_take_nth_drop)
  then have "\<forall>d \<in> set ((sys_clones y)[i := c]). cache_block_wf w d" using wf F by simp
  then show ?thesis
    using inv ap sys_invD(3) [OF y] clone_handles_update [OF i] by (simp add: sys_inv_def)
qed

lemma exec_inv:
  assumes y: "sys_inv n y" and n: "Suc n < u64_max" and it: "enumerates it" and ok: "permitted a y"
  shows "sys_inv (Suc n) (exec it a y)"
proof (cases a)
  case (ActTouch b)
  obtain p r where t: "pool_touch b (sys_pool y) = (p, r)" by fastforce
  note T = pool_touch_inv [OF sys_invD(1) [OF y] t]
  have "ref_count_of p c \<le> Suc n" for c using sys_invD(3) [OF y] by (simp add: T(2))
  from sys_inv_same_world [OF y T(1) this] show ?thesis using t ActTouch by simp
next
  case (ActReadBlock s i)
  obtain p r where t: "read_session_block s i (sys_pool y) = (p, r)" by fastforce
  note T = read_session_block_inv [OF sys_invD(1) [OF y] t]
  have "ref_count_of p c \<le> Suc n" for c using sys_invD(3) [OF y] by (simp add: T(2))
  from sys_inv_same_world [OF y T(1) this] show ?thesis using t ActReadBlock by simp
next
  case (ActRegisterPrefix h ids)
  show ?thesis
    using sys_inv_same_world [OF y, of "register_prefix h ids (sys_pool y)"] sys_invD(1,3) [OF y]
      ActRegisterPrefix by (simp add: register_prefix_inv)
next
  case (ActAttachPrefix s h)
  obtain p r where t: "attach_prefix_to_session s h (sys_pool y) (sys_world y) = (p, r)" by fastforce
  have room: "\<forall>b. Suc (ref_count_of (sys_pool y) b) < u64_max"
    using sys_invD(2) [OF y] n by (meson Suc_le_mono le_less_trans)
  note A = attach_prefix_inv [OF sys_invD(1) [OF y] room t]
  have "ref_count_of p b \<le> Suc n" for b
    using A(2) sys_invD(2) [OF y] by (meson Suc_le_mono le_trans)
  from sys_inv_same_world [OF y A(1) this] show ?thesis using t ActAttachPrefix by simp
qed (use assms Suc_lessD [OF n] in \<open>simp_all only: exec_allocate_inv exec_retain_inv exec_release_inv
  exec_write_inv exec_create_session_inv exec_release_session_inv exec_allocate_for_inv
  exec_append_inv exec_cow_inv exec_clone_inv exec_write_clone_inv exec_drop_clone_inv permitted.simps\<close>)

lemma pool_start_inv: "pool_start y \<Longrightarrow> sys_inv 0 y"
proof -
  assume "pool_start y"
  then obtain n cap vl w0 where w0: "kw_heap w0 = empty_heap" "0 < kw_next_block_id w0"
    "block_pool_new n cap vl w0 = (sys_world y, Ok (sys_pool y))"
    and y: "sys_ext y = (\<lambda>_. 0)" "sys_clones y = []"
    unfolding pool_start_def by blast
  show "sys_inv 0 y"
    using block_pool_new_inv(1,4) [OF w0] by (simp add: sys_inv_def y clone_handles_def)
qed

text \<open>The bound on the length of a run keeps reference counts below saturation.\<close>

interpretation pool_runs: counted_invariant pool_start pool_step sys_inv "u64_max - 2"
proof (unfold_locales, goal_cases)
  case (1 s)
  then show ?case by (rule pool_start_inv)
next
  case (2 n s t)
  have "Suc n < u64_max" using 2(2) by simp
  with 2(1,3) show ?case by (auto elim!: pool_step.cases intro: exec_inv)
qed

end
