(* ===== verification/Block_Pool_Props.thy ===== *)
theory Block_Pool_Props
  imports Block_Pool_System
begin

text \<open>
  The properties of the block pool: exact reference counting and the free list in every reachable
  state, what allocation, eviction, release, prefix attachment and copy-on-write return, and the
  isolation of sessions from each other's writes.
\<close>

section \<open>Isolation\<close>

definition same_contents ::
  "block_id \<Rightarrow> block_pool \<Rightarrow> kv_world \<Rightarrow> block_pool \<Rightarrow> kv_world \<Rightarrow> bool" where
  "same_contents b p w p' w' \<longleftrightarrow>
     (\<exists>blk blk'. bp_blocks p b = Some blk \<and> bp_blocks p' b = Some blk' \<and>
        block_rows w' blk' = block_rows w blk \<and> cb_content_hash blk' = cb_content_hash blk)"

lemma contents_kept_same:
  assumes "contents_kept B p w p' w'" and "b \<notin> B" and "0 < ref_count_of p' b"
  shows "same_contents b p w p' w'"
proof -
  obtain blk where "bp_blocks p' b = Some blk" "ref_count_of p' b = cb_ref_count blk"
    using assms(3) by (rule live_block)
  with assms show ?thesis unfolding contents_kept_def same_contents_def by fastforce
qed

lemma world_views_contents:
  assumes inv: "pool_inv ext H p w"
    and get: "\<forall>x \<in># pool_handles (bp_blocks p). arc_get (kw_heap w') x = arc_get (kw_heap w) x"
  shows "contents_kept {} p w p w'"
proof -
  have "block_rows w' blk = block_rows w blk" if "bp_blocks p b = Some blk" for b blk
    using get pool_handles_member [OF pool_invD(1) [OF inv] that] by (intro wf_same_get(2)) blast
  then show ?thesis by (auto simp: contents_kept_def)
qed

lemma eviction_contents: "eviction_for s H p w q v \<Longrightarrow> contents_kept {} p w q v"
  using keeps_live_contents unfolding eviction_for_def by blast

lemma allocate_for_isolated:
  assumes inv: "pool_inv ext H p w" and it: "enumerates it"
    and res: "allocate_for_session it x p w = (p', w', r)"
    and t: "bp_sessions p s = Some t" "b \<in> sb_owned_blocks t" "bp_sessions p' s = Some t'"
    and live: "0 < ref_count_of p' b"
  shows "same_contents b p w p' w'"
proof (cases "bp_sessions p x")
  case None
  then have "p' = p" "w' = w" using res by (auto simp: allocate_for_session_def)
  then show ?thesis using contents_kept_same [of "{}"] live by simp
next
  case (Some tx)
  show ?thesis
  proof (rule allocate_for_session_inv [OF inv it Some res])
    assume "eviction_for x H p w p' w'"
    then show ?thesis using contents_kept_same [OF eviction_contents] live by blast
  next
    fix c q v blk
    assume a: "pool_inv ext H q v" "eviction_for x H p w q v" "touches_only {c} H q v p' w'"
      "ref_count_of q c = 0"
      "bp_sessions p' = (bp_sessions q)(x \<mapsto> appended_session (bp_access_clock p') c tx)"
    have "bp_sessions q s = Some t"
    proof (cases "s = x")
      case True
      then show ?thesis using a(2) t(1) by (simp add: eviction_for_def)
    next
      case False
      then have "bp_sessions q s = Some t'" using a(5) t(3) by simp
      then show ?thesis using a(2) t(1) unfolding eviction_for_def map_le_def by (metis domI)
    qed
    with session_block_live [OF a(1) _ t(2)] a(4) have "b \<noteq> c" by fastforce
    have "contents_kept {c} p w p' w'"
      using contents_kept_trans [OF eviction_contents [OF a(2)] touches_only_contents [OF a(3)]] by simp
    from contents_kept_same [OF this] live \<open>b \<noteq> c\<close> show ?thesis by simp
  qed
qed

lemma cow_isolated:
  assumes inv: "pool_inv ext H p w" and it: "enumerates it"
    and res: "copy_on_write_session_block it x i p w = (p', w', r)"
    and t: "bp_sessions p s = Some t" "b \<in> sb_owned_blocks t"
      "bp_sessions p' s = Some t'" "b \<in> sb_owned_blocks t'"
    and live: "0 < ref_count_of p' b"
  shows "same_contents b p w p' w'"
proof (cases "Option.bind (bp_sessions p x) (\<lambda>t. session_read_block t i)")
  case None
  then have "p' = p" "w' = w" using res by (auto simp: copy_on_write_missing)
  then show ?thesis using contents_kept_same [of "{}"] live by simp
next
  case (Some a)
  then obtain tx where tx: "bp_sessions p x = Some tx" and rd: "session_read_block tx i = Some a"
    by (auto simp: bind_eq_Some_conv)
  show ?thesis
  proof (rule copy_on_write_inv [OF inv it tx rd res])
    fix c
    assume a: "pool_inv ext H p' w'" "cow_result x i a tx p w c p' w'"
    note C = a(2) [unfolded cow_result_def]
    consider "b \<noteq> c" | "b = c" "c = a" | "b = c" "c \<noteq> a" by blast
    then show ?thesis
    proof cases
      case 1
      with C contents_kept_same [of "{c}"] live show ?thesis by blast
    next
      case 2
      with C show ?thesis unfolding same_contents_def by blast
    next
      case 3
      have xs: "x \<noteq> s" using C 3 t(1,2) tx by auto
      obtain tx' where tx': "bp_sessions p' x = Some tx'" "c \<in> sb_owned_blocks tx'"
      proof -
        obtain k where k: "bp_sessions p' x = Some (replaced_session k i c tx)" using C by blast
        have "i < length (bt_blocks (sb_block_table tx))"
          using session_read_owned(2) [OF _ rd] pool_invD(7) [OF inv tx] by blast
        then have "c \<in> sb_owned_blocks (replaced_session k i c tx)"
          by (simp add: replaced_session_def set_update_memI)
        with k that show thesis by blast
      qed
      note D = pool_invD [OF a(1)]
      let ?S = "{s. \<exists>t. bp_sessions p' s = Some t \<and> c \<in> sb_owned_blocks t}"
      have fin: "finite ?S" by (rule finite_subset [OF _ D(2)]) auto
      have "{x, s} \<subseteq> ?S" using tx' t(3,4) 3 by auto
      from card_mono [OF fin this] xs have "2 \<le> owners (bp_sessions p') c" by (simp add: owners_def)
      with D(8) [of c] C have False by simp
      then show ?thesis ..
    qed
  next
    assume "eviction_for x H p w p' w'"
    then show ?thesis using contents_kept_same [OF eviction_contents] live by blast
  qed
qed

lemma contents_kept_same_blocks: "bp_blocks p' = bp_blocks p \<Longrightarrow> contents_kept B p w p' w"
  by (simp add: contents_kept_def)

text \<open>Actions that rewrite no referenced block, whoever references it.\<close>

fun rewrites_blocks :: "pool_action \<Rightarrow> bool" where
  "rewrites_blocks (ActWrite _ _) = True"
| "rewrites_blocks (ActAllocateFor _) = True"
| "rewrites_blocks (ActCopyOnWrite _ _) = True"
| "rewrites_blocks ActAllocate = True"
| "rewrites_blocks _ = False"

lemma pool_touch_contents: "pool_touch b p = (p', r) \<Longrightarrow> contents_kept {} p w p' w"
  by (auto simp: pool_touch_def next_access_eq Let_def contents_kept_def split: option.splits if_splits)

lemma read_contents: "read_session_block s i p = (p', r) \<Longrightarrow> contents_kept {} p w p' w"
  by (auto simp: read_session_block_def next_access_eq Let_def contents_kept_def
      split: option.splits if_splits)

lemma clone_contents:
  assumes y: "sys_inv n y"
  shows "contents_kept {} (sys_pool y) (sys_world y)
    (sys_pool (exec it (ActClone b) y)) (sys_world (exec it (ActClone b) y))"
proof (cases "bp_blocks (sys_pool y) b")
  case None
  then show ?thesis by (simp add: pool_block_cloned_def pool_block_def)
next
  case (Some blk)
  note inv = sys_invD(1) [OF y]
  have ok: "arc_ok (kw_heap (sys_world y))
      (pool_handles (bp_blocks (sys_pool y)) + clone_handles (sys_clones y))"
    using inv by (simp add: pool_inv_def storage_ok_def)
  have held: "cb_storage blk \<in># pool_handles (bp_blocks (sys_pool y)) + clone_handles (sys_clones y)"
    using pool_handles_member [OF pool_invD(1) [OF inv] Some] by simp
  from arcs.clone_ok [OF ok held] Some show ?thesis
    by (simp add: pool_block_cloned_def pool_block_def cache_block_clone_def)
       (rule world_views_contents [OF inv], simp)
qed

lemma clone_use_contents:
  assumes y: "sys_inv n y" and i: "i < length (sys_clones y)"
    and a: "a = ActDropClone i \<or> a = ActWriteClone i ops"
  shows "contents_kept {} (sys_pool y) (sys_world y) (sys_pool (exec it a y)) (sys_world (exec it a y))"
proof -
  let ?c = "sys_clones y ! i" and ?rest = "take i (sys_clones y) @ drop (Suc i) (sys_clones y)"
  let ?P = "pool_handles (bp_blocks (sys_pool y))"
  note inv = sys_invD(1) [OF y]
  have ok: "arc_ok (kw_heap (sys_world y)) (add_mset (cb_storage ?c) (?P + clone_handles ?rest))"
    using inv clone_handles_remove [OF i] by (simp add: pool_inv_def storage_ok_def)
  have wf: "cache_block_wf (sys_world y) ?c" using sys_invD(4) [OF y] i by simp
  obtain c w where ap: "apply_block_ops ops ?c (sys_world y) = (c, w)" by fastforce
  have "sys_pool (exec it a y) = sys_pool y" using a ap by auto
  moreover have "contents_kept {} (sys_pool y) (sys_world y) (sys_pool y) (sys_world (exec it a y))"
    by (rule world_views_contents [OF inv])
       (use a ap arcs.drop_ok [OF ok, of "cb_storage ?c"] apply_block_ops_frame [OF wf ok ap] in auto)
  ultimately show ?thesis by simp
qed

lemma exec_contents:
  assumes y: "sys_inv n y" and it: "enumerates it" and ok: "permitted a y" and a: "\<not> rewrites_blocks a"
  shows "contents_kept {} (sys_pool y) (sys_world y) (sys_pool (exec it a y)) (sys_world (exec it a y))"
proof (cases a)
  case (ActRetain b)
  then show ?thesis using retain_contents by (auto split: prod.splits)
next
  case (ActRelease b)
  obtain p w r where r: "pool_release b (sys_pool y) (sys_world y) = (p, w, r)" by (metis prod_cases3)
  have "0 < sys_ext y b" using ok ActRelease by simp
  from pool_release_inv(3) [OF sys_invD(1) [OF y] this r] show ?thesis
    using keeps_live_contents [OF pool_release_keeps_live [OF _ r]] r ActRelease by simp
next
  case (ActTouch b)
  then show ?thesis using pool_touch_contents [of b "sys_pool y"] by (cases "pool_touch b (sys_pool y)") simp
next
  case ActCreateSession
  obtain p r where "create_session (sys_pool y) = (p, r)" by fastforce
  with ActCreateSession create_session_inv(3) [OF sys_invD(1) [OF y] this] show ?thesis
    by (simp add: contents_kept_same_blocks)
next
  case (ActReleaseSession s)
  obtain p w r where r: "release_session_inner it s (sys_pool y) (sys_world y) = (p, w, r)"
    by (metis prod_cases3)
  then have "contents_kept {} (sys_pool y) (sys_world y) p w"
    using release_session_inner_missing [of "sys_pool y" s it "sys_world y"]
      keeps_live_contents [OF release_session_inner_inv(9) [OF sys_invD(1) [OF y] it _ r]]
    by (cases "bp_sessions (sys_pool y) s") auto
  with r ActReleaseSession show ?thesis by (simp add: release_session_def)
next
  case (ActAppendTo s b)
  then show ?thesis using append_contents [of s b True "sys_pool y" "sys_world y"]
    by (cases "append_block_to_session_inner s b True (sys_pool y) (sys_world y)")
       (simp add: append_block_to_session_def)
next
  case (ActReadBlock s i)
  then show ?thesis using read_contents [of s i "sys_pool y"]
    by (cases "read_session_block s i (sys_pool y)") simp
next
  case (ActRegisterPrefix h ids)
  then show ?thesis by (simp add: contents_kept_same_blocks register_prefix_frame)
next
  case (ActAttachPrefix s h)
  then show ?thesis
    using attach_loop_contents [of s _ "sys_pool y" "sys_world y"]
    by (auto simp: attach_prefix_to_session_def split: option.split prod.split bool.split)
next
  case (ActClone b)
  then show ?thesis using clone_contents [OF y] by simp
next
  case (ActWriteClone i ops)
  then show ?thesis using clone_use_contents [OF y] ok by fastforce
next
  case (ActDropClone i)
  then show ?thesis using clone_use_contents [OF y] ok by fastforce
qed (use a in simp_all)

lemma exec_isolated:
  assumes y: "sys_inv n y" and n: "Suc n < u64_max" and it: "enumerates it" and ok: "permitted a y"
    and other: "\<And>ops. a \<noteq> ActWrite b ops"
    and t: "bp_sessions (sys_pool y) s = Some t" "b \<in> sb_owned_blocks t"
      "bp_sessions (sys_pool (exec it a y)) s = Some t'" "b \<in> sb_owned_blocks t'"
  shows "same_contents b (sys_pool y) (sys_world y) (sys_pool (exec it a y)) (sys_world (exec it a y))"
proof -
  note inv = sys_invD(1) [OF y] and inv' = sys_invD(1) [OF exec_inv [OF y n it ok]]
  have live: "0 < ref_count_of (sys_pool (exec it a y)) b" using inv' t(3,4) by (rule session_block_live)
  show ?thesis
  proof (cases "rewrites_blocks a")
    case False
    with contents_kept_same [OF exec_contents [OF y it ok False] _ live] show ?thesis by simp
  next
    case True
    then consider c ops where "a = ActWrite c ops" | x where "a = ActAllocateFor x"
      | x i where "a = ActCopyOnWrite x i" | "a = ActAllocate"
      by (cases a) auto
    then show ?thesis
    proof cases
      case (1 c ops)
      obtain p w r where r: "with_block_mut c (apply_block_ops ops) (sys_pool y) (sys_world y) = (p, w, r)"
        by (metis prod_cases3)
      have "list_all writing_op ops" using ok 1 by simp
      note W = with_block_mut_inv(3) [OF inv this r]
      have "b \<noteq> c" using other 1 by auto
      with contents_kept_same [OF touches_only_contents [OF W]] live r 1 show ?thesis by simp
    next
      case (2 x)
      obtain p w r where r: "allocate_for_session it x (sys_pool y) (sys_world y) = (p, w, r)"
        by (metis prod_cases3)
      show ?thesis using allocate_for_isolated [OF inv it r t(1,2)] t(3) live r 2 by simp
    next
      case (3 x i)
      obtain p w r where r: "copy_on_write_session_block it x i (sys_pool y) (sys_world y) = (p, w, r)"
        by (metis prod_cases3)
      show ?thesis using cow_isolated [OF inv it r t(1,2)] t(3,4) live r 3 by simp
    next
      case 4
      obtain p w r where r: "pool_allocate (sys_pool y) (sys_world y) = (p, w, r)" by (metis prod_cases3)
      show ?thesis
      proof (cases "bp_free_list (sys_pool y) = []")
        case True
        with 4 live contents_kept_same [of "{}"] show ?thesis by (simp add: pool_allocate_empty)
      next
        case False
        obtain c where A: "r = Some c" "touches_only {c} (clone_handles (sys_clones y)) (sys_pool y) (sys_world y) p w"
          using pool_allocate_inv [OF inv False r] by metis
        have "b \<noteq> c"
          using allocate_ref_counts(2) [OF inv False r [unfolded A(1)]] session_block_live [OF inv t(1,2)]
          by auto
        with contents_kept_same [OF touches_only_contents [OF A(2)]] live r A(1) 4 show ?thesis by simp
      qed
    qed
  qed
qed

section \<open>A concrete run\<close>

text \<open>Two one-token blocks; session 1 allocates block 2 and writes a row into it, session 2 shares
  it, and it is registered as a prefix.\<close>

definition demo_block_at :: "nat \<Rightarrow> cache_block" where
  "demo_block_at i = \<lparr>cb_id = Suc i, cb_revision = 0, cb_shared = False, cb_capacity_tokens = 1,
     cb_vector_len = 1, cb_token_count = 0, cb_ref_count = 0, cb_content_hash = None,
     cb_last_access = 0, cb_storage = i\<rparr>"

definition demo_start :: pool_system where
  "demo_start = \<lparr>sys_pool = \<lparr>bp_blocks = [1 \<mapsto> demo_block_at 0, 2 \<mapsto> demo_block_at 1],
       bp_free_list = [1, 2], bp_prefixes = Map.empty, bp_sessions = Map.empty,
       bp_next_session_id = 1, bp_access_clock = 0, bp_metrics = metrics_default\<rparr>,
     sys_world = \<lparr>kw_heap = \<lparr>cells = [0 \<mapsto> (\<lparr>st_keys = [0], st_values = [0]\<rparr>, 1),
           1 \<mapsto> (\<lparr>st_keys = [0], st_values = [0]\<rparr>, 1)], next_addr = 2\<rparr>,
       kw_next_block_id = 3, kw_next_cache_id = 1\<rparr>,
     sys_ext = (\<lambda>_. 0), sys_clones = []\<rparr>"

definition demo_sys :: pool_system where
  "demo_sys = fold (exec sorted_list_of_set) [ActCreateSession, ActCreateSession, ActAllocateFor 1,
     ActWrite 2 [OpAppend [5] [7], OpSetHash (Some [9])], ActAppendTo 2 2,
     ActRegisterPrefix [9] [2]] demo_start"

lemma u64_max_numeral: "u64_max = 18446744073709551615"
  by (simp add: u64_max_def)

lemmas pool_eval =
  create_session_def next_session_id_def checked_add_def next_access_eq session_block_table_new_def
  allocate_for_session_def pool_allocate_def reset_for_allocation_def cache_block_clear_def
  append_block_to_session_inner_def append_block_to_session_def record_pool_residency_def
  session_simps with_block_mut_def pool_block_mut_def cache_block_append_def
  validate_token_shape_def write_token_rows_def set_content_hash_def cb_touch_def
  increment_ref_count_def register_prefix_def prefix_entry_for_def prefix_terminal_hash_def
  lookup_prefix_def prefix_blocks_match_def prefix_snapshot_live_def prefix_block_ids_def
  cb_is_full_def arc_get_def strong_count_def arc_make_mut_def storage_fill_zero_def Let_def
  copy_range_def block_storage_def wrap_mul_def wrap_add_def sat_add_def u64_max_numeral

lemma demo_start_ok: "pool_start demo_start"
proof -
  have "Suc 0 < u64_max" "Suc (Suc 0) < u64_max" by (simp_all add: u64_max_def)
  then have "block_pool_new 2 1 1 kv_world_init = (sys_world demo_start, Ok (sys_pool demo_start))"
    unfolding numeral_2_eq_2
    by (simp add: block_pool_new_def cache_block_new_def checked_mul_def block_id_next_cases
        kv_world_init_def empty_heap_def arc_new_def Let_def cache_block_storage_new_def
        demo_start_def demo_block_at_def) (simp add: numeral_2_eq_2)
  then show ?thesis unfolding pool_start_def
    by (intro exI [of _ 2] exI [of _ 1] exI [of _ kv_world_init])
       (simp add: kv_world_init_def demo_start_def)
qed

lemma reach_exec:
  "reach_in pool_start pool_step n y \<Longrightarrow> enumerates it \<Longrightarrow> permitted a y \<Longrightarrow>
   reach_in pool_start pool_step (Suc n) (exec it a y)"
  by (blast intro: reach_step pool_act)

lemma demo_sys_reach: "reach_in pool_start pool_step 6 demo_sys"
proof -
  have 6: "(6::nat) = Suc (Suc (Suc (Suc (Suc (Suc 0)))))" by simp
  show ?thesis
    unfolding demo_sys_def fold_simps 6
    by (intro reach_exec reach_start demo_start_ok enumerates_sorted) simp_all
qed

lemma demo_bound: "6 \<le> u64_max - 2" "6 < u64_max - 2"
  by (simp_all add: u64_max_def)

lemma demo_sys_state:
  "map_option (bt_blocks \<circ> sb_block_table) (bp_sessions (sys_pool demo_sys) 1) = Some [2]"
  "map_option (bt_blocks \<circ> sb_block_table) (bp_sessions (sys_pool demo_sys) 2) = Some [2]"
  "lookup_prefix (sys_pool demo_sys) [9] = Some [2]"
  unfolding demo_sys_def demo_start_def demo_block_at_def by (simp_all add: pool_eval)

lemma demo_cow_state:
  "map_option (bt_blocks \<circ> sb_block_table)
     (bp_sessions (sys_pool (exec sorted_list_of_set (ActCopyOnWrite 2 0) demo_sys)) 1) = Some [2]"
  "map_option (bt_blocks \<circ> sb_block_table)
     (bp_sessions (sys_pool (exec sorted_list_of_set (ActCopyOnWrite 2 0) demo_sys)) 2) = Some [1]"
  unfolding demo_sys_def demo_start_def demo_block_at_def
  by (simp_all add: pool_eval copy_on_write_session_block_def live_ref_count_def cow_copy_def
      cow_finish_def copy_contents_from_def pool_release_def decrement_ref_count_def sat_sub_def)

lemma demo_sessions:
  obtains t1 t2 where "bp_sessions (sys_pool demo_sys) 1 = Some t1" and "bt_blocks (sb_block_table t1) = [2]"
    and "bp_sessions (sys_pool demo_sys) 2 = Some t2" and "bt_blocks (sb_block_table t2) = [2]"
  using demo_sys_state(1,2) by auto

section \<open>Properties\<close>



text \<open>C2: sessions are isolated. Among disciplined clients, who release only references that they took
  themselves (\<open>permitted\<close>), whatever permitted operation is performed on the pool or on a block
  that was handed out, except a write to that very block through \<open>with_block_mut\<close> (which succeeds only while
  a single reference exists), a block that a session has in its table before and after the
  operation keeps its rows and its content hash: allocation, eviction, release, prefix
  attachment, another session's copy-on-write, and writes into cloned blocks are all invisible.\<close>

theorem session_isolation:
  assumes "reach_in pool_start pool_step n y" and "n < u64_max - 2" and "enumerates it"
    and "permitted a y" and "\<forall>ops. a \<noteq> ActWrite b ops"
    and "bp_sessions (sys_pool y) s = Some t" and "b \<in> set (bt_blocks (sb_block_table t))"
    and "bp_sessions (sys_pool (exec it a y)) s = Some t'" and "b \<in> set (bt_blocks (sb_block_table t'))"
  shows "same_contents b (sys_pool y) (sys_world y) (sys_pool (exec it a y)) (sys_world (exec it a y))"
proof -
  have y: "sys_inv n y" using pool_runs.reach_inv [OF assms(1)] assms(2) by simp
  have n: "Suc n < u64_max" using assms(2) by simp
  note inv = sys_invD(1) [OF y] and inv' = sys_invD(1) [OF exec_inv [OF y n assms(3,4)]]
  have "b \<in> sb_owned_blocks t" "b \<in> sb_owned_blocks t'"
    using pool_invD(7) [OF inv assms(6)] pool_invD(7) [OF inv' assms(8)] assms(7,9)
    by (auto simp: session_wf_def)
  with exec_isolated [OF y n assms(3,4)] assms(5,6,8) show ?thesis by blast
qed

theorem session_isolation_witness:
  "same_contents 2 (sys_pool demo_sys) (sys_world demo_sys)
     (sys_pool (exec sorted_list_of_set (ActCopyOnWrite 2 0) demo_sys))
     (sys_world (exec sorted_list_of_set (ActCopyOnWrite 2 0) demo_sys))"
proof -
  obtain t where t: "bp_sessions (sys_pool demo_sys) 1 = Some t" "bt_blocks (sb_block_table t) = [2]"
    by (rule demo_sessions)
  obtain t' where t': "bp_sessions (sys_pool (exec sorted_list_of_set (ActCopyOnWrite 2 0) demo_sys)) 1 = Some t'"
    "bt_blocks (sb_block_table t') = [2]"
    using demo_cow_state(1) by (auto simp del: exec.simps)
  show ?thesis
    using session_isolation [OF demo_sys_reach demo_bound(2) enumerates_sorted _ _ t(1) _ t'(1)] t(2) t'(2)
    by (simp del: exec.simps)
qed

text \<open>C34: allocating for an existing session in any state that disciplined clients reach. If the call returns a block, the block
  was referenced by nobody when it was taken, is now referenced by this session alone, is empty
  and hashless, and has been appended to the session's table; another session is missing
  afterwards only if no block was free, and every missing session was used no more recently
  than every other session that still holds blocks. If the call returns nothing, no block is
  free and no other session holds a block: the loop that evicts sessions ends, and ends late
  enough.\<close>

theorem allocate_for_session_spec:
  assumes "reach_in pool_start pool_step n y" and "n \<le> u64_max - 2" and "enumerates it"
    and "bp_sessions (sys_pool y) s = Some t"
    and "allocate_for_session it s (sys_pool y) (sys_world y) = (p', w', r)"
  shows "(case r of
      None \<Rightarrow> bp_free_list p' = [] \<and> bp_sessions p' s = Some t \<and>
        (\<forall>s' t'. bp_sessions p' s' = Some t' \<longrightarrow> s' = s \<or> session_is_empty t')
    | Some b \<Rightarrow> ref_count_of p' b = 1 \<and>
        (\<exists>t'. bp_sessions p' s = Some t' \<and>
           bt_blocks (sb_block_table t') = bt_blocks (sb_block_table t) @ [b]) \<and>
        (\<exists>blk. bp_blocks p' b = Some blk \<and> block_rows w' blk = [] \<and> cb_content_hash blk = None) \<and>
        b \<notin> sb_owned_blocks t \<and>
        (bp_free_list (sys_pool y) \<noteq> [] \<longrightarrow>
           (\<forall>s'. s' \<noteq> s \<longrightarrow> bp_sessions p' s' = bp_sessions (sys_pool y) s'))) \<and>
    (\<forall>s1 t1 s2 t2. bp_sessions (sys_pool y) s1 = Some t1 \<and> bp_sessions p' s1 = None \<and>
        s2 \<noteq> s \<and> bp_sessions p' s2 = Some t2 \<and> \<not> session_is_empty t2 \<longrightarrow>
        session_lru_key t1 \<le> session_lru_key t2)"
proof -
  note inv = sys_invD(1) [OF pool_runs.reach_inv [OF assms(1,2)]]
  let ?lru = "\<lambda>q. \<forall>s1 t1 s2 t2. bp_sessions (sys_pool y) s1 = Some t1 \<and> bp_sessions q s1 = None \<and>
        s2 \<noteq> s \<and> bp_sessions q s2 = Some t2 \<and> \<not> session_is_empty t2 \<longrightarrow>
        session_lru_key t1 \<le> session_lru_key t2"
  show ?thesis
  proof (rule allocate_for_session_inv [OF inv assms(3,4,5)])
    assume a: "r = None" "bp_free_list p' = []"
      "eviction_for s (clone_handles (sys_clones y)) (sys_pool y) (sys_world y) p' w'"
      "\<And>s' t'. bp_sessions p' s' = Some t' \<Longrightarrow> s' = s \<or> session_is_empty t'"
    have "bp_sessions p' s = Some t" "?lru p'" using a(3) assms(4) unfolding eviction_for_def by auto
    with a(1,2,4) show ?thesis by auto
  next
    fix b q v blk
    assume a: "r = Some b" "pool_inv (sys_ext y) (clone_handles (sys_clones y)) q v"
      "eviction_for s (clone_handles (sys_clones y)) (sys_pool y) (sys_world y) q v"
      "bp_free_list (sys_pool y) \<noteq> [] \<Longrightarrow> q = sys_pool y \<and> v = sys_world y"
      "ref_count_of q b = 0" "ref_count_of p' = (ref_count_of q)(b := 1)"
      "bp_sessions p' = (bp_sessions q)(s \<mapsto> appended_session (bp_access_clock p') b t)"
      "bp_blocks p' b = Some blk" "block_rows w' blk = []" "cb_content_hash blk = None"
    have tq: "bp_sessions q s = Some t" using a(3) assms(4) by (simp add: eviction_for_def)
    have "b \<notin> sb_owned_blocks t" using session_block_live [OF a(2) tq] a(5) by fastforce
    moreover have "?lru p'"
      using a(3) unfolding eviction_for_def a(7) by (auto split: if_splits)
    ultimately show ?thesis using a(1,4,6,8,9,10) by (auto simp: a(7) appended_session_def)
  qed
qed

theorem allocate_for_session_spec_witness:
  "\<exists>p' w' b t'. allocate_for_session sorted_list_of_set 1 (sys_pool demo_sys) (sys_world demo_sys) =
       (p', w', Some b) \<and> ref_count_of p' b = 1 \<and> bp_sessions p' 1 = Some t' \<and>
     bt_blocks (sb_block_table t') = [2, b]"
proof -
  obtain p' w' r where al: "allocate_for_session sorted_list_of_set 1 (sys_pool demo_sys) (sys_world demo_sys)
    = (p', w', r)" by (metis prod_cases3)
  obtain t where t: "bp_sessions (sys_pool demo_sys) 1 = Some t" "bt_blocks (sb_block_table t) = [2]"
    by (rule demo_sessions)
  have "map_option (\<lambda>b. b) (snd (snd (allocate_for_session sorted_list_of_set 1
      (sys_pool demo_sys) (sys_world demo_sys)))) = Some 1"
    unfolding demo_sys_def demo_start_def demo_block_at_def by (simp add: pool_eval)
  then have "r = Some 1" using al by simp
  with allocate_for_session_spec [OF demo_sys_reach demo_bound(1) enumerates_sorted t(1) al] t(2) al
  show ?thesis by auto
qed



text \<open>releasing a session. The session disappears and no other one changes; the blocks that
  become free are exactly those it was the last to reference, and the internal result counts them;
  every block that is still referenced keeps its contents. Releasing an unknown session returns
  \<open>false\<close> and changes nothing.\<close>

theorem release_session_spec:
  assumes "reach_in pool_start pool_step n y" and "n \<le> u64_max - 2" and "enumerates it"
    and "release_session it s (sys_pool y) (sys_world y) = (p', w', r)"
  shows "case bp_sessions (sys_pool y) s of
      None \<Rightarrow> \<not> r \<and> p' = sys_pool y \<and> w' = sys_world y
    | Some t \<Rightarrow> r \<and> bp_sessions p' = (bp_sessions (sys_pool y))(s := None) \<and>
        set (bp_free_list p') = set (bp_free_list (sys_pool y)) \<union>
          {b \<in> sb_owned_blocks t. ref_count_of (sys_pool y) b = 1} \<and>
        (\<forall>b. ref_count_of p' b = ref_count_of (sys_pool y) b - of_bool (b \<in> sb_owned_blocks t)) \<and>
        contents_kept {} (sys_pool y) (sys_world y) p' w'"
proof -
  note inv = sys_invD(1) [OF pool_runs.reach_inv [OF assms(1,2)]]
  obtain q where q: "release_session_inner it s (sys_pool y) (sys_world y) = (p', w', q)" "r \<longleftrightarrow> q \<noteq> None"
    using assms(4) by (auto simp: release_session_def split: prod.splits)
  show ?thesis
  proof (cases "bp_sessions (sys_pool y) s")
    case None
    with q release_session_inner_missing [OF None] show ?thesis by simp
  next
    case (Some t)
    note R = release_session_inner_inv [OF inv assms(3) Some q(1)]
    from R(1) q(2) have "r" by simp
    with Some R(4,7,8) keeps_live_contents [OF R(9)] show ?thesis by simp
  qed
qed

theorem release_session_spec_witness:
  "\<exists>p' w'. release_session sorted_list_of_set 2 (sys_pool demo_sys) (sys_world demo_sys) = (p', w', True) \<and>
     bp_sessions p' = (bp_sessions (sys_pool demo_sys))(2 := None)"
proof -
  obtain p' w' r where rel: "release_session sorted_list_of_set 2 (sys_pool demo_sys) (sys_world demo_sys)
    = (p', w', r)" by (metis prod_cases3)
  obtain t where t: "bp_sessions (sys_pool demo_sys) 2 = Some t" by (rule demo_sessions)
  from release_session_spec [OF demo_sys_reach demo_bound(1) enumerates_sorted rel] t rel show ?thesis
    by auto
qed

text \<open>prefix sharing. A lookup that succeeds names at least one block, all of them referenced,
  the last with exactly the hash that was asked for. Attaching a prefix to an existing session
  then succeeds as a whole: it appends exactly those blocks to the session's table and changes no
  other session; it is never left half done.\<close>

theorem attach_prefix_spec:
  assumes "reach_in pool_start pool_step n y" and "n < u64_max - 2"
    and "bp_sessions (sys_pool y) s = Some t"
    and "attach_prefix_to_session s h (sys_pool y) (sys_world y) = (p', r)"
  shows "r = lookup_prefix (sys_pool y) h \<and>
    (case lookup_prefix (sys_pool y) h of
       None \<Rightarrow> p' = sys_pool y
     | Some ids \<Rightarrow> ids \<noteq> [] \<and> (\<forall>b \<in> set ids. 0 < ref_count_of (sys_pool y) b) \<and>
         (\<exists>blk. bp_blocks (sys_pool y) (last ids) = Some blk \<and> cb_content_hash blk = Some h) \<and>
         (\<exists>t'. bp_sessions p' = (bp_sessions (sys_pool y))(s \<mapsto> t') \<and>
            bt_blocks (sb_block_table t') = bt_blocks (sb_block_table t) @ ids))"
proof -
  have y: "sys_inv n y" using pool_runs.reach_inv [OF assms(1)] assms(2) by simp
  have room: "\<forall>b. Suc (ref_count_of (sys_pool y) b) < u64_max"
  proof
    fix b show "Suc (ref_count_of (sys_pool y) b) < u64_max"
      using sys_invD(2) [OF y, of b] assms(2) by simp
  qed
  note A = attach_prefix_inv [OF sys_invD(1) [OF y] room assms(4)]
  have r: "r = lookup_prefix (sys_pool y) h" using A(3) assms(3) by simp
  show ?thesis
  proof (cases "lookup_prefix (sys_pool y) h")
    case None
    with r A(4) show ?thesis by simp
  next
    case (Some ids)
    note L = lookup_prefix_sound [OF Some]
    have "\<exists>t'. bp_sessions p' = (bp_sessions (sys_pool y))(s \<mapsto> t') \<and>
        bt_blocks (sb_block_table t') = bt_blocks (sb_block_table t) @ ids"
      using A(5) [OF _ assms(3)] r Some by simp
    with L r Some show ?thesis by simp
  qed
qed

theorem attach_prefix_spec_witness:
  "\<exists>p' t'. attach_prefix_to_session 1 [9] (sys_pool demo_sys) (sys_world demo_sys) = (p', Some [2]) \<and>
     bp_sessions p' 1 = Some t' \<and> bt_blocks (sb_block_table t') = [2, 2]"
proof -
  obtain p' r where at: "attach_prefix_to_session 1 [9] (sys_pool demo_sys) (sys_world demo_sys) = (p', r)"
    by fastforce
  obtain t where t: "bp_sessions (sys_pool demo_sys) 1 = Some t" "bt_blocks (sb_block_table t) = [2]"
    by (rule demo_sessions)
  from attach_prefix_spec [OF demo_sys_reach demo_bound(2) t(1) at] t(2) at demo_sys_state(3)
  show ?thesis by auto
qed

text \<open>the prefix index is a map. After registering blocks under a hash, looking the hash up
  returns exactly these blocks if each of them is referenced and hashed and the last one carries
  that hash, and nothing otherwise (an invalid registration also removes an older entry); every
  other hash is looked up as before.\<close>

theorem register_prefix_roundtrip:
  "lookup_prefix (register_prefix h ids p) h' =
     (if h' \<noteq> h then lookup_prefix p h'
      else case prefix_entry_for p ids of
             None \<Rightarrow> None
           | Some e \<Rightarrow> if prefix_terminal_hash e = Some h then Some ids else None)"
proof (cases "h' = h")
  case True
  then show ?thesis
    using lookup_after_register [of p ids _ h]
    by (auto simp: register_prefix_def lookup_prefix_def split: option.splits)
next
  case False
  have "prefix_snapshot_live (register_prefix h ids p) = prefix_snapshot_live p"
    by (simp add: fun_eq_iff prefix_snapshot_live_def register_prefix_frame)
  moreover have "bp_prefixes (register_prefix h ids p) h' = bp_prefixes p h'"
    using False by (auto simp: register_prefix_def split: option.split)
  ultimately show ?thesis using False
    by (simp add: lookup_prefix_def prefix_blocks_match_def split: option.split)
qed

end
