(* ===== verification/Scheduler.thy ===== *)
theory Scheduler
  imports Prelude
begin

text \<open>
  The admission scheduler of the inference server, crates/llm-server/src/engine/scheduler.rs: the
  state behind its mutex and every operation that runs under the lock, the permit that an
  admitted request holds, the ticket of a queued one, and the phase gauges. The counters are
  \<open>u64\<close> and \<open>usize\<close> values whose plain \<open>+=\<close> wraps. Durations enter as numbers of nanoseconds.
\<close>

section \<open>Phases and classes\<close>

datatype generation_phase = PhasePrefill | PhaseDecode

datatype scheduler_class = ClassPrefill | ClassDecode

fun as_phase :: "scheduler_class \<Rightarrow> generation_phase" where
  "as_phase ClassPrefill = PhasePrefill"
| "as_phase ClassDecode = PhaseDecode"

record generation_phase_metrics =
  gm_prefill_requests :: nat
  gm_decode_requests :: nat

definition phase_metrics_default :: generation_phase_metrics where
  "phase_metrics_default = \<lparr>gm_prefill_requests = 0, gm_decode_requests = 0\<rparr>"

fun phase_increment :: "generation_phase \<Rightarrow> generation_phase_metrics \<Rightarrow> generation_phase_metrics" where
  "phase_increment PhasePrefill m = m\<lparr>gm_prefill_requests := wrap_add (gm_prefill_requests m) 1\<rparr>"
| "phase_increment PhaseDecode m = m\<lparr>gm_decode_requests := wrap_add (gm_decode_requests m) 1\<rparr>"

fun phase_decrement :: "generation_phase \<Rightarrow> generation_phase_metrics \<Rightarrow> generation_phase_metrics" where
  "phase_decrement PhasePrefill m = m\<lparr>gm_prefill_requests := wrap_sub (gm_prefill_requests m) 1\<rparr>"
| "phase_decrement PhaseDecode m = m\<lparr>gm_decode_requests := wrap_sub (gm_decode_requests m) 1\<rparr>"

text \<open>A guard is the phase it currently counts under.\<close>

definition phase_begin ::
  "generation_phase \<Rightarrow> generation_phase_metrics \<Rightarrow> generation_phase_metrics \<times> generation_phase" where
  "phase_begin phase m = (phase_increment phase m, phase)"

definition guard_transition_to_decode ::
  "generation_phase \<Rightarrow> generation_phase_metrics \<Rightarrow> generation_phase_metrics \<times> generation_phase" where
  "guard_transition_to_decode phase m =
     (if phase = PhaseDecode then (m, phase)
      else (phase_increment PhaseDecode (phase_decrement phase m), PhaseDecode))"

definition guard_drop :: "generation_phase \<Rightarrow> generation_phase_metrics \<Rightarrow> generation_phase_metrics" where
  "guard_drop phase m = phase_decrement phase m"

section \<open>The scheduler state\<close>

record model_scheduler_options =
  so_concurrency_limit :: nat
  so_queue_limit :: nat
  so_queue_timeout :: "nat option"
  so_prefill_threshold_chars :: nat
  so_prefill_burst :: nat

record model_scheduler_state =
  ss_next_ticket :: nat
  ss_queued_prefill :: "nat list"
  ss_queued_decode :: "nat list"
  ss_active_prefill :: nat
  ss_active_decode :: nat
  ss_prefill_admissions_since_decode :: nat
  ss_admitted_prefill :: nat
  ss_admitted_decode :: nat
  ss_completed :: nat
  ss_cancelled :: nat
  ss_failed :: nat
  ss_queued_cancelled :: nat
  ss_queue_timeouts :: nat
  ss_prefill_yields :: nat
  ss_prefill_yields_to_decode :: nat
  ss_prefill_yield_reacquire_waits :: nat
  ss_prefill_yield_reacquire_wait_nanos_total :: nat
  ss_prefill_yield_reacquire_wait_nanos_max :: nat
  ss_prefill_chunk_latency_count :: nat
  ss_prefill_chunk_latency_nanos_total :: nat
  ss_prefill_chunk_latency_nanos_min :: nat
  ss_prefill_chunk_latency_nanos_max :: nat
  ss_decode_starvation_events :: nat
  ss_decode_starvation_waits :: nat
  ss_decode_starvation_wait_nanos_total :: nat
  ss_decode_starvation_wait_nanos_max :: nat

definition scheduler_state_default :: model_scheduler_state where
  "scheduler_state_default = \<lparr>ss_next_ticket = 0, ss_queued_prefill = [], ss_queued_decode = [],
     ss_active_prefill = 0, ss_active_decode = 0, ss_prefill_admissions_since_decode = 0,
     ss_admitted_prefill = 0, ss_admitted_decode = 0, ss_completed = 0, ss_cancelled = 0,
     ss_failed = 0, ss_queued_cancelled = 0, ss_queue_timeouts = 0, ss_prefill_yields = 0,
     ss_prefill_yields_to_decode = 0, ss_prefill_yield_reacquire_waits = 0,
     ss_prefill_yield_reacquire_wait_nanos_total = 0, ss_prefill_yield_reacquire_wait_nanos_max = 0,
     ss_prefill_chunk_latency_count = 0, ss_prefill_chunk_latency_nanos_total = 0,
     ss_prefill_chunk_latency_nanos_min = 0, ss_prefill_chunk_latency_nanos_max = 0,
     ss_decode_starvation_events = 0, ss_decode_starvation_waits = 0,
     ss_decode_starvation_wait_nanos_total = 0, ss_decode_starvation_wait_nanos_max = 0\<rparr>"

record prefill_yield_release =
  yr_admitted_decode_before :: nat

datatype scheduler_outcome = OutCompleted | OutCancelled | OutFailed

definition active_total :: "model_scheduler_state \<Rightarrow> nat" where
  "active_total st = wrap_add (ss_active_prefill st) (ss_active_decode st)"

definition queued_total :: "model_scheduler_state \<Rightarrow> nat" where
  "queued_total st = wrap_add (length (ss_queued_prefill st)) (length (ss_queued_decode st))"

fun queue_of :: "scheduler_class \<Rightarrow> model_scheduler_state \<Rightarrow> nat list" where
  "queue_of ClassPrefill st = ss_queued_prefill st"
| "queue_of ClassDecode st = ss_queued_decode st"

fun queue_update :: "scheduler_class \<Rightarrow> (nat list \<Rightarrow> nat list) \<Rightarrow> model_scheduler_state \<Rightarrow> model_scheduler_state" where
  "queue_update ClassPrefill f st = st\<lparr>ss_queued_prefill := f (ss_queued_prefill st)\<rparr>"
| "queue_update ClassDecode f st = st\<lparr>ss_queued_decode := f (ss_queued_decode st)\<rparr>"

fun start_active_phase :: "generation_phase \<Rightarrow> model_scheduler_state \<Rightarrow> model_scheduler_state" where
  "start_active_phase PhasePrefill st = st\<lparr>ss_active_prefill := wrap_add (ss_active_prefill st) 1\<rparr>"
| "start_active_phase PhaseDecode st = st\<lparr>ss_active_decode := wrap_add (ss_active_decode st) 1\<rparr>"

fun start_active ::
  "scheduler_class \<Rightarrow> generation_phase \<Rightarrow> model_scheduler_state \<Rightarrow> model_scheduler_state" where
  "start_active ClassPrefill initial_phase st =
     (let st1 = start_active_phase initial_phase st
      in st1\<lparr>ss_prefill_admissions_since_decode := wrap_add (ss_prefill_admissions_since_decode st1) 1,
            ss_admitted_prefill := wrap_add (ss_admitted_prefill st1) 1\<rparr>)"
| "start_active ClassDecode initial_phase st =
     (let st1 = start_active_phase initial_phase st
      in st1\<lparr>ss_prefill_admissions_since_decode := 0,
            ss_admitted_decode := wrap_add (ss_admitted_decode st1) 1\<rparr>)"

fun finish_inactive :: "scheduler_outcome \<Rightarrow> model_scheduler_state \<Rightarrow> model_scheduler_state" where
  "finish_inactive OutCompleted st = st\<lparr>ss_completed := wrap_add (ss_completed st) 1\<rparr>"
| "finish_inactive OutCancelled st = st\<lparr>ss_cancelled := wrap_add (ss_cancelled st) 1\<rparr>"
| "finish_inactive OutFailed st = st\<lparr>ss_failed := wrap_add (ss_failed st) 1\<rparr>"

fun finish_active ::
  "generation_phase \<Rightarrow> scheduler_outcome \<Rightarrow> model_scheduler_state \<Rightarrow> model_scheduler_state" where
  "finish_active PhasePrefill outcome st =
     finish_inactive outcome (st\<lparr>ss_active_prefill := sat_sub (ss_active_prefill st) 1\<rparr>)"
| "finish_active PhaseDecode outcome st =
     finish_inactive outcome (st\<lparr>ss_active_decode := sat_sub (ss_active_decode st) 1\<rparr>)"

definition state_transition_to_decode :: "model_scheduler_state \<Rightarrow> model_scheduler_state" where
  "state_transition_to_decode st =
     st\<lparr>ss_active_prefill := sat_sub (ss_active_prefill st) 1,
        ss_active_decode := wrap_add (ss_active_decode st) 1\<rparr>"

definition release_prefill_for_yield ::
  "model_scheduler_state \<Rightarrow> model_scheduler_state \<times> prefill_yield_release" where
  "release_prefill_for_yield st =
     (st\<lparr>ss_active_prefill := sat_sub (ss_active_prefill st) 1\<rparr>,
      \<lparr>yr_admitted_decode_before = ss_admitted_decode st\<rparr>)"

definition duration_nanos_u64 :: "nat \<Rightarrow> nat" where
  "duration_nanos_u64 nanos = min nanos u64_max"

definition record_prefill_yield_reacquire_wait :: "nat \<Rightarrow> model_scheduler_state \<Rightarrow> model_scheduler_state" where
  "record_prefill_yield_reacquire_wait wait st =
     (let wait_nanos = duration_nanos_u64 wait
      in st\<lparr>ss_prefill_yield_reacquire_waits := sat_add (ss_prefill_yield_reacquire_waits st) 1,
            ss_prefill_yield_reacquire_wait_nanos_total :=
              sat_add (ss_prefill_yield_reacquire_wait_nanos_total st) wait_nanos,
            ss_prefill_yield_reacquire_wait_nanos_max :=
              max (ss_prefill_yield_reacquire_wait_nanos_max st) wait_nanos\<rparr>)"

definition record_prefill_yield_success ::
  "prefill_yield_release \<Rightarrow> nat \<Rightarrow> model_scheduler_state \<Rightarrow> model_scheduler_state" where
  "record_prefill_yield_success release wait st =
     (let st1 = st\<lparr>ss_prefill_yields := wrap_add (ss_prefill_yields st) 1\<rparr>;
          st2 = (if ss_admitted_decode st1 > yr_admitted_decode_before release
                 then st1\<lparr>ss_prefill_yields_to_decode := wrap_add (ss_prefill_yields_to_decode st1) 1\<rparr>
                 else st1)
      in record_prefill_yield_reacquire_wait wait st2)"

definition record_prefill_chunk_latency :: "nat \<Rightarrow> model_scheduler_state \<Rightarrow> model_scheduler_state" where
  "record_prefill_chunk_latency latency st =
     (let latency_nanos = duration_nanos_u64 latency
      in st\<lparr>ss_prefill_chunk_latency_nanos_min :=
              (if ss_prefill_chunk_latency_count st = 0 then latency_nanos
               else min (ss_prefill_chunk_latency_nanos_min st) latency_nanos),
            ss_prefill_chunk_latency_count := sat_add (ss_prefill_chunk_latency_count st) 1,
            ss_prefill_chunk_latency_nanos_total :=
              sat_add (ss_prefill_chunk_latency_nanos_total st) latency_nanos,
            ss_prefill_chunk_latency_nanos_max :=
              max (ss_prefill_chunk_latency_nanos_max st) latency_nanos\<rparr>)"

definition record_decode_starvation_wait :: "nat \<Rightarrow> model_scheduler_state \<Rightarrow> model_scheduler_state" where
  "record_decode_starvation_wait wait st =
     (let wait_nanos = duration_nanos_u64 wait
      in st\<lparr>ss_decode_starvation_waits := sat_add (ss_decode_starvation_waits st) 1,
            ss_decode_starvation_wait_nanos_total :=
              sat_add (ss_decode_starvation_wait_nanos_total st) wait_nanos,
            ss_decode_starvation_wait_nanos_max :=
              max (ss_decode_starvation_wait_nanos_max st) wait_nanos\<rparr>)"

definition record_decode_starvation_event :: "model_scheduler_state \<Rightarrow> model_scheduler_state" where
  "record_decode_starvation_event st =
     st\<lparr>ss_decode_starvation_events := sat_add (ss_decode_starvation_events st) 1\<rparr>"

definition has_prefill_pressure :: "model_scheduler_state \<Rightarrow> bool" where
  "has_prefill_pressure st \<longleftrightarrow> ss_active_prefill st > 0 \<or> ss_queued_prefill st \<noteq> []"

definition next_admissible_class :: "nat \<Rightarrow> model_scheduler_state \<Rightarrow> scheduler_class option" where
  "next_admissible_class prefill_burst st =
     (case (ss_queued_prefill st, ss_queued_decode st) of
        ([], []) \<Rightarrow> None
      | (_ # _, []) \<Rightarrow> Some ClassPrefill
      | ([], _ # _) \<Rightarrow> Some ClassDecode
      | (prefill_ticket # _, decode_ticket # _) \<Rightarrow>
          if ss_prefill_admissions_since_decode st \<ge> prefill_burst then Some ClassDecode
          else if decode_ticket < prefill_ticket then Some ClassDecode
          else Some ClassPrefill)"

section \<open>Permits and tickets\<close>

record scheduler_permit =
  sp_phase :: generation_phase
  sp_outcome :: scheduler_outcome
  sp_active :: bool
  sp_terminal_on_drop :: bool

datatype scheduler_acquire_error = QueueFull | QueueTimedOut | AcqCancelled | CancelledAfterAdmission

definition admitted_permit :: "generation_phase \<Rightarrow> scheduler_permit" where
  "admitted_permit initial_phase = \<lparr>sp_phase = initial_phase, sp_outcome = OutCompleted,
     sp_active = True, sp_terminal_on_drop = True\<rparr>"

definition permit_transition_to_decode ::
  "scheduler_permit \<Rightarrow> model_scheduler_state \<Rightarrow> scheduler_permit \<times> model_scheduler_state" where
  "permit_transition_to_decode p st =
     (if sp_phase p = PhaseDecode \<or> \<not> sp_active p then (p, st)
      else (p\<lparr>sp_phase := PhaseDecode\<rparr>, state_transition_to_decode st))"

definition permit_mark_failed :: "scheduler_permit \<Rightarrow> scheduler_permit" where
  "permit_mark_failed p = p\<lparr>sp_outcome := OutFailed\<rparr>"

definition permit_mark_cancelled :: "scheduler_permit \<Rightarrow> scheduler_permit" where
  "permit_mark_cancelled p = p\<lparr>sp_outcome := OutCancelled\<rparr>"

fun complete_readmission_error ::
  "scheduler_acquire_error \<Rightarrow> scheduler_permit \<Rightarrow> scheduler_permit" where
  "complete_readmission_error AcqCancelled p = p\<lparr>sp_outcome := OutCancelled, sp_terminal_on_drop := True\<rparr>"
| "complete_readmission_error CancelledAfterAdmission p = p\<lparr>sp_terminal_on_drop := False\<rparr>"
| "complete_readmission_error QueueFull p = p\<lparr>sp_outcome := OutFailed, sp_terminal_on_drop := True\<rparr>"
| "complete_readmission_error QueueTimedOut p = p\<lparr>sp_outcome := OutFailed, sp_terminal_on_drop := True\<rparr>"

text \<open>Dropping a permit: the new state and whether the waiters are notified.\<close>

definition permit_drop :: "scheduler_permit \<Rightarrow> model_scheduler_state \<Rightarrow> model_scheduler_state \<times> bool" where
  "permit_drop p st =
     (if \<not> sp_terminal_on_drop p then (st, False)
      else if sp_active p then (finish_active (sp_phase p) (sp_outcome p) st, True)
      else (finish_inactive (sp_outcome p) st, True))"

record queued_ticket =
  qt_id :: nat
  qt_class :: scheduler_class
  qt_timeout :: bool
  qt_decode_starvation :: bool

definition ticket_timed_out :: "queued_ticket \<Rightarrow> queued_ticket" where
  "ticket_timed_out t = t\<lparr>qt_timeout := True\<rparr>"

text \<open>Dropping a ticket that was not admitted; \<open>remove1\<close> removes the first position holding the
  id. The waiters are always notified.\<close>

definition ticket_drop :: "queued_ticket \<Rightarrow> model_scheduler_state \<Rightarrow> model_scheduler_state" where
  "ticket_drop t st =
     (if qt_id t \<in> set (queue_of (qt_class t) st)
      then let st1 = queue_update (qt_class t) (remove1 (qt_id t)) st
           in if qt_timeout t
              then st1\<lparr>ss_queue_timeouts := wrap_add (ss_queue_timeouts st1) 1\<rparr>
              else st1\<lparr>ss_queued_cancelled := wrap_add (ss_queued_cancelled st1) 1\<rparr>
      else st)"

section \<open>Admission\<close>

definition classify_estimated_tokens :: "model_scheduler_options \<Rightarrow> nat \<Rightarrow> scheduler_class" where
  "classify_estimated_tokens opts tokens =
     (if tokens \<ge> so_prefill_threshold_chars opts then ClassPrefill else ClassDecode)"

definition try_acquire_immediate ::
  "model_scheduler_options \<Rightarrow> scheduler_class \<Rightarrow> generation_phase \<Rightarrow> model_scheduler_state
     \<Rightarrow> model_scheduler_state \<times> scheduler_permit option" where
  "try_acquire_immediate opts admission_class initial_phase st =
     (if active_total st \<ge> so_concurrency_limit opts \<or> queued_total st > 0 then (st, None)
      else (start_active admission_class initial_phase st, Some (admitted_permit initial_phase)))"

definition enqueue ::
  "model_scheduler_options \<Rightarrow> scheduler_class \<Rightarrow> model_scheduler_state
     \<Rightarrow> model_scheduler_state \<times> (scheduler_acquire_error, queued_ticket) outcome" where
  "enqueue opts cls st =
     (if queued_total st \<ge> so_queue_limit opts then (st, Err QueueFull)
      else let decode_starvation = (cls = ClassDecode \<and> has_prefill_pressure st);
               st1 = (if decode_starvation then record_decode_starvation_event st else st);
               st2 = st1\<lparr>ss_next_ticket := wrap_add (ss_next_ticket st1) 1\<rparr>;
               tid = ss_next_ticket st2
           in (queue_update cls (\<lambda>q. q @ [tid]) st2,
               Ok \<lparr>qt_id = tid, qt_class = cls, qt_timeout = False,
                   qt_decode_starvation = decode_starvation\<rparr>))"

definition try_admit_queued ::
  "model_scheduler_options \<Rightarrow> nat \<Rightarrow> scheduler_class \<Rightarrow> generation_phase \<Rightarrow> model_scheduler_state
     \<Rightarrow> model_scheduler_state \<times> scheduler_permit option" where
  "try_admit_queued opts ticket admission_class initial_phase st =
     (if active_total st \<ge> so_concurrency_limit opts then (st, None)
      else if next_admissible_class (so_prefill_burst opts) st \<noteq> Some admission_class then (st, None)
      else case queue_of admission_class st of
             [] \<Rightarrow> (st, None)
           | front # _ \<Rightarrow>
               if front \<noteq> ticket then (st, None)
               else (start_active admission_class initial_phase (queue_update admission_class tl st),
                     Some (admitted_permit initial_phase)))"

section \<open>Snapshots\<close>

record model_scheduler_snapshot =
  sn_queued_prefill :: nat
  sn_queued_decode :: nat
  sn_active_prefill :: nat
  sn_active_decode :: nat
  sn_admitted_prefill :: nat
  sn_admitted_decode :: nat
  sn_completed :: nat
  sn_cancelled :: nat
  sn_failed :: nat
  sn_queued_cancelled :: nat
  sn_queue_timeouts :: nat
  sn_prefill_yields :: nat
  sn_prefill_yields_to_decode :: nat
  sn_prefill_yield_reacquire_waits :: nat
  sn_prefill_yield_reacquire_wait_nanos_total :: nat
  sn_prefill_yield_reacquire_wait_nanos_max :: nat
  sn_prefill_chunk_latency_count :: nat
  sn_prefill_chunk_latency_nanos_total :: nat
  sn_prefill_chunk_latency_nanos_min :: nat
  sn_prefill_chunk_latency_nanos_max :: nat
  sn_decode_starvation_events :: nat
  sn_decode_starvation_waits :: nat
  sn_decode_starvation_wait_nanos_total :: nat
  sn_decode_starvation_wait_nanos_max :: nat

definition scheduler_snapshot :: "model_scheduler_state \<Rightarrow> model_scheduler_snapshot" where
  "scheduler_snapshot st =
     \<lparr>sn_queued_prefill = length (ss_queued_prefill st),
      sn_queued_decode = length (ss_queued_decode st),
      sn_active_prefill = ss_active_prefill st,
      sn_active_decode = ss_active_decode st,
      sn_admitted_prefill = ss_admitted_prefill st,
      sn_admitted_decode = ss_admitted_decode st,
      sn_completed = ss_completed st,
      sn_cancelled = ss_cancelled st,
      sn_failed = ss_failed st,
      sn_queued_cancelled = ss_queued_cancelled st,
      sn_queue_timeouts = ss_queue_timeouts st,
      sn_prefill_yields = ss_prefill_yields st,
      sn_prefill_yields_to_decode = ss_prefill_yields_to_decode st,
      sn_prefill_yield_reacquire_waits = ss_prefill_yield_reacquire_waits st,
      sn_prefill_yield_reacquire_wait_nanos_total = ss_prefill_yield_reacquire_wait_nanos_total st,
      sn_prefill_yield_reacquire_wait_nanos_max = ss_prefill_yield_reacquire_wait_nanos_max st,
      sn_prefill_chunk_latency_count = ss_prefill_chunk_latency_count st,
      sn_prefill_chunk_latency_nanos_total = ss_prefill_chunk_latency_nanos_total st,
      sn_prefill_chunk_latency_nanos_min = ss_prefill_chunk_latency_nanos_min st,
      sn_prefill_chunk_latency_nanos_max = ss_prefill_chunk_latency_nanos_max st,
      sn_decode_starvation_events = ss_decode_starvation_events st,
      sn_decode_starvation_waits = ss_decode_starvation_waits st,
      sn_decode_starvation_wait_nanos_total = ss_decode_starvation_wait_nanos_total st,
      sn_decode_starvation_wait_nanos_max = ss_decode_starvation_wait_nanos_max st\<rparr>"

definition snapshot_queued_total :: "model_scheduler_snapshot \<Rightarrow> nat" where
  "snapshot_queued_total s = wrap_add (sn_queued_prefill s) (sn_queued_decode s)"

end
