(* ===== verification/Scheduler_System.thy ===== *)
theory Scheduler_System
  imports Scheduler
begin

text \<open>
  The scheduler and the requests that use it, as a transition system. A task is one request's
  future; its position is the point between two lock acquisitions where it currently stands:
  the body of \<open>ModelScheduler::acquire\<close> (cancellation check, immediate attempt, enqueue, and the
  wait loop: create the notification, try, park), the permit it holds once admitted, and
  \<open>yield_prefill_chunk\<close>, which gives the slot back and runs \<open>acquire\<close> again. Every lock section is
  one step, so interleavings of requests are sequences of steps.

  \<open>Notify\<close> is modelled by a flag per waiter: \<open>notify_waiters\<close> sets it for every waiter whose
  notification future already exists, and a parked waiter returns to the head of its loop only
  once its flag is set, its token is cancelled or its deadline passes.

  The fields \<open>sy_admissions\<close> and \<open>sy_abandoned\<close> are ghost counters of requests: those admitted
  for the first time, and those whose future was dropped while they were waiting to be
  readmitted after a yield.
\<close>

section \<open>Tasks\<close>

datatype task_pos =
    AtStart
  | AtImmediate
  | AtEnqueue
  | LoopHead queued_ticket
  | Armed queued_ticket bool
  | Parked queued_ticket bool
  | Admitted scheduler_permit "queued_ticket option"
  | Holding scheduler_permit
  | Finished

record task =
  tk_class :: scheduler_class
  tk_phase :: generation_phase
  tk_cancelled :: bool
  tk_yield :: "(scheduler_permit \<times> prefill_yield_release) option"
  tk_pos :: task_pos

record sched_sys =
  sy_state :: model_scheduler_state
  sy_tasks :: "task list"
  sy_admissions :: nat
  sy_abandoned :: nat

definition sched_init :: sched_sys where
  "sched_init = \<lparr>sy_state = scheduler_state_default, sy_tasks = [], sy_admissions = 0, sy_abandoned = 0\<rparr>"

fun wake_pos :: "task_pos \<Rightarrow> task_pos" where
  "wake_pos (Armed t _) = Armed t True"
| "wake_pos (Parked t _) = Parked t True"
| "wake_pos p = p"

definition notify_waiters :: "task list \<Rightarrow> task list" where
  "notify_waiters ts = map (\<lambda>t. t\<lparr>tk_pos := wake_pos (tk_pos t)\<rparr>) ts"

section \<open>Steps\<close>

datatype sched_action =
    Spawn scheduler_class generation_phase
  | Cancel nat
  | Advance nat nat
  | TimeOut nat
  | CancelParked nat
  | DropParked nat
  | ToDecode nat
  | MarkFailed nat
  | MarkCancelled nat
  | DropPermit nat
  | Yield nat
  | ChunkLatency nat nat

definition set_pos :: "nat \<Rightarrow> task_pos \<Rightarrow> task list \<Rightarrow> task list" where
  "set_pos i p ts = ts[i := (ts ! i)\<lparr>tk_pos := p\<rparr>]"

definition maybe_notify :: "bool \<Rightarrow> task list \<Rightarrow> task list" where
  "maybe_notify b ts = (if b then notify_waiters ts else ts)"

text \<open>\<open>acquire\<close> returns an error. A fresh request ends; a yielding one completes its old permit and
  drops it, as \<open>SharedSchedulerPermit::yield_prefill_chunk\<close> does.\<close>

definition acquire_error :: "nat \<Rightarrow> scheduler_acquire_error \<Rightarrow> sched_sys \<Rightarrow> sched_sys" where
  "acquire_error i err y =
     (case tk_yield (sy_tasks y ! i) of
        None \<Rightarrow> y\<lparr>sy_tasks := set_pos i Finished (sy_tasks y)\<rparr>
      | Some (p, _) \<Rightarrow>
          (case permit_drop (complete_readmission_error err p) (sy_state y) of
             (st, n) \<Rightarrow> y\<lparr>sy_state := st, sy_tasks := maybe_notify n (set_pos i Finished (sy_tasks y))\<rparr>))"

text \<open>A queued ticket goes out of scope without having been admitted, then \<open>acquire\<close> returns the
  error.\<close>

definition leave_queue ::
  "nat \<Rightarrow> queued_ticket \<Rightarrow> scheduler_acquire_error \<Rightarrow> sched_sys \<Rightarrow> sched_sys" where
  "leave_queue i t err y =
     acquire_error i err
       (y\<lparr>sy_state := ticket_drop t (sy_state y), sy_tasks := notify_waiters (sy_tasks y)\<rparr>)"

text \<open>\<open>admit_unless_cancelled\<close>, and on success the rest of \<open>yield_prefill_chunk\<close>.\<close>

definition finish_admission :: "nat \<Rightarrow> nat \<Rightarrow> scheduler_permit \<Rightarrow> sched_sys \<Rightarrow> sched_sys" where
  "finish_admission i wait p y =
     (if tk_cancelled (sy_tasks y ! i)
      then case permit_drop (permit_mark_cancelled p) (sy_state y) of
             (st, n) \<Rightarrow> acquire_error i CancelledAfterAdmission
               (y\<lparr>sy_state := st, sy_tasks := maybe_notify n (sy_tasks y)\<rparr>)
      else case tk_yield (sy_tasks y ! i) of
             None \<Rightarrow> y\<lparr>sy_tasks := set_pos i (Holding p) (sy_tasks y)\<rparr>
           | Some (_, release) \<Rightarrow>
               y\<lparr>sy_state := record_prefill_yield_success release wait (sy_state y),
                 sy_tasks := (sy_tasks y)[i := (sy_tasks y ! i)\<lparr>tk_yield := None, tk_pos := Holding p\<rparr>]\<rparr>)"

definition count_admission :: "nat \<Rightarrow> sched_sys \<Rightarrow> sched_sys" where
  "count_admission i y =
     (if tk_yield (sy_tasks y ! i) = None then y\<lparr>sy_admissions := Suc (sy_admissions y)\<rparr> else y)"

definition advance :: "model_scheduler_options \<Rightarrow> nat \<Rightarrow> nat \<Rightarrow> sched_sys \<Rightarrow> sched_sys option" where
  "advance opts i wait y =
     (let k = sy_tasks y ! i
      in case tk_pos k of
           AtStart \<Rightarrow>
             Some (if tk_cancelled k then acquire_error i AcqCancelled y
                   else y\<lparr>sy_tasks := set_pos i AtImmediate (sy_tasks y)\<rparr>)
         | AtImmediate \<Rightarrow>
             (case try_acquire_immediate opts (tk_class k) (tk_phase k) (sy_state y) of
                (st, Some p) \<Rightarrow>
                  Some (count_admission i (y\<lparr>sy_state := st,
                    sy_tasks := set_pos i (Admitted p None) (sy_tasks y)\<rparr>))
              | (st, None) \<Rightarrow>
                  Some (y\<lparr>sy_state := st, sy_tasks := set_pos i AtEnqueue (sy_tasks y)\<rparr>))
         | AtEnqueue \<Rightarrow>
             (case enqueue opts (tk_class k) (sy_state y) of
                (st, Ok t) \<Rightarrow>
                  Some (y\<lparr>sy_state := st,
                    sy_tasks := set_pos i (LoopHead t) (notify_waiters (sy_tasks y))\<rparr>)
              | (st, Err e) \<Rightarrow> Some (acquire_error i e (y\<lparr>sy_state := st\<rparr>))
              | (st, Panic) \<Rightarrow> None)
         | LoopHead t \<Rightarrow>
             Some (if tk_cancelled k then leave_queue i t AcqCancelled y
                   else y\<lparr>sy_tasks := set_pos i (Armed t False) (sy_tasks y)\<rparr>)
         | Armed t woken \<Rightarrow>
             (case try_admit_queued opts (qt_id t) (tk_class k) (tk_phase k) (sy_state y) of
                (st, Some p) \<Rightarrow>
                  Some (count_admission i (y\<lparr>sy_state := st,
                    sy_tasks := set_pos i (Admitted p (Some t)) (sy_tasks y)\<rparr>))
              | (st, None) \<Rightarrow>
                  Some (y\<lparr>sy_state := st, sy_tasks := set_pos i (Parked t woken) (sy_tasks y)\<rparr>))
         | Parked t woken \<Rightarrow>
             if woken then Some (y\<lparr>sy_tasks := set_pos i (LoopHead t) (sy_tasks y)\<rparr>) else None
         | Admitted p ticket \<Rightarrow>
             (let st = (case ticket of
                          Some t \<Rightarrow> if qt_decode_starvation t
                                    then record_decode_starvation_wait wait (sy_state y) else sy_state y
                        | None \<Rightarrow> sy_state y)
              in Some (finish_admission i wait p (y\<lparr>sy_state := st\<rparr>)))
         | Holding p \<Rightarrow> None
         | Finished \<Rightarrow> None)"

text \<open>The permit a request holds goes out of scope.\<close>

definition drop_permit :: "nat \<Rightarrow> scheduler_permit \<Rightarrow> sched_sys \<Rightarrow> sched_sys" where
  "drop_permit i p y =
     (case permit_drop p (sy_state y) of
        (st, n) \<Rightarrow> y\<lparr>sy_state := st, sy_tasks := maybe_notify n (set_pos i Finished (sy_tasks y))\<rparr>)"

definition yield_start :: "nat \<Rightarrow> scheduler_permit \<Rightarrow> sched_sys \<Rightarrow> sched_sys" where
  "yield_start i p y =
     (if sp_phase p = PhaseDecode \<or> \<not> sp_active p then y
      else if tk_cancelled (sy_tasks y ! i) then drop_permit i (permit_mark_cancelled p) y
      else case release_prefill_for_yield (sy_state y) of
             (st, release) \<Rightarrow>
               y\<lparr>sy_state := st,
                 sy_tasks := notify_waiters ((sy_tasks y)[i := (sy_tasks y ! i)
                   \<lparr>tk_class := ClassPrefill, tk_phase := PhasePrefill,
                    tk_yield := Some (p\<lparr>sp_active := False, sp_terminal_on_drop := False\<rparr>, release),
                    tk_pos := AtStart\<rparr>])\<rparr>)"

text \<open>The future is dropped at its await point: the ticket leaves the queue, and the permit of a
  yielding request is dropped as it is, which counts nothing.\<close>

definition drop_parked :: "nat \<Rightarrow> queued_ticket \<Rightarrow> sched_sys \<Rightarrow> sched_sys" where
  "drop_parked i t y =
     (let st1 = ticket_drop t (sy_state y);
          ts = set_pos i Finished (notify_waiters (sy_tasks y))
      in case tk_yield (sy_tasks y ! i) of
           None \<Rightarrow> y\<lparr>sy_state := st1, sy_tasks := ts\<rparr>
         | Some (p, _) \<Rightarrow>
             (case permit_drop p st1 of
                (st, n) \<Rightarrow> y\<lparr>sy_state := st, sy_tasks := maybe_notify n ts,
                              sy_abandoned := Suc (sy_abandoned y)\<rparr>))"

fun on_parked :: "nat \<Rightarrow> (queued_ticket \<Rightarrow> sched_sys \<Rightarrow> sched_sys option) \<Rightarrow> sched_sys \<Rightarrow> sched_sys option" where
  "on_parked i f y =
     (if i < length (sy_tasks y)
      then case tk_pos (sy_tasks y ! i) of Parked t _ \<Rightarrow> f t y | _ \<Rightarrow> None else None)"

fun on_holding :: "nat \<Rightarrow> (scheduler_permit \<Rightarrow> sched_sys \<Rightarrow> sched_sys) \<Rightarrow> sched_sys \<Rightarrow> sched_sys option" where
  "on_holding i f y =
     (if i < length (sy_tasks y)
      then case tk_pos (sy_tasks y ! i) of Holding p \<Rightarrow> Some (f p y) | _ \<Rightarrow> None else None)"

fun sched_exec :: "model_scheduler_options \<Rightarrow> sched_action \<Rightarrow> sched_sys \<Rightarrow> sched_sys option" where
  "sched_exec opts (Spawn cls phase) y =
     Some (y\<lparr>sy_tasks := sy_tasks y @ [\<lparr>tk_class = cls, tk_phase = phase, tk_cancelled = False,
                                        tk_yield = None, tk_pos = AtStart\<rparr>]\<rparr>)"
| "sched_exec opts (Cancel i) y =
     (if i < length (sy_tasks y)
      then Some (y\<lparr>sy_tasks := (sy_tasks y)[i := (sy_tasks y ! i)\<lparr>tk_cancelled := True\<rparr>]\<rparr>) else None)"
| "sched_exec opts (Advance i wait) y =
     (if i < length (sy_tasks y) then advance opts i wait y else None)"
| "sched_exec opts (TimeOut i) y =
     on_parked i (\<lambda>t y. if so_queue_timeout opts = None then None
                        else Some (leave_queue i (ticket_timed_out t) QueueTimedOut y)) y"
| "sched_exec opts (CancelParked i) y =
     on_parked i (\<lambda>t y. if tk_cancelled (sy_tasks y ! i) then Some (leave_queue i t AcqCancelled y)
                        else None) y"
| "sched_exec opts (DropParked i) y = on_parked i (\<lambda>t y. Some (drop_parked i t y)) y"
| "sched_exec opts (ToDecode i) y =
     on_holding i (\<lambda>p y. case permit_transition_to_decode p (sy_state y) of
        (p', st) \<Rightarrow> y\<lparr>sy_state := st, sy_tasks := set_pos i (Holding p') (sy_tasks y)\<rparr>) y"
| "sched_exec opts (MarkFailed i) y =
     on_holding i (\<lambda>p y. y\<lparr>sy_tasks := set_pos i (Holding (permit_mark_failed p)) (sy_tasks y)\<rparr>) y"
| "sched_exec opts (MarkCancelled i) y =
     on_holding i (\<lambda>p y. y\<lparr>sy_tasks := set_pos i (Holding (permit_mark_cancelled p)) (sy_tasks y)\<rparr>) y"
| "sched_exec opts (DropPermit i) y = on_holding i (\<lambda>p y. drop_permit i p y) y"
| "sched_exec opts (Yield i) y = on_holding i (\<lambda>p y. yield_start i p y) y"
| "sched_exec opts (ChunkLatency i latency) y =
     on_holding i (\<lambda>p y. y\<lparr>sy_state := record_prefill_chunk_latency latency (sy_state y)\<rparr>) y"

inductive sched_step :: "model_scheduler_options \<Rightarrow> sched_sys \<Rightarrow> sched_sys \<Rightarrow> bool"
  for opts :: model_scheduler_options where
  sched_act: "sched_exec opts a y = Some z \<Longrightarrow> sched_step opts y z"

end
