(* ===== verification/Scheduler_Inv.thy ===== *)
theory Scheduler_Inv
  imports Scheduler_System
begin

text \<open>
  The invariant of the scheduler. \<open>st_ok\<close> relates the state behind the mutex to what the tasks
  account for: the active permits of each phase, the tickets of each class and the number of
  requests that have ended. Each operation of the state moves these quantities by a known
  amount; the invariant of the whole system says that they are the sums over the tasks.
\<close>

section \<open>The state\<close>

definition opts_ok :: "model_scheduler_options \<Rightarrow> bool" where
  "opts_ok opts \<longleftrightarrow> 0 < so_concurrency_limit opts \<and> so_concurrency_limit opts \<le> u64_max \<and>
     so_queue_limit opts \<le> u64_max \<and> 0 < so_prefill_burst opts"

definition st_ok ::
  "model_scheduler_options \<Rightarrow> nat \<Rightarrow> nat \<Rightarrow> nat \<Rightarrow> nat multiset \<Rightarrow> nat multiset \<Rightarrow> nat
     \<Rightarrow> model_scheduler_state \<Rightarrow> bool" where
  "st_ok opts n ap ad qp qd ended st \<longleftrightarrow>
     ss_active_prefill st = ap \<and> ss_active_decode st = ad \<and> ap + ad \<le> so_concurrency_limit opts \<and>
     mset (ss_queued_prefill st) = qp \<and> mset (ss_queued_decode st) = qd \<and>
     sorted_wrt (<) (ss_queued_prefill st) \<and> sorted_wrt (<) (ss_queued_decode st) \<and>
     (\<forall>x \<in># qp + qd. x \<le> ss_next_ticket st) \<and> size qp + size qd \<le> so_queue_limit opts \<and>
     ss_next_ticket st \<le> n \<and>
     ss_completed st + ss_cancelled st + ss_failed st = ended \<and> ended \<le> n \<and>
     ss_admitted_prefill st + ss_admitted_decode st \<le> n \<and>
     ss_prefill_admissions_since_decode st \<le> n"

lemma st_ok_mono: "st_ok opts n ap ad qp qd e st \<Longrightarrow> st_ok opts (Suc n) ap ad qp qd e st"
  by (auto simp: st_ok_def)

lemma st_ok_totals:
  assumes "st_ok opts n ap ad qp qd e st" and "opts_ok opts"
  shows "active_total st = ap + ad" and "queued_total st = size qp + size qd"
proof -
  show "active_total st = ap + ad"
    using assms by (auto simp: st_ok_def opts_ok_def active_total_def intro!: wrap_add_small)
  have "length (ss_queued_prefill st) = size qp" "length (ss_queued_decode st) = size qd"
    using assms(1) by (auto simp: st_ok_def simp flip: size_mset)
  then show "queued_total st = size qp + size qd"
    using assms by (auto simp: st_ok_def opts_ok_def queued_total_def intro!: wrap_add_small)
qed

lemma phase_share: "of_bool (ph = PhasePrefill) + of_bool (ph = PhaseDecode) = (1 :: nat)"
  by (cases ph) auto

lemma st_ok_start_active:
  assumes st: "st_ok opts n ap ad qp qd e st" and o: "opts_ok opts" and n: "n < u64_max"
    and room: "ap + ad < so_concurrency_limit opts"
  shows "st_ok opts (Suc n) (ap + of_bool (ph = PhasePrefill)) (ad + of_bool (ph = PhaseDecode)) qp qd e
    (start_active c ph st)"
proof -
  have lim: "ap < u64_max" "ad < u64_max" using room o by (auto simp: opts_ok_def)
  have "ss_admitted_prefill st < u64_max" "ss_admitted_decode st < u64_max"
    "ss_prefill_admissions_since_decode st < u64_max"
    using st n by (auto simp: st_ok_def)
  with st room lim show ?thesis by (cases c; cases ph) (auto simp: st_ok_def Let_def)
qed

lemma st_ok_finish_inactive:
  assumes st: "st_ok opts n ap ad qp qd e st" and n: "n < u64_max"
  shows "st_ok opts (Suc n) ap ad qp qd (Suc e) (finish_inactive oc st)"
proof -
  have "ss_completed st < u64_max" "ss_cancelled st < u64_max" "ss_failed st < u64_max"
    using st n by (auto simp: st_ok_def)
  with st show ?thesis by (cases oc) (auto simp: st_ok_def)
qed

lemma st_ok_finish_active:
  assumes st: "st_ok opts n (ap + of_bool (ph = PhasePrefill)) (ad + of_bool (ph = PhaseDecode)) qp qd e st"
    and n: "n < u64_max"
  shows "st_ok opts (Suc n) ap ad qp qd (Suc e) (finish_active ph oc st)"
proof (cases ph)
  case PhasePrefill
  have "st_ok opts n ap ad qp qd e (st\<lparr>ss_active_prefill := sat_sub (ss_active_prefill st) 1\<rparr>)"
    using st PhasePrefill by (auto simp: st_ok_def sat_sub_def)
  from st_ok_finish_inactive [OF this n] PhasePrefill show ?thesis by simp
next
  case PhaseDecode
  have "st_ok opts n ap ad qp qd e (st\<lparr>ss_active_decode := sat_sub (ss_active_decode st) 1\<rparr>)"
    using st PhaseDecode by (auto simp: st_ok_def sat_sub_def)
  from st_ok_finish_inactive [OF this n] PhaseDecode show ?thesis by simp
qed

lemma st_ok_to_decode:
  assumes st: "st_ok opts n (Suc ap) ad qp qd e st" and o: "opts_ok opts"
  shows "st_ok opts n ap (Suc ad) qp qd e (state_transition_to_decode st)"
proof -
  have "ad < u64_max" using st o by (auto simp: st_ok_def opts_ok_def)
  with st show ?thesis by (auto simp: st_ok_def state_transition_to_decode_def sat_sub_def)
qed

lemma st_ok_release:
  "st_ok opts n (Suc ap) ad qp qd e st \<Longrightarrow> release_prefill_for_yield st = (st', r) \<Longrightarrow>
   st_ok opts n ap ad qp qd e st'"
  by (auto simp: st_ok_def release_prefill_for_yield_def sat_sub_def)

lemma st_ok_records [simp]:
  "st_ok opts n ap ad qp qd e (record_prefill_chunk_latency d st) = st_ok opts n ap ad qp qd e st"
  "st_ok opts n ap ad qp qd e (record_decode_starvation_wait d st) = st_ok opts n ap ad qp qd e st"
  "st_ok opts n ap ad qp qd e (record_decode_starvation_event st) = st_ok opts n ap ad qp qd e st"
  "st_ok opts n ap ad qp qd e (record_prefill_yield_success r d st) = st_ok opts n ap ad qp qd e st"
  by (auto simp: st_ok_def record_prefill_chunk_latency_def record_decode_starvation_wait_def
      record_decode_starvation_event_def record_prefill_yield_success_def
      record_prefill_yield_reacquire_wait_def Let_def)

text \<open>Queues, for both classes at once.\<close>

lemma queue_of_update [simp]:
  "queue_of c (queue_update c f st) = f (queue_of c st)"
  "c' \<noteq> c \<Longrightarrow> queue_of c' (queue_update c f st) = queue_of c' st"
  by (cases c; cases c'; simp)+

definition share :: "scheduler_class \<Rightarrow> scheduler_class \<Rightarrow> nat multiset \<Rightarrow> nat multiset" where
  "share c c' m = (if c = c' then m else {#})"

lemma share_simps [simp]: "share c c m = m" "c \<noteq> c' \<Longrightarrow> share c c' m = {#}"
  by (simp_all add: share_def)

lemma st_ok_push:
  assumes st: "st_ok opts n ap ad qp qd e st" and n: "n < u64_max" and o: "opts_ok opts"
    and room: "size qp + size qd < so_queue_limit opts"
  defines "k \<equiv> Suc (ss_next_ticket st)"
  shows "wrap_add (ss_next_ticket st) 1 = k"
    and "st_ok opts (Suc n) ap ad (qp + share c ClassPrefill {#k#}) (qd + share c ClassDecode {#k#}) e
      (queue_update c (\<lambda>q. q @ [k]) (st\<lparr>ss_next_ticket := k\<rparr>))"
proof -
  have "ss_next_ticket st < u64_max" using st n by (simp add: st_ok_def)
  then show "wrap_add (ss_next_ticket st) 1 = k" by (simp add: k_def)
  have small: "x < k" if "x \<in> set (ss_queued_prefill st) \<union> set (ss_queued_decode st)" for x
  proof -
    have "x \<in># qp + qd" using that st by (auto simp: st_ok_def)
    then have "x \<le> ss_next_ticket st" using st unfolding st_ok_def by blast
    then show ?thesis by (simp add: k_def)
  qed
  have old: "x \<le> k" if "x \<in># qp + qd" for x
    using st that unfolding st_ok_def k_def by (meson le_SucI)
  have "sorted_wrt (<) (ss_queued_prefill st @ [k])" "sorted_wrt (<) (ss_queued_decode st @ [k])"
    using st small by (simp_all add: st_ok_def sorted_wrt_append)
  with st room old show "st_ok opts (Suc n) ap ad (qp + share c ClassPrefill {#k#})
      (qd + share c ClassDecode {#k#}) e (queue_update c (\<lambda>q. q @ [k]) (st\<lparr>ss_next_ticket := k\<rparr>))"
    by (cases c) (auto simp: st_ok_def k_def)
qed

lemma sorted_wrt_remove1: "sorted_wrt P xs \<Longrightarrow> sorted_wrt P (remove1 x xs)"
proof (induction xs)
  case Nil
  then show ?case by simp
next
  case (Cons a xs)
  then show ?case using set_remove1_subset [of x xs] by auto
qed

lemma st_ok_remove:
  assumes st: "st_ok opts n ap ad (qp + share c ClassPrefill {#k#}) (qd + share c ClassDecode {#k#}) e st"
  shows "k \<in> set (queue_of c st)" and "st_ok opts n ap ad qp qd e (queue_update c (remove1 k) st)"
  using st by (cases c; auto simp: st_ok_def sorted_wrt_remove1; metis union_single_eq_member set_mset_mset)+

section \<open>The operations\<close>

lemma try_acquire_immediate_ok:
  assumes st: "st_ok opts n ap ad qp qd e st" and o: "opts_ok opts" and n: "n < u64_max"
    and res: "try_acquire_immediate opts c ph st = (st', r)"
  shows "case r of None \<Rightarrow> st' = st
    | Some p \<Rightarrow> p = admitted_permit ph \<and> qp = {#} \<and> qd = {#} \<and>
        st_ok opts (Suc n) (ap + of_bool (ph = PhasePrefill)) (ad + of_bool (ph = PhaseDecode)) qp qd e st'"
  using res st_ok_totals [OF st o] st_ok_start_active [OF st o n, of ph c]
  by (auto simp: try_acquire_immediate_def split: if_splits)

lemma enqueue_ok:
  assumes st: "st_ok opts n ap ad qp qd e st" and o: "opts_ok opts" and n: "n < u64_max"
    and res: "enqueue opts c st = (st', r)"
  shows "(r = Err QueueFull \<and> st' = st \<and> size qp + size qd \<ge> so_queue_limit opts) \<or>
    (\<exists>t. r = Ok t \<and> qt_class t = c \<and> \<not> qt_timeout t \<and> qt_id t = Suc (ss_next_ticket st) \<and>
      st_ok opts (Suc n) ap ad (qp + share c ClassPrefill {#qt_id t#})
        (qd + share c ClassDecode {#qt_id t#}) e st')"
proof (cases "size qp + size qd \<ge> so_queue_limit opts")
  case True
  then show ?thesis using res st_ok_totals(2) [OF st o] by (auto simp: enqueue_def)
next
  case False
  let ?s = "if c = ClassDecode \<and> has_prefill_pressure st then record_decode_starvation_event st else st"
  have s1: "st_ok opts n ap ad qp qd e ?s" using st by simp
  have nt: "ss_next_ticket ?s = ss_next_ticket st" by (simp add: record_decode_starvation_event_def)
  have room: "size qp + size qd < so_queue_limit opts" using False by simp
  note P1 = st_ok_push(1) [OF s1 n o room, unfolded nt]
    and P2 = st_ok_push(2) [OF s1 n o room, of c, unfolded nt]
  let ?k = "Suc (ss_next_ticket st)"
  have "enqueue opts c st = (queue_update c (\<lambda>q. q @ [wrap_add (ss_next_ticket ?s) 1])
      (?s\<lparr>ss_next_ticket := wrap_add (ss_next_ticket ?s) 1\<rparr>),
      Ok \<lparr>qt_id = wrap_add (ss_next_ticket ?s) 1, qt_class = c, qt_timeout = False,
        qt_decode_starvation = (c = ClassDecode \<and> has_prefill_pressure st)\<rparr>)"
    using room st_ok_totals(2) [OF st o] unfolding enqueue_def Let_def by simp
  then have "st' = queue_update c (\<lambda>q. q @ [?k]) (?s\<lparr>ss_next_ticket := ?k\<rparr>)"
    and "r = Ok \<lparr>qt_id = ?k, qt_class = c, qt_timeout = False,
        qt_decode_starvation = (c = ClassDecode \<and> has_prefill_pressure st)\<rparr>"
    using res unfolding nt P1 by (metis prod.inject)+
  with P2 show ?thesis by auto
qed

lemma try_admit_queued_ok:
  assumes st: "st_ok opts n ap ad (qp + share c ClassPrefill {#k#}) (qd + share c ClassDecode {#k#}) e st"
    and o: "opts_ok opts" and n: "n < u64_max"
    and res: "try_admit_queued opts k c ph st = (st', r)"
  shows "case r of None \<Rightarrow> st' = st
    | Some p \<Rightarrow> p = admitted_permit ph \<and>
        st_ok opts (Suc n) (ap + of_bool (ph = PhasePrefill)) (ad + of_bool (ph = PhaseDecode)) qp qd e st'"
proof (cases "active_total st < so_concurrency_limit opts \<and>
    next_admissible_class (so_prefill_burst opts) st = Some c \<and> (\<exists>q. queue_of c st = k # q)")
  case True
  then obtain q where q: "queue_of c st = k # q" by blast
  have "queue_update c tl st = queue_update c (remove1 k) st" using q by (cases c) simp_all
  with st_ok_remove(2) [OF st] have s1: "st_ok opts n ap ad qp qd e (queue_update c tl st)" by simp
  have room: "ap + ad < so_concurrency_limit opts" using True st_ok_totals(1) [OF st o] by simp
  from st_ok_start_active [OF s1 o n room, of ph c] True q res show ?thesis
    by (auto simp: try_admit_queued_def)
next
  case False
  then show ?thesis using res by (auto simp: try_admit_queued_def split: if_splits list.splits)
qed

lemma ticket_drop_ok:
  assumes "st_ok opts n ap ad (qp + share (qt_class t) ClassPrefill {#qt_id t#})
      (qd + share (qt_class t) ClassDecode {#qt_id t#}) e st"
  shows "st_ok opts n ap ad qp qd e (ticket_drop t st)"
  using st_ok_remove [OF assms] by (auto simp: ticket_drop_def Let_def st_ok_def)

lemma permit_drop_active:
  assumes "st_ok opts n (ap + of_bool (sp_phase p = PhasePrefill))
      (ad + of_bool (sp_phase p = PhaseDecode)) qp qd e st"
    and "n < u64_max" and "sp_active p" and "sp_terminal_on_drop p"
  shows "permit_drop p st = (finish_active (sp_phase p) (sp_outcome p) st, True)"
    and "st_ok opts (Suc n) ap ad qp qd (Suc e) (finish_active (sp_phase p) (sp_outcome p) st)"
  using assms st_ok_finish_active by (auto simp: permit_drop_def)

section \<open>The tasks\<close>

fun act :: "generation_phase \<Rightarrow> task_pos \<Rightarrow> nat" where
  "act ph (Holding p) = of_bool (sp_phase p = ph)"
| "act ph (Admitted p t) = of_bool (sp_phase p = ph)"
| "act ph _ = 0"

fun tix :: "scheduler_class \<Rightarrow> task_pos \<Rightarrow> nat multiset" where
  "tix c (LoopHead t) = share (qt_class t) c {#qt_id t#}"
| "tix c (Armed t w) = share (qt_class t) c {#qt_id t#}"
| "tix c (Parked t w) = share (qt_class t) c {#qt_id t#}"
| "tix c _ = {#}"

fun admitted_pos :: "task_pos \<Rightarrow> bool" where
  "admitted_pos (Holding p) = True"
| "admitted_pos (Admitted p t) = True"
| "admitted_pos _ = False"

text \<open>A request that has been admitted and has not ended: it holds a slot, or it has yielded its
  slot and waits for another.\<close>

definition in_flight :: "task \<Rightarrow> nat" where
  "in_flight t = of_bool (tk_pos t \<noteq> Finished \<and> (admitted_pos (tk_pos t) \<or> tk_yield t \<noteq> None))"

definition total :: "(task \<Rightarrow> 'a::comm_monoid_add) \<Rightarrow> task list \<Rightarrow> 'a" where
  "total f ts = sum_list (map f ts)"

definition rest :: "(task \<Rightarrow> 'a::comm_monoid_add) \<Rightarrow> nat \<Rightarrow> task list \<Rightarrow> 'a" where
  "rest f i ts = sum_list (map f (take i ts @ drop (Suc i) ts))"

lemma total_rest: "i < length ts \<Longrightarrow> total f ts = rest f i ts + f (ts ! i)"
proof -
  assume "i < length ts"
  then have "ts = take i ts @ ts ! i # drop (Suc i) ts" by (rule id_take_nth_drop)
  then have "total f ts = sum_list (map f (take i ts @ ts ! i # drop (Suc i) ts))"
    by (simp add: total_def)
  then show ?thesis by (simp add: rest_def add_ac)
qed

lemma rest_update [simp]: "rest f i (ts[i := t]) = rest f i ts"
  by (simp add: rest_def)

lemma total_update: "i < length ts \<Longrightarrow> total f (ts[i := t]) = rest f i ts + f t"
  using total_rest [of i "ts[i := t]" f] by simp

lemma total_append [simp]: "total f (ts @ [t]) = total f ts + f t"
  by (simp add: total_def)

text \<open>Waking changes no count.\<close>

definition wake_blind :: "(task \<Rightarrow> 'a) \<Rightarrow> bool" where
  "wake_blind f \<longleftrightarrow> (\<forall>t. f (t\<lparr>tk_pos := wake_pos (tk_pos t)\<rparr>) = f t)"

lemma wake_pos_counts [simp]:
  "act ph (wake_pos p) = act ph p" "tix c (wake_pos p) = tix c p"
  "wake_pos p = Finished \<longleftrightarrow> p = Finished" "admitted_pos (wake_pos p) = admitted_pos p"
  by (cases p; simp)+

lemma wake_blind_counts:
  "wake_blind (\<lambda>t. act ph (tk_pos t))" "wake_blind (\<lambda>t. tix c (tk_pos t))" "wake_blind in_flight"
  by (simp_all add: wake_blind_def in_flight_def)

lemma total_notify: "wake_blind f \<Longrightarrow> total f (notify_waiters ts) = total f ts"
  by (simp add: total_def notify_waiters_def wake_blind_def comp_def)

lemma rest_notify: "wake_blind f \<Longrightarrow> rest f i (notify_waiters ts) = rest f i ts"
  by (simp add: rest_def notify_waiters_def wake_blind_def comp_def take_map drop_map)

lemma length_notify [simp]: "length (notify_waiters ts) = length ts"
  by (simp add: notify_waiters_def)

lemma nth_notify: "i < length ts \<Longrightarrow> notify_waiters ts ! i = (ts ! i)\<lparr>tk_pos := wake_pos (tk_pos (ts ! i))\<rparr>"
  by (simp add: notify_waiters_def)

fun pos_ok :: "task \<Rightarrow> task_pos \<Rightarrow> bool" where
  "pos_ok t (LoopHead k) = (qt_class k = tk_class t \<and> \<not> qt_timeout k)"
| "pos_ok t (Armed k w) = (qt_class k = tk_class t \<and> \<not> qt_timeout k)"
| "pos_ok t (Parked k w) = (qt_class k = tk_class t \<and> \<not> qt_timeout k)"
| "pos_ok t (Admitted p k) = (sp_active p \<and> sp_terminal_on_drop p)"
| "pos_ok t (Holding p) = (sp_active p \<and> sp_terminal_on_drop p \<and> tk_yield t = None)"
| "pos_ok t _ = True"

definition task_ok :: "task \<Rightarrow> bool" where
  "task_ok t \<longleftrightarrow> pos_ok t (tk_pos t) \<and>
     (\<forall>p r. tk_yield t = Some (p, r) \<longrightarrow> \<not> sp_active p \<and> \<not> sp_terminal_on_drop p)"

definition sys_ok :: "model_scheduler_options \<Rightarrow> nat \<Rightarrow> sched_sys \<Rightarrow> bool" where
  "sys_ok opts n y \<longleftrightarrow>
     (\<forall>t \<in> set (sy_tasks y). task_ok t) \<and>
     (\<exists>e. st_ok opts n (total (\<lambda>t. act PhasePrefill (tk_pos t)) (sy_tasks y))
           (total (\<lambda>t. act PhaseDecode (tk_pos t)) (sy_tasks y))
           (total (\<lambda>t. tix ClassPrefill (tk_pos t)) (sy_tasks y))
           (total (\<lambda>t. tix ClassDecode (tk_pos t)) (sy_tasks y)) e (sy_state y) \<and>
        sy_admissions y = total in_flight (sy_tasks y) + e + sy_abandoned y)"

section \<open>One task taken out\<close>

text \<open>Task lists up to the wake-up flags.\<close>

fun still_pos :: "task_pos \<Rightarrow> task_pos" where
  "still_pos (Armed t _) = Armed t False"
| "still_pos (Parked t _) = Parked t False"
| "still_pos p = p"

definition still :: "task \<Rightarrow> task" where
  "still t = t\<lparr>tk_pos := still_pos (tk_pos t)\<rparr>"

abbreviation norm :: "task list \<Rightarrow> task list" where
  "norm ts \<equiv> map still ts"

lemma still_pos_counts [simp]:
  "act ph (still_pos p) = act ph p" "tix c (still_pos p) = tix c p"
  "still_pos p = Finished \<longleftrightarrow> p = Finished" "admitted_pos (still_pos p) = admitted_pos p"
  "still_pos (wake_pos p) = still_pos p"
  by (cases p; simp)+

lemma pos_ok_cong: "tk_class t = tk_class u \<Longrightarrow> tk_yield t = tk_yield u \<Longrightarrow> pos_ok t p = pos_ok u p"
  by (cases p) auto

lemma still_ok [simp]: "task_ok (still t) = task_ok t"
proof -
  have "pos_ok (still t) (still_pos (tk_pos t)) = pos_ok t (tk_pos t)"
    by (cases "tk_pos t") (auto simp: still_def)
  then show ?thesis by (simp add: task_ok_def) (simp add: still_def)
qed

lemma still_counts [simp]:
  "act ph (tk_pos (still t)) = act ph (tk_pos t)" "tix c (tk_pos (still t)) = tix c (tk_pos t)"
  "in_flight (still t) = in_flight t"
  by (simp_all add: still_def in_flight_def)

lemma norm_notify [simp]: "norm (notify_waiters ts) = norm ts"
  by (simp add: notify_waiters_def still_def)

lemma norm_maybe_notify [simp]: "norm (maybe_notify b ts) = norm ts"
  by (simp add: maybe_notify_def)

lemma norm_set_pos:
  "norm (set_pos i p ts) = (norm ts)[i := still ((ts ! i)\<lparr>tk_pos := p\<rparr>)]"
  by (simp add: set_pos_def map_update)

definition tasks_ok :: "task list \<Rightarrow> bool" where
  "tasks_ok ts \<longleftrightarrow> (\<forall>t \<in> set ts. task_ok t)"

lemma tasks_ok_norm: "tasks_ok ts = tasks_ok (norm ts)"
  by (auto simp: tasks_ok_def)

lemma total_norm:
  assumes "\<And>t. f (still t) = f t"
  shows "total f ts = total f (norm ts)" and "rest f i ts = rest f i (norm ts)"
  using assms by (simp_all add: total_def rest_def comp_def take_map drop_map)

text \<open>The system with task \<open>i\<close> replaced by the given contributions.\<close>

definition hole ::
  "model_scheduler_options \<Rightarrow> nat \<Rightarrow> nat \<Rightarrow> nat \<Rightarrow> nat \<Rightarrow> nat multiset \<Rightarrow> nat multiset \<Rightarrow> nat
     \<Rightarrow> sched_sys \<Rightarrow> bool" where
  "hole opts n i ap ad qp qd x y \<longleftrightarrow>
     i < length (sy_tasks y) \<and> tasks_ok (sy_tasks y) \<and>
     (\<exists>e. st_ok opts n (rest (\<lambda>t. act PhasePrefill (tk_pos t)) i (sy_tasks y) + ap)
           (rest (\<lambda>t. act PhaseDecode (tk_pos t)) i (sy_tasks y) + ad)
           (rest (\<lambda>t. tix ClassPrefill (tk_pos t)) i (sy_tasks y) + qp)
           (rest (\<lambda>t. tix ClassDecode (tk_pos t)) i (sy_tasks y) + qd) e (sy_state y) \<and>
        sy_admissions y = rest in_flight i (sy_tasks y) + x + e + sy_abandoned y)"

definition task_hole :: "model_scheduler_options \<Rightarrow> nat \<Rightarrow> nat \<Rightarrow> task \<Rightarrow> sched_sys \<Rightarrow> bool" where
  "task_hole opts n i t y = hole opts n i (act PhasePrefill (tk_pos t)) (act PhaseDecode (tk_pos t))
     (tix ClassPrefill (tk_pos t)) (tix ClassDecode (tk_pos t)) (in_flight t) y"

lemma sys_ok_hole:
  "sys_ok opts n y \<Longrightarrow> i < length (sy_tasks y) \<Longrightarrow> task_hole opts n i (sy_tasks y ! i) y"
  by (simp add: sys_ok_def task_hole_def hole_def tasks_ok_def total_rest)

lemma hole_mono: "hole opts n i ap ad qp qd x y \<Longrightarrow> hole opts (Suc n) i ap ad qp qd x y"
  unfolding hole_def using st_ok_mono by blast

lemma hole_norm:
  assumes "hole opts n i ap ad qp qd x y" and "norm (sy_tasks z) = norm (sy_tasks y)"
    and "sy_state z = sy_state y" and "sy_admissions z = sy_admissions y"
    and "sy_abandoned z = sy_abandoned y"
  shows "hole opts n i ap ad qp qd x z"
proof -
  have len: "length (sy_tasks z) = length (sy_tasks y)" using assms(2) by (metis length_map)
  have r: "rest f i (sy_tasks z) = rest f i (sy_tasks y)" if "\<And>t. f (still t) = f t"
    for f :: "task \<Rightarrow> 'a::comm_monoid_add"
    using total_norm(2) [of f, OF that] assms(2) by metis
  have "tasks_ok (sy_tasks z)" using assms(1,2) tasks_ok_norm by (metis hole_def)
  with assms(1,3,4,5) len show ?thesis by (simp add: hole_def r)
qed

lemma hole_fill:
  assumes h: "task_hole opts n i t y" and t: "task_ok t"
    and norm: "norm (sy_tasks z) = (norm (sy_tasks y))[i := still t]"
    and same: "sy_state z = sy_state y" "sy_admissions z = sy_admissions y" "sy_abandoned z = sy_abandoned y"
  shows "sys_ok opts n z"
proof -
  have i: "i < length (sy_tasks y)" and ok: "tasks_ok (sy_tasks y)"
    using h by (simp_all add: task_hole_def hole_def)
  have "tasks_ok ((norm (sy_tasks y))[i := still t])"
    using ok t unfolding tasks_ok_def by (auto dest!: set_update_subset_insert [THEN subsetD])
  then have ok': "tasks_ok (sy_tasks z)" using tasks_ok_norm norm by metis
  have tot: "total f (sy_tasks z) = rest f i (sy_tasks y) + f t" if f: "\<And>t. f (still t) = f t"
    for f :: "task \<Rightarrow> 'a::comm_monoid_add"
  proof -
    have "total f (sy_tasks z) = total f ((norm (sy_tasks y))[i := still t])"
      using total_norm(1) [of f, OF f] norm by metis
    also have "\<dots> = rest f i (norm (sy_tasks y)) + f (still t)" using i by (intro total_update) simp
    finally show ?thesis using f total_norm(2) [of f, OF f] by metis
  qed
  show ?thesis
    using h ok' same by (simp add: sys_ok_def task_hole_def hole_def tot tasks_ok_def)
qed

lemma hole_state:
  assumes h: "hole opts n i ap ad qp qd (x + d) y"
    and step: "\<And>A B P Q e. st_ok opts n (A + ap) (B + ad) (P + qp) (Q + qd) e (sy_state y) \<Longrightarrow>
      st_ok opts m (A + ap') (B + ad') (P + qp') (Q + qd') (e + d) st'"
    and z: "norm (sy_tasks z) = norm (sy_tasks y)" "sy_state z = st'"
      "sy_admissions z = sy_admissions y" "sy_abandoned z = sy_abandoned y"
  shows "hole opts m i ap' ad' qp' qd' x z"
proof -
  let ?y = "y\<lparr>sy_state := st'\<rparr>"
  obtain e where e: "st_ok opts n (rest (\<lambda>t. act PhasePrefill (tk_pos t)) i (sy_tasks y) + ap)
           (rest (\<lambda>t. act PhaseDecode (tk_pos t)) i (sy_tasks y) + ad)
           (rest (\<lambda>t. tix ClassPrefill (tk_pos t)) i (sy_tasks y) + qp)
           (rest (\<lambda>t. tix ClassDecode (tk_pos t)) i (sy_tasks y) + qd) e (sy_state y)"
    "sy_admissions y = rest in_flight i (sy_tasks y) + (x + d) + e + sy_abandoned y"
    using h unfolding hole_def by blast
  have "sy_admissions ?y = rest in_flight i (sy_tasks ?y) + x + (e + d) + sy_abandoned ?y"
    using e(2) by simp
  with step [OF e(1)] h have "hole opts m i ap' ad' qp' qd' x ?y"
    unfolding hole_def by auto
  then show ?thesis by (rule hole_norm) (use z in simp_all)
qed

end
