(* ===== verification/Scheduler_Steps.thy ===== *)
theory Scheduler_Steps
  imports Scheduler_Inv
begin

text \<open>Every step of the scheduler system keeps the invariant of \<open>Scheduler_Inv\<close>.\<close>

section \<open>Leaving\<close>

lemma hole_task:
  "hole opts n i ap ad qp qd x y \<Longrightarrow> i < length (sy_tasks y) \<and> task_ok (sy_tasks y ! i)"
  by (simp add: hole_def tasks_ok_def)

lemma finished_task:
  "task_ok t \<Longrightarrow> task_ok (t\<lparr>tk_pos := Finished\<rparr>)" "in_flight (t\<lparr>tk_pos := Finished\<rparr>) = 0"
  by (simp_all add: task_ok_def in_flight_def)

lemma finish_task:
  assumes h: "hole opts n i 0 0 {#} {#} 0 y"
    and norm: "norm (sy_tasks z) = norm (set_pos i Finished (sy_tasks y))"
    and same: "sy_state z = sy_state y" "sy_admissions z = sy_admissions y" "sy_abandoned z = sy_abandoned y"
  shows "sys_ok opts n z"
proof (rule hole_fill [OF _ _ _ same])
  show "task_hole opts n i ((sy_tasks y ! i)\<lparr>tk_pos := Finished\<rparr>) y"
    using h by (simp add: task_hole_def finished_task)
  show "task_ok ((sy_tasks y ! i)\<lparr>tk_pos := Finished\<rparr>)" using hole_task [OF h] finished_task by blast
  show "norm (sy_tasks z) = (norm (sy_tasks y))[i := still ((sy_tasks y ! i)\<lparr>tk_pos := Finished\<rparr>)]"
    using norm by (simp only: norm_set_pos)
qed

lemma readmission_drop:
  assumes "\<not> sp_active p" and "\<not> sp_terminal_on_drop p"
  shows "permit_drop (complete_readmission_error err p) st =
    (if err = CancelledAfterAdmission then (st, False)
     else (finish_inactive (sp_outcome (complete_readmission_error err p)) st, True))"
  using assms by (cases err) (auto simp: permit_drop_def)

lemma acquire_error_ok:
  assumes h: "hole opts n i 0 0 {#} {#}
      (of_bool (tk_yield (sy_tasks y ! i) \<noteq> None \<and> err \<noteq> CancelledAfterAdmission)) y"
    and n: "n < u64_max"
  shows "sys_ok opts (if err = CancelledAfterAdmission then n else Suc n) (acquire_error i err y)"
proof (cases "tk_yield (sy_tasks y ! i)")
  case None
  then have "sys_ok opts n (acquire_error i err y)"
    by (intro finish_task [of _ _ _ y]) (use h in \<open>simp_all add: acquire_error_def\<close>)
  then show ?thesis using st_ok_mono by (fastforce simp: sys_ok_def)
next
  case (Some pr)
  obtain p r where pr: "pr = (p, r)" by fastforce
  have p: "\<not> sp_active p" "\<not> sp_terminal_on_drop p"
    using hole_task [OF h] Some pr by (auto simp: task_ok_def)
  show ?thesis
  proof (cases "err = CancelledAfterAdmission")
    case True
    with h Some pr show ?thesis
      by (intro finish_task [of _ _ _ y]) (simp_all add: acquire_error_def permit_drop_def)
  next
    case False
    let ?st = "finish_inactive (sp_outcome (complete_readmission_error err p)) (sy_state y)"
    let ?y = "y\<lparr>sy_state := ?st\<rparr>"
    have "hole opts (Suc n) i 0 0 {#} {#} 0 ?y"
    proof (rule hole_state [where d = 1 and y = y and n = n])
      fix A B P Q e
      assume "st_ok opts n (A + 0) (B + 0) (P + {#}) (Q + {#}) e (sy_state y)"
      from st_ok_finish_inactive [OF this n]
      show "st_ok opts (Suc n) (A + 0) (B + 0) (P + {#}) (Q + {#}) (e + 1) ?st" by simp
    qed (use h Some False in simp_all)
    then have "sys_ok opts (Suc n) (acquire_error i err y)"
      by (rule finish_task) (use Some pr False readmission_drop [OF p, of err] in \<open>simp_all add: acquire_error_def\<close>)
    with False show ?thesis by simp
  qed
qed

lemma ticket_hole:
  assumes y: "sys_ok opts n y" and i: "i < length (sy_tasks y)"
    and pos: "tk_pos (sy_tasks y ! i) \<in> {LoopHead t, Armed t w, Parked t w}"
  shows "hole opts n i 0 0 (share (qt_class t) ClassPrefill {#qt_id t#})
      (share (qt_class t) ClassDecode {#qt_id t#}) (of_bool (tk_yield (sy_tasks y ! i) \<noteq> None)) y"
  using sys_ok_hole [OF y i] pos by (auto simp: task_hole_def in_flight_def)

lemma ticket_drop_hole:
  assumes h: "hole opts n i 0 0 (share (qt_class t) ClassPrefill {#qt_id t#})
      (share (qt_class t) ClassDecode {#qt_id t#}) x y"
    and z: "norm (sy_tasks z) = norm (sy_tasks y)" "sy_state z = ticket_drop t (sy_state y)"
      "sy_admissions z = sy_admissions y" "sy_abandoned z = sy_abandoned y"
  shows "hole opts n i 0 0 {#} {#} x z"
proof (rule hole_state [OF _ _ z, where d = 0 and n = n])
  fix A B P Q e
  assume "st_ok opts n (A + 0) (B + 0) (P + share (qt_class t) ClassPrefill {#qt_id t#})
      (Q + share (qt_class t) ClassDecode {#qt_id t#}) e (sy_state y)"
  from ticket_drop_ok [OF this]
  show "st_ok opts n (A + 0) (B + 0) (P + {#}) (Q + {#}) (e + 0) (ticket_drop t (sy_state y))" by simp
qed (use h in simp)

lemma leave_queue_ok:
  assumes y: "sys_ok opts n y" and n: "n < u64_max" and i: "i < length (sy_tasks y)"
    and pos: "tk_pos (sy_tasks y ! i) \<in> {LoopHead k, Armed k w, Parked k w}"
    and t: "qt_id t = qt_id k" "qt_class t = qt_class k" and err: "err \<noteq> CancelledAfterAdmission"
  shows "sys_ok opts (Suc n) (leave_queue i t err y)"
proof -
  let ?z = "y\<lparr>sy_state := ticket_drop t (sy_state y), sy_tasks := notify_waiters (sy_tasks y)\<rparr>"
  have "hole opts n i 0 0 {#} {#} (of_bool (tk_yield (sy_tasks y ! i) \<noteq> None)) ?z"
    by (rule ticket_drop_hole [of _ _ _ t _ y])
       (use ticket_hole [OF y i pos] t in \<open>simp_all\<close>)
  moreover have "tk_yield (sy_tasks ?z ! i) = tk_yield (sy_tasks y ! i)" using i by (simp add: nth_notify)
  ultimately have "sys_ok opts (Suc n) (acquire_error i err ?z)"
    using acquire_error_ok [of opts n i ?z err] n err by simp
  then show ?thesis by (simp add: leave_queue_def)
qed

lemma drop_parked_ok:
  assumes y: "sys_ok opts n y" and i: "i < length (sy_tasks y)"
    and pos: "tk_pos (sy_tasks y ! i) = Parked t w"
  shows "sys_ok opts n (drop_parked i t y)"
proof -
  let ?st = "ticket_drop t (sy_state y)"
  let ?x = "of_bool (tk_yield (sy_tasks y ! i) \<noteq> None) :: nat"
  let ?z = "y\<lparr>sy_state := ?st\<rparr>"
  have h: "hole opts n i 0 0 {#} {#} ?x ?z"
    by (rule ticket_drop_hole [of _ _ _ t _ y]) (use ticket_hole [OF y i, of t w] pos in simp_all)
  have norm: "norm (set_pos i Finished (notify_waiters (sy_tasks y))) = norm (set_pos i Finished (sy_tasks y))"
    using i by (simp add: norm_set_pos nth_notify)
  show ?thesis
  proof (cases "tk_yield (sy_tasks y ! i)")
    case None
    show ?thesis
      by (rule finish_task [of _ _ _ ?z]) (use h None norm in \<open>simp_all add: drop_parked_def Let_def\<close>)
  next
    case (Some pr)
    obtain p r where pr: "pr = (p, r)" by fastforce
    have "\<not> sp_terminal_on_drop p" using hole_task [OF h] Some pr by (auto simp: task_ok_def)
    then have pd: "permit_drop p ?st = (?st, False)" by (simp add: permit_drop_def)
    let ?v = "?z\<lparr>sy_abandoned := Suc (sy_abandoned y)\<rparr>"
    have "hole opts n i 0 0 {#} {#} 0 ?v" using h Some by (auto simp: hole_def)
    then show ?thesis
      by (rule finish_task) (use Some pr pd norm in \<open>simp_all add: drop_parked_def Let_def\<close>)
  qed
qed

section \<open>Permits\<close>

lemma admitted_hole:
  assumes y: "sys_ok opts n y" and i: "i < length (sy_tasks y)"
    and pos: "tk_pos (sy_tasks y ! i) = Admitted p k \<or> tk_pos (sy_tasks y ! i) = Holding p"
  shows "hole opts n i (of_bool (sp_phase p = PhasePrefill)) (of_bool (sp_phase p = PhaseDecode)) {#} {#} 1 y"
    and "sp_active p" and "sp_terminal_on_drop p"
proof -
  show h: "hole opts n i (of_bool (sp_phase p = PhasePrefill)) (of_bool (sp_phase p = PhaseDecode)) {#} {#} 1 y"
    using sys_ok_hole [OF y i] pos by (auto simp: task_hole_def in_flight_def)
  show "sp_active p" "sp_terminal_on_drop p"
    using hole_task [OF h] pos by (auto simp: task_ok_def)
qed

lemma permit_drop_hole:
  assumes h: "hole opts n i (of_bool (sp_phase p = PhasePrefill)) (of_bool (sp_phase p = PhaseDecode)) {#} {#} 1 y"
    and n: "n < u64_max" and p: "sp_active p" "sp_terminal_on_drop p"
    and st: "permit_drop p (sy_state y) = (st, b)"
    and z: "norm (sy_tasks z) = norm (sy_tasks y)" "sy_state z = st"
      "sy_admissions z = sy_admissions y" "sy_abandoned z = sy_abandoned y"
  shows "hole opts (Suc n) i 0 0 {#} {#} 0 z"
proof (rule hole_state [OF _ _ z, where d = 1 and n = n])
  fix A B P Q e
  assume "st_ok opts n (A + of_bool (sp_phase p = PhasePrefill)) (B + of_bool (sp_phase p = PhaseDecode))
      (P + {#}) (Q + {#}) e (sy_state y)"
  from permit_drop_active [OF this n p] st
  show "st_ok opts (Suc n) (A + 0) (B + 0) (P + {#}) (Q + {#}) (e + 1) st" by simp
qed (use h in simp)

lemma drop_permit_ok:
  assumes y: "sys_ok opts n y" and n: "n < u64_max" and i: "i < length (sy_tasks y)"
    and pos: "tk_pos (sy_tasks y ! i) = Holding q"
    and p: "sp_phase p = sp_phase q" "sp_active p = sp_active q"
      "sp_terminal_on_drop p = sp_terminal_on_drop q"
  shows "sys_ok opts (Suc n) (drop_permit i p y)"
proof -
  note A = admitted_hole [OF y i, of q] 
  obtain st b where st: "permit_drop p (sy_state y) = (st, b)" by fastforce
  have "hole opts (Suc n) i 0 0 {#} {#} 0 (y\<lparr>sy_state := st\<rparr>)"
    by (rule permit_drop_hole [OF _ n _ _ st]) (use A pos p in simp_all)
  then show ?thesis by (rule finish_task) (use st in \<open>simp_all add: drop_permit_def\<close>)
qed

lemma yield_start_ok:
  assumes y: "sys_ok opts n y" and n: "n < u64_max" and i: "i < length (sy_tasks y)"
    and pos: "tk_pos (sy_tasks y ! i) = Holding p"
  shows "sys_ok opts (Suc n) (yield_start i p y)"
proof -
  note A = admitted_hole [OF y i, of p]
  have p: "sp_active p" "sp_terminal_on_drop p" using A(2,3) pos by simp_all
  have mono: "sys_ok opts (Suc n) y" using y st_ok_mono unfolding sys_ok_def by blast
  show ?thesis
  proof (cases "sp_phase p = PhaseDecode")
    case True
    with mono show ?thesis by (simp add: yield_start_def)
  next
    case False
    then have ph: "sp_phase p = PhasePrefill" by (cases "sp_phase p") auto
    show ?thesis
    proof (cases "tk_cancelled (sy_tasks y ! i)")
      case True
      with drop_permit_ok [OF y n i pos, of "permit_mark_cancelled p"] ph p show ?thesis
        by (simp add: yield_start_def permit_mark_cancelled_def)
    next
      case nc: False
      obtain st r where rel: "release_prefill_for_yield (sy_state y) = (st, r)" by fastforce
      let ?t = "(sy_tasks y ! i)\<lparr>tk_class := ClassPrefill, tk_phase := PhasePrefill,
          tk_yield := Some (p\<lparr>sp_active := False, sp_terminal_on_drop := False\<rparr>, r), tk_pos := AtStart\<rparr>"
      have "hole opts n i 0 0 {#} {#} 1 (y\<lparr>sy_state := st\<rparr>)"
      proof (rule hole_state [where d = 0 and y = y and n = n])
        show "hole opts n i 1 0 {#} {#} (1 + 0) y" using A(1) pos ph by simp
        fix A B P Q e
        assume "st_ok opts n (A + 1) (B + 0) (P + {#}) (Q + {#}) e (sy_state y)"
        then show "st_ok opts n (A + 0) (B + 0) (P + {#}) (Q + {#}) (e + 0) st"
          using st_ok_release [OF _ rel, of opts n A B P Q e] by simp
      qed simp_all
      then have "hole opts (Suc n) i 0 0 {#} {#} 1 (y\<lparr>sy_state := st\<rparr>)" by (rule hole_mono)
      then show ?thesis
        by (intro hole_fill [where t = ?t and y = "y\<lparr>sy_state := st\<rparr>" and i = i])
           (use False p nc rel in \<open>simp_all add: yield_start_def task_hole_def in_flight_def task_ok_def map_update\<close>)
    qed
  qed
qed

lemma sys_ok_mono: "sys_ok opts n y \<Longrightarrow> sys_ok opts (Suc n) y"
  using st_ok_mono unfolding sys_ok_def by blast

lemma same_yield: "tk_yield k = None \<Longrightarrow> k\<lparr>tk_yield := None, tk_pos := x\<rparr> = k\<lparr>tk_pos := x\<rparr>"
  by (cases k) simp

lemma finish_admission_ok:
  assumes y: "sys_ok opts n y" and n: "n < u64_max" and i: "i < length (sy_tasks y)"
    and pos: "tk_pos (sy_tasks y ! i) = Admitted p k"
  shows "sys_ok opts (Suc n) (finish_admission i wait p y)"
proof -
  note A = admitted_hole [OF y i, of p k]
  have p: "sp_active p" "sp_terminal_on_drop p" using A(2,3) pos by simp_all
  show ?thesis
  proof (cases "tk_cancelled (sy_tasks y ! i)")
    case True
    obtain st b where st: "permit_drop (permit_mark_cancelled p) (sy_state y) = (st, b)" by fastforce
    let ?z = "y\<lparr>sy_state := st, sy_tasks := maybe_notify b (sy_tasks y)\<rparr>"
    have "hole opts (Suc n) i 0 0 {#} {#} 0 ?z"
      by (rule permit_drop_hole [OF _ n _ _ st]) (use A(1) pos p in \<open>simp_all add: permit_mark_cancelled_def\<close>)
    then have h: "hole opts (Suc n) i 0 0 {#} {#}
        (of_bool (tk_yield (sy_tasks ?z ! i) \<noteq> None \<and> CancelledAfterAdmission \<noteq> CancelledAfterAdmission)) ?z"
      by simp
    have "sys_ok opts (Suc n) (acquire_error i CancelledAfterAdmission ?z)"
    proof (cases "tk_yield (sy_tasks ?z ! i)")
      case None
      show ?thesis
        by (rule finish_task [of _ _ _ ?z]) (use h None in \<open>simp_all add: acquire_error_def\<close>)
    next
      case (Some pr)
      show ?thesis
        by (rule finish_task [of _ _ _ ?z])
           (use h Some in \<open>simp_all add: acquire_error_def permit_drop_def split: prod.split\<close>)
    qed
    with True st show ?thesis by (simp add: finish_admission_def)
  next
    case nc: False
    let ?t = "(sy_tasks y ! i)\<lparr>tk_yield := None, tk_pos := Holding p\<rparr>"
    have ok: "task_ok ?t" using p by (simp add: task_ok_def)
    have fl: "in_flight ?t = 1" by (simp add: in_flight_def)
    let ?z = "finish_admission i wait p y"
    have st: "sy_state ?z = (case tk_yield (sy_tasks y ! i) of None \<Rightarrow> sy_state y
        | Some (_, r) \<Rightarrow> record_prefill_yield_success r wait (sy_state y))"
      and g: "sy_admissions ?z = sy_admissions y" "sy_abandoned ?z = sy_abandoned y"
      using nc by (auto simp: finish_admission_def split: option.splits)
    have ts: "sy_tasks ?z = (sy_tasks y)[i := ?t]"
    proof (cases "tk_yield (sy_tasks y ! i)")
      case None
      then have "sy_tasks ?z = (sy_tasks y)[i := (sy_tasks y ! i)\<lparr>tk_pos := Holding p\<rparr>]"
        using nc by (simp add: finish_admission_def set_pos_def)
      then show ?thesis by (simp only: same_yield [OF None])
    next
      case (Some pr)
      then show ?thesis using nc by (cases pr) (simp add: finish_admission_def)
    qed
    have "hole opts n i (of_bool (sp_phase p = PhasePrefill)) (of_bool (sp_phase p = PhaseDecode)) {#} {#} 1
        (y\<lparr>sy_state := sy_state ?z\<rparr>)"
      using A(1) pos unfolding hole_def st by (auto split: option.split)
    then have "sys_ok opts n ?z"
      by (intro hole_fill [where t = ?t and y = "y\<lparr>sy_state := sy_state ?z\<rparr>" and i = i])
         (simp_all add: task_hole_def fl ok ts g map_update)
    then show ?thesis by (rule sys_ok_mono)
  qed
qed

section \<open>Steps\<close>

text \<open>Moving a task between positions that contribute the same.\<close>

lemma move_ok:
  assumes y: "sys_ok opts n y" and i: "i < length (sy_tasks y)" and t: "task_ok t"
    and same: "act PhasePrefill (tk_pos t) = act PhasePrefill (tk_pos (sy_tasks y ! i))"
      "act PhaseDecode (tk_pos t) = act PhaseDecode (tk_pos (sy_tasks y ! i))"
      "tix ClassPrefill (tk_pos t) = tix ClassPrefill (tk_pos (sy_tasks y ! i))"
      "tix ClassDecode (tk_pos t) = tix ClassDecode (tk_pos (sy_tasks y ! i))"
      "in_flight t = in_flight (sy_tasks y ! i)"
  shows "sys_ok opts (Suc n) (y\<lparr>sy_tasks := (sy_tasks y)[i := t]\<rparr>)"
proof (rule sys_ok_mono, rule hole_fill [OF _ t])
  show "task_hole opts n i t y"
    using sys_ok_hole [OF y i] by (simp add: task_hole_def same)
qed (simp_all add: map_update)

lemma move_pos_ok:
  assumes y: "sys_ok opts n y" and i: "i < length (sy_tasks y)"
    and p: "pos_ok (sy_tasks y ! i) p" and fin: "p \<noteq> Finished" "tk_pos (sy_tasks y ! i) \<noteq> Finished"
    and same: "act PhasePrefill p = act PhasePrefill (tk_pos (sy_tasks y ! i))"
      "act PhaseDecode p = act PhaseDecode (tk_pos (sy_tasks y ! i))"
      "tix ClassPrefill p = tix ClassPrefill (tk_pos (sy_tasks y ! i))"
      "tix ClassDecode p = tix ClassDecode (tk_pos (sy_tasks y ! i))"
      "admitted_pos p = admitted_pos (tk_pos (sy_tasks y ! i))"
  shows "sys_ok opts (Suc n) (y\<lparr>sy_tasks := set_pos i p (sy_tasks y)\<rparr>)"
proof -
  have "task_ok (sy_tasks y ! i)" using sys_ok_hole [OF y i] hole_task unfolding task_hole_def by blast
  then have t: "task_ok ((sy_tasks y ! i)\<lparr>tk_pos := p\<rparr>)"
    using p pos_ok_cong [of "(sy_tasks y ! i)\<lparr>tk_pos := p\<rparr>" "sy_tasks y ! i"] by (simp add: task_ok_def)
  show ?thesis unfolding set_pos_def
    by (rule move_ok [OF y i t]) (use same fin in \<open>simp_all add: in_flight_def\<close>)
qed

text \<open>A waiting task is admitted.\<close>

lemma admit_ok:
  assumes i: "i < length (sy_tasks y)" and ok: "tasks_ok (sy_tasks y)"
    and h: "hole opts n i (of_bool (ph = PhasePrefill)) (of_bool (ph = PhaseDecode)) {#} {#}
      (of_bool (tk_yield (sy_tasks y ! i) \<noteq> None)) (y\<lparr>sy_state := st\<rparr>)"
  shows "sys_ok opts n (count_admission i (y\<lparr>sy_state := st,
    sy_tasks := set_pos i (Admitted (admitted_permit ph) k) (sy_tasks y)\<rparr>))"
proof -
  let ?t = "(sy_tasks y ! i)\<lparr>tk_pos := Admitted (admitted_permit ph) k\<rparr>"
  have "task_ok (sy_tasks y ! i)" using ok i by (simp add: tasks_ok_def)
  then have t: "task_ok ?t" by (auto simp: task_ok_def admitted_permit_def)
  let ?v = "count_admission i (y\<lparr>sy_state := st\<rparr>)"
  have "hole opts n i (of_bool (ph = PhasePrefill)) (of_bool (ph = PhaseDecode)) {#} {#} 1 ?v"
    using h by (auto simp: hole_def count_admission_def)
  then have "task_hole opts n i ?t ?v"
    by (simp add: task_hole_def in_flight_def admitted_permit_def)
  then show ?thesis
    by (rule hole_fill [OF _ t])
       (simp_all add: count_admission_def norm_set_pos, use i in \<open>simp_all add: set_pos_def\<close>)
qed

lemma task_view:
  assumes "sys_ok opts n y" and "i < length (sy_tasks y)"
  shows "task_hole opts n i (sy_tasks y ! i) y" and "task_ok (sy_tasks y ! i)"
    and "tasks_ok (sy_tasks y)"
  using sys_ok_hole [OF assms] assms by (auto simp: sys_ok_def tasks_ok_def)

lemma advance_immediate_ok:
  assumes y: "sys_ok opts n y" and o: "opts_ok opts" and n: "n < u64_max" and i: "i < length (sy_tasks y)"
    and AtImmediate: "tk_pos (sy_tasks y ! i) = AtImmediate" and res: "advance opts i wait y = Some z"
  shows "sys_ok opts (Suc n) z"
proof -
  let ?k = "sy_tasks y ! i"
  let ?x = "of_bool (tk_yield ?k \<noteq> None) :: nat"
  note h = task_view(1) [OF y i] and ok = task_view(2) [OF y i]
    and oks = task_view(3) [OF y i]
  obtain st r where t: "try_acquire_immediate opts (tk_class ?k) (tk_phase ?k) (sy_state y) = (st, r)"
    by fastforce
  note T = try_acquire_immediate_ok [OF _ o n t]
  show ?thesis
  proof (cases r)
    case None
    have "st = sy_state y" using t None by (auto simp: try_acquire_immediate_def split: if_splits)
    with AtImmediate res t None have "z = y\<lparr>sy_tasks := set_pos i AtEnqueue (sy_tasks y)\<rparr>"
      by (simp add: advance_def Let_def)
    with move_pos_ok [OF y i, of AtEnqueue] AtImmediate show ?thesis by simp
  next
    case (Some p)
    have p: "p = admitted_permit (tk_phase ?k)"
      using t Some by (auto simp: try_acquire_immediate_def split: if_splits)
    have "hole opts (Suc n) i (of_bool (tk_phase ?k = PhasePrefill)) (of_bool (tk_phase ?k = PhaseDecode))
        {#} {#} ?x (y\<lparr>sy_state := st\<rparr>)"
    proof (rule hole_state [where d = 0 and y = y and n = n])
      show "hole opts n i 0 0 {#} {#} (?x + 0) y"
        using h AtImmediate by (simp add: task_hole_def in_flight_def)
      fix A B P Q e
      assume "st_ok opts n (A + 0) (B + 0) (P + {#}) (Q + {#}) e (sy_state y)"
      from T [OF this] Some show "st_ok opts (Suc n) (A + of_bool (tk_phase ?k = PhasePrefill))
          (B + of_bool (tk_phase ?k = PhaseDecode)) (P + {#}) (Q + {#}) (e + 0) st" by auto
    qed simp_all
    from admit_ok [OF i oks this] AtImmediate res t Some p show ?thesis
      by (auto simp: advance_def Let_def)
  qed
qed

lemma advance_enqueue_ok:
  assumes y: "sys_ok opts n y" and o: "opts_ok opts" and n: "n < u64_max" and i: "i < length (sy_tasks y)"
    and AtEnqueue: "tk_pos (sy_tasks y ! i) = AtEnqueue" and res: "advance opts i wait y = Some z"
  shows "sys_ok opts (Suc n) z"
proof -
  let ?k = "sy_tasks y ! i"
  let ?x = "of_bool (tk_yield ?k \<noteq> None) :: nat"
  note h = task_view(1) [OF y i] and ok = task_view(2) [OF y i]
    and oks = task_view(3) [OF y i]
  obtain st r where t: "enqueue opts (tk_class ?k) (sy_state y) = (st, r)" by fastforce
  have h0: "hole opts n i 0 0 {#} {#} ?x y" using h AtEnqueue by (simp add: task_hole_def in_flight_def)
  obtain A B P Q e where st0: "st_ok opts n A B P Q e (sy_state y)" using y unfolding sys_ok_def by blast
  from enqueue_ok [OF st0 o n t] show ?thesis
  proof (elim disjE conjE exE)
    assume r: "r = Err QueueFull" "st = sy_state y"
    have "hole opts n i 0 0 {#} {#} (of_bool (tk_yield ?k \<noteq> None \<and> QueueFull \<noteq> CancelledAfterAdmission)) y"
      using h0 by simp
    from acquire_error_ok [OF this n] AtEnqueue res t r show ?thesis by (simp add: advance_def Let_def)
  next
    fix k
    assume r: "r = Ok k" "qt_class k = tk_class ?k" "\<not> qt_timeout k" "qt_id k = Suc (ss_next_ticket (sy_state y))"
    let ?t = "?k\<lparr>tk_pos := LoopHead k\<rparr>"
    have "hole opts (Suc n) i 0 0 (share (qt_class k) ClassPrefill {#qt_id k#})
        (share (qt_class k) ClassDecode {#qt_id k#}) ?x (y\<lparr>sy_state := st\<rparr>)"
    proof (rule hole_state [where d = 0 and y = y and n = n])
      fix A B P Q e
      assume "st_ok opts n (A + 0) (B + 0) (P + {#}) (Q + {#}) e (sy_state y)"
      from enqueue_ok [OF this o n t] r show "st_ok opts (Suc n) (A + 0) (B + 0)
          (P + share (qt_class k) ClassPrefill {#qt_id k#}) (Q + share (qt_class k) ClassDecode {#qt_id k#})
          (e + 0) st" by auto
    qed (use h0 in simp_all)
    then have th: "task_hole opts (Suc n) i ?t (y\<lparr>sy_state := st\<rparr>)"
      by (simp add: task_hole_def in_flight_def)
    have tok: "task_ok ?t" using ok r by (simp add: task_ok_def)
    have "z = y\<lparr>sy_state := st, sy_tasks := set_pos i (LoopHead k) (notify_waiters (sy_tasks y))\<rparr>"
      using AtEnqueue res t r by (simp add: advance_def Let_def)
    then show ?thesis
      by (intro hole_fill [OF th tok]) (use i in \<open>simp_all add: norm_set_pos nth_notify\<close>)
  qed
qed

lemma advance_armed_ok:
  assumes y: "sys_ok opts n y" and o: "opts_ok opts" and n: "n < u64_max" and i: "i < length (sy_tasks y)"
    and Armed: "tk_pos (sy_tasks y ! i) = Armed t w" and res: "advance opts i wait y = Some z"
  shows "sys_ok opts (Suc n) z"
proof -
  let ?k = "sy_tasks y ! i"
  let ?x = "of_bool (tk_yield ?k \<noteq> None) :: nat"
  note h = task_view(1) [OF y i] and ok = task_view(2) [OF y i]
    and oks = task_view(3) [OF y i]
  obtain st r where ta: "try_admit_queued opts (qt_id t) (tk_class ?k) (tk_phase ?k) (sy_state y) = (st, r)"
    by fastforce
  have c: "qt_class t = tk_class ?k" using ok Armed by (simp add: task_ok_def)
  show ?thesis
  proof (cases r)
    case None
    have "st = sy_state y" using ta None by (auto simp: try_admit_queued_def split: if_splits list.splits)
    with Armed res ta None have "z = y\<lparr>sy_tasks := set_pos i (Parked t w) (sy_tasks y)\<rparr>"
      by (simp add: advance_def Let_def)
    with move_pos_ok [OF y i, of "Parked t w"] Armed ok show ?thesis by (simp add: task_ok_def)
  next
    case (Some p)
    have p: "p = admitted_permit (tk_phase ?k)"
      using ta Some by (auto simp: try_admit_queued_def split: if_splits list.splits)
    have "hole opts (Suc n) i (of_bool (tk_phase ?k = PhasePrefill)) (of_bool (tk_phase ?k = PhaseDecode))
        {#} {#} ?x (y\<lparr>sy_state := st\<rparr>)"
    proof (rule hole_state [where d = 0 and y = y and n = n])
      show "hole opts n i 0 0 (share (tk_class ?k) ClassPrefill {#qt_id t#})
          (share (tk_class ?k) ClassDecode {#qt_id t#}) (?x + 0) y"
        using ticket_hole [OF y i, of t w] Armed c by simp
      fix A B P Q e
      assume "st_ok opts n (A + 0) (B + 0) (P + share (tk_class ?k) ClassPrefill {#qt_id t#})
        (Q + share (tk_class ?k) ClassDecode {#qt_id t#}) e (sy_state y)"
      from try_admit_queued_ok [OF this o n ta] Some
      show "st_ok opts (Suc n) (A + of_bool (tk_phase ?k = PhasePrefill))
          (B + of_bool (tk_phase ?k = PhaseDecode)) (P + {#}) (Q + {#}) (e + 0) st" by auto
    qed simp_all
    from admit_ok [OF i oks this] Armed res ta Some p show ?thesis by (auto simp: advance_def Let_def)
  qed
qed

lemma advance_ok:
  assumes y: "sys_ok opts n y" and o: "opts_ok opts" and n: "n < u64_max" and i: "i < length (sy_tasks y)"
    and res: "advance opts i wait y = Some z"
  shows "sys_ok opts (Suc n) z"
proof -
  let ?k = "sy_tasks y ! i"
  note h = task_view(1) [OF y i] and ok = task_view(2) [OF y i]
  show ?thesis
  proof (cases "tk_pos ?k")
    case AtStart
    show ?thesis
    proof (cases "tk_cancelled ?k")
      case True
      have "hole opts n i 0 0 {#} {#} (of_bool (tk_yield ?k \<noteq> None \<and> AcqCancelled \<noteq> CancelledAfterAdmission)) y"
        using h AtStart by (simp add: task_hole_def in_flight_def)
      from acquire_error_ok [OF this n] True AtStart res show ?thesis by (simp add: advance_def Let_def)
    next
      case False
      with AtStart res have "z = y\<lparr>sy_tasks := set_pos i AtImmediate (sy_tasks y)\<rparr>"
        by (simp add: advance_def Let_def)
      with move_pos_ok [OF y i, of AtImmediate] AtStart show ?thesis by simp
    qed
  next
    case AtImmediate
    show ?thesis using y o n i AtImmediate res by (rule advance_immediate_ok)
  next
    case AtEnqueue
    show ?thesis using y o n i AtEnqueue res by (rule advance_enqueue_ok)
  next
    case (LoopHead t)
    show ?thesis
    proof (cases "tk_cancelled ?k")
      case True
      with LoopHead res leave_queue_ok [OF y n i, of t False t AcqCancelled] show ?thesis
        by (simp add: advance_def Let_def)
    next
      case False
      with LoopHead res have "z = y\<lparr>sy_tasks := set_pos i (Armed t False) (sy_tasks y)\<rparr>"
        by (simp add: advance_def Let_def)
      with move_pos_ok [OF y i, of "Armed t False"] LoopHead ok show ?thesis by (simp add: task_ok_def)
    qed
  next
    case (Parked t w)
    with res have "z = y\<lparr>sy_tasks := set_pos i (LoopHead t) (sy_tasks y)\<rparr>"
      by (simp add: advance_def Let_def split: if_splits)
    with move_pos_ok [OF y i, of "LoopHead t"] Parked ok show ?thesis by (simp add: task_ok_def)
  next
    case (Armed t w)
    show ?thesis using y o n i Armed res by (rule advance_armed_ok)
  next
    case (Admitted p k)
    let ?st = "case k of Some t \<Rightarrow> if qt_decode_starvation t
        then record_decode_starvation_wait wait (sy_state y) else sy_state y | None \<Rightarrow> sy_state y"
    let ?y = "y\<lparr>sy_state := ?st\<rparr>"
    have "sys_ok opts n ?y" using y by (auto simp: sys_ok_def split: option.split)
    from finish_admission_ok [OF this n] Admitted i res show ?thesis by (auto simp: advance_def Let_def)
  qed (use res in \<open>simp_all add: advance_def Let_def\<close>)
qed

end
