(* ===== verification/Scheduler_Props.thy ===== *)
theory Scheduler_Props
  imports Scheduler_Steps
begin

text \<open>
  The properties of the scheduler: capacity and accounting in every reachable state, first-in
  first-out admission per class, the bound on how long prefill admissions can pass a waiting
  decode request, work conservation, and wake-ups.
\<close>

section \<open>Every step\<close>

lemma cancel_ok:
  assumes y: "sys_ok opts n y" and i: "i < length (sy_tasks y)"
  shows "sys_ok opts (Suc n) (y\<lparr>sy_tasks := (sy_tasks y)[i := (sy_tasks y ! i)\<lparr>tk_cancelled := True\<rparr>]\<rparr>)"
proof (rule move_ok [OF y i])
  have "task_ok (sy_tasks y ! i)" by (rule task_view [OF y i])
  moreover have "pos_ok ((sy_tasks y ! i)\<lparr>tk_cancelled := True\<rparr>) p = pos_ok (sy_tasks y ! i) p" for p
    by (rule pos_ok_cong) simp_all
  ultimately show "task_ok ((sy_tasks y ! i)\<lparr>tk_cancelled := True\<rparr>)" by (simp add: task_ok_def)
qed (simp_all add: in_flight_def)

lemma spawn_ok:
  assumes y: "sys_ok opts n y"
  shows "sys_ok opts (Suc n) (y\<lparr>sy_tasks := sy_tasks y @ [\<lparr>tk_class = c, tk_phase = ph,
    tk_cancelled = False, tk_yield = None, tk_pos = AtStart\<rparr>]\<rparr>)"
  using sys_ok_mono [OF y] by (simp add: sys_ok_def task_ok_def in_flight_def)

lemma mark_ok:
  assumes y: "sys_ok opts n y" and i: "i < length (sy_tasks y)"
    and pos: "tk_pos (sy_tasks y ! i) = Holding p"
    and q: "sp_phase q = sp_phase p" "sp_active q = sp_active p"
      "sp_terminal_on_drop q = sp_terminal_on_drop p"
  shows "sys_ok opts (Suc n) (y\<lparr>sy_tasks := set_pos i (Holding q) (sy_tasks y)\<rparr>)"
  by (rule move_pos_ok [OF y i]) (use task_view(2) [OF y i] pos q in \<open>auto simp: task_ok_def\<close>)

lemma to_decode_ok:
  assumes y: "sys_ok opts n y" and o: "opts_ok opts" and i: "i < length (sy_tasks y)"
    and pos: "tk_pos (sy_tasks y ! i) = Holding p"
    and res: "permit_transition_to_decode p (sy_state y) = (p', st)"
  shows "sys_ok opts (Suc n) (y\<lparr>sy_state := st, sy_tasks := set_pos i (Holding p') (sy_tasks y)\<rparr>)"
proof (cases "sp_phase p = PhaseDecode")
  case True
  then have "p' = p" "st = sy_state y" using res by (auto simp: permit_transition_to_decode_def)
  with mark_ok [OF y i pos, of p] show ?thesis by simp
next
  case False
  then have ph: "sp_phase p = PhasePrefill" by (cases "sp_phase p") auto
  note A = admitted_hole [OF y i, of p]
  have p: "sp_active p" "sp_terminal_on_drop p" using A(2,3) pos by simp_all
  have p': "p' = p\<lparr>sp_phase := PhaseDecode\<rparr>" and st: "st = state_transition_to_decode (sy_state y)"
    using res ph p by (auto simp: permit_transition_to_decode_def)
  let ?t = "(sy_tasks y ! i)\<lparr>tk_pos := Holding p'\<rparr>"
  have t: "task_ok ?t" using task_view(2) [OF y i] pos p by (auto simp: task_ok_def p')
  have "hole opts n i 0 1 {#} {#} 1 (y\<lparr>sy_state := st\<rparr>)"
  proof (rule hole_state [where d = 0 and y = y and n = n])
    show "hole opts n i 1 0 {#} {#} (1 + 0) y" using A(1) pos ph by simp
    fix A B P Q e
    assume "st_ok opts n (A + 1) (B + 0) (P + {#}) (Q + {#}) e (sy_state y)"
    then show "st_ok opts n (A + 0) (B + 1) (P + {#}) (Q + {#}) (e + 0) st"
      using st_ok_to_decode [OF _ o, of n A B P Q e] st by simp
  qed simp_all
  then have "task_hole opts n i ?t (y\<lparr>sy_state := st\<rparr>)"
    by (simp add: task_hole_def in_flight_def p')
  then have "sys_ok opts n (y\<lparr>sy_state := st, sy_tasks := set_pos i (Holding p') (sy_tasks y)\<rparr>)"
    by (rule hole_fill [OF _ t]) (simp_all add: norm_set_pos)
  then show ?thesis by (rule sys_ok_mono)
qed

lemma on_holding_Some:
  assumes "on_holding i f y = Some z"
  obtains p where "i < length (sy_tasks y)" and "tk_pos (sy_tasks y ! i) = Holding p" and "z = f p y"
  using assms by (auto split: if_splits task_pos.splits)

lemma on_parked_Some:
  assumes "on_parked i f y = Some z"
  obtains t w where "i < length (sy_tasks y)" and "tk_pos (sy_tasks y ! i) = Parked t w" and "f t y = Some z"
  using assms by (auto split: if_splits task_pos.splits)

lemma sched_exec_ok:
  assumes y: "sys_ok opts n y" and o: "opts_ok opts" and n: "n < u64_max"
    and res: "sched_exec opts a y = Some z"
  shows "sys_ok opts (Suc n) z"
proof (cases a)
  case (Spawn c ph)
  with res spawn_ok [OF y] show ?thesis by auto
next
  case (Cancel i)
  with res cancel_ok [OF y] show ?thesis by (auto split: if_splits)
next
  case (Advance i wait)
  with res advance_ok [OF y o n] show ?thesis by (auto split: if_splits)
next
  case (TimeOut i)
  from res [unfolded TimeOut sched_exec.simps] show ?thesis
  proof (rule on_parked_Some)
    fix t w
    assume i: "i < length (sy_tasks y)" "tk_pos (sy_tasks y ! i) = Parked t w"
      "(if so_queue_timeout opts = None then None
        else Some (leave_queue i (ticket_timed_out t) QueueTimedOut y)) = Some z"
    with leave_queue_ok [OF y n i(1), of t w "ticket_timed_out t" QueueTimedOut] show ?thesis
      by (simp add: ticket_timed_out_def split: if_splits)
  qed
next
  case (CancelParked i)
  from res [unfolded CancelParked sched_exec.simps] show ?thesis
  proof (rule on_parked_Some)
    fix t w
    assume i: "i < length (sy_tasks y)" "tk_pos (sy_tasks y ! i) = Parked t w"
      "(if tk_cancelled (sy_tasks y ! i) then Some (leave_queue i t AcqCancelled y) else None) = Some z"
    with leave_queue_ok [OF y n i(1), of t w t AcqCancelled] show ?thesis by (simp split: if_splits)
  qed
next
  case (DropParked i)
  from res [unfolded DropParked sched_exec.simps] show ?thesis
    by (rule on_parked_Some) (use sys_ok_mono [OF drop_parked_ok [OF y]] in auto)
next
  case (ToDecode i)
  from res [unfolded ToDecode sched_exec.simps] show ?thesis
    by (rule on_holding_Some) (use to_decode_ok [OF y o] in \<open>auto split: prod.splits\<close>)
next
  case (MarkFailed i)
  from res [unfolded MarkFailed sched_exec.simps] show ?thesis
    by (rule on_holding_Some) (use mark_ok [OF y] in \<open>auto simp: permit_mark_failed_def\<close>)
next
  case (MarkCancelled i)
  from res [unfolded MarkCancelled sched_exec.simps] show ?thesis
    by (rule on_holding_Some) (use mark_ok [OF y] in \<open>auto simp: permit_mark_cancelled_def\<close>)
next
  case (DropPermit i)
  from res [unfolded DropPermit sched_exec.simps] show ?thesis
    by (rule on_holding_Some) (use drop_permit_ok [OF y n] in auto)
next
  case (Yield i)
  from res [unfolded Yield sched_exec.simps] show ?thesis
    by (rule on_holding_Some) (use yield_start_ok [OF y n] in auto)
next
  case (ChunkLatency i d)
  from res [unfolded ChunkLatency sched_exec.simps] show ?thesis
    by (rule on_holding_Some) (use sys_ok_mono [OF y] in \<open>auto simp: sys_ok_def\<close>)
qed

inductive_cases sched_stepE: "sched_step opts y z"

lemma sched_init_ok: "sys_ok opts 0 sched_init"
  by (simp add: sys_ok_def sched_init_def st_ok_def scheduler_state_default_def total_def)

text \<open>Options as the router builds them (both minima are clamped to one).\<close>

abbreviation sched_reach :: "model_scheduler_options \<Rightarrow> nat \<Rightarrow> sched_sys \<Rightarrow> bool" where
  "sched_reach opts \<equiv> reach_in (\<lambda>y. opts_ok opts \<and> y = sched_init) (sched_step opts)"

interpretation sched_runs: counted_invariant
  "\<lambda>y. opts_ok opts \<and> y = sched_init" "sched_step opts" "\<lambda>n y. opts_ok opts \<and> sys_ok opts n y" u64_max
  for opts
proof (unfold_locales, goal_cases)
  case (1 s)
  then show ?case using sched_init_ok by blast
next
  case (2 n s t)
  then show ?case using sched_exec_ok by (auto elim: sched_stepE)
qed

section \<open>Reading the invariant\<close>

fun waiting_ticket :: "task_pos \<Rightarrow> queued_ticket option" where
  "waiting_ticket (LoopHead t) = Some t"
| "waiting_ticket (Armed t w) = Some t"
| "waiting_ticket (Parked t w) = Some t"
| "waiting_ticket _ = None"

lemma total_of_bool: "total (\<lambda>t. of_bool (P t)) ts = length (filter P ts)"
  by (induction ts) (simp_all add: total_def)

lemma total_add: "total f ts + total g ts = total (\<lambda>t. f t + g t) ts"
  by (simp add: total_def sum_list_addf)

lemma size_total: "size (total f ts :: nat multiset) = total (\<lambda>t. size (f t)) ts"
  by (induction ts) (simp_all add: total_def)

lemma in_total: "k \<in># total f ts \<longleftrightarrow> (\<exists>t \<in> set ts. k \<in># f t)"
  by (induction ts) (auto simp: total_def)

lemma act_admitted: "act PhasePrefill p + act PhaseDecode p = of_bool (admitted_pos p)"
proof -
  have "sp_phase q \<noteq> PhasePrefill \<longleftrightarrow> sp_phase q = PhaseDecode" for q by (cases "sp_phase q") simp_all
  then show ?thesis by (cases p) auto
qed

lemma size_share: "size (share c ClassPrefill {#k#}) + size (share c ClassDecode {#k#}) = 1"
  by (cases c) simp_all

lemma tix_waiting:
  "size (tix ClassPrefill p) + size (tix ClassDecode p) = of_bool (waiting_ticket p \<noteq> None)"
  "k \<in># tix c p \<longleftrightarrow> (\<exists>t. waiting_ticket p = Some t \<and> qt_class t = c \<and> qt_id t = k)"
  using size_share by (cases p; auto simp: share_def split: if_splits)+

lemma sys_ok_reach:
  assumes "sched_reach opts n y" and "n \<le> u64_max"
  shows "sys_ok opts n y" and "opts_ok opts"
  using sched_runs.reach_inv [OF assms] by blast+

lemma sys_ok_state:
  assumes "sys_ok opts n y"
  obtains A B P Q e where "st_ok opts n A B P Q e (sy_state y)"
    and "A + B = length (filter (\<lambda>t. admitted_pos (tk_pos t)) (sy_tasks y))"
    and "size P + size Q = length (filter (\<lambda>t. waiting_ticket (tk_pos t) \<noteq> None) (sy_tasks y))"
    and "\<And>c. mset (queue_of c (sy_state y)) = total (\<lambda>t. tix c (tk_pos t)) (sy_tasks y)"
    and "sy_admissions y = length (filter (\<lambda>t. tk_pos t \<noteq> Finished \<and>
      (admitted_pos (tk_pos t) \<or> tk_yield t \<noteq> None)) (sy_tasks y)) + e + sy_abandoned y"
proof -
  let ?a = "\<lambda>ph. total (\<lambda>t. act ph (tk_pos t)) (sy_tasks y)"
  let ?q = "\<lambda>c. total (\<lambda>t. tix c (tk_pos t)) (sy_tasks y)"
  obtain e where st: "st_ok opts n (?a PhasePrefill) (?a PhaseDecode) (?q ClassPrefill) (?q ClassDecode) e (sy_state y)"
    and g: "sy_admissions y = total in_flight (sy_tasks y) + e + sy_abandoned y"
    using assms unfolding sys_ok_def by blast
  have "?a PhasePrefill + ?a PhaseDecode = length (filter (\<lambda>t. admitted_pos (tk_pos t)) (sy_tasks y))"
    by (simp add: total_add act_admitted total_of_bool)
  moreover have "size (?q ClassPrefill) + size (?q ClassDecode) =
      length (filter (\<lambda>t. waiting_ticket (tk_pos t) \<noteq> None) (sy_tasks y))"
    by (simp only: size_total total_add tix_waiting(1) total_of_bool)
  moreover have "mset (queue_of c (sy_state y)) = ?q c" for c using st by (cases c) (auto simp: st_ok_def)
  moreover have "total in_flight (sy_tasks y) = length (filter (\<lambda>t. tk_pos t \<noteq> Finished \<and>
      (admitted_pos (tk_pos t) \<or> tk_yield t \<noteq> None)) (sy_tasks y))"
    using total_of_bool [of "\<lambda>t. tk_pos t \<noteq> Finished \<and> (admitted_pos (tk_pos t) \<or> tk_yield t \<noteq> None)" "sy_tasks y"]
    by (simp add: in_flight_def [abs_def])
  ultimately show thesis using that st g by metis
qed

section \<open>A concrete run\<close>

primrec sched_run :: "model_scheduler_options \<Rightarrow> sched_action list \<Rightarrow> sched_sys \<Rightarrow> sched_sys option" where
  "sched_run opts [] y = Some y"
| "sched_run opts (a # as) y = Option.bind (sched_exec opts a y) (sched_run opts as)"

lemma reach_run:
  "sched_reach opts n y \<Longrightarrow> sched_run opts as y = Some z \<Longrightarrow> sched_reach opts (n + length as) z"
proof (induction as arbitrary: n y)
  case Nil
  then show ?case by simp
next
  case (Cons a as)
  then obtain v where v: "sched_exec opts a y = Some v" "sched_run opts as v = Some z"
    by (auto simp: bind_eq_Some_conv)
  have "sched_reach opts (Suc n) v" using Cons.prems(1) v(1) by (blast intro: reach_step sched_act)
  from Cons.IH [OF this v(2)] show ?case by simp
qed

definition demo_opts :: model_scheduler_options where
  "demo_opts = \<lparr>so_concurrency_limit = 2, so_queue_limit = 4, so_queue_timeout = Some 1000,
     so_prefill_threshold_chars = 10, so_prefill_burst = 2\<rparr>"

text \<open>Four requests: two are admitted at once, two queue and park; then both slots are freed.\<close>

definition demo_prefix :: "sched_action list" where
  "demo_prefix = [Spawn ClassDecode PhaseDecode, Advance 0 0, Advance 0 0, Advance 0 0,
     Spawn ClassDecode PhaseDecode, Advance 1 0, Advance 1 0, Advance 1 0,
     Spawn ClassDecode PhaseDecode, Advance 2 0, Advance 2 0, Advance 2 0,
     Spawn ClassDecode PhaseDecode, Advance 3 0, Advance 3 0, Advance 3 0,
     Advance 2 0, Advance 2 0, Advance 3 0, Advance 3 0]"

definition demo_queued :: sched_sys where
  "demo_queued = the (sched_run demo_opts demo_prefix sched_init)"

lemma u64_max_eq: "u64_max = 18446744073709551615"
  by (simp add: u64_max_def)

lemmas sched_eval =
  advance_def Let_def set_pos_def acquire_error_def leave_queue_def finish_admission_def
  count_admission_def drop_permit_def yield_start_def drop_parked_def maybe_notify_def
  notify_waiters_def try_acquire_immediate_def active_total_def queued_total_def wrap_add_def
  admitted_permit_def enqueue_def has_prefill_pressure_def record_decode_starvation_event_def
  try_admit_queued_def next_admissible_class_def permit_drop_def sat_sub_def ticket_drop_def
  permit_mark_cancelled_def sat_add_def u64_max_eq

lemma demo_opts_ok: "opts_ok demo_opts"
  by (simp add: opts_ok_def demo_opts_def u64_max_def)

lemma demo_queued_run: "sched_run demo_opts demo_prefix sched_init = Some demo_queued"
proof -
  have "sched_run demo_opts demo_prefix sched_init \<noteq> None"
    unfolding demo_prefix_def demo_opts_def sched_init_def scheduler_state_default_def
    by (simp add: sched_eval)
  then show ?thesis by (simp add: demo_queued_def)
qed

lemma demo_queued_reach: "sched_reach demo_opts 20 demo_queued"
proof -
  have "sched_reach demo_opts 0 sched_init" using demo_opts_ok by (intro reach_start) simp
  from reach_run [OF this demo_queued_run] show ?thesis by (simp add: demo_prefix_def eval_nat_numeral)
qed

lemma demo_sched_bound: "20 \<le> u64_max" "21 \<le> u64_max" "29 \<le> u64_max"
  by (simp_all add: u64_max_def)

text \<open>One slot freed.\<close>

definition demo_freed :: sched_sys where
  "demo_freed = the (sched_run demo_opts [DropPermit 0] demo_queued)"

text \<open>Both slots freed; the younger waiter tries first, then the older one is admitted.\<close>

definition demo_suffix :: "sched_action list" where
  "demo_suffix = [DropPermit 0, DropPermit 1, Advance 3 0, Advance 3 0, Advance 3 0,
     Advance 2 0, Advance 2 0, Advance 2 0, Advance 2 0]"

definition demo_stuck :: sched_sys where
  "demo_stuck = the (sched_run demo_opts demo_suffix demo_queued)"

lemma demo_freed_reach: "sched_reach demo_opts 21 demo_freed"
proof -
  have "sched_run demo_opts [DropPermit 0] demo_queued \<noteq> None"
    unfolding demo_queued_def demo_prefix_def demo_opts_def sched_init_def scheduler_state_default_def
    by (simp add: sched_eval)
  then have "sched_run demo_opts [DropPermit 0] demo_queued = Some demo_freed" by (simp add: demo_freed_def)
  from reach_run [OF demo_queued_reach this] show ?thesis by simp
qed

lemma demo_stuck_reach: "sched_reach demo_opts 29 demo_stuck"
proof -
  have "sched_run demo_opts demo_suffix demo_queued \<noteq> None"
    unfolding demo_queued_def demo_prefix_def demo_suffix_def demo_opts_def sched_init_def
      scheduler_state_default_def
    by (simp add: sched_eval)
  then have "sched_run demo_opts demo_suffix demo_queued = Some demo_stuck" by (simp add: demo_stuck_def)
  from reach_run [OF demo_queued_reach this] show ?thesis by (simp add: demo_suffix_def)
qed

lemma demo_queued_state:
  "ss_queued_decode (sy_state demo_queued) = [1, 2]" "ss_queued_prefill (sy_state demo_queued) = []"
  "ss_active_prefill (sy_state demo_queued) = 0" "ss_active_decode (sy_state demo_queued) = 2"
  unfolding demo_queued_def demo_prefix_def demo_opts_def sched_init_def scheduler_state_default_def
  by (simp_all add: sched_eval)

lemma demo_freed_state:
  "active_total (sy_state demo_freed) = 1" "queued_total (sy_state demo_freed) = 2"
  "snd (try_admit_queued demo_opts 1 ClassDecode PhaseDecode (sy_state demo_freed)) \<noteq> None"
  unfolding demo_freed_def demo_queued_def demo_prefix_def demo_opts_def sched_init_def
    scheduler_state_default_def
  by (simp_all add: sched_eval)

lemma demo_stuck_state:
  "active_total (sy_state demo_stuck) = 1" "length (sy_tasks demo_stuck) = 4"
  "case tk_pos (sy_tasks demo_stuck ! 3) of Parked k False \<Rightarrow> qt_id k = 2 \<and> qt_class k = ClassDecode | _ \<Rightarrow> False"
  "snd (try_admit_queued demo_opts 2 ClassDecode PhaseDecode (sy_state demo_stuck)) \<noteq> None"
  unfolding demo_stuck_def demo_suffix_def demo_queued_def demo_prefix_def demo_opts_def sched_init_def
    scheduler_state_default_def
  by (simp_all add: sched_eval)

section \<open>Properties\<close>

text \<open>C3: capacity. In every reachable state the scheduler's active count is the number of
  requests that hold a slot and never exceeds the concurrency limit, and its queue length is the
  number of requests waiting in \<open>acquire\<close> and never exceeds the queue limit.\<close>

theorem scheduler_capacity:
  assumes "sched_reach opts n y" and "n \<le> u64_max"
  shows "active_total (sy_state y) = length (filter (\<lambda>t. admitted_pos (tk_pos t)) (sy_tasks y)) \<and>
    active_total (sy_state y) \<le> so_concurrency_limit opts \<and>
    queued_total (sy_state y) = length (filter (\<lambda>t. waiting_ticket (tk_pos t) \<noteq> None) (sy_tasks y)) \<and>
    queued_total (sy_state y) \<le> so_queue_limit opts"
proof -
  note R = sys_ok_reach [OF assms]
  obtain A B P Q e where st: "st_ok opts n A B P Q e (sy_state y)"
    and c: "A + B = length (filter (\<lambda>t. admitted_pos (tk_pos t)) (sy_tasks y))"
      "size P + size Q = length (filter (\<lambda>t. waiting_ticket (tk_pos t) \<noteq> None) (sy_tasks y))"
    using R(1) by (rule sys_ok_state)
  have "A + B \<le> so_concurrency_limit opts" "size P + size Q \<le> so_queue_limit opts"
    using st by (simp_all add: st_ok_def)
  with st_ok_totals [OF st R(2)] c show ?thesis by simp
qed

theorem scheduler_capacity_witness:
  "active_total (sy_state demo_queued) \<le> so_concurrency_limit demo_opts \<and>
   queued_total (sy_state demo_queued) \<le> so_queue_limit demo_opts"
  using scheduler_capacity [OF demo_queued_reach demo_sched_bound(1)] by blast

text \<open>C26: accounting. Every request that was ever admitted is, at any moment, exactly one of: holding
  a slot, waiting to be readmitted after yielding its slot, completed, cancelled, failed, or
  abandoned (its future was dropped while it waited to be readmitted). In particular no request is
  counted as ended twice, whichever way a yield and a cancellation interleave.\<close>

theorem scheduler_accounting:
  assumes "sched_reach opts n y" and "n \<le> u64_max"
  shows "sy_admissions y =
    length (filter (\<lambda>t. tk_pos t \<noteq> Finished \<and> (admitted_pos (tk_pos t) \<or> tk_yield t \<noteq> None)) (sy_tasks y)) +
    (ss_completed (sy_state y) + ss_cancelled (sy_state y) + ss_failed (sy_state y)) + sy_abandoned y"
proof -
  note R = sys_ok_reach [OF assms]
  obtain A B P Q e where st: "st_ok opts n A B P Q e (sy_state y)"
    and g: "sy_admissions y = length (filter (\<lambda>t. tk_pos t \<noteq> Finished \<and>
      (admitted_pos (tk_pos t) \<or> tk_yield t \<noteq> None)) (sy_tasks y)) + e + sy_abandoned y"
    using R(1) by (rule sys_ok_state)
  from st have "e = ss_completed (sy_state y) + ss_cancelled (sy_state y) + ss_failed (sy_state y)"
    by (simp add: st_ok_def)
  with g show ?thesis by simp
qed

theorem scheduler_accounting_witness:
  "sy_admissions demo_queued =
    length (filter (\<lambda>t. tk_pos t \<noteq> Finished \<and> (admitted_pos (tk_pos t) \<or> tk_yield t \<noteq> None)) (sy_tasks demo_queued)) +
    (ss_completed (sy_state demo_queued) + ss_cancelled (sy_state demo_queued) + ss_failed (sy_state demo_queued)) +
    sy_abandoned demo_queued"
  by (rule scheduler_accounting [OF demo_queued_reach demo_sched_bound(1)])

lemma next_class_queue:
  "next_admissible_class b st = Some c \<Longrightarrow> queue_of c st \<noteq> []"
  by (cases c) (auto simp: next_admissible_class_def split: list.splits if_splits)

lemma next_class_None:
  "next_admissible_class b st = None \<longleftrightarrow> ss_queued_prefill st = [] \<and> ss_queued_decode st = []"
  by (auto simp: next_admissible_class_def split: list.split)

lemma try_admit_Some:
  assumes "try_admit_queued opts k c ph st = (st', Some p)"
  shows "active_total st < so_concurrency_limit opts"
    and "next_admissible_class (so_prefill_burst opts) st = Some c"
    and "\<exists>q. queue_of c st = k # q" and "st' = start_active c ph (queue_update c tl st)"
  using assms by (auto simp: try_admit_queued_def split: if_splits list.splits)

lemma try_admit_succeeds:
  assumes "active_total st < so_concurrency_limit opts"
    and "next_admissible_class (so_prefill_burst opts) st = Some c" and "queue_of c st = k # q"
  shows "\<exists>st' p. try_admit_queued opts k c ph st = (st', Some p)"
  using assms by (auto simp: try_admit_queued_def)

lemma queue_start_active [simp]: "queue_of c (start_active d ph st) = queue_of c st"
  by (cases c; cases d; cases ph) (simp_all add: Let_def)

text \<open>first in, first out. A queued request is admitted only if its ticket is the oldest of its
  class, and then only that ticket leaves the queue. Requests of the other class are passed over
  only by older tickets, with one exception: once the burst of consecutive prefill admissions is
  used up, a waiting decode request goes first.\<close>

theorem queued_admission_fifo:
  assumes "sched_reach opts n y" and "n \<le> u64_max"
    and "try_admit_queued opts k c ph (sy_state y) = (st', Some p)"
  shows "(\<forall>x \<in> set (queue_of c (sy_state y)). k \<le> x) \<and>
    queue_of c (sy_state y) = k # queue_of c st' \<and>
    (\<forall>c'. c' \<noteq> c \<longrightarrow> queue_of c' st' = queue_of c' (sy_state y) \<and>
      ((\<forall>x \<in> set (queue_of c' (sy_state y)). k \<le> x) \<or>
       (c = ClassDecode \<and> so_prefill_burst opts \<le> ss_prefill_admissions_since_decode (sy_state y))))"
proof -
  let ?st = "sy_state y"
  obtain A B P Q e where "st_ok opts n A B P Q e ?st"
    using sys_ok_reach(1) [OF assms(1,2)] by (rule sys_ok_state)
  then have sorted: "sorted_wrt (<) (queue_of d ?st)" for d by (cases d) (simp_all add: st_ok_def)
  have head: "x \<le> z" if "queue_of d ?st = x # q" "z \<in> set (queue_of d ?st)" for d x q z
    using sorted [of d] that by auto
  note T = try_admit_Some [OF assms(3)]
  obtain q where q: "queue_of c ?st = k # q" using T(3) by blast
  have tail: "queue_of c ?st = k # queue_of c st'" using q T(4) by simp
  have other: "queue_of c' st' = queue_of c' ?st" if "c' \<noteq> c" for c' using that T(4) by simp
  have order: "(\<forall>x \<in> set (queue_of c' ?st). k \<le> x) \<or>
      (c = ClassDecode \<and> so_prefill_burst opts \<le> ss_prefill_admissions_since_decode ?st)"
    if "c' \<noteq> c" for c'
  proof (cases "queue_of c' ?st")
    case Nil
    then show ?thesis by simp
  next
    case (Cons h r)
    then have "k \<le> h \<or> (c = ClassDecode \<and> so_prefill_burst opts \<le> ss_prefill_admissions_since_decode ?st)"
      using T(2) q that by (cases c; cases c') (auto simp: next_admissible_class_def split: if_splits)
    with head [OF Cons] show ?thesis by (meson le_trans)
  qed
  from head [OF q] tail other order show ?thesis by blast
qed

theorem queued_admission_fifo_witness:
  "\<exists>st' p. try_admit_queued demo_opts 1 ClassDecode PhaseDecode (sy_state demo_freed) = (st', Some p) \<and>
     (\<forall>x \<in> set (queue_of ClassDecode (sy_state demo_freed)). 1 \<le> x)"
proof -
  obtain st' p where t: "try_admit_queued demo_opts 1 ClassDecode PhaseDecode (sy_state demo_freed) = (st', Some p)"
    using demo_freed_state(3) by (cases "try_admit_queued demo_opts 1 ClassDecode PhaseDecode (sy_state demo_freed)") auto
  from queued_admission_fifo [OF demo_freed_reach demo_sched_bound(2) t] t show ?thesis by blast
qed

text \<open>C28: work conservation. Whenever a slot is free and requests are queued, at least one of the
  waiting requests would be admitted if it tried now.\<close>

theorem scheduler_work_conserving:
  assumes "sched_reach opts n y" and "n \<le> u64_max"
    and "active_total (sy_state y) < so_concurrency_limit opts" and "0 < queued_total (sy_state y)"
  shows "\<exists>t \<in> set (sy_tasks y). \<exists>k st' p. waiting_ticket (tk_pos t) = Some k \<and>
    try_admit_queued opts (qt_id k) (tk_class t) (tk_phase t) (sy_state y) = (st', Some p)"
proof -
  let ?st = "sy_state y"
  have "ss_queued_prefill ?st \<noteq> [] \<or> ss_queued_decode ?st \<noteq> []"
    using assms(4) by (auto simp: queued_total_def wrap_add_def)
  then obtain c where c: "next_admissible_class (so_prefill_burst opts) ?st = Some c"
    using next_class_None by blast
  obtain x q where q: "queue_of c ?st = x # q" using next_class_queue [OF c] by (cases "queue_of c ?st") auto
  note R = sys_ok_reach [OF assms(1,2)]
  have "x \<in># mset (queue_of c ?st)" using q by simp
  moreover have "mset (queue_of c ?st) = total (\<lambda>t. tix c (tk_pos t)) (sy_tasks y)"
    using R(1) by (rule sys_ok_state) blast
  ultimately obtain t where t: "t \<in> set (sy_tasks y)" "x \<in># tix c (tk_pos t)"
    using in_total by metis
  then obtain k where k: "waiting_ticket (tk_pos t) = Some k" "qt_class k = c" "qt_id k = x"
    using tix_waiting(2) by blast
  have "task_ok t" using R(1) t(1) by (simp add: sys_ok_def)
  then have "qt_class k = tk_class t" using k(1) by (cases "tk_pos t") (auto simp: task_ok_def)
  then have "\<exists>st' p. try_admit_queued opts (qt_id k) (tk_class t) (tk_phase t) ?st = (st', Some p)"
    using try_admit_succeeds [OF assms(3) c q, of "tk_phase t"] k by simp
  with t(1) k(1) show ?thesis by blast
qed

theorem scheduler_work_conserving_witness:
  "\<exists>t \<in> set (sy_tasks demo_freed). \<exists>k st' p. waiting_ticket (tk_pos t) = Some k \<and>
    try_admit_queued demo_opts (qt_id k) (tk_class t) (tk_phase t) (sy_state demo_freed) = (st', Some p)"
proof -
  have "active_total (sy_state demo_freed) < so_concurrency_limit demo_opts"
    "0 < queued_total (sy_state demo_freed)"
    using demo_freed_state(1,2) by (simp_all add: demo_opts_def)
  from scheduler_work_conserving [OF demo_freed_reach demo_sched_bound(2) this] show ?thesis .
qed

text \<open>a lost wake-up. With more than one slot the scheduler can leave a request asleep although
  it is the next one to admit and a slot is free: when two slots are freed at once and the
  younger waiter tries before the older one, it goes back to sleep, and admitting the older one
  notifies nobody. In the reachable state below one of two slots is free, request 3 is the head
  of the only queue, an attempt by it would succeed, yet it is parked with no wake-up pending and
  cannot move by itself.\<close>

theorem lost_wakeup_two_slots:
  "sched_reach demo_opts 29 demo_stuck \<and>
   active_total (sy_state demo_stuck) < so_concurrency_limit demo_opts \<and>
   (\<exists>k st' p. tk_pos (sy_tasks demo_stuck ! 3) = Parked k False \<and>
      try_admit_queued demo_opts (qt_id k) (qt_class k) PhaseDecode (sy_state demo_stuck) = (st', Some p)) \<and>
   (\<forall>wait. sched_exec demo_opts (Advance 3 wait) demo_stuck = None)"
proof -
  obtain k where k: "tk_pos (sy_tasks demo_stuck ! 3) = Parked k False" "qt_id k = 2" "qt_class k = ClassDecode"
    using demo_stuck_state(3) by (auto split: task_pos.splits bool.splits)
  obtain st' p where t: "try_admit_queued demo_opts 2 ClassDecode PhaseDecode (sy_state demo_stuck) = (st', Some p)"
    using demo_stuck_state(4) by (cases "try_admit_queued demo_opts 2 ClassDecode PhaseDecode (sy_state demo_stuck)") auto
  have "sched_exec demo_opts (Advance 3 wait) demo_stuck = None" for wait
    using k(1) demo_stuck_state(2) by (simp add: advance_def Let_def)
  with demo_stuck_reach demo_stuck_state(1) k t show ?thesis by (simp add: demo_opts_def)
qed

section \<open>Bursts\<close>

text \<open>What one step can do to the admission counters.\<close>

definition adm_view :: "model_scheduler_state \<Rightarrow> nat \<times> nat \<times> nat" where
  "adm_view st = (ss_admitted_prefill st, ss_admitted_decode st, ss_prefill_admissions_since_decode st)"

lemma adm_view_frame [simp]:
  "adm_view (finish_inactive oc st) = adm_view st"
  "adm_view (finish_active ph oc st) = adm_view st"
  "adm_view (state_transition_to_decode st) = adm_view st"
  "adm_view (queue_update c f st) = adm_view st"
  "adm_view (record_prefill_chunk_latency d st) = adm_view st"
  "adm_view (record_decode_starvation_wait d st) = adm_view st"
  "adm_view (record_decode_starvation_event st) = adm_view st"
  "adm_view (record_prefill_yield_success r d st) = adm_view st"
  "adm_view (ticket_drop t st) = adm_view st"
proof -
  show "adm_view (finish_inactive oc st) = adm_view st" for st by (cases oc) (simp_all add: adm_view_def)
  then show "adm_view (finish_active ph oc st) = adm_view st" by (cases ph) (simp_all add: adm_view_def)
  show q: "adm_view (queue_update c f st) = adm_view st" for c f by (cases c) (simp_all add: adm_view_def)
  show "adm_view (ticket_drop t st) = adm_view st"
    using q [of "qt_class t" "remove1 (qt_id t)"] by (auto simp: ticket_drop_def Let_def adm_view_def)
qed (auto simp: adm_view_def state_transition_to_decode_def record_prefill_chunk_latency_def
    record_decode_starvation_wait_def record_decode_starvation_event_def
    record_prefill_yield_success_def record_prefill_yield_reacquire_wait_def Let_def)

lemma adm_view_permit_drop [simp]: "permit_drop p st = (st', b) \<Longrightarrow> adm_view st' = adm_view st"
  by (auto simp: permit_drop_def split: if_splits)

lemma adm_view_acquire_error [simp]: "adm_view (sy_state (acquire_error i err y)) = adm_view (sy_state y)"
  by (auto simp: acquire_error_def split: option.split prod.split)

lemma adm_view_helpers [simp]:
  "adm_view (sy_state (leave_queue i t err y)) = adm_view (sy_state y)"
  "adm_view (sy_state (finish_admission i w p y)) = adm_view (sy_state y)"
  "adm_view (sy_state (drop_permit i p y)) = adm_view (sy_state y)"
  "adm_view (sy_state (yield_start i p y)) = adm_view (sy_state y)"
  "adm_view (sy_state (drop_parked i t y)) = adm_view (sy_state y)"
proof -
  show d: "adm_view (sy_state (drop_permit i p y)) = adm_view (sy_state y)" for p
    by (auto simp: drop_permit_def split: prod.split)
  show "adm_view (sy_state (yield_start i p y)) = adm_view (sy_state y)"
    using d by (auto simp: yield_start_def release_prefill_for_yield_def adm_view_def)
  show "adm_view (sy_state (drop_parked i t y)) = adm_view (sy_state y)"
    by (auto simp: drop_parked_def Let_def split: option.split prod.split)
qed (auto simp: leave_queue_def finish_admission_def split: prod.split option.split)

lemma adm_view_start_active:
  "adm_view (start_active c ph st) = adm_view (start_active c PhasePrefill st)"
  by (cases c; cases ph) (simp_all add: adm_view_def Let_def)

lemma adm_view_start_queue:
  "adm_view (start_active c ph (queue_update c f st)) = adm_view (start_active c PhasePrefill st)"
  by (cases c; cases ph) (simp_all add: adm_view_def Let_def)

definition admits :: "model_scheduler_options \<Rightarrow> scheduler_class \<Rightarrow> sched_sys \<Rightarrow> sched_sys \<Rightarrow> bool" where
  "admits opts c y z \<longleftrightarrow>
     adm_view (sy_state z) = adm_view (start_active c PhasePrefill (sy_state y)) \<and>
     (queued_total (sy_state y) = 0 \<or> next_admissible_class (so_prefill_burst opts) (sy_state y) = Some c)"

lemma count_admission_state [simp]: "sy_state (count_admission i y) = sy_state y"
  by (simp add: count_admission_def)

lemma enqueue_adm_view: "enqueue opts c st = (st', r) \<Longrightarrow> adm_view st' = adm_view st"
  by (auto simp: enqueue_def Let_def split: if_splits) (simp_all add: adm_view_def record_decode_starvation_event_def)

lemma advance_admission:
  assumes "advance opts i w y = Some z"
  shows "adm_view (sy_state z) = adm_view (sy_state y) \<or> (\<exists>c. admits opts c y z)"
proof (cases "tk_pos (sy_tasks y ! i)")
  case AtImmediate
  obtain st r where t: "try_acquire_immediate opts (tk_class (sy_tasks y ! i)) (tk_phase (sy_tasks y ! i)) (sy_state y) = (st, r)"
    by fastforce
  show ?thesis
  proof (cases r)
    case None
    with t AtImmediate assms show ?thesis
      by (auto simp: advance_def Let_def try_acquire_immediate_def split: if_splits)
  next
    case (Some p)
    then have "st = start_active (tk_class (sy_tasks y ! i)) (tk_phase (sy_tasks y ! i)) (sy_state y)"
      "queued_total (sy_state y) = 0"
      using t by (auto simp: try_acquire_immediate_def split: if_splits)
    moreover have "sy_state z = st" using assms AtImmediate t Some by (auto simp: advance_def Let_def)
    ultimately show ?thesis using adm_view_start_active unfolding admits_def by metis
  qed
next
  case (Armed t v)
  obtain st r where ta: "try_admit_queued opts (qt_id t) (tk_class (sy_tasks y ! i)) (tk_phase (sy_tasks y ! i)) (sy_state y) = (st, r)"
    by fastforce
  show ?thesis
  proof (cases r)
    case None
    with ta Armed assms show ?thesis
      by (auto simp: advance_def Let_def try_admit_queued_def split: if_splits list.splits)
  next
    case (Some p)
    have "sy_state z = st" using assms Armed ta Some by (auto simp: advance_def Let_def)
    with try_admit_Some [OF ta [unfolded Some]] adm_view_start_queue show ?thesis
      unfolding admits_def by metis
  qed
next
  case AtEnqueue
  with assms enqueue_adm_view show ?thesis
    by (auto simp: advance_def Let_def split: prod.splits outcome.splits)
next
  case (Admitted p k)
  with assms show ?thesis by (auto simp: advance_def Let_def split: option.splits)
qed (use assms in \<open>auto simp: advance_def Let_def split: if_splits\<close>)

lemma step_admission:
  assumes "sched_exec opts a y = Some z"
  shows "adm_view (sy_state z) = adm_view (sy_state y) \<or> (\<exists>c. admits opts c y z)"
  using assms advance_admission
  by (cases a) (auto simp: permit_transition_to_decode_def split: if_splits task_pos.splits prod.splits)

text \<open>A stretch of a run during which decode requests are always queued and none is admitted, with
  the number of prefill admissions and of steps.\<close>

inductive decode_waits ::
  "model_scheduler_options \<Rightarrow> sched_sys \<Rightarrow> nat \<Rightarrow> nat \<Rightarrow> sched_sys \<Rightarrow> bool"
  for opts :: model_scheduler_options and y :: sched_sys where
  waits_start: "ss_queued_decode (sy_state y) \<noteq> [] \<Longrightarrow> decode_waits opts y 0 0 y"
| waits_step: "decode_waits opts y k m z \<Longrightarrow> sched_step opts z v \<Longrightarrow>
    ss_admitted_decode (sy_state v) = ss_admitted_decode (sy_state z) \<Longrightarrow>
    ss_queued_decode (sy_state v) \<noteq> [] \<Longrightarrow>
    decode_waits opts y (k + (ss_admitted_prefill (sy_state v) - ss_admitted_prefill (sy_state z))) (Suc m) v"

lemma prefill_before_decode:
  "next_admissible_class b st = Some ClassPrefill \<Longrightarrow> ss_queued_decode st \<noteq> [] \<Longrightarrow>
   ss_prefill_admissions_since_decode st < b"
  by (auto simp: next_admissible_class_def split: list.splits if_splits)

lemma waiting_step:
  assumes r: "sched_reach opts n z" and n: "n < u64_max" and step: "sched_step opts z v"
    and same: "ss_admitted_decode (sy_state v) = ss_admitted_decode (sy_state z)"
    and queued: "ss_queued_decode (sy_state z) \<noteq> []"
  defines "d \<equiv> ss_admitted_prefill (sy_state v) - ss_admitted_prefill (sy_state z)"
  shows "ss_prefill_admissions_since_decode (sy_state v) = ss_prefill_admissions_since_decode (sy_state z) + d"
    and "d \<noteq> 0 \<Longrightarrow> ss_prefill_admissions_since_decode (sy_state v) \<le> so_prefill_burst opts"
proof -
  note R = sys_ok_reach [OF r less_imp_le [OF n]]
  obtain A B P Q e where st: "st_ok opts n A B P Q e (sy_state z)" using R(1) by (rule sys_ok_state)
  have small: "ss_admitted_prefill (sy_state z) < u64_max" "ss_admitted_decode (sy_state z) < u64_max"
    "ss_prefill_admissions_since_decode (sy_state z) < u64_max"
    using st n by (auto simp: st_ok_def)
  have q: "queued_total (sy_state z) \<noteq> 0"
    using st_ok_totals(2) [OF st R(2)] st queued by (auto simp: st_ok_def)
  obtain a where a: "sched_exec opts a z = Some v" using step by (rule sched_stepE)
  have "ss_prefill_admissions_since_decode (sy_state v) = ss_prefill_admissions_since_decode (sy_state z) + d \<and>
    (d \<noteq> 0 \<longrightarrow> ss_prefill_admissions_since_decode (sy_state v) \<le> so_prefill_burst opts)"
    using step_admission [OF a]
  proof (elim disjE exE)
    assume "adm_view (sy_state v) = adm_view (sy_state z)"
    then show ?thesis by (simp add: adm_view_def d_def)
  next
    fix c
    assume ad: "admits opts c z v"
    then have nx: "next_admissible_class (so_prefill_burst opts) (sy_state z) = Some c"
      using q by (simp add: admits_def)
    show ?thesis
    proof (cases c)
      case ClassDecode
      with ad small same show ?thesis by (simp add: admits_def adm_view_def Let_def)
    next
      case ClassPrefill
      have burst: "ss_prefill_admissions_since_decode (sy_state z) < so_prefill_burst opts"
        using prefill_before_decode [OF _ queued] nx ClassPrefill by blast
      have view: "ss_admitted_prefill (sy_state v) = Suc (ss_admitted_prefill (sy_state z))"
        "ss_prefill_admissions_since_decode (sy_state v) = Suc (ss_prefill_admissions_since_decode (sy_state z))"
        using ad ClassPrefill small by (simp_all add: admits_def adm_view_def Let_def)
      show ?thesis using burst by (simp add: view d_def)
    qed
  qed
  then show "ss_prefill_admissions_since_decode (sy_state v) = ss_prefill_admissions_since_decode (sy_state z) + d"
    "d \<noteq> 0 \<Longrightarrow> ss_prefill_admissions_since_decode (sy_state v) \<le> so_prefill_burst opts" by blast+
qed

text \<open>A run in which two prefill requests and then a decode request queue behind two active decode requests, and
  both prefill requests are admitted while the decode request waits.\<close>

primrec waits_run ::
  "model_scheduler_options \<Rightarrow> sched_action list \<Rightarrow> nat \<Rightarrow> nat \<Rightarrow> sched_sys \<Rightarrow> (nat \<times> nat \<times> sched_sys) option" where
  "waits_run opts [] k m z = Some (k, m, z)"
| "waits_run opts (a # as) k m z =
     (case sched_exec opts a z of
        None \<Rightarrow> None
      | Some v \<Rightarrow>
          if ss_admitted_decode (sy_state v) = ss_admitted_decode (sy_state z) \<and> ss_queued_decode (sy_state v) \<noteq> []
          then waits_run opts as (k + (ss_admitted_prefill (sy_state v) - ss_admitted_prefill (sy_state z))) (Suc m) v
          else None)"

lemma waits_run_sound:
  "decode_waits opts y k m z \<Longrightarrow> waits_run opts as k m z = Some (k', m', v) \<Longrightarrow> decode_waits opts y k' m' v"
proof (induction as arbitrary: k m z)
  case (Cons a as)
  from Cons.prems(2) obtain x where x: "sched_exec opts a z = Some x"
    "ss_admitted_decode (sy_state x) = ss_admitted_decode (sy_state z)" "ss_queued_decode (sy_state x) \<noteq> []"
    "waits_run opts as (k + (ss_admitted_prefill (sy_state x) - ss_admitted_prefill (sy_state z))) (Suc m) x =
      Some (k', m', v)"
    by (auto split: option.splits if_splits)
  from Cons.IH [OF waits_step [OF Cons.prems(1) sched_act [OF x(1)] x(2,3)] x(4)] show ?case .
qed simp

definition burst_prefix :: "sched_action list" where
  "burst_prefix = [Spawn ClassDecode PhaseDecode, Advance 0 0, Advance 0 0, Advance 0 0,
     Spawn ClassDecode PhaseDecode, Advance 1 0, Advance 1 0, Advance 1 0,
     Spawn ClassPrefill PhasePrefill, Advance 2 0, Advance 2 0, Advance 2 0, Advance 2 0, Advance 2 0,
     Spawn ClassPrefill PhasePrefill, Advance 3 0, Advance 3 0, Advance 3 0, Advance 3 0, Advance 3 0,
     Spawn ClassDecode PhaseDecode, Advance 4 0, Advance 4 0, Advance 4 0, Advance 4 0, Advance 4 0]"

definition burst_suffix :: "sched_action list" where
  "burst_suffix = [DropPermit 0, Advance 2 0, Advance 2 0, Advance 2 0, Advance 2 0,
     DropPermit 1, Advance 3 0, Advance 3 0, Advance 3 0, Advance 3 0]"

definition burst_start :: sched_sys where
  "burst_start = the (sched_run demo_opts burst_prefix sched_init)"

lemma burst_start_run: "sched_run demo_opts burst_prefix sched_init = Some burst_start"
proof -
  have "sched_run demo_opts burst_prefix sched_init \<noteq> None"
    unfolding burst_prefix_def demo_opts_def sched_init_def scheduler_state_default_def
    by (simp add: sched_eval)
  then show ?thesis by (simp add: burst_start_def)
qed

lemma burst_start_reach: "sched_reach demo_opts 26 burst_start"
proof -
  have "sched_reach demo_opts 0 sched_init" using demo_opts_ok by (intro reach_start) simp
  from reach_run [OF this burst_start_run] show ?thesis by (simp add: burst_prefix_def eval_nat_numeral)
qed

lemma burst_admits: "ss_queued_decode (sy_state burst_start) \<noteq> []"
  "map_option (\<lambda>(k, m, z). (k, m)) (waits_run demo_opts burst_suffix 0 0 burst_start) = Some (2, 10)"
  unfolding burst_start_def burst_prefix_def burst_suffix_def demo_opts_def sched_init_def scheduler_state_default_def
  by (simp_all add: sched_eval)

text \<open>C27: decode requests are not starved by prefill. While decode requests stay queued and none of
  them is admitted, at most \<open>prefill_burst\<close> prefill requests are admitted, whatever else happens.\<close>

theorem prefill_burst_bound:
  assumes "decode_waits opts y k m z" and "sched_reach opts n y" and "n + m \<le> u64_max"
  shows "k \<le> so_prefill_burst opts"
proof -
  have "sched_reach opts (n + m) z \<and> ss_queued_decode (sy_state z) \<noteq> [] \<and>
    ss_prefill_admissions_since_decode (sy_state z) = ss_prefill_admissions_since_decode (sy_state y) + k \<and>
    (k \<noteq> 0 \<longrightarrow> ss_prefill_admissions_since_decode (sy_state z) \<le> so_prefill_burst opts)"
    using assms(1,3)
  proof (induction rule: decode_waits.induct)
    case waits_start
    then show ?case using assms(2) by simp
  next
    case (waits_step k m z v)
    then have IH: "sched_reach opts (n + m) z" "ss_queued_decode (sy_state z) \<noteq> []"
      "ss_prefill_admissions_since_decode (sy_state z) = ss_prefill_admissions_since_decode (sy_state y) + k"
      "k \<noteq> 0 \<Longrightarrow> ss_prefill_admissions_since_decode (sy_state z) \<le> so_prefill_burst opts"
      by auto
    note W = waiting_step [OF IH(1) _ waits_step.hyps(2,3) IH(2)]
    have "sched_reach opts (n + Suc m) v" using IH(1) waits_step.hyps(2) by (simp add: reach_step)
    with W IH(3,4) waits_step.hyps(4) waits_step.prems show ?case by fastforce
  qed
  then show ?thesis by (cases "k = 0") auto
qed

theorem prefill_burst_bound_witness:
  "\<exists>z. decode_waits demo_opts burst_start 2 10 z \<and> 2 \<le> so_prefill_burst demo_opts"
proof -
  obtain z where "waits_run demo_opts burst_suffix 0 0 burst_start = Some (2, 10, z)" using burst_admits(2) by auto
  from waits_run_sound [OF waits_start [OF burst_admits(1)] this] have w: "decode_waits demo_opts burst_start 2 10 z" .
  with prefill_burst_bound [OF w burst_start_reach] show ?thesis by (auto simp: u64_max_def)
qed

end
