(* ===== verification/Rust_Text.thy ===== *)
theory Rust_Text
  imports Prelude "HOL-Library.List_Lexorder" "HOL-Library.Sublist"
begin

text \<open>
  Text as the Rust code sees it. A \<open>str\<close> is the list of its Unicode scalar values; its length in
  bytes is that of its UTF-8 encoding. The theory holds the parts of \<open>core::str\<close> that the engine
  uses (\<open>char::is_whitespace\<close>, \<open>trim\<close>, \<open>split_whitespace\<close>, \<open>len\<close>, the decimal \<open>Display\<close> of an
  integer) and the shape of a \<open>serde_json\<close> value. A JSON number is known only through the three
  accessors that the code calls and its text, and an object is the list of its entries in iteration
  order. Strings are ordered lexicographically by scalar value, which is the order of their UTF-8
  bytes. The \<open>f32\<close> comparisons that the sampling checks use are defined on the bit pattern.
\<close>

type_synonym rstr = "nat list"

definition lit :: "string \<Rightarrow> rstr" where
  "lit s = map of_char s"

definition char_is_ascii :: "nat \<Rightarrow> bool" where
  "char_is_ascii c \<longleftrightarrow> c < 128"

definition len_utf8 :: "nat \<Rightarrow> nat" where
  "len_utf8 c = (if c < 128 then 1 else if c < 2048 then 2 else if c < 65536 then 3 else 4)"

definition str_len :: "rstr \<Rightarrow> nat" where
  "str_len s = sum_list (map len_utf8 s)"

definition is_whitespace :: "nat \<Rightarrow> bool" where
  "is_whitespace c \<longleftrightarrow>
     (9 \<le> c \<and> c \<le> 13) \<or> c = 32 \<or> c = 133 \<or> c = 160 \<or> c = 5760 \<or> (8192 \<le> c \<and> c \<le> 8202) \<or>
     c = 8232 \<or> c = 8233 \<or> c = 8239 \<or> c = 8287 \<or> c = 12288"

definition trim_start :: "rstr \<Rightarrow> rstr" where
  "trim_start s = dropWhile is_whitespace s"

definition trim_end :: "rstr \<Rightarrow> rstr" where
  "trim_end s = rev (dropWhile is_whitespace (rev s))"

definition trim :: "rstr \<Rightarrow> rstr" where
  "trim s = trim_end (trim_start s)"

fun split_pred :: "('a \<Rightarrow> bool) \<Rightarrow> 'a list \<Rightarrow> 'a list list" where
  "split_pred P [] = [[]]"
| "split_pred P (c # s) =
     (if P c then [] # split_pred P s
      else case split_pred P s of
             w # ws \<Rightarrow> (c # w) # ws
           | [] \<Rightarrow> [[c]])"

definition split_whitespace :: "rstr \<Rightarrow> rstr list" where
  "split_whitespace s = filter (\<lambda>w. w \<noteq> []) (split_pred is_whitespace s)"

text \<open>Substring search: the first position at which a pattern occurs, in characters (\<open>find_sub\<close>) and
  as the byte offset that \<open>str::find\<close> returns; slicing at a byte offset, which panics (\<open>None\<close>) unless
  the offset is a character boundary.\<close>

fun find_sub :: "'a list \<Rightarrow> 'a list \<Rightarrow> nat option" where
  "find_sub pat [] = (if pat = [] then Some 0 else None)"
| "find_sub pat (c # s) =
     (if take (length pat) (c # s) = pat then Some 0 else map_option Suc (find_sub pat s))"

definition str_find :: "rstr \<Rightarrow> rstr \<Rightarrow> nat option" where
  "str_find pat s = map_option (\<lambda>i. str_len (take i s)) (find_sub pat s)"

fun byte_split :: "nat \<Rightarrow> rstr \<Rightarrow> (rstr \<times> rstr) option" where
  "byte_split n [] = (if n = 0 then Some ([], []) else None)"
| "byte_split n (c # s) =
     (if n = 0 then Some ([], c # s)
      else if len_utf8 c \<le> n then map_option (\<lambda>(u, v). (c # u, v)) (byte_split (n - len_utf8 c) s)
      else None)"

definition is_char_boundary :: "rstr \<Rightarrow> nat \<Rightarrow> bool" where
  "is_char_boundary s n \<longleftrightarrow> byte_split n s \<noteq> None"

text \<open>The slices \<open>s[n..]\<close>, \<open>s[..n]\<close> and \<open>s[m..n]\<close>, with \<open>None\<close> for the panic, and
  \<open>String::truncate\<close>, which leaves a shorter string alone.\<close>

definition str_from :: "nat \<Rightarrow> rstr \<Rightarrow> rstr option" where
  "str_from n s = map_option snd (byte_split n s)"

definition str_upto :: "nat \<Rightarrow> rstr \<Rightarrow> rstr option" where
  "str_upto n s = map_option fst (byte_split n s)"

definition str_slice :: "nat \<Rightarrow> nat \<Rightarrow> rstr \<Rightarrow> rstr option" where
  "str_slice m n s = Option.bind (str_upto n s) (str_from m)"

definition str_truncate :: "nat \<Rightarrow> rstr \<Rightarrow> rstr option" where
  "str_truncate n s = (if str_len s < n then Some s else str_upto n s)"

text \<open>Finding a pattern and slicing the text before and after it, which never panics because a match is at
  a character boundary; \<open>contains\<close>, \<open>starts_with\<close>, \<open>strip_prefix\<close>, \<open>strip_suffix\<close> and the
  \<open>trim_*_matches\<close> functions with a string pattern.\<close>

definition split_sub :: "'a list \<Rightarrow> 'a list \<Rightarrow> ('a list \<times> 'a list) option" where
  "split_sub pat s = map_option (\<lambda>i. (take i s, drop (i + length pat) s)) (find_sub pat s)"

definition str_contains :: "rstr \<Rightarrow> rstr \<Rightarrow> bool" where
  "str_contains pat s \<longleftrightarrow> find_sub pat s \<noteq> None"

definition starts_with :: "'a list \<Rightarrow> 'a list \<Rightarrow> bool" where
  "starts_with pat s \<longleftrightarrow> take (length pat) s = pat"

definition strip_prefix :: "rstr \<Rightarrow> rstr \<Rightarrow> rstr option" where
  "strip_prefix pat s = (if starts_with pat s then Some (drop (length pat) s) else None)"

definition strip_suffix :: "rstr \<Rightarrow> rstr \<Rightarrow> rstr option" where
  "strip_suffix pat s =
     (if starts_with (rev pat) (rev s) then Some (take (length s - length pat) s) else None)"

function trim_start_matches :: "'a list \<Rightarrow> 'a list \<Rightarrow> 'a list" where
  "trim_start_matches pat s =
     (if pat \<noteq> [] \<and> s \<noteq> [] \<and> starts_with pat s then trim_start_matches pat (drop (length pat) s) else s)"
  by pat_completeness auto
termination by (relation "measure (\<lambda>(pat, s). length s)") auto

declare trim_start_matches.simps [simp del]

definition trim_end_matches :: "'a list \<Rightarrow> 'a list \<Rightarrow> 'a list" where
  "trim_end_matches pat s = rev (trim_start_matches (rev pat) (rev s))"

text \<open>\<open>Iterator::min\<close>.\<close>

definition min_opt :: "nat list \<Rightarrow> nat option" where
  "min_opt xs = (if xs = [] then None else Some (Min (set xs)))"

fun show_nat :: "nat \<Rightarrow> rstr" where
  "show_nat n = (if n < 10 then [48 + n] else show_nat (n div 10) @ [48 + n mod 10])"

declare show_nat.simps [simp del]

text \<open>\<open>format!\<close> with its pieces in order.\<close>

definition fmt :: "rstr list \<Rightarrow> rstr" where
  "fmt parts = concat parts"

section \<open>Single-precision floats\<close>

text \<open>The magnitude bits of a float order its absolute value, and the sign bit reflects them; the
  two zeros compare equal and a NaN compares with nothing.\<close>

definition f32_magnitude :: "f32 \<Rightarrow> nat" where
  "f32_magnitude w = unat w mod 2147483648"

definition f32_is_nan :: "f32 \<Rightarrow> bool" where
  "f32_is_nan w \<longleftrightarrow> 2139095040 < f32_magnitude w"

definition f32_is_finite :: "f32 \<Rightarrow> bool" where
  "f32_is_finite w \<longleftrightarrow> f32_magnitude w < 2139095040"

definition f32_key :: "f32 \<Rightarrow> int" where
  "f32_key w = (if 2147483648 \<le> unat w then - int (f32_magnitude w) else int (f32_magnitude w))"

definition f32_le :: "f32 \<Rightarrow> f32 \<Rightarrow> bool" where
  "f32_le a b \<longleftrightarrow> \<not> f32_is_nan a \<and> \<not> f32_is_nan b \<and> f32_key a \<le> f32_key b"

definition f32_lt :: "f32 \<Rightarrow> f32 \<Rightarrow> bool" where
  "f32_lt a b \<longleftrightarrow> \<not> f32_is_nan a \<and> \<not> f32_is_nan b \<and> f32_key a < f32_key b"

definition f32_eq :: "f32 \<Rightarrow> f32 \<Rightarrow> bool" where
  "f32_eq a b \<longleftrightarrow> \<not> f32_is_nan a \<and> \<not> f32_is_nan b \<and> f32_key a = f32_key b"

definition f32_zero :: f32 where "f32_zero = 0"
definition f32_one :: f32 where "f32_one = 1065353216"
definition f32_two :: f32 where "f32_two = 1073741824"

section \<open>JSON values\<close>

record json_number =
  jn_as_u64 :: "nat option"
  jn_as_i64 :: "int option"
  jn_is_f64 :: bool
  jn_text :: rstr

datatype json =
    JNull
  | JBool bool
  | JNumber json_number
  | JString rstr
  | JArray "json list"
  | JObject "(rstr \<times> json) list"

fun as_str :: "json \<Rightarrow> rstr option" where
  "as_str (JString s) = Some s"
| "as_str _ = None"

fun as_object :: "json \<Rightarrow> (rstr \<times> json) list option" where
  "as_object (JObject kvs) = Some kvs"
| "as_object _ = None"

fun as_array :: "json \<Rightarrow> json list option" where
  "as_array (JArray vs) = Some vs"
| "as_array _ = None"

fun is_jstring :: "json \<Rightarrow> bool" where
  "is_jstring (JString s) = True"
| "is_jstring _ = False"

abbreviation obj_get :: "(rstr \<times> json) list \<Rightarrow> rstr \<Rightarrow> json option" where
  "obj_get kvs k \<equiv> map_of kvs k"

text \<open>The keys of every object are distinct, as in a \<open>serde_json::Map\<close>.\<close>

fun json_wf :: "json \<Rightarrow> bool" where
  "json_wf (JArray vs) \<longleftrightarrow> (\<forall>v \<in> set vs. json_wf v)"
| "json_wf (JObject kvs) \<longleftrightarrow> distinct (map fst kvs) \<and> (\<forall>kv \<in> set kvs. json_wf (snd kv))"
| "json_wf _ \<longleftrightarrow> True"

section \<open>Lemmas on strings\<close>

lemma show_nat_step:
  "show_nat n = (if n < 10 then [48 + n] else show_nat (n div 10) @ [48 + n mod 10])"
  by (rule show_nat.simps)

lemma show_nat_not_Nil [simp]: "show_nat n \<noteq> []"
  by (subst show_nat_step) simp

lemma show_nat_digits: "c \<in> set (show_nat n) \<Longrightarrow> 48 \<le> c \<and> c \<le> 57"
proof (induction n rule: show_nat.induct)
  case (1 n)
  show ?case
  proof (cases "n < 10")
    case True
    with 1 show ?thesis by (simp add: show_nat_step [of n])
  next
    case False
    with 1 show ?thesis by (auto simp: show_nat_step [of n])
  qed
qed

lemma show_nat_eq_iff [simp]: "show_nat m = show_nat n \<longleftrightarrow> m = n"
proof
  show "show_nat m = show_nat n \<Longrightarrow> m = n"
  proof (induction m arbitrary: n rule: show_nat.induct)
    case (1 m)
    show ?case
    proof (cases "m < 10")
      case True
      with 1(2) have "show_nat n = [48 + m]" by (simp add: show_nat_step [of m])
      with True show ?thesis by (cases "n < 10") (auto simp: show_nat_step [of n])
    next
      case False
      then have m: "show_nat m = show_nat (m div 10) @ [48 + m mod 10]" by (simp add: show_nat_step [of m])
      with 1(2) have n: "\<not> n < 10" by (auto simp: show_nat_step [of n])
      with 1(2) m have "show_nat (m div 10) = show_nat (n div 10)" and d: "m mod 10 = n mod 10"
        by (auto simp: show_nat_step [of n])
      with 1(1) [OF False] have "m div 10 = n div 10" by blast
      with d show ?thesis by (metis div_mult_mod_eq)
    qed
  qed
qed simp

lemma str_len_simps [simp]:
  "str_len [] = 0" "str_len (c # s) = len_utf8 c + str_len s" "str_len (s @ t) = str_len s + str_len t"
  by (simp_all add: str_len_def)

lemma len_utf8_pos [simp]: "0 < len_utf8 c"
  by (simp add: len_utf8_def)

lemma length_le_str_len: "length s \<le> str_len s"
proof (induction s)
  case (Cons c s)
  have "0 < len_utf8 c" by (rule len_utf8_pos)
  with Cons.IH show ?case by (auto simp del: len_utf8_pos)
qed simp

lemma split_pred_not_Nil [simp]: "split_pred P s \<noteq> []"
  by (cases s) (auto split: list.splits)

text \<open>The pieces and the separators between them are the string.\<close>

lemma split_pred_length:
  "sum_list (map length (split_pred P s)) + length (split_pred P s) = Suc (length s)"
  by (induction s) (auto split: list.splits)

text \<open>Appending splits the last piece of the first string and the first of the second.\<close>

lemma split_pred_append:
  "split_pred P (s @ t) =
     butlast (split_pred P s) @ (last (split_pred P s) @ hd (split_pred P t)) # tl (split_pred P t)"
proof (induction s)
  case Nil
  then show ?case by simp
next
  case (Cons c s)
  show ?case
  proof (cases "P c")
    case True
    with Cons show ?thesis by simp
  next
    case False
    obtain w ws where s: "split_pred P s = w # ws" by (cases "split_pred P s") auto
    with Cons False show ?thesis by (cases ws) auto
  qed
qed

abbreviation nonempty_count :: "'a list list \<Rightarrow> nat" where
  "nonempty_count ws \<equiv> length (filter (\<lambda>w. w \<noteq> []) ws)"

lemma nonempty_count_butlast_last:
  "ws \<noteq> [] \<Longrightarrow> nonempty_count ws = nonempty_count (butlast ws) + (if last ws = [] then 0 else 1)"
  by (induction ws) auto

lemma nonempty_count_hd_tl:
  "ws \<noteq> [] \<Longrightarrow> nonempty_count ws = (if hd ws = [] then 0 else 1) + nonempty_count (tl ws)"
  by (cases ws) auto

lemma split_whitespace_append:
  "length (split_whitespace (s @ t)) \<le> length (split_whitespace s) + length (split_whitespace t)"
  "length (split_whitespace s) \<le> length (split_whitespace (s @ t))"
  "length (split_whitespace t) \<le> length (split_whitespace (s @ t))"
  using nonempty_count_butlast_last [of "split_pred is_whitespace s"]
    nonempty_count_hd_tl [of "split_pred is_whitespace t"]
  by (auto simp: split_whitespace_def split_pred_append)

lemma nonempty_count_le: "nonempty_count ws \<le> sum_list (map length ws)"
proof (induction ws)
  case (Cons w ws)
  then show ?case by (cases w) auto
qed simp

lemma split_whitespace_le: "length (split_whitespace s) \<le> length s"
  using split_pred_length [of is_whitespace s] nonempty_count_le [of "split_pred is_whitespace s"]
    split_pred_not_Nil [of is_whitespace s]
  by (cases "split_pred is_whitespace s") (auto simp: split_whitespace_def)

lemma prefix_take: "prefix p s \<longleftrightarrow> take (length p) s = p"
  by (metis append_eq_conv_conj prefix_def take_is_prefix)

lemma find_sub_Some:
  "find_sub p s = Some i \<longleftrightarrow>
   i \<le> length s \<and> prefix p (drop i s) \<and> (\<forall>j < i. \<not> prefix p (drop j s))"
proof (induction s arbitrary: i)
  case Nil
  then show ?case by auto
next
  case (Cons c s)
  show ?case
  proof (cases "prefix p (c # s)")
    case True
    then show ?thesis by (cases i) (auto simp: prefix_take)
  next
    case False
    then have fs: "find_sub p (c # s) = map_option Suc (find_sub p s)" by (simp add: prefix_take)
    show ?thesis
    proof (cases i)
      case 0
      with fs False show ?thesis by simp
    next
      case (Suc k)
      have "(\<forall>j < Suc k. \<not> prefix p (drop j (c # s))) \<longleftrightarrow> (\<forall>j < k. \<not> prefix p (drop j s))"
        using False by (simp add: All_less_Suc2)
      with fs Suc Cons [of k] show ?thesis by auto
    qed
  qed
qed

lemma find_sub_None: "find_sub p s = None \<longleftrightarrow> (\<forall>i \<le> length s. \<not> prefix p (drop i s))"
proof (induction s)
  case (Cons c s)
  have "(\<forall>i \<le> length (c # s). \<not> prefix p (drop i (c # s))) \<longleftrightarrow>
    \<not> prefix p (c # s) \<and> (\<forall>i \<le> length s. \<not> prefix p (drop i s))"
    by (simp flip: less_Suc_eq_le add: All_less_Suc2)
  with Cons show ?case by (auto simp: prefix_take)
qed simp

lemma byte_split_Some:
  "byte_split n s = Some (u, v) \<longleftrightarrow> s = u @ v \<and> str_len u = n"
proof (induction n s arbitrary: u v rule: byte_split.induct)
  case (1 n)
  then show ?case by auto
next
  case (2 n c s)
  show ?case
  proof (cases "n = 0")
    case True
    then show ?thesis using length_le_str_len [of u] by auto
  next
    case False
    show ?thesis
    proof (cases u)
      case Nil
      with False show ?thesis by auto
    next
      case (Cons d u')
      show ?thesis
      proof (cases "len_utf8 c \<le> n")
        case True
        with 2 [of u' v] False Cons show ?thesis by (cases "byte_split (n - len_utf8 c) s") auto
      next
        case F: False
        with False Cons show ?thesis by auto
      qed
    qed
  qed
qed

lemma starts_with_prefix: "starts_with p s \<longleftrightarrow> prefix p s"
  by (simp add: starts_with_def prefix_take)

lemma split_sub_Some:
  assumes "split_sub p s = Some (u, v)"
  shows "s = u @ p @ v"
proof -
  from assms obtain i where i: "find_sub p s = Some i" "u = take i s" "v = drop (i + length p) s"
    by (auto simp: split_sub_def)
  from i(1) obtain w where w: "drop i s = p @ w" by (auto simp: find_sub_Some prefix_def)
  then have "drop (length p) (drop i s) = w" by simp
  with i(3) have "v = w" by (simp add: add.commute)
  with w i(2) show ?thesis by (metis append_take_drop_id)
qed

lemma split_sub_None: "split_sub p s = None \<longleftrightarrow> \<not> sublist p s"
proof -
  have "split_sub p s = None \<longleftrightarrow> (\<forall>i \<le> length s. \<not> prefix p (drop i s))"
    by (simp add: split_sub_def find_sub_None)
  also have "\<dots> \<longleftrightarrow> \<not> sublist p s"
  proof
    assume none: "\<forall>i \<le> length s. \<not> prefix p (drop i s)"
    show "\<not> sublist p s"
    proof
      assume "sublist p s"
      then obtain a b where "s = a @ p @ b" by (auto simp: sublist_def)
      with none show False by (auto dest: spec [of _ "length a"])
    qed
  next
    assume "\<not> sublist p s"
    then show "\<forall>i \<le> length s. \<not> prefix p (drop i s)"
      by (metis append_take_drop_id prefix_def sublist_def)
  qed
  finally show ?thesis .
qed

lemma split_sub_shorter: "split_sub p s = Some (u, v) \<Longrightarrow> p \<noteq> [] \<Longrightarrow> length v < length s"
  by (drule split_sub_Some) simp

lemma split_sub_first:
  assumes "split_sub p s = Some (u, v)" and "p \<noteq> []"
  shows "\<not> sublist p u"
proof
  assume "sublist p u"
  then obtain a b where ab: "u = a @ p @ b" by (auto simp: sublist_def)
  from assms(1) obtain i where i: "find_sub p s = Some i" "u = take i s" by (auto simp: split_sub_def)
  from i(1) have "length a < i \<Longrightarrow> \<not> prefix p (drop (length a) s)" by (simp add: find_sub_Some)
  moreover have "i \<le> length s" using i(1) by (simp add: find_sub_Some)
  then have "length u = i" using i(2) by simp
  then have "length a < i" using ab assms(2) by (cases p) auto
  moreover have "prefix p (drop (length a) s)" using ab split_sub_Some [OF assms(1)] by simp
  ultimately show False by blast
qed

lemma split_sub_Nil [simp]: "split_sub p [] = (if p = [] then Some ([], []) else None)"
  by (simp add: split_sub_def)

lemma split_sub_Cons:
  "split_sub p (c # s) =
     (if starts_with p (c # s) then Some ([], drop (length p) (c # s))
      else map_option (\<lambda>(u, v). (c # u, v)) (split_sub p s))"
  by (cases "find_sub p s") (simp_all add: split_sub_def starts_with_def)

text \<open>A pattern is not found inside a stretch that lacks its first character.\<close>

lemma split_sub_skip:
  "a \<notin> set w \<Longrightarrow> split_sub (a # p) (w @ s) = map_option (\<lambda>(u, v). (w @ u, v)) (split_sub (a # p) s)"
proof (induction w)
  case Nil
  then show ?case by (cases "split_sub (a # p) s") auto
next
  case (Cons c w)
  then show ?case by (cases "split_sub (a # p) s") (auto simp: split_sub_Cons starts_with_def)
qed

lemma str_from_Some: "str_from n s = Some v \<longleftrightarrow> (\<exists>u. s = u @ v \<and> str_len u = n)"
  by (auto simp: str_from_def byte_split_Some)

lemma str_upto_Some: "str_upto n s = Some u \<longleftrightarrow> (\<exists>v. s = u @ v) \<and> str_len u = n"
  by (auto simp: str_upto_def byte_split_Some)

lemma byte_split_append [simp]: "byte_split (str_len u) (u @ v) = Some (u, v)"
  by (simp add: byte_split_Some)

lemma str_from_append [simp]: "str_from (str_len u) (u @ v) = Some v"
  by (simp add: str_from_def)

lemma str_upto_append [simp]: "str_upto (str_len u) (u @ v) = Some u"
  by (simp add: str_upto_def)

lemma str_slice_append [simp]: "str_slice (str_len u) (str_len u + str_len v) (u @ v @ w) = Some v"
  using str_upto_append [of "u @ v" w] by (simp add: str_slice_def)

lemma is_char_boundary_iff: "is_char_boundary s n \<longleftrightarrow> (\<exists>u v. s = u @ v \<and> str_len u = n)"
  by (auto simp: is_char_boundary_def byte_split_Some)

lemma min_opt_Some: "min_opt xs = Some m \<longleftrightarrow> m \<in> set xs \<and> (\<forall>x \<in> set xs. m \<le> x)"
proof (cases xs)
  case (Cons y ys)
  then have ne: "set xs \<noteq> {}" by simp
  have "min_opt xs = Some m \<longleftrightarrow> Min (set xs) = m" using Cons by (simp add: min_opt_def)
  also have "\<dots> \<longleftrightarrow> m \<in> set xs \<and> (\<forall>x \<in> set xs. m \<le> x)" by (rule Min_eq_iff [OF _ ne]) simp
  finally show ?thesis .
qed (simp add: min_opt_def)

lemma min_opt_None [simp]: "min_opt xs = None \<longleftrightarrow> xs = []"
  by (simp add: min_opt_def)

lemma prefix_bytes:
  assumes "prefix a c" and "prefix b c" and "str_len a \<le> str_len b"
  shows "prefix a b"
proof -
  from assms(1,2) have "prefix a b \<or> prefix b a" by (rule prefix_same_cases)
  then show ?thesis
  proof
    assume "prefix b a"
    then obtain d where "a = b @ d" by (auto simp: prefix_def)
    with assms(3) length_le_str_len [of d] show ?thesis by simp
  qed
qed

lemma trim_start_no_lead: "trim_start s \<noteq> [] \<Longrightarrow> \<not> is_whitespace (hd (trim_start s))"
  unfolding trim_start_def by (rule hd_dropWhile)

lemma trim_idem [simp]: "trim (trim s) = trim s"
proof -
  have ts: "trim_start (trim_end (trim_start s)) = trim_end (trim_start s)"
  proof (cases "trim_end (trim_start s)")
    case Nil
    then show ?thesis by (simp add: trim_start_def)
  next
    case (Cons c r)
    obtain zs where zs: "rev (trim_start s) = zs @ rev (trim_end (trim_start s))"
      unfolding trim_end_def by (metis rev_rev_ident takeWhile_dropWhile_id)
    then have "trim_start s = trim_end (trim_start s) @ rev zs"
      by (metis rev_append rev_rev_ident)
    with Cons have "hd (trim_start s) = c" "trim_start s \<noteq> []" by auto
    with trim_start_no_lead have "\<not> is_whitespace c" by metis
    then show ?thesis unfolding Cons by (simp add: trim_start_def)
  qed
  show ?thesis
    unfolding trim_def ts by (simp add: trim_end_def dropWhile_idem)
qed

lemma length_trim: "length (trim s) \<le> length s"
  unfolding trim_def trim_end_def trim_start_def
  by (metis length_dropWhile_le length_rev order_trans)

lemma set_trim: "set (trim s) \<subseteq> set s"
  unfolding trim_def trim_end_def trim_start_def
  by (metis set_dropWhileD set_rev subsetI)

lemma sublist_trim: "sublist (trim s) s"
proof -
  have "s = takeWhile is_whitespace s @ trim_start s" by (simp add: trim_start_def)
  moreover have "trim_start s = trim s @ rev (takeWhile is_whitespace (rev (trim_start s)))"
    unfolding trim_def trim_end_def by (metis rev_append rev_rev_ident takeWhile_dropWhile_id)
  ultimately show ?thesis by (metis sublist_appendI)
qed

end
