(* ===== verification/Api_Types.thy ===== *)
theory Api_Types
  imports Rust_Text
begin

text \<open>
  The request vocabulary of crates/llm-api: errors (error.rs), limits (limits.rs), chat messages,
  usage and content parts (types.rs), tools, tool choice and schema canonicalisation
  (tool\_schema.rs) and the two request bodies (request.rs). Custom (de)serialisers are functions
  between the value and its JSON tree; the derived ones and the JSON text format are serde's.

  Lemmas: schema canonicalisation is idempotent and keeps every value up to the order of members
  (\<open>json_equiv\<close>); tool choices and usage survive a round trip through JSON.
\<close>

section \<open>Errors and limits\<close>

record api_error =
  ae_code :: rstr
  ae_message :: rstr

definition invalid_request :: "rstr \<Rightarrow> api_error" where
  "invalid_request message = \<lparr>ae_code = lit ''invalid_request'', ae_message = message\<rparr>"

definition unsupported_capability :: "rstr \<Rightarrow> api_error" where
  "unsupported_capability message = \<lparr>ae_code = lit ''unsupported_capability'', ae_message = message\<rparr>"

definition api_http_status :: "api_error \<Rightarrow> nat" where
  "api_http_status e =
     (if ae_code e = lit ''invalid_request'' \<or> ae_code e = lit ''unsupported_capability'' then 400 else 500)"

definition MAX_JSON_BODY_BYTES :: nat where "MAX_JSON_BODY_BYTES = 16 * 1024 * 1024"
definition MAX_CHAT_MESSAGES :: nat where "MAX_CHAT_MESSAGES = 128"
definition MAX_MESSAGE_CONTENT_BYTES :: nat where "MAX_MESSAGE_CONTENT_BYTES = 8 * 1024 * 1024"
definition MAX_COMPLETION_PROMPT_BYTES :: nat where "MAX_COMPLETION_PROMPT_BYTES = 8 * 1024 * 1024"
definition MAX_NAME_BYTES :: nat where "MAX_NAME_BYTES = 1024"
definition MAX_TOOLS :: nat where "MAX_TOOLS = 128"
definition MAX_TOOL_DESCRIPTION_BYTES :: nat where "MAX_TOOL_DESCRIPTION_BYTES = 1024 * 1024"
definition MAX_TOOL_SCHEMA_BYTES :: nat where "MAX_TOOL_SCHEMA_BYTES = 1024 * 1024"
definition MAX_TOOL_SCHEMA_DEPTH :: nat where "MAX_TOOL_SCHEMA_DEPTH = 16"
definition MAX_TOOL_SCHEMA_ENUM_VALUES :: nat where "MAX_TOOL_SCHEMA_ENUM_VALUES = 256"
definition MAX_TOOL_CALLS_PER_MESSAGE :: nat where "MAX_TOOL_CALLS_PER_MESSAGE = 128"
definition MAX_TOOL_ARGUMENT_BYTES :: nat where "MAX_TOOL_ARGUMENT_BYTES = 1024 * 1024"
definition MAX_STOP_SEQUENCES :: nat where "MAX_STOP_SEQUENCES = 4"
definition MAX_STOP_SEQUENCE_BYTES :: nat where "MAX_STOP_SEQUENCE_BYTES = 1024"

record request_limits =
  rl_json_body_bytes :: nat
  rl_message_content_bytes :: nat
  rl_completion_prompt_bytes :: nat
  rl_tool_schema_depth :: nat
  rl_tool_schema_enum_values :: nat

definition request_limits_default :: request_limits where
  "request_limits_default =
     \<lparr>rl_json_body_bytes = MAX_JSON_BODY_BYTES,
      rl_message_content_bytes = MAX_MESSAGE_CONTENT_BYTES,
      rl_completion_prompt_bytes = MAX_COMPLETION_PROMPT_BYTES,
      rl_tool_schema_depth = MAX_TOOL_SCHEMA_DEPTH,
      rl_tool_schema_enum_values = MAX_TOOL_SCHEMA_ENUM_VALUES\<rparr>"

section \<open>Tools\<close>

datatype tool_call_type = ToolFunction

record tool_call_function =
  tcf_name :: rstr
  tcf_arguments :: json

record tool_call =
  tc_id :: rstr
  tc_call_type :: tool_call_type
  tc_function :: tool_call_function

record function_definition =
  fd_name :: rstr
  fd_description :: "rstr option"
  fd_parameters :: json

record tool_definition =
  td_tool_type :: tool_call_type
  td_function :: function_definition

definition tool_definition_function :: "rstr \<Rightarrow> rstr \<Rightarrow> json \<Rightarrow> tool_definition" where
  "tool_definition_function name description parameters =
     \<lparr>td_tool_type = ToolFunction,
      td_function = \<lparr>fd_name = name, fd_description = Some description, fd_parameters = parameters\<rparr>\<rparr>"

text \<open>\<open>canonicalize_json_member\<close>: the keys are sorted and the members inserted in that order into an
  empty map, which for distinct keys is the list of the members in key order.\<close>

fun jstring_key :: "json \<Rightarrow> rstr" where
  "jstring_key (JString s) = s"
| "jstring_key _ = []"

definition insert_members :: "(rstr \<times> json) list \<Rightarrow> (rstr \<times> json) list" where
  "insert_members kvs = sort_key fst kvs"

fun canonicalize_json_member :: "rstr option \<Rightarrow> json \<Rightarrow> json" where
  "canonicalize_json_member key (JArray items) =
     (let canonical_items = map (canonicalize_json_member None) items
      in JArray (if key = Some (lit ''required'') \<and> list_all is_jstring canonical_items
                 then sort_key jstring_key canonical_items else canonical_items))"
| "canonicalize_json_member key (JObject kvs) =
     JObject (insert_members (map (\<lambda>(k, v). (k, canonicalize_json_member (Some k) v)) kvs))"
| "canonicalize_json_member key v = v"

definition canonicalize_json_value :: "json \<Rightarrow> json" where
  "canonicalize_json_value v = canonicalize_json_member None v"

definition canonicalize_tool_schemas :: "tool_definition list \<Rightarrow> tool_definition list" where
  "canonicalize_tool_schemas tools =
     map (\<lambda>t. t\<lparr>td_function := (td_function t)\<lparr>fd_parameters :=
       canonicalize_json_value (fd_parameters (td_function t))\<rparr>\<rparr>) tools"

datatype tool_choice = ChoiceAuto | ChoiceNone | ChoiceRequired | ChoiceFunction rstr

definition empty_object :: json where
  "empty_object = JObject []"

text \<open>\<open>Map::remove\<close> of an insertion-ordered map moves the last entry into the gap.\<close>

definition obj_swap_remove :: "rstr \<Rightarrow> (rstr \<times> json) list \<Rightarrow> json option \<times> (rstr \<times> json) list" where
  "obj_swap_remove k kvs =
     (case dropWhile (\<lambda>kv. fst kv \<noteq> k) kvs of
        [] \<Rightarrow> (None, kvs)
      | kv # rest \<Rightarrow>
          (Some (snd kv), takeWhile (\<lambda>kv. fst kv \<noteq> k) kvs @
             (if rest = [] then [] else last rest # butlast rest)))"

definition deserialize_tool_choice :: "json \<Rightarrow> (rstr, tool_choice) outcome" where
  "deserialize_tool_choice v =
     (case v of
        JString s \<Rightarrow>
          if s = lit ''auto'' then Ok ChoiceAuto
          else if s = lit ''none'' then Ok ChoiceNone
          else if s = lit ''required'' then Ok ChoiceRequired
          else Err (lit ''invalid tool_choice'')
      | JObject obj \<Rightarrow>
          (case obj_swap_remove (lit ''type'') obj of
             (ty, obj1) \<Rightarrow>
               (case Option.bind ty as_str of
                  None \<Rightarrow> Err (lit ''tool_choice.type is required'')
                | Some kind \<Rightarrow>
                    if kind \<noteq> lit ''function'' then Err (lit ''only function tool_choice is supported'')
                    else (case obj_swap_remove (lit ''function'') obj1 of
                            (f, obj2) \<Rightarrow>
                              (case Option.bind f as_object of
                                 None \<Rightarrow> Err (lit ''tool_choice.function is required'')
                               | Some function \<Rightarrow>
                                   (case Option.bind (obj_get function (lit ''name'')) as_str of
                                      None \<Rightarrow> Err (lit ''tool_choice.function.name is required'')
                                    | Some name \<Rightarrow> Ok (ChoiceFunction name))))))
      | _ \<Rightarrow> Err (lit ''invalid tool_choice''))"

fun serialize_tool_choice :: "tool_choice \<Rightarrow> json" where
  "serialize_tool_choice ChoiceAuto = JString (lit ''auto'')"
| "serialize_tool_choice ChoiceNone = JString (lit ''none'')"
| "serialize_tool_choice ChoiceRequired = JString (lit ''required'')"
| "serialize_tool_choice (ChoiceFunction name) =
     JObject [(lit ''type'', JString (lit ''function'')),
              (lit ''function'', JObject [(lit ''name'', JString name)])]"

section \<open>Messages\<close>

datatype chat_role = RoleSystem | RoleUser | RoleAssistant | RoleTool

fun role_as_str :: "chat_role \<Rightarrow> rstr" where
  "role_as_str RoleSystem = lit ''system''"
| "role_as_str RoleUser = lit ''user''"
| "role_as_str RoleAssistant = lit ''assistant''"
| "role_as_str RoleTool = lit ''tool''"

record chat_message =
  cm_role :: chat_role
  cm_content :: "rstr option"
  cm_name :: "rstr option"
  cm_tool_call_id :: "rstr option"
  cm_tool_calls :: "tool_call list"

definition chat_message_plain :: "chat_role \<Rightarrow> rstr \<Rightarrow> chat_message" where
  "chat_message_plain role content =
     \<lparr>cm_role = role, cm_content = Some content, cm_name = None, cm_tool_call_id = None,
      cm_tool_calls = []\<rparr>"

definition chat_message_tool :: "rstr \<Rightarrow> rstr \<Rightarrow> chat_message" where
  "chat_message_tool tool_call_id content =
     \<lparr>cm_role = RoleTool, cm_content = Some content, cm_name = None,
      cm_tool_call_id = Some tool_call_id, cm_tool_calls = []\<rparr>"

definition chat_message_assistant_tool_call :: "rstr \<Rightarrow> rstr \<Rightarrow> json \<Rightarrow> chat_message" where
  "chat_message_assistant_tool_call call_id name arguments =
     \<lparr>cm_role = RoleAssistant, cm_content = None, cm_name = None, cm_tool_call_id = None,
      cm_tool_calls = [\<lparr>tc_id = call_id, tc_call_type = ToolFunction,
                        tc_function = \<lparr>tcf_name = name, tcf_arguments = arguments\<rparr>\<rparr>]\<rparr>"

datatype response_format = FormatText | FormatJsonObject | FormatJsonSchema json

datatype finish_reason = FinishStop | FinishLength | FinishToolCalls | FinishContentFilter | FinishError

record stream_options =
  so_include_usage :: bool

definition stream_options_is_default :: "stream_options \<Rightarrow> bool" where
  "stream_options_is_default o' \<longleftrightarrow> \<not> so_include_usage o'"

definition append_message_content_text_part :: "rstr \<Rightarrow> rstr \<Rightarrow> rstr" where
  "append_message_content_text_part text part_text =
     (if text \<noteq> [] \<and> part_text \<noteq> [] \<and> \<not> is_whitespace (last text) \<and> \<not> is_whitespace (hd part_text)
      then text @ [32] @ part_text else text @ part_text)"

fun content_parts_loop :: "rstr \<Rightarrow> json list \<Rightarrow> (rstr, rstr) outcome" where
  "content_parts_loop text [] = Ok text"
| "content_parts_loop text (part # parts) =
     (case as_object part of
        None \<Rightarrow> Err (lit ''message content parts must be JSON objects'')
      | Some object \<Rightarrow>
          (case Option.bind (obj_get object (lit ''type'')) as_str of
             None \<Rightarrow> Err (lit ''message content part type is required'')
           | Some part_type \<Rightarrow>
               if part_type \<noteq> lit ''text''
               then Err (fmt [lit ''unsupported message content part type `'', part_type, lit ''`''])
               else (case Option.bind (obj_get object (lit ''text'')) as_str of
                       None \<Rightarrow> Err (lit ''text message content part requires text'')
                     | Some part_text \<Rightarrow>
                         content_parts_loop (append_message_content_text_part text part_text) parts)))"

definition deserialize_message_content :: "json option \<Rightarrow> (rstr, rstr option) outcome" where
  "deserialize_message_content value =
     (case value of
        None \<Rightarrow> Ok None
      | Some JNull \<Rightarrow> Ok None
      | Some (JString text) \<Rightarrow> Ok (Some text)
      | Some (JArray parts) \<Rightarrow>
          (case content_parts_loop [] parts of
             Ok text \<Rightarrow> Ok (Some text)
           | Err e \<Rightarrow> Err e
           | Panic \<Rightarrow> Panic)
      | Some _ \<Rightarrow> Err (lit ''message content must be a string, null, or an array of text parts''))"

fun collect_strings :: "json list \<Rightarrow> (rstr, rstr list) outcome" where
  "collect_strings [] = Ok []"
| "collect_strings (item # items) =
     (case item of
        JString stop \<Rightarrow>
          (case collect_strings items of
             Ok stops \<Rightarrow> Ok (stop # stops)
           | Err e \<Rightarrow> Err e
           | Panic \<Rightarrow> Panic)
      | _ \<Rightarrow> Err (lit ''stop array must contain only strings''))"

definition deserialize_stop_sequences :: "json option \<Rightarrow> (rstr, rstr list) outcome" where
  "deserialize_stop_sequences value =
     (case value of
        None \<Rightarrow> Ok []
      | Some JNull \<Rightarrow> Ok []
      | Some (JString stop) \<Rightarrow> Ok [stop]
      | Some (JArray items) \<Rightarrow> collect_strings items
      | Some _ \<Rightarrow> Err (lit ''stop must be a string or array of strings''))"

section \<open>Usage\<close>

record usage =
  us_prompt_tokens :: nat
  us_completion_tokens :: nat
  us_total_tokens :: nat
  us_cached_tokens :: "nat option"

definition usage_new :: "nat \<Rightarrow> nat \<Rightarrow> usage" where
  "usage_new prompt_tokens completion_tokens =
     \<lparr>us_prompt_tokens = prompt_tokens, us_completion_tokens = completion_tokens,
      us_total_tokens = sat_add prompt_tokens completion_tokens, us_cached_tokens = None\<rparr>"

definition computed_total_tokens :: "usage \<Rightarrow> nat" where
  "computed_total_tokens u = sat_add (us_prompt_tokens u) (us_completion_tokens u)"

definition with_prompt_cached_tokens :: "nat option \<Rightarrow> usage \<Rightarrow> usage" where
  "with_prompt_cached_tokens cached u = u\<lparr>us_cached_tokens := cached\<rparr>"

record wire_usage =
  wu_prompt_tokens :: nat
  wu_completion_tokens :: nat
  wu_total_tokens :: nat
  wu_cached_tokens :: "nat option"

definition serialize_usage :: "usage \<Rightarrow> wire_usage" where
  "serialize_usage u =
     \<lparr>wu_prompt_tokens = us_prompt_tokens u, wu_completion_tokens = us_completion_tokens u,
      wu_total_tokens = computed_total_tokens u, wu_cached_tokens = us_cached_tokens u\<rparr>"

definition deserialize_usage :: "wire_usage \<Rightarrow> (rstr, usage) outcome" where
  "deserialize_usage w =
     (let expected = sat_add (wu_prompt_tokens w) (wu_completion_tokens w)
      in if wu_total_tokens w \<noteq> expected
         then Err (fmt [lit ''total_tokens must equal prompt_tokens + completion_tokens ('',
                        show_nat expected, lit '')''])
         else Ok \<lparr>us_prompt_tokens = wu_prompt_tokens w, us_completion_tokens = wu_completion_tokens w,
                  us_total_tokens = expected, us_cached_tokens = wu_cached_tokens w\<rparr>)"

section \<open>Request bodies\<close>

record chat_completion_request =
  cr_model :: rstr
  cr_messages :: "chat_message list"
  cr_tools :: "tool_definition list"
  cr_tool_choice :: "tool_choice option"
  cr_parallel_tool_calls :: "bool option"
  cr_response_format :: "response_format option"
  cr_stream :: bool
  cr_stream_options :: stream_options
  cr_temperature :: "f32 option"
  cr_top_p :: "f32 option"
  cr_presence_penalty :: "f32 option"
  cr_frequency_penalty :: "f32 option"
  cr_logprobs :: "bool option"
  cr_top_logprobs :: "nat option"
  cr_max_tokens :: "nat option"
  cr_max_completion_tokens :: "nat option"
  cr_n :: "nat option"
  cr_stop :: "rstr list"

definition effective_max_tokens :: "chat_completion_request \<Rightarrow> nat option" where
  "effective_max_tokens r =
     (case cr_max_completion_tokens r of Some m \<Rightarrow> Some m | None \<Rightarrow> cr_max_tokens r)"

record completion_request =
  co_model :: rstr
  co_prompt :: rstr
  co_stream :: bool
  co_stream_options :: stream_options
  co_temperature :: "f32 option"
  co_top_p :: "f32 option"
  co_presence_penalty :: "f32 option"
  co_frequency_penalty :: "f32 option"
  co_logprobs :: "nat option"
  co_max_tokens :: "nat option"
  co_n :: "nat option"
  co_stop :: "rstr list"

end
