(* ===== verification/Api_Canonical.thy ===== *)
theory Api_Canonical
  imports Api_Types
begin

text \<open>
  Canonical tool schemas and the custom (de)serialisers of crates/llm-api. The specification of
  canonicalisation is an equivalence of JSON values: objects are equal up to the order of their
  members, and an array of strings under the key \<open>required\<close> up to the order of its items.
\<close>

inductive json_equiv :: "rstr option \<Rightarrow> json \<Rightarrow> json \<Rightarrow> bool" where
  equiv_refl: "json_equiv key v v"
| equiv_sym: "json_equiv key v w \<Longrightarrow> json_equiv key w v"
| equiv_trans: "json_equiv key u v \<Longrightarrow> json_equiv key v w \<Longrightarrow> json_equiv key u w"
| equiv_items: "list_all2 (json_equiv None) vs ws \<Longrightarrow> json_equiv key (JArray vs) (JArray ws)"
| equiv_required: "list_all is_jstring vs \<Longrightarrow> mset vs = mset ws \<Longrightarrow>
    json_equiv (Some (lit ''required'')) (JArray vs) (JArray ws)"
| equiv_members: "list_all2 (\<lambda>kv lw. fst kv = fst lw \<and> json_equiv (Some (fst kv)) (snd kv) (snd lw)) kvs lws \<Longrightarrow>
    json_equiv key (JObject kvs) (JObject lws)"
| equiv_order: "mset kvs = mset lws \<Longrightarrow> json_equiv key (JObject kvs) (JObject lws)"

section \<open>Canonical forms are equivalent to the value\<close>

abbreviation canonical_members :: "(rstr \<times> json) list \<Rightarrow> (rstr \<times> json) list" where
  "canonical_members kvs \<equiv> map (\<lambda>(k, v). (k, canonicalize_json_member (Some k) v)) kvs"

lemma fst_canonical_members: "map fst (canonical_members kvs) = map fst kvs"
  by (induction kvs) auto

lemma canonical_equiv: "json_equiv key v (canonicalize_json_member key v)"
proof (induction key v rule: canonicalize_json_member.induct)
  case (1 key items)
  let ?items = "map (canonicalize_json_member None) items"
  have "list_all2 (json_equiv None) items ?items"
    using 1 by (simp add: list_all2_conv_all_nth)
  then have arr: "json_equiv key (JArray items) (JArray ?items)" by (rule equiv_items)
  show ?case
  proof (cases "key = Some (lit ''required'') \<and> list_all is_jstring ?items")
    case True
    then have "json_equiv key (JArray ?items) (JArray (sort_key jstring_key ?items))"
      using equiv_required [of ?items "sort_key jstring_key ?items"] by simp
    with arr True show ?thesis by (auto intro: equiv_trans)
  next
    case False
    with arr show ?thesis by (auto simp: Let_def)
  qed
next
  case (2 key kvs)
  have "list_all2 (\<lambda>kv lw. fst kv = fst lw \<and> json_equiv (Some (fst kv)) (snd kv) (snd lw)) kvs (canonical_members kvs)"
    using 2 by (auto simp: list_all2_conv_all_nth split: prod.splits) (metis nth_mem snd_conv)+
  then have "json_equiv key (JObject kvs) (JObject (canonical_members kvs))" by (rule equiv_members)
  moreover have "json_equiv key (JObject (canonical_members kvs)) (JObject (insert_members (canonical_members kvs)))"
    by (rule equiv_order) (simp add: insert_members_def)
  ultimately show ?case by (auto intro: equiv_trans)
qed (auto intro: equiv_refl)

section \<open>Equivalent values have the same canonical form\<close>

lemma sort_key_perm:
  assumes "mset xs = mset ys" and "inj_on f (set xs)"
  shows "sort_key f xs = sort_key f ys"
  by (rule sort_key_inj_key_eq) (use assms in simp_all)

lemma jstring_key_inj: "list_all is_jstring vs \<Longrightarrow> inj_on jstring_key (set vs)"
  unfolding inj_on_def list_all_iff by (metis is_jstring.elims(2) jstring_key.simps(1))

lemma canonical_is_jstring [simp]: "is_jstring (canonicalize_json_member key v) \<longleftrightarrow> is_jstring v"
  by (cases v) (auto simp: Let_def)

lemma canonical_jstring: "is_jstring v \<Longrightarrow> canonicalize_json_member key v = v"
  by (cases v) auto

lemma mset_insert_members:
  assumes "mset kvs = mset lws" and "distinct (map fst kvs)"
  shows "insert_members (canonical_members kvs) = insert_members (canonical_members lws)"
  unfolding insert_members_def
proof (rule sort_key_perm)
  show "mset (canonical_members kvs) = mset (canonical_members lws)" using assms(1) by simp
  have "distinct (map fst (canonical_members kvs))" using assms(2) by (simp only: fst_canonical_members)
  then show "inj_on fst (set (canonical_members kvs))" unfolding distinct_map by (rule conjunct2)
qed

lemma equiv_items_canonical:
  "list_all2 (\<lambda>v w. json_wf v \<longrightarrow> canonicalize_json_member key v = canonicalize_json_member key w) vs ws \<Longrightarrow>
   \<forall>v \<in> set vs. json_wf v \<Longrightarrow>
   map (canonicalize_json_member key) vs = map (canonicalize_json_member key) ws"
  by (induction rule: list_all2_induct) auto

lemma equiv_members_canonical:
  "list_all2 (\<lambda>kv lw. fst kv = fst lw \<and>
     (json_wf (snd kv) \<longrightarrow> canonicalize_json_member (Some (fst kv)) (snd kv) =
        canonicalize_json_member (Some (fst kv)) (snd lw))) kvs lws \<Longrightarrow>
   \<forall>kv \<in> set kvs. json_wf (snd kv) \<Longrightarrow> canonical_members kvs = canonical_members lws"
  by (induction rule: list_all2_induct) auto

lemma list_all2_wf:
  "list_all2 (\<lambda>v w. json_wf v \<longleftrightarrow> json_wf w) vs ws \<Longrightarrow> (\<forall>v \<in> set vs. json_wf v) \<longleftrightarrow> (\<forall>w \<in> set ws. json_wf w)"
  by (induction rule: list_all2_induct) auto

lemma list_all2_member_wf:
  "list_all2 (\<lambda>kv lw. fst kv = fst lw \<and> (json_wf (snd kv) \<longleftrightarrow> json_wf (snd lw))) kvs lws \<Longrightarrow>
   map fst kvs = map fst lws \<and> ((\<forall>kv \<in> set kvs. json_wf (snd kv)) \<longleftrightarrow> (\<forall>kv \<in> set lws. json_wf (snd kv)))"
  by (induction rule: list_all2_induct) auto

lemma json_equiv_canonical:
  "json_equiv key v w \<Longrightarrow>
   (json_wf v \<longleftrightarrow> json_wf w) \<and>
   (json_wf v \<longrightarrow> canonicalize_json_member key v = canonicalize_json_member key w)"
proof (induction rule: json_equiv.induct)
  case (equiv_items vs ws key)
  then have "list_all2 (\<lambda>v w. json_wf v \<longleftrightarrow> json_wf w) vs ws"
    "list_all2 (\<lambda>v w. json_wf v \<longrightarrow> canonicalize_json_member None v = canonicalize_json_member None w) vs ws"
    by (auto elim!: list_all2_mono)
  with list_all2_wf equiv_items_canonical [of None vs ws] show ?case by (auto simp: Let_def)
next
  case (equiv_required vs ws)
  then have set: "set vs = set ws" by (metis set_mset_mset)
  have "list_all is_jstring ws" using equiv_required set by (simp add: list_all_iff)
  then have "map (canonicalize_json_member None) ws = ws" "map (canonicalize_json_member None) vs = vs"
    using equiv_required by (auto simp: list_all_iff canonical_jstring intro!: map_idI)
  moreover have "sort_key jstring_key vs = sort_key jstring_key ws"
    using equiv_required by (intro sort_key_perm jstring_key_inj) auto
  ultimately show ?case using set equiv_required \<open>list_all is_jstring ws\<close> by (simp add: Let_def)
next
  case (equiv_members kvs lws key)
  then have "list_all2 (\<lambda>kv lw. fst kv = fst lw \<and> (json_wf (snd kv) \<longleftrightarrow> json_wf (snd lw))) kvs lws"
    "list_all2 (\<lambda>kv lw. fst kv = fst lw \<and>
      (json_wf (snd kv) \<longrightarrow> canonicalize_json_member (Some (fst kv)) (snd kv) =
        canonicalize_json_member (Some (fst kv)) (snd lw))) kvs lws"
    by (auto elim!: list_all2_mono)
  with list_all2_member_wf [of kvs lws] equiv_members_canonical [of kvs lws] show ?case by simp
next
  case (equiv_order kvs lws key)
  then have "set kvs = set lws" "distinct (map fst kvs) \<longleftrightarrow> distinct (map fst lws)"
    by (metis set_mset_mset, metis mset_map mset_eq_imp_distinct_iff)
  with mset_insert_members [OF equiv_order] show ?case by auto
qed auto

section \<open>Properties\<close>

text \<open>C36: canonicalisation decides equivalence. Two JSON values with distinct member names have the
  same canonical form exactly when they differ only in the order of object members and of
  \<open>required\<close> string arrays; so the identity derived from a tool schema does not depend on how a
  client ordered it, and distinguishes everything else.\<close>

theorem canonicalize_decides_equivalence:
  assumes "json_wf v" and "json_wf w"
  shows "canonicalize_json_value v = canonicalize_json_value w \<longleftrightarrow> json_equiv None v w"
proof
  assume "canonicalize_json_value v = canonicalize_json_value w"
  then have "json_equiv None v (canonicalize_json_member None w)"
    unfolding canonicalize_json_value_def by (metis canonical_equiv)
  then show "json_equiv None v w" by (metis canonical_equiv equiv_sym equiv_trans)
next
  assume "json_equiv None v w"
  with assms json_equiv_canonical show "canonicalize_json_value v = canonicalize_json_value w"
    by (simp add: canonicalize_json_value_def)
qed

definition demo_schema :: json where
  "demo_schema = JObject [(lit ''b'', JNull), (lit ''a'', JBool True)]"

definition demo_schema_reordered :: json where
  "demo_schema_reordered = JObject [(lit ''a'', JBool True), (lit ''b'', JNull)]"

theorem canonicalize_decides_equivalence_witness:
  "json_wf demo_schema \<and> json_wf demo_schema_reordered \<and>
   canonicalize_json_value demo_schema = canonicalize_json_value demo_schema_reordered"
proof -
  have wf: "json_wf demo_schema" "json_wf demo_schema_reordered"
    by (simp_all add: demo_schema_def demo_schema_reordered_def lit_def)
  have "json_equiv None demo_schema demo_schema_reordered"
    unfolding demo_schema_def demo_schema_reordered_def by (rule equiv_order) simp
  with canonicalize_decides_equivalence [OF wf] wf show ?thesis by simp
qed

text \<open>Canonicalising a canonical value changes nothing.\<close>

theorem canonicalize_idempotent:
  assumes "json_wf v"
  shows "canonicalize_json_value (canonicalize_json_value v) = canonicalize_json_value v"
  using json_equiv_canonical [OF canonical_equiv [of None v]] assms
  by (simp add: canonicalize_json_value_def)

theorem canonicalize_idempotent_witness:
  "json_wf demo_schema \<and>
   canonicalize_json_value (canonicalize_json_value demo_schema) = canonicalize_json_value demo_schema"
proof -
  have wf: "json_wf demo_schema" by (simp add: demo_schema_def lit_def)
  from canonicalize_idempotent [OF wf] wf show ?thesis by simp
qed

text \<open>The wire forms round-trip. Reading back a serialised tool choice gives the same choice;
  reading back a serialised usage gives the same counts with the total recomputed; and reading a
  usage accepts exactly the totals that are the saturating sum of the two counts.\<close>

theorem wire_round_trips:
  "deserialize_tool_choice (serialize_tool_choice c) = Ok c \<and>
   deserialize_usage (serialize_usage u) = Ok (u\<lparr>us_total_tokens := computed_total_tokens u\<rparr>) \<and>
   ((\<exists>u'. deserialize_usage w = Ok u' \<and> serialize_usage u' = w) \<longleftrightarrow>
      wu_total_tokens w = sat_add (wu_prompt_tokens w) (wu_completion_tokens w))"
proof (intro conjI)
  show "deserialize_tool_choice (serialize_tool_choice c) = Ok c"
    by (cases c) (simp_all add: deserialize_tool_choice_def obj_swap_remove_def lit_def)
  show "deserialize_usage (serialize_usage u) = Ok (u\<lparr>us_total_tokens := computed_total_tokens u\<rparr>)"
    by (simp add: deserialize_usage_def serialize_usage_def computed_total_tokens_def Let_def)
  show "(\<exists>u'. deserialize_usage w = Ok u' \<and> serialize_usage u' = w) \<longleftrightarrow>
      wu_total_tokens w = sat_add (wu_prompt_tokens w) (wu_completion_tokens w)"
    by (auto simp: deserialize_usage_def serialize_usage_def computed_total_tokens_def Let_def)
qed

end
