(* ===== verification/Api_Json_Bytes.thy ===== *)
theory Api_Json_Bytes
  imports Api_Types
begin

text \<open>
  The byte counter of crates/llm-api/src/validation/helpers.rs. \<open>JsonByteCounter\<close> walks a JSON value
  with an explicit stack of frames and stops as soon as a limit is exceeded, so a huge value is
  never serialised to measure it. The reference is the compact JSON text itself: the counter accepts
  exactly the values whose text fits, and has then counted its bytes.
\<close>

section \<open>The counter\<close>

record json_byte_counter =
  jc_written :: nat
  jc_max :: nat

datatype json_byte_limit_exceeded = JsonByteLimitExceeded

definition byte_counter_new :: "nat \<Rightarrow> json_byte_counter" where
  "byte_counter_new limit = \<lparr>jc_written = 0, jc_max = limit\<rparr>"

definition counter_exceeded :: "json_byte_counter \<Rightarrow> bool" where
  "counter_exceeded c \<longleftrightarrow> jc_written c > jc_max c"

definition counter_add ::
  "nat \<Rightarrow> json_byte_counter \<Rightarrow> (json_byte_limit_exceeded, json_byte_counter) outcome" where
  "counter_add bytes c =
     (let c' = c\<lparr>jc_written := sat_add (jc_written c) bytes\<rparr>
      in if counter_exceeded c' then Err JsonByteLimitExceeded else Ok c')"

definition json_char_bytes :: "nat \<Rightarrow> nat" where
  "json_char_bytes ch =
     (if ch \<in> {34, 92, 8, 9, 10, 12, 13} then 2
      else if ch \<le> 31 then 6
      else len_utf8 ch)"

fun add_json_chars ::
  "rstr \<Rightarrow> json_byte_counter \<Rightarrow> (json_byte_limit_exceeded, json_byte_counter) outcome" where
  "add_json_chars [] c = Ok c"
| "add_json_chars (ch # s) c =
     (case counter_add (json_char_bytes ch) c of
        Ok c' \<Rightarrow> add_json_chars s c'
      | Err e \<Rightarrow> Err e
      | Panic \<Rightarrow> Panic)"

definition add_json_string ::
  "rstr \<Rightarrow> json_byte_counter \<Rightarrow> (json_byte_limit_exceeded, json_byte_counter) outcome" where
  "add_json_string s c =
     (case counter_add 2 c of
        Ok c' \<Rightarrow> add_json_chars s c'
      | Err e \<Rightarrow> Err e
      | Panic \<Rightarrow> Panic)"

datatype json_byte_frame =
    FrameValue json
  | FrameArray "json list" bool
  | FrameObject "(rstr \<times> json) list" bool

fun json_weight :: "json \<Rightarrow> nat" where
  "json_weight (JArray vs) = 2 + sum_list (map (\<lambda>v. Suc (json_weight v)) vs)"
| "json_weight (JObject kvs) = 2 + sum_list (map (\<lambda>kv. Suc (json_weight (snd kv))) kvs)"
| "json_weight _ = 1"

fun frame_weight :: "json_byte_frame \<Rightarrow> nat" where
  "frame_weight (FrameValue v) = json_weight v"
| "frame_weight (FrameArray vs first) = Suc (sum_list (map (\<lambda>v. Suc (json_weight v)) vs))"
| "frame_weight (FrameObject kvs first) = Suc (sum_list (map (\<lambda>kv. Suc (json_weight (snd kv))) kvs))"

lemma json_weight_pos [simp]: "0 < json_weight v"
  by (cases v) auto

text \<open>One turn of the loop on the popped frame: the frames it pushes (the last pushed first) and the
  counter.\<close>

fun frame_step ::
  "json_byte_frame \<Rightarrow> json_byte_counter
     \<Rightarrow> (json_byte_limit_exceeded, json_byte_frame list \<times> json_byte_counter) outcome" where
  "frame_step (FrameValue JNull) c =
     (case counter_add 4 c of Ok c' \<Rightarrow> Ok ([], c') | Err e \<Rightarrow> Err e | Panic \<Rightarrow> Panic)"
| "frame_step (FrameValue (JBool b)) c =
     (case counter_add (if b then 4 else 5) c of Ok c' \<Rightarrow> Ok ([], c') | Err e \<Rightarrow> Err e | Panic \<Rightarrow> Panic)"
| "frame_step (FrameValue (JNumber n)) c =
     (case counter_add (str_len (jn_text n)) c of Ok c' \<Rightarrow> Ok ([], c') | Err e \<Rightarrow> Err e | Panic \<Rightarrow> Panic)"
| "frame_step (FrameValue (JString s)) c =
     (case add_json_string s c of Ok c' \<Rightarrow> Ok ([], c') | Err e \<Rightarrow> Err e | Panic \<Rightarrow> Panic)"
| "frame_step (FrameValue (JArray vs)) c =
     (case counter_add 1 c of
        Ok c' \<Rightarrow>
          if vs = [] then (case counter_add 1 c' of Ok c'' \<Rightarrow> Ok ([], c'') | Err e \<Rightarrow> Err e | Panic \<Rightarrow> Panic)
          else Ok ([FrameArray vs True], c')
      | Err e \<Rightarrow> Err e
      | Panic \<Rightarrow> Panic)"
| "frame_step (FrameValue (JObject kvs)) c =
     (case counter_add 1 c of
        Ok c' \<Rightarrow>
          if kvs = [] then (case counter_add 1 c' of Ok c'' \<Rightarrow> Ok ([], c'') | Err e \<Rightarrow> Err e | Panic \<Rightarrow> Panic)
          else Ok ([FrameObject kvs True], c')
      | Err e \<Rightarrow> Err e
      | Panic \<Rightarrow> Panic)"
| "frame_step (FrameArray [] first) c =
     (case counter_add 1 c of Ok c' \<Rightarrow> Ok ([], c') | Err e \<Rightarrow> Err e | Panic \<Rightarrow> Panic)"
| "frame_step (FrameArray (v # vs) first) c =
     (case (if first then Ok c else counter_add 1 c) of
        Ok c' \<Rightarrow> Ok ([FrameValue v, FrameArray vs False], c')
      | Err e \<Rightarrow> Err e
      | Panic \<Rightarrow> Panic)"
| "frame_step (FrameObject [] first) c =
     (case counter_add 1 c of Ok c' \<Rightarrow> Ok ([], c') | Err e \<Rightarrow> Err e | Panic \<Rightarrow> Panic)"
| "frame_step (FrameObject ((k, v) # kvs) first) c =
     (case (if first then Ok c else counter_add 1 c) of
        Ok c1 \<Rightarrow>
          (case add_json_string k c1 of
             Ok c2 \<Rightarrow>
               (case counter_add 1 c2 of
                  Ok c3 \<Rightarrow> Ok ([FrameValue v, FrameObject kvs False], c3)
                | Err e \<Rightarrow> Err e
                | Panic \<Rightarrow> Panic)
           | Err e \<Rightarrow> Err e
           | Panic \<Rightarrow> Panic)
      | Err e \<Rightarrow> Err e
      | Panic \<Rightarrow> Panic)"

lemma frame_step_weight:
  "frame_step f c = Ok (fs, c') \<Longrightarrow> sum_list (map frame_weight fs) < frame_weight f"
  by (induction f c rule: frame_step.induct) (auto split: outcome.splits if_splits)

function count_loop ::
  "json_byte_frame list \<Rightarrow> json_byte_counter \<Rightarrow> (json_byte_limit_exceeded, json_byte_counter) outcome" where
  "count_loop [] c = Ok c"
| "count_loop (f # stack) c =
     (case frame_step f c of
        Ok (fs, c') \<Rightarrow> count_loop (fs @ stack) c'
      | Err e \<Rightarrow> Err e
      | Panic \<Rightarrow> Panic)"
  by pat_completeness auto
termination
  by (relation "measure (\<lambda>(fs, c). sum_list (map frame_weight fs))") (auto dest: frame_step_weight)

definition count_value ::
  "json \<Rightarrow> json_byte_counter \<Rightarrow> (json_byte_limit_exceeded, json_byte_counter) outcome" where
  "count_value v c = count_loop [FrameValue v] c"

definition validate_json_bytes_at_most :: "rstr \<Rightarrow> json \<Rightarrow> nat \<Rightarrow> (api_error, unit) outcome" where
  "validate_json_bytes_at_most label v limit =
     (case count_value v (byte_counter_new limit) of
        Ok _ \<Rightarrow> Ok ()
      | Err JsonByteLimitExceeded \<Rightarrow>
          Err (invalid_request (fmt [label, lit '' must serialize to at most '', show_nat limit, lit '' bytes'']))
      | Panic \<Rightarrow> Panic)"

section \<open>The reference: compact JSON text\<close>

definition hex_digit :: "nat \<Rightarrow> nat" where
  "hex_digit d = (if d < 10 then 48 + d else 87 + d)"

definition json_escape :: "nat \<Rightarrow> rstr" where
  "json_escape ch =
     (if ch = 34 then [92, 34]
      else if ch = 92 then [92, 92]
      else if ch = 8 then [92, 98]
      else if ch = 9 then [92, 116]
      else if ch = 10 then [92, 110]
      else if ch = 12 then [92, 102]
      else if ch = 13 then [92, 114]
      else if ch \<le> 31 then [92, 117, 48, 48] @ [hex_digit (ch div 16), hex_digit (ch mod 16)]
      else [ch])"

definition json_quote :: "rstr \<Rightarrow> rstr" where
  "json_quote s = [34] @ concat (map json_escape s) @ [34]"

fun json_compact :: "json \<Rightarrow> rstr"
  and items_text :: "bool \<Rightarrow> json list \<Rightarrow> rstr"
  and members_text :: "bool \<Rightarrow> (rstr \<times> json) list \<Rightarrow> rstr" where
  "json_compact JNull = lit ''null''"
| "json_compact (JBool b) = (if b then lit ''true'' else lit ''false'')"
| "json_compact (JNumber n) = jn_text n"
| "json_compact (JString s) = json_quote s"
| "json_compact (JArray vs) = [91] @ items_text True vs"
| "json_compact (JObject kvs) = [123] @ members_text True kvs"
| "items_text first [] = [93]"
| "items_text first (v # vs) = (if first then [] else [44]) @ json_compact v @ items_text False vs"
| "members_text first [] = [125]"
| "members_text first ((k, v) # kvs) =
     (if first then [] else [44]) @ json_quote k @ [58] @ json_compact v @ members_text False kvs"

section \<open>The counter counts the text\<close>

fun frame_text :: "json_byte_frame \<Rightarrow> rstr" where
  "frame_text (FrameValue v) = json_compact v"
| "frame_text (FrameArray vs first) = items_text first vs"
| "frame_text (FrameObject kvs first) = members_text first kvs"

text \<open>Counting \<open>n\<close> more bytes: the contract that every routine of the counter meets.\<close>

definition counted :: "nat \<Rightarrow> json_byte_counter \<Rightarrow> (json_byte_limit_exceeded, json_byte_counter) outcome" where
  "counted n c =
     (if jc_written c + n \<le> jc_max c then Ok (c\<lparr>jc_written := jc_written c + n\<rparr>)
      else Err JsonByteLimitExceeded)"

named_theorems counting "routines of the byte counter in terms of the bytes they count"

lemma counter_add_counted [counting]:
  "jc_max c < u64_max \<Longrightarrow> counter_add n c = counted n c"
  by (auto simp: counter_add_def counted_def counter_exceeded_def sat_add_def Let_def)

lemma counted_max: "counted n c = Ok c' \<Longrightarrow> jc_max c' = jc_max c"
  by (auto simp: counted_def split: if_splits)

lemma counted_then:
  "(case counted m c of Ok c' \<Rightarrow> counted n c' | Err e \<Rightarrow> Err e | Panic \<Rightarrow> Panic) = counted (m + n) c"
  by (auto simp: counted_def)

lemma counted_zero: "jc_written c \<le> jc_max c \<Longrightarrow> Ok c = counted 0 c"
  by (simp add: counted_def)

lemma json_escape_len: "str_len (json_escape ch) = json_char_bytes ch"
proof (cases "ch \<in> {34, 92, 8, 9, 10, 12, 13}")
  case True
  then show ?thesis by (auto simp: json_escape_def json_char_bytes_def len_utf8_def)
next
  case False
  have hex: "len_utf8 (hex_digit d) = 1" if "d < 16" for d
    using that by (auto simp: hex_digit_def len_utf8_def)
  show ?thesis
  proof (cases "ch \<le> 31")
    case True
    then have "len_utf8 (hex_digit (ch div 16)) = 1" "len_utf8 (hex_digit (ch mod 16)) = 1"
      using hex [of "ch div 16"] hex [of "ch mod 16"] by auto
    with True False show ?thesis
      by (auto simp: json_escape_def json_char_bytes_def) (simp_all add: len_utf8_def)
  next
    case big: False
    with False show ?thesis by (auto simp: json_escape_def json_char_bytes_def)
  qed
qed

lemma json_quote_len: "str_len (json_quote s) = 2 + sum_list (map json_char_bytes s)"
  by (induction s) (simp_all add: json_quote_def json_escape_len len_utf8_def)

lemma add_json_chars_counted:
  "jc_max c < u64_max \<Longrightarrow> jc_written c \<le> jc_max c \<Longrightarrow>
   add_json_chars s c = counted (sum_list (map json_char_bytes s)) c"
  by (induction s arbitrary: c) (auto simp: counting counted_def)

lemma add_json_string_counted [counting]:
  "jc_max c < u64_max \<Longrightarrow> add_json_string s c = counted (str_len (json_quote s)) c"
  by (auto simp: add_json_string_def counting add_json_chars_counted json_quote_len counted_def)

text \<open>A turn of the loop counts what the frame has more than the frames it leaves.\<close>

lemma frame_step_counted:
  assumes "jc_max c < u64_max" and "jc_written c \<le> jc_max c"
  shows "\<exists>fs n. frame_step f c = (case counted n c of Ok c' \<Rightarrow> Ok (fs, c') | Err e \<Rightarrow> Err e | Panic \<Rightarrow> Panic) \<and>
      n + sum_list (map (\<lambda>f. str_len (frame_text f)) fs) = str_len (frame_text f)"
proof (cases "(f, c)" rule: frame_step.cases)
  case (1 c)
  then show ?thesis using assms by (intro exI [of _ "[]"] exI [of _ 4]) (simp add: counting lit_def len_utf8_def)
next
  case (2 b c)
  then show ?thesis using assms
    by (intro exI [of _ "[]"] exI [of _ "if b then 4 else 5"]) (simp add: counting lit_def len_utf8_def)
next
  case (3 n c)
  then show ?thesis using assms by (intro exI [of _ "[]"] exI [of _ "str_len (jn_text n)"]) (simp add: counting)
next
  case (4 s c)
  then show ?thesis using assms by (intro exI [of _ "[]"] exI [of _ "str_len (json_quote s)"]) (simp add: counting)
next
  case (5 vs c)
  then show ?thesis using assms
    by (intro exI [of _ "if vs = [] then [] else [FrameArray vs True]"] exI [of _ "if vs = [] then 2 else 1"])
      (auto simp: counting counted_def len_utf8_def)
next
  case (6 kvs c)
  then show ?thesis using assms
    by (intro exI [of _ "if kvs = [] then [] else [FrameObject kvs True]"] exI [of _ "if kvs = [] then 2 else 1"])
      (auto simp: counting counted_def len_utf8_def)
next
  case (7 first c)
  then show ?thesis using assms by (intro exI [of _ "[]"] exI [of _ 1]) (simp add: counting len_utf8_def)
next
  case (8 v vs first c)
  then show ?thesis using assms
    by (intro exI [of _ "[FrameValue v, FrameArray vs False]"] exI [of _ "if first then 0 else 1"])
      (auto simp: counting counted_def len_utf8_def)
next
  case (9 first c)
  then show ?thesis using assms by (intro exI [of _ "[]"] exI [of _ 1]) (simp add: counting len_utf8_def)
next
  case (10 k v kvs first c)
  then show ?thesis using assms
    by (intro exI [of _ "[FrameValue v, FrameObject kvs False]"]
        exI [of _ "(if first then 0 else 1) + str_len (json_quote k) + 1"])
      (auto simp: counting counted_def len_utf8_def)
qed

lemma count_loop_counted:
  "jc_max c < u64_max \<Longrightarrow> jc_written c \<le> jc_max c \<Longrightarrow>
   count_loop stack c = counted (sum_list (map (\<lambda>f. str_len (frame_text f)) stack)) c"
proof (induction stack c rule: count_loop.induct)
  case (1 c)
  then show ?case by (simp add: counted_def)
next
  case (2 f stack c)
  let ?rest = "sum_list (map (\<lambda>f. str_len (frame_text f)) stack)"
  obtain fs n where step: "frame_step f c = (case counted n c of Ok c' \<Rightarrow> Ok (fs, c') | Err e \<Rightarrow> Err e | Panic \<Rightarrow> Panic)"
    and n: "n + sum_list (map (\<lambda>f. str_len (frame_text f)) fs) = str_len (frame_text f)"
    using frame_step_counted [OF 2(2,3)] by blast
  show ?case
  proof (cases "jc_written c + n \<le> jc_max c")
    case True
    let ?c = "c\<lparr>jc_written := jc_written c + n\<rparr>"
    have ok: "frame_step f c = Ok (fs, ?c)" using True step by (simp add: counted_def)
    have "count_loop (fs @ stack) ?c = counted (sum_list (map (\<lambda>f. str_len (frame_text f)) (fs @ stack))) ?c"
      using 2(1) [OF ok refl] 2(2) True by simp
    also have "\<dots> = counted (n + sum_list (map (\<lambda>f. str_len (frame_text f)) (fs @ stack))) c"
      using True by (simp add: counted_def add.assoc)
    finally show ?thesis using ok by (simp add: n [symmetric] add.assoc)
  next
    case False
    with step n show ?thesis by (auto simp: counted_def)
  qed
qed

section \<open>Property\<close>

text \<open>C11: the streaming byte counter is exact. For every limit below the largest \<open>usize\<close>, a value is
  accepted exactly when its compact JSON text has at most that many bytes, and the counter then
  holds the number of these bytes; otherwise the answer is the limit error, never a panic.\<close>

theorem json_byte_counter_exact:
  assumes "limit < u64_max"
  shows "count_value v (byte_counter_new limit) =
      (if str_len (json_compact v) \<le> limit
       then Ok \<lparr>jc_written = str_len (json_compact v), jc_max = limit\<rparr> else Err JsonByteLimitExceeded) \<and>
    validate_json_bytes_at_most label v limit =
      (if str_len (json_compact v) \<le> limit then Ok ()
       else Err (invalid_request (fmt [label, lit '' must serialize to at most '', show_nat limit, lit '' bytes''])))"
proof -
  have "count_value v (byte_counter_new limit) =
      (if str_len (json_compact v) \<le> limit
       then Ok \<lparr>jc_written = str_len (json_compact v), jc_max = limit\<rparr> else Err JsonByteLimitExceeded)"
    using assms by (simp add: count_value_def byte_counter_new_def count_loop_counted counted_def del: count_loop.simps)
  then show ?thesis by (simp add: validate_json_bytes_at_most_def)
qed

theorem json_byte_counter_exact_witness:
  "count_value (JArray [JNull, JBool False]) (byte_counter_new 11) =
     Err JsonByteLimitExceeded \<and>
   count_value (JArray [JNull, JBool False]) (byte_counter_new 12) = Ok \<lparr>jc_written = 12, jc_max = 12\<rparr>"
proof -
  have small: "(11::nat) < u64_max" "(12::nat) < u64_max" by (simp_all add: u64_max_def)
  have len: "str_len (json_compact (JArray [JNull, JBool False])) = 12" by (simp add: lit_def len_utf8_def)
  show ?thesis
    using json_byte_counter_exact [OF small(1), of "JArray [JNull, JBool False]" "[]"]
      json_byte_counter_exact [OF small(2), of "JArray [JNull, JBool False]" "[]"]
    unfolding len by simp
qed

end
