(* ===== verification/Api_Checks.thy ===== *)
theory Api_Checks
  imports Api_Json_Bytes
begin

text \<open>
  The small checks of crates/llm-api/src/validation/helpers.rs and of
  crates/llm-util/src/sampling.rs: list lengths, byte lengths, blank strings, stop sequences, choice
  counts, penalties and sampling controls. The lemmas say exactly when each of them accepts, and
  that each fails only with one of the two API error codes.
\<close>

section \<open>Sampling controls\<close>

definition DEFAULT_TEMPERATURE :: f32 where "DEFAULT_TEMPERATURE = f32_one"
definition DEFAULT_TOP_P :: f32 where "DEFAULT_TOP_P = f32_one"
definition GREEDY_TEMPERATURE :: f32 where "GREEDY_TEMPERATURE = f32_zero"

datatype sampling_validation_error = InvalidTemperature | InvalidTopP

fun sampling_error_message :: "sampling_validation_error \<Rightarrow> rstr" where
  "sampling_error_message InvalidTemperature = lit ''temperature must be finite and in [0, 2]''"
| "sampling_error_message InvalidTopP = lit ''top_p must be finite and in (0, 1]''"

definition temperature_rejected :: "f32 \<Rightarrow> bool" where
  "temperature_rejected t \<longleftrightarrow> \<not> f32_is_finite t \<or> \<not> (f32_le f32_zero t \<and> f32_le t f32_two)"

definition top_p_rejected :: "f32 \<Rightarrow> bool" where
  "top_p_rejected p \<longleftrightarrow> \<not> f32_is_finite p \<or> f32_le p f32_zero \<or> f32_lt f32_one p"

definition util_validate_sampling_controls ::
  "f32 option \<Rightarrow> f32 option \<Rightarrow> (sampling_validation_error, unit) outcome" where
  "util_validate_sampling_controls temperature top_p =
     (if (case temperature of Some t \<Rightarrow> temperature_rejected t | None \<Rightarrow> False) then Err InvalidTemperature
      else if (case top_p of Some p \<Rightarrow> top_p_rejected p | None \<Rightarrow> False) then Err InvalidTopP
      else Ok ())"

definition validate_sampling_controls :: "f32 option \<Rightarrow> f32 option \<Rightarrow> (api_error, unit) outcome" where
  "validate_sampling_controls temperature top_p =
     (case util_validate_sampling_controls temperature top_p of
        Ok _ \<Rightarrow> Ok ()
      | Err e \<Rightarrow> Err (invalid_request (sampling_error_message e))
      | Panic \<Rightarrow> Panic)"

definition validate_neutral_penalty :: "rstr \<Rightarrow> f32 option \<Rightarrow> (api_error, unit) outcome" where
  "validate_neutral_penalty name v =
     (case v of
        Some p \<Rightarrow>
          if \<not> f32_is_finite p \<or> \<not> f32_eq p f32_zero
          then Err (unsupported_capability (fmt [name, lit '' is not supported yet; use '', name, lit '' 0'']))
          else Ok ()
      | None \<Rightarrow> Ok ())"

definition validate_choice_count :: "nat option \<Rightarrow> (api_error, unit) outcome" where
  "validate_choice_count n =
     (case n of
        None \<Rightarrow> Ok ()
      | Some c \<Rightarrow>
          if c = 0 then Err (invalid_request (lit ''n must be greater than 0''))
          else if c = 1 then Ok ()
          else Err (unsupported_capability (lit ''multiple choices are not supported yet; use n 1'')))"

section \<open>Lengths and strings\<close>

definition validate_len_at_most :: "rstr \<Rightarrow> nat \<Rightarrow> nat \<Rightarrow> (api_error, unit) outcome" where
  "validate_len_at_most label actual limit =
     (if actual > limit
      then Err (invalid_request (fmt [label, lit '' must contain at most '', show_nat limit, lit '' entries'']))
      else Ok ())"

definition validate_string_bytes :: "rstr \<Rightarrow> rstr \<Rightarrow> nat \<Rightarrow> (api_error, unit) outcome" where
  "validate_string_bytes label v limit =
     (if str_len v > limit
      then Err (invalid_request (fmt [label, lit '' must be at most '', show_nat limit, lit '' bytes'']))
      else Ok ())"

definition validate_non_empty_string :: "rstr \<Rightarrow> rstr \<Rightarrow> (api_error, unit) outcome" where
  "validate_non_empty_string label v =
     (if trim v = [] then Err (invalid_request (fmt [label, lit '' must not be empty''])) else Ok ())"

fun stop_values_loop :: "nat \<Rightarrow> rstr list \<Rightarrow> (api_error, unit) outcome" where
  "stop_values_loop index [] = Ok ()"
| "stop_values_loop index (s # stops) =
     checks
       [if s = [] then Err (invalid_request (lit ''stop sequences must not be empty'')) else Ok (),
        validate_string_bytes (fmt [lit ''stop['', show_nat index, lit '']'']) s MAX_STOP_SEQUENCE_BYTES,
        stop_values_loop (Suc index) stops]"

definition validate_stop_sequence_values :: "rstr list \<Rightarrow> (api_error, unit) outcome" where
  "validate_stop_sequence_values stop =
     checks [validate_len_at_most (lit ''stop'') (length stop) MAX_STOP_SEQUENCES, stop_values_loop 0 stop]"

section \<open>When the checks accept\<close>

named_theorems accepts_iff "what a check accepts"

lemma validate_len_at_most_Ok [accepts_iff]:
  "validate_len_at_most label n m = Ok () \<longleftrightarrow> n \<le> m"
  by (simp add: validate_len_at_most_def)

lemma validate_string_bytes_Ok [accepts_iff]:
  "validate_string_bytes label s m = Ok () \<longleftrightarrow> str_len s \<le> m"
  by (simp add: validate_string_bytes_def)

lemma validate_non_empty_string_Ok [accepts_iff]:
  "validate_non_empty_string label s = Ok () \<longleftrightarrow> trim s \<noteq> []"
  by (simp add: validate_non_empty_string_def)

lemma validate_json_bytes_Ok [accepts_iff]:
  assumes "m < u64_max"
  shows "validate_json_bytes_at_most label v m = Ok () \<longleftrightarrow> str_len (json_compact v) \<le> m"
  using assms
  by (simp add: validate_json_bytes_at_most_def count_value_def byte_counter_new_def count_loop_counted
      counted_def del: count_loop.simps)

lemma stop_values_loop_Ok:
  "stop_values_loop i stops = Ok () \<longleftrightarrow>
   list_all (\<lambda>s. s \<noteq> [] \<and> str_len s \<le> MAX_STOP_SEQUENCE_BYTES) stops"
  by (induction i stops rule: stop_values_loop.induct) (auto simp: accepts_iff simp del: checks.simps)

lemma validate_stop_sequence_values_Ok [accepts_iff]:
  "validate_stop_sequence_values stops = Ok () \<longleftrightarrow>
   length stops \<le> MAX_STOP_SEQUENCES \<and>
   list_all (\<lambda>s. s \<noteq> [] \<and> str_len s \<le> MAX_STOP_SEQUENCE_BYTES) stops"
  by (simp add: validate_stop_sequence_values_def accepts_iff stop_values_loop_Ok del: checks.simps)

lemma validate_choice_count_Ok [accepts_iff]: "validate_choice_count n = Ok () \<longleftrightarrow> n = None \<or> n = Some 1"
  by (auto simp: validate_choice_count_def split: option.splits if_splits)

lemma validate_neutral_penalty_Ok [accepts_iff]:
  "validate_neutral_penalty name v = Ok () \<longleftrightarrow> (case v of None \<Rightarrow> True | Some p \<Rightarrow> f32_is_finite p \<and> f32_eq p f32_zero)"
  by (auto simp: validate_neutral_penalty_def split: option.splits)

lemma f32_finite_not_nan: "f32_is_finite w \<Longrightarrow> \<not> f32_is_nan w"
  by (simp add: f32_is_finite_def f32_is_nan_def)

lemma f32_constants [simp]:
  "f32_key f32_zero = 0" "f32_key f32_one = 1065353216" "f32_key f32_two = 1073741824"
  "\<not> f32_is_nan f32_zero" "\<not> f32_is_nan f32_one" "\<not> f32_is_nan f32_two"
  by (simp_all add: f32_key_def f32_magnitude_def f32_is_nan_def f32_zero_def f32_one_def f32_two_def)

lemma temperature_accepted:
  "\<not> temperature_rejected t \<longleftrightarrow> f32_is_finite t \<and> 0 \<le> f32_key t \<and> f32_key t \<le> 1073741824"
  using f32_finite_not_nan by (auto simp: temperature_rejected_def f32_le_def)

lemma top_p_accepted:
  "\<not> top_p_rejected p \<longleftrightarrow> f32_is_finite p \<and> 0 < f32_key p \<and> f32_key p \<le> 1065353216"
  using f32_finite_not_nan by (auto simp: top_p_rejected_def f32_le_def f32_lt_def)

definition sampling_ok :: "f32 option \<Rightarrow> f32 option \<Rightarrow> bool" where
  "sampling_ok temperature top_p \<longleftrightarrow>
     (case temperature of None \<Rightarrow> True | Some t \<Rightarrow> f32_is_finite t \<and> f32_le f32_zero t \<and> f32_le t f32_two) \<and>
     (case top_p of None \<Rightarrow> True | Some p \<Rightarrow> f32_is_finite p \<and> f32_lt f32_zero p \<and> f32_le p f32_one)"

lemma validate_sampling_controls_Ok [accepts_iff]:
  "validate_sampling_controls t p = Ok () \<longleftrightarrow> sampling_ok t p"
  using temperature_accepted top_p_accepted f32_finite_not_nan
  by (auto simp: validate_sampling_controls_def util_validate_sampling_controls_def sampling_ok_def
      f32_le_def f32_lt_def split: option.splits)

section \<open>How the checks fail\<close>

text \<open>A validation failure carries one of the two public codes, so it is reported as HTTP 400.\<close>

definition public_code :: "api_error \<Rightarrow> bool" where
  "public_code e \<longleftrightarrow> ae_code e = lit ''invalid_request'' \<or> ae_code e = lit ''unsupported_capability''"

definition public_failure :: "(api_error, 'a) outcome \<Rightarrow> bool" where
  "public_failure r \<longleftrightarrow>
     (case r of
        Ok _ \<Rightarrow> True
      | Err e \<Rightarrow> public_code e
      | Panic \<Rightarrow> False)"

named_theorems fails_publicly "checks whose failures carry a public error code"

lemma public_failure_simps [simp]:
  "public_failure (Ok a)" "public_failure (Err e) \<longleftrightarrow> public_code e" "\<not> public_failure Panic"
  "public_code (invalid_request m)" "public_code (unsupported_capability m)"
  by (simp_all add: public_failure_def public_code_def invalid_request_def unsupported_capability_def)

lemma checks_public_Cons [fails_publicly]:
  "public_failure c \<Longrightarrow> public_failure (checks cs) \<Longrightarrow> public_failure (checks (c # cs))"
  by (cases c) (simp_all add: public_failure_def)

lemma checks_public_Nil: "public_failure (checks [])"
  by simp

lemma option_check_public:
  "(\<And>v. x = Some v \<Longrightarrow> public_failure (f v)) \<Longrightarrow> public_failure (case x of Some v \<Rightarrow> f v | None \<Rightarrow> Ok ())"
  by (cases x) simp_all

lemma checks_public: "(\<And>c. c \<in> set cs \<Longrightarrow> public_failure c) \<Longrightarrow> public_failure (checks cs)"
  by (induction cs) (simp_all add: checks_public_Cons del: checks.simps(2))

lemma public_400: "public_code e \<Longrightarrow> api_http_status e = 400"
  by (simp add: public_code_def api_http_status_def)

lemma simple_checks_public [fails_publicly]:
  "public_failure (validate_len_at_most label n m)"
  "public_failure (validate_string_bytes label s m)"
  "public_failure (validate_non_empty_string label s)"
  "public_failure (validate_choice_count k)"
  "public_failure (validate_neutral_penalty name p)"
  "public_failure (validate_sampling_controls t q)"
  by (simp_all add: validate_len_at_most_def validate_string_bytes_def validate_non_empty_string_def
      validate_choice_count_def validate_neutral_penalty_def validate_sampling_controls_def
      util_validate_sampling_controls_def split: option.splits)

lemma counter_add_no_panic [simp]: "counter_add n c \<noteq> Panic"
  by (simp add: counter_add_def Let_def)

lemma add_json_chars_no_panic [simp]: "add_json_chars s c \<noteq> Panic"
  by (induction s c rule: add_json_chars.induct) (auto split: outcome.splits)

lemma add_json_string_no_panic [simp]: "add_json_string s c \<noteq> Panic"
  by (auto simp: add_json_string_def split: outcome.splits)

lemma frame_step_no_panic [simp]: "frame_step f c \<noteq> Panic"
  by (induction f c rule: frame_step.induct) (auto split: outcome.splits)

lemma count_loop_no_panic [simp]: "count_loop fs c \<noteq> Panic"
  by (induction fs c rule: count_loop.induct) (auto split: outcome.splits)

lemma json_bytes_public [fails_publicly]: "public_failure (validate_json_bytes_at_most label v m)"
  by (auto simp: validate_json_bytes_at_most_def count_value_def simp del: count_loop.simps
      split: outcome.splits json_byte_limit_exceeded.splits)

lemma stop_values_loop_public: "public_failure (stop_values_loop i stops)"
  by (induction i stops rule: stop_values_loop.induct)
    (auto simp: fails_publicly simp del: checks.simps intro!: checks_public)

lemma stop_values_public [fails_publicly]: "public_failure (validate_stop_sequence_values stops)"
  by (auto simp: validate_stop_sequence_values_def fails_publicly stop_values_loop_public
      simp del: checks.simps intro!: checks_public)

end
