(* ===== verification/Api_Messages.thy ===== *)
theory Api_Messages
  imports Api_Checks
begin

text \<open>
  The conversation checks of crates/llm-api/src/validation/helpers.rs: which fields a message of each
  role may carry, and the order of messages, kept by a loop over the set of tool calls that still
  wait for an answer. The specification is a grammar of conversations (\<open>conversation\<close>): system
  messages, then turns, where an assistant turn with tool calls is followed by one tool message for
  each call, in any order.
\<close>

section \<open>The checks\<close>

definition message_label :: "nat \<Rightarrow> string \<Rightarrow> rstr" where
  "message_label index field = fmt [lit ''messages['', show_nat index, lit '']'', lit field]"

definition reject_tool_call_id_for_non_tool_message :: "nat \<Rightarrow> chat_message \<Rightarrow> (api_error, unit) outcome" where
  "reject_tool_call_id_for_non_tool_message index m =
     (if cm_tool_call_id m \<noteq> None
      then Err (invalid_request (message_label index ''.tool_call_id is only allowed for tool messages''))
      else Ok ())"

definition reject_tool_calls_for_non_assistant_message :: "nat \<Rightarrow> chat_message \<Rightarrow> (api_error, unit) outcome" where
  "reject_tool_calls_for_non_assistant_message index m =
     (if cm_tool_calls m \<noteq> []
      then Err (invalid_request (message_label index ''.tool_calls is only allowed for assistant messages''))
      else Ok ())"

definition validate_chat_message_role_fields :: "nat \<Rightarrow> chat_message \<Rightarrow> rstr \<Rightarrow> (api_error, unit) outcome" where
  "validate_chat_message_role_fields index m content_label =
     (case cm_role m of
        RoleAssistant \<Rightarrow>
          checks
            [if cm_content m = None \<and> cm_tool_calls m = []
             then Err (invalid_request (fmt [content_label,
                    lit '' is required for assistant messages without tool_calls''])) else Ok (),
             reject_tool_call_id_for_non_tool_message index m]
      | RoleTool \<Rightarrow>
          checks
            [if cm_content m = None
             then Err (invalid_request (fmt [content_label, lit '' is required for tool messages''])) else Ok (),
             if cm_tool_call_id m = None
             then Err (invalid_request (message_label index ''.tool_call_id is required for tool messages''))
             else Ok (),
             reject_tool_calls_for_non_assistant_message index m]
      | _ \<Rightarrow>
          checks
            [if cm_content m = None
             then Err (invalid_request (fmt [content_label, lit '' is required for '',
                    role_as_str (cm_role m), lit '' messages''])) else Ok (),
             reject_tool_call_id_for_non_tool_message index m,
             reject_tool_calls_for_non_assistant_message index m])"

record message_order =
  mo_seen_conversation_message :: bool
  mo_pending_tool_call_ids :: "rstr set"
  mo_pending_tool_call_message :: "nat option"

definition message_order_start :: message_order where
  "message_order_start =
     \<lparr>mo_seen_conversation_message = False, mo_pending_tool_call_ids = {}, mo_pending_tool_call_message = None\<rparr>"

definition reject_non_tool_message_while_tool_calls_pending :: "nat \<Rightarrow> message_order \<Rightarrow> (api_error, unit) outcome" where
  "reject_non_tool_message_while_tool_calls_pending index st =
     (if mo_pending_tool_call_ids st \<noteq> {}
      then let pending = (case mo_pending_tool_call_message st of
                            Some p \<Rightarrow> fmt [lit '' from messages['', show_nat p, lit ''].tool_calls'']
                          | None \<Rightarrow> [])
           in Err (invalid_request (fmt [message_label index ''.role must be tool while assistant tool calls'',
                pending, lit '' are pending'']))
      else Ok ())"

fun insert_call_ids ::
  "nat \<Rightarrow> nat \<Rightarrow> tool_call list \<Rightarrow> rstr set \<Rightarrow> (api_error, rstr set) outcome" where
  "insert_call_ids index call_index [] ids = Ok ids"
| "insert_call_ids index call_index (c # cs) ids =
     (if tc_id c \<in> ids
      then Err (invalid_request (fmt [message_label index ''.tool_calls['', show_nat call_index,
             lit ''].id duplicates another tool call id in the same assistant message'']))
      else insert_call_ids index (Suc call_index) cs (insert (tc_id c) ids))"

definition validate_chat_message_order ::
  "nat \<Rightarrow> chat_message \<Rightarrow> message_order \<Rightarrow> (api_error, message_order) outcome" where
  "validate_chat_message_order index m st =
     (case cm_role m of
        RoleSystem \<Rightarrow>
          if mo_seen_conversation_message st
          then Err (invalid_request (message_label index
                 ''.role system messages must appear before user, assistant, or tool messages''))
          else Ok st
      | RoleUser \<Rightarrow>
          (case reject_non_tool_message_while_tool_calls_pending index st of
             Ok _ \<Rightarrow> Ok (st\<lparr>mo_seen_conversation_message := True\<rparr>)
           | Err e \<Rightarrow> Err e
           | Panic \<Rightarrow> Panic)
      | RoleAssistant \<Rightarrow>
          (case reject_non_tool_message_while_tool_calls_pending index st of
             Ok _ \<Rightarrow>
               (case insert_call_ids index 0 (cm_tool_calls m) {} of
                  Ok ids \<Rightarrow>
                    Ok \<lparr>mo_seen_conversation_message = True, mo_pending_tool_call_ids = ids,
                        mo_pending_tool_call_message = (if ids \<noteq> {} then Some index else None)\<rparr>
                | Err e \<Rightarrow> Err e
                | Panic \<Rightarrow> Panic)
           | Err e \<Rightarrow> Err e
           | Panic \<Rightarrow> Panic)
      | RoleTool \<Rightarrow>
          (case cm_tool_call_id m of
             None \<Rightarrow> Err (invalid_request (message_label index ''.tool_call_id is required for tool messages''))
           | Some tool_call_id \<Rightarrow>
               if mo_pending_tool_call_ids st = {}
               then Err (invalid_request (message_label index
                      ''.role tool messages must follow an assistant message with tool_calls''))
               else if tool_call_id \<notin> mo_pending_tool_call_ids st
               then Err (invalid_request (fmt [message_label index ''.tool_call_id `'', tool_call_id,
                      lit ''` does not match a pending assistant tool call'']))
               else let ids = mo_pending_tool_call_ids st - {tool_call_id}
                    in Ok \<lparr>mo_seen_conversation_message = True, mo_pending_tool_call_ids = ids,
                           mo_pending_tool_call_message =
                             (if ids = {} then None else mo_pending_tool_call_message st)\<rparr>))"

fun validate_tool_calls :: "nat \<Rightarrow> nat \<Rightarrow> tool_call list \<Rightarrow> (api_error, unit) outcome" where
  "validate_tool_calls index call_index [] = Ok ()"
| "validate_tool_calls index call_index (c # cs) =
     (let label = (\<lambda>field. fmt [message_label index ''.tool_calls['', show_nat call_index, lit field])
      in checks
        [validate_string_bytes (label ''].id'') (tc_id c) MAX_NAME_BYTES,
         validate_non_empty_string (label ''].function.name'') (tcf_name (tc_function c)),
         validate_string_bytes (label ''].function.name'') (tcf_name (tc_function c)) MAX_NAME_BYTES,
         validate_json_bytes_at_most (label ''].function.arguments'') (tcf_arguments (tc_function c))
           MAX_TOOL_ARGUMENT_BYTES,
         validate_tool_calls index (Suc call_index) cs])"

definition validate_message_sizes :: "nat \<Rightarrow> chat_message \<Rightarrow> request_limits \<Rightarrow> (api_error, unit) outcome" where
  "validate_message_sizes index m limits =
     checks
       [case cm_content m of
          Some content \<Rightarrow>
            validate_string_bytes (message_label index ''.content'') content (rl_message_content_bytes limits)
        | None \<Rightarrow> Ok (),
        case cm_name m of
          Some name \<Rightarrow> validate_string_bytes (message_label index ''.name'') name MAX_NAME_BYTES
        | None \<Rightarrow> Ok (),
        case cm_tool_call_id m of
          Some tool_call_id \<Rightarrow>
            checks
              [if cm_role m = RoleTool
               then validate_non_empty_string (message_label index ''.tool_call_id'') tool_call_id else Ok (),
               validate_string_bytes (message_label index ''.tool_call_id'') tool_call_id MAX_NAME_BYTES]
        | None \<Rightarrow> Ok (),
        validate_len_at_most (message_label index ''.tool_calls'') (length (cm_tool_calls m))
          MAX_TOOL_CALLS_PER_MESSAGE,
        validate_tool_calls index 0 (cm_tool_calls m)]"

fun chat_messages_loop ::
  "request_limits \<Rightarrow> nat \<Rightarrow> chat_message list \<Rightarrow> message_order \<Rightarrow> (api_error, message_order) outcome" where
  "chat_messages_loop limits index [] st = Ok st"
| "chat_messages_loop limits index (m # ms) st =
     (case validate_chat_message_role_fields index m (message_label index ''.content'') of
        Ok _ \<Rightarrow>
          (case validate_chat_message_order index m st of
             Ok st' \<Rightarrow>
               (case validate_message_sizes index m limits of
                  Ok _ \<Rightarrow> chat_messages_loop limits (Suc index) ms st'
                | Err e \<Rightarrow> Err e
                | Panic \<Rightarrow> Panic)
           | Err e \<Rightarrow> Err e
           | Panic \<Rightarrow> Panic)
      | Err e \<Rightarrow> Err e
      | Panic \<Rightarrow> Panic)"

definition validate_chat_messages :: "chat_message list \<Rightarrow> request_limits \<Rightarrow> (api_error, unit) outcome" where
  "validate_chat_messages messages limits =
     (case chat_messages_loop limits 0 messages message_order_start of
        Ok st \<Rightarrow>
          (case mo_pending_tool_call_message st of
             Some index \<Rightarrow>
               Err (invalid_request (message_label index
                 ''.tool_calls must be followed by tool messages for every pending tool call''))
           | None \<Rightarrow> Ok ())
      | Err e \<Rightarrow> Err e
      | Panic \<Rightarrow> Panic)"

section \<open>The grammar of conversations\<close>

abbreviation call_ids :: "chat_message \<Rightarrow> rstr list" where
  "call_ids m \<equiv> map tc_id (cm_tool_calls m)"

text \<open>Tool messages that answer the calls \<open>ids\<close>, each exactly once.\<close>

definition answers :: "rstr set \<Rightarrow> chat_message list \<Rightarrow> bool" where
  "answers ids ts \<longleftrightarrow>
     list_all (\<lambda>t. cm_role t = RoleTool) ts \<and>
     (\<exists>rs. map cm_tool_call_id ts = map Some rs \<and> distinct rs \<and> set rs = ids)"

inductive turn :: "chat_message list \<Rightarrow> bool" where
  user_turn: "cm_role m = RoleUser \<Longrightarrow> turn [m]"
| assistant_turn: "cm_role m = RoleAssistant \<Longrightarrow> distinct (call_ids m) \<Longrightarrow> answers (set (call_ids m)) ts \<Longrightarrow>
    turn (m # ts)"

definition conversation :: "chat_message list \<Rightarrow> bool" where
  "conversation ms \<longleftrightarrow>
     (\<exists>systems turns. ms = systems @ concat turns \<and>
        list_all (\<lambda>m. cm_role m = RoleSystem) systems \<and> list_all turn turns)"

text \<open>What a message of each role must and may carry, and the sizes.\<close>

definition role_fields_ok :: "chat_message \<Rightarrow> bool" where
  "role_fields_ok m \<longleftrightarrow>
     (cm_content m = None \<longrightarrow> cm_role m = RoleAssistant \<and> cm_tool_calls m \<noteq> []) \<and>
     (cm_tool_call_id m \<noteq> None \<longleftrightarrow> cm_role m = RoleTool) \<and>
     (cm_tool_calls m \<noteq> [] \<longrightarrow> cm_role m = RoleAssistant)"

definition tool_call_ok :: "tool_call \<Rightarrow> bool" where
  "tool_call_ok c \<longleftrightarrow>
     str_len (tc_id c) \<le> MAX_NAME_BYTES \<and> trim (tcf_name (tc_function c)) \<noteq> [] \<and>
     str_len (tcf_name (tc_function c)) \<le> MAX_NAME_BYTES \<and>
     str_len (json_compact (tcf_arguments (tc_function c))) \<le> MAX_TOOL_ARGUMENT_BYTES"

definition sizes_ok :: "request_limits \<Rightarrow> chat_message \<Rightarrow> bool" where
  "sizes_ok limits m \<longleftrightarrow>
     (case cm_content m of Some s \<Rightarrow> str_len s \<le> rl_message_content_bytes limits | None \<Rightarrow> True) \<and>
     (case cm_name m of Some s \<Rightarrow> str_len s \<le> MAX_NAME_BYTES | None \<Rightarrow> True) \<and>
     (case cm_tool_call_id m of
        Some s \<Rightarrow> (cm_role m = RoleTool \<longrightarrow> trim s \<noteq> []) \<and> str_len s \<le> MAX_NAME_BYTES | None \<Rightarrow> True) \<and>
     length (cm_tool_calls m) \<le> MAX_TOOL_CALLS_PER_MESSAGE \<and> list_all tool_call_ok (cm_tool_calls m)"

section \<open>The local checks\<close>

lemma limits_below_max [simp]:
  "MAX_TOOL_ARGUMENT_BYTES < u64_max" "MAX_TOOL_SCHEMA_BYTES < u64_max"
  by (simp_all add: MAX_TOOL_ARGUMENT_BYTES_def MAX_TOOL_SCHEMA_BYTES_def u64_max_def)

lemma role_fields_Ok:
  "validate_chat_message_role_fields i m l = Ok () \<longleftrightarrow> role_fields_ok m"
  by (cases "cm_role m")
    (auto simp: validate_chat_message_role_fields_def role_fields_ok_def
      reject_tool_call_id_for_non_tool_message_def reject_tool_calls_for_non_assistant_message_def)

lemma validate_tool_calls_Ok: "validate_tool_calls i j cs = Ok () \<longleftrightarrow> list_all tool_call_ok cs"
  by (induction i j cs rule: validate_tool_calls.induct)
    (auto simp: accepts_iff tool_call_ok_def Let_def simp del: checks.simps)

lemma message_sizes_Ok: "validate_message_sizes i m limits = Ok () \<longleftrightarrow> sizes_ok limits m"
  by (auto simp: validate_message_sizes_def sizes_ok_def accepts_iff validate_tool_calls_Ok
      simp del: checks.simps split: option.splits)

lemma insert_call_ids_Ok:
  "insert_call_ids i j cs ids = Ok ids' \<longleftrightarrow>
   distinct (map tc_id cs) \<and> set (map tc_id cs) \<inter> ids = {} \<and> ids' = ids \<union> set (map tc_id cs)"
  by (induction i j cs ids rule: insert_call_ids.induct) auto

section \<open>The order loop recognises the grammar\<close>

text \<open>What may still follow while the calls \<open>ids\<close> wait for an answer.\<close>

definition turns_after :: "rstr set \<Rightarrow> chat_message list \<Rightarrow> bool" where
  "turns_after ids ms \<longleftrightarrow> (\<exists>ts turns. ms = ts @ concat turns \<and> answers ids ts \<and> list_all turn turns)"

definition order_inv :: "message_order \<Rightarrow> bool" where
  "order_inv st \<longleftrightarrow>
     (mo_pending_tool_call_message st = None \<longleftrightarrow> mo_pending_tool_call_ids st = {}) \<and>
     (mo_pending_tool_call_ids st \<noteq> {} \<longrightarrow> mo_seen_conversation_message st)"

definition continues :: "message_order \<Rightarrow> chat_message list \<Rightarrow> bool" where
  "continues st ms \<longleftrightarrow>
     (if mo_seen_conversation_message st then turns_after (mo_pending_tool_call_ids st) ms else conversation ms)"

lemma turn_not_Nil [simp]: "\<not> turn []"
  by (auto elim: turn.cases)

inductive_cases turn_ConsE: "turn (m # ms)"

lemma answers_empty [simp]: "answers {} ts \<longleftrightarrow> ts = []"
  by (auto simp: answers_def)

lemma answers_Cons:
  "answers ids (t # ts) \<longleftrightarrow>
   cm_role t = RoleTool \<and> (\<exists>r \<in> ids. cm_tool_call_id t = Some r \<and> answers (ids - {r}) ts)"
proof
  assume "answers ids (t # ts)"
  then obtain r rs where "cm_role t = RoleTool" "list_all (\<lambda>t. cm_role t = RoleTool) ts"
    "cm_tool_call_id t = Some r" "map cm_tool_call_id ts = map Some rs" "r \<notin> set rs" "distinct rs"
    "insert r (set rs) = ids"
    by (auto simp: answers_def Cons_eq_map_conv)
  then show "cm_role t = RoleTool \<and> (\<exists>r \<in> ids. cm_tool_call_id t = Some r \<and> answers (ids - {r}) ts)"
    by (auto simp: answers_def intro!: bexI [of _ r] exI [of _ rs])
next
  assume "cm_role t = RoleTool \<and> (\<exists>r \<in> ids. cm_tool_call_id t = Some r \<and> answers (ids - {r}) ts)"
  then obtain r rs where "cm_role t = RoleTool" "r \<in> ids" "cm_tool_call_id t = Some r"
    "list_all (\<lambda>t. cm_role t = RoleTool) ts" "map cm_tool_call_id ts = map Some rs" "distinct rs"
    "set rs = ids - {r}"
    by (auto simp: answers_def)
  then show "answers ids (t # ts)"
    unfolding answers_def by (intro conjI exI [of _ "r # rs"]) auto
qed

lemma answers_Nil [simp]: "answers ids [] \<longleftrightarrow> ids = {}"
  by (auto simp: answers_def)

lemma turns_after_Nil: "turns_after ids [] \<longleftrightarrow> ids = {}"
  by (auto simp: turns_after_def intro!: exI [of _ "[]"])

lemma turns_after_pending:
  assumes "ids \<noteq> {}"
  shows "turns_after ids (m # ms) \<longleftrightarrow>
    cm_role m = RoleTool \<and> (\<exists>r \<in> ids. cm_tool_call_id m = Some r \<and> turns_after (ids - {r}) ms)"
proof
  assume "turns_after ids (m # ms)"
  then obtain ts turns where "m # ms = ts @ concat turns" "answers ids ts" "list_all turn turns"
    by (auto simp: turns_after_def)
  with assms show "cm_role m = RoleTool \<and> (\<exists>r \<in> ids. cm_tool_call_id m = Some r \<and> turns_after (ids - {r}) ms)"
    by (cases ts) (auto simp: answers_Cons turns_after_def)
next
  assume "cm_role m = RoleTool \<and> (\<exists>r \<in> ids. cm_tool_call_id m = Some r \<and> turns_after (ids - {r}) ms)"
  then obtain r ts turns where "cm_role m = RoleTool" "r \<in> ids" "cm_tool_call_id m = Some r"
    "ms = ts @ concat turns" "answers (ids - {r}) ts" "list_all turn turns"
    by (auto simp: turns_after_def)
  then show "turns_after ids (m # ms)"
    unfolding turns_after_def by (intro exI [of _ "m # ts"] exI [of _ turns]) (auto simp: answers_Cons)
qed

lemma turns_after_idle:
  "turns_after {} (m # ms) \<longleftrightarrow>
   cm_role m = RoleUser \<and> turns_after {} ms \<or>
   cm_role m = RoleAssistant \<and> distinct (call_ids m) \<and> turns_after (set (call_ids m)) ms"
proof
  assume "turns_after {} (m # ms)"
  then obtain turns where t: "m # ms = concat turns" "list_all turn turns" by (auto simp: turns_after_def)
  then obtain t turns' where "turns = t # turns'" "turn t" "list_all turn turns'" by (cases turns) auto
  with t obtain ts where ts: "turn (m # ts)" "ms = ts @ concat turns'" "list_all turn turns'"
    by (cases t) auto
  from ts(1) show "cm_role m = RoleUser \<and> turns_after {} ms \<or>
    cm_role m = RoleAssistant \<and> distinct (call_ids m) \<and> turns_after (set (call_ids m)) ms"
    by (rule turn_ConsE) (use ts in \<open>auto simp: turns_after_def\<close>)
next
  assume "cm_role m = RoleUser \<and> turns_after {} ms \<or>
    cm_role m = RoleAssistant \<and> distinct (call_ids m) \<and> turns_after (set (call_ids m)) ms"
  then obtain ts turns where "turn (m # ts)" "ms = ts @ concat turns" "list_all turn turns"
  proof (elim disjE conjE)
    assume "cm_role m = RoleUser" "turns_after {} ms"
    then show ?thesis using that [of "[]"] by (auto simp: turns_after_def intro: user_turn)
  next
    assume "cm_role m = RoleAssistant" "distinct (call_ids m)" "turns_after (set (call_ids m)) ms"
    then show ?thesis using that assistant_turn unfolding turns_after_def by blast
  qed
  then show "turns_after {} (m # ms)"
    unfolding turns_after_def by (intro exI [of _ "[]"] exI [of _ "(m # ts) # turns"]) auto
qed

lemma turns_after_Cons:
  "turns_after ids (m # ms) \<longleftrightarrow>
   (if ids = {}
    then cm_role m = RoleUser \<and> turns_after {} ms \<or>
      cm_role m = RoleAssistant \<and> distinct (call_ids m) \<and> turns_after (set (call_ids m)) ms
    else cm_role m = RoleTool \<and> (\<exists>r \<in> ids. cm_tool_call_id m = Some r \<and> turns_after (ids - {r}) ms))"
  using turns_after_idle [of m ms] turns_after_pending [of ids m ms] by (cases "ids = {}") simp_all

lemma conversation_Nil: "conversation []"
  unfolding conversation_def by (intro exI [of _ "[]"]) simp

lemma conversation_Cons:
  "conversation (m # ms) \<longleftrightarrow>
   (if cm_role m = RoleSystem then conversation ms else turns_after {} (m # ms))"
proof (cases "cm_role m = RoleSystem")
  case True
  show ?thesis
  proof
    assume "conversation (m # ms)"
    then obtain systems turns where c: "m # ms = systems @ concat turns"
      "list_all (\<lambda>m. cm_role m = RoleSystem) systems" "list_all turn turns"
      by (auto simp: conversation_def)
    have "systems \<noteq> []"
    proof
      assume "systems = []"
      with c have "turns_after {} (m # ms)" by (auto simp: turns_after_def)
      with True show False by (simp add: turns_after_idle)
    qed
    with c True show "if cm_role m = RoleSystem then conversation ms else turns_after {} (m # ms)"
      by (cases systems) (auto simp: conversation_def)
  next
    assume "if cm_role m = RoleSystem then conversation ms else turns_after {} (m # ms)"
    with True obtain systems turns where "ms = systems @ concat turns"
      "list_all (\<lambda>m. cm_role m = RoleSystem) systems" "list_all turn turns"
      by (auto simp: conversation_def)
    with True show "conversation (m # ms)"
      unfolding conversation_def by (intro exI [of _ "m # systems"] exI [of _ turns]) simp
  qed
next
  case False
  have "conversation (m # ms) \<longleftrightarrow> turns_after {} (m # ms)"
    unfolding conversation_def turns_after_def answers_empty
  proof (intro iffI; elim exE conjE)
    fix systems turns
    assume "m # ms = systems @ concat turns" "list_all (\<lambda>m. cm_role m = RoleSystem) systems" "list_all turn turns"
    with False show "\<exists>ts turns. m # ms = ts @ concat turns \<and> ts = [] \<and> list_all turn turns"
      by (cases systems) auto
  next
    fix ts turns
    assume "m # ms = ts @ concat turns" "ts = []" "list_all turn turns"
    then show "\<exists>systems turns. m # ms = systems @ concat turns \<and>
      list_all (\<lambda>m. cm_role m = RoleSystem) systems \<and> list_all turn turns"
      by (intro exI [of _ "[]"] exI [of _ turns]) simp
  qed
  with False show ?thesis by simp
qed

text \<open>One message of the order check: it succeeds exactly when the grammar can go on, and leads to the
  state from which the rest must continue.\<close>

lemmas order_unfold = continues_def validate_chat_message_order_def conversation_Cons turns_after_Cons
  order_inv_def reject_non_tool_message_while_tool_calls_pending_def Let_def

lemma order_step:
  assumes "order_inv st"
  shows "continues st (m # ms) \<longleftrightarrow>
    (\<exists>st'. validate_chat_message_order i m st = Ok st' \<and> order_inv st' \<and> continues st' ms)"
proof (cases "cm_role m")
  case RoleAssistant
  show ?thesis
  proof (cases "distinct (call_ids m)")
    case True
    then have "insert_call_ids i 0 (cm_tool_calls m) {} = Ok (set (call_ids m))"
      by (simp add: insert_call_ids_Ok)
    with RoleAssistant True assms show ?thesis by (auto simp: order_unfold)
  next
    case False
    then have "insert_call_ids i 0 (cm_tool_calls m) {} \<noteq> Ok ids" for ids
      by (simp add: insert_call_ids_Ok)
    with RoleAssistant False assms show ?thesis
      by (auto simp: order_unfold split: outcome.splits)
  qed
next
  case RoleSystem
  show ?thesis
  proof (cases "mo_seen_conversation_message st")
    case True
    with RoleSystem show ?thesis by (simp add: order_unfold)
  next
    case False
    with RoleSystem assms show ?thesis by (simp add: order_unfold)
  qed
next
  case RoleUser
  show ?thesis
  proof (cases "mo_pending_tool_call_ids st = {}")
    case True
    with RoleUser assms show ?thesis by (simp add: order_unfold)
  next
    case False
    with RoleUser assms show ?thesis by (simp add: order_unfold)
  qed
next
  case RoleTool
  show ?thesis
  proof (cases "mo_pending_tool_call_ids st = {}")
    case True
    with RoleTool assms show ?thesis by (simp add: order_unfold split: option.split)
  next
    case pending: False
    then have seen: "mo_seen_conversation_message st" using assms by (simp add: order_inv_def)
    show ?thesis
    proof (cases "cm_tool_call_id m")
      case None
      with RoleTool pending seen show ?thesis by (simp add: order_unfold)
    next
      case (Some r)
      have pm: "mo_pending_tool_call_message st \<noteq> None" using assms pending by (simp add: order_inv_def)
      show ?thesis
      proof (cases "r \<in> mo_pending_tool_call_ids st")
        case True
        with RoleTool pending seen Some pm show ?thesis by (simp add: order_unfold)
      next
        case False
        with RoleTool pending seen Some show ?thesis by (simp add: order_unfold)
      qed
    qed
  qed
qed

lemma order_step_Ok:
  "order_inv st \<Longrightarrow> validate_chat_message_order i m st = Ok st' \<Longrightarrow> order_inv st'"
  by (cases "cm_role m")
    (auto simp: order_inv_def validate_chat_message_order_def Let_def
      reject_non_tool_message_while_tool_calls_pending_def split: if_splits option.splits outcome.splits)

lemma chat_messages_loop_Ok:
  assumes "order_inv st"
  shows "(\<exists>st'. chat_messages_loop limits i ms st = Ok st' \<and> mo_pending_tool_call_message st' = None) \<longleftrightarrow>
    continues st ms \<and> list_all role_fields_ok ms \<and> list_all (sizes_ok limits) ms"
  using assms
proof (induction limits i ms st rule: chat_messages_loop.induct)
  case (1 limits index st)
  then show ?case by (auto simp: continues_def turns_after_Nil conversation_Nil order_inv_def)
next
  case (2 limits index m ms st)
  let ?fields = "validate_chat_message_role_fields index m (message_label index ''.content'')"
  let ?sizes = "validate_message_sizes index m limits"
  show ?case
  proof (cases "?fields = Ok () \<and> ?sizes = Ok ()")
    case True
    show ?thesis
    proof (cases "validate_chat_message_order index m st")
      case (Ok st')
      have inv: "order_inv st'" using order_step_Ok [OF 2(2) Ok] .
      have loop: "chat_messages_loop limits index (m # ms) st = chat_messages_loop limits (Suc index) ms st'"
        using True Ok by simp
      have local: "role_fields_ok m" "sizes_ok limits m"
        using True by (simp_all add: role_fields_Ok message_sizes_Ok)
      show ?thesis
        unfolding loop using 2(1) [OF _ Ok, of "()" "()"] True inv order_step [OF 2(2), of m ms index] Ok local
        by simp
    next
      case (Err e)
      with True order_step [OF 2(2), of m ms index] show ?thesis by simp
    next
      case Panic
      with True order_step [OF 2(2), of m ms index] show ?thesis by simp
    qed
  next
    case False
    then have "\<not> (role_fields_ok m \<and> sizes_ok limits m)" by (simp add: role_fields_Ok message_sizes_Ok)
    moreover from False have "chat_messages_loop limits index (m # ms) st \<noteq> Ok st'" for st'
      by (auto split: outcome.splits)
    ultimately show ?thesis by auto
  qed
qed

lemma validate_chat_messages_Ok [accepts_iff]:
  "validate_chat_messages ms limits = Ok () \<longleftrightarrow>
   conversation ms \<and> list_all role_fields_ok ms \<and> list_all (sizes_ok limits) ms"
proof -
  have inv: "order_inv message_order_start" by (simp add: order_inv_def message_order_start_def)
  have "validate_chat_messages ms limits = Ok () \<longleftrightarrow>
    (\<exists>st'. chat_messages_loop limits 0 ms message_order_start = Ok st' \<and> mo_pending_tool_call_message st' = None)"
    by (auto simp: validate_chat_messages_def split: outcome.splits option.splits)
  also have "\<dots> \<longleftrightarrow> continues message_order_start ms \<and> list_all role_fields_ok ms \<and> list_all (sizes_ok limits) ms"
    by (rule chat_messages_loop_Ok [OF inv])
  finally show ?thesis by (simp add: continues_def message_order_start_def)
qed

section \<open>How the conversation checks fail\<close>

lemma role_fields_public [fails_publicly]: "public_failure (validate_chat_message_role_fields i m l)"
  by (cases "cm_role m")
    (auto simp: validate_chat_message_role_fields_def reject_tool_call_id_for_non_tool_message_def
      reject_tool_calls_for_non_assistant_message_def simp del: checks.simps intro!: checks_public)

lemma insert_call_ids_public: "public_failure (insert_call_ids i j cs ids)"
  by (induction i j cs ids rule: insert_call_ids.induct) auto

lemma message_order_public: "public_failure (validate_chat_message_order i m st)"
  using insert_call_ids_public [of i 0 "cm_tool_calls m" "{}"]
  by (auto simp: validate_chat_message_order_def reject_non_tool_message_while_tool_calls_pending_def Let_def
      split: chat_role.splits option.splits outcome.splits)

lemma validate_tool_calls_public: "public_failure (validate_tool_calls i j cs)"
  by (induction i j cs rule: validate_tool_calls.induct)
    (auto simp: fails_publicly Let_def simp del: checks.simps intro!: checks_public)

lemma message_sizes_public: "public_failure (validate_message_sizes i m limits)"
  by (auto simp: validate_message_sizes_def fails_publicly validate_tool_calls_public
      simp del: checks.simps intro!: checks_public split: option.splits)

lemma chat_messages_loop_public: "public_failure (chat_messages_loop limits i ms st)"
proof (induction limits i ms st rule: chat_messages_loop.induct)
  case (2 limits index m ms st)
  then show ?case
    using role_fields_public [of index m "message_label index ''.content''"]
      message_order_public [of index m st] message_sizes_public [of index m limits]
    by (auto split: outcome.splits)
qed simp

lemma chat_messages_public [fails_publicly]: "public_failure (validate_chat_messages ms limits)"
  using chat_messages_loop_public [of limits 0 ms message_order_start]
  by (auto simp: validate_chat_messages_def split: outcome.splits option.splits)

section \<open>Property\<close>

text \<open>C25: the message validator recognises exactly the well-formed conversations. A list of messages
  is accepted if and only if it consists of system messages followed by turns, where every assistant
  turn with tool calls has distinct call ids and is followed by exactly one tool message for each of
  them, in some order; every message carries the fields of its role; and every size is within its
  limit.\<close>

theorem validate_chat_messages_spec:
  "validate_chat_messages ms limits = Ok () \<longleftrightarrow>
   conversation ms \<and> list_all role_fields_ok ms \<and> list_all (sizes_ok limits) ms"
  by (rule validate_chat_messages_Ok)

end
