(* ===== verification/Api_Schema.thy ===== *)
theory Api_Schema
  imports Api_Checks
begin

text \<open>
  The tool schema checks of crates/llm-api/src/validation/helpers.rs: a recursive walk over the
  \<open>properties\<close> and \<open>items\<close> of a JSON schema that bounds its depth and the size of its enumerations.
  The specification speaks of the subschemas of a value, each at its depth (\<open>subschema\<close>), and of what
  a single schema object must satisfy (\<open>schema_node_ok\<close>).
\<close>

section \<open>The checks\<close>

definition SUPPORTED_JSON_SCHEMA_TYPES :: "rstr list" where
  "SUPPORTED_JSON_SCHEMA_TYPES =
     [lit ''array'', lit ''boolean'', lit ''integer'', lit ''null'', lit ''number'', lit ''object'', lit ''string'']"

definition validate_schema_type_name :: "rstr \<Rightarrow> rstr \<Rightarrow> (api_error, unit) outcome" where
  "validate_schema_type_name label type_name =
     (if type_name \<in> set SUPPORTED_JSON_SCHEMA_TYPES then Ok ()
      else Err (invalid_request (fmt [label, lit '' has unsupported JSON Schema type `'', type_name,
             lit ''`; supported types: array, boolean, integer, null, number, object, string''])))"

fun schema_types_loop :: "rstr \<Rightarrow> nat \<Rightarrow> json list \<Rightarrow> (api_error, unit) outcome" where
  "schema_types_loop label index [] = Ok ()"
| "schema_types_loop label index (ty # tys) =
     (case as_str ty of
        None \<Rightarrow> Err (invalid_request (fmt [label, lit ''.type must be a string or array of strings'']))
      | Some type_name \<Rightarrow>
          checks
            [validate_schema_type_name (fmt [label, lit ''.type['', show_nat index, lit '']'']) type_name,
             schema_types_loop label (Suc index) tys])"

definition validate_schema_type :: "rstr \<Rightarrow> json \<Rightarrow> (api_error, unit) outcome" where
  "validate_schema_type label schema_type =
     (case schema_type of
        JString type_name \<Rightarrow> validate_schema_type_name (fmt [label, lit ''.type'']) type_name
      | JArray types \<Rightarrow>
          if types = []
          then Err (invalid_request (fmt [label, lit ''.type must contain at least one JSON Schema type'']))
          else schema_types_loop label 0 types
      | _ \<Rightarrow> Err (invalid_request (fmt [label, lit ''.type must be a string or array of strings''])))"

definition validate_schema_required :: "rstr \<Rightarrow> json \<Rightarrow> (api_error, unit) outcome" where
  "validate_schema_required label required =
     (case as_array required of
        None \<Rightarrow> Err (invalid_request (fmt [label, lit ''.required must be an array of strings'']))
      | Some items \<Rightarrow>
          if list_all is_jstring items then Ok ()
          else Err (invalid_request (fmt [label, lit ''.required must contain only strings''])))"

definition validate_schema_enum :: "rstr \<Rightarrow> nat \<Rightarrow> json \<Rightarrow> (api_error, unit) outcome" where
  "validate_schema_enum label max_enum_values enum_values =
     (case as_array enum_values of
        None \<Rightarrow> Err (invalid_request (fmt [label, lit ''.enum must be an array'']))
      | Some values \<Rightarrow>
          if length values > max_enum_values
          then Err (invalid_request (fmt [label, lit ''.enum size '', show_nat (length values),
                 lit '' exceeds maximum '', show_nat max_enum_values]))
          else Ok ())"

abbreviation members_weight :: "(rstr \<times> json) list \<Rightarrow> nat" where
  "members_weight kvs \<equiv> sum_list (map (\<lambda>kv. Suc (json_weight (snd kv))) kvs)"

lemma member_weight: "obj_get kvs k = Some v \<Longrightarrow> json_weight v < members_weight kvs"
  by (induction kvs) (auto split: if_splits)

lemma as_object_weight: "as_object v = Some kvs \<Longrightarrow> members_weight kvs < json_weight v"
  by (cases v) auto

lemma object_member_weight:
  "obj_get kvs k = Some v \<Longrightarrow> as_object v = Some kvs' \<Longrightarrow> members_weight kvs' < members_weight kvs"
  using member_weight as_object_weight less_trans by blast

function validate_schema_object ::
  "rstr \<Rightarrow> (rstr \<times> json) list \<Rightarrow> nat \<Rightarrow> nat \<Rightarrow> nat \<Rightarrow> (api_error, unit) outcome"
  and schema_properties_loop ::
  "rstr \<Rightarrow> (rstr \<times> json) list \<Rightarrow> nat \<Rightarrow> nat \<Rightarrow> nat \<Rightarrow> (api_error, unit) outcome"
  and validate_nested_schema_object ::
  "rstr \<Rightarrow> json \<Rightarrow> nat \<Rightarrow> nat \<Rightarrow> nat \<Rightarrow> (api_error, unit) outcome" where
  "validate_schema_object label schema depth max_depth max_enum_values =
     (if depth > max_depth
      then Err (invalid_request (fmt [label, lit '' schema depth '', show_nat depth,
             lit '' exceeds maximum '', show_nat max_depth]))
      else checks
        [case obj_get schema (lit ''type'') of
           Some schema_type \<Rightarrow> validate_schema_type label schema_type
         | None \<Rightarrow> Ok (),
         case obj_get schema (lit ''required'') of
           Some required \<Rightarrow> validate_schema_required label required
         | None \<Rightarrow> Ok (),
         case obj_get schema (lit ''enum'') of
           Some enum_values \<Rightarrow> validate_schema_enum label max_enum_values enum_values
         | None \<Rightarrow> Ok (),
         case obj_get schema (lit ''properties'') of
           Some properties \<Rightarrow>
             (case as_object properties of
                None \<Rightarrow> Err (invalid_request (fmt [label, lit ''.properties must be a JSON object'']))
              | Some properties \<Rightarrow>
                  schema_properties_loop label properties (sat_add depth 1) max_depth max_enum_values)
         | None \<Rightarrow> Ok (),
         case obj_get schema (lit ''items'') of
           Some items \<Rightarrow>
             validate_nested_schema_object (fmt [label, lit ''.items'']) items (sat_add depth 1) max_depth
               max_enum_values
         | None \<Rightarrow> Ok ()])"
| "schema_properties_loop label [] depth max_depth max_enum_values = Ok ()"
| "schema_properties_loop label ((name, property_schema) # rest) depth max_depth max_enum_values =
     checks
       [validate_nested_schema_object (fmt [label, lit ''.properties.'', name]) property_schema depth max_depth
          max_enum_values,
        schema_properties_loop label rest depth max_depth max_enum_values]"
| "validate_nested_schema_object label v depth max_depth max_enum_values =
     (case as_object v of
        None \<Rightarrow> Err (invalid_request (fmt [label, lit '' must be a JSON object'']))
      | Some schema \<Rightarrow> validate_schema_object label schema depth max_depth max_enum_values)"
  by pat_completeness auto
termination
  by (relation "measure (\<lambda>c. case c of
      Inl (_, kvs, _, _, _) \<Rightarrow> Suc (members_weight kvs)
    | Inr (Inl (_, kvs, _, _, _)) \<Rightarrow> Suc (members_weight kvs)
    | Inr (Inr (_, v, _, _, _)) \<Rightarrow> Suc (json_weight v))")
    (auto dest: member_weight object_member_weight as_object_weight)

declare validate_schema_object.simps [simp del] schema_properties_loop.simps [simp del]
  validate_nested_schema_object.simps [simp del]

definition validate_tool_schema_shape :: "rstr \<Rightarrow> json \<Rightarrow> nat \<Rightarrow> nat \<Rightarrow> (api_error, unit) outcome" where
  "validate_tool_schema_shape label v max_depth max_enum_values =
     (case as_object v of
        None \<Rightarrow> Err (invalid_request (fmt [label, lit '' must be a JSON object'']))
      | Some schema \<Rightarrow> validate_schema_object label schema 0 max_depth max_enum_values)"

section \<open>Subschemas\<close>

inductive subschema :: "json \<Rightarrow> nat \<Rightarrow> json \<Rightarrow> bool" where
  sub_self: "subschema v 0 v"
| sub_property: "obj_get kvs (lit ''properties'') = Some (JObject props) \<Longrightarrow> (name, w) \<in> set props \<Longrightarrow>
    subschema w d s \<Longrightarrow> subschema (JObject kvs) (Suc d) s"
| sub_items: "obj_get kvs (lit ''items'') = Some w \<Longrightarrow> subschema w d s \<Longrightarrow> subschema (JObject kvs) (Suc d) s"

fun type_ok :: "json \<Rightarrow> bool" where
  "type_ok (JString t) \<longleftrightarrow> t \<in> set SUPPORTED_JSON_SCHEMA_TYPES"
| "type_ok (JArray ts) \<longleftrightarrow> ts \<noteq> [] \<and> (\<forall>t \<in> set ts. \<exists>s \<in> set SUPPORTED_JSON_SCHEMA_TYPES. t = JString s)"
| "type_ok _ \<longleftrightarrow> False"

text \<open>Every member that is present has its required form.\<close>

definition member_ok :: "(rstr \<times> json) list \<Rightarrow> string \<Rightarrow> (json \<Rightarrow> bool) \<Rightarrow> bool" where
  "member_ok kvs k P \<longleftrightarrow> (\<forall>v. obj_get kvs (lit k) = Some v \<longrightarrow> P v)"

definition schema_node_ok :: "nat \<Rightarrow> json \<Rightarrow> bool" where
  "schema_node_ok max_enum_values s \<longleftrightarrow>
     (\<exists>kvs. s = JObject kvs \<and>
        member_ok kvs ''type'' type_ok \<and>
        member_ok kvs ''required'' (\<lambda>v. \<exists>names. v = JArray (map JString names)) \<and>
        member_ok kvs ''enum'' (\<lambda>v. \<exists>vs. v = JArray vs \<and> length vs \<le> max_enum_values) \<and>
        member_ok kvs ''properties'' (\<lambda>v. \<exists>props. v = JObject props))"

section \<open>The walk checks every subschema\<close>

lemma schema_types_loop_Ok:
  "schema_types_loop label i ts = Ok () \<longleftrightarrow> (\<forall>t \<in> set ts. \<exists>s \<in> set SUPPORTED_JSON_SCHEMA_TYPES. t = JString s)"
proof (induction label i ts rule: schema_types_loop.induct)
  case (2 label i t ts)
  then show ?case by (cases t) (auto simp: validate_schema_type_name_def simp del: checks.simps)
qed simp

lemma schema_type_Ok: "validate_schema_type label t = Ok () \<longleftrightarrow> type_ok t"
  by (cases t) (auto simp: validate_schema_type_def validate_schema_type_name_def schema_types_loop_Ok)

lemma list_all_is_jstring: "list_all is_jstring vs \<longleftrightarrow> (\<exists>names. vs = map JString names)"
proof (induction vs)
  case (Cons v vs)
  then show ?case by (cases v) (auto simp: Cons_eq_map_conv intro: exI)
qed simp

lemma schema_required_Ok:
  "validate_schema_required label v = Ok () \<longleftrightarrow> (\<exists>names. v = JArray (map JString names))"
  by (cases v) (auto simp: validate_schema_required_def list_all_is_jstring)

lemma schema_enum_Ok:
  "validate_schema_enum label m v = Ok () \<longleftrightarrow> (\<exists>vs. v = JArray vs \<and> length vs \<le> m)"
  by (cases v) (auto simp: validate_schema_enum_def)

definition all_sub_ok :: "nat \<Rightarrow> nat \<Rightarrow> nat \<Rightarrow> json \<Rightarrow> bool" where
  "all_sub_ok depth max_depth max_enum_values v \<longleftrightarrow>
     (\<forall>d s. subschema v d s \<longrightarrow> depth + d \<le> max_depth \<and> schema_node_ok max_enum_values s)"

inductive_simps subschema_object: "subschema (JObject kvs) d s"
inductive_simps subschema_zero: "subschema v 0 s"

lemma subschema_self_only: "as_object v = None \<Longrightarrow> subschema v d s \<longleftrightarrow> d = 0 \<and> s = v"
  by (auto elim: subschema.cases intro: sub_self)

lemma all_sub_ok_node: "all_sub_ok d md me v \<Longrightarrow> d \<le> md \<and> schema_node_ok me v"
  using sub_self [of v] by (force simp: all_sub_ok_def)

lemma all_sub_ok_object:
  "all_sub_ok d md me (JObject kvs) \<longleftrightarrow>
   d \<le> md \<and> schema_node_ok me (JObject kvs) \<and>
   (\<forall>props. obj_get kvs (lit ''properties'') = Some (JObject props) \<longrightarrow>
      (\<forall>(name, w) \<in> set props. all_sub_ok (Suc d) md me w)) \<and>
   (\<forall>w. obj_get kvs (lit ''items'') = Some w \<longrightarrow> all_sub_ok (Suc d) md me w)"
  (is "?L \<longleftrightarrow> ?R")
proof
  assume L: ?L
  have "all_sub_ok (Suc d) md me w" if "\<And>e s. subschema w e s \<Longrightarrow> subschema (JObject kvs) (Suc e) s" for w
    unfolding all_sub_ok_def using L that by (fastforce simp: all_sub_ok_def)
  with all_sub_ok_node [OF L] show ?R by (auto intro: sub_property sub_items)
next
  assume R: ?R
  show ?L
    unfolding all_sub_ok_def
  proof (intro allI impI)
    fix e s
    assume "subschema (JObject kvs) e s"
    then show "d + e \<le> md \<and> schema_node_ok me s"
      unfolding subschema_object using R by (fastforce simp: all_sub_ok_def)
  qed
qed

lemma schema_walk_Ok:
  "max_depth < u64_max \<Longrightarrow> depth \<le> u64_max \<Longrightarrow>
   validate_schema_object label schema depth max_depth max_enum = Ok () \<longleftrightarrow>
   all_sub_ok depth max_depth max_enum (JObject schema)"
  "max_depth < u64_max \<Longrightarrow> depth \<le> u64_max \<Longrightarrow>
   schema_properties_loop label props depth max_depth max_enum = Ok () \<longleftrightarrow>
   (\<forall>(name, w) \<in> set props. all_sub_ok depth max_depth max_enum w)"
  "max_depth < u64_max \<Longrightarrow> depth \<le> u64_max \<Longrightarrow>
   validate_nested_schema_object label v depth max_depth max_enum = Ok () \<longleftrightarrow>
   all_sub_ok depth max_depth max_enum v"
proof (induction label schema depth max_depth max_enum and label props depth max_depth max_enum
    and label v depth max_depth max_enum
    rule: validate_schema_object_schema_properties_loop_validate_nested_schema_object.induct)
  case (1 label schema depth max_depth max_enum)
  show ?case
  proof (cases "depth \<le> max_depth")
    case True
    then have next_depth: "sat_add depth 1 = Suc depth" "sat_add depth (Suc 0) = Suc depth"
      using 1(3) by (simp_all add: sat_add_def)
    have props: "schema_properties_loop label ps (Suc depth) max_depth max_enum = Ok () \<longleftrightarrow>
      (\<forall>(name, w) \<in> set ps. all_sub_ok (Suc depth) max_depth max_enum w)"
      if "obj_get schema (lit ''properties'') = Some (JObject ps)" for ps
      using 1(1) [of "JObject ps" ps] that True 1(3) by (simp add: next_depth)
    have items: "validate_nested_schema_object (fmt [label, lit ''.items'']) w (Suc depth) max_depth max_enum = Ok () \<longleftrightarrow>
      all_sub_ok (Suc depth) max_depth max_enum w"
      if "obj_get schema (lit ''items'') = Some w" for w
      using 1(2) [of w] that True 1(3) by (simp add: next_depth)
    have "(case obj_get schema (lit ''properties'') of None \<Rightarrow> Ok ()
        | Some p \<Rightarrow> (case as_object p of
             None \<Rightarrow> Err (invalid_request (fmt [label, lit ''.properties must be a JSON object'']))
           | Some ps \<Rightarrow> schema_properties_loop label ps (Suc depth) max_depth max_enum)) = Ok () \<longleftrightarrow>
      member_ok schema ''properties'' (\<lambda>v. \<exists>props. v = JObject props) \<and>
      (\<forall>ps. obj_get schema (lit ''properties'') = Some (JObject ps) \<longrightarrow>
        (\<forall>(name, w) \<in> set ps. all_sub_ok (Suc depth) max_depth max_enum w))"
    proof (cases "obj_get schema (lit ''properties'')")
      case (Some p)
      with props show ?thesis by (cases p) (simp_all add: member_ok_def)
    qed (simp add: member_ok_def)
    with True items show ?thesis
      unfolding validate_schema_object.simps [of label schema] all_sub_ok_object next_depth
      by (simp add: schema_node_ok_def member_ok_def schema_type_Ok schema_required_Ok schema_enum_Ok
          del: checks.simps split: option.split)
  next
    case False
    then show ?thesis by (auto simp: validate_schema_object.simps [of label schema] all_sub_ok_object)
  qed
next
  case (2 label depth max_depth max_enum)
  then show ?case by (simp add: schema_properties_loop.simps)
next
  case (3 label name w rest depth max_depth max_enum)
  then show ?case by (simp add: schema_properties_loop.simps del: checks.simps)
next
  case (4 label v depth max_depth max_enum)
  show ?case
  proof (cases v)
    case (JObject kvs)
    with 4 show ?thesis by (simp add: validate_nested_schema_object.simps)
  qed (auto simp: validate_nested_schema_object.simps schema_node_ok_def dest!: all_sub_ok_node)
qed

lemma validate_tool_schema_shape_Ok [accepts_iff]:
  "max_depth < u64_max \<Longrightarrow>
   validate_tool_schema_shape label v max_depth max_enum = Ok () \<longleftrightarrow> all_sub_ok 0 max_depth max_enum v"
  using schema_walk_Ok(1) [of max_depth 0]
  by (cases v) (auto simp: validate_tool_schema_shape_def schema_node_ok_def dest!: all_sub_ok_node)

lemma schema_type_public: "public_failure (validate_schema_type label t)"
proof -
  have "public_failure (schema_types_loop label i ts)" for i ts
    by (induction label i ts rule: schema_types_loop.induct)
      (auto simp: validate_schema_type_name_def simp del: checks.simps intro!: checks_public split: option.split)
  then show ?thesis by (cases t) (auto simp: validate_schema_type_def validate_schema_type_name_def)
qed

lemma schema_required_enum_public:
  "public_failure (validate_schema_required label v)" "public_failure (validate_schema_enum label m v)"
  by (simp_all add: validate_schema_required_def validate_schema_enum_def split: option.split)

lemma schema_walk_public:
  "public_failure (validate_schema_object label schema depth max_depth max_enum)"
  "public_failure (schema_properties_loop label props depth max_depth max_enum)"
  "public_failure (validate_nested_schema_object label v depth max_depth max_enum)"
proof (induction label schema depth max_depth max_enum and label props depth max_depth max_enum
    and label v depth max_depth max_enum
    rule: validate_schema_object_schema_properties_loop_validate_nested_schema_object.induct)
  case (1 label schema depth max_depth max_enum)
  show ?case
  proof (cases "depth > max_depth")
    case True
    then show ?thesis by (simp add: validate_schema_object.simps [of label schema])
  next
    case False
    have "public_failure (case as_object p of
        None \<Rightarrow> Err (invalid_request (fmt [label, lit ''.properties must be a JSON object'']))
      | Some ps \<Rightarrow> schema_properties_loop label ps (sat_add depth 1) max_depth max_enum)"
      if "obj_get schema (lit ''properties'') = Some p" for p
      using 1(1) [OF False that] by (cases "as_object p") simp_all
    with 1(2) [OF False] show ?thesis
      unfolding validate_schema_object.simps [of label schema] if_not_P [OF False]
      by (intro checks_public_Cons checks_public_Nil option_check_public)
        (simp_all add: schema_type_public schema_required_enum_public)
  qed
next
  case (2 label depth max_depth max_enum)
  then show ?case by (simp add: schema_properties_loop.simps)
next
  case (3 label name w rest depth max_depth max_enum)
  then show ?case
    unfolding schema_properties_loop.simps by (intro checks_public_Cons checks_public_Nil)
next
  case (4 label v depth max_depth max_enum)
  then show ?case by (cases "as_object v") (simp_all add: validate_nested_schema_object.simps)
qed

lemma tool_schema_shape_public [fails_publicly]: "public_failure (validate_tool_schema_shape label v d e)"
  by (auto simp: validate_tool_schema_shape_def schema_walk_public split: option.split)

section \<open>Property\<close>

text \<open>C35: the schema walk accepts a tool schema exactly when every subschema reachable through
  \<open>properties\<close> and \<open>items\<close> is at most \<open>max_depth\<close> levels deep and is an object whose \<open>type\<close>, \<open>required\<close>,
  \<open>enum\<close> and \<open>properties\<close> members, where present, have the supported form.\<close>

theorem tool_schema_shape_spec:
  assumes "max_depth < u64_max"
  shows "validate_tool_schema_shape label v max_depth max_enum = Ok () \<longleftrightarrow>
    (\<forall>d s. subschema v d s \<longrightarrow> d \<le> max_depth \<and> schema_node_ok max_enum s)"
  using validate_tool_schema_shape_Ok [OF assms] by (simp add: all_sub_ok_def)

theorem tool_schema_shape_spec_witness:
  "\<not> (\<forall>d s. subschema (JObject [(lit ''items'', JNull)]) d s \<longrightarrow> d \<le> 16 \<and> schema_node_ok 256 s)"
proof -
  have "16 < u64_max" by (simp add: u64_max_def)
  moreover have "validate_tool_schema_shape [] (JObject [(lit ''items'', JNull)]) 16 256 \<noteq> Ok ()"
    by (simp add: validate_tool_schema_shape_def validate_schema_object.simps
        validate_nested_schema_object.simps lit_def)
  ultimately show ?thesis
    using tool_schema_shape_spec [of 16 "[]" "JObject [(lit ''items'', JNull)]" 256] by simp
qed

end
