(* ===== verification/Api_Validation.thy ===== *)
theory Api_Validation
  imports Api_Messages Api_Schema
begin

text \<open>
  Request validation, crates/llm-api/src/validation.rs: the two \<open>ValidateRequest\<close> implementations, the
  tool declarations and the tool choice. Validation is the gate in front of prompt rendering; the
  properties say what a request that passed it satisfies and how a request that did not is answered.
\<close>

section \<open>Tools and tool choice\<close>

fun validate_tools_loop :: "request_limits \<Rightarrow> nat \<Rightarrow> tool_definition list \<Rightarrow> (api_error, unit) outcome" where
  "validate_tools_loop limits index [] = Ok ()"
| "validate_tools_loop limits index (tool # tools) =
     (let label = (\<lambda>field. fmt [lit ''tools['', show_nat index, lit field]); f = td_function tool
      in checks
        [validate_non_empty_string (label ''].function.name'') (fd_name f),
         validate_string_bytes (label ''].function.name'') (fd_name f) MAX_NAME_BYTES,
         case fd_description f of
           Some description \<Rightarrow>
             validate_string_bytes (label ''].function.description'') description MAX_TOOL_DESCRIPTION_BYTES
         | None \<Rightarrow> Ok (),
         validate_tool_schema_shape (label ''].function.parameters'') (fd_parameters f)
           (rl_tool_schema_depth limits) (rl_tool_schema_enum_values limits),
         validate_json_bytes_at_most (label ''].function.parameters'') (fd_parameters f) MAX_TOOL_SCHEMA_BYTES,
         validate_tools_loop limits (Suc index) tools])"

definition validate_tools :: "tool_definition list \<Rightarrow> request_limits \<Rightarrow> (api_error, unit) outcome" where
  "validate_tools tools limits = validate_tools_loop limits 0 tools"

abbreviation tool_name :: "tool_definition \<Rightarrow> rstr" where
  "tool_name t \<equiv> fd_name (td_function t)"

fun unique_names_loop :: "nat \<Rightarrow> rstr set \<Rightarrow> tool_definition list \<Rightarrow> (api_error, unit) outcome" where
  "unique_names_loop index seen [] = Ok ()"
| "unique_names_loop index seen (tool # tools) =
     (if tool_name tool \<in> seen
      then Err (invalid_request (fmt [lit ''duplicate tool name `'', tool_name tool, lit ''` in tools['',
             show_nat index, lit ''].function.name'']))
      else unique_names_loop (Suc index) (insert (tool_name tool) seen) tools)"

definition validate_unique_tool_names :: "tool_definition list \<Rightarrow> (api_error, unit) outcome" where
  "validate_unique_tool_names tools = unique_names_loop 0 {} tools"

definition validate_tool_choice :: "tool_definition list \<Rightarrow> tool_choice option \<Rightarrow> (api_error, unit) outcome" where
  "validate_tool_choice tools choice =
     (case choice of
        Some ChoiceRequired \<Rightarrow>
          if tools = []
          then Err (invalid_request (lit ''tool_choice required needs at least one declared tool''))
          else validate_unique_tool_names tools
      | Some (ChoiceFunction name) \<Rightarrow>
          checks
            [validate_non_empty_string (lit ''tool_choice.function.name'') name,
             validate_unique_tool_names tools,
             if \<not> list_ex (\<lambda>t. tool_name t = name) tools
             then Err (invalid_request (fmt [lit ''required tool `'', name, lit ''` was not declared'']))
             else Ok ()]
      | _ \<Rightarrow> Ok ())"

section \<open>Requests\<close>

definition chat_validate_with_limits ::
  "chat_completion_request \<Rightarrow> request_limits \<Rightarrow> (api_error, unit) outcome" where
  "chat_validate_with_limits r limits =
     checks
       [if trim (cr_model r) = [] then Err (invalid_request (lit ''model is required'')) else Ok (),
        if cr_messages r = [] then Err (invalid_request (lit ''messages must not be empty'')) else Ok (),
        validate_len_at_most (lit ''messages'') (length (cr_messages r)) MAX_CHAT_MESSAGES,
        validate_chat_messages (cr_messages r) limits,
        validate_len_at_most (lit ''tools'') (length (cr_tools r)) MAX_TOOLS,
        validate_tools (cr_tools r) limits,
        validate_stop_sequence_values (cr_stop r),
        case cr_response_format r of
          Some (FormatJsonSchema _) \<Rightarrow>
            Err (unsupported_capability (lit ''json_schema response_format is not supported; use json_object''))
        | _ \<Rightarrow> Ok (),
        validate_tool_choice (cr_tools r) (cr_tool_choice r),
        if cr_parallel_tool_calls r = Some True
        then Err (unsupported_capability
               (lit ''parallel tool calls are not supported yet; use parallel_tool_calls false'')) else Ok (),
        validate_sampling_controls (cr_temperature r) (cr_top_p r),
        validate_neutral_penalty (lit ''presence_penalty'') (cr_presence_penalty r),
        validate_neutral_penalty (lit ''frequency_penalty'') (cr_frequency_penalty r),
        if cr_logprobs r = Some True
        then Err (unsupported_capability (lit ''logprobs are not supported yet; use logprobs false'')) else Ok (),
        if cr_top_logprobs r \<noteq> None
        then Err (unsupported_capability (lit ''top_logprobs are not supported yet'')) else Ok (),
        if cr_max_tokens r = Some 0
        then Err (invalid_request (lit ''max_tokens must be greater than 0'')) else Ok (),
        if cr_max_completion_tokens r = Some 0
        then Err (invalid_request (lit ''max_completion_tokens must be greater than 0'')) else Ok (),
        case (cr_max_tokens r, cr_max_completion_tokens r) of
          (Some a, Some b) \<Rightarrow>
            if a \<noteq> b
            then Err (invalid_request
                   (lit ''max_tokens and max_completion_tokens must match when both are provided''))
            else Ok ()
        | _ \<Rightarrow> Ok (),
        validate_choice_count (cr_n r)]"

definition completion_validate_with_limits ::
  "completion_request \<Rightarrow> request_limits \<Rightarrow> (api_error, unit) outcome" where
  "completion_validate_with_limits r limits =
     checks
       [if trim (co_model r) = [] then Err (invalid_request (lit ''model is required'')) else Ok (),
        if co_prompt r = [] then Err (invalid_request (lit ''prompt must not be empty'')) else Ok (),
        validate_string_bytes (lit ''prompt'') (co_prompt r) (rl_completion_prompt_bytes limits),
        validate_stop_sequence_values (co_stop r),
        validate_sampling_controls (co_temperature r) (co_top_p r),
        validate_neutral_penalty (lit ''presence_penalty'') (co_presence_penalty r),
        validate_neutral_penalty (lit ''frequency_penalty'') (co_frequency_penalty r),
        if co_logprobs r \<noteq> None
        then Err (unsupported_capability (lit ''completion logprobs are not supported yet'')) else Ok (),
        if co_max_tokens r = Some 0
        then Err (invalid_request (lit ''max_tokens must be greater than 0'')) else Ok (),
        validate_choice_count (co_n r)]"

record 'r validated =
  va_inner :: 'r
  va_request_limits :: request_limits

definition into_validated_with_limits ::
  "('r \<Rightarrow> request_limits \<Rightarrow> (api_error, unit) outcome) \<Rightarrow> 'r \<Rightarrow> request_limits
     \<Rightarrow> (api_error, 'r validated) outcome" where
  "into_validated_with_limits validate_with r limits =
     (case validate_with r limits of
        Ok _ \<Rightarrow> Ok \<lparr>va_inner = r, va_request_limits = limits\<rparr>
      | Err e \<Rightarrow> Err e
      | Panic \<Rightarrow> Panic)"

definition into_validated ::
  "('r \<Rightarrow> request_limits \<Rightarrow> (api_error, unit) outcome) \<Rightarrow> 'r \<Rightarrow> (api_error, 'r validated) outcome" where
  "into_validated validate_with r = into_validated_with_limits validate_with r request_limits_default"

definition validate_default ::
  "('r \<Rightarrow> request_limits \<Rightarrow> (api_error, unit) outcome) \<Rightarrow> 'r \<Rightarrow> (api_error, unit) outcome" where
  "validate_default validate_with r = validate_with r request_limits_default"

section \<open>Lemmas\<close>

definition tool_ok :: "request_limits \<Rightarrow> tool_definition \<Rightarrow> bool" where
  "tool_ok limits t \<longleftrightarrow>
     trim (tool_name t) \<noteq> [] \<and> str_len (tool_name t) \<le> MAX_NAME_BYTES \<and>
     (case fd_description (td_function t) of Some s \<Rightarrow> str_len s \<le> MAX_TOOL_DESCRIPTION_BYTES | None \<Rightarrow> True) \<and>
     (\<forall>d s. subschema (fd_parameters (td_function t)) d s \<longrightarrow>
        d \<le> rl_tool_schema_depth limits \<and> schema_node_ok (rl_tool_schema_enum_values limits) s) \<and>
     str_len (json_compact (fd_parameters (td_function t))) \<le> MAX_TOOL_SCHEMA_BYTES"

lemma validate_tools_Ok [accepts_iff]:
  assumes "rl_tool_schema_depth limits < u64_max"
  shows "validate_tools tools limits = Ok () \<longleftrightarrow> list_all (tool_ok limits) tools"
proof -
  have "validate_tools_loop limits i tools = Ok () \<longleftrightarrow> list_all (tool_ok limits) tools" for i
  proof (induction tools arbitrary: i)
    case (Cons t tools)
    have "validate_tools_loop limits i (t # tools) = Ok () \<longleftrightarrow> tool_ok limits t \<and> list_all (tool_ok limits) tools"
      unfolding validate_tools_loop.simps Let_def checks_Ok_iff
      using assms Cons
      by (cases "fd_description (td_function t)")
        (simp_all add: accepts_iff all_sub_ok_def tool_ok_def [of limits t])
    then show ?case by simp
  qed simp
  then show ?thesis by (simp add: validate_tools_def)
qed

lemma unique_names_loop_Ok:
  "unique_names_loop i seen tools = Ok () \<longleftrightarrow>
   distinct (map tool_name tools) \<and> tool_name ` set tools \<inter> seen = {}"
  by (induction i seen tools rule: unique_names_loop.induct) auto

definition tool_choice_ok :: "tool_definition list \<Rightarrow> tool_choice option \<Rightarrow> bool" where
  "tool_choice_ok tools choice \<longleftrightarrow>
     (case choice of
        Some ChoiceRequired \<Rightarrow> tools \<noteq> [] \<and> distinct (map tool_name tools)
      | Some (ChoiceFunction name) \<Rightarrow>
          trim name \<noteq> [] \<and> (\<exists>!i. i < length tools \<and> tool_name (tools ! i) = name) \<and> distinct (map tool_name tools)
      | _ \<Rightarrow> True)"

lemma ex1_index:
  assumes "distinct (map f xs)"
  shows "(\<exists>!i. i < length xs \<and> f (xs ! i) = y) \<longleftrightarrow> list_ex (\<lambda>x. f x = y) xs"
proof
  assume "list_ex (\<lambda>x. f x = y) xs"
  then obtain i where i: "i < length xs" "f (xs ! i) = y" by (auto simp: list_ex_iff in_set_conv_nth)
  show "\<exists>!i. i < length xs \<and> f (xs ! i) = y"
    by (rule ex1I [of _ i]) (use i assms in \<open>auto simp: distinct_conv_nth\<close>)
qed (auto simp: list_ex_iff)

lemma validate_unique_tool_names_Ok:
  "validate_unique_tool_names tools = Ok () \<longleftrightarrow> distinct (map tool_name tools)"
  by (simp add: validate_unique_tool_names_def unique_names_loop_Ok)

lemma tool_choice_function_Ok:
  "validate_tool_choice tools (Some (ChoiceFunction name)) = Ok () \<longleftrightarrow>
   tool_choice_ok tools (Some (ChoiceFunction name))"
proof (cases "distinct (map tool_name tools)")
  case True
  then show ?thesis
    using ex1_index [OF True, of name]
    by (simp add: validate_tool_choice_def tool_choice_ok_def validate_unique_tool_names_Ok accepts_iff
        del: checks.simps)
next
  case False
  then show ?thesis
    by (simp add: validate_tool_choice_def tool_choice_ok_def validate_unique_tool_names_Ok del: checks.simps)
qed

lemma validate_tool_choice_Ok [accepts_iff]: "validate_tool_choice tools choice = Ok () \<longleftrightarrow> tool_choice_ok tools choice"
proof (cases choice)
  case None
  then show ?thesis by (simp add: validate_tool_choice_def tool_choice_ok_def)
next
  case (Some c)
  then show ?thesis
    using tool_choice_function_Ok
    by (cases c) (simp_all add: validate_tool_choice_def tool_choice_ok_def validate_unique_tool_names_Ok
        del: checks.simps)
qed

lemma validate_tools_public [fails_publicly]: "public_failure (validate_tools tools limits)"
proof -
  have "public_failure (validate_tools_loop limits i tools)" for i
  proof (induction tools arbitrary: i)
    case (Cons t tools)
    then show ?case
      unfolding validate_tools_loop.simps Let_def
      by (intro checks_public_Cons checks_public_Nil option_check_public) (simp_all add: fails_publicly del: checks.simps)
  qed simp
  then show ?thesis by (simp add: validate_tools_def)
qed

lemma unique_names_public: "public_failure (unique_names_loop i seen tools)"
  by (induction i seen tools rule: unique_names_loop.induct) auto

lemma tool_choice_public [fails_publicly]: "public_failure (validate_tool_choice tools choice)"
  by (auto simp: validate_tool_choice_def validate_unique_tool_names_def unique_names_public fails_publicly
      simp del: checks.simps intro!: checks_public split: option.splits tool_choice.splits)

lemma chat_validate_public: "public_failure (chat_validate_with_limits r limits)"
  unfolding chat_validate_with_limits_def
  by (intro checks_public_Cons checks_public_Nil)
    (auto simp: fails_publicly simp del: checks.simps split: option.splits response_format.splits)

lemma completion_validate_public: "public_failure (completion_validate_with_limits r limits)"
  unfolding completion_validate_with_limits_def
  by (intro checks_public_Cons checks_public_Nil) (auto simp: fails_publicly simp del: checks.simps)

section \<open>Properties\<close>

text \<open>C7: chat validation fails closed. For every limit profile whose schema depth is below the
  largest \<open>usize\<close>, the requests that pass are exactly those with a model, between one and 128
  messages that form a well-formed conversation, at most 128 well-formed tools, a satisfiable tool
  choice, stop sequences within their limits, sampling controls in range, and none of the features
  the runtime does not implement; and then any token limit is positive and unambiguous.\<close>

theorem chat_validation_fails_closed:
  assumes "rl_tool_schema_depth limits < u64_max"
  shows "chat_validate_with_limits r limits = Ok () \<longleftrightarrow>
    trim (cr_model r) \<noteq> [] \<and> 0 < length (cr_messages r) \<and> length (cr_messages r) \<le> MAX_CHAT_MESSAGES \<and>
    conversation (cr_messages r) \<and> list_all role_fields_ok (cr_messages r) \<and>
    list_all (sizes_ok limits) (cr_messages r) \<and>
    length (cr_tools r) \<le> MAX_TOOLS \<and> list_all (tool_ok limits) (cr_tools r) \<and>
    length (cr_stop r) \<le> MAX_STOP_SEQUENCES \<and>
    list_all (\<lambda>s. s \<noteq> [] \<and> str_len s \<le> MAX_STOP_SEQUENCE_BYTES) (cr_stop r) \<and>
    cr_response_format r \<in> {None, Some FormatText, Some FormatJsonObject} \<and>
    tool_choice_ok (cr_tools r) (cr_tool_choice r) \<and> cr_parallel_tool_calls r \<noteq> Some True \<and>
    sampling_ok (cr_temperature r) (cr_top_p r) \<and>
    (\<forall>p. cr_presence_penalty r = Some p \<or> cr_frequency_penalty r = Some p \<longrightarrow> f32_is_finite p \<and> f32_eq p f32_zero) \<and>
    cr_logprobs r \<noteq> Some True \<and> cr_top_logprobs r = None \<and>
    (\<forall>m. cr_max_tokens r = Some m \<or> cr_max_completion_tokens r = Some m \<longrightarrow>
       0 < m \<and> effective_max_tokens r = Some m) \<and>
    cr_n r \<in> {None, Some 1}"
proof -
  have fmt_ok: "(case cr_response_format r of Some (FormatJsonSchema _) \<Rightarrow>
      Err (unsupported_capability (lit ''json_schema response_format is not supported; use json_object''))
    | _ \<Rightarrow> Ok ()) = Ok () \<longleftrightarrow> cr_response_format r \<in> {None, Some FormatText, Some FormatJsonObject}"
    by (auto split: option.splits response_format.splits)
  have limits_ok: "cr_max_tokens r \<noteq> Some 0 \<and> cr_max_completion_tokens r \<noteq> Some 0 \<and>
      (case (cr_max_tokens r, cr_max_completion_tokens r) of
          (Some a, Some b) \<Rightarrow>
            if a \<noteq> b
            then Err (invalid_request
                   (lit ''max_tokens and max_completion_tokens must match when both are provided''))
            else Ok ()
        | _ \<Rightarrow> Ok ()) = Ok () \<longleftrightarrow>
    (\<forall>m. cr_max_tokens r = Some m \<or> cr_max_completion_tokens r = Some m \<longrightarrow>
       0 < m \<and> effective_max_tokens r = Some m)"
    by (auto simp: effective_max_tokens_def split: option.splits)
  have penalties: "(\<forall>p. cr_presence_penalty r = Some p \<or> cr_frequency_penalty r = Some p \<longrightarrow>
      f32_is_finite p \<and> f32_eq p f32_zero) \<longleftrightarrow>
    validate_neutral_penalty (lit ''presence_penalty'') (cr_presence_penalty r) = Ok () \<and>
    validate_neutral_penalty (lit ''frequency_penalty'') (cr_frequency_penalty r) = Ok ()"
    by (auto simp: accepts_iff split: option.splits)
  show ?thesis
    unfolding penalties limits_ok [symmetric] fmt_ok [symmetric]
    unfolding chat_validate_with_limits_def checks_Ok_iff
    by (simp add: accepts_iff assms del: checks.simps)
qed

definition demo_chat_request :: chat_completion_request where
  "demo_chat_request =
     \<lparr>cr_model = lit ''m'',
      cr_messages =
        [chat_message_plain RoleUser (lit ''hi''),
         chat_message_assistant_tool_call (lit ''c'') (lit ''f'') (JObject []),
         chat_message_tool (lit ''c'') (lit ''ok'')],
      cr_tools = [], cr_tool_choice = None, cr_parallel_tool_calls = None, cr_response_format = None,
      cr_stream = False, cr_stream_options = \<lparr>so_include_usage = False\<rparr>, cr_temperature = Some f32_one,
      cr_top_p = None, cr_presence_penalty = None, cr_frequency_penalty = None, cr_logprobs = None,
      cr_top_logprobs = None, cr_max_tokens = Some 3, cr_max_completion_tokens = None, cr_n = None,
      cr_stop = []\<rparr>"

lemma trim_visible: "s = [c] \<Longrightarrow> \<not> is_whitespace c \<Longrightarrow> trim s = s"
  by (simp add: trim_def trim_start_def trim_end_def)

lemma demo_trims [simp]: "trim [109] = [109]" "trim [99] = [99]" "trim [102] = [102]"
  by (simp_all add: trim_visible is_whitespace_def)

lemma demo_temperature: "sampling_ok (Some f32_one) None"
  by (simp add: sampling_ok_def f32_le_def f32_is_finite_def f32_magnitude_def f32_one_def
      f32_constants [unfolded f32_one_def])

lemma demo_chat_accepted: "chat_validate_with_limits demo_chat_request request_limits_default = Ok ()"
proof -
  have json: "validate_json_bytes_at_most label (JObject []) 1048576 = Ok ()" for label
    by (simp add: validate_json_bytes_Ok u64_max_def len_utf8_def)
  have "validate_chat_messages (cr_messages demo_chat_request) request_limits_default = Ok ()"
    by (simp add: json demo_chat_request_def chat_message_plain_def chat_message_tool_def
        chat_message_assistant_tool_call_def validate_chat_messages_def message_order_start_def
        validate_chat_message_role_fields_def reject_tool_call_id_for_non_tool_message_def
        reject_tool_calls_for_non_assistant_message_def validate_chat_message_order_def
        reject_non_tool_message_while_tool_calls_pending_def validate_message_sizes_def
        validate_string_bytes_def validate_non_empty_string_def validate_len_at_most_def
        request_limits_default_def MAX_NAME_BYTES_def MAX_MESSAGE_CONTENT_BYTES_def
        MAX_TOOL_CALLS_PER_MESSAGE_def MAX_TOOL_ARGUMENT_BYTES_def lit_def len_utf8_def)
  then show ?thesis
    unfolding chat_validate_with_limits_def checks_Ok_iff
    by (simp add: demo_chat_request_def accepts_iff demo_temperature tool_choice_ok_def lit_def
        validate_tools_def MAX_CHAT_MESSAGES_def MAX_TOOLS_def del: checks.simps)
qed

theorem chat_validation_fails_closed_witness:
  "chat_validate_with_limits demo_chat_request request_limits_default = Ok () \<and>
   conversation (cr_messages demo_chat_request) \<and> effective_max_tokens demo_chat_request = Some 3"
proof -
  have "rl_tool_schema_depth request_limits_default < u64_max"
    by (simp add: request_limits_default_def MAX_TOOL_SCHEMA_DEPTH_def u64_max_def)
  from chat_validation_fails_closed [OF this, of demo_chat_request] demo_chat_accepted
  show ?thesis by (simp add: demo_chat_request_def)
qed

text \<open>Completion validation accepts exactly the requests with a model, a prompt within the byte
  limit, legal stop sequences, sampling controls in range, neutral penalties, no logprobs, a positive
  token limit if any, and one choice.\<close>

theorem completion_validation_fails_closed:
  "completion_validate_with_limits r limits = Ok () \<longleftrightarrow>
    trim (co_model r) \<noteq> [] \<and> co_prompt r \<noteq> [] \<and> str_len (co_prompt r) \<le> rl_completion_prompt_bytes limits \<and>
    length (co_stop r) \<le> MAX_STOP_SEQUENCES \<and>
    list_all (\<lambda>s. s \<noteq> [] \<and> str_len s \<le> MAX_STOP_SEQUENCE_BYTES) (co_stop r) \<and>
    sampling_ok (co_temperature r) (co_top_p r) \<and>
    pred_option (\<lambda>p. f32_is_finite p \<and> f32_eq p f32_zero) (co_presence_penalty r) \<and>
    pred_option (\<lambda>p. f32_is_finite p \<and> f32_eq p f32_zero) (co_frequency_penalty r) \<and>
    co_logprobs r = None \<and> co_max_tokens r \<noteq> Some 0 \<and> co_n r \<in> {None, Some 1}"
proof -
  have pen: "(case v of None \<Rightarrow> True | Some p \<Rightarrow> P p) \<longleftrightarrow> pred_option P v" for v :: "f32 option" and P
    by (cases v) simp_all
  show ?thesis
    unfolding completion_validate_with_limits_def checks_Ok_iff
    by (simp add: accepts_iff pen del: checks.simps)
qed

text \<open>every rejection is a client error. Validation never panics, and each error it returns has
  one of the two public codes and the HTTP status 400; a validated wrapper is produced exactly for
  the accepted requests and carries the request and the limits unchanged.\<close>

theorem validation_errors_are_client_errors:
  "chat_validate_with_limits r limits \<noteq> Panic \<and> completion_validate_with_limits c limits \<noteq> Panic \<and>
   (\<forall>e. chat_validate_with_limits r limits = Err e \<or> completion_validate_with_limits c limits = Err e \<longrightarrow>
      public_code e \<and> api_http_status e = 400) \<and>
   (\<forall>v. into_validated_with_limits chat_validate_with_limits r limits = Ok v \<longleftrightarrow>
      chat_validate_with_limits r limits = Ok () \<and> va_inner v = r \<and> va_request_limits v = limits)"
proof -
  have chat: "public_failure (chat_validate_with_limits r limits)" by (rule chat_validate_public)
  have comp: "public_failure (completion_validate_with_limits c limits)" by (rule completion_validate_public)
  have "chat_validate_with_limits r limits = Err e \<or> completion_validate_with_limits c limits = Err e \<Longrightarrow>
    public_code e" for e using chat comp by auto
  moreover have "into_validated_with_limits chat_validate_with_limits r limits = Ok v \<longleftrightarrow>
      chat_validate_with_limits r limits = Ok () \<and> va_inner v = r \<and> va_request_limits v = limits" for v
    by (cases "chat_validate_with_limits r limits")
      (auto simp: into_validated_with_limits_def intro: validated.equality)
  ultimately show ?thesis using chat comp public_400 by (metis public_failure_simps(3))
qed

theorem validation_errors_are_client_errors_witness:
  "\<exists>e. chat_validate_with_limits (demo_chat_request\<lparr>cr_model := []\<rparr>) request_limits_default = Err e \<and>
     api_http_status e = 400"
proof -
  let ?r = "demo_chat_request\<lparr>cr_model := []\<rparr>"
  have err: "chat_validate_with_limits ?r request_limits_default = Err (invalid_request (lit ''model is required''))"
    by (simp add: chat_validate_with_limits_def trim_def trim_start_def trim_end_def)
  with validation_errors_are_client_errors [of ?r request_limits_default] show ?thesis by blast
qed

end
