(* ===== verification/Token_Estimate.thy ===== *)
theory Token_Estimate
  imports Scheduler Api_Types
begin

text \<open>
  The token estimators of crates/llm-server/src/engine/scheduler.rs, by which a request is classed as
  prefill or decode work before it is tokenised. All sums saturate. The lemmas bound the estimate of
  a text by its length in bytes from both sides and show that every estimate is monotone in the
  request, so that no message or tool that is added can move a request back to the decode class.
\<close>

section \<open>Estimators\<close>

definition div_ceil :: "nat \<Rightarrow> nat \<Rightarrow> nat" where
  "div_ceil a b = (a div b) + (if a mod b = 0 then 0 else 1)"

text \<open>The loop over the characters: ASCII bytes and non-ASCII tokens.\<close>

fun text_counts :: "rstr \<Rightarrow> nat \<Rightarrow> nat \<Rightarrow> nat \<times> nat" where
  "text_counts [] ascii_bytes non_ascii_tokens = (ascii_bytes, non_ascii_tokens)"
| "text_counts (c # s) ascii_bytes non_ascii_tokens =
     (if char_is_ascii c then text_counts s (sat_add ascii_bytes 1) non_ascii_tokens
      else text_counts s ascii_bytes (sat_add non_ascii_tokens (max (sat_sub (len_utf8 c) 1) 1)))"

definition estimated_text_tokens :: "rstr \<Rightarrow> nat" where
  "estimated_text_tokens v =
     (case text_counts v 0 0 of
        (ascii_bytes, non_ascii_tokens) \<Rightarrow>
          let byte_estimate = sat_add (div_ceil ascii_bytes 4) non_ascii_tokens;
              word_estimate = length (split_whitespace v)
          in max byte_estimate word_estimate)"

definition estimated_json_string_tokens :: "rstr \<Rightarrow> nat" where
  "estimated_json_string_tokens v = sat_add (estimated_text_tokens v) 1"

function digits_loop :: "nat \<Rightarrow> nat \<Rightarrow> nat" where
  "digits_loop v digits = (if v \<ge> 10 then digits_loop (v div 10) (digits + 1) else digits)"
  by pat_completeness auto
termination by (relation "measure fst") auto

declare digits_loop.simps [simp del]

definition decimal_digits :: "nat \<Rightarrow> nat" where
  "decimal_digits v = digits_loop v 1"

definition estimated_json_number_tokens :: "json_number \<Rightarrow> nat" where
  "estimated_json_number_tokens n =
     (case jn_as_u64 n of
        Some v \<Rightarrow> div_ceil (decimal_digits v) 4
      | None \<Rightarrow>
          (case jn_as_i64 n of
             Some v \<Rightarrow> div_ceil (sat_add (if v < 0 then 1 else 0) (decimal_digits (nat \<bar>v\<bar>))) 4
           | None \<Rightarrow> if jn_is_f64 n then 8 else u64_max div 2))"

definition json_object_wrapper_tokens :: nat where "json_object_wrapper_tokens = 1"
definition json_array_wrapper_tokens :: nat where "json_array_wrapper_tokens = 1"

definition add_json_object_field_tokens :: "nat \<times> bool \<Rightarrow> rstr \<Rightarrow> nat \<Rightarrow> nat \<times> bool" where
  "add_json_object_field_tokens st key value_tokens =
     (case st of
        (tokens, has_field) \<Rightarrow>
          let tokens = (if has_field then sat_add tokens 1 else tokens)
          in (sat_add (sat_add (sat_add tokens (estimated_json_string_tokens key)) 1) value_tokens, True))"

fun estimated_json_value_tokens :: "json \<Rightarrow> nat"
  and json_items_tokens :: "json list \<Rightarrow> nat \<Rightarrow> bool \<Rightarrow> nat"
  and json_fields_tokens :: "(rstr \<times> json) list \<Rightarrow> nat \<times> bool \<Rightarrow> nat" where
  "estimated_json_value_tokens JNull = 1"
| "estimated_json_value_tokens (JBool b) = 1"
| "estimated_json_value_tokens (JNumber n) = estimated_json_number_tokens n"
| "estimated_json_value_tokens (JString s) = estimated_json_string_tokens s"
| "estimated_json_value_tokens (JArray vs) = json_items_tokens vs json_array_wrapper_tokens False"
| "estimated_json_value_tokens (JObject kvs) = json_fields_tokens kvs (json_object_wrapper_tokens, False)"
| "json_items_tokens [] tokens has_item = tokens"
| "json_items_tokens (v # vs) tokens has_item =
     json_items_tokens vs
       (sat_add (if has_item then sat_add tokens 1 else tokens) (estimated_json_value_tokens v)) True"
| "json_fields_tokens [] st = fst st"
| "json_fields_tokens ((k, v) # kvs) st =
     json_fields_tokens kvs (add_json_object_field_tokens st k (estimated_json_value_tokens v))"

definition estimated_tool_call_type_tokens :: "tool_call_type \<Rightarrow> nat" where
  "estimated_tool_call_type_tokens t =
     (case t of ToolFunction \<Rightarrow> estimated_json_string_tokens (lit ''function''))"

definition estimated_function_definition_tokens :: "function_definition \<Rightarrow> nat" where
  "estimated_function_definition_tokens f =
     (let st = (json_object_wrapper_tokens, False);
          st = add_json_object_field_tokens st (lit ''name'') (estimated_json_string_tokens (fd_name f));
          st = (case fd_description f of
                  Some d \<Rightarrow> add_json_object_field_tokens st (lit ''description'') (estimated_json_string_tokens d)
                | None \<Rightarrow> st);
          st = add_json_object_field_tokens st (lit ''parameters'') (estimated_json_value_tokens (fd_parameters f))
      in fst st)"

definition estimated_tool_definition_tokens :: "tool_definition \<Rightarrow> nat" where
  "estimated_tool_definition_tokens t =
     (let st = (json_object_wrapper_tokens, False);
          st = add_json_object_field_tokens st (lit ''type'') (estimated_tool_call_type_tokens (td_tool_type t));
          st = add_json_object_field_tokens st (lit ''function'')
                 (estimated_function_definition_tokens (td_function t))
      in fst st)"

definition message_tokens :: "chat_message \<Rightarrow> nat" where
  "message_tokens m = (case cm_content m of Some s \<Rightarrow> estimated_text_tokens s | None \<Rightarrow> 0)"

definition estimated_chat_tokens :: "chat_completion_request \<Rightarrow> nat" where
  "estimated_chat_tokens r =
     foldl sat_add 0 (map message_tokens (cr_messages r) @ map estimated_tool_definition_tokens (cr_tools r))"

definition classify_chat :: "model_scheduler_options \<Rightarrow> chat_completion_request \<Rightarrow> scheduler_class" where
  "classify_chat opts r = classify_estimated_tokens opts (estimated_chat_tokens r)"

definition classify_completion :: "model_scheduler_options \<Rightarrow> completion_request \<Rightarrow> scheduler_class" where
  "classify_completion opts r = classify_estimated_tokens opts (estimated_text_tokens (co_prompt r))"

section \<open>Text\<close>

abbreviation ascii_count :: "rstr \<Rightarrow> nat" where
  "ascii_count s \<equiv> length (filter char_is_ascii s)"

abbreviation wide_tokens :: "rstr \<Rightarrow> nat" where
  "wide_tokens s \<equiv> sum_list (map (\<lambda>c. len_utf8 c - 1) (filter (\<lambda>c. \<not> char_is_ascii c) s))"

lemma wide_char: "\<not> char_is_ascii c \<Longrightarrow> 2 \<le> len_utf8 c"
  by (simp add: char_is_ascii_def len_utf8_def)

lemma text_counts_small:
  "a + ascii_count s \<le> u64_max \<Longrightarrow> w + wide_tokens s \<le> u64_max \<Longrightarrow>
   text_counts s a w = (a + ascii_count s, w + wide_tokens s)"
proof (induction s arbitrary: a w)
  case (Cons c s)
  show ?case
  proof (cases "char_is_ascii c")
    case True
    with Cons show ?thesis by (simp add: sat_add_def)
  next
    case False
    then have "max (sat_sub (len_utf8 c) 1) 1 = len_utf8 c - 1"
      using wide_char [of c] by (simp add: sat_sub_def)
    with Cons False show ?thesis by (simp add: sat_add_def)
  qed
qed simp

lemma str_len_parts: "str_len s = ascii_count s + wide_tokens s + length (filter (\<lambda>c. \<not> char_is_ascii c) s)"
proof (induction s)
  case (Cons c s)
  then show ?case
    using wide_char [of c] by (cases "char_is_ascii c") (auto simp: char_is_ascii_def len_utf8_def)
qed simp

lemma wide_count_le: "length (filter (\<lambda>c. \<not> char_is_ascii c) s) \<le> wide_tokens s"
proof (induction s)
  case (Cons c s)
  then show ?case using wide_char [of c] by auto
qed simp

lemma div_ceil_bounds: "a \<le> 4 * div_ceil a 4" "div_ceil a 4 \<le> a"
  by (auto simp: div_ceil_def)

lemma div_ceil_add: "div_ceil (a + b) 4 \<le> div_ceil a 4 + div_ceil b 4" "div_ceil a 4 \<le> div_ceil (a + b) 4"
  by (auto simp: div_ceil_def) presburger+

lemma estimated_text_closed:
  assumes "str_len s \<le> u64_max"
  shows "estimated_text_tokens s =
    max (div_ceil (ascii_count s) 4 + wide_tokens s) (length (split_whitespace s))"
proof -
  have "text_counts s 0 0 = (ascii_count s, wide_tokens s)"
    using text_counts_small [of 0 s 0] assms str_len_parts [of s] by simp
  moreover have "div_ceil (ascii_count s) 4 + wide_tokens s \<le> u64_max"
    using div_ceil_bounds(2) [of "ascii_count s"] assms str_len_parts [of s] by linarith
  ultimately show ?thesis by (simp add: estimated_text_tokens_def sat_add_small)
qed

section \<open>Monotone estimates\<close>

lemma foldl_sat_add: "a \<le> u64_max \<Longrightarrow> foldl sat_add a xs = min (a + sum_list xs) u64_max"
  by (induction xs arbitrary: a) (auto simp: sat_add_def min_def)

lemma estimated_chat_closed:
  "estimated_chat_tokens r =
   min (sum_list (map message_tokens (cr_messages r)) + sum_list (map estimated_tool_definition_tokens (cr_tools r)))
     u64_max"
  by (simp add: estimated_chat_tokens_def foldl_sat_add)

lemma sum_list_map_subseq_le: "sum_list (map f xs) \<le> sum_list (map (f :: 'a \<Rightarrow> nat) (ys @ xs @ zs))"
  by simp

lemma digits_loop_show: "digits_loop v d = d + (length (show_nat v) - 1)"
proof (induction v d rule: digits_loop.induct)
  case (1 v d)
  show ?case
  proof (cases "v \<ge> 10")
    case True
    moreover have "0 < length (show_nat (v div 10))" by simp
    ultimately show ?thesis using 1 by (simp add: digits_loop.simps [of v] show_nat_step [of v] del: length_greater_0_conv)
  next
    case False
    then show ?thesis by (simp add: digits_loop.simps [of v] show_nat_step [of v])
  qed
qed

lemma decimal_digits_show: "decimal_digits v = length (show_nat v)"
proof -
  have "0 < length (show_nat v)" by simp
  then show ?thesis by (simp add: decimal_digits_def digits_loop_show del: length_greater_0_conv)
qed

lemma quarter_bound:
  fixes L a w k d :: nat
  shows "L = a + w + k \<Longrightarrow> k \<le> w \<Longrightarrow> a \<le> 4 * d \<Longrightarrow> L \<le> 4 * (d + w)"
  by simp

section \<open>Properties\<close>

text \<open>bounds of the text estimate. For a text of at most \<open>usize::MAX\<close> bytes the estimate is at
  least a quarter of its length in bytes and at most its length; it is at least the number of words;
  extending a text never lowers its estimate and costs at most the estimate of the extension.\<close>

theorem text_estimate_bounds:
  assumes "str_len (s @ t) \<le> u64_max"
  shows "str_len s \<le> 4 * estimated_text_tokens s \<and> estimated_text_tokens s \<le> str_len s \<and>
    length (split_whitespace s) \<le> estimated_text_tokens s \<and>
    estimated_text_tokens s \<le> estimated_text_tokens (s @ t) \<and>
    estimated_text_tokens (s @ t) \<le> estimated_text_tokens s + estimated_text_tokens t"
proof -
  have len: "str_len s \<le> u64_max" "str_len t \<le> u64_max" using assms by simp_all
  note closed = estimated_text_closed [OF len(1)] estimated_text_closed [OF len(2)] estimated_text_closed [OF assms]
  have "str_len s \<le> 4 * (div_ceil (ascii_count s) 4 + wide_tokens s)"
    by (rule quarter_bound [OF str_len_parts wide_count_le div_ceil_bounds(1)])
  also have "\<dots> \<le> 4 * estimated_text_tokens s" unfolding closed(1) by (rule mult_le_mono2) simp
  finally have "str_len s \<le> 4 * estimated_text_tokens s" .
  moreover have "div_ceil (ascii_count s) 4 + wide_tokens s \<le> str_len s"
    using str_len_parts [of s] div_ceil_bounds(2) [of "ascii_count s"] by linarith
  moreover have "length (split_whitespace s) \<le> str_len s"
    using split_whitespace_le length_le_str_len by (rule order_trans)
  ultimately show ?thesis
    using div_ceil_add [of "ascii_count s" "ascii_count t"] split_whitespace_append [of s t]
    unfolding closed by (auto simp: le_max_iff_disj)
qed

theorem text_estimate_bounds_witness:
  "estimated_text_tokens (lit ''ab cd'') \<le> estimated_text_tokens (lit ''ab cd'' @ lit ''!'') \<and>
   estimated_text_tokens (lit ''ab cd'') = 2"
proof -
  have "str_len (lit ''ab cd'' @ lit ''!'') \<le> u64_max" by (simp add: lit_def len_utf8_def u64_max_def)
  from text_estimate_bounds [OF this]
  have "estimated_text_tokens (lit ''ab cd'') \<le> estimated_text_tokens (lit ''ab cd'' @ lit ''!'')" by blast
  then show ?thesis
    by (simp add: estimated_text_tokens_def lit_def char_is_ascii_def split_whitespace_def is_whitespace_def
        div_ceil_def sat_add_def u64_max_def)
qed

text \<open>Classification is monotone. A request that is classed as prefill work stays so when
  messages or tools are added anywhere.\<close>

theorem classify_chat_monotone:
  assumes "classify_chat opts r = ClassPrefill"
    and "cr_messages r' = ms @ cr_messages r @ ms'" and "cr_tools r' = ts @ cr_tools r @ ts'"
  shows "classify_chat opts r' = ClassPrefill \<and> estimated_chat_tokens r \<le> estimated_chat_tokens r' \<and>
    estimated_chat_tokens r' \<le> u64_max"
proof -
  have "estimated_chat_tokens r \<le> estimated_chat_tokens r'"
    unfolding estimated_chat_closed assms(2,3) by (intro min.mono add_mono sum_list_map_subseq_le) simp
  moreover have "estimated_chat_tokens r' \<le> u64_max" by (simp add: estimated_chat_closed)
  ultimately show ?thesis
    using assms(1) by (auto simp: classify_chat_def classify_estimated_tokens_def split: if_splits)
qed

definition demo_threshold :: model_scheduler_options where
  "demo_threshold = \<lparr>so_concurrency_limit = 1, so_queue_limit = 1, so_queue_timeout = None,
     so_prefill_threshold_chars = 2, so_prefill_burst = 1\<rparr>"

definition demo_request :: chat_completion_request where
  "demo_request =
     \<lparr>cr_model = [], cr_messages = [chat_message_plain RoleUser (lit ''ab cd'')],
      cr_tools = [], cr_tool_choice = None, cr_parallel_tool_calls = None, cr_response_format = None,
      cr_stream = False, cr_stream_options = \<lparr>so_include_usage = False\<rparr>, cr_temperature = None,
      cr_top_p = None, cr_presence_penalty = None, cr_frequency_penalty = None, cr_logprobs = None,
      cr_top_logprobs = None, cr_max_tokens = None, cr_max_completion_tokens = None, cr_n = None,
      cr_stop = []\<rparr>"

theorem classify_chat_monotone_witness:
  "classify_chat demo_threshold demo_request = ClassPrefill \<and>
   classify_chat demo_threshold
     (demo_request\<lparr>cr_messages := cr_messages demo_request @ [chat_message_plain RoleAssistant []]\<rparr>) = ClassPrefill"
proof -
  let ?r = "demo_request\<lparr>cr_messages := cr_messages demo_request @ [chat_message_plain RoleAssistant []]\<rparr>"
  have "estimated_text_tokens (lit ''ab cd'') = 2"
    by (simp add: estimated_text_tokens_def lit_def char_is_ascii_def split_whitespace_def is_whitespace_def
        div_ceil_def sat_add_def u64_max_def)
  then have pre: "classify_chat demo_threshold demo_request = ClassPrefill"
    by (simp add: classify_chat_def classify_estimated_tokens_def estimated_chat_closed demo_request_def
        demo_threshold_def message_tokens_def chat_message_plain_def u64_max_def)
  have shape: "cr_messages ?r = [] @ cr_messages demo_request @ [chat_message_plain RoleAssistant []]"
    "cr_tools ?r = [] @ cr_tools demo_request @ []" by simp_all
  from classify_chat_monotone [OF pre shape] pre show ?thesis by blast
qed

end
