(* ===== verification/Rate_Limit.thy ===== *)
theory Rate_Limit
  imports Rust_Text
begin

text \<open>
  The public inference rate limiter, crates/llm-server/src/engine/rate\_limit.rs. Instants and
  durations are nanosecond counts; the largest instant of the platform is an argument. Each client
  has a bucket with the times of its accepted requests; expired times are pruned lazily and empty,
  idle buckets are dropped by a periodic clean-up.

  The specification (\<open>spec_acquire\<close>) never forgets anything: it keeps the full history of accepted
  requests per client and looks at those inside the window. The limiter simulates it on every
  sequence of requests whose clock readings do not go backwards.
\<close>

section \<open>The limiter\<close>

record public_inference_rate_limit =
  pl_max_requests :: nat
  pl_window :: nat

record rate_limiter =
  li_max_requests :: nat
  li_window :: nat
  li_ttl :: nat
  li_cleanup_interval :: nat

record client_request_log =
  cl_accepted_at :: "nat list"
  cl_last_seen :: nat

record rate_limit_state =
  rs_buckets :: "rstr \<Rightarrow> client_request_log option"
  rs_next_cleanup_at :: nat

record rate_limit_snapshot =
  sn_limit_requests :: nat
  sn_remaining_requests :: nat
  sn_reset_after :: nat

record rate_limit_rejection =
  rj_retry_after :: nat
  rj_snapshot :: rate_limit_snapshot

definition client_key_anonymous :: rstr where
  "client_key_anonymous = lit ''anonymous''"

definition client_key_new :: "rstr \<Rightarrow> rstr" where
  "client_key_new v = (if trim v = [] then client_key_anonymous else v)"

definition client_log_new :: "nat \<Rightarrow> client_request_log" where
  "client_log_new now = \<lparr>cl_accepted_at = [], cl_last_seen = now\<rparr>"

fun prune_loop :: "nat \<Rightarrow> nat \<Rightarrow> nat list \<Rightarrow> nat list" where
  "prune_loop now window [] = []"
| "prune_loop now window (t # ts) =
     (if sat_sub now t \<ge> window then prune_loop now window ts else t # ts)"

definition prune :: "nat \<Rightarrow> nat \<Rightarrow> client_request_log \<Rightarrow> client_request_log" where
  "prune now window b = b\<lparr>cl_accepted_at := prune_loop now window (cl_accepted_at b)\<rparr>"

definition reset_after :: "nat \<Rightarrow> nat \<Rightarrow> client_request_log \<Rightarrow> nat" where
  "reset_after now window b =
     (case cl_accepted_at b of
        [] \<Rightarrow> 0
      | t # _ \<Rightarrow> if sat_sub now t \<le> window then window - sat_sub now t else 0)"

definition is_expired :: "nat \<Rightarrow> nat \<Rightarrow> client_request_log \<Rightarrow> bool" where
  "is_expired now ttl b \<longleftrightarrow> cl_accepted_at b = [] \<and> sat_sub now (cl_last_seen b) \<ge> ttl"

text \<open>\<open>Duration::MAX\<close> in nanoseconds.\<close>

definition duration_max :: nat where
  "duration_max = (2 ^ 64 - 1) * 1000000000 + 999999999"

definition next_cleanup_after :: "nat \<Rightarrow> nat \<Rightarrow> nat \<Rightarrow> nat" where
  "next_cleanup_after instant_max now interval = (if now + interval \<le> instant_max then now + interval else now)"

definition limiter_new :: "nat \<Rightarrow> public_inference_rate_limit \<Rightarrow> nat \<Rightarrow> rate_limiter \<times> rate_limit_state" where
  "limiter_new instant_max options started_at =
     (let window = (if pl_window options = 0 then 1000000000 else pl_window options);
          ttl = (if window * 2 \<le> duration_max then window * 2 else window)
      in (\<lparr>li_max_requests = max (pl_max_requests options) 1, li_window = window, li_ttl = ttl,
           li_cleanup_interval = window\<rparr>,
          \<lparr>rs_buckets = (\<lambda>k. None), rs_next_cleanup_at = next_cleanup_after instant_max started_at window\<rparr>))"

definition limiter_snapshot :: "rate_limiter \<Rightarrow> client_request_log \<Rightarrow> nat \<Rightarrow> rate_limit_snapshot" where
  "limiter_snapshot lim b now =
     \<lparr>sn_limit_requests = li_max_requests lim,
      sn_remaining_requests = sat_sub (li_max_requests lim) (length (cl_accepted_at b)),
      sn_reset_after = reset_after now (li_window lim) b\<rparr>"

definition cleanup_bucket :: "rate_limiter \<Rightarrow> nat \<Rightarrow> client_request_log \<Rightarrow> client_request_log option" where
  "cleanup_bucket lim now b =
     (let b' = prune now (li_window lim) b in if is_expired now (li_ttl lim) b' then None else Some b')"

definition cleanup_expired_buckets :: "nat \<Rightarrow> rate_limiter \<Rightarrow> nat \<Rightarrow> rate_limit_state \<Rightarrow> rate_limit_state" where
  "cleanup_expired_buckets instant_max lim now st =
     (if now < rs_next_cleanup_at st then st
      else \<lparr>rs_buckets = (\<lambda>k. Option.bind (rs_buckets st k) (cleanup_bucket lim now)),
            rs_next_cleanup_at = next_cleanup_after instant_max now (li_cleanup_interval lim)\<rparr>)"

definition acquire_at ::
  "nat \<Rightarrow> rate_limiter \<Rightarrow> rstr \<Rightarrow> nat \<Rightarrow> rate_limit_state
     \<Rightarrow> rate_limit_state \<times> (rate_limit_rejection, rate_limit_snapshot) outcome" where
  "acquire_at instant_max lim key now st0 =
     (let st = cleanup_expired_buckets instant_max lim now st0;
          bucket = (case rs_buckets st key of Some b \<Rightarrow> b | None \<Rightarrow> client_log_new now);
          bucket = prune now (li_window lim) (bucket\<lparr>cl_last_seen := now\<rparr>)
      in if length (cl_accepted_at bucket) < li_max_requests lim
         then let bucket = bucket\<lparr>cl_accepted_at := cl_accepted_at bucket @ [now]\<rparr>
              in (st\<lparr>rs_buckets := (rs_buckets st)(key := Some bucket)\<rparr>, Ok (limiter_snapshot lim bucket now))
         else (st\<lparr>rs_buckets := (rs_buckets st)(key := Some bucket)\<rparr>,
               Err \<lparr>rj_retry_after = reset_after now (li_window lim) bucket,
                    rj_snapshot = limiter_snapshot lim bucket now\<rparr>))"

section \<open>The specification\<close>

record request_history =
  hi_accepted :: "rstr \<Rightarrow> nat list"
  hi_clock :: nat

definition in_window :: "nat \<Rightarrow> nat \<Rightarrow> nat list \<Rightarrow> nat list" where
  "in_window now window ts = filter (\<lambda>t. now < t + window) ts"

definition spec_snapshot :: "nat \<Rightarrow> nat \<Rightarrow> nat \<Rightarrow> nat list \<Rightarrow> rate_limit_snapshot" where
  "spec_snapshot limit window now ts =
     \<lparr>sn_limit_requests = limit, sn_remaining_requests = limit - length ts,
      sn_reset_after = (case ts of [] \<Rightarrow> 0 | t # _ \<Rightarrow> t + window - now)\<rparr>"

definition spec_acquire ::
  "nat \<Rightarrow> nat \<Rightarrow> rstr \<times> nat \<Rightarrow> request_history
     \<Rightarrow> request_history \<times> (rate_limit_rejection, rate_limit_snapshot) outcome" where
  "spec_acquire limit window i h =
     (case i of
        (key, now) \<Rightarrow>
          let recent = in_window now window (hi_accepted h key); h' = h\<lparr>hi_clock := now\<rparr>
          in if length recent < limit
             then (h'\<lparr>hi_accepted := (hi_accepted h)(key := hi_accepted h key @ [now])\<rparr>,
                   Ok (spec_snapshot limit window now (recent @ [now])))
             else (h', Err \<lparr>rj_retry_after = (case recent of [] \<Rightarrow> 0 | t # _ \<Rightarrow> t + window - now),
                            rj_snapshot = spec_snapshot limit window now recent\<rparr>))"

section \<open>Pruning is the window\<close>

lemma prune_loop_dropWhile: "prune_loop now window ts = dropWhile (\<lambda>t. window \<le> now - t) ts"
  by (induction ts) (simp_all add: sat_sub_def)

lemma dropWhile_sorted_filter:
  "sorted ts \<Longrightarrow> (\<And>a b. a \<le> b \<Longrightarrow> P b \<Longrightarrow> P a) \<Longrightarrow> dropWhile P ts = filter (\<lambda>t. \<not> P t) ts"
proof (induction ts)
  case (Cons t ts)
  show ?case
  proof (cases "P t")
    case True
    with Cons show ?thesis by simp
  next
    case False
    with Cons.prems have "\<forall>u \<in> set ts. \<not> P u" by auto
    with False show ?thesis by simp
  qed
qed simp

lemma prune_in_window:
  assumes "0 < window" and "sorted ts" and "\<forall>t \<in> set ts. t \<le> now"
  shows "prune_loop now window ts = in_window now window ts"
proof -
  have "prune_loop now window ts = filter (\<lambda>t. \<not> window \<le> now - t) ts"
    unfolding prune_loop_dropWhile by (rule dropWhile_sorted_filter [OF assms(2)]) simp
  also have "\<dots> = in_window now window ts"
    unfolding in_window_def by (rule filter_cong) (use assms in auto)
  finally show ?thesis .
qed

lemma in_window_later: "s \<le> now \<Longrightarrow> in_window now window (in_window s window ts) = in_window now window ts"
  unfolding in_window_def filter_filter by (rule filter_cong) auto

lemma in_window_sorted: "sorted ts \<Longrightarrow> sorted (in_window s window ts)"
  by (simp add: in_window_def sorted_wrt_filter)

lemma set_in_window: "t \<in> set (in_window s window ts) \<Longrightarrow> t \<in> set ts"
  by (simp add: in_window_def)

section \<open>The simulation\<close>

definition limiter_ok :: "rate_limiter \<Rightarrow> bool" where
  "limiter_ok lim \<longleftrightarrow> 0 < li_window lim \<and> 0 < li_max_requests lim"

definition bucket_times :: "client_request_log option \<Rightarrow> nat list" where
  "bucket_times b = (case b of None \<Rightarrow> [] | Some b \<Rightarrow> cl_accepted_at b)"

text \<open>A bucket holds the part of the history that was in the window at some earlier moment.\<close>

definition history_rel :: "rate_limiter \<Rightarrow> rate_limit_state \<Rightarrow> request_history \<Rightarrow> bool" where
  "history_rel lim st h \<longleftrightarrow>
     (\<forall>key. sorted (hi_accepted h key) \<and> (\<forall>t \<in> set (hi_accepted h key). t \<le> hi_clock h) \<and>
        (\<exists>s \<le> hi_clock h. bucket_times (rs_buckets st key) = in_window s (li_window lim) (hi_accepted h key)))"

lemma prune_history:
  assumes "limiter_ok lim" and "history_rel lim st h" and "hi_clock h \<le> now"
  shows "prune_loop now (li_window lim) (bucket_times (rs_buckets st key)) =
    in_window now (li_window lim) (hi_accepted h key)"
proof -
  obtain s where s: "s \<le> hi_clock h" "bucket_times (rs_buckets st key) = in_window s (li_window lim) (hi_accepted h key)"
    and sorted: "sorted (hi_accepted h key)" and old: "\<forall>t \<in> set (hi_accepted h key). t \<le> hi_clock h"
    using assms(2) by (auto simp: history_rel_def)
  have "prune_loop now (li_window lim) (bucket_times (rs_buckets st key)) =
      in_window now (li_window lim) (in_window s (li_window lim) (hi_accepted h key))"
    unfolding s(2)
    by (rule prune_in_window) (use assms sorted old in_window_sorted set_in_window in \<open>auto simp: limiter_ok_def dest: order_trans\<close>)
  also have "\<dots> = in_window now (li_window lim) (hi_accepted h key)"
    using s(1) assms(3) by (intro in_window_later) simp
  finally show ?thesis .
qed

lemma cleanup_times:
  "bucket_times (rs_buckets (cleanup_expired_buckets im lim now st) key) \<in>
   {bucket_times (rs_buckets st key), prune_loop now (li_window lim) (bucket_times (rs_buckets st key))}"
  by (auto simp: cleanup_expired_buckets_def cleanup_bucket_def bucket_times_def prune_def is_expired_def Let_def
      split: option.splits)

lemma history_rel_cleanup:
  assumes "limiter_ok lim" and "history_rel lim st h" and "hi_clock h \<le> now"
  shows "history_rel lim (cleanup_expired_buckets im lim now st) (h\<lparr>hi_clock := now\<rparr>)"
  unfolding history_rel_def
proof
  fix key
  have old: "sorted (hi_accepted h key)" "\<forall>t \<in> set (hi_accepted h key). t \<le> hi_clock h"
    "\<exists>s \<le> hi_clock h. bucket_times (rs_buckets st key) = in_window s (li_window lim) (hi_accepted h key)"
    using assms(2) by (auto simp: history_rel_def)
  have "\<exists>s \<le> now. bucket_times (rs_buckets (cleanup_expired_buckets im lim now st) key) =
      in_window s (li_window lim) (hi_accepted h key)"
    using cleanup_times [of im lim now st key] prune_history [OF assms, of key] old(3) assms(3)
    by (auto intro: order_trans)
  with old assms(3) show "sorted (hi_accepted (h\<lparr>hi_clock := now\<rparr>) key) \<and>
      (\<forall>t \<in> set (hi_accepted (h\<lparr>hi_clock := now\<rparr>) key). t \<le> hi_clock (h\<lparr>hi_clock := now\<rparr>)) \<and>
      (\<exists>s \<le> hi_clock (h\<lparr>hi_clock := now\<rparr>).
        bucket_times (rs_buckets (cleanup_expired_buckets im lim now st) key) =
        in_window s (li_window lim) (hi_accepted (h\<lparr>hi_clock := now\<rparr>) key))"
    by (auto intro: order_trans)
qed

definition limiter_step ::
  "nat \<Rightarrow> rate_limiter \<Rightarrow> rstr \<times> nat \<Rightarrow> rate_limit_state
     \<Rightarrow> rate_limit_state \<times> (rate_limit_rejection, rate_limit_snapshot) outcome" where
  "limiter_step instant_max lim i st = acquire_at instant_max lim (fst i) (snd i) st"

definition clock_forward :: "rstr \<times> nat \<Rightarrow> request_history \<Rightarrow> bool" where
  "clock_forward i h \<longleftrightarrow> hi_clock h \<le> snd i"

lemma reset_after_head:
  "\<forall>t \<in> set (cl_accepted_at b). t \<le> now \<Longrightarrow>
   reset_after now window b = (case cl_accepted_at b of [] \<Rightarrow> 0 | t # _ \<Rightarrow> t + window - now)"
  by (auto simp: reset_after_def sat_sub_def split: list.splits)

lemma snapshot_times:
  "\<forall>t \<in> set (cl_accepted_at b). t \<le> now \<Longrightarrow>
   limiter_snapshot lim b now = spec_snapshot (li_max_requests lim) (li_window lim) now (cl_accepted_at b)"
  by (simp add: limiter_snapshot_def spec_snapshot_def reset_after_head sat_sub_def)

lemma limiter_simulates:
  assumes ok: "limiter_ok lim" and rel: "history_rel lim st h" and clock: "hi_clock h \<le> now"
  shows "history_rel lim (fst (acquire_at im lim key now st)) (fst (spec_acquire (li_max_requests lim) (li_window lim) (key, now) h)) \<and>
    snd (acquire_at im lim key now st) = snd (spec_acquire (li_max_requests lim) (li_window lim) (key, now) h)"
proof -
  define st1 where "st1 = cleanup_expired_buckets im lim now st"
  define recent where "recent = in_window now (li_window lim) (hi_accepted h key)"
  define bucket where "bucket = prune now (li_window lim)
    ((case rs_buckets st1 key of Some b \<Rightarrow> b | None \<Rightarrow> client_log_new now)\<lparr>cl_last_seen := now\<rparr>)"
  have rel1: "history_rel lim st1 (h\<lparr>hi_clock := now\<rparr>)"
    unfolding st1_def by (rule history_rel_cleanup [OF ok rel clock])
  have times: "cl_accepted_at bucket = recent"
    using prune_history [OF ok rel1, of now key]
    by (auto simp: bucket_def recent_def prune_def bucket_times_def client_log_new_def split: option.splits)
  have past: "sorted (hi_accepted h key)" "\<forall>t \<in> set (hi_accepted h key). t \<le> now"
    using rel clock by (auto simp: history_rel_def intro: order_trans)
  then have recent_past: "\<forall>t \<in> set recent. t \<le> now" unfolding recent_def using set_in_window by blast
  have upd: "history_rel lim (st1\<lparr>rs_buckets := (rs_buckets st1)(key := Some b)\<rparr>) (h\<lparr>hi_clock := now, hi_accepted := (hi_accepted h)(key := ts)\<rparr>)"
    if "sorted ts" "\<forall>t \<in> set ts. t \<le> now" "cl_accepted_at b = in_window now (li_window lim) ts" for b ts
    using rel1 that by (auto simp: history_rel_def bucket_times_def)
  show ?thesis
  proof (cases "length recent < li_max_requests lim")
    case True
    let ?b = "bucket\<lparr>cl_accepted_at := cl_accepted_at bucket @ [now]\<rparr>"
    have run: "acquire_at im lim key now st =
        (st1\<lparr>rs_buckets := (rs_buckets st1)(key := Some ?b)\<rparr>, Ok (limiter_snapshot lim ?b now))"
      using True times unfolding acquire_at_def Let_def st1_def [symmetric] bucket_def [symmetric] by simp
    have "cl_accepted_at ?b = in_window now (li_window lim) (hi_accepted h key @ [now])"
      using ok times by (simp add: recent_def in_window_def limiter_ok_def)
    with past have "history_rel lim (fst (acquire_at im lim key now st))
        (h\<lparr>hi_clock := now, hi_accepted := (hi_accepted h)(key := hi_accepted h key @ [now])\<rparr>)"
      unfolding run fst_conv by (intro upd) (auto simp: sorted_append)
    moreover have "limiter_snapshot lim ?b now = spec_snapshot (li_max_requests lim) (li_window lim) now (recent @ [now])"
      using recent_past times by (subst snapshot_times) auto
    ultimately show ?thesis
      using True run by (simp add: spec_acquire_def Let_def recent_def)
  next
    case False
    have run: "acquire_at im lim key now st = (st1\<lparr>rs_buckets := (rs_buckets st1)(key := Some bucket)\<rparr>,
        Err \<lparr>rj_retry_after = reset_after now (li_window lim) bucket, rj_snapshot = limiter_snapshot lim bucket now\<rparr>)"
      using False times unfolding acquire_at_def Let_def st1_def [symmetric] bucket_def [symmetric] by simp
    have "history_rel lim (fst (acquire_at im lim key now st)) (h\<lparr>hi_clock := now, hi_accepted := (hi_accepted h)(key := hi_accepted h key)\<rparr>)"
      unfolding run fst_conv by (rule upd) (use past times in \<open>simp_all add: recent_def\<close>)
    moreover have "h\<lparr>hi_clock := now, hi_accepted := (hi_accepted h)(key := hi_accepted h key)\<rparr> = h\<lparr>hi_clock := now\<rparr>"
      by simp
    ultimately show ?thesis
      using False run recent_past times
      by (simp add: spec_acquire_def Let_def recent_def [symmetric] reset_after_head snapshot_times)
  qed
qed

interpretation rl: output_simulation "limiter_step im lim" "spec_acquire (li_max_requests lim) (li_window lim)"
  clock_forward "\<lambda>st h. limiter_ok lim \<and> history_rel lim st h" for im lim
proof
  fix st :: rate_limit_state and h :: request_history and i :: "rstr \<times> nat"
  assume "limiter_ok lim \<and> history_rel lim st h" "clock_forward i h"
  then show "(limiter_ok lim \<and> history_rel lim (fst (limiter_step im lim i st)) (fst (spec_acquire (li_max_requests lim) (li_window lim) i h))) \<and>
      snd (limiter_step im lim i st) = snd (spec_acquire (li_max_requests lim) (li_window lim) i h)"
    using limiter_simulates [of lim st h "snd i" im "fst i"] by (simp add: limiter_step_def clock_forward_def)
qed

section \<open>The window bound on the specification\<close>

definition window_bounded :: "nat \<Rightarrow> nat \<Rightarrow> request_history \<Rightarrow> bool" where
  "window_bounded limit window h \<longleftrightarrow>
     (\<forall>key. (\<forall>t \<in> set (hi_accepted h key). t \<le> hi_clock h) \<and>
        (\<forall>start. length (filter (\<lambda>t. start \<le> t \<and> t < start + window) (hi_accepted h key)) \<le> limit))"

lemma length_filter_mono: "(\<And>x. x \<in> set xs \<Longrightarrow> P x \<Longrightarrow> Q x) \<Longrightarrow> length (filter P xs) \<le> length (filter Q xs)"
  by (induction xs) (auto simp: le_SucI)

lemma spec_window_bounded:
  assumes "window_bounded limit window h" and "clock_forward i h"
  shows "window_bounded limit window (fst (spec_acquire limit window i h))"
proof -
  obtain key now where i: "i = (key, now)" by fastforce
  let ?ts = "hi_accepted h key"
  have past: "\<forall>t \<in> set (hi_accepted h k). t \<le> now" for k
    using assms by (auto simp: window_bounded_def clock_forward_def i intro: order_trans)
  have fits: "length (filter (\<lambda>t. start \<le> t \<and> t < start + window) (?ts @ [now])) \<le> limit"
    if "length (in_window now window ?ts) < limit" for start
  proof (cases "start \<le> now \<and> now < start + window")
    case True
    have "length (filter (\<lambda>t. start \<le> t \<and> t < start + window) ?ts) \<le> length (in_window now window ?ts)"
      unfolding in_window_def by (rule length_filter_mono) (use True in auto)
    with that True show ?thesis by simp
  next
    case False
    then show ?thesis using assms(1) by (auto simp: window_bounded_def)
  qed
  show ?thesis
    using assms(1) past fits by (auto simp: spec_acquire_def i Let_def window_bounded_def)
qed

lemma spec_run_window_bounded:
  "window_bounded limit window h \<Longrightarrow> permitted_inputs (spec_acquire limit window) clock_forward is h \<Longrightarrow>
   window_bounded limit window (fst (run_outputs (spec_acquire limit window) is h))"
  by (induction "is" arbitrary: h) (simp_all add: spec_window_bounded)

lemma permitted_clock:
  "sorted (map snd is) \<Longrightarrow> (\<forall>i \<in> set is. hi_clock h \<le> snd i) \<Longrightarrow>
   permitted_inputs (spec_acquire limit window) clock_forward is h"
proof (induction "is" arbitrary: h)
  case (Cons i "is")
  have "hi_clock (fst (spec_acquire limit window i h)) = snd i"
    by (simp add: spec_acquire_def Let_def split: prod.splits)
  with Cons show ?case by (auto simp: clock_forward_def)
qed simp

text \<open>The requests of a run that were accepted, with their times.\<close>

definition accepted_times ::
  "rstr \<Rightarrow> (rstr \<times> nat) list \<Rightarrow> (rate_limit_rejection, rate_limit_snapshot) outcome list \<Rightarrow> nat list" where
  "accepted_times key is outs =
     map (snd \<circ> fst) (filter (\<lambda>(i, out). fst i = key \<and> ok_of out \<noteq> None) (zip is outs))"

lemma accepted_times_Cons:
  "accepted_times key (i # is) (out # outs) =
   (if fst i = key \<and> ok_of out \<noteq> None then [snd i] else []) @ accepted_times key is outs"
  by (simp add: accepted_times_def)

lemma spec_step_history:
  "hi_accepted (fst (spec_acquire limit window i h)) key =
   hi_accepted h key @ (if fst i = key \<and> ok_of (snd (spec_acquire limit window i h)) \<noteq> None then [snd i] else [])"
  by (simp add: spec_acquire_def Let_def split: prod.splits)

lemma spec_run_history:
  "hi_accepted (fst (run_outputs (spec_acquire limit window) is h)) key =
   hi_accepted h key @ accepted_times key is (snd (run_outputs (spec_acquire limit window) is h))"
proof (induction "is" arbitrary: h)
  case Nil
  then show ?case by (simp add: accepted_times_def)
next
  case (Cons i "is")
  then show ?case by (simp add: accepted_times_Cons spec_step_history)
qed

definition history_start :: "nat \<Rightarrow> request_history" where
  "history_start clock = \<lparr>hi_accepted = (\<lambda>key. []), hi_clock = clock\<rparr>"

lemma limiter_new_related:
  "limiter_new im options started = (lim, st) \<Longrightarrow>
   limiter_ok lim \<and> history_rel lim st (history_start clock) \<and> li_max_requests lim = max (pl_max_requests options) 1"
  by (auto simp: limiter_new_def Let_def limiter_ok_def history_rel_def history_start_def bucket_times_def
      in_window_def)

section \<open>Properties\<close>

text \<open>C12: the rate limiter forgets nothing that matters. On every sequence of requests whose clock
  readings do not decrease, a new limiter answers each request exactly as the specification that
  remembers the whole history: the same acceptances and rejections, the same remaining counts, reset
  and retry times, whatever clean-ups ran in between.\<close>

theorem rate_limiter_refines_history:
  assumes "limiter_new im options started = (lim, st)" and "sorted (map snd is)"
  shows "snd (run_outputs (limiter_step im lim) is st) =
    snd (run_outputs (spec_acquire (li_max_requests lim) (li_window lim)) is (history_start 0))"
  using rl.run_simulates [of lim st "history_start 0" "is" im]
    limiter_new_related [OF assms(1), of 0] permitted_clock [OF assms(2), of "history_start 0"]
  by (simp add: history_start_def)

definition demo_limit :: public_inference_rate_limit where
  "demo_limit = \<lparr>pl_max_requests = 1, pl_window = 10\<rparr>"

definition demo_times :: "(rstr \<times> nat) list" where
  "demo_times = [(lit ''a'', 0), (lit ''a'', 9), (lit ''a'', 10)]"

lemma demo_times_sorted: "sorted (map snd demo_times)"
  by (simp add: demo_times_def)

lemma demo_limiter: "limiter_new 1000 demo_limit 0 =
  (\<lparr>li_max_requests = 1, li_window = 10, li_ttl = 20, li_cleanup_interval = 10\<rparr>,
   \<lparr>rs_buckets = (\<lambda>k. None), rs_next_cleanup_at = 10\<rparr>)"
  by (simp add: limiter_new_def demo_limit_def next_cleanup_after_def duration_max_def)

theorem rate_limiter_refines_history_witness:
  "map ok_of (snd (run_outputs (limiter_step 1000
       \<lparr>li_max_requests = 1, li_window = 10, li_ttl = 20, li_cleanup_interval = 10\<rparr>) demo_times
       \<lparr>rs_buckets = (\<lambda>k. None), rs_next_cleanup_at = 10\<rparr>)) =
   [Some \<lparr>sn_limit_requests = 1, sn_remaining_requests = 0, sn_reset_after = 10\<rparr>, None,
    Some \<lparr>sn_limit_requests = 1, sn_remaining_requests = 0, sn_reset_after = 10\<rparr>]"
  unfolding rate_limiter_refines_history [OF demo_limiter demo_times_sorted]
  by (simp add: demo_times_def spec_acquire_def in_window_def spec_snapshot_def history_start_def Let_def)

text \<open>the sliding window. On every such sequence, no client has more than \<open>max_requests\<close> (at
  least one) requests accepted in any interval of the length of the window.\<close>

theorem rate_limiter_window_bound:
  assumes "limiter_new im options started = (lim, st)" and "sorted (map snd is)"
  shows "length (filter (\<lambda>t. start \<le> t \<and> t < start + li_window lim)
      (accepted_times key is (snd (run_outputs (limiter_step im lim) is st)))) \<le> max (pl_max_requests options) 1"
proof -
  let ?spec = "spec_acquire (li_max_requests lim) (li_window lim)"
  let ?h = "fst (run_outputs ?spec is (history_start 0))"
  have perm: "permitted_inputs ?spec clock_forward is (history_start 0)"
    by (rule permitted_clock [OF assms(2)]) (simp add: history_start_def)
  have "window_bounded (li_max_requests lim) (li_window lim) (history_start 0)"
    by (simp add: window_bounded_def history_start_def)
  then have "window_bounded (li_max_requests lim) (li_window lim) ?h"
    using perm by (rule spec_run_window_bounded)
  then have "length (filter (\<lambda>t. start \<le> t \<and> t < start + li_window lim) (hi_accepted ?h key)) \<le> li_max_requests lim"
    by (simp add: window_bounded_def)
  moreover have "hi_accepted ?h key = accepted_times key is (snd (run_outputs (limiter_step im lim) is st))"
    using rl.run_simulates [of lim st "history_start 0" "is" im] perm limiter_new_related [OF assms(1), of 0]
    by (simp add: spec_run_history) (simp add: history_start_def)
  ultimately show ?thesis
    using limiter_new_related [OF assms(1), of 0] by simp
qed

theorem rate_limiter_window_bound_witness:
  "length (filter (\<lambda>t. 0 \<le> t \<and> t < 0 + 10)
     (accepted_times (lit ''a'') demo_times (snd (run_outputs (limiter_step 1000
       \<lparr>li_max_requests = 1, li_window = 10, li_ttl = 20, li_cleanup_interval = 10\<rparr>) demo_times
       \<lparr>rs_buckets = (\<lambda>k. None), rs_next_cleanup_at = 10\<rparr>)))) \<le> 1"
  using rate_limiter_window_bound [OF demo_limiter demo_times_sorted, of 0 "lit ''a''"]
  by (simp add: demo_limit_def)

end
