(* ===== verification/Stop.thy ===== *)
theory Stop
  imports Rust_Text
begin

text \<open>
  Stop sequences (llm-runtime/src/stop.rs): truncating a finished text at the earliest stop sequence,
  the detector that rescans only the tail of a growing text, and how much of a growing text may be
  sent before a stop sequence could still begin in it. All offsets are byte offsets into UTF-8; a
  slice that is not at a character boundary panics, which is \<open>None\<close> here.

  The lemmas characterise both scans by the occurrences of stop sequences, and show that the
  incremental scan finds what the full scan finds and that the withheld tail is long enough.
\<close>

section \<open>Operations\<close>

definition earliest_stop_index :: "rstr \<Rightarrow> rstr list \<Rightarrow> nat option" where
  "earliest_stop_index content stop = min_opt (List.map_filter (\<lambda>q. str_find q content) stop)"

definition apply_stop_sequences :: "rstr \<Rightarrow> rstr list \<Rightarrow> (rstr \<times> bool) option" where
  "apply_stop_sequences content stop =
     (case min_opt (List.map_filter (\<lambda>q. str_find q content) stop) of
        None \<Rightarrow> Some (content, False)
      | Some stop_at \<Rightarrow> map_option (\<lambda>c. (c, True)) (str_truncate stop_at content))"

definition max_stop_sequence_len :: "rstr list \<Rightarrow> nat" where
  "max_stop_sequence_len stop = fold max (map str_len stop) 0"

record stop_detector =
  sd_max_stop_len :: nat
  sd_previous_len :: nat

definition stop_detector_new :: "rstr list \<Rightarrow> stop_detector" where
  "stop_detector_new stop = \<lparr>sd_max_stop_len = max_stop_sequence_len stop, sd_previous_len = 0\<rparr>"

lemma is_char_boundary_0 [simp]: "is_char_boundary s 0"
  by (cases s) (simp_all add: is_char_boundary_def)

function floor_char_boundary :: "rstr \<Rightarrow> nat \<Rightarrow> nat" where
  "floor_char_boundary content index =
     (if \<not> is_char_boundary content index then floor_char_boundary content (index - 1) else index)"
  by pat_completeness auto

termination
proof (relation "measure snd")
  fix content index
  assume "\<not> is_char_boundary content index"
  then have "index \<noteq> 0" by (metis is_char_boundary_0)
  then show "((content, index - 1), (content, index)) \<in> measure snd" by simp
qed simp

declare floor_char_boundary.simps [simp del]

definition observe :: "stop_detector \<Rightarrow> rstr \<Rightarrow> rstr list \<Rightarrow> (stop_detector \<times> nat option) option" where
  "observe det content stop =
     (let det' = det\<lparr>sd_previous_len := str_len content\<rparr>
      in if stop = [] then Some (det', None)
         else if [] \<in> set stop then Some (det', Some 0)
         else let overlap = sat_sub (sd_max_stop_len det) 1;
                  search_start = floor_char_boundary content (sat_sub (sd_previous_len det) overlap)
              in case str_from search_start content of
                   None \<Rightarrow> None
                 | Some tail \<Rightarrow>
                     Some (det', min_opt (List.map_filter
                       (\<lambda>q. map_option (\<lambda>i. search_start + i) (str_find q tail)) stop)))"

definition safe_stream_emit_len :: "rstr \<Rightarrow> nat \<Rightarrow> nat" where
  "safe_stream_emit_len content max_stop_len =
     (if max_stop_len \<le> 1 then str_len content
      else floor_char_boundary content (sat_sub (str_len content) (max_stop_len - 1)))"

section \<open>Occurrences of stop sequences\<close>

text \<open>\<open>hit stop s n\<close>: some stop sequence occurs in \<open>s\<close> at byte \<open>n\<close>.\<close>

definition hit :: "rstr list \<Rightarrow> rstr \<Rightarrow> nat \<Rightarrow> bool" where
  "hit stop s n \<longleftrightarrow> (\<exists>q \<in> set stop. \<exists>u v. s = u @ q @ v \<and> str_len u = n)"

definition occurs_at :: "rstr \<Rightarrow> rstr \<Rightarrow> nat \<Rightarrow> bool" where
  "occurs_at q s n \<longleftrightarrow> (\<exists>u v. s = u @ q @ v \<and> str_len u = n)"

text \<open>\<open>least P r\<close>: the option \<open>r\<close> is the least number with \<open>P\<close>, or \<open>None\<close> if there is none.\<close>

definition least :: "(nat \<Rightarrow> bool) \<Rightarrow> nat option \<Rightarrow> bool" where
  "least P r \<longleftrightarrow> (case r of None \<Rightarrow> \<forall>n. \<not> P n | Some n \<Rightarrow> P n \<and> (\<forall>m < n. \<not> P m))"

lemma least_unique: "least P r \<Longrightarrow> least P r' \<Longrightarrow> r = r'"
  by (auto simp: least_def split: option.splits) (meson linorder_neqE_nat)

lemma str_find_least: "least (occurs_at q s) (str_find q s)"
proof (cases "find_sub q s")
  case None
  have "\<not> occurs_at q s n" for n
  proof
    assume "occurs_at q s n"
    then obtain u v where "s = u @ q @ v" by (auto simp: occurs_at_def)
    then have "length u \<le> length s" "prefix q (drop (length u) s)" by simp_all
    with None show False by (auto simp: find_sub_None)
  qed
  with None show ?thesis by (simp add: str_find_def least_def)
next
  case (Some i)
  then have i: "i \<le> length s" "prefix q (drop i s)" "\<And>j. j < i \<Longrightarrow> \<not> prefix q (drop j s)"
    by (auto simp: find_sub_Some)
  from i(2) obtain v where v: "drop i s = q @ v" by (auto simp: prefix_def)
  then have "s = take i s @ q @ v" by (metis append_take_drop_id)
  then have "occurs_at q s (str_len (take i s))" unfolding occurs_at_def by blast
  moreover have "\<not> occurs_at q s m" if m: "m < str_len (take i s)" for m
  proof
    assume "occurs_at q s m"
    then obtain u v where u: "s = u @ q @ v" "str_len u = m" by (auto simp: occurs_at_def)
    have "length u < i"
    proof (rule ccontr)
      assume "\<not> length u < i"
      then have "take i s = take i u" using u(1) by simp
      then have "str_len (take i s) + str_len (drop i u) = str_len u"
        by (metis append_take_drop_id str_len_simps(3))
      with m u(2) show False by simp
    qed
    with i(3) [of "length u"] u(1) show False by simp
  qed
  ultimately show ?thesis using Some by (simp add: str_find_def least_def)
qed

lemma least_min_opt:
  assumes "\<And>q. q \<in> set qs \<Longrightarrow> least (P q) (f q)"
  shows "least (\<lambda>n. \<exists>q \<in> set qs. P q n) (min_opt (List.map_filter f qs))"
proof (cases "min_opt (List.map_filter f qs)")
  case None
  then have "f q = None" if "q \<in> set qs" for q
    using that by (auto simp: List.map_filter_def filter_empty_conv)
  then have "\<not> P q n" if "q \<in> set qs" for q n using assms [OF that] that by (simp add: least_def)
  then show ?thesis unfolding None by (simp add: least_def)
next
  case (Some n)
  then obtain q where q: "q \<in> set qs" "f q = Some n" by (auto simp: min_opt_Some List.map_filter_def)
  have "\<not> P q' m" if "q' \<in> set qs" "m < n" for q' m
  proof
    assume "P q' m"
    with assms [OF that(1)] obtain k where k: "f q' = Some k" "k \<le> m"
      by (cases "f q'") (auto simp: least_def not_less [symmetric])
    then have "k \<in> set (List.map_filter f qs)" using that(1) by (force simp: List.map_filter_def)
    with Some have "n \<le> k" by (simp add: min_opt_Some)
    with k(2) that(2) show False by simp
  qed
  moreover have "P q n" using assms [OF q(1)] q(2) by (simp add: least_def)
  ultimately show ?thesis using Some q(1) by (auto simp: least_def)
qed

lemma hit_occurs: "hit stop s n \<longleftrightarrow> (\<exists>q \<in> set stop. occurs_at q s n)"
  by (simp add: hit_def occurs_at_def)

lemma earliest_stop_least: "least (hit stop s) (earliest_stop_index s stop)"
  unfolding earliest_stop_index_def hit_occurs [abs_def] by (rule least_min_opt) (rule str_find_least)

lemma hit_append: "hit stop s n \<Longrightarrow> hit stop (s @ t) n"
  by (fastforce simp: hit_def)

lemma hit_Nil [simp]: "\<not> hit [] s n"
  by (simp add: hit_def)

lemma hit_bound: "hit stop s n \<Longrightarrow> n \<le> str_len s"
  by (auto simp: hit_def)

lemma str_len_le_max: "q \<in> set stop \<Longrightarrow> str_len q \<le> max_stop_sequence_len stop"
  unfolding max_stop_sequence_len_def using Max_ge [of "set (0 # map str_len stop)" "str_len q"]
  by (simp only: Max.set_eq_fold) simp

text \<open>An occurrence in \<open>p @ x\<close> that is not one in \<open>p\<close> begins in the overlap.\<close>

lemma new_hit_in_overlap:
  assumes "hit stop (p @ x) n" and "\<not> hit stop p n"
  shows "str_len p < n + max_stop_sequence_len stop"
proof (rule ccontr)
  assume far: "\<not> ?thesis"
  from assms(1) obtain q u v where q: "q \<in> set stop" "p @ x = u @ q @ v" "str_len u = n"
    by (auto simp: hit_def)
  have "prefix (u @ q) (p @ x)" unfolding q(2) by simp
  moreover have "prefix p (p @ x)" by simp
  moreover have "str_len (u @ q) \<le> str_len p" using far str_len_le_max [OF q(1)] q(3) by simp
  ultimately have "prefix (u @ q) p" by (rule prefix_bytes)
  then obtain w where "p = u @ q @ w" by (auto simp: prefix_def)
  with q assms(2) show False by (auto simp: hit_def)
qed

section \<open>Character boundaries\<close>

lemma floor_char_boundary_le: "floor_char_boundary s n \<le> n"
proof (induction s n rule: floor_char_boundary.induct)
  case (1 s n)
  then show ?case by (subst floor_char_boundary.simps) (use le_trans diff_le_self in auto)
qed

lemma floor_char_boundary_split:
  obtains u v where "s = u @ v" "str_len u = floor_char_boundary s n"
proof -
  have "is_char_boundary s (floor_char_boundary s n)"
  proof (induction s n rule: floor_char_boundary.induct)
    case (1 s n)
    then show ?case by (subst floor_char_boundary.simps) auto
  qed
  then show thesis using that by (auto simp: is_char_boundary_iff)
qed

section \<open>The detector and the withheld tail\<close>

lemma earliest_None_iff: "earliest_stop_index s stop = None \<longleftrightarrow> (\<forall>n. \<not> hit stop s n)"
  using earliest_stop_least [of stop s] by (cases "earliest_stop_index s stop") (auto simp: least_def)

lemma earliest_SomeD:
  assumes "earliest_stop_index s stop = Some n"
  shows "hit stop s n" and "\<And>m. m < n \<Longrightarrow> \<not> hit stop s m" and "\<exists>u v. s = u @ v \<and> str_len u = n"
proof -
  show h: "hit stop s n" using earliest_stop_least [of stop s] assms by (simp add: least_def)
  show "\<not> hit stop s m" if "m < n" for m
    using earliest_stop_least [of stop s] assms that by (simp add: least_def)
  show "\<exists>u v. s = u @ v \<and> str_len u = n" using h by (auto simp: hit_def)
qed

definition detector_at :: "stop_detector \<Rightarrow> rstr \<Rightarrow> rstr list \<Rightarrow> bool" where
  "detector_at det p stop \<longleftrightarrow>
     sd_max_stop_len det = max_stop_sequence_len stop \<and> sd_previous_len det = str_len p"

lemma occurs_at_tail: "occurs_at q (u @ s) (str_len u + i) \<longleftrightarrow> occurs_at q s i"
proof
  assume "occurs_at q (u @ s) (str_len u + i)"
  then obtain w v where w: "u @ s = w @ q @ v" "str_len w = str_len u + i" by (auto simp: occurs_at_def)
  have "prefix w (u @ s)" unfolding w(1) by simp
  then have "prefix u w" using w(2) by (intro prefix_bytes [of u "u @ s" w]) simp_all
  then obtain z where "w = u @ z" by (auto simp: prefix_def)
  with w show "occurs_at q s i" by (auto simp: occurs_at_def)
next
  assume "occurs_at q s i"
  then show "occurs_at q (u @ s) (str_len u + i)" unfolding occurs_at_def
    by (metis append.assoc str_len_simps(3))
qed

lemma least_shift:
  assumes "least P r" and "\<And>i. Q (k + i) \<longleftrightarrow> P i" and "\<And>n. n < k \<Longrightarrow> \<not> Q n"
  shows "least Q (map_option (\<lambda>i. k + i) r)"
proof -
  have Q: "Q n \<longleftrightarrow> k \<le> n \<and> P (n - k)" for n
    using assms(2) [of "n - k"] assms(3) [of n] by (cases "k \<le> n") auto
  show ?thesis using assms(1) by (auto simp: least_def Q split: option.splits)
qed

text \<open>Searching only from the overlap on finds what a search of the whole text finds.\<close>

lemma tail_scan_least:
  assumes "\<And>n. n < str_len p - (max_stop_sequence_len stop - 1) \<Longrightarrow> \<not> hit stop p n"
    and "k = floor_char_boundary (p @ x) (str_len p - (max_stop_sequence_len stop - 1))"
  obtains v where "str_from k (p @ x) = Some v"
    "least (hit stop (p @ x)) (min_opt (List.map_filter (\<lambda>q. map_option (\<lambda>i. k + i) (str_find q v)) stop))"
proof -
  obtain u v where uv: "p @ x = u @ v" "str_len u = k" unfolding assms(2) by (rule floor_char_boundary_split)
  have early: "\<not> hit stop (p @ x) n" if n: "n < k" for n
  proof
    assume h: "hit stop (p @ x) n"
    have "n < str_len p - (max_stop_sequence_len stop - 1)"
      using n floor_char_boundary_le [of "p @ x" "str_len p - (max_stop_sequence_len stop - 1)"]
      unfolding assms(2) by linarith
    moreover from this have "\<not> hit stop p n" by (rule assms(1))
    ultimately show False using new_hit_in_overlap [OF h] by linarith
  qed
  have "least (hit stop (p @ x)) (min_opt (List.map_filter (\<lambda>q. map_option (\<lambda>i. k + i) (str_find q v)) stop))"
    unfolding hit_occurs [abs_def]
  proof (rule least_min_opt, rule least_shift [OF str_find_least])
    fix q i n
    assume "q \<in> set stop"
    show "occurs_at q (p @ x) (k + i) \<longleftrightarrow> occurs_at q v i" using occurs_at_tail [of q u v i] uv by simp
    show "n < k \<Longrightarrow> \<not> occurs_at q (p @ x) n" using early \<open>q \<in> set stop\<close> by (auto simp: hit_occurs)
  qed
  moreover have "str_from k (p @ x) = Some v" using uv str_from_append [of u v] by simp
  ultimately show thesis using that by blast
qed

lemma observe_full_scan:
  assumes "detector_at det p stop" and "p = [] \<or> earliest_stop_index p stop = None"
  shows "\<exists>det'. observe det (p @ x) stop = Some (det', earliest_stop_index (p @ x) stop) \<and>
    detector_at det' (p @ x) stop"
proof (cases "stop = [] \<or> [] \<in> set stop")
  case True
  have "earliest_stop_index (p @ x) stop = (if stop = [] then None else Some 0)"
  proof (rule least_unique [OF earliest_stop_least])
    have "hit stop (p @ x) 0" if "[] \<in> set stop" using that unfolding hit_def
      by (metis append_Nil str_len_simps(1))
    with True show "least (hit stop (p @ x)) (if stop = [] then None else Some 0)" by (auto simp: least_def)
  qed
  with True assms(1) show ?thesis by (auto simp: observe_def detector_at_def Let_def)
next
  case False
  let ?k = "floor_char_boundary (p @ x) (str_len p - (max_stop_sequence_len stop - 1))"
  have "\<not> hit stop p n" if "n < str_len p - (max_stop_sequence_len stop - 1)" for n
    using assms(2) that by (auto simp: earliest_None_iff)
  then obtain v where v: "str_from ?k (p @ x) = Some v"
    "least (hit stop (p @ x)) (min_opt (List.map_filter (\<lambda>q. map_option (\<lambda>i. ?k + i) (str_find q v)) stop))"
    using tail_scan_least [of p stop ?k x] by blast
  from least_unique [OF v(2) earliest_stop_least] v(1) show ?thesis using False assms(1)
    by (simp add: observe_def detector_at_def Let_def sat_sub_def)
qed

lemma detector_at_new: "detector_at (stop_detector_new stop) [] stop"
  by (simp add: detector_at_def stop_detector_new_def)

lemma safe_emit_split:
  obtains u v where "s = u @ v" "str_len u = safe_stream_emit_len s m"
proof (cases "m \<le> 1")
  case True
  then show thesis using that [of s "[]"] by (simp add: safe_stream_emit_len_def)
next
  case False
  then show thesis using that floor_char_boundary_split [of s "sat_sub (str_len s) (m - 1)"]
    by (auto simp: safe_stream_emit_len_def)
qed

text \<open>What may be sent ends before every stop sequence that a continuation completes.\<close>

lemma safe_emit_before_hit:
  assumes "hit stop (p @ x) n" and "\<not> hit stop p n"
  shows "safe_stream_emit_len p (max_stop_sequence_len stop) \<le> n"
  using new_hit_in_overlap [OF assms]
    floor_char_boundary_le [of p "sat_sub (str_len p) (max_stop_sequence_len stop - 1)"]
  by (auto simp: safe_stream_emit_len_def sat_sub_def)

lemma apply_stop_None: "earliest_stop_index s stop = None \<Longrightarrow> apply_stop_sequences s stop = Some (s, False)"
  by (simp add: apply_stop_sequences_def flip: earliest_stop_index_def del: min_opt_None)

lemma apply_stop_Some:
  "earliest_stop_index (u @ v) stop = Some (str_len u) \<Longrightarrow> apply_stop_sequences (u @ v) stop = Some (u, True)"
  by (simp add: apply_stop_sequences_def str_truncate_def flip: earliest_stop_index_def)

section \<open>Properties\<close>

text \<open>Feeding a text chunk by chunk to the detector until it reports a stop, and the same with a full
  scan of the text so far.\<close>

fun detector_run :: "stop_detector \<Rightarrow> rstr \<Rightarrow> rstr list \<Rightarrow> rstr list \<Rightarrow> nat option option" where
  "detector_run det content [] stop = Some None"
| "detector_run det content (x # xs) stop =
     (case observe det (content @ x) stop of
        None \<Rightarrow> None
      | Some (det', Some n) \<Rightarrow> Some (Some n)
      | Some (det', None) \<Rightarrow> detector_run det' (content @ x) xs stop)"

fun first_stop :: "rstr \<Rightarrow> rstr list \<Rightarrow> rstr list \<Rightarrow> nat option" where
  "first_stop content [] stop = None"
| "first_stop content (x # xs) stop =
     (case earliest_stop_index (content @ x) stop of
        Some n \<Rightarrow> Some n
      | None \<Rightarrow> first_stop (content @ x) xs stop)"

lemma detector_run_first_stop:
  "detector_at det p stop \<Longrightarrow> p = [] \<or> earliest_stop_index p stop = None \<Longrightarrow>
   detector_run det p xs stop = Some (first_stop p xs stop)"
proof (induction xs arbitrary: det p)
  case (Cons x xs)
  obtain det' where det': "observe det (p @ x) stop = Some (det', earliest_stop_index (p @ x) stop)"
    "detector_at det' (p @ x) stop" using observe_full_scan [OF Cons.prems] by blast
  show ?case
    using Cons.IH [OF det'(2)] det'(1) by (cases "earliest_stop_index (p @ x) stop") auto
qed simp

text \<open>C16: the incremental detector is the full scan. However a text is cut into chunks, feeding it to a
  new detector never panics and reports, after the same chunk and at the same byte, the stop sequence
  that a search of the whole text so far would find first.\<close>

theorem stop_detector_matches_full_scan:
  "detector_run (stop_detector_new stop) [] chunks stop = Some (first_stop [] chunks stop)"
  by (rule detector_run_first_stop) (simp_all add: detector_at_new)

end
