(* ===== verification/Engine_Error.thy ===== *)
theory Engine_Error
  imports Api_Types
begin

text \<open>
  Error classification and error bodies: \<open>BackendError\<close> (crates/llm-backend-contracts/src/lib.rs),
  \<open>RuntimeError\<close> (crates/llm-runtime/src/error.rs), parser and no-progress codes, and the HTTP error
  body of crates/llm-server/src/engine/error.rs with its redaction of absolute paths. Positions in a
  message are counted in characters; the code uses byte offsets of the same character boundaries.
  The variants whose texts come from other crates (template, JSON and model-store errors) carry that
  text.
\<close>

section \<open>Redaction of absolute paths\<close>

definition REDACTED_PATH :: rstr where
  "REDACTED_PATH = lit ''[redacted path]''"

text \<open>The characters are, in order: backtick, double quote, single quote, angle brackets, round, square
  and curly brackets, comma, semicolon.\<close>

definition is_path_terminator :: "nat \<Rightarrow> bool" where
  "is_path_terminator ch \<longleftrightarrow>
     is_whitespace ch \<or> ch \<in> {96, 34, 39, 60, 62, 40, 41, 91, 93, 123, 125, 44, 59}"

definition is_unix_path_segment_char :: "nat \<Rightarrow> bool" where
  "is_unix_path_segment_char ch \<longleftrightarrow> \<not> is_path_terminator ch \<and> ch \<noteq> 47 \<and> ch \<noteq> 92"

definition has_path_token_boundary :: "nat option \<Rightarrow> bool" where
  "has_path_token_boundary previous =
     (case previous of
        None \<Rightarrow> True
      | Some ch \<Rightarrow> is_whitespace ch \<or> ch \<in> {96, 34, 39, 60, 40, 91, 123, 61, 58})"

definition starts_with_unix_absolute_path :: "rstr \<Rightarrow> nat option \<Rightarrow> bool" where
  "starts_with_unix_absolute_path candidate previous \<longleftrightarrow>
     has_path_token_boundary previous \<and>
     (case candidate of c1 # c2 # _ \<Rightarrow> c1 = 47 \<and> is_unix_path_segment_char c2 | _ \<Rightarrow> False)"

definition is_ascii_alphabetic :: "nat \<Rightarrow> bool" where
  "is_ascii_alphabetic c \<longleftrightarrow> (65 \<le> c \<and> c \<le> 90) \<or> (97 \<le> c \<and> c \<le> 122)"

definition starts_with_windows_absolute_path :: "rstr \<Rightarrow> bool" where
  "starts_with_windows_absolute_path candidate \<longleftrightarrow>
     (case candidate of
        drive # colon # slash # _ \<Rightarrow> is_ascii_alphabetic drive \<and> colon = 58 \<and> (slash = 92 \<or> slash = 47)
      | _ \<Rightarrow> False) \<or>
     (case candidate of c1 # c2 # _ \<Rightarrow> c1 = 92 \<and> c2 = 92 | _ \<Rightarrow> False)"

definition path_token_len :: "rstr \<Rightarrow> nat" where
  "path_token_len candidate = length (takeWhile (\<lambda>ch. \<not> is_path_terminator ch) candidate)"

definition absolute_path_len :: "rstr \<Rightarrow> nat option \<Rightarrow> nat option" where
  "absolute_path_len candidate previous =
     (if starts_with_unix_absolute_path candidate previous \<or> starts_with_windows_absolute_path candidate
      then Some (path_token_len candidate) else None)"

fun next_path_loop :: "rstr \<Rightarrow> nat \<Rightarrow> nat option \<Rightarrow> (nat \<times> nat) option" where
  "next_path_loop [] index previous = None"
| "next_path_loop (ch # rest) index previous =
     (case absolute_path_len (ch # rest) previous of
        Some len \<Rightarrow> Some (index, len)
      | None \<Rightarrow> next_path_loop rest (Suc index) (Some ch))"

definition next_absolute_path :: "rstr \<Rightarrow> (nat \<times> nat) option" where
  "next_absolute_path message = next_path_loop message 0 None"

lemma windows_start_not_terminator:
  "starts_with_windows_absolute_path (c # s) \<Longrightarrow> \<not> is_path_terminator c"
  by (auto simp: starts_with_windows_absolute_path_def is_path_terminator_def is_whitespace_def
      is_ascii_alphabetic_def split: list.splits)

lemma slash_not_terminator: "\<not> is_path_terminator 47"
  by (simp add: is_path_terminator_def is_whitespace_def)

lemma absolute_path_len_pos: "absolute_path_len (c # s) p = Some n \<Longrightarrow> 0 < n \<and> n \<le> length (c # s)"
  using windows_start_not_terminator [of c s] slash_not_terminator
  by (auto simp: absolute_path_len_def path_token_len_def starts_with_unix_absolute_path_def length_takeWhile_le
      split: if_splits list.splits intro: le_SucI)

lemma next_path_loop_bound:
  "next_path_loop s i p = Some (start, len) \<Longrightarrow> i \<le> start \<and> start - i < length s \<and> 0 < len"
proof (induction s arbitrary: i p)
  case (Cons c s)
  show ?case
  proof (cases "absolute_path_len (c # s) p")
    case None
    with Cons.prems Cons.IH [of "Suc i" "Some c"] show ?thesis by auto
  next
    case (Some n)
    with Cons.prems absolute_path_len_pos [of c s p n] show ?thesis by auto
  qed
qed simp

text \<open>The redaction loop: the rest of the message from the cursor, and what was written so far.\<close>

function sanitize_loop :: "rstr \<Rightarrow> rstr \<Rightarrow> bool \<Rightarrow> rstr \<times> bool" where
  "sanitize_loop rest sanitized redacted =
     (if rest = [] then (sanitized, redacted)
      else case next_absolute_path rest of
             None \<Rightarrow> (sanitized @ rest, redacted)
           | Some (start, len) \<Rightarrow>
               sanitize_loop (drop (start + len) rest) (sanitized @ take start rest @ REDACTED_PATH) True)"
  by pat_completeness auto
termination
  by (relation "measure (\<lambda>(rest, _, _). length rest)")
    (auto simp: next_absolute_path_def dest!: next_path_loop_bound)

declare sanitize_loop.simps [simp del]

definition sanitize_client_error_message :: "rstr \<Rightarrow> rstr" where
  "sanitize_client_error_message message =
     (case sanitize_loop message [] False of
        (sanitized, redacted) \<Rightarrow> if redacted then sanitized else message)"

section \<open>Redaction leaves no path\<close>

text \<open>A path starts at some position of the message after the character \<open>p\<close>.\<close>

fun has_path :: "nat option \<Rightarrow> rstr \<Rightarrow> bool" where
  "has_path p [] \<longleftrightarrow> False"
| "has_path p (c # s) \<longleftrightarrow> absolute_path_len (c # s) p \<noteq> None \<or> has_path (Some c) s"

lemma next_path_loop_None: "next_path_loop s i p = None \<longleftrightarrow> \<not> has_path p s"
  by (induction s arbitrary: i p) (auto split: option.splits)

text \<open>Whether a path starts at a position depends on the next three characters, so it cannot start
  there because the rest is replaced by an opening bracket and anything after it.\<close>

lemma absolute_path_replace:
  assumes "absolute_path_len (c # s @ rest) p = None"
  shows "absolute_path_len (c # s @ 91 # u) p = None"
proof -
  have bracket: "\<not> is_unix_path_segment_char 91"
    by (simp add: is_unix_path_segment_char_def is_path_terminator_def)
  consider "s = []" | d where "s = [d]" | d e s' where "s = d # e # s'"
    by (cases s; cases "tl s") auto
  then show ?thesis
  proof cases
    case 1
    with bracket show ?thesis
      by (simp add: absolute_path_len_def starts_with_unix_absolute_path_def starts_with_windows_absolute_path_def
          split: list.split)
  next
    case (2 d)
    with assms show ?thesis
      by (simp add: absolute_path_len_def starts_with_unix_absolute_path_def starts_with_windows_absolute_path_def
          split: if_splits)
  next
    case (3 d e s')
    with assms show ?thesis
      by (simp add: absolute_path_len_def starts_with_unix_absolute_path_def starts_with_windows_absolute_path_def
          split: if_splits)
  qed
qed

lemma no_path_in_prefix:
  "next_path_loop s i p = Some (i + n, len) \<Longrightarrow> q = (if n = 0 then p else Some (s ! (n - 1))) \<Longrightarrow>
   \<not> has_path q (91 # u) \<Longrightarrow> \<not> has_path p (take n s @ 91 # u)"
proof (induction s arbitrary: i p n)
  case (Cons c s)
  show ?case
  proof (cases "absolute_path_len (c # s) p")
    case (Some k)
    with Cons.prems show ?thesis by simp
  next
    case None
    with Cons.prems(1) have next_pos: "next_path_loop s (Suc i) (Some c) = Some (i + n, len)" by simp
    with next_path_loop_bound [OF next_pos] obtain m where m: "n = Suc m" by (cases n) auto
    have here: "absolute_path_len (c # take m s @ 91 # u) p = None"
      using absolute_path_replace [of c "take m s" "drop m s" p u] None by simp
    have "\<not> has_path (Some c) (take m s @ 91 # u)"
      by (rule Cons.IH [of "Suc i"]) (use next_pos Cons.prems(2,3) m in \<open>auto simp: nth_Cons split: nat.splits if_splits\<close>)
    with here m show ?thesis by simp
  qed
qed simp

text \<open>The inserted marker contains no path, whatever stands before it and whatever terminated token
  follows it.\<close>

lemma has_path_terminator:
  "is_path_terminator c \<Longrightarrow> c \<noteq> 47 \<Longrightarrow> has_path p (c # s) \<longleftrightarrow> has_path (Some c) s"
proof -
  assume "is_path_terminator c" "c \<noteq> 47"
  moreover from this have "\<not> starts_with_windows_absolute_path (c # s)" using windows_start_not_terminator by blast
  moreover from \<open>c \<noteq> 47\<close> have "\<not> starts_with_unix_absolute_path (c # s) p"
    by (simp add: starts_with_unix_absolute_path_def split: list.split)
  ultimately show ?thesis by (simp add: absolute_path_len_def)
qed

lemma no_path_at:
  "c \<noteq> 47 \<Longrightarrow> c \<noteq> 92 \<Longrightarrow> d \<noteq> 58 \<Longrightarrow> absolute_path_len (c # d # s) p = None"
  "c \<noteq> 47 \<Longrightarrow> c \<noteq> 92 \<Longrightarrow> \<not> is_ascii_alphabetic c \<Longrightarrow> absolute_path_len (c # s) p = None"
  by (auto simp: absolute_path_len_def starts_with_unix_absolute_path_def starts_with_windows_absolute_path_def
      split: list.split)

lemma has_path_skip:
  "c \<noteq> 47 \<Longrightarrow> c \<noteq> 92 \<Longrightarrow> d \<noteq> 58 \<Longrightarrow> has_path p (c # d # s) \<longleftrightarrow> has_path (Some c) (d # s)"
  "c \<noteq> 47 \<Longrightarrow> c \<noteq> 92 \<Longrightarrow> \<not> is_ascii_alphabetic c \<Longrightarrow> has_path p (c # s) \<longleftrightarrow> has_path (Some c) s"
  by (simp_all only: has_path.simps(2) no_path_at simp_thms not_None_eq option.distinct)

lemma marker_chars: "REDACTED_PATH = [91, 114, 101, 100, 97, 99, 116, 101, 100, 32, 112, 97, 116, 104, 93]"
  by (simp add: REDACTED_PATH_def lit_def)

lemma has_path_marker: "has_path p (REDACTED_PATH @ u) \<longleftrightarrow> has_path (Some 93) u"
  unfolding marker_chars append_Cons append_Nil
  by (simp add: has_path_skip(1) del: has_path.simps) (simp add: has_path_skip(2) is_ascii_alphabetic_def del: has_path.simps)

lemma terminated_rest:
  assumes "next_absolute_path s = Some (start, len)"
  shows "drop (start + len) s = [] \<or> is_path_terminator (hd (drop (start + len) s))"
proof -
  have "next_path_loop s i p = Some (i + n, len) \<Longrightarrow>
    drop (n + len) s = [] \<or> is_path_terminator (hd (drop (n + len) s))" for i p n
  proof (induction s arbitrary: i p n)
    case (Cons c s)
    show ?case
    proof (cases "absolute_path_len (c # s) p")
      case (Some k)
      with Cons.prems have "n = 0" "len = length (takeWhile (\<lambda>ch. \<not> is_path_terminator ch) (c # s))"
        by (auto simp: absolute_path_len_def path_token_len_def split: if_splits)
      then have "drop (n + len) (c # s) = dropWhile (\<lambda>ch. \<not> is_path_terminator ch) (c # s)"
        by (simp only: add_0 dropWhile_eq_drop [symmetric])
      then show ?thesis by (metis hd_dropWhile)
    next
      case None
      with Cons.prems have next_pos: "next_path_loop s (Suc i) (Some c) = Some (i + n, len)" by simp
      with next_path_loop_bound [OF next_pos] obtain m where m: "n = Suc m" by (cases n) auto
      with Cons.IH [of "Suc i" "Some c" m] next_pos show ?thesis by simp
    qed
  qed simp
  from this [of 0 None start] assms show ?thesis by (simp add: next_absolute_path_def)
qed

lemma has_path_previous:
  "s = [] \<or> is_path_terminator (hd s) \<Longrightarrow> has_path p s \<longleftrightarrow> has_path q s"
proof (cases s)
  case (Cons c r)
  assume "s = [] \<or> is_path_terminator (hd s)"
  with Cons have "is_path_terminator c" by simp
  moreover from this have "c \<noteq> 47" using slash_not_terminator by blast
  ultimately have "has_path x (c # r) \<longleftrightarrow> has_path (Some c) r" for x by (rule has_path_terminator)
  with Cons show ?thesis by metis
qed simp

lemma marker_cons: "REDACTED_PATH @ u = 91 # tl REDACTED_PATH @ u"
  by (simp add: REDACTED_PATH_def lit_def)

lemma sanitize_loop_prefix:
  "sanitize_loop rest sanitized r = (sanitized @ fst (sanitize_loop rest [] r), snd (sanitize_loop rest [] r))"
proof (induction rest arbitrary: sanitized r rule: length_induct)
  case (1 rest)
  show ?case
  proof (cases "rest = []")
    case True
    then show ?thesis by (simp add: sanitize_loop.simps)
  next
    case False
    show ?thesis
    proof (cases "next_absolute_path rest")
      case None
      with False show ?thesis by (simp add: sanitize_loop.simps)
    next
      case (Some sl)
      obtain start len where sl: "sl = (start, len)" by fastforce
      have "length (drop (start + len) rest) < length rest"
        using Some sl False by (auto simp: next_absolute_path_def dest!: next_path_loop_bound)
      then have IH: "sanitize_loop (drop (start + len) rest) x True =
          (x @ fst (sanitize_loop (drop (start + len) rest) [] True), snd (sanitize_loop (drop (start + len) rest) [] True))" for x
        using 1 by blast
      from False Some sl show ?thesis
        by (simp add: sanitize_loop.simps [of rest] IH [of "sanitized @ take start rest @ REDACTED_PATH"]
            IH [of "take start rest @ REDACTED_PATH"])
    qed
  qed
qed

lemma sanitize_loop_head:
  "rest = [] \<or> is_path_terminator (hd rest) \<Longrightarrow>
   fst (sanitize_loop rest [] r) = [] \<or> is_path_terminator (hd (fst (sanitize_loop rest [] r)))"
proof (cases "rest = []")
  case False
  assume a: "rest = [] \<or> is_path_terminator (hd rest)"
  show ?thesis
  proof (cases "next_absolute_path rest")
    case None
    with a False show ?thesis by (simp add: sanitize_loop.simps)
  next
    case (Some sl)
    obtain start len where sl: "sl = (start, len)" by fastforce
    have "fst (sanitize_loop rest [] r) = take start rest @ REDACTED_PATH @ fst (sanitize_loop (drop (start + len) rest) [] True)"
      using Some sl False sanitize_loop_prefix [of "drop (start + len) rest" "take start rest @ REDACTED_PATH" True]
      by (simp add: sanitize_loop.simps [of rest])
    moreover have "is_path_terminator 91" by (simp add: is_path_terminator_def)
    ultimately show ?thesis
      using a False by (cases start; cases rest) (auto simp: marker_cons)
  qed
qed (simp add: sanitize_loop.simps)

lemma sanitize_loop_no_path: "\<not> has_path None (fst (sanitize_loop rest [] r))"
proof (induction rest arbitrary: r rule: length_induct)
  case (1 rest)
  show ?case
  proof (cases "next_absolute_path rest")
    case None
    then have "fst (sanitize_loop rest [] r) = rest" by (simp add: sanitize_loop.simps [of rest])
    moreover have "\<not> has_path None rest" using None by (simp add: next_absolute_path_def next_path_loop_None)
    ultimately show ?thesis by metis
  next
    case (Some sl)
    obtain start len where sl: "sl = (start, len)" by fastforce
    let ?rest = "drop (start + len) rest"
    let ?out = "fst (sanitize_loop ?rest [] True)"
    have ne: "rest \<noteq> []" using Some by (auto simp: next_absolute_path_def)
    have shorter: "length ?rest < length rest"
      using Some sl ne by (auto simp: next_absolute_path_def dest!: next_path_loop_bound)
    have out: "fst (sanitize_loop rest [] r) = take start rest @ REDACTED_PATH @ ?out"
      using Some sl ne sanitize_loop_prefix [of ?rest "take start rest @ REDACTED_PATH" True]
      by (simp add: sanitize_loop.simps [of rest])
    have "\<not> has_path None ?out" using 1 shorter by blast
    moreover have "?out = [] \<or> is_path_terminator (hd ?out)"
      using sanitize_loop_head [OF terminated_rest] Some sl by blast
    ultimately have "\<not> has_path (Some 93) ?out" using has_path_previous by blast
    then have "\<not> has_path q (91 # tl REDACTED_PATH @ ?out)" for q
      unfolding marker_cons [symmetric] has_path_marker .
    then have "\<not> has_path None (take start rest @ 91 # tl REDACTED_PATH @ ?out)"
      using no_path_in_prefix [of rest 0 None start len] Some sl by (simp add: next_absolute_path_def)
    then show ?thesis unfolding out marker_cons .
  qed
qed

lemma sanitize_loop_flag: "snd (sanitize_loop rest [] r) \<longleftrightarrow> r \<or> next_absolute_path rest \<noteq> None"
proof -
  have "snd (sanitize_loop rest x True)" for rest x
    by (induction rest x True rule: sanitize_loop.induct) (simp add: sanitize_loop.simps split: option.splits prod.splits)
  then show ?thesis
    by (auto simp: sanitize_loop.simps [of rest] next_absolute_path_def split: option.splits)
qed

lemma sanitize_cases:
  "sanitize_client_error_message m =
   (if next_absolute_path m = None then m else fst (sanitize_loop m [] False))"
proof (cases "sanitize_loop m [] False")
  case (Pair sanitized redacted)
  with sanitize_loop_flag [of m False] have "redacted \<longleftrightarrow> next_absolute_path m \<noteq> None" by (metis snd_conv)
  with Pair show ?thesis by (simp add: sanitize_client_error_message_def)
qed

section \<open>Properties of the redaction\<close>

text \<open>C24: a sanitised message contains no absolute path. After redaction the code's own path scanner
  finds nothing any more, a message in which it found nothing is unchanged, and sanitising twice is
  the same as sanitising once.\<close>

theorem sanitized_message_has_no_path:
  "next_absolute_path (sanitize_client_error_message m) = None \<and>
   (next_absolute_path m = None \<longrightarrow> sanitize_client_error_message m = m) \<and>
   sanitize_client_error_message (sanitize_client_error_message m) = sanitize_client_error_message m"
proof -
  have "next_absolute_path (sanitize_client_error_message m) = None"
    using sanitize_loop_no_path [of m False]
    by (simp add: sanitize_cases next_absolute_path_def next_path_loop_None)
  then show ?thesis by (simp add: sanitize_cases)
qed

theorem sanitized_message_has_no_path_witness:
  "next_absolute_path (lit ''ok'') = None \<and> sanitize_client_error_message (lit ''ok'') = lit ''ok''"
proof -
  have none: "next_absolute_path (lit ''ok'') = None"
    by (simp add: next_absolute_path_def lit_def absolute_path_len_def starts_with_unix_absolute_path_def
        starts_with_windows_absolute_path_def)
  from sanitized_message_has_no_path [of "lit ''ok''"] none show ?thesis by blast
qed

text \<open>the redaction misses paths in a list. A comma or a semicolon ends a path token but is not a
  boundary at which the scanner lets a path start, so of two absolute paths separated by a comma
  only the first is redacted.\<close>

theorem redaction_misses_path_after_comma:
  "sanitize_client_error_message (lit ''/etc/a,/etc/b'') = lit ''[redacted path],/etc/b''"
proof -
  let ?m = "lit ''/etc/a,/etc/b''"
  have first: "next_absolute_path ?m = Some (0, 6)"
    by (simp add: next_absolute_path_def lit_def absolute_path_len_def starts_with_unix_absolute_path_def
        has_path_token_boundary_def is_unix_path_segment_char_def is_path_terminator_def is_whitespace_def
        path_token_len_def)
  have rest: "next_absolute_path (lit '',/etc/b'') = None"
    by (simp add: next_absolute_path_def lit_def absolute_path_len_def starts_with_unix_absolute_path_def
        starts_with_windows_absolute_path_def has_path_token_boundary_def is_whitespace_def)
  have "drop (0 + 6) ?m = lit '',/etc/b''" by (simp add: lit_def)
  then have "sanitize_loop ?m [] False = (REDACTED_PATH @ lit '',/etc/b'', True)"
    using first rest by (simp add: sanitize_loop.simps [of ?m] sanitize_loop.simps [of "lit '',/etc/b''"]) (simp add: lit_def)
  then show ?thesis by (simp add: sanitize_client_error_message_def REDACTED_PATH_def lit_def)
qed

section \<open>Backend errors\<close>

datatype backend_failure_class =
    BackendExecution | SchedulerFailure | TensorLoadFailure | TokenizerFailure | SamplerFailure | MetalFailure
  | ConfigFailure | InternalInvariantFailure

fun failure_class_as_str :: "backend_failure_class \<Rightarrow> rstr" where
  "failure_class_as_str BackendExecution = lit ''backend_execution''"
| "failure_class_as_str SchedulerFailure = lit ''scheduler''"
| "failure_class_as_str TensorLoadFailure = lit ''tensor_load''"
| "failure_class_as_str TokenizerFailure = lit ''tokenizer''"
| "failure_class_as_str SamplerFailure = lit ''sampler''"
| "failure_class_as_str MetalFailure = lit ''metal''"
| "failure_class_as_str ConfigFailure = lit ''config''"
| "failure_class_as_str InternalInvariantFailure = lit ''internal_invariant''"

datatype backend_error =
    BeModelNotFound rstr rstr
  | BeUnsupportedRequest rstr
  | BeInvalidSamplingConfig rstr
  | BeCancelled
  | BeBackendFailure rstr rstr
  | BeSchedulerOverloaded rstr
  | BeTensorLoad rstr rstr
  | BeTokenizer rstr
  | BeSampler rstr
  | BeMetal rstr
  | BeConfig rstr
  | BeInternalInvariant rstr





datatype backend_error_domain =
    DomainModelNotFound rstr rstr
  | DomainInvalidRequest rstr
  | DomainCancelled
  | DomainBackendFailure backend_error

fun into_domain :: "backend_error \<Rightarrow> backend_error_domain" where
  "into_domain (BeModelNotFound requested available) = DomainModelNotFound requested available"
| "into_domain (BeUnsupportedRequest reason) = DomainInvalidRequest reason"
| "into_domain (BeInvalidSamplingConfig reason) = DomainInvalidRequest reason"
| "into_domain BeCancelled = DomainCancelled"
| "into_domain e = DomainBackendFailure e"

section \<open>Runtime errors\<close>

record parser_error =
  pe_code :: rstr
  pe_message :: rstr

definition malformed_tool :: "rstr \<Rightarrow> parser_error" where
  "malformed_tool message = \<lparr>pe_code = lit ''malformed_tool_call'', pe_message = message\<rparr>"

definition unsupported_multimodal :: "rstr \<Rightarrow> parser_error" where
  "unsupported_multimodal message = \<lparr>pe_code = lit ''unsupported_multimodal_output'', pe_message = message\<rparr>"

definition unsupported_model_family :: "rstr \<Rightarrow> parser_error" where
  "unsupported_model_family family =
     \<lparr>pe_code = lit ''unsupported_model_family'',
      pe_message = fmt [lit ''model family `'', family, lit ''` does not have a parser'']\<rparr>"

datatype no_progress_class =
    EmptyCompletion | EmptyHighOutputCompletion | HiddenOnlyOutput | TextFallbackRequiredTool
  | RepeatedInvalidToolCall | FuzzyRepeatedInvalidToolCall | RepeatedAssistantContent | StalledAssistantTurn



datatype runtime_error =
    RtApi api_error
  | RtModelUnavailable rstr rstr
  | RtInvalidRequest rstr
  | RtCancelled
  | RtBackendFailed backend_error
  | RtTemplate rstr
  | RtParser parser_error
  | RtJson rstr
  | RtJsonMode rstr
  | RtToolCallValidation rstr
  | RtNoProgress no_progress_class


definition runtime_from_backend :: "backend_error \<Rightarrow> runtime_error" where
  "runtime_from_backend e =
     (case into_domain e of
        DomainModelNotFound requested available \<Rightarrow> RtModelUnavailable requested available
      | DomainInvalidRequest reason \<Rightarrow> RtInvalidRequest reason
      | DomainCancelled \<Rightarrow> RtCancelled
      | DomainBackendFailure source \<Rightarrow> RtBackendFailed source)"


section \<open>Error responses\<close>























end
