(* ===== verification/Completion_Stream.thy ===== *)
theory Completion_Stream
  imports Stop Engine_Error
begin

text \<open>
  Text completions: the streaming response (llm-runtime/src/streaming.rs) and the non-streaming one
  (llm-runtime/src/completions.rs) over the chunks or the output that a backend produces
  (llm-backend-contracts/src/lib.rs).

  A stream is what it yields and how it ends: \<open>emitting\<close> pairs the events with the result of the
  generator, which is the error of \<open>?\<close>, a panic, or the value with which it goes on. The backend's
  stream is the list of its items. The response identifier and the clock are arguments.
\<close>

section \<open>Backend chunks and responses\<close>

datatype backend_finish_reason = BfStop | BfLength | BfToolCalls | BfContentFilter | BfError

datatype backend_stream_timing_milestone =
    ResponseHeaders
  | FirstUpstreamByte
  | FirstParsedChunk
  | FirstToolDelta
  | UpstreamComplete

datatype backend_stream_progress =
    PrefillProgress nat nat nat nat
  | MlxStreamTiming backend_stream_timing_milestone nat

datatype backend_tool_call_type = BtcFunction

record backend_tool_call_function_delta =
  bfd_name :: "rstr option"
  bfd_arguments :: "rstr option"

record backend_tool_call_delta =
  btd_index :: nat
  btd_id :: "rstr option"
  btd_call_type :: "backend_tool_call_type option"
  btd_function :: "backend_tool_call_function_delta option"

record backend_stream_chunk =
  bsc_text :: rstr
  bsc_tool_call_deltas :: "backend_tool_call_delta list"
  bsc_prompt_tokens :: nat
  bsc_prompt_cached_tokens :: "nat option"
  bsc_completion_tokens :: nat
  bsc_finish_reason :: "backend_finish_reason option"
  bsc_progress :: "backend_stream_progress option"

record backend_output =
  bo_text :: rstr
  bo_prompt_tokens :: nat
  bo_prompt_cached_tokens :: "nat option"
  bo_completion_tokens :: nat
  bo_finish_reason :: backend_finish_reason

record completion_choice =
  cc_text :: rstr
  cc_index :: nat
  cc_finish_reason :: "finish_reason option"

record completion_stream_response =
  csr_id :: rstr
  csr_object :: rstr
  csr_created :: int
  csr_model :: rstr
  csr_choices :: "completion_choice list"
  csr_usage :: "usage option"

datatype completion_stream_event =
    EvChunk completion_stream_response
  | EvProgress backend_stream_progress
  | EvComplete usage

record runtime_completion_seed =
  seed_id :: rstr
  seed_created :: int
  seed_model :: rstr

record runtime_completion =
  rc_id :: rstr
  rc_created :: int
  rc_model :: rstr
  rc_text :: rstr
  rc_finish_reason :: finish_reason
  rc_usage :: usage

section \<open>Helpers\<close>

definition usage_from_tokens :: "nat \<Rightarrow> nat \<Rightarrow> nat option \<Rightarrow> usage" where
  "usage_from_tokens prompt_tokens completion_tokens prompt_cached_tokens =
     with_prompt_cached_tokens prompt_cached_tokens (usage_new prompt_tokens completion_tokens)"

fun max_optional_u64 :: "nat option \<Rightarrow> nat option \<Rightarrow> nat option" where
  "max_optional_u64 (Some current) (Some new) = Some (max current new)"
| "max_optional_u64 (Some current) None = Some current"
| "max_optional_u64 None (Some new) = Some new"
| "max_optional_u64 None None = None"

fun api_finish_reason :: "backend_finish_reason \<Rightarrow> finish_reason" where
  "api_finish_reason BfStop = FinishStop"
| "api_finish_reason BfLength = FinishLength"
| "api_finish_reason BfToolCalls = FinishToolCalls"
| "api_finish_reason BfContentFilter = FinishContentFilter"
| "api_finish_reason BfError = FinishError"

definition completion_stream_seed_chunk ::
  "runtime_completion_seed \<Rightarrow> rstr \<Rightarrow> finish_reason option \<Rightarrow> usage option \<Rightarrow> completion_stream_response" where
  "completion_stream_seed_chunk seed text finish_reason usage_opt =
     \<lparr>csr_id = seed_id seed, csr_object = lit ''text_completion'', csr_created = seed_created seed,
      csr_model = seed_model seed,
      csr_choices =
        (if usage_opt \<noteq> None then []
         else [\<lparr>cc_text = text, cc_index = 0, cc_finish_reason = finish_reason\<rparr>]),
      csr_usage = usage_opt\<rparr>"

definition classify_no_progress :: "rstr \<Rightarrow> nat \<Rightarrow> no_progress_class option" where
  "classify_no_progress content completion_tokens =
     (if trim content = [] \<and> 1024 \<le> completion_tokens then Some EmptyHighOutputCompletion
      else if trim content = [] then Some EmptyCompletion
      else None)"

section \<open>The streaming response\<close>

type_synonym ('e, 'a) emits = "'e list \<times> (runtime_error, 'a) outcome"
type_synonym 'a emitting = "(completion_stream_event, 'a) emits"

definition and_then :: "('e, 'a) emits \<Rightarrow> ('a \<Rightarrow> ('e, 'b) emits) \<Rightarrow> ('e, 'b) emits" where
  "and_then m k =
     (case m of
        (evs, Ok a) \<Rightarrow> (let (evs', r) = k a in (evs @ evs', r))
      | (evs, Err e) \<Rightarrow> (evs, Err e)
      | (evs, Panic) \<Rightarrow> (evs, Panic))"

record completion_stream_state =
  cs_raw_text :: rstr
  cs_emitted_len :: nat
  cs_prompt_tokens :: nat
  cs_prompt_cached_tokens :: "nat option"
  cs_completion_tokens :: nat
  cs_finish_reason :: finish_reason
  cs_detector :: stop_detector

definition completion_stream_start :: "rstr list \<Rightarrow> completion_stream_state" where
  "completion_stream_start stop =
     \<lparr>cs_raw_text = [], cs_emitted_len = 0, cs_prompt_tokens = 0, cs_prompt_cached_tokens = None,
      cs_completion_tokens = 0, cs_finish_reason = FinishLength, cs_detector = stop_detector_new stop\<rparr>"

text \<open>Yield the text from \<open>m\<close> to \<open>n\<close>, when there is any.\<close>

definition emit_slice :: "runtime_completion_seed \<Rightarrow> nat \<Rightarrow> nat \<Rightarrow> rstr \<Rightarrow> unit emitting" where
  "emit_slice seed m n raw =
     (if m < n then
        case str_slice m n raw of
          None \<Rightarrow> ([], Panic)
        | Some text \<Rightarrow> ([EvChunk (completion_stream_seed_chunk seed text None None)], Ok ())
      else ([], Ok ()))"

text \<open>The text of one chunk; the flag tells that a stop sequence ended the loop.\<close>

definition completion_text_step ::
  "runtime_completion_seed \<Rightarrow> rstr list \<Rightarrow> nat \<Rightarrow> rstr \<Rightarrow> completion_stream_state \<Rightarrow>
   (completion_stream_state \<times> bool) emitting" where
  "completion_text_step seed stop max_stop_len text st =
     (if text = [] then ([], Ok (st, False))
      else
        let raw = cs_raw_text st @ text; st1 = st\<lparr>cs_raw_text := raw\<rparr>
        in case observe (cs_detector st) raw stop of
             None \<Rightarrow> ([], Panic)
           | Some (det, Some stop_at) \<Rightarrow>
               and_then (emit_slice seed (cs_emitted_len st) stop_at raw)
                 (\<lambda>_. ([], Ok (st1\<lparr>cs_detector := det, cs_emitted_len := stop_at,
                                 cs_finish_reason := FinishStop\<rparr>, True)))
           | Some (det, None) \<Rightarrow>
               let safe_len = safe_stream_emit_len raw max_stop_len
               in and_then (emit_slice seed (cs_emitted_len st) safe_len raw)
                    (\<lambda>_. ([], Ok (st1\<lparr>cs_detector := det,
                       cs_emitted_len := (if cs_emitted_len st < safe_len then safe_len else cs_emitted_len st)\<rparr>,
                       False))))"

definition completion_counters :: "backend_stream_chunk \<Rightarrow> completion_stream_state \<Rightarrow> completion_stream_state" where
  "completion_counters chunk st =
     st\<lparr>cs_prompt_tokens := max (cs_prompt_tokens st) (bsc_prompt_tokens chunk),
        cs_prompt_cached_tokens := max_optional_u64 (cs_prompt_cached_tokens st) (bsc_prompt_cached_tokens chunk),
        cs_completion_tokens := sat_add (cs_completion_tokens st) (bsc_completion_tokens chunk)\<rparr>"

definition progress_event :: "backend_stream_chunk \<Rightarrow> completion_stream_event list" where
  "progress_event chunk = (case bsc_progress chunk of None \<Rightarrow> [] | Some p \<Rightarrow> [EvProgress p])"

fun completion_loop ::
  "runtime_completion_seed \<Rightarrow> rstr list \<Rightarrow> nat \<Rightarrow> completion_stream_state \<Rightarrow>
   (backend_error + backend_stream_chunk) list \<Rightarrow> completion_stream_state emitting" where
  "completion_loop seed stop max_stop_len st [] = ([], Ok st)"
| "completion_loop seed stop max_stop_len st (Inl e # rest) = ([], Err (runtime_from_backend e))"
| "completion_loop seed stop max_stop_len st (Inr chunk # rest) =
     and_then (progress_event chunk, Ok ()) (\<lambda>_.
     and_then (completion_text_step seed stop max_stop_len (bsc_text chunk) (completion_counters chunk st))
       (\<lambda>(st', stopped).
          if stopped then ([], Ok st')
          else case bsc_finish_reason chunk of
                 Some reason \<Rightarrow> ([], Ok (st'\<lparr>cs_finish_reason := api_finish_reason reason\<rparr>))
               | None \<Rightarrow> completion_loop seed stop max_stop_len st' rest))"

text \<open>After the loop: the rest of the text, the no-progress check, the finish reason and the usage.\<close>

definition completion_tail :: "runtime_completion_seed \<Rightarrow> completion_stream_state \<Rightarrow> completion_stream_state emitting" where
  "completion_tail seed st =
     (if cs_finish_reason st \<noteq> FinishStop \<and> cs_emitted_len st < str_len (cs_raw_text st) then
        case str_from (cs_emitted_len st) (cs_raw_text st) of
          None \<Rightarrow> ([], Panic)
        | Some text \<Rightarrow>
            ([EvChunk (completion_stream_seed_chunk seed text None None)],
             Ok (st\<lparr>cs_emitted_len := str_len (cs_raw_text st)\<rparr>))
      else ([], Ok st))"

definition completion_close :: "runtime_completion_seed \<Rightarrow> bool \<Rightarrow> completion_stream_state \<Rightarrow> unit emitting" where
  "completion_close seed include_usage st =
     (case str_upto (cs_emitted_len st) (cs_raw_text st) of
        None \<Rightarrow> ([], Panic)
      | Some visible_text \<Rightarrow>
          (case classify_no_progress visible_text (cs_completion_tokens st) of
             Some class \<Rightarrow> ([], Err (RtNoProgress class))
           | None \<Rightarrow>
               let usage = usage_from_tokens (cs_prompt_tokens st) (cs_completion_tokens st)
                             (cs_prompt_cached_tokens st)
               in ([EvChunk (completion_stream_seed_chunk seed [] (Some (cs_finish_reason st)) None)] @
                   (if include_usage then [EvChunk (completion_stream_seed_chunk seed [] None (Some usage))] else []) @
                   [EvComplete usage], Ok ())))"

text \<open>The generator, and whether the cancellation token is cancelled when it ends: the guard is
  disarmed once the loop is left, and cancels when it is dropped on the way out of an error.\<close>

definition streaming_completion_stream ::
  "runtime_completion_seed \<Rightarrow> (backend_error + backend_stream_chunk) list \<Rightarrow> rstr list \<Rightarrow> bool \<Rightarrow>
   unit emitting \<times> bool" where
  "streaming_completion_stream seed backend_stream stop include_usage =
     (let body = completion_loop seed stop (max_stop_sequence_len stop) (completion_stream_start stop) backend_stream
      in (and_then body (\<lambda>st. and_then (completion_tail seed st) (completion_close seed include_usage)),
          (case snd body of Ok _ \<Rightarrow> False | _ \<Rightarrow> True)))"

section \<open>The non-streaming response\<close>

definition complete_text ::
  "rstr \<Rightarrow> int \<Rightarrow> rstr \<Rightarrow> rstr list \<Rightarrow> backend_error + backend_output \<Rightarrow>
   (runtime_error, runtime_completion) outcome" where
  "complete_text new_id created model stop output_result =
     (case output_result of
        Inl e \<Rightarrow> Err (runtime_from_backend e)
      | Inr output \<Rightarrow>
          (case apply_stop_sequences (bo_text output) stop of
             None \<Rightarrow> Panic
           | Some (text, stopped) \<Rightarrow>
               (case classify_no_progress text (bo_completion_tokens output) of
                  Some class \<Rightarrow> Err (RtNoProgress class)
                | None \<Rightarrow>
                    Ok \<lparr>rc_id = fmt [lit ''cmpl-'', new_id], rc_created = created, rc_model = model, rc_text = text,
                        rc_finish_reason =
                          (if stopped then FinishStop else api_finish_reason (bo_finish_reason output)),
                        rc_usage = usage_from_tokens (bo_prompt_tokens output) (bo_completion_tokens output)
                          (bo_prompt_cached_tokens output)\<rparr>)))"

end
