(* ===== verification/Completion_Stream_Props.thy ===== *)
theory Completion_Stream_Props
  imports Completion_Stream
begin

text \<open>
  What clients see of a streamed completion: the text, against a reference that scans the whole text
  after each chunk; that no stop sequence leaks; agreement with the non-streaming response.
\<close>

section \<open>What the client sees\<close>

fun event_texts :: "completion_stream_event \<Rightarrow> rstr" where
  "event_texts (EvChunk r) = concat (map cc_text (csr_choices r))"
| "event_texts _ = []"

definition emitted_text :: "completion_stream_event list \<Rightarrow> rstr" where
  "emitted_text evs = concat (map event_texts evs)"

fun event_finish_reasons :: "completion_stream_event \<Rightarrow> finish_reason list" where
  "event_finish_reasons (EvChunk r) = List.map_filter cc_finish_reason (csr_choices r)"
| "event_finish_reasons _ = []"

definition finish_reasons :: "completion_stream_event list \<Rightarrow> finish_reason list" where
  "finish_reasons evs = concat (map event_finish_reasons evs)"

text \<open>The reference: after each chunk with text, search all of the text so far.\<close>

fun reference_run :: "rstr list \<Rightarrow> rstr \<Rightarrow> backend_stream_chunk list \<Rightarrow> rstr \<times> finish_reason" where
  "reference_run stop p [] = (p, FinishLength)"
| "reference_run stop p (c # cs) =
     (let q = p @ bsc_text c
      in case (if bsc_text c = [] then None else earliest_stop_index q stop) of
           Some n \<Rightarrow> (the (str_upto n q), FinishStop)
         | None \<Rightarrow>
             (case bsc_finish_reason c of
                Some r \<Rightarrow> (q, api_finish_reason r)
              | None \<Rightarrow> reference_run stop q cs))"

section \<open>The invariant of the loop\<close>

lemma emitted_text_simps [simp]:
  "emitted_text [] = []"
  "emitted_text (e # evs) = event_texts e @ emitted_text evs"
  "emitted_text (evs @ evs') = emitted_text evs @ emitted_text evs'"
  by (simp_all add: emitted_text_def)

lemma finish_reasons_simps [simp]:
  "finish_reasons [] = []"
  "finish_reasons (e # evs) = event_finish_reasons e @ finish_reasons evs"
  "finish_reasons (evs @ evs') = finish_reasons evs @ finish_reasons evs'"
  by (simp_all add: finish_reasons_def)

lemma seed_chunk_choices [simp]:
  "csr_choices (completion_stream_seed_chunk seed t f us) =
     (if us = None then [\<lparr>cc_text = t, cc_index = 0, cc_finish_reason = f\<rparr>] else [])"
  by (simp add: completion_stream_seed_chunk_def)

lemma and_then_simps [simp]:
  "and_then (evs, Ok a) k = (evs @ fst (k a), snd (k a))"
  "and_then (evs, Err e) k = (evs, Err e)"
  "and_then (evs, Panic) k = (evs, Panic)"
  by (simp_all add: and_then_def split: prod.splits)

lemma progress_event_silent [simp]:
  "emitted_text (progress_event c) = []" "finish_reasons (progress_event c) = []"
  by (simp_all add: progress_event_def split: option.splits)

lemma counters_simps [simp]:
  "cs_raw_text (completion_counters c st) = cs_raw_text st"
  "cs_emitted_len (completion_counters c st) = cs_emitted_len st"
  "cs_finish_reason (completion_counters c st) = cs_finish_reason st"
  "cs_detector (completion_counters c st) = cs_detector st"
  by (simp_all add: completion_counters_def)

text \<open>\<open>stream_inv stop u st\<close>: the text \<open>u\<close> has been sent, it is the part of the text received up to
  \<open>emitted_len\<close>, and no stop sequence in any continuation begins inside it.\<close>

definition stream_inv :: "rstr list \<Rightarrow> rstr \<Rightarrow> completion_stream_state \<Rightarrow> bool" where
  "stream_inv stop u st \<longleftrightarrow>
     detector_at (cs_detector st) (cs_raw_text st) stop \<and>
     (cs_raw_text st = [] \<or> earliest_stop_index (cs_raw_text st) stop = None) \<and>
     prefix u (cs_raw_text st) \<and> cs_emitted_len st = str_len u \<and>
     (\<forall>x n. hit stop (cs_raw_text st @ x) n \<longrightarrow> str_len u \<le> n) \<and>
     (max_stop_sequence_len stop \<le> 1 \<longrightarrow> u = cs_raw_text st) \<and>
     cs_finish_reason st = FinishLength"

lemma stream_inv_start: "stream_inv stop [] (completion_stream_start stop)"
  by (simp add: stream_inv_def completion_stream_start_def detector_at_new)

lemma stream_inv_counters [simp]: "stream_inv stop u (completion_counters c st) = stream_inv stop u st"
  by (simp add: stream_inv_def)

lemma emit_slice_prefix:
  assumes "prefix u w" and "prefix w raw"
  obtains evs where "emit_slice seed (str_len u) (str_len w) raw = (evs, Ok ())"
    "u @ emitted_text evs = w" "finish_reasons evs = []"
proof -
  from assms obtain a b where ab: "w = u @ a" "raw = u @ a @ b" by (auto simp: prefix_def)
  show thesis
  proof (cases "a = []")
    case True
    with ab that show thesis by (simp add: emit_slice_def)
  next
    case False
    then have "0 < str_len a" using length_le_str_len [of a] by (cases a) auto
    with ab that show thesis by (simp add: emit_slice_def)
  qed
qed

text \<open>One chunk's text: either the first stop sequence is found and everything before it has been sent,
  or the invariant holds again.\<close>

lemma completion_text_step_stop:
  assumes "stream_inv stop u st" and "tx \<noteq> []" and "earliest_stop_index (cs_raw_text st @ tx) stop = Some n"
  obtains evs st' where "completion_text_step seed stop (max_stop_sequence_len stop) tx st = (evs, Ok (st', True))"
    "str_upto n (cs_raw_text st @ tx) = Some (u @ emitted_text evs)" "finish_reasons evs = []"
    "cs_raw_text st' = cs_raw_text st @ tx" "cs_emitted_len st' = n" "cs_finish_reason st' = FinishStop"
proof -
  let ?raw = "cs_raw_text st @ tx"
  from assms(1) have inv: "detector_at (cs_detector st) (cs_raw_text st) stop"
    "cs_raw_text st = [] \<or> earliest_stop_index (cs_raw_text st) stop = None"
    "prefix u (cs_raw_text st)" "cs_emitted_len st = str_len u" "hit stop ?raw n \<longrightarrow> str_len u \<le> n"
    by (simp_all add: stream_inv_def)
  obtain det where det: "observe (cs_detector st) ?raw stop = Some (det, Some n)"
    using observe_full_scan [OF inv(1,2), of tx] assms(3) by auto
  obtain w v where w: "?raw = w @ v" "str_len w = n" using earliest_SomeD(3) [OF assms(3)] by blast
  have "str_len u \<le> str_len w" using inv(5) earliest_SomeD(1) [OF assms(3)] w(2) by simp
  moreover have "prefix u ?raw" using inv(3) by (rule prefix_prefix)
  moreover have "prefix w ?raw" unfolding w(1) by simp
  ultimately have "prefix u w" using prefix_bytes by blast
  then obtain evs where evs: "emit_slice seed (str_len u) (str_len w) ?raw = (evs, Ok ())"
    "u @ emitted_text evs = w" "finish_reasons evs = []" using emit_slice_prefix \<open>prefix w ?raw\<close> by blast
  show thesis
    by (rule that [of evs "st\<lparr>cs_raw_text := ?raw, cs_detector := det, cs_emitted_len := n,
          cs_finish_reason := FinishStop\<rparr>"])
      (use det evs inv(4) assms(2) w in \<open>simp_all add: completion_text_step_def str_upto_Some\<close>)
qed

lemma completion_text_step_continue:
  assumes "stream_inv stop u st" and "tx = [] \<or> earliest_stop_index (cs_raw_text st @ tx) stop = None"
  obtains evs st' where "completion_text_step seed stop (max_stop_sequence_len stop) tx st = (evs, Ok (st', False))"
    "stream_inv stop (u @ emitted_text evs) st'" "cs_raw_text st' = cs_raw_text st @ tx" "finish_reasons evs = []"
proof (cases "tx = []")
  case True
  then show thesis using assms(1) by (intro that [of "[]" st]) (simp_all add: completion_text_step_def)
next
  case False
  let ?raw = "cs_raw_text st @ tx" and ?m = "max_stop_sequence_len stop"
  from False assms(2) have none: "earliest_stop_index ?raw stop = None" by simp
  from assms(1) have inv: "detector_at (cs_detector st) (cs_raw_text st) stop"
    "cs_raw_text st = [] \<or> earliest_stop_index (cs_raw_text st) stop = None"
    "prefix u (cs_raw_text st)" "cs_emitted_len st = str_len u" "cs_finish_reason st = FinishLength"
    "\<And>x n. hit stop (cs_raw_text st @ x) n \<Longrightarrow> str_len u \<le> n" "?m \<le> 1 \<Longrightarrow> u = cs_raw_text st"
    by (simp_all add: stream_inv_def)
  obtain det where det: "observe (cs_detector st) ?raw stop = Some (det, None)" "detector_at det ?raw stop"
    using observe_full_scan [OF inv(1,2), of tx] none by auto
  obtain s r where s: "?raw = s @ r" "str_len s = safe_stream_emit_len ?raw ?m" by (rule safe_emit_split)
  define w where "w = (if str_len u < str_len s then s else u)"
  have pre: "prefix u ?raw" using inv(3) by (rule prefix_prefix)
  have pre2: "prefix s ?raw" unfolding s(1) by simp
  have w: "prefix u w" "prefix w ?raw" using prefix_bytes [OF pre pre2] pre pre2 by (auto simp: w_def)
  have hits: "str_len w \<le> n" if "hit stop (?raw @ x) n" for x n
    using inv(6) [of "tx @ x" n] that none safe_emit_before_hit [OF that] s(2)
    by (auto simp: w_def earliest_None_iff)
  have all: "w = ?raw" if "?m \<le> 1"
  proof -
    have "str_len s = str_len ?raw" using s(2) that by (simp add: safe_stream_emit_len_def)
    then have "s = ?raw" using prefix_bytes [of ?raw ?raw s] pre2 by (simp add: prefix_order.antisym)
    moreover have "str_len u < str_len ?raw"
      using inv(7) [OF that] False length_le_str_len [of tx] by (cases tx) auto
    ultimately show ?thesis by (simp add: w_def)
  qed
  obtain evs where evs: "emit_slice seed (str_len u) (str_len w) ?raw = (evs, Ok ())"
    "u @ emitted_text evs = w" "finish_reasons evs = []" using emit_slice_prefix [OF w] by blast
  have same: "emit_slice seed (str_len u) (str_len s) ?raw = emit_slice seed (str_len u) (str_len w) ?raw"
    by (simp add: w_def emit_slice_def)
  show thesis
    by (rule that [of evs "st\<lparr>cs_raw_text := ?raw, cs_detector := det, cs_emitted_len := str_len w\<rparr>"])
      (use det evs inv(4,5) False w none hits all same s(2)
        in \<open>simp_all add: completion_text_step_def stream_inv_def Let_def w_def\<close>)
qed

section \<open>The whole loop\<close>

text \<open>How the loop ends when the backend reports no error: \<open>tx\<close> is the reference text.\<close>

definition stream_end :: "rstr list \<Rightarrow> backend_stream_chunk list \<Rightarrow> rstr \<Rightarrow> rstr \<Rightarrow> completion_stream_state \<Rightarrow> bool" where
  "stream_end stop cs tx u st \<longleftrightarrow>
     prefix u (cs_raw_text st) \<and> cs_emitted_len st = str_len u \<and>
     (cs_finish_reason st = FinishStop \<and> u = tx \<or>
      cs_raw_text st = tx \<and> (max_stop_sequence_len stop \<le> 1 \<longrightarrow> u = tx) \<and>
      (cs_finish_reason st = FinishStop \<longrightarrow> (\<exists>c \<in> set cs. bsc_finish_reason c = Some BfStop)))"

lemma stream_end_Cons: "stream_end stop cs tx u st \<Longrightarrow> stream_end stop (c # cs) tx u st"
  by (auto simp: stream_end_def)

lemma api_finish_reason_Stop: "api_finish_reason r = FinishStop \<longleftrightarrow> r = BfStop"
  by (cases r) simp_all

lemma completion_loop_reference:
  assumes "stream_inv stop u st" and "reference_run stop (cs_raw_text st) cs = (tx, reason)"
  shows "\<exists>evs st'. completion_loop seed stop (max_stop_sequence_len stop) st (map Inr cs) = (evs, Ok st') \<and>
    finish_reasons evs = [] \<and> cs_finish_reason st' = reason \<and> stream_end stop cs tx (u @ emitted_text evs) st'"
  using assms
proof (induction cs arbitrary: u st)
  case Nil
  then show ?case by (auto simp: stream_inv_def stream_end_def)
next
  case (Cons c cs)
  let ?st = "completion_counters c st" and ?q = "cs_raw_text st @ bsc_text c"
  have inv: "stream_inv stop u ?st" using Cons.prems(1) by simp
  show ?case
  proof (cases "bsc_text c = [] \<or> earliest_stop_index ?q stop = None")
    case False
    then obtain n where n: "bsc_text c \<noteq> []" "earliest_stop_index ?q stop = Some n" by auto
    then obtain evs st' where step:
      "completion_text_step seed stop (max_stop_sequence_len stop) (bsc_text c) ?st = (evs, Ok (st', True))"
      "str_upto n ?q = Some (u @ emitted_text evs)" "finish_reasons evs = []"
      "cs_raw_text st' = ?q" "cs_emitted_len st' = n" "cs_finish_reason st' = FinishStop"
      using completion_text_step_stop [OF inv, of "bsc_text c" n] by auto
    have ref: "tx = u @ emitted_text evs" "reason = FinishStop" using Cons.prems(2) n step(2) by auto
    have "prefix tx ?q" "str_len tx = n" using step(2) ref(1) by (auto simp: str_upto_Some prefix_def)
    then have "stream_end stop (c # cs) tx (u @ emitted_text evs) st'"
      using step(4,5,6) ref by (simp add: stream_end_def)
    with step ref show ?thesis by simp
  next
    case True
    then obtain evs st' where step:
      "completion_text_step seed stop (max_stop_sequence_len stop) (bsc_text c) ?st = (evs, Ok (st', False))"
      "stream_inv stop (u @ emitted_text evs) st'" "cs_raw_text st' = ?q" "finish_reasons evs = []"
      using completion_text_step_continue [OF inv, of "bsc_text c"] by auto
    have look: "(if bsc_text c = [] then None else earliest_stop_index ?q stop) = None" using True by auto
    show ?thesis
    proof (cases "bsc_finish_reason c")
      case None
      have "reference_run stop (cs_raw_text st') cs = (tx, reason)"
        using Cons.prems(2) None step(3) by (simp add: Let_def look)
      from Cons.IH [OF step(2) this] obtain evs' st'' where
        "completion_loop seed stop (max_stop_sequence_len stop) st' (map Inr cs) = (evs', Ok st'')"
        "finish_reasons evs' = []" "cs_finish_reason st'' = reason"
        "stream_end stop cs tx (u @ emitted_text evs @ emitted_text evs') st''" by auto
      with step None show ?thesis by (auto intro: stream_end_Cons)
    next
      case (Some r)
      have "tx = ?q" "reason = api_finish_reason r" using Cons.prems(2) Some by (simp_all add: Let_def look)
      with step Some show ?thesis
        by (auto simp: stream_end_def stream_inv_def api_finish_reason_Stop)
    qed
  qed
qed

lemma completion_close_visible:
  assumes "prefix u (cs_raw_text st)" and "cs_emitted_len st = str_len u"
  shows "\<exists>evs r. completion_close seed inc st = (evs, r) \<and> emitted_text evs = [] \<and>
    (if trim u = [] then \<exists>c. r = Err (RtNoProgress c) else r = Ok () \<and> finish_reasons evs = [cs_finish_reason st])"
proof -
  have "str_upto (cs_emitted_len st) (cs_raw_text st) = Some u"
    using assms by (auto simp: prefix_def)
  then show ?thesis by (auto simp: completion_close_def classify_no_progress_def Let_def)
qed

lemma completion_finish_visible:
  assumes "stream_end stop cs tx u st"
    and "max_stop_sequence_len stop \<le> 1 \<or> (\<forall>c \<in> set cs. bsc_finish_reason c \<noteq> Some BfStop)"
  shows "\<exists>evs r. and_then (completion_tail seed st) (completion_close seed inc) = (evs, r) \<and> u @ emitted_text evs = tx \<and>
    (if trim tx = [] then \<exists>c. r = Err (RtNoProgress c) else r = Ok () \<and> finish_reasons evs = [cs_finish_reason st])"
proof (cases "u = tx")
  case True
  have "completion_tail seed st = ([], Ok st)"
  proof (cases "cs_finish_reason st = FinishStop")
    case False
    with assms(1) True show ?thesis by (simp add: completion_tail_def stream_end_def)
  qed (simp add: completion_tail_def)
  moreover obtain evs r where "completion_close seed inc st = (evs, r)" "emitted_text evs = []"
    "if trim u = [] then \<exists>c. r = Err (RtNoProgress c) else r = Ok () \<and> finish_reasons evs = [cs_finish_reason st]"
    using completion_close_visible [of u st seed inc] assms(1) by (auto simp: stream_end_def)
  ultimately show ?thesis using True by simp
next
  case False
  with assms have st: "prefix u tx" "cs_raw_text st = tx" "cs_emitted_len st = str_len u" "cs_finish_reason st \<noteq> FinishStop"
    by (auto simp: stream_end_def)
  then obtain v where v: "tx = u @ v" by (auto simp: prefix_def)
  with False have "0 < str_len v" using length_le_str_len [of v] by (cases v) auto
  then have tail: "completion_tail seed st =
    ([EvChunk (completion_stream_seed_chunk seed v None None)], Ok (st\<lparr>cs_emitted_len := str_len tx\<rparr>))"
    using st v by (simp add: completion_tail_def)
  obtain evs r where "completion_close seed inc (st\<lparr>cs_emitted_len := str_len tx\<rparr>) = (evs, r)" "emitted_text evs = []"
    "if trim tx = [] then \<exists>c. r = Err (RtNoProgress c) else r = Ok () \<and> finish_reasons evs = [cs_finish_reason st]"
    using completion_close_visible [of tx "st\<lparr>cs_emitted_len := str_len tx\<rparr>" seed inc] st(2) by auto
  with tail v show ?thesis by simp
qed

section \<open>No stop sequence leaks\<close>

text \<open>A text is clean if no non-empty stop sequence occurs in it.\<close>

definition clean :: "rstr list \<Rightarrow> rstr \<Rightarrow> bool" where
  "clean stop u \<longleftrightarrow> (\<forall>q \<in> set stop. q \<noteq> [] \<longrightarrow> \<not> sublist q u)"

lemma sublist_occurs: "sublist q u \<longleftrightarrow> (\<exists>n. occurs_at q u n)"
  by (auto simp: sublist_def occurs_at_def)

lemma clean_before_stop:
  assumes "\<And>n. hit stop raw n \<Longrightarrow> str_len u \<le> n" and "prefix u raw"
  shows "clean stop u"
  unfolding clean_def
proof (intro ballI impI notI)
  fix q
  assume q: "q \<in> set stop" "q \<noteq> []" "sublist q u"
  then obtain a b where u: "u = a @ q @ b" by (auto simp: sublist_def)
  then have "hit stop raw (str_len a)" using assms(2) q(1) by (fastforce simp: hit_def prefix_def)
  from assms(1) [OF this] u have "str_len q = 0" by simp
  then show False using q(2) length_le_str_len [of q] by simp
qed

lemma stream_inv_clean: "stream_inv stop u st \<Longrightarrow> clean stop u"
  by (rule clean_before_stop [of stop "cs_raw_text st"]) (auto simp: stream_inv_def dest: spec [of _ "[]"])

fun chunk_text :: "backend_error + backend_stream_chunk \<Rightarrow> rstr" where
  "chunk_text (Inl e) = []"
| "chunk_text (Inr c) = bsc_text c"

text \<open>The end of the loop on any backend stream. On an error nothing more is sent; otherwise all of the
  text received may be sent unless a stop sequence was found, and then nothing follows.\<close>

definition loop_safe :: "rstr list \<Rightarrow> rstr \<Rightarrow> rstr \<Rightarrow> (runtime_error, completion_stream_state) outcome \<Rightarrow> bool" where
  "loop_safe stop received u r \<longleftrightarrow> clean stop u \<and> prefix u received \<and>
     (case r of
        Ok st \<Rightarrow> prefix u (cs_raw_text st) \<and> prefix (cs_raw_text st) received \<and> cs_emitted_len st = str_len u \<and>
                 (cs_finish_reason st = FinishStop \<or> clean stop (cs_raw_text st))
      | Err _ \<Rightarrow> True
      | Panic \<Rightarrow> False)"

lemma no_hit_clean: "s = [] \<or> earliest_stop_index s stop = None \<Longrightarrow> clean stop s"
  using clean_before_stop [of stop s s] by (auto simp: earliest_None_iff clean_def)

lemma stream_inv_facts:
  assumes "stream_inv stop u st"
  shows "clean stop u" "clean stop (cs_raw_text st)" "prefix u (cs_raw_text st)" "cs_emitted_len st = str_len u"
  using stream_inv_clean [OF assms] no_hit_clean [of "cs_raw_text st" stop] assms
  by (simp_all add: stream_inv_def)

lemma loop_safe_mono: "loop_safe stop s u r \<Longrightarrow> prefix s t \<Longrightarrow> loop_safe stop t u r"
  by (auto simp: loop_safe_def split: outcome.splits intro: prefix_order.trans)

lemma completion_loop_safe:
  assumes "stream_inv stop u st"
  shows "\<exists>evs r. completion_loop seed stop (max_stop_sequence_len stop) st items = (evs, r) \<and>
    loop_safe stop (cs_raw_text st @ concat (map chunk_text items)) (u @ emitted_text evs) r \<and>
    (\<forall>e. r = Err e \<longrightarrow> (\<exists>b. Inl b \<in> set items \<and> e = runtime_from_backend b))"
  using assms
proof (induction items arbitrary: u st)
  case Nil
  then show ?case using stream_inv_facts [OF Nil] by (simp add: loop_safe_def)
next
  case (Cons item items)
  show ?case
  proof (cases item)
    case (Inl e)
    then show ?thesis using stream_inv_facts [OF Cons.prems] by (auto simp: loop_safe_def intro: prefix_prefix)
  next
    case (Inr c)
    let ?st = "completion_counters c st" and ?q = "cs_raw_text st @ bsc_text c"
    have inv: "stream_inv stop u ?st" using Cons.prems by simp
    show ?thesis
    proof (cases "bsc_text c = [] \<or> earliest_stop_index ?q stop = None")
      case False
      then obtain n where n: "bsc_text c \<noteq> []" "earliest_stop_index ?q stop = Some n" by auto
      then obtain evs st' where step:
        "completion_text_step seed stop (max_stop_sequence_len stop) (bsc_text c) ?st = (evs, Ok (st', True))"
        "str_upto n ?q = Some (u @ emitted_text evs)" "finish_reasons evs = []"
        "cs_raw_text st' = ?q" "cs_emitted_len st' = n" "cs_finish_reason st' = FinishStop"
        using completion_text_step_stop [OF inv, of "bsc_text c" n] by auto
      from step(2) have pre: "prefix (u @ emitted_text evs) ?q" "str_len (u @ emitted_text evs) = n"
        by (auto simp: str_upto_Some prefix_def)
      moreover have "clean stop (u @ emitted_text evs)"
        using clean_before_stop [OF _ pre(1)] earliest_SomeD(2) [OF n(2)] pre(2) by (meson not_less)
      moreover have "prefix ?q (cs_raw_text st @ concat (map chunk_text (item # items)))"
        using Inr by simp
      ultimately have "loop_safe stop (cs_raw_text st @ concat (map chunk_text (item # items)))
          (u @ emitted_text evs) (Ok st')"
        using step(4,5,6) by (auto simp: loop_safe_def intro: prefix_order.trans)
      with step Inr show ?thesis by simp
    next
      case True
      then obtain evs st' where step:
        "completion_text_step seed stop (max_stop_sequence_len stop) (bsc_text c) ?st = (evs, Ok (st', False))"
        "stream_inv stop (u @ emitted_text evs) st'" "cs_raw_text st' = ?q" "finish_reasons evs = []"
        using completion_text_step_continue [OF inv, of "bsc_text c"] by auto
      show ?thesis
      proof (cases "bsc_finish_reason c")
        case None
        from Cons.IH [OF step(2)] obtain evs' r where ih:
          "completion_loop seed stop (max_stop_sequence_len stop) st' items = (evs', r)"
          "loop_safe stop (cs_raw_text st' @ concat (map chunk_text items)) ((u @ emitted_text evs) @ emitted_text evs') r"
          "\<forall>e. r = Err e \<longrightarrow> (\<exists>b. Inl b \<in> set items \<and> e = runtime_from_backend b)" by blast
        with step None Inr show ?thesis by auto
      next
        case (Some r)
        have "loop_safe stop ?q (u @ emitted_text evs) (Ok (st'\<lparr>cs_finish_reason := api_finish_reason r\<rparr>))"
          using stream_inv_facts [OF step(2)] step(3) by (simp add: loop_safe_def)
        then have "loop_safe stop (cs_raw_text st @ concat (map chunk_text (item # items)))
            (u @ emitted_text evs) (Ok (st'\<lparr>cs_finish_reason := api_finish_reason r\<rparr>))"
          by (rule loop_safe_mono) (simp add: Inr)
        with step Some Inr show ?thesis by simp
      qed
    qed
  qed
qed

lemma completion_finish_safe:
  assumes "loop_safe stop received u (Ok st)"
  shows "\<exists>evs r. and_then (completion_tail seed st) (completion_close seed inc) = (evs, r) \<and> r \<noteq> Panic \<and>
    clean stop (u @ emitted_text evs) \<and> prefix (u @ emitted_text evs) received"
proof (cases "cs_finish_reason st = FinishStop \<or> u = cs_raw_text st")
  case True
  then have "completion_tail seed st = ([], Ok st)" using assms by (auto simp: completion_tail_def loop_safe_def)
  moreover obtain evs r where "completion_close seed inc st = (evs, r)" "emitted_text evs = []" "r \<noteq> Panic"
    using completion_close_visible [of u st seed inc] assms by (auto simp: loop_safe_def split: if_splits)
  ultimately show ?thesis using assms by (simp add: loop_safe_def)
next
  case False
  with assms have st: "prefix u (cs_raw_text st)" "cs_emitted_len st = str_len u" "clean stop (cs_raw_text st)"
    "prefix (cs_raw_text st) received" by (auto simp: loop_safe_def)
  then obtain v where v: "cs_raw_text st = u @ v" by (auto simp: prefix_def)
  with False have "0 < str_len v" using length_le_str_len [of v] by (cases v) auto
  then have tail: "completion_tail seed st =
    ([EvChunk (completion_stream_seed_chunk seed v None None)], Ok (st\<lparr>cs_emitted_len := str_len (u @ v)\<rparr>))"
    using False st v by (simp add: completion_tail_def)
  obtain evs r where "completion_close seed inc (st\<lparr>cs_emitted_len := str_len (u @ v)\<rparr>) = (evs, r)"
    "emitted_text evs = []" "r \<noteq> Panic"
    using completion_close_visible [of "u @ v" "st\<lparr>cs_emitted_len := str_len (u @ v)\<rparr>" seed inc] v
    by (auto split: if_splits)
  with tail v st show ?thesis by simp
qed

section \<open>Agreement with the non-streaming response\<close>

definition same_length :: "rstr list \<Rightarrow> bool" where
  "same_length stop \<longleftrightarrow> (\<forall>q \<in> set stop. str_len q = max_stop_sequence_len stop)"

lemma earliest_stop_extend:
  assumes "same_length stop" and "earliest_stop_index s stop = Some n"
  shows "earliest_stop_index (s @ t) stop = Some n"
proof (rule least_unique [OF earliest_stop_least])
  note hit = earliest_SomeD [OF assms(2)]
  from hit(1) assms(1) have room: "n + max_stop_sequence_len stop \<le> str_len s"
    by (auto simp: hit_def same_length_def)
  have "\<not> hit stop (s @ t) m" if "m < n" for m
    using new_hit_in_overlap [of stop s t m] hit(2) [OF that] room that by linarith
  with hit_append [OF hit(1)] show "least (hit stop (s @ t)) (Some n)" by (simp add: least_def)
qed

lemma str_upto_extend: "str_upto n s = Some u \<Longrightarrow> str_upto n (s @ t) = Some u"
  by (auto simp: str_upto_Some)

text \<open>With stop sequences of one length the reference does not depend on how the text is cut.\<close>

lemma reference_run_whole:
  assumes "same_length stop" and "[] \<notin> set stop" and "\<forall>c \<in> set cs. bsc_finish_reason c = None"
    and "bsc_finish_reason c = Some r"
  shows "earliest_stop_index p stop = None \<Longrightarrow>
    reference_run stop p (cs @ [c]) =
     (let q = p @ concat (map bsc_text (cs @ [c]))
      in case earliest_stop_index q stop of
           None \<Rightarrow> (q, api_finish_reason r)
         | Some n \<Rightarrow> (the (str_upto n q), FinishStop))"
  using assms(3)
proof (induction cs arbitrary: p)
  case Nil
  then show ?case using assms(4) by (auto simp: Let_def split: option.splits)
next
  case (Cons d cs)
  let ?s = "p @ bsc_text d" and ?t = "concat (map bsc_text (cs @ [c]))"
  show ?case
  proof (cases "earliest_stop_index ?s stop")
    case None
    then show ?thesis using Cons.IH [OF None] Cons.prems(2) by (auto simp: Let_def)
  next
    case (Some n)
    then have ne: "bsc_text d \<noteq> []" using Cons.prems(1) by auto
    obtain w where w: "str_upto n ?s = Some w" using earliest_SomeD(3) [OF Some] by auto
    have e: "earliest_stop_index (?s @ ?t) stop = Some n" by (rule earliest_stop_extend [OF assms(1) Some])
    have u: "str_upto n (?s @ ?t) = Some w" by (rule str_upto_extend [OF w])
    have "reference_run stop p ((d # cs) @ [c]) = (w, FinishStop)" using Some ne w by (simp add: Let_def)
    with e u show ?thesis by (simp add: Let_def)
  qed
qed

lemma earliest_Nil: "[] \<notin> set stop \<Longrightarrow> earliest_stop_index [] stop = None"
  by (auto simp: earliest_None_iff hit_def)

text \<open>So the reference is the stop handling of the whole text.\<close>

lemma reference_apply_stop:
  assumes "same_length stop" and "[] \<notin> set stop" and "\<forall>c \<in> set init. bsc_finish_reason c = None"
    and "bsc_finish_reason last_chunk = Some r"
  obtains tx stopped where "apply_stop_sequences (concat (map bsc_text (init @ [last_chunk]))) stop = Some (tx, stopped)"
    "reference_run stop [] (init @ [last_chunk]) = (tx, if stopped then FinishStop else api_finish_reason r)"
proof -
  let ?full = "concat (map bsc_text (init @ [last_chunk]))"
  note whole = reference_run_whole [OF assms earliest_Nil [OF assms(2)]]
  show thesis
  proof (cases "earliest_stop_index ?full stop")
    case None
    then show thesis using that [of ?full False] apply_stop_None [OF None] whole by simp
  next
    case (Some n)
    obtain u v where u: "?full = u @ v" "str_len u = n" using earliest_SomeD(3) [OF Some] by blast
    have "apply_stop_sequences ?full stop = Some (u, True)" using apply_stop_Some [of u v stop] Some u by simp
    moreover have "str_upto n ?full = Some u" using u by auto
    ultimately show thesis using that [of u True] Some whole by simp
  qed
qed

lemma completion_stream_reference:
  assumes "reference_run stop [] chunks = (tx, reason)"
    and "max_stop_sequence_len stop \<le> 1 \<or> (\<forall>c \<in> set chunks. bsc_finish_reason c \<noteq> Some BfStop)"
  shows "\<exists>evs r. streaming_completion_stream seed (map Inr chunks) stop include_usage = ((evs, r), False) \<and>
    emitted_text evs = tx \<and>
    (if trim tx = [] then \<exists>c. r = Err (RtNoProgress c) else r = Ok () \<and> finish_reasons evs = [reason])"
proof -
  obtain evs st where loop:
    "completion_loop seed stop (max_stop_sequence_len stop) (completion_stream_start stop) (map Inr chunks) = (evs, Ok st)"
    "finish_reasons evs = []" "cs_finish_reason st = reason" "stream_end stop chunks tx (emitted_text evs) st"
    using completion_loop_reference [OF stream_inv_start, of stop chunks tx reason seed] assms(1)
    by (auto simp: completion_stream_start_def)
  obtain evs' r where fin: "and_then (completion_tail seed st) (completion_close seed include_usage) = (evs', r)"
    "emitted_text evs @ emitted_text evs' = tx"
    "if trim tx = [] then \<exists>c. r = Err (RtNoProgress c) else r = Ok () \<and> finish_reasons evs' = [cs_finish_reason st]"
    using completion_finish_visible [OF loop(4) assms(2), of seed include_usage] by blast
  with loop(1-3) show ?thesis
    by (auto simp: streaming_completion_stream_def split: if_splits)
qed

section \<open>Properties\<close>

text \<open>C14: the text that a streamed completion shows. For a backend that reports no error, and whose chunks do
  not have the finish reason \<open>stop\<close> unless no stop sequence is longer than one byte, the client receives exactly the text that a search of the whole text after every
  chunk would let through: up to the first stop sequence found, or all of it; together with one
  finish reason. The stream then ends without error, or with the no-progress error when the text is
  blank, and leaves the cancellation token alone.\<close>

theorem completion_stream_text:
  assumes "reference_run stop [] chunks = (tx, reason)"
    and "max_stop_sequence_len stop \<le> 1 \<or> (\<forall>c \<in> set chunks. bsc_finish_reason c \<noteq> Some BfStop)"
  shows "\<exists>evs r. streaming_completion_stream seed (map Inr chunks) stop include_usage = ((evs, r), False) \<and>
    emitted_text evs = tx \<and>
    (if trim tx = [] then \<exists>c. r = Err (RtNoProgress c) else r = Ok () \<and> finish_reasons evs = [reason])"
  using assms by (rule completion_stream_reference)

text \<open>C13: stop sequences never leak. Whatever the backend sends, and even when it fails midway, the stream does
  not panic, what the client has received is a prefix of what the backend produced, and no stop
  sequence occurs in it; the backend is cancelled only when it reported an error, which is then the
  error of the stream.\<close>

theorem completion_stream_never_leaks_stop:
  "\<exists>evs r cancelled. streaming_completion_stream seed items stop include_usage = ((evs, r), cancelled) \<and>
     r \<noteq> Panic \<and> prefix (emitted_text evs) (concat (map chunk_text items)) \<and>
     (\<forall>q \<in> set stop. q \<noteq> [] \<longrightarrow> \<not> sublist q (emitted_text evs)) \<and>
     (cancelled \<longrightarrow> (\<exists>b. Inl b \<in> set items \<and> r = Err (runtime_from_backend b)))"
proof -
  obtain evs r where loop:
    "completion_loop seed stop (max_stop_sequence_len stop) (completion_stream_start stop) items = (evs, r)"
    "loop_safe stop (concat (map chunk_text items)) (emitted_text evs) r"
    "\<forall>e. r = Err e \<longrightarrow> (\<exists>b. Inl b \<in> set items \<and> e = runtime_from_backend b)"
    using completion_loop_safe [OF stream_inv_start, where stop = stop and seed = seed and items = items] by (auto simp: completion_stream_start_def)
  show ?thesis
  proof (cases r)
    case (Ok st)
    obtain evs' r' where "and_then (completion_tail seed st) (completion_close seed include_usage) = (evs', r')"
      "r' \<noteq> Panic" "clean stop (emitted_text evs @ emitted_text evs')"
      "prefix (emitted_text evs @ emitted_text evs') (concat (map chunk_text items))"
      using completion_finish_safe [of stop _ "emitted_text evs" st seed include_usage] loop(2) Ok by blast
    with loop(1) Ok show ?thesis by (auto simp: streaming_completion_stream_def clean_def)
  next
    case (Err e)
    with loop show ?thesis by (auto simp: streaming_completion_stream_def loop_safe_def clean_def)
  next
    case Panic
    with loop(2) show ?thesis by (simp add: loop_safe_def)
  qed
qed

text \<open>C15: streaming agrees with not streaming. Suppose the stop sequences are not empty and have one length (a
  single one in particular), the backend sends its output without error in any number of chunks of
  which the last one has the finish reason, and the stop sequences have one byte or the backend's
  finish reason is not \<open>stop\<close>. Then the streamed text and finish reason are those of the non-streaming
  response to the same output, and one fails for lack of progress exactly when the other does.\<close>

theorem streaming_agrees_with_complete_text:
  assumes "same_length stop" and "[] \<notin> set stop"
    and "\<forall>c \<in> set init. bsc_finish_reason c = None" and "bsc_finish_reason last_chunk = Some (bo_finish_reason output)"
    and "bo_text output = concat (map bsc_text (init @ [last_chunk]))"
    and "max_stop_sequence_len stop \<le> 1 \<or> bo_finish_reason output \<noteq> BfStop"
  shows "\<exists>evs r. streaming_completion_stream seed (map Inr (init @ [last_chunk])) stop include_usage = ((evs, r), False) \<and>
    (case complete_text new_id created model stop (Inr output) of
       Ok c \<Rightarrow> r = Ok () \<and> emitted_text evs = rc_text c \<and> finish_reasons evs = [rc_finish_reason c]
     | Err _ \<Rightarrow> \<exists>class. r = Err (RtNoProgress class)
     | Panic \<Rightarrow> False)"
proof -
  let ?full = "bo_text output" and ?cs = "init @ [last_chunk]"
  obtain tx stopped where ap: "apply_stop_sequences ?full stop = Some (tx, stopped)"
    and ref: "reference_run stop [] ?cs =
      (tx, if stopped then FinishStop else api_finish_reason (bo_finish_reason output))"
    unfolding assms(5) by (rule reference_apply_stop [OF assms(1-4)])
  have "max_stop_sequence_len stop \<le> 1 \<or> (\<forall>c \<in> set ?cs. bsc_finish_reason c \<noteq> Some BfStop)"
    using assms(3,4,6) by auto
  from completion_stream_reference [OF ref this] ap show ?thesis
    by (fastforce simp: complete_text_def classify_no_progress_def)
qed

section \<open>Instances\<close>

lemmas stream_eval = reference_run.simps earliest_stop_index_def str_find_def str_upto_def str_from_def
  str_slice_def str_truncate_def min_opt_def List.map_filter_def lit_def len_utf8_def max_stop_sequence_len_def
  observe_def stop_detector_new_def floor_char_boundary.simps is_char_boundary_def safe_stream_emit_len_def
  sat_sub_def trim_def trim_start_def trim_end_def is_whitespace_def

definition demo_chunk :: "rstr \<Rightarrow> backend_finish_reason option \<Rightarrow> backend_stream_chunk" where
  "demo_chunk t reason =
     \<lparr>bsc_text = t, bsc_tool_call_deltas = [], bsc_prompt_tokens = 3, bsc_prompt_cached_tokens = None,
      bsc_completion_tokens = 1, bsc_finish_reason = reason, bsc_progress = None\<rparr>"

definition demo_seed :: runtime_completion_seed where
  "demo_seed = \<lparr>seed_id = lit ''cmpl-1'', seed_created = 0, seed_model = lit ''m''\<rparr>"

definition demo_output :: "rstr \<Rightarrow> backend_finish_reason \<Rightarrow> backend_output" where
  "demo_output t reason =
     \<lparr>bo_text = t, bo_prompt_tokens = 3, bo_prompt_cached_tokens = None, bo_completion_tokens = 2,
      bo_finish_reason = reason\<rparr>"

theorem completion_stream_text_witness:
  "\<exists>evs. streaming_completion_stream demo_seed
      (map Inr [demo_chunk (lit ''ab E'') None, demo_chunk (lit ''ND cd'') None]) [lit ''END''] False = ((evs, Ok ()), False) \<and>
    emitted_text evs = lit ''ab '' \<and> finish_reasons evs = [FinishStop]"
proof -
  have ref: "reference_run [lit ''END''] [] [demo_chunk (lit ''ab E'') None, demo_chunk (lit ''ND cd'') None] =
      (lit ''ab '', FinishStop)" by (simp add: stream_eval demo_chunk_def)
  have fin: "max_stop_sequence_len [lit ''END''] \<le> 1 \<or>
    (\<forall>c \<in> set [demo_chunk (lit ''ab E'') None, demo_chunk (lit ''ND cd'') None]. bsc_finish_reason c \<noteq> Some BfStop)"
    by (simp add: demo_chunk_def)
  have "trim (lit ''ab '') \<noteq> []" by (simp add: stream_eval)
  with completion_stream_text [OF ref fin, of demo_seed False] show ?thesis by auto
qed

theorem completion_stream_never_leaks_stop_witness:
  "\<exists>evs r cancelled. streaming_completion_stream demo_seed
      [Inr (demo_chunk (lit ''ab E'') None), Inl BeCancelled] [lit ''END''] False = ((evs, r), cancelled) \<and>
    r \<noteq> Panic \<and> \<not> sublist (lit ''END'') (emitted_text evs)"
  using completion_stream_never_leaks_stop [of demo_seed "[Inr (demo_chunk (lit ''ab E'') None), Inl BeCancelled]"
      "[lit ''END'']" False]
  by (fastforce simp: lit_def)

theorem streaming_agrees_with_complete_text_witness:
  "\<exists>evs r. streaming_completion_stream demo_seed
      (map Inr ([demo_chunk (lit ''ab E'') None] @ [demo_chunk (lit ''ND'') (Some BfLength)])) [lit ''END''] True = ((evs, r), False) \<and>
    r = Ok () \<and> emitted_text evs = lit ''ab ''"
proof -
  let ?out = "demo_output (lit ''ab END'') BfLength"
  have "same_length [lit ''END'']" "[] \<notin> set [lit ''END'']"
    "\<forall>c \<in> set [demo_chunk (lit ''ab E'') None]. bsc_finish_reason c = None"
    "bsc_finish_reason (demo_chunk (lit ''ND'') (Some BfLength)) = Some (bo_finish_reason ?out)"
    "bo_text ?out = concat (map bsc_text ([demo_chunk (lit ''ab E'') None] @ [demo_chunk (lit ''ND'') (Some BfLength)]))"
    "max_stop_sequence_len [lit ''END''] \<le> 1 \<or> bo_finish_reason ?out \<noteq> BfStop"
    by (simp_all add: same_length_def max_stop_sequence_len_def demo_chunk_def demo_output_def lit_def)
  from streaming_agrees_with_complete_text [OF this, of demo_seed True "lit ''1''" 0 "lit ''m''"]
  show ?thesis
    by (auto simp: complete_text_def classify_no_progress_def apply_stop_sequences_def demo_output_def stream_eval)
qed

text \<open>the tail of a stream is lost when the backend reports \<open>stop\<close>. With a stop sequence of three bytes
  that does not occur, the last two bytes of a completion that the model itself ended are never sent,
  while the non-streaming response has them.\<close>

theorem stream_loses_tail_on_backend_stop:
  "\<exists>evs. streaming_completion_stream demo_seed [Inr (demo_chunk (lit ''hello!'') (Some BfStop))] [lit ''END''] False =
      ((evs, Ok ()), False) \<and> emitted_text evs = lit ''hell'' \<and> finish_reasons evs = [FinishStop] \<and>
    (\<exists>c. complete_text (lit ''1'') 0 (lit ''m'') [lit ''END''] (Inr (demo_output (lit ''hello!'') BfStop)) = Ok c \<and>
       rc_text c = lit ''hello!'' \<and> rc_finish_reason c = FinishStop)"
  by (simp add: streaming_completion_stream_def completion_stream_start_def completion_text_step_def emit_slice_def
      completion_tail_def completion_close_def completion_counters_def progress_event_def demo_chunk_def demo_output_def
      complete_text_def apply_stop_sequences_def classify_no_progress_def stream_eval)

end
