(* ===== verification/Tool_Parser.thy ===== *)
theory Tool_Parser
  imports Engine_Error
begin

text \<open>
  The assistant-output parsers of llm-tool-parser: reasoning blocks, tool-call tags and the two call
  syntaxes of Qwen (common.rs, qwen.rs), JSON payloads (json.rs), Llama (llama.rs) and DeepSeek
  (deepseek.rs), and the parser names (types.rs).

  \<open>serde_json::from_str\<close> is the argument \<open>rd\<close>, which gives the error text or the value. A generated
  tool-call identifier is \<open>ids n\<close> for the call at position \<open>n\<close>. Each \<open>while\<close> loop over the text is a
  recursion on the rest of the text, which gets shorter. Text offsets are modelled by splitting at
  the match, except in the XML call, whose slice bounds come from two independent searches: it is
  written with byte offsets and panics when they are out of order.
\<close>

type_synonym json_reader = "rstr \<Rightarrow> rstr + json"

record parsed_assistant =
  pa_reasoning :: "rstr option"
  pa_content :: rstr
  pa_tool_calls :: "tool_call list"

definition parsed_content :: "rstr \<Rightarrow> parsed_assistant" where
  "parsed_content content = \<lparr>pa_reasoning = None, pa_content = content, pa_tool_calls = []\<rparr>"

definition function_call :: "rstr \<Rightarrow> rstr \<Rightarrow> json \<Rightarrow> tool_call" where
  "function_call call_id name arguments =
     \<lparr>tc_id = call_id, tc_call_type = ToolFunction,
      tc_function = \<lparr>tcf_name = name, tcf_arguments = arguments\<rparr>\<rparr>"

text \<open>\<open>Value::get\<close> on a key, and \<open>Map::insert\<close> of an order-preserving map.\<close>

definition json_get :: "rstr \<Rightarrow> json \<Rightarrow> json option" where
  "json_get k v = (case v of JObject kvs \<Rightarrow> obj_get kvs k | _ \<Rightarrow> None)"

fun map_put :: "rstr \<Rightarrow> json \<Rightarrow> (rstr \<times> json) list \<Rightarrow> (rstr \<times> json) list" where
  "map_put k v [] = [(k, v)]"
| "map_put k v (e # es) = (if fst e = k then (k, v) # es else e # map_put k v es)"

fun or_else :: "'a option \<Rightarrow> 'a option \<Rightarrow> 'a option" where
  "or_else (Some a) _ = Some a"
| "or_else None b = b"

definition nonempty_id :: "json option \<Rightarrow> rstr \<Rightarrow> rstr" where
  "nonempty_id v generated =
     (case Option.bind v as_str of Some call_id \<Rightarrow> if call_id \<noteq> [] then call_id else generated | None \<Rightarrow> generated)"

section \<open>Shared pieces (common.rs)\<close>

definition split_reasoning :: "rstr \<Rightarrow> (parser_error, rstr option \<times> rstr) outcome" where
  "split_reasoning s =
     (case split_sub (lit ''<think>'') s of
        None \<Rightarrow> Ok (None, s)
      | Some (before, body) \<Rightarrow>
          (case split_sub (lit ''</think>'') body of
             None \<Rightarrow> Ok (Some body, before)
           | Some (reasoning, after) \<Rightarrow> Ok (Some reasoning, before @ after)))"

definition parse_json_tool_arguments :: "json_reader \<Rightarrow> json \<Rightarrow> (parser_error, json) outcome" where
  "parse_json_tool_arguments rd v =
     (case v of
        JString arguments \<Rightarrow>
          let trimmed = trim arguments
          in if trimmed = [] then Ok (JObject [])
             else if starts_with (lit ''{'') trimmed \<or> starts_with (lit ''['') trimmed then
               (case rd trimmed of
                  Inl err \<Rightarrow> Err (malformed_tool (fmt [lit ''invalid JSON tool-call arguments: '', err]))
                | Inr value \<Rightarrow> Ok value)
             else Ok (JString arguments)
      | other \<Rightarrow> Ok other)"

text \<open>\<open>.map(parse_json_tool_arguments).transpose()?.unwrap_or_else(|| json!({}))\<close>, then the call.\<close>

definition call_with_arguments ::
  "json_reader \<Rightarrow> rstr \<Rightarrow> rstr \<Rightarrow> json option \<Rightarrow> (parser_error, tool_call) outcome" where
  "call_with_arguments rd call_id name arguments =
     (case arguments of
        None \<Rightarrow> Ok (function_call call_id name (JObject []))
      | Some v \<Rightarrow>
          (case parse_json_tool_arguments rd v of
             Ok a \<Rightarrow> Ok (function_call call_id name a)
           | Err e \<Rightarrow> Err e
           | Panic \<Rightarrow> Panic))"

definition parse_json_call :: "json_reader \<Rightarrow> rstr \<Rightarrow> rstr \<Rightarrow> (parser_error, tool_call) outcome" where
  "parse_json_call rd generated inner =
     (case rd inner of
        Inl err \<Rightarrow> Err (malformed_tool (fmt [lit ''invalid qwen tool JSON: '', err]))
      | Inr value \<Rightarrow>
          (case Option.bind (json_get (lit ''name'') value) as_str of
             None \<Rightarrow> Err (malformed_tool (lit ''qwen tool JSON missing name''))
           | Some name \<Rightarrow>
               call_with_arguments rd (nonempty_id (json_get (lit ''id'') value) generated) name
                 (or_else (json_get (lit ''arguments'') value)
                   (or_else (json_get (lit ''parameters'') value) (json_get (lit ''args'') value)))))"

function parse_parameters ::
  "rstr \<Rightarrow> (rstr \<times> json) list \<Rightarrow> (parser_error, (rstr \<times> json) list) outcome" where
  "parse_parameters rest entries =
     (case split_sub (lit ''<parameter='') rest of
        None \<Rightarrow> Ok entries
      | Some (_, key_tail) \<Rightarrow>
          (case split_sub (lit ''>'') key_tail of
             None \<Rightarrow> Err (malformed_tool (lit ''unterminated qwen parameter tag''))
           | Some (key, value_tail) \<Rightarrow>
               (case split_sub (lit ''</parameter>'') value_tail of
                  None \<Rightarrow> Err (malformed_tool (lit ''missing qwen parameter close tag''))
                | Some (value, rest') \<Rightarrow> parse_parameters rest' (map_put key (JString value) entries))))"
  by pat_completeness auto
termination
proof (relation "measure (\<lambda>(rest, entries). length rest)")
  fix rest :: rstr and entries :: "(rstr \<times> json) list" and p1 p2 p3 before key_tail key value_tail v rest'
  assume "split_sub (lit ''<parameter='') rest = Some p1" "(before, key_tail) = p1"
    and "split_sub (lit ''>'') key_tail = Some p2" "(key, value_tail) = p2"
    and "split_sub (lit ''</parameter>'') value_tail = Some p3" "(v, rest') = p3"
  then have "length key_tail < length rest" "length value_tail < length key_tail" "length rest' < length value_tail"
    by (auto simp: lit_def dest: split_sub_shorter)
  then show "((rest', map_put key (JString v) entries), (rest, entries)) \<in> measure (\<lambda>(rest, entries). length rest)"
    by simp
qed simp

declare parse_parameters.simps [simp del]

definition parse_xml_call :: "rstr \<Rightarrow> rstr \<Rightarrow> (parser_error, tool_call) outcome" where
  "parse_xml_call generated inner =
     (case str_find (lit ''<function='') inner of
        None \<Rightarrow> Err (malformed_tool (lit ''missing qwen function tag''))
      | Some name_start \<Rightarrow>
          (let name_body_start = name_start + str_len (lit ''<function='')
           in case str_from name_body_start inner of
                None \<Rightarrow> Panic
              | Some name_tail \<Rightarrow>
                  (case str_find (lit ''>'') name_tail of
                     None \<Rightarrow> Err (malformed_tool (lit ''unterminated qwen function tag''))
                   | Some name_end_rel \<Rightarrow>
                       (let name_end = name_body_start + name_end_rel
                        in case str_slice name_body_start name_end inner of
                             None \<Rightarrow> Panic
                           | Some name \<Rightarrow>
                               (case str_find (lit ''</function>'') inner of
                                  None \<Rightarrow> Err (malformed_tool (lit ''missing qwen function close tag''))
                                | Some function_end \<Rightarrow>
                                    (case str_slice (name_end + 1) function_end inner of
                                       None \<Rightarrow> Panic
                                     | Some params \<Rightarrow>
                                         (case parse_parameters params [] of
                                            Ok entries \<Rightarrow> Ok (function_call generated name (JObject entries))
                                          | Err e \<Rightarrow> Err e
                                          | Panic \<Rightarrow> Panic)))))))"

text \<open>The loop that the tag syntaxes share: text before a tag is content, the trimmed text between the
  tags is one call. The tags are never empty; the guard makes the recursion total.\<close>

function tagged_calls ::
  "rstr \<Rightarrow> rstr \<Rightarrow> rstr \<Rightarrow> (nat \<Rightarrow> rstr \<Rightarrow> (parser_error, tool_call) outcome) \<Rightarrow>
   rstr \<Rightarrow> tool_call list \<Rightarrow> rstr \<Rightarrow> (parser_error, rstr \<times> tool_call list) outcome" where
  "tagged_calls open_tag close_tag unterminated parse rest calls content =
     (if open_tag = [] \<or> close_tag = [] then Panic
      else case split_sub open_tag rest of
        None \<Rightarrow> Ok (content @ rest, calls)
      | Some (before, tail) \<Rightarrow>
          (case split_sub close_tag tail of
             None \<Rightarrow> Err (malformed_tool unterminated)
           | Some (inner, rest') \<Rightarrow>
               (case parse (length calls) (trim inner) of
                  Ok call \<Rightarrow> tagged_calls open_tag close_tag unterminated parse rest' (calls @ [call]) (content @ before)
                | Err e \<Rightarrow> Err e
                | Panic \<Rightarrow> Panic)))"
  by pat_completeness auto
termination
proof (relation "measure (\<lambda>(op, cl, msg, parse, rest, calls, content). length rest)")
  fix open_tag close_tag unterminated rest content :: rstr and calls
    and parse :: "nat \<Rightarrow> rstr \<Rightarrow> (parser_error, tool_call) outcome" and p1 before tail p2 inner rest' call
  assume "\<not> (open_tag = [] \<or> close_tag = [])" "split_sub open_tag rest = Some p1" "(before, tail) = p1"
    "split_sub close_tag tail = Some p2" "(inner, rest') = p2"
  then have "length tail < length rest" "length rest' < length tail" by (auto dest: split_sub_shorter)
  then show "((open_tag, close_tag, unterminated, parse, rest', calls @ [call], content @ before),
      (open_tag, close_tag, unterminated, parse, rest, calls, content))
      \<in> measure (\<lambda>(op, cl, msg, parse, rest, calls, content). length rest)" by simp
qed simp

declare tagged_calls.simps [simp del]

definition with_reasoning ::
  "rstr option \<Rightarrow> (parser_error, rstr \<times> tool_call list) outcome \<Rightarrow> (parser_error, parsed_assistant) outcome" where
  "with_reasoning reasoning r =
     (case r of
        Ok (content, calls) \<Rightarrow> Ok \<lparr>pa_reasoning = reasoning, pa_content = content, pa_tool_calls = calls\<rparr>
      | Err e \<Rightarrow> Err e
      | Panic \<Rightarrow> Panic)"

definition qwen_call :: "json_reader \<Rightarrow> (nat \<Rightarrow> rstr) \<Rightarrow> nat \<Rightarrow> rstr \<Rightarrow> (parser_error, tool_call) outcome" where
  "qwen_call rd ids n inner =
     (if starts_with (lit ''<function='') inner then parse_xml_call (ids n) inner
      else parse_json_call rd (ids n) inner)"

definition parse_tool_calls ::
  "json_reader \<Rightarrow> (nat \<Rightarrow> rstr) \<Rightarrow> rstr option \<Rightarrow> rstr \<Rightarrow> (parser_error, parsed_assistant) outcome" where
  "parse_tool_calls rd ids reasoning rest =
     with_reasoning reasoning
       (tagged_calls (lit ''<tool_call>'') (lit ''</tool_call>'') (lit ''unterminated qwen tool_call tag'')
          (qwen_call rd ids) rest [] [])"

definition plain_content :: "rstr option \<Rightarrow> rstr \<Rightarrow> (parser_error, parsed_assistant) outcome" where
  "plain_content reasoning content =
     Ok \<lparr>pa_reasoning = reasoning, pa_content = content, pa_tool_calls = []\<rparr>"

text \<open>\<open>let (reasoning, rest) = split_reasoning(text)?\<close>.\<close>

definition after_reasoning ::
  "rstr \<Rightarrow> (rstr option \<Rightarrow> rstr \<Rightarrow> (parser_error, parsed_assistant) outcome) \<Rightarrow>
   (parser_error, parsed_assistant) outcome" where
  "after_reasoning s k =
     (case split_reasoning s of
        Ok (reasoning, rest) \<Rightarrow> k reasoning rest
      | Err e \<Rightarrow> Err e
      | Panic \<Rightarrow> Panic)"

definition qwen_parse_complete ::
  "json_reader \<Rightarrow> (nat \<Rightarrow> rstr) \<Rightarrow> rstr \<Rightarrow> (parser_error, parsed_assistant) outcome" where
  "qwen_parse_complete rd ids s =
     after_reasoning s (\<lambda>reasoning rest.
       if str_contains (lit ''<tool_call>'') rest then parse_tool_calls rd ids reasoning rest
       else plain_content reasoning rest)"

end
