(* ===== verification/Tool_Dialects.thy ===== *)
theory Tool_Dialects
  imports Tool_Parser
begin

text \<open>
  The other dialects of llm-tool-parser: JSON payloads (json.rs), Llama (llama.rs) and DeepSeek with
  its native, DSML and Qwen-compatible call syntaxes (deepseek.rs).
\<close>

section \<open>JSON payloads (json.rs)\<close>

definition extract_json_tool_candidate :: "rstr \<Rightarrow> (rstr \<times> rstr) option" where
  "extract_json_tool_candidate rest =
     (case split_sub (lit ''[TOOL_CALLS]'') rest of
        Some (before, after) \<Rightarrow>
          (let source = trim_start after;
               source_end = (case find_sub [10] source of Some i \<Rightarrow> i | None \<Rightarrow> length source);
               content = trim_end before;
               tail = trim_start_matches [10] (drop source_end source)
           in Some (content @ (if content \<noteq> [] \<and> tail \<noteq> [] then [10] else []) @ tail, take source_end source))
      | None \<Rightarrow>
          (let unfenced =
             (let trimmed = trim rest
              in if starts_with (lit ''{'') trimmed \<or> starts_with (lit ''['') trimmed then Some ([], trimmed) else None)
           in case split_sub (lit ''```'') rest of
                None \<Rightarrow> unfenced
              | Some (before, after) \<Rightarrow>
                  (let after_language = (case strip_prefix (lit ''json'') after of Some s \<Rightarrow> s | None \<Rightarrow> after);
                       after_newline = (case strip_prefix [10] after_language of Some s \<Rightarrow> s | None \<Rightarrow> trim_start after_language)
                   in case split_sub (lit ''```'') after_newline of
                        Some (body, tail) \<Rightarrow> Some (trim_end before @ trim_start tail, body)
                      | None \<Rightarrow> unfenced)))"

definition parse_json_tool_value_as_call :: "json_reader \<Rightarrow> rstr \<Rightarrow> json \<Rightarrow> (parser_error, tool_call) outcome" where
  "parse_json_tool_value_as_call rd generated value =
     (case value of
        JObject object \<Rightarrow>
          (let function_object = Option.bind (obj_get object (lit ''function'')) as_object;
               in_function = (\<lambda>k. Option.bind function_object (\<lambda>f. obj_get f k))
           in case Option.bind (or_else (in_function (lit ''name''))
                     (or_else (obj_get object (lit ''name''))
                       (or_else (obj_get object (lit ''tool_name'')) (obj_get object (lit ''function''))))) as_str of
                None \<Rightarrow> Err (malformed_tool (lit ''JSON tool-call entry missing name''))
              | Some name \<Rightarrow>
                  call_with_arguments rd (nonempty_id (obj_get object (lit ''id'')) generated) name
                    (or_else (in_function (lit ''arguments''))
                      (or_else (obj_get object (lit ''arguments''))
                        (or_else (obj_get object (lit ''parameters'')) (obj_get object (lit ''args''))))))
      | _ \<Rightarrow> Err (malformed_tool (lit ''JSON tool-call entry must be an object'')))"

fun parse_json_items ::
  "json_reader \<Rightarrow> (nat \<Rightarrow> rstr) \<Rightarrow> nat \<Rightarrow> json list \<Rightarrow> (parser_error, tool_call list) outcome" where
  "parse_json_items rd ids n [] = Ok []"
| "parse_json_items rd ids n (v # vs) =
     (case parse_json_tool_value_as_call rd (ids n) v of
        Err e \<Rightarrow> Err e
      | Panic \<Rightarrow> Panic
      | Ok call \<Rightarrow>
          (case parse_json_items rd ids (Suc n) vs of
             Ok calls \<Rightarrow> Ok (call # calls)
           | Err e \<Rightarrow> Err e
           | Panic \<Rightarrow> Panic))"

fun calls_array :: "(rstr \<times> json) list \<Rightarrow> rstr list \<Rightarrow> json list option" where
  "calls_array object [] = None"
| "calls_array object (k # ks) =
     (case obj_get object k of
        Some (JArray items) \<Rightarrow> Some items
      | _ \<Rightarrow> calls_array object ks)"

definition calls_keys :: "rstr list" where
  "calls_keys = [lit ''tool_calls'', lit ''calls'', lit ''tools'']"

definition parse_json_tool_value ::
  "json_reader \<Rightarrow> (nat \<Rightarrow> rstr) \<Rightarrow> json \<Rightarrow> (parser_error, tool_call list) outcome" where
  "parse_json_tool_value rd ids value =
     (case value of
        JArray items \<Rightarrow> parse_json_items rd ids 0 items
      | JObject object \<Rightarrow>
          (case calls_array object calls_keys of
             Some items \<Rightarrow> parse_json_items rd ids 0 items
           | None \<Rightarrow> parse_json_items rd ids 0 [value])
      | _ \<Rightarrow> Err (malformed_tool (lit ''JSON tool-call payload must be an object or array'')))"

definition json_object_has_direct_tool_shape :: "(rstr \<times> json) list \<Rightarrow> bool" where
  "json_object_has_direct_tool_shape object \<longleftrightarrow>
     (let function_object = Option.bind (obj_get object (lit ''function'')) as_object;
          in_function = (\<lambda>k. Option.bind function_object (\<lambda>f. obj_get f k));
          has_name = Option.bind (in_function (lit ''name'')) as_str \<noteq> None \<or>
            Option.bind (obj_get object (lit ''function'')) as_str \<noteq> None \<or>
            Option.bind (obj_get object (lit ''name'')) as_str \<noteq> None \<or>
            Option.bind (obj_get object (lit ''tool_name'')) as_str \<noteq> None;
          has_arguments = in_function (lit ''arguments'') \<noteq> None \<or>
            obj_get object (lit ''arguments'') \<noteq> None \<or> obj_get object (lit ''parameters'') \<noteq> None \<or>
            obj_get object (lit ''args'') \<noteq> None
      in has_name \<and> has_arguments)"

fun json_value_has_direct_tool_shape :: "json \<Rightarrow> bool" where
  "json_value_has_direct_tool_shape (JObject object) = json_object_has_direct_tool_shape object"
| "json_value_has_direct_tool_shape _ = False"

fun json_value_has_tool_shape :: "json \<Rightarrow> bool" where
  "json_value_has_tool_shape (JArray items) \<longleftrightarrow> items \<noteq> [] \<and> list_all json_value_has_direct_tool_shape items"
| "json_value_has_tool_shape (JObject object) \<longleftrightarrow>
     calls_array object calls_keys \<noteq> None \<or> json_object_has_direct_tool_shape object"
| "json_value_has_tool_shape _ \<longleftrightarrow> False"

definition parse_json_tool_output_with_reasoning ::
  "json_reader \<Rightarrow> (nat \<Rightarrow> rstr) \<Rightarrow> rstr option \<Rightarrow> rstr \<Rightarrow> (parser_error, parsed_assistant) outcome" where
  "parse_json_tool_output_with_reasoning rd ids reasoning rest =
     (case extract_json_tool_candidate rest of
        None \<Rightarrow> plain_content reasoning rest
      | Some (content, source) \<Rightarrow>
          (case rd (trim source) of
             Inl err \<Rightarrow> Err (malformed_tool (fmt [lit ''invalid JSON tool-call payload: '', err]))
           | Inr value \<Rightarrow>
               (case parse_json_tool_value rd ids value of
                  Ok calls \<Rightarrow> Ok \<lparr>pa_reasoning = reasoning, pa_content = content, pa_tool_calls = calls\<rparr>
                | Err e \<Rightarrow> Err e
                | Panic \<Rightarrow> Panic)))"

definition parse_json_tool_output_if_tool_like ::
  "json_reader \<Rightarrow> (nat \<Rightarrow> rstr) \<Rightarrow> rstr option \<Rightarrow> rstr \<Rightarrow> (parser_error, parsed_assistant) outcome" where
  "parse_json_tool_output_if_tool_like rd ids reasoning rest =
     (case extract_json_tool_candidate rest of
        None \<Rightarrow> plain_content reasoning rest
      | Some (content, source) \<Rightarrow>
          (case rd (trim source) of
             Inl _ \<Rightarrow> plain_content reasoning rest
           | Inr value \<Rightarrow>
               if \<not> json_value_has_tool_shape value then plain_content reasoning rest
               else
                 (case parse_json_tool_value rd ids value of
                    Ok calls \<Rightarrow> Ok \<lparr>pa_reasoning = reasoning, pa_content = content, pa_tool_calls = calls\<rparr>
                  | Err _ \<Rightarrow> plain_content reasoning rest
                  | Panic \<Rightarrow> Panic)))"

definition parse_json_tool_output ::
  "json_reader \<Rightarrow> (nat \<Rightarrow> rstr) \<Rightarrow> rstr \<Rightarrow> (parser_error, parsed_assistant) outcome" where
  "parse_json_tool_output rd ids s = after_reasoning s (parse_json_tool_output_with_reasoning rd ids)"

definition parse_xlam_tool_output ::
  "json_reader \<Rightarrow> (nat \<Rightarrow> rstr) \<Rightarrow> rstr \<Rightarrow> (parser_error, parsed_assistant) outcome" where
  "parse_xlam_tool_output rd ids s =
     after_reasoning s (\<lambda>reasoning rest.
       if str_contains (lit ''<tool_call>'') rest then parse_tool_calls rd ids reasoning rest
       else parse_json_tool_output_with_reasoning rd ids reasoning rest)"

section \<open>Llama (llama.rs)\<close>

text \<open>Everything from the first of some control tokens on is dropped.\<close>

definition cut_at_first :: "rstr list \<Rightarrow> rstr \<Rightarrow> rstr" where
  "cut_at_first tokens s =
     (case min_opt (List.map_filter (\<lambda>token. find_sub token s) tokens) of
        None \<Rightarrow> s
      | Some index \<Rightarrow> take index s)"

definition trim_llama_after_stop_control :: "rstr \<Rightarrow> rstr" where
  "trim_llama_after_stop_control s =
     cut_at_first [lit ''<|eot_id|>'', lit ''<|end_of_text|>'', lit ''<|start_header_id|>''] s"

definition llama_parse_complete ::
  "json_reader \<Rightarrow> (nat \<Rightarrow> rstr) \<Rightarrow> rstr \<Rightarrow> (parser_error, parsed_assistant) outcome" where
  "llama_parse_complete rd ids s =
     after_reasoning s (\<lambda>reasoning rest.
       let rest = trim_llama_after_stop_control rest
       in if str_contains (lit ''<tool_call>'') rest then parse_tool_calls rd ids reasoning rest
          else parse_json_tool_output_if_tool_like rd ids reasoning rest)"

section \<open>DeepSeek (deepseek.rs)\<close>

text \<open>The native markers are written with the full-width bar (U+FF5C) and the low block (U+2581).\<close>

definition calls_begin_marker :: rstr where
  "calls_begin_marker = fmt [lit ''<'', [65372], lit ''tool'', [9601], lit ''calls'', [9601], lit ''begin'', [65372], lit ''>'']"

definition calls_end_marker :: rstr where
  "calls_end_marker = fmt [lit ''<'', [65372], lit ''tool'', [9601], lit ''calls'', [9601], lit ''end'', [65372], lit ''>'']"

definition call_begin_marker :: rstr where
  "call_begin_marker = fmt [lit ''<'', [65372], lit ''tool'', [9601], lit ''call'', [9601], lit ''begin'', [65372], lit ''>'']"

definition call_end_marker :: rstr where
  "call_end_marker = fmt [lit ''<'', [65372], lit ''tool'', [9601], lit ''call'', [9601], lit ''end'', [65372], lit ''>'']"

definition tool_sep_marker :: rstr where
  "tool_sep_marker = fmt [lit ''<'', [65372], lit ''tool'', [9601], lit ''sep'', [65372], lit ''>'']"

definition end_of_sentence_marker :: rstr where
  "end_of_sentence_marker = fmt [lit ''<'', [65372], lit ''end'', [9601], lit ''of'', [9601], lit ''sentence'', [65372], lit ''>'']"

definition user_marker :: rstr where
  "user_marker = fmt [lit ''<'', [65372], lit ''User'', [65372], lit ''>'']"

definition assistant_marker :: rstr where
  "assistant_marker = fmt [lit ''<'', [65372], lit ''Assistant'', [65372], lit ''>'']"

definition strip_deepseek_assistant_prefix :: "rstr \<Rightarrow> rstr" where
  "strip_deepseek_assistant_prefix rest =
     (case strip_prefix assistant_marker rest of Some s \<Rightarrow> s | None \<Rightarrow> rest)"

definition trim_deepseek_after_stop_control :: "rstr \<Rightarrow> rstr" where
  "trim_deepseek_after_stop_control rest = cut_at_first [end_of_sentence_marker, user_marker] rest"

definition parse_deepseek_json_call :: "json_reader \<Rightarrow> rstr \<Rightarrow> rstr \<Rightarrow> (parser_error, tool_call) outcome" where
  "parse_deepseek_json_call rd generated inner =
     (case rd inner of
        Inl err \<Rightarrow> Err (malformed_tool (fmt [lit ''invalid DeepSeek tool JSON: '', err]))
      | Inr value \<Rightarrow>
          (case Option.bind (json_get (lit ''name'') value) as_str of
             None \<Rightarrow> Err (malformed_tool (lit ''DeepSeek tool JSON missing name''))
           | Some name \<Rightarrow>
               Ok (function_call (nonempty_id (json_get (lit ''id'') value) generated) name
                 (case json_get (lit ''arguments'') value of Some a \<Rightarrow> a | None \<Rightarrow> JObject []))))"

definition parse_deepseek_dsml_tool_calls ::
  "json_reader \<Rightarrow> (nat \<Rightarrow> rstr) \<Rightarrow> rstr option \<Rightarrow> rstr \<Rightarrow> (parser_error, parsed_assistant) outcome" where
  "parse_deepseek_dsml_tool_calls rd ids reasoning rest =
     with_reasoning reasoning
       (tagged_calls (lit ''<dsml_tool_call>'') (lit ''</dsml_tool_call>'')
          (lit ''unterminated DeepSeek dsml_tool_call tag'') (\<lambda>n. parse_deepseek_json_call rd (ids n)) rest [] [])"

definition parse_deepseek_markdown_json :: "json_reader \<Rightarrow> rstr \<Rightarrow> (parser_error, json) outcome" where
  "parse_deepseek_markdown_json rd arguments_block =
     (let trimmed = trim arguments_block;
          fenced = (\<lambda>opening. Option.bind (strip_prefix (lit opening) trimmed) (strip_suffix (lit ''```'')));
          source = (case or_else (fenced ''```json'') (fenced ''```'') of Some s \<Rightarrow> s | None \<Rightarrow> trimmed)
      in case rd (trim source) of
           Inl err \<Rightarrow> Err (malformed_tool (fmt [lit ''invalid DeepSeek native tool JSON: '', err]))
         | Inr value \<Rightarrow> Ok value)"

definition parse_deepseek_native_call :: "json_reader \<Rightarrow> rstr \<Rightarrow> rstr \<Rightarrow> (parser_error, tool_call) outcome" where
  "parse_deepseek_native_call rd generated inner =
     (case split_sub tool_sep_marker inner of
        None \<Rightarrow> Err (malformed_tool (lit ''DeepSeek native tool call missing separator''))
      | Some (call_type, rest) \<Rightarrow>
          if trim call_type \<noteq> lit ''function'' then
            Err (malformed_tool (fmt [lit ''unsupported DeepSeek native tool call type `'', trim call_type, lit ''`'']))
          else
            (case split_sub [10] rest of
               None \<Rightarrow> Err (malformed_tool (lit ''DeepSeek native tool call missing arguments block''))
             | Some (name, arguments_block) \<Rightarrow>
                 (let name = trim name
                  in if name = [] then Err (malformed_tool (lit ''DeepSeek native tool call missing name''))
                     else
                       (case parse_deepseek_markdown_json rd (trim arguments_block) of
                          Ok arguments \<Rightarrow> Ok (function_call generated name arguments)
                        | Err e \<Rightarrow> Err e
                        | Panic \<Rightarrow> Panic))))"

text \<open>The text between native calls is dropped.\<close>

definition parse_deepseek_native_tool_calls ::
  "json_reader \<Rightarrow> (nat \<Rightarrow> rstr) \<Rightarrow> rstr option \<Rightarrow> rstr \<Rightarrow> (parser_error, parsed_assistant) outcome" where
  "parse_deepseek_native_tool_calls rd ids reasoning rest =
     (case split_sub calls_begin_marker rest of
        None \<Rightarrow> plain_content reasoning rest
      | Some (content, tail) \<Rightarrow>
          (case split_sub calls_end_marker tail of
             None \<Rightarrow> Err (malformed_tool (lit ''unterminated DeepSeek native tool calls block''))
           | Some (calls_body, after) \<Rightarrow>
               (case tagged_calls call_begin_marker call_end_marker (lit ''unterminated DeepSeek native tool call'')
                       (\<lambda>n. parse_deepseek_native_call rd (ids n)) calls_body [] [] of
                  Ok (_, calls) \<Rightarrow>
                    Ok \<lparr>pa_reasoning = reasoning,
                        pa_content = content @ trim_start_matches end_of_sentence_marker
                          (trim_deepseek_after_stop_control (trim_start after)),
                        pa_tool_calls = calls\<rparr>
                | Err e \<Rightarrow> Err e
                | Panic \<Rightarrow> Panic)))"

definition deepseek_parse_complete ::
  "json_reader \<Rightarrow> (nat \<Rightarrow> rstr) \<Rightarrow> rstr \<Rightarrow> (parser_error, parsed_assistant) outcome" where
  "deepseek_parse_complete rd ids s =
     after_reasoning s (\<lambda>reasoning rest.
       let rest = trim_deepseek_after_stop_control (strip_deepseek_assistant_prefix rest)
       in if str_contains calls_begin_marker rest then parse_deepseek_native_tool_calls rd ids reasoning rest
          else if str_contains (lit ''<dsml_tool_call>'') rest then parse_deepseek_dsml_tool_calls rd ids reasoning rest
          else if str_contains (lit ''<tool_call>'') rest then parse_tool_calls rd ids reasoning rest
          else plain_content reasoning rest)"

end
