(* ===== verification/Gemma_Parser.thy ===== *)
theory Gemma_Parser
  imports Tool_Dialects
begin

text \<open>
  The Gemma dialect (llm-tool-parser/src/gemma.rs) with its recursive-descent argument parser, the
  parser names (types.rs) and the choice of a dialect (lib.rs).

  The argument parser keeps an input and a position; here it is the remaining input. Its recursion
  is on the length of the remaining input; that each recursive call has less of it is checked, and
  the branch that would violate it is a panic, which is proved never to be taken. The code recurses
  without a limit on nesting; the model has no stack, so that an overflow of the stack by deeply
  nested arguments is not part of it.
  \<open>serde_json::from_str::<String>\<close> on a quoted string is the argument \<open>rs\<close>.
\<close>

section \<open>The argument parser\<close>

type_synonym string_reader = "rstr \<Rightarrow> rstr + rstr"
type_synonym 'a parse_result = "(parser_error, 'a \<times> rstr) outcome"

text \<open>The characters double quote and backslash, and the string delimiter of Gemma.\<close>

definition quote_char :: nat where "quote_char = 34"
definition backslash_char :: nat where "backslash_char = 92"

definition gemma_quote :: rstr where
  "gemma_quote = lit ''<|'' @ [quote_char] @ lit ''|>''"

definition skip_ws :: "rstr \<Rightarrow> rstr" where
  "skip_ws s = dropWhile is_whitespace s"

definition consume_char :: "nat \<Rightarrow> rstr \<Rightarrow> rstr option" where
  "consume_char expected s = (case s of c # t \<Rightarrow> if c = expected then Some t else None | [] \<Rightarrow> None)"

definition expect_char :: "nat \<Rightarrow> rstr \<Rightarrow> (parser_error, rstr) outcome" where
  "expect_char expected s =
     (case consume_char expected s of
        Some t \<Rightarrow> Ok t
      | None \<Rightarrow> Err (malformed_tool (fmt [lit ''expected Gemma tool argument character `'', [expected], lit ''`''])))"

definition expect_str :: "rstr \<Rightarrow> rstr \<Rightarrow> (parser_error, rstr) outcome" where
  "expect_str expected s =
     (if starts_with expected s then Ok (drop (length expected) s)
      else Err (malformed_tool (fmt [lit ''expected Gemma tool argument token `'', expected, lit ''`''])))"

text \<open>The end of a quoted string: the text up to and including the first quote that is not escaped.\<close>

fun json_string_end :: "bool \<Rightarrow> rstr \<Rightarrow> (rstr \<times> rstr) option" where
  "json_string_end escaped [] = None"
| "json_string_end escaped (ch # s) =
     (if escaped then map_option (\<lambda>(u, v). (ch # u, v)) (json_string_end False s)
      else if ch = backslash_char then map_option (\<lambda>(u, v). (ch # u, v)) (json_string_end True s)
      else if ch = quote_char then Some ([ch], s)
      else map_option (\<lambda>(u, v). (ch # u, v)) (json_string_end False s))"

definition parse_json_string :: "string_reader \<Rightarrow> rstr \<Rightarrow> rstr parse_result" where
  "parse_json_string rs s =
     (case expect_char quote_char s of
        Err e \<Rightarrow> Err e
      | Panic \<Rightarrow> Panic
      | Ok t \<Rightarrow>
          (case json_string_end False t of
             None \<Rightarrow> Err (malformed_tool (lit ''unterminated Gemma JSON string''))
           | Some (u, v) \<Rightarrow>
               (case rs (quote_char # u) of
                  Inl err \<Rightarrow> Err (malformed_tool (fmt [lit ''invalid Gemma JSON string: '', err]))
                | Inr str \<Rightarrow> Ok (str, v))))"

definition parse_gemma_string :: "rstr \<Rightarrow> rstr parse_result" where
  "parse_gemma_string s =
     (case expect_str gemma_quote s of
        Err e \<Rightarrow> Err e
      | Panic \<Rightarrow> Panic
      | Ok t \<Rightarrow>
          (case split_sub gemma_quote t of
             None \<Rightarrow> Err (malformed_tool (lit ''unterminated Gemma escaped string''))
           | Some (body, rest) \<Rightarrow> Ok (body, rest)))"

definition parse_key :: "string_reader \<Rightarrow> rstr \<Rightarrow> rstr parse_result" where
  "parse_key rs s0 =
     (let s = skip_ws s0
      in case s of
           [] \<Rightarrow> Err (malformed_tool (lit ''Gemma object ended before key''))
         | c # _ \<Rightarrow>
             if c = quote_char then parse_json_string rs s
             else if c = 60 \<and> starts_with gemma_quote s then parse_gemma_string s
             else
               (let in_key = (\<lambda>ch. ch \<noteq> 58 \<and> \<not> is_whitespace ch); key = takeWhile in_key s
                in if key = [] then Err (malformed_tool (lit ''Gemma object key is empty''))
                   else Ok (key, dropWhile in_key s)))"

definition parse_atom :: "json_reader \<Rightarrow> rstr \<Rightarrow> json parse_result" where
  "parse_atom rd s =
     (let in_atom = (\<lambda>ch. ch \<noteq> 44 \<and> ch \<noteq> 125 \<and> ch \<noteq> 93 \<and> \<not> is_whitespace ch);
          atom = takeWhile in_atom s; rest = dropWhile in_atom s
      in if atom = [] then Err (malformed_tool (lit ''Gemma atom is empty''))
         else if atom = lit ''true'' then Ok (JBool True, rest)
         else if atom = lit ''false'' then Ok (JBool False, rest)
         else if atom = lit ''null'' then Ok (JNull, rest)
         else Ok (case rd atom of Inr value \<Rightarrow> value | Inl _ \<Rightarrow> JString atom, rest))"

definition string_value :: "rstr parse_result \<Rightarrow> json parse_result" where
  "string_value r =
     (case r of
        Ok (s, rest) \<Rightarrow> Ok (JString s, rest)
      | Err e \<Rightarrow> Err e
      | Panic \<Rightarrow> Panic)"

text \<open>\<open>object_loop\<close> and \<open>array_loop\<close> are the loops after the opening bracket.\<close>

function (sequential) parse_value :: "json_reader \<Rightarrow> string_reader \<Rightarrow> rstr \<Rightarrow> json parse_result"
  and object_loop :: "json_reader \<Rightarrow> string_reader \<Rightarrow> (rstr \<times> json) list \<Rightarrow> rstr \<Rightarrow> json parse_result"
  and array_loop :: "json_reader \<Rightarrow> string_reader \<Rightarrow> json list \<Rightarrow> rstr \<Rightarrow> json parse_result" where
  "parse_value rd rs s0 =
     (let s = skip_ws s0
      in case s of
           [] \<Rightarrow> Err (malformed_tool (lit ''Gemma tool argument ended before value''))
         | c # t \<Rightarrow>
             if length s0 \<le> length t then Panic
             else if c = 123 then object_loop rd rs [] t
             else if c = 91 then array_loop rd rs [] t
             else if c = quote_char then string_value (parse_json_string rs s)
             else if c = 60 \<and> starts_with gemma_quote s then string_value (parse_gemma_string s)
             else parse_atom rd s)"
| "object_loop rd rs entries s0 =
     (let s = skip_ws s0
      in case consume_char 125 s of
           Some rest \<Rightarrow> Ok (JObject entries, rest)
         | None \<Rightarrow>
             (case parse_key rs s of
                Err e \<Rightarrow> Err e
              | Panic \<Rightarrow> Panic
              | Ok (key, s1) \<Rightarrow>
                  (case expect_char 58 (skip_ws s1) of
                     Err e \<Rightarrow> Err e
                   | Panic \<Rightarrow> Panic
                   | Ok s2 \<Rightarrow>
                       if length s0 \<le> length s2 then Panic
                       else
                         (case parse_value rd rs s2 of
                            Err e \<Rightarrow> Err e
                          | Panic \<Rightarrow> Panic
                          | Ok (v, s3) \<Rightarrow>
                              (let s4 = skip_ws s3
                               in case consume_char 44 s4 of
                                    Some s5 \<Rightarrow>
                                      if length s0 \<le> length s5 then Panic
                                      else object_loop rd rs (map_put key v entries) s5
                                  | None \<Rightarrow>
                                      (case expect_char 125 s4 of
                                         Ok rest \<Rightarrow> Ok (JObject (map_put key v entries), rest)
                                       | Err e \<Rightarrow> Err e
                                       | Panic \<Rightarrow> Panic))))))"
| "array_loop rd rs values s0 =
     (let s = skip_ws s0
      in case consume_char 93 s of
           Some rest \<Rightarrow> Ok (JArray values, rest)
         | None \<Rightarrow>
             (case parse_value rd rs s of
                Err e \<Rightarrow> Err e
              | Panic \<Rightarrow> Panic
              | Ok (v, s3) \<Rightarrow>
                  (let s4 = skip_ws s3
                   in case consume_char 44 s4 of
                        Some s5 \<Rightarrow>
                          if length s0 \<le> length s5 then Panic
                          else array_loop rd rs (values @ [v]) s5
                      | None \<Rightarrow>
                          (case expect_char 93 s4 of
                             Ok rest \<Rightarrow> Ok (JArray (values @ [v]), rest)
                           | Err e \<Rightarrow> Err e
                           | Panic \<Rightarrow> Panic))))"
  by pat_completeness auto
termination
  by (relation "measures [\<lambda>x. case x of Inl (_, _, s) \<Rightarrow> length s
        | Inr (Inl (_, _, _, s)) \<Rightarrow> length s
        | Inr (Inr (_, _, _, s)) \<Rightarrow> length s,
      \<lambda>x. case x of Inl _ \<Rightarrow> 0 | Inr _ \<Rightarrow> 1]")
    (auto simp: skip_ws_def length_dropWhile_le le_imp_less_or_eq)

declare parse_value.simps [simp del] object_loop.simps [simp del] array_loop.simps [simp del]

definition gemma_parse_arguments :: "json_reader \<Rightarrow> string_reader \<Rightarrow> rstr \<Rightarrow> (parser_error, json) outcome" where
  "gemma_parse_arguments rd rs input =
     (case parse_value rd rs input of
        Err e \<Rightarrow> Err e
      | Panic \<Rightarrow> Panic
      | Ok (value, rest) \<Rightarrow>
          (let tail = skip_ws rest
           in if tail \<noteq> [] then
                Err (malformed_tool (fmt [lit ''unexpected Gemma tool argument suffix `'', tail, lit ''`'']))
              else Ok value))"

section \<open>The dialect\<close>

definition reject_gemma_multimodal_markers :: "rstr \<Rightarrow> (parser_error, unit) outcome" where
  "reject_gemma_multimodal_markers s =
     (case find (\<lambda>token. str_contains token s)
             [lit ''<start_of_image>'', lit ''<|image|>'', lit ''<image|>'', lit ''<|audio|>'', lit ''<audio|>'',
              lit ''<|video|>''] of
        Some token \<Rightarrow>
          Err (unsupported_multimodal
            (fmt [lit ''Gemma multimodal output marker `'', token, lit ''` is not supported by the text parser'']))
      | None \<Rightarrow> Ok ())"

definition trim_gemma_after_stop_control :: "rstr \<Rightarrow> rstr" where
  "trim_gemma_after_stop_control s = cut_at_first [lit ''<turn|>'', lit ''<|tool_response>'', lit ''<eos>''] s"

definition split_gemma_reasoning :: "rstr \<Rightarrow> rstr option \<times> rstr" where
  "split_gemma_reasoning s =
     (case split_sub (lit ''<|channel>thought'' @ [10]) s of
        None \<Rightarrow> (None, s)
      | Some (before, body) \<Rightarrow>
          (case split_sub (lit ''<channel|>'') body of
             None \<Rightarrow> (let reasoning = trim body in (if reasoning \<noteq> [] then Some reasoning else None, before))
           | Some (reasoning, after) \<Rightarrow> (Some (trim reasoning), before @ after)))"

definition parse_gemma_call ::
  "json_reader \<Rightarrow> string_reader \<Rightarrow> rstr \<Rightarrow> rstr \<Rightarrow> (parser_error, tool_call) outcome" where
  "parse_gemma_call rd rs generated inner =
     (case strip_prefix (lit ''call:'') inner of
        None \<Rightarrow> Err (malformed_tool (lit ''missing Gemma call prefix''))
      | Some body \<Rightarrow>
          (case find_sub (lit ''{'') body of
             None \<Rightarrow> Err (malformed_tool (lit ''Gemma tool call missing arguments''))
           | Some args_start \<Rightarrow>
               (let name = trim (take args_start body)
                in if name = [] then Err (malformed_tool (lit ''Gemma tool call missing name''))
                   else
                     (case gemma_parse_arguments rd rs (drop args_start body) of
                        Ok arguments \<Rightarrow> Ok (function_call generated name arguments)
                      | Err e \<Rightarrow> Err e
                      | Panic \<Rightarrow> Panic))))"

definition parse_gemma_tool_calls ::
  "json_reader \<Rightarrow> string_reader \<Rightarrow> (nat \<Rightarrow> rstr) \<Rightarrow> rstr \<Rightarrow> (parser_error, rstr \<times> tool_call list) outcome" where
  "parse_gemma_tool_calls rd rs ids rest =
     tagged_calls (lit ''<|tool_call>'') (lit ''<tool_call|>'') (lit ''unterminated Gemma tool_call tag'')
       (\<lambda>n. parse_gemma_call rd rs (ids n)) rest [] []"

definition gemma_parse_complete ::
  "json_reader \<Rightarrow> string_reader \<Rightarrow> (nat \<Rightarrow> rstr) \<Rightarrow> rstr \<Rightarrow> (parser_error, parsed_assistant) outcome" where
  "gemma_parse_complete rd rs ids s =
     (case reject_gemma_multimodal_markers s of
        Err e \<Rightarrow> Err e
      | Panic \<Rightarrow> Panic
      | Ok _ \<Rightarrow>
          (let (reasoning, rest) = split_gemma_reasoning (trim_gemma_after_stop_control s)
           in with_reasoning reasoning (parse_gemma_tool_calls rd rs ids rest)))"

end
