(* ===== verification/Tool_Dispatch.thy ===== *)
theory Tool_Dispatch
  imports Gemma_Parser
begin

text \<open>
  Choosing a dialect (llm-tool-parser/src/lib.rs) by model family, by parser family or by the markers in
  the text, and the parser names of vLLM (types.rs). The enumeration of model families is that of
  llm-models/src/family.rs.
\<close>

datatype model_family = FamQwen | FamDeepSeek | FamGemma | FamLlama

datatype tool_parser_family =
    FamilyAuto
  | FamilyHermes
  | FamilyQwen
  | FamilyDeepSeek
  | FamilyGemma
  | FamilyLlama
  | FamilyJson
  | FamilyXlam

definition to_ascii_lowercase :: "rstr \<Rightarrow> rstr" where
  "to_ascii_lowercase s = map (\<lambda>c. if 65 \<le> c \<and> c \<le> 90 then c + 32 else c) s"

definition normalize_parser_name :: "rstr \<Rightarrow> rstr" where
  "normalize_parser_name name =
     to_ascii_lowercase (map (\<lambda>c. if c = 45 then 95 else c)
       (trim_end_matches (lit ''_parser'') (trim_end_matches (lit ''_tool_parser'') (trim name))))"

definition VLLM_TOOL_PARSER_ROUTES :: "(rstr \<times> tool_parser_family) list" where
  "VLLM_TOOL_PARSER_ROUTES =
     [(lit ''deepseek_v3'', FamilyDeepSeek),
      (lit ''functiongemma'', FamilyGemma),
      (lit ''gemma4'', FamilyGemma),
      (lit ''hermes'', FamilyHermes),
      (lit ''llama3'', FamilyLlama),
      (lit ''llama3_json'', FamilyLlama),
      (lit ''qwen3coder'', FamilyQwen),
      (lit ''qwen3xml'', FamilyQwen),
      (lit ''xlam'', FamilyXlam),
      (lit ''json'', FamilyJson),
      (lit ''openai'', FamilyJson),
      (lit ''mistral'', FamilyJson),
      (lit ''granite'', FamilyJson),
      (lit ''granite_20b_fc'', FamilyJson),
      (lit ''hunyuan_a13b'', FamilyJson),
      (lit ''kimi_k2'', FamilyJson),
      (lit ''minimax'', FamilyJson),
      (lit ''minimax_m2'', FamilyJson),
      (lit ''olmo3'', FamilyJson),
      (lit ''phi4mini'', FamilyJson),
      (lit ''seed_oss'', FamilyJson),
      (lit ''step3'', FamilyJson),
      (lit ''step3p5'', FamilyJson)]"

definition from_vllm_name :: "rstr \<Rightarrow> tool_parser_family option" where
  "from_vllm_name name = map_of VLLM_TOOL_PARSER_ROUTES (normalize_parser_name name)"

definition parse_assistant_auto ::
  "json_reader \<Rightarrow> string_reader \<Rightarrow> (nat \<Rightarrow> rstr) \<Rightarrow> rstr \<Rightarrow> (parser_error, parsed_assistant) outcome" where
  "parse_assistant_auto rd rs ids s =
     (if str_contains (lit ''<|tool_call>'') s \<or> str_contains (lit ''<|channel>thought'' @ [10]) s then
        gemma_parse_complete rd rs ids s
      else if str_contains (lit ''<dsml_tool_call>'') s \<or> str_contains calls_begin_marker s then
        deepseek_parse_complete rd ids s
      else if str_contains (lit ''<tool_call>'') s \<or> str_contains (lit ''<think>'') s then
        qwen_parse_complete rd ids s
      else if str_contains (lit ''[TOOL_CALLS]'') s then parse_xlam_tool_output rd ids s
      else Ok (parsed_content s))"

fun parse_assistant_for_family ::
  "json_reader \<Rightarrow> string_reader \<Rightarrow> (nat \<Rightarrow> rstr) \<Rightarrow> model_family \<Rightarrow> rstr \<Rightarrow> (parser_error, parsed_assistant) outcome" where
  "parse_assistant_for_family rd rs ids FamQwen s = qwen_parse_complete rd ids s"
| "parse_assistant_for_family rd rs ids FamDeepSeek s = deepseek_parse_complete rd ids s"
| "parse_assistant_for_family rd rs ids FamGemma s = gemma_parse_complete rd rs ids s"
| "parse_assistant_for_family rd rs ids FamLlama s = llama_parse_complete rd ids s"

fun parse_assistant_for_parser_family ::
  "json_reader \<Rightarrow> string_reader \<Rightarrow> (nat \<Rightarrow> rstr) \<Rightarrow> tool_parser_family \<Rightarrow> rstr \<Rightarrow>
   (parser_error, parsed_assistant) outcome" where
  "parse_assistant_for_parser_family rd rs ids FamilyAuto s = parse_assistant_auto rd rs ids s"
| "parse_assistant_for_parser_family rd rs ids FamilyHermes s = qwen_parse_complete rd ids s"
| "parse_assistant_for_parser_family rd rs ids FamilyQwen s = qwen_parse_complete rd ids s"
| "parse_assistant_for_parser_family rd rs ids FamilyDeepSeek s = deepseek_parse_complete rd ids s"
| "parse_assistant_for_parser_family rd rs ids FamilyGemma s = gemma_parse_complete rd rs ids s"
| "parse_assistant_for_parser_family rd rs ids FamilyLlama s = llama_parse_complete rd ids s"
| "parse_assistant_for_parser_family rd rs ids FamilyJson s = parse_json_tool_output rd ids s"
| "parse_assistant_for_parser_family rd rs ids FamilyXlam s = parse_xlam_tool_output rd ids s"

section \<open>Tagged calls\<close>

text \<open>How a text is cut by its tags: each piece is the text before a tag and the text inside it.\<close>

definition tagged_text :: "rstr \<Rightarrow> rstr \<Rightarrow> (rstr \<times> rstr) list \<Rightarrow> rstr \<Rightarrow> rstr" where
  "tagged_text open_tag close_tag pieces tail =
     concat (map (\<lambda>(before, inner). before @ open_tag @ inner @ close_tag) pieces) @ tail"

text \<open>A call syntax between two tags: what the loop over it guarantees, whatever the syntax of one call
  is, and that it does not panic when the parser of one call does not.\<close>

locale tag_syntax =
  fixes open_tag close_tag message :: rstr
    and parse :: "nat \<Rightarrow> rstr \<Rightarrow> (parser_error, tool_call) outcome"
  assumes open_nonempty: "open_tag \<noteq> []" and close_nonempty: "close_tag \<noteq> []"
begin

lemma tagged_calls_conserve:
  "tagged_calls open_tag close_tag message parse rest calls content = Ok (content', calls') \<Longrightarrow>
   \<exists>pieces tail new_calls. rest = tagged_text open_tag close_tag pieces tail \<and>
     content' = content @ concat (map fst pieces) @ tail \<and> calls' = calls @ new_calls \<and>
     list_all2 (\<lambda>(n, before, inner) call. parse n (trim inner) = Ok call \<and> \<not> sublist open_tag before \<and> \<not> sublist close_tag inner)
       (enumerate (length calls) pieces) new_calls \<and> \<not> sublist open_tag tail"
proof (induction "length rest" arbitrary: rest calls content rule: less_induct)
  case less
  show ?case
  proof (cases "split_sub open_tag rest")
    case None
    with less.prems have "content' = content @ rest" "calls' = calls" "\<not> sublist open_tag rest"
      by (auto simp: tagged_calls.simps open_nonempty close_nonempty split_sub_None)
    then show ?thesis
      by (rule_tac x = "[]" in exI, rule_tac x = rest in exI, rule_tac x = "[]" in exI) (simp add: tagged_text_def)
  next
    case (Some p)
    obtain before after where p: "p = (before, after)" by (cases p)
    from less.prems Some p obtain inner rest' call where
      inner: "split_sub close_tag after = Some (inner, rest')" "parse (length calls) (trim inner) = Ok call"
      "tagged_calls open_tag close_tag message parse rest' (calls @ [call]) (content @ before) = Ok (content', calls')"
      by (subst (asm) tagged_calls.simps)
        (auto simp: open_nonempty close_nonempty split: option.splits outcome.splits)
    have "length rest' < length rest"
      using split_sub_shorter [OF Some [unfolded p] open_nonempty] split_sub_shorter [OF inner(1) close_nonempty] by simp
    from less.hyps [OF this inner(3)] obtain pieces tail new_calls where ih:
      "rest' = tagged_text open_tag close_tag pieces tail" "content' = (content @ before) @ concat (map fst pieces) @ tail"
      "calls' = (calls @ [call]) @ new_calls"
      "list_all2 (\<lambda>(n, before, inner) call. parse n (trim inner) = Ok call \<and> \<not> sublist open_tag before \<and> \<not> sublist close_tag inner)
        (enumerate (length (calls @ [call])) pieces) new_calls" "\<not> sublist open_tag tail" by blast
    have "rest = tagged_text open_tag close_tag ((before, inner) # pieces) tail"
      using split_sub_Some [OF Some [unfolded p]] split_sub_Some [OF inner(1)] ih(1) by (simp add: tagged_text_def)
    moreover have "\<not> sublist open_tag before" "\<not> sublist close_tag inner"
      using split_sub_first [OF Some [unfolded p] open_nonempty] split_sub_first [OF inner(1) close_nonempty] by simp_all
    ultimately show ?thesis using ih inner(2)
      by (intro exI [of _ "(before, inner) # pieces"] exI [of _ tail] exI [of _ "call # new_calls"]) simp
  qed
qed

lemma tagged_calls_no_panic:
  assumes "\<And>n s. parse n s \<noteq> Panic"
  shows "tagged_calls open_tag close_tag message parse rest calls content \<noteq> Panic"
proof (induction "length rest" arbitrary: rest calls content rule: less_induct)
  case less
  show ?case
  proof
    assume "tagged_calls open_tag close_tag message parse rest calls content = Panic"
    then obtain before after inner rest' call where s: "split_sub open_tag rest = Some (before, after)"
      "split_sub close_tag after = Some (inner, rest')"
      "tagged_calls open_tag close_tag message parse rest' (calls @ [call]) (content @ before) = Panic"
      by (subst (asm) tagged_calls.simps)
        (auto simp: open_nonempty close_nonempty assms split: option.splits outcome.splits)
    have "length rest' < length rest"
      using split_sub_shorter [OF s(1) open_nonempty] split_sub_shorter [OF s(2) close_nonempty] by simp
    with less.hyps s(3) show False by blast
  qed
qed

end

interpretation qwen_tags: tag_syntax "lit ''<tool_call>''" "lit ''</tool_call>''"
  "lit ''unterminated qwen tool_call tag''" "qwen_call rd ids" for rd ids
  by unfold_locales (simp_all add: lit_def)

interpretation dsml_tags: tag_syntax "lit ''<dsml_tool_call>''" "lit ''</dsml_tool_call>''"
  "lit ''unterminated DeepSeek dsml_tool_call tag''" "\<lambda>n. parse_deepseek_json_call rd (ids n)" for rd ids
  by unfold_locales (simp_all add: lit_def)

interpretation native_tags: tag_syntax call_begin_marker call_end_marker
  "lit ''unterminated DeepSeek native tool call''" "\<lambda>n. parse_deepseek_native_call rd (ids n)" for rd ids
  by unfold_locales (simp_all add: call_begin_marker_def call_end_marker_def lit_def fmt_def)

interpretation gemma_tags: tag_syntax "lit ''<|tool_call>''" "lit ''<tool_call|>''"
  "lit ''unterminated Gemma tool_call tag''" "\<lambda>n. parse_gemma_call rd rs (ids n)" for rd rs ids
  by unfold_locales (simp_all add: lit_def)

end
