(* ===== verification/Chat_Template.thy ===== *)
theory Chat_Template
  imports Tool_Dispatch Api_Json_Bytes
begin

text \<open>
  The chat templates of llm-chat-template/src/lib.rs and the adapter that chooses one with its tool
  instruction (llm-runtime/src/adapters.rs).

  A rendering function appends to an output string or fails; here it returns what it appends, and
  \<open>render_all\<close> joins the pieces in order up to the first failure. The text of a JSON value is its compact
  text; \<open>serde_json::to_string\<close> on the tool definitions, which depends on derived serialisers, is the
  argument \<open>tj\<close>, which gives an error text or the text.
\<close>

datatype template_error =
    TeToolSerialization rstr
  | TeReservedControlToken rstr
  | TeUnsupportedRole rstr
  | TeUnsupportedFamily rstr

type_synonym piece = "(template_error, rstr) outcome"
type_synonym tools_writer = "tool_definition list \<Rightarrow> rstr + rstr"

record qwen_prompt_options =
  qo_enable_thinking :: bool
  qo_add_generation_prompt :: bool

record gemma_prompt_options =
  go_enable_thinking :: bool
  go_add_generation_prompt :: bool

record deepseek_prompt_options =
  do_enable_thinking :: bool
  do_add_generation_prompt :: bool

record llama_prompt_options =
  lo_add_generation_prompt :: bool

fun render_all :: "piece list \<Rightarrow> piece" where
  "render_all [] = Ok []"
| "render_all (p # ps) =
     (case p of
        Ok s \<Rightarrow>
          (case render_all ps of
             Ok t \<Rightarrow> Ok (s @ t)
           | Err e \<Rightarrow> Err e
           | Panic \<Rightarrow> Panic)
      | Err e \<Rightarrow> Err e
      | Panic \<Rightarrow> Panic)"

section \<open>Reserved control tokens\<close>

text \<open>\<open>min_by_key\<close> on the index: the first of the least.\<close>

fun min_by_index :: "(nat \<times> rstr) list \<Rightarrow> (nat \<times> rstr) option" where
  "min_by_index [] = None"
| "min_by_index (p # ps) =
     (case min_by_index ps of
        None \<Rightarrow> Some p
      | Some q \<Rightarrow> if fst q < fst p then Some q else Some p)"

definition reject_tokens :: "rstr list \<Rightarrow> rstr \<Rightarrow> (template_error, unit) outcome" where
  "reject_tokens reserved s =
     (case min_by_index (List.map_filter (\<lambda>token. map_option (\<lambda>index. (index, token)) (str_find token s)) reserved) of
        Some (_, token) \<Rightarrow> Err (TeReservedControlToken token)
      | None \<Rightarrow> Ok ())"

definition qwen_reserved :: "rstr list" where
  "qwen_reserved =
     [lit ''<|im_start|>'',
      lit ''<|im_end|>'',
      lit ''<tool_call>'',
      lit ''</tool_call>'',
      lit ''<think>'',
      lit ''</think>'']"

definition gemma_reserved :: "rstr list" where
  "gemma_reserved =
     [lit ''<|turn>'',
      lit ''<turn|>'',
      lit ''<|channel>'',
      lit ''<channel|>'',
      lit ''<|tool_call>'',
      lit ''<tool_call|>'',
      lit ''<|tool>'',
      lit ''<tool|>'',
      lit ''<|tool_response>'',
      lit ''<tool_response|>'',
      lit ''<|think|>'',
      lit ''<|image|>'',
      lit ''<|audio|>'',
      lit ''<|video|>'']"

definition begin_of_sentence_marker :: rstr where
  "begin_of_sentence_marker = fmt [lit ''<'', [65372], lit ''begin'', [9601], lit ''of'', [9601], lit ''sentence'', [65372], lit ''>'']"

definition outputs_begin_marker :: rstr where
  "outputs_begin_marker = fmt [lit ''<'', [65372], lit ''tool'', [9601], lit ''outputs'', [9601], lit ''begin'', [65372], lit ''>'']"

definition outputs_end_marker :: rstr where
  "outputs_end_marker = fmt [lit ''<'', [65372], lit ''tool'', [9601], lit ''outputs'', [9601], lit ''end'', [65372], lit ''>'']"

definition output_begin_marker :: rstr where
  "output_begin_marker = fmt [lit ''<'', [65372], lit ''tool'', [9601], lit ''output'', [9601], lit ''begin'', [65372], lit ''>'']"

definition output_end_marker :: rstr where
  "output_end_marker = fmt [lit ''<'', [65372], lit ''tool'', [9601], lit ''output'', [9601], lit ''end'', [65372], lit ''>'']"

definition deepseek_reserved :: "rstr list" where
  "deepseek_reserved =
     [begin_of_sentence_marker,
      end_of_sentence_marker,
      user_marker,
      assistant_marker,
      calls_begin_marker,
      calls_end_marker,
      call_begin_marker,
      call_end_marker,
      tool_sep_marker,
      outputs_begin_marker,
      outputs_end_marker,
      output_begin_marker,
      output_end_marker,
      lit ''<think>'',
      lit ''</think>'']"

definition llama_reserved :: "rstr list" where
  "llama_reserved =
     [lit ''<|begin_of_text|>'',
      lit ''<|end_of_text|>'',
      lit ''<|start_header_id|>'',
      lit ''<|end_header_id|>'',
      lit ''<|eot_id|>'',
      lit ''<|eom_id|>'',
      lit ''<|python_tag|>'']"

definition reject_reserved_prompt_controls :: "rstr \<Rightarrow> (template_error, unit) outcome" where
  "reject_reserved_prompt_controls s = reject_tokens qwen_reserved s"

definition reject_gemma4_prompt_controls :: "rstr \<Rightarrow> (template_error, unit) outcome" where
  "reject_gemma4_prompt_controls s = reject_tokens gemma_reserved s"

definition reject_deepseek_prompt_controls :: "rstr \<Rightarrow> (template_error, unit) outcome" where
  "reject_deepseek_prompt_controls s = reject_tokens deepseek_reserved s"

definition reject_llama3_prompt_controls :: "rstr \<Rightarrow> (template_error, unit) outcome" where
  "reject_llama3_prompt_controls s = reject_tokens llama_reserved s"

text \<open>A check followed by what is appended.\<close>

definition after_check :: "(template_error, unit) outcome \<Rightarrow> rstr \<Rightarrow> piece" where
  "after_check check s =
     (case check of
        Ok _ \<Rightarrow> Ok s
      | Err e \<Rightarrow> Err e
      | Panic \<Rightarrow> Panic)"

text \<open>\<open>if let Some(content) = &message.content\<close> with a check and a transformation.\<close>

definition content_piece :: "(rstr \<Rightarrow> (template_error, unit) outcome) \<Rightarrow> (rstr \<Rightarrow> rstr) \<Rightarrow> rstr option \<Rightarrow> piece" where
  "content_piece check f content =
     (case content of
        Some c \<Rightarrow> after_check (check c) (f c)
      | None \<Rightarrow> Ok [])"

definition tools_piece :: "tools_writer \<Rightarrow> (rstr \<Rightarrow> (template_error, unit) outcome) \<Rightarrow> tool_definition list \<Rightarrow> piece" where
  "tools_piece tj check tools =
     (case tj tools of
        Inl err \<Rightarrow> Err (TeToolSerialization err)
      | Inr s \<Rightarrow> after_check (check s) s)"

definition instruction_piece :: "rstr option \<Rightarrow> piece" where
  "instruction_piece instruction = (case instruction of Some s \<Rightarrow> Ok s | None \<Rightarrow> Ok [])"

definition call_payload :: "tool_call \<Rightarrow> rstr" where
  "call_payload call =
     json_compact (JObject [(lit ''name'', JString (tcf_name (tc_function call))),
       (lit ''arguments'', tcf_arguments (tc_function call))])"

fun leading_system :: "chat_message list \<Rightarrow> chat_message option" where
  "leading_system [] = None"
| "leading_system (m # ms) = (if cm_role m = RoleSystem then Some m else None)"

text \<open>\<open>message_index\<close> is 1 after a leading system message has been consumed.\<close>

definition remaining_messages :: "bool \<Rightarrow> chat_message list \<Rightarrow> chat_message list" where
  "remaining_messages consumed messages =
     (if consumed \<and> leading_system messages \<noteq> None then drop 1 messages else messages)"

section \<open>Qwen\<close>

definition render_plain :: "rstr \<Rightarrow> chat_message \<Rightarrow> piece" where
  "render_plain role m =
     render_all
       [Ok (lit ''<|im_start|>''), Ok role, Ok [10],
        content_piece reject_reserved_prompt_controls (\<lambda>c. c) (cm_content m),
        Ok (lit ''<|im_end|>'' @ [10])]"

definition render_assistant_call :: "tool_call \<Rightarrow> piece" where
  "render_assistant_call call =
     (let payload_json = call_payload call
      in after_check (reject_reserved_prompt_controls payload_json)
           (lit ''<tool_call>'' @ payload_json @ lit ''</tool_call>''))"

definition render_assistant :: "chat_message \<Rightarrow> piece" where
  "render_assistant m =
     render_all
       [Ok (lit ''<|im_start|>assistant'' @ [10]),
        content_piece reject_reserved_prompt_controls (\<lambda>c. c) (cm_content m),
        render_all (map render_assistant_call (cm_tool_calls m)),
        Ok (lit ''<|im_end|>'' @ [10])]"

fun render_qwen_message :: "chat_message \<Rightarrow> piece" where
  "render_qwen_message m =
     (case cm_role m of
        RoleSystem \<Rightarrow> render_plain (lit ''system'') m
      | RoleUser \<Rightarrow> render_plain (lit ''user'') m
      | RoleTool \<Rightarrow> render_plain (lit ''tool'') m
      | RoleAssistant \<Rightarrow> render_assistant m)"

definition qwen_tools_turn ::
  "tools_writer \<Rightarrow> chat_message list \<Rightarrow> tool_definition list \<Rightarrow> rstr option \<Rightarrow> piece" where
  "qwen_tools_turn tj messages tools tool_instruction =
     (let system_content = Option.bind (leading_system messages) cm_content
      in case tools_piece tj reject_reserved_prompt_controls tools of
           Ok tools_json \<Rightarrow>
             render_all
               [Ok (lit ''<|im_start|>system'' @ [10]),
                content_piece reject_reserved_prompt_controls (\<lambda>c. c) system_content,
                Ok (if system_content \<noteq> None then [10, 10] else []),
                instruction_piece tool_instruction, Ok tools_json, Ok (lit ''<|im_end|>'' @ [10])]
         | Err e \<Rightarrow> Err e
         | Panic \<Rightarrow> Panic)"

definition render_qwen_chatml_with_tool_instruction ::
  "tools_writer \<Rightarrow> chat_message list \<Rightarrow> tool_definition list \<Rightarrow> qwen_prompt_options \<Rightarrow> rstr option \<Rightarrow> piece" where
  "render_qwen_chatml_with_tool_instruction tj messages tools options tool_instruction =
     render_all
       [if tools \<noteq> [] then qwen_tools_turn tj messages tools tool_instruction else Ok [],
        render_all (map render_qwen_message (remaining_messages (tools \<noteq> []) messages)),
        Ok (if qo_add_generation_prompt options then
              lit ''<|im_start|>assistant'' @ [10] @
              (if \<not> qo_enable_thinking options then lit ''<think>'' @ [10, 10] @ lit ''</think>'' @ [10, 10]
               else lit ''<think>'' @ [10])
            else [])]"

section \<open>Llama\<close>

definition llama_header :: "rstr \<Rightarrow> rstr" where
  "llama_header role = lit ''<|start_header_id|>'' @ role @ lit ''<|end_header_id|>'' @ [10, 10]"

definition render_llama3_plain_turn :: "rstr \<Rightarrow> chat_message \<Rightarrow> piece" where
  "render_llama3_plain_turn role m =
     render_all
       [Ok (llama_header role), content_piece reject_llama3_prompt_controls trim (cm_content m), Ok (lit ''<|eot_id|>'')]"

text \<open>Each payload is preceded by a newline unless it is the first thing in the turn.\<close>

definition render_llama3_call :: "bool \<Rightarrow> tool_call \<Rightarrow> piece" where
  "render_llama3_call newline call =
     (let payload_json = call_payload call
      in after_check (reject_llama3_prompt_controls payload_json) ((if newline then [10] else []) @ payload_json))"

fun render_llama3_calls :: "bool \<Rightarrow> tool_call list \<Rightarrow> piece list" where
  "render_llama3_calls newline [] = []"
| "render_llama3_calls newline (call # calls) = render_llama3_call newline call # render_llama3_calls True calls"

definition render_llama3_assistant_turn :: "chat_message \<Rightarrow> piece" where
  "render_llama3_assistant_turn m =
     render_all
       [Ok (llama_header (lit ''assistant'')), content_piece reject_llama3_prompt_controls trim (cm_content m),
        render_all (render_llama3_calls
          (case cm_content m of Some content \<Rightarrow> trim content \<noteq> [] | None \<Rightarrow> False) (cm_tool_calls m)),
        Ok (lit ''<|eot_id|>'')]"

definition render_llama3_tool_response :: "chat_message \<Rightarrow> piece" where
  "render_llama3_tool_response m =
     (let content = (case cm_content m of Some c \<Rightarrow> c | None \<Rightarrow> [])
      in after_check (reject_llama3_prompt_controls content)
           (llama_header (lit ''ipython'') @ trim content @ lit ''<|eot_id|>''))"

fun render_llama3_message :: "chat_message \<Rightarrow> piece" where
  "render_llama3_message m =
     (case cm_role m of
        RoleSystem \<Rightarrow> render_llama3_plain_turn (lit ''system'') m
      | RoleUser \<Rightarrow> render_llama3_plain_turn (lit ''user'') m
      | RoleAssistant \<Rightarrow> render_llama3_assistant_turn m
      | RoleTool \<Rightarrow> render_llama3_tool_response m)"

definition llama_system_turn ::
  "tools_writer \<Rightarrow> chat_message list \<Rightarrow> tool_definition list \<Rightarrow> rstr option \<Rightarrow> piece" where
  "llama_system_turn tj messages tools tool_instruction =
     (if leading_system messages = None \<and> tools = [] then Ok []
      else
        render_all
          [Ok (llama_header (lit ''system'')),
           content_piece reject_llama3_prompt_controls trim (Option.bind (leading_system messages) cm_content),
           if tools \<noteq> [] then
             (case tools_piece tj reject_llama3_prompt_controls tools of
                Ok tools_json \<Rightarrow>
                  render_all [Ok (if leading_system messages \<noteq> None then [10, 10] else []),
                    instruction_piece tool_instruction, Ok tools_json]
              | Err e \<Rightarrow> Err e
              | Panic \<Rightarrow> Panic)
           else Ok [],
           Ok (lit ''<|eot_id|>'')])"

definition render_llama3_chat_template_with_tool_instruction ::
  "tools_writer \<Rightarrow> chat_message list \<Rightarrow> tool_definition list \<Rightarrow> llama_prompt_options \<Rightarrow> rstr option \<Rightarrow> piece" where
  "render_llama3_chat_template_with_tool_instruction tj messages tools options tool_instruction =
     render_all
       [Ok (lit ''<|begin_of_text|>''), llama_system_turn tj messages tools tool_instruction,
        render_all (map render_llama3_message (remaining_messages True messages)),
        Ok (if lo_add_generation_prompt options then llama_header (lit ''assistant'') else [])]"

section \<open>DeepSeek\<close>

definition strip_deepseek_history_reasoning :: "rstr \<Rightarrow> rstr" where
  "strip_deepseek_history_reasoning content =
     (case split_sub (lit ''</think>'') content of Some (_, answer) \<Rightarrow> answer | None \<Rightarrow> content)"

definition render_deepseek_plain_turn :: "rstr \<Rightarrow> chat_message \<Rightarrow> piece" where
  "render_deepseek_plain_turn marker m =
     render_all [Ok marker, content_piece reject_deepseek_prompt_controls (\<lambda>c. c) (cm_content m)]"

definition render_deepseek_call :: "tool_call \<Rightarrow> piece" where
  "render_deepseek_call call =
     (let name = tcf_name (tc_function call); arguments_json = json_compact (tcf_arguments (tc_function call))
      in render_all
           [after_check (reject_deepseek_prompt_controls name) [],
            after_check (reject_deepseek_prompt_controls arguments_json) [],
            Ok (call_begin_marker @ lit ''function'' @ tool_sep_marker @ name @ [10] @ lit ''```json'' @ [10] @
                arguments_json @ [10] @ lit ''```'' @ call_end_marker)])"

definition render_deepseek_assistant_turn :: "chat_message \<Rightarrow> piece" where
  "render_deepseek_assistant_turn m =
     render_all
       [Ok assistant_marker,
        content_piece reject_deepseek_prompt_controls strip_deepseek_history_reasoning (cm_content m),
        if cm_tool_calls m \<noteq> [] then
          render_all [Ok calls_begin_marker, render_all (map render_deepseek_call (cm_tool_calls m)), Ok calls_end_marker]
        else Ok [],
        Ok end_of_sentence_marker]"

definition render_deepseek_tool_response :: "bool \<Rightarrow> chat_message \<Rightarrow> piece" where
  "render_deepseek_tool_response tool_output_open m =
     (let content = (case cm_content m of Some c \<Rightarrow> c | None \<Rightarrow> [])
      in after_check (reject_deepseek_prompt_controls content)
           ((if \<not> tool_output_open then outputs_begin_marker else []) @
            output_begin_marker @ content @ output_end_marker))"

text \<open>The loop over the messages with the flag \<open>tool_output_open\<close>, and the marker that closes the last
  group of tool outputs.\<close>

fun render_deepseek_messages :: "bool \<Rightarrow> chat_message list \<Rightarrow> piece list" where
  "render_deepseek_messages tool_output_open [] = [Ok (if tool_output_open then outputs_end_marker else [])]"
| "render_deepseek_messages tool_output_open (m # ms) =
     (let close_outputs = Ok (if tool_output_open then outputs_end_marker else [])
      in case cm_role m of
           RoleSystem \<Rightarrow> render_deepseek_messages tool_output_open ms
         | RoleUser \<Rightarrow> close_outputs # render_deepseek_plain_turn user_marker m # render_deepseek_messages False ms
         | RoleAssistant \<Rightarrow> close_outputs # render_deepseek_assistant_turn m # render_deepseek_messages False ms
         | RoleTool \<Rightarrow> render_deepseek_tool_response tool_output_open m # render_deepseek_messages True ms)"

definition deepseek_system_piece :: "chat_message \<Rightarrow> piece" where
  "deepseek_system_piece m =
     (case cm_content m of
        Some system \<Rightarrow> after_check (reject_deepseek_prompt_controls system) (system @ [10, 10])
      | None \<Rightarrow> Ok [])"

definition render_deepseek_chat_template_with_tool_instruction ::
  "tools_writer \<Rightarrow> chat_message list \<Rightarrow> tool_definition list \<Rightarrow> deepseek_prompt_options \<Rightarrow> rstr option \<Rightarrow> piece" where
  "render_deepseek_chat_template_with_tool_instruction tj messages tools options tool_instruction =
     render_all
       [Ok begin_of_sentence_marker,
        render_all (map deepseek_system_piece (filter (\<lambda>m. cm_role m = RoleSystem) messages)),
        if tools \<noteq> [] then
          (case tools_piece tj reject_deepseek_prompt_controls tools of
             Ok tools_json \<Rightarrow> render_all [instruction_piece tool_instruction, Ok tools_json, Ok [10, 10]]
           | Err e \<Rightarrow> Err e
           | Panic \<Rightarrow> Panic)
        else Ok [],
        render_all (render_deepseek_messages False messages),
        Ok (if do_add_generation_prompt options then
              assistant_marker @ (if do_enable_thinking options then lit ''<think>'' @ [10] else [])
            else [])]"

section \<open>Gemma\<close>

text \<open>\<open>str::replace\<close> of a pattern by nothing: one pass from the left.\<close>

function remove_sub :: "'a list \<Rightarrow> 'a list \<Rightarrow> 'a list" where
  "remove_sub pat s =
     (if pat = [] then s
      else case split_sub pat s of
             None \<Rightarrow> s
           | Some (u, v) \<Rightarrow> u @ remove_sub pat v)"
  by pat_completeness auto
termination
  by (relation "measure (\<lambda>(pat, s). length s)") (auto dest: split_sub_shorter)

declare remove_sub.simps [simp del]

definition render_gemma4_string :: "rstr \<Rightarrow> rstr" where
  "render_gemma4_string s = gemma_quote @ remove_sub gemma_quote s @ gemma_quote"

fun join_comma :: "rstr list \<Rightarrow> rstr" where
  "join_comma [] = []"
| "join_comma [s] = s"
| "join_comma (s # t # ts) = s @ [44] @ join_comma (t # ts)"

fun render_gemma4_argument :: "json \<Rightarrow> rstr" where
  "render_gemma4_argument JNull = lit ''null''"
| "render_gemma4_argument (JBool b) = (if b then lit ''true'' else lit ''false'')"
| "render_gemma4_argument (JNumber n) = jn_text n"
| "render_gemma4_argument (JString s) = render_gemma4_string s"
| "render_gemma4_argument (JArray items) = [91] @ join_comma (map render_gemma4_argument items) @ [93]"
| "render_gemma4_argument (JObject entries) =
     [123] @ join_comma (map (\<lambda>(k, v). k @ [58] @ render_gemma4_argument v) entries) @ [125]"

definition render_gemma4_tool_definition :: "tool_definition \<Rightarrow> rstr" where
  "render_gemma4_tool_definition tool =
     (let f = td_function tool
      in lit ''declaration:'' @ fd_name f @ [123] @
         (case fd_description f of
            Some description \<Rightarrow> lit ''description:'' @ render_gemma4_string description @ [44]
          | None \<Rightarrow> []) @
         lit ''parameters:'' @ render_gemma4_argument (fd_parameters f) @ [125])"

definition render_gemma4_turn :: "rstr \<Rightarrow> chat_message \<Rightarrow> piece" where
  "render_gemma4_turn role m =
     render_all
       [Ok (lit ''<|turn>'' @ role @ [10]), content_piece reject_gemma4_prompt_controls trim (cm_content m),
        Ok (lit ''<turn|>'' @ [10])]"

definition render_gemma4_call :: "tool_call \<Rightarrow> piece" where
  "render_gemma4_call call =
     (let arguments = render_gemma4_argument (tcf_arguments (tc_function call))
      in after_check (reject_gemma4_prompt_controls arguments)
           (lit ''<|tool_call>call:'' @ tcf_name (tc_function call) @ arguments @ lit ''<tool_call|>''))"

definition render_gemma4_assistant_turn :: "chat_message \<Rightarrow> piece" where
  "render_gemma4_assistant_turn m =
     render_all
       [Ok (lit ''<|turn>model'' @ [10]), content_piece reject_gemma4_prompt_controls trim (cm_content m),
        render_all (map render_gemma4_call (cm_tool_calls m)), Ok (lit ''<turn|>'' @ [10])]"

text \<open>The names of the calls by identifier; a later call with the same identifier wins.\<close>

definition tool_names_by_id :: "chat_message list \<Rightarrow> (rstr \<times> rstr) list" where
  "tool_names_by_id messages =
     rev (concat (map (\<lambda>m. map (\<lambda>call. (tc_id call, tcf_name (tc_function call))) (cm_tool_calls m)) messages))"

definition render_gemma4_tool_response :: "(rstr \<times> rstr) list \<Rightarrow> chat_message \<Rightarrow> piece" where
  "render_gemma4_tool_response names m =
     (let content = (case cm_content m of Some c \<Rightarrow> c | None \<Rightarrow> []);
          tool_name = (case or_else (Option.bind (cm_tool_call_id m) (map_of names)) (cm_name m) of
                         Some name \<Rightarrow> name
                       | None \<Rightarrow> lit ''unknown'')
      in after_check (reject_gemma4_prompt_controls content)
           (lit ''<|tool_response>response:'' @ tool_name @ lit ''{value:'' @ render_gemma4_string content @
            lit ''}<tool_response|>''))"

fun render_gemma4_message :: "(rstr \<times> rstr) list \<Rightarrow> chat_message \<Rightarrow> piece" where
  "render_gemma4_message names m =
     (case cm_role m of
        RoleSystem \<Rightarrow> render_gemma4_turn (lit ''system'') m
      | RoleUser \<Rightarrow> render_gemma4_turn (lit ''user'') m
      | RoleAssistant \<Rightarrow> render_gemma4_assistant_turn m
      | RoleTool \<Rightarrow> render_gemma4_tool_response names m)"

definition gemma_tool_piece :: "tool_definition \<Rightarrow> piece" where
  "gemma_tool_piece tool =
     (let rendered = render_gemma4_tool_definition tool
      in after_check (reject_gemma4_prompt_controls rendered) (lit ''<|tool>'' @ rendered @ lit ''<tool|>''))"

definition gemma_has_system_turn ::
  "chat_message list \<Rightarrow> tool_definition list \<Rightarrow> gemma_prompt_options \<Rightarrow> bool" where
  "gemma_has_system_turn messages tools options \<longleftrightarrow>
     go_enable_thinking options \<or> tools \<noteq> [] \<or> leading_system messages \<noteq> None"

definition gemma_system_turn ::
  "chat_message list \<Rightarrow> tool_definition list \<Rightarrow> gemma_prompt_options \<Rightarrow> rstr option \<Rightarrow> piece" where
  "gemma_system_turn messages tools options tool_instruction =
     (if gemma_has_system_turn messages tools options then
        render_all
          [Ok (lit ''<|turn>system'' @ [10]),
           Ok (if go_enable_thinking options then lit ''<|think|>'' @ [10] else []),
           instruction_piece tool_instruction,
           content_piece reject_gemma4_prompt_controls trim (Option.bind (leading_system messages) cm_content),
           render_all (map gemma_tool_piece tools), Ok (lit ''<turn|>'' @ [10])]
      else Ok [])"

definition render_gemma4_chat_template_with_tool_instruction ::
  "chat_message list \<Rightarrow> tool_definition list \<Rightarrow> gemma_prompt_options \<Rightarrow> rstr option \<Rightarrow> piece" where
  "render_gemma4_chat_template_with_tool_instruction messages tools options tool_instruction =
     render_all
       [Ok (lit ''<bos>''), gemma_system_turn messages tools options tool_instruction,
        render_all (map (render_gemma4_message (tool_names_by_id messages)) (remaining_messages True messages)),
        Ok (if go_add_generation_prompt options then
              lit ''<|turn>model'' @ [10] @
              (if \<not> go_enable_thinking options then lit ''<|channel>thought'' @ [10] @ lit ''<channel|>'' else [])
            else [])]"

section \<open>The family's template and the adapter\<close>

fun render_family_chat_template_with_tool_instruction ::
  "tools_writer \<Rightarrow> model_family \<Rightarrow> chat_message list \<Rightarrow> tool_definition list \<Rightarrow> rstr option \<Rightarrow> piece" where
  "render_family_chat_template_with_tool_instruction tj FamQwen messages tools tool_instruction =
     render_qwen_chatml_with_tool_instruction tj messages tools
       \<lparr>qo_enable_thinking = False, qo_add_generation_prompt = True\<rparr> tool_instruction"
| "render_family_chat_template_with_tool_instruction tj FamDeepSeek messages tools tool_instruction =
     render_deepseek_chat_template_with_tool_instruction tj messages tools
       \<lparr>do_enable_thinking = False, do_add_generation_prompt = True\<rparr> tool_instruction"
| "render_family_chat_template_with_tool_instruction tj FamGemma messages tools tool_instruction =
     render_gemma4_chat_template_with_tool_instruction messages tools
       \<lparr>go_enable_thinking = False, go_add_generation_prompt = True\<rparr> tool_instruction"
| "render_family_chat_template_with_tool_instruction tj FamLlama messages tools tool_instruction =
     render_llama3_chat_template_with_tool_instruction tj messages tools
       \<lparr>lo_add_generation_prompt = True\<rparr> tool_instruction"

definition QWEN_TOOL_INSTRUCTION :: rstr where
  "QWEN_TOOL_INSTRUCTION =
     lit ''Tools are available. Return tool invocations inside <tool_call> JSON blocks.'' @ [10]"

definition DEEPSEEK_TOOL_INSTRUCTION :: rstr where
  "DEEPSEEK_TOOL_INSTRUCTION =
     lit ''You may call tools by emitting DeepSeek tool call blocks with exact tool names.'' @ [10]"

definition LLAMA_TOOL_INSTRUCTION :: rstr where
  "LLAMA_TOOL_INSTRUCTION =
     lit ''Tools are available. To call a function, respond with JSON in the form '' @
     fmt [lit ''{'', [34], lit ''name'', [34], lit '':'', [34], lit ''function_name'', [34], lit '','', [34], lit ''arguments'',
          [34], lit '':{'', [34], lit ''argument'', [34], lit '':'', [34], lit ''value'', [34], lit ''}}''] @
     lit ''. Do not use variables.'' @ [10]"

fun tool_instruction :: "model_family \<Rightarrow> tool_definition list \<Rightarrow> rstr option" where
  "tool_instruction family tools =
     (if tools = [] then None
      else case family of
             FamQwen \<Rightarrow> Some QWEN_TOOL_INSTRUCTION
           | FamDeepSeek \<Rightarrow> Some DEEPSEEK_TOOL_INSTRUCTION
           | FamLlama \<Rightarrow> Some LLAMA_TOOL_INSTRUCTION
           | FamGemma \<Rightarrow> None)"

definition render_prompt ::
  "tools_writer \<Rightarrow> model_family \<Rightarrow> chat_message list \<Rightarrow> tool_definition list \<Rightarrow> piece" where
  "render_prompt tj family messages tools =
     render_family_chat_template_with_tool_instruction tj family messages tools (tool_instruction family tools)"

end
