(* ===== verification/Chat_Template_Props.thy ===== *)
theory Chat_Template_Props
  imports Chat_Template
begin

text \<open>
  What a rendered prompt guarantees. Counting a control token in the whole prompt shows that request
  text can neither contain one nor complete one across a boundary: the tokens that open and close turns
  are exactly those that the template itself wrote. The locale \<open>control_token\<close> carries the counting
  arguments and is interpreted on the two turn tokens of the Qwen family. (For Gemma the count fails:
  Gemma\_Roundtrip exhibits a conversation that forges turns.)
\<close>

section \<open>Counting a token\<close>

fun count_sub :: "'a list \<Rightarrow> 'a list \<Rightarrow> nat" where
  "count_sub pat [] = 0"
| "count_sub pat (c # s) = (if starts_with pat (c # s) then 1 else 0) + count_sub pat s"

lemma count_sub_zero: "pat \<noteq> [] \<Longrightarrow> count_sub pat s = 0 \<longleftrightarrow> \<not> sublist pat s"
proof (induction s)
  case (Cons c s)
  have "sublist pat (c # s) \<longleftrightarrow> prefix pat (c # s) \<or> sublist pat s" by (simp add: sublist_Cons_right)
  with Cons show ?case by (auto simp: starts_with_prefix)
qed simp

text \<open>A text that begins with none of the token's later characters cannot complete it.\<close>

definition fresh_start :: "rstr \<Rightarrow> rstr \<Rightarrow> bool" where
  "fresh_start tok s \<longleftrightarrow> s = [] \<or> hd s \<notin> set (tl tok)"

text \<open>\<open>adds tok n w\<close>: the text \<open>w\<close> contributes \<open>n\<close> tokens, whatever follows.\<close>

definition adds :: "rstr \<Rightarrow> nat \<Rightarrow> rstr \<Rightarrow> bool" where
  "adds tok n w \<longleftrightarrow> (\<forall>s. count_sub tok (w @ s) = n + count_sub tok s)"

locale control_token =
  fixes tok :: rstr
  assumes token_nonempty: "tok \<noteq> []"
begin

lemma starts_with_straddle:
  assumes "starts_with tok (c # x @ s)" and "fresh_start tok s"
  shows "starts_with tok (c # x)"
proof (cases "length tok \<le> length (c # x)")
  case True
  then have "take (length tok) ((c # x) @ s) = take (length tok) (c # x)" by (simp only: take_append) simp
  then show ?thesis using assms(1) by (simp add: starts_with_def)
next
  case False
  then have long: "length (c # x) < length tok" by simp
  from assms(1) have eq: "take (length tok) ((c # x) @ s) = tok" by (simp add: starts_with_def)
  from long eq have ne: "s \<noteq> []" by (cases s) (auto dest: arg_cong [where f = length])
  have "tok ! length (c # x) = hd s"
    using long eq ne by (metis hd_conv_nth le_neq_implies_less nth_append_length_plus nth_take add_0_right order_refl)
  moreover have "tok ! length (c # x) = tl tok ! length x"
    using long by (simp add: nth_tl)
  moreover have "length x < length (tl tok)" using long by simp
  ultimately have "hd s \<in> set (tl tok)" using nth_mem by metis
  with assms(2) ne show ?thesis by (simp add: fresh_start_def)
qed

lemma count_append: "fresh_start tok s \<Longrightarrow> count_sub tok (x @ s) = count_sub tok x + count_sub tok s"
proof (induction x)
  case (Cons c x)
  have "starts_with tok (c # x @ s) \<longleftrightarrow> starts_with tok (c # x)"
    using starts_with_straddle [of c x s] prefix_prefix [of tok "c # x" s] Cons.prems
    by (auto simp: starts_with_prefix)
  with Cons show ?case by simp
qed simp

lemma count_clean: "\<not> sublist tok x \<Longrightarrow> fresh_start tok s \<Longrightarrow> count_sub tok (x @ s) = count_sub tok s"
  using count_append [of s x] count_sub_zero [OF token_nonempty, of x] by simp

lemma adds_Nil: "adds tok 0 []"
  by (simp add: adds_def)

lemma adds_append: "adds tok m u \<Longrightarrow> adds tok n v \<Longrightarrow> adds tok (m + n) (u @ v)"
  by (simp add: adds_def)

lemma adds_concat: "list_all (adds tok k) ws \<Longrightarrow> adds tok (length ws * k) (concat ws)"
  by (induction ws) (auto simp: adds_def)

lemma adds_count: "adds tok n w \<Longrightarrow> count_sub tok w = n"
  unfolding adds_def by (metis add_0_right append_Nil2 count_sub.simps(1))

lemma adds_clean: "\<not> sublist tok x \<Longrightarrow> w \<noteq> [] \<Longrightarrow> hd w \<notin> set (tl tok) \<Longrightarrow> adds tok n w \<Longrightarrow> adds tok n (x @ w)"
  by (auto simp: adds_def count_clean fresh_start_def)

end

section \<open>Rejected tokens\<close>

lemma min_by_index_None: "min_by_index ps = None \<longleftrightarrow> ps = []"
  by (cases ps) (auto split: option.splits)

lemma str_find_None: "str_find p s = None \<longleftrightarrow> \<not> sublist p s"
  using split_sub_None [of p s] by (auto simp: str_find_def split_sub_def)

lemma reject_tokens_Ok: "reject_tokens reserved s = Ok () \<longleftrightarrow> (\<forall>token \<in> set reserved. \<not> sublist token s)"
proof -
  have "reject_tokens reserved s = Ok () \<longleftrightarrow>
    List.map_filter (\<lambda>token. map_option (\<lambda>index. (index, token)) (str_find token s)) reserved = []"
    by (auto simp: reject_tokens_def min_by_index_None split: option.splits dest: sym)
  also have "\<dots> \<longleftrightarrow> (\<forall>token \<in> set reserved. \<not> sublist token s)"
    by (auto simp: List.map_filter_def filter_empty_conv str_find_None)
  finally show ?thesis .
qed

lemma after_check_Ok: "after_check c s = Ok t \<longleftrightarrow> c = Ok () \<and> t = s"
  by (auto simp: after_check_def split: outcome.splits)

lemma content_piece_Ok:
  "content_piece check f content = Ok t \<longleftrightarrow>
   (case content of None \<Rightarrow> t = [] | Some c \<Rightarrow> check c = Ok () \<and> t = f c)"
  by (auto simp: content_piece_def after_check_Ok split: option.splits)

lemma render_all_Ok_Cons:
  "render_all (p # ps) = Ok w \<longleftrightarrow> (\<exists>u v. p = Ok u \<and> render_all ps = Ok v \<and> w = u @ v)"
  by (auto split: outcome.splits)

lemma render_all_Ok_Nil: "render_all [] = Ok w \<longleftrightarrow> w = []"
  by auto

lemmas rendered = render_all_Ok_Cons render_all_Ok_Nil content_piece_Ok after_check_Ok

lemma render_all_map_Ok:
  "render_all (map f xs) = Ok w \<Longrightarrow> \<exists>ws. w = concat ws \<and> list_all2 (\<lambda>x v. f x = Ok v) xs ws"
proof (induction xs arbitrary: w)
  case (Cons x xs)
  then obtain u v where uv: "f x = Ok u" "render_all (map f xs) = Ok v" "w = u @ v"
    by (auto simp: render_all_Ok_Cons simp del: render_all.simps)
  from Cons.IH [OF uv(2)] obtain ws where "v = concat ws" "list_all2 (\<lambda>x v. f x = Ok v) xs ws" by blast
  with uv show ?case by (intro exI [of _ "u # ws"]) simp
qed simp

lemma clean_trim: "\<not> sublist t c \<Longrightarrow> \<not> sublist t (trim c)"
  using sublist_trim sublist_order.order.trans by blast

section \<open>Qwen turns\<close>

interpretation im_start: control_token "lit ''<|im_start|>''"
  by unfold_locales (simp add: lit_def)

interpretation im_end: control_token "lit ''<|im_end|>''"
  by unfold_locales (simp add: lit_def)

lemma qwen_clean:
  assumes "reject_reserved_prompt_controls s = Ok ()"
  shows "\<not> sublist (lit ''<|im_start|>'') s" "\<not> sublist (lit ''<|im_end|>'') s"
  using assms by (simp_all add: reject_reserved_prompt_controls_def reject_tokens_Ok qwen_reserved_def)

text \<open>Evaluating the count on the literal text of the template.\<close>

lemmas count_literal = lit_def starts_with_def

lemma qwen_close:
  "adds (lit ''<|im_start|>'') 0 (lit ''<|im_end|>'' @ [10])" "adds (lit ''<|im_end|>'') 1 (lit ''<|im_end|>'' @ [10])"
  unfolding adds_def by (simp_all add: count_literal)

lemma qwen_open:
  "adds (lit ''<|im_start|>'') 1 (lit ''<|im_start|>'' @ lit ''system'' @ [10])" "adds (lit ''<|im_end|>'') 0 (lit ''<|im_start|>'' @ lit ''system'' @ [10])"
  "adds (lit ''<|im_start|>'') 1 (lit ''<|im_start|>'' @ lit ''user'' @ [10])" "adds (lit ''<|im_end|>'') 0 (lit ''<|im_start|>'' @ lit ''user'' @ [10])"
  "adds (lit ''<|im_start|>'') 1 (lit ''<|im_start|>'' @ lit ''tool'' @ [10])" "adds (lit ''<|im_end|>'') 0 (lit ''<|im_start|>'' @ lit ''tool'' @ [10])"
  "adds (lit ''<|im_start|>'') 1 (lit ''<|im_start|>assistant'' @ [10])" "adds (lit ''<|im_end|>'') 0 (lit ''<|im_start|>assistant'' @ [10])"
  "adds (lit ''<|im_start|>'') 1 (lit ''<|im_start|>system'' @ [10])" "adds (lit ''<|im_end|>'') 0 (lit ''<|im_start|>system'' @ [10])"
  unfolding adds_def by (simp_all add: count_literal)

lemma qwen_content:
  assumes "content_piece reject_reserved_prompt_controls (\<lambda>c. c) content = Ok t" and "hd w = 60 \<or> hd w = 10" and "w \<noteq> []"
  shows "adds (lit ''<|im_start|>'') m w \<Longrightarrow> adds (lit ''<|im_start|>'') m (t @ w)" "adds (lit ''<|im_end|>'') n w \<Longrightarrow> adds (lit ''<|im_end|>'') n (t @ w)"
proof -
  from assms(1) have "t = [] \<or> reject_reserved_prompt_controls t = Ok ()"
    by (auto simp: content_piece_Ok split: option.splits)
  then have clean: "\<not> sublist (lit ''<|im_start|>'') t" "\<not> sublist (lit ''<|im_end|>'') t"
    by (auto simp: qwen_clean) (simp_all add: lit_def)
  have hd: "hd w \<notin> set (tl (lit ''<|im_start|>''))" "hd w \<notin> set (tl (lit ''<|im_end|>''))"
    using assms(2) by (auto simp: lit_def)
  show "adds (lit ''<|im_start|>'') m w \<Longrightarrow> adds (lit ''<|im_start|>'') m (t @ w)" by (rule im_start.adds_clean [OF clean(1) assms(3) hd(1)])
  show "adds (lit ''<|im_end|>'') n w \<Longrightarrow> adds (lit ''<|im_end|>'') n (t @ w)" by (rule im_end.adds_clean [OF clean(2) assms(3) hd(2)])
qed

lemma qwen_call_adds:
  assumes "render_assistant_call call = Ok w"
  shows "adds (lit ''<|im_start|>'') 0 w" "adds (lit ''<|im_end|>'') 0 w" "w \<noteq> [] \<and> hd w = 60"
proof -
  let ?p = "call_payload call"
  from assms have w: "w = lit ''<tool_call>'' @ ?p @ lit ''</tool_call>''" and ok: "reject_reserved_prompt_controls ?p = Ok ()"
    by (auto simp: render_assistant_call_def after_check_Ok Let_def)
  have lits: "adds (lit ''<|im_start|>'') 0 (lit ''<tool_call>'')" "adds (lit ''<|im_end|>'') 0 (lit ''<tool_call>'')"
    "adds (lit ''<|im_start|>'') 0 (lit ''</tool_call>'')" "adds (lit ''<|im_end|>'') 0 (lit ''</tool_call>'')"
    unfolding adds_def by (simp_all add: count_literal)
  have p: "content_piece reject_reserved_prompt_controls (\<lambda>c. c) (Some ?p) = Ok ?p" using ok by (simp add: content_piece_Ok)
  have hd: "hd (lit ''</tool_call>'') = 60 \<or> hd (lit ''</tool_call>'') = 10" "lit ''</tool_call>'' \<noteq> []" by (simp_all add: lit_def)
  show "adds (lit ''<|im_start|>'') 0 w" "adds (lit ''<|im_end|>'') 0 w"
    using im_start.adds_append [OF lits(1) qwen_content(1) [OF p hd lits(3)]]
      im_end.adds_append [OF lits(2) qwen_content(2) [OF p hd lits(4)]] unfolding w by simp_all
  show "w \<noteq> [] \<and> hd w = 60" unfolding w by (simp add: lit_def)
qed

lemma qwen_calls_adds:
  assumes "render_all (map render_assistant_call calls) = Ok w"
  shows "adds (lit ''<|im_start|>'') 0 w" "adds (lit ''<|im_end|>'') 0 w" "hd (w @ lit ''<|im_end|>'' @ [10]) = 60"
proof -
  from render_all_map_Ok [OF assms] obtain ws where ws: "w = concat ws"
    "list_all2 (\<lambda>x v. render_assistant_call x = Ok v) calls ws" by blast
  then have each: "list_all (adds (lit ''<|im_start|>'') 0) ws" "list_all (adds (lit ''<|im_end|>'') 0) ws"
    "list_all (\<lambda>w. w \<noteq> [] \<and> hd w = 60) ws"
    unfolding list_all_length list_all2_conv_all_nth by (metis qwen_call_adds)+
  show "adds (lit ''<|im_start|>'') 0 w" using im_start.adds_concat [OF each(1)] ws(1) by simp
  show "adds (lit ''<|im_end|>'') 0 w" using im_end.adds_concat [OF each(2)] ws(1) by simp
  show "hd (w @ lit ''<|im_end|>'' @ [10]) = 60" using each(3) ws(1) by (cases ws) (auto simp: lit_def)
qed

lemma qwen_message_adds:
  assumes "render_qwen_message m = Ok w"
  shows "adds (lit ''<|im_start|>'') 1 w" "adds (lit ''<|im_end|>'') 1 w"
proof -
  have plain: "adds (lit ''<|im_start|>'') 1 w \<and> adds (lit ''<|im_end|>'') 1 w"
    if "render_plain role m = Ok w" and "role \<in> {lit ''system'', lit ''user'', lit ''tool''}" for role
  proof -
    from that(1) obtain t where t: "content_piece reject_reserved_prompt_controls (\<lambda>c. c) (cm_content m) = Ok t"
      and w: "w = (lit ''<|im_start|>'' @ role @ [10]) @ t @ lit ''<|im_end|>'' @ [10]"
      unfolding render_plain_def rendered by auto
    have hd: "hd (lit ''<|im_end|>'' @ [10]) = 60 \<or> hd (lit ''<|im_end|>'' @ [10]) = 10" "lit ''<|im_end|>'' @ [10] \<noteq> []"
      by (simp_all add: lit_def)
    have "adds (lit ''<|im_start|>'') 1 (lit ''<|im_start|>'' @ role @ [10])"
      "adds (lit ''<|im_end|>'') 0 (lit ''<|im_start|>'' @ role @ [10])" using that(2) qwen_open by auto
    from im_start.adds_append [OF this(1) qwen_content(1) [OF t hd qwen_close(1)]]
      im_end.adds_append [OF this(2) qwen_content(2) [OF t hd qwen_close(2)]]
    show ?thesis unfolding w by simp
  qed
  have asst: "adds (lit ''<|im_start|>'') 1 w \<and> adds (lit ''<|im_end|>'') 1 w" if "render_assistant m = Ok w"
  proof -
    from that obtain t v where t: "content_piece reject_reserved_prompt_controls (\<lambda>c. c) (cm_content m) = Ok t"
      and v: "render_all (map render_assistant_call (cm_tool_calls m)) = Ok v"
      and w: "w = (lit ''<|im_start|>assistant'' @ [10]) @ t @ v @ lit ''<|im_end|>'' @ [10]"
      unfolding render_assistant_def rendered by auto
    have hd: "hd (v @ lit ''<|im_end|>'' @ [10]) = 60 \<or> hd (v @ lit ''<|im_end|>'' @ [10]) = 10"
      "v @ lit ''<|im_end|>'' @ [10] \<noteq> []" using qwen_calls_adds(3) [OF v] by simp_all
    note tail = im_start.adds_append [OF qwen_calls_adds(1) [OF v] qwen_close(1)]
      im_end.adds_append [OF qwen_calls_adds(2) [OF v] qwen_close(2)]
    from im_start.adds_append [OF qwen_open(7) qwen_content(1) [OF t hd tail(1)]]
      im_end.adds_append [OF qwen_open(8) qwen_content(2) [OF t hd tail(2)]]
    show ?thesis unfolding w by simp
  qed
  from assms plain asst show "adds (lit ''<|im_start|>'') 1 w" "adds (lit ''<|im_end|>'') 1 w"
    by (auto split: chat_role.splits)
qed

lemma qwen_messages_adds:
  assumes "render_all (map render_qwen_message ms) = Ok w"
  shows "adds (lit ''<|im_start|>'') (length ms) w" "adds (lit ''<|im_end|>'') (length ms) w"
proof -
  from render_all_map_Ok [OF assms] obtain ws where ws: "w = concat ws"
    "list_all2 (\<lambda>x v. render_qwen_message x = Ok v) ms ws" by blast
  then have each: "list_all (adds (lit ''<|im_start|>'') 1) ws" "list_all (adds (lit ''<|im_end|>'') 1) ws"
    and len: "length ws = length ms"
    unfolding list_all_length list_all2_conv_all_nth by (metis qwen_message_adds)+
  show "adds (lit ''<|im_start|>'') (length ms) w" "adds (lit ''<|im_end|>'') (length ms) w"
    using im_start.adds_concat [OF each(1)] im_end.adds_concat [OF each(2)] ws(1) len by simp_all
qed

lemma tools_piece_Ok: "tools_piece tj check tools = Ok t \<longleftrightarrow> tj tools = Inr t \<and> check t = Ok ()"
  by (auto simp: tools_piece_def after_check_Ok split: sum.splits)

lemma qwen_tools_turn_adds:
  assumes "qwen_tools_turn tj messages tools (Some QWEN_TOOL_INSTRUCTION) = Ok w"
  shows "adds (lit ''<|im_start|>'') 1 w" "adds (lit ''<|im_end|>'') 1 w"
proof -
  let ?S = "lit ''<|im_start|>''" and ?E = "lit ''<|im_end|>''" and ?I = QWEN_TOOL_INSTRUCTION and ?close = "lit ''<|im_end|>'' @ [10]"
  let ?content = "Option.bind (leading_system messages) cm_content"
  from assms obtain t tools_json where t: "content_piece reject_reserved_prompt_controls (\<lambda>c. c) ?content = Ok t"
    and tools: "reject_reserved_prompt_controls tools_json = Ok ()"
    and w: "w = (lit ''<|im_start|>system'' @ [10]) @ t @ (if ?content \<noteq> None then [10, 10] else []) @ ?I @ tools_json @ ?close"
    unfolding qwen_tools_turn_def Let_def by (auto simp: rendered tools_piece_Ok instruction_piece_def split: outcome.splits
        simp del: render_all.simps)
  have hd: "hd ?close = 60 \<or> hd ?close = 10" "?close \<noteq> []" by (simp_all add: lit_def)
  have piece: "content_piece reject_reserved_prompt_controls (\<lambda>c. c) (Some tools_json) = Ok tools_json"
    using tools by (simp add: content_piece_Ok)
  have instr: "adds ?S 0 ?I" "adds ?E 0 ?I" and sep: "adds ?S 0 [10, 10]" "adds ?E 0 [10, 10]"
    unfolding adds_def QWEN_TOOL_INSTRUCTION_def by (simp_all add: count_literal)
  have tail: "adds ?S 0 (?I @ tools_json @ ?close)" "adds ?E 1 (?I @ tools_json @ ?close)"
    using im_start.adds_append [OF instr(1) qwen_content(1) [OF piece hd qwen_close(1)]]
      im_end.adds_append [OF instr(2) qwen_content(2) [OF piece hd qwen_close(2)]] by simp_all
  show "adds ?S 1 w" "adds ?E 1 w"
  proof (atomize (full), cases "?content = None")
    case True
    then have "t = []" using t by (simp add: content_piece_Ok)
    with True show "adds ?S 1 w \<and> adds ?E 1 w" unfolding w
      using im_start.adds_append [OF qwen_open(9) tail(1)] im_end.adds_append [OF qwen_open(10) tail(2)] by simp
  next
    case False
    have hd2: "hd ([10, 10] @ ?I @ tools_json @ ?close) = 60 \<or> hd ([10, 10] @ ?I @ tools_json @ ?close) = 10"
      "[10, 10] @ ?I @ tools_json @ ?close \<noteq> []" by simp_all
    note body = qwen_content(1) [OF t hd2 im_start.adds_append [OF sep(1) tail(1)]]
      qwen_content(2) [OF t hd2 im_end.adds_append [OF sep(2) tail(2)]]
    from False show "adds ?S 1 w \<and> adds ?E 1 w" unfolding w
      using im_start.adds_append [OF qwen_open(9) body(1)] im_end.adds_append [OF qwen_open(10) body(2)] by simp
  qed
qed

text \<open>The turns of a Qwen prompt before the generation prompt: one for the tools, which takes in a leading
  system message, and one for every other message.\<close>

definition qwen_turns :: "chat_message list \<Rightarrow> tool_definition list \<Rightarrow> nat" where
  "qwen_turns messages tools =
     (if tools \<noteq> [] then 1 + length (remaining_messages True messages) else length messages)"

text \<open>C10: request text cannot forge a turn in a Qwen prompt. In every prompt that is rendered, the token that
  opens a turn occurs exactly once for each turn of the conversation and once for the generation
  prompt, and the token that closes a turn exactly once for each turn: neither a message, nor a tool
  call, nor a tool definition contains one or completes one across its borders.\<close>

theorem qwen_prompt_turns_exact:
  assumes "render_prompt tj FamQwen messages tools = Ok prompt"
  shows "count_sub (lit ''<|im_start|>'') prompt = qwen_turns messages tools + 1 \<and>
    count_sub (lit ''<|im_end|>'') prompt = qwen_turns messages tools"
proof -
  let ?S = "lit ''<|im_start|>''" and ?E = "lit ''<|im_end|>''"
  let ?gen = "lit ''<|im_start|>assistant'' @ [10] @ lit ''<think>'' @ [10, 10] @ lit ''</think>'' @ [10, 10]"
  let ?ms = "remaining_messages (tools \<noteq> []) messages"
  from assms obtain u v where
    u: "(if tools \<noteq> [] then qwen_tools_turn tj messages tools (Some QWEN_TOOL_INSTRUCTION) else Ok []) = Ok u"
    and v: "render_all (map render_qwen_message ?ms) = Ok v" and p: "prompt = u @ v @ ?gen"
    by (auto simp: render_prompt_def render_qwen_chatml_with_tool_instruction_def rendered simp del: render_all.simps
        split: if_splits)
  have gen: "adds ?S 1 ?gen" "adds ?E 0 ?gen" unfolding adds_def by (simp_all add: count_literal)
  have first: "adds ?S (if tools \<noteq> [] then 1 else 0) u" "adds ?E (if tools \<noteq> [] then 1 else 0) u"
    using u qwen_tools_turn_adds by (auto simp: im_start.adds_Nil im_end.adds_Nil split: if_splits)
  have "qwen_turns messages tools = (if tools \<noteq> [] then 1 else 0) + length ?ms"
    by (simp add: qwen_turns_def remaining_messages_def)
  then show ?thesis
    using im_start.adds_count [OF im_start.adds_append [OF first(1) im_start.adds_append [OF qwen_messages_adds(1) [OF v] gen(1)]]]
      im_end.adds_count [OF im_end.adds_append [OF first(2) im_end.adds_append [OF qwen_messages_adds(2) [OF v] gen(2)]]]
    unfolding p by simp
qed

theorem qwen_prompt_turns_exact_witness:
  "\<exists>prompt. render_prompt (\<lambda>_. Inr []) FamQwen [chat_message_plain RoleUser (lit ''hi'')] [] = Ok prompt \<and>
    count_sub (lit ''<|im_start|>'') prompt = 2 \<and> count_sub (lit ''<|im_end|>'') prompt = 1"
proof -
  have "reject_reserved_prompt_controls (lit ''hi'') = Ok ()"
    by (simp add: reject_reserved_prompt_controls_def reject_tokens_Ok qwen_reserved_def lit_def sublist_Cons_right)
  then obtain prompt where p: "render_prompt (\<lambda>_. Inr []) FamQwen [chat_message_plain RoleUser (lit ''hi'')] [] = Ok prompt"
    by (simp add: render_prompt_def render_qwen_chatml_with_tool_instruction_def remaining_messages_def render_plain_def
        chat_message_plain_def content_piece_def after_check_def)
  from qwen_prompt_turns_exact [OF this] p show ?thesis by (simp add: qwen_turns_def)
qed

end
