(* ===== verification/Tool_Parser_Props.thy ===== *)
theory Tool_Parser_Props
  imports Tool_Dispatch
begin

text \<open>
  What the dialects guarantee: no text is lost or invented when tags are taken out of a Qwen answer; a
  call written in the XML syntax is read back; which parsers can panic, and on what.
\<close>

section \<open>Reasoning\<close>

lemma split_reasoning_Ok:
  obtains reasoning rest where "split_reasoning s = Ok (reasoning, rest)"
proof -
  have "\<exists>r t. split_reasoning s = Ok (r, t)"
    by (auto simp: split_reasoning_def split: option.splits prod.splits)
  then show thesis using that by blast
qed

text \<open>How the reasoning and the rest make up the text.\<close>

definition reasoning_split :: "rstr \<Rightarrow> rstr option \<Rightarrow> rstr \<Rightarrow> bool" where
  "reasoning_split s reasoning rest \<longleftrightarrow>
     (case reasoning of
        None \<Rightarrow> s = rest \<and> \<not> sublist (lit ''<think>'') s
      | Some r \<Rightarrow>
          (\<exists>before after. s = before @ lit ''<think>'' @ r @ lit ''</think>'' @ after \<and> rest = before @ after) \<or>
          s = rest @ lit ''<think>'' @ r \<and> \<not> sublist (lit ''</think>'') r)"

lemma split_reasoning_split: "split_reasoning s = Ok (reasoning, rest) \<Longrightarrow> reasoning_split s reasoning rest"
proof (cases "split_sub (lit ''<think>'') s")
  case None
  then show "split_reasoning s = Ok (reasoning, rest) \<Longrightarrow> reasoning_split s reasoning rest"
    by (auto simp: split_reasoning_def reasoning_split_def split_sub_None)
next
  case (Some p)
  obtain before body where p: "p = (before, body)" by (cases p)
  note s = split_sub_Some [OF Some [unfolded p]]
  assume "split_reasoning s = Ok (reasoning, rest)"
  then show ?thesis
    using Some p s by (auto simp: split_reasoning_def reasoning_split_def split_sub_None dest: split_sub_Some split: option.splits)
qed

section \<open>Panics\<close>












subsection \<open>The Gemma argument parser\<close>
















section \<open>The XML call syntax\<close>

lemma str_find_split: "split_sub p s = Some (u, v) \<Longrightarrow> str_find p s = Some (str_len u)"
  by (auto simp: str_find_def split_sub_def)

lemma split_sub_lit_skip:
  "60 \<notin> set w \<Longrightarrow> split_sub (60 # p) (w @ s) = map_option (\<lambda>(u, v). (w @ u, v)) (split_sub (60 # p) s)"
  "62 \<notin> set w \<Longrightarrow> split_sub (62 # p) (w @ s) = map_option (\<lambda>(u, v). (w @ u, v)) (split_sub (62 # p) s)"
  by (rule split_sub_skip, assumption)+

text \<open>A call as the model writes it.\<close>

definition xml_parameter :: "rstr \<times> rstr \<Rightarrow> rstr" where
  "xml_parameter p = lit ''<parameter='' @ fst p @ lit ''>'' @ snd p @ lit ''</parameter>''"

definition xml_call :: "rstr \<Rightarrow> (rstr \<times> rstr) list \<Rightarrow> rstr" where
  "xml_call name params =
     lit ''<function='' @ name @ lit ''>'' @ concat (map xml_parameter params) @ lit ''</function>''"

definition tag_free :: "rstr \<Rightarrow> bool" where
  "tag_free s \<longleftrightarrow> 60 \<notin> set s \<and> 62 \<notin> set s"

definition param_ok :: "rstr \<times> rstr \<Rightarrow> bool" where
  "param_ok p \<longleftrightarrow> tag_free (fst p) \<and> tag_free (snd p)"

lemma parse_parameters_Cons:
  assumes "tag_free k" and "tag_free v"
  shows "parse_parameters (xml_parameter (k, v) @ s) entries = parse_parameters s (map_put k (JString v) entries)"
proof -
  have "split_sub (lit ''<parameter='') (xml_parameter (k, v) @ s) = Some ([], k @ lit ''>'' @ v @ lit ''</parameter>'' @ s)"
    by (simp add: xml_parameter_def lit_def split_sub_Cons starts_with_def)
  moreover have "split_sub (lit ''>'') (k @ lit ''>'' @ v @ lit ''</parameter>'' @ s) = Some (k, v @ lit ''</parameter>'' @ s)"
    using assms(1) by (simp add: tag_free_def lit_def split_sub_lit_skip split_sub_Cons starts_with_def)
  moreover have "split_sub (lit ''</parameter>'') (v @ lit ''</parameter>'' @ s) = Some (v, s)"
    using assms(2) by (simp add: tag_free_def lit_def split_sub_lit_skip split_sub_Cons starts_with_def)
  ultimately show ?thesis by (subst parse_parameters.simps) simp
qed

lemma parse_parameters_all:
  assumes "list_all param_ok params"
  shows "parse_parameters (concat (map xml_parameter params)) entries =
    Ok (fold (\<lambda>(k, v). map_put k (JString v)) params entries)"
  using assms
proof (induction params arbitrary: entries)
  case Nil
  then show ?case by (simp add: parse_parameters.simps lit_def)
next
  case (Cons p params)
  obtain k v where p: "p = (k, v)" by (cases p)
  with Cons show ?case using parse_parameters_Cons [of k v] by (simp add: param_ok_def)
qed

lemma map_put_new: "k \<notin> fst ` set es \<Longrightarrow> map_put k v es = es @ [(k, v)]"
  by (induction es) auto

lemma fold_map_put:
  "distinct (map fst params) \<Longrightarrow> fst ` set params \<inter> fst ` set es = {} \<Longrightarrow>
   fold (\<lambda>(k, v). map_put k (JString v)) params es = es @ map (\<lambda>(k, v). (k, JString v)) params"
proof (induction params arbitrary: es)
  case (Cons p params)
  obtain k v where p: "p = (k, v)" by (cases p)
  have "map_put k (JString v) es = es @ [(k, JString v)]" using Cons.prems(2) p by (intro map_put_new) auto
  moreover have "fst ` set params \<inter> fst ` set (es @ [(k, JString v)]) = {}" using Cons.prems p by auto
  ultimately show ?case using Cons p by simp
qed simp

subsection \<open>Reading a written call back\<close>

text \<open>\<open>skips pat w\<close>: no match of \<open>pat\<close> begins in \<open>w\<close>, whatever follows.\<close>

definition skips :: "rstr \<Rightarrow> rstr \<Rightarrow> bool" where
  "skips pat w \<longleftrightarrow> (\<forall>s. split_sub pat (w @ s) = map_option (\<lambda>(u, v). (w @ u, v)) (split_sub pat s))"

lemma skips_Nil: "skips pat []"
  by (auto simp: skips_def map_option_case split: option.splits)

lemma skips_append: "skips pat a \<Longrightarrow> skips pat b \<Longrightarrow> skips pat (a @ b)"
  by (auto simp: skips_def map_option_case split: option.splits)

lemma skips_text: "60 \<notin> set w \<Longrightarrow> skips (60 # p) w"
  by (simp add: skips_def split_sub_lit_skip)

lemma skips_Cons:
  assumes "skips pat w" and "\<And>s. \<not> starts_with pat (c # w @ s)"
  shows "skips pat (c # w)"
  using assms by (auto simp: skips_def split_sub_Cons map_option_case split: option.splits)

lemma skips_concat: "(\<And>w. w \<in> set ws \<Longrightarrow> skips pat w) \<Longrightarrow> skips pat (concat ws)"
  by (induction ws) (auto intro: skips_append skips_Nil)

lemmas skips_lit = lit_def starts_with_def
lemmas skips_intro = skips_append skips_text skips_Cons skips_Nil

lemma skips_markup:
  "skips (lit ''</function>'') (lit ''<function='')" "skips (lit ''</function>'') (lit ''>'')"
  "skips (lit ''</function>'') (lit ''<parameter='')" "skips (lit ''</function>'') (lit ''</parameter>'')"
  "skips (lit ''</tool_call>'') (lit ''<function='')" "skips (lit ''</tool_call>'') (lit ''>'')"
  "skips (lit ''</tool_call>'') (lit ''<parameter='')" "skips (lit ''</tool_call>'') (lit ''</parameter>'')"
  "skips (lit ''</tool_call>'') (lit ''</function>'')"
  "skips (lit ''<think>'') (lit ''<function='')" "skips (lit ''<think>'') (lit ''>'')"
  "skips (lit ''<think>'') (lit ''<parameter='')" "skips (lit ''<think>'') (lit ''</parameter>'')"
  "skips (lit ''<think>'') (lit ''</function>'')" "skips (lit ''<think>'') (lit ''<tool_call>'')"
  "skips (lit ''<think>'') (lit ''</tool_call>'')"
  by (auto simp: skips_lit intro!: skips_Cons skips_Nil)

lemma skips_tag_free:
  "tag_free w \<Longrightarrow> skips (lit ''</function>'') w" "tag_free w \<Longrightarrow> skips (lit ''</tool_call>'') w"
  "tag_free w \<Longrightarrow> skips (lit ''<think>'') w" "tag_free w \<Longrightarrow> skips (lit ''<tool_call>'') w"
  by (auto simp: tag_free_def lit_def intro: skips_text)

lemma skips_parameter:
  assumes "param_ok p"
  shows "skips (lit ''</function>'') (xml_parameter p)" "skips (lit ''</tool_call>'') (xml_parameter p)"
    "skips (lit ''<think>'') (xml_parameter p)"
  using assms unfolding xml_parameter_def param_ok_def
  by (auto intro!: skips_append skips_markup intro: skips_tag_free)

lemma skips_parameters:
  assumes "list_all param_ok params"
  shows "skips (lit ''</function>'') (concat (map xml_parameter params))"
    "skips (lit ''</tool_call>'') (concat (map xml_parameter params))"
    "skips (lit ''<think>'') (concat (map xml_parameter params))"
  using assms by (auto simp: list_all_iff intro!: skips_concat skips_parameter)

lemma skips_xml_call:
  assumes "tag_free name" and "list_all param_ok params"
  shows "skips (lit ''</tool_call>'') (xml_call name params)" "skips (lit ''<think>'') (xml_call name params)"
  using assms unfolding xml_call_def
  by (auto intro!: skips_append skips_markup intro: skips_parameters skips_tag_free)

lemma skips_match: "skips pat w \<Longrightarrow> pat \<noteq> [] \<Longrightarrow> split_sub pat (w @ pat @ s) = Some (w, s)"
  by (cases pat) (simp_all add: skips_def split_sub_Cons starts_with_def)

lemma parse_xml_call_reads:
  assumes "tag_free name" and "list_all param_ok params"
  shows "parse_xml_call generated (xml_call name params) =
    Ok (function_call generated name (JObject (fold (\<lambda>(k, v). map_put k (JString v)) params [])))"
proof -
  let ?F = "lit ''<function=''" and ?P = "concat (map xml_parameter params)" and ?E = "lit ''</function>''"
  let ?inner = "?F @ name @ lit ''>'' @ ?P @ ?E"
  have open_tag: "str_find ?F ?inner = Some 0"
    using str_find_split [of ?F ?inner "[]"] by (simp add: lit_def split_sub_Cons starts_with_def)
  have body: "str_from (str_len ?F) ?inner = Some (name @ lit ''>'' @ ?P @ ?E)" by simp
  have name_end: "str_find (lit ''>'') (name @ lit ''>'' @ ?P @ ?E) = Some (str_len name)"
    using assms(1) by (intro str_find_split [where v = "?P @ ?E"])
      (simp add: tag_free_def lit_def split_sub_lit_skip split_sub_Cons starts_with_def)
  have name_slice: "str_slice (str_len ?F) (str_len ?F + str_len name) ?inner = Some name" by simp
  have "skips ?E (?F @ name @ lit ''>'' @ ?P)"
    using assms by (auto intro!: skips_append skips_markup intro: skips_parameters skips_tag_free)
  from skips_match [OF this, of "[]"] have "split_sub ?E ?inner = Some (?F @ name @ lit ''>'' @ ?P, [])"
    by (simp add: lit_def)
  from str_find_split [OF this] have fend: "str_find ?E ?inner = Some (str_len (?F @ name @ lit ''>'') + str_len ?P)" by simp
  have params: "str_slice (str_len ?F + str_len name + 1) (str_len (?F @ name @ lit ''>'') + str_len ?P) ?inner = Some ?P"
    using str_slice_append [of "?F @ name @ lit ''>''" ?P ?E] by (simp add: lit_def len_utf8_def)
  show ?thesis
    unfolding parse_xml_call_def xml_call_def
    by (simp only: open_tag body name_end name_slice fend params parse_parameters_all [OF assms(2)]
        Let_def option.case outcome.case add_0)
qed

lemma trim_id: "s \<noteq> [] \<Longrightarrow> \<not> is_whitespace (hd s) \<Longrightarrow> \<not> is_whitespace (last s) \<Longrightarrow> trim s = s"
proof -
  assume s: "s \<noteq> []" "\<not> is_whitespace (hd s)" "\<not> is_whitespace (last s)"
  from s have "dropWhile is_whitespace s = s" by (cases s) auto
  moreover from s have "dropWhile is_whitespace (rev s) = rev s" by (cases "rev s") (auto simp: last_rev [symmetric])
  ultimately show ?thesis by (simp add: trim_def trim_start_def trim_end_def)
qed

lemma trim_xml_call: "trim (xml_call name params) = xml_call name params"
  by (rule trim_id) (simp_all add: xml_call_def lit_def is_whitespace_def)

lemma qwen_parse_unguarded: "qwen_parse_complete rd ids s = after_reasoning s (parse_tool_calls rd ids)"
proof -
  have plain: "parse_tool_calls rd ids reasoning rest = plain_content reasoning rest"
    if "\<not> str_contains (lit ''<tool_call>'') rest" for reasoning rest
  proof -
    have "split_sub (lit ''<tool_call>'') rest = None" using that by (simp add: str_contains_def split_sub_def)
    then show ?thesis
      by (simp add: parse_tool_calls_def tagged_calls.simps plain_content_def with_reasoning_def lit_def)
  qed
  show ?thesis by (rule split_reasoning_Ok [of s]) (simp add: qwen_parse_complete_def after_reasoning_def plain)
qed

text \<open>An answer with calls, and what it says: for each piece the text before the call, the function and
  its parameters.\<close>

type_synonym written_call = "rstr \<times> rstr \<times> (rstr \<times> rstr) list"

fun written_ok :: "written_call \<Rightarrow> bool" where
  "written_ok (before, name, params) \<longleftrightarrow>
     tag_free before \<and> tag_free name \<and> list_all param_ok params \<and> distinct (map fst params)"

definition write_answer :: "written_call list \<Rightarrow> rstr \<Rightarrow> rstr" where
  "write_answer cs tail =
     tagged_text (lit ''<tool_call>'') (lit ''</tool_call>'')
       (map (\<lambda>(before, name, params). (before, xml_call name params)) cs) tail"

definition call_of :: "(nat \<Rightarrow> rstr) \<Rightarrow> nat \<times> written_call \<Rightarrow> tool_call" where
  "call_of ids c = (case c of (n, before, name, params) \<Rightarrow>
     function_call (ids n) name (JObject (map (\<lambda>(k, v). (k, JString v)) params)))"

lemma write_answer_simps:
  "write_answer [] tail = tail"
  "write_answer ((before, name, params) # cs) tail =
     before @ lit ''<tool_call>'' @ xml_call name params @ lit ''</tool_call>'' @ write_answer cs tail"
  by (simp_all add: write_answer_def tagged_text_def)

lemma tagged_calls_written:
  assumes "list_all written_ok cs" and "tag_free tail"
  shows "tagged_calls (lit ''<tool_call>'') (lit ''</tool_call>'') msg (qwen_call rd ids) (write_answer cs tail) calls content =
    Ok (content @ concat (map fst cs) @ tail, calls @ map (call_of ids) (enumerate (length calls) cs))"
  using assms(1)
proof (induction cs arbitrary: calls content)
  case Nil
  have "split_sub (lit ''<tool_call>'') tail = None"
    using assms(2) split_sub_skip [of 60 tail _ "[]"] by (simp add: tag_free_def lit_def)
  then show ?case by (simp add: write_answer_simps tagged_calls.simps lit_def)
next
  case (Cons c cs)
  obtain before name params where c: "c = (before, name, params)" by (cases c)
  with Cons.prems have ok: "tag_free before" "tag_free name" "list_all param_ok params"
    "distinct (map fst params)" and rest: "list_all written_ok cs" by simp_all
  let ?x = "xml_call name params" and ?r = "write_answer cs tail"
  have s1: "split_sub (lit ''<tool_call>'') (write_answer (c # cs) tail) = Some (before, ?x @ lit ''</tool_call>'' @ ?r)"
    unfolding c write_answer_simps by (rule skips_match [OF skips_tag_free(4) [OF ok(1)]]) (simp add: lit_def)
  have s2: "split_sub (lit ''</tool_call>'') (?x @ lit ''</tool_call>'' @ ?r) = Some (?x, ?r)"
    by (rule skips_match [OF skips_xml_call(1) [OF ok(2,3)]]) (simp add: lit_def)
  have "starts_with (lit ''<function='') ?x" by (simp add: starts_with_def xml_call_def)
  then have parse: "qwen_call rd ids (length calls) (trim ?x) = Ok (call_of ids (length calls, c))"
    using parse_xml_call_reads [OF ok(2,3)] fold_map_put [OF ok(4), of "[]"]
    by (simp add: qwen_call_def trim_xml_call call_of_def c)
  have ne: "\<not> (lit ''<tool_call>'' = [] \<or> lit ''</tool_call>'' = [])" by (simp add: lit_def)
  have fc: "fst c = before" by (simp add: c)
  show ?case
    using Cons.IH [OF rest, of "calls @ [call_of ids (length calls, c)]" "content @ before"] ne
    by (subst tagged_calls.simps) (simp add: s1 s2 parse fc)
qed

lemma write_answer_no_think:
  assumes "list_all written_ok cs" and "tag_free tail"
  shows "split_sub (lit ''<think>'') (write_answer cs tail) = None"
  using assms(1)
proof (induction cs)
  case Nil
  then show ?case using assms(2) split_sub_skip [of 60 tail _ "[]"] by (simp add: write_answer_simps tag_free_def lit_def)
next
  case (Cons c cs)
  obtain before name params where c: "c = (before, name, params)" by (cases c)
  with Cons.prems have "skips (lit ''<think>'') (before @ lit ''<tool_call>'' @ xml_call name params @ lit ''</tool_call>'')"
    by (auto intro!: skips_append skips_markup intro: skips_xml_call skips_tag_free)
  with Cons c show ?case by (simp add: write_answer_simps skips_def)
qed

lemma qwen_reads_written:
  assumes "list_all written_ok cs" and "tag_free tail"
  shows "qwen_parse_complete rd ids (write_answer cs tail) =
    Ok \<lparr>pa_reasoning = None, pa_content = concat (map fst cs) @ tail, pa_tool_calls = map (call_of ids) (enumerate 0 cs)\<rparr>"
  using write_answer_no_think [OF assms] tagged_calls_written [OF assms, of _ rd ids "[]" "[]"]
  by (simp add: qwen_parse_unguarded after_reasoning_def split_reasoning_def parse_tool_calls_def with_reasoning_def)

section \<open>Properties\<close>

text \<open>C22: an answer is taken apart without loss. When a Qwen answer parses, its reasoning is what stands
  between the think tags (or after an unclosed one); the rest is the visible content with the tool-call
  blocks put back at their places; there is one call per block, in order, each read from the text of
  its block; and no opening tag remains before a block or after the last.\<close>

theorem qwen_answer_conserved:
  assumes "qwen_parse_complete rd ids s = Ok p"
  shows "\<exists>rest pieces tail. reasoning_split s (pa_reasoning p) rest \<and>
    rest = tagged_text (lit ''<tool_call>'') (lit ''</tool_call>'') pieces tail \<and>
    pa_content p = concat (map fst pieces) @ tail \<and> \<not> sublist (lit ''<tool_call>'') tail \<and>
    list_all2 (\<lambda>(n, before, inner) call. qwen_call rd ids n (trim inner) = Ok call \<and>
        \<not> sublist (lit ''<tool_call>'') before \<and> \<not> sublist (lit ''</tool_call>'') inner)
      (enumerate 0 pieces) (pa_tool_calls p)"
proof -
  obtain reasoning rest where r: "split_reasoning s = Ok (reasoning, rest)" by (rule split_reasoning_Ok)
  with assms obtain content calls where
    t: "tagged_calls (lit ''<tool_call>'') (lit ''</tool_call>'') (lit ''unterminated qwen tool_call tag'')
      (qwen_call rd ids) rest [] [] = Ok (content, calls)"
    and p: "p = \<lparr>pa_reasoning = reasoning, pa_content = content, pa_tool_calls = calls\<rparr>"
    by (auto simp: qwen_parse_unguarded after_reasoning_def parse_tool_calls_def with_reasoning_def split: outcome.splits)
  from qwen_tags.tagged_calls_conserve [OF t] split_reasoning_split [OF r] show ?thesis
    unfolding p by auto
qed

theorem qwen_answer_conserved_witness:
  "\<exists>pieces tail. lit ''a<tool_call><function=f></function></tool_call>b'' =
      tagged_text (lit ''<tool_call>'') (lit ''</tool_call>'') pieces tail \<and> concat (map fst pieces) @ tail = lit ''ab''"
proof -
  let ?rd = "\<lambda>_. Inl []" and ?ids = "\<lambda>_. lit ''call_1''"
  let ?s = "write_answer [(lit ''a'', lit ''f'', [])] (lit ''b'')"
  have s: "?s = lit ''a<tool_call><function=f></function></tool_call>b''"
    by (simp add: write_answer_simps xml_call_def lit_def)
  have ok: "list_all written_ok [(lit ''a'', lit ''f'', [])]" "tag_free (lit ''b'')" by (simp_all add: tag_free_def lit_def)
  have "qwen_parse_complete ?rd ?ids ?s =
      Ok \<lparr>pa_reasoning = None, pa_content = lit ''ab'', pa_tool_calls = [function_call (lit ''call_1'') (lit ''f'') (JObject [])]\<rparr>"
    using qwen_reads_written [OF ok, of ?rd ?ids] by (simp add: call_of_def lit_def)
  from qwen_answer_conserved [OF this] obtain rest pieces tail where parts: "reasoning_split ?s None rest"
    "rest = tagged_text (lit ''<tool_call>'') (lit ''</tool_call>'') pieces tail" "lit ''ab'' = concat (map fst pieces) @ tail"
    unfolding parsed_assistant.simps by blast
  have "?s = rest" using parts(1) by (simp add: reasoning_split_def)
  with s parts(2) have "lit ''a<tool_call><function=f></function></tool_call>b'' =
    tagged_text (lit ''<tool_call>'') (lit ''</tool_call>'') pieces tail" by (simp only:)
  with parts(3) [symmetric] show ?thesis by blast
qed

text \<open>calls written in the XML syntax are read back. An answer made of plain texts and calls, in which
  texts, names, parameter names and values contain no angle brackets and parameter names are distinct,
  parses to the texts joined and to exactly these calls in order, with the parameters in the order
  written and an identifier generated for each.\<close>

theorem qwen_xml_calls_roundtrip:
  assumes "list_all written_ok cs" and "tag_free tail"
  shows "qwen_parse_complete rd ids (write_answer cs tail) =
    Ok \<lparr>pa_reasoning = None, pa_content = concat (map fst cs) @ tail, pa_tool_calls = map (call_of ids) (enumerate 0 cs)\<rparr>"
  using assms by (rule qwen_reads_written)

theorem qwen_xml_calls_roundtrip_witness:
  "qwen_parse_complete (\<lambda>_. Inl []) (\<lambda>n. show_nat n)
     (write_answer [(lit ''hi '', lit ''get'', [(lit ''k'', lit ''v'')])] (lit ''!'')) =
   Ok \<lparr>pa_reasoning = None, pa_content = lit ''hi !'',
       pa_tool_calls = [function_call (lit ''0'') (lit ''get'') (JObject [(lit ''k'', JString (lit ''v''))])]\<rparr>"
proof -
  have "list_all written_ok [(lit ''hi '', lit ''get'', [(lit ''k'', lit ''v'')])]" "tag_free (lit ''!'')"
    by (simp_all add: tag_free_def param_ok_def lit_def)
  from qwen_xml_calls_roundtrip [OF this, of "\<lambda>_. Inl []" "\<lambda>n. show_nat n"] show ?thesis
    by (simp add: call_of_def lit_def show_nat.simps)
qed


lemma qwen_unclosed_panics:
  "qwen_parse_complete rd ids (lit ''<tool_call><function=</function></tool_call>'') = Panic"
proof -
  let ?inner = "lit ''<function=</function>''"
  have "parse_xml_call i ?inner = Panic" for i
    by (simp add: parse_xml_call_def str_find_def str_from_def str_slice_def str_upto_def lit_def len_utf8_def)
  moreover have "starts_with (lit ''<function='') ?inner" by (simp add: starts_with_def lit_def)
  moreover have "trim ?inner = ?inner" by (rule trim_id) (simp_all add: lit_def is_whitespace_def)
  ultimately have call: "qwen_call rd ids n (trim ?inner) = Panic" for n by (simp add: qwen_call_def)
  have think: "split_sub (lit ''<think>'') (lit ''<tool_call><function=</function></tool_call>'') = None"
    and open_tag: "split_sub (lit ''<tool_call>'') (lit ''<tool_call><function=</function></tool_call>'') =
      Some ([], lit ''<function=</function></tool_call>'')"
    and close_tag: "split_sub (lit ''</tool_call>'') (lit ''<function=</function></tool_call>'') = Some (?inner, [])"
    by (simp_all add: lit_def split_sub_Cons starts_with_def)
  show ?thesis
    using call open_tag close_tag
    by (simp add: qwen_parse_unguarded after_reasoning_def split_reasoning_def think parse_tool_calls_def
        with_reasoning_def tagged_calls.simps)
qed

text \<open>a Qwen answer can make the parser panic. In a call whose function name is not closed before
  the closing function tag, the slice of the parameters ends before it begins.\<close>

theorem qwen_unclosed_name_panics:
  "qwen_parse_complete rd ids (lit ''<tool_call><function=</function></tool_call>'') = Panic"
  by (rule qwen_unclosed_panics)

end
