(* ===== verification/F32_Arith.thy ===== *)
theory F32_Arith
  imports Complex_Main Rust_Text
begin

text \<open>
  The \<open>f32\<close> arithmetic of the language, on bit patterns: IEEE 754 binary32 with rounding to nearest
  and ties to even. A finite float denotes the rational number \<open>f32_rat\<close>, and an operation is the
  exact rational operation followed by \<open>f32_round\<close>, with the special cases of infinities, zeros and
  NaN written out. \<open>f32::max\<close> and \<open>f32::min\<close> ignore a NaN; the sign of a zero that they return is
  unspecified in Rust and is that of the first argument here. An operation without a numeric
  result returns the quiet NaN; no definition of the development looks at its payload.
\<close>

definition pow2 :: "int \<Rightarrow> rat" where
  "pow2 e = (if 0 \<le> e then 2 ^ nat e else 1 / 2 ^ nat (- e))"

definition f32_negative :: "f32 \<Rightarrow> bool" where
  "f32_negative w \<longleftrightarrow> 2147483648 \<le> unat w"

definition f32_rat :: "f32 \<Rightarrow> rat" where
  "f32_rat w =
     (let m = f32_magnitude w; e = m div 8388608; f = m mod 8388608;
          q = (if e = 0 then of_nat f * pow2 (- 149) else of_nat (8388608 + f) * pow2 (int e - 150))
      in if f32_negative w then - q else q)"

definition f32_with_sign :: "bool \<Rightarrow> nat \<Rightarrow> f32" where
  "f32_with_sign neg m = word_of_nat (if neg then 2147483648 + m else m)"

abbreviation f32_inf_magnitude :: nat where "f32_inf_magnitude \<equiv> 2139095040"

definition f32_nan :: f32 where "f32_nan = 2143289344"
definition f32_infinity :: f32 where "f32_infinity = 2139095040"
definition f32_neg_infinity :: f32 where "f32_neg_infinity = 4286578688"

definition f32_is_infinite :: "f32 \<Rightarrow> bool" where
  "f32_is_infinite w \<longleftrightarrow> f32_magnitude w = f32_inf_magnitude"

definition f32_is_zero :: "f32 \<Rightarrow> bool" where
  "f32_is_zero w \<longleftrightarrow> f32_magnitude w = 0"

definition round_half_even :: "rat \<Rightarrow> int" where
  "round_half_even q =
     (let n = floor q; r = q - of_int n
      in if r < 1 / 2 \<or> r = 1 / 2 \<and> even n then n else n + 1)"

definition f32_exponent :: "rat \<Rightarrow> int" where
  "f32_exponent q = foldl (\<lambda>acc e. if pow2 e \<le> q then e else acc) (- 126) [- 126..127]"

text \<open>The magnitude bits of the float nearest to a non-negative rational: the significand counts units
  of the last place, and a significand that rounds up to the next power of two carries into the
  exponent field.\<close>

definition f32_round_magnitude :: "rat \<Rightarrow> nat" where
  "f32_round_magnitude q =
     (let e = f32_exponent q; n = nat (round_half_even (q / pow2 (e - 23)))
      in min (nat (e + 126) * 8388608 + n) f32_inf_magnitude)"

definition f32_round :: "bool \<Rightarrow> rat \<Rightarrow> f32" where
  "f32_round zero_sign q =
     (if q = 0 then f32_with_sign zero_sign 0
      else f32_with_sign (q < 0) (f32_round_magnitude \<bar>q\<bar>))"

section \<open>Operations\<close>

definition f32_neg :: "f32 \<Rightarrow> f32" where
  "f32_neg w = f32_with_sign (\<not> f32_negative w) (f32_magnitude w)"

definition f32_abs :: "f32 \<Rightarrow> f32" where
  "f32_abs w = f32_with_sign False (f32_magnitude w)"

definition f32_add :: "f32 \<Rightarrow> f32 \<Rightarrow> f32" where
  "f32_add a b =
     (if f32_is_nan a \<or> f32_is_nan b then f32_nan
      else if f32_is_infinite a
      then if f32_is_infinite b \<and> f32_negative a \<noteq> f32_negative b then f32_nan else a
      else if f32_is_infinite b then b
      else f32_round (f32_negative a \<and> f32_negative b) (f32_rat a + f32_rat b))"

definition f32_sub :: "f32 \<Rightarrow> f32 \<Rightarrow> f32" where
  "f32_sub a b = (if f32_is_nan b then f32_nan else f32_add a (f32_neg b))"

definition f32_mul :: "f32 \<Rightarrow> f32 \<Rightarrow> f32" where
  "f32_mul a b =
     (let s = (f32_negative a \<noteq> f32_negative b)
      in if f32_is_nan a \<or> f32_is_nan b then f32_nan
         else if f32_is_infinite a \<or> f32_is_infinite b
         then if f32_is_zero a \<or> f32_is_zero b then f32_nan else f32_with_sign s f32_inf_magnitude
         else f32_round s (f32_rat a * f32_rat b))"

definition f32_div :: "f32 \<Rightarrow> f32 \<Rightarrow> f32" where
  "f32_div a b =
     (let s = (f32_negative a \<noteq> f32_negative b)
      in if f32_is_nan a \<or> f32_is_nan b then f32_nan
         else if f32_is_infinite a
         then if f32_is_infinite b then f32_nan else f32_with_sign s f32_inf_magnitude
         else if f32_is_infinite b then f32_with_sign s 0
         else if f32_is_zero b
         then if f32_is_zero a then f32_nan else f32_with_sign s f32_inf_magnitude
         else f32_round s (f32_rat a / f32_rat b))"

definition f32_max :: "f32 \<Rightarrow> f32 \<Rightarrow> f32" where
  "f32_max a b = (if f32_is_nan a then b else if f32_is_nan b then a else if f32_lt a b then b else a)"

definition f32_min :: "f32 \<Rightarrow> f32 \<Rightarrow> f32" where
  "f32_min a b = (if f32_is_nan a then b else if f32_is_nan b then a else if f32_lt b a then b else a)"

text \<open>\<open>f32::from\<close> of a small integer, \<open>f32::round\<close> (ties away from zero), \<open>f32::clamp\<close> (a NaN
  stays) and \<open>as\<close> to an integer type with the bounds \<open>lo\<close> and \<open>hi\<close> (a NaN becomes zero, the rest
  truncates and saturates).\<close>

definition f32_of_int :: "int \<Rightarrow> f32" where
  "f32_of_int n = f32_round False (of_int n)"

definition round_half_away :: "rat \<Rightarrow> int" where
  "round_half_away q = (if q < 0 then - floor (- q + 1 / 2) else floor (q + 1 / 2))"

definition f32_round_int :: "f32 \<Rightarrow> f32" where
  "f32_round_int w =
     (if \<not> f32_is_finite w then w else f32_round (f32_negative w) (of_int (round_half_away (f32_rat w))))"

definition f32_clamp :: "f32 \<Rightarrow> f32 \<Rightarrow> f32 \<Rightarrow> f32" where
  "f32_clamp lo hi w = (if f32_lt w lo then lo else if f32_lt hi w then hi else w)"

definition f32_trunc :: "f32 \<Rightarrow> int" where
  "f32_trunc w = (let q = f32_rat w in if q < 0 then - floor (- q) else floor q)"

definition f32_as_int :: "int \<Rightarrow> int \<Rightarrow> f32 \<Rightarrow> int" where
  "f32_as_int lo hi w =
     (if f32_is_nan w then 0
      else if f32_is_infinite w then if f32_negative w then lo else hi
      else max lo (min hi (f32_trunc w)))"

lemma f32_as_int_range: "lo \<le> 0 \<Longrightarrow> 0 \<le> hi \<Longrightarrow> lo \<le> f32_as_int lo hi w \<and> f32_as_int lo hi w \<le> hi"
  by (auto simp: f32_as_int_def)

section \<open>The order of floats is the order of the numbers they denote\<close>

definition f32_units :: "nat \<Rightarrow> nat" where
  "f32_units m = (let e = m div 8388608; f = m mod 8388608 in if e = 0 then f else (8388608 + f) * 2 ^ (e - 1))"

lemma f32_units_Suc: "f32_units m < f32_units (Suc m)"
proof -
  let ?e = "m div 8388608" and ?f = "m mod 8388608"
  have f: "?f < 8388608" by simp
  show ?thesis
  proof (cases "Suc ?f = 8388608")
    case True
    then have "Suc m div 8388608 = Suc ?e" "Suc m mod 8388608 = 0"
      by (simp_all add: mod_Suc div_Suc)
    then show ?thesis using True by (cases ?e) (simp_all add: f32_units_def Let_def)
  next
    case False
    then have "Suc m div 8388608 = ?e" "Suc m mod 8388608 = Suc ?f"
      by (simp_all add: mod_Suc div_Suc)
    then show ?thesis by (simp add: f32_units_def Let_def)
  qed
qed

lemma f32_units_mono: "m \<le> n \<Longrightarrow> f32_units m \<le> f32_units n"
  using lift_Suc_mono_le [of f32_units] f32_units_Suc less_imp_le by blast

lemma pow2_pos [simp]: "0 < pow2 e"
  by (simp add: pow2_def)

lemma pow2_shift: "int e - 150 = int (e - 1) + (- 149)" if "0 < e" for e
  using that by simp

lemma pow2_add_nat: "pow2 (int n + e) = 2 ^ n * pow2 e"
proof (cases "0 \<le> e")
  case True
  then show ?thesis by (simp add: pow2_def nat_add_distrib power_add)
next
  case False
  show ?thesis
  proof (cases "0 \<le> int n + e")
    case True
    have "n = nat (int n + e) + nat (- e)" using True False by simp
    then have "(2::rat) ^ n = 2 ^ nat (int n + e) * 2 ^ nat (- e)" by (metis power_add)
    then show ?thesis using True False by (simp add: pow2_def)
  next
    case neg: False
    have "nat (- e) = n + nat (- (int n + e))" using neg False by simp
    then have "(2::rat) ^ nat (- e) = 2 ^ n * 2 ^ nat (- (int n + e))" by (simp only: power_add)
    then show ?thesis using neg False by (simp add: pow2_def)
  qed
qed

lemma f32_rat_units:
  "f32_rat w = (if f32_negative w then - 1 else 1) * (of_nat (f32_units (f32_magnitude w)) * pow2 (- 149))"
proof (cases "f32_magnitude w div 8388608")
  case 0
  then show ?thesis by (simp add: f32_rat_def f32_units_def Let_def)
next
  case (Suc e)
  then have "pow2 (int (f32_magnitude w div 8388608) - 150) = 2 ^ e * pow2 (- 149)"
    using pow2_add_nat [of e "- 149"] by simp
  then show ?thesis using Suc by (simp add: f32_rat_def f32_units_def Let_def)
qed

lemma f32_rat_mono:
  assumes "f32_key a \<le> f32_key b"
  shows "f32_rat a \<le> f32_rat b"
proof -
  let ?u = "\<lambda>w. of_nat (f32_units (f32_magnitude w)) * pow2 (- 149)"
  have nonneg: "0 \<le> ?u w" for w by (simp add: less_imp_le)
  have mono: "?u v \<le> ?u w" if "f32_magnitude v \<le> f32_magnitude w" for v w
    using f32_units_mono [OF that] by (simp add: mult_right_mono less_imp_le)
  have units_0: "f32_units 0 = 0" by (simp add: f32_units_def)
  show ?thesis
  proof (cases "f32_negative a"; cases "f32_negative b")
    assume "f32_negative a" "f32_negative b"
    then show ?thesis using assms mono [of b a] by (simp add: f32_rat_units f32_key_def f32_negative_def)
  next
    assume "f32_negative a" "\<not> f32_negative b"
    then show ?thesis using nonneg [of a] nonneg [of b] by (simp add: f32_rat_units)
  next
    assume *: "\<not> f32_negative a" "f32_negative b"
    then have "f32_magnitude a = 0" "f32_magnitude b = 0"
      using assms by (simp_all add: f32_key_def f32_negative_def)
    then show ?thesis by (simp add: f32_rat_units units_0)
  next
    assume "\<not> f32_negative a" "\<not> f32_negative b"
    then show ?thesis using assms mono [of a b] by (simp add: f32_rat_units f32_key_def f32_negative_def)
  qed
qed

lemma f32_trunc_mono: "f32_key a \<le> f32_key b \<Longrightarrow> f32_trunc a \<le> f32_trunc b"
proof -
  have mono: "(if p < 0 then - floor (- p) else floor p) \<le> (if q < 0 then - floor (- q) else floor q)"
    if le: "p \<le> q" for p q :: rat
  proof (cases "p < 0 \<and> \<not> q < 0")
    case True
    then have "0 \<le> floor (- p)" "0 \<le> floor q" by simp_all
    then have "- floor (- p) \<le> floor q" by linarith
    then show ?thesis using True by simp
  next
    case False
    then show ?thesis using le floor_mono [of p q] floor_mono [of "- q" "- p"] by auto
  qed
  assume "f32_key a \<le> f32_key b"
  then show ?thesis unfolding f32_trunc_def Let_def by (intro mono f32_rat_mono)
qed

text \<open>A clamped value converts to an integer between the integers of the bounds.\<close>

lemma f32_clamped_range:
  assumes "f32_is_finite lo" and "f32_is_finite hi" and "f32_key lo \<le> f32_key hi"
    and "f32_trunc lo = a" and "f32_trunc hi = b" and "lb \<le> a" and "a \<le> 0" and "0 \<le> b" and "b \<le> ub"
  shows "a \<le> f32_as_int lb ub (f32_clamp lo hi w) \<and> f32_as_int lb ub (f32_clamp lo hi w) \<le> b"
proof (cases "f32_is_nan w")
  case True
  then show ?thesis using assms by (simp add: f32_clamp_def f32_lt_def f32_as_int_def)
next
  case False
  let ?c = "f32_clamp lo hi w"
  have nan: "\<not> f32_is_nan lo" "\<not> f32_is_nan hi"
    using assms by (simp_all add: f32_is_nan_def f32_is_finite_def)
  have key: "f32_key lo \<le> f32_key ?c" "f32_key ?c \<le> f32_key hi"
    using assms(3) False nan by (auto simp: f32_clamp_def f32_lt_def)
  have "f32_magnitude ?c < 2139095040"
    using key assms(1,2) by (auto simp: f32_key_def f32_is_finite_def split: if_splits)
  then have "\<not> f32_is_nan ?c" "\<not> f32_is_infinite ?c"
    by (simp_all add: f32_is_nan_def f32_is_infinite_def)
  moreover have "a \<le> f32_trunc ?c" "f32_trunc ?c \<le> b"
    using f32_trunc_mono [OF key(1)] f32_trunc_mono [OF key(2)] assms by simp_all
  ultimately show ?thesis using assms by (simp add: f32_as_int_def)
qed

section \<open>Small integers are exact\<close>

lemma foldl_last_such:
  "P e \<Longrightarrow> (\<And>y. y \<in> set ys \<Longrightarrow> \<not> P y) \<Longrightarrow>
   foldl (\<lambda>acc e. if P e then e else acc) a (xs @ e # ys) = e"
  by (induction ys rule: rev_induct) auto

lemma pow2_mono: "d \<le> e \<Longrightarrow> pow2 d \<le> pow2 e"
proof -
  assume "d \<le> e"
  then obtain n where "e = int n + d" by (metis add.commute zle_iff_zadd)
  moreover have "(1::rat) \<le> 2 ^ n" by simp
  ultimately show ?thesis using pow2_add_nat [of n d] mult_right_mono [of 1 "2 ^ n" "pow2 d"]
    by (simp add: less_imp_le)
qed

lemma f32_exponent_eq:
  assumes "- 126 \<le> e" and "e \<le> 127" and "pow2 e \<le> q" and "q < pow2 (e + 1)"
  shows "f32_exponent q = e"
proof -
  have "[- 126..127] = [- 126..e - 1] @ e # [e + 1..127]"
    using assms(1,2) by (rule upto_split3)
  then have "f32_exponent q = foldl (\<lambda>acc e. if pow2 e \<le> q then e else acc) (- 126)
      ([- 126..e - 1] @ e # [e + 1..127])"
    unfolding f32_exponent_def by (rule arg_cong)
  also have "\<dots> = e"
  proof (rule foldl_last_such [of "\<lambda>e. pow2 e \<le> q", OF assms(3)])
    show "\<not> pow2 y \<le> q" if "y \<in> set [e + 1..127]" for y
      using that pow2_mono [of "e + 1" y] assms(4) by auto
  qed
  finally show ?thesis .
qed

lemma f32_small_ints:
  "f32_of_int 7 = 1088421888" "f32_of_int 15 = 1097859072" "f32_of_int 255 = 1132396544"
  "f32_of_int 127 = 1123942400" "f32_of_int (- 127) = 3271426048"
proof -
  have e: "f32_exponent 7 = 2" "f32_exponent 15 = 3" "f32_exponent 255 = 7" "f32_exponent 127 = 6"
    by (rule f32_exponent_eq; simp add: pow2_def)+
  show "f32_of_int 7 = 1088421888" "f32_of_int 15 = 1097859072" "f32_of_int 255 = 1132396544"
    "f32_of_int 127 = 1123942400" "f32_of_int (- 127) = 3271426048"
    by (simp_all add: f32_of_int_def f32_round_def f32_round_magnitude_def e Let_def pow2_def
        round_half_even_def f32_with_sign_def)
qed

lemma f32_small_int_facts [simp]:
  "f32_is_finite 1088421888" "f32_is_finite 1097859072" "f32_is_finite 1132396544"
  "f32_is_finite 1123942400" "f32_is_finite 3271426048" "f32_is_finite f32_zero"
  "f32_trunc 1088421888 = 7" "f32_trunc 1097859072 = 15" "f32_trunc 1132396544 = 255"
  "f32_trunc 1123942400 = 127" "f32_trunc 3271426048 = - 127" "f32_trunc f32_zero = 0"
  "f32_key 1088421888 = 1088421888" "f32_key 1097859072 = 1097859072" "f32_key 1132396544 = 1132396544"
  "f32_key 1123942400 = 1123942400" "f32_key 3271426048 = - 1123942400" "f32_key f32_zero = 0"
  by (simp_all add: f32_is_finite_def f32_magnitude_def f32_zero_def f32_trunc_def f32_rat_def f32_negative_def
      Let_def pow2_def f32_key_def)

end
