(* ===== verification/Kv_Quantization.thy ===== *)
theory Kv_Quantization
  imports Kv_Base F32_Arith
begin

text \<open>
  The compressed stores of crates/llm-kv-cache/src/format.rs: rows of signed bytes with one scale per
  token (\<open>LayerInt8KvStore\<close>), and the prototype that keeps values as 3, 4 or 8 bit codes packed into
  bytes with a zero point and a scale per token (\<open>LayerQuantizedValueStore\<close>). An \<open>i8\<close> is an integer, a
  \<open>u16\<close> code a natural number, a payload byte a word.

  Lemmas: packing and unpacking codes is a round trip for every width; a store accepts exactly the
  finite rows of the right shape, and what it gives back has the shape of what was stored.
\<close>

unbundle bit_operations_syntax

section \<open>Packed codes\<close>

fun pack_bit_loop :: "nat \<Rightarrow> nat \<Rightarrow> nat list \<Rightarrow> u8 list \<Rightarrow> (kv_cache_error, u8 list) outcome" where
  "pack_bit_loop code base_bit [] bytes = Ok bytes"
| "pack_bit_loop code base_bit (code_bit # bits) bytes =
     (if drop_bit code_bit code AND 1 = 1
      then case checked_add base_bit code_bit of
             None \<Rightarrow> Err InvalidShape
           | Some bit_index \<Rightarrow>
               if bit_index div 8 < length bytes
               then pack_bit_loop code base_bit bits
                      (bytes[bit_index div 8 := bytes ! (bit_index div 8) OR push_bit (bit_index mod 8) 1])
               else Err InvalidShape
      else pack_bit_loop code base_bit bits bytes)"

fun pack_code_loop ::
  "nat \<Rightarrow> nat \<Rightarrow> nat \<Rightarrow> nat list \<Rightarrow> u8 list \<Rightarrow> (kv_cache_error, u8 list) outcome" where
  "pack_code_loop width max_code value_index [] bytes = Ok bytes"
| "pack_code_loop width max_code value_index (code # codes) bytes =
     (if code > max_code then Err InvalidShape
      else case checked_mul value_index width of
             None \<Rightarrow> Err InvalidShape
           | Some base_bit \<Rightarrow>
               (case pack_bit_loop code base_bit [0..<width] bytes of
                  Ok bytes' \<Rightarrow> pack_code_loop width max_code (Suc value_index) codes bytes'
                | Err e \<Rightarrow> Err e
                | Panic \<Rightarrow> Panic))"

definition pack_codes ::
  "kv_cache_value_quantization_bits \<Rightarrow> nat list \<Rightarrow> (kv_cache_error, u8 list) outcome" where
  "pack_codes bits codes =
     (case quantization_payload_bytes bits (length codes) of
        Ok n \<Rightarrow> pack_code_loop (bit_width bits) (sat_sub (level_count bits) 1) 0 codes (replicate n 0)
      | Err e \<Rightarrow> Err e
      | Panic \<Rightarrow> Panic)"

fun unpack_bit_loop :: "nat \<Rightarrow> nat list \<Rightarrow> u8 list \<Rightarrow> nat \<Rightarrow> (kv_cache_error, nat) outcome" where
  "unpack_bit_loop base_bit [] bytes code = Ok code"
| "unpack_bit_loop base_bit (code_bit # bits) bytes code =
     (case checked_add base_bit code_bit of
        None \<Rightarrow> Err InvalidShape
      | Some bit_index \<Rightarrow>
          if bit_index div 8 < length bytes
          then unpack_bit_loop base_bit bits bytes
                 (if drop_bit (bit_index mod 8) (bytes ! (bit_index div 8)) AND 1 = 1
                  then code OR push_bit code_bit 1 else code)
          else Err InvalidShape)"

fun unpack_code_loop :: "nat \<Rightarrow> nat list \<Rightarrow> u8 list \<Rightarrow> (kv_cache_error, nat list) outcome" where
  "unpack_code_loop width [] bytes = Ok []"
| "unpack_code_loop width (value_index # is) bytes =
     (case checked_mul value_index width of
        None \<Rightarrow> Err InvalidShape
      | Some base_bit \<Rightarrow>
          (case unpack_bit_loop base_bit [0..<width] bytes 0 of
             Ok code \<Rightarrow>
               (case unpack_code_loop width is bytes of
                  Ok codes \<Rightarrow> Ok (code # codes)
                | Err e \<Rightarrow> Err e
                | Panic \<Rightarrow> Panic)
           | Err e \<Rightarrow> Err e
           | Panic \<Rightarrow> Panic))"

definition unpack_codes ::
  "kv_cache_value_quantization_bits \<Rightarrow> nat \<Rightarrow> u8 list \<Rightarrow> (kv_cache_error, nat list) outcome" where
  "unpack_codes bits value_count bytes =
     (case quantization_payload_bytes bits value_count of
        Ok n \<Rightarrow>
          if length bytes \<noteq> n then Err InvalidShape
          else unpack_code_loop (bit_width bits) [0..<value_count] bytes
      | Err e \<Rightarrow> Err e
      | Panic \<Rightarrow> Panic)"

section \<open>Values in packed codes\<close>

record quantized_value_row =
  qr_zero_point :: f32
  qr_scale :: f32

record quantized_value_block =
  qb_bits :: kv_cache_value_quantization_bits
  qb_vector_len :: nat
  qb_value_count :: nat
  qb_rows :: "quantized_value_row list"
  qb_payload :: "u8 list"

fun row_bounds_loop :: "f32 list \<Rightarrow> f32 \<Rightarrow> f32 \<Rightarrow> (kv_cache_error, f32 \<times> f32) outcome" where
  "row_bounds_loop [] mn mx = Ok (mn, mx)"
| "row_bounds_loop (v # vs) mn mx =
     (if \<not> f32_is_finite v then Err NonFiniteValue
      else row_bounds_loop vs (f32_min mn v) (f32_max mx v))"

definition value_row_scale :: "nat \<Rightarrow> f32 \<Rightarrow> f32 \<Rightarrow> f32" where
  "value_row_scale max_code mn mx =
     (if f32_eq mn mx then f32_zero else f32_div (f32_sub mx mn) (f32_of_int (int max_code)))"

definition value_code :: "nat \<Rightarrow> f32 \<Rightarrow> f32 \<Rightarrow> f32 \<Rightarrow> nat" where
  "value_code max_code mn scale v =
     (if f32_eq scale f32_zero then 0
      else nat (f32_as_int 0 65535
        (f32_clamp f32_zero (f32_of_int (int max_code)) (f32_round_int (f32_div (f32_sub v mn) scale)))))"

fun quantize_value_rows ::
  "kv_cache_value_quantization_bits \<Rightarrow> f32 list list
     \<Rightarrow> (kv_cache_error, quantized_value_row list \<times> u8 list) outcome" where
  "quantize_value_rows bits [] = Ok ([], [])"
| "quantize_value_rows bits (r # rs) =
     (case row_bounds_loop r f32_infinity f32_neg_infinity of
        Ok (mn, mx) \<Rightarrow>
          (let max_code = sat_sub (level_count bits) 1;
               scale = value_row_scale max_code mn mx
           in case pack_codes bits (map (value_code max_code mn scale) r) of
                Ok packed \<Rightarrow>
                  (case quantize_value_rows bits rs of
                     Ok (rows, payload) \<Rightarrow>
                       Ok (\<lparr>qr_zero_point = mn, qr_scale = scale\<rparr> # rows, packed @ payload)
                   | Err e \<Rightarrow> Err e
                   | Panic \<Rightarrow> Panic)
              | Err e \<Rightarrow> Err e
              | Panic \<Rightarrow> Panic)
      | Err e \<Rightarrow> Err e
      | Panic \<Rightarrow> Panic)"

definition quantized_value_block_quantize ::
  "kv_cache_value_quantization_bits \<Rightarrow> f32 list \<Rightarrow> nat
     \<Rightarrow> (kv_cache_error, quantized_value_block) outcome" where
  "quantized_value_block_quantize bits values vector_len =
     (if values = [] \<or> vector_len = 0 \<or> \<not> vector_len dvd length values then Err InvalidShape
      else case quantization_payload_bytes bits (length values) of
             Ok _ \<Rightarrow>
               (case quantize_value_rows bits (chunks_exact vector_len values) of
                  Ok (rows, payload) \<Rightarrow>
                    Ok \<lparr>qb_bits = bits, qb_vector_len = vector_len, qb_value_count = length values,
                        qb_rows = rows, qb_payload = payload\<rparr>
                | Err e \<Rightarrow> Err e
                | Panic \<Rightarrow> Panic)
           | Err e \<Rightarrow> Err e
           | Panic \<Rightarrow> Panic)"

text \<open>\<open>payload.get(start..end)\<close> gives \<open>None\<close> where a slice would panic.\<close>

fun dequantize_value_rows ::
  "kv_cache_value_quantization_bits \<Rightarrow> nat \<Rightarrow> nat \<Rightarrow> u8 list \<Rightarrow> nat \<Rightarrow> quantized_value_row list
     \<Rightarrow> (kv_cache_error, f32 list) outcome" where
  "dequantize_value_rows bits vector_len row_bytes payload row_index [] = Ok []"
| "dequantize_value_rows bits vector_len row_bytes payload row_index (r # rs) =
     (case Option.bind (checked_mul row_index row_bytes)
             (\<lambda>start. Option.bind (checked_add start row_bytes) (\<lambda>stop. slice_range start stop payload)) of
        None \<Rightarrow> Err InvalidShape
      | Some bytes \<Rightarrow>
          (case unpack_codes bits vector_len bytes of
             Ok codes \<Rightarrow>
               (case dequantize_value_rows bits vector_len row_bytes payload (Suc row_index) rs of
                  Ok vs \<Rightarrow>
                    Ok (map (\<lambda>code. f32_add (qr_zero_point r) (f32_mul (f32_of_int (int code)) (qr_scale r)))
                          codes @ vs)
                | Err e \<Rightarrow> Err e
                | Panic \<Rightarrow> Panic)
           | Err e \<Rightarrow> Err e
           | Panic \<Rightarrow> Panic))"

definition quantized_value_block_dequantize ::
  "quantized_value_block \<Rightarrow> (kv_cache_error, f32 list) outcome" where
  "quantized_value_block_dequantize b =
     (if qb_vector_len b = 0 \<or> \<not> qb_vector_len b dvd qb_value_count b then Err InvalidShape
      else case quantization_payload_bytes (qb_bits b) (qb_vector_len b) of
             Ok row_bytes \<Rightarrow>
               if checked_mul row_bytes (length (qb_rows b)) \<noteq> Some (length (qb_payload b))
               then Err InvalidShape
               else dequantize_value_rows (qb_bits b) (qb_vector_len b) row_bytes (qb_payload b) 0 (qb_rows b)
           | Err e \<Rightarrow> Err e
           | Panic \<Rightarrow> Panic)"

definition quantized_value_block_payload_bytes :: "quantized_value_block \<Rightarrow> nat" where
  "quantized_value_block_payload_bytes b = length (qb_payload b)"

definition quantized_value_block_metadata_bytes :: "quantized_value_block \<Rightarrow> nat" where
  "quantized_value_block_metadata_bytes b = sat_add (sat_add (sat_mul (length (qb_rows b)) 8) 16) 1"

section \<open>Signed bytes\<close>

fun max_abs_loop :: "f32 list \<Rightarrow> f32 \<Rightarrow> (kv_cache_error, f32) outcome" where
  "max_abs_loop [] acc = Ok acc"
| "max_abs_loop (v # vs) acc =
     (if \<not> f32_is_finite v then Err NonFiniteValue else max_abs_loop vs (f32_max acc (f32_abs v)))"

definition int8_scale :: "f32 \<Rightarrow> f32" where
  "int8_scale max_abs = (if f32_eq max_abs f32_zero then f32_zero else f32_div max_abs (f32_of_int 127))"

definition int8_code :: "f32 \<Rightarrow> f32 \<Rightarrow> int" where
  "int8_code scale v =
     (if f32_eq scale f32_zero then 0
      else f32_as_int (- 128) 127
        (f32_clamp (f32_of_int (- 127)) (f32_of_int 127) (f32_round_int (f32_div v scale))))"

fun quantize_int8_row_loop :: "f32 list list \<Rightarrow> (kv_cache_error, int list \<times> f32 list) outcome" where
  "quantize_int8_row_loop [] = Ok ([], [])"
| "quantize_int8_row_loop (r # rs) =
     (case max_abs_loop r f32_zero of
        Ok max_abs \<Rightarrow>
          (case quantize_int8_row_loop rs of
             Ok (codes, scales) \<Rightarrow>
               Ok (map (int8_code (int8_scale max_abs)) r @ codes, int8_scale max_abs # scales)
           | Err e \<Rightarrow> Err e
           | Panic \<Rightarrow> Panic)
      | Err e \<Rightarrow> Err e
      | Panic \<Rightarrow> Panic)"

definition quantize_int8_rows :: "f32 list \<Rightarrow> nat \<Rightarrow> (kv_cache_error, int list \<times> f32 list) outcome" where
  "quantize_int8_rows values vector_len =
     (if values = [] \<or> vector_len = 0 \<or> \<not> vector_len dvd length values then Err InvalidShape
      else quantize_int8_row_loop (chunks_exact vector_len values))"

definition dequantize_int8_rows ::
  "int list \<Rightarrow> f32 list \<Rightarrow> nat \<Rightarrow> (kv_cache_error, f32 list) outcome" where
  "dequantize_int8_rows codes scales vector_len =
     (if vector_len = 0 \<or> \<not> vector_len dvd length codes then Err InvalidShape
      else let token_count = length codes div vector_len
           in if length scales \<noteq> token_count then Err (ShapeMismatch token_count (length scales))
              else Ok (concat (map (\<lambda>(r, scale). map (\<lambda>code. f32_mul (f32_of_int code) scale) r)
                         (zip (chunks_exact vector_len codes) scales))))"

record int8_kv_block =
  i8_vector_len :: nat
  i8_token_count :: nat
  i8_key_scales :: "f32 list"
  i8_value_scales :: "f32 list"
  i8_key_codes :: "int list"
  i8_value_codes :: "int list"

definition int8_kv_block_quantize ::
  "f32 list \<Rightarrow> f32 list \<Rightarrow> nat \<Rightarrow> (kv_cache_error, int8_kv_block) outcome" where
  "int8_kv_block_quantize keys values vector_len =
     (if keys = [] \<or> vector_len = 0 \<or> length keys \<noteq> length values \<or> \<not> vector_len dvd length keys
      then Err InvalidShape
      else case quantize_int8_rows keys vector_len of
             Ok (key_codes, key_scales) \<Rightarrow>
               (case quantize_int8_rows values vector_len of
                  Ok (value_codes, value_scales) \<Rightarrow>
                    Ok \<lparr>i8_vector_len = vector_len, i8_token_count = length keys div vector_len,
                        i8_key_scales = key_scales, i8_value_scales = value_scales,
                        i8_key_codes = key_codes, i8_value_codes = value_codes\<rparr>
                | Err e \<Rightarrow> Err e
                | Panic \<Rightarrow> Panic)
           | Err e \<Rightarrow> Err e
           | Panic \<Rightarrow> Panic)"

definition int8_dequantize_keys :: "int8_kv_block \<Rightarrow> (kv_cache_error, f32 list) outcome" where
  "int8_dequantize_keys b = dequantize_int8_rows (i8_key_codes b) (i8_key_scales b) (i8_vector_len b)"

definition int8_dequantize_values :: "int8_kv_block \<Rightarrow> (kv_cache_error, f32 list) outcome" where
  "int8_dequantize_values b = dequantize_int8_rows (i8_value_codes b) (i8_value_scales b) (i8_vector_len b)"

definition int8_payload_bytes :: "int8_kv_block \<Rightarrow> nat" where
  "int8_payload_bytes b = sat_add (length (i8_key_codes b)) (length (i8_value_codes b))"

definition int8_metadata_bytes :: "int8_kv_block \<Rightarrow> nat" where
  "int8_metadata_bytes b =
     sat_add (sat_mul (sat_add (length (i8_key_scales b)) (length (i8_value_scales b))) 4) (sat_mul 2 8)"

record layer_int8_kv_token =
  it_key_codes :: "int list"
  it_value_codes :: "int list"
  it_key_scales :: "f32 list"
  it_value_scales :: "f32 list"

definition layer_int8_kv_token_quantize ::
  "f32 list \<Rightarrow> f32 list \<Rightarrow> nat \<Rightarrow> (kv_cache_error, layer_int8_kv_token) outcome" where
  "layer_int8_kv_token_quantize key value vector_len =
     (if length key \<noteq> vector_len \<or> length value \<noteq> vector_len then Err InvalidShape
      else case quantize_int8_rows key vector_len of
             Ok (key_codes, key_scales) \<Rightarrow>
               (case quantize_int8_rows value vector_len of
                  Ok (value_codes, value_scales) \<Rightarrow>
                    Ok \<lparr>it_key_codes = key_codes, it_value_codes = value_codes,
                        it_key_scales = key_scales, it_value_scales = value_scales\<rparr>
                | Err e \<Rightarrow> Err e
                | Panic \<Rightarrow> Panic)
           | Err e \<Rightarrow> Err e
           | Panic \<Rightarrow> Panic)"

section \<open>Stores\<close>

record layer_int8_kv_store =
  is_vector_len :: nat
  is_blocks :: "int8_kv_block option list"

definition int8_store_new :: "nat \<Rightarrow> nat \<Rightarrow> (kv_cache_error, layer_int8_kv_store) outcome" where
  "int8_store_new block_count vector_len =
     (if block_count = 0 \<or> vector_len = 0 then Err InvalidShape
      else Ok \<lparr>is_vector_len = vector_len, is_blocks = replicate block_count None\<rparr>)"

definition int8_store_update_block ::
  "nat \<Rightarrow> f32 list \<Rightarrow> f32 list \<Rightarrow> layer_int8_kv_store
     \<Rightarrow> (kv_cache_error, layer_int8_kv_store) outcome" where
  "int8_store_update_block block_index keys values s =
     (if block_index \<ge> length (is_blocks s) \<or> keys = [] \<or> length keys \<noteq> length values \<or>
         \<not> is_vector_len s dvd length keys
      then Err InvalidShape
      else case int8_kv_block_quantize keys values (is_vector_len s) of
             Ok b \<Rightarrow> Ok (s\<lparr>is_blocks := (is_blocks s)[block_index := Some b]\<rparr>)
           | Err e \<Rightarrow> Err e
           | Panic \<Rightarrow> Panic)"

definition int8_store_clear :: "layer_int8_kv_store \<Rightarrow> layer_int8_kv_store" where
  "int8_store_clear s = s\<lparr>is_blocks := map (\<lambda>_. None) (is_blocks s)\<rparr>"

definition int8_store_block :: "layer_int8_kv_store \<Rightarrow> nat \<Rightarrow> (kv_cache_error, int8_kv_block) outcome" where
  "int8_store_block s block_index =
     (if block_index < length (is_blocks s)
      then case is_blocks s ! block_index of None \<Rightarrow> Err InvalidShape | Some b \<Rightarrow> Ok b
      else Err InvalidShape)"

definition int8_store_dequantized_key_block ::
  "layer_int8_kv_store \<Rightarrow> nat \<Rightarrow> (kv_cache_error, f32 list) outcome" where
  "int8_store_dequantized_key_block s block_index =
     (case int8_store_block s block_index of
        Ok b \<Rightarrow> int8_dequantize_keys b | Err e \<Rightarrow> Err e | Panic \<Rightarrow> Panic)"

definition int8_store_dequantized_value_block ::
  "layer_int8_kv_store \<Rightarrow> nat \<Rightarrow> (kv_cache_error, f32 list) outcome" where
  "int8_store_dequantized_value_block s block_index =
     (case int8_store_block s block_index of
        Ok b \<Rightarrow> int8_dequantize_values b | Err e \<Rightarrow> Err e | Panic \<Rightarrow> Panic)"

text \<open>\<open>Iterator::sum\<close> wraps.\<close>

definition wrap_sum :: "nat list \<Rightarrow> nat" where
  "wrap_sum ns = foldl wrap_add 0 ns"

definition int8_store_payload_bytes :: "layer_int8_kv_store \<Rightarrow> nat" where
  "int8_store_payload_bytes s = wrap_sum (map int8_payload_bytes (List.map_filter id (is_blocks s)))"

definition int8_store_metadata_bytes :: "layer_int8_kv_store \<Rightarrow> nat" where
  "int8_store_metadata_bytes s = wrap_sum (map int8_metadata_bytes (List.map_filter id (is_blocks s)))"

definition int8_store_resident_bytes :: "layer_int8_kv_store \<Rightarrow> nat" where
  "int8_store_resident_bytes s = sat_add (int8_store_payload_bytes s) (int8_store_metadata_bytes s)"

record layer_quantized_value_store =
  qs_bits :: kv_cache_value_quantization_bits
  qs_vector_len :: nat
  qs_blocks :: "quantized_value_block option list"

definition value_store_new ::
  "nat \<Rightarrow> nat \<Rightarrow> kv_cache_value_quantization_bits
     \<Rightarrow> (kv_cache_error, layer_quantized_value_store) outcome" where
  "value_store_new block_count vector_len bits =
     (if block_count = 0 \<or> vector_len = 0 then Err InvalidShape
      else Ok \<lparr>qs_bits = bits, qs_vector_len = vector_len, qs_blocks = replicate block_count None\<rparr>)"

definition value_store_update_block ::
  "nat \<Rightarrow> f32 list \<Rightarrow> layer_quantized_value_store
     \<Rightarrow> (kv_cache_error, layer_quantized_value_store) outcome" where
  "value_store_update_block block_index values s =
     (if block_index \<ge> length (qs_blocks s) \<or> values = [] \<or> \<not> qs_vector_len s dvd length values
      then Err InvalidShape
      else case quantized_value_block_quantize (qs_bits s) values (qs_vector_len s) of
             Ok b \<Rightarrow> Ok (s\<lparr>qs_blocks := (qs_blocks s)[block_index := Some b]\<rparr>)
           | Err e \<Rightarrow> Err e
           | Panic \<Rightarrow> Panic)"

definition value_store_clear :: "layer_quantized_value_store \<Rightarrow> layer_quantized_value_store" where
  "value_store_clear s = s\<lparr>qs_blocks := map (\<lambda>_. None) (qs_blocks s)\<rparr>"

definition value_store_dequantized_block ::
  "layer_quantized_value_store \<Rightarrow> nat \<Rightarrow> (kv_cache_error, f32 list) outcome" where
  "value_store_dequantized_block s block_index =
     (if block_index < length (qs_blocks s)
      then case qs_blocks s ! block_index of
             None \<Rightarrow> Err InvalidShape | Some b \<Rightarrow> quantized_value_block_dequantize b
      else Err InvalidShape)"

definition value_store_payload_bytes :: "layer_quantized_value_store \<Rightarrow> nat" where
  "value_store_payload_bytes s =
     wrap_sum (map quantized_value_block_payload_bytes (List.map_filter id (qs_blocks s)))"

definition value_store_metadata_bytes :: "layer_quantized_value_store \<Rightarrow> nat" where
  "value_store_metadata_bytes s =
     wrap_sum (map quantized_value_block_metadata_bytes (List.map_filter id (qs_blocks s)))"

definition value_store_resident_bytes :: "layer_quantized_value_store \<Rightarrow> nat" where
  "value_store_resident_bytes s = sat_add (value_store_payload_bytes s) (value_store_metadata_bytes s)"

section \<open>Packing is a round trip\<close>

definition bit_at :: "u8 list \<Rightarrow> nat \<Rightarrow> bool" where
  "bit_at bytes k = bit (bytes ! (k div 8)) (k mod 8)"

lemma and_one_bit: "drop_bit n (x :: 'a::semiring_bit_operations) AND 1 = 1 \<longleftrightarrow> bit x n"
  by (simp add: and_one_eq bit_iff_odd_drop_bit mod_2_eq_odd)

lemma bit_at_set:
  assumes "i div 8 < length bytes"
  shows "bit_at (bytes[i div 8 := bytes ! (i div 8) OR push_bit (i mod 8) 1]) k \<longleftrightarrow>
    bit_at bytes k \<or> k = i"
proof (cases "k div 8 = i div 8")
  case True
  have "k = i \<longleftrightarrow> k mod 8 = i mod 8" using True by (metis div_mod_decomp)
  moreover have "bit (bytes ! (i div 8) OR push_bit (i mod 8) (1::u8)) (k mod 8) \<longleftrightarrow>
      bit (bytes ! (i div 8)) (k mod 8) \<or> k mod 8 = i mod 8"
    by (auto simp: bit_simps)
  ultimately show ?thesis using assms True by (simp add: bit_at_def)
next
  case False
  then show ?thesis by (auto simp: bit_at_def)
qed

lemma ex_nat_cases: "(\<exists>j. P j) \<longleftrightarrow> P 0 \<or> (\<exists>j. P (Suc j))"
  by (metis not0_implies_Suc)

lemma pack_bit_loop_Cons:
  "base + cb \<le> u64_max \<Longrightarrow> (base + cb) div 8 < length bytes \<Longrightarrow>
   pack_bit_loop code base (cb # bits) bytes =
     pack_bit_loop code base bits
       (if bit code cb
        then bytes[(base + cb) div 8 := bytes ! ((base + cb) div 8) OR push_bit ((base + cb) mod 8) 1]
        else bytes)"
  unfolding pack_bit_loop.simps and_one_bit checked_add_def by simp

lemma unpack_bit_loop_Cons:
  "base + cb \<le> u64_max \<Longrightarrow> (base + cb) div 8 < length bytes \<Longrightarrow>
   unpack_bit_loop base (cb # bits) bytes code =
     unpack_bit_loop base bits bytes (if bit_at bytes (base + cb) then code OR push_bit cb 1 else code)"
  unfolding unpack_bit_loop.simps and_one_bit checked_add_def bit_at_def by simp

declare pack_bit_loop.simps(2) [simp del] unpack_bit_loop.simps(2) [simp del]

lemma pack_bit_loop_sets:
  assumes "\<forall>cb \<in> set bits. (base + cb) div 8 < length bytes \<and> base + cb \<le> u64_max"
  shows "\<exists>bytes'. pack_bit_loop code base bits bytes = Ok bytes' \<and> length bytes' = length bytes \<and>
    (\<forall>k. bit_at bytes' k \<longleftrightarrow> bit_at bytes k \<or> (\<exists>cb \<in> set bits. k = base + cb \<and> bit code cb))"
  using assms
proof (induction bits arbitrary: bytes)
  case Nil
  then show ?case by simp
next
  case (Cons cb bits)
  let ?i = "base + cb"
  let ?b = "if bit code cb then bytes[?i div 8 := bytes ! (?i div 8) OR push_bit (?i mod 8) 1] else bytes"
  have len: "length ?b = length bytes" by simp
  have sets: "bit_at ?b k \<longleftrightarrow> bit_at bytes k \<or> k = ?i \<and> bit code cb" for k
    using bit_at_set [of ?i bytes k] Cons.prems by (simp del: push_bit_of_1)
  obtain bytes' where "pack_bit_loop code base bits ?b = Ok bytes'" "length bytes' = length bytes"
    "\<forall>k. bit_at bytes' k \<longleftrightarrow> bit_at ?b k \<or> (\<exists>cb \<in> set bits. k = base + cb \<and> bit code cb)"
    using Cons.IH [of ?b] Cons.prems len by fastforce
  moreover have "pack_bit_loop code base (cb # bits) bytes = pack_bit_loop code base bits ?b"
    using Cons.prems by (intro pack_bit_loop_Cons) auto
  ultimately show ?case unfolding sets by (intro exI [of _ bytes']) auto
qed

lemma pack_code_loop_sets:
  assumes "\<forall>c \<in> set codes. c \<le> max_code" and "(i + length codes) * width \<le> 8 * length bytes"
    and "(i + length codes) * width \<le> u64_max"
  shows "\<exists>bytes'. pack_code_loop width max_code i codes bytes = Ok bytes' \<and> length bytes' = length bytes \<and>
    (\<forall>k. bit_at bytes' k \<longleftrightarrow> bit_at bytes k \<or>
       (\<exists>j cb. j < length codes \<and> cb < width \<and> k = (i + j) * width + cb \<and> bit (codes ! j) cb))"
  using assms
proof (induction codes arbitrary: i bytes)
  case Nil
  then show ?case by simp
next
  case (Cons c codes)
  have room: "i * width + width \<le> 8 * length bytes" "i * width + width \<le> u64_max"
    using Cons.prems(2,3) by (simp_all add: algebra_simps)
  have idx: "(i * width + cb) div 8 < length bytes \<and> i * width + cb \<le> u64_max" if "cb < width" for cb
    using that room by (auto simp: less_mult_imp_div_less)
  obtain b1 where b1: "pack_bit_loop c (i * width) [0..<width] bytes = Ok b1" "length b1 = length bytes"
    "\<forall>k. bit_at b1 k \<longleftrightarrow> bit_at bytes k \<or> (\<exists>cb \<in> set [0..<width]. k = i * width + cb \<and> bit c cb)"
    using pack_bit_loop_sets [of "[0..<width]" "i * width" bytes c] idx by auto
  have ih_prems: "(Suc i + length codes) * width \<le> 8 * length b1" "(Suc i + length codes) * width \<le> u64_max"
    using Cons.prems(2,3) b1(2) by simp_all
  obtain b2 where b2: "pack_code_loop width max_code (Suc i) codes b1 = Ok b2" "length b2 = length b1"
    "\<forall>k. bit_at b2 k \<longleftrightarrow> bit_at b1 k \<or>
       (\<exists>j cb. j < length codes \<and> cb < width \<and> k = (Suc i + j) * width + cb \<and> bit (codes ! j) cb)"
    using Cons.IH [of "Suc i" b1] ih_prems Cons.prems(1) by auto
  have "i * width \<le> u64_max" using room(2) by simp
  then have "pack_code_loop width max_code i (c # codes) bytes = Ok b2"
    using b1(1) b2(1) Cons.prems(1) by (simp add: checked_mul_def)
  moreover have "bit_at b2 k \<longleftrightarrow> bit_at bytes k \<or>
     (\<exists>j cb. j < length (c # codes) \<and> cb < width \<and> k = (i + j) * width + cb \<and> bit ((c # codes) ! j) cb)" for k
  proof -
    have "(\<exists>j cb. j < length (c # codes) \<and> cb < width \<and> k = (i + j) * width + cb \<and> bit ((c # codes) ! j) cb) \<longleftrightarrow>
      (\<exists>cb < width. k = i * width + cb \<and> bit c cb) \<or>
      (\<exists>j cb. j < length codes \<and> cb < width \<and> k = (Suc i + j) * width + cb \<and> bit (codes ! j) cb)"
      by (subst ex_nat_cases) auto
    then show ?thesis using b1(3) b2(3) by auto
  qed
  ultimately show ?case using b1(2) b2(2) by auto
qed

lemma unpack_bit_loop_reads:
  assumes "\<forall>cb \<in> set bits. (base + cb) div 8 < length bytes \<and> base + cb \<le> u64_max"
  shows "\<exists>code'. unpack_bit_loop base bits bytes code = Ok code' \<and>
    (\<forall>n. bit code' n \<longleftrightarrow> bit code n \<or> n \<in> set bits \<and> bit_at bytes (base + n))"
  using assms
proof (induction bits arbitrary: code)
  case Nil
  then show ?case by simp
next
  case (Cons cb bits)
  let ?c = "if bit_at bytes (base + cb) then code OR push_bit cb 1 else code"
  have "unpack_bit_loop base (cb # bits) bytes code = unpack_bit_loop base bits bytes ?c"
    using Cons.prems by (intro unpack_bit_loop_Cons) auto
  moreover have "bit ?c n \<longleftrightarrow> bit code n \<or> n = cb \<and> bit_at bytes (base + n)" for n
    by (auto simp: bit_simps)
  ultimately show ?case using Cons.IH [of ?c] Cons.prems by auto
qed

lemma unpack_code_loop_reads:
  assumes "\<forall>i \<in> set is. Suc i * width \<le> 8 * length bytes \<and> Suc i * width \<le> u64_max"
  shows "\<exists>codes. unpack_code_loop width is bytes = Ok codes \<and> length codes = length is \<and>
    (\<forall>j < length is. \<forall>n. bit (codes ! j) n \<longleftrightarrow> n < width \<and> bit_at bytes ((is ! j) * width + n))"
  using assms
proof (induction "is")
  case Nil
  then show ?case by simp
next
  case (Cons i "is")
  have room: "i * width + width \<le> 8 * length bytes" "i * width + width \<le> u64_max"
    using Cons.prems by (simp_all add: algebra_simps)
  have idx: "(i * width + cb) div 8 < length bytes \<and> i * width + cb \<le> u64_max" if "cb < width" for cb
    using that room by (auto simp: less_mult_imp_div_less)
  obtain c where c: "unpack_bit_loop (i * width) [0..<width] bytes 0 = Ok c"
    "\<forall>n. bit c n \<longleftrightarrow> n < width \<and> bit_at bytes (i * width + n)"
    using unpack_bit_loop_reads [of "[0..<width]" "i * width" bytes 0] idx by auto
  obtain codes where codes: "unpack_code_loop width is bytes = Ok codes" "length codes = length is"
    "\<forall>j < length is. \<forall>n. bit (codes ! j) n \<longleftrightarrow> n < width \<and> bit_at bytes ((is ! j) * width + n)"
    using Cons.IH Cons.prems by auto
  have "i * width \<le> u64_max" using room(2) by simp
  then have "unpack_code_loop width (i # is) bytes = Ok (c # codes)"
    using c(1) codes(1) by (simp add: checked_mul_def)
  then show ?case using c(2) codes(2,3) by (auto simp: nth_Cons split: nat.splits)
qed

lemma mult_add_unique:
  assumes "(j::nat) * w + a = i * w + b" and "a < w" and "b < w"
  shows "j = i \<and> a = b"
proof -
  have "(j * w + a) div w = j" "(i * w + b) div w = i" using assms(2,3) by auto
  with assms(1) have "j = i" by simp
  with assms(1) show ?thesis by simp
qed

lemma payload_bytes_room:
  "quantization_payload_bytes bits n = Ok m \<Longrightarrow> n * bit_width bits \<le> 8 * m \<and> n * bit_width bits \<le> u64_max"
  by (auto simp: quantization_payload_bytes_def checked_mul_def checked_add_def split: if_splits option.splits)

lemma level_count_bits: "c \<le> sat_sub (level_count bits) 1 \<Longrightarrow> bit c n \<Longrightarrow> n < bit_width bits"
proof (rule ccontr)
  assume c: "c \<le> sat_sub (level_count bits) 1" and b: "bit c n" and n: "\<not> n < bit_width bits"
  have "0 < (2::nat) ^ bit_width bits" by simp
  with c have "c < 2 ^ bit_width bits" unfolding sat_sub_def level_count_def by linarith
  also have "\<dots> \<le> 2 ^ n" using n by simp
  finally show False using b by (simp add: bit_iff_odd)
qed

lemma pack_codes_ok:
  assumes "quantization_payload_bytes bits (length codes) = Ok m"
    and "\<forall>c \<in> set codes. c < level_count bits"
  shows "\<exists>bytes. pack_codes bits codes = Ok bytes \<and> length bytes = m \<and>
    unpack_codes bits (length codes) bytes = Ok codes"
proof -
  let ?w = "bit_width bits" and ?n = "length codes"
  note room = payload_bytes_room [OF assms(1)]
  have le: "\<forall>c \<in> set codes. c \<le> sat_sub (level_count bits) 1" using assms(2) by (auto simp: sat_sub_def)
  obtain bytes where b: "pack_code_loop ?w (sat_sub (level_count bits) 1) 0 codes (replicate m 0) = Ok bytes"
    "length bytes = m" "\<forall>k. bit_at bytes k \<longleftrightarrow> bit_at (replicate m 0) k \<or>
       (\<exists>j cb. j < ?n \<and> cb < ?w \<and> k = (0 + j) * ?w + cb \<and> bit (codes ! j) cb)"
    using pack_code_loop_sets [OF le, of 0 ?w "replicate m 0"] room by auto
  have "Suc i * ?w \<le> 8 * length bytes \<and> Suc i * ?w \<le> u64_max" if "i < ?n" for i
    using mult_le_mono1 [of "Suc i" ?n ?w] that room b(2) by simp
  then obtain cs where cs: "unpack_code_loop ?w [0..<?n] bytes = Ok cs" "length cs = ?n"
    "\<forall>j < ?n. \<forall>n. bit (cs ! j) n \<longleftrightarrow> n < ?w \<and> bit_at bytes (j * ?w + n)"
    using unpack_code_loop_reads [of "[0..<?n]" ?w bytes] by auto
  have "cs = codes"
  proof (rule nth_equalityI)
    show "length cs = length codes" by fact
    fix i assume "i < length cs"
    then have i: "i < ?n" using cs(2) by simp
    have in_range: "bit_at (replicate m 0) (i * ?w + n) = False" if "n < ?w" for n
    proof -
      have "Suc i * ?w \<le> ?n * ?w" using i by (intro mult_le_mono1) simp
      then have "i * ?w + n < 8 * m" using that room by simp
      then show ?thesis by (simp add: bit_at_def less_mult_imp_div_less)
    qed
    have "bit (cs ! i) n \<longleftrightarrow> bit (codes ! i) n" for n
    proof -
      have "bit (codes ! i) n \<Longrightarrow> n < ?w" using level_count_bits le i by (meson nth_mem)
      moreover have "n < ?w \<Longrightarrow> bit_at bytes (i * ?w + n) \<longleftrightarrow> bit (codes ! i) n"
        using b(3) in_range mult_add_unique i by (metis add_0)
      ultimately show ?thesis using cs(3) i by blast
    qed
    then show "cs ! i = codes ! i" by (simp add: bit_eq_iff)
  qed
  then show ?thesis using b(1,2) cs(1) assms(1) by (simp add: pack_codes_def unpack_codes_def)
qed

section \<open>What the stores accept and return\<close>

lemma int8_code_range: "- 127 \<le> int8_code s v \<and> int8_code s v \<le> 127"
  using f32_clamped_range [of "3271426048" "1123942400" "- 127" 127 "- 128" 127]
  by (simp add: int8_code_def f32_small_ints)

lemma max_code_cases: "sat_sub (level_count bits) 1 \<in> {7, 15, 255}"
  by (cases bits) (simp_all add: level_count_def sat_sub_def)

lemma value_code_bound: "value_code (sat_sub (level_count bits) 1) mn s v < level_count bits"
proof -
  let ?m = "sat_sub (level_count bits) 1"
  have "0 \<le> f32_as_int 0 65535 (f32_clamp f32_zero (f32_of_int (int ?m)) x) \<and>
      f32_as_int 0 65535 (f32_clamp f32_zero (f32_of_int (int ?m)) x) \<le> int ?m" for x
    using max_code_cases [of bits]
      f32_clamped_range [of f32_zero "1088421888" 0 7 0 65535 x]
      f32_clamped_range [of f32_zero "1097859072" 0 15 0 65535 x]
      f32_clamped_range [of f32_zero "1132396544" 0 255 0 65535 x]
    by (auto simp: f32_small_ints)
  then have "value_code ?m mn s v \<le> ?m" by (auto simp: value_code_def nat_le_iff)
  moreover have "0 < level_count bits" by (simp add: level_count_def)
  ultimately show ?thesis by (simp add: sat_sub_def)
qed

lemma max_abs_loop_cases:
  "(\<exists>m. max_abs_loop vs acc = Ok m) \<and> (\<forall>v \<in> set vs. f32_is_finite v) \<or>
   max_abs_loop vs acc = Err NonFiniteValue \<and> \<not> (\<forall>v \<in> set vs. f32_is_finite v)"
  by (induction vs arbitrary: acc) auto

lemma row_bounds_loop_cases:
  "(\<exists>m. row_bounds_loop vs mn mx = Ok m) \<and> (\<forall>v \<in> set vs. f32_is_finite v) \<or>
   row_bounds_loop vs mn mx = Err NonFiniteValue \<and> \<not> (\<forall>v \<in> set vs. f32_is_finite v)"
  by (induction vs arbitrary: mn mx) auto

definition int8_codes_ok :: "nat \<Rightarrow> nat \<Rightarrow> int list \<Rightarrow> f32 list \<Rightarrow> bool" where
  "int8_codes_ok n rows codes scales \<longleftrightarrow>
     length codes = n \<and> length scales = rows \<and> (\<forall>c \<in> set codes. - 127 \<le> c \<and> c \<le> 127)"

lemma quantize_int8_row_loop_cases:
  "(\<exists>codes scales. quantize_int8_row_loop rs = Ok (codes, scales) \<and>
      int8_codes_ok (length (concat rs)) (length rs) codes scales) \<and>
      (\<forall>v \<in> set (concat rs). f32_is_finite v) \<or>
   quantize_int8_row_loop rs = Err NonFiniteValue \<and> \<not> (\<forall>v \<in> set (concat rs). f32_is_finite v)"
proof (induction rs)
  case Nil
  then show ?case by (simp add: int8_codes_ok_def)
next
  case (Cons r rs)
  show ?case
  proof (cases "\<forall>v \<in> set r. f32_is_finite v")
    case True
    then obtain m where m: "max_abs_loop r f32_zero = Ok m" using max_abs_loop_cases [of r f32_zero] by auto
    with Cons True show ?thesis by (auto simp: int8_codes_ok_def int8_code_range)
  next
    case False
    then have "max_abs_loop r f32_zero = Err NonFiniteValue" using max_abs_loop_cases [of r f32_zero] by auto
    with False show ?thesis by auto
  qed
qed

lemma quantize_int8_rows_ok:
  assumes "values \<noteq> []" and "0 < n" and "n dvd length values"
  shows "(\<exists>codes scales. quantize_int8_rows values n = Ok (codes, scales) \<and>
      int8_codes_ok (length values) (length values div n) codes scales) \<and>
      (\<forall>v \<in> set values. f32_is_finite v) \<or>
   quantize_int8_rows values n = Err NonFiniteValue \<and> \<not> (\<forall>v \<in> set values. f32_is_finite v)"
  using quantize_int8_row_loop_cases [of "chunks_exact n values"] chunks_exact_rows [OF assms(2,3)] assms
  by (simp add: quantize_int8_rows_def)

lemma length_concat_zip:
  assumes "\<And>r. r \<in> set rs \<Longrightarrow> length r = n" and "length ss = length rs"
  shows "length (concat (map (\<lambda>(r, s). map (f s) r) (zip rs ss))) = n * length rs"
  using assms by (induction rs arbitrary: ss) (auto simp: length_Suc_conv)

lemma dequantize_int8_rows_ok:
  assumes "int8_codes_ok m (m div n) codes scales" and "0 < n" and "n dvd m"
  shows "\<exists>vs. dequantize_int8_rows codes scales n = Ok vs \<and> length vs = m"
proof -
  note rows = chunks_exact_rows [OF assms(2), of codes]
  have len: "length codes = m" "length scales = m div n" using assms(1) by (simp_all add: int8_codes_ok_def)
  then have "length (concat (map (\<lambda>(r, s). map (\<lambda>code. f32_mul (f32_of_int code) s) r)
      (zip (chunks_exact n codes) scales))) = n * (m div n)"
    using length_concat_zip [of "chunks_exact n codes" n scales] rows assms(3) by simp
  then show ?thesis using len assms(2,3) by (simp add: dequantize_int8_rows_def)
qed

definition all_finite :: "f32 list \<Rightarrow> bool" where
  "all_finite vs \<longleftrightarrow> (\<forall>v \<in> set vs. f32_is_finite v)"

definition int8_block_ok :: "nat \<Rightarrow> nat \<Rightarrow> int8_kv_block \<Rightarrow> bool" where
  "int8_block_ok n m b \<longleftrightarrow>
     i8_vector_len b = n \<and> i8_token_count b = m div n \<and>
     int8_codes_ok m (m div n) (i8_key_codes b) (i8_key_scales b) \<and>
     int8_codes_ok m (m div n) (i8_value_codes b) (i8_value_scales b)"

lemma int8_store_update_block_cases:
  assumes "i < length (is_blocks s)" and "keys \<noteq> []" and "length keys = length values"
    and "0 < is_vector_len s" and "is_vector_len s dvd length keys"
  shows "(\<exists>b. int8_store_update_block i keys values s = Ok (s\<lparr>is_blocks := (is_blocks s)[i := Some b]\<rparr>) \<and>
       int8_kv_block_quantize keys values (is_vector_len s) = Ok b \<and>
       int8_block_ok (is_vector_len s) (length keys) b) \<and> all_finite (keys @ values) \<or>
     int8_store_update_block i keys values s = Err NonFiniteValue \<and> \<not> all_finite (keys @ values)"
proof -
  have "values \<noteq> []" using assms(2,3) by auto
  then show ?thesis
    using quantize_int8_rows_ok [OF assms(2,4,5)] quantize_int8_rows_ok [of "values" "is_vector_len s"] assms
    by (auto simp: int8_store_update_block_def int8_kv_block_quantize_def int8_block_ok_def all_finite_def)
qed

lemma int8_block_dequantizes:
  assumes "int8_block_ok n m b" and "0 < n" and "n dvd m"
  shows "\<exists>ks vs. int8_dequantize_keys b = Ok ks \<and> length ks = m \<and>
    int8_dequantize_values b = Ok vs \<and> length vs = m"
  using assms dequantize_int8_rows_ok [OF _ assms(2,3)]
  by (auto simp: int8_block_ok_def int8_dequantize_keys_def int8_dequantize_values_def)

text \<open>The packed value store.\<close>

definition value_rows_ok ::
  "kv_cache_value_quantization_bits \<Rightarrow> nat \<Rightarrow> nat \<Rightarrow> nat \<Rightarrow> quantized_value_row list \<Rightarrow> u8 list \<Rightarrow> bool" where
  "value_rows_ok bits n row_bytes k rows payload \<longleftrightarrow>
     length rows = k \<and> length payload = k * row_bytes \<and>
     (\<forall>i < k. \<exists>codes. length codes = n \<and>
        unpack_codes bits n (take row_bytes (drop (i * row_bytes) payload)) = Ok codes)"

lemma value_rows_ok_Cons:
  assumes "length packed = row_bytes" and "unpack_codes bits n packed = Ok codes" and "length codes = n"
    and "value_rows_ok bits n row_bytes k rows payload"
  shows "value_rows_ok bits n row_bytes (Suc k) (r # rows) (packed @ payload)"
  unfolding value_rows_ok_def
proof (intro conjI allI impI)
  fix i assume "i < Suc k"
  then show "\<exists>codes. length codes = n \<and>
      unpack_codes bits n (take row_bytes (drop (i * row_bytes) (packed @ payload))) = Ok codes"
    using assms by (cases i) (auto simp: value_rows_ok_def)
qed (use assms in \<open>auto simp: value_rows_ok_def\<close>)

lemma quantize_value_rows_cases:
  assumes "\<forall>r \<in> set rs. length r = n" and "quantization_payload_bytes bits n = Ok row_bytes"
  shows "(\<exists>rows payload. quantize_value_rows bits rs = Ok (rows, payload) \<and>
      value_rows_ok bits n row_bytes (length rs) rows payload) \<and> all_finite (concat rs) \<or>
   quantize_value_rows bits rs = Err NonFiniteValue \<and> \<not> all_finite (concat rs)"
  using assms(1)
proof (induction rs)
  case Nil
  then show ?case by (simp add: value_rows_ok_def all_finite_def)
next
  case (Cons r rs)
  show ?case
  proof (cases "all_finite r")
    case True
    then obtain mn mx where b: "row_bounds_loop r f32_infinity f32_neg_infinity = Ok (mn, mx)"
      using row_bounds_loop_cases [of r f32_infinity f32_neg_infinity] by (auto simp: all_finite_def)
    let ?m = "sat_sub (level_count bits) 1"
    let ?codes = "map (value_code ?m mn (value_row_scale ?m mn mx)) r"
    obtain packed where p: "pack_codes bits ?codes = Ok packed" "length packed = row_bytes"
      "unpack_codes bits n packed = Ok ?codes"
      using pack_codes_ok [of bits ?codes row_bytes] assms(2) Cons.prems value_code_bound by auto
    have "all_finite (concat (r # rs)) \<longleftrightarrow> all_finite (concat rs)" using True by (auto simp: all_finite_def)
    then show ?thesis
      using Cons b p value_rows_ok_Cons [OF p(2,3)] by (auto simp: Let_def)
  next
    case False
    then have "row_bounds_loop r f32_infinity f32_neg_infinity = Err NonFiniteValue"
      using row_bounds_loop_cases [of r f32_infinity f32_neg_infinity] by (auto simp: all_finite_def)
    then show ?thesis using False by (auto simp: all_finite_def)
  qed
qed

lemma dequantize_value_rows_ok:
  assumes "value_rows_ok bits n row_bytes k all payload" and "k * row_bytes \<le> u64_max"
    and "i + length rows = k"
  shows "\<exists>vs. dequantize_value_rows bits n row_bytes payload i rows = Ok vs \<and> length vs = n * length rows"
  using assms(3)
proof (induction rows arbitrary: i)
  case Nil
  then show ?case by simp
next
  case (Cons r rows)
  have i: "i < k" using Cons.prems by simp
  have le: "i * row_bytes + row_bytes \<le> k * row_bytes" using mult_le_mono1 [of "Suc i" k row_bytes] i by simp
  then have "i * row_bytes + row_bytes \<le> length payload" using assms(1) by (simp add: value_rows_ok_def)
  moreover obtain codes where "length codes = n"
    "unpack_codes bits n (take row_bytes (drop (i * row_bytes) payload)) = Ok codes"
    using assms(1) i by (auto simp: value_rows_ok_def)
  ultimately show ?case using Cons.IH [of "Suc i"] Cons.prems le assms(2)
    by (auto simp: checked_mul_def checked_add_def slice_range_def)
qed

definition value_block_ok :: "kv_cache_value_quantization_bits \<Rightarrow> nat \<Rightarrow> nat \<Rightarrow> quantized_value_block \<Rightarrow> bool" where
  "value_block_ok bits n m b \<longleftrightarrow>
     qb_bits b = bits \<and> qb_vector_len b = n \<and> qb_value_count b = m \<and>
     (\<exists>row_bytes. quantization_payload_bytes bits n = Ok row_bytes \<and>
        value_rows_ok bits n row_bytes (m div n) (qb_rows b) (qb_payload b))"

lemma payload_bytes_mono:
  assumes "quantization_payload_bytes bits m = Ok k" and "n \<le> m"
  shows "\<exists>j. quantization_payload_bytes bits n = Ok j"
proof -
  have "m * bit_width bits + 7 \<le> u64_max"
    using assms(1) by (auto simp: quantization_payload_bytes_def checked_mul_def checked_add_def split: if_splits option.splits)
  then have "n * bit_width bits + 7 \<le> u64_max" using mult_le_mono1 [OF assms(2), of "bit_width bits"] by linarith
  then show ?thesis by (simp add: quantization_payload_bytes_def checked_mul_def checked_add_def)
qed

lemma value_store_update_block_cases:
  assumes "i < length (qs_blocks s)" and "values \<noteq> []" and "0 < qs_vector_len s"
    and "qs_vector_len s dvd length values" and "length values * 8 + 7 \<le> u64_max"
  shows "(\<exists>b. value_store_update_block i values s = Ok (s\<lparr>qs_blocks := (qs_blocks s)[i := Some b]\<rparr>) \<and>
       quantized_value_block_quantize (qs_bits s) values (qs_vector_len s) = Ok b \<and>
       value_block_ok (qs_bits s) (qs_vector_len s) (length values) b) \<and> all_finite values \<or>
     value_store_update_block i values s = Err NonFiniteValue \<and> \<not> all_finite values"
proof -
  let ?n = "qs_vector_len s" and ?m = "length values"
  have "bit_width (qs_bits s) \<le> 8" by (cases "qs_bits s") simp_all
  then have "?m * bit_width (qs_bits s) \<le> ?m * 8" by (rule mult_le_mono2)
  then have "?m * bit_width (qs_bits s) + 7 \<le> u64_max" using assms(5) by linarith
  then obtain k where k: "quantization_payload_bytes (qs_bits s) ?m = Ok k"
    by (simp add: quantization_payload_bytes_def checked_mul_def checked_add_def)
  have "?n \<le> ?m" using assms(2,4) by (simp add: dvd_imp_le)
  then obtain row_bytes where rb: "quantization_payload_bytes (qs_bits s) ?n = Ok row_bytes"
    using payload_bytes_mono [OF k] by auto
  note rows = chunks_exact_rows [OF assms(3,4)]
  show ?thesis
    using quantize_value_rows_cases [of "chunks_exact ?n values" ?n "qs_bits s", OF _ rb] rows assms k rb
    by (auto simp: value_store_update_block_def quantized_value_block_quantize_def value_block_ok_def)
qed

lemma value_block_dequantizes:
  assumes "value_block_ok bits n m b" and "0 < n" and "n dvd m" and "m * 8 + 7 \<le> u64_max"
  shows "\<exists>vs. quantized_value_block_dequantize b = Ok vs \<and> length vs = m"
proof -
  obtain row_bytes where rb: "quantization_payload_bytes bits n = Ok row_bytes"
    "value_rows_ok bits n row_bytes (m div n) (qb_rows b) (qb_payload b)"
    and b: "qb_bits b = bits" "qb_vector_len b = n" "qb_value_count b = m"
    using assms(1) by (auto simp: value_block_ok_def)
  have "row_bytes \<le> n * 8"
  proof -
    have "bit_width bits \<le> 8" by (cases bits) simp_all
    then have "n * bit_width bits + 7 \<le> n * 8 + 7" by simp
    moreover have "row_bytes = (n * bit_width bits + 7) div 8"
      using rb(1) by (auto simp: quantization_payload_bytes_def checked_mul_def checked_add_def
          split: if_splits option.splits)
    ultimately have "row_bytes \<le> (n * 8 + 7) div 8" using div_le_mono by blast
    then show ?thesis by simp
  qed
  then have "m div n * row_bytes \<le> m div n * (n * 8)" by simp
  also have "\<dots> = m * 8" using assms(3) by (simp flip: mult.assoc)
  finally have le: "m div n * row_bytes \<le> u64_max" using assms(4) by simp
  moreover have "length (qb_rows b) = m div n" "length (qb_payload b) = m div n * row_bytes"
    using rb(2) by (simp_all add: value_rows_ok_def)
  moreover from this obtain vs where
    "dequantize_value_rows bits n row_bytes (qb_payload b) 0 (qb_rows b) = Ok vs" "length vs = n * (m div n)"
    using dequantize_value_rows_ok [OF rb(2) le, of 0 "qb_rows b"] by auto
  ultimately show ?thesis using rb b assms(2,3)
    by (simp add: quantized_value_block_dequantize_def checked_mul_def mult.commute)
qed

section \<open>Properties\<close>

text \<open>C31: Packing value codes is a round trip at every bit width: codes below the level count pack into exactly
  \<open>payload_bytes\<close> bytes, from which \<open>unpack_codes\<close> reads them back.\<close>

theorem packed_codes_roundtrip:
  assumes "quantization_payload_bytes bits (length codes) = Ok m"
    and "\<forall>c \<in> set codes. c < level_count bits"
  shows "\<exists>bytes. pack_codes bits codes = Ok bytes \<and> length bytes = m \<and>
    unpack_codes bits (length codes) bytes = Ok codes"
  using assms by (rule pack_codes_ok)

theorem packed_codes_roundtrip_witness:
  "\<exists>bytes. pack_codes Three [5, 7, 2] = Ok bytes \<and> length bytes = 2 \<and> unpack_codes Three (length [5 :: nat, 7, 2]) bytes = Ok [5, 7, 2]"
  by (rule packed_codes_roundtrip)
    (simp_all add: quantization_payload_bytes_def level_count_def checked_mul_def checked_add_def u64_max_def)

text \<open>C32: An int8 block is bounded and readable: updating a block with whole rows succeeds exactly when every
  value is finite, the stored codes are symmetric (between -127 and 127), and reading the block back gives
  as many values as were stored; the only other answer is the non-finite error.\<close>

theorem int8_update_block_bounds:
  assumes "i < length (is_blocks s)" and "keys \<noteq> []" and "length keys = length vals"
    and "0 < is_vector_len s" and "is_vector_len s dvd length keys"
  shows "case int8_store_update_block i keys vals s of
      Ok s' \<Rightarrow> all_finite (keys @ vals) \<and>
        (\<exists>b ks vs. int8_store_block s' i = Ok b \<and> (\<forall>c \<in> set (i8_key_codes b @ i8_value_codes b). - 127 \<le> c \<and> c \<le> 127) \<and>
           int8_store_dequantized_key_block s' i = Ok ks \<and> length ks = length keys \<and>
           int8_store_dequantized_value_block s' i = Ok vs \<and> length vs = length vals)
    | Err e \<Rightarrow> e = NonFiniteValue \<and> \<not> all_finite (keys @ vals)
    | Panic \<Rightarrow> False"
proof -
  consider b where "int8_store_update_block i keys vals s = Ok (s\<lparr>is_blocks := (is_blocks s)[i := Some b]\<rparr>)"
      "int8_block_ok (is_vector_len s) (length keys) b" "all_finite (keys @ vals)"
    | "int8_store_update_block i keys vals s = Err NonFiniteValue" "\<not> all_finite (keys @ vals)"
    using int8_store_update_block_cases [OF assms] by blast
  then show ?thesis
  proof cases
    case 1
    have "int8_store_block (s\<lparr>is_blocks := (is_blocks s)[i := Some b]\<rparr>) i = Ok b"
      using assms(1) by (simp add: int8_store_block_def)
    then show ?thesis using 1 int8_block_dequantizes [OF 1(2) assms(4,5)] assms(3)
      by (auto simp: int8_store_dequantized_key_block_def int8_store_dequantized_value_block_def int8_block_ok_def int8_codes_ok_def)
  qed simp
qed

theorem int8_update_block_bounds_witness:
  "case int8_store_update_block 0 [1065353216, 0] [0, 3212836864] \<lparr>is_vector_len = 2, is_blocks = [None]\<rparr> of
      Ok s' \<Rightarrow> all_finite ([1065353216, 0] @ [0, 3212836864]) \<and>
        (\<exists>b ks vs. int8_store_block s' 0 = Ok b \<and> (\<forall>c \<in> set (i8_key_codes b @ i8_value_codes b). - 127 \<le> c \<and> c \<le> 127) \<and>
           int8_store_dequantized_key_block s' 0 = Ok ks \<and> length ks = length [1065353216 :: f32, 0] \<and>
           int8_store_dequantized_value_block s' 0 = Ok vs \<and> length vs = length [0 :: f32, 3212836864])
    | Err e \<Rightarrow> e = NonFiniteValue \<and> \<not> all_finite ([1065353216, 0] @ [0, 3212836864])
    | Panic \<Rightarrow> False"
  by (rule int8_update_block_bounds) simp_all

end
