(* ===== verification/Layer_Cache.thy ===== *)
theory Layer_Cache
  imports Cache_Block Block_Table Kv_Quantization
begin

text \<open>
  The key/value cache of one decoder layer, crates/llm-kv-cache/src/layer.rs. Token rows live twice:
  in blocks of at most 256 tokens (\<open>Cache_Block\<close>), which caches share until one of them writes, and
  in two flat stages, each behind an \<open>Arc\<close>. Both are rings over \<open>max_tokens\<close> physical slots: the
  logical token \<open>i\<close> is in slot \<open>(window_start + i) mod max_tokens\<close>. The cache also keeps the
  list of runs of tokens that are contiguous in one block, and compressed copies of the blocks when
  its format asks for them.

  The state of an operation on \<open>&mut self\<close> is the cache together with the process state
  \<open>layer_world\<close>: the block world of \<open>Cache_Block\<close> and the store of stages. An operation returns the
  state also when it fails, since an error leaves what was already written. Trace events are left out.
\<close>

definition LAYER_KV_BLOCK_TOKENS :: nat where
  "LAYER_KV_BLOCK_TOKENS = 256"

record layer_kv_cache_block_run =
  br_block_index :: nat
  br_block_id :: block_id
  br_logical_token_start :: nat
  br_physical_token_start :: nat
  br_block_token_start :: nat
  br_token_count :: nat

record layer_kv_cache =
  lc_id :: nat
  lc_revision :: nat
  lc_config :: kv_cache_config
  lc_max_tokens :: nat
  lc_key_value_heads :: nat
  lc_head_dim :: nat
  lc_token_count :: nat
  lc_tokens_seen :: nat
  lc_window_start :: nat
  lc_block_table :: block_table
  lc_blocks :: "cache_block list"
  lc_active_block_runs :: "layer_kv_cache_block_run list"
  lc_key_stage :: nat
  lc_value_stage :: nat
  lc_key_contiguous_view :: "f32 list option"
  lc_value_contiguous_view :: "f32 list option"
  lc_int8_storage :: "layer_int8_kv_store option"
  lc_quantized_values :: "layer_quantized_value_store option"

record layer_world =
  lw_kv :: kv_world
  lw_stages :: "f32 list arc_heap"

record layer_state =
  ls_cache :: layer_kv_cache
  ls_world :: layer_world

record layer_kv_cache_append =
  la_token_index :: nat
  la_physical_token_index :: nat
  la_token_count :: nat
  la_tokens_seen :: nat
  la_revision :: nat

record layer_kv_cache_append_target =
  at_token_index :: nat
  at_physical_token_index :: nat
  at_previous_token_count :: nat

section \<open>Sequencing\<close>

text \<open>A fallible operation on a state, and \<open>?\<close>.\<close>

type_synonym ('s, 'a) op = "'s \<Rightarrow> 's \<times> (kv_cache_error, 'a) outcome"

definition and_do :: "('s, 'a) op \<Rightarrow> ('a \<Rightarrow> ('s, 'b) op) \<Rightarrow> ('s, 'b) op" where
  "and_do m f s =
     (case m s of
        (s', Ok a) \<Rightarrow> f a s'
      | (s', Err e) \<Rightarrow> (s', Err e)
      | (s', Panic) \<Rightarrow> (s', Panic))"

definition ok_or :: "kv_cache_error \<Rightarrow> 'a option \<Rightarrow> ('s, 'a) op" where
  "ok_or e r s = (s, case r of None \<Rightarrow> Err e | Some a \<Rightarrow> Ok a)"

definition returning :: "'a \<Rightarrow> ('s, 'a) op" where
  "returning a s = (s, Ok a)"

fun for_each :: "('i \<Rightarrow> ('s, unit) op) \<Rightarrow> 'i list \<Rightarrow> ('s, unit) op" where
  "for_each f [] = returning ()"
| "for_each f (i # is) = and_do (f i) (\<lambda>_. for_each f is)"

definition modify_cache :: "(layer_kv_cache \<Rightarrow> layer_kv_cache) \<Rightarrow> (layer_state, unit) op" where
  "modify_cache f s = (s\<lparr>ls_cache := f (ls_cache s)\<rparr>, Ok ())"

section \<open>Shapes\<close>

definition layer_vector_len :: "layer_kv_cache \<Rightarrow> nat" where
  "layer_vector_len c = wrap_mul (lc_key_value_heads c) (lc_head_dim c)"

definition layer_used_len :: "layer_kv_cache \<Rightarrow> nat" where
  "layer_used_len c = wrap_mul (lc_token_count c) (layer_vector_len c)"

definition layer_stage_storage_len :: "layer_kv_cache \<Rightarrow> nat" where
  "layer_stage_storage_len c = wrap_mul (lc_max_tokens c) (layer_vector_len c)"

definition layer_format :: "layer_kv_cache \<Rightarrow> kv_cache_format" where
  "layer_format c = cfg_format (lc_config c)"

definition layer_remaining_tokens :: "layer_kv_cache \<Rightarrow> nat" where
  "layer_remaining_tokens c = wrap_sub (lc_max_tokens c) (lc_token_count c)"

definition layer_physical_block_position :: "layer_kv_cache \<Rightarrow> nat \<Rightarrow> (nat \<times> nat) option" where
  "layer_physical_block_position c token_index =
     (if token_index \<ge> lc_max_tokens c then None
      else Some (token_index div LAYER_KV_BLOCK_TOKENS, token_index mod LAYER_KV_BLOCK_TOKENS))"

definition layer_physical_index :: "layer_kv_cache \<Rightarrow> nat \<Rightarrow> nat" where
  "layer_physical_index c token_index = wrap_add (lc_window_start c) token_index mod lc_max_tokens c"

definition layer_block_position :: "layer_kv_cache \<Rightarrow> nat \<Rightarrow> (nat \<times> nat) option" where
  "layer_block_position c token_index =
     (if token_index \<ge> lc_token_count c then None
      else layer_physical_block_position c (layer_physical_index c token_index))"

definition layer_validate_token_shape ::
  "layer_kv_cache \<Rightarrow> f32 list \<Rightarrow> f32 list \<Rightarrow> (kv_cache_error, unit) outcome" where
  "layer_validate_token_shape c key value =
     (if length key \<noteq> layer_vector_len c then Err (ShapeMismatch (layer_vector_len c) (length key))
      else if length value \<noteq> layer_vector_len c
      then Err (ShapeMismatch (layer_vector_len c) (length value))
      else Ok ())"

definition layer_validate_compressed_token_payload ::
  "layer_kv_cache \<Rightarrow> f32 list \<Rightarrow> f32 list \<Rightarrow> (kv_cache_error, unit) outcome" where
  "layer_validate_compressed_token_payload c key value =
     (if lc_quantized_values c = None \<and> lc_int8_storage c = None then Ok ()
      else if \<exists>v \<in> set (key @ value). \<not> f32_is_finite v then Err NonFiniteValue
      else Ok ())"

definition layer_validate_sliding_append ::
  "layer_kv_cache \<Rightarrow> f32 list \<Rightarrow> f32 list \<Rightarrow> (kv_cache_error, unit) outcome" where
  "layer_validate_sliding_append c key value =
     checks [layer_validate_token_shape c key value, layer_validate_compressed_token_payload c key value]"

definition layer_sliding_append_target ::
  "layer_kv_cache \<Rightarrow> (kv_cache_error, layer_kv_cache_append_target) outcome" where
  "layer_sliding_append_target c =
     (let (token_index, physical_token_index) =
            (if lc_token_count c < lc_max_tokens c then (lc_token_count c, lc_token_count c)
             else (wrap_sub (lc_max_tokens c) 1, lc_window_start c))
      in if physical_token_index \<ge> lc_max_tokens c then Err InvalidShape
         else Ok \<lparr>at_token_index = token_index, at_physical_token_index = physical_token_index,
                  at_previous_token_count = lc_token_count c\<rparr>)"

definition layer_int8_direct_append_token ::
  "layer_kv_cache \<Rightarrow> f32 list \<Rightarrow> f32 list \<Rightarrow> (kv_cache_error, layer_int8_kv_token option) outcome" where
  "layer_int8_direct_append_token c key value =
     (if layer_format c \<noteq> Int8 then Ok None
      else case layer_validate_sliding_append c key value of
             Ok _ \<Rightarrow>
               (case layer_int8_kv_token_quantize key value (layer_vector_len c) of
                  Ok t \<Rightarrow> Ok (Some t) | Err e \<Rightarrow> Err e | Panic \<Rightarrow> Panic)
           | Err e \<Rightarrow> Err e
           | Panic \<Rightarrow> Panic)"

section \<open>Construction\<close>

definition drop_block :: "cache_block \<Rightarrow> layer_world \<Rightarrow> layer_world" where
  "drop_block b w = w\<lparr>lw_kv := (lw_kv w)\<lparr>kw_heap := arc_drop (cb_storage b) (kw_heap (lw_kv w))\<rparr>\<rparr>"

definition drop_blocks :: "cache_block list \<Rightarrow> layer_world \<Rightarrow> layer_world" where
  "drop_blocks bs w = foldl (\<lambda>w b. drop_block b w) w bs"

text \<open>A cache that goes out of scope.\<close>

definition layer_drop :: "layer_kv_cache \<Rightarrow> layer_world \<Rightarrow> layer_world" where
  "layer_drop c w =
     (let w' = drop_blocks (lc_blocks c) w
      in w'\<lparr>lw_stages := arc_drop (lc_value_stage c) (arc_drop (lc_key_stage c) (lw_stages w'))\<rparr>)"

function new_blocks_loop ::
  "nat \<Rightarrow> nat \<Rightarrow> block_table \<Rightarrow> cache_block list \<Rightarrow> kv_world
     \<Rightarrow> kv_world \<times> cache_block list \<times> (kv_cache_error, block_table) outcome" where
  "new_blocks_loop remaining_tokens vector_len table blocks w =
     (if remaining_tokens = 0 then (w, blocks, Ok table)
      else let capacity_tokens = min remaining_tokens LAYER_KV_BLOCK_TOKENS
           in case cache_block_new capacity_tokens vector_len w of
                (w1, Ok b) \<Rightarrow>
                  (case block_table_append (cb_id b) table of
                     (t, Ok _) \<Rightarrow>
                       new_blocks_loop (remaining_tokens - capacity_tokens) vector_len t (blocks @ [b]) w1
                   | (t, Err e) \<Rightarrow> (w1, blocks @ [b], Err e)
                   | (t, Panic) \<Rightarrow> (w1, blocks @ [b], Panic))
              | (w1, Err e) \<Rightarrow> (w1, blocks, Err e)
              | (w1, Panic) \<Rightarrow> (w1, blocks, Panic))"
  by pat_completeness auto
termination by (relation "measure fst") (auto simp: LAYER_KV_BLOCK_TOKENS_def)

declare new_blocks_loop.simps [simp del]

definition div_ceil_blocks :: "nat \<Rightarrow> nat" where
  "div_ceil_blocks n = (n + LAYER_KV_BLOCK_TOKENS - 1) div LAYER_KV_BLOCK_TOKENS"

definition next_cache_id :: "layer_world \<Rightarrow> layer_world \<times> nat" where
  "next_cache_id w =
     (let n = kw_next_cache_id (lw_kv w)
      in (w\<lparr>lw_kv := (lw_kv w)\<lparr>kw_next_cache_id := wrap_add n 1\<rparr>\<rparr>, n))"

definition layer_new_with_config ::
  "nat \<Rightarrow> nat \<Rightarrow> nat \<Rightarrow> kv_cache_config \<Rightarrow> layer_world
     \<Rightarrow> layer_world \<times> (kv_cache_error, layer_kv_cache) outcome" where
  "layer_new_with_config max_tokens key_value_heads head_dim config w =
     (if max_tokens = 0 \<or> key_value_heads = 0 \<or> head_dim = 0 then (w, Err InvalidShape)
      else if cfg_format config = F16 then (w, Err (UnsupportedFormat (cfg_format config)))
      else case Option.bind (checked_mul key_value_heads head_dim)
                  (\<lambda>v. map_option (Pair v) (checked_mul max_tokens v)) of
        None \<Rightarrow> (w, Err InvalidShape)
      | Some (vector_len, storage_len) \<Rightarrow>
          (let block_count = div_ceil_blocks max_tokens
           in case new_blocks_loop max_tokens vector_len block_table_new [] (lw_kv w) of
                (k, blocks, Err e) \<Rightarrow> (drop_blocks blocks (w\<lparr>lw_kv := k\<rparr>), Err e)
              | (k, blocks, Panic) \<Rightarrow> (drop_blocks blocks (w\<lparr>lw_kv := k\<rparr>), Panic)
              | (k, blocks, Ok table) \<Rightarrow>
                  (let w1 = w\<lparr>lw_kv := k\<rparr>;
                       int8 = (if cfg_format config = Int8
                               then map_option Some (ok_of (int8_store_new block_count vector_len)) else Some None);
                       quantized = (case cfg_asymmetric_vq config of
                                      None \<Rightarrow> Some None
                                    | Some bits \<Rightarrow>
                                        map_option Some (ok_of (value_store_new block_count vector_len bits)))
                   in case (int8, quantized) of
                        (Some int8_storage, Some quantized_values) \<Rightarrow>
                          (let (w2, cid) = next_cache_id w1;
                               (ks, h1) = arc_new (replicate storage_len 0) (lw_stages w2);
                               (vs, h2) = arc_new (replicate storage_len 0) h1
                           in (w2\<lparr>lw_stages := h2\<rparr>,
                               Ok \<lparr>lc_id = cid, lc_revision = 0, lc_config = config,
                                   lc_max_tokens = max_tokens, lc_key_value_heads = key_value_heads,
                                   lc_head_dim = head_dim, lc_token_count = 0, lc_tokens_seen = 0,
                                   lc_window_start = 0, lc_block_table = table, lc_blocks = blocks,
                                   lc_active_block_runs = [], lc_key_stage = ks, lc_value_stage = vs,
                                   lc_key_contiguous_view = None, lc_value_contiguous_view = None,
                                   lc_int8_storage = int8_storage,
                                   lc_quantized_values = quantized_values\<rparr>))
                      | _ \<Rightarrow> (drop_blocks blocks w1, Err InvalidShape))))"

definition layer_new ::
  "nat \<Rightarrow> nat \<Rightarrow> nat \<Rightarrow> layer_world \<Rightarrow> layer_world \<times> (kv_cache_error, layer_kv_cache) outcome" where
  "layer_new max_tokens key_value_heads head_dim w =
     layer_new_with_config max_tokens key_value_heads head_dim kv_cache_config_f32 w"

text \<open>\<open>Clone\<close>: the blocks are cloned one after the other, each sharing its storage.\<close>

fun clone_blocks :: "cache_block list \<Rightarrow> kv_world \<Rightarrow> kv_world \<times> cache_block list" where
  "clone_blocks [] w = (w, [])"
| "clone_blocks (b # bs) w =
     (let (w1, b') = cache_block_clone b w; (w2, bs') = clone_blocks bs w1 in (w2, b' # bs'))"

definition layer_clone :: "layer_kv_cache \<Rightarrow> layer_world \<Rightarrow> layer_world \<times> layer_kv_cache" where
  "layer_clone c w =
     (let (w1, cid) = next_cache_id w;
          (k, blocks) = clone_blocks (lc_blocks c) (lw_kv w1);
          h = arc_clone (lc_value_stage c) (arc_clone (lc_key_stage c) (lw_stages w1))
      in (w1\<lparr>lw_kv := k, lw_stages := h\<rparr>,
          c\<lparr>lc_id := cid, lc_blocks := blocks, lc_key_contiguous_view := None,
            lc_value_contiguous_view := None\<rparr>))"

section \<open>Runs of active tokens\<close>

definition can_extend ::
  "layer_kv_cache_block_run \<Rightarrow> nat \<Rightarrow> block_id \<Rightarrow> nat \<Rightarrow> nat \<Rightarrow> nat \<Rightarrow> bool" where
  "can_extend r block_index block_id logical_token_index physical_token_index block_token_start \<longleftrightarrow>
     br_block_index r = block_index \<and> br_block_id r = block_id \<and>
     checked_add (br_logical_token_start r) (br_token_count r) = Some logical_token_index \<and>
     checked_add (br_physical_token_start r) (br_token_count r) = Some physical_token_index \<and>
     checked_add (br_block_token_start r) (br_token_count r) = Some block_token_start"

definition layer_append_active_block_run :: "nat \<Rightarrow> nat \<Rightarrow> (layer_state, unit) op" where
  "layer_append_active_block_run logical_token_index physical_token_index s =
     (let c = ls_cache s
      in case layer_physical_block_position c physical_token_index of
           None \<Rightarrow> (s, Err InvalidShape)
         | Some (block_index, block_token_start) \<Rightarrow>
             (case block_table_get (lc_block_table c) block_index of
                None \<Rightarrow> (s, Err InvalidShape)
              | Some block_id \<Rightarrow>
                  if block_index \<ge> length (lc_blocks c) then (s, Err InvalidShape)
                  else if cb_id (lc_blocks c ! block_index) \<noteq> block_id then (s, Err InvalidShape)
                  else
                    let runs = lc_active_block_runs c;
                        fresh = \<lparr>br_block_index = block_index, br_block_id = block_id,
                                 br_logical_token_start = logical_token_index,
                                 br_physical_token_start = physical_token_index,
                                 br_block_token_start = block_token_start, br_token_count = 1\<rparr>;
                        runs' = (if runs \<noteq> [] \<and>
                                    can_extend (last runs) block_index block_id logical_token_index
                                      physical_token_index block_token_start
                                 then butlast runs @
                                        [(last runs)\<lparr>br_token_count := wrap_add (br_token_count (last runs)) 1\<rparr>]
                                 else runs @ [fresh])
                    in (s\<lparr>ls_cache := c\<lparr>lc_active_block_runs := runs'\<rparr>\<rparr>, Ok ())))"

definition advance_run ::
  "layer_kv_cache_block_run \<Rightarrow> layer_kv_cache_block_run \<times> (kv_cache_error, unit) outcome" where
  "advance_run r =
     (case checked_add (br_physical_token_start r) 1 of
        None \<Rightarrow> (r, Err InvalidShape)
      | Some p \<Rightarrow>
          (let r1 = r\<lparr>br_physical_token_start := p\<rparr>
           in case checked_add (br_block_token_start r1) 1 of
                None \<Rightarrow> (r1, Err InvalidShape)
              | Some b \<Rightarrow>
                  (r1\<lparr>br_block_token_start := b, br_token_count := wrap_sub (br_token_count r1) 1\<rparr>, Ok ())))"

definition shift_run :: "layer_kv_cache_block_run \<Rightarrow> layer_kv_cache_block_run" where
  "shift_run r = r\<lparr>br_logical_token_start := sat_sub (br_logical_token_start r) 1\<rparr>"

definition layer_remove_oldest_active_block_token :: "(layer_state, unit) op" where
  "layer_remove_oldest_active_block_token s =
     (let c = ls_cache s
      in case lc_active_block_runs c of
           [] \<Rightarrow> (s, Err InvalidShape)
         | r # rs \<Rightarrow>
             if br_token_count r = 1
             then (s\<lparr>ls_cache := c\<lparr>lc_active_block_runs := map shift_run rs\<rparr>\<rparr>, Ok ())
             else case advance_run r of
                    (r', Ok _) \<Rightarrow> (s\<lparr>ls_cache := c\<lparr>lc_active_block_runs := map shift_run (r' # rs)\<rparr>\<rparr>, Ok ())
                  | (r', Err e) \<Rightarrow> (s\<lparr>ls_cache := c\<lparr>lc_active_block_runs := r' # rs\<rparr>\<rparr>, Err e)
                  | (r', Panic) \<Rightarrow> (s\<lparr>ls_cache := c\<lparr>lc_active_block_runs := r' # rs\<rparr>\<rparr>, Panic))"

definition refresh_run_id :: "nat \<Rightarrow> block_id \<Rightarrow> layer_kv_cache_block_run \<Rightarrow> layer_kv_cache_block_run" where
  "refresh_run_id block_index block_id r =
     (if br_block_index r = block_index then r\<lparr>br_block_id := block_id\<rparr> else r)"

definition layer_refresh_active_block_run_ids :: "nat \<Rightarrow> block_id \<Rightarrow> layer_kv_cache \<Rightarrow> layer_kv_cache" where
  "layer_refresh_active_block_run_ids block_index block_id c =
     c\<lparr>lc_active_block_runs := map (refresh_run_id block_index block_id) (lc_active_block_runs c)\<rparr>"

definition layer_rebuild_active_block_runs :: "(layer_state, unit) op" where
  "layer_rebuild_active_block_runs =
     and_do (modify_cache (\<lambda>c. c\<lparr>lc_active_block_runs := []\<rparr>))
       (\<lambda>_ s. for_each
          (\<lambda>i. layer_append_active_block_run i (layer_physical_index (ls_cache s) i))
          [0..<lc_token_count (ls_cache s)] s)"

section \<open>Blocks\<close>

text \<open>The first half of \<open>append_block_token\<close> and \<open>write_block_token\<close>: the block at an index, with an
  identity of its own and the table and the runs brought up to date.\<close>

definition layer_exclusive_block :: "nat \<Rightarrow> (layer_state, unit) op" where
  "layer_exclusive_block block_index s =
     (let c = ls_cache s; w = ls_world s
      in case block_table_get (lc_block_table c) block_index of
           None \<Rightarrow> (s, Err InvalidShape)
         | Some block_id \<Rightarrow>
             if block_index \<ge> length (lc_blocks c) then (s, Err InvalidShape)
             else if cb_id (lc_blocks c ! block_index) \<noteq> block_id then (s, Err InvalidShape)
             else
               (case ensure_exclusive_identity (lc_blocks c ! block_index) (lw_kv w) of
                  (b, k, r) \<Rightarrow>
                    (let c1 = c\<lparr>lc_blocks := (lc_blocks c)[block_index := b]\<rparr>; w1 = w\<lparr>lw_kv := k\<rparr>
                     in case r of
                          Err e \<Rightarrow> (s\<lparr>ls_cache := c1, ls_world := w1\<rparr>, Err e)
                        | Panic \<Rightarrow> (s\<lparr>ls_cache := c1, ls_world := w1\<rparr>, Panic)
                        | Ok _ \<Rightarrow>
                            if cb_id b = block_id then (s\<lparr>ls_cache := c1, ls_world := w1\<rparr>, Ok ())
                            else (case block_table_replace block_index (cb_id b) (lc_block_table c1) of
                                    (t, Ok _) \<Rightarrow>
                                      (s\<lparr>ls_cache := layer_refresh_active_block_run_ids block_index (cb_id b)
                                           (c1\<lparr>lc_block_table := t\<rparr>), ls_world := w1\<rparr>, Ok ())
                                  | (t, Err e) \<Rightarrow>
                                      (s\<lparr>ls_cache := c1\<lparr>lc_block_table := t\<rparr>, ls_world := w1\<rparr>, Err e)
                                  | (t, Panic) \<Rightarrow>
                                      (s\<lparr>ls_cache := c1\<lparr>lc_block_table := t\<rparr>, ls_world := w1\<rparr>, Panic)))))"

text \<open>\<open>self.blocks.get_mut(block_index)\<close> and an operation on the block.\<close>

definition layer_on_block ::
  "nat \<Rightarrow> (cache_block \<Rightarrow> kv_world \<Rightarrow> cache_block \<times> kv_world \<times> (kv_cache_error, 'a) outcome)
     \<Rightarrow> (layer_state, 'a) op" where
  "layer_on_block block_index f s =
     (let c = ls_cache s; w = ls_world s
      in if block_index \<ge> length (lc_blocks c) then (s, Err InvalidShape)
         else case f (lc_blocks c ! block_index) (lw_kv w) of
                (b, k, r) \<Rightarrow>
                  (s\<lparr>ls_cache := c\<lparr>lc_blocks := (lc_blocks c)[block_index := b]\<rparr>,
                     ls_world := w\<lparr>lw_kv := k\<rparr>\<rparr>, r))"

definition layer_refresh_int8_block :: "nat \<Rightarrow> (layer_state, unit) op" where
  "layer_refresh_int8_block block_index s =
     (let c = ls_cache s; k = lw_kv (ls_world s)
      in case lc_int8_storage c of
           None \<Rightarrow> (s, Ok ())
         | Some store \<Rightarrow>
             if block_index \<ge> length (lc_blocks c) then (s, Err InvalidShape)
             else if cb_token_count (lc_blocks c ! block_index) = 0 then (s, Ok ())
             else (case (cache_block_keys k (lc_blocks c ! block_index),
                         cache_block_values k (lc_blocks c ! block_index)) of
                     (Ok keys, Ok values) \<Rightarrow>
                       (case int8_store_update_block block_index keys values store of
                          Ok store' \<Rightarrow> (s\<lparr>ls_cache := c\<lparr>lc_int8_storage := Some store'\<rparr>\<rparr>, Ok ())
                        | Err e \<Rightarrow> (s, Err e)
                        | Panic \<Rightarrow> (s, Panic))
                   | _ \<Rightarrow> (s, Panic)))"

definition layer_refresh_quantized_block :: "nat \<Rightarrow> (layer_state, unit) op" where
  "layer_refresh_quantized_block block_index s =
     (let c = ls_cache s; k = lw_kv (ls_world s)
      in case lc_quantized_values c of
           None \<Rightarrow> (s, Ok ())
         | Some store \<Rightarrow>
             if block_index \<ge> length (lc_blocks c) then (s, Err InvalidShape)
             else if cb_token_count (lc_blocks c ! block_index) = 0 then (s, Ok ())
             else (case cache_block_values k (lc_blocks c ! block_index) of
                     Ok values \<Rightarrow>
                       (case value_store_update_block block_index values store of
                          Ok store' \<Rightarrow> (s\<lparr>ls_cache := c\<lparr>lc_quantized_values := Some store'\<rparr>\<rparr>, Ok ())
                        | Err e \<Rightarrow> (s, Err e)
                        | Panic \<Rightarrow> (s, Panic))
                   | _ \<Rightarrow> (s, Panic)))"

definition layer_append_block_token :: "nat \<Rightarrow> f32 list \<Rightarrow> f32 list \<Rightarrow> (layer_state, unit) op" where
  "layer_append_block_token token_index key value s =
     (case layer_physical_block_position (ls_cache s) token_index of
        None \<Rightarrow> (s, Err InvalidShape)
      | Some (block_index, expected_block_token_index) \<Rightarrow>
          and_do (layer_exclusive_block block_index) (\<lambda>_.
          and_do (layer_on_block block_index (cache_block_append key value)) (\<lambda>block_token_index.
          and_do (ok_or InvalidShape
                   (if block_token_index \<noteq> expected_block_token_index then None else Some ())) (\<lambda>_.
          and_do (layer_refresh_int8_block block_index) (\<lambda>_.
          layer_refresh_quantized_block block_index)))) s)"

definition layer_write_block_token :: "nat \<Rightarrow> f32 list \<Rightarrow> f32 list \<Rightarrow> (layer_state, unit) op" where
  "layer_write_block_token token_index key value s =
     (case layer_physical_block_position (ls_cache s) token_index of
        None \<Rightarrow> (s, Err InvalidShape)
      | Some (block_index, block_token_index) \<Rightarrow>
          and_do (layer_exclusive_block block_index) (\<lambda>_.
          and_do (layer_on_block block_index (cache_block_write_at block_token_index key value)) (\<lambda>_.
          and_do (layer_refresh_int8_block block_index) (\<lambda>_.
          layer_refresh_quantized_block block_index))) s)"

section \<open>Stages\<close>

text \<open>\<open>get_mut(start..end)\<close> with the shape checks before it; a key row that was copied stays copied when
  the value row does not fit.\<close>

definition copy_stage_token ::
  "f32 list \<Rightarrow> f32 list \<Rightarrow> nat \<Rightarrow> nat \<Rightarrow> f32 list \<Rightarrow> f32 list
     \<Rightarrow> f32 list \<times> f32 list \<times> (kv_cache_error, unit) outcome" where
  "copy_stage_token key_stage value_stage vector_len token_index key value =
     (if length key \<noteq> vector_len then (key_stage, value_stage, Err (ShapeMismatch vector_len (length key)))
      else if length value \<noteq> vector_len
      then (key_stage, value_stage, Err (ShapeMismatch vector_len (length value)))
      else case Option.bind (checked_mul token_index vector_len)
                  (\<lambda>start. map_option (Pair start) (checked_add start vector_len)) of
             None \<Rightarrow> (key_stage, value_stage, Err InvalidShape)
           | Some (start, stop) \<Rightarrow>
               (case copy_range start stop key key_stage of
                  None \<Rightarrow> (key_stage, value_stage, Err InvalidShape)
                | Some ks \<Rightarrow>
                    (case copy_range start stop value value_stage of
                       None \<Rightarrow> (ks, value_stage, Err InvalidShape)
                     | Some vs \<Rightarrow> (ks, vs, Ok ()))))"

definition layer_invalidate_contiguous_stage_views :: "layer_kv_cache \<Rightarrow> layer_kv_cache" where
  "layer_invalidate_contiguous_stage_views c =
     c\<lparr>lc_key_contiguous_view := None, lc_value_contiguous_view := None\<rparr>"

text \<open>\<open>Arc::make_mut\<close> on both stages and a function on their contents.\<close>

definition layer_on_stages ::
  "(f32 list \<Rightarrow> f32 list \<Rightarrow> f32 list \<times> f32 list \<times> (kv_cache_error, unit) outcome) \<Rightarrow> (layer_state, unit) op" where
  "layer_on_stages f s =
     (let c = ls_cache s; h = lw_stages (ls_world s)
      in case (arc_get h (lc_key_stage c), arc_get h (lc_value_stage c)) of
           (Some ks, Some vs) \<Rightarrow>
             (case f ks vs of
                (ks', vs', r) \<Rightarrow>
                  (let (ka, h1) = arc_make_mut (\<lambda>_. ks') (lc_key_stage c) h;
                       (va, h2) = arc_make_mut (\<lambda>_. vs') (lc_value_stage c) h1
                   in (s\<lparr>ls_cache := c\<lparr>lc_key_stage := ka, lc_value_stage := va\<rparr>,
                         ls_world := (ls_world s)\<lparr>lw_stages := h2\<rparr>\<rparr>, r)))
         | _ \<Rightarrow> (s, Panic))"

definition layer_write_stage_token :: "nat \<Rightarrow> f32 list \<Rightarrow> f32 list \<Rightarrow> (layer_state, unit) op" where
  "layer_write_stage_token token_index key value s =
     and_do (layer_on_stages (\<lambda>ks vs.
               copy_stage_token ks vs (layer_vector_len (ls_cache s)) token_index key value))
       (\<lambda>_. modify_cache layer_invalidate_contiguous_stage_views) s"

text \<open>One stage is zeroed in place when no other cache shares it, and replaced otherwise.\<close>

definition clear_stage :: "nat \<Rightarrow> f32 list arc_heap \<Rightarrow> nat \<times> f32 list arc_heap" where
  "clear_stage a h =
     (case arc_get h a of
        None \<Rightarrow> (a, h)
      | Some xs \<Rightarrow>
          if strong_count h a = 1 then arc_make_mut (\<lambda>xs. replicate (length xs) 0) a h
          else let (a', h') = arc_new (replicate (length xs) 0) h in (a', arc_drop a h'))"

definition layer_clear_stage_storage :: "layer_state \<Rightarrow> layer_state" where
  "layer_clear_stage_storage s =
     (let c = ls_cache s;
          (ka, h1) = clear_stage (lc_key_stage c) (lw_stages (ls_world s));
          (va, h2) = clear_stage (lc_value_stage c) h1
      in s\<lparr>ls_cache := layer_invalidate_contiguous_stage_views (c\<lparr>lc_key_stage := ka, lc_value_stage := va\<rparr>),
           ls_world := (ls_world s)\<lparr>lw_stages := h2\<rparr>\<rparr>)"

text \<open>\<open>contiguous_stage_view\<close>: a slice of the stage, or, when the window wraps, a copy that is kept in the
  \<open>OnceLock\<close> until the next write.\<close>

definition contiguous_stage_view ::
  "layer_kv_cache \<Rightarrow> f32 list \<Rightarrow> f32 list option \<Rightarrow> f32 list option \<times> (kv_cache_error, f32 list) outcome" where
  "contiguous_stage_view c storage view =
     (let vector_len = layer_vector_len c;
          start_token = lc_window_start c;
          first_token_count = wrap_sub (lc_max_tokens c) start_token;
          start = wrap_mul start_token vector_len;
          used_len = layer_used_len c
      in if lc_token_count c \<le> first_token_count
         then (view, case slice_range start (wrap_add start used_len) storage of None \<Rightarrow> Panic | Some xs \<Rightarrow> Ok xs)
         else case view of
                Some xs \<Rightarrow> (view, Ok xs)
              | None \<Rightarrow>
                  (let first_len = wrap_mul first_token_count vector_len;
                       second_len = wrap_sub used_len first_len
                   in case (slice_range start (wrap_add start first_len) storage, slice_range 0 second_len storage) of
                        (Some xs, Some ys) \<Rightarrow> (Some (xs @ ys), Ok (xs @ ys))
                      | _ \<Rightarrow> (None, Panic)))"

definition layer_keys :: "(layer_state, f32 list) op" where
  "layer_keys s =
     (let c = ls_cache s
      in case arc_get (lw_stages (ls_world s)) (lc_key_stage c) of
           None \<Rightarrow> (s, Panic)
         | Some ks \<Rightarrow>
             (case contiguous_stage_view c ks (lc_key_contiguous_view c) of
                (v, r) \<Rightarrow> (s\<lparr>ls_cache := c\<lparr>lc_key_contiguous_view := v\<rparr>\<rparr>, r)))"

definition layer_values :: "(layer_state, f32 list) op" where
  "layer_values s =
     (let c = ls_cache s
      in case arc_get (lw_stages (ls_world s)) (lc_value_stage c) of
           None \<Rightarrow> (s, Panic)
         | Some vs \<Rightarrow>
             (case contiguous_stage_view c vs (lc_value_contiguous_view c) of
                (v, r) \<Rightarrow> (s\<lparr>ls_cache := c\<lparr>lc_value_contiguous_view := v\<rparr>\<rparr>, r)))"

section \<open>Appending\<close>

definition layer_append_at_end_validated :: "f32 list \<Rightarrow> f32 list \<Rightarrow> (layer_state, layer_kv_cache_append) op" where
  "layer_append_at_end_validated key value s =
     (let c = ls_cache s; token_index = lc_token_count c
      in if lc_token_count c = lc_max_tokens c then (s, Err (CapacityExceeded 1 0))
         else
           and_do (ok_or InvalidShape (checked_add (lc_tokens_seen c) 1)) (\<lambda>tokens_seen.
           and_do (layer_append_block_token token_index key value) (\<lambda>_.
           and_do (layer_write_stage_token token_index key value) (\<lambda>_.
           and_do (layer_append_active_block_run token_index token_index) (\<lambda>_.
           and_do (modify_cache (\<lambda>c. c\<lparr>lc_token_count := wrap_add (lc_token_count c) 1,
                     lc_tokens_seen := tokens_seen, lc_revision := sat_add (lc_revision c) 1\<rparr>)) (\<lambda>_ s.
           returning \<lparr>la_token_index = token_index, la_physical_token_index = token_index,
                      la_token_count = lc_token_count (ls_cache s), la_tokens_seen = lc_tokens_seen (ls_cache s),
                      la_revision = lc_revision (ls_cache s)\<rparr> s))))) s)"

definition layer_append_with_metadata :: "f32 list \<Rightarrow> f32 list \<Rightarrow> (layer_state, layer_kv_cache_append) op" where
  "layer_append_with_metadata key value s =
     (case layer_validate_sliding_append (ls_cache s) key value of
        Err e \<Rightarrow> (s, Err e)
      | Panic \<Rightarrow> (s, Panic)
      | Ok _ \<Rightarrow>
          if lc_token_count (ls_cache s) = lc_max_tokens (ls_cache s) then (s, Err (CapacityExceeded 1 0))
          else layer_append_at_end_validated key value s)"

definition layer_append :: "f32 list \<Rightarrow> f32 list \<Rightarrow> (layer_state, nat) op" where
  "layer_append key value = and_do (layer_append_with_metadata key value) (\<lambda>a. returning (la_token_index a))"

definition layer_append_sliding_with_metadata ::
  "f32 list \<Rightarrow> f32 list \<Rightarrow> (layer_state, layer_kv_cache_append) op" where
  "layer_append_sliding_with_metadata key value s =
     (case layer_validate_sliding_append (ls_cache s) key value of
        Err e \<Rightarrow> (s, Err e)
      | Panic \<Rightarrow> (s, Panic)
      | Ok _ \<Rightarrow>
          (let c = ls_cache s; physical_token_index = lc_window_start c;
               token_index = wrap_sub (lc_max_tokens c) 1
           in if lc_token_count c < lc_max_tokens c then layer_append_at_end_validated key value s
              else
                and_do (ok_or InvalidShape (checked_add (lc_tokens_seen c) 1)) (\<lambda>tokens_seen.
                and_do (layer_write_block_token physical_token_index key value) (\<lambda>_.
                and_do (layer_write_stage_token physical_token_index key value) (\<lambda>_.
                and_do layer_remove_oldest_active_block_token (\<lambda>_.
                and_do (layer_append_active_block_run token_index physical_token_index) (\<lambda>_.
                and_do (modify_cache (\<lambda>c. c\<lparr>
                          lc_window_start := wrap_add (lc_window_start c) 1 mod lc_max_tokens c,
                          lc_tokens_seen := tokens_seen, lc_revision := sat_add (lc_revision c) 1\<rparr>)) (\<lambda>_ s.
                returning \<lparr>la_token_index = token_index, la_physical_token_index = physical_token_index,
                           la_token_count = lc_token_count (ls_cache s),
                           la_tokens_seen = lc_tokens_seen (ls_cache s),
                           la_revision = lc_revision (ls_cache s)\<rparr> s)))))) s))"

definition layer_append_sliding :: "f32 list \<Rightarrow> f32 list \<Rightarrow> (layer_state, nat) op" where
  "layer_append_sliding key value =
     and_do (layer_append_sliding_with_metadata key value) (\<lambda>a. returning (la_token_index a))"

fun clear_blocks :: "cache_block list \<Rightarrow> kv_world \<Rightarrow> cache_block list \<times> kv_world" where
  "clear_blocks [] w = ([], w)"
| "clear_blocks (b # bs) w =
     (let (b', w1) = cache_block_clear b w; (bs', w2) = clear_blocks bs w1 in (b' # bs', w2))"

definition layer_clear :: "layer_state \<Rightarrow> layer_state" where
  "layer_clear s =
     (let c = ls_cache s;
          (blocks, k) = clear_blocks (lc_blocks c) (lw_kv (ls_world s));
          s1 = s\<lparr>ls_cache := c\<lparr>lc_token_count := 0, lc_tokens_seen := 0, lc_window_start := 0,
                   lc_blocks := blocks,
                   lc_quantized_values := map_option value_store_clear (lc_quantized_values c),
                   lc_int8_storage := map_option int8_store_clear (lc_int8_storage c),
                   lc_active_block_runs := []\<rparr>,
                 ls_world := (ls_world s)\<lparr>lw_kv := k\<rparr>\<rparr>;
          s2 = layer_clear_stage_storage s1
      in s2\<lparr>ls_cache := (ls_cache s2)\<lparr>lc_revision := sat_add (lc_revision (ls_cache s2)) 1\<rparr>\<rparr>)"

section \<open>Reading\<close>

definition layer_read ::
  "(kv_world \<Rightarrow> cache_block \<Rightarrow> nat \<Rightarrow> (kv_cache_error, f32 list option) outcome)
     \<Rightarrow> nat \<Rightarrow> layer_state \<Rightarrow> (kv_cache_error, f32 list option) outcome" where
  "layer_read row_of token_index s =
     (let c = ls_cache s
      in case layer_block_position c token_index of
           None \<Rightarrow> Ok None
         | Some (block_index, block_token_index) \<Rightarrow>
             (case block_table_get (lc_block_table c) block_index of
                None \<Rightarrow> Ok None
              | Some block_id \<Rightarrow>
                  if block_index \<ge> length (lc_blocks c) then Ok None
                  else if cb_id (lc_blocks c ! block_index) \<noteq> block_id then Ok None
                  else row_of (lw_kv (ls_world s)) (lc_blocks c ! block_index) block_token_index))"

definition layer_key :: "nat \<Rightarrow> layer_state \<Rightarrow> (kv_cache_error, f32 list option) outcome" where
  "layer_key = layer_read cache_block_key"

definition layer_value :: "nat \<Rightarrow> layer_state \<Rightarrow> (kv_cache_error, f32 list option) outcome" where
  "layer_value = layer_read cache_block_value"

record layer_kv_cache_block =
  lb_block_id :: block_id
  lb_revision :: nat
  lb_logical_token_start :: nat
  lb_physical_token_start :: nat
  lb_block_token_start :: nat
  lb_token_count :: nat
  lb_vector_len :: nat
  lb_key_storage :: "f32 list"
  lb_value_storage :: "f32 list"

definition row_slice :: "layer_kv_cache_block \<Rightarrow> f32 list \<Rightarrow> f32 list option" where
  "row_slice b storage =
     (let start = wrap_mul (lb_block_token_start b) (lb_vector_len b)
      in slice_range start (wrap_add start (wrap_mul (lb_token_count b) (lb_vector_len b))) storage)"

definition layer_active_block ::
  "layer_state \<Rightarrow> layer_kv_cache_block_run \<Rightarrow> (kv_cache_error, layer_kv_cache_block) outcome" where
  "layer_active_block s r =
     (let c = ls_cache s
      in case block_table_get (lc_block_table c) (br_block_index r) of
           None \<Rightarrow> Err InvalidShape
         | Some block_id \<Rightarrow>
             if block_id \<noteq> br_block_id r then Err InvalidShape
             else if br_block_index r \<ge> length (lc_blocks c) then Err InvalidShape
             else if cb_id (lc_blocks c ! br_block_index r) \<noteq> block_id then Err InvalidShape
             else (case block_storage (lw_kv (ls_world s)) (lc_blocks c ! br_block_index r) of
                     None \<Rightarrow> Panic
                   | Some st \<Rightarrow>
                       Ok \<lparr>lb_block_id = block_id,
                           lb_revision = cb_revision (lc_blocks c ! br_block_index r),
                           lb_logical_token_start = br_logical_token_start r,
                           lb_physical_token_start = br_physical_token_start r,
                           lb_block_token_start = br_block_token_start r,
                           lb_token_count = br_token_count r, lb_vector_len = layer_vector_len c,
                           lb_key_storage = st_keys st, lb_value_storage = st_values st\<rparr>))"

fun collect_blocks :: "('r \<Rightarrow> (kv_cache_error, 'b) outcome) \<Rightarrow> 'r list \<Rightarrow> (kv_cache_error, 'b list) outcome" where
  "collect_blocks f [] = Ok []"
| "collect_blocks f (r # rs) =
     (case f r of
        Ok b \<Rightarrow> (case collect_blocks f rs of Ok bs \<Rightarrow> Ok (b # bs) | Err e \<Rightarrow> Err e | Panic \<Rightarrow> Panic)
      | Err e \<Rightarrow> Err e
      | Panic \<Rightarrow> Panic)"

definition layer_active_blocks :: "layer_state \<Rightarrow> (kv_cache_error, layer_kv_cache_block list) outcome" where
  "layer_active_blocks s = collect_blocks (layer_active_block s) (lc_active_block_runs (ls_cache s))"

end
