(* ===== verification/Layer_Ring.thy ===== *)
theory Layer_Ring
  imports Layer_Cache
begin

text \<open>
  The invariant of a layer cache and its preservation by every operation. The contents are given by one
  function \<open>R\<close> from physical slots to token rows: the blocks, the stages, the cached contiguous
  views and the compressed copies all agree with it on the slots in use, which are the slots below
  \<open>token_count\<close> because the window starts at slot 0 until the ring is full. The rows of the cache in
  logical order are \<open>layer_rows\<close>. \<open>H\<close> and \<open>SH\<close> are the multisets of block storages and stages that
  other caches, clones and prefix states hold; no operation changes what they read.
\<close>

type_synonym token_row = "f32 list \<times> f32 list"

section \<open>Lists and rows\<close>

definition others :: "nat \<Rightarrow> ('a \<Rightarrow> 'b) \<Rightarrow> 'a list \<Rightarrow> 'b multiset" where
  "others i f xs = mset (map f (take i xs @ drop (Suc i) xs))"

lemma mset_others: "i < length xs \<Longrightarrow> mset (map f xs) = add_mset (f (xs ! i)) (others i f xs)"
proof -
  assume "i < length xs"
  from id_take_nth_drop [OF this]
  have "mset (map f xs) = mset (map f (take i xs @ xs ! i # drop (Suc i) xs))" by (rule arg_cong)
  then show ?thesis by (simp add: others_def)
qed

lemma mset_others_update:
  "i < length xs \<Longrightarrow> mset (map f (xs[i := y])) = add_mset (f y) (others i f xs)"
  by (simp add: upd_conv_take_nth_drop others_def)

lemma others_member: "j < length xs \<Longrightarrow> j \<noteq> i \<Longrightarrow> f (xs ! j) \<in># others i f xs"
proof -
  assume j: "j < length xs" "j \<noteq> i"
  have "xs ! j \<in> set (take i xs @ drop (Suc i) xs)"
  proof (cases "j < i")
    case True
    then have "take i xs ! j = xs ! j" "j < length (take i xs)" using j by simp_all
    then show ?thesis by (metis Un_iff nth_mem set_append)
  next
    case False
    then have "drop (Suc i) xs ! (j - Suc i) = xs ! j" "j - Suc i < length (drop (Suc i) xs)"
      using j by auto
    then show ?thesis by (metis Un_iff nth_mem set_append)
  qed
  then show ?thesis by (auto simp: others_def)
qed

lemma concat_rows: "n * v \<le> length xs \<Longrightarrow> concat (map (row v xs) [0..<n]) = take (n * v) xs"
proof (induction n)
  case (Suc n)
  then have "concat (map (row v xs) [0..<Suc n]) = take (n * v) xs @ row v xs n" by simp
  also have "\<dots> = take (n * v) xs @ take v (drop (n * v) xs)" by (simp add: row_def)
  also have "\<dots> = take (n * v + v) xs" by (simp add: take_add)
  finally show ?case by (simp add: add.commute)
qed simp

lemma block_rows_cong:
  "arc_get (kw_heap k') (cb_storage b') = arc_get (kw_heap k) (cb_storage b) \<Longrightarrow>
   cb_vector_len b' = cb_vector_len b \<Longrightarrow> cb_token_count b' = cb_token_count b \<Longrightarrow>
   block_rows k' b' = block_rows k b"
  by (simp add: block_rows_def block_storage_def split: option.splits)

lemma cache_block_wf_cong:
  "arc_get (kw_heap k') (cb_storage b') = arc_get (kw_heap k) (cb_storage b) \<Longrightarrow>
   cb_vector_len b' = cb_vector_len b \<Longrightarrow> cb_token_count b' = cb_token_count b \<Longrightarrow>
   cb_capacity_tokens b' = cb_capacity_tokens b \<Longrightarrow> cache_block_wf k' b' = cache_block_wf k b"
  by (simp add: cache_block_wf_def cache_block_shape_def block_storage_def)

lemma cache_block_slices:
  assumes "cache_block_wf k b"
  shows "cache_block_keys k b = Ok (concat (map fst (block_rows k b)))"
    and "cache_block_values k b = Ok (concat (map snd (block_rows k b)))"
proof -
  obtain st where st: "block_storage k b = Some st"
    "storage_shape (cb_capacity_tokens b * cb_vector_len b) st"
    using assms by (rule cache_block_wf_storage)
  have sh: "cache_block_shape b" using assms by (simp add: cache_block_wf_def)
  let ?u = "cb_token_count b * cb_vector_len b"
  have u: "?u \<le> cb_capacity_tokens b * cb_vector_len b" using sh by (simp add: cache_block_shape_def)
  then have "?u \<le> u64_max" using sh unfolding cache_block_shape_def by linarith
  then have "cb_used_len b = ?u" by (simp add: cb_used_len_def wrap_mul_small)
  moreover have "concat (map fst (block_rows k b)) = take ?u (st_keys st)"
    "concat (map snd (block_rows k b)) = take ?u (st_values st)"
    using concat_rows [of "cb_token_count b" "cb_vector_len b" "st_keys st"]
      concat_rows [of "cb_token_count b" "cb_vector_len b" "st_values st"] u st
    by (simp_all add: block_rows_storage storage_shape_def comp_def)
  ultimately show "cache_block_keys k b = Ok (concat (map fst (block_rows k b)))"
    "cache_block_values k b = Ok (concat (map snd (block_rows k b)))"
    using st u by (simp_all add: cache_block_keys_def cache_block_values_def slice_range_def storage_shape_def)
qed

lemma cache_block_row_read:
  assumes "cache_block_wf k b"
  shows "cache_block_key k b i = Ok (if i < cb_token_count b then Some (fst (block_rows k b ! i)) else None)"
    and "cache_block_value k b i = Ok (if i < cb_token_count b then Some (snd (block_rows k b ! i)) else None)"
proof -
  obtain st where st: "block_storage k b = Some st"
    "storage_shape (cb_capacity_tokens b * cb_vector_len b) st"
    using assms by (rule cache_block_wf_storage)
  have sh: "cb_capacity_tokens b * cb_vector_len b \<le> u64_max" "cb_token_count b \<le> cb_capacity_tokens b"
    using assms by (simp_all add: cache_block_wf_def cache_block_shape_def)
  show "cache_block_key k b i = Ok (if i < cb_token_count b then Some (fst (block_rows k b ! i)) else None)"
    "cache_block_value k b i = Ok (if i < cb_token_count b then Some (snd (block_rows k b ! i)) else None)"
    using st sh row_start_stop [of i "cb_capacity_tokens b" "cb_vector_len b"]
      row_in_range [of i "cb_capacity_tokens b" "cb_vector_len b"]
    by (auto simp: cache_block_key_def cache_block_value_def token_slice_def slice_row block_rows_storage
        storage_shape_def)
qed

lemma row_lengths:
  assumes "cache_block_wf k b" and "i < cb_token_count b"
  shows "length (fst (block_rows k b ! i)) = cb_vector_len b" and "length (snd (block_rows k b ! i)) = cb_vector_len b"
proof -
  obtain st where st: "block_storage k b = Some st"
    "storage_shape (cb_capacity_tokens b * cb_vector_len b) st"
    using assms(1) by (rule cache_block_wf_storage)
  have "i < cb_capacity_tokens b" using assms by (simp add: cache_block_wf_def cache_block_shape_def)
  then show "length (fst (block_rows k b ! i)) = cb_vector_len b" "length (snd (block_rows k b ! i)) = cb_vector_len b"
    using st assms(2) row_in_range [of i "cb_capacity_tokens b" "cb_vector_len b"]
    by (simp_all add: block_rows_storage row_def storage_shape_def)
qed

section \<open>The invariant\<close>

text \<open>The tokens of block \<open>i\<close> when \<open>fill\<close> slots are in use, and the capacity of block \<open>i\<close>.\<close>

definition block_fill :: "nat \<Rightarrow> nat \<Rightarrow> nat" where
  "block_fill fill i = min 256 (fill - 256 * i)"

definition block_ok :: "kv_world \<Rightarrow> nat \<Rightarrow> nat \<Rightarrow> nat \<Rightarrow> (nat \<Rightarrow> token_row) \<Rightarrow> nat \<Rightarrow> cache_block \<Rightarrow> bool" where
  "block_ok k n v fill R i b \<longleftrightarrow>
     cache_block_wf k b \<and> cb_capacity_tokens b = block_fill n i \<and> cb_vector_len b = v \<and>
     block_rows k b = map (\<lambda>j. R (256 * i + j)) [0..<block_fill fill i]"

definition blocks_ok :: "kv_world \<Rightarrow> nat \<Rightarrow> nat \<Rightarrow> nat \<Rightarrow> (nat \<Rightarrow> token_row) \<Rightarrow> cache_block list \<Rightarrow> bool" where
  "blocks_ok k n v fill R blocks \<longleftrightarrow>
     length blocks = div_ceil_blocks n \<and> (\<forall>i < length blocks. block_ok k n v fill R i (blocks ! i))"

definition ids_ok :: "kv_world \<Rightarrow> block_table \<Rightarrow> cache_block list \<Rightarrow> bool" where
  "ids_ok k t blocks \<longleftrightarrow>
     bt_blocks t = map cb_id blocks \<and> distinct (map cb_id blocks) \<and>
     (\<forall>x \<in> set (map cb_id blocks). 0 < x \<and> x < kw_next_block_id k)"

definition stage_ok :: "nat \<Rightarrow> nat \<Rightarrow> nat \<Rightarrow> (nat \<Rightarrow> f32 list) \<Rightarrow> f32 list \<Rightarrow> bool" where
  "stage_ok n v fill R xs \<longleftrightarrow> length xs = n * v \<and> (\<forall>j < fill. row v xs j = R j)"

definition stages_ok :: "f32 list arc_heap \<Rightarrow> nat \<Rightarrow> nat \<Rightarrow> nat \<Rightarrow> (nat \<Rightarrow> token_row) \<Rightarrow> nat \<Rightarrow> nat \<Rightarrow> bool" where
  "stages_ok h n v fill R ka va \<longleftrightarrow>
     (\<exists>ks vs. arc_get h ka = Some ks \<and> arc_get h va = Some vs \<and>
        stage_ok n v fill (fst \<circ> R) ks \<and> stage_ok n v fill (snd \<circ> R) vs)"

definition slot :: "nat \<Rightarrow> nat \<Rightarrow> nat \<Rightarrow> nat" where
  "slot n ws i = (ws + i) mod n"

definition run_tokens :: "layer_kv_cache_block_run \<Rightarrow> (nat \<times> nat) list" where
  "run_tokens r = map (\<lambda>j. (br_logical_token_start r + j, br_physical_token_start r + j)) [0..<br_token_count r]"

definition run_ok :: "nat \<Rightarrow> block_table \<Rightarrow> layer_kv_cache_block_run \<Rightarrow> bool" where
  "run_ok n t r \<longleftrightarrow>
     0 < br_token_count r \<and> br_physical_token_start r + br_token_count r \<le> n \<and>
     br_block_index r = br_physical_token_start r div 256 \<and>
     br_block_token_start r = br_physical_token_start r mod 256 \<and>
     br_block_token_start r + br_token_count r \<le> 256 \<and>
     block_table_get t (br_block_index r) = Some (br_block_id r)"

definition runs_ok :: "nat \<Rightarrow> block_table \<Rightarrow> (nat \<times> nat) list \<Rightarrow> layer_kv_cache_block_run list \<Rightarrow> bool" where
  "runs_ok n t tokens runs \<longleftrightarrow> concat (map run_tokens runs) = tokens \<and> (\<forall>r \<in> set runs. run_ok n t r)"

definition window_tokens :: "nat \<Rightarrow> nat \<Rightarrow> nat \<Rightarrow> (nat \<times> nat) list" where
  "window_tokens n ws tc = map (\<lambda>i. (i, slot n ws i)) [0..<tc]"

text \<open>A compressed copy of a block is the quantisation of the block as it is, except for the blocks in \<open>X\<close>.\<close>

definition int8_ok ::
  "nat set \<Rightarrow> kv_world \<Rightarrow> nat \<Rightarrow> cache_block list \<Rightarrow> layer_int8_kv_store option \<Rightarrow> bool" where
  "int8_ok X k v blocks store \<longleftrightarrow>
     (case store of
        None \<Rightarrow> True
      | Some st \<Rightarrow>
          is_vector_len st = v \<and> length (is_blocks st) = length blocks \<and>
          (\<forall>i < length blocks. i \<notin> X \<longrightarrow>
             (if cb_token_count (blocks ! i) = 0 then is_blocks st ! i = None
              else \<exists>q. is_blocks st ! i = Some q \<and>
                     int8_kv_block_quantize (concat (map fst (block_rows k (blocks ! i))))
                       (concat (map snd (block_rows k (blocks ! i)))) v = Ok q)))"

definition quantized_ok ::
  "nat set \<Rightarrow> kv_world \<Rightarrow> nat \<Rightarrow> kv_cache_config \<Rightarrow> cache_block list \<Rightarrow> layer_quantized_value_store option \<Rightarrow> bool" where
  "quantized_ok X k v cfg blocks store \<longleftrightarrow>
     (case store of
        None \<Rightarrow> True
      | Some st \<Rightarrow>
          qs_vector_len st = v \<and> length (qs_blocks st) = length blocks \<and> cfg_asymmetric_vq cfg = Some (qs_bits st) \<and>
          (\<forall>i < length blocks. i \<notin> X \<longrightarrow>
             (if cb_token_count (blocks ! i) = 0 then qs_blocks st ! i = None
              else \<exists>q. qs_blocks st ! i = Some q \<and>
                     quantized_value_block_quantize (qs_bits st)
                       (concat (map snd (block_rows k (blocks ! i)))) v = Ok q)))"

definition compressed :: "layer_kv_cache \<Rightarrow> bool" where
  "compressed c \<longleftrightarrow> lc_int8_storage c \<noteq> None \<or> lc_quantized_values c \<noteq> None"

definition view_ok :: "f32 list option \<Rightarrow> f32 list list \<Rightarrow> bool" where
  "view_ok view rs \<longleftrightarrow> (case view of None \<Rightarrow> True | Some xs \<Rightarrow> xs = concat rs)"

definition rows_of :: "nat \<Rightarrow> nat \<Rightarrow> nat \<Rightarrow> (nat \<Rightarrow> token_row) \<Rightarrow> token_row list" where
  "rows_of n ws tc R = map (\<lambda>i. R (slot n ws i)) [0..<tc]"

definition shape_ok :: "layer_kv_cache \<Rightarrow> bool" where
  "shape_ok c \<longleftrightarrow>
     0 < lc_max_tokens c \<and> 0 < lc_key_value_heads c \<and> 0 < lc_head_dim c \<and>
     lc_max_tokens c * (lc_key_value_heads c * lc_head_dim c) * 8 + 7 \<le> u64_max"

definition window_ok :: "layer_kv_cache \<Rightarrow> bool" where
  "window_ok c \<longleftrightarrow>
     lc_token_count c \<le> lc_max_tokens c \<and> lc_window_start c < lc_max_tokens c \<and>
     (lc_token_count c < lc_max_tokens c \<longrightarrow> lc_window_start c = 0)"

definition block_side ::
  "nat set \<Rightarrow> nat set \<Rightarrow> nat multiset \<Rightarrow> nat \<Rightarrow> nat \<Rightarrow> kv_cache_config \<Rightarrow> nat \<Rightarrow> (nat \<Rightarrow> token_row)
     \<Rightarrow> kv_world \<Rightarrow> block_table \<Rightarrow> cache_block list
     \<Rightarrow> layer_int8_kv_store option \<Rightarrow> layer_quantized_value_store option \<Rightarrow> bool" where
  "block_side X Y H n v cfg fill R k t blocks ist qs \<longleftrightarrow>
     blocks_ok k n v fill R blocks \<and> ids_ok k t blocks \<and>
     arc_ok (kw_heap k) (mset (map cb_storage blocks) + H) \<and>
     int8_ok X k v blocks ist \<and> quantized_ok Y k v cfg blocks qs"

definition stage_side ::
  "nat multiset \<Rightarrow> nat \<Rightarrow> nat \<Rightarrow> nat \<Rightarrow> (nat \<Rightarrow> token_row) \<Rightarrow> f32 list arc_heap \<Rightarrow> nat \<Rightarrow> nat \<Rightarrow> bool" where
  "stage_side SH n v fill R h ka va \<longleftrightarrow>
     stages_ok h n v fill R ka va \<and> arc_ok h ({#ka, va#} + SH)"

definition layer_inv_at ::
  "nat multiset \<Rightarrow> nat multiset \<Rightarrow> (nat \<Rightarrow> token_row) \<Rightarrow> layer_state \<Rightarrow> bool" where
  "layer_inv_at H SH R s \<longleftrightarrow>
     (let c = ls_cache s; k = lw_kv (ls_world s); h = lw_stages (ls_world s);
          n = lc_max_tokens c; v = layer_vector_len c; tc = lc_token_count c;
          rows = rows_of n (lc_window_start c) tc R
      in shape_ok c \<and> window_ok c \<and>
         block_side {} {} H n v (lc_config c) tc R k (lc_block_table c) (lc_blocks c)
           (lc_int8_storage c) (lc_quantized_values c) \<and>
         stage_side SH n v tc R h (lc_key_stage c) (lc_value_stage c) \<and>
         runs_ok n (lc_block_table c) (window_tokens n (lc_window_start c) tc) (lc_active_block_runs c) \<and>
         (compressed c \<longrightarrow> (\<forall>j < tc. all_finite (fst (R j) @ snd (R j)))) \<and>
         view_ok (lc_key_contiguous_view c) (map fst rows) \<and>
         view_ok (lc_value_contiguous_view c) (map snd rows))"

definition layer_inv :: "nat multiset \<Rightarrow> nat multiset \<Rightarrow> token_row list \<Rightarrow> layer_state \<Rightarrow> bool" where
  "layer_inv H SH rows s \<longleftrightarrow>
     (\<exists>R. layer_inv_at H SH R s \<and>
        rows = rows_of (lc_max_tokens (ls_cache s)) (lc_window_start (ls_cache s)) (lc_token_count (ls_cache s)) R)"

section \<open>Blocks\<close>

lemma block_okD:
  assumes "blocks_ok k n v fill R blocks" and "i < length blocks" and "fill \<le> n"
  shows "cache_block_wf k (blocks ! i)" and "cb_capacity_tokens (blocks ! i) = block_fill n i"
    and "cb_vector_len (blocks ! i) = v" and "cb_token_count (blocks ! i) = block_fill fill i"
    and "block_rows k (blocks ! i) = map (\<lambda>j. R (256 * i + j)) [0..<block_fill fill i]"
proof -
  have *: "block_ok k n v fill R i (blocks ! i)" using assms by (simp add: blocks_ok_def)
  then show "cache_block_wf k (blocks ! i)" "cb_capacity_tokens (blocks ! i) = block_fill n i"
    "cb_vector_len (blocks ! i) = v"
    "block_rows k (blocks ! i) = map (\<lambda>j. R (256 * i + j)) [0..<block_fill fill i]"
    by (simp_all add: block_ok_def)
  then show "cb_token_count (blocks ! i) = block_fill fill i"
    using length_block_rows [of k "blocks ! i"] by simp
qed

lemma ids_okD:
  assumes "ids_ok k t blocks" and "i < length blocks"
  shows "block_table_get t i = Some (cb_id (blocks ! i))" and "cb_id (blocks ! i) < kw_next_block_id k"
    and "0 < cb_id (blocks ! i)"
  using assms by (auto simp: ids_ok_def block_table_get_def)

text \<open>A new identity for one block.\<close>

lemma ids_ok_fresh:
  assumes "ids_ok k t blocks" and "i < length blocks" and "cb_id b = kw_next_block_id k"
    and "kw_next_block_id k' = Suc (kw_next_block_id k)"
  shows "ids_ok k' (t\<lparr>bt_blocks := (bt_blocks t)[i := cb_id b]\<rparr>) (blocks[i := b])"
proof -
  let ?ids = "map cb_id blocks"
  have map: "map cb_id (blocks[i := b]) = ?ids[i := cb_id b]" by (simp add: map_update)
  have "kw_next_block_id k \<notin> set ?ids" using assms(1) by (auto simp: ids_ok_def)
  then have "distinct (?ids[i := cb_id b])"
    using assms(1,3) by (simp add: ids_ok_def distinct_list_update)
  moreover have "0 < kw_next_block_id k" using ids_okD [OF assms(1,2)] by simp
  then have "\<forall>x \<in> insert (cb_id b) (set ?ids). 0 < x \<and> x < kw_next_block_id k'"
    using assms(1,3,4) unfolding ids_ok_def by auto
  then have "\<forall>x \<in> set (?ids[i := cb_id b]). 0 < x \<and> x < kw_next_block_id k'"
    using set_update_subset_insert [of ?ids i "cb_id b"] by blast
  ultimately show ?thesis using assms(1) unfolding ids_ok_def map by simp
qed

lemma block_ok_cong:
  assumes "arc_get (kw_heap k') (cb_storage b') = arc_get (kw_heap k) (cb_storage b)"
    and "cb_vector_len b' = cb_vector_len b" and "cb_token_count b' = cb_token_count b"
    and "cb_capacity_tokens b' = cb_capacity_tokens b"
    and "block_fill fill' i = block_fill fill i"
    and "\<And>j. j < block_fill fill i \<Longrightarrow> R' (256 * i + j) = R (256 * i + j)"
    and "block_ok k n v fill R i b"
  shows "block_ok k' n v fill' R' i b'"
  using assms(7) unfolding block_ok_def block_rows_cong [OF assms(1-3)] cache_block_wf_cong [OF assms(1-4)]
  using assms(2,4-6) by auto

lemma int8_ok_frame:
  assumes "int8_ok X k v blocks st" and "length blocks' = length blocks"
    and "\<And>i. i < length blocks \<Longrightarrow> i \<notin> X' \<Longrightarrow>
      cb_token_count (blocks' ! i) = cb_token_count (blocks ! i) \<and> block_rows k' (blocks' ! i) = block_rows k (blocks ! i)"
    and "X \<subseteq> X'"
  shows "int8_ok X' k' v blocks' st"
  using assms by (auto simp: int8_ok_def split: option.splits)

lemma quantized_ok_frame:
  assumes "quantized_ok X k v cfg blocks st" and "length blocks' = length blocks"
    and "\<And>i. i < length blocks \<Longrightarrow> i \<notin> X' \<Longrightarrow>
      cb_token_count (blocks' ! i) = cb_token_count (blocks ! i) \<and> block_rows k' (blocks' ! i) = block_rows k (blocks ! i)"
    and "X \<subseteq> X'"
  shows "quantized_ok X' k' v cfg blocks' st"
  using assms by (auto simp: quantized_ok_def split: option.splits)

text \<open>Replacing the identity of a block, which keeps its storage and everything else.\<close>

lemma block_side_rename:
  assumes side: "block_side X Y H n v cfg fill R k t blocks ist qs" and i: "i < length blocks"
    and b: "b = (blocks ! i)\<lparr>cb_id := kw_next_block_id k, cb_shared := sh\<rparr>"
    and k': "k' = k\<lparr>kw_next_block_id := Suc (kw_next_block_id k)\<rparr>"
  shows "block_side X Y H n v cfg fill R k' (t\<lparr>bt_blocks := (bt_blocks t)[i := cb_id b]\<rparr>) (blocks[i := b]) ist qs"
proof -
  have same: "cb_token_count (blocks[i := b] ! j) = cb_token_count (blocks ! j) \<and>
      block_rows k' (blocks[i := b] ! j) = block_rows k (blocks ! j)" if "j < length blocks" for j
    using that i by (cases "j = i") (auto simp: b k' intro!: block_rows_cong)
  have "block_ok k' n v fill R j (blocks[i := b] ! j)" if j: "j < length blocks" for j
  proof (rule block_ok_cong [where k = k and b = "blocks ! j" and fill = fill and R = R])
    show "block_ok k n v fill R j (blocks ! j)" using side j by (simp add: block_side_def blocks_ok_def)
  qed (use i in \<open>cases "j = i"; simp add: b k'\<close>)+
  then have "blocks_ok k' n v fill R (blocks[i := b])"
    using side by (simp add: block_side_def blocks_ok_def)
  moreover have "ids_ok k' (t\<lparr>bt_blocks := (bt_blocks t)[i := cb_id b]\<rparr>) (blocks[i := b])"
    using side i by (intro ids_ok_fresh [where k = k]) (simp_all add: block_side_def b k')
  moreover have "mset (map cb_storage (blocks[i := b])) = mset (map cb_storage blocks)"
    using i by (simp only: mset_others_update mset_others) (simp add: b)
  moreover have "int8_ok X k' v (blocks[i := b]) ist"
    by (rule int8_ok_frame [where k = k and blocks = blocks and X = X]) (use side same in \<open>simp_all add: block_side_def\<close>)
  moreover have "quantized_ok Y k' v cfg (blocks[i := b]) qs"
    by (rule quantized_ok_frame [where k = k and blocks = blocks and X = Y]) (use side same in \<open>simp_all add: block_side_def\<close>)
  ultimately show ?thesis using side by (simp add: block_side_def k')
qed


text \<open>A change of the contents of one block through its own handle.\<close>

lemma block_side_rewrite:
  assumes side: "block_side X Y H n v cfg fill R k t blocks ist qs" and i: "i < length blocks"
    and ok: "arc_ok (kw_heap k') (add_mset (cb_storage b) (others i cb_storage blocks + H))"
    and keep: "\<forall>a \<in># others i cb_storage blocks + H. arc_get (kw_heap k') a = arc_get (kw_heap k) a"
    and b: "block_ok k' n v fill' R' i b" "cb_id b = cb_id (blocks ! i)"
    and k': "kw_next_block_id k' = kw_next_block_id k"
    and rest: "\<And>j. j < length blocks \<Longrightarrow> j \<noteq> i \<Longrightarrow> block_fill fill' j = block_fill fill j \<and>
      (\<forall>m < block_fill fill j. R' (256 * j + m) = R (256 * j + m))"
  shows "block_side (insert i X) (insert i Y) H n v cfg fill' R' k' t (blocks[i := b]) ist qs"
proof -
  have get: "arc_get (kw_heap k') (cb_storage (blocks ! j)) = arc_get (kw_heap k) (cb_storage (blocks ! j))"
    if "j < length blocks" "j \<noteq> i" for j
    using keep others_member [OF that, of cb_storage] by simp
  have same: "cb_token_count (blocks[i := b] ! j) = cb_token_count (blocks ! j) \<and>
      block_rows k' (blocks[i := b] ! j) = block_rows k (blocks ! j)" if "j < length blocks" "j \<notin> insert i Z" for j Z
    using that get [of j] by (auto intro!: block_rows_cong)
  have "block_ok k' n v fill' R' j (blocks[i := b] ! j)" if j: "j < length blocks" for j
  proof (cases "j = i")
    case True
    then show ?thesis using b(1) i by simp
  next
    case False
    then have old: "blocks[i := b] ! j = blocks ! j" by simp
    have "block_ok k n v fill R j (blocks ! j)" using side j by (simp add: block_side_def blocks_ok_def)
    then show ?thesis unfolding old
      by (rule block_ok_cong [OF get [OF j False] refl refl refl, rotated 2]) (use rest [OF j False] in auto)
  qed
  then have "blocks_ok k' n v fill' R' (blocks[i := b])"
    using side by (simp add: block_side_def blocks_ok_def)
  moreover have "map cb_id (blocks[i := b]) = map cb_id blocks"
    using b(2) i by (simp add: map_update list_update_same_conv)
  then have "ids_ok k' t (blocks[i := b])"
    using side k' unfolding block_side_def ids_ok_def by simp
  moreover have "mset (map cb_storage (blocks[i := b])) + H = add_mset (cb_storage b) (others i cb_storage blocks + H)"
    by (simp only: mset_others_update [OF i] union_mset_add_mset_left)
  moreover have "int8_ok (insert i X) k' v (blocks[i := b]) ist"
    by (rule int8_ok_frame [where k = k and blocks = blocks and X = X, OF _ _ same])
      (use side in \<open>auto simp: block_side_def\<close>)
  moreover have "quantized_ok (insert i Y) k' v cfg (blocks[i := b]) qs"
    by (rule quantized_ok_frame [where k = k and blocks = blocks and X = Y, OF _ _ same])
      (use side in \<open>auto simp: block_side_def\<close>)
  ultimately show ?thesis using ok by (simp add: block_side_def)
qed

lemma runs_ok_rename:
  assumes "runs_ok n t tokens runs" and "i < length (bt_blocks t)"
  shows "runs_ok n (t\<lparr>bt_blocks := (bt_blocks t)[i := bid]\<rparr>) tokens (map (refresh_run_id i bid) runs)"
proof -
  have "run_tokens (refresh_run_id i bid r) = run_tokens r" for r
    by (simp add: run_tokens_def refresh_run_id_def)
  then have "concat (map run_tokens (map (refresh_run_id i bid) runs)) = tokens"
    using assms(1) by (simp add: runs_ok_def comp_def)
  moreover have "run_ok n (t\<lparr>bt_blocks := (bt_blocks t)[i := bid]\<rparr>) (refresh_run_id i bid r)" if "run_ok n t r" for r
    using that assms(2) by (auto simp: run_ok_def refresh_run_id_def block_table_get_def split: if_splits)
  ultimately show ?thesis using assms(1) by (auto simp: runs_ok_def)
qed

lemma exclusive_block_ok:
  fixes s :: layer_state
  defines "c \<equiv> ls_cache s" and "w \<equiv> ls_world s"
  assumes side: "block_side X Y H n v cfg fill R (lw_kv w) (lc_block_table c) (lc_blocks c) ist qs"
    and i: "i < length (lc_blocks c)" and ids: "kw_next_block_id (lw_kv w) < u64_max"
    and runs: "runs_ok n (lc_block_table c) tokens (lc_active_block_runs c)"
  obtains bs t rs k where
    "layer_exclusive_block i s =
       (s\<lparr>ls_cache := c\<lparr>lc_blocks := bs, lc_block_table := t, lc_active_block_runs := rs\<rparr>,
          ls_world := w\<lparr>lw_kv := k\<rparr>\<rparr>, Ok ())"
    "block_side X Y H n v cfg fill R k t bs ist qs" "runs_ok n t tokens rs" "length bs = length (lc_blocks c)"
    "kw_heap k = kw_heap (lw_kv w)" "kw_next_block_id (lw_kv w) \<le> kw_next_block_id k"
    "kw_next_block_id k \<le> Suc (kw_next_block_id (lw_kv w))" "kw_next_cache_id k = kw_next_cache_id (lw_kv w)"
proof -
  let ?b = "lc_blocks c ! i" and ?k = "lw_kv w" and ?t = "lc_block_table c"
  have ok: "ids_ok ?k ?t (lc_blocks c)" using side by (simp add: block_side_def)
  note idf = ids_okD [OF ok i]
  show thesis
  proof (cases "cb_shared ?b \<or> strong_count (kw_heap ?k) (cb_storage ?b) > 1")
    case True
    let ?b' = "?b\<lparr>cb_id := kw_next_block_id ?k, cb_shared := False\<rparr>"
    let ?k' = "?k\<lparr>kw_next_block_id := Suc (kw_next_block_id ?k)\<rparr>"
    let ?t' = "?t\<lparr>bt_blocks := (bt_blocks ?t)[i := cb_id ?b']\<rparr>"
    have "ensure_exclusive_identity ?b ?k = (?b', ?k', Ok ())"
      using True idf ids by (simp add: ensure_exclusive_identity_def block_id_next_cases)
    moreover have len: "i < length (bt_blocks ?t)" using ok i by (simp add: ids_ok_def)
    ultimately have res: "layer_exclusive_block i s =
       (s\<lparr>ls_cache := c\<lparr>lc_blocks := (lc_blocks c)[i := ?b'], lc_block_table := ?t',
            lc_active_block_runs := map (refresh_run_id i (cb_id ?b')) (lc_active_block_runs c)\<rparr>,
          ls_world := w\<lparr>lw_kv := ?k'\<rparr>\<rparr>, Ok ())"
      using idf i by (simp add: layer_exclusive_block_def Let_def c_def [symmetric] w_def [symmetric]
          block_table_replace_def block_id_is_invalid_def layer_refresh_active_block_run_ids_def)
    show thesis
      by (rule that [OF res block_side_rename [OF side i refl refl] runs_ok_rename [OF runs len]]) simp_all
  next
    case False
    then have "ensure_exclusive_identity ?b ?k = (?b, ?k, Ok ())"
      by (simp add: ensure_exclusive_identity_def)
    then have res: "layer_exclusive_block i s =
       (s\<lparr>ls_cache := c\<lparr>lc_blocks := lc_blocks c, lc_block_table := ?t,
            lc_active_block_runs := lc_active_block_runs c\<rparr>, ls_world := w\<lparr>lw_kv := ?k\<rparr>\<rparr>, Ok ())"
      using idf i by (simp add: layer_exclusive_block_def Let_def c_def [symmetric] w_def [symmetric])
    show thesis by (rule that [OF res side runs]) simp_all
  qed
qed


section \<open>Compressed copies\<close>

definition finite_rows :: "nat \<Rightarrow> (nat \<Rightarrow> token_row) \<Rightarrow> bool" where
  "finite_rows fill R \<longleftrightarrow> (\<forall>j < fill. all_finite (fst (R j) @ snd (R j)))"

lemma block_contents:
  assumes "blocks_ok k n v fill R blocks" and "i < length blocks" and "fill \<le> n"
  defines "keys \<equiv> concat (map fst (block_rows k (blocks ! i)))"
    and "vals \<equiv> concat (map snd (block_rows k (blocks ! i)))"
  shows "length keys = block_fill fill i * v" and "length vals = block_fill fill i * v"
    and "finite_rows fill R \<Longrightarrow> all_finite (keys @ vals)"
    and "cache_block_keys k (blocks ! i) = Ok keys" and "cache_block_values k (blocks ! i) = Ok vals"
proof -
  note b = block_okD [OF assms(1-3)]
  have "concat (map f (block_rows k (blocks ! i))) = concat (map (\<lambda>j. f (block_rows k (blocks ! i) ! j)) [0..<block_fill fill i])"
    for f :: "token_row \<Rightarrow> f32 list"
    by (rule arg_cong [where f = concat]) (simp add: b(5) list_eq_iff_nth_eq)
  moreover have "length (concat (map (\<lambda>j. f (block_rows k (blocks ! i) ! j)) [0..<m])) = m * v"
    if "\<And>j. j < m \<Longrightarrow> length (f (block_rows k (blocks ! i) ! j)) = v" for f :: "token_row \<Rightarrow> f32 list" and m
    using that by (induction m) (simp_all add: algebra_simps)
  ultimately show "length keys = block_fill fill i * v" "length vals = block_fill fill i * v"
    using row_lengths [OF b(1)] b(3,4) unfolding keys_def vals_def by (metis (no_types, lifting))+
  show "cache_block_keys k (blocks ! i) = Ok keys" "cache_block_values k (blocks ! i) = Ok vals"
    using cache_block_slices [OF b(1)] by (simp_all add: keys_def vals_def)
  assume fin: "finite_rows fill R"
  have "256 * i + j < fill" if "j < block_fill fill i" for j using that unfolding block_fill_def by linarith
  then show "all_finite (keys @ vals)"
    using fin unfolding keys_def vals_def b(5) by (auto simp: finite_rows_def all_finite_def) blast+
qed

lemma refresh_int8_block_ok:
  fixes s :: layer_state
  defines "c \<equiv> ls_cache s" and "k \<equiv> lw_kv (ls_world s)"
  assumes side: "block_side {i} Y H n v cfg fill R k t (lc_blocks c) (lc_int8_storage c) qs"
    and i: "i < length (lc_blocks c)" and fill: "fill \<le> n" "0 < block_fill fill i" and v: "0 < v"
    and fin: "lc_int8_storage c \<noteq> None \<Longrightarrow> finite_rows fill R"
  obtains ist where "layer_refresh_int8_block i s = (s\<lparr>ls_cache := c\<lparr>lc_int8_storage := ist\<rparr>\<rparr>, Ok ())"
    "block_side {} Y H n v cfg fill R k t (lc_blocks c) ist qs" "ist = None \<longleftrightarrow> lc_int8_storage c = None"
proof (cases "lc_int8_storage c")
  case None
  have "layer_refresh_int8_block i s = (s\<lparr>ls_cache := c\<lparr>lc_int8_storage := lc_int8_storage c\<rparr>\<rparr>, Ok ())"
    using None by (simp add: layer_refresh_int8_block_def c_def Let_def)
  then show thesis by (rule that) (use side None in \<open>simp_all add: block_side_def int8_ok_def\<close>)
next
  case (Some st)
  have bs: "blocks_ok k n v fill R (lc_blocks c)" using side by (simp add: block_side_def)
  note b = block_okD [OF bs i fill(1)]
  let ?keys = "concat (map fst (block_rows k (lc_blocks c ! i)))"
  let ?vals = "concat (map snd (block_rows k (lc_blocks c ! i)))"
  note con = block_contents [OF bs i fill(1)]
  have st: "is_vector_len st = v" "length (is_blocks st) = length (lc_blocks c)"
    using side Some by (simp_all add: block_side_def int8_ok_def)
  have "?keys \<noteq> []" using con(1) fill(2) v by (metis length_0_conv mult_is_0 not_less_zero)
  then obtain q where q: "int8_store_update_block i ?keys ?vals st = Ok (st\<lparr>is_blocks := (is_blocks st)[i := Some q]\<rparr>)"
    "int8_kv_block_quantize ?keys ?vals v = Ok q"
    using int8_store_update_block_cases [of i st ?keys ?vals] con fin Some st i v by auto
  let ?st = "st\<lparr>is_blocks := (is_blocks st)[i := Some q]\<rparr>"
  have res: "layer_refresh_int8_block i s = (s\<lparr>ls_cache := c\<lparr>lc_int8_storage := Some ?st\<rparr>\<rparr>, Ok ())"
    using Some i b(4) fill(2) con(4,5) q(1)
    by (simp add: layer_refresh_int8_block_def c_def [symmetric] k_def [symmetric] Let_def)
  have old: "int8_ok {i} k v (lc_blocks c) (Some st)" using side Some by (simp add: block_side_def)
  have "int8_ok {} k v (lc_blocks c) (Some ?st)"
    unfolding int8_ok_def option.case
  proof (intro conjI allI impI)
    fix j assume j: "j < length (lc_blocks c)"
    show "if cb_token_count (lc_blocks c ! j) = 0 then is_blocks ?st ! j = None
          else \<exists>q. is_blocks ?st ! j = Some q \<and>
            int8_kv_block_quantize (concat (map fst (block_rows k (lc_blocks c ! j))))
              (concat (map snd (block_rows k (lc_blocks c ! j)))) v = Ok q"
    proof (cases "j = i")
      case True
      then show ?thesis using q(2) b(4) fill(2) i st by simp
    next
      case False
      then show ?thesis using old j by (simp add: int8_ok_def)
    qed
  qed (use st in simp_all)
  then show thesis by (intro that [OF res]) (use side Some in \<open>simp_all add: block_side_def\<close>)
qed

lemma refresh_quantized_block_ok:
  fixes s :: layer_state
  defines "c \<equiv> ls_cache s" and "k \<equiv> lw_kv (ls_world s)"
  assumes side: "block_side X {i} H n v cfg fill R k t (lc_blocks c) ist (lc_quantized_values c)"
    and i: "i < length (lc_blocks c)" and fill: "fill \<le> n" "0 < block_fill fill i" and v: "0 < v"
    and room: "n * v * 8 + 7 \<le> u64_max"
    and fin: "lc_quantized_values c \<noteq> None \<Longrightarrow> finite_rows fill R"
  obtains qs where "layer_refresh_quantized_block i s = (s\<lparr>ls_cache := c\<lparr>lc_quantized_values := qs\<rparr>\<rparr>, Ok ())"
    "block_side X {} H n v cfg fill R k t (lc_blocks c) ist qs" "qs = None \<longleftrightarrow> lc_quantized_values c = None"
proof (cases "lc_quantized_values c")
  case None
  have "layer_refresh_quantized_block i s = (s\<lparr>ls_cache := c\<lparr>lc_quantized_values := lc_quantized_values c\<rparr>\<rparr>, Ok ())"
    using None by (simp add: layer_refresh_quantized_block_def c_def Let_def)
  then show thesis by (rule that) (use side None in \<open>simp_all add: block_side_def quantized_ok_def\<close>)
next
  case (Some st)
  have bs: "blocks_ok k n v fill R (lc_blocks c)" using side by (simp add: block_side_def)
  note b = block_okD [OF bs i fill(1)]
  let ?vals = "concat (map snd (block_rows k (lc_blocks c ! i)))"
  note con = block_contents [OF bs i fill(1)]
  have st: "qs_vector_len st = v" "length (qs_blocks st) = length (lc_blocks c)"
    "cfg_asymmetric_vq cfg = Some (qs_bits st)"
    using side Some by (simp_all add: block_side_def quantized_ok_def)
  have "?vals \<noteq> []" using con(2) fill(2) v by (metis length_0_conv mult_is_0 not_less_zero)
  moreover have "block_fill fill i \<le> n" using fill(1) unfolding block_fill_def by linarith
  then have "length ?vals \<le> n * v" using con(2) by simp
  then have "length ?vals * 8 + 7 \<le> u64_max" using room by linarith
  moreover have "all_finite ?vals" using con(3) fin Some by (auto simp: all_finite_def)
  ultimately obtain q where q: "value_store_update_block i ?vals st = Ok (st\<lparr>qs_blocks := (qs_blocks st)[i := Some q]\<rparr>)"
    "quantized_value_block_quantize (qs_bits st) ?vals v = Ok q"
    using value_store_update_block_cases [of i st ?vals] con(2) st i v by auto
  let ?st = "st\<lparr>qs_blocks := (qs_blocks st)[i := Some q]\<rparr>"
  have res: "layer_refresh_quantized_block i s = (s\<lparr>ls_cache := c\<lparr>lc_quantized_values := Some ?st\<rparr>\<rparr>, Ok ())"
    using Some i b(4) fill(2) con(5) q(1)
    by (simp add: layer_refresh_quantized_block_def c_def [symmetric] k_def [symmetric] Let_def)
  have old: "quantized_ok {i} k v cfg (lc_blocks c) (Some st)" using side Some by (simp add: block_side_def)
  have "quantized_ok {} k v cfg (lc_blocks c) (Some ?st)"
    unfolding quantized_ok_def option.case
  proof (intro conjI allI impI)
    fix j assume j: "j < length (lc_blocks c)"
    show "if cb_token_count (lc_blocks c ! j) = 0 then qs_blocks ?st ! j = None
          else \<exists>q. qs_blocks ?st ! j = Some q \<and>
            quantized_value_block_quantize (qs_bits ?st)
              (concat (map snd (block_rows k (lc_blocks c ! j)))) v = Ok q"
    proof (cases "j = i")
      case True
      then show ?thesis using q(2) b(4) fill(2) i st by simp
    next
      case False
      then show ?thesis using old j by (simp add: quantized_ok_def)
    qed
  qed (use st in simp_all)
  then show thesis by (intro that [OF res]) (use side Some in \<open>simp_all add: block_side_def\<close>)
qed


lemma refresh_both_ok:
  fixes s :: layer_state
  defines "c \<equiv> ls_cache s" and "k \<equiv> lw_kv (ls_world s)"
  assumes side: "block_side {i} {i} H n v cfg fill R k t (lc_blocks c) (lc_int8_storage c) (lc_quantized_values c)"
    and i: "i < length (lc_blocks c)" and fill: "fill \<le> n" "0 < block_fill fill i" and v: "0 < v"
    and room: "n * v * 8 + 7 \<le> u64_max"
    and fin: "compressed c \<Longrightarrow> finite_rows fill R"
  obtains ist qs where
    "and_do (layer_refresh_int8_block i) (\<lambda>_. layer_refresh_quantized_block i) s =
       (s\<lparr>ls_cache := c\<lparr>lc_int8_storage := ist, lc_quantized_values := qs\<rparr>\<rparr>, Ok ())"
    "block_side {} {} H n v cfg fill R k t (lc_blocks c) ist qs"
    "ist = None \<longleftrightarrow> lc_int8_storage c = None" "qs = None \<longleftrightarrow> lc_quantized_values c = None"
proof -
  obtain ist where a: "layer_refresh_int8_block i s = (s\<lparr>ls_cache := c\<lparr>lc_int8_storage := ist\<rparr>\<rparr>, Ok ())"
    "block_side {} {i} H n v cfg fill R k t (lc_blocks c) ist (lc_quantized_values c)"
    "ist = None \<longleftrightarrow> lc_int8_storage c = None"
    by (rule refresh_int8_block_ok [where s = s and i = i and Y = "{i}" and H = H and n = n and v = v and cfg = cfg
          and fill = fill and R = R and t = t and qs = "lc_quantized_values c", folded c_def k_def])
      (use side i fill v fin in \<open>auto simp: compressed_def\<close>)
  let ?s = "s\<lparr>ls_cache := c\<lparr>lc_int8_storage := ist\<rparr>\<rparr>"
  obtain qs where b: "layer_refresh_quantized_block i ?s = (?s\<lparr>ls_cache := (ls_cache ?s)\<lparr>lc_quantized_values := qs\<rparr>\<rparr>, Ok ())"
    "block_side {} {} H n v cfg fill R (lw_kv (ls_world ?s)) t (lc_blocks (ls_cache ?s)) ist qs"
    "qs = None \<longleftrightarrow> lc_quantized_values (ls_cache ?s) = None"
    by (rule refresh_quantized_block_ok [where s = ?s and i = i and X = "{}" and H = H and n = n and v = v
          and cfg = cfg and fill = fill and R = R and t = t and ist = ist])
      (use a(2) i fill v room fin in \<open>auto simp: compressed_def k_def\<close>)
  show thesis by (rule that [where ist = ist and qs = qs]) (use a b in \<open>simp_all add: and_do_def k_def\<close>)
qed

section \<open>Writing a token into its block\<close>

lemma block_fill_facts:
  "p < n \<Longrightarrow> p div 256 < div_ceil_blocks n"
  "p < n \<Longrightarrow> p mod 256 < block_fill n (p div 256)"
  "block_fill p (p div 256) = p mod 256"
  "block_fill (Suc p) (p div 256) = Suc (p mod 256)"
  "j \<noteq> p div 256 \<Longrightarrow> block_fill (Suc p) j = block_fill p j"
proof -
  define i r where "i = p div 256" and "r = p mod 256"
  then have ir: "i = p div 256" "r = p mod 256" "p = 256 * i + r" "r < 256" by simp_all
  show "block_fill p (p div 256) = p mod 256" "block_fill (Suc p) (p div 256) = Suc (p mod 256)"
    unfolding ir(1,2) [symmetric] using ir(3,4) by (simp_all add: block_fill_def)
  show "p mod 256 < block_fill n (p div 256)" if "p < n"
    unfolding ir(1,2) [symmetric] using ir(3,4) that by (simp add: block_fill_def)
  show "block_fill (Suc p) j = block_fill p j" if "j \<noteq> p div 256"
  proof -
    have "j < i \<or> i < j" using that ir(1) by linarith
    then show ?thesis using ir(3,4) unfolding block_fill_def by linarith
  qed
  show "p div 256 < div_ceil_blocks n" if "p < n"
    using div_le_mono [of "p + 256" "n + 255" 256] that
    by (simp add: div_ceil_blocks_def LAYER_KV_BLOCK_TOKENS_def)
qed

lemma layer_position:
  "p < lc_max_tokens c \<Longrightarrow> layer_physical_block_position c p = Some (p div 256, p mod 256)"
  by (simp add: layer_physical_block_position_def LAYER_KV_BLOCK_TOKENS_def)

lemma slot_in_block: "p div 256 \<noteq> j \<Longrightarrow> m < 256 \<Longrightarrow> 256 * j + m \<noteq> (p::nat)"
  by auto

lemma write_rows_fields:
  "write_token_rows i key val b w = Some (b', w') \<Longrightarrow>
   b' = b\<lparr>cb_storage := cb_storage b'\<rparr> \<and> w' = w\<lparr>kw_heap := kw_heap w'\<rparr>"
  by (auto simp: write_token_rows_def Let_def split: option.splits prod.splits)

lemma append_fields:
  assumes "cache_block_append key val b w = (b', w', r)"
  shows "cb_capacity_tokens b' = cb_capacity_tokens b" and "cb_vector_len b' = cb_vector_len b"
    and "kw_next_block_id w' = kw_next_block_id w" and "kw_next_cache_id w' = kw_next_cache_id w"
proof -
  have "cb_capacity_tokens b' = cb_capacity_tokens b \<and> cb_vector_len b' = cb_vector_len b \<and>
    kw_next_block_id w' = kw_next_block_id w \<and> kw_next_cache_id w' = kw_next_cache_id w"
  proof (cases "write_token_rows (cb_token_count b) key val b w")
    case None
    then show ?thesis using assms by (auto simp: cache_block_append_def split: outcome.splits if_splits)
  next
    case (Some a)
    obtain b1 w1 where a: "a = (b1, w1)" by fastforce
    obtain x y where "b1 = b\<lparr>cb_storage := x\<rparr>" "w1 = w\<lparr>kw_heap := y\<rparr>"
      using write_rows_fields [OF Some [unfolded a]] by blast
    with Some a assms show ?thesis
      by (auto simp: cache_block_append_def split: outcome.splits if_splits)
  qed
  then show "cb_capacity_tokens b' = cb_capacity_tokens b" "cb_vector_len b' = cb_vector_len b"
    "kw_next_block_id w' = kw_next_block_id w" "kw_next_cache_id w' = kw_next_cache_id w" by simp_all
qed

lemma append_block_token_ok:
  fixes s :: layer_state
  defines "c \<equiv> ls_cache s" and "w \<equiv> ls_world s"
  assumes side: "block_side {} {} H n v cfg p R (lw_kv w) (lc_block_table c) (lc_blocks c)
      (lc_int8_storage c) (lc_quantized_values c)"
    and p: "p < n" "n = lc_max_tokens c" and ids: "kw_next_block_id (lw_kv w) < u64_max"
    and runs: "runs_ok n (lc_block_table c) tokens (lc_active_block_runs c)"
    and len: "length key = v" "length val = v" and v: "0 < v" "n * v * 8 + 7 \<le> u64_max"
    and fin: "compressed c \<Longrightarrow> finite_rows (Suc p) (R(p := (key, val)))"
  obtains bs t rs k ist qs where
    "layer_append_block_token p key val s =
       (s\<lparr>ls_cache := c\<lparr>lc_blocks := bs, lc_block_table := t, lc_active_block_runs := rs,
          lc_int8_storage := ist, lc_quantized_values := qs\<rparr>, ls_world := w\<lparr>lw_kv := k\<rparr>\<rparr>, Ok ())"
    "block_side {} {} H n v cfg (Suc p) (R(p := (key, val))) k t bs ist qs" "runs_ok n t tokens rs"
    "\<forall>a \<in># H. arc_get (kw_heap k) a = arc_get (kw_heap (lw_kv w)) a"
    "kw_next_block_id k \<le> Suc (kw_next_block_id (lw_kv w))"
    "ist = None \<longleftrightarrow> lc_int8_storage c = None" "qs = None \<longleftrightarrow> lc_quantized_values c = None"
proof -
  let ?i = "p div 256" and ?R = "R(p := (key, val))"
  have i: "?i < length (lc_blocks c)"
    using side block_fill_facts(1) [OF p(1)] by (simp add: block_side_def blocks_ok_def)
  obtain bs t rs k where e:
    "layer_exclusive_block ?i s =
       (s\<lparr>ls_cache := c\<lparr>lc_blocks := bs, lc_block_table := t, lc_active_block_runs := rs\<rparr>,
          ls_world := w\<lparr>lw_kv := k\<rparr>\<rparr>, Ok ())"
    "block_side {} {} H n v cfg p R k t bs (lc_int8_storage c) (lc_quantized_values c)" "runs_ok n t tokens rs"
    "length bs = length (lc_blocks c)" "kw_heap k = kw_heap (lw_kv w)"
    "kw_next_block_id k \<le> Suc (kw_next_block_id (lw_kv w))"
    by (rule exclusive_block_ok [where s = s and X = "{}" and Y = "{}" and H = H and n = n and v = v and cfg = cfg
          and fill = p and R = R and ist = "lc_int8_storage c" and qs = "lc_quantized_values c" and i = ?i
          and tokens = tokens, folded c_def w_def]) (use side i ids runs in simp_all)
  have i': "?i < length bs" using i e(4) by simp
  have bs: "blocks_ok k n v p R bs" using e(2) by (simp add: block_side_def)
  note b = block_okD [OF bs i' less_imp_le [OF p(1)]]
  have heap: "arc_ok (kw_heap k) (add_mset (cb_storage (bs ! ?i)) (others ?i cb_storage bs + H))"
    using e(2) mset_others [OF i', of cb_storage] by (simp add: block_side_def)
  obtain b1 k1 r where ap: "cache_block_append key val (bs ! ?i) k = (b1, k1, r)" by (metis prod_cases3)
  have room: "cb_token_count (bs ! ?i) < cb_capacity_tokens (bs ! ?i)"
    using b(2,4) p(1) block_fill_facts(2) [OF p(1)] block_fill_facts(3) [of p] by simp
  note a = cache_block_append_ok [OF b(1) heap room _ _ ap]
  have lens: "length key = cb_vector_len (bs ! ?i)" "length val = cb_vector_len (bs ! ?i)"
    using b(3) len p(1) by simp_all
  have fields: "cb_capacity_tokens b1 = cb_capacity_tokens (bs ! ?i)" "cb_vector_len b1 = cb_vector_len (bs ! ?i)"
    "kw_next_block_id k1 = kw_next_block_id k"
    using append_fields [OF ap] by simp_all
  have "256 * ?i + x \<noteq> p" if "x < p mod 256" for x
    using that by (metis add_left_cancel less_irrefl mult_div_mod_eq)
  then have "block_rows k1 b1 = map (\<lambda>j. ?R (256 * ?i + j)) [0..<block_fill (Suc p) ?i]"
    using a(3) lens b(5) p(1) block_fill_facts(3,4) [of p] by auto
  then have bok: "block_ok k1 n v (Suc p) ?R ?i b1"
    using a(2) lens b(2,3) p(1) fields by (simp add: block_ok_def)
  let ?s1 = "s\<lparr>ls_cache := c\<lparr>lc_blocks := bs, lc_block_table := t, lc_active_block_runs := rs\<rparr>,
      ls_world := w\<lparr>lw_kv := k\<rparr>\<rparr>"
  let ?s2 = "s\<lparr>ls_cache := c\<lparr>lc_blocks := bs[?i := b1], lc_block_table := t, lc_active_block_runs := rs\<rparr>,
      ls_world := w\<lparr>lw_kv := k1\<rparr>\<rparr>"
  have on: "layer_on_block ?i (cache_block_append key val) ?s1 = (?s2, Ok (p mod 256))"
    using ap i' a(1) lens b(4) p(1) block_fill_facts(3) [of p] by (simp add: layer_on_block_def Let_def)
  have side2: "block_side {?i} {?i} H n v cfg (Suc p) ?R k1 t (bs[?i := b1]) (lc_int8_storage c) (lc_quantized_values c)"
  proof (rule block_side_rewrite [OF e(2) i'])
    show "arc_ok (kw_heap k1) (add_mset (cb_storage b1) (others ?i cb_storage bs + H))" using a(4) lens by simp
    show "\<forall>x \<in># others ?i cb_storage bs + H. arc_get (kw_heap k1) x = arc_get (kw_heap k) x" using a(5) lens by simp
    show "cb_id b1 = cb_id (bs ! ?i)" using a(8) lens by simp
    fix j assume "j < length bs" "j \<noteq> ?i"
    then show "block_fill (Suc p) j = block_fill p j \<and> (\<forall>m < block_fill p j. ?R (256 * j + m) = R (256 * j + m))"
      using block_fill_facts(5) [of j p] slot_in_block [of p j] by (auto simp: block_fill_def)
  qed (use bok fields in simp_all)
  obtain ist qs where f:
    "and_do (layer_refresh_int8_block ?i) (\<lambda>_. layer_refresh_quantized_block ?i) ?s2 =
       (?s2\<lparr>ls_cache := (ls_cache ?s2)\<lparr>lc_int8_storage := ist, lc_quantized_values := qs\<rparr>\<rparr>, Ok ())"
    "block_side {} {} H n v cfg (Suc p) ?R k1 t (bs[?i := b1]) ist qs"
    "ist = None \<longleftrightarrow> lc_int8_storage c = None" "qs = None \<longleftrightarrow> lc_quantized_values c = None"
    by (rule refresh_both_ok [where s = ?s2 and i = ?i and H = H and n = n and v = v and cfg = cfg
          and fill = "Suc p" and R = ?R and t = t])
      (use side2 i' p(1) v fin block_fill_facts(4) [of p] in \<open>simp_all add: compressed_def\<close>)
  show thesis
  proof (rule that [OF _ f(2) e(3)])
    show "layer_append_block_token p key val s =
       (s\<lparr>ls_cache := c\<lparr>lc_blocks := bs[?i := b1], lc_block_table := t, lc_active_block_runs := rs,
          lc_int8_storage := ist, lc_quantized_values := qs\<rparr>, ls_world := w\<lparr>lw_kv := k1\<rparr>\<rparr>, Ok ())"
      using e(1) on f(1) p layer_position [of p c]
      by (simp add: layer_append_block_token_def c_def [symmetric] and_do_def ok_or_def)
    show "\<forall>x \<in># H. arc_get (kw_heap k1) x = arc_get (kw_heap (lw_kv w)) x" using a(5) lens e(5) by simp
  qed (use e f fields in simp_all)
qed


lemma write_at_fields:
  assumes "cache_block_write_at i key val b w = (b', w', r)"
  shows "cb_capacity_tokens b' = cb_capacity_tokens b" and "cb_vector_len b' = cb_vector_len b"
    and "cb_id b' = cb_id b" and "kw_next_block_id w' = kw_next_block_id w"
    and "kw_next_cache_id w' = kw_next_cache_id w"
proof -
  have "cb_capacity_tokens b' = cb_capacity_tokens b \<and> cb_vector_len b' = cb_vector_len b \<and> cb_id b' = cb_id b \<and>
    kw_next_block_id w' = kw_next_block_id w \<and> kw_next_cache_id w' = kw_next_cache_id w"
  proof (cases "write_token_rows i key val b w")
    case None
    then show ?thesis using assms by (auto simp: cache_block_write_at_def split: outcome.splits if_splits)
  next
    case (Some a)
    obtain b1 w1 where a: "a = (b1, w1)" by fastforce
    obtain x y where "b1 = b\<lparr>cb_storage := x\<rparr>" "w1 = w\<lparr>kw_heap := y\<rparr>"
      using write_rows_fields [OF Some [unfolded a]] by blast
    with Some a assms show ?thesis
      by (auto simp: cache_block_write_at_def split: outcome.splits if_splits)
  qed
  then show "cb_capacity_tokens b' = cb_capacity_tokens b" "cb_vector_len b' = cb_vector_len b" "cb_id b' = cb_id b"
    "kw_next_block_id w' = kw_next_block_id w" "kw_next_cache_id w' = kw_next_cache_id w" by simp_all
qed

lemma write_block_token_ok:
  fixes s :: layer_state
  defines "c \<equiv> ls_cache s" and "w \<equiv> ls_world s"
  assumes side: "block_side {} {} H n v cfg fill R (lw_kv w) (lc_block_table c) (lc_blocks c)
      (lc_int8_storage c) (lc_quantized_values c)"
    and p: "p < fill" "fill \<le> n" "n = lc_max_tokens c" and ids: "kw_next_block_id (lw_kv w) < u64_max"
    and runs: "runs_ok n (lc_block_table c) tokens (lc_active_block_runs c)"
    and len: "length key = v" "length val = v" and v: "0 < v" "n * v * 8 + 7 \<le> u64_max"
    and fin: "compressed c \<Longrightarrow> finite_rows fill (R(p := (key, val)))"
  obtains bs t rs k ist qs where
    "layer_write_block_token p key val s =
       (s\<lparr>ls_cache := c\<lparr>lc_blocks := bs, lc_block_table := t, lc_active_block_runs := rs,
          lc_int8_storage := ist, lc_quantized_values := qs\<rparr>, ls_world := w\<lparr>lw_kv := k\<rparr>\<rparr>, Ok ())"
    "block_side {} {} H n v cfg fill (R(p := (key, val))) k t bs ist qs" "runs_ok n t tokens rs"
    "\<forall>a \<in># H. arc_get (kw_heap k) a = arc_get (kw_heap (lw_kv w)) a"
    "kw_next_block_id k \<le> Suc (kw_next_block_id (lw_kv w))"
    "ist = None \<longleftrightarrow> lc_int8_storage c = None" "qs = None \<longleftrightarrow> lc_quantized_values c = None"
proof -
  let ?i = "p div 256" and ?R = "R(p := (key, val))"
  have pn: "p < n" using p by simp
  have i: "?i < length (lc_blocks c)"
    using side block_fill_facts(1) [OF pn] by (simp add: block_side_def blocks_ok_def)
  obtain bs t rs k where e:
    "layer_exclusive_block ?i s =
       (s\<lparr>ls_cache := c\<lparr>lc_blocks := bs, lc_block_table := t, lc_active_block_runs := rs\<rparr>,
          ls_world := w\<lparr>lw_kv := k\<rparr>\<rparr>, Ok ())"
    "block_side {} {} H n v cfg fill R k t bs (lc_int8_storage c) (lc_quantized_values c)" "runs_ok n t tokens rs"
    "length bs = length (lc_blocks c)" "kw_heap k = kw_heap (lw_kv w)"
    "kw_next_block_id k \<le> Suc (kw_next_block_id (lw_kv w))"
    by (rule exclusive_block_ok [where s = s and X = "{}" and Y = "{}" and H = H and n = n and v = v and cfg = cfg
          and fill = fill and R = R and ist = "lc_int8_storage c" and qs = "lc_quantized_values c" and i = ?i
          and tokens = tokens, folded c_def w_def]) (use side i ids runs in simp_all)
  have i': "?i < length bs" using i e(4) by simp
  have bs: "blocks_ok k n v fill R bs" using e(2) by (simp add: block_side_def)
  note b = block_okD [OF bs i' p(2)]
  have heap: "arc_ok (kw_heap k) (add_mset (cb_storage (bs ! ?i)) (others ?i cb_storage bs + H))"
    using e(2) mset_others [OF i', of cb_storage] by (simp add: block_side_def)
  obtain b1 k1 r where ap: "cache_block_write_at (p mod 256) key val (bs ! ?i) k = (b1, k1, r)" by (metis prod_cases3)
  have room: "p mod 256 < cb_token_count (bs ! ?i)" using b(4) block_fill_facts(2) [OF p(1)] by simp
  have lens: "length key = cb_vector_len (bs ! ?i)" "length val = cb_vector_len (bs ! ?i)"
    using b(3) len by simp_all
  note a = cache_block_write_at_ok [OF b(1) heap room lens ap]
  note fields = write_at_fields [OF ap]
  have "block_rows k1 b1 = map (\<lambda>j. ?R (256 * ?i + j)) [0..<block_fill fill ?i]"
  proof (rule nth_equalityI)
    show "length (block_rows k1 b1) = length (map (\<lambda>j. ?R (256 * ?i + j)) [0..<block_fill fill ?i])"
      unfolding a(3) b(5) by simp
    fix j assume "j < length (block_rows k1 b1)"
    then have j: "j < block_fill fill ?i" unfolding a(3) b(5) by simp
    have "256 * ?i + j = p \<longleftrightarrow> j = p mod 256" by (metis add_left_cancel mult_div_mod_eq)
    then show "block_rows k1 b1 ! j = map (\<lambda>j. ?R (256 * ?i + j)) [0..<block_fill fill ?i] ! j"
      unfolding a(3) b(5) using j by (auto simp: nth_list_update)
  qed
  then have bok: "block_ok k1 n v fill ?R ?i b1"
    using a(2) b(2,3) fields by (simp add: block_ok_def)
  let ?s1 = "s\<lparr>ls_cache := c\<lparr>lc_blocks := bs, lc_block_table := t, lc_active_block_runs := rs\<rparr>,
      ls_world := w\<lparr>lw_kv := k\<rparr>\<rparr>"
  let ?s2 = "s\<lparr>ls_cache := c\<lparr>lc_blocks := bs[?i := b1], lc_block_table := t, lc_active_block_runs := rs\<rparr>,
      ls_world := w\<lparr>lw_kv := k1\<rparr>\<rparr>"
  have on: "layer_on_block ?i (cache_block_write_at (p mod 256) key val) ?s1 = (?s2, Ok ())"
    using ap i' a(1) by (simp add: layer_on_block_def Let_def)
  have side2: "block_side {?i} {?i} H n v cfg fill ?R k1 t (bs[?i := b1]) (lc_int8_storage c) (lc_quantized_values c)"
  proof (rule block_side_rewrite [OF e(2) i'])
    show "arc_ok (kw_heap k1) (add_mset (cb_storage b1) (others ?i cb_storage bs + H))" using a(4) by simp
    show "\<forall>x \<in># others ?i cb_storage bs + H. arc_get (kw_heap k1) x = arc_get (kw_heap k) x" using a(5) by simp
    fix j assume "j < length bs" "j \<noteq> ?i"
    then show "block_fill fill j = block_fill fill j \<and> (\<forall>m < block_fill fill j. ?R (256 * j + m) = R (256 * j + m))"
      using slot_in_block [of p j] by (auto simp: block_fill_def)
  qed (use bok fields in simp_all)
  obtain ist qs where f:
    "and_do (layer_refresh_int8_block ?i) (\<lambda>_. layer_refresh_quantized_block ?i) ?s2 =
       (?s2\<lparr>ls_cache := (ls_cache ?s2)\<lparr>lc_int8_storage := ist, lc_quantized_values := qs\<rparr>\<rparr>, Ok ())"
    "block_side {} {} H n v cfg fill ?R k1 t (bs[?i := b1]) ist qs"
    "ist = None \<longleftrightarrow> lc_int8_storage c = None" "qs = None \<longleftrightarrow> lc_quantized_values c = None"
    by (rule refresh_both_ok [where s = ?s2 and i = ?i and H = H and n = n and v = v and cfg = cfg
          and fill = fill and R = ?R and t = t])
      (use side2 i' p v fin room b(4) in \<open>simp_all add: compressed_def\<close>)
  show thesis
  proof (rule that [OF _ f(2) e(3)])
    show "layer_write_block_token p key val s =
       (s\<lparr>ls_cache := c\<lparr>lc_blocks := bs[?i := b1], lc_block_table := t, lc_active_block_runs := rs,
          lc_int8_storage := ist, lc_quantized_values := qs\<rparr>, ls_world := w\<lparr>lw_kv := k1\<rparr>\<rparr>, Ok ())"
      using e(1) on f(1) pn p(3) layer_position [of p c]
      by (simp add: layer_write_block_token_def c_def [symmetric] and_do_def)
    show "\<forall>x \<in># H. arc_get (kw_heap k1) x = arc_get (kw_heap (lw_kv w)) x" using a(5) e(5) by simp
  qed (use e f fields in simp_all)
qed

section \<open>Stages\<close>

lemma copy_stage_token_ok:
  assumes "stage_ok n v fill (fst \<circ> R) ks" and "stage_ok n v fill (snd \<circ> R) vs"
    and "p < n" and "n * v \<le> u64_max" and "length key = v" and "length val = v"
    and sub: "\<And>j. j < fill' \<Longrightarrow> j \<noteq> p \<Longrightarrow> j < fill" and "fill' \<le> n"
  obtains ks' vs' where "copy_stage_token ks vs v p key val = (ks', vs', Ok ())"
    "stage_ok n v fill' (fst \<circ> R(p := (key, val))) ks'" "stage_ok n v fill' (snd \<circ> R(p := (key, val))) vs'"
proof -
  have le: "p * v + v \<le> n * v" by (rule row_in_range [OF assms(3)])
  have len: "length ks = n * v" "length vs = n * v" using assms(1,2) by (simp_all add: stage_ok_def)
  obtain ks' where ks: "copy_range (p * v) (p * v + v) key ks = Some ks'"
    using copy_range_defined [of "p * v" "p * v + v" ks key] le len assms(5) by auto
  obtain vs' where vs: "copy_range (p * v) (p * v + v) val vs = Some vs'"
    using copy_range_defined [of "p * v" "p * v + v" vs val] le len assms(6) by auto
  have "copy_stage_token ks vs v p key val = (ks', vs', Ok ())"
    using ks vs le assms(4-6) by (simp add: copy_stage_token_def checked_mul_def checked_add_def)
  moreover have "stage_ok n v fill' (fst \<circ> R(p := (key, val))) ks'"
    using row_copy_range [OF ks] copy_range_length [OF ks] row_in_range len sub assms(1,8)
    by (auto simp: stage_ok_def)
  moreover have "stage_ok n v fill' (snd \<circ> R(p := (key, val))) vs'"
    using row_copy_range [OF vs] copy_range_length [OF vs] row_in_range len sub assms(2,8)
    by (auto simp: stage_ok_def)
  ultimately show thesis by (rule that)
qed

text \<open>Rewriting both stages through their own handles.\<close>

lemma two_make_muts:
  assumes "arc_ok h ({#a, b#} + S)" and "arc_get h a = Some x" and "arc_get h b = Some y"
  obtains a' h1 b' h2 where "arc_make_mut (\<lambda>_. x') a h = (a', h1)" "arc_make_mut (\<lambda>_. y') b h1 = (b', h2)"
    "arc_ok h2 ({#a', b'#} + S)" "arc_get h2 a' = Some x'" "arc_get h2 b' = Some y'"
    "\<forall>c \<in># S. arc_get h2 c = arc_get h c"
proof -
  obtain a' h1 where m1: "arc_make_mut (\<lambda>_. x') a h = (a', h1)" by fastforce
  have ok: "arc_ok h (add_mset a (add_mset b S))" using assms(1) by simp
  note k1 = arcs.make_mut_ok [OF ok _ assms(2) m1]
  then have h1: "arc_ok h1 (add_mset a' (add_mset b S))" "arc_get h1 a' = Some x'" "arc_get h1 b = Some y"
    "\<forall>c \<in># S. arc_get h1 c = arc_get h c" using assms(3) by auto
  obtain b' h2 where m2: "arc_make_mut (\<lambda>_. y') b h1 = (b', h2)" by fastforce
  have ok2: "arc_ok h1 (add_mset b (add_mset a' S))" using h1(1) by (simp add: add_mset_commute)
  note k2 = arcs.make_mut_ok [OF ok2 _ h1(3) m2]
  show thesis
    by (rule that [OF m1 m2]) (use k2 h1 in \<open>auto simp: add_mset_commute\<close>)
qed

lemma write_stage_token_ok:
  fixes s :: layer_state
  defines "c \<equiv> ls_cache s" and "w \<equiv> ls_world s"
  assumes side: "stage_side SH n v fill R (lw_stages w) (lc_key_stage c) (lc_value_stage c)"
    and v: "v = layer_vector_len c" and p: "p < n" "n * v \<le> u64_max"
    and len: "length key = v" "length val = v"
    and sub: "\<And>j. j < fill' \<Longrightarrow> j \<noteq> p \<Longrightarrow> j < fill" "fill' \<le> n"
  obtains ka va h where
    "layer_write_stage_token p key val s =
       (s\<lparr>ls_cache := c\<lparr>lc_key_stage := ka, lc_value_stage := va, lc_key_contiguous_view := None,
            lc_value_contiguous_view := None\<rparr>, ls_world := w\<lparr>lw_stages := h\<rparr>\<rparr>, Ok ())"
    "stage_side SH n v fill' (R(p := (key, val))) h ka va"
    "\<forall>a \<in># SH. arc_get h a = arc_get (lw_stages w) a"
proof -
  obtain ks vs where st: "arc_get (lw_stages w) (lc_key_stage c) = Some ks"
    "arc_get (lw_stages w) (lc_value_stage c) = Some vs"
    "stage_ok n v fill (fst \<circ> R) ks" "stage_ok n v fill (snd \<circ> R) vs"
    using side by (auto simp: stage_side_def stages_ok_def)
  obtain ks' vs' where cp: "copy_stage_token ks vs v p key val = (ks', vs', Ok ())"
    "stage_ok n v fill' (fst \<circ> R(p := (key, val))) ks'" "stage_ok n v fill' (snd \<circ> R(p := (key, val))) vs'"
    by (rule copy_stage_token_ok [OF st(3,4) p(1,2) len sub])
  have ok: "arc_ok (lw_stages w) ({#lc_key_stage c, lc_value_stage c#} + SH)" using side by (simp add: stage_side_def)
  obtain ka h1 va h2 where m: "arc_make_mut (\<lambda>_. ks') (lc_key_stage c) (lw_stages w) = (ka, h1)"
    "arc_make_mut (\<lambda>_. vs') (lc_value_stage c) h1 = (va, h2)"
    "arc_ok h2 ({#ka, va#} + SH)" "arc_get h2 ka = Some ks'" "arc_get h2 va = Some vs'"
    "\<forall>a \<in># SH. arc_get h2 a = arc_get (lw_stages w) a"
    by (rule two_make_muts [OF ok st(1,2)])
  have "layer_write_stage_token p key val s =
       (s\<lparr>ls_cache := c\<lparr>lc_key_stage := ka, lc_value_stage := va, lc_key_contiguous_view := None,
            lc_value_contiguous_view := None\<rparr>, ls_world := w\<lparr>lw_stages := h2\<rparr>\<rparr>, Ok ())"
    using st cp m by (simp add: layer_write_stage_token_def layer_on_stages_def and_do_def Let_def v
        c_def [symmetric] w_def [symmetric] modify_cache_def layer_invalidate_contiguous_stage_views_def)
  moreover have "stage_side SH n v fill' (R(p := (key, val))) h2 ka va"
    using cp m by (auto simp: stage_side_def stages_ok_def)
  ultimately show thesis using m(6) by (rule that)
qed


section \<open>Runs\<close>

lemma run_tokens_extend:
  "run_tokens (r\<lparr>br_token_count := Suc (br_token_count r)\<rparr>) =
   run_tokens r @ [(br_logical_token_start r + br_token_count r, br_physical_token_start r + br_token_count r)]"
  by (simp add: run_tokens_def)

lemma append_active_block_run_ok:
  fixes s :: layer_state
  defines "c \<equiv> ls_cache s"
  assumes ids: "ids_ok k (lc_block_table c) (lc_blocks c)" and len: "length (lc_blocks c) = div_ceil_blocks n"
    and runs: "runs_ok n (lc_block_table c) tokens (lc_active_block_runs c)"
    and p: "p < n" "n = lc_max_tokens c"
  obtains rs where
    "layer_append_active_block_run l p s = (s\<lparr>ls_cache := c\<lparr>lc_active_block_runs := rs\<rparr>\<rparr>, Ok ())"
    "runs_ok n (lc_block_table c) (tokens @ [(l, p)]) rs"
proof -
  let ?i = "p div 256" and ?m = "p mod 256" and ?t = "lc_block_table c" and ?runs = "lc_active_block_runs c"
  have i: "?i < length (lc_blocks c)" using block_fill_facts(1) [OF p(1)] len by simp
  note idf = ids_okD [OF ids i]
  let ?bid = "cb_id (lc_blocks c ! ?i)"
  let ?fresh = "\<lparr>br_block_index = ?i, br_block_id = ?bid, br_logical_token_start = l,
      br_physical_token_start = p, br_block_token_start = ?m, br_token_count = 1\<rparr>"
  let ?ext = "?runs \<noteq> [] \<and> can_extend (last ?runs) ?i ?bid l p ?m"
  let ?rs = "if ?ext then butlast ?runs @ [(last ?runs)\<lparr>br_token_count := wrap_add (br_token_count (last ?runs)) 1\<rparr>]
      else ?runs @ [?fresh]"
  have res: "layer_append_active_block_run l p s = (s\<lparr>ls_cache := c\<lparr>lc_active_block_runs := ?rs\<rparr>\<rparr>, Ok ())"
    using i idf layer_position [of p c] p
    by (simp add: layer_append_active_block_run_def Let_def c_def [symmetric])
  have "runs_ok n ?t (tokens @ [(l, p)]) ?rs"
  proof (cases ?ext)
    case True
    let ?r = "last ?runs"
    have split: "?runs = butlast ?runs @ [?r]" using True by simp
    have r: "run_ok n ?t ?r" using runs True by (simp add: runs_ok_def)
    have ext: "br_block_index ?r = ?i" "br_logical_token_start ?r + br_token_count ?r = l"
      "br_physical_token_start ?r + br_token_count ?r = p" "br_block_token_start ?r + br_token_count ?r = ?m"
      using True by (auto simp: can_extend_def checked_add_Some_iff)
    have "br_token_count ?r < u64_max" using ext(4) mod_less_divisor [of 256 p] by (simp add: u64_max_def)
    then have count: "wrap_add (br_token_count ?r) (Suc 0) = Suc (br_token_count ?r)" by simp
    let ?r' = "?r\<lparr>br_token_count := Suc (br_token_count ?r)\<rparr>"
    have "br_block_token_start ?r + Suc (br_token_count ?r) \<le> 256"
      using ext(4) mod_less_divisor [of 256 p] by simp
    then have "run_ok n ?t ?r'" using r ext(3) p(1) by (auto simp: run_ok_def)
    moreover have "run_tokens ?r' = run_tokens ?r @ [(l, p)]" using ext by (simp add: run_tokens_extend)
    moreover have "concat (map run_tokens (butlast ?runs @ [?r])) = tokens"
      unfolding split [symmetric] using runs by (simp only: runs_ok_def)
    then have "concat (map run_tokens (butlast ?runs)) @ run_tokens ?r = tokens" by simp
    ultimately show ?thesis using True runs
      by (auto simp: runs_ok_def count dest: in_set_butlastD)
  next
    case False
    have "run_ok n ?t ?fresh" using idf p(1) mod_less_divisor [of 256 p] by (simp add: run_ok_def)
    then have "runs_ok n ?t (tokens @ [(l, p)]) (?runs @ [?fresh])"
      using runs by (auto simp: runs_ok_def run_tokens_def)
    then show ?thesis unfolding if_not_P [OF False] .
  qed
  then show thesis by (rule that [OF res])
qed

text \<open>Dropping the oldest token renumbers the others.\<close>

lemma run_tokens_shift:
  "0 < br_logical_token_start r \<Longrightarrow> run_tokens (shift_run r) = map (\<lambda>(l, p). (l - 1, p)) (run_tokens r)"
  by (simp add: run_tokens_def shift_run_def sat_sub_def)

lemma run_ok_shift [simp]: "run_ok n t (shift_run r) = run_ok n t r"
  by (simp add: run_ok_def shift_run_def)

lemma run_tokens_Cons:
  "0 < br_token_count r \<Longrightarrow> run_tokens r =
     (br_logical_token_start r, br_physical_token_start r) #
     map (\<lambda>j. (br_logical_token_start r + Suc j, br_physical_token_start r + Suc j)) [0..<br_token_count r - 1]"
proof -
  assume "0 < br_token_count r"
  then obtain m where "br_token_count r = Suc m" by (auto simp: gr0_conv_Suc)
  then show ?thesis by (simp add: run_tokens_def map_upt_Suc del: upt_Suc)
qed

lemma remove_oldest_ok:
  fixes s :: layer_state
  defines "c \<equiv> ls_cache s"
  assumes runs: "runs_ok n t (map (\<lambda>i. (i, f i)) [0..<Suc m]) (lc_active_block_runs c)" and n: "n \<le> u64_max"
  obtains rs where
    "layer_remove_oldest_active_block_token s = (s\<lparr>ls_cache := c\<lparr>lc_active_block_runs := rs\<rparr>\<rparr>, Ok ())"
    "runs_ok n t (map (\<lambda>i. (i, f (Suc i))) [0..<m]) rs"
proof -
  let ?dec = "\<lambda>(l, p). (l - 1 :: nat, p :: nat)"
  obtain r rs where rs: "lc_active_block_runs c = r # rs" using runs by (cases "lc_active_block_runs c") (auto simp: runs_ok_def)
  have all: "run_tokens r @ concat (map run_tokens rs) = (0, f 0) # map (\<lambda>i. (Suc i, f (Suc i))) [0..<m]"
    using runs rs by (simp add: runs_ok_def map_upt_Suc del: upt_Suc)
  have r: "run_ok n t r" and rest: "\<forall>x \<in> set rs. run_ok n t x" using runs rs by (simp_all add: runs_ok_def)
  have pos: "0 < br_token_count r" using r by (simp add: run_ok_def)
  note cons = run_tokens_Cons [OF pos]
  have "br_logical_token_start r = 0 \<and> br_physical_token_start r = f 0" using all unfolding cons by simp
  then have first: "br_logical_token_start r = 0" by simp
  have tail: "map (\<lambda>j. (br_logical_token_start r + Suc j, br_physical_token_start r + Suc j)) [0..<br_token_count r - 1] @
      concat (map run_tokens rs) = map (\<lambda>i. (Suc i, f (Suc i))) [0..<m]"
    using all unfolding cons append_Cons list.inject by (rule conjunct2)
  have logical: "0 < br_logical_token_start x" if "x \<in> set rs" for x
  proof -
    have "0 < br_token_count x" using rest that by (simp add: run_ok_def)
    then have "(br_logical_token_start x, br_physical_token_start x) \<in> set (run_tokens x)"
      by (simp add: run_tokens_Cons)
    then have "(br_logical_token_start x, br_physical_token_start x) \<in> set (concat (map run_tokens rs))"
      using that by auto
    then have "(br_logical_token_start x, br_physical_token_start x) \<in> set (map (\<lambda>i. (Suc i, f (Suc i))) [0..<m])"
      unfolding tail [symmetric] by simp
    then show ?thesis by auto
  qed
  have shifted: "concat (map run_tokens (map shift_run rs)) = map ?dec (concat (map run_tokens rs))"
    using logical by (induction rs) (auto simp: run_tokens_shift)
  have goal: "map (\<lambda>i. (i, f (Suc i))) [0..<m] = map ?dec (map (\<lambda>i. (Suc i, f (Suc i))) [0..<m])" by simp
  show thesis
  proof (cases "br_token_count r = 1")
    case True
    have "runs_ok n t (map (\<lambda>i. (i, f (Suc i))) [0..<m]) (map shift_run rs)"
      unfolding runs_ok_def goal tail [symmetric] shifted using True rest by auto
    moreover have "layer_remove_oldest_active_block_token s = (s\<lparr>ls_cache := c\<lparr>lc_active_block_runs := map shift_run rs\<rparr>\<rparr>, Ok ())"
      using rs True by (simp add: layer_remove_oldest_active_block_token_def Let_def c_def)
    ultimately show thesis by (intro that)
  next
    case False
    let ?r = "r\<lparr>br_physical_token_start := Suc (br_physical_token_start r),
        br_block_token_start := Suc (br_block_token_start r), br_token_count := br_token_count r - 1\<rparr>"
    have le: "br_physical_token_start r + br_token_count r \<le> n" "br_block_token_start r + br_token_count r \<le> 256"
      "br_block_index r = br_physical_token_start r div 256" "br_block_token_start r = br_physical_token_start r mod 256"
      using r by (simp_all add: run_ok_def)
    have count: "Suc 0 < br_token_count r" using pos False by simp
    have "br_block_token_start r \<le> br_physical_token_start r" using le(4) by simp
    then have "advance_run r = (?r, Ok ())"
      using le count n by (simp add: advance_run_def checked_add_def wrap_sub_small Let_def)
    then have res: "layer_remove_oldest_active_block_token s =
        (s\<lparr>ls_cache := c\<lparr>lc_active_block_runs := map shift_run (?r # rs)\<rparr>\<rparr>, Ok ())"
      using rs False by (simp add: layer_remove_oldest_active_block_token_def Let_def c_def)
    have "Suc (br_physical_token_start r) mod 256 = Suc (br_physical_token_start r mod 256)"
      using le(2,4) count by (simp add: mod_Suc)
    then have "Suc (br_physical_token_start r) div 256 = br_physical_token_start r div 256"
      by (simp add: div_Suc mod_Suc split: if_splits)
    then have ok: "run_ok n t ?r" using r count \<open>Suc (br_physical_token_start r) mod 256 = _\<close> by (auto simp: run_ok_def)
    have "run_tokens (shift_run ?r) = map ?dec (map (\<lambda>j. (br_logical_token_start r + Suc j, br_physical_token_start r + Suc j))
        [0..<br_token_count r - 1])"
      using first by (simp add: run_tokens_def shift_run_def sat_sub_def)
    then have "runs_ok n t (map (\<lambda>i. (i, f (Suc i))) [0..<m]) (map shift_run (?r # rs))"
      unfolding runs_ok_def goal tail [symmetric] list.map concat.simps shifted using ok rest by auto
    then show thesis by (rule that [OF res])
  qed
qed


section \<open>Appending and sliding\<close>

text \<open>What every operation on a cache keeps: its shape and format, and all that others hold.\<close>

definition same_layer :: "nat multiset \<Rightarrow> nat multiset \<Rightarrow> layer_state \<Rightarrow> layer_state \<Rightarrow> bool" where
  "same_layer H SH s s' \<longleftrightarrow>
     lc_max_tokens (ls_cache s') = lc_max_tokens (ls_cache s) \<and>
     lc_key_value_heads (ls_cache s') = lc_key_value_heads (ls_cache s) \<and>
     lc_head_dim (ls_cache s') = lc_head_dim (ls_cache s) \<and> lc_config (ls_cache s') = lc_config (ls_cache s) \<and>
     lc_id (ls_cache s') = lc_id (ls_cache s) \<and> compressed (ls_cache s') = compressed (ls_cache s) \<and>
     (\<forall>a \<in># H. arc_get (kw_heap (lw_kv (ls_world s'))) a = arc_get (kw_heap (lw_kv (ls_world s))) a) \<and>
     (\<forall>a \<in># SH. arc_get (lw_stages (ls_world s')) a = arc_get (lw_stages (ls_world s)) a) \<and>
     kw_next_block_id (lw_kv (ls_world s')) \<le> Suc (kw_next_block_id (lw_kv (ls_world s)))"

lemma same_layer_refl [simp]: "same_layer H SH s s"
  by (simp add: same_layer_def)

lemma layer_invD:
  assumes "layer_inv_at H SH R s"
  defines "c \<equiv> ls_cache s" and "w \<equiv> ls_world s"
  shows "0 < lc_max_tokens c" and "0 < layer_vector_len c"
    and "lc_max_tokens c * layer_vector_len c * 8 + 7 \<le> u64_max"
    and "lc_token_count c \<le> lc_max_tokens c" and "lc_window_start c < lc_max_tokens c"
    and "lc_token_count c < lc_max_tokens c \<Longrightarrow> lc_window_start c = 0"
    and "block_side {} {} H (lc_max_tokens c) (layer_vector_len c) (lc_config c) (lc_token_count c) R
      (lw_kv w) (lc_block_table c) (lc_blocks c) (lc_int8_storage c) (lc_quantized_values c)"
    and "stage_side SH (lc_max_tokens c) (layer_vector_len c) (lc_token_count c) R (lw_stages w)
      (lc_key_stage c) (lc_value_stage c)"
    and "runs_ok (lc_max_tokens c) (lc_block_table c)
      (window_tokens (lc_max_tokens c) (lc_window_start c) (lc_token_count c)) (lc_active_block_runs c)"
    and "compressed c \<Longrightarrow> finite_rows (lc_token_count c) R"
    and "lc_max_tokens c * layer_vector_len c \<le> u64_max" and "lc_max_tokens c \<le> u64_max"
    and "layer_vector_len c = lc_key_value_heads c * lc_head_dim c"
proof -
  let ?v = "lc_key_value_heads c * lc_head_dim c"
  have sh: "0 < lc_max_tokens c" "0 < lc_key_value_heads c" "0 < lc_head_dim c" "lc_max_tokens c * ?v * 8 + 7 \<le> u64_max"
    using assms(1) by (simp_all add: layer_inv_at_def Let_def shape_ok_def c_def)
  then have "0 < ?v" by simp
  then have le: "?v \<le> lc_max_tokens c * ?v" "lc_max_tokens c \<le> lc_max_tokens c * ?v" using sh(1) by simp_all
  then have "?v \<le> u64_max" using sh(4) by linarith
  then show v: "layer_vector_len c = ?v" by (simp add: layer_vector_len_def wrap_mul_small)
  show "0 < lc_max_tokens c" "0 < layer_vector_len c" "lc_max_tokens c * layer_vector_len c * 8 + 7 \<le> u64_max"
    "lc_max_tokens c * layer_vector_len c \<le> u64_max" "lc_max_tokens c \<le> u64_max"
    using sh le \<open>0 < ?v\<close> unfolding v by linarith+
  show "lc_token_count c \<le> lc_max_tokens c" "lc_window_start c < lc_max_tokens c"
    "lc_token_count c < lc_max_tokens c \<Longrightarrow> lc_window_start c = 0"
    "block_side {} {} H (lc_max_tokens c) (layer_vector_len c) (lc_config c) (lc_token_count c) R
      (lw_kv w) (lc_block_table c) (lc_blocks c) (lc_int8_storage c) (lc_quantized_values c)"
    "stage_side SH (lc_max_tokens c) (layer_vector_len c) (lc_token_count c) R (lw_stages w)
      (lc_key_stage c) (lc_value_stage c)"
    "runs_ok (lc_max_tokens c) (lc_block_table c)
      (window_tokens (lc_max_tokens c) (lc_window_start c) (lc_token_count c)) (lc_active_block_runs c)"
    "compressed c \<Longrightarrow> finite_rows (lc_token_count c) R"
    using assms(1) by (simp_all add: layer_inv_at_def Let_def window_ok_def finite_rows_def c_def w_def)
qed

lemma window_tokens_Suc: "window_tokens n ws (Suc m) = window_tokens n ws m @ [(m, slot n ws m)]"
  by (simp add: window_tokens_def)

lemma append_at_end_inv:
  fixes s :: layer_state
  defines "c \<equiv> ls_cache s"
  assumes inv: "layer_inv_at H SH R s" and room: "lc_token_count c < lc_max_tokens c"
    and len: "length key = layer_vector_len c" "length val = layer_vector_len c"
    and fin: "compressed c \<Longrightarrow> all_finite (key @ val)"
    and seen: "lc_tokens_seen c < u64_max" and ids: "kw_next_block_id (lw_kv (ls_world s)) < u64_max"
  obtains s' where
    "layer_append_at_end_validated key val s =
       (s', Ok \<lparr>la_token_index = lc_token_count c, la_physical_token_index = lc_token_count c,
               la_token_count = Suc (lc_token_count c), la_tokens_seen = Suc (lc_tokens_seen c),
               la_revision = sat_add (lc_revision c) 1\<rparr>)"
    "layer_inv_at H SH (R(lc_token_count c := (key, val))) s'" "same_layer H SH s s'"
    "lc_token_count (ls_cache s') = Suc (lc_token_count c)" "lc_window_start (ls_cache s') = 0"
    "lc_tokens_seen (ls_cache s') = Suc (lc_tokens_seen c)" "lc_revision (ls_cache s') = sat_add (lc_revision c) 1"
proof -
  let ?n = "lc_max_tokens c" and ?v = "layer_vector_len c" and ?tc = "lc_token_count c"
  let ?R = "R(?tc := (key, val))" and ?w = "ls_world s"
  note d = layer_invD [OF inv, folded c_def]
  have ws: "lc_window_start c = 0" by (rule d(6) [OF room])
  have fin': "compressed c \<Longrightarrow> finite_rows (Suc ?tc) ?R"
    using d(10) fin by (auto simp: finite_rows_def less_Suc_eq)
  obtain bs t rs k ist qs where b:
    "layer_append_block_token ?tc key val s =
       (s\<lparr>ls_cache := c\<lparr>lc_blocks := bs, lc_block_table := t, lc_active_block_runs := rs,
          lc_int8_storage := ist, lc_quantized_values := qs\<rparr>, ls_world := ?w\<lparr>lw_kv := k\<rparr>\<rparr>, Ok ())"
    "block_side {} {} H ?n ?v (lc_config c) (Suc ?tc) ?R k t bs ist qs"
    "runs_ok ?n t (window_tokens ?n 0 ?tc) rs"
    "\<forall>a \<in># H. arc_get (kw_heap k) a = arc_get (kw_heap (lw_kv ?w)) a"
    "kw_next_block_id k \<le> Suc (kw_next_block_id (lw_kv ?w))"
    "ist = None \<longleftrightarrow> lc_int8_storage c = None" "qs = None \<longleftrightarrow> lc_quantized_values c = None"
    by (rule append_block_token_ok [where s = s, folded c_def,
          OF d(7) room refl ids d(9) [unfolded ws] len d(2,3) fin'])
  let ?s1 = "s\<lparr>ls_cache := c\<lparr>lc_blocks := bs, lc_block_table := t, lc_active_block_runs := rs,
          lc_int8_storage := ist, lc_quantized_values := qs\<rparr>, ls_world := ?w\<lparr>lw_kv := k\<rparr>\<rparr>"
  have v1: "?v = layer_vector_len (ls_cache ?s1)" by (simp add: layer_vector_len_def)
  have sd: "stage_side SH ?n ?v ?tc R (lw_stages (ls_world ?s1)) (lc_key_stage (ls_cache ?s1)) (lc_value_stage (ls_cache ?s1))"
    using d(8) by simp
  have sub: "\<And>j. j < Suc ?tc \<Longrightarrow> j \<noteq> ?tc \<Longrightarrow> j < ?tc" "Suc ?tc \<le> ?n" using room by simp_all
  obtain ka va h where st: "layer_write_stage_token ?tc key val ?s1 =
       (?s1\<lparr>ls_cache := (ls_cache ?s1)\<lparr>lc_key_stage := ka, lc_value_stage := va, lc_key_contiguous_view := None,
            lc_value_contiguous_view := None\<rparr>, ls_world := (ls_world ?s1)\<lparr>lw_stages := h\<rparr>\<rparr>, Ok ())"
    "stage_side SH ?n ?v (Suc ?tc) ?R h ka va" "\<forall>a \<in># SH. arc_get h a = arc_get (lw_stages (ls_world ?s1)) a"
    by (rule write_stage_token_ok [where s = ?s1, OF sd v1 room d(11) len sub])
  let ?s2 = "?s1\<lparr>ls_cache := (ls_cache ?s1)\<lparr>lc_key_stage := ka, lc_value_stage := va, lc_key_contiguous_view := None,
            lc_value_contiguous_view := None\<rparr>, ls_world := (ls_world ?s1)\<lparr>lw_stages := h\<rparr>\<rparr>"
  have idk: "ids_ok k (lc_block_table (ls_cache ?s2)) (lc_blocks (ls_cache ?s2))"
    and lenb: "length (lc_blocks (ls_cache ?s2)) = div_ceil_blocks ?n"
    and n2: "?n = lc_max_tokens (ls_cache ?s2)"
    and runs2: "runs_ok ?n (lc_block_table (ls_cache ?s2)) (window_tokens ?n 0 ?tc) (lc_active_block_runs (ls_cache ?s2))"
    using b(2,3) by (simp_all add: block_side_def blocks_ok_def)
  obtain rs' where r: "layer_append_active_block_run ?tc ?tc ?s2 =
      (?s2\<lparr>ls_cache := (ls_cache ?s2)\<lparr>lc_active_block_runs := rs'\<rparr>\<rparr>, Ok ())"
    "runs_ok ?n (lc_block_table (ls_cache ?s2)) (window_tokens ?n 0 ?tc @ [(?tc, ?tc)]) rs'"
    by (rule append_active_block_run_ok [where s = ?s2 and l = ?tc, OF idk lenb runs2 room n2])
  let ?s3 = "?s2\<lparr>ls_cache := (ls_cache ?s2)\<lparr>lc_active_block_runs := rs', lc_token_count := Suc ?tc,
      lc_tokens_seen := Suc (lc_tokens_seen c), lc_revision := sat_add (lc_revision c) 1\<rparr>\<rparr>"
  have tc: "wrap_add ?tc (Suc 0) = Suc ?tc" using room d(12) by simp
  have res: "layer_append_at_end_validated key val s =
       (?s3, Ok \<lparr>la_token_index = ?tc, la_physical_token_index = ?tc, la_token_count = Suc ?tc,
               la_tokens_seen = Suc (lc_tokens_seen c), la_revision = sat_add (lc_revision c) 1\<rparr>)"
    using room b(1) st(1) r(1) seen tc
    by (simp add: layer_append_at_end_validated_def Let_def c_def [symmetric] and_do_def ok_or_def returning_def
        modify_cache_def checked_add_def)
  have comp: "compressed (ls_cache ?s3) = compressed c" using b(6,7) by (simp add: compressed_def)
  have "window_tokens ?n 0 (Suc ?tc) = window_tokens ?n 0 ?tc @ [(?tc, ?tc)]"
    using room by (simp add: window_tokens_Suc slot_def)
  then have "layer_inv_at H SH ?R ?s3"
    using inv b st r fin' comp room ws
    by (simp add: layer_inv_at_def Let_def shape_ok_def window_ok_def layer_vector_len_def view_ok_def finite_rows_def c_def [symmetric])
  then show thesis
    by (rule that [OF res]) (use b st comp ws in \<open>simp_all add: same_layer_def c_def [symmetric]\<close>)
qed


lemma slot_next:
  assumes "ws < n"
  shows "slot n (Suc ws mod n) i = slot n ws (Suc i)" and "slot n (Suc ws mod n) (n - 1) = ws"
proof -
  have step: "slot n (Suc ws mod n) j = slot n ws (Suc j)" for j by (simp add: slot_def mod_simps)
  show "slot n (Suc ws mod n) i = slot n ws (Suc i)" by (rule step)
  have "Suc (n - 1) = n" using assms by simp
  then show "slot n (Suc ws mod n) (n - 1) = ws" unfolding step using assms by (simp add: slot_def)
qed

lemma window_tokens_slide:
  assumes "ws < n"
  shows "map (\<lambda>i. (i, slot n ws (Suc i))) [0..<n - 1] @ [(n - 1, ws)] = window_tokens n (Suc ws mod n) n"
proof -
  have "window_tokens n (Suc ws mod n) (Suc (n - 1)) = map (\<lambda>i. (i, slot n ws (Suc i))) [0..<n - 1] @ [(n - 1, ws)]"
    using slot_next [OF assms] by (simp add: window_tokens_Suc) (simp add: window_tokens_def)
  then show ?thesis using assms by simp
qed

lemma append_sliding_inv:
  fixes s :: layer_state
  defines "c \<equiv> ls_cache s"
  assumes inv: "layer_inv_at H SH R s" and full: "lc_token_count c = lc_max_tokens c"
    and valid: "layer_validate_sliding_append c key val = Ok ()"
    and len: "length key = layer_vector_len c" "length val = layer_vector_len c"
    and fin: "compressed c \<Longrightarrow> all_finite (key @ val)"
    and seen: "lc_tokens_seen c < u64_max" and ids: "kw_next_block_id (lw_kv (ls_world s)) < u64_max"
  obtains s' where
    "layer_append_sliding_with_metadata key val s =
       (s', Ok \<lparr>la_token_index = lc_max_tokens c - 1, la_physical_token_index = lc_window_start c,
               la_token_count = lc_max_tokens c, la_tokens_seen = Suc (lc_tokens_seen c),
               la_revision = sat_add (lc_revision c) 1\<rparr>)"
    "layer_inv_at H SH (R(lc_window_start c := (key, val))) s'" "same_layer H SH s s'"
    "lc_token_count (ls_cache s') = lc_max_tokens c"
    "lc_window_start (ls_cache s') = Suc (lc_window_start c) mod lc_max_tokens c"
    "lc_tokens_seen (ls_cache s') = Suc (lc_tokens_seen c)" "lc_revision (ls_cache s') = sat_add (lc_revision c) 1"
proof -
  let ?n = "lc_max_tokens c" and ?v = "layer_vector_len c" and ?ws = "lc_window_start c"
  let ?R = "R(?ws := (key, val))" and ?w = "ls_world s" and ?T = "window_tokens ?n ?ws ?n"
  note d = layer_invD [OF inv, folded c_def, unfolded full]
  have fin': "compressed c \<Longrightarrow> finite_rows ?n ?R" using d(10) fin by (auto simp: finite_rows_def)
  obtain bs t rs k ist qs where b:
    "layer_write_block_token ?ws key val s =
       (s\<lparr>ls_cache := c\<lparr>lc_blocks := bs, lc_block_table := t, lc_active_block_runs := rs,
          lc_int8_storage := ist, lc_quantized_values := qs\<rparr>, ls_world := ?w\<lparr>lw_kv := k\<rparr>\<rparr>, Ok ())"
    "block_side {} {} H ?n ?v (lc_config c) ?n ?R k t bs ist qs" "runs_ok ?n t ?T rs"
    "\<forall>a \<in># H. arc_get (kw_heap k) a = arc_get (kw_heap (lw_kv ?w)) a"
    "kw_next_block_id k \<le> Suc (kw_next_block_id (lw_kv ?w))"
    "ist = None \<longleftrightarrow> lc_int8_storage c = None" "qs = None \<longleftrightarrow> lc_quantized_values c = None"
    by (rule write_block_token_ok [where s = s, folded c_def,
          OF d(7) d(5) order.refl refl ids d(9) len d(2,3) fin'])
  let ?s1 = "s\<lparr>ls_cache := c\<lparr>lc_blocks := bs, lc_block_table := t, lc_active_block_runs := rs,
          lc_int8_storage := ist, lc_quantized_values := qs\<rparr>, ls_world := ?w\<lparr>lw_kv := k\<rparr>\<rparr>"
  have v1: "?v = layer_vector_len (ls_cache ?s1)" by (simp add: layer_vector_len_def)
  have sd: "stage_side SH ?n ?v ?n R (lw_stages (ls_world ?s1)) (lc_key_stage (ls_cache ?s1)) (lc_value_stage (ls_cache ?s1))"
    using d(8) by simp
  have sub: "\<And>j. j < ?n \<Longrightarrow> j \<noteq> ?ws \<Longrightarrow> j < ?n" "?n \<le> ?n" by simp_all
  obtain ka va h where st: "layer_write_stage_token ?ws key val ?s1 =
       (?s1\<lparr>ls_cache := (ls_cache ?s1)\<lparr>lc_key_stage := ka, lc_value_stage := va, lc_key_contiguous_view := None,
            lc_value_contiguous_view := None\<rparr>, ls_world := (ls_world ?s1)\<lparr>lw_stages := h\<rparr>\<rparr>, Ok ())"
    "stage_side SH ?n ?v ?n ?R h ka va" "\<forall>a \<in># SH. arc_get h a = arc_get (lw_stages (ls_world ?s1)) a"
    by (rule write_stage_token_ok [where s = ?s1, OF sd v1 d(5) d(11) len sub])
  let ?s2 = "?s1\<lparr>ls_cache := (ls_cache ?s1)\<lparr>lc_key_stage := ka, lc_value_stage := va, lc_key_contiguous_view := None,
            lc_value_contiguous_view := None\<rparr>, ls_world := (ls_world ?s1)\<lparr>lw_stages := h\<rparr>\<rparr>"
  have "?T = map (\<lambda>i. (i, slot ?n ?ws i)) [0..<Suc (?n - 1)]" using d(1) by (simp add: window_tokens_def)
  then have runs2: "runs_ok ?n t (map (\<lambda>i. (i, slot ?n ?ws i)) [0..<Suc (?n - 1)]) (lc_active_block_runs (ls_cache ?s2))"
    using b(3) by simp
  obtain rs1 where ro: "layer_remove_oldest_active_block_token ?s2 =
      (?s2\<lparr>ls_cache := (ls_cache ?s2)\<lparr>lc_active_block_runs := rs1\<rparr>\<rparr>, Ok ())"
    "runs_ok ?n t (map (\<lambda>i. (i, slot ?n ?ws (Suc i))) [0..<?n - 1]) rs1"
    by (rule remove_oldest_ok [where s = ?s2, OF runs2 d(12)])
  let ?s3 = "?s2\<lparr>ls_cache := (ls_cache ?s2)\<lparr>lc_active_block_runs := rs1\<rparr>\<rparr>"
  have idk: "ids_ok k (lc_block_table (ls_cache ?s3)) (lc_blocks (ls_cache ?s3))"
    and lenb: "length (lc_blocks (ls_cache ?s3)) = div_ceil_blocks ?n"
    and n3: "?n = lc_max_tokens (ls_cache ?s3)"
    and runs3: "runs_ok ?n (lc_block_table (ls_cache ?s3)) (map (\<lambda>i. (i, slot ?n ?ws (Suc i))) [0..<?n - 1])
      (lc_active_block_runs (ls_cache ?s3))"
    using b(2) ro(2) by (simp_all add: block_side_def blocks_ok_def)
  obtain rs2 where r: "layer_append_active_block_run (?n - 1) ?ws ?s3 =
      (?s3\<lparr>ls_cache := (ls_cache ?s3)\<lparr>lc_active_block_runs := rs2\<rparr>\<rparr>, Ok ())"
    "runs_ok ?n (lc_block_table (ls_cache ?s3))
      (map (\<lambda>i. (i, slot ?n ?ws (Suc i))) [0..<?n - 1] @ [(?n - 1, ?ws)]) rs2"
    by (rule append_active_block_run_ok [where s = ?s3 and l = "?n - 1", OF idk lenb runs3 d(5) n3])
  let ?ws' = "Suc ?ws mod ?n"
  let ?s4 = "?s3\<lparr>ls_cache := (ls_cache ?s3)\<lparr>lc_active_block_runs := rs2, lc_window_start := ?ws',
      lc_tokens_seen := Suc (lc_tokens_seen c), lc_revision := sat_add (lc_revision c) 1\<rparr>\<rparr>"
  have wraps: "wrap_add ?ws (Suc 0) = Suc ?ws" "wrap_sub ?n (Suc 0) = ?n - 1"
    using d(1,5,12) by (simp_all add: wrap_sub_small)
  have res: "layer_append_sliding_with_metadata key val s =
       (?s4, Ok \<lparr>la_token_index = ?n - 1, la_physical_token_index = ?ws, la_token_count = ?n,
               la_tokens_seen = Suc (lc_tokens_seen c), la_revision = sat_add (lc_revision c) 1\<rparr>)"
    using full b(1) st(1) ro(1) r(1) seen wraps valid
    by (simp add: layer_append_sliding_with_metadata_def Let_def c_def [symmetric] and_do_def ok_or_def returning_def
        modify_cache_def checked_add_def)
  have comp: "compressed (ls_cache ?s4) = compressed c" using b(6,7) by (simp add: compressed_def)
  have "runs_ok ?n t (window_tokens ?n ?ws' ?n) rs2"
    using r(2) unfolding window_tokens_slide [OF d(5)] by simp
  moreover have "?ws' < ?n" using d(1) by simp
  ultimately have "layer_inv_at H SH ?R ?s4"
    using inv b st fin' comp full
    by (simp add: layer_inv_at_def Let_def shape_ok_def window_ok_def layer_vector_len_def view_ok_def finite_rows_def c_def [symmetric])
  then show thesis
    by (rule that [OF res]) (use b st comp full in \<open>simp_all add: same_layer_def c_def [symmetric]\<close>)
qed

section \<open>Clearing\<close>

lemma clear_blocks_ok:
  assumes "arc_ok (kw_heap k) (mset (map cb_storage blocks) + G)"
    and "\<forall>b \<in> set blocks. cache_block_wf k b" and "clear_blocks blocks k = (blocks', k')"
  shows "arc_ok (kw_heap k') (mset (map cb_storage blocks') + G) \<and>
    (\<forall>a \<in># G. arc_get (kw_heap k') a = arc_get (kw_heap k) a) \<and>
    k' = k\<lparr>kw_heap := kw_heap k'\<rparr> \<and>
    list_all2 (\<lambda>b b'. cache_block_wf k' b' \<and> block_rows k' b' = [] \<and> cb_token_count b' = 0 \<and>
       cb_capacity_tokens b' = cb_capacity_tokens b \<and> cb_vector_len b' = cb_vector_len b \<and> cb_id b' = cb_id b) blocks blocks'"
  using assms
proof (induction blocks arbitrary: k blocks' k' G)
  case Nil
  then show ?case by simp
next
  case (Cons b bs)
  obtain b1 k1 where c: "cache_block_clear b k = (b1, k1)" by fastforce
  obtain bs2 k2 where cs: "clear_blocks bs k1 = (bs2, k2)" by fastforce
  have res: "blocks' = b1 # bs2" "k' = k2" using Cons.prems(3) c cs by simp_all
  have ok: "arc_ok (kw_heap k) (add_mset (cb_storage b) (mset (map cb_storage bs) + G))" using Cons.prems(1) by simp
  have wf: "cache_block_wf k b" using Cons.prems(2) by simp
  note x = cache_block_clear_ok [OF wf ok c]
  have rest: "cache_block_wf k1 y" if "y \<in> set bs" for y
    using that Cons.prems(2) x(4) cache_block_wf_cong [of k1 y k y] by simp
  have ok1: "arc_ok (kw_heap k1) (mset (map cb_storage bs) + add_mset (cb_storage b1) G)" using x(3) by simp
  from Cons.IH [OF ok1 _ cs] rest have ih:
    "arc_ok (kw_heap k2) (mset (map cb_storage bs2) + add_mset (cb_storage b1) G)"
    "\<forall>a \<in># add_mset (cb_storage b1) G. arc_get (kw_heap k2) a = arc_get (kw_heap k1) a"
    "k2 = k1\<lparr>kw_heap := kw_heap k2\<rparr>"
    "list_all2 (\<lambda>b b'. cache_block_wf k2 b' \<and> block_rows k2 b' = [] \<and> cb_token_count b' = 0 \<and>
       cb_capacity_tokens b' = cb_capacity_tokens b \<and> cb_vector_len b' = cb_vector_len b \<and> cb_id b' = cb_id b) bs bs2"
    by blast+
  have f: "cb_token_count b1 = 0" "cb_capacity_tokens b1 = cb_capacity_tokens b" "cb_vector_len b1 = cb_vector_len b"
    "cb_id b1 = cb_id b"
    by (subst x(5), simp)+
  have "cache_block_wf k2 b1" using x(1) ih(2) cache_block_wf_cong [of k2 b1 k1 b1] by simp
  moreover have "block_rows k2 b1 = []" using f(1) by (simp add: block_rows_def split: option.splits)
  moreover have "k2 = k\<lparr>kw_heap := kw_heap k2\<rparr>"
    by (subst ih(3), subst x(6)) simp
  ultimately show ?case using ih f x(4) unfolding res by simp
qed

lemma clear_stage_ok:
  assumes "arc_ok h (add_mset a S)" and "arc_get h a = Some xs" and "clear_stage a h = (a', h')"
  shows "arc_ok h' (add_mset a' S)" and "arc_get h' a' = Some (replicate (length xs) 0)"
    and "\<forall>c \<in># S. arc_get h' c = arc_get h c"
proof -
  have "arc_ok h' (add_mset a' S) \<and> arc_get h' a' = Some (replicate (length xs) 0) \<and>
    (\<forall>c \<in># S. arc_get h' c = arc_get h c)"
  proof (cases "strong_count h a = 1")
    case True
    then have "arc_make_mut (\<lambda>xs. replicate (length xs) 0) a h = (a', h')"
      using assms(2,3) by (simp add: clear_stage_def)
    from arcs.make_mut_ok [OF assms(1) _ assms(2) this] show ?thesis by simp
  next
    case False
    obtain b h1 where n: "arc_new (replicate (length xs) 0) h = (b, h1)" by fastforce
    have r: "a' = b" "h' = arc_drop a h1" using False n assms(2,3) by (simp_all add: clear_stage_def)
    note nk = arcs.new_ok [OF assms(1) n]
    have mem: "a \<in># add_mset b (add_mset a S)" by simp
    have ok1: "arc_ok h1 (add_mset b (add_mset a S))" using nk by simp
    have ne: "b \<noteq> a" "b \<notin># S" using nk by auto
    note dk = arcs.drop_ok [OF ok1 mem]
    have "add_mset b (add_mset a S) - {#a#} = add_mset b S" by simp
    moreover have "arc_get h1 c = arc_get h c" if "c \<in># S" for c using that nk ne by metis
    moreover have "arc_get h1 b = Some (replicate (length xs) 0)" using nk by simp
    ultimately show ?thesis using dk ne unfolding r by auto
  qed
  then show "arc_ok h' (add_mset a' S)" "arc_get h' a' = Some (replicate (length xs) 0)"
    "\<forall>c \<in># S. arc_get h' c = arc_get h c" by simp_all
qed

end
