(* ===== verification/Layer_Window.thy ===== *)
theory Layer_Window
  imports Layer_Ring
begin

section \<open>Clearing\<close>

lemma block_fill_0 [simp]: "block_fill 0 i = 0"
  by (simp add: block_fill_def)

lemma cleared_side:
  assumes side: "block_side {} {} H n v cfg fill R k t blocks ist qs" and fill: "fill \<le> n"
    and cl: "clear_blocks blocks k = (blocks', k')"
  shows "block_side {} {} H n v cfg 0 R k' t blocks' (map_option int8_store_clear ist) (map_option value_store_clear qs)"
    and "\<forall>a \<in># H. arc_get (kw_heap k') a = arc_get (kw_heap k) a"
    and "kw_next_block_id k' = kw_next_block_id k"
proof -
  note bo = side [unfolded block_side_def]
  have wf: "\<forall>b \<in> set blocks. cache_block_wf k b"
    using bo fill block_okD(1) by (metis in_set_conv_nth)
  have ok: "arc_ok (kw_heap k) (mset (map cb_storage blocks) + H)" using bo by blast
  from clear_blocks_ok [OF ok wf cl]
  have c: "arc_ok (kw_heap k') (mset (map cb_storage blocks') + H)"
    "\<forall>a \<in># H. arc_get (kw_heap k') a = arc_get (kw_heap k) a" "k' = k\<lparr>kw_heap := kw_heap k'\<rparr>"
    and la: "list_all2 (\<lambda>b b'. cache_block_wf k' b' \<and> block_rows k' b' = [] \<and> cb_token_count b' = 0 \<and>
       cb_capacity_tokens b' = cb_capacity_tokens b \<and> cb_vector_len b' = cb_vector_len b \<and> cb_id b' = cb_id b)
       blocks blocks'"
    by blast+
  have len: "length blocks' = length blocks" using la by (simp add: list_all2_lengthD)
  have each: "cache_block_wf k' (blocks' ! i) \<and> block_rows k' (blocks' ! i) = [] \<and> cb_token_count (blocks' ! i) = 0 \<and>
       cb_capacity_tokens (blocks' ! i) = cb_capacity_tokens (blocks ! i) \<and>
       cb_vector_len (blocks' ! i) = cb_vector_len (blocks ! i) \<and> cb_id (blocks' ! i) = cb_id (blocks ! i)"
    if "i < length blocks" for i
    using list_all2_nthD [OF la that] .
  have next_id: "kw_next_block_id k' = kw_next_block_id k" by (subst c(3)) simp
  have ids: "map cb_id blocks' = map cb_id blocks" by (rule nth_equalityI) (use len each in simp_all)
  have "blocks_ok k' n v 0 R blocks'"
    using bo each len by (simp add: blocks_ok_def block_ok_def)
  moreover have "ids_ok k' t blocks'" using bo unfolding ids_ok_def ids next_id by blast
  moreover have empty: "\<forall>i < length blocks. cb_token_count (blocks' ! i) = 0" using each by blast
  then have "int8_ok {} k' v blocks' (map_option int8_store_clear ist)"
    using bo len by (auto simp: int8_ok_def int8_store_clear_def split: option.splits)
  moreover have "quantized_ok {} k' v cfg blocks' (map_option value_store_clear qs)"
    using bo empty len by (auto simp: quantized_ok_def value_store_clear_def split: option.splits)
  ultimately show "block_side {} {} H n v cfg 0 R k' t blocks' (map_option int8_store_clear ist) (map_option value_store_clear qs)"
    using c(1) unfolding block_side_def by blast
  show "\<forall>a \<in># H. arc_get (kw_heap k') a = arc_get (kw_heap k) a" "kw_next_block_id k' = kw_next_block_id k"
    by (rule c(2), rule next_id)
qed

lemma cleared_stages:
  assumes side: "stage_side SH n v fill R h ka va"
    and c1: "clear_stage ka h = (ka', h1)" and c2: "clear_stage va h1 = (va', h2)"
  shows "stage_side SH n v 0 R' h2 ka' va'" and "\<forall>a \<in># SH. arc_get h2 a = arc_get h a"
proof -
  obtain ks vs where s: "arc_get h ka = Some ks" "arc_get h va = Some vs" "length ks = n * v" "length vs = n * v"
    using side by (auto simp: stage_side_def stages_ok_def stage_ok_def)
  have ok: "arc_ok h (add_mset ka (add_mset va SH))" using side by (simp add: stage_side_def)
  note k1 = clear_stage_ok [OF ok s(1) c1]
  have ok1: "arc_ok h1 (add_mset va (add_mset ka' SH))" using k1(1) by (simp add: add_mset_commute)
  have g: "arc_get h1 va = Some vs" using k1(3) s(2) by simp
  note k2 = clear_stage_ok [OF ok1 g c2]
  have "arc_get h2 ka' = Some (replicate (n * v) 0)" using k2(3) k1(2) s(3) by simp
  then show "stage_side SH n v 0 R' h2 ka' va'"
    using k2(1,2) s(4) by (simp add: stage_side_def stages_ok_def stage_ok_def add_mset_commute)
  show "\<forall>a \<in># SH. arc_get h2 a = arc_get h a" using k2(3) k1(3) by simp
qed

lemma layer_clear_inv:
  fixes s :: layer_state
  assumes inv: "layer_inv_at H SH R s"
  shows "layer_inv_at H SH R (layer_clear s)" and "same_layer H SH s (layer_clear s)"
    and "lc_token_count (ls_cache (layer_clear s)) = 0" and "lc_tokens_seen (ls_cache (layer_clear s)) = 0"
    and "lc_revision (ls_cache (layer_clear s)) = sat_add (lc_revision (ls_cache s)) 1"
proof -
  define c where "c = ls_cache s"
  note d = layer_invD [OF inv, folded c_def]
  obtain bs k where cb: "clear_blocks (lc_blocks c) (lw_kv (ls_world s)) = (bs, k)" by fastforce
  obtain ka h1 where ck: "clear_stage (lc_key_stage c) (lw_stages (ls_world s)) = (ka, h1)" by fastforce
  obtain va h2 where cv: "clear_stage (lc_value_stage c) h1 = (va, h2)" by fastforce
  note b = cleared_side [OF d(7,4) cb] and st = cleared_stages [OF d(8) ck cv]
  have eq: "layer_clear s = s\<lparr>ls_cache := c\<lparr>lc_token_count := 0, lc_tokens_seen := 0, lc_window_start := 0,
        lc_blocks := bs, lc_quantized_values := map_option value_store_clear (lc_quantized_values c),
        lc_int8_storage := map_option int8_store_clear (lc_int8_storage c), lc_active_block_runs := [],
        lc_key_stage := ka, lc_value_stage := va, lc_key_contiguous_view := None, lc_value_contiguous_view := None,
        lc_revision := sat_add (lc_revision c) 1\<rparr>, ls_world := \<lparr>lw_kv = k, lw_stages = h2\<rparr>\<rparr>"
    using cb ck cv by (simp add: layer_clear_def layer_clear_stage_storage_def Let_def
        layer_invalidate_contiguous_stage_views_def c_def [symmetric])
  show "lc_token_count (ls_cache (layer_clear s)) = 0" "lc_tokens_seen (ls_cache (layer_clear s)) = 0"
    "lc_revision (ls_cache (layer_clear s)) = sat_add (lc_revision (ls_cache s)) 1"
    unfolding eq by (simp_all add: c_def)
  show "same_layer H SH s (layer_clear s)"
    using b st unfolding eq by (simp add: same_layer_def compressed_def c_def)
  have "shape_ok c" using inv by (simp add: layer_inv_at_def Let_def c_def)
  then show "layer_inv_at H SH R (layer_clear s)"
    using b(1) st(1) d(1) unfolding eq
    by (simp add: layer_inv_at_def Let_def shape_ok_def window_ok_def view_ok_def runs_ok_def window_tokens_def
        layer_vector_len_def)
qed

section \<open>Reading\<close>

lemma slot_in_use:
  assumes inv: "layer_inv_at H SH R s" and i: "i < lc_token_count (ls_cache s)"
  shows "slot (lc_max_tokens (ls_cache s)) (lc_window_start (ls_cache s)) i < lc_token_count (ls_cache s)"
  using layer_invD(1,4-6) [OF inv] i by (cases "lc_token_count (ls_cache s) < lc_max_tokens (ls_cache s)") (simp_all add: slot_def)

lemma physical_index_slot:
  assumes inv: "layer_inv_at H SH R s" and i: "i < lc_token_count (ls_cache s)"
  shows "layer_physical_index (ls_cache s) i = slot (lc_max_tokens (ls_cache s)) (lc_window_start (ls_cache s)) i"
proof -
  let ?n = "lc_max_tokens (ls_cache s)"
  note d = layer_invD [OF inv]
  have "?n * 1 \<le> ?n * layer_vector_len (ls_cache s)" by (rule mult_le_mono2) (use d(2) in simp)
  then have "lc_window_start (ls_cache s) + i \<le> u64_max" using d(3-5) i by linarith
  then show ?thesis by (simp add: layer_physical_index_def slot_def wrap_add_small)
qed

lemma layer_read_rows:
  assumes inv: "layer_inv_at H SH R s"
    and read: "\<And>k b j. cache_block_wf k b \<Longrightarrow>
      row_of k b j = Ok (if j < cb_token_count b then Some (part (block_rows k b ! j)) else None)"
  shows "layer_read row_of i s =
    Ok (if i < lc_token_count (ls_cache s)
        then Some (part (R (slot (lc_max_tokens (ls_cache s)) (lc_window_start (ls_cache s)) i))) else None)"
proof (cases "i < lc_token_count (ls_cache s)")
  case False
  then show ?thesis by (simp add: layer_read_def layer_block_position_def)
next
  case True
  let ?c = "ls_cache s"
  let ?p = "slot (lc_max_tokens ?c) (lc_window_start ?c) i"
  note d = layer_invD [OF inv]
  note bs = d(7) [unfolded block_side_def]
  have p: "?p < lc_token_count ?c" "?p < lc_max_tokens ?c" using slot_in_use [OF inv True] d(4) by simp_all
  have pos: "layer_block_position ?c i = Some (?p div 256, ?p mod 256)"
    using True p physical_index_slot [OF inv True]
    by (simp add: layer_block_position_def layer_physical_block_position_def LAYER_KV_BLOCK_TOKENS_def)
  have len: "?p div 256 < length (lc_blocks ?c)"
    using bs p(2) block_fill_facts(1) [OF p(2)] by (simp add: blocks_ok_def)
  have bok: "blocks_ok (lw_kv (ls_world s)) (lc_max_tokens ?c) (layer_vector_len ?c) (lc_token_count ?c) R (lc_blocks ?c)"
    and iok: "ids_ok (lw_kv (ls_world s)) (lc_block_table ?c) (lc_blocks ?c)" using bs by blast+
  note b = block_okD [OF bok len d(4)]
  let ?b = "lc_blocks ?c ! (?p div 256)"
  have in_fill: "?p mod 256 < block_fill (lc_token_count ?c) (?p div 256)" by (rule block_fill_facts(2) [OF p(1)])
  then have "block_rows (lw_kv (ls_world s)) ?b ! (?p mod 256) = R (256 * (?p div 256) + ?p mod 256)"
    unfolding b(5) by simp
  then have "block_rows (lw_kv (ls_world s)) ?b ! (?p mod 256) = R ?p" by simp
  then have "row_of (lw_kv (ls_world s)) ?b (?p mod 256) = Ok (Some (part (R ?p)))"
    using in_fill read [OF b(1)] b(4) by simp
  then show ?thesis using True pos len ids_okD(1) [OF iok len] by (simp add: layer_read_def Let_def)
qed

lemma row_drop: "row v (drop (a * v) xs) = (\<lambda>i. row v xs (a + i))"
  by (rule ext) (simp add: row_def add_mult_distrib add.commute)

lemma rows_slice:
  assumes "(a + m) * v \<le> length xs"
  shows "slice_range (a * v) ((a + m) * v) xs = Some (concat (map (\<lambda>i. row v xs (a + i)) [0..<m]))"
proof -
  have "m * v \<le> length (drop (a * v) xs)" using assms by (simp add: add_mult_distrib)
  from concat_rows [OF this]
  have "concat (map (\<lambda>i. row v xs (a + i)) [0..<m]) = take (m * v) (drop (a * v) xs)" by (simp add: row_drop)
  then show ?thesis using assms by (simp add: slice_range_def add_mult_distrib)
qed

lemma window_split:
  assumes "ws < n"
  shows "map (\<lambda>i. f (slot n ws i)) [0..<n] = map (\<lambda>i. f (ws + i)) [0..<n - ws] @ map (\<lambda>i. f (0 + i)) [0..<ws]"
proof -
  have u: "[0..<n] = [0..<n - ws] @ map (\<lambda>i. n - ws + i) [0..<ws]"
    using assms upt_add_eq_append [of 0 "n - ws" ws] map_add_upt [of "n - ws" ws] by (simp add: add.commute)
  have "slot n ws i = ws + i" if "i < n - ws" for i using that by (simp add: slot_def)
  moreover have "slot n ws (n - ws + i) = i" if "i < ws" for i using that assms by (simp add: slot_def)
  ultimately show ?thesis unfolding u by simp
qed

lemma contiguous_stage_view_ok:
  fixes c :: layer_kv_cache and f :: "nat \<Rightarrow> f32 list"
  defines "n \<equiv> lc_max_tokens c" and "v \<equiv> layer_vector_len c" and "tc \<equiv> lc_token_count c" and "ws \<equiv> lc_window_start c"
  defines "rs \<equiv> map (\<lambda>i. f (slot n ws i)) [0..<tc]"
  assumes st: "stage_ok n v tc f xs" and fits: "n * v \<le> u64_max" "n \<le> u64_max"
    and win: "tc \<le> n" "ws < n" "tc < n \<Longrightarrow> ws = 0" and view: "view_ok view rs"
  obtains view' where "contiguous_stage_view c xs view = (view', Ok (concat rs))" "view_ok view' rs"
proof -
  have len: "length xs = n * v" and rows: "\<And>j. j < tc \<Longrightarrow> row v xs j = f j" using st by (auto simp: stage_ok_def)
  have first: "wrap_sub n ws = n - ws" using win(2) fits(2) by (simp add: wrap_sub_small)
  have le: "a * v \<le> u64_max" if "a \<le> n" for a using mult_le_mono1 [OF that, of v] fits(1) by linarith
  note defs = contiguous_stage_view_def Let_def layer_used_len_def
    n_def [symmetric] v_def [symmetric] tc_def [symmetric] ws_def [symmetric]
  show thesis
  proof (cases "tc \<le> n - ws")
    case True
    have bound: "(ws + tc) * v \<le> length xs"
      unfolding len by (rule mult_le_mono1) (use True win(2) in linarith)
    have wrap: "wrap_mul ws v = ws * v" "wrap_mul tc v = tc * v" "wrap_add (ws * v) (tc * v) = (ws + tc) * v"
      using le [of ws] le [of tc] le [of "ws + tc"] win True
      by (simp_all add: wrap_mul_small wrap_add_small add_mult_distrib)
    have "map (\<lambda>i. row v xs (ws + i)) [0..<tc] = rs"
      unfolding rs_def using win True rows by (cases "tc < n") (auto simp: slot_def)
    then have "contiguous_stage_view c xs view = (view, Ok (concat rs))"
      using rows_slice [OF bound] wrap True first by (simp add: defs)
    then show thesis by (rule that) (rule view)
  next
    case False
    then have full: "tc = n" "ws \<le> n" using win by fastforce+
    have b1: "(ws + (n - ws)) * v \<le> length xs" and b2: "(0 + ws) * v \<le> length xs" using full len by simp_all
    have wrap: "wrap_mul ws v = ws * v" "wrap_mul n v = n * v" "wrap_mul (n - ws) v = (n - ws) * v"
      "wrap_sub (n * v) ((n - ws) * v) = (0 + ws) * v" "wrap_add (ws * v) ((n - ws) * v) = (ws + (n - ws)) * v"
      using le [of ws] le [of n] le [of "n - ws"] full
      by (simp_all add: wrap_mul_small wrap_add_small wrap_sub_small diff_mult_distrib)
    have "rs = map (\<lambda>i. row v xs (ws + i)) [0..<n - ws] @ map (\<lambda>i. row v xs (0 + i)) [0..<ws]"
      unfolding rs_def full window_split [OF win(2)] using rows full win(2) by auto
    then have "concat (map (\<lambda>i. row v xs (ws + i)) [0..<n - ws]) @ concat (map (\<lambda>i. row v xs (0 + i)) [0..<ws]) = concat rs"
      by simp
    then have "contiguous_stage_view c xs view =
        (case view of Some ys \<Rightarrow> (view, Ok ys) | None \<Rightarrow> (Some (concat rs), Ok (concat rs)))"
      using rows_slice [OF b1] rows_slice [OF b2] wrap False first full(1)
      by (simp add: defs split: option.splits)
    then have "contiguous_stage_view c xs view = (Some (concat rs), Ok (concat rs))"
      using view by (cases view) (simp_all add: view_ok_def)
    then show thesis by (rule that) (simp add: view_ok_def)
  qed
qed

lemma layer_keys_ok:
  assumes inv: "layer_inv_at H SH R s"
  obtains view where
    "layer_keys s = (s\<lparr>ls_cache := (ls_cache s)\<lparr>lc_key_contiguous_view := view\<rparr>\<rparr>,
       Ok (concat (map fst (rows_of (lc_max_tokens (ls_cache s)) (lc_window_start (ls_cache s)) (lc_token_count (ls_cache s)) R))))"
    "layer_inv_at H SH R (s\<lparr>ls_cache := (ls_cache s)\<lparr>lc_key_contiguous_view := view\<rparr>\<rparr>)"
proof -
  let ?c = "ls_cache s"
  note d = layer_invD [OF inv]
  obtain ks where k: "arc_get (lw_stages (ls_world s)) (lc_key_stage ?c) = Some ks"
    "stage_ok (lc_max_tokens ?c) (layer_vector_len ?c) (lc_token_count ?c) (fst \<circ> R) ks"
    using d(8) by (auto simp: stage_side_def stages_ok_def)
  have vw: "view_ok (lc_key_contiguous_view ?c)
      (map (\<lambda>i. (fst \<circ> R) (slot (lc_max_tokens ?c) (lc_window_start ?c) i)) [0..<lc_token_count ?c])"
    using inv by (simp add: layer_inv_at_def Let_def rows_of_def comp_def)
  obtain view where v: "contiguous_stage_view ?c ks (lc_key_contiguous_view ?c) =
      (view, Ok (concat (map (\<lambda>i. (fst \<circ> R) (slot (lc_max_tokens ?c) (lc_window_start ?c) i)) [0..<lc_token_count ?c])))"
    "view_ok view (map (\<lambda>i. (fst \<circ> R) (slot (lc_max_tokens ?c) (lc_window_start ?c) i)) [0..<lc_token_count ?c])"
    by (rule contiguous_stage_view_ok [OF k(2) d(11,12,4,5) d(6) vw])
  show thesis
    by (rule that [of view])
      (use v k inv in \<open>simp_all add: layer_keys_def Let_def rows_of_def comp_def layer_inv_at_def shape_ok_def window_ok_def
        layer_vector_len_def compressed_def\<close>)
qed

lemma layer_values_ok:
  assumes inv: "layer_inv_at H SH R s"
  obtains view where
    "layer_values s = (s\<lparr>ls_cache := (ls_cache s)\<lparr>lc_value_contiguous_view := view\<rparr>\<rparr>,
       Ok (concat (map snd (rows_of (lc_max_tokens (ls_cache s)) (lc_window_start (ls_cache s)) (lc_token_count (ls_cache s)) R))))"
    "layer_inv_at H SH R (s\<lparr>ls_cache := (ls_cache s)\<lparr>lc_value_contiguous_view := view\<rparr>\<rparr>)"
proof -
  let ?c = "ls_cache s"
  note d = layer_invD [OF inv]
  obtain vs where k: "arc_get (lw_stages (ls_world s)) (lc_value_stage ?c) = Some vs"
    "stage_ok (lc_max_tokens ?c) (layer_vector_len ?c) (lc_token_count ?c) (snd \<circ> R) vs"
    using d(8) by (auto simp: stage_side_def stages_ok_def)
  have vw: "view_ok (lc_value_contiguous_view ?c)
      (map (\<lambda>i. (snd \<circ> R) (slot (lc_max_tokens ?c) (lc_window_start ?c) i)) [0..<lc_token_count ?c])"
    using inv by (simp add: layer_inv_at_def Let_def rows_of_def comp_def)
  obtain view where v: "contiguous_stage_view ?c vs (lc_value_contiguous_view ?c) =
      (view, Ok (concat (map (\<lambda>i. (snd \<circ> R) (slot (lc_max_tokens ?c) (lc_window_start ?c) i)) [0..<lc_token_count ?c])))"
    "view_ok view (map (\<lambda>i. (snd \<circ> R) (slot (lc_max_tokens ?c) (lc_window_start ?c) i)) [0..<lc_token_count ?c])"
    by (rule contiguous_stage_view_ok [OF k(2) d(11,12,4,5) d(6) vw])
  show thesis
    by (rule that [of view])
      (use v k inv in \<open>simp_all add: layer_values_def Let_def rows_of_def comp_def layer_inv_at_def shape_ok_def window_ok_def
        layer_vector_len_def compressed_def\<close>)
qed

section \<open>The window a layer promises\<close>

text \<open>
  What a layer cache is, seen from its operations: a list of at most \<open>max_tokens\<close> token rows, the oldest
  first. \<open>append\<close> refuses when the list is full, \<open>append_sliding\<close> drops the oldest row. \<open>sp_budget\<close>
  bounds the steps of a run, so that the process-wide counter of block identities and the counter
  of seen tokens do not reach the end of 64 bits, where the code reports \<open>InvalidShape\<close>.
\<close>

record layer_spec =
  sp_max_tokens :: nat
  sp_vector_len :: nat
  sp_compressed :: bool
  sp_rows :: "token_row list"
  sp_budget :: nat

datatype layer_op =
    LayerAppend "f32 list" "f32 list"
  | LayerAppendSliding "f32 list" "f32 list"
  | LayerClear
  | LayerKeys
  | LayerValues
  | LayerKey nat
  | LayerValue nat

datatype layer_out =
    OutIndex "(kv_cache_error, nat) outcome"
  | OutUnit
  | OutSlice "(kv_cache_error, f32 list) outcome"
  | OutRow "(kv_cache_error, f32 list option) outcome"

definition layer_step :: "layer_op \<Rightarrow> layer_state \<Rightarrow> layer_state \<times> layer_out" where
  "layer_step oper s =
     (case oper of
        LayerAppend key val \<Rightarrow> map_prod id OutIndex (layer_append key val s)
      | LayerAppendSliding key val \<Rightarrow> map_prod id OutIndex (layer_append_sliding key val s)
      | LayerClear \<Rightarrow> (layer_clear s, OutUnit)
      | LayerKeys \<Rightarrow> map_prod id OutSlice (layer_keys s)
      | LayerValues \<Rightarrow> map_prod id OutSlice (layer_values s)
      | LayerKey i \<Rightarrow> (s, OutRow (layer_key i s))
      | LayerValue i \<Rightarrow> (s, OutRow (layer_value i s)))"

definition spec_rejects :: "layer_spec \<Rightarrow> f32 list \<Rightarrow> f32 list \<Rightarrow> kv_cache_error option" where
  "spec_rejects a key val =
     (if length key \<noteq> sp_vector_len a then Some (ShapeMismatch (sp_vector_len a) (length key))
      else if length val \<noteq> sp_vector_len a then Some (ShapeMismatch (sp_vector_len a) (length val))
      else if sp_compressed a \<and> \<not> all_finite (key @ val) then Some NonFiniteValue
      else None)"

definition spec_append :: "bool \<Rightarrow> f32 list \<Rightarrow> f32 list \<Rightarrow> layer_spec \<Rightarrow> layer_spec \<times> layer_out" where
  "spec_append sliding key val a =
     (case spec_rejects a key val of
        Some e \<Rightarrow> (a, OutIndex (Err e))
      | None \<Rightarrow>
          if length (sp_rows a) < sp_max_tokens a
          then (a\<lparr>sp_rows := sp_rows a @ [(key, val)]\<rparr>, OutIndex (Ok (length (sp_rows a))))
          else if sliding
          then (a\<lparr>sp_rows := tl (sp_rows a) @ [(key, val)]\<rparr>, OutIndex (Ok (sp_max_tokens a - 1)))
          else (a, OutIndex (Err (CapacityExceeded 1 0))))"

definition spec_row :: "(token_row \<Rightarrow> f32 list) \<Rightarrow> nat \<Rightarrow> layer_spec \<Rightarrow> f32 list option" where
  "spec_row part i a = (if i < length (sp_rows a) then Some (part (sp_rows a ! i)) else None)"

definition spec_layer_step :: "layer_op \<Rightarrow> layer_spec \<Rightarrow> layer_spec \<times> layer_out" where
  "spec_layer_step oper a0 =
     (let a = a0\<lparr>sp_budget := sp_budget a0 - 1\<rparr>
      in case oper of
           LayerAppend key val \<Rightarrow> spec_append False key val a
         | LayerAppendSliding key val \<Rightarrow> spec_append True key val a
         | LayerClear \<Rightarrow> (a\<lparr>sp_rows := []\<rparr>, OutUnit)
         | LayerKeys \<Rightarrow> (a, OutSlice (Ok (concat (map fst (sp_rows a)))))
         | LayerValues \<Rightarrow> (a, OutSlice (Ok (concat (map snd (sp_rows a)))))
         | LayerKey i \<Rightarrow> (a, OutRow (Ok (spec_row fst i a)))
         | LayerValue i \<Rightarrow> (a, OutRow (Ok (spec_row snd i a))))"

definition layer_related :: "nat multiset \<Rightarrow> nat multiset \<Rightarrow> layer_state \<Rightarrow> layer_spec \<Rightarrow> bool" where
  "layer_related H SH s a \<longleftrightarrow>
     layer_inv H SH (sp_rows a) s \<and> sp_max_tokens a = lc_max_tokens (ls_cache s) \<and>
     sp_vector_len a = layer_vector_len (ls_cache s) \<and> sp_compressed a = compressed (ls_cache s) \<and>
     lc_tokens_seen (ls_cache s) + sp_budget a \<le> u64_max \<and>
     kw_next_block_id (lw_kv (ls_world s)) + sp_budget a \<le> u64_max \<and>
     length (sp_rows a) \<le> lc_tokens_seen (ls_cache s) \<and>
     (compressed (ls_cache s) \<longleftrightarrow> cfg_format (lc_config (ls_cache s)) = Int8 \<or> cfg_asymmetric_vq (lc_config (ls_cache s)) \<noteq> None) \<and>
     cfg_format (lc_config (ls_cache s)) \<noteq> F16"

lemma layer_relatedE:
  assumes "layer_related H SH s a"
  obtains R where "layer_inv_at H SH R s"
    "sp_rows a = rows_of (lc_max_tokens (ls_cache s)) (lc_window_start (ls_cache s)) (lc_token_count (ls_cache s)) R"
    "length (sp_rows a) = lc_token_count (ls_cache s)"
  using assms that by (auto simp: layer_related_def layer_inv_def rows_of_def)

lemma validate_spec:
  assumes "sp_vector_len a = layer_vector_len c" and "sp_compressed a = compressed c"
  shows "layer_validate_sliding_append c key val = (case spec_rejects a key val of None \<Rightarrow> Ok () | Some e \<Rightarrow> Err e)"
  using assms by (auto simp: layer_validate_sliding_append_def layer_validate_token_shape_def
      layer_validate_compressed_token_payload_def spec_rejects_def compressed_def all_finite_def split: if_splits)

text \<open>The two ways a row enters the window.\<close>

lemma rows_of_push:
  "tc < n \<Longrightarrow> rows_of n 0 (Suc tc) (R(tc := r)) = rows_of n 0 tc R @ [r]"
  by (auto simp: rows_of_def slot_def)

lemma rows_of_slide:
  assumes "ws < n"
  shows "rows_of n (Suc ws mod n) n (R(ws := r)) = tl (rows_of n ws n R) @ [r]"
proof -
  have "slot n ws (Suc i) \<noteq> ws" if "i < n - 1" for i
  proof -
    have "(ws + Suc i) mod n \<noteq> ws mod n"
      using that mod_eq_dvd_iff_nat [of ws "ws + Suc i" n] by (auto dest!: dvd_imp_le)
    then show ?thesis using assms by (simp add: slot_def)
  qed
  moreover have u: "[0..<n] = [0..<n - 1] @ [n - 1]" "[0..<n] = 0 # map Suc [0..<n - 1]"
    using assms by (simp_all add: map_Suc_upt upt_conv_Cons flip: upt_Suc_append)
  have "rows_of n (Suc ws mod n) n (R(ws := r)) = map (\<lambda>i. (R(ws := r)) (slot n ws (Suc i))) [0..<n - 1] @ [r]"
    unfolding rows_of_def u(1) using slot_next [OF assms] by simp
  moreover have "tl (rows_of n ws n R) = map (\<lambda>i. R (slot n ws (Suc i))) [0..<n - 1]"
    unfolding rows_of_def u(2) by (simp add: comp_def)
  ultimately show ?thesis by auto
qed

lemma append_related:
  assumes rel: "layer_related H SH s a" and budget: "0 < sp_budget a"
    and ok: "spec_rejects a key val = None" and room: "length (sp_rows a) < sp_max_tokens a"
  obtains s' m where "layer_append_at_end_validated key val s = (s', Ok m)" "la_token_index m = length (sp_rows a)"
    "layer_related H SH s' (a\<lparr>sp_budget := sp_budget a - 1, sp_rows := sp_rows a @ [(key, val)]\<rparr>)"
    "same_layer H SH s s'"
proof -
  obtain R where R: "layer_inv_at H SH R s"
    "sp_rows a = rows_of (lc_max_tokens (ls_cache s)) (lc_window_start (ls_cache s)) (lc_token_count (ls_cache s)) R"
    "length (sp_rows a) = lc_token_count (ls_cache s)"
    using rel by (rule layer_relatedE)
  have f: "sp_max_tokens a = lc_max_tokens (ls_cache s)" "sp_vector_len a = layer_vector_len (ls_cache s)"
    "sp_compressed a = compressed (ls_cache s)" using rel by (simp_all add: layer_related_def)
  have room': "lc_token_count (ls_cache s) < lc_max_tokens (ls_cache s)" using room R(3) f by simp
  have len: "length key = layer_vector_len (ls_cache s)" "length val = layer_vector_len (ls_cache s)"
    and fin: "compressed (ls_cache s) \<Longrightarrow> all_finite (key @ val)"
    using ok f by (auto simp: spec_rejects_def split: if_splits)
  have b: "lc_tokens_seen (ls_cache s) < u64_max" "kw_next_block_id (lw_kv (ls_world s)) < u64_max"
    using rel budget by (simp_all add: layer_related_def)
  obtain s' where s': "layer_append_at_end_validated key val s =
       (s', Ok \<lparr>la_token_index = lc_token_count (ls_cache s), la_physical_token_index = lc_token_count (ls_cache s),
               la_token_count = Suc (lc_token_count (ls_cache s)), la_tokens_seen = Suc (lc_tokens_seen (ls_cache s)),
               la_revision = sat_add (lc_revision (ls_cache s)) 1\<rparr>)"
    "layer_inv_at H SH (R(lc_token_count (ls_cache s) := (key, val))) s'" "same_layer H SH s s'"
    "lc_token_count (ls_cache s') = Suc (lc_token_count (ls_cache s))" "lc_window_start (ls_cache s') = 0"
    "lc_tokens_seen (ls_cache s') = Suc (lc_tokens_seen (ls_cache s))"
    by (rule append_at_end_inv [OF R(1) room' len fin b])
  have ws: "lc_window_start (ls_cache s) = 0" by (rule layer_invD(6) [OF R(1) room'])
  have "layer_inv H SH (sp_rows a @ [(key, val)]) s'"
    unfolding layer_inv_def using s'(2-5) R(2) ws rows_of_push [OF room', of R "(key, val)"]
    by (intro exI [of _ "R(lc_token_count (ls_cache s) := (key, val))"]) (simp add: same_layer_def)
  then have "layer_related H SH s' (a\<lparr>sp_budget := sp_budget a - 1, sp_rows := sp_rows a @ [(key, val)]\<rparr>)"
    using rel budget s'(3,6) by (auto simp: layer_related_def same_layer_def layer_vector_len_def)
  then show thesis by (rule that [OF s'(1), rotated]) (use R(3) s'(3) in simp_all)
qed

lemma slide_related:
  assumes rel: "layer_related H SH s a" and budget: "0 < sp_budget a"
    and ok: "spec_rejects a key val = None" and full: "\<not> length (sp_rows a) < sp_max_tokens a"
  obtains s' m where "layer_append_sliding_with_metadata key val s = (s', Ok m)" "la_token_index m = sp_max_tokens a - 1"
    "layer_related H SH s' (a\<lparr>sp_budget := sp_budget a - 1, sp_rows := tl (sp_rows a) @ [(key, val)]\<rparr>)"
    "same_layer H SH s s'"
proof -
  obtain R where R: "layer_inv_at H SH R s"
    "sp_rows a = rows_of (lc_max_tokens (ls_cache s)) (lc_window_start (ls_cache s)) (lc_token_count (ls_cache s)) R"
    "length (sp_rows a) = lc_token_count (ls_cache s)"
    using rel by (rule layer_relatedE)
  have f: "sp_max_tokens a = lc_max_tokens (ls_cache s)" "sp_vector_len a = layer_vector_len (ls_cache s)"
    "sp_compressed a = compressed (ls_cache s)" using rel by (simp_all add: layer_related_def)
  have full': "lc_token_count (ls_cache s) = lc_max_tokens (ls_cache s)"
    using full R(3) f layer_invD(4) [OF R(1)] by simp
  have len: "length key = layer_vector_len (ls_cache s)" "length val = layer_vector_len (ls_cache s)"
    and fin: "compressed (ls_cache s) \<Longrightarrow> all_finite (key @ val)"
    using ok f by (auto simp: spec_rejects_def split: if_splits)
  have valid: "layer_validate_sliding_append (ls_cache s) key val = Ok ()"
    using validate_spec [OF f(2,3)] ok by simp
  have b: "lc_tokens_seen (ls_cache s) < u64_max" "kw_next_block_id (lw_kv (ls_world s)) < u64_max"
    using rel budget by (simp_all add: layer_related_def)
  let ?ws = "lc_window_start (ls_cache s)" and ?n = "lc_max_tokens (ls_cache s)"
  obtain s' where s': "layer_append_sliding_with_metadata key val s =
       (s', Ok \<lparr>la_token_index = ?n - 1, la_physical_token_index = ?ws,
               la_token_count = ?n, la_tokens_seen = Suc (lc_tokens_seen (ls_cache s)),
               la_revision = sat_add (lc_revision (ls_cache s)) 1\<rparr>)"
    "layer_inv_at H SH (R(?ws := (key, val))) s'" "same_layer H SH s s'"
    "lc_token_count (ls_cache s') = ?n" "lc_window_start (ls_cache s') = Suc ?ws mod ?n"
    "lc_tokens_seen (ls_cache s') = Suc (lc_tokens_seen (ls_cache s))"
    by (rule append_sliding_inv [OF R(1) full' valid len fin b])
  have "layer_inv H SH (tl (sp_rows a) @ [(key, val)]) s'"
    unfolding layer_inv_def using s'(2-5) R(2) full' rows_of_slide [OF layer_invD(5) [OF R(1)], of R "(key, val)"]
    by (intro exI [of _ "R(?ws := (key, val))"]) (simp add: same_layer_def)
  then have "layer_related H SH s' (a\<lparr>sp_budget := sp_budget a - 1, sp_rows := tl (sp_rows a) @ [(key, val)]\<rparr>)"
    using rel budget s'(3,6) by (auto simp: layer_related_def same_layer_def layer_vector_len_def)
  then show thesis by (rule that [OF s'(1), rotated]) (use f s'(3) in simp_all)
qed

lemma unchanged_related:
  assumes "layer_related H SH s a" and "b \<le> sp_budget a"
  shows "layer_related H SH s (a\<lparr>sp_budget := b\<rparr>)"
  using assms by (simp add: layer_related_def)

lemma append_simulates:
  assumes rel: "layer_related H SH s a" and budget: "0 < sp_budget a"
  shows "layer_related H SH (fst (layer_step (LayerAppend key val) s)) (fst (spec_layer_step (LayerAppend key val) a)) \<and>
    snd (layer_step (LayerAppend key val) s) = snd (spec_layer_step (LayerAppend key val) a) \<and>
    same_layer H SH s (fst (layer_step (LayerAppend key val) s))"
proof -
  have f: "sp_max_tokens a = lc_max_tokens (ls_cache s)" "sp_vector_len a = layer_vector_len (ls_cache s)"
    "sp_compressed a = compressed (ls_cache s)" using rel by (simp_all add: layer_related_def)
  have rej: "spec_rejects (a\<lparr>sp_budget := b\<rparr>) key val = spec_rejects a key val" for b by (simp add: spec_rejects_def)
  note simps = layer_step_def spec_layer_step_def Let_def layer_append_def layer_append_with_metadata_def and_do_def
    returning_def validate_spec [OF f(2,3)] spec_append_def rej unchanged_related [OF rel]
  have count: "length (sp_rows a) = lc_token_count (ls_cache s)" "lc_token_count (ls_cache s) \<le> lc_max_tokens (ls_cache s)"
    using rel layer_invD(4) by (auto elim!: layer_relatedE)
  show ?thesis
  proof (cases "spec_rejects a key val")
    case (Some e)
    then show ?thesis by (simp add: simps)
  next
    case None
    show ?thesis
    proof (cases "length (sp_rows a) < sp_max_tokens a")
      case True
      obtain s' m where "layer_append_at_end_validated key val s = (s', Ok m)" "la_token_index m = length (sp_rows a)"
        "layer_related H SH s' (a\<lparr>sp_budget := sp_budget a - 1, sp_rows := sp_rows a @ [(key, val)]\<rparr>)" "same_layer H SH s s'"
        by (rule append_related [OF rel budget None True])
      then show ?thesis using None True f count by (simp add: simps)
    next
      case False
      then have "lc_token_count (ls_cache s) = lc_max_tokens (ls_cache s)" using f count by simp
      then show ?thesis using None False by (simp add: simps)
    qed
  qed
qed

lemma append_sliding_simulates:
  assumes rel: "layer_related H SH s a" and budget: "0 < sp_budget a"
  shows "layer_related H SH (fst (layer_step (LayerAppendSliding key val) s)) (fst (spec_layer_step (LayerAppendSliding key val) a)) \<and>
    snd (layer_step (LayerAppendSliding key val) s) = snd (spec_layer_step (LayerAppendSliding key val) a) \<and>
    same_layer H SH s (fst (layer_step (LayerAppendSliding key val) s))"
proof -
  have f: "sp_max_tokens a = lc_max_tokens (ls_cache s)" "sp_vector_len a = layer_vector_len (ls_cache s)"
    "sp_compressed a = compressed (ls_cache s)" using rel by (simp_all add: layer_related_def)
  have rej: "spec_rejects (a\<lparr>sp_budget := b\<rparr>) key val = spec_rejects a key val" for b by (simp add: spec_rejects_def)
  note simps = layer_step_def spec_layer_step_def Let_def layer_append_sliding_def and_do_def returning_def
    spec_append_def rej unchanged_related [OF rel]
  have count: "length (sp_rows a) = lc_token_count (ls_cache s)"
    using rel by (auto elim!: layer_relatedE)
  show ?thesis
  proof (cases "spec_rejects a key val")
    case (Some e)
    then have "layer_append_sliding_with_metadata key val s = (s, Err e)"
      by (simp add: layer_append_sliding_with_metadata_def validate_spec [OF f(2,3)])
    then show ?thesis using Some by (simp add: simps)
  next
    case None
    show ?thesis
    proof (cases "length (sp_rows a) < sp_max_tokens a")
      case True
      obtain s' m where a: "layer_append_at_end_validated key val s = (s', Ok m)" "la_token_index m = length (sp_rows a)"
        "layer_related H SH s' (a\<lparr>sp_budget := sp_budget a - 1, sp_rows := sp_rows a @ [(key, val)]\<rparr>)" "same_layer H SH s s'"
        by (rule append_related [OF rel budget None True])
      have "layer_append_sliding_with_metadata key val s = layer_append_at_end_validated key val s"
        using True None f count by (simp add: layer_append_sliding_with_metadata_def validate_spec [OF f(2,3)] Let_def)
      then show ?thesis using a None True by (simp add: simps)
    next
      case False
      obtain s' m where "layer_append_sliding_with_metadata key val s = (s', Ok m)" "la_token_index m = sp_max_tokens a - 1"
        "layer_related H SH s' (a\<lparr>sp_budget := sp_budget a - 1, sp_rows := tl (sp_rows a) @ [(key, val)]\<rparr>)" "same_layer H SH s s'"
        by (rule slide_related [OF rel budget None False])
      then show ?thesis using None False by (simp add: simps)
    qed
  qed
qed

lemma clear_simulates:
  assumes rel: "layer_related H SH s a"
  shows "layer_related H SH (layer_clear s) (a\<lparr>sp_budget := sp_budget a - 1, sp_rows := []\<rparr>) \<and> same_layer H SH s (layer_clear s)"
proof -
  obtain R where R: "layer_inv_at H SH R s" using rel by (rule layer_relatedE)
  note c = layer_clear_inv [OF R]
  have next_id: "kw_next_block_id (lw_kv (ls_world (layer_clear s))) = kw_next_block_id (lw_kv (ls_world s))"
  proof -
    obtain bs k where cb: "clear_blocks (lc_blocks (ls_cache s)) (lw_kv (ls_world s)) = (bs, k)" by fastforce
    have "lw_kv (ls_world (layer_clear s)) = k"
      using cb by (simp add: layer_clear_def layer_clear_stage_storage_def Let_def split: prod.splits)
    then show ?thesis using cleared_side(3) [OF layer_invD(7,4) [OF R] cb] by simp
  qed
  have "layer_inv H SH [] (layer_clear s)"
    using c(1,3) by (auto simp: layer_inv_def rows_of_def)
  then show ?thesis using rel c(2,4) next_id by (auto simp: layer_related_def same_layer_def layer_vector_len_def)
qed

lemma view_related:
  assumes rel: "layer_related H SH s a" and inv: "layer_inv_at H SH R (s\<lparr>ls_cache := c\<rparr>)"
    and R: "sp_rows a = rows_of (lc_max_tokens (ls_cache s)) (lc_window_start (ls_cache s)) (lc_token_count (ls_cache s)) R"
    and c: "c = (ls_cache s)\<lparr>lc_key_contiguous_view := kv\<rparr> \<or> c = (ls_cache s)\<lparr>lc_value_contiguous_view := kv\<rparr>"
  shows "layer_related H SH (s\<lparr>ls_cache := c\<rparr>) (a\<lparr>sp_budget := sp_budget a - 1\<rparr>) \<and> same_layer H SH s (s\<lparr>ls_cache := c\<rparr>)"
proof -
  have "layer_inv H SH (sp_rows a) (s\<lparr>ls_cache := c\<rparr>)" unfolding layer_inv_def using inv R c by auto
  then show ?thesis using rel c by (auto simp: layer_related_def same_layer_def layer_vector_len_def compressed_def)
qed

lemma layer_simulates:
  assumes rel: "layer_related H SH s a" and budget: "0 < sp_budget a"
  shows "layer_related H SH (fst (layer_step oper s)) (fst (spec_layer_step oper a)) \<and>
    snd (layer_step oper s) = snd (spec_layer_step oper a) \<and> same_layer H SH s (fst (layer_step oper s))"
proof -
  obtain R where R: "layer_inv_at H SH R s"
    "sp_rows a = rows_of (lc_max_tokens (ls_cache s)) (lc_window_start (ls_cache s)) (lc_token_count (ls_cache s)) R"
    "length (sp_rows a) = lc_token_count (ls_cache s)"
    using rel by (rule layer_relatedE)
  note simps = layer_step_def spec_layer_step_def Let_def
  show ?thesis
  proof (cases oper)
    case (LayerAppend key val)
    then show ?thesis using append_simulates [OF rel budget] by simp
  next
    case (LayerAppendSliding key val)
    then show ?thesis using append_sliding_simulates [OF rel budget] by simp
  next
    case LayerClear
    then show ?thesis using clear_simulates [OF rel] by (simp add: simps)
  next
    case LayerKeys
    obtain view where v: "layer_keys s = (s\<lparr>ls_cache := (ls_cache s)\<lparr>lc_key_contiguous_view := view\<rparr>\<rparr>,
       Ok (concat (map fst (rows_of (lc_max_tokens (ls_cache s)) (lc_window_start (ls_cache s)) (lc_token_count (ls_cache s)) R))))"
      "layer_inv_at H SH R (s\<lparr>ls_cache := (ls_cache s)\<lparr>lc_key_contiguous_view := view\<rparr>\<rparr>)"
      using R(1) by (rule layer_keys_ok)
    with LayerKeys view_related [OF rel v(2) R(2) disjI1 [OF refl]] R(2) show ?thesis by (simp add: simps)
  next
    case LayerValues
    obtain view where v: "layer_values s = (s\<lparr>ls_cache := (ls_cache s)\<lparr>lc_value_contiguous_view := view\<rparr>\<rparr>,
       Ok (concat (map snd (rows_of (lc_max_tokens (ls_cache s)) (lc_window_start (ls_cache s)) (lc_token_count (ls_cache s)) R))))"
      "layer_inv_at H SH R (s\<lparr>ls_cache := (ls_cache s)\<lparr>lc_value_contiguous_view := view\<rparr>\<rparr>)"
      using R(1) by (rule layer_values_ok)
    with LayerValues view_related [OF rel v(2) R(2) disjI2 [OF refl]] R(2) show ?thesis by (simp add: simps)
  next
    case (LayerKey i)
    have "layer_key i s = Ok (spec_row fst i a)"
      using layer_read_rows [OF R(1) cache_block_row_read(1)] R(2,3)
      by (simp add: layer_key_def spec_row_def rows_of_def)
    with LayerKey show ?thesis using unchanged_related [OF rel] by (simp add: simps spec_row_def)
  next
    case (LayerValue i)
    have "layer_value i s = Ok (spec_row snd i a)"
      using layer_read_rows [OF R(1) cache_block_row_read(2)] R(2,3)
      by (simp add: layer_value_def spec_row_def rows_of_def)
    with LayerValue show ?thesis using unchanged_related [OF rel] by (simp add: simps spec_row_def)
  qed
qed

interpretation layer_window: output_simulation layer_step spec_layer_step "\<lambda>_ a. 0 < sp_budget a" "layer_related H SH"
  for H SH :: "nat multiset"
  by unfold_locales (use layer_simulates in blast)

end
