(* ===== verification/Layer_Runs.thy ===== *)
theory Layer_Runs
  imports Layer_Window
begin

text \<open>
  Layer caches over their life: the constructor establishes the invariant of \<open>Layer_Ring\<close>, every sequence
  of appends, slides, clears and reads answers like the bounded window of \<open>Layer_Window\<close>, and
  a clone, which shares every block and both stages, never sees or causes a change in the cache it was
  cloned from.
\<close>

section \<open>Construction\<close>

lemma div_ceil_blocks_step:
  "0 < r \<Longrightarrow> div_ceil_blocks r = Suc (div_ceil_blocks (r - min r 256))"
  using div_le_mono [of r "r + 255" 256]
  by (cases "r \<le> 256") (auto simp: div_ceil_blocks_def LAYER_KV_BLOCK_TOKENS_def min_def le_div_geq)

lemma div_ceil_blocks_0 [simp]: "div_ceil_blocks 0 = 0"
  by (simp add: div_ceil_blocks_def LAYER_KV_BLOCK_TOKENS_def)

lemma cache_block_new_ok:
  assumes ok: "arc_ok (kw_heap k) G" and shape: "0 < cap" "0 < v" "cap * v \<le> u64_max"
    and ids: "0 < kw_next_block_id k" "kw_next_block_id k < u64_max"
  obtains k' b where "cache_block_new cap v k = (k', Ok b)"
    "arc_ok (kw_heap k') (add_mset (cb_storage b) G)" "\<forall>a \<in># G. arc_get (kw_heap k') a = arc_get (kw_heap k) a"
    "cache_block_wf k' b" "block_rows k' b = []" "cb_capacity_tokens b = cap" "cb_vector_len b = v" "cb_token_count b = 0"
    "cb_id b = kw_next_block_id k" "kw_next_block_id k' = Suc (kw_next_block_id k)"
proof -
  obtain a h where n: "arc_new (cache_block_storage_new (cap * v)) (kw_heap k) = (a, h)" by fastforce
  note x = arc_new_ok [OF ok n]
  let ?k = "k\<lparr>kw_heap := h, kw_next_block_id := Suc (kw_next_block_id k)\<rparr>"
  let ?b = "\<lparr>cb_id = kw_next_block_id k, cb_revision = 0, cb_shared = False, cb_capacity_tokens = cap,
      cb_vector_len = v, cb_token_count = 0, cb_ref_count = 0, cb_content_hash = None, cb_last_access = 0, cb_storage = a\<rparr>"
  have eq: "cache_block_new cap v k = (?k, Ok ?b)"
    using shape ids n by (simp add: cache_block_new_def checked_mul_def block_id_next_def checked_add_def INVALID_block_id_def)
  show thesis
  proof (rule that [OF eq])
    show "\<forall>c \<in># G. arc_get (kw_heap ?k) c = arc_get (kw_heap k) c" using x(3,4) by simp metis
    show "cache_block_wf ?k ?b" using x(2) shape
      by (simp add: cache_block_wf_def cache_block_shape_def block_storage_def storage_shape_def cache_block_storage_new_def)
  qed (use x(1) in \<open>simp_all add: block_rows_def split: option.splits\<close>)
qed

definition new_blocks_inv :: "nat multiset \<Rightarrow> nat \<Rightarrow> nat \<Rightarrow> kv_world \<Rightarrow> block_table \<Rightarrow> cache_block list \<Rightarrow> bool" where
  "new_blocks_inv H n v k t blocks \<longleftrightarrow>
     (\<forall>i < length blocks. cache_block_wf k (blocks ! i) \<and> cb_capacity_tokens (blocks ! i) = block_fill n i \<and>
        cb_vector_len (blocks ! i) = v \<and> block_rows k (blocks ! i) = [] \<and> cb_token_count (blocks ! i) = 0) \<and>
     ids_ok k t blocks \<and> arc_ok (kw_heap k) (mset (map cb_storage blocks) + H)"

lemma new_blocks_loop_ok:
  assumes "new_blocks_inv H n v k t blocks" and "r = n - 256 * length blocks" and "0 < v" and "n * v \<le> u64_max"
    and "0 < kw_next_block_id k" and "kw_next_block_id k + div_ceil_blocks r \<le> u64_max"
  shows "\<exists>k' bs t'. new_blocks_loop r v t blocks k = (k', bs, Ok t') \<and> new_blocks_inv H n v k' t' bs \<and>
    length bs = length blocks + div_ceil_blocks r \<and> (\<forall>a \<in># H. arc_get (kw_heap k') a = arc_get (kw_heap k) a) \<and>
    kw_next_block_id k' = kw_next_block_id k + div_ceil_blocks r"
  using assms
proof (induction r arbitrary: t blocks k rule: less_induct)
  case (less r)
  show ?case
  proof (cases "r = 0")
    case True
    then show ?thesis using less.prems by (simp add: new_blocks_loop.simps [of 0])
  next
    case False
    let ?cap = "min r 256"
    have cap: "0 < ?cap" "?cap = block_fill n (length blocks)" using False less.prems(2) by (auto simp: block_fill_def)
    have "?cap * v \<le> n * v" using less.prems(2) by (intro mult_le_mono1) simp
    then have fits: "?cap * v \<le> u64_max" using less.prems(4) by linarith
    have id: "kw_next_block_id k < u64_max" using less.prems(6) div_ceil_blocks_step [of r] False by simp
    have ok: "arc_ok (kw_heap k) (mset (map cb_storage blocks) + H)"
      and ids: "ids_ok k t blocks" using less.prems(1) by (simp_all add: new_blocks_inv_def)
    obtain k1 b where b: "cache_block_new ?cap v k = (k1, Ok b)"
      "arc_ok (kw_heap k1) (add_mset (cb_storage b) (mset (map cb_storage blocks) + H))"
      "\<forall>a \<in># mset (map cb_storage blocks) + H. arc_get (kw_heap k1) a = arc_get (kw_heap k) a"
      "cache_block_wf k1 b" "block_rows k1 b = []" "cb_capacity_tokens b = ?cap" "cb_vector_len b = v" "cb_token_count b = 0"
      "cb_id b = kw_next_block_id k" "kw_next_block_id k1 = Suc (kw_next_block_id k)"
      by (rule cache_block_new_ok [OF ok cap(1) less.prems(3) fits less.prems(5) id])
    let ?t = "t\<lparr>bt_blocks := bt_blocks t @ [cb_id b]\<rparr>"
    have same: "arc_get (kw_heap k1) (cb_storage (blocks ! i)) = arc_get (kw_heap k) (cb_storage (blocks ! i))"
      if "i < length blocks" for i using b(3) that by simp
    have old: "cache_block_wf k1 (blocks ! i) = cache_block_wf k (blocks ! i)"
      "block_rows k1 (blocks ! i) = block_rows k (blocks ! i)" if "i < length blocks" for i
      using cache_block_wf_cong [OF same [OF that]] block_rows_cong [OF same [OF that]] by simp_all
    have "ids_ok k1 ?t (blocks @ [b])" using ids b(9,10) less.prems(5) by (auto simp: ids_ok_def)
    then have inv: "new_blocks_inv H n v k1 ?t (blocks @ [b])"
      using less.prems(1) b(2,4-8) cap(2) old by (auto simp: new_blocks_inv_def nth_append less_Suc_eq)
    have app: "block_table_append (cb_id b) t = (?t, Ok ())"
      using b(9) less.prems(5) by (simp add: block_table_append_def block_id_is_invalid_def INVALID_block_id_def)
    have step: "new_blocks_loop r v t blocks k = new_blocks_loop (r - ?cap) v ?t (blocks @ [b]) k1"
      using False b(1) app by (subst new_blocks_loop.simps) (simp add: LAYER_KV_BLOCK_TOKENS_def Let_def)
    have r': "r - ?cap = n - 256 * length (blocks @ [b])" "r - ?cap < r" using less.prems(2) False by (auto simp: min_def)
    have c: "div_ceil_blocks r = Suc (div_ceil_blocks (r - ?cap))" using div_ceil_blocks_step False by simp
    from less.IH [OF r'(2) inv r'(1) less.prems(3,4)] b(10) less.prems(6) c
    obtain k' bs t' where "new_blocks_loop (r - ?cap) v ?t (blocks @ [b]) k1 = (k', bs, Ok t')"
      "new_blocks_inv H n v k' t' bs" "length bs = length (blocks @ [b]) + div_ceil_blocks (r - ?cap)"
      "\<forall>a \<in># H. arc_get (kw_heap k') a = arc_get (kw_heap k1) a"
      "kw_next_block_id k' = kw_next_block_id k1 + div_ceil_blocks (r - ?cap)" by auto
    then show ?thesis using step c b(3,10) by auto
  qed
qed

lemma layer_new_ok:
  assumes ok: "arc_ok (kw_heap (lw_kv w)) H" "arc_ok (lw_stages w) SH"
    and ids: "0 < kw_next_block_id (lw_kv w)" "kw_next_block_id (lw_kv w) + div_ceil_blocks n \<le> u64_max"
    and pos: "0 < n" "0 < heads" "0 < hd_dim" and fits: "n * (heads * hd_dim) * 8 + 7 \<le> u64_max"
    and fmt: "cfg_format cfg \<noteq> F16"
  obtains w' c where "layer_new_with_config n heads hd_dim cfg w = (w', Ok c)"
    "layer_inv H SH [] \<lparr>ls_cache = c, ls_world = w'\<rparr>"
    "lc_max_tokens c = n" "layer_vector_len c = heads * hd_dim" "lc_tokens_seen c = 0"
    "compressed c \<longleftrightarrow> cfg_format cfg = Int8 \<or> cfg_asymmetric_vq cfg \<noteq> None"
    "kw_next_block_id (lw_kv w') = kw_next_block_id (lw_kv w) + div_ceil_blocks n"
    "\<forall>a \<in># H. arc_get (kw_heap (lw_kv w')) a = arc_get (kw_heap (lw_kv w)) a"
    "\<forall>a \<in># SH. arc_get (lw_stages w') a = arc_get (lw_stages w) a"
    "lc_config c = cfg" "lc_key_value_heads c = heads" "lc_head_dim c = hd_dim"
proof -
  let ?v = "heads * hd_dim"
  have v: "0 < ?v" using pos by simp
  then have "?v \<le> n * ?v" using pos(1) by simp
  then have le: "?v \<le> u64_max" "n * ?v \<le> u64_max" using fits by linarith+
  have "new_blocks_inv H n ?v (lw_kv w) block_table_new []"
    using ok(1) by (simp add: new_blocks_inv_def ids_ok_def block_table_new_def)
  from new_blocks_loop_ok [OF this _ v le(2) ids(1)] ids(2)
  obtain k bs t where nb: "new_blocks_loop n ?v block_table_new [] (lw_kv w) = (k, bs, Ok t)"
    "new_blocks_inv H n ?v k t bs" "length bs = div_ceil_blocks n"
    "\<forall>a \<in># H. arc_get (kw_heap k) a = arc_get (kw_heap (lw_kv w)) a"
    "kw_next_block_id k = kw_next_block_id (lw_kv w) + div_ceil_blocks n" by auto
  have bc: "0 < div_ceil_blocks n" using div_ceil_blocks_step [OF pos(1)] by simp
  obtain ka h1 where a1: "arc_new (replicate (n * ?v) (0 :: f32)) (lw_stages w) = (ka, h1)" by fastforce
  obtain va h2 where a2: "arc_new (replicate (n * ?v) (0 :: f32)) h1 = (va, h2)" by fastforce
  note n1 = arc_new_ok [OF ok(2) a1]
  note n2 = arc_new_ok [OF n1(1) a2]
  let ?i8 = "if cfg_format cfg = Int8 then Some \<lparr>is_vector_len = ?v, is_blocks = replicate (div_ceil_blocks n) None\<rparr> else None"
  let ?qs = "map_option (\<lambda>bits. \<lparr>qs_bits = bits, qs_vector_len = ?v, qs_blocks = replicate (div_ceil_blocks n) None\<rparr>) (cfg_asymmetric_vq cfg)"
  let ?c = "\<lparr>lc_id = kw_next_cache_id k, lc_revision = 0, lc_config = cfg, lc_max_tokens = n, lc_key_value_heads = heads,
      lc_head_dim = hd_dim, lc_token_count = 0, lc_tokens_seen = 0, lc_window_start = 0, lc_block_table = t, lc_blocks = bs,
      lc_active_block_runs = [], lc_key_stage = ka, lc_value_stage = va, lc_key_contiguous_view = None,
      lc_value_contiguous_view = None, lc_int8_storage = ?i8, lc_quantized_values = ?qs\<rparr>"
  let ?k = "k\<lparr>kw_next_cache_id := wrap_add (kw_next_cache_id k) 1\<rparr>"
  let ?w = "w\<lparr>lw_kv := ?k, lw_stages := h2\<rparr>"
  have eq: "layer_new_with_config n heads hd_dim cfg w = (?w, Ok ?c)"
    using pos fmt le v bc nb(1) a1 a2
    by (auto simp: layer_new_with_config_def checked_mul_def Let_def next_cache_id_def int8_store_new_def value_store_new_def
        split: option.splits)
  have vl: "layer_vector_len ?c = ?v" using le by (simp add: layer_vector_len_def wrap_mul_small)
  have wf: "cache_block_wf ?k b = cache_block_wf k b" "block_rows ?k b = block_rows k b" for b
    by (rule cache_block_wf_cong, simp_all, rule block_rows_cong, simp_all)
  have "block_side {} {} H n ?v cfg 0 R ?k t bs ?i8 ?qs" for R
    using nb(2,3) wf
    by (auto simp: block_side_def new_blocks_inv_def blocks_ok_def block_ok_def ids_ok_def int8_ok_def quantized_ok_def split: option.splits)
  moreover have "ka \<noteq> va" "arc_get h2 ka = Some (replicate (n * ?v) 0)" using n1(2) n2(3,4) by auto
  then have "stage_side SH n ?v 0 R h2 ka va" for R
    using n2(1,2) by (simp add: stage_side_def stages_ok_def stage_ok_def add_mset_commute)
  ultimately have "layer_inv_at H SH R \<lparr>ls_cache = ?c, ls_world = ?w\<rparr>" for R
    using vl pos fits by (simp add: layer_inv_at_def Let_def shape_ok_def window_ok_def view_ok_def runs_ok_def window_tokens_def)
  then have inv: "layer_inv H SH [] \<lparr>ls_cache = ?c, ls_world = ?w\<rparr>" by (simp add: layer_inv_def rows_of_def)
  have "\<forall>a \<in># SH. arc_get h2 a = arc_get (lw_stages w) a" using n1(3,4) n2(3,4) by auto metis
  then show thesis by (intro that [OF eq inv]) (use vl nb(4,5) in \<open>simp_all add: compressed_def\<close>)
qed


lemma layer_budget_permits:
  "length ops \<le> sp_budget a \<Longrightarrow> permitted_inputs spec_layer_step (\<lambda>_ a. 0 < sp_budget a) ops a"
proof (induction ops arbitrary: a)
  case (Cons oper ops)
  have "sp_budget (fst (spec_layer_step oper a)) = sp_budget a - 1"
    by (auto simp: spec_layer_step_def spec_append_def Let_def split: layer_op.splits option.splits)
  with Cons show ?case by simp
qed simp

lemma layer_run_isolated:
  "layer_related H SH s a \<Longrightarrow> length ops \<le> sp_budget a \<Longrightarrow>
   (\<forall>x \<in># H. arc_get (kw_heap (lw_kv (ls_world (fst (run_outputs layer_step ops s))))) x = arc_get (kw_heap (lw_kv (ls_world s))) x) \<and>
   (\<forall>x \<in># SH. arc_get (lw_stages (ls_world (fst (run_outputs layer_step ops s)))) x = arc_get (lw_stages (ls_world s)) x)"
proof (induction ops arbitrary: s a)
  case (Cons oper ops)
  then have sim: "layer_related H SH (fst (layer_step oper s)) (fst (spec_layer_step oper a))" "same_layer H SH s (fst (layer_step oper s))"
    using layer_simulates [of H SH s a oper] by simp_all
  have "sp_budget (fst (spec_layer_step oper a)) = sp_budget a - 1"
    by (auto simp: spec_layer_step_def spec_append_def Let_def split: layer_op.splits option.splits)
  with Cons.IH [OF sim(1)] Cons.prems(2) sim(2) show ?case by (simp add: same_layer_def)
qed simp

section \<open>Clones\<close>

lemma clone_blocks_ok:
  assumes "arc_ok (kw_heap k) G" and "\<forall>b \<in> set bs. cb_storage b \<in># G" and "clone_blocks bs k = (k', bs')"
  shows "bs' = map (\<lambda>b. b\<lparr>cb_shared := True\<rparr>) bs \<and> arc_ok (kw_heap k') (mset (map cb_storage bs) + G) \<and>
    (\<forall>a. arc_get (kw_heap k') a = arc_get (kw_heap k) a) \<and> k' = k\<lparr>kw_heap := kw_heap k'\<rparr>"
  using assms
proof (induction bs arbitrary: k G bs' k')
  case (Cons b bs)
  let ?k1 = "k\<lparr>kw_heap := arc_clone (cb_storage b) (kw_heap k)\<rparr>"
  obtain bs2 k2 where c: "clone_blocks bs ?k1 = (k2, bs2)" by fastforce
  have res: "bs' = b\<lparr>cb_shared := True\<rparr> # bs2" "k' = k2"
    using Cons.prems(3) c by (simp_all add: cache_block_clone_def)
  have cl: "arc_ok (kw_heap ?k1) (add_mset (cb_storage b) G)" "\<And>a. arc_get (kw_heap ?k1) a = arc_get (kw_heap k) a"
    using arcs.clone_ok [OF Cons.prems(1), of "cb_storage b"] Cons.prems(2) by simp_all
  have mem: "\<forall>b' \<in> set bs. cb_storage b' \<in># add_mset (cb_storage b) G" using Cons.prems(2) by simp
  note ih = Cons.IH [OF cl(1) mem c]
  have "k2 = k\<lparr>kw_heap := kw_heap k2\<rparr>" using ih by (metis kv_world.surjective kv_world.update_convs(1) kv_world.select_convs)
  then show ?case using ih cl(2) unfolding res by simp
qed simp

lemma block_ok_shared: "block_ok k n v fill R i (b\<lparr>cb_shared := sh\<rparr>) = block_ok k n v fill R i b"
  by (simp add: block_ok_def cache_block_wf_def cache_block_shape_def block_rows_def block_storage_def split: option.splits)

lemma layer_clone_ok:
  assumes inv: "layer_inv_at H SH R s" and cl: "layer_clone (ls_cache s) (ls_world s) = (w', c')"
  shows "layer_inv_at (mset (map cb_storage (lc_blocks (ls_cache s))) + H)
      ({#lc_key_stage (ls_cache s), lc_value_stage (ls_cache s)#} + SH) R \<lparr>ls_cache = c', ls_world = w'\<rparr>"
    and "c' = (ls_cache s)\<lparr>lc_id := lc_id c', lc_blocks := lc_blocks c', lc_key_contiguous_view := None,
      lc_value_contiguous_view := None\<rparr>"
    and "\<forall>a. arc_get (kw_heap (lw_kv w')) a = arc_get (kw_heap (lw_kv (ls_world s))) a"
    and "\<forall>a. arc_get (lw_stages w') a = arc_get (lw_stages (ls_world s)) a"
    and "kw_next_block_id (lw_kv w') = kw_next_block_id (lw_kv (ls_world s))"
proof -
  define c w where "c = ls_cache s" and "w = ls_world s"
  let ?B = "mset (map cb_storage (lc_blocks c))" and ?S = "{#lc_key_stage c, lc_value_stage c#}"
  note d = layer_invD [OF inv, folded c_def w_def]
  note bs = d(7) [unfolded block_side_def]
  let ?k1 = "(lw_kv w)\<lparr>kw_next_cache_id := wrap_add (kw_next_cache_id (lw_kv w)) 1\<rparr>"
  obtain k blocks where cb: "clone_blocks (lc_blocks c) ?k1 = (k, blocks)" by fastforce
  let ?h1 = "arc_clone (lc_key_stage c) (lw_stages w)" and ?h = "arc_clone (lc_value_stage c) (arc_clone (lc_key_stage c) (lw_stages w))"
  have w': "w' = w\<lparr>lw_kv := k, lw_stages := ?h\<rparr>"
    and c': "c' = c\<lparr>lc_id := kw_next_cache_id (lw_kv w), lc_blocks := blocks, lc_key_contiguous_view := None,
      lc_value_contiguous_view := None\<rparr>"
    using cl cb by (simp_all add: layer_clone_def next_cache_id_def Let_def c_def w_def)
  have ok: "arc_ok (kw_heap ?k1) (?B + H)" "\<forall>b \<in> set (lc_blocks c). cb_storage b \<in># ?B + H" using bs by simp_all
  from clone_blocks_ok [OF ok cb]
  have b: "blocks = map (\<lambda>b. b\<lparr>cb_shared := True\<rparr>) (lc_blocks c)" "arc_ok (kw_heap k) (?B + (?B + H))"
    "\<And>a. arc_get (kw_heap k) a = arc_get (kw_heap (lw_kv w)) a" "k = ?k1\<lparr>kw_heap := kw_heap k\<rparr>" by simp_all
  have next_id: "kw_next_block_id k = kw_next_block_id (lw_kv w)" by (subst b(4)) simp
  have st: "arc_ok (lw_stages w) (?S + SH)" using d(8) by (simp add: stage_side_def)
  have s1: "arc_ok ?h1 (add_mset (lc_key_stage c) (?S + SH))" "\<And>a. arc_get ?h1 a = arc_get (lw_stages w) a"
    using arcs.clone_ok [OF st, of "lc_key_stage c"] by simp_all
  have s2: "arc_ok ?h (?S + (?S + SH))" "\<And>a. arc_get ?h a = arc_get (lw_stages w) a"
    using arcs.clone_ok [OF s1(1), of "lc_value_stage c"] s1(2) by (simp_all add: add_mset_commute)
  show "\<forall>a. arc_get (kw_heap (lw_kv w')) a = arc_get (kw_heap (lw_kv (ls_world s))) a"
    "\<forall>a. arc_get (lw_stages w') a = arc_get (lw_stages (ls_world s)) a"
    "kw_next_block_id (lw_kv w') = kw_next_block_id (lw_kv (ls_world s))"
    unfolding w' using b(3) s2(2) next_id by (simp_all add: w_def)
  show "c' = (ls_cache s)\<lparr>lc_id := lc_id c', lc_blocks := lc_blocks c', lc_key_contiguous_view := None,
      lc_value_contiguous_view := None\<rparr>" unfolding c' by (simp add: c_def)
  have blk: "block_ok k n v fill R i ((lc_blocks c ! i)\<lparr>cb_shared := True\<rparr>) = block_ok (lw_kv w) n v fill R i (lc_blocks c ! i)" for n v fill i
    unfolding block_ok_shared using b(3) by (simp add: block_ok_def cache_block_wf_def block_rows_def block_storage_def)
  have rows: "block_rows k (b\<lparr>cb_shared := True\<rparr>) = block_rows (lw_kv w) b" for b
    using b(3) by (simp add: block_rows_def block_storage_def split: option.splits)
  have "blocks_ok k (lc_max_tokens c) (layer_vector_len c) (lc_token_count c) R blocks" "ids_ok k (lc_block_table c) blocks"
    using bs unfolding b(1) by (simp_all add: blocks_ok_def blk ids_ok_def next_id comp_def)
  moreover have "int8_ok {} k (layer_vector_len c) blocks (lc_int8_storage c)"
    by (rule int8_ok_frame [of "{}" "lw_kv w" _ "lc_blocks c"]) (use bs in \<open>simp_all add: b(1) rows\<close>)
  moreover have "quantized_ok {} k (layer_vector_len c) (lc_config c) blocks (lc_quantized_values c)"
    by (rule quantized_ok_frame [of "{}" "lw_kv w" _ _ "lc_blocks c"]) (use bs in \<open>simp_all add: b(1) rows\<close>)
  moreover have "mset (map cb_storage blocks) = ?B" unfolding b(1) by (simp add: comp_def)
  ultimately have "block_side {} {} (?B + H) (lc_max_tokens c) (layer_vector_len c) (lc_config c) (lc_token_count c) R k
      (lc_block_table c) blocks (lc_int8_storage c) (lc_quantized_values c)"
    using b(2) unfolding block_side_def by simp
  moreover have "stage_side (?S + SH) (lc_max_tokens c) (layer_vector_len c) (lc_token_count c) R ?h (lc_key_stage c) (lc_value_stage c)"
    using d(8) s2 by (simp add: stage_side_def stages_ok_def add_mset_commute)
  ultimately show "layer_inv_at (mset (map cb_storage (lc_blocks (ls_cache s))) + H)
      ({#lc_key_stage (ls_cache s), lc_value_stage (ls_cache s)#} + SH) R \<lparr>ls_cache = c', ls_world = w'\<rparr>"
    using inv unfolding w' c' c_def [symmetric]
    by (simp add: layer_inv_at_def Let_def c_def [symmetric] shape_ok_def window_ok_def view_ok_def layer_vector_len_def
        compressed_def w_def [symmetric])
qed

text \<open>A cache reads the same in two worlds that agree on what it holds.\<close>

lemma layer_read_frame:
  assumes "\<forall>b \<in> set (lc_blocks c). arc_get (kw_heap (lw_kv w')) (cb_storage b) = arc_get (kw_heap (lw_kv w)) (cb_storage b)"
  shows "layer_key i \<lparr>ls_cache = c, ls_world = w'\<rparr> = layer_key i \<lparr>ls_cache = c, ls_world = w\<rparr>"
    and "layer_value i \<lparr>ls_cache = c, ls_world = w'\<rparr> = layer_value i \<lparr>ls_cache = c, ls_world = w\<rparr>"
proof -
  have "block_storage (lw_kv w') (lc_blocks c ! j) = block_storage (lw_kv w) (lc_blocks c ! j)" if "j < length (lc_blocks c)" for j
    using assms that by (simp add: block_storage_def)
  then show "layer_key i \<lparr>ls_cache = c, ls_world = w'\<rparr> = layer_key i \<lparr>ls_cache = c, ls_world = w\<rparr>"
    "layer_value i \<lparr>ls_cache = c, ls_world = w'\<rparr> = layer_value i \<lparr>ls_cache = c, ls_world = w\<rparr>"
    by (auto simp: layer_key_def layer_value_def layer_read_def Let_def cache_block_key_def cache_block_value_def split: option.splits)
qed

lemma layer_slice_frame:
  assumes "arc_get (lw_stages w') (lc_key_stage c) = arc_get (lw_stages w) (lc_key_stage c)"
    and "arc_get (lw_stages w') (lc_value_stage c) = arc_get (lw_stages w) (lc_value_stage c)"
  shows "snd (layer_keys \<lparr>ls_cache = c, ls_world = w'\<rparr>) = snd (layer_keys \<lparr>ls_cache = c, ls_world = w\<rparr>)"
    and "snd (layer_values \<lparr>ls_cache = c, ls_world = w'\<rparr>) = snd (layer_values \<lparr>ls_cache = c, ls_world = w\<rparr>)"
  using assms by (auto simp: layer_keys_def layer_values_def Let_def split: option.splits prod.splits)

section \<open>Active blocks\<close>

lemma rows_slice':
  assumes "(a + m) * v \<le> length xs" and "length xs \<le> u64_max"
  shows "slice_range (wrap_mul a v) (wrap_add (wrap_mul a v) (wrap_mul m v)) xs = Some (concat (map (\<lambda>i. row v xs (a + i)) [0..<m]))"
proof -
  have "a * v \<le> u64_max" "m * v \<le> u64_max" "a * v + m * v \<le> u64_max" using assms by (simp_all add: add_mult_distrib)
  then show ?thesis using rows_slice [OF assms(1)] by (simp add: wrap_mul_small wrap_add_small add_mult_distrib)
qed

lemma active_block_ok:
  assumes inv: "layer_inv_at H SH R s" and r: "r \<in> set (lc_active_block_runs (ls_cache s))"
  obtains b where "layer_active_block s r = Ok b" "lb_logical_token_start b = br_logical_token_start r"
    "lb_token_count b = br_token_count r"
    "row_slice b (lb_key_storage b) = Some (concat (map (\<lambda>t. fst (R (snd t))) (run_tokens r)))"
    "row_slice b (lb_value_storage b) = Some (concat (map (\<lambda>t. snd (R (snd t))) (run_tokens r)))"
proof -
  let ?c = "ls_cache s" and ?k = "lw_kv (ls_world s)"
  let ?n = "lc_max_tokens ?c" and ?v = "layer_vector_len ?c" and ?tc = "lc_token_count ?c"
  let ?i = "br_block_index r" and ?p = "br_physical_token_start r" and ?m = "br_token_count r"
  note d = layer_invD [OF inv]
  note side = d(7) [unfolded block_side_def]
  have ro: "run_ok ?n (lc_block_table ?c) r" using d(9) r by (simp add: runs_ok_def)
  have "set (run_tokens r) \<subseteq> set (concat (map run_tokens (lc_active_block_runs ?c)))" using r by auto
  then have run_in_window: "set (run_tokens r) \<subseteq> set (window_tokens ?n (lc_window_start ?c) ?tc)"
    using d(9) by (simp only: runs_ok_def)
  have used: "?p + j < ?tc" if "j < ?m" for j
  proof -
    have "(br_logical_token_start r + j, ?p + j) \<in> set (run_tokens r)" using that by (auto simp: run_tokens_def)
    then have "(br_logical_token_start r + j, ?p + j) \<in> set (window_tokens ?n (lc_window_start ?c) ?tc)"
      using run_in_window by blast
    then show ?thesis using slot_in_use [OF inv] by (auto simp: window_tokens_def)
  qed
  have idx: "?i = ?p div 256" "br_block_token_start r = ?p mod 256" "?p mod 256 + ?m \<le> 256" "0 < ?m"
    using ro by (simp_all add: run_ok_def)
  have tab: "block_table_get (lc_block_table ?c) ?i = Some (br_block_id r)" using ro unfolding run_ok_def by blast
  have pn: "?p < ?n" using used [of 0] idx(4) d(4) by simp
  have bok: "blocks_ok ?k ?n ?v ?tc R (lc_blocks ?c)" and iok: "ids_ok ?k (lc_block_table ?c) (lc_blocks ?c)" using side by blast+
  have len: "?i < length (lc_blocks ?c)" using block_fill_facts(1) [OF pn] bok idx(1) by (simp add: blocks_ok_def)
  note b = block_okD [OF bok len d(4)]
  have bid: "cb_id (lc_blocks ?c ! ?i) = br_block_id r" using ids_okD(1) [OF iok len] tab by simp
  obtain st where st: "block_storage ?k (lc_blocks ?c ! ?i) = Some st"
    "storage_shape (cb_capacity_tokens (lc_blocks ?c ! ?i) * ?v) st"
    using b(1) unfolding b(3) [symmetric] by (rule cache_block_wf_storage)
  have fill: "?p mod 256 + j < block_fill ?tc ?i" if "j < ?m" for j
  proof -
    have "?p + j = 256 * ?i + (?p mod 256 + j)" unfolding idx(1) by (metis add.assoc mult_div_mod_eq)
    then show ?thesis using used [OF that] idx(3) that by (simp add: block_fill_def)
  qed
  have cap: "cb_token_count (lc_blocks ?c ! ?i) \<le> cb_capacity_tokens (lc_blocks ?c ! ?i)"
    "cb_capacity_tokens (lc_blocks ?c ! ?i) * ?v \<le> u64_max"
    using b(1,3) by (auto simp: cache_block_wf_def cache_block_shape_def)
  have "?p mod 256 + (?m - 1) < block_fill ?tc ?i" by (rule fill) (use idx(4) in simp)
  then have room: "?p mod 256 + ?m \<le> cb_capacity_tokens (lc_blocks ?c ! ?i)" using cap(1) b(4) idx(4) by linarith
  have row: "row ?v (st_keys st) (?p mod 256 + j) = fst (R (?p + j)) \<and> row ?v (st_values st) (?p mod 256 + j) = snd (R (?p + j))"
    if "j < ?m" for j
  proof -
    have "block_rows ?k (lc_blocks ?c ! ?i) ! (?p mod 256 + j) = R (256 * ?i + (?p mod 256 + j))"
      unfolding b(5) using fill [OF that] by simp
    moreover have "256 * ?i + (?p mod 256 + j) = ?p + j" unfolding idx(1) by (metis add.assoc mult_div_mod_eq)
    moreover have "block_rows ?k (lc_blocks ?c ! ?i) ! (?p mod 256 + j) =
        (row ?v (st_keys st) (?p mod 256 + j), row ?v (st_values st) (?p mod 256 + j))"
      using st(1) b(3,4) fill [OF that] by (simp add: block_rows_storage)
    ultimately show ?thesis by (metis fst_conv snd_conv)
  qed
  let ?b = "\<lparr>lb_block_id = br_block_id r, lb_revision = cb_revision (lc_blocks ?c ! ?i),
      lb_logical_token_start = br_logical_token_start r, lb_physical_token_start = ?p, lb_block_token_start = ?p mod 256,
      lb_token_count = ?m, lb_vector_len = ?v, lb_key_storage = st_keys st, lb_value_storage = st_values st\<rparr>"
  have eq: "layer_active_block s r = Ok ?b" using tab len bid st(1) idx(2) by (simp add: layer_active_block_def Let_def)
  have fits: "(?p mod 256 + ?m) * ?v \<le> length (st_keys st)" "(?p mod 256 + ?m) * ?v \<le> length (st_values st)"
    "length (st_keys st) \<le> u64_max" "length (st_values st) \<le> u64_max"
    using st(2) mult_le_mono1 [OF room, of ?v] cap(2) by (simp_all add: storage_shape_def)
  have rs: "map (\<lambda>j. row ?v (st_keys st) (?p mod 256 + j)) [0..<?m] = map (\<lambda>j. fst (R (?p + j))) [0..<?m]"
    "map (\<lambda>j. row ?v (st_values st) (?p mod 256 + j)) [0..<?m] = map (\<lambda>j. snd (R (?p + j))) [0..<?m]"
    using row by auto
  show thesis
  proof (rule that [OF eq])
    show "row_slice ?b (lb_key_storage ?b) = Some (concat (map (\<lambda>t. fst (R (snd t))) (run_tokens r)))"
      using rows_slice' [OF fits(1,3)] rs(1) by (simp add: row_slice_def Let_def run_tokens_def comp_def)
    show "row_slice ?b (lb_value_storage ?b) = Some (concat (map (\<lambda>t. snd (R (snd t))) (run_tokens r)))"
      using rows_slice' [OF fits(2,4)] rs(2) by (simp add: row_slice_def Let_def run_tokens_def comp_def)
  qed simp_all
qed

lemma collect_blocks_ok:
  assumes "\<And>r. r \<in> set rs \<Longrightarrow> \<exists>b. f r = Ok b \<and> P r b"
  shows "\<exists>bs. collect_blocks f rs = Ok bs \<and> list_all2 P rs bs"
  using assms
proof (induction rs)
  case (Cons r rs)
  obtain b where "f r = Ok b" "P r b" using Cons.prems [of r] by auto
  moreover obtain bs where "collect_blocks f rs = Ok bs" "list_all2 P rs bs" using Cons by auto
  ultimately show ?case by auto
qed simp

lemma slices_concat:
  "list_all2 (\<lambda>r b. part b = Some (concat (map g (tok r)))) rs bs \<Longrightarrow>
   concat (map (\<lambda>b. the (part b)) bs) = concat (map g (concat (map tok rs)))"
  by (induction rule: list_all2_induct) auto

lemma active_blocks_ok:
  assumes inv: "layer_inv H SH rows s"
  obtains bs where "layer_active_blocks s = Ok bs"
    "\<forall>b \<in> set bs. row_slice b (lb_key_storage b) \<noteq> None \<and> row_slice b (lb_value_storage b) \<noteq> None"
    "concat (map (\<lambda>b. the (row_slice b (lb_key_storage b))) bs) = concat (map fst rows)"
    "concat (map (\<lambda>b. the (row_slice b (lb_value_storage b))) bs) = concat (map snd rows)"
    "sum_list (map lb_token_count bs) = length rows"
proof -
  obtain R where R: "layer_inv_at H SH R s"
    "rows = rows_of (lc_max_tokens (ls_cache s)) (lc_window_start (ls_cache s)) (lc_token_count (ls_cache s)) R"
    using inv by (auto simp: layer_inv_def)
  let ?rs = "lc_active_block_runs (ls_cache s)"
  let ?P = "\<lambda>r b. lb_token_count b = br_token_count r \<and>
     row_slice b (lb_key_storage b) = Some (concat (map (\<lambda>t. fst (R (snd t))) (run_tokens r))) \<and>
     row_slice b (lb_value_storage b) = Some (concat (map (\<lambda>t. snd (R (snd t))) (run_tokens r)))"
  have "\<exists>b. layer_active_block s r = Ok b \<and> ?P r b" if "r \<in> set ?rs" for r
    using active_block_ok [OF R(1) that] by metis
  from collect_blocks_ok [of ?rs "layer_active_block s" ?P, OF this]
  obtain bs where bs: "layer_active_blocks s = Ok bs" "list_all2 ?P ?rs bs" by (auto simp: layer_active_blocks_def)
  have toks: "concat (map run_tokens ?rs) = window_tokens (lc_max_tokens (ls_cache s)) (lc_window_start (ls_cache s)) (lc_token_count (ls_cache s))"
    using layer_invD(9) [OF R(1)] by (simp add: runs_ok_def)
  have rows: "map (\<lambda>t. fst (R (snd t))) (concat (map run_tokens ?rs)) = map fst rows"
    "map (\<lambda>t. snd (R (snd t))) (concat (map run_tokens ?rs)) = map snd rows"
    unfolding toks R(2) by (simp_all add: window_tokens_def rows_of_def)
  have "sum_list (map lb_token_count bs) = length (concat (map run_tokens ?rs))"
    using bs(2) by (induction rule: list_all2_induct) (auto simp: run_tokens_def)
  moreover have "length (concat (map run_tokens ?rs)) = length rows" unfolding toks R(2) by (simp add: window_tokens_def rows_of_def)
  moreover have "\<forall>b \<in> set bs. row_slice b (lb_key_storage b) \<noteq> None \<and> row_slice b (lb_value_storage b) \<noteq> None"
    using bs(2) by (auto simp: list_all2_conv_all_nth in_set_conv_nth)
  ultimately show thesis
    using that [OF bs(1)] slices_concat [OF list_all2_mono [OF bs(2)], of "\<lambda>b. row_slice b (lb_key_storage b)" "\<lambda>t. fst (R (snd t))" run_tokens]
      slices_concat [OF list_all2_mono [OF bs(2)], of "\<lambda>b. row_slice b (lb_value_storage b)" "\<lambda>t. snd (R (snd t))" run_tokens] rows
    by simp
qed

section \<open>Properties\<close>

definition layer_spec_start :: "nat \<Rightarrow> nat \<Rightarrow> kv_cache_config \<Rightarrow> nat \<Rightarrow> layer_spec" where
  "layer_spec_start n v cfg budget =
     \<lparr>sp_max_tokens = n, sp_vector_len = v,
      sp_compressed = (cfg_format cfg = Int8 \<or> cfg_asymmetric_vq cfg \<noteq> None), sp_rows = [], sp_budget = budget\<rparr>"

text \<open>A new cache after any sequence of operations is in step with the window.\<close>

lemma layer_run_related:
  assumes "arc_ok (kw_heap (lw_kv w)) H" and "arc_ok (lw_stages w) SH"
    and "0 < kw_next_block_id (lw_kv w)" and "kw_next_block_id (lw_kv w) + div_ceil_blocks n + budget \<le> u64_max"
    and "0 < n" and "0 < heads" and "0 < hd_dim" and "n * (heads * hd_dim) * 8 + 7 \<le> u64_max"
    and "cfg_format cfg \<noteq> F16" and "length ops \<le> budget"
  obtains w' c where "layer_new_with_config n heads hd_dim cfg w = (w', Ok c)"
    "layer_related H SH (fst (run_outputs layer_step ops \<lparr>ls_cache = c, ls_world = w'\<rparr>))
      (fst (run_outputs spec_layer_step ops (layer_spec_start n (heads * hd_dim) cfg budget)))"
    "snd (run_outputs layer_step ops \<lparr>ls_cache = c, ls_world = w'\<rparr>) =
      snd (run_outputs spec_layer_step ops (layer_spec_start n (heads * hd_dim) cfg budget))"
proof -
  have ids: "kw_next_block_id (lw_kv w) + div_ceil_blocks n \<le> u64_max" using assms(4) by simp
  obtain w' c where c: "layer_new_with_config n heads hd_dim cfg w = (w', Ok c)"
    "layer_inv H SH [] \<lparr>ls_cache = c, ls_world = w'\<rparr>"
    "lc_max_tokens c = n" "layer_vector_len c = heads * hd_dim" "lc_tokens_seen c = 0"
    "compressed c \<longleftrightarrow> cfg_format cfg = Int8 \<or> cfg_asymmetric_vq cfg \<noteq> None"
    "kw_next_block_id (lw_kv w') = kw_next_block_id (lw_kv w) + div_ceil_blocks n" "lc_config c = cfg"
    by (rule layer_new_ok [OF assms(1-3) ids assms(5-9)])
  have rel: "layer_related H SH \<lparr>ls_cache = c, ls_world = w'\<rparr> (layer_spec_start n (heads * hd_dim) cfg budget)"
    using c assms(4,9) by (simp add: layer_related_def layer_spec_start_def)
  have "length ops \<le> sp_budget (layer_spec_start n (heads * hd_dim) cfg budget)" using assms(10) by (simp add: layer_spec_start_def)
  from layer_window.run_simulates [OF rel layer_budget_permits [OF this]] show thesis using that [OF c(1)] by blast
qed

text \<open>C1: A cache built by \<open>LayerKvCache::new_with_config\<close> answers every sequence of \<open>append\<close>,
  \<open>append_sliding\<close>, \<open>clear\<close>, \<open>keys\<close>, \<open>values\<close>, \<open>key\<close> and \<open>value\<close> calls, in every storage
  format, exactly like a list of at most \<open>max_tokens\<close> rows: same indices, same errors, same rows in the
  same order, whether or not the ring has wrapped. The hypotheses say that the shape is valid, that
  the storage is addressable and that neither process-wide counter runs out of 64 bits on the way.\<close>

theorem layer_cache_refines_window:
  assumes "arc_ok (kw_heap (lw_kv w)) H" and "arc_ok (lw_stages w) SH"
    and "0 < kw_next_block_id (lw_kv w)" and "kw_next_block_id (lw_kv w) + div_ceil_blocks n + length ops \<le> u64_max"
    and "0 < n" and "0 < heads" and "0 < hd_dim" and "n * (heads * hd_dim) * 8 + 7 \<le> u64_max"
    and "cfg_format cfg \<noteq> F16"
  shows "\<exists>w' c. layer_new_with_config n heads hd_dim cfg w = (w', Ok c) \<and>
    snd (run_outputs layer_step ops \<lparr>ls_cache = c, ls_world = w'\<rparr>) =
    snd (run_outputs spec_layer_step ops (layer_spec_start n (heads * hd_dim) cfg (length ops)))"
  using layer_run_related [OF assms order.refl] by metis

theorem layer_cache_refines_window_witness:
  "\<exists>w' c. layer_new_with_config 2 1 1 kv_cache_config_f32 \<lparr>lw_kv = kv_world_init, lw_stages = empty_heap\<rparr> = (w', Ok c) \<and>
    snd (run_outputs layer_step [LayerAppendSliding [1] [2], LayerAppendSliding [3] [4], LayerAppendSliding [5] [6], LayerKeys]
      \<lparr>ls_cache = c, ls_world = w'\<rparr>) =
    [OutIndex (Ok 0), OutIndex (Ok 1), OutIndex (Ok 1), OutSlice (Ok [3, 5])]"
  using layer_cache_refines_window [of "\<lparr>lw_kv = kv_world_init, lw_stages = empty_heap\<rparr>" "{#}" "{#}" 2
      "[LayerAppendSliding [1] [2], LayerAppendSliding [3] [4], LayerAppendSliding [5] [6], LayerKeys]" 1 1 kv_cache_config_f32]
  by (simp add: arc_ok_empty kv_world_init_def kv_cache_config_f32_def div_ceil_blocks_def LAYER_KV_BLOCK_TOKENS_def u64_max_def
      layer_spec_start_def spec_layer_step_def spec_append_def spec_rejects_def)

text \<open>A clone of a cache in step with a window, and a run on the clone.\<close>

lemma layer_clone_run:
  assumes rel: "layer_related H SH s a" and cl: "layer_clone (ls_cache s) (ls_world s) = (w', c')"
    and budget: "length ops \<le> sp_budget a"
  defines "r \<equiv> run_outputs layer_step ops \<lparr>ls_cache = c', ls_world = w'\<rparr>"
  defines "orig \<equiv> s\<lparr>ls_world := ls_world (fst r)\<rparr>"
  shows "snd r = snd (run_outputs spec_layer_step ops a)"
    and "layer_key i orig = layer_key i s" and "layer_value i orig = layer_value i s"
    and "snd (layer_keys orig) = snd (layer_keys s)" and "snd (layer_values orig) = snd (layer_values s)"
proof -
  let ?c = "ls_cache s" and ?w = "ls_world s"
  let ?H = "mset (map cb_storage (lc_blocks ?c)) + H" and ?SH = "{#lc_key_stage ?c, lc_value_stage ?c#} + SH"
  let ?s = "\<lparr>ls_cache = c', ls_world = w'\<rparr>"
  obtain R where R: "layer_inv_at H SH R s"
    "sp_rows a = rows_of (lc_max_tokens ?c) (lc_window_start ?c) (lc_token_count ?c) R"
    using rel by (rule layer_relatedE)
  note k = layer_clone_ok [OF R(1) cl]
  have f: "lc_max_tokens c' = lc_max_tokens ?c" "lc_window_start c' = lc_window_start ?c" "lc_token_count c' = lc_token_count ?c"
    "layer_vector_len c' = layer_vector_len ?c" "compressed c' = compressed ?c" "lc_tokens_seen c' = lc_tokens_seen ?c"
    "lc_config c' = lc_config ?c"
    by (subst k(2), simp add: layer_vector_len_def compressed_def)+
  have "layer_inv ?H ?SH (sp_rows a) ?s" unfolding layer_inv_def using k(1) R(2) f by auto
  then have rel': "layer_related ?H ?SH ?s a" using rel f k(5) by (simp add: layer_related_def)
  note iso = layer_run_isolated [OF rel' budget, folded r_def]
  have b: "\<forall>b \<in> set (lc_blocks ?c). arc_get (kw_heap (lw_kv (ls_world (fst r)))) (cb_storage b) = arc_get (kw_heap (lw_kv ?w)) (cb_storage b)"
    using iso k(3) by simp
  have g: "arc_get (lw_stages (ls_world (fst r))) (lc_key_stage ?c) = arc_get (lw_stages ?w) (lc_key_stage ?c)"
    "arc_get (lw_stages (ls_world (fst r))) (lc_value_stage ?c) = arc_get (lw_stages ?w) (lc_value_stage ?c)"
    using iso k(4) by simp_all
  have s: "s = \<lparr>ls_cache = ?c, ls_world = ?w\<rparr>" by simp
  have o: "orig = \<lparr>ls_cache = ?c, ls_world = ls_world (fst r)\<rparr>" by (simp add: orig_def)
  show "layer_key i orig = layer_key i s" "layer_value i orig = layer_value i s"
    unfolding o using layer_read_frame [OF b] s by simp_all
  show "snd (layer_keys orig) = snd (layer_keys s)" "snd (layer_values orig) = snd (layer_values s)"
    unfolding o using layer_slice_frame [OF g] s by simp_all
  show "snd r = snd (run_outputs spec_layer_step ops a)"
    unfolding r_def using layer_window.run_simulates [OF rel' layer_budget_permits [OF budget]] by simp
qed

lemma run_outputs_budget:
  "sp_budget (fst (run_outputs spec_layer_step ops a)) = sp_budget a - length ops"
proof (induction ops arbitrary: a)
  case (Cons oper ops)
  have "sp_budget (fst (spec_layer_step oper a)) = sp_budget a - 1"
    by (auto simp: spec_layer_step_def spec_append_def Let_def split: layer_op.splits option.splits)
  with Cons show ?case by simp
qed simp

lemma run_outputs_max_tokens:
  "sp_max_tokens (fst (run_outputs spec_layer_step ops a)) = sp_max_tokens a"
proof (induction ops arbitrary: a)
  case (Cons oper ops)
  have "sp_max_tokens (fst (spec_layer_step oper a)) = sp_max_tokens a"
    by (auto simp: spec_layer_step_def spec_append_def Let_def split: layer_op.splits option.splits)
  with Cons show ?case by simp
qed simp

text \<open>C4: Copy on write between caches. A cache that ran any sequence \<open>before\<close> is cloned, sharing every block and
  both stages, and the clone runs any sequence \<open>after\<close>: the clone answers like a window that starts with
  the rows of the original, and the original answers every read as before the clone was made.\<close>

theorem layer_clone_isolated:
  assumes "arc_ok (kw_heap (lw_kv w)) H" and "arc_ok (lw_stages w) SH"
    and "0 < kw_next_block_id (lw_kv w)"
    and "kw_next_block_id (lw_kv w) + div_ceil_blocks n + (length before + length after) \<le> u64_max"
    and "0 < n" and "0 < heads" and "0 < hd_dim" and "n * (heads * hd_dim) * 8 + 7 \<le> u64_max"
    and "cfg_format cfg \<noteq> F16"
  shows "\<exists>w1 c. layer_new_with_config n heads hd_dim cfg w = (w1, Ok c) \<and>
    (let s = fst (run_outputs layer_step before \<lparr>ls_cache = c, ls_world = w1\<rparr>);
         (w', c') = layer_clone (ls_cache s) (ls_world s);
         (e, outs) = run_outputs layer_step after \<lparr>ls_cache = c', ls_world = w'\<rparr>;
         orig = s\<lparr>ls_world := ls_world e\<rparr>;
         a = fst (run_outputs spec_layer_step before (layer_spec_start n (heads * hd_dim) cfg (length before + length after)))
     in outs = snd (run_outputs spec_layer_step after a) \<and>
        (\<forall>i. layer_key i orig = layer_key i s \<and> layer_value i orig = layer_value i s) \<and>
        snd (layer_keys orig) = snd (layer_keys s) \<and> snd (layer_values orig) = snd (layer_values s))"
proof -
  let ?a0 = "layer_spec_start n (heads * hd_dim) cfg (length before + length after)"
  obtain w1 c where c: "layer_new_with_config n heads hd_dim cfg w = (w1, Ok c)"
    "layer_related H SH (fst (run_outputs layer_step before \<lparr>ls_cache = c, ls_world = w1\<rparr>))
      (fst (run_outputs spec_layer_step before ?a0))"
    by (rule layer_run_related [OF assms le_add1])
  have budget: "length after \<le> sp_budget (fst (run_outputs spec_layer_step before ?a0))"
    by (simp add: run_outputs_budget layer_spec_start_def)
  show ?thesis
    using c(1) layer_clone_run [OF c(2) prod.collapse [symmetric] budget] by (simp add: Let_def case_prod_beta)
qed

theorem layer_clone_isolated_witness:
  "\<exists>w1 c. layer_new_with_config 1 1 1 kv_cache_config_f32 \<lparr>lw_kv = kv_world_init, lw_stages = empty_heap\<rparr> = (w1, Ok c) \<and>
    (let s = fst (run_outputs layer_step [LayerAppend [1] [2]] \<lparr>ls_cache = c, ls_world = w1\<rparr>);
         (w', c') = layer_clone (ls_cache s) (ls_world s);
         (e, outs) = run_outputs layer_step [LayerAppendSliding [3] [4], LayerKeys] \<lparr>ls_cache = c', ls_world = w'\<rparr>;
         orig = s\<lparr>ls_world := ls_world e\<rparr>
     in outs = [OutIndex (Ok 0), OutSlice (Ok [3])] \<and> snd (layer_keys orig) = snd (layer_keys s))"
  using layer_clone_isolated [of "\<lparr>lw_kv = kv_world_init, lw_stages = empty_heap\<rparr>" "{#}" "{#}" 1
      "[LayerAppend [1] [2]]" "[LayerAppendSliding [3] [4], LayerKeys]" 1 1 kv_cache_config_f32]
  by (simp add: arc_ok_empty kv_world_init_def kv_cache_config_f32_def div_ceil_blocks_def LAYER_KV_BLOCK_TOKENS_def u64_max_def
      layer_spec_start_def spec_layer_step_def spec_append_def spec_rejects_def Let_def case_prod_beta) blast

text \<open>C29: The block runs the attention kernels read. After any sequence of operations \<open>active_blocks\<close> succeeds,
  every listed run lies inside its block's storage, and the key rows (and the value rows) of the runs in
  order are the rows of the window, the oldest first.\<close>

theorem active_blocks_cover_window:
  assumes "arc_ok (kw_heap (lw_kv w)) H" and "arc_ok (lw_stages w) SH"
    and "0 < kw_next_block_id (lw_kv w)" and "kw_next_block_id (lw_kv w) + div_ceil_blocks n + length ops \<le> u64_max"
    and "0 < n" and "0 < heads" and "0 < hd_dim" and "n * (heads * hd_dim) * 8 + 7 \<le> u64_max"
    and "cfg_format cfg \<noteq> F16"
  shows "\<exists>w' c bs. layer_new_with_config n heads hd_dim cfg w = (w', Ok c) \<and>
    layer_active_blocks (fst (run_outputs layer_step ops \<lparr>ls_cache = c, ls_world = w'\<rparr>)) = Ok bs \<and>
    (let rows = sp_rows (fst (run_outputs spec_layer_step ops (layer_spec_start n (heads * hd_dim) cfg (length ops))))
     in (\<forall>b \<in> set bs. row_slice b (lb_key_storage b) \<noteq> None \<and> row_slice b (lb_value_storage b) \<noteq> None) \<and>
        concat (map (\<lambda>b. the (row_slice b (lb_key_storage b))) bs) = concat (map fst rows) \<and>
        concat (map (\<lambda>b. the (row_slice b (lb_value_storage b))) bs) = concat (map snd rows) \<and>
        sum_list (map lb_token_count bs) = length rows)"
proof -
  obtain w' c where c: "layer_new_with_config n heads hd_dim cfg w = (w', Ok c)"
    "layer_related H SH (fst (run_outputs layer_step ops \<lparr>ls_cache = c, ls_world = w'\<rparr>))
      (fst (run_outputs spec_layer_step ops (layer_spec_start n (heads * hd_dim) cfg (length ops))))"
    by (rule layer_run_related [OF assms order.refl])
  then have "layer_inv H SH (sp_rows (fst (run_outputs spec_layer_step ops (layer_spec_start n (heads * hd_dim) cfg (length ops)))))
      (fst (run_outputs layer_step ops \<lparr>ls_cache = c, ls_world = w'\<rparr>))" by (simp add: layer_related_def)
  then show ?thesis by (rule active_blocks_ok) (use c(1) in \<open>auto simp: Let_def\<close>)
qed

theorem active_blocks_cover_window_witness:
  "\<exists>w' c bs. layer_new_with_config 2 1 1 kv_cache_config_f32 \<lparr>lw_kv = kv_world_init, lw_stages = empty_heap\<rparr> = (w', Ok c) \<and>
    layer_active_blocks (fst (run_outputs layer_step
      [LayerAppendSliding [1] [2], LayerAppendSliding [3] [4], LayerAppendSliding [5] [6]] \<lparr>ls_cache = c, ls_world = w'\<rparr>)) = Ok bs \<and>
    concat (map (\<lambda>b. the (row_slice b (lb_key_storage b))) bs) = [3, 5] \<and> sum_list (map lb_token_count bs) = Suc (Suc 0)"
  using active_blocks_cover_window [of "\<lparr>lw_kv = kv_world_init, lw_stages = empty_heap\<rparr>" "{#}" "{#}" 2
      "[LayerAppendSliding [1] [2], LayerAppendSliding [3] [4], LayerAppendSliding [5] [6]]" 1 1 kv_cache_config_f32]
  by (simp add: arc_ok_empty kv_world_init_def kv_cache_config_f32_def div_ceil_blocks_def LAYER_KV_BLOCK_TOKENS_def u64_max_def
      layer_spec_start_def spec_layer_step_def spec_append_def spec_rejects_def Let_def) blast

end
