(* ===== verification/Layer_Snapshot.thy ===== *)
theory Layer_Snapshot
  imports Layer_Runs
begin

text \<open>
  Saving and restoring a layer cache, the rest of crates/llm-kv-cache/src/layer.rs. A snapshot copies the
  rows of the window and is replayed into a new cache; a prefix state retains the active blocks and
  restores a cache that shares them. Then the views the kernels read (\<open>active_int8_blocks\<close>, the
  dequantised tensors) and the byte counts. \<open>format_metrics\<close> needs binary64 and is left out.
\<close>

section \<open>Snapshots\<close>

record layer_kv_cache_snapshot =
  sn_revision :: nat
  sn_config :: kv_cache_config
  sn_max_tokens :: nat
  sn_key_value_heads :: nat
  sn_head_dim :: nat
  sn_token_count :: nat
  sn_tokens_seen :: nat
  sn_keys :: "f32 list"
  sn_values :: "f32 list"

definition layer_snapshot :: "(layer_state, layer_kv_cache_snapshot) op" where
  "layer_snapshot =
     and_do layer_keys (\<lambda>keys. and_do layer_values (\<lambda>values s.
       (let c = ls_cache s
        in returning \<lparr>sn_revision = lc_revision c, sn_config = lc_config c, sn_max_tokens = lc_max_tokens c,
                      sn_key_value_heads = lc_key_value_heads c, sn_head_dim = lc_head_dim c,
                      sn_token_count = lc_token_count c, sn_tokens_seen = lc_tokens_seen c,
                      sn_keys = keys, sn_values = values\<rparr> s)))"

text \<open>A constructor that ends with an operation on the cache it built: the cache is dropped on an error.\<close>

definition finish_cache :: "(layer_state, unit) op \<Rightarrow> layer_kv_cache \<Rightarrow> layer_world
    \<Rightarrow> layer_world \<times> (kv_cache_error, layer_kv_cache) outcome" where
  "finish_cache f c w =
     (case f \<lparr>ls_cache = c, ls_world = w\<rparr> of
        (s, Ok _) \<Rightarrow> (ls_world s, Ok (ls_cache s))
      | (s, Err e) \<Rightarrow> (layer_drop (ls_cache s) (ls_world s), Err e)
      | (s, Panic) \<Rightarrow> (layer_drop (ls_cache s) (ls_world s), Panic))"

definition append_pair :: "f32 list \<times> f32 list \<Rightarrow> (layer_state, unit) op" where
  "append_pair kv = and_do (layer_append (fst kv) (snd kv)) (\<lambda>_. returning ())"

definition replay_snapshot :: "layer_kv_cache_snapshot \<Rightarrow> (layer_state, unit) op" where
  "replay_snapshot snap s =
     (let vector_len = layer_vector_len (ls_cache s)
      in case checked_mul (sn_token_count snap) vector_len of
           None \<Rightarrow> (s, Err InvalidShape)
         | Some used_len \<Rightarrow>
             if length (sn_keys snap) \<noteq> used_len then (s, Err (ShapeMismatch used_len (length (sn_keys snap))))
             else if length (sn_values snap) \<noteq> used_len
             then (s, Err (ShapeMismatch used_len (length (sn_values snap))))
             else and_do (for_each append_pair
                            (zip (chunks_exact vector_len (sn_keys snap)) (chunks_exact vector_len (sn_values snap))))
                    (\<lambda>_. modify_cache (\<lambda>c. c\<lparr>lc_revision := sn_revision snap, lc_tokens_seen := sn_tokens_seen snap\<rparr>)) s)"

definition layer_from_snapshot ::
  "layer_kv_cache_snapshot \<Rightarrow> layer_world \<Rightarrow> layer_world \<times> (kv_cache_error, layer_kv_cache) outcome" where
  "layer_from_snapshot snap w =
     (if sn_token_count snap > sn_max_tokens snap \<or> sn_tokens_seen snap < sn_token_count snap
      then (w, Err InvalidShape)
      else case layer_new_with_config (sn_max_tokens snap) (sn_key_value_heads snap) (sn_head_dim snap)
                  (sn_config snap) w of
             (w1, Ok c) \<Rightarrow> finish_cache (replay_snapshot snap) c w1
           | (w1, Err e) \<Rightarrow> (w1, Err e)
           | (w1, Panic) \<Rightarrow> (w1, Panic))"

section \<open>Prefix states\<close>

record layer_kv_cache_prefix_block =
  pb_block_index :: nat
  pb_retained :: retained_cache_block

record layer_kv_cache_prefix_state =
  ps_revision :: nat
  ps_config :: kv_cache_config
  ps_max_tokens :: nat
  ps_key_value_heads :: nat
  ps_head_dim :: nat
  ps_token_count :: nat
  ps_tokens_seen :: nat
  ps_window_start :: nat
  ps_blocks :: "layer_kv_cache_prefix_block list"

fun prefix_blocks_loop ::
  "layer_kv_cache \<Rightarrow> block_id list \<Rightarrow> layer_kv_cache_block_run list \<Rightarrow> kv_world
     \<Rightarrow> kv_world \<times> layer_kv_cache_prefix_block list" where
  "prefix_blocks_loop c seen [] k = (k, [])"
| "prefix_blocks_loop c seen (r # rs) k =
     (case block_table_get (lc_block_table c) (br_block_index r) of
        None \<Rightarrow> prefix_blocks_loop c seen rs k
      | Some block_id \<Rightarrow>
          if block_id \<noteq> br_block_id r \<or> block_id \<in> set seen then prefix_blocks_loop c seen rs k
          else if br_block_index r \<ge> length (lc_blocks c) \<or> cb_id (lc_blocks c ! br_block_index r) \<noteq> block_id
          then prefix_blocks_loop c (block_id # seen) rs k
          else (let (k1, retained) = retain_storage (lc_blocks c ! br_block_index r) k;
                    (k2, bs) = prefix_blocks_loop c (block_id # seen) rs k1
                in (k2, \<lparr>pb_block_index = br_block_index r, pb_retained = retained\<rparr> # bs)))"

definition layer_prefix_cache_state :: "layer_state \<Rightarrow> layer_world \<times> layer_kv_cache_prefix_state" where
  "layer_prefix_cache_state s =
     (let c = ls_cache s;
          (k, blocks) = prefix_blocks_loop c [] (lc_active_block_runs c) (lw_kv (ls_world s))
      in ((ls_world s)\<lparr>lw_kv := k\<rparr>,
          \<lparr>ps_revision = lc_revision c, ps_config = lc_config c, ps_max_tokens = lc_max_tokens c,
           ps_key_value_heads = lc_key_value_heads c, ps_head_dim = lc_head_dim c,
           ps_token_count = lc_token_count c, ps_tokens_seen = lc_tokens_seen c,
           ps_window_start = lc_window_start c, ps_blocks = blocks\<rparr>))"

text \<open>One retained block is put in the place of an empty one.\<close>

definition adopt_prefix_block :: "layer_kv_cache_prefix_block \<Rightarrow> (layer_state, unit) op" where
  "adopt_prefix_block p s =
     (let c = ls_cache s; w = ls_world s
      in case cache_block_from_retained (pb_retained p) (lw_kv w) of
           (k, Err e) \<Rightarrow> (s\<lparr>ls_world := w\<lparr>lw_kv := k\<rparr>\<rparr>, Err e)
         | (k, Panic) \<Rightarrow> (s\<lparr>ls_world := w\<lparr>lw_kv := k\<rparr>\<rparr>, Panic)
         | (k, Ok b) \<Rightarrow>
             if pb_block_index p \<ge> length (lc_blocks c) \<or> cb_vector_len b \<noteq> layer_vector_len c \<or>
                cb_capacity_tokens b \<noteq> cb_capacity_tokens (lc_blocks c ! pb_block_index p)
             then (s\<lparr>ls_world := drop_block b (w\<lparr>lw_kv := k\<rparr>)\<rparr>, Err InvalidShape)
             else (case block_table_replace (pb_block_index p) (cb_id b) (lc_block_table c) of
                     (t, Ok _) \<Rightarrow>
                       (s\<lparr>ls_cache := c\<lparr>lc_block_table := t, lc_blocks := (lc_blocks c)[pb_block_index p := b]\<rparr>,
                          ls_world := drop_block (lc_blocks c ! pb_block_index p) (w\<lparr>lw_kv := k\<rparr>)\<rparr>, Ok ())
                   | (t, Err e) \<Rightarrow>
                       (s\<lparr>ls_cache := c\<lparr>lc_block_table := t\<rparr>, ls_world := drop_block b (w\<lparr>lw_kv := k\<rparr>)\<rparr>, Err e)
                   | (t, Panic) \<Rightarrow>
                       (s\<lparr>ls_cache := c\<lparr>lc_block_table := t\<rparr>, ls_world := drop_block b (w\<lparr>lw_kv := k\<rparr>)\<rparr>, Panic)))"

text \<open>The loop of \<open>rebuild_stage_from_blocks\<close> over the stages' contents.\<close>

fun stage_rebuild_loop ::
  "layer_kv_cache \<Rightarrow> kv_world \<Rightarrow> nat list \<Rightarrow> f32 list \<Rightarrow> f32 list
     \<Rightarrow> f32 list \<times> f32 list \<times> (kv_cache_error, unit) outcome" where
  "stage_rebuild_loop c k [] ks vs = (ks, vs, Ok ())"
| "stage_rebuild_loop c k (i # is) ks vs =
     (let p = layer_physical_index c i;
          block_index = p div LAYER_KV_BLOCK_TOKENS;
          block_token_index = p mod LAYER_KV_BLOCK_TOKENS
      in if block_index \<ge> length (lc_blocks c) then (ks, vs, Err InvalidShape)
         else case (cache_block_key k (lc_blocks c ! block_index) block_token_index,
                    cache_block_value k (lc_blocks c ! block_index) block_token_index) of
                (Ok (Some key), Ok (Some val)) \<Rightarrow>
                  (case copy_stage_token ks vs (layer_vector_len c) p key val of
                     (ks', vs', Ok _) \<Rightarrow> stage_rebuild_loop c k is ks' vs'
                   | (ks', vs', e) \<Rightarrow> (ks', vs', e))
              | (Panic, _) \<Rightarrow> (ks, vs, Panic)
              | (Ok (Some key), Panic) \<Rightarrow> (ks, vs, Panic)
              | _ \<Rightarrow> (ks, vs, Err InvalidShape))"

fun rebuild_int8_loop ::
  "kv_world \<Rightarrow> nat \<Rightarrow> cache_block list \<Rightarrow> layer_int8_kv_store \<Rightarrow> layer_int8_kv_store \<times> (kv_cache_error, unit) outcome" where
  "rebuild_int8_loop k i [] store = (store, Ok ())"
| "rebuild_int8_loop k i (b # bs) store =
     (if cb_token_count b = 0 then rebuild_int8_loop k (Suc i) bs store
      else case (cache_block_keys k b, cache_block_values k b) of
             (Ok keys, Ok values) \<Rightarrow>
               (case int8_store_update_block i keys values store of
                  Ok store' \<Rightarrow> rebuild_int8_loop k (Suc i) bs store'
                | Err e \<Rightarrow> (store, Err e)
                | Panic \<Rightarrow> (store, Panic))
           | _ \<Rightarrow> (store, Panic))"

definition layer_rebuild_int8_storage :: "(layer_state, unit) op" where
  "layer_rebuild_int8_storage s =
     (let c = ls_cache s
      in case lc_int8_storage c of
           None \<Rightarrow> (s, Ok ())
         | Some store \<Rightarrow>
             (case rebuild_int8_loop (lw_kv (ls_world s)) 0 (lc_blocks c) (int8_store_clear store) of
                (store', r) \<Rightarrow> (s\<lparr>ls_cache := c\<lparr>lc_int8_storage := Some store'\<rparr>\<rparr>, r)))"

fun rebuild_values_loop ::
  "kv_world \<Rightarrow> nat \<Rightarrow> cache_block list \<Rightarrow> layer_quantized_value_store
     \<Rightarrow> layer_quantized_value_store \<times> (kv_cache_error, unit) outcome" where
  "rebuild_values_loop k i [] store = (store, Ok ())"
| "rebuild_values_loop k i (b # bs) store =
     (if cb_token_count b = 0 then rebuild_values_loop k (Suc i) bs store
      else case cache_block_values k b of
             Ok values \<Rightarrow>
               (case value_store_update_block i values store of
                  Ok store' \<Rightarrow> rebuild_values_loop k (Suc i) bs store'
                | Err e \<Rightarrow> (store, Err e)
                | Panic \<Rightarrow> (store, Panic))
           | _ \<Rightarrow> (store, Panic))"

definition layer_rebuild_quantized_values :: "(layer_state, unit) op" where
  "layer_rebuild_quantized_values s =
     (let c = ls_cache s
      in case lc_quantized_values c of
           None \<Rightarrow> (s, Ok ())
         | Some store \<Rightarrow>
             (case rebuild_values_loop (lw_kv (ls_world s)) 0 (lc_blocks c) (value_store_clear store) of
                (store', r) \<Rightarrow> (s\<lparr>ls_cache := c\<lparr>lc_quantized_values := Some store'\<rparr>\<rparr>, r)))"

definition layer_rebuild_stage_from_blocks :: "(layer_state, unit) op" where
  "layer_rebuild_stage_from_blocks s =
     (let s1 = layer_clear_stage_storage s; c = ls_cache s1
      in and_do (layer_on_stages (stage_rebuild_loop c (lw_kv (ls_world s1)) [0..<lc_token_count c])) (\<lambda>_.
         and_do layer_rebuild_int8_storage (\<lambda>_. layer_rebuild_quantized_values)) s1)"

definition adopt_prefix_state :: "layer_kv_cache_prefix_state \<Rightarrow> (layer_state, unit) op" where
  "adopt_prefix_state st =
     and_do (for_each adopt_prefix_block (ps_blocks st)) (\<lambda>_.
     and_do (modify_cache (\<lambda>c. c\<lparr>lc_revision := ps_revision st, lc_token_count := ps_token_count st,
               lc_tokens_seen := ps_tokens_seen st, lc_window_start := ps_window_start st\<rparr>)) (\<lambda>_.
     and_do layer_rebuild_active_block_runs (\<lambda>_. layer_rebuild_stage_from_blocks)))"

definition layer_from_prefix_cache_state ::
  "layer_kv_cache_prefix_state \<Rightarrow> layer_world \<Rightarrow> layer_world \<times> (kv_cache_error, layer_kv_cache) outcome" where
  "layer_from_prefix_cache_state st w =
     (if ps_max_tokens st = 0 \<or> ps_key_value_heads st = 0 \<or> ps_head_dim st = 0 \<or>
         ps_token_count st > ps_max_tokens st \<or> ps_tokens_seen st < ps_token_count st \<or>
         ps_window_start st \<ge> ps_max_tokens st
      then (w, Err InvalidShape)
      else case layer_new_with_config (ps_max_tokens st) (ps_key_value_heads st) (ps_head_dim st) (ps_config st) w of
             (w1, Ok c) \<Rightarrow> finish_cache (adopt_prefix_state st) c w1
           | (w1, Err e) \<Rightarrow> (w1, Err e)
           | (w1, Panic) \<Rightarrow> (w1, Panic))"

definition ps_block_ids :: "layer_kv_cache_prefix_state \<Rightarrow> block_id list" where
  "ps_block_ids st = map (rb_id \<circ> pb_retained) (ps_blocks st)"

definition ps_retained_block_ref_count :: "kv_world \<Rightarrow> layer_kv_cache_prefix_state \<Rightarrow> block_id \<Rightarrow> nat option" where
  "ps_retained_block_ref_count k st block_id =
     map_option (\<lambda>p. strong_count (kw_heap k) (rb_storage (pb_retained p)))
       (find (\<lambda>p. rb_id (pb_retained p) = block_id) (ps_blocks st))"

definition ps_retained_block_payload_bytes :: "kv_world \<Rightarrow> layer_kv_cache_prefix_state \<Rightarrow> nat" where
  "ps_retained_block_payload_bytes k st =
     foldl (\<lambda>total p. sat_add total (rb_payload_bytes k (pb_retained p))) 0 (ps_blocks st)"

definition ps_metadata_bytes :: "kv_world \<Rightarrow> layer_kv_cache_prefix_state \<Rightarrow> nat" where
  "ps_metadata_bytes k st =
     (let scalar_bytes = sat_add 8 (sat_mul 6 8);
          block_metadata_bytes = sat_mul (length (ps_blocks st)) (sat_add (sat_add 8 8) (sat_mul 4 8))
      in sat_add (sat_add scalar_bytes block_metadata_bytes) (ps_retained_block_payload_bytes k st))"

section \<open>Compressed views and byte counts\<close>

record layer_kv_cache_int8_block =
  ib_block_id :: block_id
  ib_revision :: nat
  ib_logical_token_start :: nat
  ib_physical_token_start :: nat
  ib_block_token_start :: nat
  ib_token_count :: nat
  ib_vector_len :: nat
  ib_int8_block :: int8_kv_block

definition layer_active_int8_block ::
  "layer_kv_cache \<Rightarrow> layer_int8_kv_store \<Rightarrow> layer_kv_cache_block_run
     \<Rightarrow> (kv_cache_error, layer_kv_cache_int8_block) outcome" where
  "layer_active_int8_block c store r =
     (case block_table_get (lc_block_table c) (br_block_index r) of
        None \<Rightarrow> Err InvalidShape
      | Some block_id \<Rightarrow>
          if block_id \<noteq> br_block_id r then Err InvalidShape
          else if br_block_index r \<ge> length (lc_blocks c) then Err InvalidShape
          else if cb_id (lc_blocks c ! br_block_index r) \<noteq> block_id then Err InvalidShape
          else (case int8_store_block store (br_block_index r) of
                  Err e \<Rightarrow> Err e
                | Panic \<Rightarrow> Panic
                | Ok q \<Rightarrow>
                    Ok \<lparr>ib_block_id = block_id, ib_revision = cb_revision (lc_blocks c ! br_block_index r),
                        ib_logical_token_start = br_logical_token_start r,
                        ib_physical_token_start = br_physical_token_start r,
                        ib_block_token_start = br_block_token_start r, ib_token_count = br_token_count r,
                        ib_vector_len = layer_vector_len c, ib_int8_block = q\<rparr>))"

definition layer_active_int8_blocks ::
  "layer_kv_cache \<Rightarrow> (kv_cache_error, layer_kv_cache_int8_block list option) outcome" where
  "layer_active_int8_blocks c =
     (case lc_int8_storage c of
        None \<Rightarrow> Ok None
      | Some store \<Rightarrow>
          (case collect_blocks (layer_active_int8_block c store) (lc_active_block_runs c) of
             Ok bs \<Rightarrow> Ok (Some bs) | Err e \<Rightarrow> Err e | Panic \<Rightarrow> Panic))"

text \<open>The loop shared by \<open>int8_dequantized_tensor\<close> and \<open>phase3_dequantized_values\<close>.\<close>

fun dequantized_rows ::
  "layer_kv_cache \<Rightarrow> (nat \<Rightarrow> (kv_cache_error, f32 list) outcome) \<Rightarrow> nat list \<Rightarrow> (kv_cache_error, f32 list) outcome" where
  "dequantized_rows c block_of [] = Ok []"
| "dequantized_rows c block_of (i # is) =
     (case layer_physical_block_position c (layer_physical_index c i) of
        None \<Rightarrow> Err InvalidShape
      | Some (block_index, block_token_index) \<Rightarrow>
          (case block_of block_index of
             Err e \<Rightarrow> Err e
           | Panic \<Rightarrow> Panic
           | Ok xs \<Rightarrow>
               (case Option.bind (checked_mul block_token_index (layer_vector_len c))
                       (\<lambda>start. Option.bind (checked_add start (layer_vector_len c)) (\<lambda>stop. slice_range start stop xs)) of
                  None \<Rightarrow> Err InvalidShape
                | Some r \<Rightarrow>
                    (case dequantized_rows c block_of is of Ok rs \<Rightarrow> Ok (r @ rs) | Err e \<Rightarrow> Err e | Panic \<Rightarrow> Panic))))"

definition some_rows :: "(kv_cache_error, f32 list) outcome \<Rightarrow> (kv_cache_error, f32 list option) outcome" where
  "some_rows r = (case r of Ok xs \<Rightarrow> Ok (Some xs) | Err e \<Rightarrow> Err e | Panic \<Rightarrow> Panic)"

datatype int8_tensor = Int8Key | Int8Value

definition layer_int8_dequantized_tensor ::
  "int8_tensor \<Rightarrow> layer_kv_cache \<Rightarrow> (kv_cache_error, f32 list option) outcome" where
  "layer_int8_dequantized_tensor tensor c =
     (case lc_int8_storage c of
        None \<Rightarrow> Ok None
      | Some store \<Rightarrow>
          some_rows (dequantized_rows c
            (case tensor of Int8Key \<Rightarrow> int8_store_dequantized_key_block store
                          | Int8Value \<Rightarrow> int8_store_dequantized_value_block store)
            [0..<lc_token_count c]))"

definition layer_phase3_dequantized_values :: "layer_kv_cache \<Rightarrow> (kv_cache_error, f32 list option) outcome" where
  "layer_phase3_dequantized_values c =
     (case lc_quantized_values c of
        None \<Rightarrow> Ok None
      | Some store \<Rightarrow> some_rows (dequantized_rows c (value_store_dequantized_block store) [0..<lc_token_count c]))"

definition f32_resident_bytes :: "f32 list option \<Rightarrow> nat" where
  "f32_resident_bytes xs = (case xs of None \<Rightarrow> 0 | Some ys \<Rightarrow> f32_bytes ys)"

definition layer_compatibility_stage_resident_bytes :: "layer_state \<Rightarrow> nat" where
  "layer_compatibility_stage_resident_bytes s =
     (let c = ls_cache s; h = lw_stages (ls_world s)
      in sat_add (sat_add (sat_add (f32_resident_bytes (arc_get h (lc_key_stage c)))
                                   (f32_resident_bytes (arc_get h (lc_value_stage c))))
                          (f32_resident_bytes (lc_key_contiguous_view c)))
                 (f32_resident_bytes (lc_value_contiguous_view c)))"

definition layer_resident_bytes :: "layer_state \<Rightarrow> nat" where
  "layer_resident_bytes s =
     (let c = ls_cache s; k = lw_kv (ls_world s);
          f32_total = foldl (\<lambda>total b.
              sat_add (sat_add total (f32_resident_bytes (map_option st_keys (block_storage k b))))
                (f32_resident_bytes (map_option st_values (block_storage k b))))
            (layer_compatibility_stage_resident_bytes s) (lc_blocks c)
      in sat_add (sat_add f32_total (case lc_int8_storage c of None \<Rightarrow> 0 | Some st \<Rightarrow> int8_store_resident_bytes st))
           (case lc_quantized_values c of None \<Rightarrow> 0 | Some st \<Rightarrow> value_store_resident_bytes st))"

definition layer_retained_block_ref_count :: "layer_state \<Rightarrow> block_id \<Rightarrow> nat option" where
  "layer_retained_block_ref_count s block_id =
     map_option (cb_retained_storage_ref_count (lw_kv (ls_world s)))
       (find (\<lambda>b. cb_id b = block_id) (lc_blocks (ls_cache s)))"

definition layer_key_storage :: "layer_state \<Rightarrow> f32 list option" where
  "layer_key_storage s =
     Option.bind (arc_get (lw_stages (ls_world s)) (lc_key_stage (ls_cache s)))
       (slice_range 0 (layer_stage_storage_len (ls_cache s)))"

definition layer_value_storage :: "layer_state \<Rightarrow> f32 list option" where
  "layer_value_storage s =
     Option.bind (arc_get (lw_stages (ls_world s)) (lc_value_stage (ls_cache s)))
       (slice_range 0 (layer_stage_storage_len (ls_cache s)))"

section \<open>A snapshot is a round trip\<close>

lemma spec_rejects_frame [simp]:
  "spec_rejects (a\<lparr>sp_budget := b\<rparr>) key val = spec_rejects a key val"
  "spec_rejects (a\<lparr>sp_rows := rs\<rparr>) key val = spec_rejects a key val"
  by (simp_all add: spec_rejects_def)

lemma spec_accepts_length:
  "spec_rejects a key val = None \<Longrightarrow> length key = sp_vector_len a \<and> length val = sp_vector_len a"
  by (simp add: spec_rejects_def split: if_splits)

lemma layer_rows_accepted:
  assumes rel: "layer_related H SH s a" and r: "r \<in> set (sp_rows a)"
  shows "spec_rejects a (fst r) (snd r) = None"
proof -
  let ?c = "ls_cache s"
  obtain R where R: "layer_inv_at H SH R s"
    "sp_rows a = rows_of (lc_max_tokens ?c) (lc_window_start ?c) (lc_token_count ?c) R"
    using rel by (rule layer_relatedE)
  note d = layer_invD [OF R(1)]
  obtain i where i: "i < lc_token_count ?c" "r = R (slot (lc_max_tokens ?c) (lc_window_start ?c) i)"
    using r unfolding R(2) by (auto simp: rows_of_def)
  define p where "p = slot (lc_max_tokens ?c) (lc_window_start ?c) i"
  have p: "p < lc_token_count ?c" using slot_in_use [OF R(1) i(1)] by (simp add: p_def)
  have bok: "blocks_ok (lw_kv (ls_world s)) (lc_max_tokens ?c) (layer_vector_len ?c) (lc_token_count ?c) R (lc_blocks ?c)"
    using d(7) unfolding block_side_def by blast
  have len: "p div 256 < length (lc_blocks ?c)"
    using block_fill_facts(1) [of p "lc_max_tokens ?c"] p d(4) bok by (simp add: blocks_ok_def)
  note b = block_okD [OF bok len d(4)]
  have fill: "p mod 256 < block_fill (lc_token_count ?c) (p div 256)" by (rule block_fill_facts(2) [OF p])
  then have "block_rows (lw_kv (ls_world s)) (lc_blocks ?c ! (p div 256)) ! (p mod 256) = R (256 * (p div 256) + p mod 256)"
    unfolding b(5) by simp
  then have row: "block_rows (lw_kv (ls_world s)) (lc_blocks ?c ! (p div 256)) ! (p mod 256) = r"
    using i(2) by (simp add: p_def)
  have "p mod 256 < cb_token_count (lc_blocks ?c ! (p div 256))" using fill b(4) by simp
  from row_lengths [OF b(1) this] have "length (fst r) = layer_vector_len ?c" "length (snd r) = layer_vector_len ?c"
    unfolding row b(3) .
  moreover have "compressed ?c \<Longrightarrow> all_finite (fst r @ snd r)" using d(10) p i(2) by (auto simp: finite_rows_def p_def)
  ultimately show ?thesis using rel by (auto simp: spec_rejects_def layer_related_def)
qed

lemma layer_snapshot_ok:
  assumes rel: "layer_related H SH s a"
  obtains s' snap where "layer_snapshot s = (s', Ok snap)" "layer_related H SH s' a"
    "snap = \<lparr>sn_revision = lc_revision (ls_cache s), sn_config = lc_config (ls_cache s), sn_max_tokens = lc_max_tokens (ls_cache s),
        sn_key_value_heads = lc_key_value_heads (ls_cache s), sn_head_dim = lc_head_dim (ls_cache s),
        sn_token_count = length (sp_rows a), sn_tokens_seen = lc_tokens_seen (ls_cache s),
        sn_keys = concat (map fst (sp_rows a)), sn_values = concat (map snd (sp_rows a))\<rparr>"
proof -
  let ?c = "ls_cache s"
  obtain R where R: "layer_inv_at H SH R s"
    "sp_rows a = rows_of (lc_max_tokens ?c) (lc_window_start ?c) (lc_token_count ?c) R"
    "length (sp_rows a) = lc_token_count ?c"
    using rel by (rule layer_relatedE)
  obtain kview where k: "layer_keys s = (s\<lparr>ls_cache := ?c\<lparr>lc_key_contiguous_view := kview\<rparr>\<rparr>, Ok (concat (map fst (sp_rows a))))"
    "layer_inv_at H SH R (s\<lparr>ls_cache := ?c\<lparr>lc_key_contiguous_view := kview\<rparr>\<rparr>)"
    unfolding R(2) using R(1) by (rule layer_keys_ok)
  let ?s1 = "s\<lparr>ls_cache := ?c\<lparr>lc_key_contiguous_view := kview\<rparr>\<rparr>"
  obtain vview where v: "layer_values ?s1 =
      (?s1\<lparr>ls_cache := (ls_cache ?s1)\<lparr>lc_value_contiguous_view := vview\<rparr>\<rparr>,
       Ok (concat (map snd (rows_of (lc_max_tokens (ls_cache ?s1)) (lc_window_start (ls_cache ?s1)) (lc_token_count (ls_cache ?s1)) R))))"
    "layer_inv_at H SH R (?s1\<lparr>ls_cache := (ls_cache ?s1)\<lparr>lc_value_contiguous_view := vview\<rparr>\<rparr>)"
    using k(2) by (rule layer_values_ok)
  let ?s2 = "?s1\<lparr>ls_cache := (ls_cache ?s1)\<lparr>lc_value_contiguous_view := vview\<rparr>\<rparr>"
  have "layer_inv H SH (sp_rows a) ?s2" unfolding layer_inv_def using v(2) R(2) by auto
  then have rel2: "layer_related H SH ?s2 a" using rel by (simp add: layer_related_def layer_vector_len_def compressed_def)
  show thesis
    by (rule that [OF _ rel2 refl]) (use k(1) v(1) R(2,3) in \<open>simp add: layer_snapshot_def and_do_def returning_def Let_def\<close>)
qed

lemma replay_rows:
  assumes "layer_related H SH s a" and "length (sp_rows a) + length rs \<le> sp_max_tokens a"
    and "length rs \<le> sp_budget a" and "\<And>r. r \<in> set rs \<Longrightarrow> spec_rejects a (fst r) (snd r) = None"
  shows "\<exists>s'. for_each append_pair rs s = (s', Ok ()) \<and>
    layer_related H SH s' (a\<lparr>sp_budget := sp_budget a - length rs, sp_rows := sp_rows a @ rs\<rparr>)"
  using assms
proof (induction rs arbitrary: s a)
  case Nil
  then show ?case by (simp add: returning_def)
next
  case (Cons r rs)
  let ?a1 = "a\<lparr>sp_budget := sp_budget a - 1, sp_rows := sp_rows a @ [r]\<rparr>"
  have rej: "spec_rejects a (fst r) (snd r) = None" using Cons.prems(4) by simp
  have b: "0 < sp_budget a" using Cons.prems(3) by simp
  have step: "spec_layer_step (LayerAppend (fst r) (snd r)) a = (?a1, OutIndex (Ok (length (sp_rows a))))"
    using rej Cons.prems(2) by (simp add: spec_layer_step_def spec_append_def Let_def)
  obtain s1 out where o: "layer_append (fst r) (snd r) s = (s1, out)" by fastforce
  from append_simulates [OF Cons.prems(1) b, of "fst r" "snd r"]
  have s1: "layer_related H SH s1 ?a1" "out = Ok (length (sp_rows a))"
    unfolding step by (simp_all add: layer_step_def o)
  have "\<And>q. q \<in> set rs \<Longrightarrow> spec_rejects ?a1 (fst q) (snd q) = None"
    using Cons.prems(4) by simp
  moreover have "length (sp_rows ?a1) + length rs \<le> sp_max_tokens ?a1" "length rs \<le> sp_budget ?a1"
    using Cons.prems(2,3) by simp_all
  ultimately obtain s' where s': "for_each append_pair rs s1 = (s', Ok ())"
    "layer_related H SH s' (?a1\<lparr>sp_budget := sp_budget ?a1 - length rs, sp_rows := sp_rows ?a1 @ rs\<rparr>)"
    using Cons.IH [OF s1(1)] by blast
  have "for_each append_pair (r # rs) s = (s', Ok ())"
    using o s1(2) s'(1) by (simp add: append_pair_def and_do_def returning_def)
  then show ?case using s'(2) by simp
qed

lemma chunks_of_rows:
  assumes "0 < v" and "\<forall>r \<in> set rs. length (f r) = v"
  shows "chunks_exact v (concat (map f rs)) = map f rs"
  by (rule chunks_exact_concat) (use assms in auto)

lemma from_snapshot_related:
  assumes rel: "layer_related H SH s a" and snap: "layer_snapshot s = (s', Ok snap)"
    and w: "arc_ok (kw_heap (lw_kv w)) G" "arc_ok (lw_stages w) SG" "0 < kw_next_block_id (lw_kv w)"
    and ids: "kw_next_block_id (lw_kv w) + div_ceil_blocks (sp_max_tokens a) + (sp_max_tokens a + sp_budget a) \<le> u64_max"
  obtains w' c where "layer_from_snapshot snap w = (w', Ok c)" "layer_related G SG \<lparr>ls_cache = c, ls_world = w'\<rparr> a"
    "lc_revision c = lc_revision (ls_cache s)" "lc_tokens_seen c = lc_tokens_seen (ls_cache s)"
proof -
  let ?c = "ls_cache s"
  let ?n = "lc_max_tokens ?c" and ?heads = "lc_key_value_heads ?c" and ?hd = "lc_head_dim ?c" and ?cfg = "lc_config ?c"
  obtain R where R: "layer_inv_at H SH R s" "length (sp_rows a) = lc_token_count ?c" using rel by (rule layer_relatedE)
  note d = layer_invD [OF R(1)]
  have f: "sp_max_tokens a = ?n" "sp_vector_len a = layer_vector_len ?c" "sp_compressed a = compressed ?c"
    "compressed ?c \<longleftrightarrow> cfg_format ?cfg = Int8 \<or> cfg_asymmetric_vq ?cfg \<noteq> None" "cfg_format ?cfg \<noteq> F16"
    "length (sp_rows a) \<le> lc_tokens_seen ?c" "lc_tokens_seen ?c + sp_budget a \<le> u64_max"
    using rel unfolding layer_related_def by blast+
  have sh: "0 < ?n" "0 < ?heads" "0 < ?hd" "?n * (?heads * ?hd) * 8 + 7 \<le> u64_max"
    using R(1) by (simp_all add: layer_inv_at_def Let_def shape_ok_def)
  have sn: "snap = \<lparr>sn_revision = lc_revision ?c, sn_config = ?cfg, sn_max_tokens = ?n,
        sn_key_value_heads = ?heads, sn_head_dim = ?hd,
        sn_token_count = length (sp_rows a), sn_tokens_seen = lc_tokens_seen ?c,
        sn_keys = concat (map fst (sp_rows a)), sn_values = concat (map snd (sp_rows a))\<rparr>"
    using layer_snapshot_ok [OF rel] snap by (metis outcome.inject(1) prod.inject)
  have id1: "kw_next_block_id (lw_kv w) + div_ceil_blocks ?n \<le> u64_max" using ids f(1) by simp
  obtain w1 c1 where c: "layer_new_with_config ?n ?heads ?hd ?cfg w = (w1, Ok c1)"
    "layer_inv G SG [] \<lparr>ls_cache = c1, ls_world = w1\<rparr>"
    "lc_max_tokens c1 = ?n" "layer_vector_len c1 = ?heads * ?hd" "lc_tokens_seen c1 = 0"
    "compressed c1 \<longleftrightarrow> cfg_format ?cfg = Int8 \<or> cfg_asymmetric_vq ?cfg \<noteq> None"
    "kw_next_block_id (lw_kv w1) = kw_next_block_id (lw_kv w) + div_ceil_blocks ?n" "lc_config c1 = ?cfg"
    by (rule layer_new_ok [OF w id1 sh f(5)])
  let ?s1 = "\<lparr>ls_cache = c1, ls_world = w1\<rparr>"
  let ?a1 = "a\<lparr>sp_budget := length (sp_rows a) + sp_budget a, sp_rows := []\<rparr>"
  have v: "layer_vector_len c1 = layer_vector_len ?c" using c(4) d(13) by simp
  have tc: "length (sp_rows a) \<le> ?n" using R(2) d(4) by simp
  have rel1: "layer_related G SG ?s1 ?a1"
    using c v f ids tc by (auto simp: layer_related_def)
  have acc: "\<And>r. r \<in> set (sp_rows a) \<Longrightarrow> spec_rejects ?a1 (fst r) (snd r) = None"
    using layer_rows_accepted [OF rel] by simp
  have fit: "length (sp_rows ?a1) + length (sp_rows a) \<le> sp_max_tokens ?a1" "length (sp_rows a) \<le> sp_budget ?a1"
    using tc f(1) by simp_all
  from replay_rows [OF rel1 fit acc]
  obtain s2 where s2: "for_each append_pair (sp_rows a) ?s1 = (s2, Ok ())"
    "layer_related G SG s2 (?a1\<lparr>sp_budget := sp_budget ?a1 - length (sp_rows a), sp_rows := sp_rows ?a1 @ sp_rows a\<rparr>)" by blast
  have lens: "\<forall>r \<in> set (sp_rows a). length (fst r) = layer_vector_len c1" "\<forall>r \<in> set (sp_rows a). length (snd r) = layer_vector_len c1"
    using spec_accepts_length [OF layer_rows_accepted [OF rel]] f(2) v by simp_all
  have vpos: "0 < layer_vector_len c1" using v d(2) by simp
  have used: "length (sp_rows a) * layer_vector_len c1 \<le> u64_max"
    unfolding v by (rule order.trans [OF mult_le_mono1 [OF tc] d(11)])
  have flat: "length (concat (map fst (sp_rows a))) = length (sp_rows a) * layer_vector_len c1"
    "length (concat (map snd (sp_rows a))) = length (sp_rows a) * layer_vector_len c1"
    using lens by (simp_all add: length_concat comp_def sum_list_triv cong: map_cong)
  let ?s3 = "s2\<lparr>ls_cache := (ls_cache s2)\<lparr>lc_revision := lc_revision ?c, lc_tokens_seen := lc_tokens_seen ?c\<rparr>\<rparr>"
  have "replay_snapshot snap ?s1 = (?s3, Ok ())"
    unfolding sn replay_snapshot_def Let_def
    using used flat s2(1) chunks_of_rows [OF vpos lens(1)] chunks_of_rows [OF vpos lens(2)]
    by (simp add: checked_mul_def zip_map_fst_snd and_do_def modify_cache_def)
  then have eq: "layer_from_snapshot snap w = (ls_world ?s3, Ok (ls_cache ?s3))"
    using c(1) tc f(6) unfolding sn by (simp add: layer_from_snapshot_def finish_cache_def)
  have "layer_inv G SG (sp_rows a) s2" using s2(2) by (simp add: layer_related_def)
  then have "layer_inv G SG (sp_rows a) ?s3"
    by (simp add: layer_inv_def layer_inv_at_def Let_def shape_ok_def window_ok_def layer_vector_len_def compressed_def)
  then have "layer_related G SG ?s3 a"
    using s2(2) f(6,7) by (simp add: layer_related_def layer_vector_len_def compressed_def)
  moreover have "\<lparr>ls_cache = ls_cache ?s3, ls_world = ls_world ?s3\<rparr> = ?s3" by (cases s2) simp
  ultimately have "layer_related G SG \<lparr>ls_cache = ls_cache ?s3, ls_world = ls_world ?s3\<rparr> a" by (simp only:)
  then show thesis by (rule that [OF eq]) simp_all
qed

text \<open>C5: Saving and restoring. After any sequence \<open>before\<close>, wrapped or not, in every storage format, \<open>snapshot\<close>
  succeeds and \<open>from_snapshot\<close> in any process state rebuilds a cache with the same revision and position that
  answers every further sequence \<open>after\<close> exactly as the original does.\<close>

theorem layer_snapshot_roundtrip:
  assumes "arc_ok (kw_heap (lw_kv w)) H" and "arc_ok (lw_stages w) SH" and "0 < kw_next_block_id (lw_kv w)"
    and "kw_next_block_id (lw_kv w) + div_ceil_blocks n + (length before + length after) \<le> u64_max"
    and "0 < n" and "0 < heads" and "0 < hd_dim" and "n * (heads * hd_dim) * 8 + 7 \<le> u64_max" and "cfg_format cfg \<noteq> F16"
    and "arc_ok (kw_heap (lw_kv w2)) G" and "arc_ok (lw_stages w2) SG" and "0 < kw_next_block_id (lw_kv w2)"
    and "kw_next_block_id (lw_kv w2) + div_ceil_blocks n + (n + length after) \<le> u64_max"
  shows "\<exists>w1 c s' snap w3 c'. layer_new_with_config n heads hd_dim cfg w = (w1, Ok c) \<and>
    (let s = fst (run_outputs layer_step before \<lparr>ls_cache = c, ls_world = w1\<rparr>)
     in layer_snapshot s = (s', Ok snap) \<and> layer_from_snapshot snap w2 = (w3, Ok c') \<and>
        lc_revision c' = lc_revision (ls_cache s) \<and> lc_tokens_seen c' = lc_tokens_seen (ls_cache s) \<and>
        snd (run_outputs layer_step after \<lparr>ls_cache = c', ls_world = w3\<rparr>) = snd (run_outputs layer_step after s))"
proof -
  let ?a0 = "layer_spec_start n (heads * hd_dim) cfg (length before + length after)"
  let ?a = "fst (run_outputs spec_layer_step before ?a0)"
  obtain w1 c where c: "layer_new_with_config n heads hd_dim cfg w = (w1, Ok c)"
    "layer_related H SH (fst (run_outputs layer_step before \<lparr>ls_cache = c, ls_world = w1\<rparr>)) ?a"
    by (rule layer_run_related [OF assms(1-9) le_add1])
  let ?s = "fst (run_outputs layer_step before \<lparr>ls_cache = c, ls_world = w1\<rparr>)"
  have b: "sp_budget ?a = length after" "sp_max_tokens ?a = n"
    by (simp_all add: run_outputs_budget run_outputs_max_tokens layer_spec_start_def)
  obtain s' snap where sn: "layer_snapshot ?s = (s', Ok snap)" using c(2) by (rule layer_snapshot_ok)
  have ids: "kw_next_block_id (lw_kv w2) + div_ceil_blocks (sp_max_tokens ?a) + (sp_max_tokens ?a + sp_budget ?a) \<le> u64_max"
    using assms(13) b by simp
  obtain w3 c' where r: "layer_from_snapshot snap w2 = (w3, Ok c')" "layer_related G SG \<lparr>ls_cache = c', ls_world = w3\<rparr> ?a"
    "lc_revision c' = lc_revision (ls_cache ?s)" "lc_tokens_seen c' = lc_tokens_seen (ls_cache ?s)"
    by (rule from_snapshot_related [OF c(2) sn assms(10-12) ids])
  have p: "permitted_inputs spec_layer_step (\<lambda>_ a. 0 < sp_budget a) after ?a"
    by (rule layer_budget_permits) (simp add: b)
  have "snd (run_outputs layer_step after \<lparr>ls_cache = c', ls_world = w3\<rparr>) = snd (run_outputs layer_step after ?s)"
    using layer_window.run_simulates [OF r(2) p] layer_window.run_simulates [OF c(2) p] by simp
  then show ?thesis using c(1) sn r by (auto simp: Let_def)
qed

theorem layer_snapshot_roundtrip_witness:
  "\<exists>w1 c s' snap w3 c'. layer_new_with_config 2 1 1 kv_cache_config_f32 \<lparr>lw_kv = kv_world_init, lw_stages = empty_heap\<rparr> = (w1, Ok c) \<and>
    (let s = fst (run_outputs layer_step [LayerAppendSliding [1] [2], LayerAppendSliding [3] [4], LayerAppendSliding [5] [6]]
           \<lparr>ls_cache = c, ls_world = w1\<rparr>)
     in layer_snapshot s = (s', Ok snap) \<and>
        layer_from_snapshot snap \<lparr>lw_kv = kv_world_init, lw_stages = empty_heap\<rparr> = (w3, Ok c') \<and>
        lc_revision c' = lc_revision (ls_cache s) \<and> lc_tokens_seen c' = lc_tokens_seen (ls_cache s) \<and>
        snd (run_outputs layer_step [LayerKeys] \<lparr>ls_cache = c', ls_world = w3\<rparr>) = snd (run_outputs layer_step [LayerKeys] s))"
  by (rule layer_snapshot_roundtrip [where H = "{#}" and SH = "{#}" and G = "{#}" and SG = "{#}"])
    (simp_all add: arc_ok_empty kv_world_init_def kv_cache_config_f32_def div_ceil_blocks_def LAYER_KV_BLOCK_TOKENS_def u64_max_def)

end
