(* ===== verification/Linear_Cache.thy ===== *)
theory Linear_Cache
  imports Cache_Block
begin

text \<open>
  The state of a linear-attention layer, crates/llm-kv-cache/src/linear.rs: a convolution window of the last
  \<open>conv_kernel_size\<close> inputs and a recurrent state. Its operations are compared with a window kept as a list of
  inputs, and a snapshot is shown to be a round trip. The process-wide counter of cache identities is an argument.
\<close>

section \<open>Operations\<close>

record linear_attention_cache =
  li_id :: nat
  li_revision :: nat
  li_conv_kernel_size :: nat
  li_conv_dim :: nat
  li_num_value_heads :: nat
  li_key_head_dim :: nat
  li_value_head_dim :: nat
  li_token_count :: nat
  li_conv_window :: "f32 list"
  li_recurrent_state :: "f32 list"

record linear_attention_cache_snapshot =
  lsn_revision :: nat
  lsn_conv_kernel_size :: nat
  lsn_conv_dim :: nat
  lsn_num_value_heads :: nat
  lsn_key_head_dim :: nat
  lsn_value_head_dim :: nat
  lsn_token_count :: nat
  lsn_conv_window :: "f32 list"
  lsn_recurrent_state :: "f32 list"

definition linear_clone :: "linear_attention_cache \<Rightarrow> nat \<Rightarrow> nat \<times> linear_attention_cache" where
  "linear_clone c next_id = (wrap_add next_id 1, c\<lparr>li_id := next_id\<rparr>)"

definition linear_new ::
  "nat \<Rightarrow> nat \<Rightarrow> nat \<Rightarrow> nat \<Rightarrow> nat \<Rightarrow> nat \<Rightarrow> nat \<times> (kv_cache_error, linear_attention_cache) outcome" where
  "linear_new conv_kernel_size conv_dim num_value_heads key_head_dim value_head_dim next_id =
     (if conv_kernel_size = 0 \<or> conv_dim = 0 \<or> num_value_heads = 0 \<or> key_head_dim = 0 \<or> value_head_dim = 0
      then (next_id, Err InvalidShape)
      else case checked_mul conv_kernel_size conv_dim of
             None \<Rightarrow> (next_id, Err InvalidShape)
           | Some conv_len \<Rightarrow>
               (case Option.bind (checked_mul num_value_heads key_head_dim) (\<lambda>len. checked_mul len value_head_dim) of
                  None \<Rightarrow> (next_id, Err InvalidShape)
                | Some recurrent_state_len \<Rightarrow>
                    (wrap_add next_id 1,
                     Ok \<lparr>li_id = next_id, li_revision = 0, li_conv_kernel_size = conv_kernel_size,
                         li_conv_dim = conv_dim, li_num_value_heads = num_value_heads,
                         li_key_head_dim = key_head_dim, li_value_head_dim = value_head_dim, li_token_count = 0,
                         li_conv_window = replicate conv_len 0,
                         li_recurrent_state = replicate recurrent_state_len 0\<rparr>)))"

definition linear_snapshot :: "linear_attention_cache \<Rightarrow> linear_attention_cache_snapshot" where
  "linear_snapshot c =
     \<lparr>lsn_revision = li_revision c, lsn_conv_kernel_size = li_conv_kernel_size c, lsn_conv_dim = li_conv_dim c,
      lsn_num_value_heads = li_num_value_heads c, lsn_key_head_dim = li_key_head_dim c,
      lsn_value_head_dim = li_value_head_dim c, lsn_token_count = li_token_count c,
      lsn_conv_window = li_conv_window c, lsn_recurrent_state = li_recurrent_state c\<rparr>"

definition linear_from_snapshot ::
  "linear_attention_cache_snapshot \<Rightarrow> nat \<Rightarrow> nat \<times> (kv_cache_error, linear_attention_cache) outcome" where
  "linear_from_snapshot snap next_id =
     (case linear_new (lsn_conv_kernel_size snap) (lsn_conv_dim snap) (lsn_num_value_heads snap)
             (lsn_key_head_dim snap) (lsn_value_head_dim snap) next_id of
        (n, Err e) \<Rightarrow> (n, Err e)
      | (n, Panic) \<Rightarrow> (n, Panic)
      | (n, Ok c) \<Rightarrow>
          if length (lsn_conv_window snap) \<noteq> length (li_conv_window c)
          then (n, Err (ShapeMismatch (length (li_conv_window c)) (length (lsn_conv_window snap))))
          else if length (lsn_recurrent_state snap) \<noteq> length (li_recurrent_state c)
          then (n, Err (ShapeMismatch (length (li_recurrent_state c)) (length (lsn_recurrent_state snap))))
          else (n, Ok (c\<lparr>li_revision := lsn_revision snap, li_token_count := lsn_token_count snap,
                         li_conv_window := lsn_conv_window snap, li_recurrent_state := lsn_recurrent_state snap\<rparr>)))"

definition linear_recurrent_state_len :: "linear_attention_cache \<Rightarrow> nat" where
  "linear_recurrent_state_len c = length (li_recurrent_state c)"

definition linear_resident_bytes :: "linear_attention_cache \<Rightarrow> nat" where
  "linear_resident_bytes c = sat_add (f32_bytes (li_conv_window c)) (f32_bytes (li_recurrent_state c))"

text \<open>\<open>slice::copy_within(d.., 0)\<close>, which panics when \<open>d\<close> is out of range, and \<open>xs[start..].copy_from_slice(ys)\<close>,
  which panics when the lengths differ.\<close>

definition copy_within_front :: "nat \<Rightarrow> 'a list \<Rightarrow> 'a list option" where
  "copy_within_front d xs = (if d > length xs then None else Some (drop d xs @ drop (length xs - d) xs))"

definition copy_to_end :: "nat \<Rightarrow> 'a list \<Rightarrow> 'a list \<Rightarrow> 'a list option" where
  "copy_to_end start ys xs =
     (if start > length xs \<or> length xs - start \<noteq> length ys then None else Some (take start xs @ ys))"

definition linear_push_conv_input ::
  "f32 list \<Rightarrow> linear_attention_cache \<Rightarrow> linear_attention_cache \<times> (kv_cache_error, unit) outcome" where
  "linear_push_conv_input input c =
     (if length input \<noteq> li_conv_dim c then (c, Err (ShapeMismatch (li_conv_dim c) (length input)))
      else case copy_within_front (li_conv_dim c) (li_conv_window c) of
             None \<Rightarrow> (c, Panic)
           | Some shifted \<Rightarrow>
               (case copy_to_end (wrap_sub (length shifted) (li_conv_dim c)) input shifted of
                  None \<Rightarrow> (c\<lparr>li_conv_window := shifted\<rparr>, Panic)
                | Some window \<Rightarrow>
                    (c\<lparr>li_conv_window := window, li_token_count := sat_add (li_token_count c) 1,
                       li_revision := sat_add (li_revision c) 1\<rparr>, Ok ())))"

definition linear_replace_recurrent_state ::
  "f32 list \<Rightarrow> linear_attention_cache \<Rightarrow> linear_attention_cache \<times> (kv_cache_error, unit) outcome" where
  "linear_replace_recurrent_state state c =
     (if length state \<noteq> length (li_recurrent_state c)
      then (c, Err (ShapeMismatch (length (li_recurrent_state c)) (length state)))
      else (c\<lparr>li_recurrent_state := state, li_revision := sat_add (li_revision c) 1\<rparr>, Ok ()))"

definition linear_replace_recurrent_state_range ::
  "nat \<Rightarrow> f32 list \<Rightarrow> linear_attention_cache \<Rightarrow> linear_attention_cache \<times> (kv_cache_error, unit) outcome" where
  "linear_replace_recurrent_state_range start state c =
     (case checked_add start (length state) of
        None \<Rightarrow> (c, Err InvalidShape)
      | Some stop \<Rightarrow>
          if stop > length (li_recurrent_state c)
          then (c, Err (ShapeMismatch (sat_sub (length (li_recurrent_state c)) start) (length state)))
          else (case copy_range start stop state (li_recurrent_state c) of
                  None \<Rightarrow> (c, Panic)
                | Some xs \<Rightarrow>
                    (c\<lparr>li_recurrent_state := xs, li_revision := sat_add (li_revision c) 1\<rparr>, Ok ())))"

definition linear_clear :: "linear_attention_cache \<Rightarrow> linear_attention_cache" where
  "linear_clear c =
     c\<lparr>li_token_count := 0, li_conv_window := replicate (length (li_conv_window c)) 0,
       li_recurrent_state := replicate (length (li_recurrent_state c)) 0,
       li_revision := sat_add (li_revision c) 1\<rparr>"

section \<open>Shape\<close>

definition linear_shape :: "linear_attention_cache \<Rightarrow> bool" where
  "linear_shape c \<longleftrightarrow>
     0 < li_conv_kernel_size c \<and> 0 < li_conv_dim c \<and> 0 < li_num_value_heads c \<and> 0 < li_key_head_dim c \<and>
     0 < li_value_head_dim c \<and> li_conv_kernel_size c * li_conv_dim c \<le> u64_max \<and>
     li_num_value_heads c * li_key_head_dim c * li_value_head_dim c \<le> u64_max \<and>
     length (li_conv_window c) = li_conv_kernel_size c * li_conv_dim c \<and>
     length (li_recurrent_state c) = li_num_value_heads c * li_key_head_dim c * li_value_head_dim c"

datatype linear_op =
    LinearPush "f32 list"
  | LinearReplace "f32 list"
  | LinearReplaceRange nat "f32 list"
  | LinearClear

definition linear_step :: "linear_op \<Rightarrow> linear_attention_cache \<Rightarrow> linear_attention_cache \<times> (kv_cache_error, unit) outcome" where
  "linear_step oper c =
     (case oper of
        LinearPush input \<Rightarrow> linear_push_conv_input input c
      | LinearReplace state \<Rightarrow> linear_replace_recurrent_state state c
      | LinearReplaceRange start state \<Rightarrow> linear_replace_recurrent_state_range start state c
      | LinearClear \<Rightarrow> (linear_clear c, Ok ()))"

text \<open>The window as a list of inputs, the oldest first, and the recurrent state.\<close>

record linear_spec =
  lp_dim :: nat
  lp_rows :: "f32 list list"
  lp_state :: "f32 list"

definition linear_spec_step :: "linear_op \<Rightarrow> linear_spec \<Rightarrow> linear_spec \<times> (kv_cache_error, unit) outcome" where
  "linear_spec_step oper a =
     (case oper of
        LinearPush input \<Rightarrow>
          if length input \<noteq> lp_dim a then (a, Err (ShapeMismatch (lp_dim a) (length input)))
          else (a\<lparr>lp_rows := tl (lp_rows a) @ [input]\<rparr>, Ok ())
      | LinearReplace state \<Rightarrow>
          if length state \<noteq> length (lp_state a) then (a, Err (ShapeMismatch (length (lp_state a)) (length state)))
          else (a\<lparr>lp_state := state\<rparr>, Ok ())
      | LinearReplaceRange start state \<Rightarrow>
          if start + length state > u64_max then (a, Err InvalidShape)
          else if start + length state > length (lp_state a)
          then (a, Err (ShapeMismatch (length (lp_state a) - start) (length state)))
          else (a\<lparr>lp_state := take start (lp_state a) @ state @ drop (start + length state) (lp_state a)\<rparr>, Ok ())
      | LinearClear \<Rightarrow>
          (a\<lparr>lp_rows := replicate (length (lp_rows a)) (replicate (lp_dim a) 0),
             lp_state := replicate (length (lp_state a)) 0\<rparr>, Ok ()))"

definition linear_related :: "linear_attention_cache \<Rightarrow> linear_spec \<Rightarrow> bool" where
  "linear_related c a \<longleftrightarrow>
     linear_shape c \<and> lp_dim a = li_conv_dim c \<and> length (lp_rows a) = li_conv_kernel_size c \<and>
     (\<forall>r \<in> set (lp_rows a). length r = li_conv_dim c) \<and>
     li_conv_window c = concat (lp_rows a) \<and> li_recurrent_state c = lp_state a"

lemma concat_replicate_const: "concat (replicate n (replicate m x)) = replicate (n * m) x"
  by (induction n) (simp_all add: replicate_add)

lemma push_window:
  assumes "length xs = n * d" and "0 < n" and "length input = d"
  shows "copy_within_front d xs = Some (drop d xs @ drop (length xs - d) xs)"
    and "n * d \<le> u64_max \<Longrightarrow>
      copy_to_end (wrap_sub (n * d) d) input (drop d xs @ drop (length xs - d) xs) = Some (drop d xs @ input)"
proof -
  have d: "d \<le> n * d" using assms(2) by simp
  then show "copy_within_front d xs = Some (drop d xs @ drop (length xs - d) xs)"
    using assms(1,2) by (simp add: copy_within_front_def)
  assume "n * d \<le> u64_max"
  with d have "wrap_sub (n * d) d = n * d - d" by (simp add: wrap_sub_small)
  then show "copy_to_end (wrap_sub (n * d) d) input (drop d xs @ drop (length xs - d) xs) = Some (drop d xs @ input)"
    using assms d by (simp add: copy_to_end_def)
qed

lemma linear_push_simulates:
  assumes rel: "linear_related c a" and len: "length input = li_conv_dim c"
  shows "linear_related (fst (linear_push_conv_input input c)) (a\<lparr>lp_rows := tl (lp_rows a) @ [input]\<rparr>) \<and>
    snd (linear_push_conv_input input c) = Ok ()"
proof -
  let ?d = "li_conv_dim c" and ?n = "li_conv_kernel_size c" and ?w = "li_conv_window c"
  have sh: "length ?w = ?n * ?d" "0 < ?n" "?n * ?d \<le> u64_max"
    using rel unfolding linear_related_def linear_shape_def by blast+
  obtain r rs where rows: "lp_rows a = r # rs" using rel sh(2) by (cases "lp_rows a") (auto simp: linear_related_def)
  have n: "?n = Suc (length rs)" and w: "drop ?d ?w = concat rs" and rs: "\<forall>r \<in> set rs. length r = ?d"
    using rel rows by (auto simp: linear_related_def)
  let ?shifted = "drop ?d ?w @ drop (length ?w - ?d) ?w"
  have "length ?shifted = ?n * ?d" using sh(1) n by simp
  then have eq: "linear_push_conv_input input c =
      (c\<lparr>li_conv_window := drop ?d ?w @ input, li_token_count := sat_add (li_token_count c) 1,
         li_revision := sat_add (li_revision c) 1\<rparr>, Ok ())"
    using push_window [OF sh(1,2) len] sh(3) len by (simp add: linear_push_conv_input_def)
  have "length (concat rs) = length rs * ?d" using sh(1) n unfolding w [symmetric] by simp
  then show ?thesis
    unfolding eq w using rel rows n rs len by (auto simp: linear_related_def linear_shape_def)
qed

lemma linear_simulates:
  assumes rel: "linear_related c a"
  shows "linear_related (fst (linear_step oper c)) (fst (linear_spec_step oper a)) \<and>
    snd (linear_step oper c) = snd (linear_spec_step oper a)"
proof (cases oper)
  case (LinearPush input)
  then show ?thesis using rel linear_push_simulates [OF rel, of input]
    by (cases "length input = li_conv_dim c")
      (auto simp: linear_step_def linear_spec_step_def linear_push_conv_input_def linear_related_def)
next
  case (LinearReplace state)
  then show ?thesis using rel
    by (auto simp: linear_step_def linear_spec_step_def linear_replace_recurrent_state_def linear_related_def linear_shape_def)
next
  case (LinearReplaceRange start state)
  then show ?thesis using rel
    by (auto simp: linear_step_def linear_spec_step_def linear_replace_recurrent_state_range_def linear_related_def linear_shape_def
        checked_add_def copy_range_def sat_sub_def)
next
  case LinearClear
  then show ?thesis using rel
    by (auto simp: linear_step_def linear_spec_step_def linear_clear_def linear_related_def linear_shape_def concat_replicate_const
        sat_add_def)
qed

interpretation linear_window: output_simulation linear_step linear_spec_step "\<lambda>_ _. True" linear_related
  by unfold_locales (use linear_simulates in blast)

lemma permitted_all: "permitted_inputs step (\<lambda>_ _. True) is s"
  by (induction "is" arbitrary: s) simp_all

lemma linear_new_related:
  assumes "linear_new k d h kd vd next_id = (n, Ok c)"
  shows "linear_related c \<lparr>lp_dim = d, lp_rows = replicate k (replicate d 0), lp_state = replicate (h * kd * vd) 0\<rparr>"
  using assms
  by (auto simp: linear_new_def linear_related_def linear_shape_def checked_mul_def concat_replicate_const bind_eq_Some_conv
      split: if_splits option.splits)

section \<open>Properties\<close>

text \<open>C30: A linear-attention cache is the window it promises: whatever sequence of pushes, state replacements (whole
  or by range) and clears runs on a new cache, each call answers like the list model, and at the end the flat
  convolution window is the concatenation of the last \<open>conv_kernel_size\<close> inputs (zeros before the first), the
  oldest first, and the recurrent state is the one written last.\<close>

theorem linear_cache_refines_window:
  assumes "linear_new k d h kd vd next_id = (n, Ok c)"
  shows "let a = \<lparr>lp_dim = d, lp_rows = replicate k (replicate d 0), lp_state = replicate (h * kd * vd) 0\<rparr>;
             (c', outs) = run_outputs linear_step ops c; (a', outs') = run_outputs linear_spec_step ops a
         in outs = outs' \<and> li_conv_window c' = concat (lp_rows a') \<and> li_recurrent_state c' = lp_state a' \<and> linear_shape c'"
  using linear_window.run_simulates [OF linear_new_related [OF assms] permitted_all]
  by (simp add: Let_def case_prod_beta linear_related_def)

theorem linear_cache_refines_window_witness:
  "\<exists>n c. linear_new 2 1 1 1 1 7 = (n, Ok c) \<and> li_conv_window (fst (run_outputs linear_step [LinearPush [5], LinearPush [6], LinearPush [7]] c)) = [6, 7]"
proof -
  obtain n c where c: "linear_new 2 1 1 1 1 7 = (n, Ok c)" by (simp add: linear_new_def checked_mul_def u64_max_def)
  show ?thesis
    using c linear_cache_refines_window [OF c, of "[LinearPush [5], LinearPush [6], LinearPush [7]]"]
    by (simp add: Let_def case_prod_beta linear_spec_step_def numeral_2_eq_2)
qed

text \<open>A linear-attention snapshot is a round trip: restoring the snapshot of a reachable cache gives that cache
  with a fresh identity, whatever ran on it before.\<close>

theorem linear_snapshot_roundtrip:
  assumes "linear_new k d h kd vd next_id = (n, Ok c)"
  shows "let c' = fst (run_outputs linear_step ops c)
         in linear_from_snapshot (linear_snapshot c') n2 = (wrap_add n2 1, Ok (c'\<lparr>li_id := n2\<rparr>))"
proof -
  let ?c = "fst (run_outputs linear_step ops c)"
  have sh: "linear_shape ?c"
    using linear_window.run_simulates [OF linear_new_related [OF assms] permitted_all] by (simp add: linear_related_def)
  have "li_num_value_heads ?c * li_key_head_dim ?c * 1 \<le> li_num_value_heads ?c * li_key_head_dim ?c * li_value_head_dim ?c"
    by (rule mult_le_mono2) (use sh in \<open>simp add: linear_shape_def\<close>)
  then have "li_num_value_heads ?c * li_key_head_dim ?c \<le> u64_max" using sh unfolding linear_shape_def by linarith
  then show ?thesis using sh
    by (simp add: Let_def linear_from_snapshot_def linear_snapshot_def linear_new_def linear_shape_def checked_mul_def)
qed

theorem linear_snapshot_roundtrip_witness:
  "\<exists>n c. linear_new 2 1 1 1 1 7 = (n, Ok c) \<and>
    linear_from_snapshot (linear_snapshot (fst (run_outputs linear_step [LinearPush [5]] c))) 9 =
      (wrap_add 9 1, Ok ((fst (run_outputs linear_step [LinearPush [5]] c))\<lparr>li_id := 9\<rparr>))"
proof -
  obtain n c where c: "linear_new 2 1 1 1 1 7 = (n, Ok c)" by (simp add: linear_new_def checked_mul_def u64_max_def)
  show ?thesis using c linear_snapshot_roundtrip [OF c, of "[LinearPush [5]]" 9] unfolding Let_def by blast
qed

end
