(* ===== verification/Tool_Markup.thy ===== *)
theory Tool_Markup
  imports Stop Tool_Dispatch
begin

text \<open>
  Tool-call markup in a growing text (llm-runtime/src/adapters.rs): the start and end markers of a model
  family, the stream state that rescans only the tail of the text for them, and how much of the text may
  be sent before tool markup could begin in it. All offsets are byte offsets; a slice off a character
  boundary panics, which is \<open>None\<close>.

  The locale \<open>tool_markup\<close> states what the scan relies on: markers are not empty and no start marker
  occurs inside another. It is interpreted on the policy of every model family. Under it, the incremental
  state holds what a scan of the whole text would find, and the part of the text that may be sent ends
  before every start marker that the text or any continuation of it contains.
\<close>

section \<open>Operations\<close>

text \<open>\<open>str::rfind\<close> gives the byte offset of the last occurrence of a pattern.\<close>

fun rfind_sub :: "'a list \<Rightarrow> 'a list \<Rightarrow> nat option" where
  "rfind_sub pat [] = (if pat = [] then Some 0 else None)"
| "rfind_sub pat (c # s) =
     (case rfind_sub pat s of
        Some i \<Rightarrow> Some (Suc i)
      | None \<Rightarrow> if take (length pat) (c # s) = pat then Some 0 else None)"

definition str_rfind :: "rstr \<Rightarrow> rstr \<Rightarrow> nat option" where
  "str_rfind pat s = map_option (\<lambda>i. str_len (take i s)) (rfind_sub pat s)"

definition max_opt :: "nat list \<Rightarrow> nat option" where
  "max_opt xs = (if xs = [] then None else Some (Max (set xs)))"

definition ends_with :: "'a list \<Rightarrow> 'a list \<Rightarrow> bool" where
  "ends_with pat s \<longleftrightarrow> starts_with (rev pat) (rev s)"

record tool_markup_markers =
  start_marker :: rstr
  end_marker :: rstr

record tool_markup_policy =
  tp_markers :: "tool_markup_markers list"

record tool_markup_stream_state =
  tm_policy :: tool_markup_policy
  tm_first_start :: "nat option"
  tm_completed_prefix_len :: "nat option"
  tm_previous_len :: nat
  tm_max_start_marker_len :: nat
  tm_max_end_marker_len :: nat

definition JSON_TOOL_MARKERS :: "tool_markup_markers list" where
  "JSON_TOOL_MARKERS = [\<lparr>start_marker = lit ''<tool_call>'', end_marker = lit ''</tool_call>''\<rparr>]"

definition DEEPSEEK_TOOL_MARKERS :: "tool_markup_markers list" where
  "DEEPSEEK_TOOL_MARKERS =
     [\<lparr>start_marker = calls_begin_marker, end_marker = calls_end_marker\<rparr>,
      \<lparr>start_marker = lit ''<dsml_tool_call>'', end_marker = lit ''</dsml_tool_call>''\<rparr>]"

definition GEMMA_TOOL_MARKERS :: "tool_markup_markers list" where
  "GEMMA_TOOL_MARKERS = [\<lparr>start_marker = lit ''<|tool_call>'', end_marker = lit ''<tool_call|>''\<rparr>]"

fun family_tool_markup_policy :: "model_family \<Rightarrow> tool_markup_policy" where
  "family_tool_markup_policy FamQwen = \<lparr>tp_markers = JSON_TOOL_MARKERS\<rparr>"
| "family_tool_markup_policy FamLlama = \<lparr>tp_markers = JSON_TOOL_MARKERS\<rparr>"
| "family_tool_markup_policy FamDeepSeek = \<lparr>tp_markers = DEEPSEEK_TOOL_MARKERS\<rparr>"
| "family_tool_markup_policy FamGemma = \<lparr>tp_markers = GEMMA_TOOL_MARKERS\<rparr>"

definition stream_state :: "tool_markup_policy \<Rightarrow> tool_markup_stream_state" where
  "stream_state pol =
     \<lparr>tm_policy = pol, tm_first_start = None, tm_completed_prefix_len = None, tm_previous_len = 0,
      tm_max_start_marker_len = fold max (map (\<lambda>m. str_len (start_marker m)) (tp_markers pol)) 0,
      tm_max_end_marker_len = fold max (map (\<lambda>m. str_len (end_marker m)) (tp_markers pol)) 0\<rparr>"

definition find_start_from :: "tool_markup_policy \<Rightarrow> rstr \<Rightarrow> nat \<Rightarrow> nat option option" where
  "find_start_from pol content search_start =
     (if tp_markers pol = [] then Some None
      else case str_from search_start content of
             None \<Rightarrow> None
           | Some tail \<Rightarrow>
               Some (min_opt (List.map_filter
                 (\<lambda>m. map_option (\<lambda>start. search_start + start) (str_find (start_marker m) tail)) (tp_markers pol))))"

definition policy_contains_start :: "tool_markup_policy \<Rightarrow> rstr \<Rightarrow> bool option" where
  "policy_contains_start pol content = map_option (\<lambda>found. found \<noteq> None) (find_start_from pol content 0)"

definition latest_completed_prefix_from :: "tool_markup_policy \<Rightarrow> rstr \<Rightarrow> nat \<Rightarrow> nat option option" where
  "latest_completed_prefix_from pol content search_start =
     (if tp_markers pol = [] then Some None
      else case str_from search_start content of
             None \<Rightarrow> None
           | Some tail \<Rightarrow>
               Some (max_opt (List.map_filter
                 (\<lambda>m. map_option (\<lambda>e. search_start + e + str_len (end_marker m)) (str_rfind (end_marker m) tail))
                 (tp_markers pol))))"

definition withheld_start_prefix_len :: "tool_markup_policy \<Rightarrow> rstr \<Rightarrow> nat" where
  "withheld_start_prefix_len pol content =
     (case max_opt (concat (map
        (\<lambda>m. filter (\<lambda>prefix_len. case str_upto prefix_len (start_marker m) of
                None \<Rightarrow> False
              | Some p \<Rightarrow> ends_with p content) [1..<str_len (start_marker m)]) (tp_markers pol))) of
        None \<Rightarrow> 0
      | Some n \<Rightarrow> n)"

text \<open>\<open>observe\<close>: the two scans, each from the last place where a marker could have been cut off.\<close>

definition observe_start :: "tool_markup_stream_state \<Rightarrow> rstr \<Rightarrow> nat option option" where
  "observe_start st content =
     (case tm_first_start st of
        Some start \<Rightarrow> Some (Some start)
      | None \<Rightarrow>
          find_start_from (tm_policy st) content
            (floor_char_boundary content
              (sat_sub (tm_previous_len st) (sat_sub (tm_max_start_marker_len st) 1))))"

definition observe_markup :: "tool_markup_stream_state \<Rightarrow> rstr \<Rightarrow> tool_markup_stream_state option" where
  "observe_markup st content =
     (case observe_start st content of
        None \<Rightarrow> None
      | Some found \<Rightarrow>
          let search_start = floor_char_boundary content
                (sat_sub (tm_previous_len st) (sat_sub (tm_max_end_marker_len st) 1))
          in (case latest_completed_prefix_from (tm_policy st) content search_start of
                None \<Rightarrow> None
              | Some latest \<Rightarrow>
                  Some (st\<lparr>tm_first_start := found,
                    tm_completed_prefix_len :=
                      (case latest of
                         None \<Rightarrow> tm_completed_prefix_len st
                       | Some prefix_len \<Rightarrow>
                           Some (case tm_completed_prefix_len st of
                                   None \<Rightarrow> prefix_len
                                 | Some current \<Rightarrow> max current prefix_len)),
                    tm_previous_len := str_len content\<rparr>)))"

definition safe_emit_len :: "tool_markup_stream_state \<Rightarrow> rstr \<Rightarrow> nat" where
  "safe_emit_len st content =
     (case tm_first_start st of
        Some start \<Rightarrow> start
      | None \<Rightarrow> str_len content - withheld_start_prefix_len (tm_policy st) content)"

definition contains_start :: "tool_markup_stream_state \<Rightarrow> bool" where
  "contains_start st \<longleftrightarrow> tm_first_start st \<noteq> None"

fun unmarked_tool_json_truncation_tokens :: "model_family \<Rightarrow> rstr list" where
  "unmarked_tool_json_truncation_tokens FamLlama =
     [lit ''<|eot_id|>'', lit ''<|end_of_text|>'', lit ''<|start_header_id|>'']"
| "unmarked_tool_json_truncation_tokens _ = []"

definition parses_unmarked_tool_calls :: "model_family \<Rightarrow> bool" where
  "parses_unmarked_tool_calls family \<longleftrightarrow> family = FamLlama"

section \<open>Searches from the right\<close>

text \<open>\<open>greatest P r\<close>: the option \<open>r\<close> is the greatest number with \<open>P\<close>, or \<open>None\<close> if there is none.\<close>

definition greatest :: "(nat \<Rightarrow> bool) \<Rightarrow> nat option \<Rightarrow> bool" where
  "greatest P r \<longleftrightarrow> (case r of None \<Rightarrow> \<forall>n. \<not> P n | Some n \<Rightarrow> P n \<and> (\<forall>m > n. \<not> P m))"

lemma greatest_unique: "greatest P r \<Longrightarrow> greatest P r' \<Longrightarrow> r = r'"
  by (auto simp: greatest_def split: option.splits) (meson linorder_neqE_nat)

lemma max_opt_Some: "max_opt xs = Some m \<longleftrightarrow> m \<in> set xs \<and> (\<forall>x \<in> set xs. x \<le> m)"
proof (cases xs)
  case (Cons y ys)
  then have ne: "set xs \<noteq> {}" by simp
  have "max_opt xs = Some m \<longleftrightarrow> Max (set xs) = m" using Cons by (simp add: max_opt_def)
  also have "\<dots> \<longleftrightarrow> m \<in> set xs \<and> (\<forall>x \<in> set xs. x \<le> m)" by (rule Max_eq_iff [OF _ ne]) simp
  finally show ?thesis .
qed (simp add: max_opt_def)

lemma max_opt_None [simp]: "max_opt xs = None \<longleftrightarrow> xs = []"
  by (simp add: max_opt_def)

lemma rfind_sub_Some:
  "rfind_sub p s = Some i \<Longrightarrow> i \<le> length s \<and> prefix p (drop i s) \<and> (\<forall>j. i < j \<and> j \<le> length s \<longrightarrow> \<not> prefix p (drop j s))"
  and rfind_sub_None: "rfind_sub p s = None \<Longrightarrow> \<forall>j \<le> length s. \<not> prefix p (drop j s)"
proof (induction s arbitrary: i)
  case Nil
  { case 1 then show ?case by (auto split: if_splits) }
  { case 2 then show ?case by (auto split: if_splits) }
next
  case (Cons c s)
  have step: "(\<forall>j. i < j \<and> j \<le> length (c # s) \<longrightarrow> \<not> prefix p (drop j (c # s)))"
    if "\<forall>j. i < Suc j \<and> j \<le> length s \<longrightarrow> \<not> prefix p (drop j s)" for i
  proof (intro allI impI)
    fix j assume "i < j \<and> j \<le> length (c # s)"
    with that show "\<not> prefix p (drop j (c # s))" by (cases j) auto
  qed
  { case 1
    show ?case
    proof (cases "rfind_sub p s")
      case None
      with 1 have "i = 0" "prefix p (c # s)" by (auto simp: prefix_take split: if_splits)
      with Cons.IH(2) [OF None] show ?thesis by (intro conjI step) auto
    next
      case (Some k)
      with 1 have "i = Suc k" by simp
      with Cons.IH(1) [OF Some] show ?thesis by (intro conjI step) auto
    qed }
  { case 2
    then have "rfind_sub p s = None" "\<not> prefix p (c # s)" by (auto simp: prefix_take split: option.splits if_splits)
    with Cons.IH(2) show ?case by (intro allI impI) (case_tac j; auto) }
qed

text \<open>\<open>ends_at q s n\<close>: an occurrence of \<open>q\<close> in \<open>s\<close> ends at byte \<open>n\<close>.\<close>

definition ends_at :: "rstr \<Rightarrow> rstr \<Rightarrow> nat \<Rightarrow> bool" where
  "ends_at q s n \<longleftrightarrow> (\<exists>u v. s = u @ q @ v \<and> str_len u + str_len q = n)"

lemma ends_at_occurs: "ends_at q s n \<longleftrightarrow> (\<exists>m. occurs_at q s m \<and> n = m + str_len q)"
  by (auto simp: ends_at_def occurs_at_def)

lemma str_rfind_greatest: "greatest (occurs_at q s) (str_rfind q s)"
proof (cases "rfind_sub q s")
  case None
  have "\<not> occurs_at q s n" for n
  proof
    assume "occurs_at q s n"
    then obtain u v where "s = u @ q @ v" by (auto simp: occurs_at_def)
    then have "length u \<le> length s" "prefix q (drop (length u) s)" by simp_all
    with rfind_sub_None [OF None] show False by auto
  qed
  with None show ?thesis by (simp add: str_rfind_def greatest_def)
next
  case (Some i)
  note i = rfind_sub_Some [OF Some]
  from i obtain v where v: "drop i s = q @ v" by (auto simp: prefix_def)
  then have "s = take i s @ q @ v" by (metis append_take_drop_id)
  then have "occurs_at q s (str_len (take i s))" unfolding occurs_at_def by blast
  moreover have "\<not> occurs_at q s m" if m: "str_len (take i s) < m" for m
  proof
    assume "occurs_at q s m"
    then obtain u v where u: "s = u @ q @ v" "str_len u = m" by (auto simp: occurs_at_def)
    have "i < length u"
    proof (rule ccontr)
      assume "\<not> i < length u"
      then have "take i s = u @ take (i - length u) (q @ v)" using u(1) by simp
      with m u(2) show False by simp
    qed
    with i u(1) show False by auto
  qed
  ultimately show ?thesis using Some by (simp add: str_rfind_def greatest_def)
qed

lemma greatest_max_opt:
  assumes "\<And>q. q \<in> set qs \<Longrightarrow> greatest (P q) (f q)"
  shows "greatest (\<lambda>n. \<exists>q \<in> set qs. P q n) (max_opt (List.map_filter f qs))"
proof (cases "max_opt (List.map_filter f qs)")
  case None
  then have "f q = None" if "q \<in> set qs" for q
    using that by (auto simp: List.map_filter_def filter_empty_conv)
  then have "\<not> P q n" if "q \<in> set qs" for q n using assms [OF that] that by (simp add: greatest_def)
  then show ?thesis unfolding None by (simp add: greatest_def)
next
  case (Some n)
  then obtain q where q: "q \<in> set qs" "f q = Some n" by (auto simp: max_opt_Some List.map_filter_def)
  have "\<not> P q' m" if "q' \<in> set qs" "n < m" for q' m
  proof
    assume "P q' m"
    with assms [OF that(1)] obtain k where k: "f q' = Some k" "m \<le> k"
      by (cases "f q'") (auto simp: greatest_def not_less [symmetric])
    then have "k \<in> set (List.map_filter f qs)" using that(1) by (force simp: List.map_filter_def)
    with Some have "k \<le> n" by (simp add: max_opt_Some)
    with k(2) that(2) show False by simp
  qed
  moreover have "P q n" using assms [OF q(1)] q(2) by (simp add: greatest_def)
  ultimately show ?thesis using Some q(1) by (auto simp: greatest_def)
qed

lemma ends_with_suffix: "ends_with p s \<longleftrightarrow> suffix p s"
  by (simp add: ends_with_def starts_with_prefix suffix_to_prefix)

section \<open>Markers that do not overlap\<close>

abbreviation start_markers :: "tool_markup_policy \<Rightarrow> rstr list" where
  "start_markers pol \<equiv> map start_marker (tp_markers pol)"

definition end_hit :: "tool_markup_policy \<Rightarrow> rstr \<Rightarrow> nat \<Rightarrow> bool" where
  "end_hit pol s n \<longleftrightarrow> (\<exists>m \<in> set (tp_markers pol). ends_at (end_marker m) s n)"

text \<open>\<open>observed st pol p\<close>: after observing the text \<open>p\<close>, the state holds the first start marker of \<open>p\<close>
  and the end of its last end marker.\<close>

definition observed :: "tool_markup_stream_state \<Rightarrow> tool_markup_policy \<Rightarrow> rstr \<Rightarrow> bool" where
  "observed st pol p \<longleftrightarrow>
     tm_policy st = pol \<and> tm_previous_len st = str_len p \<and>
     tm_max_start_marker_len st = max_stop_sequence_len (start_markers pol) \<and>
     tm_max_end_marker_len st = max_stop_sequence_len (map end_marker (tp_markers pol)) \<and>
     least (hit (start_markers pol) p) (tm_first_start st) \<and>
     greatest (end_hit pol p) (tm_completed_prefix_len st)"

lemma greatest_map:
  assumes "greatest P r" and "\<And>i j. i < j \<Longrightarrow> f i < f j"
  shows "greatest (\<lambda>n. \<exists>i. P i \<and> n = f i) (map_option f r)"
proof (cases r)
  case (Some k)
  have "\<not> P i" if "f k < f i" for i
    using that assms(1) assms(2) [of i k] Some by (cases i k rule: linorder_cases) (auto simp: greatest_def)
  with assms(1) Some show ?thesis by (auto simp: greatest_def)
qed (use assms(1) in \<open>simp add: greatest_def\<close>)

lemma greatest_join:
  assumes "greatest P r" and "greatest Q r'" and "\<And>n. R n \<longleftrightarrow> P n \<or> Q n"
  shows "greatest R (case r' of None \<Rightarrow> r | Some b \<Rightarrow> Some (case r of None \<Rightarrow> b | Some a \<Rightarrow> max a b))"
  using assms by (auto simp: greatest_def max_def split: option.splits)

lemma end_hit_append: "end_hit pol p n \<Longrightarrow> end_hit pol (p @ x) n"
  by (fastforce simp: end_hit_def ends_at_def)

text \<open>An end marker that is not in the text observed before ends in the new part, and so begins after
  the place from which the scan starts.\<close>

lemma end_hit_split:
  assumes "p @ x = u @ v" and "str_len u \<le> str_len p - (max_stop_sequence_len (map end_marker (tp_markers pol)) - 1)"
  shows "end_hit pol (p @ x) n \<longleftrightarrow>
    end_hit pol p n \<or> (\<exists>m \<in> set (tp_markers pol). \<exists>i. occurs_at (end_marker m) v i \<and> n = str_len u + i + str_len (end_marker m))"
    (is "?l \<longleftrightarrow> ?old \<or> ?new")
proof
  assume ?l
  then obtain m a b where m: "m \<in> set (tp_markers pol)" "p @ x = a @ end_marker m @ b"
    "n = str_len a + str_len (end_marker m)" by (auto simp: end_hit_def ends_at_def)
  show "?old \<or> ?new"
  proof (cases "str_len (a @ end_marker m) \<le> str_len p")
    case True
    have "prefix (a @ end_marker m) (p @ x)" unfolding m(2) by simp
    then have "prefix (a @ end_marker m) p" by (rule prefix_bytes [OF _ _ True]) simp
    then obtain w where "p = a @ end_marker m @ w" by (auto simp: prefix_def)
    with m show ?thesis by (auto simp: end_hit_def ends_at_def)
  next
    case False
    have "str_len (end_marker m) \<le> max_stop_sequence_len (map end_marker (tp_markers pol))"
      using m(1) by (intro str_len_le_max) simp
    with False assms(2) have le: "str_len u \<le> str_len a" by simp
    have "occurs_at (end_marker m) (u @ v) (str_len u + (str_len a - str_len u))"
      using m(2) le assms(1) by (auto simp: occurs_at_def)
    then have "occurs_at (end_marker m) v (str_len a - str_len u)" by (simp only: occurs_at_tail)
    with m le have ?new by (intro bexI [of _ m] exI [of _ "str_len a - str_len u"]) auto
    then show ?thesis ..
  qed
next
  assume "?old \<or> ?new"
  then show ?l
  proof
    assume ?new
    then obtain m i where "m \<in> set (tp_markers pol)" "occurs_at (end_marker m) (u @ v) (str_len u + i)"
      "n = str_len u + i + str_len (end_marker m)" by (auto simp: occurs_at_tail)
    then show ?l using assms(1) by (auto simp: end_hit_def ends_at_occurs)
  qed (rule end_hit_append)
qed

lemma find_start_scan:
  assumes "\<And>n. n < str_len p - (max_stop_sequence_len (start_markers pol) - 1) \<Longrightarrow> \<not> hit (start_markers pol) p n"
  obtains r where "find_start_from pol (p @ x)
      (floor_char_boundary (p @ x) (str_len p - (max_stop_sequence_len (start_markers pol) - 1))) = Some r"
    "least (hit (start_markers pol) (p @ x)) r"
proof (cases "tp_markers pol = []")
  case True
  then show thesis using that [of None] by (simp add: find_start_from_def least_def)
next
  case False
  let ?k = "floor_char_boundary (p @ x) (str_len p - (max_stop_sequence_len (start_markers pol) - 1))"
  obtain v where v: "str_from ?k (p @ x) = Some v"
    "least (hit (start_markers pol) (p @ x))
      (min_opt (List.map_filter (\<lambda>q. map_option (\<lambda>i. ?k + i) (str_find q v)) (start_markers pol)))"
    using tail_scan_least [OF assms refl] by blast
  have "List.map_filter (\<lambda>q. map_option (\<lambda>i. ?k + i) (str_find q v)) (start_markers pol) =
    List.map_filter (\<lambda>m. map_option (\<lambda>i. ?k + i) (str_find (start_marker m) v)) (tp_markers pol)"
    by (simp add: List.map_filter_def filter_map comp_def)
  with v False that show thesis by (simp add: find_start_from_def)
qed

lemma latest_completed_scan:
  assumes "greatest (end_hit pol p) r"
  obtains latest where "latest_completed_prefix_from pol (p @ x)
      (floor_char_boundary (p @ x) (str_len p - (max_stop_sequence_len (map end_marker (tp_markers pol)) - 1))) = Some latest"
    "greatest (end_hit pol (p @ x))
      (case latest of None \<Rightarrow> r | Some b \<Rightarrow> Some (case r of None \<Rightarrow> b | Some a \<Rightarrow> max a b))"
proof (cases "tp_markers pol = []")
  case True
  with assms that [of None] show thesis by (simp add: latest_completed_prefix_from_def greatest_def end_hit_def split: option.splits)
next
  case False
  let ?n = "str_len p - (max_stop_sequence_len (map end_marker (tp_markers pol)) - 1)"
  obtain u v where uv: "p @ x = u @ v" "str_len u = floor_char_boundary (p @ x) ?n" by (rule floor_char_boundary_split)
  let ?latest = "max_opt (List.map_filter (\<lambda>m. map_option (\<lambda>e. str_len u + e + str_len (end_marker m))
    (str_rfind (end_marker m) v)) (tp_markers pol))"
  have "str_from (str_len u) (p @ x) = Some v" using uv(1) by simp
  with False uv(2) have "latest_completed_prefix_from pol (p @ x) (floor_char_boundary (p @ x) ?n) = Some ?latest"
    by (simp add: latest_completed_prefix_from_def)
  moreover have new: "greatest (\<lambda>n. \<exists>m \<in> set (tp_markers pol). \<exists>i. occurs_at (end_marker m) v i \<and>
      n = str_len u + i + str_len (end_marker m)) ?latest"
    by (rule greatest_max_opt, rule greatest_map, rule str_rfind_greatest) simp
  have "str_len u \<le> ?n" unfolding uv(2) by (rule floor_char_boundary_le)
  note greatest_join [OF assms new end_hit_split [OF uv(1) this]]
  ultimately show thesis by (rule that)
qed

lemma max_opt_ge: "x \<in> set xs \<Longrightarrow> \<exists>k. max_opt xs = Some k \<and> x \<le> k"
  by (cases "max_opt xs") (auto simp: max_opt_Some)

lemma withheld_ge:
  assumes "m \<in> set (tp_markers pol)" and "start_marker m = w @ r" and "w \<noteq> []" and "r \<noteq> []" and "suffix w content"
  shows "str_len w \<le> withheld_start_prefix_len pol content"
proof -
  let ?P = "\<lambda>(m :: tool_markup_markers) n. case str_upto n (start_marker m) of None \<Rightarrow> False | Some p \<Rightarrow> ends_with p content"
  let ?cands = "concat (map (\<lambda>m. filter (?P m) [1..<str_len (start_marker m)]) (tp_markers pol))"
  have "0 < str_len w" "0 < str_len r" using assms(3,4) length_le_str_len [of w] length_le_str_len [of r]
    by (cases w; cases r; simp)+
  with assms(2,5) have "str_len w \<in> set (filter (?P m) [1..<str_len (start_marker m)])"
    by (auto simp: ends_with_suffix)
  with assms(1) have "str_len w \<in> set ?cands" unfolding set_concat set_map by blast
  from max_opt_ge [OF this] obtain k where k: "max_opt ?cands = Some k" "str_len w \<le> k" by blast
  show ?thesis unfolding withheld_start_prefix_len_def k(1) using k(2) by simp
qed

lemma withheld_suffix:
  obtains u w where "content = u @ w" "str_len w = withheld_start_prefix_len pol content"
proof -
  let ?P = "\<lambda>(m :: tool_markup_markers) n. case str_upto n (start_marker m) of None \<Rightarrow> False | Some p \<Rightarrow> ends_with p content"
  let ?cands = "concat (map (\<lambda>m. filter (?P m) [1..<str_len (start_marker m)]) (tp_markers pol))"
  show thesis
  proof (cases "max_opt ?cands")
    case None
    have "withheld_start_prefix_len pol content = 0" unfolding withheld_start_prefix_len_def None by simp
    then show thesis using that [of content "[]"] by simp
  next
    case (Some k)
    then have "k \<in> set ?cands" by (simp only: max_opt_Some)
    then obtain m where "?P m k" by auto
    then obtain w where "suffix w content" "str_len w = k"
      by (auto simp: ends_with_suffix str_upto_Some split: option.splits)
    then obtain u where u: "content = u @ w" by (auto simp: suffix_def)
    have "withheld_start_prefix_len pol content = k" unfolding withheld_start_prefix_len_def Some by simp
    with that [OF u] \<open>str_len w = k\<close> show thesis by simp
  qed
qed

text \<open>What the scan relies on: markers are not empty, and none occurs inside another.\<close>

locale tool_markup =
  fixes pol :: tool_markup_policy
  assumes start_nonempty: "q \<in> set (start_markers pol) \<Longrightarrow> q \<noteq> []"
    and end_nonempty: "m \<in> set (tp_markers pol) \<Longrightarrow> end_marker m \<noteq> []"
    and apart: "q \<in> set (start_markers pol) \<Longrightarrow> q' \<in> set (start_markers pol) \<Longrightarrow> sublist q' q \<Longrightarrow> q' = q"
begin

lemma no_marker_in_Nil: "\<not> hit (start_markers pol) [] n" "\<not> end_hit pol [] n"
  using start_nonempty end_nonempty by (auto simp: hit_def end_hit_def ends_at_def)

lemma observed_new: "observed (stream_state pol) pol []"
  using no_marker_in_Nil by (simp add: observed_def stream_state_def max_stop_sequence_len_def comp_def least_def greatest_def)

text \<open>A start marker that is found stays the first one, whatever text follows.\<close>

lemma first_start_final:
  assumes "least (hit (start_markers pol) p) (Some n)"
  shows "least (hit (start_markers pol) (p @ x)) (Some n)"
proof -
  from assms obtain q' u' v' where old: "q' \<in> set (start_markers pol)" "p = u' @ q' @ v'" "str_len u' = n"
    by (auto simp: least_def hit_def)
  have "\<not> hit (start_markers pol) (p @ x) m" if "m < n" for m
  proof
    assume "hit (start_markers pol) (p @ x) m"
    then obtain q u v where q: "q \<in> set (start_markers pol)" "p @ x = u @ q @ v" "str_len u = m" by (auto simp: hit_def)
    have "prefix u (p @ x)" unfolding q(2) by simp
    moreover have "prefix u' (p @ x)" unfolding old(2) by simp
    ultimately have "prefix u u'" by (rule prefix_bytes) (use q(3) old(3) that in simp)
    then obtain d where d: "u' = u @ d" by (auto simp: prefix_def)
    with q(3) old(3) that have "d \<noteq> []" by auto
    have split: "q @ v = d @ q' @ v' @ x" using q(2) old(2) d by simp
    have "\<not> prefix q (d @ q' @ v')"
    proof
      assume "prefix q (d @ q' @ v')"
      then obtain z where "p = u @ q @ z" using old(2) d by (auto simp: prefix_def)
      then have "hit (start_markers pol) p m" unfolding hit_def using q(1,3) by blast
      with assms that show False by (simp add: least_def)
    qed
    then have "prefix (d @ q' @ v') q" using split
      by (metis append.assoc prefixI prefix_same_cases)
    then have "sublist q' q" by (auto simp: prefix_def sublist_def)
    with apart old(1) q(1) have "q' = q" by blast
    with \<open>prefix (d @ q' @ v') q\<close> \<open>d \<noteq> []\<close> show False using prefix_length_le by fastforce
  qed
  moreover have "hit (start_markers pol) (p @ x) n" using old by (auto simp: hit_def)
  ultimately show ?thesis by (simp add: least_def)
qed

lemma observe_start_scan:
  assumes "observed st pol p"
  obtains r where "observe_start st (p @ x) = Some r" "least (hit (start_markers pol) (p @ x)) r"
proof (cases "tm_first_start st")
  case (Some n)
  then show thesis using that [of "Some n"] assms first_start_final by (simp add: observe_start_def observed_def)
next
  case None
  with assms have "\<And>n. \<not> hit (start_markers pol) p n" by (simp add: observed_def least_def)
  then obtain r where r: "find_start_from pol (p @ x)
      (floor_char_boundary (p @ x) (str_len p - (max_stop_sequence_len (start_markers pol) - 1))) = Some r"
    "least (hit (start_markers pol) (p @ x)) r" using find_start_scan [of p pol x] by blast
  show thesis by (rule that [OF _ r(2)]) (use r(1) None assms in \<open>simp add: observe_start_def observed_def sat_sub_def\<close>)
qed

lemma observe_markup_observed:
  assumes "observed st pol p"
  obtains st' where "observe_markup st (p @ x) = Some st'" "observed st' pol (p @ x)"
proof -
  obtain r where r: "observe_start st (p @ x) = Some r" "least (hit (start_markers pol) (p @ x)) r"
    using observe_start_scan [OF assms] .
  have "greatest (end_hit pol p) (tm_completed_prefix_len st)" using assms by (simp add: observed_def)
  then obtain latest where latest: "latest_completed_prefix_from pol (p @ x)
      (floor_char_boundary (p @ x) (str_len p - (max_stop_sequence_len (map end_marker (tp_markers pol)) - 1))) = Some latest"
    "greatest (end_hit pol (p @ x)) (case latest of None \<Rightarrow> tm_completed_prefix_len st
      | Some b \<Rightarrow> Some (case tm_completed_prefix_len st of None \<Rightarrow> b | Some a \<Rightarrow> max a b))"
    by (rule latest_completed_scan)
  show thesis
    by (rule that, use r latest assms in \<open>simp add: observe_markup_def observed_def sat_sub_def Let_def\<close>)
      (use r latest assms in \<open>simp add: observed_def\<close>)
qed

text \<open>What may be sent ends before every start marker, present or still to come.\<close>

lemma safe_emit_before_start:
  assumes "observed st pol p" and "hit (start_markers pol) (p @ x) n"
  shows "safe_emit_len st p \<le> n"
proof (cases "tm_first_start st")
  case (Some k)
  with assms(1) have "least (hit (start_markers pol) (p @ x)) (Some k)"
    using first_start_final by (simp add: observed_def)
  with assms(2) Some show ?thesis by (auto simp: least_def safe_emit_len_def not_less [symmetric])
next
  case None
  with assms(1) have none: "\<not> hit (start_markers pol) p n" "tm_policy st = pol" by (simp_all add: observed_def least_def)
  from assms(2) obtain m u v where m: "m \<in> set (tp_markers pol)" "p @ x = u @ start_marker m @ v" "str_len u = n"
    by (auto simp: hit_def)
  show ?thesis
  proof (cases "str_len p \<le> str_len u")
    case True
    with m(3) None show ?thesis by (simp add: safe_emit_len_def)
  next
    case False
    have "prefix u (p @ x)" unfolding m(2) by simp
    then have "prefix u p" by (rule prefix_bytes) (use False in simp_all)
    then obtain w where w: "p = u @ w" by (auto simp: prefix_def)
    with False have ne: "w \<noteq> []" by auto
    have "w @ x = start_marker m @ v" using m(2) w by simp
    then have "prefix w (start_marker m) \<or> prefix (start_marker m) w" by (metis prefixI prefix_same_cases)
    moreover have "\<not> prefix (start_marker m) w" 
    proof
      assume "prefix (start_marker m) w"
      then obtain z where "p = u @ start_marker m @ z" using w by (auto simp: prefix_def)
      then have "hit (start_markers pol) p n" unfolding hit_def using m(1,3) by auto
      with none(1) show False ..
    qed
    ultimately obtain r where r: "start_marker m = w @ r" "r \<noteq> []" by (metis append_Nil2 prefix_def)
    have "str_len w \<le> withheld_start_prefix_len pol p"
      by (rule withheld_ge [OF m(1) r(1) ne r(2)]) (simp add: w suffix_def)
    with None w m(3) none(2) show ?thesis by (simp add: safe_emit_len_def)
  qed
qed

lemma safe_emit_boundary:
  assumes "observed st pol p"
  obtains u v where "p = u @ v" "str_len u = safe_emit_len st p"
proof (cases "tm_first_start st")
  case (Some k)
  with assms that show thesis by (fastforce simp: observed_def least_def hit_def safe_emit_len_def)
next
  case None
  obtain u w where "p = u @ w" "str_len w = withheld_start_prefix_len pol p" by (rule withheld_suffix)
  with None assms that [of u w] show thesis by (simp add: safe_emit_len_def observed_def)
qed

end

interpretation family_markup: tool_markup "family_tool_markup_policy family" for family
proof
  fix q q' m
  show "q \<in> set (start_markers (family_tool_markup_policy family)) \<Longrightarrow> q \<noteq> []"
    by (cases family) (auto simp: JSON_TOOL_MARKERS_def DEEPSEEK_TOOL_MARKERS_def GEMMA_TOOL_MARKERS_def
        calls_begin_marker_def lit_def fmt_def)
  show "m \<in> set (tp_markers (family_tool_markup_policy family)) \<Longrightarrow> end_marker m \<noteq> []"
    by (cases family) (auto simp: JSON_TOOL_MARKERS_def DEEPSEEK_TOOL_MARKERS_def GEMMA_TOOL_MARKERS_def
        calls_end_marker_def lit_def fmt_def)
  show "q \<in> set (start_markers (family_tool_markup_policy family)) \<Longrightarrow>
    q' \<in> set (start_markers (family_tool_markup_policy family)) \<Longrightarrow> sublist q' q \<Longrightarrow> q' = q"
    by (cases family) (auto simp: JSON_TOOL_MARKERS_def DEEPSEEK_TOOL_MARKERS_def GEMMA_TOOL_MARKERS_def
        calls_begin_marker_def lit_def fmt_def sublist_Cons_right)
qed

section \<open>Properties\<close>

text \<open>Observing a text chunk by chunk.\<close>

fun observe_chunks :: "tool_markup_stream_state \<Rightarrow> rstr \<Rightarrow> rstr list \<Rightarrow> tool_markup_stream_state option" where
  "observe_chunks st content [] = Some st"
| "observe_chunks st content (x # xs) =
     Option.bind (observe_markup st (content @ x)) (\<lambda>st'. observe_chunks st' (content @ x) xs)"

lemma observe_chunks_observed:
  "observed st (family_tool_markup_policy family) p \<Longrightarrow>
   \<exists>st'. observe_chunks st p xs = Some st' \<and> observed st' (family_tool_markup_policy family) (p @ concat xs)"
proof (induction xs arbitrary: st p)
  case (Cons x xs)
  obtain st' where "observe_markup st (p @ x) = Some st'" "observed st' (family_tool_markup_policy family) (p @ x)"
    using family_markup.observe_markup_observed [OF Cons.prems] .
  with Cons.IH [of st' "p @ x"] show ?case by simp
qed simp

lemma floor_char_boundary_0 [simp]: "floor_char_boundary s 0 = 0"
  by (simp add: floor_char_boundary.simps)

lemma find_start_from_0: "\<exists>r. find_start_from pol s 0 = Some r \<and> least (hit (start_markers pol) s) r"
  using find_start_scan [of "[]" pol s] by auto

lemma latest_completed_from_0:
  assumes "\<And>m. m \<in> set (tp_markers pol) \<Longrightarrow> end_marker m \<noteq> []"
  shows "\<exists>r. latest_completed_prefix_from pol s 0 = Some r \<and> greatest (end_hit pol s) r"
proof -
  have "greatest (end_hit pol []) None" using assms by (auto simp: greatest_def end_hit_def ends_at_def)
  then obtain latest where "latest_completed_prefix_from pol ([] @ s)
      (floor_char_boundary ([] @ s) (str_len [] - (max_stop_sequence_len (map end_marker (tp_markers pol)) - 1))) = Some latest"
    "greatest (end_hit pol ([] @ s))
      (case latest of None \<Rightarrow> None | Some b \<Rightarrow> Some (case None of None \<Rightarrow> b | Some a \<Rightarrow> max a b))"
    by (rule latest_completed_scan)
  then show ?thesis by (cases latest) simp_all
qed

text \<open>C17: The incremental markup scan is the full scan, for every model family and however the text is cut into
  chunks: it never panics, and after the last chunk it holds the first start marker and the end of the last
  end marker that a scan of the whole text finds.\<close>

theorem markup_scan_matches_full_scan:
  "\<exists>st. observe_chunks (stream_state (family_tool_markup_policy family)) [] chunks = Some st \<and>
     find_start_from (family_tool_markup_policy family) (concat chunks) 0 = Some (tm_first_start st) \<and>
     latest_completed_prefix_from (family_tool_markup_policy family) (concat chunks) 0 = Some (tm_completed_prefix_len st)"
proof -
  obtain st where st: "observe_chunks (stream_state (family_tool_markup_policy family)) [] chunks = Some st"
    "observed st (family_tool_markup_policy family) (concat chunks)"
    using observe_chunks_observed [OF family_markup.observed_new, of family chunks] by auto
  obtain r r' where "find_start_from (family_tool_markup_policy family) (concat chunks) 0 = Some r"
    "least (hit (start_markers (family_tool_markup_policy family)) (concat chunks)) r"
    "latest_completed_prefix_from (family_tool_markup_policy family) (concat chunks) 0 = Some r'"
    "greatest (end_hit (family_tool_markup_policy family) (concat chunks)) r'"
    using find_start_from_0 latest_completed_from_0 [where pol = "family_tool_markup_policy family"]
      family_markup.end_nonempty by blast
  with st show ?thesis unfolding observed_def using least_unique greatest_unique by blast
qed

text \<open>C18: Nothing of a start marker is sent early. After any chunks, the part of the text that may be sent ends at
  a character boundary, and in every continuation of the text each start marker begins at or after that end.\<close>

theorem markup_emission_stops_before_marker:
  "\<exists>st. observe_chunks (stream_state (family_tool_markup_policy family)) [] chunks = Some st \<and>
     is_char_boundary (concat chunks) (safe_emit_len st (concat chunks)) \<and>
     (\<forall>x n. hit (start_markers (family_tool_markup_policy family)) (concat chunks @ x) n \<longrightarrow>
        safe_emit_len st (concat chunks) \<le> n)"
proof -
  obtain st where st: "observe_chunks (stream_state (family_tool_markup_policy family)) [] chunks = Some st"
    "observed st (family_tool_markup_policy family) (concat chunks)"
    using observe_chunks_observed [OF family_markup.observed_new, of family chunks] by auto
  from st show ?thesis
    using family_markup.safe_emit_boundary [OF st(2)] family_markup.safe_emit_before_start [OF st(2)]
    by (metis is_char_boundary_iff)
qed

theorem markup_emission_stops_before_marker_witness:
  "\<exists>st. observe_chunks (stream_state (family_tool_markup_policy FamQwen)) [] [lit ''hello <to''] = Some st \<and>
     safe_emit_len st (lit ''hello <to'') \<le> 6"
proof -
  have "hit (start_markers (family_tool_markup_policy FamQwen)) (concat [lit ''hello <to''] @ lit ''ol_call>'') 6"
    unfolding hit_def
    by (rule bexI [of _ "lit ''<tool_call>''"], rule exI [of _ "lit ''hello ''"], rule exI [of _ "[]"])
      (simp_all add: JSON_TOOL_MARKERS_def lit_def len_utf8_def)
  with markup_emission_stops_before_marker [of FamQwen "[lit ''hello <to'']"] show ?thesis by auto
qed

end
