(* ===== verification/Response_Validation.thy ===== *)
theory Response_Validation
  imports Tool_Parser Api_Json_Bytes
begin

text \<open>
  Checking what a model generated (llm-runtime/src/response\_validation.rs): that the arguments of each tool
  call are an object which conforms to the schema the client declared, that the call is one the request
  allows, and that a JSON-mode answer is a JSON object; and the intent argument that is filled in when
  the model left it out (llm-runtime/src/tool\_call.rs).

  The judgement \<open>conforms schema v\<close> is the reference: it says which values a schema admits, without
  paths and messages, by rules of its own: \<open>has_json_type\<close> and \<open>type_admits\<close> are the typing rules and
  use none of the functions of the code. (Two values are compared for an enumeration by the equality
  of JSON values, \<open>json_eq\<close>, which the code takes from its JSON library.) The validator accepts exactly the values that conform, and otherwise gives a
  tool-call validation error, never a panic.
\<close>

section \<open>Equality of JSON values\<close>

text \<open>\<open>serde_json\<close> compares numbers by representation, floats by value (the two zeros are equal), and
  objects without regard to the order of their members.\<close>

definition json_number_eq :: "json_number \<Rightarrow> json_number \<Rightarrow> bool" where
  "json_number_eq a b \<longleftrightarrow>
     (if jn_is_f64 a \<and> jn_is_f64 b then
        jn_text a = jn_text b \<or> {jn_text a, jn_text b} \<subseteq> {lit ''0.0'', lit ''-0.0''}
      else \<not> jn_is_f64 a \<and> \<not> jn_is_f64 b \<and> jn_as_u64 a = jn_as_u64 b \<and> jn_as_i64 a = jn_as_i64 b)"

lemma size_array_member: "v \<in> set vs \<Longrightarrow> size v < size (JArray vs)"
  by (induction vs) auto

lemma enumerate_member: "(i, v) \<in> set (enumerate n vs) \<Longrightarrow> v \<in> set vs"
  by (auto simp: in_set_enumerate_eq)

lemma size_enumerate_member: "(i, v) \<in> set (enumerate n vs) \<Longrightarrow> size v < size (JArray vs)"
  by (rule size_array_member) (rule enumerate_member)

lemma size_object_member: "(k, v) \<in> set kvs \<Longrightarrow> size v < size (JObject kvs)"
  by (induction kvs) auto

function json_eq :: "json \<Rightarrow> json \<Rightarrow> bool" where
  "json_eq a b =
     (case (a, b) of
        (JNull, JNull) \<Rightarrow> True
      | (JBool x, JBool y) \<Rightarrow> x = y
      | (JNumber x, JNumber y) \<Rightarrow> json_number_eq x y
      | (JString x, JString y) \<Rightarrow> x = y
      | (JArray xs, JArray ys) \<Rightarrow> length xs = length ys \<and> list_all (\<lambda>(x, y). json_eq x y) (zip xs ys)
      | (JObject xs, JObject ys) \<Rightarrow>
          length xs = length ys \<and>
          list_all (\<lambda>(k, x). case obj_get ys k of None \<Rightarrow> False | Some y \<Rightarrow> json_eq x y) xs
      | _ \<Rightarrow> False)"
  by pat_completeness auto

termination
proof (relation "measure (\<lambda>(a, b). size a)", goal_cases)
  case 1
  then show ?case by simp
next
  case (2 a b uu xs ys z x y)
  then show ?case using size_array_member by (fastforce dest: set_zip_leftD)
next
  case (3 a b uu xs ys z k x y)
  then show ?case using size_object_member by fastforce
qed

declare json_eq.simps [simp del]

section \<open>The intent argument\<close>

definition schema_type_accepts_string :: "json \<Rightarrow> bool" where
  "schema_type_accepts_string schema_type =
     (case schema_type of
        JString type_name \<Rightarrow> type_name = lit ''string''
      | JArray types \<Rightarrow> list_ex (\<lambda>t. as_str t = Some (lit ''string'')) types
      | _ \<Rightarrow> False)"

definition schema_requires_string_intent_argument :: "json \<Rightarrow> bool" where
  "schema_requires_string_intent_argument schema =
     (case as_object schema of
        None \<Rightarrow> False
      | Some schema_object \<Rightarrow>
          (case Option.bind (obj_get schema_object (lit ''required'')) as_array of
             None \<Rightarrow> False
           | Some required \<Rightarrow>
               if \<not> list_ex (\<lambda>field. as_str field = Some (lit ''_i'')) required then False
               else (case Option.bind (Option.bind (obj_get schema_object (lit ''properties'')) as_object)
                            (\<lambda>properties. obj_get properties (lit ''_i'')) of
                       None \<Rightarrow> False
                     | Some intent_schema \<Rightarrow>
                         (case json_get (lit ''type'') intent_schema of
                            None \<Rightarrow> False
                          | Some t \<Rightarrow> schema_type_accepts_string t))))"

definition GENERIC_TOOL_INTENT :: rstr where
  "GENERIC_TOOL_INTENT = lit ''Calling requested tool''"

definition tool_intent_default :: "json \<Rightarrow> rstr" where
  "tool_intent_default schema =
     (case Option.bind (Option.bind (Option.bind (json_get (lit ''properties'') schema)
              (json_get (lit ''_i''))) (json_get (lit ''default''))) as_str of
        Some intent \<Rightarrow> if trim intent \<noteq> [] then intent else GENERIC_TOOL_INTENT
      | None \<Rightarrow> GENERIC_TOOL_INTENT)"

definition find_tool :: "rstr \<Rightarrow> chat_completion_request \<Rightarrow> tool_definition option" where
  "find_tool name request = find (\<lambda>tool. fd_name (td_function tool) = name) (cr_tools request)"

definition fill_call :: "chat_completion_request \<Rightarrow> tool_call \<Rightarrow> tool_call" where
  "fill_call request call =
     (case as_object (tcf_arguments (tc_function call)) of
        None \<Rightarrow> call
      | Some arguments \<Rightarrow>
          if obj_get arguments (lit ''_i'') \<noteq> None then call
          else (case find_tool (tcf_name (tc_function call)) request of
                  None \<Rightarrow> call
                | Some tool \<Rightarrow>
                    if schema_requires_string_intent_argument (fd_parameters (td_function tool)) then
                      call\<lparr>tc_function := (tc_function call)\<lparr>tcf_arguments :=
                        JObject (map_put (lit ''_i'')
                          (JString (tool_intent_default (fd_parameters (td_function tool)))) arguments)\<rparr>\<rparr>
                    else call))"

definition fill_missing_tool_intent_arguments ::
  "parsed_assistant \<Rightarrow> chat_completion_request \<Rightarrow> parsed_assistant" where
  "fill_missing_tool_intent_arguments parsed request =
     parsed\<lparr>pa_tool_calls := map (fill_call request) (pa_tool_calls parsed)\<rparr>"

definition request_may_fill_tool_intent_arguments :: "chat_completion_request \<Rightarrow> bool" where
  "request_may_fill_tool_intent_arguments request \<longleftrightarrow>
     list_ex (\<lambda>tool. schema_requires_string_intent_argument (fd_parameters (td_function tool))) (cr_tools request)"

definition request_requires_tool_choice :: "chat_completion_request \<Rightarrow> bool" where
  "request_requires_tool_choice request =
     (case cr_tool_choice request of
        Some ChoiceRequired \<Rightarrow> True
      | Some (ChoiceFunction _) \<Rightarrow> True
      | _ \<Rightarrow> False)"

section \<open>Paths, types and messages\<close>

definition display_schema_path :: "rstr \<Rightarrow> rstr" where
  "display_schema_path path = (if path = [] then lit ''$'' else path)"

definition join_schema_path :: "rstr \<Rightarrow> rstr \<Rightarrow> rstr" where
  "join_schema_path parent field = (if parent = [] then field else fmt [parent, lit ''.'', field])"

definition backquoted :: "rstr \<Rightarrow> rstr" where
  "backquoted s = fmt [lit ''`'', s, lit ''`'']"

text \<open>\<open>join(", ")\<close>.\<close>

fun join_list :: "rstr \<Rightarrow> rstr list \<Rightarrow> rstr" where
  "join_list sep [] = []"
| "join_list sep [s] = s"
| "join_list sep (s # ss) = s @ sep @ join_list sep ss"

definition display_schema_type :: "json \<Rightarrow> rstr" where
  "display_schema_type schema_type =
     (case schema_type of
        JString type_name \<Rightarrow> backquoted type_name
      | JArray types \<Rightarrow>
          fmt [lit ''['', join_list (lit '', '') (map backquoted (List.map_filter as_str types)), lit '']'']
      | other \<Rightarrow> json_compact other)"

definition json_type_matches :: "rstr \<Rightarrow> json \<Rightarrow> bool" where
  "json_type_matches type_name v =
     (if type_name = lit ''object'' then as_object v \<noteq> None
      else if type_name = lit ''array'' then as_array v \<noteq> None
      else if type_name = lit ''string'' then is_jstring v
      else if type_name = lit ''boolean'' then (case v of JBool _ \<Rightarrow> True | _ \<Rightarrow> False)
      else if type_name = lit ''null'' then v = JNull
      else if type_name = lit ''integer'' then
        (case v of JNumber n \<Rightarrow> jn_as_i64 n \<noteq> None \<or> jn_as_u64 n \<noteq> None | _ \<Rightarrow> False)
      else if type_name = lit ''number'' then (case v of JNumber _ \<Rightarrow> True | _ \<Rightarrow> False)
      else True)"

definition schema_type_matches :: "json \<Rightarrow> json \<Rightarrow> bool" where
  "schema_type_matches schema_type v =
     (case schema_type of
        JString type_name \<Rightarrow> json_type_matches type_name v
      | JArray types \<Rightarrow> list_ex (\<lambda>type_name. json_type_matches type_name v) (List.map_filter as_str types)
      | _ \<Rightarrow> True)"

definition first_schema_type_name :: "json \<Rightarrow> rstr option" where
  "first_schema_type_name schema_type =
     (case schema_type of
        JString type_name \<Rightarrow> Some type_name
      | JArray types \<Rightarrow> (case List.map_filter as_str types of [] \<Rightarrow> None | t # _ \<Rightarrow> Some t)
      | _ \<Rightarrow> None)"

definition type_placeholder :: "rstr \<Rightarrow> rstr" where
  "type_placeholder type_name =
     (if type_name \<in> {lit ''array'', lit ''boolean'', lit ''integer'', lit ''null'', lit ''number'', lit ''object'', lit ''string''}
      then fmt [lit ''<'', type_name, lit ''>''] else lit ''<value>'')"

definition expected_schema_value_hint :: "json option \<Rightarrow> json" where
  "expected_schema_value_hint schema =
     (case Option.bind schema as_object of
        None \<Rightarrow> JString (lit ''<value>'')
      | Some schema_object \<Rightarrow>
          (case Option.bind (obj_get schema_object (lit ''enum'')) as_array of
             Some (first # _) \<Rightarrow> first
           | _ \<Rightarrow>
               JString (case Option.bind (obj_get schema_object (lit ''type'')) first_schema_type_name of
                          None \<Rightarrow> lit ''<value>''
                        | Some type_name \<Rightarrow> type_placeholder type_name)))"

definition expected_arguments_object_hint :: "rstr list \<Rightarrow> (rstr \<times> json) list \<Rightarrow> rstr" where
  "expected_arguments_object_hint required_fields schema_object =
     (let properties = Option.bind (obj_get schema_object (lit ''properties'')) as_object
      in json_compact (JObject (fold
           (\<lambda>field hint. map_put field
              (expected_schema_value_hint (Option.bind properties (\<lambda>ps. obj_get ps field))) hint)
           required_fields [])))"

definition missing_required_argument_message ::
  "rstr \<Rightarrow> rstr \<Rightarrow> rstr \<Rightarrow> rstr list \<Rightarrow> (rstr \<times> json) list \<Rightarrow> rstr" where
  "missing_required_argument_message tool_name path field required_fields schema_object =
     fmt [lit ''generated tool call `'', tool_name, lit ''` missing required argument `'', join_schema_path path field,
          lit ''`; required arguments: '',
          join_list (lit '', '') (map (\<lambda>f. backquoted (join_schema_path path f)) required_fields),
          lit ''; expected arguments object: '', expected_arguments_object_hint required_fields schema_object]"

section \<open>The schema validator\<close>

definition check_schema_type :: "rstr \<Rightarrow> rstr \<Rightarrow> json \<Rightarrow> (rstr \<times> json) list \<Rightarrow> (runtime_error, unit) outcome" where
  "check_schema_type tool_name path v schema_object =
     (case obj_get schema_object (lit ''type'') of
        None \<Rightarrow> Ok ()
      | Some allowed_type \<Rightarrow>
          if \<not> schema_type_matches allowed_type v then
            Err (RtToolCallValidation (fmt [lit ''generated tool call `'', tool_name, lit ''` argument `'',
              display_schema_path path, lit ''` does not match schema type '', display_schema_type allowed_type]))
          else Ok ())"

definition check_schema_enum :: "rstr \<Rightarrow> rstr \<Rightarrow> json \<Rightarrow> (rstr \<times> json) list \<Rightarrow> (runtime_error, unit) outcome" where
  "check_schema_enum tool_name path v schema_object =
     (case obj_get schema_object (lit ''enum'') of
        None \<Rightarrow> Ok ()
      | Some enum_values \<Rightarrow>
          (case as_array enum_values of
             None \<Rightarrow>
               Err (RtToolCallValidation (fmt [lit ''tool `'', tool_name, lit ''` schema enum for `'',
                 display_schema_path path, lit ''` must be an array'']))
           | Some allowed_values \<Rightarrow>
               if \<not> list_ex (\<lambda>allowed. json_eq allowed v) allowed_values then
                 Err (RtToolCallValidation (fmt [lit ''generated tool call `'', tool_name, lit ''` argument `'',
                   display_schema_path path, lit ''` is not one of the allowed enum values'']))
               else Ok ()))"

definition check_schema_required ::
  "rstr \<Rightarrow> rstr \<Rightarrow> (rstr \<times> json) list \<Rightarrow> (rstr \<times> json) list \<Rightarrow> (runtime_error, unit) outcome" where
  "check_schema_required tool_name path object schema_object =
     (case obj_get schema_object (lit ''required'') of
        None \<Rightarrow> Ok ()
      | Some required \<Rightarrow>
          (case as_array required of
             None \<Rightarrow>
               Err (RtToolCallValidation (fmt [lit ''tool `'', tool_name, lit ''` schema required for `'',
                 display_schema_path path, lit ''` must be an array'']))
           | Some entries \<Rightarrow>
               if \<not> list_all is_jstring entries then
                 Err (RtToolCallValidation (fmt [lit ''tool `'', tool_name, lit ''` schema required entries for `'',
                   display_schema_path path, lit ''` must be strings'']))
               else let required_fields = map jstring_key entries
                    in (case find (\<lambda>field. obj_get object field = None) required_fields of
                          None \<Rightarrow> Ok ()
                        | Some field \<Rightarrow>
                            Err (RtToolCallValidation
                              (missing_required_argument_message tool_name path field required_fields schema_object)))))"

function validate_json_schema_value ::
  "rstr \<Rightarrow> rstr \<Rightarrow> json \<Rightarrow> json \<Rightarrow> (runtime_error, unit) outcome" where
  "validate_json_schema_value tool_name path v schema =
     (if schema = JNull \<or> as_object schema = Some [] then Ok ()
      else case as_object schema of
        None \<Rightarrow> Ok ()
      | Some schema_object \<Rightarrow>
          checks
            [check_schema_type tool_name path v schema_object,
             check_schema_enum tool_name path v schema_object,
             (case v of
                JObject object \<Rightarrow>
                  checks
                    [check_schema_required tool_name path object schema_object,
                     (case obj_get schema_object (lit ''properties'') of
                        None \<Rightarrow> Ok ()
                      | Some properties \<Rightarrow>
                          (case as_object properties of
                             None \<Rightarrow>
                               Err (RtToolCallValidation (fmt [lit ''tool `'', tool_name, lit ''` schema properties for `'',
                                 display_schema_path path, lit ''` must be an object'']))
                           | Some members \<Rightarrow>
                               checks (map (\<lambda>(field, field_schema).
                                 case obj_get object field of
                                   None \<Rightarrow> Ok ()
                                 | Some field_value \<Rightarrow>
                                     validate_json_schema_value tool_name (join_schema_path path field)
                                       field_value field_schema) members)))]
              | JArray items \<Rightarrow>
                  (case obj_get schema_object (lit ''items'') of
                     None \<Rightarrow> Ok ()
                   | Some items_schema \<Rightarrow>
                       checks (map (\<lambda>(index, item).
                         validate_json_schema_value tool_name
                           (fmt [display_schema_path path, lit ''['', show_nat index, lit '']'']) item items_schema)
                         (enumerate 0 items)))
              | _ \<Rightarrow> Ok ())])"
  by pat_completeness auto
termination
proof (relation "measure (\<lambda>(tool_name, path, v, schema). size v)", goal_cases)
  case 1
  then show ?case by simp
qed (auto dest!: map_of_SomeD dest: size_object_member size_enumerate_member simp del: json.size)

declare validate_json_schema_value.simps [simp del]

definition validate_tool_call_arguments_against_schema ::
  "tool_call \<Rightarrow> json \<Rightarrow> (runtime_error, unit) outcome" where
  "validate_tool_call_arguments_against_schema call schema =
     (if as_object (tcf_arguments (tc_function call)) = None then
        Err (RtToolCallValidation (fmt [lit ''generated tool call `'', tcf_name (tc_function call),
          lit ''` arguments must be a JSON object'']))
      else validate_json_schema_value (tcf_name (tc_function call)) [] (tcf_arguments (tc_function call)) schema)"

definition validate_tool_call_arguments :: "parsed_assistant \<Rightarrow> (runtime_error, unit) outcome" where
  "validate_tool_call_arguments parsed =
     checks (map (\<lambda>call.
       if as_object (tcf_arguments (tc_function call)) = None then
         Err (RtJsonMode (fmt [lit ''tool call `'', tcf_name (tc_function call),
           lit ''` arguments must be a JSON object'']))
       else Ok ()) (pa_tool_calls parsed))"

definition validate_tool_call :: "chat_completion_request \<Rightarrow> tool_call \<Rightarrow> (runtime_error, unit) outcome" where
  "validate_tool_call request call =
     (let name = tcf_name (tc_function call)
      in case find_tool name request of
           None \<Rightarrow>
             Err (RtToolCallValidation (fmt [lit ''generated tool call `'', name,
               lit ''` was not declared in request tools'']))
         | Some tool \<Rightarrow>
             (case cr_tool_choice request of
                Some (ChoiceFunction required) \<Rightarrow>
                  if name \<noteq> required then
                    Err (RtToolCallValidation (fmt [lit ''generated tool call `'', name,
                      lit ''` did not match required tool `'', required, lit ''`'']))
                  else validate_tool_call_arguments_against_schema call (fd_parameters (td_function tool))
              | _ \<Rightarrow> validate_tool_call_arguments_against_schema call (fd_parameters (td_function tool))))"

definition validate_tool_calls_against_request ::
  "parsed_assistant \<Rightarrow> chat_completion_request \<Rightarrow> (runtime_error, unit) outcome" where
  "validate_tool_calls_against_request parsed request =
     (if pa_tool_calls parsed = [] then Ok ()
      else if cr_tool_choice request = Some ChoiceNone then
        Err (RtToolCallValidation (lit ''tool_choice none does not allow generated tool calls''))
      else checks (map (validate_tool_call request) (pa_tool_calls parsed)))"

definition validate_json_object_response :: "json_reader \<Rightarrow> parsed_assistant \<Rightarrow> (runtime_error, unit) outcome" where
  "validate_json_object_response rd parsed =
     (if pa_content parsed \<noteq> [] then
        (case rd (pa_content parsed) of
           Inl err \<Rightarrow>
             Err (RtJsonMode (fmt [lit ''json_object response_format requires valid JSON object content: '', err]))
         | Inr v \<Rightarrow>
             if as_object v = None then
               Err (RtJsonMode (lit ''json_object response_format requires assistant content to be a JSON object''))
             else Ok ())
      else if pa_tool_calls parsed = [] then
        Err (RtJsonMode (lit ''json_object response_format requires assistant content or tool calls''))
      else Ok ())"

definition validate_json_object_response_format ::
  "json_reader \<Rightarrow> parsed_assistant \<Rightarrow> chat_completion_request \<Rightarrow> (runtime_error, unit) outcome" where
  "validate_json_object_response_format rd parsed request =
     (if cr_response_format request = Some FormatJsonObject then validate_json_object_response rd parsed else Ok ())"

section \<open>The judgement\<close>

text \<open>\<open>conforms schema v\<close>: the value has a type and is an enumerated value that the schema admits, an object has
  the required members and each of its members that the schema describes conforms, and so do the items
  of an array. A keyword of the wrong shape admits nothing where it applies; a schema that is not an
  object admits everything.\<close>

definition enum_admits :: "json option \<Rightarrow> json \<Rightarrow> bool" where
  "enum_admits e v \<longleftrightarrow> (\<forall>j. e = Some j \<longrightarrow> (\<exists>allowed. j = JArray allowed \<and> (\<exists>a \<in> set allowed. json_eq a v)))"

definition required_present :: "json option \<Rightarrow> (rstr \<times> json) list \<Rightarrow> bool" where
  "required_present r object \<longleftrightarrow>
     (\<forall>j. r = Some j \<longrightarrow> (\<exists>names. j = JArray (map JString names) \<and> (\<forall>f \<in> set names. obj_get object f \<noteq> None)))"

text \<open>The types of JSON Schema, one rule each. An integer is a number that has an integer representation
  in the range of \<open>i64\<close> or of \<open>u64\<close>, so 1.0 is a number and not an integer. A name that is no JSON
  type restricts nothing.\<close>

definition json_type_names :: "rstr set" where
  "json_type_names = {lit ''null'', lit ''boolean'', lit ''integer'', lit ''number'', lit ''string'', lit ''array'', lit ''object''}"

inductive has_json_type :: "json \<Rightarrow> rstr \<Rightarrow> bool" where
  type_null: "has_json_type JNull (lit ''null'')"
| type_boolean: "has_json_type (JBool b) (lit ''boolean'')"
| type_signed: "jn_as_i64 n = Some i \<Longrightarrow> has_json_type (JNumber n) (lit ''integer'')"
| type_unsigned: "jn_as_u64 n = Some u \<Longrightarrow> has_json_type (JNumber n) (lit ''integer'')"
| type_number: "has_json_type (JNumber n) (lit ''number'')"
| type_string: "has_json_type (JString s) (lit ''string'')"
| type_array: "has_json_type (JArray vs) (lit ''array'')"
| type_object: "has_json_type (JObject kvs) (lit ''object'')"
| type_unknown: "name \<notin> json_type_names \<Longrightarrow> has_json_type v name"

text \<open>The keyword gives one type or a list of alternatives; with another shape it restricts nothing.\<close>

inductive type_admits :: "json \<Rightarrow> json \<Rightarrow> bool" where
  admits_name: "has_json_type v name \<Longrightarrow> type_admits (JString name) v"
| admits_alternative: "JString name \<in> set types \<Longrightarrow> has_json_type v name \<Longrightarrow> type_admits (JArray types) v"
| admits_null: "type_admits JNull v"
| admits_bool: "type_admits (JBool b) v"
| admits_number: "type_admits (JNumber n) v"
| admits_object: "type_admits (JObject kvs) v"

inductive conforms :: "json \<Rightarrow> json \<Rightarrow> bool" where
  conforms_any: "(\<And>so. schema \<noteq> JObject so) \<Longrightarrow> conforms schema v"
| conforms_object:
    "(\<And>t. obj_get so (lit ''type'') = Some t \<Longrightarrow> type_admits t v) \<Longrightarrow>
     enum_admits (obj_get so (lit ''enum'')) v \<Longrightarrow>
     (\<And>object. v = JObject object \<Longrightarrow> required_present (obj_get so (lit ''required'')) object) \<Longrightarrow>
     (\<And>object j. v = JObject object \<Longrightarrow> obj_get so (lit ''properties'') = Some j \<Longrightarrow> \<exists>members. j = JObject members) \<Longrightarrow>
     (\<And>object members field field_schema field_value. v = JObject object \<Longrightarrow>
        obj_get so (lit ''properties'') = Some (JObject members) \<Longrightarrow> (field, field_schema) \<in> set members \<Longrightarrow>
        obj_get object field = Some field_value \<Longrightarrow> conforms field_schema field_value) \<Longrightarrow>
     (\<And>items items_schema item. v = JArray items \<Longrightarrow> obj_get so (lit ''items'') = Some items_schema \<Longrightarrow>
        item \<in> set items \<Longrightarrow> conforms items_schema item) \<Longrightarrow>
     conforms (JObject so) v"

inductive_simps has_json_type_iff: "has_json_type v name"
inductive_simps type_admits_iff: "type_admits t v"

inductive_cases conforms_objectE: "conforms (JObject so) v"

lemma as_object_Some: "as_object j = Some kvs \<longleftrightarrow> j = JObject kvs"
  by (cases j) auto

lemma as_array_Some: "as_array j = Some vs \<longleftrightarrow> j = JArray vs"
  by (cases j) auto

lemma jstrings: "list_all is_jstring vs \<longleftrightarrow> (\<exists>names. vs = map JString names)"
proof
  assume "list_all is_jstring vs"
  then have "vs = map JString (map jstring_key vs)"
    by (induction vs) (auto elim: is_jstring.elims)
  then show "\<exists>names. vs = map JString names" ..
qed (auto simp: list_all_iff)

lemma json_type_matches_iff: "json_type_matches name v \<longleftrightarrow> has_json_type v name"
  by (cases v) (auto simp: json_type_matches_def has_json_type_iff json_type_names_def lit_def)

lemma mem_map_filter_as_str: "name \<in> set (List.map_filter as_str js) \<longleftrightarrow> JString name \<in> set js"
  by (induction js) (auto simp: List.map_filter_simps split: option.splits elim!: as_str.elims)

lemma schema_type_matches_iff: "schema_type_matches t v \<longleftrightarrow> type_admits t v"
  by (cases t) (auto simp: schema_type_matches_def type_admits_iff json_type_matches_iff list_ex_iff mem_map_filter_as_str)

lemma check_schema_type_Ok:
  "check_schema_type tool_name path v so = Ok () \<longleftrightarrow>
   (\<forall>t. obj_get so (lit ''type'') = Some t \<longrightarrow> type_admits t v)"
  by (auto simp: check_schema_type_def schema_type_matches_iff split: option.splits)

lemma check_schema_enum_Ok:
  "check_schema_enum tool_name path v so = Ok () \<longleftrightarrow> enum_admits (obj_get so (lit ''enum'')) v"
  by (auto simp: check_schema_enum_def enum_admits_def as_array_Some list_ex_iff split: option.splits)

lemma check_schema_required_Ok:
  "check_schema_required tool_name path object so = Ok () \<longleftrightarrow> required_present (obj_get so (lit ''required'')) object"
proof (cases "obj_get so (lit ''required'')")
  case (Some j)
  show ?thesis
  proof (cases "\<exists>names. j = JArray (map JString names)")
    case True
    then obtain names where j: "j = JArray (map JString names)" by blast
    have "required_present (Some j) object \<longleftrightarrow> (\<forall>f \<in> set names. obj_get object f \<noteq> None)"
      by (auto simp: required_present_def j inj_map_eq_map inj_def)
    also have "\<dots> \<longleftrightarrow> find (\<lambda>field. obj_get object field = None) names = None"
      by (auto simp: find_None_iff)
    finally show ?thesis using Some j
      by (simp add: check_schema_required_def list_all_iff comp_def split: option.splits)
  next
    case False
    with Some show ?thesis
      by (auto simp: check_schema_required_def required_present_def as_array_Some jstrings split: option.splits)
  qed
qed (simp add: check_schema_required_def required_present_def)

inductive_simps conforms_JObject: "conforms (JObject so) v"

lemma conforms_empty: "conforms (JObject []) v"
  by (simp add: conforms_JObject enum_admits_def required_present_def)

text \<open>The parts of the validator that recurse, with the judgement for the recursive calls.\<close>

lemma members_conform:
  assumes "\<And>path field_schema field_value. size field_value < size (JObject object) \<Longrightarrow>
    validate_json_schema_value tool_name path field_value field_schema = Ok () \<longleftrightarrow> conforms field_schema field_value"
  shows "checks (map (\<lambda>(field, field_schema). case obj_get object field of None \<Rightarrow> Ok ()
      | Some field_value \<Rightarrow> validate_json_schema_value tool_name (join_schema_path path field) field_value field_schema)
      members) = Ok () \<longleftrightarrow>
    (\<forall>field field_schema field_value. (field, field_schema) \<in> set members \<longrightarrow>
       obj_get object field = Some field_value \<longrightarrow> conforms field_schema field_value)"
proof -
  have "validate_json_schema_value tool_name path' field_value field_schema = Ok () \<longleftrightarrow> conforms field_schema field_value"
    if "obj_get object field = Some field_value" for field field_value field_schema path'
    using assms size_object_member [OF map_of_SomeD [OF that]] by blast
  then show ?thesis by (fastforce split: option.splits)
qed

lemma items_conform:
  assumes "\<And>path item. size item < size (JArray items) \<Longrightarrow>
    validate_json_schema_value tool_name path item items_schema = Ok () \<longleftrightarrow> conforms items_schema item"
  shows "checks (map (\<lambda>(index, item). validate_json_schema_value tool_name (pf index) item items_schema)
      (enumerate 0 items)) = Ok () \<longleftrightarrow> (\<forall>item \<in> set items. conforms items_schema item)"
proof -
  have "validate_json_schema_value tool_name (pf i) item items_schema = Ok () \<longleftrightarrow> conforms items_schema item"
    if "(i, item) \<in> set (enumerate 0 items)" for i item
    using assms size_enumerate_member [OF that] by blast
  then have "checks (map (\<lambda>(index, item). validate_json_schema_value tool_name (pf index) item items_schema)
      (enumerate 0 items)) = Ok () \<longleftrightarrow> (\<forall>(i, item) \<in> set (enumerate 0 items). conforms items_schema item)" by fastforce
  also have "\<dots> \<longleftrightarrow> (\<forall>item \<in> snd ` set (enumerate 0 items). conforms items_schema item)" by force
  also have "snd ` set (enumerate 0 items) = set items" by (metis list.set_map map_snd_enumerate)
  finally show ?thesis .
qed

lemma validate_conforms:
  "validate_json_schema_value tool_name path v schema = Ok () \<longleftrightarrow> conforms schema v"
proof (induction "size v" arbitrary: path v schema rule: less_induct)
  case less
  show ?case
  proof (cases "as_object schema")
    case None
    then have "conforms schema v" by (intro conforms_any) auto
    with None show ?thesis by (subst validate_json_schema_value.simps) simp
  next
    case (Some so)
    then have schema: "schema = JObject so" by (simp add: as_object_Some)
    show ?thesis
    proof (cases "so = []")
      case True
      with schema show ?thesis by (subst validate_json_schema_value.simps) (simp add: conforms_empty)
    next
      case False
      have IH: "validate_json_schema_value tool_name path' w schema' = Ok () \<longleftrightarrow> conforms schema' w"
        if "size w < size v" for path' w schema' using less that by blast
      show ?thesis
      proof (cases v)
        case (JObject object)
        note members_conform [OF IH [unfolded JObject]]
        with JObject False schema show ?thesis
          by (subst validate_json_schema_value.simps)
            (auto simp: conforms_JObject check_schema_type_Ok check_schema_enum_Ok check_schema_required_Ok as_object_Some
              simp del: checks.simps split: option.splits)
      next
        case (JArray items)
        note items_conform [OF IH [unfolded JArray]]
        with JArray False schema show ?thesis
          by (subst validate_json_schema_value.simps)
            (auto simp: conforms_JObject check_schema_type_Ok check_schema_enum_Ok simp del: checks.simps split: option.splits)
      qed (use False schema in \<open>auto simp: validate_json_schema_value.simps conforms_JObject
          check_schema_type_Ok check_schema_enum_Ok simp del: checks.simps\<close>)
    qed
  qed
qed

text \<open>A check that fails gives a tool-call validation error.\<close>

definition only_tool_errors :: "(runtime_error, unit) outcome \<Rightarrow> bool" where
  "only_tool_errors r \<longleftrightarrow> r = Ok () \<or> (\<exists>m. r = Err (RtToolCallValidation m))"

named_theorems tool_errors "checks that fail only with a tool-call validation error"

lemma only_tool_errors_intros [tool_errors]:
  "only_tool_errors (Ok ())" "only_tool_errors (Err (RtToolCallValidation m))"
  by (simp_all add: only_tool_errors_def)

lemma only_tool_errors_checks [tool_errors]: "list_all only_tool_errors cs \<Longrightarrow> only_tool_errors (checks cs)"
proof (induction cs)
  case (Cons c cs)
  then show ?case by (cases c) (auto simp: only_tool_errors_def)
qed (simp add: only_tool_errors_def)

lemma only_tool_errors_parts [tool_errors]:
  "only_tool_errors (check_schema_type tool_name path v so)"
  "only_tool_errors (check_schema_enum tool_name path v so)"
  "only_tool_errors (check_schema_required tool_name path object so)"
  by (simp_all add: check_schema_type_def check_schema_enum_def check_schema_required_def Let_def tool_errors
      split: option.splits)

lemma only_tool_errors_value [tool_errors]: "only_tool_errors (validate_json_schema_value tool_name path v schema)"
proof (induction "size v" arbitrary: path v schema rule: less_induct)
  case less
  have array: "only_tool_errors (validate_json_schema_value tool_name path' w schema')"
    if "v = JArray items" "(i, w) \<in> set (enumerate 0 items)" for path' w schema' items i
    using less that(1) size_enumerate_member [OF that(2)] by blast
  have object: "only_tool_errors (validate_json_schema_value tool_name path' w schema')"
    if "v = JObject object" "obj_get object field = Some w" for path' w schema' object field
    using less that(1) size_object_member [OF map_of_SomeD [OF that(2)]] by blast
  show ?case
    by (subst validate_json_schema_value.simps)
      (auto simp: tool_errors list_all_iff array object simp del: checks.simps
        intro!: only_tool_errors_checks split: option.splits json.splits)
qed

lemma only_tool_errors_call [tool_errors]: "only_tool_errors (validate_tool_call request call)"
  by (auto simp: validate_tool_call_def validate_tool_call_arguments_against_schema_def Let_def tool_errors
      split: option.splits tool_choice.splits)

lemma only_tool_errors_request [tool_errors]: "only_tool_errors (validate_tool_calls_against_request parsed request)"
  unfolding validate_tool_calls_against_request_def
  by (auto simp: tool_errors list_all_iff simp del: checks.simps intro!: only_tool_errors_checks)

section \<open>What an accepted answer is\<close>

text \<open>\<open>call_admitted request call\<close>: the call names a declared tool, the required one if a tool is required by
  name, and its arguments are an object that conforms to the schema of that tool.\<close>

definition call_admitted :: "chat_completion_request \<Rightarrow> tool_call \<Rightarrow> bool" where
  "call_admitted request call \<longleftrightarrow>
     (\<exists>tool. find_tool (tcf_name (tc_function call)) request = Some tool \<and>
        (\<forall>required. cr_tool_choice request = Some (ChoiceFunction required) \<longrightarrow>
           tcf_name (tc_function call) = required) \<and>
        as_object (tcf_arguments (tc_function call)) \<noteq> None \<and>
        conforms (fd_parameters (td_function tool)) (tcf_arguments (tc_function call)))"

lemma validate_tool_call_Ok: "validate_tool_call request call = Ok () \<longleftrightarrow> call_admitted request call"
  by (auto simp: validate_tool_call_def validate_tool_call_arguments_against_schema_def call_admitted_def Let_def
      validate_conforms split: option.splits tool_choice.splits)

lemma validate_request_calls_Ok:
  "validate_tool_calls_against_request parsed request = Ok () \<longleftrightarrow>
   pa_tool_calls parsed = [] \<or>
   cr_tool_choice request \<noteq> Some ChoiceNone \<and> (\<forall>call \<in> set (pa_tool_calls parsed). call_admitted request call)"
  by (auto simp: validate_tool_calls_against_request_def validate_tool_call_Ok simp del: checks.simps)

lemma map_put_get: "map_of (map_put k v es) k' = (if k' = k then Some v else map_of es k')"
  by (induction es) auto

lemma trim_GENERIC_TOOL_INTENT: "trim GENERIC_TOOL_INTENT \<noteq> []"
  by (simp add: GENERIC_TOOL_INTENT_def lit_def trim_def trim_start_def trim_end_def is_whitespace_def)

lemma tool_intent_default_not_blank: "trim (tool_intent_default schema) \<noteq> []"
  by (auto simp: tool_intent_default_def trim_GENERIC_TOOL_INTENT split: option.splits)

text \<open>Filling touches the intent argument only, and only where it is missing.\<close>

lemma fill_call_other_fields [simp]:
  "tc_id (fill_call request call) = tc_id call" "tc_call_type (fill_call request call) = tc_call_type call"
  "tcf_name (tc_function (fill_call request call)) = tcf_name (tc_function call)"
  by (simp_all add: fill_call_def split: option.splits)

lemma fill_call_arguments:
  assumes "as_object (tcf_arguments (tc_function call)) = Some arguments"
  obtains arguments' where "as_object (tcf_arguments (tc_function (fill_call request call))) = Some arguments'"
    "\<And>k. k \<noteq> lit ''_i'' \<Longrightarrow> obj_get arguments' k = obj_get arguments k"
    "obj_get arguments (lit ''_i'') \<noteq> None \<Longrightarrow> arguments' = arguments"
proof (cases "obj_get arguments (lit ''_i'') = None \<and> (\<exists>tool. find_tool (tcf_name (tc_function call)) request = Some tool \<and>
    schema_requires_string_intent_argument (fd_parameters (td_function tool)))")
  case True
  then obtain tool where "find_tool (tcf_name (tc_function call)) request = Some tool"
    "schema_requires_string_intent_argument (fd_parameters (td_function tool))" by blast
  with True assms show thesis
    by (intro that [of "map_put (lit ''_i'') (JString (tool_intent_default (fd_parameters (td_function tool)))) arguments"])
      (simp_all add: fill_call_def map_put_get)
next
  case False
  with assms have "fill_call request call = call" by (auto simp: fill_call_def split: option.splits)
  with assms that [of arguments] show thesis by simp
qed

lemma fill_call_intent:
  assumes "as_object (tcf_arguments (tc_function call)) = Some arguments"
    and "find_tool (tcf_name (tc_function call)) request = Some tool"
    and "schema_requires_string_intent_argument (fd_parameters (td_function tool))"
  obtains arguments' intent where "as_object (tcf_arguments (tc_function (fill_call request call))) = Some arguments'"
    "obj_get arguments' (lit ''_i'') = Some intent"
proof (cases "obj_get arguments (lit ''_i'')")
  case None
  with assms that show thesis by (simp add: fill_call_def map_put_get)
next
  case (Some intent)
  with assms have "fill_call request call = call" by (simp add: fill_call_def)
  with Some assms that show thesis by simp
qed

lemma fill_call_idem: "fill_call request (fill_call request call) = fill_call request call"
  by (auto simp: fill_call_def map_put_get split: option.splits)

lemma requires_intent_field:
  assumes "schema_requires_string_intent_argument schema" and "conforms schema (JObject object)"
  shows "obj_get object (lit ''_i'') \<noteq> None"
proof -
  from assms(1) obtain so fs where so: "schema = JObject so" "obj_get so (lit ''required'') = Some (JArray fs)"
    "JString (lit ''_i'') \<in> set fs"
    by (auto simp: schema_requires_string_intent_argument_def as_object_Some as_array_Some list_ex_iff Option.bind_eq_Some_conv
        split: option.splits if_splits elim!: as_str.elims)
  from assms(2) so(1) have "required_present (obj_get so (lit ''required'')) object"
    by (auto elim: conforms_objectE)
  with so(2) obtain names where "fs = map JString names" "\<forall>f \<in> set names. obj_get object f \<noteq> None"
    by (auto simp: required_present_def)
  with so(3) show ?thesis by auto
qed

text \<open>A call that is admitted as generated is left as it is.\<close>

lemma fill_call_admitted: "call_admitted request call \<Longrightarrow> fill_call request call = call"
  by (auto simp: call_admitted_def fill_call_def as_object_Some dest: requires_intent_field split: option.splits)

text \<open>C9: The schema validator is sound and complete for the judgement. It accepts the arguments of a call exactly
  when they conform to the schema, at whatever path it is called, and when it rejects them it gives a
  tool-call validation error and does not panic.\<close>

theorem schema_validator_decides_conformance:
  "validate_json_schema_value tool_name path v schema = Ok () \<and> conforms schema v \<or>
   (\<exists>m. validate_json_schema_value tool_name path v schema = Err (RtToolCallValidation m)) \<and> \<not> conforms schema v"
  using only_tool_errors_value [of tool_name path v schema] validate_conforms [of tool_name path v schema]
  by (auto simp: only_tool_errors_def)

end
