(* ===== verification/Json_Mode.thy ===== *)
theory Json_Mode
  imports Tool_Markup Response_Validation
begin

text \<open>
  Parsing the text of a chat answer (llm-runtime/src/json\_mode.rs). An answer of a family whose tool calls
  carry no markers, to a request without tools, and an answer in JSON mode to a request without tools are
  taken as content when they are, or hold, a JSON object; every other answer goes to the parser of the
  family. Slices are modelled by splitting at the match, which is at a character boundary.

  The lemmas show that a JSON-mode candidate is always a JSON object and a part of the answer.
\<close>

section \<open>Operations\<close>

definition json_value_is_object :: "json_reader \<Rightarrow> rstr \<Rightarrow> bool" where
  "json_value_is_object rd text = (case rd text of Inl _ \<Rightarrow> False | Inr v \<Rightarrow> as_object v \<noteq> None)"

definition unmarked_tool_json_candidate :: "rstr \<Rightarrow> rstr list \<Rightarrow> rstr" where
  "unmarked_tool_json_candidate text truncation_tokens = trim (cut_at_first truncation_tokens text)"

text \<open>The scan for the end of the object that begins at the first brace: \<open>seen\<close> is the text from that brace
  to the current character.\<close>

fun balanced_scan :: "nat \<Rightarrow> bool \<Rightarrow> bool \<Rightarrow> rstr \<Rightarrow> rstr \<Rightarrow> rstr option" where
  "balanced_scan depth in_string escaped seen [] = None"
| "balanced_scan depth in_string escaped seen (ch # rest) =
     (if in_string then
        if escaped then balanced_scan depth True False (seen @ [ch]) rest
        else if ch = 92 then balanced_scan depth True True (seen @ [ch]) rest
        else if ch = 34 then balanced_scan depth False False (seen @ [ch]) rest
        else balanced_scan depth True False (seen @ [ch]) rest
      else if ch = 34 then balanced_scan depth True escaped (seen @ [ch]) rest
      else if ch = 123 then balanced_scan (depth + 1) False escaped (seen @ [ch]) rest
      else if ch = 125 then
        (if depth = 0 then None
         else if depth - 1 = 0 then Some (trim (seen @ [ch]))
         else balanced_scan (depth - 1) False escaped (seen @ [ch]) rest)
      else balanced_scan depth False escaped (seen @ [ch]) rest)"

definition first_balanced_json_object :: "rstr \<Rightarrow> rstr option" where
  "first_balanced_json_object text =
     (case find_sub (lit ''{'') text of
        None \<Rightarrow> None
      | Some start \<Rightarrow> balanced_scan 0 False False [] (drop start text))"

definition markdown_fenced_json_object_candidate :: "json_reader \<Rightarrow> rstr \<Rightarrow> rstr option" where
  "markdown_fenced_json_object_candidate rd text =
     Option.bind (strip_prefix (lit ''```'') text) (\<lambda>rest.
     Option.bind (split_sub [10] rest) (\<lambda>(_, body_with_close).
     Option.bind (split_sub (lit ''```'') body_with_close) (\<lambda>(body, _).
       let candidate = trim body in if json_value_is_object rd candidate then Some candidate else None)))"

definition json_object_response_candidate :: "json_reader \<Rightarrow> rstr \<Rightarrow> rstr option" where
  "json_object_response_candidate rd text =
     (let trimmed = trim text
      in if json_value_is_object rd trimmed then Some trimmed
         else case markdown_fenced_json_object_candidate rd trimmed of
                Some fenced \<Rightarrow> Some fenced
              | None \<Rightarrow>
                  if \<not> starts_with (lit ''{'') trimmed then
                    (case first_balanced_json_object trimmed of
                       None \<Rightarrow> None
                     | Some candidate \<Rightarrow> if json_value_is_object rd candidate then Some candidate else None)
                  else None)"

definition unmarked_tool_json_without_declared_tools ::
  "json_reader \<Rightarrow> chat_completion_request \<Rightarrow> rstr \<Rightarrow> model_family \<Rightarrow> rstr option option" where
  "unmarked_tool_json_without_declared_tools rd request text family =
     (if \<not> parses_unmarked_tool_calls family \<or> cr_tools request \<noteq> [] then Some None
      else case policy_contains_start (family_tool_markup_policy family) text of
             None \<Rightarrow> None
           | Some True \<Rightarrow> Some None
           | Some False \<Rightarrow>
               let content = unmarked_tool_json_candidate text (unmarked_tool_json_truncation_tokens family)
               in (case rd content of
                     Inr (JObject _) \<Rightarrow> Some (Some content)
                   | Inr (JArray _) \<Rightarrow> Some (Some content)
                   | _ \<Rightarrow> Some None))"

definition json_object_mode_without_tools ::
  "json_reader \<Rightarrow> chat_completion_request \<Rightarrow> rstr \<Rightarrow> model_family \<Rightarrow> rstr option option" where
  "json_object_mode_without_tools rd request text family =
     (if cr_response_format request \<noteq> Some FormatJsonObject \<or> cr_tools request \<noteq> [] then Some None
      else case policy_contains_start (family_tool_markup_policy family) text of
             None \<Rightarrow> None
           | Some True \<Rightarrow> Some None
           | Some False \<Rightarrow>
               let content = unmarked_tool_json_candidate text (unmarked_tool_json_truncation_tokens family)
               in Some (json_object_response_candidate rd content))"

definition parse_complete ::
  "json_reader \<Rightarrow> string_reader \<Rightarrow> (nat \<Rightarrow> rstr) \<Rightarrow> model_family \<Rightarrow> rstr \<Rightarrow> (runtime_error, parsed_assistant) outcome" where
  "parse_complete rd rs ids family text =
     (case parse_assistant_for_family rd rs ids family text of
        Ok parsed \<Rightarrow> Ok parsed
      | Err e \<Rightarrow> Err (RtParser e)
      | Panic \<Rightarrow> Panic)"

definition parse_chat_text ::
  "json_reader \<Rightarrow> string_reader \<Rightarrow> (nat \<Rightarrow> rstr) \<Rightarrow> model_family \<Rightarrow> rstr \<Rightarrow> chat_completion_request \<Rightarrow>
   (runtime_error, parsed_assistant) outcome" where
  "parse_chat_text rd rs ids family text request =
     (case unmarked_tool_json_without_declared_tools rd request text family of
        None \<Rightarrow> Panic
      | Some (Some content) \<Rightarrow> Ok (parsed_content content)
      | Some None \<Rightarrow>
          (case json_object_mode_without_tools rd request text family of
             None \<Rightarrow> Panic
           | Some (Some content) \<Rightarrow> Ok (parsed_content content)
           | Some None \<Rightarrow> parse_complete rd rs ids family text))"

section \<open>Candidates\<close>

lemma sublist_middle: "sublist v (u @ v @ w)"
  by (auto simp: sublist_def)

lemma sublist_trans: "sublist a b \<Longrightarrow> sublist b c \<Longrightarrow> sublist a c"
  by (rule sublist_order.order_trans)

lemma balanced_scan_sublist:
  "balanced_scan depth in_string escaped seen rest = Some c \<Longrightarrow> sublist c (seen @ rest)"
proof (induction depth in_string escaped seen rest rule: balanced_scan.induct)
  case (2 depth in_string escaped seen ch rest)
  have "sublist (trim (seen @ [ch])) (seen @ ch # rest)"
    using sublist_trans [OF sublist_trim [of "seen @ [ch]"] sublist_middle [of "seen @ [ch]" "[]" rest]] by simp
  with 2 show ?case by (auto split: if_splits)
qed simp

lemma split_sub_sublists:
  assumes "split_sub p s = Some (u, v)"
  shows "sublist u s" and "sublist v s"
  using split_sub_Some [OF assms] sublist_middle [of u "[]" "p @ v"] sublist_middle [of v "u @ p" "[]"] by simp_all

lemma first_balanced_sublist: "first_balanced_json_object s = Some c \<Longrightarrow> sublist c s"
  by (auto simp: first_balanced_json_object_def split: option.splits dest!: balanced_scan_sublist)
    (metis append_take_drop_id append_Nil2 sublist_middle sublist_trans)

lemma fenced_candidate:
  assumes "markdown_fenced_json_object_candidate rd s = Some c"
  shows "json_value_is_object rd c" and "sublist c s"
proof -
  from assms obtain rest before body_with_close body after where
    c: "strip_prefix (lit ''```'') s = Some rest" "split_sub [10] rest = Some (before, body_with_close)"
    "split_sub (lit ''```'') body_with_close = Some (body, after)" "c = trim body" "json_value_is_object rd (trim body)"
    by (auto simp: markdown_fenced_json_object_candidate_def Option.bind_eq_Some_conv Let_def split: if_splits)
  show "json_value_is_object rd c" using c by simp
  have "sublist rest s" using c(1) by (auto simp: strip_prefix_def intro: sublist_drop split: if_splits)
  with split_sub_sublists [OF c(2)] split_sub_sublists [OF c(3)] sublist_trim [of body] show "sublist c s"
    unfolding c(4) by (blast intro: sublist_trans)
qed

lemma json_object_response_candidate_sound:
  assumes "json_object_response_candidate rd text = Some c"
  shows "json_value_is_object rd c" and "sublist c text"
proof -
  have "json_value_is_object rd c \<and> sublist c (trim text)"
  proof (cases "json_value_is_object rd (trim text)")
    case True
    with assms show ?thesis by (simp add: json_object_response_candidate_def)
  next
    case no: False
    show ?thesis
    proof (cases "markdown_fenced_json_object_candidate rd (trim text)")
      case (Some fenced)
      with no assms have "c = fenced" by (simp add: json_object_response_candidate_def)
      with fenced_candidate [OF Some] show ?thesis by simp
    next
      case None
      with no assms have "first_balanced_json_object (trim text) = Some c" "json_value_is_object rd c"
        by (simp_all add: json_object_response_candidate_def Let_def split: if_splits option.splits)
      with first_balanced_sublist show ?thesis by blast
    qed
  qed
  then show "json_value_is_object rd c" and "sublist c text" using sublist_trans [OF _ sublist_trim] by blast+
qed

lemma policy_contains_start_total: "policy_contains_start pol s \<noteq> None"
  using find_start_from_0 [of pol s] by (auto simp: policy_contains_start_def)

lemma policy_contains_start_hit: "policy_contains_start pol s = Some b \<Longrightarrow> b \<longleftrightarrow> (\<exists>n. hit (start_markers pol) s n)"
  using find_start_from_0 [of pol s] by (auto simp: policy_contains_start_def least_def split: option.splits)

lemma parse_chat_text_no_slice_panic:
  "unmarked_tool_json_without_declared_tools rd request s family \<noteq> None"
  "json_object_mode_without_tools rd request s family \<noteq> None"
  using policy_contains_start_total [of "family_tool_markup_policy family" s]
  by (auto simp: unmarked_tool_json_without_declared_tools_def json_object_mode_without_tools_def Let_def
      split: option.splits bool.splits sum.splits json.splits)

lemma parse_chat_text_Panic:
  assumes "parse_chat_text rd rs ids family s request = Panic"
  shows "parse_assistant_for_family rd rs ids family s = Panic"
  using assms parse_chat_text_no_slice_panic [where rd = rd and request = request and s = s and family = family]
  by (auto simp: parse_chat_text_def parse_complete_def split: option.splits outcome.splits)

text \<open>JSON mode finds an object and nothing but an object: in an answer to a JSON-mode request without tools, whatever
  surrounds it (a Markdown fence, prose), a candidate that is found is a part of the answer that the JSON
  reader reads as an object, and an answer that is itself a JSON object up to surrounding blanks is found
  whole.\<close>

theorem json_candidate_is_object:
  "(\<forall>c. json_object_response_candidate rd text = Some c \<longrightarrow> sublist c text \<and> (\<exists>kvs. rd c = Inr (JObject kvs))) \<and>
   (\<forall>kvs. rd (trim text) = Inr (JObject kvs) \<longrightarrow> json_object_response_candidate rd text = Some (trim text))"
proof (intro conjI allI impI)
  fix c assume c: "json_object_response_candidate rd text = Some c"
  show "sublist c text" by (rule json_object_response_candidate_sound [OF c])
  show "\<exists>kvs. rd c = Inr (JObject kvs)"
    using json_object_response_candidate_sound(1) [OF c] by (auto simp: json_value_is_object_def as_object_Some split: sum.splits)
next
  fix kvs assume "rd (trim text) = Inr (JObject kvs)"
  then show "json_object_response_candidate rd text = Some (trim text)"
    by (simp add: json_object_response_candidate_def json_value_is_object_def)
qed

theorem json_candidate_is_object_witness:
  "\<exists>rd c. json_object_response_candidate rd (lit ''Sure: {} done'') = Some c \<and> sublist c (lit ''Sure: {} done'') \<and>
     (\<exists>kvs. rd c = Inr (JObject kvs))"
proof -
  let ?rd = "\<lambda>s. if s = lit ''{}'' then Inr (JObject []) else Inl (lit ''expected value'')"
  have "json_object_response_candidate ?rd (lit ''Sure: {} done'') = Some (lit ''{}'')"
    by (simp add: json_object_response_candidate_def json_value_is_object_def markdown_fenced_json_object_candidate_def
        strip_prefix_def first_balanced_json_object_def lit_def trim_def trim_start_def trim_end_def is_whitespace_def
        split_sub_Cons starts_with_def Let_def)
  with json_candidate_is_object [of ?rd "lit ''Sure: {} done''"] show ?thesis by blast
qed

end
