(* ===== verification/No_Progress.thy ===== *)
theory No_Progress
  imports Json_Mode Completion_Stream
begin

text \<open>
  Answers that make no progress (llm-runtime/src/no\_progress.rs): an empty or hidden answer, plain text where a
  tool call was required, a failed tool call repeated with the same or similar arguments, an answer that
  repeats an earlier one, and a short promise to act later. The order of the rules decides the class.

  Unicode's \<open>is_alphanumeric\<close> and \<open>to_lowercase\<close> tables are arguments, collected in a record. Terms and
  markers that are not ASCII are lists of scalar values.
\<close>

record unicode_tables =
  is_alphanumeric :: "nat \<Rightarrow> bool"
  to_lowercase :: "nat \<Rightarrow> rstr"

section \<open>Repeated tool calls\<close>

definition NO_PROGRESS_EXACT_REPEATED_INVALID_TOOL_CALL_THRESHOLD :: nat where
  "NO_PROGRESS_EXACT_REPEATED_INVALID_TOOL_CALL_THRESHOLD = 5"

definition NO_PROGRESS_FUZZY_REPEATED_INVALID_TOOL_CALL_THRESHOLD :: nat where
  "NO_PROGRESS_FUZZY_REPEATED_INVALID_TOOL_CALL_THRESHOLD = 3"

definition tool_result_indicates_failure :: "rstr \<Rightarrow> bool" where
  "tool_result_indicates_failure content =
     (let lower = to_ascii_lowercase content
      in list_ex (\<lambda>marker. str_contains marker lower)
           [lit ''error'', lit ''failed'', lit ''failure'', lit ''invalid'', lit ''not found'', lit ''no such file'',
            lit ''denied'', lit ''timeout'', lit ''exception'', lit ''panic'', lit ''missing required argument''])"

definition failed_tool_call_ids :: "chat_message list \<Rightarrow> rstr set" where
  "failed_tool_call_ids messages =
     set (List.map_filter cm_tool_call_id
       (filter (\<lambda>m. case cm_content m of None \<Rightarrow> False | Some content \<Rightarrow> tool_result_indicates_failure content)
         (filter (\<lambda>m. cm_role m = RoleTool) messages)))"

definition tool_schema_requires_string_intent_argument :: "rstr \<Rightarrow> chat_completion_request \<Rightarrow> bool" where
  "tool_schema_requires_string_intent_argument tool_name request =
     (case find_tool tool_name request of
        None \<Rightarrow> False
      | Some tool \<Rightarrow> schema_requires_string_intent_argument (fd_parameters (td_function tool)))"

definition normalized_tool_call_arguments :: "tool_call \<Rightarrow> chat_completion_request \<Rightarrow> json" where
  "normalized_tool_call_arguments call request =
     (case tcf_arguments (tc_function call) of
        JObject object \<Rightarrow>
          if tool_schema_requires_string_intent_argument (tcf_name (tc_function call)) request
          then JObject (snd (obj_swap_remove (lit ''_i'') object)) else JObject object
      | arguments \<Rightarrow> arguments)"

definition argument_key_set :: "json \<Rightarrow> rstr set option" where
  "argument_key_set arguments = map_option (\<lambda>object. set (map fst object)) (as_object arguments)"

text \<open>The two counters of one generated call, which start at one: the loop over the earlier assistant messages
  and their calls.\<close>

fun repeat_counts ::
  "chat_completion_request \<Rightarrow> rstr set \<Rightarrow> rstr \<Rightarrow> json \<Rightarrow> tool_call list \<Rightarrow> nat \<times> nat \<Rightarrow> nat \<times> nat" where
  "repeat_counts request failed name generated [] counts = counts"
| "repeat_counts request failed name generated (previous # rest) (exact_count, fuzzy_count) =
     (if tc_id previous \<notin> failed \<or> tcf_name (tc_function previous) \<noteq> name then
        repeat_counts request failed name generated rest (exact_count, fuzzy_count)
      else
        let previous_arguments = normalized_tool_call_arguments previous request
        in if json_eq previous_arguments generated then
             repeat_counts request failed name generated rest (exact_count + 1, fuzzy_count)
           else if argument_key_set generated \<noteq> None \<and>
                   argument_key_set previous_arguments = argument_key_set generated then
             repeat_counts request failed name generated rest (exact_count, fuzzy_count + 1)
           else repeat_counts request failed name generated rest (exact_count, fuzzy_count))"

definition assistant_calls :: "chat_completion_request \<Rightarrow> tool_call list" where
  "assistant_calls request = concat (map cm_tool_calls (filter (\<lambda>m. cm_role m = RoleAssistant) (cr_messages request)))"

definition classify_generated_call ::
  "chat_completion_request \<Rightarrow> rstr set \<Rightarrow> tool_call \<Rightarrow> no_progress_class option" where
  "classify_generated_call request failed generated =
     (case repeat_counts request failed (tcf_name (tc_function generated))
             (normalized_tool_call_arguments generated request) (assistant_calls request) (1, 1) of
        (exact_count, fuzzy_count) \<Rightarrow>
          if NO_PROGRESS_EXACT_REPEATED_INVALID_TOOL_CALL_THRESHOLD \<le> exact_count then Some RepeatedInvalidToolCall
          else if NO_PROGRESS_FUZZY_REPEATED_INVALID_TOOL_CALL_THRESHOLD \<le> fuzzy_count
          then Some FuzzyRepeatedInvalidToolCall else None)"

fun first_class :: "(tool_call \<Rightarrow> no_progress_class option) \<Rightarrow> tool_call list \<Rightarrow> no_progress_class option" where
  "first_class f [] = None"
| "first_class f (generated # rest) =
     (case f generated of Some class \<Rightarrow> Some class | None \<Rightarrow> first_class f rest)"

definition classify_repeated_invalid_tool_call_no_progress ::
  "parsed_assistant \<Rightarrow> chat_completion_request \<Rightarrow> no_progress_class option" where
  "classify_repeated_invalid_tool_call_no_progress parsed request =
     (let failed = failed_tool_call_ids (cr_messages request)
      in if failed = {} then None
         else first_class (classify_generated_call request failed) (pa_tool_calls parsed))"

section \<open>Repeated and stalled answers\<close>

definition no_space_progress_char :: "nat \<Rightarrow> bool" where
  "no_space_progress_char ch \<longleftrightarrow>
     (13312 \<le> ch \<and> ch \<le> 19903) \<or> (19968 \<le> ch \<and> ch \<le> 40959) \<or> (63744 \<le> ch \<and> ch \<le> 64255) \<or>
     (12352 \<le> ch \<and> ch \<le> 12447) \<or> (12448 \<le> ch \<and> ch \<le> 12543) \<or> (44032 \<le> ch \<and> ch \<le> 55215)"

fun progress_terms_loop :: "unicode_tables \<Rightarrow> rstr \<Rightarrow> rstr list \<Rightarrow> rstr \<Rightarrow> rstr list" where
  "progress_terms_loop u [] terms current = (if current \<noteq> [] then terms @ [current] else terms)"
| "progress_terms_loop u (ch # content) terms current =
     (if no_space_progress_char ch then
        progress_terms_loop u content ((if current \<noteq> [] then terms @ [current] else terms) @ [[ch]]) []
      else if is_alphanumeric u ch then progress_terms_loop u content terms (current @ to_lowercase u ch)
      else if current \<noteq> [] then progress_terms_loop u content (terms @ [current]) []
      else progress_terms_loop u content terms current)"

definition normalized_progress_terms :: "unicode_tables \<Rightarrow> rstr \<Rightarrow> rstr list" where
  "normalized_progress_terms u content = progress_terms_loop u content [] []"

definition normalized_progress_text :: "unicode_tables \<Rightarrow> rstr \<Rightarrow> rstr" where
  "normalized_progress_text u content = join_list [32] (normalized_progress_terms u content)"

definition repeated_assistant_content :: "unicode_tables \<Rightarrow> rstr \<Rightarrow> chat_completion_request \<Rightarrow> bool" where
  "repeated_assistant_content u content request =
     (let normalized = normalized_progress_text u content
      in if normalized = [] then False
         else list_ex (\<lambda>previous. previous = normalized)
                (map (normalized_progress_text u)
                  (List.map_filter cm_content
                    (filter (\<lambda>m. cm_role m = RoleAssistant \<and> cm_tool_calls m = []) (rev (cr_messages request))))))"

definition plain_short_turn_shape :: "rstr \<Rightarrow> bool" where
  "plain_short_turn_shape content =
     (let trimmed = trim content
      in if trimmed = [] \<or> 96 < length trimmed \<or> ends_with (lit ''?'') trimmed then False
         else \<not> list_ex (\<lambda>ch. (48 \<le> ch \<and> ch \<le> 57) \<or>
                  ch \<in> {10, 13, 96, 123, 125, 91, 93, 60, 62, 124, 61, 58, 59}) trimmed)"

definition latest_user_content :: "chat_completion_request \<Rightarrow> rstr option" where
  "latest_user_content request =
     Option.bind (find (\<lambda>m. cm_role m = RoleUser) (rev (cr_messages request))) cm_content"

definition meaningful_progress_term :: "rstr \<Rightarrow> bool" where
  "meaningful_progress_term term \<longleftrightarrow>
     3 \<le> length term \<or> (case term of [] \<Rightarrow> False | ch # _ \<Rightarrow> no_space_progress_char ch)"

definition meaningful_progress_term_count :: "rstr list \<Rightarrow> nat" where
  "meaningful_progress_term_count terms = length (filter meaningful_progress_term terms)"

text \<open>\<open>windows(n)\<close>: the consecutive runs of \<open>n\<close> elements.\<close>

fun windows :: "nat \<Rightarrow> 'a list \<Rightarrow> 'a list list" where
  "windows n [] = []"
| "windows n (x # xs) = (if n \<le> length (x # xs) then take n (x # xs) # windows n xs else [])"

definition english_deferred_action_term :: "rstr \<Rightarrow> bool" where
  "english_deferred_action_term term \<longleftrightarrow>
     term \<in> set [lit ''check'', lit ''checking'', lit ''get'', lit ''handle'', lit ''help'', lit ''investigate'',
       lit ''look'', lit ''proceed'', lit ''start'', lit ''started'', lit ''starting'', lit ''work'', lit ''working'']"

definition has_english_deferred_action_stance :: "rstr list \<Rightarrow> bool" where
  "has_english_deferred_action_stance terms \<longleftrightarrow>
     list_ex (\<lambda>w. w ! 0 = lit ''working'' \<and> w ! 1 = lit ''on'' \<and> w ! 2 \<in> {lit ''it'', lit ''this'', lit ''that''})
       (windows 3 terms) \<or>
     list_ex (\<lambda>w. w ! 0 = lit ''let'' \<and> w ! 1 = lit ''me'') (windows 2 terms) \<and>
       list_ex english_deferred_action_term terms \<or>
     list_ex (\<lambda>t. t \<in> {lit ''i'', lit ''me'', lit ''my''}) terms \<and>
       list_ex (\<lambda>t. t \<in> {lit ''will'', lit ''ll'', lit ''can''}) terms \<and>
       list_ex english_deferred_action_term terms"

definition spanish_deferred_action_term :: "rstr \<Rightarrow> bool" where
  "spanish_deferred_action_term term \<longleftrightarrow>
     term \<in> set [lit ''ayudar'', lit ''comenzar'', lit ''empezar'', lit ''mirar'', lit ''revisar'', lit ''trabajar'', lit ''verificar'']"

definition has_spanish_deferred_action_stance :: "rstr list \<Rightarrow> bool" where
  "has_spanish_deferred_action_stance terms \<longleftrightarrow>
     list_ex (\<lambda>t. t \<in> {lit ''voy'', lit ''puedo''}) terms \<and> list_ex spanish_deferred_action_term terms"

definition cyrillic_first_person_future_action_term :: "rstr \<Rightarrow> bool" where
  "cyrillic_first_person_future_action_term term \<longleftrightarrow>
     term \<in> set
       [[1079, 1072, 1081, 1084, 1091, 1089, 1100], [1085, 1072, 1095, 1085, 1091],
        [1087, 1086, 1084, 1086, 1075, 1091], [1087, 1086, 1089, 1084, 1086, 1090, 1088, 1102],
        [1087, 1088, 1086, 1074, 1077, 1088, 1102], [1089, 1076, 1077, 1083, 1072, 1102]]"

definition cyrillic_deferred_action_term :: "rstr \<Rightarrow> bool" where
  "cyrillic_deferred_action_term term \<longleftrightarrow>
     term \<in> set
       [[1085, 1072, 1095, 1072, 1090, 1100], [1085, 1072, 1095, 1080, 1085, 1072, 1090, 1100],
        [1087, 1086, 1084, 1086, 1075, 1072, 1090, 1100], [1087, 1086, 1084, 1086, 1095, 1100],
        [1087, 1086, 1089, 1084, 1086, 1090, 1088, 1077, 1090, 1100], [1087, 1088, 1086, 1074, 1077, 1088, 1080, 1090, 1100],
        [1087, 1088, 1086, 1074, 1077, 1088, 1103, 1090, 1100], [1088, 1072, 1073, 1086, 1090, 1072, 1090, 1100],
        [1089, 1076, 1077, 1083, 1072, 1090, 1100], [1089, 1084, 1086, 1090, 1088, 1077, 1090, 1100]]"

definition has_cyrillic_deferred_action_stance :: "rstr list \<Rightarrow> bool" where
  "has_cyrillic_deferred_action_stance terms \<longleftrightarrow>
     list_ex cyrillic_first_person_future_action_term terms \<or>
     list_ex (\<lambda>t. t \<in> set
       [[1073, 1091, 1076, 1091], [1073, 1091, 1076, 1077, 1084],
        [1084, 1086, 1075, 1091], [1084, 1086, 1078, 1077, 1084]]) terms \<and>
       list_ex cyrillic_deferred_action_term terms"

definition has_no_space_first_person_future_stance :: "rstr \<Rightarrow> bool" where
  "has_no_space_first_person_future_stance compact =
     list_ex (\<lambda>marker. str_contains marker compact) [[25105, 20250], [25105, 23558], [25105, 35201], [25105, 26469]]"

definition has_no_space_deferred_action :: "rstr \<Rightarrow> bool" where
  "has_no_space_deferred_action compact =
     list_ex (\<lambda>marker. str_contains marker compact)
       [[24320, 22987], [22788, 29702], [26816, 26597], [20462, 22797], [30528, 25163]]"

definition has_no_space_deferred_action_stance :: "unicode_tables \<Rightarrow> rstr \<Rightarrow> bool" where
  "has_no_space_deferred_action_stance u content =
     (let compact = concat (map (to_lowercase u) (filter (is_alphanumeric u) content))
      in has_no_space_first_person_future_stance compact \<and> has_no_space_deferred_action compact)"

definition has_deferred_action_stance :: "unicode_tables \<Rightarrow> rstr list \<Rightarrow> rstr \<Rightarrow> bool" where
  "has_deferred_action_stance u terms content \<longleftrightarrow>
     has_english_deferred_action_stance terms \<or> has_spanish_deferred_action_stance terms \<or>
     has_cyrillic_deferred_action_stance terms \<or> has_no_space_deferred_action_stance u content"

definition stalled_assistant_turn :: "unicode_tables \<Rightarrow> rstr \<Rightarrow> chat_completion_request \<Rightarrow> bool" where
  "stalled_assistant_turn u content request =
     (let terms = normalized_progress_terms u content
      in if terms = [] \<or> 6 < length terms \<or> \<not> plain_short_turn_shape content then False
         else case latest_user_content request of
                None \<Rightarrow> False
              | Some user_content \<Rightarrow>
                  if meaningful_progress_term_count (normalized_progress_terms u user_content) < 3 then False
                  else has_deferred_action_stance u terms content)"

section \<open>The class of an answer\<close>

text \<open>\<open>None\<close> is the panic of the marker search.\<close>

definition classify_chat_no_progress ::
  "unicode_tables \<Rightarrow> rstr \<Rightarrow> parsed_assistant \<Rightarrow> nat \<Rightarrow> bool \<Rightarrow> chat_completion_request \<Rightarrow> tool_markup_policy \<Rightarrow>
   no_progress_class option option" where
  "classify_chat_no_progress u raw_text parsed completion_tokens required_tool_pending request policy =
     (if pa_tool_calls parsed = [] then
        (case (if required_tool_pending then policy_contains_start policy raw_text else Some True) of
           None \<Rightarrow> None
         | Some False \<Rightarrow> Some (Some TextFallbackRequiredTool)
         | Some True \<Rightarrow>
             if trim (pa_content parsed) = [] \<and>
                (case pa_reasoning parsed of None \<Rightarrow> False | Some reasoning \<Rightarrow> trim reasoning \<noteq> []) then
               Some (Some HiddenOnlyOutput)
             else (case classify_no_progress (pa_content parsed) completion_tokens of
                     Some class \<Rightarrow> Some (Some class)
                   | None \<Rightarrow>
                       if repeated_assistant_content u (pa_content parsed) request then
                         Some (Some RepeatedAssistantContent)
                       else if stalled_assistant_turn u (pa_content parsed) request then
                         Some (Some StalledAssistantTurn)
                       else if trim raw_text = [] then Some (classify_no_progress raw_text completion_tokens)
                       else Some None))
      else Some (classify_repeated_invalid_tool_call_no_progress parsed request))"

section \<open>What the classes mean\<close>

text \<open>\<open>exact_repeats\<close> and \<open>fuzzy_repeats\<close>: the earlier failed calls of the same tool with the same arguments,
  and those with other arguments but the same argument names.\<close>

definition failed_same_tool :: "chat_completion_request \<Rightarrow> tool_call \<Rightarrow> tool_call \<Rightarrow> bool" where
  "failed_same_tool request generated previous \<longleftrightarrow>
     tc_id previous \<in> failed_tool_call_ids (cr_messages request) \<and>
     tcf_name (tc_function previous) = tcf_name (tc_function generated)"

definition same_arguments :: "chat_completion_request \<Rightarrow> tool_call \<Rightarrow> tool_call \<Rightarrow> bool" where
  "same_arguments request generated previous \<longleftrightarrow>
     json_eq (normalized_tool_call_arguments previous request) (normalized_tool_call_arguments generated request)"

definition same_shape :: "chat_completion_request \<Rightarrow> tool_call \<Rightarrow> tool_call \<Rightarrow> bool" where
  "same_shape request generated previous \<longleftrightarrow>
     (\<exists>keys. argument_key_set (normalized_tool_call_arguments generated request) = Some keys \<and>
        argument_key_set (normalized_tool_call_arguments previous request) = Some keys)"

definition exact_repeats :: "chat_completion_request \<Rightarrow> tool_call \<Rightarrow> tool_call list" where
  "exact_repeats request generated =
     filter (\<lambda>p. failed_same_tool request generated p \<and> same_arguments request generated p) (assistant_calls request)"

definition fuzzy_repeats :: "chat_completion_request \<Rightarrow> tool_call \<Rightarrow> tool_call list" where
  "fuzzy_repeats request generated =
     filter (\<lambda>p. failed_same_tool request generated p \<and> \<not> same_arguments request generated p \<and>
       same_shape request generated p) (assistant_calls request)"

lemma repeat_counts_filter:
  "repeat_counts request (failed_tool_call_ids (cr_messages request)) (tcf_name (tc_function generated))
     (normalized_tool_call_arguments generated request) calls (e, f) =
   (e + length (filter (\<lambda>p. failed_same_tool request generated p \<and> same_arguments request generated p) calls),
    f + length (filter (\<lambda>p. failed_same_tool request generated p \<and> \<not> same_arguments request generated p \<and>
       same_shape request generated p) calls))"
  by (induction calls arbitrary: e f)
    (auto simp: failed_same_tool_def same_arguments_def same_shape_def Let_def)

lemma classify_generated_call_counts:
  "classify_generated_call request (failed_tool_call_ids (cr_messages request)) generated =
   (if 4 \<le> length (exact_repeats request generated) then Some RepeatedInvalidToolCall
    else if 2 \<le> length (fuzzy_repeats request generated) then Some FuzzyRepeatedInvalidToolCall else None)"
  by (simp add: classify_generated_call_def repeat_counts_filter exact_repeats_def fuzzy_repeats_def
      NO_PROGRESS_EXACT_REPEATED_INVALID_TOOL_CALL_THRESHOLD_def NO_PROGRESS_FUZZY_REPEATED_INVALID_TOOL_CALL_THRESHOLD_def)

lemma first_class_None: "first_class f calls = None \<longleftrightarrow> (\<forall>c \<in> set calls. f c = None)"
  by (induction calls) (auto split: option.splits)

lemma no_failed_no_repeats:
  "failed_tool_call_ids (cr_messages request) = {} \<Longrightarrow> exact_repeats request c = [] \<and> fuzzy_repeats request c = []"
  by (simp add: exact_repeats_def fuzzy_repeats_def failed_same_tool_def)

lemma classify_repeated_None:
  "classify_repeated_invalid_tool_call_no_progress parsed request = None \<longleftrightarrow>
   (\<forall>c \<in> set (pa_tool_calls parsed). length (exact_repeats request c) < 4 \<and> length (fuzzy_repeats request c) < 2)"
proof (cases "failed_tool_call_ids (cr_messages request) = {}")
  case True
  then show ?thesis
    using no_failed_no_repeats by (simp add: classify_repeated_invalid_tool_call_no_progress_def)
next
  case False
  then show ?thesis
    by (auto simp: classify_repeated_invalid_tool_call_no_progress_def first_class_None classify_generated_call_counts Let_def)
qed

text \<open>\<open>makes_progress\<close>: what an answer that gets no class is like.\<close>

definition makes_progress ::
  "unicode_tables \<Rightarrow> rstr \<Rightarrow> parsed_assistant \<Rightarrow> bool \<Rightarrow> chat_completion_request \<Rightarrow> tool_markup_policy \<Rightarrow> bool" where
  "makes_progress u raw parsed pending request policy \<longleftrightarrow>
     (if pa_tool_calls parsed = [] then
        trim (pa_content parsed) \<noteq> [] \<and> trim raw \<noteq> [] \<and>
        \<not> repeated_assistant_content u (pa_content parsed) request \<and>
        \<not> stalled_assistant_turn u (pa_content parsed) request \<and>
        (pending \<longrightarrow> (\<exists>n. hit (start_markers policy) raw n))
      else \<forall>c \<in> set (pa_tool_calls parsed). length (exact_repeats request c) < 4 \<and> length (fuzzy_repeats request c) < 2)"

lemma classify_no_progress_None: "classify_no_progress s n = None \<longleftrightarrow> trim s \<noteq> []"
  by (simp add: classify_no_progress_def)

lemma classify_chat_total: "classify_chat_no_progress u raw parsed n pending request policy \<noteq> None"
  using policy_contains_start_total [of policy raw]
  by (auto simp: classify_chat_no_progress_def split: option.splits bool.splits)

lemma classify_chat_None:
  "classify_chat_no_progress u raw parsed n pending request policy = Some None \<longleftrightarrow>
   makes_progress u raw parsed pending request policy"
proof -
  obtain b where b: "policy_contains_start policy raw = Some b" "b \<longleftrightarrow> (\<exists>n. hit (start_markers policy) raw n)"
    using policy_contains_start_total policy_contains_start_hit by (metis not_None_eq)
  show ?thesis
    by (cases b) (auto simp: classify_chat_no_progress_def makes_progress_def b classify_repeated_None
      classify_no_progress_def split: option.splits if_splits simp flip: b(2))
qed

end
