(* ===== verification/No_Progress_Classes.thy ===== *)
theory No_Progress_Classes
  imports No_Progress "HOL-Library.Sublist"
begin

text \<open>
  Which no-progress class an answer gets (llm-runtime/src/no\_progress.rs), described without the
  classifier: \<open>answer_class\<close> has one rule for each way to get a class, in terms of the conversation and
  of the words of the answer. The classifier gives an answer a class exactly when the description does.
\<close>

section \<open>The description\<close>

text \<open>The classes once more, as a description of the answer that uses none of the classifier's functions: only the
  word tables, the arguments that count for a comparison and the marker search are shared. An earlier
  call failed when a later tool message with its id contains one of the words of failure.\<close>

definition reported_failed :: "chat_completion_request \<Rightarrow> rstr \<Rightarrow> bool" where
  "reported_failed request call_id \<longleftrightarrow>
     (\<exists>m \<in> set (cr_messages request). cm_role m = RoleTool \<and> cm_tool_call_id m = Some call_id \<and>
        (\<exists>text. cm_content m = Some text \<and>
           (\<exists>word \<in> {lit ''error'', lit ''failed'', lit ''failure'', lit ''invalid'', lit ''not found'', lit ''no such file'',
              lit ''denied'', lit ''timeout'', lit ''exception'', lit ''panic'', lit ''missing required argument''}.
              str_contains word (to_ascii_lowercase text))))"

text \<open>\<open>times_repeated\<close> and \<open>times_varied\<close>: the earlier failed calls of the same tool with the same arguments,
  and those with other arguments but the same argument names.\<close>

definition failed_before :: "chat_completion_request \<Rightarrow> tool_call \<Rightarrow> tool_call \<Rightarrow> bool" where
  "failed_before request generated previous \<longleftrightarrow>
     reported_failed request (tc_id previous) \<and>
     tcf_name (tc_function previous) = tcf_name (tc_function generated)"

definition equal_arguments :: "chat_completion_request \<Rightarrow> tool_call \<Rightarrow> tool_call \<Rightarrow> bool" where
  "equal_arguments request generated previous \<longleftrightarrow>
     json_eq (normalized_tool_call_arguments previous request) (normalized_tool_call_arguments generated request)"

definition equal_names :: "chat_completion_request \<Rightarrow> tool_call \<Rightarrow> tool_call \<Rightarrow> bool" where
  "equal_names request generated previous \<longleftrightarrow>
     (\<exists>xs ys. normalized_tool_call_arguments generated request = JObject xs \<and>
        normalized_tool_call_arguments previous request = JObject ys \<and> fst ` set xs = fst ` set ys)"

definition earlier_calls :: "chat_completion_request \<Rightarrow> tool_call list" where
  "earlier_calls request = [c. m \<leftarrow> cr_messages request, cm_role m = RoleAssistant, c \<leftarrow> cm_tool_calls m]"

definition times_repeated :: "chat_completion_request \<Rightarrow> tool_call \<Rightarrow> nat" where
  "times_repeated request generated =
     length [p \<leftarrow> earlier_calls request. failed_before request generated p \<and> equal_arguments request generated p]"

definition times_varied :: "chat_completion_request \<Rightarrow> tool_call \<Rightarrow> nat" where
  "times_varied request generated =
     length [p \<leftarrow> earlier_calls request. failed_before request generated p \<and>
       \<not> equal_arguments request generated p \<and> equal_names request generated p]"

text \<open>The words of a text: a character of a script without spaces is a word, and so is, in lower case, every
  maximal run of other letters and digits.\<close>

definition spaced_letter :: "unicode_tables \<Rightarrow> nat \<Rightarrow> bool" where
  "spaced_letter u ch \<longleftrightarrow> is_alphanumeric u ch \<and> \<not> no_space_progress_char ch"

function words_of :: "unicode_tables \<Rightarrow> rstr \<Rightarrow> rstr list" where
  "words_of u [] = []"
| "words_of u (ch # s) =
     (if no_space_progress_char ch then [ch] # words_of u s
      else if is_alphanumeric u ch then
        (let word = concat (map (to_lowercase u) (takeWhile (spaced_letter u) (ch # s)));
             rest = words_of u (dropWhile (spaced_letter u) s)
         in if word = [] then rest else word # rest)
      else words_of u s)"
  by pat_completeness auto
termination
  by (relation "measure (\<lambda>(u, s). length s)") (auto simp: le_imp_less_Suc length_dropWhile_le)

text \<open>The answer says what an earlier answer without calls said, and that is not nothing.\<close>

definition says_again :: "unicode_tables \<Rightarrow> chat_completion_request \<Rightarrow> rstr \<Rightarrow> bool" where
  "says_again u request content \<longleftrightarrow>
     join_list [32] (words_of u content) \<noteq> [] \<and>
     (\<exists>m \<in> set (cr_messages request). cm_role m = RoleAssistant \<and> cm_tool_calls m = [] \<and>
        (\<exists>earlier. cm_content m = Some earlier \<and>
           join_list [32] (words_of u earlier) = join_list [32] (words_of u content)))"

text \<open>A promise: in English, Spanish, Russian or Chinese, the speaker says of himself that he will act.\<close>

definition promises_action :: "unicode_tables \<Rightarrow> rstr \<Rightarrow> bool" where
  "promises_action u content \<longleftrightarrow>
     (let ws = words_of u content;
          letters = concat [to_lowercase u ch. ch \<leftarrow> content, is_alphanumeric u ch];
          acts = (\<exists>w \<in> set ws. english_deferred_action_term w)
      in (\<exists>it \<in> {lit ''it'', lit ''this'', lit ''that''}. sublist [lit ''working'', lit ''on'', it] ws) \<or>
         sublist [lit ''let'', lit ''me''] ws \<and> acts \<or>
         set ws \<inter> {lit ''i'', lit ''me'', lit ''my''} \<noteq> {} \<and> set ws \<inter> {lit ''will'', lit ''ll'', lit ''can''} \<noteq> {} \<and> acts \<or>
         set ws \<inter> {lit ''voy'', lit ''puedo''} \<noteq> {} \<and> (\<exists>w \<in> set ws. spanish_deferred_action_term w) \<or>
         (\<exists>w \<in> set ws. cyrillic_first_person_future_action_term w) \<or>
         set ws \<inter> {[1073, 1091, 1076, 1091], [1073, 1091, 1076, 1077, 1084],
           [1084, 1086, 1075, 1091], [1084, 1086, 1078, 1077, 1084]} \<noteq> {} \<and>
           (\<exists>w \<in> set ws. cyrillic_deferred_action_term w) \<or>
         (\<exists>w \<in> {[25105, 20250], [25105, 23558], [25105, 35201], [25105, 26469]}. str_contains w letters) \<and>
           (\<exists>w \<in> {[24320, 22987], [22788, 29702], [26816, 26597], [20462, 22797], [30528, 25163]}. str_contains w letters))"

text \<open>The last message of the user, and whether it asks for something: three words of three characters or of a
  script without spaces.\<close>

definition user_asked :: "unicode_tables \<Rightarrow> chat_completion_request \<Rightarrow> bool" where
  "user_asked u request \<longleftrightarrow>
     (\<exists>before m after text. cr_messages request = before @ m # after \<and> cm_role m = RoleUser \<and>
        (\<forall>m' \<in> set after. cm_role m' \<noteq> RoleUser) \<and> cm_content m = Some text \<and>
        3 \<le> length [w \<leftarrow> words_of u text. 3 \<le> length w \<or> (\<exists>ch r. w = ch # r \<and> no_space_progress_char ch)])"

text \<open>A mere promise: at most six words and 96 characters on one line, no question, no digit and no punctuation of
  code or markup, that promise an action the user asked for.\<close>

definition mere_promise :: "unicode_tables \<Rightarrow> chat_completion_request \<Rightarrow> rstr \<Rightarrow> bool" where
  "mere_promise u request content \<longleftrightarrow>
     words_of u content \<noteq> [] \<and> length (words_of u content) \<le> 6 \<and>
     trim content \<noteq> [] \<and> length (trim content) \<le> 96 \<and> last (trim content) \<noteq> 63 \<and>
     set (trim content) \<inter> ({48..57} \<union> {10, 13, 96, 123, 125, 91, 93, 60, 62, 124, 61, 58, 59}) = {} \<and>
     user_asked u request \<and> promises_action u content"

text \<open>The class of an answer, one rule for each way to get it.\<close>

definition new_call :: "chat_completion_request \<Rightarrow> tool_call \<Rightarrow> bool" where
  "new_call request c \<longleftrightarrow> times_repeated request c < 4 \<and> times_varied request c < 2"

definition hidden_text :: "parsed_assistant \<Rightarrow> bool" where
  "hidden_text parsed \<longleftrightarrow> (\<exists>reasoning. pa_reasoning parsed = Some reasoning \<and> trim reasoning \<noteq> [])"

inductive answer_class ::
  "unicode_tables \<Rightarrow> rstr \<Rightarrow> parsed_assistant \<Rightarrow> nat \<Rightarrow> bool \<Rightarrow> chat_completion_request \<Rightarrow> tool_markup_policy \<Rightarrow>
   no_progress_class option \<Rightarrow> bool"
  for u raw parsed tokens pending request policy where
  repeats_call: "pa_tool_calls parsed = before @ c # after \<Longrightarrow> \<forall>c' \<in> set before. new_call request c' \<Longrightarrow>
    4 \<le> times_repeated request c \<Longrightarrow>
    answer_class u raw parsed tokens pending request policy (Some RepeatedInvalidToolCall)"
| varies_call: "pa_tool_calls parsed = before @ c # after \<Longrightarrow> \<forall>c' \<in> set before. new_call request c' \<Longrightarrow>
    times_repeated request c < 4 \<Longrightarrow> 2 \<le> times_varied request c \<Longrightarrow>
    answer_class u raw parsed tokens pending request policy (Some FuzzyRepeatedInvalidToolCall)"
| calls: "pa_tool_calls parsed \<noteq> [] \<Longrightarrow> \<forall>c \<in> set (pa_tool_calls parsed). new_call request c \<Longrightarrow>
    answer_class u raw parsed tokens pending request policy None"
| omits_call: "pa_tool_calls parsed = [] \<Longrightarrow> pending \<Longrightarrow> \<nexists>n. hit (start_markers policy) raw n \<Longrightarrow>
    answer_class u raw parsed tokens pending request policy (Some TextFallbackRequiredTool)"
| hides_text: "pa_tool_calls parsed = [] \<Longrightarrow> pending \<longrightarrow> (\<exists>n. hit (start_markers policy) raw n) \<Longrightarrow>
    trim (pa_content parsed) = [] \<Longrightarrow> hidden_text parsed \<Longrightarrow>
    answer_class u raw parsed tokens pending request policy (Some HiddenOnlyOutput)"
| spends_tokens: "pa_tool_calls parsed = [] \<Longrightarrow> pending \<longrightarrow> (\<exists>n. hit (start_markers policy) raw n) \<Longrightarrow>
    trim (pa_content parsed) = [] \<Longrightarrow> \<not> hidden_text parsed \<Longrightarrow> 1024 \<le> tokens \<Longrightarrow>
    answer_class u raw parsed tokens pending request policy (Some EmptyHighOutputCompletion)"
| says_nothing: "pa_tool_calls parsed = [] \<Longrightarrow> pending \<longrightarrow> (\<exists>n. hit (start_markers policy) raw n) \<Longrightarrow>
    trim (pa_content parsed) = [] \<Longrightarrow> \<not> hidden_text parsed \<Longrightarrow> tokens < 1024 \<Longrightarrow>
    answer_class u raw parsed tokens pending request policy (Some EmptyCompletion)"
| repeats_text: "pa_tool_calls parsed = [] \<Longrightarrow> pending \<longrightarrow> (\<exists>n. hit (start_markers policy) raw n) \<Longrightarrow>
    trim (pa_content parsed) \<noteq> [] \<Longrightarrow> says_again u request (pa_content parsed) \<Longrightarrow>
    answer_class u raw parsed tokens pending request policy (Some RepeatedAssistantContent)"
| promises: "pa_tool_calls parsed = [] \<Longrightarrow> pending \<longrightarrow> (\<exists>n. hit (start_markers policy) raw n) \<Longrightarrow>
    trim (pa_content parsed) \<noteq> [] \<Longrightarrow> \<not> says_again u request (pa_content parsed) \<Longrightarrow>
    mere_promise u request (pa_content parsed) \<Longrightarrow>
    answer_class u raw parsed tokens pending request policy (Some StalledAssistantTurn)"
| blank_raw: "pa_tool_calls parsed = [] \<Longrightarrow> pending \<longrightarrow> (\<exists>n. hit (start_markers policy) raw n) \<Longrightarrow>
    trim (pa_content parsed) \<noteq> [] \<Longrightarrow> \<not> says_again u request (pa_content parsed) \<Longrightarrow>
    \<not> mere_promise u request (pa_content parsed) \<Longrightarrow> trim raw = [] \<Longrightarrow>
    class = (if 1024 \<le> tokens then EmptyHighOutputCompletion else EmptyCompletion) \<Longrightarrow>
    answer_class u raw parsed tokens pending request policy (Some class)"
| answers: "pa_tool_calls parsed = [] \<Longrightarrow> pending \<longrightarrow> (\<exists>n. hit (start_markers policy) raw n) \<Longrightarrow>
    trim (pa_content parsed) \<noteq> [] \<Longrightarrow> \<not> says_again u request (pa_content parsed) \<Longrightarrow>
    \<not> mere_promise u request (pa_content parsed) \<Longrightarrow> trim raw \<noteq> [] \<Longrightarrow>
    answer_class u raw parsed tokens pending request policy None"

inductive_simps answer_class_iff: "answer_class u raw parsed tokens pending request policy class"

section \<open>The classifier agrees with the description\<close>

subsection \<open>Words\<close>

lemma progress_terms_acc:
  "progress_terms_loop u s terms current = terms @ progress_terms_loop u s [] current"
proof (induction s arbitrary: terms current)
  case (Cons ch s)
  show ?case
    by (simp add: Cons.IH [of "terms @ [current, [ch]]" "[]"] Cons.IH [of "[current, [ch]]" "[]"]
        Cons.IH [of "terms @ [[ch]]" "[]"] Cons.IH [of "[[ch]]" "[]"] Cons.IH [of "terms @ [current]" "[]"]
        Cons.IH [of "[current]" "[]"] Cons.IH [of terms])
qed simp

lemma terms_loop_letters:
  "progress_terms_loop u s [] current =
   (let word = current @ concat (map (to_lowercase u) (takeWhile (spaced_letter u) s));
        rest = progress_terms_loop u (dropWhile (spaced_letter u) s) [] []
    in if word = [] then rest else word # rest)"
proof (induction s arbitrary: current)
  case (Cons ch s)
  show ?case
  proof (cases "spaced_letter u ch")
    case True
    then show ?thesis using Cons.IH [of "current @ to_lowercase u ch"] by (simp add: spaced_letter_def)
  next
    case False
    then show ?thesis
      by (auto simp: spaced_letter_def progress_terms_acc [of u s "[current]"] progress_terms_acc [of u s "[current, [ch]]"]
          progress_terms_acc [of u s "[[ch]]"])
  qed
qed simp

lemma normalized_progress_terms_words: "normalized_progress_terms u s = words_of u s"
  unfolding normalized_progress_terms_def
proof (induction u s rule: words_of.induct)
  case (2 u ch s)
  show ?case
  proof (cases "no_space_progress_char ch")
    case True
    with 2(1) show ?thesis by (simp add: progress_terms_acc [of u s "[[ch]]"])
  next
    case False
    show ?thesis
    proof (cases "is_alphanumeric u ch")
      case True
      with False have "spaced_letter u ch" by (simp add: spaced_letter_def)
      with True False 2(2) show ?thesis
        by (simp add: terms_loop_letters [of u s] Let_def)
    next
      case no_letter: False
      with False 2(3) show ?thesis by simp
    qed
  qed
qed simp

subsection \<open>Repeated calls\<close>

lemma set_map_filter_iff: "y \<in> set (List.map_filter f xs) \<longleftrightarrow> (\<exists>x \<in> set xs. f x = Some y)"
  by (induction xs) (auto simp: List.map_filter_simps split: option.splits)

lemma find_split:
  "find P xs = Some x \<longleftrightarrow> (\<exists>before after. xs = before @ x # after \<and> (\<forall>y \<in> set before. \<not> P y) \<and> P x)"
proof
  assume "find P xs = Some x"
  then show "\<exists>before after. xs = before @ x # after \<and> (\<forall>y \<in> set before. \<not> P y) \<and> P x"
  proof (induction xs)
    case (Cons z zs)
    show ?case
    proof (cases "P z")
      case True
      with Cons.prems show ?thesis by (intro exI [of _ "[]"] exI [of _ zs]) simp
    next
      case False
      with Cons obtain before after where "zs = before @ x # after" "\<forall>y \<in> set before. \<not> P y" "P x" by auto
      with False show ?thesis by (intro exI [of _ "z # before"] exI [of _ after]) simp
    qed
  qed simp
next
  assume "\<exists>before after. xs = before @ x # after \<and> (\<forall>y \<in> set before. \<not> P y) \<and> P x"
  then obtain before after where "xs = before @ x # after" "\<forall>y \<in> set before. \<not> P y" "P x" by blast
  then show "find P xs = Some x" by (induction before arbitrary: xs) auto
qed

lemma reported_failed_iff: "reported_failed request call_id \<longleftrightarrow> call_id \<in> failed_tool_call_ids (cr_messages request)"
  by (auto simp: reported_failed_def failed_tool_call_ids_def tool_result_indicates_failure_def Let_def
      set_map_filter_iff split: option.splits)

lemma equal_names_iff: "equal_names request generated previous \<longleftrightarrow> same_shape request generated previous"
  by (auto simp: equal_names_def same_shape_def argument_key_set_def as_object_Some)

lemma earlier_calls_eq: "earlier_calls request = assistant_calls request"
proof -
  have "[c. m \<leftarrow> ms, cm_role m = RoleAssistant, c \<leftarrow> cm_tool_calls m] =
      concat (map cm_tool_calls (filter (\<lambda>m. cm_role m = RoleAssistant) ms))" for ms
    by (induction ms) auto
  then show ?thesis by (simp add: earlier_calls_def assistant_calls_def)
qed

lemma times_repeated_eq: "times_repeated request c = length (exact_repeats request c)"
  by (simp add: times_repeated_def exact_repeats_def earlier_calls_eq failed_before_def failed_same_tool_def
      equal_arguments_def same_arguments_def reported_failed_iff)

lemma times_varied_eq: "times_varied request c = length (fuzzy_repeats request c)"
  by (simp add: times_varied_def fuzzy_repeats_def earlier_calls_eq failed_before_def failed_same_tool_def
      equal_arguments_def same_arguments_def equal_names_iff reported_failed_iff)

lemma call_class:
  "classify_generated_call request (failed_tool_call_ids (cr_messages request)) c =
   (if 4 \<le> times_repeated request c then Some RepeatedInvalidToolCall
    else if 2 \<le> times_varied request c then Some FuzzyRepeatedInvalidToolCall else None)"
  by (simp add: classify_generated_call_counts times_repeated_eq times_varied_eq)

lemma first_class_Some:
  "first_class f calls = Some k \<longleftrightarrow>
   (\<exists>before c after. calls = before @ c # after \<and> (\<forall>c' \<in> set before. f c' = None) \<and> f c = Some k)"
proof -
  have "first_class f calls = Some k \<longleftrightarrow> (\<exists>c. find (\<lambda>c. f c \<noteq> None) calls = Some c \<and> f c = Some k)"
    by (induction calls) (auto split: option.splits)
  then show ?thesis unfolding find_split by (simp only: not_None_eq) (metis option.distinct(1) option.exhaust)
qed

lemma new_call_iff:
  "new_call request c \<longleftrightarrow> classify_generated_call request (failed_tool_call_ids (cr_messages request)) c = None"
  by (auto simp: new_call_def call_class)

lemma no_failures:
  "failed_tool_call_ids (cr_messages request) = {} \<Longrightarrow> times_repeated request c = 0 \<and> times_varied request c = 0"
  using no_failed_no_repeats [of request c] by (simp add: times_repeated_eq times_varied_eq)

lemma repeated_class:
  "classify_repeated_invalid_tool_call_no_progress parsed request =
   first_class (classify_generated_call request (failed_tool_call_ids (cr_messages request))) (pa_tool_calls parsed)"
proof (cases "failed_tool_call_ids (cr_messages request) = {}")
  case True
  have "first_class (classify_generated_call request (failed_tool_call_ids (cr_messages request))) (pa_tool_calls parsed) = None"
    by (simp add: first_class_None call_class conjunct1 [OF no_failures [OF True]] conjunct2 [OF no_failures [OF True]])
  with True show ?thesis by (simp add: classify_repeated_invalid_tool_call_no_progress_def)
qed (simp add: classify_repeated_invalid_tool_call_no_progress_def)

subsection \<open>Repeated and stalled answers\<close>

lemma says_again_iff: "says_again u request content \<longleftrightarrow> repeated_assistant_content u content request"
proof -
  have "repeated_assistant_content u content request \<longleftrightarrow> join_list [32] (words_of u content) \<noteq> [] \<and>
      (\<exists>earlier. (\<exists>m \<in> set (cr_messages request). cm_role m = RoleAssistant \<and> cm_tool_calls m = [] \<and>
         cm_content m = Some earlier) \<and> join_list [32] (words_of u earlier) = join_list [32] (words_of u content))"
    by (auto simp: repeated_assistant_content_def normalized_progress_text_def normalized_progress_terms_words
        list_ex_iff Let_def image_iff Bex_def set_map_filter_iff)
  then show ?thesis unfolding says_again_def by blast
qed

lemma windows_set: "0 < n \<Longrightarrow> w \<in> set (windows n xs) \<longleftrightarrow> length w = n \<and> sublist w xs"
proof (induction xs)
  case (Cons x xs)
  show ?case
  proof (cases "n \<le> length (x # xs)")
    case True
    have "prefix w (x # xs) \<longleftrightarrow> w = take n (x # xs)" if "length w = n"
      using that by (metis append_eq_conv_conj prefixE take_is_prefix)
    with True Cons show ?thesis by (auto simp: sublist_Cons_right)
  next
    case False
    then show ?thesis using sublist_length_le by fastforce
  qed
qed auto

lemma windows2: "(\<exists>w \<in> set (windows 2 ws). w ! 0 = a \<and> w ! 1 = b) \<longleftrightarrow> sublist [a, b] ws"
proof -
  have "length w = 2 \<and> w ! 0 = a \<and> w ! 1 = b \<longleftrightarrow> w = [a, b]" for w :: "'a list"
    by (auto simp: numeral_2_eq_2 length_Suc_conv)
  then show ?thesis by (metis windows_set zero_less_numeral)
qed

lemma windows3: "(\<exists>w \<in> set (windows 3 ws). w ! 0 = a \<and> w ! 1 = b \<and> w ! 2 \<in> C) \<longleftrightarrow> (\<exists>c \<in> C. sublist [a, b, c] ws)"
proof -
  have "length w = 3 \<and> w ! 0 = a \<and> w ! 1 = b \<and> w ! 2 \<in> C \<longleftrightarrow> (\<exists>c \<in> C. w = [a, b, c])" for w :: "'a list"
    by (auto simp: numeral_3_eq_3 numeral_2_eq_2 length_Suc_conv)
  then show ?thesis by (metis windows_set zero_less_numeral)
qed

lemma meets: "set ws \<inter> S \<noteq> {} \<longleftrightarrow> (\<exists>w \<in> set ws. w \<in> S)"
  by blast

lemma promises_action_iff: "promises_action u content \<longleftrightarrow> has_deferred_action_stance u (words_of u content) content"
proof -
  have letters: "concat [to_lowercase u ch. ch \<leftarrow> content, is_alphanumeric u ch] =
      concat (map (to_lowercase u) (filter (is_alphanumeric u) content))"
    by (induction content) auto
  show ?thesis
    unfolding promises_action_def has_deferred_action_stance_def has_english_deferred_action_stance_def windows2 windows3
      has_spanish_deferred_action_stance_def has_cyrillic_deferred_action_stance_def
      has_no_space_deferred_action_stance_def has_no_space_first_person_future_stance_def has_no_space_deferred_action_def
      Let_def letters list_ex_iff
    by (simp only: meets list.set disj_assoc conj_assoc)
qed

lemma find_last:
  "find P (rev xs) = Some x \<longleftrightarrow> (\<exists>before after. xs = before @ x # after \<and> P x \<and> (\<forall>y \<in> set after. \<not> P y))"
proof -
  have "rev xs = before @ x # after \<longleftrightarrow> xs = rev after @ x # rev before" for before after
    by (metis append.assoc append_Cons append_Nil rev_append rev_rev_ident rev_singleton_conv singleton_rev_conv)
  then show ?thesis unfolding find_split by (metis set_rev rev_rev_ident)
qed

lemma user_asked_iff:
  "user_asked u request \<longleftrightarrow> (\<exists>text. latest_user_content request = Some text \<and>
     3 \<le> meaningful_progress_term_count (normalized_progress_terms u text))"
proof -
  have "meaningful_progress_term w \<longleftrightarrow> 3 \<le> length w \<or> (\<exists>ch r. w = ch # r \<and> no_space_progress_char ch)" for w
    by (auto simp: meaningful_progress_term_def split: list.splits)
  then have words: "meaningful_progress_term = (\<lambda>w. 3 \<le> length w \<or> (\<exists>ch r. w = ch # r \<and> no_space_progress_char ch))" ..
  show ?thesis
    unfolding user_asked_def latest_user_content_def meaningful_progress_term_count_def normalized_progress_terms_words
      Option.bind_eq_Some_conv find_last words by blast
qed

lemma plain_short_turn_shape_iff:
  "plain_short_turn_shape content \<longleftrightarrow>
   trim content \<noteq> [] \<and> length (trim content) \<le> 96 \<and> last (trim content) \<noteq> 63 \<and>
   set (trim content) \<inter> ({48..57} \<union> {10, 13, 96, 123, 125, 91, 93, 60, 62, 124, 61, 58, 59}) = {}"
proof -
  define D :: "nat set" where "D = {48..57} \<union> {10, 13, 96, 123, 125, 91, 93, 60, 62, 124, 61, 58, 59}"
  have "s \<noteq> [] \<Longrightarrow> ends_with (lit ''?'') s \<longleftrightarrow> last s = 63" for s
    by (cases s rule: rev_cases) (auto simp: ends_with_def starts_with_def lit_def)
  moreover have "list_ex (\<lambda>ch. (48 \<le> ch \<and> ch \<le> 57) \<or> ch \<in> {10, 13, 96, 123, 125, 91, 93, 60, 62, 124, 61, 58, 59}) s
      \<longleftrightarrow> set s \<inter> D \<noteq> {}" for s
    unfolding list_ex_iff meets D_def Un_iff atLeastAtMost_iff by (rule refl)
  ultimately show ?thesis unfolding plain_short_turn_shape_def Let_def D_def [symmetric] by auto
qed

lemma mere_promise_iff: "mere_promise u request content \<longleftrightarrow> stalled_assistant_turn u content request"
proof -
  have "mere_promise u request content \<longleftrightarrow>
      words_of u content \<noteq> [] \<and> length (words_of u content) \<le> 6 \<and> plain_short_turn_shape content \<and>
      user_asked u request \<and> promises_action u content"
    by (simp only: mere_promise_def plain_short_turn_shape_iff conj_assoc)
  then show ?thesis
    by (auto simp: user_asked_iff promises_action_iff stalled_assistant_turn_def normalized_progress_terms_words Let_def
        not_less not_le split: option.splits)
qed

subsection \<open>The class\<close>

lemma hidden_text_iff:
  "hidden_text parsed \<longleftrightarrow> (case pa_reasoning parsed of None \<Rightarrow> False | Some reasoning \<Rightarrow> trim reasoning \<noteq> [])"
  by (auto simp: hidden_text_def split: option.splits)

lemma class_with_calls:
  assumes "pa_tool_calls parsed \<noteq> []"
  shows "classify_chat_no_progress u raw parsed tokens pending request policy = Some class \<longleftrightarrow>
    answer_class u raw parsed tokens pending request policy class"
proof -
  let ?f = "classify_generated_call request (failed_tool_call_ids (cr_messages request))"
  have code: "classify_chat_no_progress u raw parsed tokens pending request policy = Some (first_class ?f (pa_tool_calls parsed))"
    using assms by (simp add: classify_chat_no_progress_def repeated_class)
  have kinds: "?f c = Some k \<longleftrightarrow> k = RepeatedInvalidToolCall \<and> 4 \<le> times_repeated request c \<or>
      k = FuzzyRepeatedInvalidToolCall \<and> times_repeated request c < 4 \<and> 2 \<le> times_varied request c" for c k
    by (auto simp: call_class)
  show ?thesis
  proof (cases "class")
    case None
    show ?thesis unfolding code option.inject None first_class_None
      using assms by (simp add: answer_class_iff new_call_iff)
  next
    case (Some k)
    show ?thesis unfolding code option.inject Some first_class_Some kinds new_call_iff [symmetric]
      by (cases k) (simp_all add: answer_class_iff assms)
  qed
qed

lemma class_without_calls:
  assumes "pa_tool_calls parsed = []"
  shows "classify_chat_no_progress u raw parsed tokens pending request policy = Some class \<longleftrightarrow>
    answer_class u raw parsed tokens pending request policy class"
proof -
  obtain b where b: "policy_contains_start policy raw = Some b" "b \<longleftrightarrow> (\<exists>n. hit (start_markers policy) raw n)"
    using policy_contains_start_total policy_contains_start_hit by (metis not_None_eq)
  have code: "classify_chat_no_progress u raw parsed tokens pending request policy = Some
     (if pending \<and> \<not> b then Some TextFallbackRequiredTool
      else if trim (pa_content parsed) = [] \<and> hidden_text parsed then Some HiddenOnlyOutput
      else if trim (pa_content parsed) = [] then Some (if 1024 \<le> tokens then EmptyHighOutputCompletion else EmptyCompletion)
      else if says_again u request (pa_content parsed) then Some RepeatedAssistantContent
      else if mere_promise u request (pa_content parsed) then Some StalledAssistantTurn
      else if trim raw = [] then Some (if 1024 \<le> tokens then EmptyHighOutputCompletion else EmptyCompletion)
      else None)"
    using assms b(1)
    by (cases b) (simp_all add: classify_chat_no_progress_def classify_no_progress_def hidden_text_iff says_again_iff mere_promise_iff)
  have none: "(\<forall>n. \<not> hit (start_markers policy) raw n) \<longleftrightarrow> \<not> b" by (simp add: b(2))
  show ?thesis
    unfolding code answer_class_iff none b(2) [symmetric] using assms
    by (cases "trim (pa_content parsed) = []"; cases "pending \<and> \<not> b"; cases "hidden_text parsed";
        cases "says_again u request (pa_content parsed)"; cases "mere_promise u request (pa_content parsed)";
        cases "trim raw = []"; cases "1024 \<le> tokens") auto
qed

text \<open>C20: The classifier gives an answer exactly the class that the description gives it, and never panics. A
  call that has failed four times with the same arguments, or twice with other arguments of the same
  names, is a repeated call; an answer without calls omits a required call, hides its text, is empty
  (with or without many tokens), says what an earlier answer said, or merely promises; the rules say
  which of these comes first. An answer has no class when it makes new calls or says something new.\<close>

theorem no_progress_class_exact:
  "classify_chat_no_progress u raw parsed tokens pending request policy = Some class \<longleftrightarrow>
   answer_class u raw parsed tokens pending request policy class"
  using class_with_calls class_without_calls by (cases "pa_tool_calls parsed = []") blast+

end
