(* ===== verification/Backend_Request.thy ===== *)
theory Backend_Request
  imports Engine_Error Api_Checks Completion_Stream
begin

text \<open>
  What the runtime hands to a backend (llm-backend-contracts/src/lib.rs): the request with its rendered prompt, the
  chat context, the sampling configuration, the capabilities and metadata a backend declares, and the cache
  context whose key is a digest.

  SHA-256 is the argument \<open>sha\<close>, from the bytes to the hexadecimal digest. What is hashed is written out:
  every component is its name and its value with their lengths in front. The lemmas show that these bytes
  determine the components, so two contexts with one key are the same context, or the digest collides.
\<close>

section \<open>Bytes\<close>

definition utf8_char :: "nat \<Rightarrow> nat list" where
  "utf8_char c =
     (if c < 128 then [c]
      else if c < 2048 then [192 + c div 64, 128 + c mod 64]
      else if c < 65536 then [224 + c div 4096, 128 + c div 64 mod 64, 128 + c mod 64]
      else [240 + c div 262144, 128 + c div 4096 mod 64, 128 + c div 64 mod 64, 128 + c mod 64])"

definition as_bytes :: "rstr \<Rightarrow> nat list" where
  "as_bytes s = concat (map utf8_char s)"

definition u64_le_bytes :: "nat \<Rightarrow> nat list" where
  "u64_le_bytes n = map (\<lambda>i. n div 256 ^ i mod 256) [0..<8]"

section \<open>Requests\<close>

datatype sampling_config = Greedy | TopP f32 f32

datatype backend_tool_choice = RequiredAny | RequiredFunction rstr

datatype backend_chat_role = BackendSystem | BackendUser | BackendAssistant | BackendTool

record backend_tool_call_function =
  bcf_name :: rstr
  bcf_arguments :: json

record backend_tool_call =
  btc_id :: rstr
  btc_call_type :: backend_tool_call_type
  btc_function :: backend_tool_call_function

record backend_chat_message =
  bcm_role :: backend_chat_role
  bcm_content :: "rstr option"
  bcm_name :: "rstr option"
  bcm_tool_call_id :: "rstr option"
  bcm_tool_calls :: "backend_tool_call list"

datatype backend_tool_type = BackendFunctionTool

record backend_tool_function_definition =
  bfn_name :: rstr
  bfn_description :: "rstr option"
  bfn_parameters :: json

record backend_tool_definition =
  btl_tool_type :: backend_tool_type
  btl_function :: backend_tool_function_definition

definition backend_tool_definition_function :: "rstr \<Rightarrow> rstr \<Rightarrow> json \<Rightarrow> backend_tool_definition" where
  "backend_tool_definition_function name description parameters =
     \<lparr>btl_tool_type = BackendFunctionTool,
      btl_function = \<lparr>bfn_name = name, bfn_description = Some description, bfn_parameters = parameters\<rparr>\<rparr>"

record backend_chat_context =
  bcc_messages :: "backend_chat_message list"
  bcc_tools :: "backend_tool_definition list"

record backend_cache_context =
  bca_key :: rstr
  bca_cache_template_id :: rstr
  bca_tool_schema :: "rstr option"
  bca_chat_template_kwargs :: "rstr option"

record backend_completion_request =
  bcr_prompt :: rstr
  bcr_cache_context :: backend_cache_context

record backend_chat_request =
  bch_prompt :: rstr
  bch_chat_context :: backend_chat_context
  bch_required_tool_choice :: "backend_tool_choice option"
  bch_json_object_mode :: bool
  bch_cache_context :: backend_cache_context

datatype backend_request_kind = RawCompletion backend_completion_request | Chat backend_chat_request

text \<open>The admission hook of a request is an opaque shared object, here its address.\<close>

record backend_request =
  br_model :: rstr
  br_max_tokens :: "nat option"
  br_sampling :: sampling_config
  br_kind :: backend_request_kind
  br_prefill_chunk_admission :: "nat option"

fun request_prompt :: "backend_request_kind \<Rightarrow> rstr" where
  "request_prompt (RawCompletion r) = bcr_prompt r"
| "request_prompt (Chat r) = bch_prompt r"

fun request_cache_context :: "backend_request_kind \<Rightarrow> backend_cache_context" where
  "request_cache_context (RawCompletion r) = bcr_cache_context r"
| "request_cache_context (Chat r) = bch_cache_context r"

fun as_raw_completion :: "backend_request_kind \<Rightarrow> backend_completion_request option" where
  "as_raw_completion (RawCompletion r) = Some r"
| "as_raw_completion (Chat _) = None"

fun as_chat :: "backend_request_kind \<Rightarrow> backend_chat_request option" where
  "as_chat (RawCompletion _) = None"
| "as_chat (Chat r) = Some r"

definition with_prefill_chunk_admission :: "nat \<Rightarrow> backend_request \<Rightarrow> backend_request" where
  "with_prefill_chunk_admission admission r = r\<lparr>br_prefill_chunk_admission := Some admission\<rparr>"

definition sampling_standard :: sampling_config where
  "sampling_standard = TopP DEFAULT_TEMPERATURE DEFAULT_TOP_P"

definition from_openai_controls :: "f32 option \<Rightarrow> f32 option \<Rightarrow> (backend_error, sampling_config) outcome" where
  "from_openai_controls temperature top_p =
     (case util_validate_sampling_controls temperature top_p of
        Err err \<Rightarrow> Err (BeInvalidSamplingConfig (sampling_error_message err))
      | Panic \<Rightarrow> Panic
      | Ok _ \<Rightarrow>
          Ok (if (case temperature of Some t \<Rightarrow> f32_eq t GREEDY_TEMPERATURE | None \<Rightarrow> False) then Greedy
              else if temperature = None \<and> top_p = None then sampling_standard
              else TopP (case temperature of Some t \<Rightarrow> t | None \<Rightarrow> DEFAULT_TEMPERATURE)
                     (case top_p of Some p \<Rightarrow> p | None \<Rightarrow> DEFAULT_TOP_P)))"

fun is_greedy :: "sampling_config \<Rightarrow> bool" where
  "is_greedy Greedy = True"
| "is_greedy (TopP _ _) = False"

text \<open>The derived equality of configurations compares floats.\<close>

fun is_standard :: "sampling_config \<Rightarrow> bool" where
  "is_standard Greedy = False"
| "is_standard (TopP t p) = (f32_eq t DEFAULT_TEMPERATURE \<and> f32_eq p DEFAULT_TOP_P)"

section \<open>Cache contexts\<close>

definition update_cache_key_component :: "rstr \<Rightarrow> rstr option \<Rightarrow> nat list" where
  "update_cache_key_component name value' =
     u64_le_bytes (str_len name) @ as_bytes name @
     (case value' of
        Some v \<Rightarrow> [1] @ u64_le_bytes (str_len v) @ as_bytes v
      | None \<Rightarrow> [0])"

definition identity_bytes :: "rstr \<Rightarrow> rstr option \<Rightarrow> rstr option \<Rightarrow> nat list" where
  "identity_bytes prompt_template tool_schema chat_template_kwargs =
     update_cache_key_component (lit ''cache-context-version'') (Some (lit ''backend-cache-context/v1'')) @
     update_cache_key_component (lit ''prompt-template'') (Some prompt_template) @
     update_cache_key_component (lit ''tool-schema'') tool_schema @
     update_cache_key_component (lit ''chat-template-kwargs'') chat_template_kwargs"

definition from_identity :: "(nat list \<Rightarrow> rstr) \<Rightarrow> rstr \<Rightarrow> rstr option \<Rightarrow> rstr option \<Rightarrow> rstr" where
  "from_identity sha prompt_template tool_schema chat_template_kwargs =
     fmt [lit ''sha256:'', sha (identity_bytes prompt_template tool_schema chat_template_kwargs)]"

definition raw_prompt :: "(nat list \<Rightarrow> rstr) \<Rightarrow> backend_cache_context" where
  "raw_prompt sha =
     (let prompt_template = lit ''raw-prompt/v1''
      in \<lparr>bca_key = from_identity sha prompt_template None None, bca_cache_template_id = prompt_template,
          bca_tool_schema = None, bca_chat_template_kwargs = None\<rparr>)"

definition chat_template_with_kwargs ::
  "(nat list \<Rightarrow> rstr) \<Rightarrow> rstr \<Rightarrow> rstr option \<Rightarrow> rstr option \<Rightarrow> backend_cache_context" where
  "chat_template_with_kwargs sha template_id tool_schema chat_template_kwargs =
     \<lparr>bca_key = from_identity sha template_id tool_schema chat_template_kwargs,
      bca_cache_template_id = template_id, bca_tool_schema = tool_schema,
      bca_chat_template_kwargs = chat_template_kwargs\<rparr>"

definition chat_template_context :: "(nat list \<Rightarrow> rstr) \<Rightarrow> rstr \<Rightarrow> rstr option \<Rightarrow> backend_cache_context" where
  "chat_template_context sha template_id tool_schema = chat_template_with_kwargs sha template_id tool_schema None"

definition raw_completion_with_cache_context ::
  "rstr \<Rightarrow> rstr \<Rightarrow> nat option \<Rightarrow> sampling_config \<Rightarrow> backend_cache_context \<Rightarrow> backend_request" where
  "raw_completion_with_cache_context model prompt max_tokens sampling cache_context =
     \<lparr>br_model = model, br_max_tokens = max_tokens, br_sampling = sampling,
      br_kind = RawCompletion \<lparr>bcr_prompt = prompt, bcr_cache_context = cache_context\<rparr>,
      br_prefill_chunk_admission = None\<rparr>"

definition raw_completion :: "(nat list \<Rightarrow> rstr) \<Rightarrow> rstr \<Rightarrow> rstr \<Rightarrow> nat option \<Rightarrow> sampling_config \<Rightarrow> backend_request" where
  "raw_completion sha model prompt max_tokens sampling =
     raw_completion_with_cache_context model prompt max_tokens sampling (raw_prompt sha)"

definition chat_completion ::
  "rstr \<Rightarrow> rstr \<Rightarrow> backend_chat_context \<Rightarrow> nat option \<Rightarrow> sampling_config \<Rightarrow> backend_tool_choice option \<Rightarrow> bool \<Rightarrow>
   backend_cache_context \<Rightarrow> backend_request" where
  "chat_completion model prompt chat_context max_tokens sampling required_tool_choice json_object_mode cache_context =
     \<lparr>br_model = model, br_max_tokens = max_tokens, br_sampling = sampling,
      br_kind = Chat \<lparr>bch_prompt = prompt, bch_chat_context = chat_context,
        bch_required_tool_choice = required_tool_choice, bch_json_object_mode = json_object_mode,
        bch_cache_context = cache_context\<rparr>,
      br_prefill_chunk_admission = None\<rparr>"

section \<open>Capabilities, metadata and health\<close>

record backend_capabilities =
  cap_raw_completions :: bool
  cap_chat_completions :: bool
  cap_streaming :: bool
  cap_tool_calls :: bool
  cap_json_object_mode :: bool
  cap_sampling_greedy :: bool
  cap_sampling_top_p :: bool

definition capabilities_all :: backend_capabilities where
  "capabilities_all =
     \<lparr>cap_raw_completions = True, cap_chat_completions = True, cap_streaming = True, cap_tool_calls = True,
      cap_json_object_mode = True, cap_sampling_greedy = True, cap_sampling_top_p = True\<rparr>"

record backend_model_metadata =
  bm_id :: rstr
  bm_backend :: rstr
  bm_family :: "rstr option"
  bm_quantization :: "rstr option"
  bm_repo_id :: "rstr option"
  bm_resolved_commit :: "rstr option"
  bm_profile :: "rstr option"

definition model_metadata_new :: "rstr \<Rightarrow> rstr \<Rightarrow> backend_model_metadata" where
  "model_metadata_new model_id backend =
     \<lparr>bm_id = model_id, bm_backend = backend, bm_family = None, bm_quantization = None, bm_repo_id = None,
      bm_resolved_commit = None, bm_profile = None\<rparr>"

definition with_family :: "rstr \<Rightarrow> backend_model_metadata \<Rightarrow> backend_model_metadata" where
  "with_family family m = m\<lparr>bm_family := Some family\<rparr>"

datatype backend_health_status = HealthReady | HealthUnavailable

fun health_status_as_str :: "backend_health_status \<Rightarrow> rstr" where
  "health_status_as_str HealthReady = lit ''ready''"
| "health_status_as_str HealthUnavailable = lit ''unavailable''"

record backend_health =
  bh_status :: backend_health_status
  bh_reason :: "rstr option"

definition health_ready :: backend_health where
  "health_ready = \<lparr>bh_status = HealthReady, bh_reason = None\<rparr>"

definition health_unavailable :: "rstr \<Rightarrow> backend_health" where
  "health_unavailable reason = \<lparr>bh_status = HealthUnavailable, bh_reason = Some reason\<rparr>"

definition health_is_ready :: "backend_health \<Rightarrow> bool" where
  "health_is_ready h \<longleftrightarrow> bh_status h = HealthReady"

section \<open>Hashed bytes determine their components\<close>

text \<open>A Rust string: Unicode scalar values, fewer than \<open>2\<^sup>6\<^sup>4\<close> bytes.\<close>

definition valid_str :: "rstr \<Rightarrow> bool" where
  "valid_str s \<longleftrightarrow> (\<forall>c \<in> set s. c < 1114112) \<and> str_len s < 2 ^ 64"

lemma utf8_char_length: "length (utf8_char c) = len_utf8 c"
  by (simp add: utf8_char_def len_utf8_def)

lemma as_bytes_length: "length (as_bytes s) = str_len s"
  by (induction s) (simp_all add: as_bytes_def utf8_char_length)

lemma div_mod_eq_iff: "(m :: nat) div k = n div k \<Longrightarrow> m mod k = n mod k \<Longrightarrow> m = n"
  by (metis div_mult_mod_eq)

lemma utf8_char_cancel:
  assumes "utf8_char c @ s = utf8_char d @ t" and "c < 1114112" and "d < 1114112"
  shows "c = d \<and> s = t"
proof -
  have head: "hd (utf8_char c) = hd (utf8_char d)"
    using assms(1) by (metis append_is_Nil_conv hd_append2 len_utf8_pos length_greater_0_conv utf8_char_length)
  have len: "len_utf8 c = len_utf8 d"
    using head assms(2,3) by (auto simp: utf8_char_def len_utf8_def split: if_splits)
  with assms(1) have eq: "utf8_char c = utf8_char d" "s = t" by (simp_all add: utf8_char_length append_eq_append_conv)
  have "c = d"
  proof -
    have c: "c div 4096 div 64 = c div 262144" "c div 64 div 64 = c div 4096" "d div 4096 div 64 = d div 262144"
      "d div 64 div 64 = d div 4096" by (simp_all flip: div_mult2_eq)
    show ?thesis
      using eq(1) len c by (auto simp: utf8_char_def len_utf8_def split: if_splits) (metis div_mod_eq_iff)+
  qed
  with eq(2) show ?thesis by simp
qed

lemma as_bytes_inj: "as_bytes s = as_bytes t \<Longrightarrow> valid_str s \<Longrightarrow> valid_str t \<Longrightarrow> s = t"
proof (induction s arbitrary: t)
  case Nil
  then have "length (as_bytes t) = 0" by (simp add: as_bytes_def)
  then show ?case using length_le_str_len [of t] by (simp add: as_bytes_length)
next
  case (Cons c s)
  have "0 < length (as_bytes t)" using Cons.prems(1) by (metis as_bytes_length len_utf8_pos str_len_simps(2) add_gr_0)
  then obtain d t' where t: "t = d # t'" by (cases t) (auto simp: as_bytes_def)
  have "utf8_char c @ as_bytes s = utf8_char d @ as_bytes t'" using Cons.prems(1) t by (simp add: as_bytes_def)
  then have "c = d \<and> as_bytes s = as_bytes t'" by (rule utf8_char_cancel) (use Cons.prems t in \<open>simp_all add: valid_str_def\<close>)
  moreover have "valid_str s" "valid_str t'" using Cons.prems t by (auto simp: valid_str_def)
  ultimately show ?case using Cons.IH t by blast
qed

lemma u64_le_bytes_inj:
  assumes "u64_le_bytes m = u64_le_bytes n" and "m < 2 ^ 64" and "n < 2 ^ 64"
  shows "m = n"
proof -
  have digit: "m div 256 ^ i mod 256 = n div 256 ^ i mod 256" if "i < 8" for i
    using assms(1) that by (simp add: u64_le_bytes_def)
  have "k \<le> 8 \<Longrightarrow> m div 256 ^ (8 - k) = n div 256 ^ (8 - k)" for k
  proof (induction k)
    case 0
    then show ?case using assms(2,3) by simp
  next
    case (Suc k)
    let ?i = "8 - Suc k"
    have e: "8 - k = Suc ?i" using Suc.prems by simp
    have "x div 256 ^ ?i div 256 = x div 256 ^ (8 - k)" for x :: nat
      unfolding e by (simp add: mult.commute flip: div_mult2_eq)
    then show ?case using Suc digit [of ?i] by (intro div_mod_eq_iff [of "m div 256 ^ ?i" 256]) simp_all
  qed
  from this [of 8] show ?thesis by simp
qed

lemma u64_le_bytes_length [simp]: "length (u64_le_bytes n) = 8"
  by (simp add: u64_le_bytes_def)

lemma component_cancel:
  assumes "update_cache_key_component name v @ s = update_cache_key_component name w @ t"
    and "\<And>x. v = Some x \<Longrightarrow> valid_str x" and "\<And>x. w = Some x \<Longrightarrow> valid_str x"
  shows "v = w \<and> s = t"
proof (cases v)
  case None
  with assms(1) show ?thesis by (cases w) (simp_all add: update_cache_key_component_def)
next
  case v: (Some a)
  with assms(1) obtain b where w: "w = Some b" by (cases w) (simp_all add: update_cache_key_component_def)
  have split: "u64_le_bytes (str_len a) @ as_bytes a @ s = u64_le_bytes (str_len b) @ as_bytes b @ t"
    using assms(1) v w by (simp add: update_cache_key_component_def)
  then have "u64_le_bytes (str_len a) = u64_le_bytes (str_len b)" by (simp add: append_eq_append_conv)
  then have len: "str_len a = str_len b"
    by (rule u64_le_bytes_inj) (use assms(2,3) v w in \<open>simp_all add: valid_str_def\<close>)
  with split have "as_bytes a = as_bytes b \<and> s = t" by (simp add: append_eq_append_conv as_bytes_length)
  with assms(2,3) v w as_bytes_inj show ?thesis by blast
qed

text \<open>A list of named components, as the hashers are fed.\<close>

definition components_bytes :: "(rstr \<times> rstr option) list \<Rightarrow> nat list" where
  "components_bytes cs = concat (map (\<lambda>(name, v). update_cache_key_component name v) cs)"

lemma components_bytes_inj:
  assumes "components_bytes cs @ s = components_bytes ds @ t" and "map fst cs = map fst ds"
    and "\<And>name x. (name, Some x) \<in> set cs \<union> set ds \<Longrightarrow> valid_str x"
  shows "cs = ds \<and> s = t"
  using assms
proof (induction cs arbitrary: ds)
  case (Cons c cs)
  obtain d ds' where ds: "ds = d # ds'" using Cons.prems(2) by (cases ds) auto
  obtain name v w where cd: "c = (name, v)" "d = (name, w)" using Cons.prems(2) ds by (cases c; cases d) auto
  have "update_cache_key_component name v @ components_bytes cs @ s =
      update_cache_key_component name w @ components_bytes ds' @ t"
    using Cons.prems(1) ds cd by (simp add: components_bytes_def)
  then have "v = w \<and> components_bytes cs @ s = components_bytes ds' @ t"
    by (rule component_cancel) (use Cons.prems(3) ds cd in auto)
  with Cons.IH [of ds'] Cons.prems ds cd show ?case by auto
qed (simp add: components_bytes_def)

lemma identity_bytes_components:
  "identity_bytes template schema kwargs = components_bytes
     [(lit ''cache-context-version'', Some (lit ''backend-cache-context/v1'')), (lit ''prompt-template'', Some template),
      (lit ''tool-schema'', schema), (lit ''chat-template-kwargs'', kwargs)]"
  by (simp add: identity_bytes_def components_bytes_def)

lemma str_len_le: "str_len s \<le> 4 * length s"
  by (induction s) (auto simp: len_utf8_def)

lemma valid_str_lit:
  assumes "length s < 1000"
  shows "valid_str (lit s)"
proof -
  have "(of_char c :: nat) < 1114112" for c using nat_of_char_less_256 [of c] by linarith
  with str_len_le [of "lit s"] assms show ?thesis by (auto simp: valid_str_def lit_def)
qed

definition valid_opt :: "rstr option \<Rightarrow> bool" where
  "valid_opt v \<longleftrightarrow> (\<forall>s. v = Some s \<longrightarrow> valid_str s)"

text \<open>SHA-256 is not injective, so what is assumed of it is that the two byte strings at hand do not collide.\<close>

lemma from_identity_inj:
  assumes "from_identity sha t s k = from_identity sha t' s' k'"
    and "inj_on sha {identity_bytes t s k, identity_bytes t' s' k'}"
    and "valid_str t" "valid_opt s" "valid_opt k" "valid_str t'" "valid_opt s'" "valid_opt k'"
  shows "t = t' \<and> s = s' \<and> k = k'"
proof -
  have "sha (identity_bytes t s k) = sha (identity_bytes t' s' k')" using assms(1) by (simp add: from_identity_def fmt_def)
  then have "identity_bytes t s k = identity_bytes t' s' k'" by (rule inj_onD [OF assms(2)]) simp_all
  note eq = this [unfolded identity_bytes_components]
  have "[(lit ''cache-context-version'', Some (lit ''backend-cache-context/v1'')), (lit ''prompt-template'', Some t),
      (lit ''tool-schema'', s), (lit ''chat-template-kwargs'', k)] =
    [(lit ''cache-context-version'', Some (lit ''backend-cache-context/v1'')), (lit ''prompt-template'', Some t'),
      (lit ''tool-schema'', s'), (lit ''chat-template-kwargs'', k')] \<and> ([] :: nat list) = []"
    by (rule components_bytes_inj)
      (use eq assms(3-) valid_str_lit [of "''backend-cache-context/v1''"] in \<open>auto simp: valid_opt_def\<close>)
  then show ?thesis by simp
qed

text \<open>Two prompt contexts share a cache key only if they are the same context: equal keys mean an equal template
  identifier, tool schema and template arguments, provided the two hashed byte strings do not collide.\<close>

theorem cache_key_identifies_context:
  assumes "bca_key (chat_template_with_kwargs sha t s k) = bca_key (chat_template_with_kwargs sha t' s' k')"
    and "inj_on sha {identity_bytes t s k, identity_bytes t' s' k'}"
    and "valid_str t" "valid_opt s" "valid_opt k" "valid_str t'" "valid_opt s'" "valid_opt k'"
  shows "chat_template_with_kwargs sha t s k = chat_template_with_kwargs sha t' s' k'"
  using from_identity_inj [of sha t s k t' s' k'] assms by (auto simp: chat_template_with_kwargs_def)

theorem cache_key_identifies_context_witness:
  "bca_key (chat_template_with_kwargs (\<lambda>b. b) (lit ''qwen'') None None) \<noteq>
   bca_key (chat_template_with_kwargs (\<lambda>b. b) (lit ''qwen'') None (Some (lit ''{}'')))"
proof
  assume eq: "bca_key (chat_template_with_kwargs (\<lambda>b. b) (lit ''qwen'') None None) =
   bca_key (chat_template_with_kwargs (\<lambda>b. b) (lit ''qwen'') None (Some (lit ''{}'')))"
  have "valid_str (lit ''qwen'')" "valid_str (lit ''{}'')" by (rule valid_str_lit, simp)+
  then have "chat_template_with_kwargs (\<lambda>b. b) (lit ''qwen'') None None =
    chat_template_with_kwargs (\<lambda>b. b) (lit ''qwen'') None (Some (lit ''{}''))"
    by (intro cache_key_identifies_context [OF eq]) (simp_all add: valid_opt_def)
  then show False by (simp add: chat_template_with_kwargs_def)
qed

end
