(* ===== verification/Model_Family.thy ===== *)
theory Model_Family
  imports Tool_Dispatch
begin

text \<open>
  Model families and backend kinds (llm-models/src/family.rs): their slugs, and the static metadata of each family
  (the backends promoted for it, the identifier of its prompt template, its template arguments, tensor
  namespace, capability flags and release stage). The trait object of a family is a record.
\<close>

section \<open>Slugs\<close>

definition family_parse_slug :: "rstr \<Rightarrow> (rstr, model_family) outcome" where
  "family_parse_slug value' =
     (if value' = lit ''qwen'' then Ok FamQwen
      else if value' = lit ''deep_seek'' \<or> value' = lit ''deepseek'' then Ok FamDeepSeek
      else if value' = lit ''gemma'' then Ok FamGemma
      else if value' = lit ''llama'' then Ok FamLlama
      else Err value')"

definition family_parse_error_text :: "rstr \<Rightarrow> rstr" where
  "family_parse_error_text value' =
     fmt [lit ''unsupported model family `'', value', lit ''`; expected `qwen`, `deep_seek`, `gemma`, or `llama`'']"

fun family_canonical_slug :: "model_family \<Rightarrow> rstr" where
  "family_canonical_slug FamQwen = lit ''qwen''"
| "family_canonical_slug FamDeepSeek = lit ''deep_seek''"
| "family_canonical_slug FamGemma = lit ''gemma''"
| "family_canonical_slug FamLlama = lit ''llama''"

fun family_display_name :: "model_family \<Rightarrow> rstr" where
  "family_display_name FamQwen = lit ''Qwen''"
| "family_display_name FamDeepSeek = lit ''DeepSeek''"
| "family_display_name FamGemma = lit ''Gemma''"
| "family_display_name FamLlama = lit ''Llama''"

datatype backend_kind = NativeMetal | Mlx

definition backend_parse_slug :: "rstr \<Rightarrow> (rstr, backend_kind) outcome" where
  "backend_parse_slug value' =
     (if value' = lit ''native-metal'' \<or> value' = lit ''native_metal'' then Ok NativeMetal
      else if value' = lit ''mlx'' then Ok Mlx
      else Err value')"

definition backend_kind_parse_error_text :: "rstr \<Rightarrow> rstr" where
  "backend_kind_parse_error_text value' =
     fmt [lit ''unsupported backend loader `'', value', lit ''`; expected `native-metal` or `mlx`'']"

fun backend_canonical_slug :: "backend_kind \<Rightarrow> rstr" where
  "backend_canonical_slug NativeMetal = lit ''native-metal''"
| "backend_canonical_slug Mlx = lit ''mlx''"

section \<open>Adapters\<close>

datatype promotion_stage = Production

record family_capability_flags =
  fc_text :: bool
  fc_reasoning :: bool
  fc_tool_calls :: bool
  fc_dsml_tools :: bool
  fc_raw_completion :: bool
  fc_reasoning_channels :: bool
  fc_multimodal_artifacts :: bool
  fc_backend_execution :: bool

record model_family_adapter =
  fa_family :: model_family
  fa_production_backends :: "backend_kind list"
  fa_cache_template_id :: rstr
  fa_chat_template_kwargs_json :: "rstr option"
  fa_tensor_namespace :: rstr
  fa_capabilities :: family_capability_flags
  fa_promotion_stage :: promotion_stage

definition enable_thinking_false :: rstr where
  "enable_thinking_false = fmt [lit ''{'', [34], lit ''enable_thinking'', [34], lit '':false}'']"

definition QWEN_FAMILY_ADAPTER :: model_family_adapter where
  "QWEN_FAMILY_ADAPTER =
     \<lparr>fa_family = FamQwen, fa_production_backends = [NativeMetal, Mlx],
      fa_cache_template_id = lit ''chatml/qwen/v1'', fa_chat_template_kwargs_json = Some enable_thinking_false,
      fa_tensor_namespace = lit ''qwen'',
      fa_capabilities =
        \<lparr>fc_text = True, fc_reasoning = True, fc_tool_calls = True, fc_dsml_tools = False, fc_raw_completion = True,
         fc_reasoning_channels = False, fc_multimodal_artifacts = False, fc_backend_execution = True\<rparr>,
      fa_promotion_stage = Production\<rparr>"

definition DEEPSEEK_FAMILY_ADAPTER :: model_family_adapter where
  "DEEPSEEK_FAMILY_ADAPTER =
     \<lparr>fa_family = FamDeepSeek, fa_production_backends = [Mlx],
      fa_cache_template_id = lit ''deepseek/chat/v1'', fa_chat_template_kwargs_json = None,
      fa_tensor_namespace = lit ''deepseek'',
      fa_capabilities =
        \<lparr>fc_text = True, fc_reasoning = True, fc_tool_calls = True, fc_dsml_tools = True, fc_raw_completion = True,
         fc_reasoning_channels = False, fc_multimodal_artifacts = False, fc_backend_execution = False\<rparr>,
      fa_promotion_stage = Production\<rparr>"

definition GEMMA_FAMILY_ADAPTER :: model_family_adapter where
  "GEMMA_FAMILY_ADAPTER =
     \<lparr>fa_family = FamGemma, fa_production_backends = [NativeMetal, Mlx],
      fa_cache_template_id = lit ''gemma/text-it/v1'', fa_chat_template_kwargs_json = Some enable_thinking_false,
      fa_tensor_namespace = lit ''gemma4_text'',
      fa_capabilities =
        \<lparr>fc_text = True, fc_reasoning = True, fc_tool_calls = True, fc_dsml_tools = False, fc_raw_completion = True,
         fc_reasoning_channels = True, fc_multimodal_artifacts = False, fc_backend_execution = True\<rparr>,
      fa_promotion_stage = Production\<rparr>"

definition LLAMA_FAMILY_ADAPTER :: model_family_adapter where
  "LLAMA_FAMILY_ADAPTER =
     \<lparr>fa_family = FamLlama, fa_production_backends = [Mlx],
      fa_cache_template_id = lit ''llama3/instruct/v1'', fa_chat_template_kwargs_json = None,
      fa_tensor_namespace = lit ''llama'',
      fa_capabilities =
        \<lparr>fc_text = True, fc_reasoning = False, fc_tool_calls = True, fc_dsml_tools = False, fc_raw_completion = True,
         fc_reasoning_channels = False, fc_multimodal_artifacts = False, fc_backend_execution = False\<rparr>,
      fa_promotion_stage = Production\<rparr>"

fun family_adapter :: "model_family \<Rightarrow> model_family_adapter" where
  "family_adapter FamQwen = QWEN_FAMILY_ADAPTER"
| "family_adapter FamDeepSeek = DEEPSEEK_FAMILY_ADAPTER"
| "family_adapter FamGemma = GEMMA_FAMILY_ADAPTER"
| "family_adapter FamLlama = LLAMA_FAMILY_ADAPTER"

definition supports_backend :: "model_family \<Rightarrow> backend_kind \<Rightarrow> bool" where
  "supports_backend family backend \<longleftrightarrow> List.member (fa_production_backends (family_adapter family)) backend"

section \<open>Lemmas\<close>

lemmas family_adapters = QWEN_FAMILY_ADAPTER_def DEEPSEEK_FAMILY_ADAPTER_def GEMMA_FAMILY_ADAPTER_def
  LLAMA_FAMILY_ADAPTER_def

lemma family_slug_roundtrip: "family_parse_slug (family_canonical_slug family) = Ok family"
  by (cases family) (simp_all add: family_parse_slug_def lit_def)

lemma backend_slug_roundtrip: "backend_parse_slug (backend_canonical_slug kind) = Ok kind"
  by (cases kind) (simp_all add: backend_parse_slug_def lit_def)

lemma adapter_family [simp]: "fa_family (family_adapter family) = family"
  by (cases family) (simp_all add: family_adapters)

text \<open>Families have distinct template identifiers and tensor namespaces, and a family has native execution
  exactly when the native backend is promoted for it.\<close>

lemma cache_template_id_inj:
  "fa_cache_template_id (family_adapter f) = fa_cache_template_id (family_adapter g) \<longleftrightarrow> f = g"
  by (cases f; cases g) (simp_all add: family_adapters lit_def)

lemma tensor_namespace_inj:
  "fa_tensor_namespace (family_adapter f) = fa_tensor_namespace (family_adapter g) \<longleftrightarrow> f = g"
  by (cases f; cases g) (simp_all add: family_adapters lit_def)

lemma native_execution_promoted:
  "fc_backend_execution (fa_capabilities (family_adapter f)) \<longleftrightarrow> supports_backend f NativeMetal"
  by (cases f) (simp_all add: family_adapters supports_backend_def)

end
