(* ===== verification/Chat_Request.thy ===== *)
theory Chat_Request
  imports Backend_Request Model_Family Chat_Template Api_Validation Response_Validation
begin

text \<open>
  From a validated API request to a backend request (llm-runtime/src/runtime.rs, capabilities.rs,
  backend\_request.rs, cache\_identity.rs and the context half of adapters.rs): the capability checks, the choice of the
  chat adapter from the backend's metadata, the prompt, chat context and cache context, and the cache
  identity of a request.

  A backend is a record of what the runtime reads from it and of its two generators, functions of the backend
  request; the text of the tool definitions in prompts is the argument \<open>tj\<close>, the digest the argument \<open>sha\<close>.
\<close>

section \<open>The runtime\<close>

datatype tool_schema_normalization = Preserve | Canonical

record runtime_options =
  ro_tool_schema_normalization :: tool_schema_normalization
  ro_request_limits :: request_limits

record model_backend =
  mb_model_id :: rstr
  mb_metadata :: backend_model_metadata
  mb_capabilities :: backend_capabilities
  mb_health :: backend_health
  mb_generate :: "backend_request \<Rightarrow> backend_error + backend_output"
  mb_generate_stream :: "backend_request \<Rightarrow> (backend_error + backend_stream_chunk) list"

record runtime =
  rt_backend :: model_backend
  rt_options :: runtime_options

definition runtime_options_default :: runtime_options where
  "runtime_options_default =
     \<lparr>ro_tool_schema_normalization = Preserve, ro_request_limits = request_limits_default\<rparr>"

definition runtime_new_with_options :: "model_backend \<Rightarrow> runtime_options \<Rightarrow> runtime" where
  "runtime_new_with_options backend options = \<lparr>rt_backend = backend, rt_options = options\<rparr>"

definition runtime_new :: "model_backend \<Rightarrow> runtime" where
  "runtime_new backend = runtime_new_with_options backend runtime_options_default"

definition ensure_runtime_validated ::
  "runtime \<Rightarrow> ('r \<Rightarrow> request_limits \<Rightarrow> (api_error, unit) outcome) \<Rightarrow> 'r validated \<Rightarrow> (runtime_error, 'r validated) outcome" where
  "ensure_runtime_validated rt validate_with request =
     (if va_request_limits request = ro_request_limits (rt_options rt) then Ok request
      else map_err RtApi
        (into_validated_with_limits validate_with (va_inner request) (ro_request_limits (rt_options rt))))"

section \<open>Capabilities\<close>

definition unsupported :: "string \<Rightarrow> (runtime_error, unit) outcome" where
  "unsupported message = Err (RtApi (unsupported_capability (lit message)))"

definition validate_streaming_capability :: "backend_capabilities \<Rightarrow> bool \<Rightarrow> (runtime_error, unit) outcome" where
  "validate_streaming_capability capabilities streaming =
     (if streaming \<and> \<not> cap_streaming capabilities
      then unsupported ''backend does not advertise streaming support'' else Ok ())"

definition validate_sampling_capability :: "backend_capabilities \<Rightarrow> sampling_config \<Rightarrow> (runtime_error, unit) outcome" where
  "validate_sampling_capability capabilities sampling =
     (case sampling of
        Greedy \<Rightarrow>
          if \<not> cap_sampling_greedy capabilities
          then unsupported ''backend does not advertise greedy sampling support'' else Ok ()
      | TopP _ _ \<Rightarrow>
          if \<not> cap_sampling_top_p capabilities
          then unsupported ''backend does not advertise top-p sampling support; use temperature 0 for greedy decoding''
          else Ok ())"

definition request_sampling :: "f32 option \<Rightarrow> f32 option \<Rightarrow> (runtime_error, sampling_config) outcome" where
  "request_sampling temperature top_p = map_err runtime_from_backend (from_openai_controls temperature top_p)"

definition chat_request_uses_tools :: "chat_completion_request \<Rightarrow> bool" where
  "chat_request_uses_tools request \<longleftrightarrow>
     cr_tools request \<noteq> [] \<or>
     list_ex (\<lambda>m. cm_role m = RoleTool \<or> cm_tool_call_id m \<noteq> None \<or> cm_tool_calls m \<noteq> []) (cr_messages request)"

definition validate_chat_request_capabilities ::
  "runtime \<Rightarrow> chat_completion_request \<Rightarrow> bool \<Rightarrow> (runtime_error, unit) outcome" where
  "validate_chat_request_capabilities rt request streaming =
     (let capabilities = mb_capabilities (rt_backend rt)
      in if \<not> cap_chat_completions capabilities then
           unsupported ''backend does not advertise chat completion support''
         else
           and_ok (validate_streaming_capability capabilities streaming) (\<lambda>_.
           and_ok (request_sampling (cr_temperature request) (cr_top_p request)) (\<lambda>sampling.
           and_ok (validate_sampling_capability capabilities sampling) (\<lambda>_.
             if chat_request_uses_tools request \<and> \<not> cap_tool_calls capabilities then
               unsupported ''backend does not advertise tool-call support''
             else if cr_response_format request = Some FormatJsonObject \<and> \<not> cap_json_object_mode capabilities then
               unsupported ''backend does not advertise json_object response_format support''
             else Ok ()))))"

definition validate_completion_request_capabilities ::
  "runtime \<Rightarrow> completion_request \<Rightarrow> bool \<Rightarrow> (runtime_error, unit) outcome" where
  "validate_completion_request_capabilities rt request streaming =
     (let capabilities = mb_capabilities (rt_backend rt)
      in if \<not> cap_raw_completions capabilities then
           unsupported ''backend does not advertise raw completion support''
         else
           and_ok (validate_streaming_capability capabilities streaming) (\<lambda>_.
           and_ok (request_sampling (co_temperature request) (co_top_p request))
             (validate_sampling_capability capabilities)))"

section \<open>The chat adapter\<close>

definition parse_metadata_family :: "rstr \<Rightarrow> (runtime_error, model_family) outcome" where
  "parse_metadata_family family =
     map_err (\<lambda>err. RtApi (unsupported_capability (fmt [family_parse_error_text err, lit '' for chat rendering''])))
       (family_parse_slug family)"

definition chat_adapter_for_metadata :: "backend_model_metadata \<Rightarrow> (runtime_error, model_family) outcome" where
  "chat_adapter_for_metadata metadata' =
     (case bm_family metadata' of
        None \<Rightarrow>
          Err (RtApi (unsupported_capability (fmt [lit ''backend `'', bm_backend metadata',
            lit ''` did not declare a model family for chat rendering''])))
      | Some family \<Rightarrow> parse_metadata_family family)"

fun backend_chat_role_of :: "chat_role \<Rightarrow> backend_chat_role" where
  "backend_chat_role_of RoleSystem = BackendSystem"
| "backend_chat_role_of RoleUser = BackendUser"
| "backend_chat_role_of RoleAssistant = BackendAssistant"
| "backend_chat_role_of RoleTool = BackendTool"

fun backend_tool_call_type_of :: "tool_call_type \<Rightarrow> backend_tool_call_type" where
  "backend_tool_call_type_of ToolFunction = BtcFunction"

fun backend_tool_type_of :: "tool_call_type \<Rightarrow> backend_tool_type" where
  "backend_tool_type_of ToolFunction = BackendFunctionTool"

definition backend_chat_message_of :: "chat_message \<Rightarrow> backend_chat_message" where
  "backend_chat_message_of message =
     \<lparr>bcm_role = backend_chat_role_of (cm_role message), bcm_content = cm_content message, bcm_name = cm_name message,
      bcm_tool_call_id = cm_tool_call_id message,
      bcm_tool_calls = map (\<lambda>call. \<lparr>btc_id = tc_id call, btc_call_type = backend_tool_call_type_of (tc_call_type call),
        btc_function = \<lparr>bcf_name = tcf_name (tc_function call), bcf_arguments = tcf_arguments (tc_function call)\<rparr>\<rparr>)
        (cm_tool_calls message)\<rparr>"

definition backend_tool_definition_of :: "tool_definition \<Rightarrow> backend_tool_definition" where
  "backend_tool_definition_of tool =
     \<lparr>btl_tool_type = backend_tool_type_of (td_tool_type tool),
      btl_function = \<lparr>bfn_name = fd_name (td_function tool), bfn_description = fd_description (td_function tool),
        bfn_parameters = fd_parameters (td_function tool)\<rparr>\<rparr>"

definition backend_tool_definitions :: "tool_definition list \<Rightarrow> backend_tool_definition list" where
  "backend_tool_definitions tools = map backend_tool_definition_of tools"

definition backend_chat_context_of :: "chat_message list \<Rightarrow> tool_definition list \<Rightarrow> backend_chat_context" where
  "backend_chat_context_of messages tools =
     \<lparr>bcc_messages = map backend_chat_message_of messages, bcc_tools = backend_tool_definitions tools\<rparr>"

definition adapter_cache_context :: "(nat list \<Rightarrow> rstr) \<Rightarrow> model_family \<Rightarrow> rstr option \<Rightarrow> backend_cache_context" where
  "adapter_cache_context sha family tool_schema =
     (let adapter = family_adapter family
      in chat_template_with_kwargs sha (fa_cache_template_id adapter) tool_schema (fa_chat_template_kwargs_json adapter))"

section \<open>The backend request\<close>

definition effective_tools :: "runtime \<Rightarrow> tool_definition list \<Rightarrow> tool_definition list" where
  "effective_tools rt tools =
     (case ro_tool_schema_normalization (rt_options rt) of
        Preserve \<Rightarrow> tools
      | Canonical \<Rightarrow> canonicalize_tool_schemas tools)"

text \<open>The derived serialiser of a tool definition: its fields in order, the description only if present.\<close>

definition backend_tool_json :: "backend_tool_definition \<Rightarrow> json" where
  "backend_tool_json tool =
     JObject [(lit ''type'', JString (lit ''function'')),
       (lit ''function'', JObject ([(lit ''name'', JString (bfn_name (btl_function tool)))] @
          (case bfn_description (btl_function tool) of None \<Rightarrow> [] | Some d \<Rightarrow> [(lit ''description'', JString d)]) @
          [(lit ''parameters'', bfn_parameters (btl_function tool))]))]"

definition tool_schema_json :: "runtime \<Rightarrow> tool_definition list \<Rightarrow> rstr option" where
  "tool_schema_json rt tools =
     (if tools = [] then None
      else let backend_tools = JArray (map backend_tool_json (backend_tool_definitions (effective_tools rt tools)))
           in Some (case ro_tool_schema_normalization (rt_options rt) of
                      Preserve \<Rightarrow> json_compact backend_tools
                    | Canonical \<Rightarrow> json_compact (canonicalize_json_value backend_tools)))"

fun template_error_text :: "template_error \<Rightarrow> rstr" where
  "template_error_text (TeToolSerialization e) = fmt [lit ''tool serialization failed: '', e]"
| "template_error_text (TeReservedControlToken t) =
     fmt [lit ''reserved prompt control token `'', t, lit ''` is not allowed in request text'']"
| "template_error_text (TeUnsupportedRole r) = fmt [lit ''message role `'', r, lit ''` cannot be rendered in chat template'']"
| "template_error_text (TeUnsupportedFamily f) =
     fmt [f, lit '' chat template support is deferred until a production template is implemented'']"

definition prepare_chat_backend ::
  "(nat list \<Rightarrow> rstr) \<Rightarrow> tools_writer \<Rightarrow> runtime \<Rightarrow> model_family \<Rightarrow> chat_completion_request \<Rightarrow>
   (runtime_error, backend_cache_context \<times> rstr \<times> backend_chat_context) outcome" where
  "prepare_chat_backend sha tj rt family request =
     (let tools = effective_tools rt (cr_tools request);
          cache_context = adapter_cache_context sha family (tool_schema_json rt (cr_tools request))
      in and_ok (map_err (\<lambda>e. RtTemplate (template_error_text e)) (render_prompt tj family (cr_messages request) tools))
           (\<lambda>prompt. Ok (cache_context, prompt, backend_chat_context_of (cr_messages request) tools)))"

definition required_backend_tool_choice :: "chat_completion_request \<Rightarrow> backend_tool_choice option" where
  "required_backend_tool_choice request =
     (case cr_tool_choice request of
        Some ChoiceRequired \<Rightarrow> Some RequiredAny
      | Some (ChoiceFunction name) \<Rightarrow> Some (RequiredFunction name)
      | _ \<Rightarrow> None)"

definition chat_backend_request ::
  "(nat list \<Rightarrow> rstr) \<Rightarrow> tools_writer \<Rightarrow> runtime \<Rightarrow> model_family \<Rightarrow> chat_completion_request \<Rightarrow>
   (runtime_error, backend_request) outcome" where
  "chat_backend_request sha tj rt family request =
     and_ok (prepare_chat_backend sha tj rt family request) (\<lambda>(cache_context, prompt, chat_context).
     and_ok (request_sampling (cr_temperature request) (cr_top_p request)) (\<lambda>sampling.
       Ok (chat_completion (cr_model request) prompt chat_context (effective_max_tokens request) sampling
         (required_backend_tool_choice request) (cr_response_format request = Some FormatJsonObject) cache_context)))"

definition completion_backend_request ::
  "(nat list \<Rightarrow> rstr) \<Rightarrow> completion_request \<Rightarrow> (runtime_error, backend_request) outcome" where
  "completion_backend_request sha request =
     and_ok (request_sampling (co_temperature request) (co_top_p request)) (\<lambda>sampling.
       Ok (raw_completion sha (co_model request) (co_prompt request) (co_max_tokens request) sampling))"

section \<open>Cache identity\<close>

record request_cache_identity =
  ri_prompt_hash :: rstr
  ri_cache_key :: rstr
  ri_cache_template_id :: rstr
  ri_model_family :: "rstr option"
  ri_tool_schema_hash :: "rstr option"
  ri_system_prompt_hash :: "rstr option"
  ri_chat_template_kwargs_hash :: "rstr option"
  ri_stable_prefix_key :: "rstr option"

definition hash_str :: "(nat list \<Rightarrow> rstr) \<Rightarrow> rstr \<Rightarrow> rstr" where
  "hash_str sha s = fmt [lit ''sha256:'', sha (as_bytes s)]"

definition hash_json :: "(nat list \<Rightarrow> rstr) \<Rightarrow> json \<Rightarrow> rstr" where
  "hash_json sha v = hash_str sha (json_compact v)"

definition json_of_opt :: "rstr option \<Rightarrow> json" where
  "json_of_opt s = (case s of None \<Rightarrow> JNull | Some t \<Rightarrow> JString t)"

definition system_prompt_json :: "chat_message list \<Rightarrow> json" where
  "system_prompt_json system_messages =
     JObject [(lit ''version'', JString (lit ''system-prompt/v1'')),
       (lit ''messages'', JArray (map (\<lambda>m. JObject [(lit ''content'', json_of_opt (cm_content m)),
          (lit ''name'', json_of_opt (cm_name m))]) system_messages))]"

definition hash_system_prompt :: "(nat list \<Rightarrow> rstr) \<Rightarrow> chat_message list \<Rightarrow> rstr option" where
  "hash_system_prompt sha messages =
     (let system_messages = filter (\<lambda>m. cm_role m = RoleSystem) messages
      in if system_messages = [] then None else Some (hash_json sha (system_prompt_json system_messages)))"

definition stable_prefix_key :: "(nat list \<Rightarrow> rstr) \<Rightarrow> (rstr \<times> rstr option) list \<Rightarrow> rstr" where
  "stable_prefix_key sha components =
     fmt [lit ''sha256:'',
       sha (components_bytes ((lit ''stable-prefix-version'', Some (lit ''request-cache-prefix/v1'')) # components))]"

definition identity_chat ::
  "(nat list \<Rightarrow> rstr) \<Rightarrow> rstr option \<Rightarrow> backend_cache_context \<Rightarrow> rstr \<Rightarrow> chat_message list \<Rightarrow> request_cache_identity" where
  "identity_chat sha model_family cache_context prompt messages =
     (let tool_schema_hash = map_option (hash_str sha) (bca_tool_schema cache_context);
          system_prompt_hash = hash_system_prompt sha messages;
          chat_template_kwargs_hash = map_option (hash_str sha) (bca_chat_template_kwargs cache_context)
      in \<lparr>ri_prompt_hash = hash_str sha prompt, ri_cache_key = bca_key cache_context,
          ri_cache_template_id = bca_cache_template_id cache_context, ri_model_family = model_family,
          ri_tool_schema_hash = tool_schema_hash, ri_system_prompt_hash = system_prompt_hash,
          ri_chat_template_kwargs_hash = chat_template_kwargs_hash,
          ri_stable_prefix_key = Some (stable_prefix_key sha
            [(lit ''model-family'', model_family),
             (lit ''cache-template-id'', Some (bca_cache_template_id cache_context)),
             (lit ''tool-schema-hash'', tool_schema_hash), (lit ''system-prompt-hash'', system_prompt_hash),
             (lit ''chat-template-kwargs-hash'', chat_template_kwargs_hash)])\<rparr>)"

definition identity_raw_completion ::
  "(nat list \<Rightarrow> rstr) \<Rightarrow> backend_cache_context \<Rightarrow> rstr \<Rightarrow> request_cache_identity" where
  "identity_raw_completion sha cache_context prompt =
     \<lparr>ri_prompt_hash = hash_str sha prompt, ri_cache_key = bca_key cache_context,
      ri_cache_template_id = bca_cache_template_id cache_context, ri_model_family = None, ri_tool_schema_hash = None,
      ri_system_prompt_hash = None, ri_chat_template_kwargs_hash = None, ri_stable_prefix_key = None\<rparr>"

definition chat_request_cache_identity ::
  "(nat list \<Rightarrow> rstr) \<Rightarrow> tools_writer \<Rightarrow> runtime \<Rightarrow> chat_completion_request \<Rightarrow>
   (runtime_error, request_cache_identity) outcome" where
  "chat_request_cache_identity sha tj rt request =
     and_ok (chat_adapter_for_metadata (mb_metadata (rt_backend rt))) (\<lambda>family.
     and_ok (prepare_chat_backend sha tj rt family request) (\<lambda>(cache_context, prompt, _).
       Ok (identity_chat sha (bm_family (mb_metadata (rt_backend rt))) cache_context prompt (cr_messages request))))"

definition completion_request_cache_identity :: "(nat list \<Rightarrow> rstr) \<Rightarrow> completion_request \<Rightarrow> request_cache_identity" where
  "completion_request_cache_identity sha request =
     identity_raw_completion sha (raw_prompt sha) (co_prompt request)"

section \<open>Hashed texts determine what they were made from\<close>

lemma hex_digit_inj: "d < 16 \<Longrightarrow> e < 16 \<Longrightarrow> hex_digit d = hex_digit e \<longleftrightarrow> d = e"
  by (auto simp: hex_digit_def)

lemma json_escape_cancel:
  assumes "json_escape c @ x = json_escape d @ y"
  shows "c = d \<and> x = y"
proof (cases "c \<le> 31 \<and> d \<le> 31 \<and> c \<notin> {8, 9, 10, 12, 13} \<and> d \<notin> {8, 9, 10, 12, 13}")
  case True
  then have "hex_digit (c div 16) = hex_digit (d div 16)" "hex_digit (c mod 16) = hex_digit (d mod 16)" "x = y"
    using assms by (auto simp: json_escape_def split: if_splits)
  moreover from True have "c div 16 < 16" "d div 16 < 16" by auto
  ultimately have "c div 16 = d div 16" "c mod 16 = d mod 16" by (simp_all add: hex_digit_inj)
  with \<open>x = y\<close> show ?thesis using div_mod_eq_iff by blast
next
  case False
  with assms show ?thesis by (simp add: json_escape_def split: if_split_asm)
qed

lemma json_escape_hd: "\<exists>h r. json_escape c = h # r \<and> h \<noteq> 34"
  by (simp add: json_escape_def)

lemma json_quote_cancel:
  assumes "json_quote s @ a = json_quote t @ b"
  shows "s = t \<and> a = b"
proof -
  have "concat (map json_escape s) @ 34 # a = concat (map json_escape t) @ 34 # b" using assms by (simp add: json_quote_def)
  then show ?thesis
  proof (induction s arbitrary: t)
    case Nil
    show ?case
    proof (cases t)
      case (Cons d t')
      obtain h r where "json_escape d = h # r" "h \<noteq> 34" using json_escape_hd by blast
      with Nil Cons show ?thesis by simp
    qed (use Nil in simp)
  next
    case (Cons c s)
    show ?case
    proof (cases t)
      case Nil
      obtain h r where "json_escape c = h # r" "h \<noteq> 34" using json_escape_hd by blast
      with Nil Cons.prems show ?thesis by simp
    next
      case t: (Cons d t')
      have "json_escape c @ concat (map json_escape s) @ 34 # a = json_escape d @ concat (map json_escape t') @ 34 # b"
        using Cons.prems t by simp
      from json_escape_cancel [OF this] Cons.IH [of t'] t show ?thesis by simp
    qed
  qed
qed

lemma json_of_opt_cancel:
  assumes "json_compact (json_of_opt v) @ a = json_compact (json_of_opt w) @ b"
  shows "v = w \<and> a = b"
proof (cases v; cases w)
  fix s t assume "v = Some s" "w = Some t"
  with assms json_quote_cancel [of s a t b] show ?thesis by (simp add: json_of_opt_def)
qed (use assms in \<open>auto simp: json_of_opt_def json_quote_def lit_def\<close>)

definition system_item :: "chat_message \<Rightarrow> json" where
  "system_item m = JObject [(lit ''content'', json_of_opt (cm_content m)), (lit ''name'', json_of_opt (cm_name m))]"

lemma system_item_cancel:
  assumes "json_compact (system_item m) @ a = json_compact (system_item n) @ b"
  shows "cm_content m = cm_content n \<and> cm_name m = cm_name n \<and> a = b"
proof -
  let ?rest = "\<lambda>n. [44] @ json_quote (lit ''name'') @ [58] @ json_compact (json_of_opt (cm_name n)) @ [125]"
  have "json_compact (json_of_opt (cm_content m)) @ ?rest m @ a = json_compact (json_of_opt (cm_content n)) @ ?rest n @ b"
    using assms by (simp add: system_item_def)
  from json_of_opt_cancel [OF this] have "cm_content m = cm_content n"
    "json_compact (json_of_opt (cm_name m)) @ 125 # a = json_compact (json_of_opt (cm_name n)) @ 125 # b" by simp_all
  with json_of_opt_cancel [OF this(2)] show ?thesis by simp
qed

lemma system_items_cancel:
  "items_text first (map system_item ms) = items_text first (map system_item ns) \<Longrightarrow>
   map (\<lambda>m. (cm_content m, cm_name m)) ms = map (\<lambda>m. (cm_content m, cm_name m)) ns"
proof (induction ms arbitrary: ns first)
  case Nil
  then show ?case by (cases ns) (auto simp: system_item_def split: if_splits)
next
  case (Cons m ms)
  show ?case
  proof (cases ns)
    case Nil
    with Cons.prems show ?thesis by (auto simp: system_item_def split: if_splits)
  next
    case ns: (Cons n ns')
    have "json_compact (system_item m) @ items_text False (map system_item ms) =
      json_compact (system_item n) @ items_text False (map system_item ns')" using Cons.prems ns by (auto split: if_splits)
    note eqs = system_item_cancel [OF this]
    have "map (\<lambda>m. (cm_content m, cm_name m)) ms = map (\<lambda>m. (cm_content m, cm_name m)) ns'"
      by (rule Cons.IH [of False]) (use eqs in blast)
    with eqs ns show ?thesis by simp
  qed
qed

definition system_prefix :: "chat_message list \<Rightarrow> (rstr option \<times> rstr option) list" where
  "system_prefix messages =
     map (\<lambda>m. (cm_content m, cm_name m)) (filter (\<lambda>m. cm_role m = RoleSystem) messages)"

lemma system_prompt_json_inj:
  assumes "json_compact (system_prompt_json ms) = json_compact (system_prompt_json ns)"
  shows "map (\<lambda>m. (cm_content m, cm_name m)) ms = map (\<lambda>m. (cm_content m, cm_name m)) ns"
proof -
  have items: "system_prompt_json xs = JObject [(lit ''version'', JString (lit ''system-prompt/v1'')),
      (lit ''messages'', JArray (map system_item xs))]" for xs
    by (simp add: system_prompt_json_def system_item_def [abs_def])
  from assms have "items_text True (map system_item ms) = items_text True (map system_item ns)" by (simp add: items)
  then show ?thesis by (rule system_items_cancel)
qed

lemma hash_str_inj:
  assumes "hash_str sha s = hash_str sha t" and "inj_on sha A" and "as_bytes s \<in> A" and "as_bytes t \<in> A"
    and "valid_str s" and "valid_str t"
  shows "s = t"
proof -
  have "as_bytes s = as_bytes t" using assms(1-4) by (auto simp: hash_str_def fmt_def dest: inj_onD)
  then show ?thesis using assms(5,6) by (rule as_bytes_inj)
qed

lemma hash_opt_inj:
  assumes "map_option (hash_str sha) v = map_option (hash_str sha) w" and "inj_on sha A"
    and "as_bytes ` set_option v \<subseteq> A" and "as_bytes ` set_option w \<subseteq> A" and "valid_opt v" and "valid_opt w"
  shows "v = w"
  using assms hash_str_inj [of sha _ _ A] by (cases v; cases w) (auto simp: valid_opt_def)

text \<open>\<open>hex_digest sha\<close>: digests are short ASCII texts.\<close>

definition hex_digest :: "(nat list \<Rightarrow> rstr) \<Rightarrow> bool" where
  "hex_digest sha \<longleftrightarrow> (\<forall>x. length (sha x) = 64 \<and> (\<forall>c \<in> set (sha x). c < 128))"

lemma valid_hash: "hex_digest sha \<Longrightarrow> valid_str (hash_str sha s)"
proof -
  assume hex: "hex_digest sha"
  have "length (hash_str sha s) = 71" "\<forall>c \<in> set (hash_str sha s). c < 128"
    using hex by (auto simp: hash_str_def hex_digest_def fmt_def lit_def)
  then show ?thesis using str_len_le [of "hash_str sha s"] by (fastforce simp: valid_str_def)
qed

definition system_text :: "chat_message list \<Rightarrow> rstr" where
  "system_text messages = json_compact (system_prompt_json (filter (\<lambda>m. cm_role m = RoleSystem) messages))"

lemma hash_system_prompt_inj:
  assumes "hash_system_prompt sha ms = hash_system_prompt sha ns" and "inj_on sha A"
    and "as_bytes (system_text ms) \<in> A" and "as_bytes (system_text ns) \<in> A"
    and "valid_str (system_text ms)" and "valid_str (system_text ns)"
  shows "system_prefix ms = system_prefix ns"
proof (cases "filter (\<lambda>m. cm_role m = RoleSystem) ms = []")
  case True
  with assms(1) have "filter (\<lambda>m. cm_role m = RoleSystem) ns = []"
    by (auto simp: hash_system_prompt_def Let_def split: if_splits)
  with True show ?thesis by (simp add: system_prefix_def)
next
  case False
  with assms(1) have "hash_str sha (system_text ms) = hash_str sha (system_text ns)"
    by (auto simp: hash_system_prompt_def hash_json_def system_text_def Let_def split: if_splits)
  from hash_str_inj [OF this assms(2-6)] show ?thesis
    unfolding system_prefix_def system_text_def by (rule system_prompt_json_inj)
qed

text \<open>The components of a stable prefix key.\<close>

definition prefix_components ::
  "(nat list \<Rightarrow> rstr) \<Rightarrow> rstr option \<Rightarrow> backend_cache_context \<Rightarrow> chat_message list \<Rightarrow> (rstr \<times> rstr option) list" where
  "prefix_components sha fam ctx messages =
     [(lit ''model-family'', fam), (lit ''cache-template-id'', Some (bca_cache_template_id ctx)),
      (lit ''tool-schema-hash'', map_option (hash_str sha) (bca_tool_schema ctx)),
      (lit ''system-prompt-hash'', hash_system_prompt sha messages),
      (lit ''chat-template-kwargs-hash'', map_option (hash_str sha) (bca_chat_template_kwargs ctx))]"

lemma identity_chat_prefix_key:
  "ri_stable_prefix_key (identity_chat sha fam ctx prompt messages) =
   Some (stable_prefix_key sha (prefix_components sha fam ctx messages))"
  by (simp add: identity_chat_def prefix_components_def Let_def)

definition valid_identity :: "rstr option \<Rightarrow> backend_cache_context \<Rightarrow> chat_message list \<Rightarrow> bool" where
  "valid_identity fam ctx messages \<longleftrightarrow>
     valid_opt fam \<and> valid_str (bca_cache_template_id ctx) \<and> valid_opt (bca_tool_schema ctx) \<and>
     valid_opt (bca_chat_template_kwargs ctx) \<and> valid_str (system_text messages)"

lemma valid_opt_simps [simp]: "valid_opt None" "valid_opt (Some s) = valid_str s"
  by (simp_all add: valid_opt_def)

lemma valid_opt_hash: "hex_digest sha \<Longrightarrow> valid_opt (map_option (hash_str sha) v)"
  by (cases v) (simp_all add: valid_hash)

lemma prefix_components_valid:
  assumes "hex_digest sha" and "valid_identity fam ctx messages" and "p \<in> set (prefix_components sha fam ctx messages)"
  shows "valid_opt (snd p)"
proof -
  have "valid_opt (hash_system_prompt sha messages)"
    using valid_hash [OF assms(1)] by (simp add: hash_system_prompt_def hash_json_def Let_def)
  with assms show ?thesis by (auto simp: prefix_components_def valid_identity_def valid_opt_hash)
qed

text \<open>The byte strings that are hashed for one request.\<close>

definition prefix_bytes ::
  "(nat list \<Rightarrow> rstr) \<Rightarrow> rstr option \<Rightarrow> backend_cache_context \<Rightarrow> chat_message list \<Rightarrow> nat list" where
  "prefix_bytes sha fam ctx messages =
     components_bytes ((lit ''stable-prefix-version'', Some (lit ''request-cache-prefix/v1'')) # prefix_components sha fam ctx messages)"

definition hashed_inputs ::
  "(nat list \<Rightarrow> rstr) \<Rightarrow> rstr option \<Rightarrow> backend_cache_context \<Rightarrow> chat_message list \<Rightarrow> nat list set" where
  "hashed_inputs sha fam ctx messages =
     {prefix_bytes sha fam ctx messages, as_bytes (system_text messages)} \<union>
     as_bytes ` set_option (bca_tool_schema ctx) \<union> as_bytes ` set_option (bca_chat_template_kwargs ctx)"

lemma stable_prefix_key_inj:
  assumes "stable_prefix_key sha (prefix_components sha fam ctx ms) = stable_prefix_key sha (prefix_components sha fam' ctx' ns)"
    and "inj_on sha A" and "prefix_bytes sha fam ctx ms \<in> A" and "prefix_bytes sha fam' ctx' ns \<in> A"
    and "hex_digest sha" and "valid_identity fam ctx ms" and "valid_identity fam' ctx' ns"
  shows "prefix_components sha fam ctx ms = prefix_components sha fam' ctx' ns"
proof -
  let ?v = "(lit ''stable-prefix-version'', Some (lit ''request-cache-prefix/v1''))"
  let ?cs = "prefix_components sha fam ctx ms" and ?ds = "prefix_components sha fam' ctx' ns"
  have "sha (prefix_bytes sha fam ctx ms) = sha (prefix_bytes sha fam' ctx' ns)"
    using assms(1) by (simp add: stable_prefix_key_def fmt_def prefix_bytes_def)
  then have "prefix_bytes sha fam ctx ms = prefix_bytes sha fam' ctx' ns" by (rule inj_onD [OF assms(2) _ assms(3,4)])
  then have eq: "components_bytes (?v # ?cs) @ [] = components_bytes (?v # ?ds) @ []" by (simp add: prefix_bytes_def)
  have "?v # ?cs = ?v # ?ds \<and> ([] :: nat list) = []"
  proof (rule components_bytes_inj [OF eq])
    show "map fst (?v # ?cs) = map fst (?v # ?ds)" by (simp add: prefix_components_def)
    show "valid_str x" if "(name, Some x) \<in> set (?v # ?cs) \<union> set (?v # ?ds)" for name x
      using that prefix_components_valid [OF assms(5,6)] prefix_components_valid [OF assms(5,7)]
        valid_str_lit [of "''request-cache-prefix/v1''"] by force
  qed
  then show ?thesis by simp
qed

text \<open>C19: The stable prefix key identifies the reusable prefix. Two chat requests with the same key have the same model
  family, prompt template, tool schema, template arguments and system messages, provided none of the few byte
  strings hashed for the two requests collide; so a cached prefix is never reused for another one.\<close>

theorem stable_prefix_key_identifies_prefix:
  assumes "ri_stable_prefix_key (identity_chat sha fam ctx prompt ms) = ri_stable_prefix_key (identity_chat sha fam' ctx' prompt' ns)"
    and "inj_on sha (hashed_inputs sha fam ctx ms \<union> hashed_inputs sha fam' ctx' ns)"
    and "hex_digest sha" and "valid_identity fam ctx ms" and "valid_identity fam' ctx' ns"
  shows "fam = fam' \<and> bca_cache_template_id ctx = bca_cache_template_id ctx' \<and> bca_tool_schema ctx = bca_tool_schema ctx' \<and>
    bca_chat_template_kwargs ctx = bca_chat_template_kwargs ctx' \<and> system_prefix ms = system_prefix ns"
proof -
  let ?A = "hashed_inputs sha fam ctx ms \<union> hashed_inputs sha fam' ctx' ns"
  have key: "stable_prefix_key sha (prefix_components sha fam ctx ms) = stable_prefix_key sha (prefix_components sha fam' ctx' ns)"
    using assms(1) by (simp add: identity_chat_prefix_key)
  have "prefix_components sha fam ctx ms = prefix_components sha fam' ctx' ns"
    by (rule stable_prefix_key_inj [OF key assms(2) _ _ assms(3-5)]) (simp_all add: hashed_inputs_def)
  then have eqs: "fam = fam'" "bca_cache_template_id ctx = bca_cache_template_id ctx'"
    "map_option (hash_str sha) (bca_tool_schema ctx) = map_option (hash_str sha) (bca_tool_schema ctx')"
    "hash_system_prompt sha ms = hash_system_prompt sha ns"
    "map_option (hash_str sha) (bca_chat_template_kwargs ctx) = map_option (hash_str sha) (bca_chat_template_kwargs ctx')"
    by (simp_all only: prefix_components_def list.inject prod.inject option.inject)
  have "bca_tool_schema ctx = bca_tool_schema ctx'"
    by (rule hash_opt_inj [OF eqs(3) assms(2)]) (use assms(4,5) in \<open>auto simp: hashed_inputs_def valid_identity_def\<close>)
  moreover have "bca_chat_template_kwargs ctx = bca_chat_template_kwargs ctx'"
    by (rule hash_opt_inj [OF eqs(5) assms(2)]) (use assms(4,5) in \<open>auto simp: hashed_inputs_def valid_identity_def\<close>)
  moreover have "system_prefix ms = system_prefix ns"
    by (rule hash_system_prompt_inj [OF eqs(4) assms(2)]) (use assms(4,5) in \<open>auto simp: hashed_inputs_def valid_identity_def\<close>)
  ultimately show ?thesis using eqs by simp
qed

definition length_digest :: "nat list \<Rightarrow> rstr" where
  "length_digest x = replicate 64 (length x mod 128)"

lemma length_digest_inj:
  assumes "length a mod 128 \<noteq> length b mod 128" and "length a mod 128 \<noteq> length c mod 128" and "length b mod 128 \<noteq> length c mod 128"
  shows "inj_on length_digest {a, b, c}"
  using assms by (auto simp: inj_on_def length_digest_def)

theorem stable_prefix_key_identifies_prefix_witness:
  "ri_stable_prefix_key (identity_chat length_digest (Some (lit ''qwen'')) (chat_template_context length_digest (lit ''t'') None) (lit ''hi'') []) \<noteq>
   ri_stable_prefix_key (identity_chat length_digest (Some (lit ''llama'')) (chat_template_context length_digest (lit ''t'') None) (lit ''hi'') [])"
proof
  let ?ctx = "chat_template_context length_digest (lit ''t'') None"
  assume eq: "ri_stable_prefix_key (identity_chat length_digest (Some (lit ''qwen'')) ?ctx (lit ''hi'') []) =
    ri_stable_prefix_key (identity_chat length_digest (Some (lit ''llama'')) ?ctx (lit ''hi'') [])"
  have ctx: "bca_tool_schema ?ctx = None" "bca_chat_template_kwargs ?ctx = None" "bca_cache_template_id ?ctx = lit ''t''"
    by (simp_all add: chat_template_context_def chat_template_with_kwargs_def)
  have "inj_on length_digest {prefix_bytes length_digest (Some (lit ''qwen'')) ?ctx [],
      prefix_bytes length_digest (Some (lit ''llama'')) ?ctx [], as_bytes (system_text [])}"
    by (rule length_digest_inj)
      (unfold prefix_bytes_def prefix_components_def ctx,
       simp_all add: components_bytes_def update_cache_key_component_def as_bytes_length
        hash_system_prompt_def system_text_def system_prompt_json_def json_quote_def json_escape_def lit_def len_utf8_def)
  then have "inj_on length_digest (hashed_inputs length_digest (Some (lit ''qwen'')) ?ctx [] \<union> hashed_inputs length_digest (Some (lit ''llama'')) ?ctx [])"
    by (simp add: hashed_inputs_def ctx insert_commute)
  moreover have "hex_digest length_digest" by (simp add: hex_digest_def length_digest_def)
  moreover have "valid_identity (Some (lit s)) ?ctx []" if "length s < 1000" for s
  proof -
    have "valid_str (system_text [])"
      by (simp add: valid_str_def system_text_def system_prompt_json_def json_quote_def json_escape_def lit_def len_utf8_def)
    with that valid_str_lit show ?thesis by (simp add: valid_identity_def ctx)
  qed
  ultimately have "Some (lit ''qwen'') = Some (lit ''llama'')"
    using stable_prefix_key_identifies_prefix [OF eq] by simp
  then show False by (simp add: lit_def)
qed

end
