(* ===== verification/Chat_Completion.thy ===== *)
theory Chat_Completion
  imports Chat_Request No_Progress Chat_Template_Props Tool_Parser_Props
begin

text \<open>
  The non-streaming entry points of the runtime (llm-runtime/src/chat.rs and completions.rs): validation against the
  runtime's limits, the capability checks, the backend request, and for chat the processing of the answer:
  stop sequences, parsing, the intent argument, the checks of the tool calls and of JSON mode, and the
  no-progress classes.

  The JSON readers, generated identifiers, Unicode tables, digest and tool writer are the fields of one record, the
  environment of a request; the response identifier and the clock are arguments. The theorem at the end states
  what a client may rely on in an answer it receives.
\<close>

section \<open>Operations\<close>

record runtime_env =
  env_json :: json_reader
  env_string :: string_reader
  env_ids :: "nat \<Rightarrow> rstr"
  env_unicode :: unicode_tables
  env_sha :: "nat list \<Rightarrow> rstr"
  env_tools :: tools_writer

record runtime_chat_completion =
  rcc_id :: rstr
  rcc_created :: int
  rcc_model :: rstr
  rcc_parsed :: parsed_assistant
  rcc_finish_reason :: finish_reason
  rcc_usage :: usage

record chat_completion_choice =
  ccc_index :: nat
  ccc_message :: chat_message
  ccc_finish_reason :: "finish_reason option"

record chat_completion_response =
  ccr_id :: rstr
  ccr_object :: rstr
  ccr_created :: int
  ccr_model :: rstr
  ccr_choices :: "chat_completion_choice list"
  ccr_usage :: usage

record completion_response =
  cpr_id :: rstr
  cpr_object :: rstr
  cpr_created :: int
  cpr_model :: rstr
  cpr_choices :: "completion_choice list"
  cpr_usage :: usage

text \<open>The steps that the streaming and the non-streaming answer share: argument shapes, the intent argument,
  repeated calls, and the checks against the request.\<close>

definition check_parsed_calls ::
  "chat_completion_request \<Rightarrow> parsed_assistant \<Rightarrow> (runtime_error, parsed_assistant) outcome" where
  "check_parsed_calls request parsed =
     and_ok (validate_tool_call_arguments parsed) (\<lambda>_.
       let filled = fill_missing_tool_intent_arguments parsed request
       in case classify_repeated_invalid_tool_call_no_progress filled request of
            Some class \<Rightarrow> Err (RtNoProgress class)
          | None \<Rightarrow> and_ok (validate_tool_calls_against_request filled request) (\<lambda>_. Ok filled))"

definition finish_chat ::
  "runtime_env \<Rightarrow> model_family \<Rightarrow> rstr \<Rightarrow> int \<Rightarrow> chat_completion_request \<Rightarrow> backend_output \<Rightarrow>
   (runtime_error, runtime_chat_completion) outcome" where
  "finish_chat env family new_id created request output =
     (case apply_stop_sequences (bo_text output) (cr_stop request) of
        None \<Rightarrow> Panic
      | Some (raw_text, stopped) \<Rightarrow>
          and_ok (parse_chat_text (env_json env) (env_string env) (env_ids env) family raw_text request) (\<lambda>answer.
          and_ok (check_parsed_calls request answer) (\<lambda>parsed.
          and_ok (validate_json_object_response_format (env_json env) parsed request) (\<lambda>_.
            case classify_chat_no_progress (env_unicode env) raw_text parsed (bo_completion_tokens output)
                   (request_requires_tool_choice request \<and> pa_tool_calls parsed = []) request
                   (family_tool_markup_policy family) of
              None \<Rightarrow> Panic
            | Some (Some class) \<Rightarrow> Err (RtNoProgress class)
            | Some None \<Rightarrow>
                Ok \<lparr>rcc_id = fmt [lit ''chatcmpl-'', new_id], rcc_created = created, rcc_model = cr_model request,
                    rcc_parsed = parsed,
                    rcc_finish_reason =
                      (if pa_tool_calls parsed \<noteq> [] then FinishToolCalls
                       else if stopped then FinishStop
                       else api_finish_reason (bo_finish_reason output)),
                    rcc_usage = usage_from_tokens (bo_prompt_tokens output) (bo_completion_tokens output)
                      (bo_prompt_cached_tokens output)\<rparr>))))"

definition complete_chat ::
  "runtime_env \<Rightarrow> runtime \<Rightarrow> rstr \<Rightarrow> int \<Rightarrow> chat_completion_request \<Rightarrow>
   (runtime_error, runtime_chat_completion) outcome" where
  "complete_chat env rt new_id created request =
     and_ok (chat_adapter_for_metadata (mb_metadata (rt_backend rt))) (\<lambda>family.
     and_ok (chat_backend_request (env_sha env) (env_tools env) rt family request) (\<lambda>backend_request.
       case mb_generate (rt_backend rt) backend_request of
         Inl e \<Rightarrow> Err (runtime_from_backend e)
       | Inr output \<Rightarrow> finish_chat env family new_id created request output))"

definition chat_response :: "runtime_chat_completion \<Rightarrow> chat_completion_response" where
  "chat_response completion =
     (let parsed = rcc_parsed completion;
          message = \<lparr>cm_role = RoleAssistant,
            cm_content = (if pa_content parsed \<noteq> [] then Some (pa_content parsed) else None),
            cm_name = None, cm_tool_call_id = None, cm_tool_calls = pa_tool_calls parsed\<rparr>
      in \<lparr>ccr_id = rcc_id completion, ccr_object = lit ''chat.completion'', ccr_created = rcc_created completion,
          ccr_model = rcc_model completion,
          ccr_choices = [\<lparr>ccc_index = 0, ccc_message = message, ccc_finish_reason = Some (rcc_finish_reason completion)\<rparr>],
          ccr_usage = rcc_usage completion\<rparr>)"

definition chat_validated_with_cancel ::
  "runtime_env \<Rightarrow> runtime \<Rightarrow> rstr \<Rightarrow> int \<Rightarrow> chat_completion_request validated \<Rightarrow>
   (runtime_error, chat_completion_response) outcome" where
  "chat_validated_with_cancel env rt new_id created request =
     and_ok (ensure_runtime_validated rt chat_validate_with_limits request) (\<lambda>validated.
       if cr_stream (va_inner validated) then
         Err (RtApi (unsupported_capability (lit ''streaming chat requests must use Runtime::chat_stream'')))
       else
         and_ok (validate_chat_request_capabilities rt (va_inner validated) False) (\<lambda>_.
         and_ok (complete_chat env rt new_id created (va_inner validated)) (\<lambda>completion.
           Ok (chat_response completion))))"

definition chat_with_cancel ::
  "runtime_env \<Rightarrow> runtime \<Rightarrow> rstr \<Rightarrow> int \<Rightarrow> chat_completion_request \<Rightarrow>
   (runtime_error, chat_completion_response) outcome" where
  "chat_with_cancel env rt new_id created request =
     and_ok (map_err RtApi
         (into_validated_with_limits chat_validate_with_limits request (ro_request_limits (rt_options rt))))
       (chat_validated_with_cancel env rt new_id created)"

text \<open>Text completions.\<close>

definition completion_validated_with_cancel ::
  "runtime_env \<Rightarrow> runtime \<Rightarrow> rstr \<Rightarrow> int \<Rightarrow> completion_request validated \<Rightarrow>
   (runtime_error, completion_response) outcome" where
  "completion_validated_with_cancel env rt new_id created request =
     and_ok (ensure_runtime_validated rt completion_validate_with_limits request) (\<lambda>validated.
       let req = va_inner validated
       in if co_stream req then
            Err (RtApi (unsupported_capability
              (lit ''streaming text completion requests must use Runtime::completion_stream'')))
          else
            and_ok (validate_completion_request_capabilities rt req False) (\<lambda>_.
            and_ok (completion_backend_request (env_sha env) req) (\<lambda>backend_request.
            and_ok (complete_text new_id created (co_model req) (co_stop req)
                (mb_generate (rt_backend rt) backend_request)) (\<lambda>completion.
              Ok \<lparr>cpr_id = rc_id completion, cpr_object = lit ''text_completion'', cpr_created = rc_created completion,
                  cpr_model = rc_model completion,
                  cpr_choices = [\<lparr>cc_text = rc_text completion, cc_index = 0,
                    cc_finish_reason = Some (rc_finish_reason completion)\<rparr>],
                  cpr_usage = rc_usage completion\<rparr>))))"

definition completion_with_cancel ::
  "runtime_env \<Rightarrow> runtime \<Rightarrow> rstr \<Rightarrow> int \<Rightarrow> completion_request \<Rightarrow> (runtime_error, completion_response) outcome" where
  "completion_with_cancel env rt new_id created request =
     and_ok (map_err RtApi
         (into_validated_with_limits completion_validate_with_limits request (ro_request_limits (rt_options rt))))
       (completion_validated_with_cancel env rt new_id created)"

section \<open>Lemmas\<close>

lemma validate_tool_call_arguments_Ok:
  "validate_tool_call_arguments parsed = Ok () \<longleftrightarrow>
   (\<forall>call \<in> set (pa_tool_calls parsed). as_object (tcf_arguments (tc_function call)) \<noteq> None)"
  unfolding validate_tool_call_arguments_def checks_Ok_iff set_map ball_simps by (simp split: if_splits)

lemma fill_other_fields [simp]:
  "pa_content (fill_missing_tool_intent_arguments parsed request) = pa_content parsed"
  "pa_reasoning (fill_missing_tool_intent_arguments parsed request) = pa_reasoning parsed"
  "pa_tool_calls (fill_missing_tool_intent_arguments parsed request) = map (fill_call request) (pa_tool_calls parsed)"
  by (simp_all add: fill_missing_tool_intent_arguments_def)

text \<open>\<open>calls_admitted request parsed\<close>: every call of an answer is one that the request admits, and none failed so often
  before that it makes no progress.\<close>

definition calls_admitted :: "chat_completion_request \<Rightarrow> parsed_assistant \<Rightarrow> bool" where
  "calls_admitted request parsed \<longleftrightarrow>
     (cr_tool_choice request = Some ChoiceNone \<longrightarrow> pa_tool_calls parsed = []) \<and>
     (\<forall>call \<in> set (pa_tool_calls parsed). call_admitted request call \<and>
        length (exact_repeats request call) < 4 \<and> length (fuzzy_repeats request call) < 2)"

lemma check_parsed_calls_Ok:
  "check_parsed_calls request answer = Ok parsed \<longleftrightarrow>
   (\<forall>call \<in> set (pa_tool_calls answer). as_object (tcf_arguments (tc_function call)) \<noteq> None) \<and>
   parsed = fill_missing_tool_intent_arguments answer request \<and> calls_admitted request parsed"
proof -
  let ?f = "fill_missing_tool_intent_arguments answer request"
  have "check_parsed_calls request answer = Ok parsed \<longleftrightarrow>
    (\<forall>call \<in> set (pa_tool_calls answer). as_object (tcf_arguments (tc_function call)) \<noteq> None) \<and>
    classify_repeated_invalid_tool_call_no_progress ?f request = None \<and>
    validate_tool_calls_against_request ?f request = Ok () \<and> parsed = ?f"
    by (auto simp: check_parsed_calls_def and_ok_Ok validate_tool_call_arguments_Ok Let_def split: option.splits)
  moreover have "classify_repeated_invalid_tool_call_no_progress ?f request = None \<and>
    validate_tool_calls_against_request ?f request = Ok () \<longleftrightarrow> calls_admitted request ?f"
    unfolding classify_repeated_None validate_request_calls_Ok calls_admitted_def by auto
  ultimately show ?thesis by auto
qed

lemma check_parsed_calls_no_panic: "check_parsed_calls request answer \<noteq> Panic"
proof -
  have "validate_tool_call_arguments answer \<noteq> Panic"
    unfolding validate_tool_call_arguments_def by (rule checks_no_Panic) (auto split: if_splits)
  moreover have "validate_tool_calls_against_request parsed request \<noteq> Panic" for parsed
    using only_tool_errors_request [of parsed request] by (auto simp: only_tool_errors_def)
  ultimately show ?thesis by (auto simp: check_parsed_calls_def and_ok_Panic Let_def split: option.splits)
qed

text \<open>\<open>answer_ok\<close>: what a client may rely on in an answer.\<close>

definition json_mode_ok :: "json_reader \<Rightarrow> chat_completion_request \<Rightarrow> parsed_assistant \<Rightarrow> bool" where
  "json_mode_ok rd request parsed \<longleftrightarrow>
     (cr_response_format request = Some FormatJsonObject \<longrightarrow>
        (if pa_content parsed = [] then pa_tool_calls parsed \<noteq> [] else \<exists>kvs. rd (pa_content parsed) = Inr (JObject kvs)))"

lemma validate_json_format_Ok:
  "validate_json_object_response_format rd parsed request = Ok () \<longleftrightarrow> json_mode_ok rd request parsed"
  by (auto simp: validate_json_object_response_format_def validate_json_object_response_def json_mode_ok_def as_object_Some
      split: sum.splits)

lemma validate_json_format_no_panic: "validate_json_object_response_format rd parsed request \<noteq> Panic"
  by (auto simp: validate_json_object_response_format_def validate_json_object_response_def split: sum.splits)

lemma apply_stop_total: "apply_stop_sequences s stop \<noteq> None"
proof (cases "earliest_stop_index s stop")
  case (Some n)
  obtain u v where "s = u @ v" "str_len u = n" using earliest_SomeD(3) [OF Some] by blast
  with Some apply_stop_Some [of u v stop] show ?thesis by simp
qed (simp add: apply_stop_None)

lemma finish_chat_Ok:
  assumes "finish_chat env family new_id created request output = Ok c"
  obtains raw stopped answer where "apply_stop_sequences (bo_text output) (cr_stop request) = Some (raw, stopped)"
    "parse_chat_text (env_json env) (env_string env) (env_ids env) family raw request = Ok answer"
    "rcc_parsed c = fill_missing_tool_intent_arguments answer request"
    "calls_admitted request (rcc_parsed c)" "json_mode_ok (env_json env) request (rcc_parsed c)"
    "makes_progress (env_unicode env) raw (rcc_parsed c)
       (request_requires_tool_choice request \<and> pa_tool_calls (rcc_parsed c) = []) request (family_tool_markup_policy family)"
    "rcc_finish_reason c = (if pa_tool_calls (rcc_parsed c) \<noteq> [] then FinishToolCalls
       else if stopped then FinishStop else api_finish_reason (bo_finish_reason output))"
    "rcc_usage c = usage_from_tokens (bo_prompt_tokens output) (bo_completion_tokens output) (bo_prompt_cached_tokens output)"
proof -
  obtain raw stopped where ap: "apply_stop_sequences (bo_text output) (cr_stop request) = Some (raw, stopped)"
    using apply_stop_total [of "bo_text output" "cr_stop request"] by auto
  from assms ap obtain answer parsed where steps:
    "parse_chat_text (env_json env) (env_string env) (env_ids env) family raw request = Ok answer"
    "check_parsed_calls request answer = Ok parsed"
    "validate_json_object_response_format (env_json env) parsed request = Ok ()"
    "classify_chat_no_progress (env_unicode env) raw parsed (bo_completion_tokens output)
       (request_requires_tool_choice request \<and> pa_tool_calls parsed = []) request (family_tool_markup_policy family) = Some None"
    and c: "rcc_parsed c = parsed" "rcc_finish_reason c = (if pa_tool_calls parsed \<noteq> [] then FinishToolCalls
       else if stopped then FinishStop else api_finish_reason (bo_finish_reason output))"
    "rcc_usage c = usage_from_tokens (bo_prompt_tokens output) (bo_completion_tokens output) (bo_prompt_cached_tokens output)"
    by (auto simp: finish_chat_def and_ok_Ok split: option.splits)
  have "parsed = fill_missing_tool_intent_arguments answer request" "calls_admitted request parsed"
    using steps(2) unfolding check_parsed_calls_Ok by blast+
  then show thesis
    using that [OF ap steps(1), unfolded c(1)] steps(3,4) c(2,3) unfolding validate_json_format_Ok classify_chat_None by blast
qed

lemma finish_chat_Panic:
  assumes "finish_chat env family new_id created request output = Panic"
  obtains raw where "parse_assistant_for_family (env_json env) (env_string env) (env_ids env) family raw = Panic"
    "prefix raw (bo_text output)"
proof -
  obtain raw stopped where ap: "apply_stop_sequences (bo_text output) (cr_stop request) = Some (raw, stopped)"
    using apply_stop_total [of "bo_text output" "cr_stop request"] by auto
  then have "prefix raw (bo_text output)"
    by (auto simp: apply_stop_sequences_def str_truncate_def str_upto_Some split: option.splits if_splits)
  moreover have "parse_chat_text (env_json env) (env_string env) (env_ids env) family raw request = Panic"
  proof (rule ccontr)
    assume np: "parse_chat_text (env_json env) (env_string env) (env_ids env) family raw request \<noteq> Panic"
    with assms ap show False
      by (auto simp: finish_chat_def and_ok_Panic check_parsed_calls_no_panic validate_json_format_no_panic classify_chat_total
          split: option.splits) (metis classify_chat_total not_None_eq)
  qed
  then have "parse_assistant_for_family (env_json env) (env_string env) (env_ids env) family raw = Panic"
    by (rule parse_chat_text_Panic)
  ultimately show thesis using that by blast
qed

section \<open>Properties\<close>

definition message_json_ok :: "json_reader \<Rightarrow> chat_completion_request \<Rightarrow> chat_message \<Rightarrow> bool" where
  "message_json_ok rd request message \<longleftrightarrow>
     (cr_response_format request = Some FormatJsonObject \<longrightarrow>
        (case cm_content message of
           None \<Rightarrow> cm_tool_calls message \<noteq> []
         | Some content \<Rightarrow> \<exists>kvs. rd content = Inr (JObject kvs)))"

text \<open>C8: What a client may rely on in a chat response. The request it answers was valid for the runtime's limits and
  did not ask for a stream; there is one choice, an assistant message; each of its tool calls names a
  declared tool, the required one if one was required by name, with an object of arguments that conforms
  to the schema declared for the tool; there is none if the request forbids tools; without tool calls there
  is text that is not blank; in JSON mode the text is a JSON object; and the finish reason is
  \<open>tool_calls\<close> whenever there are tool calls.\<close>

theorem chat_response_contract:
  assumes "chat_with_cancel env rt new_id created request = Ok response"
  shows "\<exists>message reason. ccr_choices response = [\<lparr>ccc_index = 0, ccc_message = message, ccc_finish_reason = Some reason\<rparr>] \<and>
    chat_validate_with_limits request (ro_request_limits (rt_options rt)) = Ok () \<and> \<not> cr_stream request \<and>
    cm_role message = RoleAssistant \<and>
    (\<forall>call \<in> set (cm_tool_calls message). call_admitted request call) \<and>
    (cr_tool_choice request = Some ChoiceNone \<longrightarrow> cm_tool_calls message = []) \<and>
    (if cm_tool_calls message = [] then \<exists>content. cm_content message = Some content \<and> trim content \<noteq> []
     else reason = FinishToolCalls) \<and>
    message_json_ok (env_json env) request message"
proof -
  from assms obtain completion where v: "chat_validate_with_limits request (ro_request_limits (rt_options rt)) = Ok ()"
    "\<not> cr_stream request" "complete_chat env rt new_id created request = Ok completion" "response = chat_response completion"
    by (auto simp: chat_with_cancel_def chat_validated_with_cancel_def into_validated_with_limits_def
        ensure_runtime_validated_def and_ok_Ok split: outcome.splits if_splits)
  from v(3) obtain family out where "finish_chat env family new_id created request out = Ok completion"
    by (auto simp: complete_chat_def and_ok_Ok split: sum.splits) (metis sum.exhaust)
  then obtain raw stopped where fin: "calls_admitted request (rcc_parsed completion)"
    "json_mode_ok (env_json env) request (rcc_parsed completion)"
    "makes_progress (env_unicode env) raw (rcc_parsed completion)
       (request_requires_tool_choice request \<and> pa_tool_calls (rcc_parsed completion) = []) request (family_tool_markup_policy family)"
    "rcc_finish_reason completion = (if pa_tool_calls (rcc_parsed completion) \<noteq> [] then FinishToolCalls
       else if stopped then FinishStop else api_finish_reason (bo_finish_reason out))"
    by (rule finish_chat_Ok)
  let ?p = "rcc_parsed completion"
  have blank: "pa_tool_calls ?p = [] \<Longrightarrow> trim (pa_content ?p) \<noteq> [] \<and> pa_content ?p \<noteq> []"
    using fin(3) by (auto simp: makes_progress_def trim_def trim_start_def trim_end_def)
  show ?thesis
    unfolding v(4) chat_response_def Let_def
    using v(1,2) fin(1,2,4) blank by (auto simp: calls_admitted_def json_mode_ok_def message_json_ok_def)
qed

text \<open>The runtime adds no panic of its own to a chat answer: if processing an answer panics, the tool parser of the model
  family panics on the text of the answer up to its first stop sequence.\<close>

theorem chat_panics_only_in_parser:
  assumes "finish_chat env family new_id created request output = Panic"
  shows "\<exists>raw. prefix raw (bo_text output) \<and>
    parse_assistant_for_family (env_json env) (env_string env) (env_ids env) family raw = Panic"
  using finish_chat_Panic [OF assms] by blast

section \<open>Instances\<close>

definition demo_env :: runtime_env where
  "demo_env =
     \<lparr>env_json = (\<lambda>s. if s = lit ''{}'' then Inr (JObject []) else Inl (lit ''expected value'')),
      env_string = (\<lambda>_. Inl []), env_ids = show_nat,
      env_unicode = \<lparr>is_alphanumeric = (\<lambda>c. 97 \<le> c \<and> c \<le> 122), to_lowercase = (\<lambda>c. [c])\<rparr>,
      env_sha = (\<lambda>_. replicate 64 48), env_tools = (\<lambda>_. Inr (lit ''[]''))\<rparr>"

definition demo_runtime :: "rstr \<Rightarrow> rstr \<Rightarrow> runtime" where
  "demo_runtime family answer =
     runtime_new \<lparr>mb_model_id = lit ''m'', mb_metadata = with_family family (model_metadata_new (lit ''m'') (lit ''demo'')),
       mb_capabilities = capabilities_all, mb_health = health_ready,
       mb_generate = (\<lambda>_. Inr \<lparr>bo_text = answer, bo_prompt_tokens = 3, bo_prompt_cached_tokens = None,
         bo_completion_tokens = 2, bo_finish_reason = BfStop\<rparr>),
       mb_generate_stream = (\<lambda>_. [])\<rparr>"

definition demo_chat :: chat_completion_request where
  "demo_chat =
     \<lparr>cr_model = lit ''m'', cr_messages = [chat_message_plain RoleUser (lit ''hi'')], cr_tools = [], cr_tool_choice = None,
      cr_parallel_tool_calls = None, cr_response_format = None, cr_stream = False,
      cr_stream_options = \<lparr>so_include_usage = False\<rparr>, cr_temperature = None, cr_top_p = None, cr_presence_penalty = None,
      cr_frequency_penalty = None, cr_logprobs = None, cr_top_logprobs = None, cr_max_tokens = None,
      cr_max_completion_tokens = None, cr_n = None, cr_stop = []\<rparr>"

lemma demo_chat_valid: "chat_validate_with_limits demo_chat request_limits_default = Ok ()"
proof -
  have "validate_chat_messages (cr_messages demo_chat) request_limits_default = Ok ()"
    by (simp add: demo_chat_def chat_message_plain_def validate_chat_messages_def message_order_start_def
        validate_chat_message_role_fields_def reject_tool_call_id_for_non_tool_message_def
        reject_tool_calls_for_non_assistant_message_def validate_chat_message_order_def
        reject_non_tool_message_while_tool_calls_pending_def validate_message_sizes_def
        validate_string_bytes_def validate_non_empty_string_def validate_len_at_most_def
        request_limits_default_def MAX_NAME_BYTES_def MAX_MESSAGE_CONTENT_BYTES_def
        MAX_TOOL_CALLS_PER_MESSAGE_def MAX_TOOL_ARGUMENT_BYTES_def lit_def len_utf8_def)
  moreover have "sampling_ok None None" by (simp add: sampling_ok_def)
  ultimately show ?thesis
    unfolding chat_validate_with_limits_def checks_Ok_iff
    by (simp add: demo_chat_def accepts_iff tool_choice_ok_def lit_def
        validate_tools_def MAX_CHAT_MESSAGES_def MAX_TOOLS_def del: checks.simps)
qed

lemma demo_sampling: "request_sampling None None = Ok sampling_standard"
  by (simp add: request_sampling_def from_openai_controls_def util_validate_sampling_controls_def)

lemma demo_prompt: "\<exists>prompt. render_prompt tj FamQwen (cr_messages demo_chat) [] = Ok prompt"
proof -
  have "reject_reserved_prompt_controls (lit ''hi'') = Ok ()"
    by (simp add: reject_reserved_prompt_controls_def reject_tokens_Ok qwen_reserved_def lit_def sublist_Cons_right)
  then show ?thesis
    by (simp add: demo_chat_def render_prompt_def render_qwen_chatml_with_tool_instruction_def remaining_messages_def
        render_plain_def chat_message_plain_def content_piece_def after_check_def)
qed

lemma qwen_plain:
  assumes "split_sub (lit ''<think>'') s = None" and "split_sub (lit ''<tool_call>'') s = None"
  shows "qwen_parse_complete rd ids s = Ok \<lparr>pa_reasoning = None, pa_content = s, pa_tool_calls = []\<rparr>"
  using assms qwen_tags.open_nonempty qwen_tags.close_nonempty
  by (simp add: qwen_parse_unguarded after_reasoning_def split_reasoning_def parse_tool_calls_def with_reasoning_def tagged_calls.simps)

lemmas demo_eval = lit_def split_sub_Cons starts_with_def trim_def trim_start_def trim_end_def is_whitespace_def

lemma demo_parse: "parse_chat_text rd rs ids FamQwen (lit ''hello'') demo_chat =
    Ok \<lparr>pa_reasoning = None, pa_content = lit ''hello'', pa_tool_calls = []\<rparr>"
proof -
  have "split_sub (lit ''<think>'') (lit ''hello'') = None" "split_sub (lit ''<tool_call>'') (lit ''hello'') = None"
    by (simp_all add: demo_eval)
  from qwen_plain [OF this] show ?thesis
    by (simp add: parse_chat_text_def unmarked_tool_json_without_declared_tools_def parses_unmarked_tool_calls_def
        json_object_mode_without_tools_def demo_chat_def parse_complete_def)
qed

lemma demo_progress:
  "makes_progress (env_unicode demo_env) (lit ''hello'') \<lparr>pa_reasoning = None, pa_content = lit ''hello'', pa_tool_calls = []\<rparr>
     False demo_chat policy"
  by (simp add: makes_progress_def repeated_assistant_content_def stalled_assistant_turn_def demo_chat_def demo_env_def
      chat_message_plain_def latest_user_content_def normalized_progress_terms_def no_space_progress_char_def
      meaningful_progress_term_count_def meaningful_progress_term_def demo_eval Let_def)

lemma demo_checked: "check_parsed_calls request \<lparr>pa_reasoning = r, pa_content = c, pa_tool_calls = []\<rparr> =
    Ok \<lparr>pa_reasoning = r, pa_content = c, pa_tool_calls = []\<rparr>"
  by (simp add: check_parsed_calls_Ok calls_admitted_def fill_missing_tool_intent_arguments_def)

lemma demo_finish:
  "\<exists>c. finish_chat demo_env FamQwen (lit ''1'') 0 demo_chat
     \<lparr>bo_text = lit ''hello'', bo_prompt_tokens = 3, bo_prompt_cached_tokens = None, bo_completion_tokens = 2, bo_finish_reason = BfStop\<rparr> = Ok c"
proof -
  have "classify_chat_no_progress (env_unicode demo_env) (lit ''hello'') \<lparr>pa_reasoning = None, pa_content = lit ''hello'', pa_tool_calls = []\<rparr>
     2 False demo_chat (family_tool_markup_policy FamQwen) = Some None"
    unfolding classify_chat_None by (rule demo_progress)
  moreover have "apply_stop_sequences (lit ''hello'') (cr_stop demo_chat) = Some (lit ''hello'', False)"
    "request_requires_tool_choice demo_chat = False"
    "validate_json_object_response_format rd p demo_chat = Ok ()" for rd p
    by (simp_all add: apply_stop_sequences_def demo_chat_def request_requires_tool_choice_def List.map_filter_def min_opt_def
        validate_json_object_response_format_def)
  ultimately show ?thesis by (simp add: finish_chat_def demo_parse demo_checked)
qed

lemma demo_backend [simp]:
  "mb_capabilities (rt_backend (demo_runtime f a)) = capabilities_all" "rt_options (demo_runtime f a) = runtime_options_default"
  "mb_generate (rt_backend (demo_runtime f a)) r = Inr \<lparr>bo_text = a, bo_prompt_tokens = 3, bo_prompt_cached_tokens = None,
     bo_completion_tokens = 2, bo_finish_reason = BfStop\<rparr>"
  "bm_family (mb_metadata (rt_backend (demo_runtime f a))) = Some f"
  by (simp_all add: demo_runtime_def runtime_new_def runtime_new_with_options_def with_family_def)

lemma demo_response: "\<exists>response. chat_with_cancel demo_env (demo_runtime (lit ''qwen'') (lit ''hello'')) (lit ''1'') 0 demo_chat = Ok response"
proof -
  let ?rt = "demo_runtime (lit ''qwen'') (lit ''hello'')"
  have fields: "cr_tools demo_chat = []" "cr_stream demo_chat = False" "cr_temperature demo_chat = None" "cr_top_p demo_chat = None"
    "cr_response_format demo_chat = None" "chat_request_uses_tools demo_chat = False"
    by (simp_all add: demo_chat_def chat_request_uses_tools_def chat_message_plain_def)
  have caps: "validate_chat_request_capabilities ?rt demo_chat False = Ok ()"
    by (simp add: validate_chat_request_capabilities_def validate_streaming_capability_def validate_sampling_capability_def
        fields demo_sampling capabilities_all_def sampling_standard_def)
  have family: "chat_adapter_for_metadata (mb_metadata (rt_backend ?rt)) = Ok FamQwen"
    by (simp add: chat_adapter_for_metadata_def parse_metadata_family_def family_parse_slug_def lit_def)
  obtain prompt where "render_prompt (env_tools demo_env) FamQwen (cr_messages demo_chat) [] = Ok prompt" using demo_prompt by blast
  then obtain br where "chat_backend_request (env_sha demo_env) (env_tools demo_env) ?rt FamQwen demo_chat = Ok br"
    by (simp add: chat_backend_request_def prepare_chat_backend_def effective_tools_def runtime_options_default_def fields
        demo_sampling Let_def)
  with demo_finish family obtain c where "complete_chat demo_env ?rt (lit ''1'') 0 demo_chat = Ok c"
    by (auto simp: complete_chat_def)
  then show ?thesis
    by (simp add: chat_with_cancel_def chat_validated_with_cancel_def into_validated_with_limits_def ensure_runtime_validated_def
        runtime_options_default_def demo_chat_valid fields caps)
qed

theorem chat_response_contract_witness:
  "\<exists>response message reason. chat_with_cancel demo_env (demo_runtime (lit ''qwen'') (lit ''hello'')) (lit ''1'') 0 demo_chat = Ok response \<and>
     ccr_choices response = [\<lparr>ccc_index = 0, ccc_message = message, ccc_finish_reason = Some reason\<rparr>] \<and>
     cm_role message = RoleAssistant"
proof -
  obtain response where r: "chat_with_cancel demo_env (demo_runtime (lit ''qwen'') (lit ''hello'')) (lit ''1'') 0 demo_chat = Ok response"
    using demo_response by blast
  with chat_response_contract [OF r] show ?thesis by blast
qed

theorem chat_panics_only_in_parser_witness:
  "\<exists>raw. prefix raw (lit ''<tool_call><function=</function></tool_call>'') \<and>
     parse_assistant_for_family (env_json demo_env) (env_string demo_env) (env_ids demo_env) FamQwen raw = Panic"
proof -
  let ?out = "\<lparr>bo_text = lit ''<tool_call><function=</function></tool_call>'', bo_prompt_tokens = 3, bo_prompt_cached_tokens = None,
    bo_completion_tokens = 2, bo_finish_reason = BfStop\<rparr>"
  have "qwen_parse_complete (env_json demo_env) (env_ids demo_env) (bo_text ?out) = Panic"
    using qwen_unclosed_panics by simp
  then have "finish_chat demo_env FamQwen (lit ''1'') 0 demo_chat ?out = Panic"
    by (simp add: finish_chat_def apply_stop_sequences_def demo_chat_def List.map_filter_def min_opt_def parse_chat_text_def
        unmarked_tool_json_without_declared_tools_def parses_unmarked_tool_calls_def json_object_mode_without_tools_def parse_complete_def)
  from chat_panics_only_in_parser [OF this] show ?thesis by simp
qed

text \<open>A required tool call can be left out. When the hidden reasoning of a Qwen answer mentions the start marker of a tool
  call, the check that plain text does not stand in for a required call is satisfied by that marker, and
  the text is returned as the answer, without any call.\<close>

theorem required_tool_call_left_out:
  "\<exists>c. finish_chat demo_env FamQwen (lit ''1'') 0
     (demo_chat\<lparr>cr_tools := [tool_definition_function (lit ''f'') (lit ''d'') (JObject [])], cr_tool_choice := Some ChoiceRequired\<rparr>)
     \<lparr>bo_text = lit ''<think><tool_call></think>sunny'', bo_prompt_tokens = 3, bo_prompt_cached_tokens = None,
      bo_completion_tokens = 2, bo_finish_reason = BfStop\<rparr> = Ok c \<and>
     pa_tool_calls (rcc_parsed c) = [] \<and> pa_content (rcc_parsed c) = lit ''sunny'' \<and> rcc_finish_reason c = FinishStop"
proof -
  let ?req = "demo_chat\<lparr>cr_tools := [tool_definition_function (lit ''f'') (lit ''d'') (JObject [])], cr_tool_choice := Some ChoiceRequired\<rparr>"
  let ?raw = "lit ''<think><tool_call></think>sunny''" and ?p = "\<lparr>pa_reasoning = Some (lit ''<tool_call>''), pa_content = lit ''sunny'', pa_tool_calls = []\<rparr>"
  have cuts: "split_sub (lit ''<think>'') ?raw = Some ([], lit ''<tool_call></think>sunny'')"
    "split_sub (lit ''</think>'') (lit ''<tool_call></think>sunny'') = Some (lit ''<tool_call>'', lit ''sunny'')"
    "split_sub (lit ''<tool_call>'') (lit ''sunny'') = None" by (simp_all add: demo_eval)
  then have "qwen_parse_complete rd ids ?raw = Ok ?p" for rd ids
    using qwen_tags.open_nonempty qwen_tags.close_nonempty
    by (simp add: qwen_parse_unguarded after_reasoning_def split_reasoning_def parse_tool_calls_def with_reasoning_def tagged_calls.simps)
  then have parse: "parse_chat_text rd rs ids FamQwen ?raw ?req = Ok ?p" for rd rs ids
    by (simp add: parse_chat_text_def unmarked_tool_json_without_declared_tools_def parses_unmarked_tool_calls_def
        json_object_mode_without_tools_def parse_complete_def)
  have "hit (start_markers (family_tool_markup_policy FamQwen)) ?raw 7"
    unfolding hit_def
    by (rule bexI [of _ "lit ''<tool_call>''"], rule exI [of _ "lit ''<think>''"], rule exI [of _ "lit ''</think>sunny''"])
      (simp_all add: JSON_TOOL_MARKERS_def lit_def len_utf8_def)
  then have "makes_progress (env_unicode demo_env) ?raw ?p True ?req (family_tool_markup_policy FamQwen)"
    by (auto simp: makes_progress_def repeated_assistant_content_def stalled_assistant_turn_def demo_chat_def demo_env_def
      chat_message_plain_def latest_user_content_def normalized_progress_terms_def no_space_progress_char_def
      meaningful_progress_term_count_def meaningful_progress_term_def demo_eval Let_def)
  then have "classify_chat_no_progress (env_unicode demo_env) ?raw ?p 2 True ?req (family_tool_markup_policy FamQwen) = Some None"
    by (simp only: classify_chat_None)
  moreover have "apply_stop_sequences ?raw (cr_stop ?req) = Some (?raw, False)" "request_requires_tool_choice ?req"
    "validate_json_object_response_format rd p ?req = Ok ()" for rd p
    by (simp_all add: apply_stop_sequences_def demo_chat_def request_requires_tool_choice_def List.map_filter_def min_opt_def
        validate_json_object_response_format_def)
  ultimately show ?thesis by (simp add: finish_chat_def parse demo_checked del: family_tool_markup_policy.simps)
qed

end
