(* ===== verification/Tool_Deltas.thy ===== *)
theory Tool_Deltas
  imports Response_Validation
begin

text \<open>
  Tool-call deltas (llm-runtime/src/tool_call.rs): the assembler that puts the structured deltas of a backend together to
  calls, and the serializer that turns calls into the deltas of a stream. The theorems say that fragments are
  put together in order, and that what the serializer sends is what the assembler makes of it.
\<close>

section \<open>Deltas\<close>

record tool_call_function_delta =
  tfd_name :: "rstr option"
  tfd_arguments :: "rstr option"

record tool_call_delta =
  tcd_index :: nat
  tcd_id :: "rstr option"
  tcd_call_type :: "tool_call_type option"
  tcd_function :: "tool_call_function_delta option"

section \<open>The assembler\<close>

record structured_tool_call_accumulator =
  sa_id :: "rstr option"
  sa_call_type :: "tool_call_type option"
  sa_name :: rstr
  sa_arguments :: rstr

definition accumulator_default :: structured_tool_call_accumulator where
  "accumulator_default = \<lparr>sa_id = None, sa_call_type = None, sa_name = [], sa_arguments = []\<rparr>"

text \<open>\<open>resize_to n d xs\<close>: \<open>resize_with\<close> when the vector is too short.\<close>

definition resize_to :: "nat \<Rightarrow> 'a \<Rightarrow> 'a list \<Rightarrow> 'a list" where
  "resize_to n d xs = (if length xs < n then xs @ replicate (n - length xs) d else xs)"

definition or_new :: "'a option \<Rightarrow> 'a option \<Rightarrow> 'a option" where
  "or_new new old = (case new of Some x \<Rightarrow> Some x | None \<Rightarrow> old)"

definition opt_str :: "rstr option \<Rightarrow> rstr" where
  "opt_str s = (case s of None \<Rightarrow> [] | Some t \<Rightarrow> t)"

definition accumulate :: "tool_call_delta \<Rightarrow> structured_tool_call_accumulator \<Rightarrow> structured_tool_call_accumulator" where
  "accumulate delta call =
     (let call1 = call\<lparr>sa_id := or_new (tcd_id delta) (sa_id call),
                       sa_call_type := or_new (tcd_call_type delta) (sa_call_type call)\<rparr>
      in case tcd_function delta of
           None \<Rightarrow> call1
         | Some function' \<Rightarrow>
             call1\<lparr>sa_name := sa_name call @ opt_str (tfd_name function'),
                   sa_arguments := sa_arguments call @ opt_str (tfd_arguments function')\<rparr>)"

definition assembler_push ::
  "tool_call_delta \<Rightarrow> structured_tool_call_accumulator list \<Rightarrow> structured_tool_call_accumulator list" where
  "assembler_push delta calls =
     (let resized = resize_to (tcd_index delta + 1) accumulator_default calls
      in resized[tcd_index delta := accumulate delta (resized ! tcd_index delta)])"

definition parse_structured_tool_arguments :: "json_reader \<Rightarrow> nat \<Rightarrow> rstr \<Rightarrow> (runtime_error, json) outcome" where
  "parse_structured_tool_arguments rd index arguments =
     (let trimmed = trim arguments
      in if trimmed = [] then Ok (JObject [])
         else case rd trimmed of
                Inr v \<Rightarrow> Ok v
              | Inl err \<Rightarrow> Err (RtToolCallValidation
                  (fmt [lit ''streamed tool call `'', show_nat index, lit ''` arguments were not valid JSON: '', err])))"

text \<open>One accumulated call; \<open>None\<close> if it is skipped.\<close>

definition structured_call ::
  "json_reader \<Rightarrow> (nat \<Rightarrow> rstr) \<Rightarrow> nat \<Rightarrow> structured_tool_call_accumulator \<Rightarrow> (runtime_error, tool_call option) outcome" where
  "structured_call rd ids index call =
     (if trim (sa_name call) = [] \<and> trim (sa_arguments call) = [] then Ok None
      else if trim (sa_name call) = [] then
        Err (RtToolCallValidation
          (fmt [lit ''streamed tool call `'', show_nat index, lit ''` was missing a function name'']))
      else
        and_ok (parse_structured_tool_arguments rd index (sa_arguments call)) (\<lambda>arguments.
          Ok (Some \<lparr>tc_id = (case sa_id call of Some i \<Rightarrow> i | None \<Rightarrow> ids index),
                    tc_call_type = (case sa_call_type call of Some t \<Rightarrow> t | None \<Rightarrow> ToolFunction),
                    tc_function = \<lparr>tcf_name = sa_name call, tcf_arguments = arguments\<rparr>\<rparr>)))"

fun structured_calls ::
  "json_reader \<Rightarrow> (nat \<Rightarrow> rstr) \<Rightarrow> nat \<Rightarrow> structured_tool_call_accumulator list \<Rightarrow> (runtime_error, tool_call list) outcome" where
  "structured_calls rd ids index [] = Ok []"
| "structured_calls rd ids index (call # calls) =
     and_ok (structured_call rd ids index call) (\<lambda>first.
     and_ok (structured_calls rd ids (index + 1) calls) (\<lambda>rest.
       Ok (case first of None \<Rightarrow> rest | Some c \<Rightarrow> c # rest)))"

definition into_parsed ::
  "json_reader \<Rightarrow> (nat \<Rightarrow> rstr) \<Rightarrow> structured_tool_call_accumulator list \<Rightarrow> rstr \<Rightarrow> (runtime_error, parsed_assistant) outcome" where
  "into_parsed rd ids calls content =
     and_ok (structured_calls rd ids 0 calls) (\<lambda>tool_calls.
     and_ok (map_err RtParser (split_reasoning content)) (\<lambda>(reasoning, visible).
       Ok \<lparr>pa_reasoning = reasoning, pa_content = visible, pa_tool_calls = tool_calls\<rparr>))"

definition structured_tool_delta_has_progress :: "tool_call_delta \<Rightarrow> bool" where
  "structured_tool_delta_has_progress delta \<longleftrightarrow>
     tcd_id delta \<noteq> None \<or> tcd_call_type delta \<noteq> None \<or>
     (case tcd_function delta of
        None \<Rightarrow> False
      | Some function' \<Rightarrow> tfd_name function' \<noteq> None \<or> tfd_arguments function' \<noteq> None)"

definition structured_tool_delta_without_arguments :: "tool_call_delta \<Rightarrow> tool_call_delta option" where
  "structured_tool_delta_without_arguments delta =
     (let function' = Option.bind (tcd_function delta) (\<lambda>f.
            map_option (\<lambda>name. \<lparr>tfd_name = Some name, tfd_arguments = None\<rparr>) (tfd_name f));
          stripped = \<lparr>tcd_index = tcd_index delta, tcd_id = tcd_id delta, tcd_call_type = tcd_call_type delta,
                      tcd_function = function'\<rparr>
      in if structured_tool_delta_has_progress stripped then Some stripped else None)"

section \<open>The serializer\<close>

text \<open>The serializer of tool-call deltas remembers the argument text of each index.\<close>

type_synonym delta_serializer = "rstr option list"

definition api_tool_call_index :: "nat \<Rightarrow> (runtime_error, nat) outcome" where
  "api_tool_call_index index =
     (if index < 2 ^ 32 then Ok index
      else Err (RtApi (invalid_request (lit ''tool call index does not fit u32: out of range integral type conversion attempted''))))"

definition serialized_arguments :: "delta_serializer \<Rightarrow> nat \<Rightarrow> json \<Rightarrow> delta_serializer \<times> rstr" where
  "serialized_arguments ser index arguments =
     (let resized = resize_to (index + 1) None ser
      in case resized ! index of
           Some serialized \<Rightarrow> (resized, serialized)
         | None \<Rightarrow> (resized[index := Some (json_compact arguments)], json_compact arguments))"

definition serializer_tool_call_delta ::
  "delta_serializer \<Rightarrow> nat \<Rightarrow> tool_call \<Rightarrow> (runtime_error, delta_serializer \<times> tool_call_delta) outcome" where
  "serializer_tool_call_delta ser index call =
     and_ok (api_tool_call_index index) (\<lambda>i.
       let (ser', arguments) = serialized_arguments ser index (tcf_arguments (tc_function call))
       in Ok (ser', \<lparr>tcd_index = i, tcd_id = Some (tc_id call), tcd_call_type = Some (tc_call_type call),
            tcd_function = Some \<lparr>tfd_name = Some (tcf_name (tc_function call)), tfd_arguments = Some arguments\<rparr>\<rparr>))"

definition tool_call_arguments_delta ::
  "delta_serializer \<Rightarrow> nat \<Rightarrow> tool_call \<Rightarrow> (runtime_error, delta_serializer \<times> tool_call_delta) outcome" where
  "tool_call_arguments_delta ser index call =
     and_ok (api_tool_call_index index) (\<lambda>i.
       let (ser', arguments) = serialized_arguments ser index (tcf_arguments (tc_function call))
       in Ok (ser', \<lparr>tcd_index = i, tcd_id = None, tcd_call_type = None,
            tcd_function = Some \<lparr>tfd_name = None, tfd_arguments = Some arguments\<rparr>\<rparr>))"

section \<open>Assembly\<close>

definition delta_name :: "tool_call_delta \<Rightarrow> rstr" where
  "delta_name d = opt_str (Option.bind (tcd_function d) tfd_name)"

definition delta_arguments :: "tool_call_delta \<Rightarrow> rstr" where
  "delta_arguments d = opt_str (Option.bind (tcd_function d) tfd_arguments)"

lemma accumulate_fields:
  "sa_name (accumulate d c) = sa_name c @ delta_name d" "sa_arguments (accumulate d c) = sa_arguments c @ delta_arguments d"
  by (auto simp: accumulate_def delta_name_def delta_arguments_def opt_str_def Let_def split: option.splits)

lemma resize_to_length [simp]: "length (resize_to n d xs) = max n (length xs)"
  by (simp add: resize_to_def max_def)

lemma resize_to_nth: "i < length (resize_to n d xs) \<Longrightarrow> resize_to n d xs ! i = (if i < length xs then xs ! i else d)"
  by (auto simp: resize_to_def nth_append)

lemma push_length [simp]: "length (assembler_push d cs) = max (tcd_index d + 1) (length cs)"
  by (simp add: assembler_push_def Let_def)

lemma push_nth:
  assumes "i < length (assembler_push d cs)"
  shows "assembler_push d cs ! i =
    (let c = if i < length cs then cs ! i else accumulator_default in if i = tcd_index d then accumulate d c else c)"
  using assms by (auto simp: assembler_push_def Let_def resize_to_nth nth_list_update)

lemma pushes_length: "length (fold assembler_push ds cs) = fold (\<lambda>d n. max (tcd_index d + 1) n) ds (length cs)"
  by (induction ds arbitrary: cs) simp_all

lemma pushes_length_ge: "length cs \<le> length (fold assembler_push ds cs)"
proof (induction ds arbitrary: cs)
  case (Cons d ds)
  from Cons [of "assembler_push d cs"] show ?case by simp
qed simp

lemma deltas_assemble_from:
  assumes "i < length (fold assembler_push ds cs)"
  shows "sa_name (fold assembler_push ds cs ! i) =
      sa_name (if i < length cs then cs ! i else accumulator_default) @ concat (map delta_name (filter (\<lambda>d. tcd_index d = i) ds)) \<and>
    sa_arguments (fold assembler_push ds cs ! i) =
      sa_arguments (if i < length cs then cs ! i else accumulator_default) @ concat (map delta_arguments (filter (\<lambda>d. tcd_index d = i) ds))"
  using assms
proof (induction ds arbitrary: cs)
  case (Cons d ds)
  let ?cs = "assembler_push d cs"
  note IH = Cons.IH [of ?cs]
  show ?case
  proof (cases "i < length ?cs")
    case True
    then have "?cs ! i = (let c = if i < length cs then cs ! i else accumulator_default in if i = tcd_index d then accumulate d c else c)"
      by (rule push_nth)
    with IH Cons.prems True show ?thesis by (auto simp: accumulate_fields Let_def)
  next
    case False
    then have "tcd_index d \<noteq> i" "\<not> i < length cs" by auto
    with IH Cons.prems False show ?thesis by simp
  qed
qed simp

text \<open>The fragments of a call are put together in the order in which they come, whatever fragments of other calls come
  between them: each call has the concatenated names and arguments of the deltas with its index.\<close>

theorem structured_deltas_assemble:
  assumes "i < length (fold assembler_push deltas [])"
  shows "sa_name (fold assembler_push deltas [] ! i) = concat (map delta_name (filter (\<lambda>d. tcd_index d = i) deltas)) \<and>
    sa_arguments (fold assembler_push deltas [] ! i) = concat (map delta_arguments (filter (\<lambda>d. tcd_index d = i) deltas))"
  using deltas_assemble_from [OF assms] by (simp add: accumulator_default_def)

section \<open>Serialising and assembling again\<close>

text \<open>The deltas of a list of calls, as a stream sends them.\<close>

fun serialize_calls :: "delta_serializer \<Rightarrow> (nat \<times> tool_call) list \<Rightarrow> (runtime_error, tool_call_delta list) outcome" where
  "serialize_calls ser [] = Ok []"
| "serialize_calls ser ((i, c) # rest) =
     and_ok (serializer_tool_call_delta ser i c) (\<lambda>(ser', delta).
     and_ok (serialize_calls ser' rest) (\<lambda>deltas. Ok (delta # deltas)))"

definition call_delta :: "nat \<Rightarrow> tool_call \<Rightarrow> tool_call_delta" where
  "call_delta i c = \<lparr>tcd_index = i, tcd_id = Some (tc_id c), tcd_call_type = Some (tc_call_type c),
     tcd_function = Some \<lparr>tfd_name = Some (tcf_name (tc_function c)),
       tfd_arguments = Some (json_compact (tcf_arguments (tc_function c)))\<rparr>\<rparr>"

lemma serialize_new:
  assumes "length ser = i" and "i < 2 ^ 32"
  shows "\<exists>ser'. serializer_tool_call_delta ser i c = Ok (ser', call_delta i c) \<and> length ser' = i + 1"
  using assms
  by (simp add: serializer_tool_call_delta_def api_tool_call_index_def serialized_arguments_def resize_to_def call_delta_def
      nth_append Let_def)

lemma serialize_calls_eq:
  "length ser = k \<Longrightarrow> k + length cs \<le> 2 ^ 32 \<Longrightarrow>
   serialize_calls ser (List.enumerate k cs) = Ok (map (\<lambda>(i, c). call_delta i c) (List.enumerate k cs))"
proof (induction cs arbitrary: ser k)
  case (Cons c cs)
  obtain ser' where "serializer_tool_call_delta ser k c = Ok (ser', call_delta k c)" "length ser' = k + 1"
    using serialize_new [of ser k c] Cons.prems by auto
  with Cons.IH [of ser' "Suc k"] Cons.prems show ?case by simp
qed simp

definition accumulated :: "tool_call \<Rightarrow> structured_tool_call_accumulator" where
  "accumulated c = \<lparr>sa_id = Some (tc_id c), sa_call_type = Some (tc_call_type c), sa_name = tcf_name (tc_function c),
     sa_arguments = json_compact (tcf_arguments (tc_function c))\<rparr>"

lemma assemble_serialized:
  "length acc = k \<Longrightarrow> fold assembler_push (map (\<lambda>(i, c). call_delta i c) (List.enumerate k cs)) acc = acc @ map accumulated cs"
proof (induction cs arbitrary: acc k)
  case (Cons c cs)
  have "assembler_push (call_delta k c) acc = acc @ [accumulated c]"
    using Cons.prems
    by (simp add: assembler_push_def resize_to_def accumulate_def call_delta_def accumulated_def accumulator_default_def or_new_def
        opt_str_def nth_append list_update_append Let_def)
  with Cons.IH [of "acc @ [accumulated c]" "Suc k"] Cons.prems show ?case by simp
qed simp

lemma trim_braces: "trim (123 # s @ [125]) = 123 # s @ [125]"
  by (simp add: trim_def trim_start_def trim_end_def is_whitespace_def)

lemma members_text_closed: obtains s where "members_text first kvs = s @ [125]"
proof -
  have "\<exists>s. members_text first kvs = s @ [125]"
  proof (induction kvs arbitrary: first)
    case (Cons kv kvs)
    obtain k v where kv: "kv = (k, v)" by fastforce
    obtain s where "members_text False kvs = s @ [125]" using Cons by blast
    then show ?case
      by (intro exI [of _ "(if first then [] else [44]) @ json_quote k @ [58] @ json_compact v @ s"]) (simp add: kv)
  qed simp
  with that show thesis by blast
qed

lemma trim_json_object: "trim (json_compact (JObject kvs)) = json_compact (JObject kvs)"
proof -
  obtain s where "members_text True kvs = s @ [125]" by (rule members_text_closed)
  then show ?thesis using trim_braces by simp
qed

definition callable :: "json_reader \<Rightarrow> tool_call \<Rightarrow> bool" where
  "callable rd c \<longleftrightarrow> trim (tcf_name (tc_function c)) \<noteq> [] \<and>
     (\<exists>kvs. tcf_arguments (tc_function c) = JObject kvs \<and> rd (json_compact (JObject kvs)) = Inr (JObject kvs))"

lemma structured_call_accumulated:
  assumes "callable rd c"
  shows "structured_call rd ids i (accumulated c) = Ok (Some c)"
proof -
  obtain kvs where kvs: "tcf_arguments (tc_function c) = JObject kvs" "rd (json_compact (JObject kvs)) = Inr (JObject kvs)"
    and name: "trim (tcf_name (tc_function c)) \<noteq> []" using assms by (auto simp: callable_def)
  have "parse_structured_tool_arguments rd i (json_compact (JObject kvs)) = Ok (JObject kvs)"
    using kvs(2) trim_json_object [of kvs] by (simp add: parse_structured_tool_arguments_def Let_def del: json_compact.simps) simp
  with name kvs(1) show ?thesis
    by (simp add: structured_call_def accumulated_def del: json_compact.simps)
qed

lemma structured_calls_accumulated:
  "list_all (callable rd) cs \<Longrightarrow> structured_calls rd ids k (map accumulated cs) = Ok cs"
  by (induction cs arbitrary: k) (simp_all add: structured_call_accumulated)

text \<open>What a stream sends of its tool calls can be put together again: the deltas that the serializer makes of a list of
  calls with object arguments, pushed one after the other into an empty assembler, give back the calls, when
  the JSON reader reads what the writer wrote.\<close>

theorem streamed_calls_roundtrip:
  assumes "list_all (callable rd) calls" and "length calls \<le> 2 ^ 32"
  shows "\<exists>deltas. serialize_calls [] (List.enumerate 0 calls) = Ok deltas \<and>
    structured_calls rd ids 0 (fold assembler_push deltas []) = Ok calls"
  using serialize_calls_eq [of "[]" 0 calls] assemble_serialized [of "[]" 0 calls] structured_calls_accumulated [OF assms(1)] assms(2)
  by simp

theorem streamed_calls_roundtrip_witness:
  "\<exists>deltas. serialize_calls [] (List.enumerate 0 [\<lparr>tc_id = lit ''a'', tc_call_type = ToolFunction,
      tc_function = \<lparr>tcf_name = lit ''f'', tcf_arguments = JObject []\<rparr>\<rparr>]) = Ok deltas \<and>
    structured_calls (\<lambda>s. if s = lit ''{}'' then Inr (JObject []) else Inl []) (\<lambda>_. []) 0 (fold assembler_push deltas []) =
      Ok [\<lparr>tc_id = lit ''a'', tc_call_type = ToolFunction, tc_function = \<lparr>tcf_name = lit ''f'', tcf_arguments = JObject []\<rparr>\<rparr>]"
  by (rule streamed_calls_roundtrip)
    (simp_all add: callable_def lit_def trim_def trim_start_def trim_end_def is_whitespace_def)

end
