(* ===== verification/Chat_Stream.thy ===== *)
theory Chat_Stream
  imports Chat_Completion Completion_Stream_Props Tool_Deltas
begin

text \<open>
  The streaming half of the runtime (llm-runtime/src/streaming.rs): the chat stream with its deferred modes, the progress
  metadata of both streams, and the streaming entry points of chat.rs and completions.rs.

  As for completions, a stream is the list of its events with the result of the generator. The parser is called once
  for every completed tool call and once at the end; the n-th call draws its identifiers from \<open>ids n\<close>.
\<close>

section \<open>Events\<close>

record chat_completion_delta =
  cd_role :: "chat_role option"
  cd_content :: "rstr option"
  cd_tool_calls :: "tool_call_delta list"

record chat_completion_stream_choice =
  csc_index :: nat
  csc_delta :: chat_completion_delta
  csc_finish_reason :: "finish_reason option"

record chat_completion_stream_response =
  ccs_id :: rstr
  ccs_object :: rstr
  ccs_created :: int
  ccs_model :: rstr
  ccs_choices :: "chat_completion_stream_choice list"
  ccs_usage :: "usage option"

datatype chat_completion_stream_stage =
    ToolArgumentAssemblyComplete
  | ToolIntentFillComplete
  | ToolSchemaValidationComplete

datatype chat_completion_stream_event =
    CevChunk chat_completion_stream_response
  | CevProgress backend_stream_progress
  | CevInternalProgress nat
  | CevStage chat_completion_stream_stage
  | CevComplete usage

type_synonym 'a chat_emits = "(chat_completion_stream_event, 'a) emits"

definition delta_default :: chat_completion_delta where
  "delta_default = \<lparr>cd_role = None, cd_content = None, cd_tool_calls = []\<rparr>"

definition stream_seed_chunk ::
  "runtime_completion_seed \<Rightarrow> chat_completion_delta \<Rightarrow> finish_reason option \<Rightarrow> usage option \<Rightarrow> chat_completion_stream_response" where
  "stream_seed_chunk seed delta finish_reason usage_opt =
     \<lparr>ccs_id = seed_id seed, ccs_object = lit ''chat.completion.chunk'', ccs_created = seed_created seed,
      ccs_model = seed_model seed,
      ccs_choices =
        (if usage_opt \<noteq> None then []
         else [\<lparr>csc_index = 0, csc_delta = delta, csc_finish_reason = finish_reason\<rparr>]),
      ccs_usage = usage_opt\<rparr>"

text \<open>The three deltas that a stream sends.\<close>

definition content_event :: "runtime_completion_seed \<Rightarrow> rstr \<Rightarrow> chat_completion_stream_event" where
  "content_event seed text = CevChunk (stream_seed_chunk seed (delta_default\<lparr>cd_content := Some text\<rparr>) None None)"

definition tool_calls_event :: "runtime_completion_seed \<Rightarrow> tool_call_delta list \<Rightarrow> chat_completion_stream_event" where
  "tool_calls_event seed deltas = CevChunk (stream_seed_chunk seed (delta_default\<lparr>cd_tool_calls := deltas\<rparr>) None None)"

definition role_event :: "runtime_completion_seed \<Rightarrow> chat_completion_stream_event" where
  "role_event seed = CevChunk (stream_seed_chunk seed (delta_default\<lparr>cd_role := Some RoleAssistant\<rparr>) None None)"

section \<open>Progress metadata and collected streams\<close>

record stream_progress_metadata =
  sp_real_delta_bytes :: nat
  sp_has_tool_delta :: bool
  sp_has_tool_call_finish :: bool

definition progress_metadata_default :: stream_progress_metadata where
  "progress_metadata_default = \<lparr>sp_real_delta_bytes = 0, sp_has_tool_delta = False, sp_has_tool_call_finish = False\<rparr>"

definition opt_len :: "rstr option \<Rightarrow> nat" where
  "opt_len s = (case s of None \<Rightarrow> 0 | Some t \<Rightarrow> str_len t)"

definition tool_call_delta_progress_bytes :: "tool_call_delta \<Rightarrow> nat" where
  "tool_call_delta_progress_bytes tool_call =
     opt_len (tcd_id tool_call) +
     (case tcd_function tool_call of
        None \<Rightarrow> 0
      | Some function' \<Rightarrow> opt_len (tfd_name function') + opt_len (tfd_arguments function'))"

definition tool_delta_progress :: "tool_call_delta \<Rightarrow> stream_progress_metadata \<Rightarrow> stream_progress_metadata" where
  "tool_delta_progress tool_call md =
     md\<lparr>sp_real_delta_bytes := sp_real_delta_bytes md + max (tool_call_delta_progress_bytes tool_call) 1,
        sp_has_tool_delta := True\<rparr>"

definition choice_progress :: "chat_completion_stream_choice \<Rightarrow> stream_progress_metadata \<Rightarrow> stream_progress_metadata" where
  "choice_progress choice md =
     (let md1 = md\<lparr>sp_real_delta_bytes := sp_real_delta_bytes md + opt_len (cd_content (csc_delta choice))\<rparr>;
          md2 = fold tool_delta_progress (cd_tool_calls (csc_delta choice)) md1
      in md2\<lparr>sp_has_tool_call_finish := sp_has_tool_call_finish md2 \<or> csc_finish_reason choice = Some FinishToolCalls\<rparr>)"

definition chat_stream_progress_metadata :: "chat_completion_stream_response \<Rightarrow> stream_progress_metadata" where
  "chat_stream_progress_metadata chunk = fold choice_progress (ccs_choices chunk) progress_metadata_default"

fun chat_event_progress_metadata :: "chat_completion_stream_event \<Rightarrow> stream_progress_metadata" where
  "chat_event_progress_metadata (CevChunk chunk) = chat_stream_progress_metadata chunk"
| "chat_event_progress_metadata _ = progress_metadata_default"

definition completion_stream_progress_metadata :: "completion_stream_response \<Rightarrow> stream_progress_metadata" where
  "completion_stream_progress_metadata chunk =
     progress_metadata_default\<lparr>sp_real_delta_bytes := sum_list (map (\<lambda>choice. str_len (cc_text choice)) (csr_choices chunk))\<rparr>"

fun completion_event_progress_metadata :: "completion_stream_event \<Rightarrow> stream_progress_metadata" where
  "completion_event_progress_metadata (EvChunk chunk) = completion_stream_progress_metadata chunk"
| "completion_event_progress_metadata _ = progress_metadata_default"

text \<open>\<open>collect_chunks\<close>: the chunks and the usage of a stream that ends well.\<close>

fun collect_chat_event ::
  "chat_completion_stream_event \<Rightarrow> chat_completion_stream_response list \<times> usage option \<Rightarrow>
   chat_completion_stream_response list \<times> usage option" where
  "collect_chat_event (CevChunk chunk) (chunks, us) = (chunks @ [chunk], us)"
| "collect_chat_event (CevComplete final_usage) (chunks, us) = (chunks, Some final_usage)"
| "collect_chat_event _ (chunks, us) = (chunks, us)"

definition chat_collect_chunks ::
  "unit chat_emits \<Rightarrow> (runtime_error, chat_completion_stream_response list \<times> usage) outcome" where
  "chat_collect_chunks stream =
     and_ok (snd stream) (\<lambda>_.
       let (chunks, us) = fold collect_chat_event (fst stream) ([], None)
       in Ok (chunks, case us of Some u \<Rightarrow> u | None \<Rightarrow> usage_new 0 0))"

fun collect_completion_event ::
  "completion_stream_event \<Rightarrow> completion_stream_response list \<times> usage option \<Rightarrow> completion_stream_response list \<times> usage option" where
  "collect_completion_event (EvChunk chunk) (chunks, us) = (chunks @ [chunk], us)"
| "collect_completion_event (EvComplete final_usage) (chunks, us) = (chunks, Some final_usage)"
| "collect_completion_event _ (chunks, us) = (chunks, us)"

definition completion_collect_chunks ::
  "unit emitting \<Rightarrow> (runtime_error, completion_stream_response list \<times> usage) outcome" where
  "completion_collect_chunks stream =
     and_ok (snd stream) (\<lambda>_.
       let (chunks, us) = fold collect_completion_event (fst stream) ([], None)
       in Ok (chunks, case us of Some u \<Rightarrow> u | None \<Rightarrow> usage_new 0 0))"

section \<open>The chat stream\<close>

datatype deferred_emission = DeferNone | JsonObjectMode | ToolChoiceRequired | UnmarkedToolBuffer

definition UNMARKED_TOOL_BUFFER_FLUSH_THRESHOLD :: nat where
  "UNMARKED_TOOL_BUFFER_FLUSH_THRESHOLD = 256"

definition deferred_emission_strategy :: "bool \<Rightarrow> bool \<Rightarrow> bool \<Rightarrow> deferred_emission" where
  "deferred_emission_strategy json_object_mode requires_tool_choice buffers_unmarked_tool_candidates =
     (if json_object_mode then JsonObjectMode
      else if requires_tool_choice then ToolChoiceRequired
      else if buffers_unmarked_tool_candidates then UnmarkedToolBuffer
      else DeferNone)"

definition looks_like_unmarked_tool_json_candidate :: "rstr \<Rightarrow> bool" where
  "looks_like_unmarked_tool_json_candidate raw_text =
     (let trimmed = trim_start raw_text
      in trimmed = [] \<or> starts_with (lit ''{'') trimmed \<or> starts_with (lit ''['') trimmed \<or> starts_with (lit ''```'') trimmed)"

definition unmarked_tool_buffer_can_stream_text :: "rstr \<Rightarrow> tool_markup_stream_state \<Rightarrow> bool" where
  "unmarked_tool_buffer_can_stream_text raw_text tool_markup_state \<longleftrightarrow>
     \<not> contains_start tool_markup_state \<and> \<not> looks_like_unmarked_tool_json_candidate raw_text"

fun api_tool_call_type :: "backend_tool_call_type \<Rightarrow> tool_call_type" where
  "api_tool_call_type BtcFunction = ToolFunction"

definition api_tool_call_function_delta :: "backend_tool_call_function_delta \<Rightarrow> tool_call_function_delta" where
  "api_tool_call_function_delta f = \<lparr>tfd_name = bfd_name f, tfd_arguments = bfd_arguments f\<rparr>"

definition api_tool_call_delta :: "backend_tool_call_delta \<Rightarrow> tool_call_delta" where
  "api_tool_call_delta delta =
     \<lparr>tcd_index = btd_index delta, tcd_id = btd_id delta, tcd_call_type = map_option api_tool_call_type (btd_call_type delta),
      tcd_function = map_option api_tool_call_function_delta (btd_function delta)\<rparr>"

definition internal_progress_bytes :: "backend_stream_chunk \<Rightarrow> nat" where
  "internal_progress_bytes chunk =
     str_len (bsc_text chunk) +
     sum_list (map (\<lambda>delta. opt_len (Option.bind (btd_function delta) bfd_arguments)) (bsc_tool_call_deltas chunk))"

text \<open>What is fixed for one stream, and the variables of its generator.\<close>

record chat_stream_config =
  sc_env :: runtime_env
  sc_ids :: "nat \<Rightarrow> nat \<Rightarrow> rstr"
  sc_seed :: runtime_completion_seed
  sc_request :: chat_completion_request
  sc_family :: model_family
  sc_include_usage :: bool

record chat_stream_state =
  ks_raw_text :: rstr
  ks_emitted_len :: nat
  ks_prompt_tokens :: nat
  ks_prompt_cached_tokens :: "nat option"
  ks_completion_tokens :: nat
  ks_finish_reason :: finish_reason
  ks_stopped_by_sequence :: bool
  ks_stop_at_len :: "nat option"
  ks_emitted_tool_calls :: nat
  ks_parsed_tool_prefix_len :: nat
  ks_markup :: tool_markup_stream_state
  ks_serializer :: delta_serializer
  ks_assembler :: "structured_tool_call_accumulator list"
  ks_detector :: stop_detector
  ks_parses :: nat

definition chat_stream_start :: "chat_stream_config \<Rightarrow> chat_stream_state" where
  "chat_stream_start cfg =
     \<lparr>ks_raw_text = [], ks_emitted_len = 0, ks_prompt_tokens = 0, ks_prompt_cached_tokens = None, ks_completion_tokens = 0,
      ks_finish_reason = FinishLength, ks_stopped_by_sequence = False, ks_stop_at_len = None, ks_emitted_tool_calls = 0,
      ks_parsed_tool_prefix_len = 0, ks_markup = stream_state (family_tool_markup_policy (sc_family cfg)),
      ks_serializer = [], ks_assembler = [], ks_detector = stop_detector_new (cr_stop (sc_request cfg)), ks_parses = 0\<rparr>"

definition sc_deferred :: "chat_stream_config \<Rightarrow> deferred_emission" where
  "sc_deferred cfg =
     deferred_emission_strategy (cr_response_format (sc_request cfg) = Some FormatJsonObject)
       (request_requires_tool_choice (sc_request cfg))
       (parses_unmarked_tool_calls (sc_family cfg) \<and> cr_tools (sc_request cfg) \<noteq> [])"

text \<open>\<open>quietly\<close>: a step of the generator that yields nothing.\<close>

definition quietly :: "(runtime_error, 'a) outcome \<Rightarrow> 'a chat_emits" where
  "quietly r = ([], r)"

definition chat_counters :: "backend_stream_chunk \<Rightarrow> chat_stream_state \<Rightarrow> chat_stream_state" where
  "chat_counters chunk st =
     st\<lparr>ks_prompt_tokens := max (ks_prompt_tokens st) (bsc_prompt_tokens chunk),
        ks_prompt_cached_tokens := max_optional_u64 (ks_prompt_cached_tokens st) (bsc_prompt_cached_tokens chunk),
        ks_completion_tokens := sat_add (ks_completion_tokens st) (bsc_completion_tokens chunk)\<rparr>"

definition chat_progress_event :: "backend_stream_chunk \<Rightarrow> chat_completion_stream_event list" where
  "chat_progress_event chunk = (case bsc_progress chunk of None \<Rightarrow> [] | Some p \<Rightarrow> [CevProgress p])"

text \<open>Each step returns the state and whether it sent a public chunk.\<close>

definition structured_step ::
  "chat_stream_config \<Rightarrow> backend_stream_chunk \<Rightarrow> chat_stream_state \<Rightarrow> (chat_stream_state \<times> bool) chat_emits" where
  "structured_step cfg chunk st =
     (if bsc_tool_call_deltas chunk = [] then ([], Ok (st, False))
      else
        let deltas = map api_tool_call_delta (bsc_tool_call_deltas chunk);
            st1 = st\<lparr>ks_assembler := fold assembler_push deltas (ks_assembler st)\<rparr>;
            public = (if request_may_fill_tool_intent_arguments (sc_request cfg)
                      then List.map_filter structured_tool_delta_without_arguments deltas else deltas)
        in if public \<noteq> [] then ([tool_calls_event (sc_seed cfg) public], Ok (st1, True)) else ([], Ok (st1, False)))"

text \<open>Yield the text from the emitted length to \<open>n\<close>.\<close>

definition emit_content :: "chat_stream_config \<Rightarrow> nat \<Rightarrow> chat_stream_state \<Rightarrow> (chat_stream_state \<times> bool) chat_emits" where
  "emit_content cfg n st =
     (case str_slice (ks_emitted_len st) n (ks_raw_text st) of
        None \<Rightarrow> ([], Panic)
      | Some text \<Rightarrow> ([content_event (sc_seed cfg) text], Ok (st\<lparr>ks_emitted_len := n\<rparr>, True)))"

definition safe_len :: "chat_stream_config \<Rightarrow> chat_stream_state \<Rightarrow> nat" where
  "safe_len cfg st =
     min (safe_stream_emit_len (ks_raw_text st) (max_stop_sequence_len (cr_stop (sc_request cfg))))
       (safe_emit_len (ks_markup st) (ks_raw_text st))"

definition inline_step :: "chat_stream_config \<Rightarrow> chat_stream_state \<Rightarrow> (chat_stream_state \<times> bool) chat_emits" where
  "inline_step cfg st =
     (if sc_deferred cfg = DeferNone \<and> ks_emitted_len st < safe_len cfg st then emit_content cfg (safe_len cfg st) st
      else ([], Ok (st, False)))"

text \<open>Yield one delta for each call, with the serializer threaded through.\<close>

fun emit_calls ::
  "chat_stream_config \<Rightarrow> (delta_serializer \<Rightarrow> nat \<Rightarrow> tool_call \<Rightarrow> (runtime_error, delta_serializer \<times> tool_call_delta) outcome) \<Rightarrow>
   delta_serializer \<Rightarrow> (nat \<times> tool_call) list \<Rightarrow> delta_serializer chat_emits" where
  "emit_calls cfg mk ser [] = ([], Ok ser)"
| "emit_calls cfg mk ser ((index, call) # rest) =
     and_then (quietly (mk ser index call)) (\<lambda>(ser', delta).
     and_then ([tool_calls_event (sc_seed cfg) [delta]], Ok ()) (\<lambda>_.
       emit_calls cfg mk ser' rest))"

definition unsent_calls :: "nat \<Rightarrow> parsed_assistant \<Rightarrow> (nat \<times> tool_call) list" where
  "unsent_calls sent parsed = drop sent (List.enumerate 0 (pa_tool_calls parsed))"

definition tool_prefix_step :: "chat_stream_config \<Rightarrow> chat_stream_state \<Rightarrow> (chat_stream_state \<times> bool) chat_emits" where
  "tool_prefix_step cfg st =
     (case tm_completed_prefix_len (ks_markup st) of
        None \<Rightarrow> ([], Ok (st, False))
      | Some tool_prefix_len \<Rightarrow>
          if tool_prefix_len \<le> ks_parsed_tool_prefix_len st then ([], Ok (st, False))
          else case str_upto tool_prefix_len (ks_raw_text st) of
                 None \<Rightarrow> ([], Panic)
               | Some tool_prefix \<Rightarrow>
                   and_then (quietly (parse_complete (env_json (sc_env cfg)) (env_string (sc_env cfg))
                       (sc_ids cfg (ks_parses st)) (sc_family cfg) tool_prefix)) (\<lambda>answer.
                   and_then (quietly (check_parsed_calls (sc_request cfg) answer)) (\<lambda>parsed.
                     let st1 = st\<lparr>ks_parses := ks_parses st + 1, ks_parsed_tool_prefix_len := tool_prefix_len\<rparr>
                     in if sc_deferred cfg = ToolChoiceRequired \<and> pa_content parsed \<noteq> [] then ([], Ok (st1, False))
                        else
                          let unsent = unsent_calls (ks_emitted_tool_calls st) parsed
                          in and_then (emit_calls cfg serializer_tool_call_delta (ks_serializer st) unsent) (\<lambda>ser.
                               ([], Ok (st1\<lparr>ks_serializer := ser, ks_emitted_tool_calls := length (pa_tool_calls parsed),
                                         ks_emitted_len := max (ks_emitted_len st) tool_prefix_len\<rparr>, unsent \<noteq> []))))))"

definition buffer_step :: "chat_stream_config \<Rightarrow> chat_stream_state \<Rightarrow> (chat_stream_state \<times> bool) chat_emits" where
  "buffer_step cfg st =
     (if sc_deferred cfg = UnmarkedToolBuffer \<and> unmarked_tool_buffer_can_stream_text (ks_raw_text st) (ks_markup st) \<and>
         UNMARKED_TOOL_BUFFER_FLUSH_THRESHOLD \<le> sat_sub (safe_len cfg st) (ks_emitted_len st)
      then emit_content cfg (safe_len cfg st) st
      else ([], Ok (st, False)))"

text \<open>The text of one chunk: the flags tell that a chunk was sent, and that a stop sequence ended the loop.\<close>

definition chat_text_step ::
  "chat_stream_config \<Rightarrow> rstr \<Rightarrow> chat_stream_state \<Rightarrow> (chat_stream_state \<times> bool \<times> bool) chat_emits" where
  "chat_text_step cfg text st =
     (if text = [] then ([], Ok (st, False, False))
      else
        let raw = ks_raw_text st @ text
        in case observe_markup (ks_markup st) raw of
             None \<Rightarrow> ([], Panic)
           | Some markup \<Rightarrow>
               (case observe (ks_detector st) raw (cr_stop (sc_request cfg)) of
                  None \<Rightarrow> ([], Panic)
                | Some (det, Some stop_at) \<Rightarrow>
                    let st1 = st\<lparr>ks_raw_text := raw, ks_markup := markup, ks_detector := det\<rparr>
                    in and_then
                         (if sc_deferred cfg = DeferNone \<and> ks_emitted_len st < stop_at then emit_content cfg stop_at st1
                          else ([], Ok (st1, False)))
                         (\<lambda>(st2, _). ([], Ok (st2\<lparr>ks_stop_at_len := Some stop_at, ks_finish_reason := FinishStop,
                                            ks_stopped_by_sequence := True\<rparr>, False, True)))
                | Some (det, None) \<Rightarrow>
                    let st1 = st\<lparr>ks_raw_text := raw, ks_markup := markup, ks_detector := det\<rparr>
                    in and_then (inline_step cfg st1) (\<lambda>(st2, sent1).
                       and_then (tool_prefix_step cfg st2) (\<lambda>(st3, sent2).
                       and_then (buffer_step cfg st3) (\<lambda>(st4, sent3).
                         ([], Ok (st4, sent1 \<or> sent2 \<or> sent3, False)))))))"

definition internal_progress_event :: "backend_stream_chunk \<Rightarrow> bool \<Rightarrow> chat_completion_stream_event list" where
  "internal_progress_event chunk emitted_public_chunk =
     (if 0 < internal_progress_bytes chunk \<and> \<not> emitted_public_chunk then [CevInternalProgress (internal_progress_bytes chunk)]
      else [])"

fun chat_loop ::
  "chat_stream_config \<Rightarrow> chat_stream_state \<Rightarrow> (backend_error + backend_stream_chunk) list \<Rightarrow> chat_stream_state chat_emits" where
  "chat_loop cfg st [] = ([], Ok st)"
| "chat_loop cfg st (Inl e # rest) = ([], Err (runtime_from_backend e))"
| "chat_loop cfg st (Inr chunk # rest) =
     and_then (chat_progress_event chunk, Ok ()) (\<lambda>_.
     and_then (structured_step cfg chunk (chat_counters chunk st)) (\<lambda>(st1, sent1).
     and_then (chat_text_step cfg (bsc_text chunk) st1) (\<lambda>(st2, sent2, stopped).
       if stopped then ([], Ok st2)
       else
         and_then (internal_progress_event chunk (sent1 \<or> sent2), Ok ()) (\<lambda>_.
           case bsc_finish_reason chunk of
             Some reason \<Rightarrow> ([], Ok (st2\<lparr>ks_finish_reason := api_finish_reason reason\<rparr>))
           | None \<Rightarrow> chat_loop cfg st2 rest))))"

text \<open>After the loop.\<close>

definition visible_len :: "chat_stream_state \<Rightarrow> nat" where
  "visible_len st = (case ks_stop_at_len st of Some n \<Rightarrow> n | None \<Rightarrow> str_len (ks_raw_text st))"

definition tail_step :: "chat_stream_config \<Rightarrow> chat_stream_state \<Rightarrow> unit chat_emits" where
  "tail_step cfg st =
     (if \<not> ks_stopped_by_sequence st \<and> ks_emitted_len st < visible_len st \<and> sc_deferred cfg = DeferNone \<and>
         \<not> contains_start (ks_markup st)
      then and_then (emit_content cfg (visible_len st) st) (\<lambda>_. ([], Ok ()))
      else ([], Ok ()))"

definition stage_if :: "bool \<Rightarrow> chat_completion_stream_stage \<Rightarrow> unit chat_emits" where
  "stage_if b stage = (if b then [CevStage stage] else [], Ok ())"

definition parse_stream_text ::
  "chat_stream_config \<Rightarrow> chat_stream_state \<Rightarrow> rstr \<Rightarrow> (runtime_error, parsed_assistant) outcome" where
  "parse_stream_text cfg st visible_text =
     (if ks_assembler st \<noteq> [] then
        into_parsed (env_json (sc_env cfg)) (sc_ids cfg (ks_parses st)) (ks_assembler st) visible_text
      else
        parse_chat_text (env_json (sc_env cfg)) (env_string (sc_env cfg)) (sc_ids cfg (ks_parses st)) (sc_family cfg)
          visible_text (sc_request cfg))"

definition check_stream_calls :: "chat_stream_config \<Rightarrow> parsed_assistant \<Rightarrow> parsed_assistant chat_emits" where
  "check_stream_calls cfg answer =
     (let seen = pa_tool_calls answer \<noteq> [];
          parsed = fill_missing_tool_intent_arguments answer (sc_request cfg)
      in and_then (stage_if seen ToolArgumentAssemblyComplete) (\<lambda>_.
         and_then (quietly (validate_tool_call_arguments answer)) (\<lambda>_.
         and_then (quietly (case classify_repeated_invalid_tool_call_no_progress parsed (sc_request cfg) of
             Some class \<Rightarrow> Err (RtNoProgress class) | None \<Rightarrow> Ok ())) (\<lambda>_.
         and_then (stage_if seen ToolIntentFillComplete) (\<lambda>_.
         and_then (quietly (validate_tool_calls_against_request parsed (sc_request cfg))) (\<lambda>_.
         and_then (stage_if seen ToolSchemaValidationComplete) (\<lambda>_. ([], Ok parsed))))))))"

definition check_stream_progress ::
  "chat_stream_config \<Rightarrow> chat_stream_state \<Rightarrow> rstr \<Rightarrow> parsed_assistant \<Rightarrow> (runtime_error, unit) outcome" where
  "check_stream_progress cfg st visible_text parsed =
     and_ok (if sc_deferred cfg = JsonObjectMode then validate_json_object_response (env_json (sc_env cfg)) parsed else Ok ())
       (\<lambda>_. case classify_chat_no_progress (env_unicode (sc_env cfg)) visible_text parsed (ks_completion_tokens st)
                 (sc_deferred cfg = ToolChoiceRequired \<and> pa_tool_calls parsed = []) (sc_request cfg)
                 (family_tool_markup_policy (sc_family cfg)) of
              None \<Rightarrow> Panic
            | Some (Some class) \<Rightarrow> Err (RtNoProgress class)
            | Some None \<Rightarrow> Ok ())"

definition deferred_content :: "chat_stream_config \<Rightarrow> chat_stream_state \<Rightarrow> parsed_assistant \<Rightarrow> chat_completion_stream_event list" where
  "deferred_content cfg st parsed =
     (if sc_deferred cfg \<in> {JsonObjectMode, ToolChoiceRequired} \<and> pa_content parsed \<noteq> [] then
        [content_event (sc_seed cfg) (pa_content parsed)]
      else if sc_deferred cfg = UnmarkedToolBuffer \<and> pa_tool_calls parsed = [] then
        (case str_from (ks_emitted_len st) (pa_content parsed) of
           None \<Rightarrow> []
         | Some remaining_content \<Rightarrow> if remaining_content \<noteq> [] then [content_event (sc_seed cfg) remaining_content] else [])
      else [])"

definition remaining_calls :: "chat_stream_config \<Rightarrow> chat_stream_state \<Rightarrow> parsed_assistant \<Rightarrow> unit chat_emits" where
  "remaining_calls cfg st parsed =
     and_then
       (if ks_assembler st \<noteq> [] then
          if request_may_fill_tool_intent_arguments (sc_request cfg)
          then emit_calls cfg tool_call_arguments_delta (ks_serializer st) (List.enumerate 0 (pa_tool_calls parsed))
          else ([], Ok (ks_serializer st))
        else emit_calls cfg serializer_tool_call_delta (ks_serializer st) (unsent_calls (ks_emitted_tool_calls st) parsed))
       (\<lambda>_. ([], Ok ()))"

definition closing_events :: "chat_stream_config \<Rightarrow> chat_stream_state \<Rightarrow> parsed_assistant \<Rightarrow> chat_completion_stream_event list" where
  "closing_events cfg st parsed =
     (let reason = (if pa_tool_calls parsed \<noteq> [] then FinishToolCalls else ks_finish_reason st);
          us = usage_from_tokens (ks_prompt_tokens st) (ks_completion_tokens st) (ks_prompt_cached_tokens st)
      in [CevChunk (stream_seed_chunk (sc_seed cfg) delta_default (Some reason) None)] @
         (if sc_include_usage cfg then [CevChunk (stream_seed_chunk (sc_seed cfg) delta_default None (Some us))] else []) @
         [CevComplete us])"

definition chat_close :: "chat_stream_config \<Rightarrow> chat_stream_state \<Rightarrow> unit chat_emits" where
  "chat_close cfg st =
     and_then (tail_step cfg st) (\<lambda>_.
       case str_upto (visible_len st) (ks_raw_text st) of
         None \<Rightarrow> ([], Panic)
       | Some visible_text \<Rightarrow>
           and_then (quietly (parse_stream_text cfg st visible_text)) (\<lambda>answer.
           and_then (check_stream_calls cfg answer) (\<lambda>parsed.
           and_then (quietly (check_stream_progress cfg st visible_text parsed)) (\<lambda>_.
           and_then (deferred_content cfg st parsed, Ok ()) (\<lambda>_.
           and_then (remaining_calls cfg st parsed) (\<lambda>_.
             (closing_events cfg st parsed, Ok ())))))))"

text \<open>The generator, and whether the cancellation token is cancelled when it ends.\<close>

definition streaming_chat_stream ::
  "chat_stream_config \<Rightarrow> (backend_error + backend_stream_chunk) list \<Rightarrow> unit chat_emits \<times> bool" where
  "streaming_chat_stream cfg backend_stream =
     (let body = and_then ([role_event (sc_seed cfg)], Ok ()) (\<lambda>_. chat_loop cfg (chat_stream_start cfg) backend_stream)
      in (and_then body (chat_close cfg), (case snd body of Ok _ \<Rightarrow> False | _ \<Rightarrow> True)))"

section \<open>Entry points\<close>

definition chat_stream_validated_with_cancel_and_prefill_admission ::
  "runtime_env \<Rightarrow> (nat \<Rightarrow> nat \<Rightarrow> rstr) \<Rightarrow> runtime \<Rightarrow> rstr \<Rightarrow> int \<Rightarrow> nat option \<Rightarrow> chat_completion_request validated \<Rightarrow>
   (runtime_error, unit chat_emits \<times> bool) outcome" where
  "chat_stream_validated_with_cancel_and_prefill_admission env ids rt new_id created prefill_chunk_admission request =
     and_ok (ensure_runtime_validated rt chat_validate_with_limits request) (\<lambda>validated.
       let req = va_inner validated
       in and_ok (validate_chat_request_capabilities rt req True) (\<lambda>_.
          and_ok (chat_adapter_for_metadata (mb_metadata (rt_backend rt))) (\<lambda>family.
          and_ok (chat_backend_request (env_sha env) (env_tools env) rt family req) (\<lambda>backend_request.
            let admitted = (case prefill_chunk_admission of
                              Some admission \<Rightarrow> with_prefill_chunk_admission admission backend_request
                            | None \<Rightarrow> backend_request);
                seed = \<lparr>seed_id = fmt [lit ''chatcmpl-'', new_id], seed_created = created, seed_model = cr_model req\<rparr>
            in Ok (streaming_chat_stream
                 \<lparr>sc_env = env, sc_ids = ids, sc_seed = seed, sc_request = req, sc_family = family,
                  sc_include_usage = so_include_usage (cr_stream_options req)\<rparr>
                 (mb_generate_stream (rt_backend rt) admitted))))))"

definition chat_stream_with_cancel ::
  "runtime_env \<Rightarrow> (nat \<Rightarrow> nat \<Rightarrow> rstr) \<Rightarrow> runtime \<Rightarrow> rstr \<Rightarrow> int \<Rightarrow> chat_completion_request \<Rightarrow>
   (runtime_error, unit chat_emits \<times> bool) outcome" where
  "chat_stream_with_cancel env ids rt new_id created request =
     and_ok (map_err RtApi
         (into_validated_with_limits chat_validate_with_limits request (ro_request_limits (rt_options rt))))
       (chat_stream_validated_with_cancel_and_prefill_admission env ids rt new_id created None)"

definition completion_stream_validated_with_cancel_and_prefill_admission ::
  "runtime_env \<Rightarrow> runtime \<Rightarrow> rstr \<Rightarrow> int \<Rightarrow> nat option \<Rightarrow> completion_request validated \<Rightarrow>
   (runtime_error, unit emitting \<times> bool) outcome" where
  "completion_stream_validated_with_cancel_and_prefill_admission env rt new_id created prefill_chunk_admission request =
     and_ok (ensure_runtime_validated rt completion_validate_with_limits request) (\<lambda>validated.
       let req = va_inner validated
       in and_ok (validate_completion_request_capabilities rt req True) (\<lambda>_.
          and_ok (completion_backend_request (env_sha env) req) (\<lambda>backend_request.
            let admitted = (case prefill_chunk_admission of
                              Some admission \<Rightarrow> with_prefill_chunk_admission admission backend_request
                            | None \<Rightarrow> backend_request);
                seed = \<lparr>seed_id = fmt [lit ''cmpl-'', new_id], seed_created = created, seed_model = co_model req\<rparr>
            in Ok (streaming_completion_stream seed (mb_generate_stream (rt_backend rt) admitted) (co_stop req)
                 (so_include_usage (co_stream_options req))))))"

definition completion_stream_with_cancel ::
  "runtime_env \<Rightarrow> runtime \<Rightarrow> rstr \<Rightarrow> int \<Rightarrow> completion_request \<Rightarrow> (runtime_error, unit emitting \<times> bool) outcome" where
  "completion_stream_with_cancel env rt new_id created request =
     and_ok (map_err RtApi
         (into_validated_with_limits completion_validate_with_limits request (ro_request_limits (rt_options rt))))
       (completion_stream_validated_with_cancel_and_prefill_admission env rt new_id created None)"

end
