(* ===== verification/Chat_Stream_Props.thy ===== *)
theory Chat_Stream_Props
  imports Chat_Stream
begin

text \<open>
  What clients see of a streamed chat: the content, free of tool-call markup and of stop sequences; the agreement with the
  non-streaming answer; where a stream can panic. The last section has the cases in which a stream sends
  what the single response does not.
\<close>

section \<open>What the client sees\<close>

fun event_content :: "chat_completion_stream_event \<Rightarrow> rstr" where
  "event_content (CevChunk r) = concat (map (\<lambda>c. opt_str (cd_content (csc_delta c))) (ccs_choices r))"
| "event_content _ = []"

definition content_text :: "chat_completion_stream_event list \<Rightarrow> rstr" where
  "content_text evs = concat (map event_content evs)"

fun event_reasons :: "chat_completion_stream_event \<Rightarrow> finish_reason list" where
  "event_reasons (CevChunk r) = List.map_filter csc_finish_reason (ccs_choices r)"
| "event_reasons _ = []"

definition chat_finish_reasons :: "chat_completion_stream_event list \<Rightarrow> finish_reason list" where
  "chat_finish_reasons evs = concat (map event_reasons evs)"

lemma content_text_simps [simp]:
  "content_text [] = []"
  "content_text (e # evs) = event_content e @ content_text evs"
  "content_text (evs @ evs') = content_text evs @ content_text evs'"
  by (simp_all add: content_text_def)

lemma chat_finish_reasons_simps [simp]:
  "chat_finish_reasons [] = []"
  "chat_finish_reasons (e # evs) = event_reasons e @ chat_finish_reasons evs"
  "chat_finish_reasons (evs @ evs') = chat_finish_reasons evs @ chat_finish_reasons evs'"
  by (simp_all add: chat_finish_reasons_def)

lemma event_simps [simp]:
  "event_content (content_event seed t) = t" "event_reasons (content_event seed t) = []"
  "event_content (tool_calls_event seed ds) = []" "event_reasons (tool_calls_event seed ds) = []"
  "event_content (role_event seed) = []" "event_reasons (role_event seed) = []"
  by (simp_all add: content_event_def tool_calls_event_def role_event_def stream_seed_chunk_def delta_default_def
      opt_str_def List.map_filter_def)

lemma quietly_simps [simp]: "fst (quietly r) = []" "snd (quietly r) = r"
  by (simp_all add: quietly_def)

lemma and_then_split:
  "fst (and_then m k) = fst m @ (case snd m of Ok a \<Rightarrow> fst (k a) | _ \<Rightarrow> [])"
  "snd (and_then m k) = and_ok (snd m) (\<lambda>a. snd (k a))"
  by (cases m; simp add: and_then_def split: outcome.splits prod.splits)+

text \<open>Steps that send no content and no finish reason.\<close>

definition silent :: "chat_completion_stream_event list \<Rightarrow> bool" where
  "silent evs \<longleftrightarrow> content_text evs = [] \<and> chat_finish_reasons evs = []"

lemma silent_simps [simp]: "silent []" "silent (evs @ evs') \<longleftrightarrow> silent evs \<and> silent evs'"
  by (auto simp: silent_def)

lemma silent_steps [simp]:
  "silent (chat_progress_event c)" "silent (internal_progress_event c b)"
  "silent (fst (structured_step cfg c st))" "silent (fst (stage_if b stage))"
  by (auto simp: silent_def chat_progress_event_def internal_progress_event_def structured_step_def stage_if_def Let_def
      split: option.splits)

lemma silent_calls: "silent (fst (emit_calls cfg mk ser cs))"
  by (induction cs arbitrary: ser) (auto simp: and_then_split silent_def split: outcome.splits)

lemma silent_prefix_step: "silent (fst (tool_prefix_step cfg st))"
  using silent_calls
  by (auto simp: tool_prefix_step_def and_then_split Let_def split: option.splits outcome.splits)

lemma silent_checks: "silent (fst (check_stream_calls cfg answer))" "silent (fst (remaining_calls cfg st parsed))"
  using silent_calls
  by (auto simp: check_stream_calls_def remaining_calls_def and_then_split Let_def split: outcome.splits option.splits)

lemma closing_content [simp]: "content_text (closing_events cfg st parsed) = []"
  by (simp add: closing_events_def stream_seed_chunk_def delta_default_def opt_str_def Let_def)

lemma closing_reasons: "chat_finish_reasons (closing_events cfg st parsed) =
    [if pa_tool_calls parsed \<noteq> [] then FinishToolCalls else ks_finish_reason st]"
  by (simp add: closing_events_def stream_seed_chunk_def delta_default_def List.map_filter_def Let_def)

section \<open>The invariant of the loop\<close>

abbreviation policy_of :: "chat_stream_config \<Rightarrow> tool_markup_policy" where
  "policy_of cfg \<equiv> family_tool_markup_policy (sc_family cfg)"

abbreviation stop_of :: "chat_stream_config \<Rightarrow> rstr list" where
  "stop_of cfg \<equiv> cr_stop (sc_request cfg)"

definition chat_inv :: "chat_stream_config \<Rightarrow> chat_stream_state \<Rightarrow> bool" where
  "chat_inv cfg st \<longleftrightarrow>
     observed (ks_markup st) (policy_of cfg) (ks_raw_text st) \<and>
     detector_at (ks_detector st) (ks_raw_text st) (stop_of cfg) \<and>
     (ks_raw_text st = [] \<or> earliest_stop_index (ks_raw_text st) (stop_of cfg) = None) \<and>
     (\<exists>u. prefix u (ks_raw_text st) \<and> ks_emitted_len st = str_len u) \<and>
     \<not> ks_stopped_by_sequence st \<and> ks_stop_at_len st = None \<and> ks_finish_reason st = FinishLength"

lemma chat_inv_start: "chat_inv cfg (chat_stream_start cfg)"
  by (simp add: chat_inv_def chat_stream_start_def detector_at_new family_markup.observed_new)

lemma chat_inv_counters [simp]: "chat_inv cfg (chat_counters c st) = chat_inv cfg st"
  by (simp add: chat_inv_def chat_counters_def)

text \<open>\<open>ahead\<close>: no occurrence, present or to come, begins before \<open>n\<close>.\<close>

definition ahead :: "rstr list \<Rightarrow> rstr \<Rightarrow> nat \<Rightarrow> bool" where
  "ahead qs raw n \<longleftrightarrow> (\<forall>x k. hit qs (raw @ x) k \<longrightarrow> n \<le> k)"

lemma ahead_append: "ahead qs raw n \<Longrightarrow> ahead qs (raw @ y) n"
  by (simp add: ahead_def)

lemma ahead_0 [simp]: "ahead qs raw 0"
  by (simp add: ahead_def)

lemma safe_len_split:
  assumes "chat_inv cfg st" and "ks_raw_text st \<noteq> []"
  obtains a b where "ks_raw_text st = a @ b" "str_len a = safe_len cfg st"
    "ahead (start_markers (policy_of cfg)) (ks_raw_text st) (str_len a)" "ahead (stop_of cfg) (ks_raw_text st) (str_len a)"
proof -
  let ?raw = "ks_raw_text st"
  have ob: "observed (ks_markup st) (policy_of cfg) ?raw" and none: "earliest_stop_index ?raw (stop_of cfg) = None"
    using assms by (auto simp: chat_inv_def)
  obtain a b where ab: "?raw = a @ b" "str_len a = safe_stream_emit_len ?raw (max_stop_sequence_len (stop_of cfg))"
    by (rule safe_emit_split)
  obtain a' b' where ab': "?raw = a' @ b'" "str_len a' = safe_emit_len (ks_markup st) ?raw"
    by (rule family_markup.safe_emit_boundary [OF ob])
  have stops: "ahead (stop_of cfg) ?raw (str_len a)"
    using safe_emit_before_hit none ab(2) unfolding ahead_def by (auto simp: earliest_None_iff)
  have marks: "ahead (start_markers (policy_of cfg)) ?raw (str_len a')"
    using family_markup.safe_emit_before_start [OF ob] ab'(2) by (simp add: ahead_def)
  show thesis
  proof (cases "str_len a \<le> str_len a'")
    case True
    then show thesis
      using that [of a b] ab ab'(2) stops marks by (fastforce simp: safe_len_def ahead_def)
  next
    case False
    then show thesis
      using that [of a' b'] ab(2) ab' stops marks by (fastforce simp: safe_len_def ahead_def)
  qed
qed

lemma emit_content_slice:
  assumes "ks_raw_text st = u @ s @ r" and "ks_emitted_len st = str_len u"
  shows "emit_content cfg (str_len (u @ s)) st =
    ([content_event (sc_seed cfg) s], Ok (st\<lparr>ks_emitted_len := str_len (u @ s)\<rparr>, True))"
  using assms by (simp add: emit_content_def)

text \<open>\<open>emission\<close>: a step that sends nothing, or the next part of the text up to a safe place.\<close>

definition emission ::
  "chat_stream_config \<Rightarrow> chat_stream_state \<Rightarrow> chat_completion_stream_event list \<Rightarrow> chat_stream_state \<Rightarrow> bool" where
  "emission cfg st evs st' \<longleftrightarrow>
     evs = [] \<and> st' = st \<or>
     (\<exists>u s r. ks_raw_text st = u @ s @ r \<and> ks_emitted_len st = str_len u \<and> st' = st\<lparr>ks_emitted_len := str_len (u @ s)\<rparr> \<and>
        evs = [content_event (sc_seed cfg) s] \<and> ahead (start_markers (policy_of cfg)) (ks_raw_text st) (str_len (u @ s)) \<and>
        ahead (stop_of cfg) (ks_raw_text st) (str_len (u @ s)))"

lemma emissionI:
  assumes "ks_raw_text st = u @ s @ r" and "ks_emitted_len st = str_len u"
    and "ahead (start_markers (policy_of cfg)) (ks_raw_text st) (str_len (u @ s))"
    and "ahead (stop_of cfg) (ks_raw_text st) (str_len (u @ s))"
  shows "emission cfg st [content_event (sc_seed cfg) s] (st\<lparr>ks_emitted_len := str_len (u @ s)\<rparr>)"
  unfolding emission_def using assms by blast

lemma emit_safe:
  assumes "chat_inv cfg st" and "ks_raw_text st \<noteq> []" and "ks_emitted_len st \<le> safe_len cfg st"
  obtains evs st' where "emit_content cfg (safe_len cfg st) st = (evs, Ok (st', True))" "emission cfg st evs st'"
proof -
  obtain a b where ab: "ks_raw_text st = a @ b" "str_len a = safe_len cfg st"
    "ahead (start_markers (policy_of cfg)) (ks_raw_text st) (str_len a)" "ahead (stop_of cfg) (ks_raw_text st) (str_len a)"
    by (rule safe_len_split [OF assms(1,2)])
  obtain u where u: "prefix u (ks_raw_text st)" "ks_emitted_len st = str_len u" using assms(1) by (auto simp: chat_inv_def)
  have "prefix a (ks_raw_text st)" using ab(1) by simp
  from prefix_bytes [OF u(1) this] obtain s where s: "a = u @ s" using assms(3) u(2) ab(2) by (auto simp: prefix_def)
  have "emit_content cfg (str_len (u @ s)) st =
    ([content_event (sc_seed cfg) s], Ok (st\<lparr>ks_emitted_len := str_len (u @ s)\<rparr>, True))"
    by (rule emit_content_slice [OF _ u(2)]) (simp add: ab(1) s)
  then have e: "emit_content cfg (safe_len cfg st) st =
    ([content_event (sc_seed cfg) s], Ok (st\<lparr>ks_emitted_len := str_len (u @ s)\<rparr>, True))" using ab(2) s by simp
  show thesis
    by (rule that [OF e], rule emissionI) (use ab u s in auto)
qed

lemma inline_step_emission:
  assumes "chat_inv cfg st" and "ks_raw_text st \<noteq> []"
  obtains evs st' b where "inline_step cfg st = (evs, Ok (st', b))" "emission cfg st evs st'"
proof (cases "sc_deferred cfg = DeferNone \<and> ks_emitted_len st < safe_len cfg st")
  case True
  then obtain evs st' where "emit_content cfg (safe_len cfg st) st = (evs, Ok (st', True))" "emission cfg st evs st'"
    using emit_safe [OF assms] by auto
  with True that show thesis by (simp add: inline_step_def)
next
  case False
  then show thesis using that [of "[]" st False] by (auto simp: inline_step_def emission_def)
qed

lemma buffer_step_emission:
  assumes "chat_inv cfg st" and "ks_raw_text st \<noteq> []"
  obtains evs st' b where "buffer_step cfg st = (evs, Ok (st', b))" "emission cfg st evs st'"
proof (cases "sc_deferred cfg = UnmarkedToolBuffer \<and> unmarked_tool_buffer_can_stream_text (ks_raw_text st) (ks_markup st) \<and>
    UNMARKED_TOOL_BUFFER_FLUSH_THRESHOLD \<le> sat_sub (safe_len cfg st) (ks_emitted_len st)")
  case True
  then have "ks_emitted_len st \<le> safe_len cfg st"
    by (auto simp: UNMARKED_TOOL_BUFFER_FLUSH_THRESHOLD_def sat_sub_def)
  then obtain evs st' where "emit_content cfg (safe_len cfg st) st = (evs, Ok (st', True))" "emission cfg st evs st'"
    using emit_safe [OF assms] by auto
  with True that show thesis by (simp add: buffer_step_def)
next
  case False
  then show thesis using that [of "[]" st False] by (auto simp: buffer_step_def emission_def)
qed

text \<open>\<open>sent_inv cfg c st\<close>: the content \<open>c\<close> sent so far is taken, in order, from a part of the text before every start
  marker. \<open>exact_inv cfg c st\<close>: it is all of the text up to the emitted length.\<close>

definition sent_inv :: "chat_stream_config \<Rightarrow> rstr \<Rightarrow> chat_stream_state \<Rightarrow> bool" where
  "sent_inv cfg c st \<longleftrightarrow>
     (\<exists>w u. prefix w u \<and> prefix u (ks_raw_text st) \<and> ks_emitted_len st = str_len u \<and> subseq c w \<and>
        ahead (start_markers (policy_of cfg)) (ks_raw_text st) (str_len w))"

definition exact_inv :: "chat_stream_config \<Rightarrow> rstr \<Rightarrow> chat_stream_state \<Rightarrow> bool" where
  "exact_inv cfg c st \<longleftrightarrow>
     prefix c (ks_raw_text st) \<and> ks_emitted_len st = str_len c \<and> ahead (stop_of cfg) (ks_raw_text st) (str_len c)"

lemma prefix_len_unique: "prefix u s \<Longrightarrow> prefix v s \<Longrightarrow> str_len u = str_len v \<Longrightarrow> u = v"
  using prefix_bytes [of u s v] prefix_bytes [of v s u] by (simp add: prefix_order.antisym)

text \<open>\<open>same_text st st'\<close>: nothing but the emitted length and the bookkeeping of tool calls has changed.\<close>

definition same_text :: "chat_stream_state \<Rightarrow> chat_stream_state \<Rightarrow> bool" where
  "same_text st st' \<longleftrightarrow>
     ks_raw_text st' = ks_raw_text st \<and> ks_markup st' = ks_markup st \<and> ks_detector st' = ks_detector st \<and>
     ks_stopped_by_sequence st' = ks_stopped_by_sequence st \<and> ks_stop_at_len st' = ks_stop_at_len st \<and>
     ks_finish_reason st' = ks_finish_reason st \<and> ks_assembler st' = ks_assembler st"

lemma emission_same_text:
  assumes "emission cfg st evs st'"
  shows "same_text st st'" and "chat_finish_reasons evs = []"
  using assms by (auto simp: emission_def same_text_def)

lemma emission_chat_inv:
  assumes "emission cfg st evs st'" and "chat_inv cfg st"
  shows "chat_inv cfg st'"
proof -
  have "\<exists>u. prefix u (ks_raw_text st) \<and> ks_emitted_len st' = str_len u"
    using assms(1) unfolding emission_def
  proof (elim disjE exE conjE)
    fix u s r
    assume "ks_raw_text st = u @ s @ r" "st' = st\<lparr>ks_emitted_len := str_len (u @ s)\<rparr>"
    then show ?thesis by (intro exI [of _ "u @ s"]) simp
  qed (use assms(2) in \<open>simp add: chat_inv_def\<close>)
  with emission_same_text(1) [OF assms(1)] assms(2) show ?thesis by (simp add: chat_inv_def same_text_def)
qed

lemma emission_sent_inv:
  assumes "emission cfg st evs st'" and "sent_inv cfg c st"
  shows "sent_inv cfg (c @ content_text evs) st'"
  using assms(1) unfolding emission_def
proof (elim disjE exE conjE)
  fix u s r
  assume e: "ks_raw_text st = u @ s @ r" "ks_emitted_len st = str_len u" "st' = st\<lparr>ks_emitted_len := str_len (u @ s)\<rparr>"
    "evs = [content_event (sc_seed cfg) s]" "ahead (start_markers (policy_of cfg)) (ks_raw_text st) (str_len (u @ s))"
  obtain w u' where w: "prefix w u'" "prefix u' (ks_raw_text st)" "ks_emitted_len st = str_len u'" "subseq c w"
    using assms(2) by (auto simp: sent_inv_def)
  have "u' = u" by (rule prefix_len_unique [OF w(2)]) (use e w(3) in simp_all)
  then have "subseq c u" using w(1,4) by (auto simp: prefix_def intro: subseq_order.trans)
  then have "subseq (c @ s) (u @ s)" by (simp add: list_emb_append_mono)
  then show ?thesis unfolding sent_inv_def
    by (intro exI [of _ "u @ s"]) (use e in simp)
qed (use assms(2) in simp)

lemma emission_exact_inv:
  assumes "emission cfg st evs st'" and "exact_inv cfg c st"
  shows "exact_inv cfg (c @ content_text evs) st'"
  using assms(1) unfolding emission_def
proof (elim disjE exE conjE)
  fix u s r
  assume e: "ks_raw_text st = u @ s @ r" "ks_emitted_len st = str_len u" "st' = st\<lparr>ks_emitted_len := str_len (u @ s)\<rparr>"
    "evs = [content_event (sc_seed cfg) s]" "ahead (stop_of cfg) (ks_raw_text st) (str_len (u @ s))"
  have "c = u" by (rule prefix_len_unique [of _ "ks_raw_text st"]) (use assms(2) e in \<open>simp_all add: exact_inv_def\<close>)
  with e show ?thesis by (simp add: exact_inv_def)
qed (use assms(2) in simp)

text \<open>Parsing a completed tool call sends no content, and moves the emitted length to the end of the call.\<close>

definition parser_panics :: "chat_stream_config \<Rightarrow> rstr \<Rightarrow> bool" where
  "parser_panics cfg s \<longleftrightarrow>
     (\<exists>raw ids. prefix raw s \<and> parse_assistant_for_family (env_json (sc_env cfg)) (env_string (sc_env cfg)) ids (sc_family cfg) raw = Panic)"

lemma parse_complete_Panic:
  "parse_complete rd rs ids family s = Panic \<longleftrightarrow> parse_assistant_for_family rd rs ids family s = Panic"
  by (auto simp: parse_complete_def split: outcome.splits)

lemma emit_calls_no_panic:
  assumes "\<And>ser i c. mk ser i c \<noteq> Panic"
  shows "snd (emit_calls cfg mk ser cs) \<noteq> Panic"
  by (induction cs arbitrary: ser) (auto simp: and_then_split and_ok_Panic assms)

lemma delta_no_panic: "serializer_tool_call_delta ser i c \<noteq> Panic" "tool_call_arguments_delta ser i c \<noteq> Panic"
  by (auto simp: serializer_tool_call_delta_def tool_call_arguments_delta_def and_ok_Panic api_tool_call_index_def
      split: prod.splits)

lemma completed_prefix_boundary:
  assumes "observed ms pol s" and "tm_completed_prefix_len ms = Some n"
  obtains u where "prefix u s" "n = str_len u"
proof -
  from assms obtain q a b where "s = a @ q @ b" "n = str_len a + str_len q"
    by (auto simp: observed_def greatest_def end_hit_def ends_at_def)
  then show thesis using that [of "a @ q"] by simp
qed

lemma tool_prefix_step_none:
  "tm_completed_prefix_len (ks_markup st) = None \<Longrightarrow> tool_prefix_step cfg st = ([], Ok (st, False))"
  by (simp add: tool_prefix_step_def)

lemma tool_prefix_step_Ok:
  assumes "snd (tool_prefix_step cfg st) = Ok (st', b)"
  shows "same_text st st'"
    and "ks_emitted_len st' = ks_emitted_len st \<or>
      (\<exists>m. tm_completed_prefix_len (ks_markup st) = Some m \<and> ks_emitted_len st' = max (ks_emitted_len st) m)"
  using assms
  by (auto simp: tool_prefix_step_def same_text_def and_then_split and_ok_Ok Let_def split: if_splits option.splits)

lemma tool_prefix_step_inv:
  assumes "snd (tool_prefix_step cfg st) = Ok (st', b)" and "chat_inv cfg st"
  shows "chat_inv cfg st'" and "sent_inv cfg c st \<Longrightarrow> sent_inv cfg c st'"
proof -
  let ?raw = "ks_raw_text st"
  have ob: "observed (ks_markup st) (policy_of cfg) ?raw" using assms(2) by (simp add: chat_inv_def)
  obtain u where u: "prefix u ?raw" "ks_emitted_len st = str_len u" using assms(2) by (auto simp: chat_inv_def)
  have "\<exists>u'. prefix u' ?raw \<and> ks_emitted_len st' = str_len u' \<and> str_len u \<le> str_len u'"
    using tool_prefix_step_Ok(2) [OF assms(1)]
  proof (elim disjE exE conjE)
    fix m assume m: "tm_completed_prefix_len (ks_markup st) = Some m" "ks_emitted_len st' = max (ks_emitted_len st) m"
    obtain v where "prefix v ?raw" "m = str_len v" by (rule completed_prefix_boundary [OF ob m(1)])
    with u m(2) show ?thesis by (cases "str_len u \<le> m") (auto simp: max_def)
  qed (use u in auto)
  then obtain u' where u': "prefix u' ?raw" "ks_emitted_len st' = str_len u'" "str_len u \<le> str_len u'" by blast
  note same = tool_prefix_step_Ok(1) [OF assms(1), unfolded same_text_def]
  show "chat_inv cfg st'" using assms(2) same u' by (auto simp: chat_inv_def)
  assume "sent_inv cfg c st"
  then obtain w v where w: "prefix w v" "prefix v ?raw" "ks_emitted_len st = str_len v" "subseq c w"
    "ahead (start_markers (policy_of cfg)) ?raw (str_len w)" by (auto simp: sent_inv_def)
  have "v = u" by (rule prefix_len_unique [OF w(2) u(1)]) (use w(3) u(2) in simp)
  with w(1) prefix_bytes [OF u(1) u'(1) u'(3)] have "prefix w u'" by (auto intro: prefix_order.trans)
  with w u' same show "sent_inv cfg c st'" by (auto simp: sent_inv_def)
qed

lemma tool_prefix_step_Panic:
  assumes "snd (tool_prefix_step cfg st) = Panic" and "chat_inv cfg st"
  shows "parser_panics cfg (ks_raw_text st)"
proof -
  have ob: "observed (ks_markup st) (policy_of cfg) (ks_raw_text st)" using assms(2) by (simp add: chat_inv_def)
  from assms(1) obtain m where m: "tm_completed_prefix_len (ks_markup st) = Some m"
    by (cases "tm_completed_prefix_len (ks_markup st)") (auto simp: tool_prefix_step_def)
  obtain u where u: "prefix u (ks_raw_text st)" "m = str_len u" by (rule completed_prefix_boundary [OF ob m])
  then have "str_upto m (ks_raw_text st) = Some u" by (auto simp: prefix_def)
  with assms(1) m check_parsed_calls_no_panic emit_calls_no_panic [OF delta_no_panic(1)]
  have "parse_complete (env_json (sc_env cfg)) (env_string (sc_env cfg)) (sc_ids cfg (ks_parses st)) (sc_family cfg) u = Panic"
    by (auto simp: tool_prefix_step_def and_then_split and_ok_Panic Let_def split: if_splits)
  with u(1) show ?thesis by (auto simp: parser_panics_def parse_complete_Panic)
qed

section \<open>The text of one chunk\<close>

text \<open>\<open>marker_free cfg c s\<close>: the content \<open>c\<close> is taken, in order, from a beginning of the text \<open>s\<close> without a start marker.\<close>

definition marker_free :: "chat_stream_config \<Rightarrow> rstr \<Rightarrow> rstr \<Rightarrow> bool" where
  "marker_free cfg c s \<longleftrightarrow> (\<exists>w. prefix w s \<and> subseq c w \<and> clean (start_markers (policy_of cfg)) w)"

lemma marker_free_append: "marker_free cfg c s \<Longrightarrow> marker_free cfg c (s @ x)"
  unfolding marker_free_def using prefix_prefix by blast

lemma sent_inv_marker_free:
  assumes "sent_inv cfg c st"
  shows "marker_free cfg c (ks_raw_text st)"
proof -
  obtain w u where w: "prefix w u" "prefix u (ks_raw_text st)" "subseq c w"
    "ahead (start_markers (policy_of cfg)) (ks_raw_text st) (str_len w)" using assms by (auto simp: sent_inv_def)
  have "prefix w (ks_raw_text st)" using w(1,2) by (rule prefix_order.trans)
  moreover from this have "clean (start_markers (policy_of cfg)) w"
    by (rule clean_before_stop [rotated]) (use w(4) in \<open>auto simp: ahead_def dest: spec [of _ "[]"]\<close>)
  ultimately show ?thesis using w(3) by (auto simp: marker_free_def)
qed

definition received :: "rstr \<Rightarrow> tool_markup_stream_state \<Rightarrow> stop_detector \<Rightarrow> chat_stream_state \<Rightarrow> chat_stream_state" where
  "received tx markup det st = st\<lparr>ks_raw_text := ks_raw_text st @ tx, ks_markup := markup, ks_detector := det\<rparr>"

lemma received_fields [simp]:
  "ks_raw_text (received tx markup det st) = ks_raw_text st @ tx" "ks_markup (received tx markup det st) = markup"
  "ks_emitted_len (received tx markup det st) = ks_emitted_len st" "ks_assembler (received tx markup det st) = ks_assembler st"
  by (simp_all add: received_def)

lemma received_sent_inv: "sent_inv cfg c st \<Longrightarrow> sent_inv cfg c (received tx markup det st)"
  unfolding sent_inv_def received_def using ahead_append by fastforce

lemma received_exact_inv: "exact_inv cfg c st \<Longrightarrow> exact_inv cfg c (received tx markup det st)"
  by (simp add: exact_inv_def received_def ahead_append)

lemma observe_both:
  assumes "chat_inv cfg st"
  obtains markup det where "observe_markup (ks_markup st) (ks_raw_text st @ tx) = Some markup"
    "observed markup (policy_of cfg) (ks_raw_text st @ tx)"
    "observe (ks_detector st) (ks_raw_text st @ tx) (stop_of cfg) = Some (det, earliest_stop_index (ks_raw_text st @ tx) (stop_of cfg))"
    "earliest_stop_index (ks_raw_text st @ tx) (stop_of cfg) = None \<Longrightarrow> chat_inv cfg (received tx markup det st)"
proof -
  have inv: "observed (ks_markup st) (policy_of cfg) (ks_raw_text st)" "detector_at (ks_detector st) (ks_raw_text st) (stop_of cfg)"
    "ks_raw_text st = [] \<or> earliest_stop_index (ks_raw_text st) (stop_of cfg) = None"
    using assms by (simp_all add: chat_inv_def)
  obtain markup where m: "observe_markup (ks_markup st) (ks_raw_text st @ tx) = Some markup"
    "observed markup (policy_of cfg) (ks_raw_text st @ tx)" by (rule family_markup.observe_markup_observed [OF inv(1)])
  obtain det where d: "observe (ks_detector st) (ks_raw_text st @ tx) (stop_of cfg) =
      Some (det, earliest_stop_index (ks_raw_text st @ tx) (stop_of cfg))" "detector_at det (ks_raw_text st @ tx) (stop_of cfg)"
    using observe_full_scan [OF inv(2,3), of tx] by blast
  have "chat_inv cfg (received tx markup det st)" if "earliest_stop_index (ks_raw_text st @ tx) (stop_of cfg) = None"
    using assms m(2) d(2) that unfolding chat_inv_def received_def by (auto intro: prefix_prefix)
  then show thesis by (rule that [OF m d(1)])
qed

text \<open>A chunk without a stop sequence.\<close>

lemma text_step_go_eq:
  assumes "tx \<noteq> []" and "observe_markup (ks_markup st) (ks_raw_text st @ tx) = Some markup"
    and "observe (ks_detector st) (ks_raw_text st @ tx) (stop_of cfg) = Some (det, None)"
  shows "chat_text_step cfg tx st =
    and_then (inline_step cfg (received tx markup det st)) (\<lambda>(st2, sent1).
    and_then (tool_prefix_step cfg st2) (\<lambda>(st3, sent2).
    and_then (buffer_step cfg st3) (\<lambda>(st4, sent3). ([], Ok (st4, sent1 \<or> sent2 \<or> sent3, False)))))"
  using assms by (simp add: chat_text_step_def received_def Let_def)

text \<open>\<open>good cfg raw asm c m\<close>: from the content \<open>c\<close>, the step \<open>m\<close> over the text \<open>raw\<close> and the assembled deltas \<open>asm\<close> sends only
  content before the markers, panics only with the parser, and leaves the invariant.\<close>

definition good ::
  "chat_stream_config \<Rightarrow> rstr \<Rightarrow> structured_tool_call_accumulator list \<Rightarrow> rstr \<Rightarrow> (chat_stream_state \<times> 'f) chat_emits \<Rightarrow> bool" where
  "good cfg raw asm c m \<longleftrightarrow>
     chat_finish_reasons (fst m) = [] \<and> marker_free cfg (c @ content_text (fst m)) raw \<and>
     (snd m = Panic \<longrightarrow> parser_panics cfg raw) \<and>
     (\<forall>st f. snd m = Ok (st, f) \<longrightarrow> chat_inv cfg st \<and> ks_raw_text st = raw \<and> ks_assembler st = asm \<and>
        sent_inv cfg (c @ content_text (fst m)) st)"

lemma goodI:
  assumes "chat_inv cfg st" and "sent_inv cfg (c @ content_text evs) st" and "chat_finish_reasons evs = []"
  shows "good cfg (ks_raw_text st) (ks_assembler st) c (evs, Ok (st, f))"
  using assms sent_inv_marker_free [OF assms(2)] by (simp add: good_def)

lemma good_return: "chat_inv cfg st \<Longrightarrow> sent_inv cfg c st \<Longrightarrow> good cfg (ks_raw_text st) (ks_assembler st) c ([], Ok (st, f))"
  by (rule goodI) simp_all

lemma good_and_then:
  assumes "good cfg raw asm c m"
    and "\<And>st f. snd m = Ok (st, f) \<Longrightarrow> ks_raw_text st = raw \<Longrightarrow> chat_inv cfg st \<Longrightarrow> sent_inv cfg (c @ content_text (fst m)) st \<Longrightarrow>
      good cfg (ks_raw_text st) (ks_assembler st) (c @ content_text (fst m)) (k (st, f))"
  shows "good cfg raw asm c (and_then m k)"
proof (cases "snd m")
  case (Ok sf)
  obtain st f where sf: "sf = (st, f)" by fastforce
  have st: "ks_raw_text st = raw" "ks_assembler st = asm" using assms(1) Ok sf by (simp_all add: good_def)
  have "good cfg (ks_raw_text st) (ks_assembler st) (c @ content_text (fst m)) (k (st, f))"
    by (rule assms(2)) (use assms(1) Ok sf in \<open>auto simp: good_def\<close>)
  with assms(1) Ok sf st show ?thesis by (simp add: good_def and_then_split)
qed (use assms(1) in \<open>simp_all add: good_def and_then_split\<close>)

lemma good_emission:
  assumes "emission cfg st evs st'" and "chat_inv cfg st" and "sent_inv cfg c st"
  shows "good cfg (ks_raw_text st) (ks_assembler st) c (evs, Ok (st', f))"
proof -
  have "ks_raw_text st = ks_raw_text st'" "ks_assembler st = ks_assembler st'"
    using emission_same_text(1) [OF assms(1)] by (simp_all add: same_text_def)
  then show ?thesis
    by (auto intro!: goodI emission_chat_inv [OF assms(1,2)] emission_sent_inv [OF assms(1,3)] emission_same_text(2) [OF assms(1)])
qed

lemma good_tool_prefix_step:
  assumes "chat_inv cfg st" and "sent_inv cfg c st"
  shows "good cfg (ks_raw_text st) (ks_assembler st) c (tool_prefix_step cfg st)"
proof -
  have quiet: "content_text (fst (tool_prefix_step cfg st)) = []" "chat_finish_reasons (fst (tool_prefix_step cfg st)) = []"
    using silent_prefix_step [of cfg st] by (simp_all add: silent_def)
  have step: "chat_inv cfg st' \<and> ks_raw_text st' = ks_raw_text st \<and> ks_assembler st' = ks_assembler st \<and> sent_inv cfg c st'"
    if "snd (tool_prefix_step cfg st) = Ok (st', f)" for st' f
    using tool_prefix_step_inv [OF that assms(1)] tool_prefix_step_Ok(1) [OF that] assms(2) by (simp add: same_text_def)
  show ?thesis
    unfolding good_def quiet append_Nil2
    using step tool_prefix_step_Panic [OF _ assms(1)] sent_inv_marker_free [OF assms(2)] by blast
qed

lemma good_inline_step:
  assumes "chat_inv cfg st" and "sent_inv cfg c st" and "ks_raw_text st \<noteq> []"
  shows "good cfg (ks_raw_text st) (ks_assembler st) c (inline_step cfg st)"
proof -
  obtain evs st' b where "inline_step cfg st = (evs, Ok (st', b))" "emission cfg st evs st'"
    by (rule inline_step_emission [OF assms(1,3)])
  then show ?thesis using good_emission assms(1,2) by metis
qed

lemma good_buffer_step:
  assumes "chat_inv cfg st" and "sent_inv cfg c st" and "ks_raw_text st \<noteq> []"
  shows "good cfg (ks_raw_text st) (ks_assembler st) c (buffer_step cfg st)"
proof -
  obtain evs st' b where "buffer_step cfg st = (evs, Ok (st', b))" "emission cfg st evs st'"
    by (rule buffer_step_emission [OF assms(1,3)])
  then show ?thesis using good_emission assms(1,2) by metis
qed

lemma good_text_step:
  assumes "chat_inv cfg st" and "sent_inv cfg c st"
    and "tx = [] \<or> earliest_stop_index (ks_raw_text st @ tx) (stop_of cfg) = None"
  shows "good cfg (ks_raw_text st @ tx) (ks_assembler st) c (chat_text_step cfg tx st)"
proof (cases "tx = []")
  case True
  with assms(1,2) show ?thesis by (simp add: chat_text_step_def goodI)
next
  case False
  obtain markup det where ob: "observe_markup (ks_markup st) (ks_raw_text st @ tx) = Some markup"
    "observe (ks_detector st) (ks_raw_text st @ tx) (stop_of cfg) = Some (det, None)"
    "chat_inv cfg (received tx markup det st)"
    using observe_both [OF assms(1), of tx] assms(3) False by metis
  let ?st1 = "received tx markup det st"
  have ne: "ks_raw_text ?st1 \<noteq> []" using False by simp
  have "good cfg (ks_raw_text ?st1) (ks_assembler ?st1) c (chat_text_step cfg tx st)"
    unfolding text_step_go_eq [OF False ob(1,2)]
  proof (rule good_and_then [OF good_inline_step [OF ob(3) received_sent_inv [OF assms(2)] ne]])
    fix st2 f2
    let ?c = "c @ content_text (fst (inline_step cfg ?st1))"
    assume s2: "ks_raw_text st2 = ks_raw_text ?st1" "chat_inv cfg st2" "sent_inv cfg ?c st2"
    show "good cfg (ks_raw_text st2) (ks_assembler st2) ?c (case (st2, f2) of (st2, sent1) \<Rightarrow>
      and_then (tool_prefix_step cfg st2) (\<lambda>(st3, sent2).
      and_then (buffer_step cfg st3) (\<lambda>(st4, sent3). ([], Ok (st4, sent1 \<or> sent2 \<or> sent3, False)))))"
      unfolding prod.case
    proof (rule good_and_then [OF good_tool_prefix_step [OF s2(2,3)]])
      fix st3 f3
      let ?c' = "?c @ content_text (fst (tool_prefix_step cfg st2))"
      assume s3: "ks_raw_text st3 = ks_raw_text st2" "chat_inv cfg st3" "sent_inv cfg ?c' st3"
      show "good cfg (ks_raw_text st3) (ks_assembler st3) ?c' (case (st3, f3) of (st3, sent2) \<Rightarrow>
        and_then (buffer_step cfg st3) (\<lambda>(st4, sent3). ([], Ok (st4, f2 \<or> sent2 \<or> sent3, False))))"
        unfolding prod.case
        by (rule good_and_then [OF good_buffer_step [OF s3(2,3)]], use s3(1) s2(1) ne in simp, unfold prod.case, rule good_return)
    qed
  qed
  then show ?thesis by simp
qed

text \<open>A chunk in which the first stop sequence is found.\<close>

lemma text_step_stop:
  assumes "chat_inv cfg st" and "tx \<noteq> []" and "earliest_stop_index (ks_raw_text st @ tx) (stop_of cfg) = Some n"
  obtains evs st' where "chat_text_step cfg tx st = (evs, Ok (st', False, True))" "ks_raw_text st' = ks_raw_text st @ tx"
    "ks_stop_at_len st' = Some n" "ks_finish_reason st' = FinishStop" "ks_stopped_by_sequence st'" "ks_assembler st' = ks_assembler st"
    "chat_finish_reasons evs = []"
    "\<And>c. sc_deferred cfg = DeferNone \<Longrightarrow> exact_inv cfg c st \<Longrightarrow> str_upto n (ks_raw_text st @ tx) = Some (c @ content_text evs)"
proof -
  let ?raw = "ks_raw_text st @ tx"
  obtain markup det where ob: "observe_markup (ks_markup st) ?raw = Some markup"
    "observe (ks_detector st) ?raw (stop_of cfg) = Some (det, Some n)" using observe_both [OF assms(1), of tx] assms(3) by metis
  define st1 where "st1 = received tx markup det st"
  obtain w v where w: "?raw = w @ v" "str_len w = n" using earliest_SomeD(3) [OF assms(3)] by blast
  have up: "str_upto n ?raw = Some w" unfolding w(1) using w(2) by auto
  have step: "chat_text_step cfg tx st = and_then
      (if sc_deferred cfg = DeferNone \<and> ks_emitted_len st < n then emit_content cfg n st1 else ([], Ok (st1, False)))
      (\<lambda>(st2, _). ([], Ok (st2\<lparr>ks_stop_at_len := Some n, ks_finish_reason := FinishStop, ks_stopped_by_sequence := True\<rparr>, False, True)))"
    using ob assms(2) by (simp add: chat_text_step_def st1_def received_def Let_def)
  have exact: "prefix c w" if "exact_inv cfg c st" for c
  proof -
    have "str_len c \<le> n" using that earliest_SomeD(1) [OF assms(3)] by (simp add: exact_inv_def ahead_def)
    moreover have "prefix c ?raw" using that by (auto simp: exact_inv_def intro: prefix_prefix)
    moreover have "prefix w ?raw" unfolding w(1) by simp
    ultimately show ?thesis using prefix_bytes w(2) by blast
  qed
  show thesis
  proof (cases "sc_deferred cfg = DeferNone \<and> ks_emitted_len st < n")
    case True
    obtain u where u: "prefix u (ks_raw_text st)" "ks_emitted_len st = str_len u" using assms(1) by (auto simp: chat_inv_def)
    have pu: "prefix u ?raw" using u(1) by (rule prefix_prefix)
    have pw: "prefix w ?raw" unfolding w(1) by simp
    have "prefix u w" using prefix_bytes [OF pu pw] u(2) w(2) True by simp
    then obtain s where s: "w = u @ s" by (auto simp: prefix_def)
    have "emit_content cfg (str_len (u @ s)) st1 =
      ([content_event (sc_seed cfg) s], Ok (st1\<lparr>ks_emitted_len := str_len (u @ s)\<rparr>, True))"
      by (rule emit_content_slice [of _ _ _ v]) (use w s u in \<open>simp_all add: st1_def\<close>)
    with True w s step have res: "chat_text_step cfg tx st = ([content_event (sc_seed cfg) s],
        Ok (st1\<lparr>ks_emitted_len := n, ks_stop_at_len := Some n, ks_finish_reason := FinishStop, ks_stopped_by_sequence := True\<rparr>, False, True))"
      by simp
    have "c = u" if "exact_inv cfg c st" for c
      by (rule prefix_len_unique [of c "ks_raw_text st" u]) (use that u in \<open>simp_all add: exact_inv_def\<close>)
    then show thesis by (intro that [OF res]) (use up s in \<open>simp_all add: st1_def\<close>)
  next
    case False
    with step have res: "chat_text_step cfg tx st = ([],
        Ok (st1\<lparr>ks_stop_at_len := Some n, ks_finish_reason := FinishStop, ks_stopped_by_sequence := True\<rparr>, False, True))" by auto
    have "c = w" if "exact_inv cfg c st" "sc_deferred cfg = DeferNone" for c
      by (rule prefix_len_unique [of c ?raw w])
        (use that False w exact [OF that(1)] in \<open>auto simp: exact_inv_def prefix_def\<close>)
    then show thesis by (intro that [OF res]) (use up in \<open>simp_all add: st1_def\<close>)
  qed
qed

section \<open>The whole loop\<close>

lemma structured_step_Ok:
  obtains evs asm b where "structured_step cfg chunk st = (evs, Ok (st\<lparr>ks_assembler := asm\<rparr>, b))" "silent evs"
    "bsc_tool_call_deltas chunk = [] \<Longrightarrow> asm = ks_assembler st"
proof -
  have "\<exists>evs asm b. structured_step cfg chunk st = (evs, Ok (st\<lparr>ks_assembler := asm\<rparr>, b)) \<and>
    (bsc_tool_call_deltas chunk = [] \<longrightarrow> asm = ks_assembler st)"
    by (auto simp: structured_step_def Let_def)
  with that silent_steps(3) [of cfg chunk st] show thesis by (metis fst_conv)
qed

text \<open>What a chunk does before its text, and after it.\<close>

definition after_text ::
  "chat_stream_config \<Rightarrow> backend_stream_chunk \<Rightarrow> bool \<Rightarrow> (backend_error + backend_stream_chunk) list \<Rightarrow>
   chat_stream_state \<times> bool \<times> bool \<Rightarrow> chat_stream_state chat_emits" where
  "after_text cfg chunk b rest = (\<lambda>(st, sent, stopped).
     if stopped then ([], Ok st)
     else and_then (internal_progress_event chunk (b \<or> sent), Ok ()) (\<lambda>_.
       case bsc_finish_reason chunk of
         Some reason \<Rightarrow> ([], Ok (st\<lparr>ks_finish_reason := api_finish_reason reason\<rparr>))
       | None \<Rightarrow> chat_loop cfg st rest))"

lemma chunk_start:
  obtains evs st1 b where "chat_loop cfg st (Inr chunk # rest) =
      and_then (evs, Ok ()) (\<lambda>_. and_then (chat_text_step cfg (bsc_text chunk) st1) (after_text cfg chunk b rest))"
    "silent evs" "ks_raw_text st1 = ks_raw_text st" "chat_inv cfg st1 = chat_inv cfg st"
    "\<And>c. sent_inv cfg c st1 = sent_inv cfg c st" "\<And>c. exact_inv cfg c st1 = exact_inv cfg c st"
    "bsc_tool_call_deltas chunk = [] \<Longrightarrow> ks_assembler st1 = ks_assembler st"
proof -
  obtain evs asm b where s: "structured_step cfg chunk (chat_counters chunk st) =
      (evs, Ok ((chat_counters chunk st)\<lparr>ks_assembler := asm\<rparr>, b))" "silent evs"
    "bsc_tool_call_deltas chunk = [] \<Longrightarrow> asm = ks_assembler (chat_counters chunk st)"
    by (rule structured_step_Ok [of cfg chunk "chat_counters chunk st"]) blast
  show thesis
    by (rule that [of "chat_progress_event chunk @ evs" "(chat_counters chunk st)\<lparr>ks_assembler := asm\<rparr>" b])
      (use s in \<open>simp_all add: chat_counters_def chat_inv_def sent_inv_def exact_inv_def after_text_def\<close>)
qed

text \<open>How the loop ends when it ends well: at a stop sequence, or with the invariant.\<close>

definition ended :: "chat_stream_config \<Rightarrow> rstr \<Rightarrow> chat_stream_state \<Rightarrow> bool" where
  "ended cfg c st \<longleftrightarrow>
     (if ks_stopped_by_sequence st
      then \<exists>n v. ks_stop_at_len st = Some n \<and> str_upto n (ks_raw_text st) = Some v \<and> hit (stop_of cfg) (ks_raw_text st) n
      else chat_inv cfg (st\<lparr>ks_finish_reason := FinishLength\<rparr>) \<and> sent_inv cfg c st)"

definition loop_good :: "chat_stream_config \<Rightarrow> rstr \<Rightarrow> rstr \<Rightarrow> chat_stream_state chat_emits \<Rightarrow> bool" where
  "loop_good cfg s c m \<longleftrightarrow>
     chat_finish_reasons (fst m) = [] \<and>
     ((\<forall>n. \<not> hit (stop_of cfg) s n) \<longrightarrow> marker_free cfg (c @ content_text (fst m)) s) \<and>
     (snd m = Panic \<longrightarrow> parser_panics cfg s) \<and>
     (\<forall>st. snd m = Ok st \<longrightarrow> prefix (ks_raw_text st) s \<and> ended cfg (c @ content_text (fst m)) st)"

lemma parser_panics_append: "parser_panics cfg s \<Longrightarrow> parser_panics cfg (s @ x)"
  unfolding parser_panics_def using prefix_prefix by blast

lemma loop_good_silent: "silent evs \<Longrightarrow> loop_good cfg s c (and_then (evs, Ok a) k) = loop_good cfg s c (k a)"
  by (simp add: loop_good_def silent_def)

lemma loop_good_text:
  assumes "good cfg raw asm c m"
    and "\<And>st b stopped. snd m = Ok (st, b, stopped) \<Longrightarrow> chat_inv cfg st \<Longrightarrow> ks_raw_text st = raw \<Longrightarrow>
      sent_inv cfg (c @ content_text (fst m)) st \<Longrightarrow> loop_good cfg (raw @ x) (c @ content_text (fst m)) (k (st, b, stopped))"
  shows "loop_good cfg (raw @ x) c (and_then m k)"
proof (cases "snd m")
  case (Ok sf)
  obtain st b stopped where sf: "sf = (st, b, stopped)" by (cases sf) auto
  have "loop_good cfg (raw @ x) (c @ content_text (fst m)) (k (st, b, stopped))"
    by (rule assms(2)) (use assms(1) Ok sf in \<open>auto simp: good_def\<close>)
  with assms(1) Ok sf show ?thesis by (simp add: loop_good_def good_def and_then_split)
qed (use assms(1) marker_free_append parser_panics_append in \<open>auto simp: loop_good_def good_def and_then_split\<close>)

lemma text_step_flag: "snd (chat_text_step cfg tx st) = Ok (st', b, True) \<Longrightarrow> ks_stopped_by_sequence st'"
  by (auto simp: chat_text_step_def Let_def and_then_split and_ok_Ok split: if_splits option.splits)

lemma loop_good_return:
  assumes "chat_inv cfg st" and "sent_inv cfg c st" and "prefix (ks_raw_text st) s"
  shows "loop_good cfg s c ([], Ok (st\<lparr>ks_finish_reason := reason\<rparr>))"
proof -
  obtain y where s: "s = ks_raw_text st @ y" using assms(3) by (auto simp: prefix_def)
  have "st\<lparr>ks_finish_reason := FinishLength\<rparr> = st" using assms(1) by (simp add: chat_inv_def)
  then have "ended cfg c (st\<lparr>ks_finish_reason := reason\<rparr>)"
    using assms(1,2) by (simp add: ended_def chat_inv_def sent_inv_def)
  with marker_free_append [OF sent_inv_marker_free [OF assms(2)]] s show ?thesis by (simp add: loop_good_def)
qed

lemma loop_good_after_text:
  assumes "chat_inv cfg st" and "sent_inv cfg c st" and "\<not> stopped"
    and "loop_good cfg (ks_raw_text st @ x) c (chat_loop cfg st rest)"
  shows "loop_good cfg (ks_raw_text st @ x) c (after_text cfg chunk b rest (st, sent, stopped))"
  using assms(3,4) loop_good_return [OF assms(1,2), of "ks_raw_text st @ x"]
  by (auto simp: after_text_def loop_good_silent simp del: and_then_simps split: option.splits)

lemma loop_good_stop:
  assumes "chat_inv cfg st" and "tx \<noteq> []" and "earliest_stop_index (ks_raw_text st @ tx) (stop_of cfg) = Some n"
  shows "loop_good cfg ((ks_raw_text st @ tx) @ x) c (and_then (chat_text_step cfg tx st) (after_text cfg chunk b rest))"
proof -
  obtain evs st' where st': "chat_text_step cfg tx st = (evs, Ok (st', False, True))" "ks_raw_text st' = ks_raw_text st @ tx"
    "ks_stop_at_len st' = Some n" "ks_stopped_by_sequence st'" "chat_finish_reasons evs = []"
    by (rule text_step_stop [OF assms]) blast
  have "hit (stop_of cfg) (ks_raw_text st @ tx) n" by (rule earliest_SomeD [OF assms(3)])
  moreover obtain v where "str_upto n (ks_raw_text st') = Some v" using earliest_SomeD(3) [OF assms(3)] st'(2) by auto
  ultimately show ?thesis
    using st' hit_append [of "stop_of cfg" "ks_raw_text st @ tx" n x] by (auto simp: loop_good_def ended_def after_text_def)
qed

lemma chat_loop_good:
  "chat_inv cfg st \<Longrightarrow> sent_inv cfg c st \<Longrightarrow>
   loop_good cfg (ks_raw_text st @ concat (map chunk_text items)) c (chat_loop cfg st items)"
proof (induction items arbitrary: st c)
  case Nil
  have "st\<lparr>ks_finish_reason := FinishLength\<rparr> = st" using Nil(1) by (simp add: chat_inv_def)
  with loop_good_return [OF Nil, of "ks_raw_text st" FinishLength] show ?case by simp
next
  case (Cons item items)
  show ?case
  proof (cases item)
    case (Inl e)
    with marker_free_append [OF sent_inv_marker_free [OF Cons.prems(2)]] show ?thesis by (simp add: loop_good_def)
  next
    case (Inr chunk)
    let ?tx = "bsc_text chunk" and ?x = "concat (map chunk_text items)"
    obtain evs st1 b where s1: "chat_loop cfg st (Inr chunk # items) =
        and_then (evs, Ok ()) (\<lambda>_. and_then (chat_text_step cfg ?tx st1) (after_text cfg chunk b items))"
      "silent evs" "ks_raw_text st1 = ks_raw_text st" "chat_inv cfg st1" "sent_inv cfg c st1"
      by (rule chunk_start [of cfg st chunk items]) (use Cons.prems in blast)
    let ?m = "chat_text_step cfg ?tx st1"
    have "loop_good cfg ((ks_raw_text st1 @ ?tx) @ ?x) c (and_then ?m (after_text cfg chunk b items))"
    proof (cases "?tx = [] \<or> earliest_stop_index (ks_raw_text st1 @ ?tx) (stop_of cfg) = None")
      case True
      show ?thesis
      proof (rule loop_good_text [OF good_text_step [OF s1(4,5) True]])
        fix st2 sent stopped
        assume st2: "snd ?m = Ok (st2, sent, stopped)" "chat_inv cfg st2" "ks_raw_text st2 = ks_raw_text st1 @ ?tx"
          "sent_inv cfg (c @ content_text (fst ?m)) st2"
        have "\<not> stopped" using text_step_flag [of cfg ?tx st1 st2 sent] st2(1,2) by (auto simp: chat_inv_def)
        from loop_good_after_text [OF st2(2,4) this Cons.IH [OF st2(2,4)]]
        show "loop_good cfg ((ks_raw_text st1 @ ?tx) @ ?x) (c @ content_text (fst ?m)) (after_text cfg chunk b items (st2, sent, stopped))"
          unfolding st2(3) .
      qed
    next
      case False
      then show ?thesis using loop_good_stop [OF s1(4)] by auto
    qed
    then show ?thesis unfolding Inr s1(1) loop_good_silent [OF s1(2)] using s1(3) by simp
  qed
qed

section \<open>The end of the stream\<close>

lemma visible_text:
  assumes "ended cfg c st"
  obtains v where "str_upto (visible_len st) (ks_raw_text st) = Some v" "prefix v (ks_raw_text st)"
proof (cases "ks_stopped_by_sequence st")
  case True
  with assms obtain n v where "ks_stop_at_len st = Some n" "str_upto n (ks_raw_text st) = Some v" by (auto simp: ended_def)
  with that [of v] show thesis by (auto simp: visible_len_def str_upto_Some prefix_def)
next
  case False
  then show thesis using that [of "ks_raw_text st"] str_upto_append [of "ks_raw_text st" "[]"] assms
    by (simp add: ended_def chat_inv_def visible_len_def)
qed

text \<open>The rest of the text, sent if nothing in it is a tool call.\<close>

lemma tail_step_cases:
  assumes "ended cfg c st"
  obtains "tail_step cfg st = ([], Ok ())"
  | u s where "tail_step cfg st = ([content_event (sc_seed cfg) s], Ok ())" "ks_raw_text st = u @ s" "ks_emitted_len st = str_len u"
    "\<not> contains_start (ks_markup st)" "\<not> ks_stopped_by_sequence st"
proof (cases "\<not> ks_stopped_by_sequence st \<and> ks_emitted_len st < visible_len st \<and> sc_deferred cfg = DeferNone \<and>
    \<not> contains_start (ks_markup st)")
  case True
  with assms have inv: "chat_inv cfg (st\<lparr>ks_finish_reason := FinishLength\<rparr>)" by (simp add: ended_def)
  then obtain u where u: "prefix u (ks_raw_text st)" "ks_emitted_len st = str_len u" by (auto simp: chat_inv_def)
  then obtain s where s: "ks_raw_text st = u @ s" by (auto simp: prefix_def)
  have "visible_len st = str_len (u @ s)" using inv s by (simp add: visible_len_def chat_inv_def)
  with emit_content_slice [of st u s "[]" cfg] s u(2) True
  have "tail_step cfg st = ([content_event (sc_seed cfg) s], Ok ())" by (simp add: tail_step_def)
  with s u(2) True that(2) show thesis by blast
next
  case False
  then show thesis using that(1) by (auto simp: tail_step_def)
qed

lemma no_start_clean:
  assumes "observed ms pol s" and "\<not> contains_start ms"
  shows "clean (start_markers pol) s"
proof -
  have "\<not> hit (start_markers pol) s n" for n using assms by (simp add: observed_def contains_start_def least_def)
  then show ?thesis by (auto simp: clean_def sublist_def hit_def)
qed

lemma tail_marker_free:
  assumes "ended cfg c st" and "marker_free cfg c (ks_raw_text st)"
  shows "marker_free cfg (c @ content_text (fst (tail_step cfg st))) (ks_raw_text st)"
proof (cases rule: tail_step_cases [OF assms(1)])
  case 1
  with assms(2) show ?thesis by simp
next
  case (2 u s)
  with assms(1) have inv: "chat_inv cfg (st\<lparr>ks_finish_reason := FinishLength\<rparr>)" "sent_inv cfg c st" by (simp_all add: ended_def)
  obtain w v where w: "prefix w v" "prefix v (ks_raw_text st)" "ks_emitted_len st = str_len v" "subseq c w"
    using inv(2) by (auto simp: sent_inv_def)
  have "v = u" by (rule prefix_len_unique [OF w(2)]) (use 2 w(3) in simp_all)
  then have "subseq c u" using w(1,4) by (auto simp: prefix_def intro: subseq_order.trans)
  then have "subseq (c @ s) (ks_raw_text st)" unfolding 2(2) by (simp add: list_emb_append_mono)
  moreover have "clean (start_markers (policy_of cfg)) (ks_raw_text st)"
    by (rule no_start_clean [OF _ 2(4)]) (use inv(1) in \<open>simp add: chat_inv_def\<close>)
  ultimately show ?thesis unfolding marker_free_def using 2(1) by (intro exI [of _ "ks_raw_text st"]) simp
qed

text \<open>What follows the tail: no content when the content was sent as it came, one finish reason.\<close>

definition rest_of_close :: "chat_stream_config \<Rightarrow> chat_stream_state \<Rightarrow> rstr \<Rightarrow> unit chat_emits" where
  "rest_of_close cfg st visible_text =
     and_then (quietly (parse_stream_text cfg st visible_text)) (\<lambda>answer.
     and_then (check_stream_calls cfg answer) (\<lambda>parsed.
     and_then (quietly (check_stream_progress cfg st visible_text parsed)) (\<lambda>_.
     and_then (deferred_content cfg st parsed, Ok ()) (\<lambda>_.
     and_then (remaining_calls cfg st parsed) (\<lambda>_.
       (closing_events cfg st parsed, Ok ()))))))"

lemma chat_close_eq:
  assumes "str_upto (visible_len st) (ks_raw_text st) = Some v"
  shows "chat_close cfg st = and_then (tail_step cfg st) (\<lambda>_. rest_of_close cfg st v)"
  using assms by (simp add: chat_close_def rest_of_close_def)

lemma rest_content:
  assumes "sc_deferred cfg = DeferNone"
  shows "content_text (fst (rest_of_close cfg st v)) = []"
  using assms silent_checks
  by (auto simp: rest_of_close_def and_then_split deferred_content_def silent_def split: outcome.splits)

lemma structured_calls_no_panic: "structured_calls rd ids i cs \<noteq> Panic"
proof (induction cs arbitrary: i)
  case (Cons c cs)
  have "structured_call rd ids i c \<noteq> Panic"
    by (auto simp: structured_call_def parse_structured_tool_arguments_def and_ok_Panic Let_def split: sum.splits)
  with Cons show ?case by (auto simp: and_ok_Panic)
qed simp

lemma into_parsed_no_panic: "into_parsed rd ids calls s \<noteq> Panic"
  using structured_calls_no_panic [of rd ids 0 calls]
  by (auto simp: into_parsed_def split_reasoning_def and_ok_Panic map_err_iff split: option.splits)

lemma check_stream_calls_eq: "snd (check_stream_calls cfg answer) = check_parsed_calls (sc_request cfg) answer"
  by (simp add: check_stream_calls_def check_parsed_calls_def and_then_split stage_if_def Let_def split: option.splits)

lemma rest_Panic:
  assumes "snd (rest_of_close cfg st v) = Panic"
  shows "\<exists>ids. parse_assistant_for_family (env_json (sc_env cfg)) (env_string (sc_env cfg)) ids (sc_family cfg) v = Panic"
proof -
  have "check_stream_progress cfg st v parsed \<noteq> Panic" for parsed
  proof -
    obtain cls where "classify_chat_no_progress (env_unicode (sc_env cfg)) v parsed (ks_completion_tokens st)
        (sc_deferred cfg = ToolChoiceRequired \<and> pa_tool_calls parsed = []) (sc_request cfg) (policy_of cfg) = Some cls"
      using classify_chat_total by blast
    moreover have "validate_json_object_response rd parsed \<noteq> Panic" for rd
      by (simp add: validate_json_object_response_def split: sum.splits)
    ultimately show ?thesis by (simp add: check_stream_progress_def and_ok_Panic split: option.splits)
  qed
  moreover have "snd (remaining_calls cfg st parsed) \<noteq> Panic" for parsed
    using emit_calls_no_panic [OF delta_no_panic(1)] emit_calls_no_panic [OF delta_no_panic(2)]
    by (simp add: remaining_calls_def and_then_split and_ok_Panic)
  ultimately have "parse_stream_text cfg st v = Panic"
    using assms check_parsed_calls_no_panic
    by (auto simp: rest_of_close_def and_then_split and_ok_Panic check_stream_calls_eq)
  then show ?thesis
    using into_parsed_no_panic by (auto simp: parse_stream_text_def split: if_splits dest!: parse_chat_text_Panic)
qed

section \<open>The loop and the reference\<close>

text \<open>One chunk, followed or not by the rest of the loop: the cases of the reference.\<close>

lemma after_text_go: "after_text cfg chunk b rest (st, sent, False) =
    and_then (internal_progress_event chunk (b \<or> sent), Ok ()) (\<lambda>_.
      case bsc_finish_reason chunk of
        Some reason \<Rightarrow> ([], Ok (st\<lparr>ks_finish_reason := api_finish_reason reason\<rparr>))
      | None \<Rightarrow> chat_loop cfg st rest)"
  and after_text_stop: "after_text cfg chunk b rest (st, sent, True) = ([], Ok st)"
  by (simp_all add: after_text_def)

lemma good_text_step_Ok:
  assumes "chat_inv cfg st" and "sent_inv cfg c st" and "tx = [] \<or> earliest_stop_index (ks_raw_text st @ tx) (stop_of cfg) = None"
    and "snd (chat_text_step cfg tx st) = Ok (st', sent, stopped)"
  shows "\<not> stopped" and "chat_inv cfg st'" and "ks_raw_text st' = ks_raw_text st @ tx" and "ks_assembler st' = ks_assembler st"
    and "\<exists>c'. sent_inv cfg c' st'"
proof -
  note g = good_text_step [OF assms(1-3)]
  show inv: "chat_inv cfg st'" and "ks_raw_text st' = ks_raw_text st @ tx" and "ks_assembler st' = ks_assembler st"
    and "\<exists>c'. sent_inv cfg c' st'"
    using g assms(4) by (auto simp: good_def)
  show "\<not> stopped" using text_step_flag [of cfg tx st st' sent] assms(4) inv by (auto simp: chat_inv_def)
qed

lemma str_upto_all [simp]: "str_upto (str_len s) s = Some s"
  using str_upto_append [of s "[]"] by simp

lemma visible_all:
  assumes "chat_inv cfg st"
  shows "visible_len st = str_len (ks_raw_text st)" and "visible_len (st\<lparr>ks_finish_reason := r\<rparr>) = str_len (ks_raw_text st)"
  using assms by (simp_all add: chat_inv_def visible_len_def)

lemma chat_loop_reference:
  assumes "chat_inv cfg st" and "sent_inv cfg c st" and "ks_assembler st = []" and "\<forall>chunk \<in> set cs. bsc_tool_call_deltas chunk = []"
    and "reference_run (stop_of cfg) (ks_raw_text st) cs = (tx, reason)" and "snd (chat_loop cfg st (map Inr cs)) = Ok st'"
  shows "str_upto (visible_len st') (ks_raw_text st') = Some tx \<and> ks_finish_reason st' = reason \<and> ks_assembler st' = []"
  using assms
proof (induction cs arbitrary: st c)
  case Nil
  then have "st' = st" "tx = ks_raw_text st" "reason = FinishLength" by simp_all
  with visible_all(1) [OF Nil(1)] Nil(1,3) show ?case by (simp add: chat_inv_def)
next
  case (Cons chunk cs)
  let ?tx = "bsc_text chunk" and ?q = "ks_raw_text st @ bsc_text chunk"
  have no_deltas: "bsc_tool_call_deltas chunk = []" using Cons.prems(4) by simp
  obtain evs st1 b where s1: "chat_loop cfg st (Inr chunk # map Inr cs) =
      and_then (evs, Ok ()) (\<lambda>_. and_then (chat_text_step cfg ?tx st1) (after_text cfg chunk b (map Inr cs)))"
    "ks_raw_text st1 = ks_raw_text st" "chat_inv cfg st1" "sent_inv cfg c st1" "ks_assembler st1 = ks_assembler st"
    by (rule chunk_start [of cfg st chunk "map Inr cs"]) (use Cons.prems(1,2) no_deltas in blast)
  have res: "and_ok (snd (chat_text_step cfg ?tx st1)) (\<lambda>a. snd (after_text cfg chunk b (map Inr cs) a)) = Ok st'"
    using Cons.prems(6) s1(1) by (simp add: and_then_split)
  then obtain st2 sent stopped where st2: "snd (chat_text_step cfg ?tx st1) = Ok (st2, sent, stopped)"
    "snd (after_text cfg chunk b (map Inr cs) (st2, sent, stopped)) = Ok st'" by (auto simp: and_ok_Ok)
  show ?case
  proof (cases "?tx = [] \<or> earliest_stop_index ?q (stop_of cfg) = None")
    case True
    then have look: "(if ?tx = [] then None else earliest_stop_index ?q (stop_of cfg)) = None"
      and go: "?tx = [] \<or> earliest_stop_index (ks_raw_text st1 @ ?tx) (stop_of cfg) = None" using s1(2) by auto
    note g = good_text_step_Ok [OF s1(3,4) go st2(1)]
    obtain c' where c': "sent_inv cfg c' st2" using g(5) by blast
    show ?thesis
    proof (cases "bsc_finish_reason chunk")
      case None
      have "reference_run (stop_of cfg) (ks_raw_text st2) cs = (tx, reason)"
        using Cons.prems(5) None g(3) s1(2) by (simp add: Let_def look)
      moreover have "snd (chat_loop cfg st2 (map Inr cs)) = Ok st'"
        using st2(2) g(1) None by (simp add: after_text_def and_then_split)
      ultimately show ?thesis using Cons.IH [OF g(2) c'] g(4) s1(5) Cons.prems(3,4) by simp
    next
      case (Some r)
      have "tx = ?q" "reason = api_finish_reason r" using Cons.prems(5) Some by (simp_all add: Let_def look)
      moreover have "st' = st2\<lparr>ks_finish_reason := api_finish_reason r\<rparr>"
        using st2(2) g(1) Some by (simp add: after_text_def and_then_split)
      ultimately show ?thesis using g(3,4) s1(2,5) Cons.prems(3) str_upto_all [of ?q] by (simp add: visible_all(2) [OF g(2)])
    qed
  next
    case False
    then obtain n where n: "?tx \<noteq> []" "earliest_stop_index (ks_raw_text st1 @ ?tx) (stop_of cfg) = Some n" using s1(2) by auto
    obtain st3 where st3: "snd (chat_text_step cfg ?tx st1) = Ok (st3, False, True)" "ks_raw_text st3 = ks_raw_text st1 @ ?tx"
      "ks_stop_at_len st3 = Some n" "ks_finish_reason st3 = FinishStop" "ks_assembler st3 = ks_assembler st1"
      by (rule text_step_stop [OF s1(3) n]) (metis snd_conv)
    then have "st' = st3" using st2 by (simp add: after_text_def)
    moreover obtain v where "str_upto n ?q = Some v" using earliest_SomeD(3) [OF n(2)] s1(2) by auto
    ultimately show ?thesis using Cons.prems(3,5) n st3 s1(2,5) by (simp add: visible_len_def)
  qed
qed

text \<open>Without markers the content is exact.\<close>

lemma no_completed_call:
  assumes "chat_inv cfg st" and "\<And>n. \<not> end_hit (policy_of cfg) (ks_raw_text st) n"
  shows "tm_completed_prefix_len (ks_markup st) = None"
  using assms by (auto simp: chat_inv_def observed_def greatest_def split: option.splits)

lemma text_step_exact:
  assumes "chat_inv cfg st" and "exact_inv cfg c st" and "sc_deferred cfg = DeferNone"
    and "tx = [] \<or> earliest_stop_index (ks_raw_text st @ tx) (stop_of cfg) = None"
    and "\<And>n. \<not> end_hit (policy_of cfg) (ks_raw_text st @ tx) n"
  obtains evs st' b where "chat_text_step cfg tx st = (evs, Ok (st', b, False))" "chat_inv cfg st'"
    "exact_inv cfg (c @ content_text evs) st'" "ks_raw_text st' = ks_raw_text st @ tx"
proof (cases "tx = []")
  case True
  then show thesis using assms(1,2) by (intro that [of "[]" st False]) (simp_all add: chat_text_step_def)
next
  case False
  obtain markup det where ob: "observe_markup (ks_markup st) (ks_raw_text st @ tx) = Some markup"
    "observe (ks_detector st) (ks_raw_text st @ tx) (stop_of cfg) = Some (det, None)"
    "chat_inv cfg (received tx markup det st)"
    using observe_both [OF assms(1), of tx] assms(4) False by metis
  let ?st1 = "received tx markup det st"
  have ne: "ks_raw_text ?st1 \<noteq> []" using False by simp
  obtain evs st' b where e: "inline_step cfg ?st1 = (evs, Ok (st', b))" "emission cfg ?st1 evs st'"
    by (rule inline_step_emission [OF ob(3) ne])
  have inv: "chat_inv cfg st'" "same_text ?st1 st'" using emission_chat_inv [OF e(2) ob(3)] emission_same_text(1) [OF e(2)] by simp_all
  have raw: "ks_raw_text st' = ks_raw_text st @ tx" using inv(2) by (simp add: same_text_def)
  have "tm_completed_prefix_len (ks_markup st') = None" by (rule no_completed_call [OF inv(1)]) (use assms(5) raw in simp)
  then have res: "chat_text_step cfg tx st = (evs, Ok (st', b, False))"
    unfolding text_step_go_eq [OF False ob(1,2)] using assms(3) by (simp add: e(1) tool_prefix_step_none buffer_step_def)
  show thesis by (rule that [OF res inv(1) emission_exact_inv [OF e(2) received_exact_inv [OF assms(2)]] raw])
qed

lemma end_hit_prefix: "(\<And>n. \<not> end_hit pol (p @ x) n) \<Longrightarrow> \<not> end_hit pol p n"
  using end_hit_append by blast

lemma chat_loop_exact:
  assumes "chat_inv cfg st" and "exact_inv cfg c st" and "sc_deferred cfg = DeferNone"
    and "\<And>n. \<not> end_hit (policy_of cfg) (ks_raw_text st @ concat (map bsc_text cs)) n"
    and "reference_run (stop_of cfg) (ks_raw_text st) cs = (tx, reason)"
  shows "\<exists>evs st'. chat_loop cfg st (map Inr cs) = (evs, Ok st') \<and>
    (if ks_stopped_by_sequence st' then c @ content_text evs = tx
     else ks_raw_text st' = tx \<and> exact_inv cfg (c @ content_text evs) st')"
  using assms
proof (induction cs arbitrary: st c)
  case Nil
  then show ?case by (simp add: chat_inv_def)
next
  case (Cons chunk cs)
  let ?tx = "bsc_text chunk" and ?q = "ks_raw_text st @ bsc_text chunk"
  obtain evs st1 b where s1: "chat_loop cfg st (Inr chunk # map Inr cs) =
      and_then (evs, Ok ()) (\<lambda>_. and_then (chat_text_step cfg ?tx st1) (after_text cfg chunk b (map Inr cs)))"
    "silent evs" "ks_raw_text st1 = ks_raw_text st" "chat_inv cfg st1" "exact_inv cfg c st1"
    by (rule chunk_start [of cfg st chunk "map Inr cs"]) (use Cons.prems(1,2) in blast)
  have quiet: "content_text evs = []" "content_text (internal_progress_event chunk x) = []" for x
    using s1(2) silent_steps(2) by (auto simp: silent_def)
  show ?case
  proof (cases "?tx = [] \<or> earliest_stop_index ?q (stop_of cfg) = None")
    case True
    then have look: "(if ?tx = [] then None else earliest_stop_index ?q (stop_of cfg)) = None"
      and go: "?tx = [] \<or> earliest_stop_index (ks_raw_text st1 @ ?tx) (stop_of cfg) = None" using s1(3) by auto
    have "\<not> end_hit (policy_of cfg) (ks_raw_text st1 @ ?tx) n" for n
      by (rule end_hit_prefix [where x = "concat (map bsc_text cs)"]) (use Cons.prems(4) s1(3) in simp)
    then obtain evs2 st2 b2 where st2: "chat_text_step cfg ?tx st1 = (evs2, Ok (st2, b2, False))" "chat_inv cfg st2"
      "exact_inv cfg (c @ content_text evs2) st2" "ks_raw_text st2 = ?q"
      using text_step_exact [OF s1(4,5) Cons.prems(3) go] s1(3) by metis
    show ?thesis
    proof (cases "bsc_finish_reason chunk")
      case None
      have "reference_run (stop_of cfg) (ks_raw_text st2) cs = (tx, reason)"
        using Cons.prems(5) None st2(4) by (simp add: Let_def look)
      moreover have "\<not> end_hit (policy_of cfg) (ks_raw_text st2 @ concat (map bsc_text cs)) n" for n
        using Cons.prems(4) [of n] st2(4) by simp
      ultimately obtain evs3 st3 where "chat_loop cfg st2 (map Inr cs) = (evs3, Ok st3)"
        "if ks_stopped_by_sequence st3 then (c @ content_text evs2) @ content_text evs3 = tx
         else ks_raw_text st3 = tx \<and> exact_inv cfg ((c @ content_text evs2) @ content_text evs3) st3"
        using Cons.IH [OF st2(2,3) Cons.prems(3)] by metis
      then show ?thesis using s1(1) st2(1) None quiet by (simp add: after_text_def split: if_splits)
    next
      case (Some r)
      have "tx = ?q" using Cons.prems(5) Some by (simp add: Let_def look)
      with s1(1) st2 Some quiet show ?thesis by (simp add: after_text_def exact_inv_def chat_inv_def)
    qed
  next
    case False
    then obtain n where n: "?tx \<noteq> []" "earliest_stop_index (ks_raw_text st1 @ ?tx) (stop_of cfg) = Some n" using s1(3) by auto
    obtain evs2 st2 where st2: "chat_text_step cfg ?tx st1 = (evs2, Ok (st2, False, True))" "ks_stopped_by_sequence st2"
      "str_upto n (ks_raw_text st1 @ ?tx) = Some (c @ content_text evs2)"
      by (rule text_step_stop [OF s1(4) n]) (use Cons.prems(3) s1(5) in blast)
    have "tx = c @ content_text evs2" using Cons.prems(5) n st2(3) s1(3) by simp
    then show ?thesis using s1(1) st2 quiet by (simp add: after_text_def)
  qed
qed

section \<open>Properties\<close>

lemma sent_inv_start: "sent_inv cfg [] (chat_stream_start cfg)"
  by (simp add: sent_inv_def chat_stream_start_def)

lemma stream_loop_good: "loop_good cfg (concat (map chunk_text items)) [] (chat_loop cfg (chat_stream_start cfg) items)"
  using chat_loop_good [OF chat_inv_start sent_inv_start, of cfg items] by (simp add: chat_stream_start_def)

lemma stream_split:
  "fst (fst (streaming_chat_stream cfg items)) = role_event (sc_seed cfg) # fst (chat_loop cfg (chat_stream_start cfg) items) @
     (case snd (chat_loop cfg (chat_stream_start cfg) items) of Ok st \<Rightarrow> fst (chat_close cfg st) | _ \<Rightarrow> [])"
  "snd (fst (streaming_chat_stream cfg items)) =
     and_ok (snd (chat_loop cfg (chat_stream_start cfg) items)) (\<lambda>st. snd (chat_close cfg st))"
  by (simp_all add: streaming_chat_stream_def and_then_split Let_def split: outcome.splits)

text \<open>C39: No markup of a tool call reaches the client as content. Whatever the backend sends and however it cuts the text, if
  content is sent as it comes and no stop sequence occurs, all of it is taken in order from a beginning of
  the text in which no start marker occurs.\<close>

theorem chat_stream_sends_no_markup:
  assumes "sc_deferred cfg = DeferNone" and "\<forall>n. \<not> hit (cr_stop (sc_request cfg)) (concat (map chunk_text items)) n"
  shows "\<exists>w. prefix w (concat (map chunk_text items)) \<and> subseq (content_text (fst (fst (streaming_chat_stream cfg items)))) w \<and>
    (\<forall>q \<in> set (start_markers (family_tool_markup_policy (sc_family cfg))). \<not> sublist q w)"
proof -
  let ?s = "concat (map chunk_text items)"
  obtain evs r where L: "chat_loop cfg (chat_stream_start cfg) items = (evs, r)" by fastforce
  have loop: "marker_free cfg (content_text evs) ?s" "\<And>st. r = Ok st \<Longrightarrow> prefix (ks_raw_text st) ?s \<and> ended cfg (content_text evs) st"
    using stream_loop_good [of cfg items] assms(2) L by (simp_all add: loop_good_def)
  have "marker_free cfg (content_text (fst (fst (streaming_chat_stream cfg items)))) ?s"
  proof (cases r)
    case (Ok st)
    from loop(2) [OF Ok] obtain y where st: "?s = ks_raw_text st @ y" "ended cfg (content_text evs) st" by (auto simp: prefix_def)
    have "\<not> hit (stop_of cfg) (ks_raw_text st) n" for n
      using assms(2) hit_append [of "stop_of cfg" "ks_raw_text st" n y] unfolding st(1) by blast
    then have "\<not> ks_stopped_by_sequence st" using st(2) by (auto simp: ended_def)
    then have "marker_free cfg (content_text evs) (ks_raw_text st)" using st(2) sent_inv_marker_free by (simp add: ended_def)
    from tail_marker_free [OF st(2) this] have tail: "marker_free cfg (content_text evs @ content_text (fst (tail_step cfg st))) ?s"
      unfolding st(1) by (rule marker_free_append)
    obtain v where "str_upto (visible_len st) (ks_raw_text st) = Some v" by (rule visible_text [OF st(2)])
    note close = chat_close_eq [OF this, of cfg]
    have "snd (tail_step cfg st) = Ok ()" by (cases rule: tail_step_cases [OF st(2)]) simp_all
    with tail show ?thesis
      by (simp add: stream_split L Ok close and_then_split rest_content [OF assms(1)])
  qed (use loop(1) in \<open>simp_all add: stream_split L\<close>)
  then show ?thesis using family_markup.start_nonempty unfolding marker_free_def clean_def by blast
qed

text \<open>The stream adds no panic of its own: if it panics, the tool parser panics on a beginning of the text received.\<close>

theorem chat_stream_panics_only_in_parser:
  assumes "snd (fst (streaming_chat_stream cfg items)) = Panic"
  shows "\<exists>raw ids. prefix raw (concat (map chunk_text items)) \<and>
    parse_assistant_for_family (env_json (sc_env cfg)) (env_string (sc_env cfg)) ids (sc_family cfg) raw = Panic"
proof -
  let ?s = "concat (map chunk_text items)"
  obtain evs r where L: "chat_loop cfg (chat_stream_start cfg) items = (evs, r)" by fastforce
  have loop: "r = Panic \<Longrightarrow> parser_panics cfg ?s" "\<And>st. r = Ok st \<Longrightarrow> prefix (ks_raw_text st) ?s \<and> ended cfg (content_text evs) st"
    using stream_loop_good [of cfg items] L by (simp_all add: loop_good_def)
  show ?thesis
  proof (cases r)
    case (Ok st)
    then have st: "prefix (ks_raw_text st) ?s" "ended cfg (content_text evs) st" using loop(2) by simp_all
    obtain v where v: "str_upto (visible_len st) (ks_raw_text st) = Some v" "prefix v (ks_raw_text st)" by (rule visible_text [OF st(2)])
    have "snd (tail_step cfg st) = Ok ()" by (cases rule: tail_step_cases [OF st(2)]) simp_all
    then have "snd (rest_of_close cfg st v) = Panic"
      using assms by (simp add: stream_split L Ok chat_close_eq [OF v(1)] and_then_split)
    from rest_Panic [OF this] prefix_order.trans [OF v(2) st(1)] show ?thesis by blast
  qed (use assms loop(1) in \<open>simp_all add: stream_split L parser_panics_def\<close>)
qed

lemma tail_exact:
  assumes "exact_inv cfg c st" and "chat_inv cfg (st\<lparr>ks_finish_reason := FinishLength\<rparr>)" and "sc_deferred cfg = DeferNone"
    and "\<not> contains_start (ks_markup st)"
  shows "c @ content_text (fst (tail_step cfg st)) = ks_raw_text st"
proof -
  from assms(1) obtain r where r: "ks_raw_text st = c @ r" "ks_emitted_len st = str_len c" by (auto simp: exact_inv_def prefix_def)
  have vis: "visible_len st = str_len (c @ r)" "\<not> ks_stopped_by_sequence st"
    using assms(2) r(1) by (simp_all add: visible_len_def chat_inv_def)
  show ?thesis
  proof (cases "r = []")
    case True
    with r vis show ?thesis by (simp add: tail_step_def)
  next
    case False
    then have "0 < str_len r" using length_le_str_len [of r] by (cases r) auto
    with vis r emit_content_slice [of st c r "[]" cfg] assms(3,4) show ?thesis by (simp add: tail_step_def)
  qed
qed

lemma no_start_state:
  assumes "chat_inv cfg (st\<lparr>ks_finish_reason := FinishLength\<rparr>)" and "prefix (ks_raw_text st) s"
    and "\<forall>n. \<not> hit (start_markers (policy_of cfg)) s n"
  shows "\<not> contains_start (ks_markup st)"
proof -
  obtain y where "s = ks_raw_text st @ y" using assms(2) by (auto simp: prefix_def)
  then have "\<not> hit (start_markers (policy_of cfg)) (ks_raw_text st) n" for n
    using assms(3) hit_append [of _ "ks_raw_text st" n y] by metis
  then show ?thesis using assms(1) by (auto simp: chat_inv_def observed_def contains_start_def least_def split: option.splits)
qed

lemma stream_content_exact:
  assumes "sc_deferred cfg = DeferNone" and "reference_run (cr_stop (sc_request cfg)) [] cs = (tx, reason)"
    and "\<forall>n. \<not> hit (start_markers (family_tool_markup_policy (sc_family cfg))) (concat (map bsc_text cs)) n"
    and "\<forall>n. \<not> end_hit (family_tool_markup_policy (sc_family cfg)) (concat (map bsc_text cs)) n"
  shows "content_text (fst (fst (streaming_chat_stream cfg (map Inr cs)))) = tx"
proof -
  let ?st = "chat_stream_start cfg" and ?s = "concat (map bsc_text cs)"
  have start: "exact_inv cfg [] ?st" "ks_raw_text ?st = []" by (simp_all add: exact_inv_def chat_stream_start_def)
  obtain evs st where L: "chat_loop cfg ?st (map Inr cs) = (evs, Ok st)"
    "if ks_stopped_by_sequence st then content_text evs = tx else ks_raw_text st = tx \<and> exact_inv cfg (content_text evs) st"
    using chat_loop_exact [OF chat_inv_start start(1) assms(1), of cs tx reason, unfolded append_Nil start(2)] assms(2,4) by auto
  have texts: "concat (map chunk_text (map Inr cs)) = ?s" by (simp add: comp_def)
  from stream_loop_good [of cfg "map Inr cs"] L(1)
  have st: "prefix (ks_raw_text st) ?s" "ended cfg (content_text evs) st" unfolding texts by (simp_all add: loop_good_def)
  obtain v where v: "str_upto (visible_len st) (ks_raw_text st) = Some v" by (rule visible_text [OF st(2)])
  have ok: "snd (tail_step cfg st) = Ok ()" by (cases rule: tail_step_cases [OF st(2)]) simp_all
  have "content_text evs @ content_text (fst (tail_step cfg st)) = tx"
  proof (cases "ks_stopped_by_sequence st")
    case True
    with L(2) show ?thesis by (simp add: tail_step_def)
  next
    case False
    with L(2) st(2) have inv: "chat_inv cfg (st\<lparr>ks_finish_reason := FinishLength\<rparr>)" "ks_raw_text st = tx"
      "exact_inv cfg (content_text evs) st" by (simp_all add: ended_def)
    from tail_exact [OF inv(3,1) assms(1) no_start_state [OF inv(1) st(1) assms(3)]] inv(2) show ?thesis by simp
  qed
  with ok show ?thesis by (simp add: stream_split L(1) chat_close_eq [OF v] and_then_split rest_content [OF assms(1)])
qed

text \<open>C38: Text without markers is streamed exactly. If content is sent as it comes and no marker of a tool call occurs, the
  client receives all of the text that a search for the stop sequences after every chunk lets through,
  however the backend cuts it and whatever the later checks of the answer say.\<close>

theorem chat_stream_text:
  assumes "sc_deferred cfg = DeferNone" and "reference_run (cr_stop (sc_request cfg)) [] cs = (tx, reason)"
    and "\<forall>n. \<not> hit (start_markers (family_tool_markup_policy (sc_family cfg))) (concat (map bsc_text cs)) n"
    and "\<forall>n. \<not> end_hit (family_tool_markup_policy (sc_family cfg)) (concat (map bsc_text cs)) n"
  shows "content_text (fst (fst (streaming_chat_stream cfg (map Inr cs)))) = tx"
  using assms by (rule stream_content_exact)

text \<open>What is held back until the end is sent whole.\<close>

lemma deferred_loop_content:
  assumes "sc_deferred cfg \<in> {JsonObjectMode, ToolChoiceRequired}"
  shows "content_text (fst (chat_loop cfg st items)) = []"
proof -
  have step: "content_text (fst (chat_text_step cfg tx s)) = []" for tx s
    using assms silent_prefix_step
    by (auto simp: chat_text_step_def inline_step_def buffer_step_def and_then_split silent_def Let_def
        split: option.splits outcome.splits)
  show ?thesis
  proof (induction items arbitrary: st)
    case (Cons item items)
    show ?case
    proof (cases item)
      case (Inr chunk)
      obtain evs st1 b where "chat_loop cfg st (Inr chunk # items) =
          and_then (evs, Ok ()) (\<lambda>_. and_then (chat_text_step cfg (bsc_text chunk) st1) (after_text cfg chunk b items))" "silent evs"
        by (rule chunk_start [of cfg st chunk items]) blast
      moreover have "content_text (internal_progress_event chunk x) = []" for x using silent_steps(2) by (simp add: silent_def)
      ultimately show ?thesis using Inr Cons step
        by (auto simp: and_then_split after_text_def silent_def split: outcome.splits option.splits)
    qed simp
  qed simp
qed

lemma rest_reasons:
  assumes "snd (rest_of_close cfg st v) = Ok ()"
  obtains answer parsed where "parse_stream_text cfg st v = Ok answer" "check_parsed_calls (sc_request cfg) answer = Ok parsed"
    "check_stream_progress cfg st v parsed = Ok ()"
    "chat_finish_reasons (fst (rest_of_close cfg st v)) = [if pa_tool_calls parsed \<noteq> [] then FinishToolCalls else ks_finish_reason st]"
    "content_text (fst (rest_of_close cfg st v)) = content_text (deferred_content cfg st parsed)"
proof -
  have "chat_finish_reasons (deferred_content cfg st parsed) = []" for parsed
    by (auto simp: deferred_content_def split: option.splits)
  moreover from assms obtain answer parsed where ok: "parse_stream_text cfg st v = Ok answer"
    "snd (check_stream_calls cfg answer) = Ok parsed" "check_stream_progress cfg st v parsed = Ok ()"
    "snd (remaining_calls cfg st parsed) = Ok ()" by (auto simp: rest_of_close_def and_then_split and_ok_Ok)
  ultimately show thesis
    using that [OF ok(1) _ ok(3)] silent_checks(1) [of cfg answer] silent_checks(2) [of cfg st parsed]
    by (simp add: rest_of_close_def and_then_split closing_reasons silent_def check_stream_calls_eq)
qed

lemma check_stream_progress_Ok:
  assumes "check_stream_progress cfg st v parsed = Ok ()"
    and "\<not> (cr_response_format (sc_request cfg) = Some FormatJsonObject \<and> request_requires_tool_choice (sc_request cfg))"
  shows "validate_json_object_response_format (env_json (sc_env cfg)) parsed (sc_request cfg) = Ok ()"
    and "classify_chat_no_progress (env_unicode (sc_env cfg)) v parsed n
      (request_requires_tool_choice (sc_request cfg) \<and> pa_tool_calls parsed = []) (sc_request cfg) (policy_of cfg) = Some None"
proof -
  have mode: "sc_deferred cfg = JsonObjectMode \<longleftrightarrow> cr_response_format (sc_request cfg) = Some FormatJsonObject"
    "sc_deferred cfg = ToolChoiceRequired \<longleftrightarrow> request_requires_tool_choice (sc_request cfg)"
    using assms(2) by (auto simp: sc_deferred_def deferred_emission_strategy_def)
  show "validate_json_object_response_format (env_json (sc_env cfg)) parsed (sc_request cfg) = Ok ()"
    using assms(1) mode(1) by (auto simp: check_stream_progress_def and_ok_Ok validate_json_object_response_format_def)
  have "classify_chat_no_progress (env_unicode (sc_env cfg)) v parsed (ks_completion_tokens st)
      (request_requires_tool_choice (sc_request cfg) \<and> pa_tool_calls parsed = []) (sc_request cfg) (policy_of cfg) = Some None"
    using assms(1) mode(2) by (auto simp: check_stream_progress_def and_ok_Ok split: option.splits)
  then show "classify_chat_no_progress (env_unicode (sc_env cfg)) v parsed n
      (request_requires_tool_choice (sc_request cfg) \<and> pa_tool_calls parsed = []) (sc_request cfg) (policy_of cfg) = Some None"
    by (simp only: classify_chat_None)
qed

text \<open>C40: A stream that ends well agrees with the single response. With stop sequences of one length, and for a backend
  that sends text only, the non-streaming call accepts the same output with the same finish reason, and
  what a deferred mode holds back is the content of that response. JSON mode together with a required tool
  call is left out.\<close>

theorem chat_stream_agrees_with_chat:
  assumes "same_length (cr_stop (sc_request cfg))" and "[] \<notin> set (cr_stop (sc_request cfg))"
    and "\<forall>c \<in> set init. bsc_finish_reason c = None" and "bsc_finish_reason last_chunk = Some (bo_finish_reason output)"
    and "bo_text output = concat (map bsc_text (init @ [last_chunk]))"
    and "\<forall>c \<in> set (init @ [last_chunk]). bsc_tool_call_deltas c = []"
    and "\<not> (cr_response_format (sc_request cfg) = Some FormatJsonObject \<and> request_requires_tool_choice (sc_request cfg))"
    and "streaming_chat_stream cfg (map Inr (init @ [last_chunk])) = ((evs, Ok ()), cancelled)"
  shows "\<exists>ids c. finish_chat ((sc_env cfg)\<lparr>env_ids := ids\<rparr>) (sc_family cfg) new_id created (sc_request cfg) output = Ok c \<and>
    chat_finish_reasons evs = [rcc_finish_reason c] \<and>
    (sc_deferred cfg \<in> {JsonObjectMode, ToolChoiceRequired} \<longrightarrow> content_text evs = pa_content (rcc_parsed c))"
proof -
  let ?cs = "init @ [last_chunk]" and ?st0 = "chat_stream_start cfg"
  obtain tx stopped where ap: "apply_stop_sequences (bo_text output) (cr_stop (sc_request cfg)) = Some (tx, stopped)"
    and ref: "reference_run (cr_stop (sc_request cfg)) [] ?cs =
      (tx, if stopped then FinishStop else api_finish_reason (bo_finish_reason output))"
    unfolding assms(5) by (rule reference_apply_stop [OF assms(1-4)])
  obtain levs r where L: "chat_loop cfg ?st0 (map Inr ?cs) = (levs, r)" by fastforce
  have split: "evs = role_event (sc_seed cfg) # levs @ (case r of Ok st \<Rightarrow> fst (chat_close cfg st) | _ \<Rightarrow> [])"
    "and_ok r (\<lambda>st. snd (chat_close cfg st)) = Ok ()"
    using stream_split [of cfg "map Inr ?cs"] assms(8) L by simp_all
  then obtain st where r: "r = Ok st" "snd (chat_close cfg st) = Ok ()" by (auto simp: and_ok_Ok)
  have start: "ks_raw_text ?st0 = []" "ks_assembler ?st0 = []" by (simp_all add: chat_stream_start_def)
  have st: "str_upto (visible_len st) (ks_raw_text st) = Some tx" "ks_assembler st = []"
    "ks_finish_reason st = (if stopped then FinishStop else api_finish_reason (bo_finish_reason output))"
    using chat_loop_reference [OF chat_inv_start sent_inv_start start(2) assms(6), unfolded start(1), OF ref, of st] L r(1) by simp_all
  have good: "ended cfg (content_text levs) st" "chat_finish_reasons levs = []"
    using stream_loop_good [of cfg "map Inr ?cs"] L r(1) by (simp_all add: loop_good_def)
  have tail: "snd (tail_step cfg st) = Ok ()" "chat_finish_reasons (fst (tail_step cfg st)) = []"
    by (cases rule: tail_step_cases [OF good(1)]; simp)+
  have close: "fst (chat_close cfg st) = fst (tail_step cfg st) @ fst (rest_of_close cfg st tx)" "snd (rest_of_close cfg st tx) = Ok ()"
    using r(2) tail(1) by (simp_all add: chat_close_eq [OF st(1)] and_then_split)
  obtain answer parsed where fin: "parse_stream_text cfg st tx = Ok answer" "check_parsed_calls (sc_request cfg) answer = Ok parsed"
    "check_stream_progress cfg st tx parsed = Ok ()"
    "chat_finish_reasons (fst (rest_of_close cfg st tx)) = [if pa_tool_calls parsed \<noteq> [] then FinishToolCalls else ks_finish_reason st]"
    "content_text (fst (rest_of_close cfg st tx)) = content_text (deferred_content cfg st parsed)"
    by (rule rest_reasons [OF close(2)])
  let ?env = "(sc_env cfg)\<lparr>env_ids := sc_ids cfg (ks_parses st)\<rparr>"
  obtain c where c: "finish_chat ?env (sc_family cfg) new_id created (sc_request cfg) output = Ok c" "rcc_parsed c = parsed"
    "rcc_finish_reason c = (if pa_tool_calls parsed \<noteq> [] then FinishToolCalls
       else if stopped then FinishStop else api_finish_reason (bo_finish_reason output))"
    using ap fin(1,2) st(2) check_stream_progress_Ok [OF fin(3) assms(7)]
    by (simp add: finish_chat_def parse_stream_text_def)
  have "content_text evs = pa_content parsed" if "sc_deferred cfg \<in> {JsonObjectMode, ToolChoiceRequired}"
    using deferred_loop_content [OF that, of ?st0 "map Inr ?cs"] that L split(1) r(1) close(1) fin(5)
    by (auto simp: tail_step_def deferred_content_def)
  then show ?thesis
    using c split(1) r(1) close(1) good(2) tail(2) fin(4) st(3) by (intro exI [of _ "sc_ids cfg (ks_parses st)"] exI [of _ c]) auto
qed

section \<open>Streams without tool calls\<close>

lemma text_step_total:
  assumes "chat_inv cfg st" and "\<And>n. \<not> end_hit (policy_of cfg) (ks_raw_text st @ tx) n"
  obtains evs st' b stopped where "chat_text_step cfg tx st = (evs, Ok (st', b, stopped))"
proof (cases "tx = [] \<or> earliest_stop_index (ks_raw_text st @ tx) (stop_of cfg) = None")
  case False
  then obtain n where n: "tx \<noteq> []" "earliest_stop_index (ks_raw_text st @ tx) (stop_of cfg) = Some n" by auto
  show thesis by (rule text_step_stop [OF assms(1) n]) (rule that)
next
  case True
  show thesis
  proof (cases "tx = []")
    case False
    obtain markup det where ob: "observe_markup (ks_markup st) (ks_raw_text st @ tx) = Some markup"
      "observe (ks_detector st) (ks_raw_text st @ tx) (stop_of cfg) = Some (det, None)"
      "chat_inv cfg (received tx markup det st)"
      using observe_both [OF assms(1), of tx] True False by metis
    have ne: "ks_raw_text (received tx markup det st) \<noteq> []" using False by simp
    obtain evs st' b where e: "inline_step cfg (received tx markup det st) = (evs, Ok (st', b))"
      "emission cfg (received tx markup det st) evs st'" by (rule inline_step_emission [OF ob(3) ne])
    have inv: "chat_inv cfg st'" and raw: "ks_raw_text st' = ks_raw_text st @ tx"
      using emission_chat_inv [OF e(2) ob(3)] emission_same_text(1) [OF e(2)] by (simp_all add: same_text_def)
    have none: "tm_completed_prefix_len (ks_markup st') = None" by (rule no_completed_call [OF inv]) (use assms(2) raw in simp)
    have "ks_raw_text st' \<noteq> []" using raw False by simp
    then obtain evs2 st2 b2 where "buffer_step cfg st' = (evs2, Ok (st2, b2))" by (rule buffer_step_emission [OF inv])
    then show thesis
      using that [of "evs @ evs2" st2 "b \<or> b2" False] text_step_go_eq [OF False ob(1,2)] by (simp add: e(1) tool_prefix_step_none [OF none])
  qed (use that [of "[]" st False False] in \<open>simp add: chat_text_step_def\<close>)
qed

lemma chat_loop_total:
  assumes "chat_inv cfg st" and "sent_inv cfg c st" and "\<And>n. \<not> end_hit (policy_of cfg) (ks_raw_text st @ concat (map bsc_text cs)) n"
  shows "\<exists>evs st'. chat_loop cfg st (map Inr cs) = (evs, Ok st')"
  using assms
proof (induction cs arbitrary: st c)
  case (Cons chunk cs)
  let ?tx = "bsc_text chunk"
  obtain evs st1 b where s1: "chat_loop cfg st (Inr chunk # map Inr cs) =
      and_then (evs, Ok ()) (\<lambda>_. and_then (chat_text_step cfg ?tx st1) (after_text cfg chunk b (map Inr cs)))"
    "ks_raw_text st1 = ks_raw_text st" "chat_inv cfg st1" "sent_inv cfg c st1"
    by (rule chunk_start [of cfg st chunk "map Inr cs"]) (use Cons.prems(1,2) in blast)
  have ends: "\<not> end_hit (policy_of cfg) (ks_raw_text st1 @ ?tx) n" for n
    by (rule end_hit_prefix [where x = "concat (map bsc_text cs)"]) (use Cons.prems(3) s1(2) in simp)
  obtain evs2 st2 b2 stopped where st2: "chat_text_step cfg ?tx st1 = (evs2, Ok (st2, b2, stopped))"
    by (rule text_step_total [OF s1(3) ends])
  show ?case
  proof (cases "stopped \<or> bsc_finish_reason chunk \<noteq> None")
    case True
    with s1(1) st2 show ?thesis by (auto simp: after_text_def)
  next
    case False
    then have go: "?tx = [] \<or> earliest_stop_index (ks_raw_text st1 @ ?tx) (stop_of cfg) = None"
      using text_step_stop [OF s1(3)] st2 by (metis Pair_inject not_Some_eq outcome.inject(1))
    note g = good_text_step_Ok [OF s1(3,4) go, of st2 b2 stopped]
    have "\<not> end_hit (policy_of cfg) (ks_raw_text st2 @ concat (map bsc_text cs)) n" for n
      using Cons.prems(3) [of n] g(3) st2 s1(2) by simp
    then obtain evs3 st3 where "chat_loop cfg st2 (map Inr cs) = (evs3, Ok st3)"
      using Cons.IH [of st2] g(2,5) st2 by (metis snd_conv)
    with False s1(1) st2 show ?thesis by (simp add: after_text_def)
  qed
qed simp

text \<open>A stream whose text parses without calls and passes the checks ends well.\<close>

lemma stream_without_calls:
  assumes "reference_run (stop_of cfg) [] cs = (tx, reason)" and "\<forall>chunk \<in> set cs. bsc_tool_call_deltas chunk = []"
    and "\<forall>n. \<not> end_hit (policy_of cfg) (concat (map bsc_text cs)) n"
    and "\<And>ids. parse_chat_text (env_json (sc_env cfg)) (env_string (sc_env cfg)) ids (sc_family cfg) tx (sc_request cfg) = Ok answer"
    and "check_parsed_calls (sc_request cfg) answer = Ok parsed" and "pa_tool_calls parsed = []"
    and "\<And>st. check_stream_progress cfg st tx parsed = Ok ()"
  shows "\<exists>evs. streaming_chat_stream cfg (map Inr cs) = ((evs, Ok ()), False) \<and> chat_finish_reasons evs = [reason]"
proof -
  let ?st0 = "chat_stream_start cfg"
  have start: "ks_raw_text ?st0 = []" "ks_assembler ?st0 = []" by (simp_all add: chat_stream_start_def)
  obtain levs st where L: "chat_loop cfg ?st0 (map Inr cs) = (levs, Ok st)"
    using chat_loop_total [OF chat_inv_start sent_inv_start, of cfg cs] assms(3) start(1) by auto
  have st: "str_upto (visible_len st) (ks_raw_text st) = Some tx" "ks_assembler st = []" "ks_finish_reason st = reason"
    using chat_loop_reference [OF chat_inv_start sent_inv_start start(2) assms(2), unfolded start(1), OF assms(1), of st] L by simp_all
  have good: "ended cfg (content_text levs) st" "chat_finish_reasons levs = []"
    using stream_loop_good [of cfg "map Inr cs"] L by (simp_all add: loop_good_def)
  have tail: "snd (tail_step cfg st) = Ok ()" "chat_finish_reasons (fst (tail_step cfg st)) = []"
    by (cases rule: tail_step_cases [OF good(1)]; simp)+
  have "parse_stream_text cfg st tx = Ok answer" using assms(4) st(2) by (simp add: parse_stream_text_def)
  then have rest: "snd (rest_of_close cfg st tx) = Ok ()"
    using assms(5-7) by (simp add: rest_of_close_def and_then_split check_stream_calls_eq remaining_calls_def unsent_calls_def st(2))
  have "chat_finish_reasons (fst (rest_of_close cfg st tx)) = [reason]"
    by (rule rest_reasons [OF rest]) (use assms(4-6) st in \<open>auto simp: parse_stream_text_def\<close>)
  then show ?thesis
    using L tail rest good(2)
    by (simp add: streaming_chat_stream_def chat_close_eq [OF st(1)] prod_eq_iff and_then_split Let_def)
qed

section \<open>Instances\<close>

definition demo_stream :: "chat_completion_request \<Rightarrow> chat_stream_config" where
  "demo_stream request =
     \<lparr>sc_env = demo_env, sc_ids = (\<lambda>_. show_nat), sc_seed = demo_seed, sc_request = request, sc_family = FamQwen,
      sc_include_usage = False\<rparr>"

lemma demo_stream_fields [simp]:
  "sc_env (demo_stream r) = demo_env" "sc_request (demo_stream r) = r" "sc_family (demo_stream r) = FamQwen"
  "sc_seed (demo_stream r) = demo_seed" "sc_ids (demo_stream r) = (\<lambda>_. show_nat)" "sc_include_usage (demo_stream r) = False"
  by (simp_all add: demo_stream_def)

lemma demo_deferred: "sc_deferred (demo_stream (demo_chat\<lparr>cr_stop := stop\<rparr>)) = DeferNone"
  by (simp add: sc_deferred_def demo_chat_def request_requires_tool_choice_def parses_unmarked_tool_calls_def
      deferred_emission_strategy_def)

lemma no_hit_iff: "(\<forall>n. \<not> hit qs s n) \<longleftrightarrow> (\<forall>q \<in> set qs. \<not> sublist q s)"
  by (auto simp: hit_def sublist_def)

lemma no_end_hit_iff: "(\<forall>n. \<not> end_hit pol s n) \<longleftrightarrow> (\<forall>m \<in> set (tp_markers pol). \<not> sublist (end_marker m) s)"
  by (auto simp: end_hit_def ends_at_def sublist_def)

lemma demo_no_markers:
  assumes "\<not> sublist (lit ''<tool_call>'') s" and "\<not> sublist (lit ''</tool_call>'') s"
  shows "\<forall>n. \<not> hit (start_markers (family_tool_markup_policy FamQwen)) s n"
    and "\<forall>n. \<not> end_hit (family_tool_markup_policy FamQwen) s n"
  using assms unfolding no_hit_iff no_end_hit_iff by (simp_all add: JSON_TOOL_MARKERS_def)

theorem chat_stream_text_witness:
  "content_text (fst (fst (streaming_chat_stream (demo_stream (demo_chat\<lparr>cr_stop := [lit ''END'']\<rparr>))
     (map Inr [demo_chunk (lit ''ab E'') None, demo_chunk (lit ''ND cd'') None])))) = lit ''ab ''"
proof -
  let ?cs = "[demo_chunk (lit ''ab E'') None, demo_chunk (lit ''ND cd'') None]"
  have ref: "reference_run (cr_stop (sc_request (demo_stream (demo_chat\<lparr>cr_stop := [lit ''END'']\<rparr>)))) [] ?cs = (lit ''ab '', FinishStop)"
    by (simp add: stream_eval demo_chunk_def)
  have "concat (map bsc_text ?cs) = lit ''ab END cd''" by (simp add: demo_chunk_def lit_def)
  moreover have "\<not> sublist (lit ''<tool_call>'') (lit ''ab END cd'')" "\<not> sublist (lit ''</tool_call>'') (lit ''ab END cd'')"
    by (simp_all add: lit_def sublist_Cons_right)
  note demo_no_markers [OF this]
  ultimately show ?thesis by (intro chat_stream_text [OF demo_deferred ref]) simp_all
qed

theorem chat_stream_sends_no_markup_witness:
  "\<exists>w. prefix w (lit ''ab<tool_call>'') \<and>
     subseq (content_text (fst (fst (streaming_chat_stream (demo_stream (demo_chat\<lparr>cr_stop := []\<rparr>))
       [Inr (demo_chunk (lit ''ab<tool_c'') None), Inr (demo_chunk (lit ''all>'') None)])))) w \<and>
     \<not> sublist (lit ''<tool_call>'') w"
  using chat_stream_sends_no_markup [OF demo_deferred [of "[]"],
      of "[Inr (demo_chunk (lit ''ab<tool_c'') None), Inr (demo_chunk (lit ''all>'') None)]"]
  by (auto simp: hit_def demo_chunk_def lit_def JSON_TOOL_MARKERS_def)

lemma demo_stream_progress:
  assumes "makes_progress (env_unicode demo_env) tx parsed (sc_deferred (demo_stream r) = ToolChoiceRequired \<and> pa_tool_calls parsed = []) r
      (family_tool_markup_policy FamQwen)"
    and "sc_deferred (demo_stream r) = JsonObjectMode \<Longrightarrow> validate_json_object_response (env_json demo_env) parsed = Ok ()"
  shows "check_stream_progress (demo_stream r) st tx parsed = Ok ()"
  using assms by (simp add: check_stream_progress_def flip: classify_chat_None [where n = "ks_completion_tokens st"])

theorem chat_stream_agrees_with_chat_witness:
  "\<exists>ids c. finish_chat (demo_env\<lparr>env_ids := ids\<rparr>) FamQwen (lit ''1'') 0 demo_chat (demo_output (lit ''hello'') BfStop) = Ok c \<and>
     rcc_finish_reason c = FinishStop"
proof -
  let ?cfg = "demo_stream demo_chat" and ?init = "[demo_chunk (lit ''he'') None]" and ?last = "demo_chunk (lit ''llo'') (Some BfStop)"
  let ?p = "\<lparr>pa_reasoning = None, pa_content = lit ''hello'', pa_tool_calls = []\<rparr>" and ?out = "demo_output (lit ''hello'') BfStop"
  have stop: "cr_stop demo_chat = []" and fmt: "cr_response_format demo_chat = None" by (simp_all add: demo_chat_def)
  have d: "sc_deferred ?cfg = DeferNone" using demo_deferred [of "[]"] stop by (simp add: demo_chat_def)
  have ref: "reference_run (stop_of ?cfg) [] (?init @ [?last]) = (lit ''hello'', FinishStop)"
    by (simp add: stream_eval demo_chunk_def stop)
  have "\<not> sublist (lit ''<tool_call>'') (lit ''hello'')" "\<not> sublist (lit ''</tool_call>'') (lit ''hello'')"
    by (simp_all add: lit_def sublist_Cons_right)
  then have ends: "\<forall>n. \<not> end_hit (policy_of ?cfg) (concat (map bsc_text (?init @ [?last]))) n"
    using demo_no_markers(2) [of "lit ''hello''"] by (simp add: demo_chunk_def lit_def)
  have progress: "check_stream_progress ?cfg st (lit ''hello'') ?p = Ok ()" for st
    by (rule demo_stream_progress) (use demo_progress d in simp_all)
  have deltas: "\<forall>c \<in> set (?init @ [?last]). bsc_tool_call_deltas c = []" by (simp add: demo_chunk_def)
  obtain evs where evs: "streaming_chat_stream ?cfg (map Inr (?init @ [?last])) = ((evs, Ok ()), False)" "chat_finish_reasons evs = [FinishStop]"
    using stream_without_calls [OF ref deltas ends _ _ _ progress] demo_parse demo_checked by auto
  have "same_length (cr_stop (sc_request ?cfg))" "[] \<notin> set (cr_stop (sc_request ?cfg))"
    "\<forall>c \<in> set ?init. bsc_finish_reason c = None" "bsc_finish_reason ?last = Some (bo_finish_reason ?out)"
    "bo_text ?out = concat (map bsc_text (?init @ [?last]))"
    by (simp_all add: same_length_def stop demo_chunk_def demo_output_def lit_def)
  from chat_stream_agrees_with_chat [OF this deltas _ evs(1), of "lit ''1''" 0] fmt obtain ids c where
    "finish_chat (demo_env\<lparr>env_ids := ids\<rparr>) FamQwen (lit ''1'') 0 demo_chat ?out = Ok c" "chat_finish_reasons evs = [rcc_finish_reason c]"
    by auto
  with evs(2) show ?thesis by auto
qed

section \<open>Where a stream and the single response differ\<close>

text \<open>Hidden reasoning is streamed. The reasoning of a Qwen answer, which the single response leaves out of the message, is
  part of the streamed content.\<close>

theorem stream_sends_hidden_reasoning:
  "content_text (fst (fst (streaming_chat_stream (demo_stream demo_chat)
     (map Inr [demo_chunk (lit ''<think>plan</think>hello'') (Some BfStop)])))) = lit ''<think>plan</think>hello'' \<and>
   parse_chat_text rd rs ids FamQwen (lit ''<think>plan</think>hello'') demo_chat =
     Ok \<lparr>pa_reasoning = Some (lit ''plan''), pa_content = lit ''hello'', pa_tool_calls = []\<rparr>"
proof
  let ?tx = "lit ''<think>plan</think>hello''" and ?cs = "[demo_chunk (lit ''<think>plan</think>hello'') (Some BfStop)]"
  have d: "sc_deferred (demo_stream demo_chat) = DeferNone" using demo_deferred [of "[]"] by (simp add: demo_chat_def)
  have ref: "reference_run (cr_stop (sc_request (demo_stream demo_chat))) [] ?cs = (?tx, FinishStop)"
    by (simp add: stream_eval demo_chunk_def demo_chat_def)
  have "\<not> sublist (lit ''<tool_call>'') ?tx" "\<not> sublist (lit ''</tool_call>'') ?tx"
    by (simp_all add: lit_def sublist_Cons_right)
  note clear = demo_no_markers [OF this]
  show "content_text (fst (fst (streaming_chat_stream (demo_stream demo_chat) (map Inr ?cs)))) = ?tx"
    by (rule stream_content_exact [OF d ref]) (use clear in \<open>simp_all add: demo_chunk_def\<close>)
  have "split_sub (lit ''<think>'') ?tx = Some ([], lit ''plan</think>hello'')"
    "split_sub (lit ''</think>'') (lit ''plan</think>hello'') = Some (lit ''plan'', lit ''hello'')"
    "split_sub (lit ''<tool_call>'') (lit ''hello'') = None" by (simp_all add: demo_eval)
  then show "parse_chat_text rd rs ids FamQwen ?tx demo_chat = Ok \<lparr>pa_reasoning = Some (lit ''plan''), pa_content = lit ''hello'', pa_tool_calls = []\<rparr>"
    using qwen_tags.open_nonempty qwen_tags.close_nonempty
    by (simp add: parse_chat_text_def unmarked_tool_json_without_declared_tools_def parses_unmarked_tool_calls_def demo_chat_def
        json_object_mode_without_tools_def parse_complete_def qwen_parse_unguarded after_reasoning_def split_reasoning_def
        parse_tool_calls_def with_reasoning_def tagged_calls.simps)
qed

text \<open>A stop sequence inside a tool call makes its markup visible. When the stop sequence is found, everything up to it that
  has not been sent yet is sent as content, the markup of an unfinished tool call included.\<close>

theorem stop_sequence_reveals_markup:
  "content_text (fst (fst (streaming_chat_stream (demo_stream (demo_chat\<lparr>cr_stop := [lit ''END'']\<rparr>))
     [Inr (demo_chunk (lit ''<tool_call>{END'') None)]))) = lit ''<tool_call>{''"
proof -
  let ?cfg = "demo_stream (demo_chat\<lparr>cr_stop := [lit ''END'']\<rparr>)" and ?tx = "lit ''<tool_call>{END''"
  have d: "sc_deferred ?cfg = DeferNone" by (rule demo_deferred)
  have stop: "earliest_stop_index ?tx [lit ''END''] = Some 12" "str_upto 12 ?tx = Some (lit ''<tool_call>{'')"
    by (simp_all add: stream_eval)
  obtain evs st1 b where s1: "chat_loop ?cfg (chat_stream_start ?cfg) [Inr (demo_chunk ?tx None)] =
      and_then (evs, Ok ()) (\<lambda>_. and_then (chat_text_step ?cfg (bsc_text (demo_chunk ?tx None)) st1) (after_text ?cfg (demo_chunk ?tx None) b []))"
    "silent evs" "ks_raw_text st1 = ks_raw_text (chat_stream_start ?cfg)" "chat_inv ?cfg st1"
    "exact_inv ?cfg [] st1 = exact_inv ?cfg [] (chat_stream_start ?cfg)"
    by (rule chunk_start [of ?cfg "chat_stream_start ?cfg" "demo_chunk ?tx None" "[]"]) (use chat_inv_start in blast)
  have raw: "ks_raw_text st1 = []" "exact_inv ?cfg [] st1"
    using s1(3,5) by (simp_all add: chat_stream_start_def exact_inv_def)
  obtain evs2 st2 where st2: "chat_text_step ?cfg ?tx st1 = (evs2, Ok (st2, False, True))" "ks_stopped_by_sequence st2"
    "ks_stop_at_len st2 = Some 12" "ks_raw_text st2 = ?tx" "str_upto 12 ?tx = Some (content_text evs2)"
    by (rule text_step_stop [OF s1(4), of ?tx 12]) (use d raw stop in \<open>simp_all add: lit_def\<close>)
  have loop: "chat_loop ?cfg (chat_stream_start ?cfg) [Inr (demo_chunk ?tx None)] = (evs @ evs2, Ok st2)"
    using s1(1) st2(1) by (simp add: demo_chunk_def after_text_def)
  have vis: "str_upto (visible_len st2) (ks_raw_text st2) = Some (lit ''<tool_call>{'')" using st2(3,4) stop(2) by (simp add: visible_len_def)
  have "content_text evs = []" "content_text evs2 = lit ''<tool_call>{''" using s1(2) st2(5) stop(2) by (simp_all add: silent_def)
  with st2(2) show ?thesis
    by (simp add: stream_split loop chat_close_eq [OF vis] and_then_split rest_content [OF d] tail_step_def del: chat_loop.simps)
qed

definition json_required_chat :: chat_completion_request where
  "json_required_chat = demo_chat\<lparr>cr_tools := [tool_definition_function (lit ''f'') (lit ''d'') (JObject [])],
    cr_tool_choice := Some ChoiceRequired, cr_response_format := Some FormatJsonObject\<rparr>"

text \<open>JSON mode drops the tool requirement of a stream. The single response rejects an answer without the required tool
  call; the stream of the same answer ends well, because the JSON mode hides that a call is required.\<close>

theorem json_stream_ignores_required_tool:
  "(\<exists>evs. streaming_chat_stream (demo_stream json_required_chat) (map Inr [demo_chunk (lit ''{}'') (Some BfStop)]) = ((evs, Ok ()), False) \<and>
      chat_finish_reasons evs = [FinishStop]) \<and>
   finish_chat demo_env FamQwen (lit ''1'') 0 json_required_chat (demo_output (lit ''{}'') BfStop) = Err (RtNoProgress TextFallbackRequiredTool)"
proof -
  let ?tx = "lit ''{}''" and ?p = "\<lparr>pa_reasoning = None, pa_content = lit ''{}'', pa_tool_calls = []\<rparr>"
  let ?cs = "[demo_chunk ?tx (Some BfStop)]"
  have "split_sub (lit ''<think>'') ?tx = None" "split_sub (lit ''<tool_call>'') ?tx = None" by (simp_all add: demo_eval)
  from qwen_plain [OF this] have parse: "parse_chat_text rd rs ids FamQwen ?tx json_required_chat = Ok ?p" for rd rs ids
    by (simp add: parse_chat_text_def unmarked_tool_json_without_declared_tools_def parses_unmarked_tool_calls_def
        json_object_mode_without_tools_def parse_complete_def json_required_chat_def)
  have json: "validate_json_object_response (env_json demo_env) ?p = Ok ()"
    by (simp add: validate_json_object_response_def demo_env_def lit_def)
  have free: "\<not> sublist (lit ''<tool_call>'') ?tx" "\<not> sublist (lit ''</tool_call>'') ?tx" by (simp_all add: lit_def sublist_Cons_right)
  have progress: "makes_progress (env_unicode demo_env) ?tx ?p False json_required_chat policy" for policy
    by (simp add: makes_progress_def repeated_assistant_content_def stalled_assistant_turn_def demo_chat_def demo_env_def json_required_chat_def
      chat_message_plain_def latest_user_content_def normalized_progress_terms_def no_space_progress_char_def
      meaningful_progress_term_count_def meaningful_progress_term_def demo_eval Let_def)
  have mode: "sc_deferred (demo_stream json_required_chat) = JsonObjectMode" by (simp add: sc_deferred_def deferred_emission_strategy_def json_required_chat_def)
  have stop: "cr_stop json_required_chat = []" by (simp add: json_required_chat_def demo_chat_def)
  have ref: "reference_run (stop_of (demo_stream json_required_chat)) [] ?cs = (?tx, FinishStop)" by (simp add: stream_eval demo_chunk_def stop)
  have ends: "\<forall>n. \<not> end_hit (policy_of (demo_stream json_required_chat)) (concat (map bsc_text ?cs)) n"
    using demo_no_markers(2) [OF free] by (simp add: demo_chunk_def)
  have ok: "check_stream_progress (demo_stream json_required_chat) st ?tx ?p = Ok ()" for st
    by (rule demo_stream_progress) (use progress json mode in simp_all)
  have stream: "\<exists>evs. streaming_chat_stream (demo_stream json_required_chat) (map Inr ?cs) = ((evs, Ok ()), False) \<and> chat_finish_reasons evs = [FinishStop]"
    by (rule stream_without_calls [OF ref _ ends _ _ _ ok]) (use parse demo_checked in \<open>simp_all add: demo_chunk_def\<close>)
  have "policy_contains_start (family_tool_markup_policy FamQwen) ?tx = Some False"
    using policy_contains_start_total [of "family_tool_markup_policy FamQwen" ?tx] policy_contains_start_hit [of "family_tool_markup_policy FamQwen" ?tx]
      demo_no_markers(1) [OF free] by (metis not_None_eq)
  moreover have "apply_stop_sequences ?tx (cr_stop json_required_chat) = Some (?tx, False)"
    by (rule apply_stop_None) (simp add: stop earliest_stop_index_def List.map_filter_def min_opt_def)
  moreover have "validate_json_object_response_format (env_json demo_env) ?p json_required_chat = Ok ()"
    "request_requires_tool_choice json_required_chat"
    using json by (simp_all add: validate_json_object_response_format_def request_requires_tool_choice_def json_required_chat_def)
  ultimately have "finish_chat demo_env FamQwen (lit ''1'') 0 json_required_chat (demo_output ?tx BfStop) = Err (RtNoProgress TextFallbackRequiredTool)"
    by (simp add: finish_chat_def demo_output_def parse demo_checked classify_chat_no_progress_def)
  with stream show ?thesis ..
qed

end
