(* ===== verification/Spec2Isabelle.thy ===== *)
theory Spec2Isabelle
  imports Block_Pool_Props Scheduler_Props Api_Canonical Api_Validation Token_Estimate Rate_Limit Completion_Stream_Props Gemma_Roundtrip Layer_Snapshot Linear_Cache No_Progress_Classes Chat_Stream_Props
begin

text \<open>
  A verification development for kir-ai, a local inference server for large language models
  written in Rust (crates under src/crates).

  \<^bold>\<open>The program.\<close> A request enters over HTTP as JSON (llm-server), is validated (llm-api), passes the
  public rate limiter and waits in the model scheduler for a slot (llm-server/src/engine). Its
  messages are rendered to a prompt by the chat template of the model family (llm-chat-template,
  chosen in llm-runtime/src/adapters.rs), a backend generates text with the help of a paged KV cache
  (llm-kv-cache), and the text is cut at stop sequences and streamed (llm-runtime) or parsed for
  reasoning and tool calls (llm-tool-parser). Errors of every layer become an HTTP status and a
  redacted body (llm-server/src/engine/error.rs).

  \<^bold>\<open>Conventions.\<close> A Rust \<open>Result\<close> is an \<open>outcome\<close> with the constructors \<open>Ok\<close> and \<open>Err\<close> and, where the
  code indexes, slices or unwraps, \<open>Panic\<close>. A \<open>String\<close> is the list of its Unicode scalar values
  (\<open>rstr\<close>) and every byte offset is computed from the UTF-8 lengths. The release build has no
  overflow checks, so \<open>+\<close>, \<open>-\<close> and \<open>*\<close> on \<open>u64\<close> and \<open>usize\<close> are \<open>wrap_add\<close>, \<open>wrap_sub\<close> and
  \<open>wrap_mul\<close>; saturating and checked arithmetic has its own functions. Floating point values
  are binary32 bit patterns, with their arithmetic in \<open>F32_Arith\<close>. What the repository only calls is an argument: the JSON reader \<open>rd\<close> and the
  string reader \<open>rs\<close> of serde, the call ids \<open>ids\<close> drawn from uuid, the text \<open>tj\<close> of the tool list,
  the digest of sha2, the Unicode tables, the backend (a record of functions), the order \<open>it\<close> in which a hash map is walked.

  \<^bold>\<open>Theories and sources.\<close>
  \<^item> \<open>Prelude\<close>: outcomes, machine arithmetic, ranges, counted reachability. \<open>Rust_Text\<close>: strings and
    their byte offsets, searching, splitting, trimming, decimal numerals.
  \<^item> \<open>Arc_Store\<close>, \<open>Kv_Base\<close>, \<open>Cache_Block\<close>, \<open>Block_Table\<close>, \<open>Block_Pool\<close>: llm-kv-cache/src
    lib.rs, format.rs, block_id.rs, block.rs, block_table.rs and block_pool.rs. Rows are in an explicit
    heap of \<open>Arc\<close> cells, so that sharing and copy-on-write are visible. \<open>Block_Pool_Inv\<close> states
    the invariant and \<open>Block_Pool_Ops\<close> shows that the compound operations keep it,
    \<open>Block_Pool_System\<close> is the pool with its clients as a step relation over every public
    operation, and \<open>Block_Pool_Props\<close> has the theorems: exact reference counts, the isolation of
    sessions, and what allocation, release, prefix attachment and copy-on-write do. They are about
    disciplined clients (\<open>permitted\<close>): a client calls \<open>release\<close> only for a reference that it took itself with
    \<open>allocate\<close> or \<open>retain\<close>, and inside \<open>with_block_mut\<close> it appends, overwrites, touches or sets the hash of a block
    and does not clear or reset it. The code does not check this: a client that releases the reference of a
    session frees a block that the session still lists.
  \<^item> \<open>F32_Arith\<close>: binary32 addition, subtraction, multiplication, division, rounding and conversion on bit
    patterns. \<open>Kv_Quantization\<close>: the compressed block stores of format.rs, int8 with one scale a row and packed
    codes of 3, 4 or 8 bits; packing is a round trip, codes are bounded, exactly the finite rows are accepted.
  \<^item> \<open>Layer_Cache\<close>, \<open>Layer_Snapshot\<close>: layer.rs, the cache of one decoder layer. The state is the cache with the
    heap of blocks and the heap of stages. \<open>Layer_Ring\<close> has the invariant (blocks, stages, block runs, compressed
    copies and cached views all agree on the rows of a ring of slots) and that every operation keeps it,
    \<open>Layer_Window\<close> the abstract window and the simulation, \<open>Layer_Runs\<close> the constructor, clones and the
    theorems on whole runs; \<open>Layer_Snapshot\<close> also shows that a snapshot is a round trip.
    \<open>Linear_Cache\<close>: linear.rs, the same for the convolution window of a linear-attention layer.
  \<^item> \<open>Scheduler\<close> and \<open>Scheduler_System\<close>: engine/scheduler.rs. The first has the state behind the
    mutex and each critical section, the second the requests as tasks whose position is the point
    between two critical sections, interleaved in any order, with cancellation at every await.
    \<open>Scheduler_Inv\<close> and \<open>Scheduler_Steps\<close> have the invariant, \<open>Scheduler_Props\<close> the theorems:
    capacity, exact gauges, first-in first-out per class, the bound on prefill bursts, work
    conservation, and a lost wake-up with two slots. \<open>Token_Estimate\<close> is the classification of
    requests by estimated tokens.
  \<^item> \<open>Api_Types\<close>, \<open>Api_Canonical\<close>: llm-api/src error.rs, limits.rs, request.rs, types.rs and
    tool_schema.rs; canonical schemas decide JSON equivalence. \<open>Api_Json_Bytes\<close>, \<open>Api_Checks\<close>,
    \<open>Api_Messages\<close>, \<open>Api_Schema\<close>, \<open>Api_Validation\<close>: validation.rs, validation/helpers.rs and
    llm-util/src/sampling.rs, with a declarative description of the accepted requests, of
    conversations (a grammar of turns) and of schemas.
  \<^item> \<open>Rate_Limit\<close>: engine/rate_limit.rs, refined to a limiter that never forgets a request.
  \<^item> \<open>Engine_Error\<close>: engine/error.rs, llm-runtime/src/error.rs and the error types of
    llm-backend-contracts; every response is a row of the documented table of
    error codes, exactly the failures of \<open>may_retry\<close> are retryable, and what path redaction guarantees.
  \<^item> \<open>Stop\<close>, \<open>Completion_Stream\<close>, \<open>Completion_Stream_Props\<close>: llm-runtime/src stop.rs, the
    completion half of streaming.rs and completions.rs; the incremental detector agrees with a full
    scan, no stop sequence reaches the client, streaming agrees with the single response.
  \<^item> \<open>Tool_Parser\<close>, \<open>Tool_Dialects\<close>, \<open>Gemma_Parser\<close>, \<open>Tool_Dispatch\<close>, \<open>Tool_Parser_Props\<close>:
    llm-tool-parser; conservation of text, round trips, and which parsers cannot panic: the Gemma parser, the
    JSON parser and the two DeepSeek block formats. The tag syntax of Qwen, which Llama and DeepSeek fall
    back to, can (\<open>qwen_unclosed_panics\<close>).
  \<^item> \<open>Chat_Template\<close>, \<open>Chat_Template_Props\<close>, \<open>Gemma_Roundtrip\<close>: llm-chat-template; a Qwen prompt
    has exactly the turns of its messages, and a rendered Gemma call is parsed back. A Gemma prompt can have more
    turns than messages (\<open>gemma_prompt_turns_forged\<close>).
  \<^item> \<open>Model_Family\<close>: llm-models/src/family.rs. \<open>Backend_Request\<close>: the requests, cache keys, sampling, capabilities and
    metadata of llm-backend-contracts/src/lib.rs. \<open>Chat_Request\<close>: llm-runtime/src runtime.rs, capabilities.rs,
    backend_request.rs, cache_identity.rs and the conversions of adapters.rs; cache keys and stable prefix keys
    identify what they are made from.
  \<^item> \<open>Tool_Markup\<close>: the tool markup policies and the incremental detector of adapters.rs; it agrees with a full scan, and
    what may be emitted ends before the first marker. \<open>Response_Validation\<close>: response_validation.rs and the
    intent arguments of tool_call.rs; the validator decides conformance to a schema, a judgement with typing rules
    of its own. \<open>Json_Mode\<close>: json_mode.rs. \<open>No_Progress\<close>: no_progress.rs; \<open>No_Progress_Classes\<close> describes the classes
    without the classifier and shows that it gives exactly these. \<open>Chat_Completion\<close> puts these together as chat.rs and
    completions.rs do and states what a client may rely on in an answer.
  \<^item> \<open>Tool_Deltas\<close>: the assembler and the serializer of streamed tool calls in tool_call.rs; serialising and assembling is
    a round trip. \<open>Chat_Stream\<close>: the chat half of streaming.rs, as one step per part of the generator's loop, and the
    streaming entry points of chat.rs and completions.rs. \<open>Chat_Stream_Props\<close>: no start marker of a tool call reaches the
    client, text without markers is streamed exactly, a stream that ends well agrees with the single response,
    and where the two differ.

  \<^bold>\<open>Interfaces.\<close> \<open>shared_cells\<close> is what blocks rely on of \<open>Arc\<close>; \<open>counted_invariant\<close> an invariant
  whose arithmetic is good for a bounded number of steps (interpreted for the pool and the
  scheduler); \<open>output_simulation\<close> a refinement that keeps outputs (the rate limiter, the
  layer cache and the linear-attention cache);
  \<open>tag_syntax\<close> a pair of tags (Qwen, DSML, DeepSeek, Gemma); \<open>control_token\<close> a token whose occurrences
  are counted across the joints of a rendered prompt (the Qwen turn tokens); \<open>tool_markup\<close> a
  well-formed set of tool markers (every model family). Each is interpreted on the
  definitions of the model.

  \<^bold>\<open>Bounds.\<close> Runs of the pool have fewer than \<open>u64_max - 2\<close> steps and those of the scheduler at most
  \<open>u64_max\<close>, because the access clock, the ticket counter and the gauges are 64-bit counters; at a
  billion steps a second that is five centuries. The only fuel is that of \<open>evict_loop\<close>, the number of
  sessions, and \<open>evict_loop_enough_fuel\<close> shows that it never runs out. The rate limiter theorems
  assume that requests reach the lock in the order in which they read the clock; \<open>acquire\<close> reads it
  before taking the lock. A run of a layer cache has a step budget, so that block identities and the
  count of seen tokens stay below \<open>u64_max\<close>, and its storage in bits is addressable. Memory and the call stack are
  not bounded in the model: the recursive functions of the program, such as \<open>parse_value\<close> of gemma.rs, which has no
  limit on nesting, are total functions here, and running out of stack is outside what absence of panics means.

  \<^bold>\<open>Not modelled.\<close> The numeric kernels and device code (llm-backend, llm-metal, llm-native-runtime)
  compute with floating point numbers and GPU buffers, whose rounding and device semantics
  the sources do not define; llm-bench and the command line of llm-engine are tools around the server; llm-hub and
  llm-tokenizer are file, network and third-party tokenizer calls for the most part. Of the modelled
  crates, what is left is listed in the manifest with each component: serde-derived conversions,
  metric snapshots, logging, and the async plumbing around the modelled functions.
\<close>

end
